(* ===== verification/Prelude.thy ===== *)
theory Prelude
  imports Main "HOL-Library.Word"
begin

text \<open>
  Shared vocabulary of the development: the C integer types as words, byte-addressed
  memory, the little-endian value of a byte sequence, and the lemmas on words, bytes and
  memory updates that several component theories use.  The collections below are filled
  by the component theories and used by their proofs:
  \<^item> \<open>c_word\<close>: rewriting of C word expressions to natural-number arithmetic;
  \<^item> \<open>mem_simps\<close>: reading a memory after a store;
  \<^item> \<open>heap_simps\<close>: reading a linked heap after a pointer assignment.
\<close>

unbundle bit_operations_syntax

named_theorems c_word
named_theorems mem_simps
named_theorems heap_simps

section \<open>C integer types\<close>

text \<open>
  Signed C types are represented by the word holding their two's complement pattern and
  read with \<^const>\<open>sint\<close>.  The widths are those of the configuration the headers come with
  (\<^verbatim>\<open>my_config.h\<close>: \<open>SIZEOF_LONG\<close> is 4, \<open>SIZEOF_VOIDP\<close> and \<open>SIZEOF_SIZE_T\<close> are 8): \<open>int\<close>, \<open>uint\<close>, \<open>long\<close> and
  \<open>ulong\<close> are 32 bits wide, \<open>longlong\<close>, \<open>ulonglong\<close> and \<open>size_t\<close> are 64 bits wide.
\<close>

type_synonym uchar = "8 word"
type_synonym uint16 = "16 word"
type_synonym uint32 = "32 word"
type_synonym uint64 = "64 word"
type_synonym ulong = uint32

text \<open>Byte-addressed memory and pointers into it.\<close>

type_synonym ptr = nat
type_synonym mem = "ptr \<Rightarrow> uchar"

section \<open>Words as numbers\<close>

definition ULONGLONG_MAX :: uint64 where "ULONGLONG_MAX = - 1"

lemma unat_ULONGLONG_MAX: "unat ULONGLONG_MAX = 2 ^ 64 - 1"
  by (simp add: ULONGLONG_MAX_def unsigned_minus_1_eq_mask mask_eq_exp_minus_1)

lemma uchar_lt: "unat (b :: uchar) < 256"
  using unsigned_less [of b] by simp

lemma uint16_lt: "unat (w :: uint16) < 65536"
  using unsigned_less [of w] by simp

lemma uint32_lt: "unat (w :: uint32) < 4294967296"
  using unsigned_less [of w] by simp

lemma uint64_lt: "unat (w :: uint64) < 18446744073709551616"
  using unsigned_less [of w] by simp

lemma unat_ucast_eq_mod:
  "unat (ucast (w :: 'a::len word) :: 'b::len word) = unat w mod 2 ^ LENGTH('b)"
  by (simp add: unsigned_ucast_eq take_bit_eq_mod)

lemma unat_drop_bit_div: "unat (drop_bit n (w :: 'a::len word)) = unat w div 2 ^ n"
  unfolding unsigned_drop_bit_eq by (simp add: drop_bit_eq_div [where 'a = nat] take_bit_eq_mod [where 'a = nat])

lemma unat_push_bit_mod:
  "unat (push_bit n (w :: 'a::len word)) = (unat w * 2 ^ n) mod 2 ^ LENGTH('a)"
  unfolding unsigned_push_bit_eq
  by (simp add: push_bit_eq_mult [where 'a = nat] take_bit_eq_mod [where 'a = nat])

lemmas word_to_nat = unat_ucast_eq_mod unat_drop_bit_div unat_push_bit_mod
  unat_word_ariths

declare word_to_nat [c_word]

lemma word_eq_unatI: "unat a = unat b \<Longrightarrow> a = (b :: 'a::len word)"
  by (rule word_unat_eq_iff [THEN iffD2])

text \<open>A signed number without the sign bit.\<close>

lemma sint_nonneg:
  assumes "unat (w :: 'a::len word) < 2 ^ (LENGTH('a) - 1)"
  shows "sint w = int (unat w)"
proof -
  have "uint w < 2 ^ (LENGTH('a) - 1)"
    using assms by (metis of_nat_less_iff of_nat_numeral of_nat_power of_nat_unat)
  moreover have "- (2 ^ (LENGTH('a) - 1)) \<le> uint w" by (rule order.trans [of _ 0]) simp_all
  ultimately have "signed_take_bit (LENGTH('a) - Suc 0) (uint w) = uint w" by (intro signed_take_bit_int_eq_self) simp_all
  then show ?thesis by (simp add: sint_uint)
qed

lemma bit_word_ge: "LENGTH('a) \<le> n \<Longrightarrow> \<not> bit (w :: 'a::len word) n"
  by (auto dest: bit_imp_le_length)

lemma bit_nat_lt: "(a :: nat) < 2 ^ k \<Longrightarrow> bit a n \<Longrightarrow> n < k"
  using bit_take_bit_iff [of k a n] by (simp add: take_bit_nat_eq_self)

lemma bit_of_lt: "unat v < 2 ^ n \<Longrightarrow> bit (v :: 'a::len word) i \<Longrightarrow> i < n"
proof -
  assume v: "unat v < 2 ^ n" and "bit v i"
  then have "odd (unat v div 2 ^ i)" by (simp add: bit_unsigned_iff flip: bit_iff_odd)
  then have "2 ^ i \<le> unat v" by (metis div_less even_zero not_less)
  from this v have "2 ^ i < (2 :: nat) ^ n" by (rule le_less_trans)
  then show "i < n" by simp
qed

lemma or_shift_nat: "(a :: nat) < 2 ^ k \<Longrightarrow> a OR push_bit k x = a + 2 ^ k * x"
proof -
  assume "a < 2 ^ k"
  then have "\<not> bit a n \<or> \<not> bit (push_bit k x) n" for n
    by (auto simp: bit_push_bit_iff_nat dest: bit_nat_lt)
  from disjunctive_add [OF this] show ?thesis by (simp add: push_bit_eq_mult mult.commute)
qed

text \<open>Combining a low part and a shifted high part of a word.\<close>

lemma unat_or_shift:
  fixes a b :: "'a::len word"
  assumes "unat a < 2 ^ k" "2 ^ k * unat b < 2 ^ LENGTH('a)"
  shows "unat (a OR push_bit k b) = unat a + 2 ^ k * unat b"
proof -
  have "unat (push_bit k b) = push_bit k (unat b)"
    using assms(2) by (simp add: unat_push_bit_mod push_bit_eq_mult [where 'a = nat] mult.commute)
  then show ?thesis using or_shift_nat [OF assms(1)] by (simp add: unsigned_or_eq)
qed

section \<open>Little-endian numbers\<close>

text \<open>The number a byte sequence denotes, lowest byte first.\<close>

primrec le_nat :: "uchar list \<Rightarrow> nat" where
  "le_nat [] = 0"
| "le_nat (b # bs) = unat b + 256 * le_nat bs"

text \<open>The \<open>n\<close> lowest bytes of a number, lowest first.\<close>

primrec le_bytes :: "nat \<Rightarrow> nat \<Rightarrow> uchar list" where
  "le_bytes 0 v = []"
| "le_bytes (Suc n) v = of_nat v # le_bytes n (v div 256)"

lemma le_bytes_rec: "0 < n \<Longrightarrow> le_bytes n v = of_nat v # le_bytes (n - 1) (v div 256)"
  by (cases n) simp_all

lemma length_le_bytes [simp]: "length (le_bytes n v) = n"
  by (induction n arbitrary: v) auto

lemma le_nat_bound: "le_nat bs < 256 ^ length bs"
proof (induction bs)
  case (Cons b bs)
  have "unat b + 256 * le_nat bs < 256 * Suc (le_nat bs)" using uchar_lt [of b] by simp
  also have "\<dots> \<le> 256 * 256 ^ length bs" using Cons by (intro mult_le_mono2) simp
  finally show ?case by simp
qed simp

lemma unat_of_nat_uchar: "unat (of_nat v :: uchar) = v mod 256"
  by (simp add: unat_of_nat)

lemma le_nat_le_bytes: "le_nat (le_bytes n v) = v mod 256 ^ n"
proof (induction n arbitrary: v)
  case (Suc n)
  then show ?case
    by (simp add: unat_of_nat_uchar mod_mult2_eq mult.commute [of _ 256])
qed simp

lemma le_bytes_le_nat: "le_bytes (length bs) (le_nat bs) = bs"
proof (induction bs)
  case (Cons b bs)
  have "of_nat (unat b + 256 * le_nat bs) = b"
    by (rule word_eq_unatI) (simp only: unat_of_nat_uchar mod_mult_self2 mod_less uchar_lt)
  moreover have "(unat b + 256 * le_nat bs) div 256 = le_nat bs"
    using uchar_lt [of b] by linarith
  ultimately show ?case using Cons by simp
qed simp

lemma le_nat_inj: "length xs = length ys \<Longrightarrow> le_nat xs = le_nat ys \<Longrightarrow> xs = ys"
  by (metis le_bytes_le_nat)

lemma le_nat_append: "le_nat (xs @ ys) = le_nat xs + 256 ^ length xs * le_nat ys"
  by (induction xs) (simp_all add: algebra_simps)

section \<open>Memory\<close>

text \<open>The \<open>n\<close> bytes stored at \<open>p\<close>, and memory with the bytes \<open>bs\<close> copied to \<open>p\<close>
  (\<open>memcpy\<close>).\<close>

definition bytes_at :: "mem \<Rightarrow> ptr \<Rightarrow> nat \<Rightarrow> uchar list" where
  "bytes_at m p n = map m [p ..< p + n]"

primrec put_bytes :: "mem \<Rightarrow> ptr \<Rightarrow> uchar list \<Rightarrow> mem" where
  "put_bytes m p [] = m"
| "put_bytes m p (b # bs) = put_bytes (m(p := b)) (Suc p) bs"

lemma length_bytes_at [simp]: "length (bytes_at m p n) = n"
  by (simp add: bytes_at_def)

lemma nth_bytes_at: "i < n \<Longrightarrow> bytes_at m p n ! i = m (p + i)"
  by (simp add: bytes_at_def)

lemma bytes_at_Suc: "bytes_at m p (Suc n) = m p # bytes_at m (Suc p) n"
  by (simp add: bytes_at_def upt_conv_Cons del: upt_Suc)

lemma bytes_at_0 [simp]: "bytes_at m p 0 = []"
  by (simp add: bytes_at_def)

lemma put_bytes_apply:
  "put_bytes m p bs a = (if p \<le> a \<and> a < p + length bs then bs ! (a - p) else m a)"
proof (induction bs arbitrary: m p a)
  case (Cons b bs)
  show ?case
  proof (cases "a = p")
    case True
    then show ?thesis by (simp add: Cons)
  next
    case False
    then show ?thesis
      by (cases "p < a") (auto simp: Cons Suc_le_eq nth_Cons' simp flip: diff_Suc_eq_diff_pred)
  qed
qed auto

lemma put_bytes_outside [mem_simps]:
  "a < p \<or> p + length bs \<le> a \<Longrightarrow> put_bytes m p bs a = m a"
  by (auto simp: put_bytes_apply)

lemma bytes_at_put_same [mem_simps]:
  "n = length bs \<Longrightarrow> bytes_at (put_bytes m p bs) p n = bs"
  by (rule nth_equalityI) (auto simp: nth_bytes_at put_bytes_apply)

lemma bytes_at_put_other [mem_simps]:
  "q + n \<le> p \<or> p + length bs \<le> q \<Longrightarrow> bytes_at (put_bytes m p bs) q n = bytes_at m q n"
  by (rule nth_equalityI) (auto simp: nth_bytes_at put_bytes_apply)

lemma bytes_at_append:
  "bytes_at m p (i + j) = bytes_at m p i @ bytes_at m (p + i) j"
  by (induction i arbitrary: p) (simp_all add: bytes_at_Suc)

lemma put_bytes_append:
  "put_bytes m p (xs @ ys) = put_bytes (put_bytes m p xs) (p + length xs) ys"
  by (induction xs arbitrary: m p) simp_all

end
