(* ===== verification/ByteOrder.thy ===== *)
theory ByteOrder
  imports Prelude
begin

text \<open>
  Reading and storing integers in the machine-independent format, low byte first:
  \<^verbatim>\<open>my_byteorder.h\<close> with its three implementations \<^verbatim>\<open>byte_order_generic.h\<close>,
  \<^verbatim>\<open>byte_order_generic_x86_64.h\<close> (suffix \<open>_x86_64\<close>) and \<^verbatim>\<open>byte_order_generic_x86.h\<close>
  (suffix \<open>_x86\<close>), and the machine-format accessors of \<^verbatim>\<open>little_endian.h\<close> (suffix \<open>_le\<close>)
  and \<^verbatim>\<open>big_endian.h\<close> (suffix \<open>_be\<close>).  A macro that reads takes the memory and a byte
  pointer, a macro that stores returns the memory after the store.
\<close>

unbundle bit_operations_syntax

section \<open>Typed accesses of the target\<close>

text \<open>
  \<open>*(T *) p\<close> on a little-endian target reads the \<open>n\<close> bytes at \<open>p\<close>, and an assignment to it
  stores them; \<open>bswapq\<close> reverses the eight bytes of a register.
\<close>

definition load_le :: "nat \<Rightarrow> mem \<Rightarrow> ptr \<Rightarrow> 'a::len word" where
  "load_le n m p = of_nat (le_nat (bytes_at m p n))"

definition store_le :: "nat \<Rightarrow> mem \<Rightarrow> ptr \<Rightarrow> 'a::len word \<Rightarrow> mem" where
  "store_le n m p v = put_bytes m p (le_bytes n (unat v))"

definition bswapq :: "uint64 \<Rightarrow> uint64" where
  "bswapq v = of_nat (le_nat (rev (le_bytes 8 (unat v))))"

section \<open>my\_byteorder.h\<close>

definition int4net :: "mem \<Rightarrow> ptr \<Rightarrow> uint32" where
  "int4net m A = ucast (m (A + 3)) OR push_bit 8 (ucast (m (A + 2))) OR
     push_bit 16 (ucast (m (A + 1))) OR push_bit 24 (ucast (m A))"

section \<open>byte\_order\_generic.h\<close>

definition sint2korr :: "mem \<Rightarrow> ptr \<Rightarrow> uint16" where
  "sint2korr m A = ucast ((ucast (m A) :: uint32) + push_bit 8 (ucast (m (A + 1))))"

definition sint3korr :: "mem \<Rightarrow> ptr \<Rightarrow> uint32" where
  "sint3korr m A =
     (if m (A + 2) AND 128 \<noteq> 0
      then push_bit 24 255 OR push_bit 16 (ucast (m (A + 2))) OR
           push_bit 8 (ucast (m (A + 1))) OR ucast (m A)
      else push_bit 16 (ucast (m (A + 2))) OR push_bit 8 (ucast (m (A + 1))) OR ucast (m A))"

definition sint4korr :: "mem \<Rightarrow> ptr \<Rightarrow> uint32" where
  "sint4korr m A = ucast (m A) + push_bit 8 (ucast (m (A + 1))) +
     push_bit 16 (ucast (m (A + 2))) + push_bit 24 (ucast (m (A + 3)))"

definition uint2korr :: "mem \<Rightarrow> ptr \<Rightarrow> uint16" where
  "uint2korr m A = ucast ((ucast (m A) :: uint32) + push_bit 8 (ucast (m (A + 1))))"

definition uint3korr :: "mem \<Rightarrow> ptr \<Rightarrow> uint32" where
  "uint3korr m A = ucast (m A) + push_bit 8 (ucast (m (A + 1))) +
     push_bit 16 (ucast (m (A + 2)))"

definition uint4korr :: "mem \<Rightarrow> ptr \<Rightarrow> uint32" where
  "uint4korr m A = ucast (m A) + push_bit 8 (ucast (m (A + 1))) +
     push_bit 16 (ucast (m (A + 2))) + push_bit 24 (ucast (m (A + 3)))"

definition uint5korr :: "mem \<Rightarrow> ptr \<Rightarrow> uint64" where
  "uint5korr m A =
     ucast ((ucast (m A) :: uint32) + push_bit 8 (ucast (m (A + 1))) +
            push_bit 16 (ucast (m (A + 2))) + push_bit 24 (ucast (m (A + 3)))) +
     push_bit 32 (ucast (m (A + 4)))"

definition uint6korr :: "mem \<Rightarrow> ptr \<Rightarrow> uint64" where
  "uint6korr m A =
     ucast ((ucast (m A) :: uint32) + push_bit 8 (ucast (m (A + 1))) +
            push_bit 16 (ucast (m (A + 2))) + push_bit 24 (ucast (m (A + 3)))) +
     push_bit 32 (ucast (m (A + 4))) + push_bit 40 (ucast (m (A + 5)))"

definition uint8korr :: "mem \<Rightarrow> ptr \<Rightarrow> uint64" where
  "uint8korr m A =
     ucast ((ucast (m A) :: uint32) + push_bit 8 (ucast (m (A + 1))) +
            push_bit 16 (ucast (m (A + 2))) + push_bit 24 (ucast (m (A + 3)))) +
     push_bit 32 (ucast ((ucast (m (A + 4)) :: uint32) + push_bit 8 (ucast (m (A + 5))) +
            push_bit 16 (ucast (m (A + 6))) + push_bit 24 (ucast (m (A + 7)))))"

definition sint8korr :: "mem \<Rightarrow> ptr \<Rightarrow> uint64" where
  "sint8korr m A = uint8korr m A"

definition int2store :: "mem \<Rightarrow> ptr \<Rightarrow> uint32 \<Rightarrow> mem" where
  "int2store m T A = m(T := ucast A, T + 1 := ucast (drop_bit 8 A))"

definition int3store :: "mem \<Rightarrow> ptr \<Rightarrow> uint32 \<Rightarrow> mem" where
  "int3store m T A = m(T := ucast A, T + 1 := ucast (drop_bit 8 A), T + 2 := ucast (drop_bit 16 A))"

definition int4store :: "mem \<Rightarrow> ptr \<Rightarrow> uint32 \<Rightarrow> mem" where
  "int4store m T A = m(T := ucast A, T + 1 := ucast (drop_bit 8 A),
     T + 2 := ucast (drop_bit 16 A), T + 3 := ucast (drop_bit 24 A))"

definition int5store :: "mem \<Rightarrow> ptr \<Rightarrow> uint64 \<Rightarrow> mem" where
  "int5store m T A = m(T := ucast A, T + 1 := ucast (drop_bit 8 A),
     T + 2 := ucast (drop_bit 16 A), T + 3 := ucast (drop_bit 24 A),
     T + 4 := ucast (drop_bit 32 A))"

definition int6store :: "mem \<Rightarrow> ptr \<Rightarrow> uint64 \<Rightarrow> mem" where
  "int6store m T A = m(T := ucast A, T + 1 := ucast (drop_bit 8 A),
     T + 2 := ucast (drop_bit 16 A), T + 3 := ucast (drop_bit 24 A),
     T + 4 := ucast (drop_bit 32 A), T + 5 := ucast (drop_bit 40 A))"

definition int8store :: "mem \<Rightarrow> ptr \<Rightarrow> uint64 \<Rightarrow> mem" where
  "int8store m T A =
     (let def_temp = ucast A; def_temp2 = ucast (drop_bit 32 A)
      in int4store (int4store m T def_temp) (T + 4) def_temp2)"

section \<open>byte\_order\_generic\_x86\_64.h\<close>

definition sint2korr_x86_64 :: "mem \<Rightarrow> ptr \<Rightarrow> uint16" where
  "sint2korr_x86_64 m A = load_le 2 m A"

definition sint3korr_x86_64 :: "mem \<Rightarrow> ptr \<Rightarrow> uint32" where
  "sint3korr_x86_64 m A =
     (if m (A + 2) AND 128 \<noteq> 0
      then push_bit 24 255 OR push_bit 16 (ucast (m (A + 2))) OR
           push_bit 8 (ucast (m (A + 1))) OR ucast (m A)
      else push_bit 16 (ucast (m (A + 2))) OR push_bit 8 (ucast (m (A + 1))) OR ucast (m A))"

definition sint4korr_x86_64 :: "mem \<Rightarrow> ptr \<Rightarrow> uint32" where
  "sint4korr_x86_64 m A = load_le 4 m A"

definition uint2korr_x86_64 :: "mem \<Rightarrow> ptr \<Rightarrow> uint16" where
  "uint2korr_x86_64 m A = load_le 2 m A"

definition uint3korr_x86_64 :: "mem \<Rightarrow> ptr \<Rightarrow> uint32" where
  "uint3korr_x86_64 m A = ucast (m A) + push_bit 8 (ucast (m (A + 1))) +
     push_bit 16 (ucast (m (A + 2)))"

definition uint4korr_x86_64 :: "mem \<Rightarrow> ptr \<Rightarrow> uint32" where
  "uint4korr_x86_64 m A = load_le 4 m A"

definition uint5korr_x86_64 :: "mem \<Rightarrow> ptr \<Rightarrow> uint64" where
  "uint5korr_x86_64 m p =
     (let a = ucast (load_le 4 m p :: uint32); b = ucast (m (4 + p))
      in a OR push_bit 32 b)"

definition uint6korr_x86_64 :: "mem \<Rightarrow> ptr \<Rightarrow> uint64" where
  "uint6korr_x86_64 m p =
     (let a = ucast (load_le 4 m p :: uint32); b = ucast (load_le 2 m (4 + p) :: uint16)
      in a OR push_bit 32 b)"

definition uint8korr_x86_64 :: "mem \<Rightarrow> ptr \<Rightarrow> uint64" where
  "uint8korr_x86_64 m A = load_le 8 m A"

definition sint8korr_x86_64 :: "mem \<Rightarrow> ptr \<Rightarrow> uint64" where
  "sint8korr_x86_64 m A = load_le 8 m A"

definition int2store_x86_64 :: "mem \<Rightarrow> ptr \<Rightarrow> uint32 \<Rightarrow> mem" where
  "int2store_x86_64 m T A = store_le 2 m T (ucast A :: uint16)"

definition int3store_x86_64 :: "mem \<Rightarrow> ptr \<Rightarrow> uint32 \<Rightarrow> mem" where
  "int3store_x86_64 m T A =
     m(T := ucast A, T + 1 := ucast (drop_bit 8 A), T + 2 := ucast (drop_bit 16 A))"

definition int4store_x86_64 :: "mem \<Rightarrow> ptr \<Rightarrow> uint32 \<Rightarrow> mem" where
  "int4store_x86_64 m T A = store_le 4 m T A"

definition int5store_x86_64 :: "mem \<Rightarrow> ptr \<Rightarrow> uint64 \<Rightarrow> mem" where
  "int5store_x86_64 m T A =
     (store_le 4 m T (ucast A :: uint32))(T + 4 := ucast (drop_bit 32 A))"

definition int6store_x86_64 :: "mem \<Rightarrow> ptr \<Rightarrow> uint64 \<Rightarrow> mem" where
  "int6store_x86_64 m T A =
     store_le 2 (store_le 4 m T (ucast A :: uint32)) (T + 4) (ucast (drop_bit 32 A) :: uint16)"

definition int8store_x86_64 :: "mem \<Rightarrow> ptr \<Rightarrow> uint64 \<Rightarrow> mem" where
  "int8store_x86_64 m T A = store_le 8 m T A"

definition mi_uint5korr_x86_64 :: "mem \<Rightarrow> ptr \<Rightarrow> uint64" where
  "mi_uint5korr_x86_64 m p =
     (let a = ucast (load_le 4 m p :: uint32); b = ucast (m (4 + p));
          v = push_bit 24 (a OR push_bit 32 b)
      in bswapq v)"

definition mi_uint6korr_x86_64 :: "mem \<Rightarrow> ptr \<Rightarrow> uint64" where
  "mi_uint6korr_x86_64 m p =
     (let a = ucast (load_le 4 m p :: uint32); b = ucast (load_le 2 m (4 + p) :: uint16);
          v = push_bit 16 (a OR push_bit 32 b)
      in bswapq v)"

definition mi_uint7korr_x86_64 :: "mem \<Rightarrow> ptr \<Rightarrow> uint64" where
  "mi_uint7korr_x86_64 m p =
     (let a = ucast (load_le 4 m p :: uint32); b = ucast (load_le 2 m (4 + p) :: uint16);
          c = ucast (m (6 + p)); v = push_bit 8 (a OR push_bit 32 b OR push_bit 48 c)
      in bswapq v)"

definition mi_uint8korr_x86_64 :: "mem \<Rightarrow> ptr \<Rightarrow> uint64" where
  "mi_uint8korr_x86_64 m p = bswapq (load_le 8 m p)"

section \<open>byte\_order\_generic\_x86.h\<close>

text \<open>\<open>long\<close> is 32 bits wide on the targets that include this header.\<close>

definition sint2korr_x86 :: "mem \<Rightarrow> ptr \<Rightarrow> uint16" where
  "sint2korr_x86 m A = load_le 2 m A"

definition sint3korr_x86 :: "mem \<Rightarrow> ptr \<Rightarrow> uint32" where
  "sint3korr_x86 m A =
     (if m (A + 2) AND 128 \<noteq> 0
      then push_bit 24 255 OR push_bit 16 (ucast (m (A + 2))) OR
           push_bit 8 (ucast (m (A + 1))) OR ucast (m A)
      else push_bit 16 (ucast (m (A + 2))) OR push_bit 8 (ucast (m (A + 1))) OR ucast (m A))"

definition sint4korr_x86 :: "mem \<Rightarrow> ptr \<Rightarrow> uint32" where
  "sint4korr_x86 m A = load_le 4 m A"

definition uint2korr_x86 :: "mem \<Rightarrow> ptr \<Rightarrow> uint16" where
  "uint2korr_x86 m A = load_le 2 m A"

definition uint3korr_x86 :: "mem \<Rightarrow> ptr \<Rightarrow> uint32" where
  "uint3korr_x86 m A = ucast (m A) + push_bit 8 (ucast (m (A + 1))) +
     push_bit 16 (ucast (m (A + 2)))"

definition uint4korr_x86 :: "mem \<Rightarrow> ptr \<Rightarrow> uint32" where
  "uint4korr_x86 m A = load_le 4 m A"

definition uint5korr_x86 :: "mem \<Rightarrow> ptr \<Rightarrow> uint64" where
  "uint5korr_x86 m A =
     ucast ((ucast (m A) :: uint32) + push_bit 8 (ucast (m (A + 1))) +
            push_bit 16 (ucast (m (A + 2))) + push_bit 24 (ucast (m (A + 3)))) +
     push_bit 32 (ucast (m (A + 4)))"

definition uint6korr_x86 :: "mem \<Rightarrow> ptr \<Rightarrow> uint64" where
  "uint6korr_x86 m A =
     ucast ((ucast (m A) :: uint32) + push_bit 8 (ucast (m (A + 1))) +
            push_bit 16 (ucast (m (A + 2))) + push_bit 24 (ucast (m (A + 3)))) +
     push_bit 32 (ucast (m (A + 4))) + push_bit 40 (ucast (m (A + 5)))"

definition uint8korr_x86 :: "mem \<Rightarrow> ptr \<Rightarrow> uint64" where
  "uint8korr_x86 m A = load_le 8 m A"

definition sint8korr_x86 :: "mem \<Rightarrow> ptr \<Rightarrow> uint64" where
  "sint8korr_x86 m A = load_le 8 m A"

definition int2store_x86 :: "mem \<Rightarrow> ptr \<Rightarrow> uint32 \<Rightarrow> mem" where
  "int2store_x86 m T A = store_le 2 m T (ucast A :: uint16)"

definition int3store_x86 :: "mem \<Rightarrow> ptr \<Rightarrow> uint32 \<Rightarrow> mem" where
  "int3store_x86 m T A =
     m(T := ucast A, T + 1 := ucast (drop_bit 8 A), T + 2 := ucast (drop_bit 16 A))"

definition int4store_x86 :: "mem \<Rightarrow> ptr \<Rightarrow> uint32 \<Rightarrow> mem" where
  "int4store_x86 m T A = store_le 4 m T A"

definition int5store_x86 :: "mem \<Rightarrow> ptr \<Rightarrow> uint64 \<Rightarrow> mem" where
  "int5store_x86 m T A = m(T := ucast A, T + 1 := ucast (drop_bit 8 A),
     T + 2 := ucast (drop_bit 16 A), T + 3 := ucast (drop_bit 24 A),
     T + 4 := ucast (drop_bit 32 A))"

definition int6store_x86 :: "mem \<Rightarrow> ptr \<Rightarrow> uint64 \<Rightarrow> mem" where
  "int6store_x86 m T A = m(T := ucast A, T + 1 := ucast (drop_bit 8 A),
     T + 2 := ucast (drop_bit 16 A), T + 3 := ucast (drop_bit 24 A),
     T + 4 := ucast (drop_bit 32 A), T + 5 := ucast (drop_bit 40 A))"

definition int8store_x86 :: "mem \<Rightarrow> ptr \<Rightarrow> uint64 \<Rightarrow> mem" where
  "int8store_x86 m T A = store_le 8 m T A"

section \<open>big\_endian.h\<close>

text \<open>
  A floating-point variable is named by its address; the macros copy its object
  representation byte by byte, in the order of the source, so overlapping operands are
  treated as the source treats them.
\<close>

definition float4store_be :: "mem \<Rightarrow> ptr \<Rightarrow> ptr \<Rightarrow> mem" where
  "float4store_be m T A =
     (let m = m(T := m (A + 3)); m = m(T + 1 := m (A + 2));
          m = m(T + 2 := m (A + 1)); m = m(T + 3 := m A) in m)"

definition float4get_be :: "mem \<Rightarrow> ptr \<Rightarrow> ptr \<Rightarrow> mem" where
  "float4get_be m V M =
     (let def_temp = [m (M + 3), m (M + 2), m (M + 1), m M] in put_bytes m V def_temp)"

definition float8store_be :: "mem \<Rightarrow> ptr \<Rightarrow> ptr \<Rightarrow> mem" where
  "float8store_be m T V =
     (let m = m(T := m (V + 7)); m = m(T + 1 := m (V + 6));
          m = m(T + 2 := m (V + 5)); m = m(T + 3 := m (V + 4));
          m = m(T + 4 := m (V + 3)); m = m(T + 5 := m (V + 2));
          m = m(T + 6 := m (V + 1)); m = m(T + 7 := m V) in m)"

definition float8get_be :: "mem \<Rightarrow> ptr \<Rightarrow> ptr \<Rightarrow> mem" where
  "float8get_be m V M =
     (let def_temp = [m (M + 7), m (M + 6), m (M + 5), m (M + 4),
                      m (M + 3), m (M + 2), m (M + 1), m M]
      in put_bytes m V def_temp)"

definition ushortget_be :: "mem \<Rightarrow> ptr \<Rightarrow> uint16" where
  "ushortget_be m M = ucast ((ucast (m (M + 1)) :: uint32) + push_bit 8 (ucast (m M)))"

definition shortget_be :: "mem \<Rightarrow> ptr \<Rightarrow> uint16" where
  "shortget_be m M = ucast ((ucast (m (M + 1)) :: uint32) + push_bit 8 (ucast (m M)))"

text \<open>The 32-bit variable filled byte by byte is read in the big-endian machine format.\<close>

definition longget_be :: "mem \<Rightarrow> ptr \<Rightarrow> uint32" where
  "longget_be m M = (let def_temp = [m M, m (M + 1), m (M + 2), m (M + 3)] in of_nat (le_nat (rev def_temp)))"

definition ulongget_be :: "mem \<Rightarrow> ptr \<Rightarrow> uint32" where
  "ulongget_be m M = (let def_temp = [m M, m (M + 1), m (M + 2), m (M + 3)] in of_nat (le_nat (rev def_temp)))"

definition shortstore_be :: "mem \<Rightarrow> ptr \<Rightarrow> uint32 \<Rightarrow> mem" where
  "shortstore_be m T A = m(T + 1 := ucast A, T + 0 := ucast (drop_bit 8 A))"

definition longstore_be :: "mem \<Rightarrow> ptr \<Rightarrow> uint32 \<Rightarrow> mem" where
  "longstore_be m T A = m(T + 3 := ucast A, T + 2 := ucast (drop_bit 8 A),
     T + 1 := ucast (drop_bit 16 A), T + 0 := ucast (drop_bit 24 A))"

section \<open>little\_endian.h\<close>

definition float4get_le :: "mem \<Rightarrow> ptr \<Rightarrow> ptr \<Rightarrow> mem" where
  "float4get_le m V M = put_bytes m V (bytes_at m M 4)"

definition float4store_le :: "mem \<Rightarrow> ptr \<Rightarrow> ptr \<Rightarrow> mem" where
  "float4store_le m V M = put_bytes m V (bytes_at m M 4)"

text \<open>\<open>doublestore\<close> and \<open>doubleget\<close> on hardware whose doubles have the other word order
  (suffix \<open>_bi\<close>), and on all other little-endian hardware.\<close>

definition doublestore_bi :: "mem \<Rightarrow> ptr \<Rightarrow> ptr \<Rightarrow> mem" where
  "doublestore_bi m T V =
     (let m = m(T + 0 := m (V + 4)); m = m(T + 1 := m (V + 5));
          m = m(T + 2 := m (V + 6)); m = m(T + 3 := m (V + 7));
          m = m(T + 4 := m (V + 0)); m = m(T + 5 := m (V + 1));
          m = m(T + 6 := m (V + 2)); m = m(T + 7 := m (V + 3)) in m)"

definition doubleget_bi :: "mem \<Rightarrow> ptr \<Rightarrow> ptr \<Rightarrow> mem" where
  "doubleget_bi m V M =
     (let def_temp = [m (M + 4), m (M + 5), m (M + 6), m (M + 7),
                      m (M + 0), m (M + 1), m (M + 2), m (M + 3)]
      in put_bytes m V def_temp)"

definition doublestore_le :: "mem \<Rightarrow> ptr \<Rightarrow> ptr \<Rightarrow> mem" where
  "doublestore_le m T V = put_bytes m T (bytes_at m V 8)"

definition doubleget_le :: "mem \<Rightarrow> ptr \<Rightarrow> ptr \<Rightarrow> mem" where
  "doubleget_le m V M = put_bytes m V (bytes_at m M 8)"

definition ushortget_le :: "mem \<Rightarrow> ptr \<Rightarrow> uint16" where
  "ushortget_le m M = uint2korr m M"

definition shortget_le :: "mem \<Rightarrow> ptr \<Rightarrow> uint16" where
  "shortget_le m M = sint2korr m M"

definition longget_le :: "mem \<Rightarrow> ptr \<Rightarrow> uint32" where
  "longget_le m M = sint4korr m M"

definition ulongget_le :: "mem \<Rightarrow> ptr \<Rightarrow> uint32" where
  "ulongget_le m M = uint4korr m M"

definition shortstore_le :: "mem \<Rightarrow> ptr \<Rightarrow> uint32 \<Rightarrow> mem" where
  "shortstore_le m T V = int2store m T V"

definition longstore_le :: "mem \<Rightarrow> ptr \<Rightarrow> uint32 \<Rightarrow> mem" where
  "longstore_le m T V = int4store m T V"

section \<open>Values of the readers\<close>

lemma bytes_at_numeral:
  "bytes_at m p 2 = [m p, m (p + 1)]"
  "bytes_at m p 3 = [m p, m (p + 1), m (p + 2)]"
  "bytes_at m p 4 = [m p, m (p + 1), m (p + 2), m (p + 3)]"
  "bytes_at m p 5 = [m p, m (p + 1), m (p + 2), m (p + 3), m (p + 4)]"
  "bytes_at m p 6 = [m p, m (p + 1), m (p + 2), m (p + 3), m (p + 4), m (p + 5)]"
  "bytes_at m p 7 = [m p, m (p + 1), m (p + 2), m (p + 3), m (p + 4), m (p + 5), m (p + 6)]"
  "bytes_at m p 8 = [m p, m (p + 1), m (p + 2), m (p + 3), m (p + 4), m (p + 5), m (p + 6), m (p + 7)]"
  by (simp_all add: numeral_eq_Suc bytes_at_Suc)

lemma unat_korr_sum4:
  "unat ((ucast (a :: uchar) :: uint32) + push_bit 8 (ucast (b :: uchar)) +
         push_bit 16 (ucast (c :: uchar)) + push_bit 24 (ucast (d :: uchar))) = le_nat [a, b, c, d]"
  using uchar_lt [of a] uchar_lt [of b] uchar_lt [of c] uchar_lt [of d]
  by (simp add: c_word)

lemma unat_korr_sum3:
  "unat ((ucast (a :: uchar) :: uint32) + push_bit 8 (ucast (b :: uchar)) +
         push_bit 16 (ucast (c :: uchar))) = le_nat [a, b, c]"
  using uchar_lt [of a] uchar_lt [of b] uchar_lt [of c] by (simp add: c_word)

lemma unat_korr_sum2:
  "unat (ucast ((ucast (a :: uchar) :: uint32) + push_bit 8 (ucast (b :: uchar))) :: uint16) = le_nat [a, b]"
  using uchar_lt [of a] uchar_lt [of b] by (simp add: c_word)

lemma unat_lt_mono: "LENGTH('a) \<le> n \<Longrightarrow> unat (w :: 'a::len word) < 2 ^ n"
  by (rule less_le_trans [OF unsigned_less power_increasing]) simp_all

lemma unat_ucast_up:
  "LENGTH('a) \<le> LENGTH('b) \<Longrightarrow> unat (ucast (w :: 'a::len word) :: 'b::len word) = unat w"
  by (simp add: unat_ucast_eq_mod unat_lt_mono)

lemma unat_combine32:
  fixes lo :: uint32 and hi :: "'a::len word"
  assumes "LENGTH('a) \<le> 32"
  shows "unat (ucast lo + push_bit 32 (ucast hi) :: uint64) = unat lo + 4294967296 * unat hi"
    and "unat (ucast lo OR push_bit 32 (ucast hi) :: uint64) = unat lo + 4294967296 * unat hi"
proof -
  have "unat hi < 2 ^ 32" using assms by (rule unat_lt_mono)
  moreover have "unat (ucast hi :: uint64) = unat hi" using assms by (intro unat_ucast_up) simp
  moreover have "unat (ucast lo :: uint64) = unat lo" by (intro unat_ucast_up) simp
  ultimately show "unat (ucast lo + push_bit 32 (ucast hi) :: uint64) = unat lo + 4294967296 * unat hi"
    and "unat (ucast lo OR push_bit 32 (ucast hi) :: uint64) = unat lo + 4294967296 * unat hi"
    using uint32_lt [of lo]
    by (simp_all add: unat_word_ariths unat_push_bit_mod unat_or_shift)
qed

lemma unat_load_le: "8 * n \<le> LENGTH('a) \<Longrightarrow> unat (load_le n m p :: 'a::len word) = le_nat (bytes_at m p n)"
proof -
  assume n: "8 * n \<le> LENGTH('a)"
  have "le_nat (bytes_at m p n) < 2 ^ (8 * n)"
    using le_nat_bound [of "bytes_at m p n"] by (simp add: power_mult)
  also have "\<dots> \<le> 2 ^ LENGTH('a)" using n by (rule power_increasing) simp
  finally show ?thesis by (simp add: load_le_def unat_of_nat)
qed

lemma load_le_eqI: "8 * n \<le> LENGTH('a) \<Longrightarrow> unat w = le_nat (bytes_at m p n) \<Longrightarrow> load_le n m p = (w :: 'a::len word)"
  by (rule word_eq_unatI) (simp add: unat_load_le)

text \<open>Every unsigned reader returns the little-endian number of the bytes it reads.\<close>

lemma unat_uint2korr: "unat (uint2korr m A) = le_nat (bytes_at m A 2)"
  by (simp only: uint2korr_def unat_korr_sum2 bytes_at_numeral)

lemma unat_sint2korr: "unat (sint2korr m A) = le_nat (bytes_at m A 2)"
  by (simp only: sint2korr_def unat_korr_sum2 bytes_at_numeral)

lemma unat_uint3korr: "unat (uint3korr m A) = le_nat (bytes_at m A 3)"
  by (simp only: uint3korr_def unat_korr_sum3 bytes_at_numeral)

lemma unat_uint4korr: "unat (uint4korr m A) = le_nat (bytes_at m A 4)"
  by (simp only: uint4korr_def unat_korr_sum4 bytes_at_numeral)

lemma unat_sint4korr: "unat (sint4korr m A) = le_nat (bytes_at m A 4)"
  by (simp only: sint4korr_def unat_korr_sum4 bytes_at_numeral)

lemma unat_uint5korr: "unat (uint5korr m A) = le_nat (bytes_at m A 5)"
  unfolding uint5korr_def
  by (subst unat_combine32) (simp_all add: unat_korr_sum4 bytes_at_numeral)

lemma unat_uint6korr: "unat (uint6korr m A) = le_nat (bytes_at m A 6)"
proof -
  let ?lo = "(ucast (m A) :: uint32) + push_bit 8 (ucast (m (A + 1))) +
            push_bit 16 (ucast (m (A + 2))) + push_bit 24 (ucast (m (A + 3)))"
  have "unat (ucast ?lo + push_bit 32 (ucast (m (A + 4))) :: uint64) = le_nat (bytes_at m A 5)"
    using unat_uint5korr [of m A] by (simp add: uint5korr_def)
  moreover have "le_nat (bytes_at m A 5) < 256 ^ 5" using le_nat_bound [of "bytes_at m A 5"] by simp
  moreover have "unat (push_bit 40 (ucast (m (A + 5))) :: uint64) = 256 ^ 5 * unat (m (A + 5))"
    using uchar_lt [of "m (A + 5)"] by (simp add: c_word)
  ultimately show ?thesis
    using uchar_lt [of "m (A + 5)"]
    by (simp add: uint6korr_def unat_word_ariths bytes_at_numeral)
qed

lemma unat_uint8korr: "unat (uint8korr m A) = le_nat (bytes_at m A 8)"
  unfolding uint8korr_def
  by (subst unat_combine32) (simp_all add: unat_korr_sum4 bytes_at_numeral)

lemma unat_uint5korr_x86_64: "unat (uint5korr_x86_64 m A) = le_nat (bytes_at m A 5)"
  unfolding uint5korr_x86_64_def Let_def
  by (subst unat_combine32) (simp_all add: unat_load_le bytes_at_numeral add.commute)

lemma unat_uint6korr_x86_64: "unat (uint6korr_x86_64 m A) = le_nat (bytes_at m A 6)"
  unfolding uint6korr_x86_64_def Let_def
  by (subst unat_combine32) (simp_all add: unat_load_le bytes_at_numeral add.commute)

lemmas unsigned_readers = unat_uint2korr unat_uint3korr unat_uint4korr unat_uint5korr
  unat_uint6korr unat_uint8korr

section \<open>Stores\<close>

lemma le_bytes_numeral:
  "le_bytes 2 v = [of_nat v, of_nat (v div 256)]"
  "le_bytes 3 v = [of_nat v, of_nat (v div 256), of_nat (v div 65536)]"
  "le_bytes 4 v = [of_nat v, of_nat (v div 256), of_nat (v div 65536), of_nat (v div 16777216)]"
  "le_bytes 5 v = [of_nat v, of_nat (v div 256), of_nat (v div 65536), of_nat (v div 16777216),
     of_nat (v div 4294967296)]"
  "le_bytes 6 v = [of_nat v, of_nat (v div 256), of_nat (v div 65536), of_nat (v div 16777216),
     of_nat (v div 4294967296), of_nat (v div 1099511627776)]"
  by (simp_all add: le_bytes_rec flip: div_mult2_eq)

lemma ucast_byte: "(ucast (drop_bit k (w :: 'a::len word)) :: uchar) = of_nat (unat w div 2 ^ k)"
  by (rule word_eq_unatI) (simp add: unat_ucast_eq_mod unat_drop_bit_div unat_of_nat_uchar)

lemma ucast_byte0: "(ucast (w :: 'a::len word) :: uchar) = of_nat (unat w)"
  using ucast_byte [of 0 w] by simp

lemma put_bytes_2: "put_bytes m p [a, b] = m(p := a, p + 1 := b)"
  by simp

lemma put_bytes_3: "put_bytes m p [a, b, c] = m(p := a, p + 1 := b, p + 2 := c)"
  by simp

lemma put_bytes_4: "put_bytes m p [a, b, c, d] = m(p := a, p + 1 := b, p + 2 := c, p + 3 := d)"
  by (simp add: eval_nat_numeral)

lemma put_bytes_5:
  "put_bytes m p [a, b, c, d, e] = m(p := a, p + 1 := b, p + 2 := c, p + 3 := d, p + 4 := e)"
  by (simp add: eval_nat_numeral)

lemma put_bytes_6:
  "put_bytes m p [a, b, c, d, e, f] =
     m(p := a, p + 1 := b, p + 2 := c, p + 3 := d, p + 4 := e, p + 5 := f)"
  by (simp add: eval_nat_numeral)

lemmas put_bytes_numeral = put_bytes_2 put_bytes_3 put_bytes_4 put_bytes_5 put_bytes_6

text \<open>Every store writes the lowest bytes of its argument, low byte first.\<close>

lemma int2store_bytes: "int2store m T A = put_bytes m T (le_bytes 2 (unat A))"
  unfolding int2store_def le_bytes_numeral put_bytes_numeral by (simp add: ucast_byte)

lemma int3store_bytes: "int3store m T A = put_bytes m T (le_bytes 3 (unat A))"
  unfolding int3store_def le_bytes_numeral put_bytes_numeral by (simp add: ucast_byte)

lemma int4store_bytes: "int4store m T A = put_bytes m T (le_bytes 4 (unat A))"
  unfolding int4store_def le_bytes_numeral put_bytes_numeral by (simp add: ucast_byte)

lemma int5store_bytes: "int5store m T A = put_bytes m T (le_bytes 5 (unat A))"
  unfolding int5store_def le_bytes_numeral put_bytes_numeral by (simp add: ucast_byte)

lemma int6store_bytes: "int6store m T A = put_bytes m T (le_bytes 6 (unat A))"
  unfolding int6store_def le_bytes_numeral put_bytes_numeral by (simp add: ucast_byte)

lemma int8store_bytes: "int8store m T A = put_bytes m T (le_bytes 8 (unat A))"
proof -
  have "le_bytes 8 (unat A) = le_bytes 4 (unat A) @ le_bytes 4 (unat A div 4294967296)"
    by (simp add: le_bytes_rec flip: div_mult2_eq)
  moreover have "le_bytes 4 (unat A mod 4294967296) = le_bytes 4 (unat A)"
    by (rule le_nat_inj) (simp_all add: le_nat_le_bytes)
  moreover have "le_bytes 4 (unat A div 4294967296 mod 4294967296) = le_bytes 4 (unat A div 4294967296)"
    by (rule le_nat_inj) (simp_all add: le_nat_le_bytes)
  ultimately show ?thesis
    by (simp add: int8store_def int4store_bytes put_bytes_append unat_ucast_eq_mod unat_drop_bit_div)
qed

lemmas store_bytes = int2store_bytes int3store_bytes int4store_bytes int5store_bytes
  int6store_bytes int8store_bytes

lemma le_bytes_mod: "256 ^ n dvd k \<Longrightarrow> le_bytes n (v mod k) = le_bytes n v"
  by (rule le_nat_inj) (simp_all add: le_nat_le_bytes mod_mod_cancel)

lemma le_bytes_split: "le_bytes (i + j) v = le_bytes i v @ le_bytes j (v div 256 ^ i)"
  by (induction i arbitrary: v) (simp_all add: div_mult2_eq)

section \<open>Agreement of the implementations\<close>

lemma readers_x86_64:
  "sint2korr_x86_64 = sint2korr" "sint4korr_x86_64 = sint4korr" "sint8korr_x86_64 = sint8korr"
  "uint2korr_x86_64 = uint2korr" "uint4korr_x86_64 = uint4korr" "uint8korr_x86_64 = uint8korr"
  "uint5korr_x86_64 = uint5korr" "uint6korr_x86_64 = uint6korr"
  by (auto intro!: ext word_eq_unatI simp: sint2korr_x86_64_def sint4korr_x86_64_def
      sint8korr_x86_64_def uint2korr_x86_64_def uint4korr_x86_64_def uint8korr_x86_64_def
      sint8korr_def unat_load_le unsigned_readers unat_sint2korr unat_sint4korr
      unat_uint5korr_x86_64 unat_uint6korr_x86_64)

lemma stores_x86_64:
  "int2store_x86_64 = int2store" "int4store_x86_64 = int4store" "int8store_x86_64 = int8store"
  "int5store_x86_64 = int5store" "int6store_x86_64 = int6store"
proof -
  show "int2store_x86_64 = int2store" "int4store_x86_64 = int4store" "int8store_x86_64 = int8store"
    by (auto intro!: ext simp: int2store_x86_64_def int4store_x86_64_def int8store_x86_64_def
        store_le_def store_bytes unat_ucast_eq_mod le_bytes_mod)
  show "int5store_x86_64 = int5store"
  proof (intro ext)
    fix m T a and A :: uint64
    have "le_bytes (4 + 1) (unat A) = le_bytes 4 (unat A) @ [ucast (drop_bit 32 A)]"
      unfolding le_bytes_split by (simp add: ucast_byte)
    then show "int5store_x86_64 m T A a = int5store m T A a"
      by (simp add: int5store_x86_64_def store_le_def int5store_bytes put_bytes_append
          unat_ucast_eq_mod le_bytes_mod)
  qed
  show "int6store_x86_64 = int6store"
  proof (intro ext)
    fix m T a and A :: uint64
    have "le_bytes (4 + 2) (unat A) = le_bytes 4 (unat A) @ le_bytes 2 (unat A div 4294967296)"
      unfolding le_bytes_split by simp
    then show "int6store_x86_64 m T A a = int6store m T A a"
      by (simp add: int6store_x86_64_def store_le_def int6store_bytes put_bytes_append
          unat_ucast_eq_mod unat_drop_bit_div le_bytes_mod)
  qed
qed

text \<open>The three-byte readers and stores, and all of the 32-bit variant, in the same form.\<close>

lemmas x86_defs = sint2korr_x86_def sint3korr_x86_def sint4korr_x86_def uint2korr_x86_def
  uint3korr_x86_def uint4korr_x86_def uint5korr_x86_def uint6korr_x86_def uint8korr_x86_def
  sint8korr_x86_def int2store_x86_def int3store_x86_def int4store_x86_def int5store_x86_def
  int6store_x86_def int8store_x86_def

lemma x86_as_x86_64:
  "sint2korr_x86 = sint2korr_x86_64" "sint4korr_x86 = sint4korr_x86_64"
  "sint8korr_x86 = sint8korr_x86_64" "uint2korr_x86 = uint2korr_x86_64"
  "uint4korr_x86 = uint4korr_x86_64" "uint8korr_x86 = uint8korr_x86_64"
  "uint5korr_x86 = uint5korr" "uint6korr_x86 = uint6korr"
  "int2store_x86 = int2store_x86_64" "int4store_x86 = int4store_x86_64"
  "int8store_x86 = int8store_x86_64" "int5store_x86 = int5store" "int6store_x86 = int6store"
  by (auto intro!: ext simp: x86_defs sint2korr_x86_64_def sint4korr_x86_64_def
      sint8korr_x86_64_def uint2korr_x86_64_def uint4korr_x86_64_def uint8korr_x86_64_def
      uint5korr_def uint6korr_def int2store_x86_64_def int4store_x86_64_def
      int8store_x86_64_def int5store_def int6store_def)

lemma three_byte_variants:
  "sint3korr_x86_64 = sint3korr" "sint3korr_x86 = sint3korr"
  "uint3korr_x86_64 = uint3korr" "uint3korr_x86 = uint3korr"
  "int3store_x86_64 = int3store" "int3store_x86 = int3store"
  by (auto intro!: ext simp: x86_defs sint3korr_x86_64_def uint3korr_x86_64_def
      int3store_x86_64_def sint3korr_def uint3korr_def int3store_def)

text \<open>
  C35: the three implementations of the integer readers are the same functions: whichever
  header \<open>my_byteorder.h\<close> selects, every memory yields the same values.
\<close>

theorem korr_implementations_agree:
  "sint2korr_x86_64 = sint2korr \<and> sint3korr_x86_64 = sint3korr \<and> sint4korr_x86_64 = sint4korr \<and>
   sint8korr_x86_64 = sint8korr \<and> uint2korr_x86_64 = uint2korr \<and> uint3korr_x86_64 = uint3korr \<and>
   uint4korr_x86_64 = uint4korr \<and> uint5korr_x86_64 = uint5korr \<and> uint6korr_x86_64 = uint6korr \<and>
   uint8korr_x86_64 = uint8korr \<and>
   sint2korr_x86 = sint2korr \<and> sint3korr_x86 = sint3korr \<and> sint4korr_x86 = sint4korr \<and>
   sint8korr_x86 = sint8korr \<and> uint2korr_x86 = uint2korr \<and> uint3korr_x86 = uint3korr \<and>
   uint4korr_x86 = uint4korr \<and> uint5korr_x86 = uint5korr \<and> uint6korr_x86 = uint6korr \<and>
   uint8korr_x86 = uint8korr"
  by (simp only: readers_x86_64 x86_as_x86_64 three_byte_variants simp_thms)

text \<open>
  the three implementations of the integer stores produce the same memory.
\<close>

theorem store_implementations_agree:
  "int2store_x86_64 = int2store \<and> int3store_x86_64 = int3store \<and> int4store_x86_64 = int4store \<and>
   int5store_x86_64 = int5store \<and> int6store_x86_64 = int6store \<and> int8store_x86_64 = int8store \<and>
   int2store_x86 = int2store \<and> int3store_x86 = int3store \<and> int4store_x86 = int4store \<and>
   int5store_x86 = int5store \<and> int6store_x86 = int6store \<and> int8store_x86 = int8store"
  by (simp only: stores_x86_64 x86_as_x86_64 three_byte_variants simp_thms)

section \<open>Round trips\<close>

lemma read_back:
  "le_nat (bytes_at (put_bytes m T (le_bytes n v)) T n) = v mod 256 ^ n"
  by (simp add: mem_simps le_nat_le_bytes)

text \<open>
  C36: reading with the reader of the same width what a store wrote returns the stored
  value, truncated to that width.
\<close>

theorem korr_store_roundtrip:
  "unat (uint2korr (int2store m T a) T) = unat a mod 2 ^ 16 \<and>
   unat (sint2korr (int2store m T a) T) = unat a mod 2 ^ 16 \<and>
   unat (uint3korr (int3store m T a) T) = unat a mod 2 ^ 24 \<and>
   uint4korr (int4store m T a) T = a \<and> sint4korr (int4store m T a) T = a \<and>
   unat (uint5korr (int5store m T b) T) = unat b mod 2 ^ 40 \<and>
   unat (uint6korr (int6store m T b) T) = unat b mod 2 ^ 48 \<and>
   uint8korr (int8store m T b) T = b \<and> sint8korr (int8store m T b) T = b"
proof -
  have "uint4korr (int4store m T a) T = a" "sint4korr (int4store m T a) T = a"
    using uint32_lt [of a]
    by (auto intro!: word_eq_unatI simp: unat_uint4korr unat_sint4korr store_bytes read_back)
  moreover have "uint8korr (int8store m T b) T = b"
    using uint64_lt [of b] by (intro word_eq_unatI) (simp add: unat_uint8korr store_bytes read_back)
  ultimately show ?thesis
    by (simp add: sint8korr_def unsigned_readers unat_sint2korr store_bytes read_back)
qed

text \<open>
  a store changes no byte outside the bytes it is named for.
\<close>

theorem store_frame:
  "(a < T \<or> T + 2 \<le> a \<longrightarrow> int2store m T v a = m a) \<and>
   (a < T \<or> T + 3 \<le> a \<longrightarrow> int3store m T v a = m a) \<and>
   (a < T \<or> T + 4 \<le> a \<longrightarrow> int4store m T v a = m a) \<and>
   (a < T \<or> T + 5 \<le> a \<longrightarrow> int5store m T w a = m a) \<and>
   (a < T \<or> T + 6 \<le> a \<longrightarrow> int6store m T w a = m a) \<and>
   (a < T \<or> T + 8 \<le> a \<longrightarrow> int8store m T w a = m a)"
  by (auto simp: store_bytes mem_simps)

theorem store_frame_witness:
  "int8store (\<lambda>_. 7) 10 0 9 = 7 \<and> int4store (\<lambda>_. 7) 10 0 14 = 7"
  using store_frame [of 9 10 "\<lambda>_. 7" 0 0] store_frame [of 14 10 "\<lambda>_. 7" 0 0] by simp

section \<open>Signed three-byte values\<close>

lemma and_128_iff: "(b :: uchar) AND 128 \<noteq> 0 \<longleftrightarrow> 128 \<le> unat b"
proof -
  have "b AND 128 \<noteq> 0 \<longleftrightarrow> bit b 7"
    using and_exp_eq_0_iff_not_bit [of b 7] by simp
  also have "\<dots> \<longleftrightarrow> bit (unat b) 7" by (simp add: bit_unsigned_iff)
  also have "\<dots> \<longleftrightarrow> odd (unat b div 128)" by (simp add: bit_iff_odd)
  also have "\<dots> \<longleftrightarrow> 128 \<le> unat b"
  proof -
    have "unat b div 128 < 2" using uchar_lt [of b] by (simp add: less_mult_imp_div_less)
    then have "unat b div 128 = 0 \<or> unat b div 128 = 1" by linarith
    then show ?thesis by (auto simp: div_eq_0_iff)
  qed
  finally show ?thesis .
qed

lemma sint_uint32: "sint (w :: uint32) = (if unat w < 2 ^ 31 then int (unat w) else int (unat w) - 2 ^ 32)"
proof -
  have "unat w div 2 ^ 31 < 2" using uint32_lt [of w] by (simp add: less_mult_imp_div_less)
  then have "unat w div 2 ^ 31 = 0 \<or> unat w div 2 ^ 31 = 1" by linarith
  then have "bit (unat w) 31 \<longleftrightarrow> \<not> unat w < 2 ^ 31" by (auto simp: bit_iff_odd div_eq_0_iff)
  then have "bit (uint w) 31 \<longleftrightarrow> \<not> unat w < 2 ^ 31" by (simp add: bit_unsigned_iff)
  moreover have "sint w = signed_take_bit 31 (uint w)" by (simp add: signed_take_bit_eq sint_uint)
  moreover have "uint w = int (unat w)" by simp
  moreover have "int (unat w) < int 4294967296" using uint32_lt [of w] by (simp only: of_nat_less_iff)
  ultimately show ?thesis
    by (simp add: signed_take_bit_eq_take_bit_minus take_bit_int_eq_self del: of_nat_unat)
qed

lemma unat_or_3:
  "unat (push_bit 16 (ucast (c :: uchar)) OR push_bit 8 (ucast (b :: uchar)) OR ucast (a :: uchar) :: uint32) =
     le_nat [a, b, c]"
proof -
  have "unat (ucast a OR push_bit 8 (ucast b) :: uint32) = unat a + 256 * unat b"
    using uchar_lt [of a] uchar_lt [of b] by (subst unat_or_shift) (simp_all add: unat_ucast_up)
  then have "unat ((ucast a OR push_bit 8 (ucast b)) OR push_bit 16 (ucast c) :: uint32) = le_nat [a, b, c]"
    using uchar_lt [of a] uchar_lt [of b] uchar_lt [of c]
    by (subst unat_or_shift) (simp_all add: unat_ucast_up)
  then show ?thesis by (simp only: ac_simps)
qed

text \<open>
  \<open>sint3korr\<close> is the two's complement value of three bytes, sign-extended to 32 bits.
\<close>

theorem sint3korr_sign_extends:
  "sint (sint3korr m A) =
     (let v = int (le_nat (bytes_at m A 3)) in if v < 2 ^ 23 then v else v - 2 ^ 24)"
proof -
  let ?a = "m A" and ?b = "m (A + 1)" and ?c = "m (A + 2)"
  let ?low = "push_bit 16 (ucast ?c) OR push_bit 8 (ucast ?b) OR ucast ?a :: uint32"
  have low: "unat ?low = le_nat [?a, ?b, ?c]" by (rule unat_or_3)
  have lt: "le_nat [?a, ?b, ?c] < 2 ^ 24" using le_nat_bound [of "[?a, ?b, ?c]"] by simp
  have "unat (?low OR push_bit 24 255) = unat ?low + 2 ^ 24 * 255"
    using lt low by (subst unat_or_shift) simp_all
  then have ext: "unat (push_bit 24 255 OR ?low) = le_nat [?a, ?b, ?c] + 2 ^ 24 * 255"
    using low by (simp only: or.commute)
  have top: "128 \<le> unat ?c \<longleftrightarrow> \<not> le_nat [?a, ?b, ?c] < 2 ^ 23"
    using uchar_lt [of ?a] uchar_lt [of ?b] by simp arith
  show ?thesis
  proof (cases "128 \<le> unat ?c")
    case True
    then have "sint3korr m A = push_bit 24 255 OR ?low" by (simp add: sint3korr_def and_128_iff)
    then show ?thesis using True top ext
      by (simp add: sint_uint32 bytes_at_numeral Let_def del: le_nat.simps)
  next
    case False
    then have "sint3korr m A = ?low" by (simp add: sint3korr_def and_128_iff)
    then show ?thesis using False top low lt
      by (simp add: sint_uint32 bytes_at_numeral Let_def del: le_nat.simps)
  qed
qed

section \<open>Network and machine byte order\<close>

lemma unat_int4net: "unat (int4net m A) = le_nat (rev (bytes_at m A 4))"
proof -
  let ?low = "push_bit 16 (ucast (m (A + 1))) OR push_bit 8 (ucast (m (A + 2))) OR ucast (m (A + 3)) :: uint32"
  have low: "unat ?low = le_nat [m (A + 3), m (A + 2), m (A + 1)]" by (rule unat_or_3)
  have "le_nat [m (A + 3), m (A + 2), m (A + 1)] < 2 ^ 24"
    using le_nat_bound [of "[m (A + 3), m (A + 2), m (A + 1)]"] by simp
  then have "unat (?low OR push_bit 24 (ucast (m A))) = unat ?low + 2 ^ 24 * unat (m A)"
    using low uchar_lt [of "m A"] by (subst unat_or_shift) (simp_all add: unat_ucast_up)
  moreover have "int4net m A = ?low OR push_bit 24 (ucast (m A))"
    by (simp only: int4net_def ac_simps)
  ultimately show ?thesis using low by (simp add: bytes_at_numeral)
qed

text \<open>Memory copies between disjoint areas.\<close>

abbreviation disjoint_areas :: "ptr \<Rightarrow> ptr \<Rightarrow> nat \<Rightarrow> bool" where
  "disjoint_areas p q n \<equiv> p + n \<le> q \<or> q + n \<le> p"

lemma float4store_be_bytes:
  assumes "disjoint_areas T A 4"
  shows "float4store_be m T A = put_bytes m T (rev (bytes_at m A 4))"
proof -
  have "float4store_be m T A = m(T := m (A + 3), T + 1 := m (A + 2), T + 2 := m (A + 1), T + 3 := m A)"
    using assms by (auto simp: float4store_be_def Let_def)
  then show ?thesis by (simp add: bytes_at_numeral put_bytes_4 del: put_bytes.simps)
qed

lemma put_bytes_8:
  "put_bytes m p [a, b, c, d, e, f, g, h] =
     m(p := a, p + 1 := b, p + 2 := c, p + 3 := d, p + 4 := e, p + 5 := f, p + 6 := g, p + 7 := h)"
  by (simp add: eval_nat_numeral)

lemma float8store_be_bytes:
  assumes "disjoint_areas T V 8"
  shows "float8store_be m T V = put_bytes m T (rev (bytes_at m V 8))"
proof -
  have "float8store_be m T V = m(T := m (V + 7), T + 1 := m (V + 6), T + 2 := m (V + 5),
      T + 3 := m (V + 4), T + 4 := m (V + 3), T + 5 := m (V + 2), T + 6 := m (V + 1), T + 7 := m V)"
    using assms by (auto simp: float8store_be_def Let_def)
  then show ?thesis by (simp add: bytes_at_numeral put_bytes_8 del: put_bytes.simps)
qed

lemma doublestore_bi_bytes:
  assumes "disjoint_areas T V 8"
  shows "doublestore_bi m T V = put_bytes m T (bytes_at m (V + 4) 4 @ bytes_at m V 4)"
proof -
  have "doublestore_bi m T V = m(T := m (V + 4), T + 1 := m (V + 5), T + 2 := m (V + 6),
      T + 3 := m (V + 7), T + 4 := m V, T + 5 := m (V + 1), T + 6 := m (V + 2), T + 7 := m (V + 3))"
    using assms by (auto simp: doublestore_bi_def Let_def)
  then show ?thesis by (simp add: bytes_at_numeral put_bytes_8 ac_simps del: put_bytes.simps)
qed

lemma float4get_be_bytes: "float4get_be m V M = put_bytes m V (rev (bytes_at m M 4))"
  by (simp add: float4get_be_def bytes_at_numeral Let_def)

lemma float8get_be_bytes: "float8get_be m V M = put_bytes m V (rev (bytes_at m M 8))"
  by (simp add: float8get_be_def bytes_at_numeral Let_def)

lemma doubleget_bi_bytes: "doubleget_bi m V M = put_bytes m V (bytes_at m (M + 4) 4 @ bytes_at m M 4)"
  by (simp add: doubleget_bi_def bytes_at_numeral Let_def ac_simps)

text \<open>
  a floating-point value stored to a disjoint place and read back, with the accessors of
  either machine byte order, has its original object representation.
\<close>

theorem float_roundtrip:
  assumes "disjoint_areas T A 8"
  shows "bytes_at (float4get_be (float4store_be m T A) V T) V 4 = bytes_at m A 4 \<and>
         bytes_at (float8get_be (float8store_be m T A) V T) V 8 = bytes_at m A 8 \<and>
         bytes_at (doubleget_bi (doublestore_bi m T A) V T) V 8 = bytes_at m A 8 \<and>
         bytes_at (float4get_le (float4store_le m T A) V T) V 4 = bytes_at m A 4 \<and>
         bytes_at (doubleget_le (doublestore_le m T A) V T) V 8 = bytes_at m A 8"
proof -
  have d4: "disjoint_areas T A 4" using assms by auto
  let ?m = "doublestore_bi m T A"
  have "bytes_at ?m T (4 + 4) = bytes_at m (A + 4) 4 @ bytes_at m A 4"
    by (simp add: doublestore_bi_bytes [OF assms] mem_simps)
  then have "bytes_at ?m T 4 = bytes_at m (A + 4) 4" "bytes_at ?m (T + 4) 4 = bytes_at m A 4"
    unfolding bytes_at_append by simp_all
  then have "bytes_at (doubleget_bi ?m V T) V 8 = bytes_at m A (4 + 4)"
    unfolding bytes_at_append by (simp add: doubleget_bi_bytes mem_simps)
  then show ?thesis
    by (simp add: float4get_be_bytes float4store_be_bytes [OF d4] float8get_be_bytes
        float8store_be_bytes [OF assms] float4get_le_def float4store_le_def
        doubleget_le_def doublestore_le_def mem_simps)
qed

theorem float_roundtrip_witness:
  "bytes_at (float4get_be (float4store_be (\<lambda>a. of_nat a) 20 10) 40 20) 40 4 = [10, 11, 12, 13]"
  using float_roundtrip [of 20 10 "\<lambda>a. of_nat a" 40] by (simp add: bytes_at_numeral)

lemma unat_ushortget_be: "unat (ushortget_be m M) = le_nat (rev (bytes_at m M 2))"
  by (simp only: ushortget_be_def unat_korr_sum2 bytes_at_numeral rev.simps append.simps)

lemma le_nat_4_lt: "le_nat [a, b, c, d] < 4294967296"
  using le_nat_bound [of "[a, b, c, d]"] by simp

lemma unat_ulongget_be: "unat (ulongget_be m M) = le_nat (rev (bytes_at m M 4))"
  using le_nat_4_lt by (simp add: ulongget_be_def Let_def bytes_at_numeral unat_of_nat del: le_nat.simps)

text \<open>
  in both machine byte orders, what \<open>shortstore\<close> and \<open>longstore\<close> write is what
  \<open>ushortget\<close>, \<open>shortget\<close>, \<open>ulongget\<close> and \<open>longget\<close> read; and \<open>int4net\<close> reads what the
  big-endian \<open>longstore\<close> wrote.
\<close>

theorem machine_format_roundtrip:
  "unat (ushortget_be (shortstore_be m T a) T) = unat a mod 2 ^ 16 \<and>
   unat (shortget_be (shortstore_be m T a) T) = unat a mod 2 ^ 16 \<and>
   ulongget_be (longstore_be m T a) T = a \<and> longget_be (longstore_be m T a) T = a \<and>
   int4net (longstore_be m T a) T = a \<and>
   unat (ushortget_le (shortstore_le m T a) T) = unat a mod 2 ^ 16 \<and>
   unat (shortget_le (shortstore_le m T a) T) = unat a mod 2 ^ 16 \<and>
   ulongget_le (longstore_le m T a) T = a \<and> longget_le (longstore_le m T a) T = a"
proof -
  have b2: "bytes_at (shortstore_be m T a) T 2 = rev (le_bytes 2 (unat a))"
    by (simp add: shortstore_be_def bytes_at_numeral le_bytes_numeral ucast_byte)
  have b4: "bytes_at (longstore_be m T a) T 4 = rev (le_bytes 4 (unat a))"
    by (simp add: longstore_be_def bytes_at_numeral le_bytes_numeral ucast_byte)
  have "ulongget_be (longstore_be m T a) T = a" "int4net (longstore_be m T a) T = a"
    using uint32_lt [of a]
    by (auto intro!: word_eq_unatI simp: unat_ulongget_be unat_int4net b4 le_nat_le_bytes)
  moreover have "longget_be (longstore_be m T a) T = ulongget_be (longstore_be m T a) T"
    by (simp add: longget_be_def ulongget_be_def)
  moreover have "unat (ushortget_be (shortstore_be m T a) T) = unat a mod 2 ^ 16"
    by (simp add: unat_ushortget_be b2 le_nat_le_bytes)
  moreover have "shortget_be (shortstore_be m T a) T = ushortget_be (shortstore_be m T a) T"
    by (simp add: shortget_be_def ushortget_be_def)
  moreover have "uint4korr (int4store m T a) T = a" "sint4korr (int4store m T a) T = a"
    using uint32_lt [of a]
    by (auto intro!: word_eq_unatI simp: unat_uint4korr unat_sint4korr store_bytes read_back)
  ultimately show ?thesis
    by (simp add: ushortget_le_def shortget_le_def ulongget_le_def longget_le_def shortstore_le_def
        longstore_le_def unat_uint2korr unat_sint2korr store_bytes read_back)
qed

section \<open>Structures in memory\<close>

lemma load_store_same: "load_le 8 (store_le 8 m p (v :: uint64)) p = v"
  by (rule load_le_eqI) (simp_all add: store_le_def bytes_at_put_same le_nat_le_bytes uint64_lt)

lemma load_store_same4: "load_le 4 (store_le 4 m p (v :: uint32)) p = v"
  by (rule load_le_eqI) (simp_all add: store_le_def bytes_at_put_same le_nat_le_bytes uint32_lt)

lemma load_store_other: "p + k \<le> q \<or> q + n \<le> p \<Longrightarrow> load_le n (store_le k m p v) q = load_le n m q"
  by (auto simp: store_le_def load_le_def bytes_at_put_other)

lemma load_put_other: "p + length bs \<le> q \<or> q + n \<le> p \<Longrightarrow> load_le n (put_bytes m p bs) q = load_le n m q"
  by (auto simp: load_le_def bytes_at_put_other)

lemma bytes_store_other: "q + n \<le> p \<or> p + k \<le> q \<Longrightarrow> bytes_at (store_le k m p v) q n = bytes_at m q n"
  by (simp add: store_le_def bytes_at_put_other)

lemma le_bytes_load: "le_bytes 8 (unat (load_le 8 m p :: uint64)) = bytes_at m p 8"
  using le_bytes_le_nat [of "bytes_at m p 8"] by (simp add: unat_load_le)

lemma le_bytes_load4: "le_bytes 4 (unat (load_le 4 m p :: uint32)) = bytes_at m p 4"
  using le_bytes_le_nat [of "bytes_at m p 4"] by (simp add: unat_load_le)

lemmas struct_simps = load_store_same load_store_same4 load_store_other load_put_other bytes_store_other bytes_at_put_same

end
