(* ===== verification/IsamPack.thy ===== *)
theory IsamPack
  imports ByteOrder
begin

text \<open>
  High-byte-first storage of \<^verbatim>\<open>myisampack.h\<close> (the format of keys and file pointers) and
  the key-length prefixes and record bit fields of \<^verbatim>\<open>my_compare.h\<close>.  The macros
  \<open>mi_uint5korr\<close> to \<open>mi_uint8korr\<close> have the optimised x86-64 implementation of
  \<^verbatim>\<open>byte_order_generic_x86_64.h\<close> modelled in \<open>ByteOrder\<close>.  The argument of a store is a number of
  up to 64 bits; the macros convert its halves to \<open>ulong\<close>.
\<close>

unbundle bit_operations_syntax

section \<open>Readers\<close>

definition mi_sint1korr :: "mem \<Rightarrow> ptr \<Rightarrow> uchar" where
  "mi_sint1korr m A = m A"

definition mi_uint1korr :: "mem \<Rightarrow> ptr \<Rightarrow> uchar" where
  "mi_uint1korr m A = m A"

definition mi_sint2korr :: "mem \<Rightarrow> ptr \<Rightarrow> uint16" where
  "mi_sint2korr m A = ucast ((ucast (m (A + 1)) :: uint32) + push_bit 8 (scast (m A)))"

definition mi_sint3korr :: "mem \<Rightarrow> ptr \<Rightarrow> uint32" where
  "mi_sint3korr m A =
     (if m A AND 128 \<noteq> 0
      then push_bit 24 255 OR push_bit 16 (ucast (m A)) OR
           push_bit 8 (ucast (m (A + 1))) OR ucast (m (A + 2))
      else push_bit 16 (ucast (m A)) OR push_bit 8 (ucast (m (A + 1))) OR ucast (m (A + 2)))"

definition mi_sint4korr :: "mem \<Rightarrow> ptr \<Rightarrow> uint32" where
  "mi_sint4korr m A = ucast (m (A + 3)) + push_bit 8 (ucast (m (A + 2))) +
     push_bit 16 (ucast (m (A + 1))) + push_bit 24 (scast (m A))"

definition mi_uint2korr :: "mem \<Rightarrow> ptr \<Rightarrow> uint16" where
  "mi_uint2korr m A = ucast ((ucast (m (A + 1)) :: uint32) + push_bit 8 (ucast (m A)))"

definition mi_uint3korr :: "mem \<Rightarrow> ptr \<Rightarrow> uint32" where
  "mi_uint3korr m A = ucast (m (A + 2)) + push_bit 8 (ucast (m (A + 1))) +
     push_bit 16 (ucast (m A))"

definition mi_uint4korr :: "mem \<Rightarrow> ptr \<Rightarrow> uint32" where
  "mi_uint4korr m A = ucast (m (A + 3)) + push_bit 8 (ucast (m (A + 2))) +
     push_bit 16 (ucast (m (A + 1))) + push_bit 24 (ucast (m A))"

definition mi_uint5korr :: "mem \<Rightarrow> ptr \<Rightarrow> uint64" where
  "mi_uint5korr m A =
     ucast ((ucast (m (A + 4)) :: uint32) + push_bit 8 (ucast (m (A + 3))) +
            push_bit 16 (ucast (m (A + 2))) + push_bit 24 (ucast (m (A + 1)))) +
     push_bit 32 (ucast (m A))"

definition mi_uint6korr :: "mem \<Rightarrow> ptr \<Rightarrow> uint64" where
  "mi_uint6korr m A =
     ucast ((ucast (m (A + 5)) :: uint32) + push_bit 8 (ucast (m (A + 4))) +
            push_bit 16 (ucast (m (A + 3))) + push_bit 24 (ucast (m (A + 2)))) +
     push_bit 32 (ucast ((ucast (m (A + 1)) :: uint32) + push_bit 8 (ucast (m A))))"

definition mi_uint7korr :: "mem \<Rightarrow> ptr \<Rightarrow> uint64" where
  "mi_uint7korr m A =
     ucast ((ucast (m (A + 6)) :: uint32) + push_bit 8 (ucast (m (A + 5))) +
            push_bit 16 (ucast (m (A + 4))) + push_bit 24 (ucast (m (A + 3)))) +
     push_bit 32 (ucast ((ucast (m (A + 2)) :: uint32) + push_bit 8 (ucast (m (A + 1))) +
            push_bit 16 (ucast (m A))))"

definition mi_uint8korr :: "mem \<Rightarrow> ptr \<Rightarrow> uint64" where
  "mi_uint8korr m A =
     ucast ((ucast (m (A + 7)) :: uint32) + push_bit 8 (ucast (m (A + 6))) +
            push_bit 16 (ucast (m (A + 5))) + push_bit 24 (ucast (m (A + 4)))) +
     push_bit 32 (ucast ((ucast (m (A + 3)) :: uint32) + push_bit 8 (ucast (m (A + 2))) +
            push_bit 16 (ucast (m (A + 1))) + push_bit 24 (ucast (m A))))"

definition mi_sint8korr :: "mem \<Rightarrow> ptr \<Rightarrow> uint64" where
  "mi_sint8korr m A = mi_uint8korr m A"

section \<open>Stores\<close>

definition mi_int1store :: "mem \<Rightarrow> ptr \<Rightarrow> uint32 \<Rightarrow> mem" where
  "mi_int1store m T A = m(T := ucast A)"

definition mi_int2store :: "mem \<Rightarrow> ptr \<Rightarrow> uint32 \<Rightarrow> mem" where
  "mi_int2store m T A = m(T + 1 := ucast A, T := ucast (drop_bit 8 A))"

definition mi_int3store :: "mem \<Rightarrow> ptr \<Rightarrow> uint64 \<Rightarrow> mem" where
  "mi_int3store m T A =
     (let def_temp = ucast A :: ulong
      in m(T + 2 := ucast def_temp, T + 1 := ucast (drop_bit 8 def_temp), T := ucast (drop_bit 16 def_temp)))"

definition mi_int4store :: "mem \<Rightarrow> ptr \<Rightarrow> uint64 \<Rightarrow> mem" where
  "mi_int4store m T A =
     (let def_temp = ucast A :: ulong
      in m(T + 3 := ucast def_temp, T + 2 := ucast (drop_bit 8 def_temp),
           T + 1 := ucast (drop_bit 16 def_temp), T := ucast (drop_bit 24 def_temp)))"

definition mi_int5store :: "mem \<Rightarrow> ptr \<Rightarrow> uint64 \<Rightarrow> mem" where
  "mi_int5store m T A =
     (let def_temp = ucast A :: ulong; def_temp2 = ucast (drop_bit 32 A) :: ulong
      in m(T + 4 := ucast def_temp, T + 3 := ucast (drop_bit 8 def_temp),
           T + 2 := ucast (drop_bit 16 def_temp), T + 1 := ucast (drop_bit 24 def_temp),
           T := ucast def_temp2))"

definition mi_int6store :: "mem \<Rightarrow> ptr \<Rightarrow> uint64 \<Rightarrow> mem" where
  "mi_int6store m T A =
     (let def_temp = ucast A :: ulong; def_temp2 = ucast (drop_bit 32 A) :: ulong
      in m(T + 5 := ucast def_temp, T + 4 := ucast (drop_bit 8 def_temp),
           T + 3 := ucast (drop_bit 16 def_temp), T + 2 := ucast (drop_bit 24 def_temp),
           T + 1 := ucast def_temp2, T := ucast (drop_bit 8 def_temp2)))"

definition mi_int7store :: "mem \<Rightarrow> ptr \<Rightarrow> uint64 \<Rightarrow> mem" where
  "mi_int7store m T A =
     (let def_temp = ucast A :: ulong; def_temp2 = ucast (drop_bit 32 A) :: ulong
      in m(T + 6 := ucast def_temp, T + 5 := ucast (drop_bit 8 def_temp),
           T + 4 := ucast (drop_bit 16 def_temp), T + 3 := ucast (drop_bit 24 def_temp),
           T + 2 := ucast def_temp2, T + 1 := ucast (drop_bit 8 def_temp2),
           T := ucast (drop_bit 16 def_temp2)))"

definition mi_int8store :: "mem \<Rightarrow> ptr \<Rightarrow> uint64 \<Rightarrow> mem" where
  "mi_int8store m T A =
     (let def_temp3 = ucast A :: ulong; def_temp4 = ucast (drop_bit 32 A) :: ulong
      in mi_int4store (mi_int4store m (T + 0) (ucast def_temp4)) (T + 4) (ucast def_temp3))"

text \<open>Row counts and file offsets, with and without \<open>BIG_TABLES\<close> and 64-bit offsets.\<close>

definition HA_OFFSET_ERROR :: "'a::len word" where
  "HA_OFFSET_ERROR = NOT 0"

definition mi_rowstore :: "bool \<Rightarrow> mem \<Rightarrow> ptr \<Rightarrow> uint64 \<Rightarrow> mem" where
  "mi_rowstore big_tables m T A =
     (if big_tables then mi_int8store m T A
      else mi_int4store (mi_int4store m T 0) (T + 4) A)"

definition mi_rowkorr :: "bool \<Rightarrow> mem \<Rightarrow> ptr \<Rightarrow> uint64" where
  "mi_rowkorr big_tables m T =
     (if big_tables then mi_uint8korr m T else ucast (mi_uint4korr m (T + 4)))"

text \<open>\<open>my_off_t\<close> is 64 bits wide, or 32 bits wide (suffix \<open>32\<close>).\<close>

definition mi_sizestore :: "mem \<Rightarrow> ptr \<Rightarrow> uint64 \<Rightarrow> mem" where
  "mi_sizestore m T A = mi_int8store m T A"

definition mi_sizekorr :: "mem \<Rightarrow> ptr \<Rightarrow> uint64" where
  "mi_sizekorr m T = mi_uint8korr m T"

definition mi_sizestore32 :: "mem \<Rightarrow> ptr \<Rightarrow> uint32 \<Rightarrow> mem" where
  "mi_sizestore32 m T A =
     (if A = HA_OFFSET_ERROR then put_bytes m T (replicate 8 255)
      else mi_int4store (mi_int4store m T 0) (T + 4) (ucast A))"

definition mi_sizekorr32 :: "mem \<Rightarrow> ptr \<Rightarrow> uint32" where
  "mi_sizekorr32 m T = mi_uint4korr m (T + 4)"

section \<open>Floating point\<close>

definition mi_float4store_be :: "mem \<Rightarrow> ptr \<Rightarrow> ptr \<Rightarrow> mem" where
  "mi_float4store_be m T A =
     (let m = m(T := m A); m = m(T + 1 := m (A + 1));
          m = m(T + 2 := m (A + 2)); m = m(T + 3 := m (A + 3)) in m)"

definition mi_float4get_be :: "mem \<Rightarrow> ptr \<Rightarrow> ptr \<Rightarrow> mem" where
  "mi_float4get_be m V M =
     (let def_temp = [m M, m (M + 1), m (M + 2), m (M + 3)] in put_bytes m V def_temp)"

definition mi_float8store_be :: "mem \<Rightarrow> ptr \<Rightarrow> ptr \<Rightarrow> mem" where
  "mi_float8store_be m T V =
     (let m = m(T := m V); m = m(T + 1 := m (V + 1));
          m = m(T + 2 := m (V + 2)); m = m(T + 3 := m (V + 3));
          m = m(T + 4 := m (V + 4)); m = m(T + 5 := m (V + 5));
          m = m(T + 6 := m (V + 6)); m = m(T + 7 := m (V + 7)) in m)"

definition mi_float8get_be :: "mem \<Rightarrow> ptr \<Rightarrow> ptr \<Rightarrow> mem" where
  "mi_float8get_be m V M =
     (let def_temp = [m M, m (M + 1), m (M + 2), m (M + 3),
                      m (M + 4), m (M + 5), m (M + 6), m (M + 7)]
      in put_bytes m V def_temp)"

definition mi_float4store :: "mem \<Rightarrow> ptr \<Rightarrow> ptr \<Rightarrow> mem" where
  "mi_float4store m T A =
     (let m = m(T := m (A + 3)); m = m(T + 1 := m (A + 2));
          m = m(T + 2 := m (A + 1)); m = m(T + 3 := m A) in m)"

definition mi_float4get :: "mem \<Rightarrow> ptr \<Rightarrow> ptr \<Rightarrow> mem" where
  "mi_float4get m V M =
     (let def_temp = [m (M + 3), m (M + 2), m (M + 1), m M] in put_bytes m V def_temp)"

text \<open>Doubles with the other word order (suffix \<open>_bi\<close>), and all other little-endian ones.\<close>

definition mi_float8store_bi :: "mem \<Rightarrow> ptr \<Rightarrow> ptr \<Rightarrow> mem" where
  "mi_float8store_bi m T V =
     (let m = m(T := m (V + 3)); m = m(T + 1 := m (V + 2));
          m = m(T + 2 := m (V + 1)); m = m(T + 3 := m V);
          m = m(T + 4 := m (V + 7)); m = m(T + 5 := m (V + 6));
          m = m(T + 6 := m (V + 5)); m = m(T + 7 := m (V + 4)) in m)"

definition mi_float8get_bi :: "mem \<Rightarrow> ptr \<Rightarrow> ptr \<Rightarrow> mem" where
  "mi_float8get_bi m V M =
     (let def_temp = [m (M + 3), m (M + 2), m (M + 1), m M,
                      m (M + 7), m (M + 6), m (M + 5), m (M + 4)]
      in put_bytes m V def_temp)"

definition mi_float8store :: "mem \<Rightarrow> ptr \<Rightarrow> ptr \<Rightarrow> mem" where
  "mi_float8store m T V =
     (let m = m(T := m (V + 7)); m = m(T + 1 := m (V + 6));
          m = m(T + 2 := m (V + 5)); m = m(T + 3 := m (V + 4));
          m = m(T + 4 := m (V + 3)); m = m(T + 5 := m (V + 2));
          m = m(T + 6 := m (V + 1)); m = m(T + 7 := m V) in m)"

definition mi_float8get :: "mem \<Rightarrow> ptr \<Rightarrow> ptr \<Rightarrow> mem" where
  "mi_float8get m V M =
     (let def_temp = [m (M + 7), m (M + 6), m (M + 5), m (M + 4),
                      m (M + 3), m (M + 2), m (M + 1), m M]
      in put_bytes m V def_temp)"

section \<open>my\_compare.h: key lengths and record bits\<close>

definition get_key_length :: "mem \<Rightarrow> ptr \<Rightarrow> uint32 \<times> ptr" where
  "get_key_length m key =
     (if m key \<noteq> 255 then (ucast (m key), key + 1)
      else (ucast (mi_uint2korr m (key + 1)), key + 3))"

definition get_key_length_rdonly :: "mem \<Rightarrow> ptr \<Rightarrow> uint32" where
  "get_key_length_rdonly m key =
     (if m key \<noteq> 255 then ucast (m key) else ucast (mi_uint2korr m (key + 1)))"

definition get_key_pack_length :: "mem \<Rightarrow> ptr \<Rightarrow> uint32 \<times> nat \<times> ptr" where
  "get_key_pack_length m key =
     (if m key \<noteq> 255 then (ucast (m key), 1, key + 1)
      else (ucast (mi_uint2korr m (key + 1)), 3, key + 3))"

definition store_key_length_inc :: "mem \<Rightarrow> ptr \<Rightarrow> uint32 \<Rightarrow> mem \<times> ptr" where
  "store_key_length_inc m key len =
     (if len < 255 then (m(key := ucast len), key + 1)
      else (mi_int2store (m(key := 255)) (key + 1) len, key + 3))"

definition size_to_store_key_length :: "uint32 \<Rightarrow> nat" where
  "size_to_store_key_length len = (if len < 255 then 1 else 3)"

text \<open>The shifts are shifts of \<open>int\<close>; the results are truncated to the assigned type.\<close>

definition get_rec_bits :: "mem \<Rightarrow> ptr \<Rightarrow> uchar \<Rightarrow> uint32 \<Rightarrow> uchar" where
  "get_rec_bits m p ofs len =
     (let val = (ucast (m p) :: uint16);
          val = (if 8 < ucast ofs + len then val OR ucast (push_bit 8 (ucast (m (p + 1)) :: uint32))
                 else val)
      in ucast (drop_bit (unat ofs) (ucast val :: uint32) AND (push_bit (unat len) 1 - 1)))"

definition set_rec_bits :: "uint16 \<Rightarrow> mem \<Rightarrow> ptr \<Rightarrow> uchar \<Rightarrow> uint32 \<Rightarrow> mem" where
  "set_rec_bits bits m p ofs len =
     (let m = m(p := ucast ((ucast (m p) AND NOT (push_bit (unat ofs) (push_bit (unat len) 1 - 1)) :: uint32)
                            OR push_bit (unat ofs) (ucast bits)))
      in if 8 < ucast ofs + len
         then m(p + 1 := ucast ((ucast (m (p + 1)) AND NOT (push_bit (unat (len - 8 + ucast ofs)) 1 - 1) :: uint32)
                                OR drop_bit (8 - unat ofs) (ucast bits)))
         else m)"

definition clr_rec_bits :: "mem \<Rightarrow> ptr \<Rightarrow> uchar \<Rightarrow> uint32 \<Rightarrow> mem" where
  "clr_rec_bits m p ofs len = set_rec_bits 0 m p ofs len"

section \<open>Values of the readers\<close>

lemma unat_mi_uint2korr: "unat (mi_uint2korr m A) = le_nat (rev (bytes_at m A 2))"
  by (simp only: mi_uint2korr_def unat_korr_sum2 bytes_at_numeral rev.simps append.simps)

lemma unat_mi_uint3korr: "unat (mi_uint3korr m A) = le_nat (rev (bytes_at m A 3))"
  by (simp only: mi_uint3korr_def unat_korr_sum3 bytes_at_numeral rev.simps append.simps)

lemma unat_mi_uint4korr: "unat (mi_uint4korr m A) = le_nat (rev (bytes_at m A 4))"
  by (simp only: mi_uint4korr_def unat_korr_sum4 bytes_at_numeral rev.simps append.simps)

lemma unat_mi_uint5korr: "unat (mi_uint5korr m A) = le_nat (rev (bytes_at m A 5))"
  unfolding mi_uint5korr_def
  by (subst unat_combine32) (simp_all add: unat_korr_sum4 bytes_at_numeral)

lemma unat_sum2_32:
  "unat ((ucast (a :: uchar) :: uint32) + push_bit 8 (ucast (b :: uchar))) = le_nat [a, b]"
  using uchar_lt [of a] uchar_lt [of b] by (simp add: c_word)

lemma unat_mi_uint6korr: "unat (mi_uint6korr m A) = le_nat (rev (bytes_at m A 6))"
  unfolding mi_uint6korr_def
  by (subst unat_combine32) (simp_all add: unat_korr_sum4 unat_sum2_32 bytes_at_numeral)

lemma unat_mi_uint7korr: "unat (mi_uint7korr m A) = le_nat (rev (bytes_at m A 7))"
  unfolding mi_uint7korr_def
  by (subst unat_combine32) (simp_all add: unat_korr_sum4 unat_korr_sum3 bytes_at_numeral)

lemma unat_mi_uint8korr: "unat (mi_uint8korr m A) = le_nat (rev (bytes_at m A 8))"
  unfolding mi_uint8korr_def
  by (subst unat_combine32) (simp_all add: unat_korr_sum4 bytes_at_numeral)

lemmas unat_mi_readers = unat_mi_uint2korr unat_mi_uint3korr unat_mi_uint4korr
  unat_mi_uint5korr unat_mi_uint6korr unat_mi_uint7korr unat_mi_uint8korr

section \<open>Stores, round trips and order\<close>

lemma le_bytes_7_8:
  "le_bytes 7 v = [of_nat v, of_nat (v div 256), of_nat (v div 65536), of_nat (v div 16777216),
     of_nat (v div 4294967296), of_nat (v div 1099511627776), of_nat (v div 281474976710656)]"
  "le_bytes 8 v = [of_nat v, of_nat (v div 256), of_nat (v div 65536), of_nat (v div 16777216),
     of_nat (v div 4294967296), of_nat (v div 1099511627776), of_nat (v div 281474976710656),
     of_nat (v div 72057594037927936)]"
  by (simp_all add: le_bytes_rec flip: div_mult2_eq)

lemma ucast_drop_drop: "(ucast (drop_bit j (drop_bit k (w :: 'a::len word))) :: uchar) = of_nat (unat w div 2 ^ (k + j))"
  unfolding ucast_byte by (simp add: unat_drop_bit_div power_add div_mult2_eq)

lemma byte_of_half:
  "k \<le> 24 \<Longrightarrow> (ucast (drop_bit k (ucast (w :: uint64) :: ulong)) :: uchar) = ucast (drop_bit k w)"
  "(ucast (ucast w :: ulong) :: uchar) = ucast w"
  by (rule bit_word_eqI; simp add: bit_simps)+

lemma half_of_half: "(ucast (ucast (ucast (w :: uint64) :: ulong) :: uint64) :: ulong) = ucast w"
  by (rule bit_word_eqI) (simp add: bit_simps)

text \<open>The bytes the stores write are those of the whole number.\<close>

lemma mi_store_eqs:
  "mi_int3store m T A = m(T + 2 := ucast A, T + 1 := ucast (drop_bit 8 A), T := ucast (drop_bit 16 A))"
  "mi_int4store m T A = m(T + 3 := ucast A, T + 2 := ucast (drop_bit 8 A), T + 1 := ucast (drop_bit 16 A), T := ucast (drop_bit 24 A))"
  "mi_int5store m T A = m(T + 4 := ucast A, T + 3 := ucast (drop_bit 8 A), T + 2 := ucast (drop_bit 16 A),
     T + 1 := ucast (drop_bit 24 A), T := ucast (drop_bit 32 A))"
  "mi_int6store m T A = m(T + 5 := ucast A, T + 4 := ucast (drop_bit 8 A), T + 3 := ucast (drop_bit 16 A),
     T + 2 := ucast (drop_bit 24 A), T + 1 := ucast (drop_bit 32 A), T := ucast (drop_bit 8 (drop_bit 32 A)))"
  "mi_int7store m T A = m(T + 6 := ucast A, T + 5 := ucast (drop_bit 8 A), T + 4 := ucast (drop_bit 16 A),
     T + 3 := ucast (drop_bit 24 A), T + 2 := ucast (drop_bit 32 A), T + 1 := ucast (drop_bit 8 (drop_bit 32 A)),
     T := ucast (drop_bit 16 (drop_bit 32 A)))"
  unfolding mi_int3store_def mi_int4store_def mi_int5store_def mi_int6store_def mi_int7store_def Let_def
  by (simp_all only: byte_of_half order.refl numeral_le_iff semiring_norm)

lemma mi_int8store_eq: "mi_int8store m T A = mi_int4store (mi_int4store m T (drop_bit 32 A)) (T + 4) A"
  by (simp add: mi_int8store_def mi_int4store_def Let_def half_of_half)

lemmas mi_store_defs = mi_int2store_def mi_store_eqs mi_int8store_eq

lemmas byte_list_simps = bytes_at_numeral le_bytes_numeral le_bytes_7_8 ucast_byte ucast_drop_drop

lemma mi_store_bytes:
  "bytes_at (mi_int2store m T a) T 2 = rev (le_bytes 2 (unat a))"
  "bytes_at (mi_int3store m T A) T 3 = rev (le_bytes 3 (unat A))"
  "bytes_at (mi_int4store m T A) T 4 = rev (le_bytes 4 (unat A))"
  "bytes_at (mi_int5store m T A) T 5 = rev (le_bytes 5 (unat A))"
  "bytes_at (mi_int6store m T A) T 6 = rev (le_bytes 6 (unat A))"
  "bytes_at (mi_int7store m T A) T 7 = rev (le_bytes 7 (unat A))"
  "bytes_at (mi_int8store m T A) T 8 = rev (le_bytes 8 (unat A))"
  by (simp_all add: mi_store_defs byte_list_simps unat_drop_bit_div flip: div_mult2_eq)

text \<open>
  every high-byte-first reader returns what the store of its width wrote, truncated to
  that width.
\<close>

theorem mi_korr_store_roundtrip:
  "mi_uint1korr (mi_int1store m T a) T = ucast a \<and>
   unat (mi_uint2korr (mi_int2store m T a) T) = unat a mod 2 ^ 16 \<and>
   unat (mi_uint3korr (mi_int3store m T A) T) = unat A mod 2 ^ 24 \<and>
   unat (mi_uint4korr (mi_int4store m T A) T) = unat A mod 2 ^ 32 \<and>
   unat (mi_uint5korr (mi_int5store m T A) T) = unat A mod 2 ^ 40 \<and>
   unat (mi_uint6korr (mi_int6store m T A) T) = unat A mod 2 ^ 48 \<and>
   unat (mi_uint7korr (mi_int7store m T A) T) = unat A mod 2 ^ 56 \<and>
   mi_uint8korr (mi_int8store m T A) T = A \<and> mi_sint8korr (mi_int8store m T A) T = A"
proof -
  have "mi_uint8korr (mi_int8store m T A) T = A"
    using uint64_lt [of A]
    by (intro word_eq_unatI) (simp add: unat_mi_readers mi_store_bytes le_nat_le_bytes)
  then show ?thesis
    by (simp add: mi_uint1korr_def mi_int1store_def mi_sint8korr_def unat_mi_readers
        mi_store_bytes le_nat_le_bytes)
qed

text \<open>The optimised readers shift the value to the top of the register and swap its bytes.\<close>

lemma bswapq_high:
  assumes "unat w = 256 ^ (8 - n) * le_nat bs" "length bs = n" "n \<le> 8"
  shows "unat (bswapq w) = le_nat (rev bs)"
proof -
  have z: "le_bytes k 0 = replicate k 0" for k by (induction k) simp_all
  have zn: "le_nat (xs @ replicate k 0) = le_nat xs" for xs k
    by (induction k) (simp_all add: le_nat_append replicate_app_Cons_same)
  have sh: "le_bytes (k + n) (256 ^ k * v) = replicate k 0 @ le_bytes n v" for k v
  proof (induction k)
    case (Suc k)
    have "(of_nat (256 * 256 ^ k * v) :: uchar) = 0"
      by (rule word_eq_unatI) (simp only: unat_of_nat_uchar mult.assoc mod_mult_self1_is_0 unsigned_0)
    with Suc show ?case by (simp add: mult.assoc)
  qed simp
  have "le_bytes 8 (unat w) = replicate (8 - n) 0 @ bs"
    using sh [of "8 - n" "le_nat bs"] assms le_bytes_le_nat [of bs] by simp
  then have "unat (bswapq w) = le_nat (rev bs) mod 2 ^ 64"
    using zn [of "rev bs" "8 - n"] by (simp add: bswapq_def unat_of_nat)
  moreover have "le_nat (rev bs) < 256 ^ 8"
    by (rule less_le_trans [OF le_nat_bound power_increasing]) (use assms in simp_all)
  ultimately show ?thesis by simp
qed

lemma unat_push_top:
  assumes "unat w = le_nat bs" "length bs = n" "n \<le> 8"
  shows "unat (push_bit (64 - 8 * n) w :: uint64) = 256 ^ (8 - n) * le_nat bs"
proof -
  have "64 - 8 * n = 8 * (8 - n)" using assms(3) by simp
  then have p: "(2 :: nat) ^ (64 - 8 * n) = 256 ^ (8 - n)" by (simp only: power_mult) simp
  have "le_nat bs * 256 ^ (8 - n) < 256 ^ n * 256 ^ (8 - n)"
    using le_nat_bound [of bs] assms(2) by simp
  also have "\<dots> = 2 ^ 64" using assms(3) by (simp flip: power_add)
  finally show ?thesis using assms(1) p by (simp add: unat_push_bit_mod mult.commute)
qed

lemma bswapq_push:
  "unat w = le_nat bs \<Longrightarrow> length bs = n \<Longrightarrow> n \<le> 8 \<Longrightarrow>
   unat (bswapq (push_bit (64 - 8 * n) w)) = le_nat (rev bs)"
  using unat_push_top [of w bs n] by (intro bswapq_high) simp_all

lemma unat_low7:
  "unat (ucast (load_le 4 m p :: uint32) OR push_bit 32 (ucast (load_le 2 m (4 + p) :: uint16)) OR
         push_bit 48 (ucast (m (6 + p))) :: uint64) = le_nat (bytes_at m p 7)"
proof -
  let ?low = "ucast (load_le 4 m p :: uint32) OR push_bit 32 (ucast (load_le 2 m (4 + p) :: uint16)) :: uint64"
  have low: "unat ?low = le_nat (bytes_at m p 6)"
    using unat_uint6korr_x86_64 [of m p] by (simp add: uint6korr_x86_64_def Let_def)
  have "le_nat (bytes_at m p 6) < 2 ^ 48" using le_nat_bound [of "bytes_at m p 6"] by simp
  then have "unat (?low OR push_bit 48 (ucast (m (6 + p)))) = unat ?low + 2 ^ 48 * unat (m (6 + p))"
    using low uchar_lt [of "m (6 + p)"] by (subst unat_or_shift) (simp_all add: unat_ucast_up)
  then show ?thesis using low by (simp add: or.assoc bytes_at_numeral add.commute)
qed

text \<open>
  the byte-swapping readers of the x86-64 header compute the same values as the portable
  high-byte-first macros they replace.
\<close>

theorem mi_korr_x86_64_agree:
  "mi_uint5korr_x86_64 = mi_uint5korr \<and> mi_uint6korr_x86_64 = mi_uint6korr \<and>
   mi_uint7korr_x86_64 = mi_uint7korr \<and> mi_uint8korr_x86_64 = mi_uint8korr"
proof (intro conjI ext word_eq_unatI)
  fix m p
  show "unat (mi_uint5korr_x86_64 m p) = unat (mi_uint5korr m p)"
    using bswapq_push [OF unat_uint5korr_x86_64 [unfolded uint5korr_x86_64_def Let_def], of m p 5]
    by (simp add: mi_uint5korr_x86_64_def Let_def unat_mi_uint5korr)
  show "unat (mi_uint6korr_x86_64 m p) = unat (mi_uint6korr m p)"
    using bswapq_push [OF unat_uint6korr_x86_64 [unfolded uint6korr_x86_64_def Let_def], of m p 6]
    by (simp add: mi_uint6korr_x86_64_def Let_def unat_mi_uint6korr)
  show "unat (mi_uint7korr_x86_64 m p) = unat (mi_uint7korr m p)"
    using bswapq_push [OF unat_low7, of m p 7]
    by (simp add: mi_uint7korr_x86_64_def Let_def unat_mi_uint7korr)
  show "unat (mi_uint8korr_x86_64 m p) = unat (mi_uint8korr m p)"
    using bswapq_push [of "load_le 8 m p" "bytes_at m p 8" 8]
    by (simp add: mi_uint8korr_x86_64_def unat_mi_uint8korr unat_load_le)
qed

section \<open>Order of stored keys\<close>

text \<open>\<open>memcmp\<close>: the sign of the comparison of two byte sequences.\<close>

fun memcmp :: "uchar list \<Rightarrow> uchar list \<Rightarrow> int" where
  "memcmp (a # as) (b # bs) =
     (if a = b then memcmp as bs else if unat a < unat b then -1 else 1)"
| "memcmp _ _ = 0"

lemma memcmp_be_less:
  "length xs = length ys \<Longrightarrow> memcmp xs ys < 0 \<longleftrightarrow> le_nat (rev xs) < le_nat (rev ys)"
proof (induction xs ys rule: list_induct2)
  case (Cons x xs y ys)
  have bx: "le_nat (rev xs) < 256 ^ length ys" using le_nat_bound [of "rev xs"] Cons by simp
  have byy: "le_nat (rev ys) < 256 ^ length ys" using le_nat_bound [of "rev ys"] by simp
  show ?case
  proof (cases "x = y")
    case True
    then show ?thesis using Cons by (simp add: le_nat_append)
  next
    case False
    then have ne: "unat x \<noteq> unat y" using word_eq_unatI by blast
    have lt: "a + K * u < b + K * v" if "a < K" "u < v" for a b K u v :: nat
    proof -
      have "K * Suc u \<le> K * v" using that(2) by (intro mult_le_mono2) simp
      then show ?thesis using that(1) by simp
    qed
    have "unat x < unat y \<longleftrightarrow> le_nat (rev xs) + 256 ^ length ys * unat x < le_nat (rev ys) + 256 ^ length ys * unat y"
      using lt [OF bx, of "unat x" "unat y" "le_nat (rev ys)"]
        lt [OF byy, of "unat y" "unat x" "le_nat (rev xs)"] ne by linarith
    then show ?thesis using False Cons.hyps by (simp add: le_nat_append)
  qed
qed simp

text \<open>
  eight-byte numbers stored high byte first compare as byte strings the way they compare
  as unsigned numbers; so do the shorter widths for values that fit them.
\<close>

theorem mi_store_order:
  "(memcmp (bytes_at (mi_int8store m T a) T 8) (bytes_at (mi_int8store m' T' b) T' 8) < 0 \<longleftrightarrow> a < b) \<and>
   (unat a < 2 ^ 32 \<longrightarrow> unat b < 2 ^ 32 \<longrightarrow>
    (memcmp (bytes_at (mi_int4store m T a) T 4) (bytes_at (mi_int4store m' T' b) T' 4) < 0 \<longleftrightarrow> a < b))"
  using uint64_lt [of a] uint64_lt [of b]
  by (simp add: memcmp_be_less mi_store_bytes le_nat_le_bytes word_less_nat_alt)

theorem mi_store_order_witness:
  "memcmp (bytes_at (mi_int4store (\<lambda>_. 0) 0 255) 0 4) (bytes_at (mi_int4store (\<lambda>_. 0) 0 256) 0 4) < 0"
  using mi_store_order [of "\<lambda>_. 0" 0 255 "\<lambda>_. 0" 0 256] by simp

section \<open>Rows, offsets and floating point\<close>

lemma unat_offset_error: "unat (HA_OFFSET_ERROR :: uint32) = 4294967295"
proof -
  have e: "(HA_OFFSET_ERROR :: uint32) = 4294967295" by (simp add: HA_OFFSET_ERROR_def)
  show ?thesis unfolding e by simp
qed

lemma mi_int4store_low:
  "bytes_at (mi_int4store (mi_int4store m T 0) (T + 4) A) (T + 4) 4 = rev (le_bytes 4 (unat A))"
  by (rule mi_store_bytes)

text \<open>
  row counts and file offsets are read back as they were stored, the error offset
  included; without \<open>BIG_TABLES\<close> row counts keep their lowest 32 bits.
\<close>

theorem mi_row_size_roundtrip:
  "mi_rowkorr True (mi_rowstore True m T A) T = A \<and>
   unat (mi_rowkorr False (mi_rowstore False m T A) T) = unat A mod 2 ^ 32 \<and>
   mi_sizekorr (mi_sizestore m T A) T = A \<and> mi_sizekorr32 (mi_sizestore32 m T B) T = B"
proof -
  have "mi_uint8korr (mi_int8store m T A) T = A"
    using uint64_lt [of A]
    by (intro word_eq_unatI) (simp add: unat_mi_readers mi_store_bytes le_nat_le_bytes)
  moreover have "unat (ucast (mi_uint4korr (mi_int4store (mi_int4store m T 0) (T + 4) A) (T + 4)) :: uint64)
      = unat A mod 2 ^ 32"
    by (simp add: unat_ucast_up unat_mi_readers mi_int4store_low le_nat_le_bytes)
  moreover have "mi_sizekorr32 (mi_sizestore32 m T B) T = B"
  proof (cases "B = HA_OFFSET_ERROR")
    case True
    then have "bytes_at (mi_sizestore32 m T B) (T + 4) 4 = [255, 255, 255, 255]"
      by (simp add: mi_sizestore32_def bytes_at_numeral put_bytes_apply)
    then have "unat (mi_sizekorr32 (mi_sizestore32 m T B) T) = 4294967295"
      by (simp add: mi_sizekorr32_def unat_mi_readers)
    then show ?thesis using True by (intro word_eq_unatI) (simp add: unat_offset_error)
  next
    case False
    then show ?thesis using uint32_lt [of B]
      by (intro word_eq_unatI)
         (simp add: mi_sizekorr32_def mi_sizestore32_def unat_mi_readers mi_int4store_low
           le_nat_le_bytes unat_ucast_up)
  qed
  ultimately show ?thesis
    by (simp add: mi_rowkorr_def mi_rowstore_def mi_sizekorr_def mi_sizestore_def)
qed

lemma mi_float_store_bytes:
  assumes "disjoint_areas T A 8"
  shows "mi_float4store m T A = put_bytes m T (rev (bytes_at m A 4))"
    "mi_float8store m T A = put_bytes m T (rev (bytes_at m A 8))"
    "mi_float4store_be m T A = put_bytes m T (bytes_at m A 4)"
    "mi_float8store_be m T A = put_bytes m T (bytes_at m A 8)"
    "mi_float8store_bi m T A = put_bytes m T (rev (bytes_at m A 4) @ rev (bytes_at m (A + 4) 4))"
proof -
  have d4: "disjoint_areas T A 4" using assms by auto
  show "mi_float4store m T A = put_bytes m T (rev (bytes_at m A 4))"
    using float4store_be_bytes [OF d4] by (simp add: mi_float4store_def float4store_be_def)
  show "mi_float8store m T A = put_bytes m T (rev (bytes_at m A 8))"
    using float8store_be_bytes [OF assms] by (simp add: mi_float8store_def float8store_be_def)
  have "mi_float4store_be m T A = m(T := m A, T + 1 := m (A + 1), T + 2 := m (A + 2), T + 3 := m (A + 3))"
    using d4 by (auto simp: mi_float4store_be_def Let_def)
  then show "mi_float4store_be m T A = put_bytes m T (bytes_at m A 4)"
    by (simp add: bytes_at_numeral put_bytes_4 del: put_bytes.simps)
  have "mi_float8store_be m T A = m(T := m A, T + 1 := m (A + 1), T + 2 := m (A + 2), T + 3 := m (A + 3),
      T + 4 := m (A + 4), T + 5 := m (A + 5), T + 6 := m (A + 6), T + 7 := m (A + 7))"
    using assms by (auto simp: mi_float8store_be_def Let_def)
  then show "mi_float8store_be m T A = put_bytes m T (bytes_at m A 8)"
    by (simp add: bytes_at_numeral put_bytes_8 del: put_bytes.simps)
  have "mi_float8store_bi m T A = m(T := m (A + 3), T + 1 := m (A + 2), T + 2 := m (A + 1), T + 3 := m A,
      T + 4 := m (A + 7), T + 5 := m (A + 6), T + 6 := m (A + 5), T + 7 := m (A + 4))"
    using assms by (auto simp: mi_float8store_bi_def Let_def)
  then show "mi_float8store_bi m T A = put_bytes m T (rev (bytes_at m A 4) @ rev (bytes_at m (A + 4) 4))"
    by (simp add: bytes_at_numeral put_bytes_8 ac_simps del: put_bytes.simps)
qed

text \<open>
  the high-byte-first floating-point macros restore the object representation they
  stored, on big-endian, little-endian and mixed-endian hardware.
\<close>

theorem mi_float_roundtrip:
  assumes "disjoint_areas T A 8"
  shows "bytes_at (mi_float4get (mi_float4store m T A) V T) V 4 = bytes_at m A 4 \<and>
         bytes_at (mi_float8get (mi_float8store m T A) V T) V 8 = bytes_at m A 8 \<and>
         bytes_at (mi_float4get_be (mi_float4store_be m T A) V T) V 4 = bytes_at m A 4 \<and>
         bytes_at (mi_float8get_be (mi_float8store_be m T A) V T) V 8 = bytes_at m A 8 \<and>
         bytes_at (mi_float8get_bi (mi_float8store_bi m T A) V T) V 8 = bytes_at m A 8"
proof -
  have g: "mi_float4get m V T = put_bytes m V (rev (bytes_at m T 4))"
    "mi_float8get m V T = put_bytes m V (rev (bytes_at m T 8))"
    "mi_float4get_be m V T = put_bytes m V (bytes_at m T 4)"
    "mi_float8get_be m V T = put_bytes m V (bytes_at m T 8)"
    "mi_float8get_bi m V T = put_bytes m V (rev (bytes_at m T 4) @ rev (bytes_at m (T + 4) 4))" for m
    by (simp_all add: mi_float4get_def mi_float8get_def mi_float4get_be_def mi_float8get_be_def
        mi_float8get_bi_def bytes_at_numeral Let_def ac_simps)
  let ?m = "mi_float8store_bi m T A"
  have "bytes_at ?m T (4 + 4) = rev (bytes_at m A 4) @ rev (bytes_at m (A + 4) 4)"
    by (simp add: mi_float_store_bytes [OF assms] mem_simps)
  then have "bytes_at ?m T 4 = rev (bytes_at m A 4)" "bytes_at ?m (T + 4) 4 = rev (bytes_at m (A + 4) 4)"
    unfolding bytes_at_append by simp_all
  then have "bytes_at (mi_float8get_bi ?m V T) V 8 = bytes_at m A (4 + 4)"
    unfolding bytes_at_append by (simp add: g mem_simps)
  then show ?thesis by (simp add: g mi_float_store_bytes [OF assms] mem_simps)
qed

theorem mi_float_roundtrip_witness:
  "bytes_at (mi_float8get_bi (mi_float8store_bi (\<lambda>a. of_nat a) 20 10) 40 20) 40 8 =
   [10, 11, 12, 13, 14, 15, 16, 17]"
  using mi_float_roundtrip [of 20 10 "\<lambda>a. of_nat a" 40] by (simp add: bytes_at_numeral)

section \<open>Key lengths\<close>

text \<open>
  a key length below 65536 is read back as it was stored, by each of the three readers,
  and the pointers advance by the size that \<open>size_to_store_key_length\<close> announces.
\<close>

theorem key_length_roundtrip:
  assumes "unat len < 65536" and "store_key_length_inc m key len = (m', key')"
  shows "get_key_length m' key = (len, key') \<and> get_key_length_rdonly m' key = len \<and>
         get_key_pack_length m' key = (len, size_to_store_key_length len, key') \<and>
         key' = key + size_to_store_key_length len"
proof (cases "len < 255")
  case True
  then have "unat len < 255" by (simp add: word_less_nat_alt)
  then have "ucast (ucast len :: uchar) = len" "(ucast len :: uchar) \<noteq> 255"
    by (auto intro!: word_eq_unatI simp: unat_ucast_eq_mod dest!: arg_cong [of _ _ unat])
  with True assms(2) show ?thesis
    by (auto simp: store_key_length_inc_def get_key_length_def get_key_length_rdonly_def
        get_key_pack_length_def size_to_store_key_length_def)
next
  case False
  let ?m = "mi_int2store (m(key := 255)) (key + 1) len"
  have m': "m' = ?m" "key' = key + 3" using assms(2) False by (auto simp: store_key_length_inc_def)
  have "?m key = 255" by (simp add: mi_int2store_def)
  moreover have "unat (ucast (mi_uint2korr ?m (key + 1)) :: uint32) = unat len"
    using assms(1) mi_store_bytes(1) [of "m(key := 255)" "key + 1" len]
    by (simp add: unat_ucast_up unat_mi_readers le_nat_le_bytes)
  then have "ucast (mi_uint2korr ?m (key + 1)) = len" by (rule word_eq_unatI)
  ultimately show ?thesis using False
    by (simp add: m' get_key_length_def get_key_length_rdonly_def get_key_pack_length_def
        size_to_store_key_length_def)
qed

theorem key_length_roundtrip_witness:
  "\<exists>m'. store_key_length_inc (\<lambda>_. 0) 5 300 = (m', 8) \<and> get_key_length m' 5 = (300, 8)"
  using key_length_roundtrip [of 300 "\<lambda>_. 0" 5 "mi_int2store ((\<lambda>_. 0)(5 := 255)) 6 300" 8]
  by (simp add: store_key_length_inc_def)

section \<open>Record bits\<close>

lemma rec_bits_end:
  assumes "unat (ofs :: uchar) < 8" "unat (len :: uint32) \<le> 8"
  shows "unat (ucast ofs + len) = unat ofs + unat len"
    and "8 < ucast ofs + len \<Longrightarrow> unat (len - 8 + ucast ofs) = unat ofs + unat len - 8"
proof -
  show s: "unat (ucast ofs + len) = unat ofs + unat len"
    using assms by (simp add: unat_word_ariths unat_ucast_up)
  assume "8 < ucast ofs + len"
  moreover have "len - 8 + ucast ofs = (ucast ofs + len) - 8" by simp
  ultimately show "unat (len - 8 + ucast ofs) = unat ofs + unat len - 8"
    using s by (simp only: unat_sub word_less_nat_alt word_le_nat_alt) (simp add: unat_sub word_le_nat_alt)
qed

text \<open>The bits of the two bytes after \<open>set_rec_bits\<close>.\<close>

lemma bit_set_rec_bits_low:
  assumes "unat ofs < 8" "unat len \<le> 8" "i < 8"
  shows "bit (set_rec_bits bits m p ofs len p) i \<longleftrightarrow>
           bit (m p) i \<and> \<not> (unat ofs \<le> i \<and> i < unat ofs + unat len) \<or>
           unat ofs \<le> i \<and> bit bits (i - unat ofs)"
proof -
  have "set_rec_bits bits m p ofs len p =
      ucast ((ucast (m p) AND NOT (push_bit (unat ofs) (mask (unat len))) :: uint32)
             OR push_bit (unat ofs) (ucast bits))"
    by (simp add: set_rec_bits_def Let_def mask_eq_exp_minus_1)
  then show ?thesis using assms
    by (auto simp: bit_ucast_iff bit_or_iff bit_and_iff bit_not_iff bit_push_bit_iff bit_mask_iff
        dest: bit_imp_le_length)
qed

lemma bit_set_rec_bits_high:
  assumes "unat ofs < 8" "unat len \<le> 8" "i < 8" "8 < unat ofs + unat len"
  shows "bit (set_rec_bits bits m p ofs len (p + 1)) i \<longleftrightarrow>
           bit (m (p + 1)) i \<and> \<not> i < unat ofs + unat len - 8 \<or> bit bits (8 - unat ofs + i)"
proof -
  have g: "8 < ucast ofs + len" using rec_bits_end(1) [OF assms(1,2)] assms(4) by (simp add: word_less_nat_alt)
  have "set_rec_bits bits m p ofs len (p + 1) =
      ucast ((ucast (m (p + 1)) AND NOT (mask (unat ofs + unat len - 8)) :: uint32)
             OR drop_bit (8 - unat ofs) (ucast bits))"
    using g rec_bits_end(2) [OF assms(1,2) g] by (simp add: set_rec_bits_def Let_def mask_eq_exp_minus_1)
  then show ?thesis using assms
    by (auto simp: bit_ucast_iff bit_or_iff bit_and_iff bit_not_iff bit_drop_bit_eq bit_mask_iff
        dest: bit_imp_le_length)
qed

lemma set_rec_bits_frame: "a \<noteq> p \<Longrightarrow> a \<noteq> p + 1 \<Longrightarrow> set_rec_bits bits m p ofs len a = m a"
  by (simp add: set_rec_bits_def Let_def)

lemma bit_get_rec_bits:
  assumes "unat ofs < 8" "unat len \<le> 8"
  shows "bit (get_rec_bits m p ofs len) i \<longleftrightarrow> i < unat len \<and>
     (if unat ofs + i < 8 then bit (m p) (unat ofs + i) else bit (m (p + 1)) (unat ofs + i - 8))"
proof -
  let ?val = "(ucast (m p) :: uint16) OR
      (if 8 < unat ofs + unat len then ucast (push_bit 8 (ucast (m (p + 1)) :: uint32)) else 0)"
  have "8 < ucast ofs + len \<longleftrightarrow> 8 < unat ofs + unat len"
    using rec_bits_end(1) [OF assms] by (simp add: word_less_nat_alt)
  then have g: "get_rec_bits m p ofs len = ucast (drop_bit (unat ofs) (ucast ?val :: uint32) AND mask (unat len))"
    by (simp add: get_rec_bits_def Let_def mask_eq_exp_minus_1)
  have v: "bit ?val j \<longleftrightarrow> (if j < 8 then bit (m p) j
       else j < 16 \<and> 8 < unat ofs + unat len \<and> bit (m (p + 1)) (j - 8))" for j
    by (auto simp: bit_or_iff bit_ucast_iff bit_push_bit_iff dest: bit_imp_le_length)
  show ?thesis unfolding g using assms v [of "unat ofs + i"]
    by (auto simp: bit_ucast_iff bit_and_iff bit_drop_bit_eq bit_mask_iff dest: bit_imp_le_length
        split: if_splits)
qed

text \<open>
  reading a record bit field returns the bits that were stored in it, for every field of
  up to eight bits that begins in a byte and may run into the next; all bits of the two
  bytes outside the field and all other bytes are unchanged.
\<close>

theorem rec_bits_roundtrip:
  assumes "unat ofs < 8" "unat len \<le> 8" "unat bits < 2 ^ unat len"
  shows "get_rec_bits (set_rec_bits bits m p ofs len) p ofs len = ucast bits \<and>
         (\<forall>i<8. \<not> (unat ofs \<le> i \<and> i < unat ofs + unat len) \<longrightarrow>
            bit (set_rec_bits bits m p ofs len p) i = bit (m p) i) \<and>
         (\<forall>i<8. unat ofs + unat len \<le> 8 + i \<longrightarrow>
            bit (set_rec_bits bits m p ofs len (p + 1)) i = bit (m (p + 1)) i) \<and>
         (\<forall>a. a \<noteq> p \<longrightarrow> a \<noteq> p + 1 \<longrightarrow> set_rec_bits bits m p ofs len a = m a)"
proof -
  have small: "bit bits j \<Longrightarrow> j < unat len" for j
    using assms(3) by (rule bit_of_lt)
  have "get_rec_bits (set_rec_bits bits m p ofs len) p ofs len = ucast bits"
  proof (rule bit_word_eqI)
    fix i assume "i < LENGTH(8)"
    then show "bit (get_rec_bits (set_rec_bits bits m p ofs len) p ofs len) i = bit (ucast bits :: uchar) i"
      using assms(1,2) small [of i]
      by (auto simp: bit_get_rec_bits bit_set_rec_bits_low bit_set_rec_bits_high bit_ucast_iff
          simp del: One_nat_def add_Suc_right)
  qed
  moreover have "bit (set_rec_bits bits m p ofs len (p + 1)) i = bit (m (p + 1)) i"
    if "i < 8" "unat ofs + unat len \<le> 8 + i" for i
  proof (cases "8 < unat ofs + unat len")
    case True
    then show ?thesis using that assms small [of "8 - unat ofs + i"]
      by (auto simp: bit_set_rec_bits_high simp del: One_nat_def add_Suc_right)
  next
    case False
    then show ?thesis using rec_bits_end(1) [OF assms(1,2)]
      by (simp add: set_rec_bits_def Let_def word_less_nat_alt)
  qed
  moreover have "bit (set_rec_bits bits m p ofs len p) i = bit (m p) i"
    if "i < 8" "\<not> (unat ofs \<le> i \<and> i < unat ofs + unat len)" for i
    using that assms small [of "i - unat ofs"] by (auto simp: bit_set_rec_bits_low)
  ultimately show ?thesis by (simp add: set_rec_bits_frame)
qed

theorem rec_bits_roundtrip_witness:
  "get_rec_bits (set_rec_bits 5 (\<lambda>_. 255) 3 6 4) 3 6 4 = 5"
  using rec_bits_roundtrip [of 6 4 5 "\<lambda>_. 255" 3] by simp

end
