(* ===== verification/MyBit.thy ===== *)
theory MyBit
  imports Prelude
begin

text \<open>
  The bit functions of \<^verbatim>\<open>my_bit.h\<close>: integer logarithm, population count, rounding to a
  power of two, clearing the highest bit, bit reversal and low-bit masks.  Every function
  is the source's expression on words of the source's width.  The extern table
  \<open>_my_bits_reverse_table\<close> is a parameter of \<open>my_reverse_bits\<close>, and the shift count of
  \<open>my_set_bits\<close> is checked as C requires it (an out-of-range shift has no result).
\<close>

unbundle bit_operations_syntax

section \<open>Definitions\<close>

function my_bit_log2_loop :: "ulong \<Rightarrow> uint32 \<Rightarrow> uint32" where
  "my_bit_log2_loop v n = (if 1 < v then my_bit_log2_loop (drop_bit 1 v) (n + 1) else n)"
  by pat_completeness auto
termination
proof (relation "measure (\<lambda>(v, n). unat v)")
  fix v :: ulong and n :: uint32
  assume "1 < v"
  then have "1 < unat v" by (simp add: word_less_nat_alt)
  then show "((drop_bit 1 v, n + 1), (v, n)) \<in> measure (\<lambda>(v, n). unat v)"
    by (simp add: unat_drop_bit_div)
qed simp

declare my_bit_log2_loop.simps [simp del]

definition my_bit_log2 :: "ulong \<Rightarrow> uint32" where
  "my_bit_log2 v = my_bit_log2_loop v 0"

definition my_count_bits_uint32 :: "uint32 \<Rightarrow> uint32" where
  "my_count_bits_uint32 v =
     (let v = v - (drop_bit 1 v AND 0x55555555);
          v = (v AND 0x33333333) + (drop_bit 2 v AND 0x33333333)
      in drop_bit 24 (((v + drop_bit 4 v) AND 0xF0F0F0F) * 0x1010101))"

definition my_count_bits :: "uint64 \<Rightarrow> uint32" where
  "my_count_bits x = my_count_bits_uint32 (ucast x) + my_count_bits_uint32 (ucast (drop_bit 32 x))"

definition my_round_up_to_next_power :: "uint32 \<Rightarrow> uint32" where
  "my_round_up_to_next_power v =
     (let v = v - 1;
          v = v OR drop_bit 1 v;
          v = v OR drop_bit 2 v;
          v = v OR drop_bit 4 v;
          v = v OR drop_bit 8 v;
          v = v OR drop_bit 16 v
      in v + 1)"

definition my_clear_highest_bit :: "uint32 \<Rightarrow> uint32" where
  "my_clear_highest_bit v =
     (let w = drop_bit 1 v;
          w = w OR drop_bit 1 w;
          w = w OR drop_bit 2 w;
          w = w OR drop_bit 4 w;
          w = w OR drop_bit 8 w;
          w = w OR drop_bit 16 w
      in v AND w)"

definition my_reverse_bits :: "(nat \<Rightarrow> uchar) \<Rightarrow> uint32 \<Rightarrow> uint32" where
  "my_reverse_bits tab key =
     (push_bit 24 (ucast (tab (unat (key AND 255)))) OR
      push_bit 16 (ucast (tab (unat (drop_bit 8 key AND 255)))) OR
      push_bit 8 (ucast (tab (unat (drop_bit 16 key AND 255)))) OR
      ucast (tab (unat (drop_bit 24 key))))"

text \<open>\<open>1ULL << (n - 1)\<close> is defined for a shift count between 0 and 63 only.\<close>

definition my_set_bits :: "int \<Rightarrow> uint64 option" where
  "my_set_bits n =
     (if 0 \<le> n - 1 \<and> n - 1 < 64
      then Some (push_bit 1 (push_bit (nat (n - 1)) 1 - 1) OR 1) else None)"

section \<open>Logarithm\<close>

lemma my_bit_log2_loop_correct:
  assumes "0 < v" and "unat n + 32 < 2 ^ 32"
  shows "\<exists>r. unat (my_bit_log2_loop v n) = unat n + r \<and> r < 32 \<and>
             2 ^ r \<le> unat v \<and> unat v < 2 ^ Suc r"
proof -
  have "\<exists>r. unat (my_bit_log2_loop v n) = unat n + r \<and> r < k \<and>
             2 ^ r \<le> unat v \<and> unat v < 2 ^ Suc r"
    if "unat v < 2 ^ k" "0 < unat v" "unat n + k < 2 ^ 32" for k
    using that
  proof (induction k arbitrary: v n)
    case (Suc k)
    show ?case
    proof (cases "1 < v")
      case True
      then have v: "1 < unat v" by (simp add: word_less_nat_alt)
      have n: "unat (n + 1) = unat n + 1"
        using Suc.prems(3) by (simp add: unat_word_ariths)
      have "unat (drop_bit 1 v) < 2 ^ k" "0 < unat (drop_bit 1 v)"
        using Suc.prems v by (auto simp: unat_drop_bit_div)
      from Suc.IH [OF this, of "n + 1"] Suc.prems(3) n obtain r where
        r: "unat (my_bit_log2_loop (drop_bit 1 v) (n + 1)) = unat n + 1 + r" "r < k"
           "2 ^ r \<le> unat v div 2" "unat v div 2 < 2 ^ Suc r"
        by (auto simp: unat_drop_bit_div)
      then have "2 ^ Suc r \<le> unat v" "unat v < 2 ^ Suc (Suc r)"
        by (simp_all add: less_mult_imp_div_less)
      with r True show ?thesis
        by (intro exI [of _ "Suc r"]) (simp add: my_bit_log2_loop.simps [of v n])
    next
      case False
      then have "unat v = 1" using Suc.prems by (simp add: word_less_nat_alt)
      with False show ?thesis
        by (intro exI [of _ 0]) (simp add: my_bit_log2_loop.simps [of v n])
    qed
  qed simp
  from this [of 32] assms show ?thesis
    using unsigned_less [of v] by (simp add: word_less_nat_alt)
qed

lemma my_bit_log2_0: "my_bit_log2 0 = 0"
  by (simp add: my_bit_log2_def my_bit_log2_loop.simps)

section \<open>Population count\<close>

text \<open>The number of set bits of a word, the reference for the parallel counting below.\<close>

definition popcount :: "'a::len word \<Rightarrow> nat" where
  "popcount w = length (filter (bit w) [0..<LENGTH('a)])"

text \<open>The counting runs on the hexadecimal digits of the word, lowest digit first.\<close>

primrec hexnum :: "nat list \<Rightarrow> nat" where
  "hexnum [] = 0"
| "hexnum (d # ds) = d + 16 * hexnum ds"

primrec hexdigits :: "nat \<Rightarrow> nat \<Rightarrow> nat list" where
  "hexdigits 0 v = []"
| "hexdigits (Suc n) v = v mod 16 # hexdigits n (v div 16)"

lemma hexnum_hexdigits: "hexnum (hexdigits n v) = v mod 16 ^ n"
  by (induction n arbitrary: v) (simp_all add: mod_mult2_eq)

lemma hexdigits_lt: "d \<in> set (hexdigits n v) \<Longrightarrow> d < 16"
  by (induction n arbitrary: v) auto

lemma length_hexdigits [simp]: "length (hexdigits n v) = n"
  by (induction n arbitrary: v) auto

lemma bit_add_shift:
  fixes a x :: nat
  assumes "a < 2 ^ k"
  shows "bit (a + 2 ^ k * x) n = (if n < k then bit a n else bit x (n - k))"
  using assms by (auto simp: bit_or_iff bit_push_bit_iff_nat dest: bit_nat_lt simp flip: or_shift_nat)

lemma and_field:
  fixes a c x y :: nat
  assumes "a < 2 ^ k" "c < 2 ^ k"
  shows "(a + 2 ^ k * x) AND (c + 2 ^ k * y) = (a AND c) + 2 ^ k * (x AND y)"
proof (rule bit_eqI)
  fix n
  have "a AND c = take_bit k (a AND c)" using assms by (simp add: take_bit_nat_eq_self)
  then have "a AND c < 2 ^ k" by (metis take_bit_nat_less_exp)
  then show "bit ((a + 2 ^ k * x) AND (c + 2 ^ k * y)) n = bit ((a AND c) + 2 ^ k * (x AND y)) n"
    using assms by (simp add: bit_and_iff bit_add_shift)
qed

lemma hexnum_shift_and:
  assumes "\<forall>d\<in>set ds. d < 16" and "c < 16" and "k \<le> 4"
    and "\<forall>d<16. \<forall>e<2 ^ k. (d div 2 ^ k + 2 ^ (4 - k) * e) AND c = d div 2 ^ k AND c"
  shows "hexnum ds div 2 ^ k AND hexnum (replicate (length ds) c) =
         hexnum (map (\<lambda>d. d div 2 ^ k AND c) ds)"
  using assms(1)
proof (induction ds)
  case (Cons d ds)
  let ?h = "hexnum ds"
  have k16: "(16::nat) = 2 ^ k * 2 ^ (4 - k)" using assms(3) by (simp flip: power_add)
  have split: "(d + 16 * ?h) div 2 ^ k = d div 2 ^ k + 2 ^ (4 - k) * (?h mod 2 ^ k) + 16 * (?h div 2 ^ k)"
  proof -
    have "(d + 16 * ?h) div 2 ^ k = d div 2 ^ k + 2 ^ (4 - k) * ?h"
      by (simp add: k16 mult.assoc)
    also have "\<dots> = d div 2 ^ k + 2 ^ (4 - k) * (?h mod 2 ^ k + 2 ^ k * (?h div 2 ^ k))"
      by simp
    finally show ?thesis by (simp only: k16 algebra_simps)
  qed
  have low: "d div 2 ^ k + 2 ^ (4 - k) * (?h mod 2 ^ k) < 16"
  proof -
    have "d div 2 ^ k < 2 ^ (4 - k)" using Cons.prems k16 by (simp add: less_mult_imp_div_less mult.commute)
    then have "d div 2 ^ k + 2 ^ (4 - k) * (?h mod 2 ^ k) < 2 ^ (4 - k) * Suc (?h mod 2 ^ k)" by simp
    also have "\<dots> \<le> 2 ^ (4 - k) * 2 ^ k" by (intro mult_le_mono2) (simp add: Suc_le_eq)
    finally show ?thesis using k16 by (simp add: mult.commute)
  qed
  have "(d + 16 * ?h) div 2 ^ k AND (c + 16 * hexnum (replicate (length ds) c)) =
        ((d div 2 ^ k + 2 ^ (4 - k) * (?h mod 2 ^ k)) AND c) +
        16 * (?h div 2 ^ k AND hexnum (replicate (length ds) c))"
    unfolding split using and_field [of _ 4 c] low assms(2) by simp
  also have "(d div 2 ^ k + 2 ^ (4 - k) * (?h mod 2 ^ k)) AND c = d div 2 ^ k AND c"
    using assms(4) Cons.prems by simp
  finally show ?case using Cons by simp
qed simp

lemma hexnum_and:
  assumes "length ds = length es" "\<forall>d\<in>set ds. d < 16" "\<forall>e\<in>set es. e < 16"
  shows "hexnum ds AND hexnum es = hexnum (map2 (\<lambda>d e. d AND e) ds es)"
  using assms
proof (induction ds es rule: list_induct2)
  case (Cons d ds e es)
  then show ?case using and_field [of d 4 e "hexnum ds" "hexnum es"] by simp
qed simp

lemma hexnum_mono: "\<forall>d\<in>set ds. f d \<le> g d \<Longrightarrow> hexnum (map f ds) \<le> hexnum (map g ds)"
  by (induction ds) (auto intro: add_mono)

lemma hexnum_diff:
  "\<forall>d\<in>set ds. f d \<le> g d \<Longrightarrow>
   hexnum (map g ds) - hexnum (map f ds) = hexnum (map (\<lambda>d. g d - f d) ds)"
proof (induction ds)
  case (Cons d ds)
  then have "hexnum (map f ds) \<le> hexnum (map g ds)" by (intro hexnum_mono) simp
  with Cons show ?case by simp
qed simp

lemma hexnum_add: "hexnum (map f ds) + hexnum (map g ds) = hexnum (map (\<lambda>d. f d + g d) ds)"
  by (induction ds) (simp_all add: algebra_simps)

lemma hexnum_lt: "\<forall>d\<in>set ds. d < 16 \<Longrightarrow> hexnum ds < 16 ^ length ds"
proof (induction ds)
  case (Cons d ds)
  then have "d + 16 * hexnum ds < 16 * Suc (hexnum ds)" by simp
  also have "\<dots> \<le> 16 * 16 ^ length ds" using Cons by (intro mult_le_mono2) simp
  finally show ?case by simp
qed simp

text \<open>Counting on one digit, and on a digit sequence.\<close>

definition digit_count :: "nat \<Rightarrow> nat" where
  "digit_count d = (let v = d - (d div 2 AND 5) in (v AND 3) + (v div 4 AND 3))"

text \<open>Facts on a single digit are checked for each of its sixteen values.\<close>

lemma digits_all: "list_all P [0..<16] \<Longrightarrow> d < 16 \<Longrightarrow> P d"
  by (simp add: list_all_iff)

lemma digit_count_popcount:
  "d < 16 \<Longrightarrow> digit_count d = length (filter (bit d) [0..<4])"
  by (rule digits_all [of "\<lambda>d. digit_count d = length (filter (bit d) [0..<4])"]) code_simp

lemma digit_count_le: "d < 16 \<Longrightarrow> digit_count d \<le> 4"
  by (rule digits_all [of "\<lambda>d. digit_count d \<le> 4"]) code_simp

lemma digit_shift1:
  "\<forall>d<16. \<forall>e<2 ^ 1. (d div 2 ^ 1 + 2 ^ (4 - 1) * e) AND 5 = d div 2 ^ 1 AND (5 :: nat)"
proof -
  have "list_all (\<lambda>d. list_all (\<lambda>e. (d div 2 + 8 * e) AND 5 = d div 2 AND (5 :: nat)) [0..<2]) [0..<16]"
    by code_simp
  then show ?thesis by (simp add: list_all_iff)
qed

lemma digit_shift2:
  "\<forall>d<16. \<forall>e<2 ^ 2. (d div 2 ^ 2 + 2 ^ (4 - 2) * e) AND 3 = d div 2 ^ 2 AND (3 :: nat)"
proof -
  have "list_all (\<lambda>d. list_all (\<lambda>e. (d div 4 + 4 * e) AND 3 = d div 4 AND (3 :: nat)) [0..<4]) [0..<16]"
    by code_simp
  then show ?thesis by (simp add: list_all_iff)
qed

lemma digit_sub: "(d :: nat) < 16 \<Longrightarrow> d div 2 AND 5 \<le> d \<and> d - (d div 2 AND 5) < 16"
  by (rule digits_all [of "\<lambda>d :: nat. d div 2 AND 5 \<le> d \<and> d - (d div 2 AND 5) < 16"]) code_simp

lemma hexnum_count_step:
  assumes "\<forall>d\<in>set ds. d < 16"
  shows "let v = hexnum ds - (hexnum ds div 2 AND hexnum (replicate (length ds) 5))
         in (v AND hexnum (replicate (length ds) 3)) +
            (v div 4 AND hexnum (replicate (length ds) 3)) = hexnum (map digit_count ds)"
proof -
  let ?f = "\<lambda>d. d - (d div 2 AND 5)"
  have a: "hexnum ds div 2 AND hexnum (replicate (length ds) 5) = hexnum (map (\<lambda>d. d div 2 AND 5) ds)"
    using hexnum_shift_and [of ds 5 1] assms digit_shift1 by simp
  have b: "hexnum ds - hexnum (map (\<lambda>d. d div 2 AND 5) ds) = hexnum (map ?f ds)"
    using hexnum_diff [of ds "\<lambda>d. d div 2 AND 5" "\<lambda>d. d"] assms digit_sub by simp
  have lt: "\<forall>d\<in>set (map ?f ds). d < 16" using assms digit_sub by auto
  have c: "hexnum (map ?f ds) AND hexnum (replicate (length ds) 3) = hexnum (map (\<lambda>d. ?f d AND 3) ds)"
    using hexnum_shift_and [of "map ?f ds" 3 0] lt by (simp add: comp_def)
  have d: "hexnum (map ?f ds) div 4 AND hexnum (replicate (length ds) 3) =
           hexnum (map (\<lambda>d. ?f d div 4 AND 3) ds)"
    using hexnum_shift_and [of "map ?f ds" 3 2] lt digit_shift2 by (simp add: comp_def)
  show ?thesis
    by (simp add: Let_def a b c d hexnum_add digit_count_def [abs_def])
qed

lemma and_15: "(x :: nat) < 16 \<Longrightarrow> x AND 15 = x"
  using take_bit_eq_mask [of 4 x] by (simp add: take_bit_nat_eq_self mask_eq_exp_minus_1)

lemma hexnum_pair_sums:
  assumes "c0 \<le> 4" "c1 \<le> 4" "c2 \<le> 4" "c3 \<le> 4" "c4 \<le> 4" "c5 \<le> 4" "c6 \<le> 4" "c7 \<le> 4"
  shows "(hexnum [c0, c1, c2, c3, c4, c5, c6, c7] + hexnum [c0, c1, c2, c3, c4, c5, c6, c7] div 16)
           AND 0xF0F0F0F = hexnum [c0 + c1, 0, c2 + c3, 0, c4 + c5, 0, c6 + c7, 0]"
proof -
  have "hexnum [c0, c1, c2, c3, c4, c5, c6, c7] div 16 = hexnum [c1, c2, c3, c4, c5, c6, c7, 0]"
    using assms(1) by simp
  then have "hexnum [c0, c1, c2, c3, c4, c5, c6, c7] + hexnum [c0, c1, c2, c3, c4, c5, c6, c7] div 16 =
        hexnum [c0 + c1, c1 + c2, c2 + c3, c3 + c4, c4 + c5, c5 + c6, c6 + c7, c7]"
    by simp
  moreover have "(0xF0F0F0F :: nat) = hexnum [15, 0, 15, 0, 15, 0, 15, 0]" by simp
  ultimately show ?thesis
    using assms hexnum_and [of "[c0 + c1, c1 + c2, c2 + c3, c3 + c4, c4 + c5, c5 + c6, c6 + c7, c7]"
        "[15, 0, 15, 0, 15, 0, 15, 0]"]
    by (simp add: and_15 del: hexnum.simps)
qed

lemma byte_sum_mult:
  fixes s0 s1 s2 s3 :: nat
  assumes "s0 \<le> 8" "s1 \<le> 8" "s2 \<le> 8" "s3 \<le> 8"
  shows "(hexnum [s0, 0, s1, 0, s2, 0, s3, 0] * 0x1010101) mod 2 ^ 32 div 2 ^ 24 = s0 + s1 + s2 + s3"
proof -
  let ?low = "s0 + 256 * (s0 + s1) + 65536 * (s0 + s1 + s2)"
  let ?high = "s1 + s2 + s3 + 256 * (s2 + s3) + 65536 * s3"
  have X: "hexnum [s0, 0, s1, 0, s2, 0, s3, 0] * 0x1010101 =
        (?low + 16777216 * (s0 + s1 + s2 + s3)) + 4294967296 * ?high"
    by simp
  have "?low + 16777216 * (s0 + s1 + s2 + s3) < 4294967296" using assms by simp
  then have "(hexnum [s0, 0, s1, 0, s2, 0, s3, 0] * 0x1010101) mod 4294967296 =
        ?low + 16777216 * (s0 + s1 + s2 + s3)"
    unfolding X by (simp only: mod_mult_self2 mod_less)
  moreover have "?low < 16777216" using assms by simp
  ultimately show ?thesis by simp
qed

lemma count_hexnum:
  "\<forall>d\<in>set ds. d < 16 \<Longrightarrow>
   length (filter (bit (hexnum ds)) [0..<4 * length ds]) = sum_list (map digit_count ds)"
proof (induction ds)
  case (Cons d ds)
  let ?h = "hexnum ds" and ?n = "4 * length ds"
  have d: "d < 2 ^ 4" using Cons.prems by simp
  have b: "bit (d + 16 * ?h) i = (if i < 4 then bit d i else bit ?h (i - 4))" for i
    using bit_add_shift [OF d, of ?h i] by simp
  have "[0..<4 + ?n] = [0..<4] @ map (\<lambda>i. i + 4) [0..<?n]"
    by (simp add: map_add_upt upt_add_eq_append [of 0 4 ?n] add.commute del: upt_Suc)
  then have "length (filter (bit (d + 16 * ?h)) [0..<4 + ?n]) =
        length (filter (bit d) [0..<4]) + length (filter (bit ?h) [0..<?n])"
    by (simp add: b filter_map comp_def cong: filter_cong del: upt_Suc) (simp add: upt_rec)
  with Cons d show ?case by (simp add: digit_count_popcount)
qed simp

lemma filter_bit_unat:
  "filter (bit (w :: 'a::len word)) [0..<LENGTH('a)] = filter (bit (unat w)) [0..<LENGTH('a)]"
  by (rule filter_cong) (auto simp: bit_unsigned_iff)

lemma replicate_8: "replicate 8 x = [x, x, x, x, x, x, x, x]"
  by (simp add: numeral_eq_Suc)

lemma sum_list_8:
  "length xs = 8 \<Longrightarrow> \<exists>a b c d e f g h. xs = [a, b, c, d, e, f, g, h]"
  by (auto simp: numeral_eq_Suc length_Suc_conv)

text \<open>The three stages of the count on the number of the word.\<close>

lemma count_stages:
  fixes v :: nat
  assumes "v < 2 ^ 32"
  defines "v1 \<equiv> v - (v div 2 AND 0x55555555)"
  defines "v2 \<equiv> (v1 AND 0x33333333) + (v1 div 4 AND 0x33333333)"
  shows "v div 2 AND 0x55555555 \<le> v" and "v2 + v2 div 16 < 2 ^ 32"
    and "(((v2 + v2 div 16) AND 0xF0F0F0F) * 0x1010101) mod 2 ^ 32 div 2 ^ 24 =
         length (filter (bit v) [0..<32])"
proof -
  define ds where "ds = hexdigits 8 v"
  have ds: "length ds = 8" "\<forall>d\<in>set ds. d < 16" "hexnum ds = v"
    using assms(1) by (auto simp: ds_def hexdigits_lt hexnum_hexdigits)
  have "hexnum (replicate 8 5) = 0x55555555" by (simp add: replicate_8)
  moreover have "hexnum (replicate 8 3) = 0x33333333" by (simp add: replicate_8)
  moreover note hexnum_count_step [OF ds(2)] ds
  ultimately have v2: "v2 = hexnum (map digit_count ds)"
    by (simp add: v1_def v2_def Let_def)
  obtain a b c d e f g h where x: "ds = [a, b, c, d, e, f, g, h]"
    using sum_list_8 [OF ds(1)] by blast
  have le: "digit_count a \<le> 4" "digit_count b \<le> 4" "digit_count c \<le> 4" "digit_count d \<le> 4"
    "digit_count e \<le> 4" "digit_count f \<le> 4" "digit_count g \<le> 4" "digit_count h \<le> 4"
    using ds(2) by (auto simp: x intro: digit_count_le)
  show "v2 + v2 div 16 < 2 ^ 32" unfolding v2 using le by (simp add: x)
  show "v div 2 AND 0x55555555 \<le> v"
  proof -
    have "v div 2 AND 0x55555555 \<le> v div 2" by (simp add: and_nat_def nat_le_iff zdiv_int AND_upper1)
    then show ?thesis by linarith
  qed
  have "(v2 + v2 div 16) AND 0xF0F0F0F = hexnum [digit_count a + digit_count b, 0,
      digit_count c + digit_count d, 0, digit_count e + digit_count f, 0, digit_count g + digit_count h, 0]"
    unfolding v2 x using hexnum_pair_sums [OF le] by (simp del: hexnum.simps)
  then have "(((v2 + v2 div 16) AND 0xF0F0F0F) * 0x1010101) mod 2 ^ 32 div 2 ^ 24 =
      sum_list (map digit_count ds)"
    using byte_sum_mult [of "digit_count a + digit_count b" "digit_count c + digit_count d"
        "digit_count e + digit_count f" "digit_count g + digit_count h"] le
    by (simp add: x del: hexnum.simps)
  also have "\<dots> = length (filter (bit v) [0..<32])"
    using count_hexnum [OF ds(2)] ds by simp
  finally show "(((v2 + v2 div 16) AND 0xF0F0F0F) * 0x1010101) mod 2 ^ 32 div 2 ^ 24 =
         length (filter (bit v) [0..<32])" .
qed

lemma my_count_bits_uint32_popcount: "unat (my_count_bits_uint32 v) = popcount v"
proof -
  have v: "unat v < 2 ^ 32" using unsigned_less [of v] by simp
  note st = count_stages [OF v]
  let ?v1 = "v - (drop_bit 1 v AND 0x55555555)"
  have v1: "unat ?v1 = unat v - (unat v div 2 AND 0x55555555)"
    using st(1) by (subst unat_sub) (simp_all add: word_le_nat_alt unsigned_and_eq unat_drop_bit_div)
  let ?v2 = "(?v1 AND 0x33333333) + (drop_bit 2 ?v1 AND 0x33333333)"
  have v2: "unat ?v2 = (unat ?v1 AND 0x33333333) + (unat ?v1 div 4 AND 0x33333333)"
    using st(2) unfolding v1 [symmetric]
    by (simp add: unat_word_ariths unsigned_and_eq unat_drop_bit_div)
  have "unat (?v2 + drop_bit 4 ?v2) = unat ?v2 + unat ?v2 div 16"
    using st(2) unfolding v1 [symmetric] v2 [symmetric]
    by (simp add: unat_word_ariths unat_drop_bit_div)
  then have "unat (my_count_bits_uint32 v) =
      (((unat ?v2 + unat ?v2 div 16) AND 0xF0F0F0F) * 0x1010101) mod 2 ^ 32 div 2 ^ 24"
    by (simp add: my_count_bits_uint32_def Let_def unat_drop_bit_div unat_word_ariths unsigned_and_eq)
  also have "\<dots> = popcount v"
    using st(3) unfolding v1 [symmetric] v2 [symmetric] popcount_def filter_bit_unat by simp
  finally show ?thesis .
qed

lemma popcount_le: "popcount (w :: 'a::len word) \<le> LENGTH('a)"
  unfolding popcount_def by (metis length_filter_le length_upt diff_zero)

lemma popcount_card: "popcount (w :: 'a::len word) = card {i. bit w i}"
proof -
  have "popcount w = card (set (filter (bit w) [0..<LENGTH('a)]))"
    unfolding popcount_def by (rule distinct_card [symmetric]) simp
  moreover have "set (filter (bit w) [0..<LENGTH('a)]) = {i. bit w i}"
    by (auto dest: bit_imp_le_length)
  ultimately show ?thesis by simp
qed

lemma popcount_split: "popcount (x :: uint64) = popcount (ucast x :: uint32) + popcount (ucast (drop_bit 32 x) :: uint32)"
proof -
  have "[0..<64] = [0..<32] @ map (\<lambda>i. i + 32) [0..<32]"
    using upt_add_eq_append [of 0 32 32] by (simp add: map_add_upt add.commute)
  then have "popcount x = length (filter (bit x) [0..<32]) + length (filter (\<lambda>i. bit x (i + 32)) [0..<32])"
    by (simp add: popcount_def filter_map comp_def)
  moreover have "filter (bit x) [0..<32] = filter (bit (ucast x :: uint32)) [0..<32]"
    by (rule filter_cong) (auto simp: bit_ucast_iff)
  moreover have "filter (\<lambda>i. bit x (i + 32)) [0..<32] = filter (bit (ucast (drop_bit 32 x) :: uint32)) [0..<32]"
    by (rule filter_cong) (auto simp: bit_ucast_iff bit_drop_bit_eq add.commute)
  ultimately show ?thesis by (simp add: popcount_def)
qed

lemma my_count_bits_popcount: "unat (my_count_bits x) = popcount x"
proof -
  have "popcount (ucast x :: uint32) \<le> 32" "popcount (ucast (drop_bit 32 x) :: uint32) \<le> 32"
    using popcount_le [where 'a = 32] by simp_all
  then show ?thesis
    by (simp add: my_count_bits_def unat_word_ariths my_count_bits_uint32_popcount popcount_split [of x])
qed

section \<open>Smearing the highest bit downwards\<close>

lemma smear_step:
  fixes w v :: "'a::len word"
  assumes "\<And>i. bit w i \<longleftrightarrow> (\<exists>j<k. bit v (i + j))"
  shows "bit (w OR drop_bit k w) i \<longleftrightarrow> (\<exists>j<2 * k. bit v (i + j))"
proof -
  have "(\<exists>j<2 * k. P j) \<longleftrightarrow> (\<exists>j<k. P j) \<or> (\<exists>j<k. P (k + j))" for P
  proof
    assume "\<exists>j<2 * k. P j"
    then obtain j where "j < 2 * k" "P j" by blast
    moreover have "j - k < k \<and> P (k + (j - k))" if "\<not> j < k"
      using that \<open>j < 2 * k\<close> \<open>P j\<close> by simp
    ultimately show "(\<exists>j<k. P j) \<or> (\<exists>j<k. P (k + j))" by blast
  next
    assume "(\<exists>j<k. P j) \<or> (\<exists>j<k. P (k + j))"
    then show "\<exists>j<2 * k. P j"
    proof
      assume "\<exists>j<k. P (k + j)"
      then obtain j where "j < k" "P (k + j)" by blast
      then show ?thesis by (intro exI [of _ "k + j"]) simp
    qed force
  qed
  then show ?thesis by (simp add: bit_or_iff bit_drop_bit_eq assms ac_simps)
qed

definition smear :: "uint32 \<Rightarrow> uint32" where
  "smear v =
     (let v = v OR drop_bit 1 v; v = v OR drop_bit 2 v; v = v OR drop_bit 4 v;
          v = v OR drop_bit 8 v; v = v OR drop_bit 16 v in v)"

lemma bit_smear: "bit (smear v) i \<longleftrightarrow> (\<exists>j<32. bit v (i + j))"
proof -
  have "bit v i \<longleftrightarrow> (\<exists>j<1. bit v (i + j))" for i by simp
  from smear_step [OF smear_step [OF smear_step [OF smear_step [OF smear_step [OF this]]]]]
  show ?thesis by (simp add: smear_def Let_def)
qed

lemma bit_top:
  assumes "unat (v :: 'a::len word) < 2 ^ Suc n" "2 ^ n \<le> unat v"
  shows "bit v n"
proof -
  have "unat v div 2 ^ n = 1" using assms by (simp add: div_nat_eqI)
  then have "bit (unat v) n" by (simp add: bit_iff_odd)
  then show ?thesis by (simp add: bit_unsigned_iff)
qed

lemma smear_eq_mask:
  assumes "unat v < 2 ^ n" "n \<noteq> 0 \<Longrightarrow> 2 ^ (n - 1) \<le> unat v"
  shows "smear v = mask n"
proof (rule bit_word_eqI)
  fix i assume i: "i < LENGTH(32)"
  have "(\<exists>j<32. bit v (i + j)) \<longleftrightarrow> i < n"
  proof
    assume "i < n"
    then have "bit v (n - 1)" using assms bit_top [of v "n - 1"] by simp
    moreover from this have "n - 1 < 32" using bit_imp_le_length by force
    ultimately show "\<exists>j<32. bit v (i + j)" using \<open>i < n\<close> by (intro exI [of _ "n - 1 - i"]) simp
  qed (use bit_of_lt [OF assms(1)] in fastforce)
  then show "bit (smear v) i = bit (mask n :: uint32) i"
    using i by (simp add: bit_smear bit_mask_iff)
qed

lemma bitlen_exists:
  "\<exists>n. (v :: nat) < 2 ^ n \<and> (n \<noteq> 0 \<longrightarrow> 2 ^ (n - 1) \<le> v)"
proof -
  let ?n = "LEAST n. v < 2 ^ n"
  have "v < 2 ^ ?n" by (rule LeastI [of _ v]) (rule less_exp)
  moreover have "?n \<noteq> 0 \<longrightarrow> 2 ^ (?n - 1) \<le> v"
    using not_less_Least [of "?n - 1" "\<lambda>n. v < 2 ^ n"] by (auto simp: not_less)
  ultimately show ?thesis by blast
qed

lemma unat_power_mod: "unat (2 ^ n :: 'a::len word) = 2 ^ n mod 2 ^ LENGTH('a)"
  using unat_of_nat [of "2 ^ n", where 'a = 'a] by simp

lemma my_round_up_smear: "my_round_up_to_next_power v = smear (v - 1) + 1"
  by (simp add: my_round_up_to_next_power_def smear_def Let_def)

lemma my_clear_highest_bit_smear: "my_clear_highest_bit v = v AND smear (drop_bit 1 v)"
  by (simp add: my_clear_highest_bit_def smear_def Let_def)

text \<open>
  \<open>my_bit_log2\<close> of a positive value is its floor logarithm: the largest \<open>r\<close> with
  \<open>2 ^ r \<le> value\<close> (the header's comment promises the smallest \<open>X\<close> with \<open>2 ^ X \<ge> value\<close>,
  which is a different number unless the value is a power of two).
\<close>

theorem my_bit_log2_floor:
  "0 < v \<Longrightarrow> 2 ^ unat (my_bit_log2 v) \<le> unat v \<and> unat v < 2 ^ Suc (unat (my_bit_log2 v))"
  using my_bit_log2_loop_correct [of v 0] by (auto simp: my_bit_log2_def)

theorem my_bit_log2_floor_witness:
  "2 ^ unat (my_bit_log2 5) \<le> unat (5 :: ulong) \<and> unat (5 :: ulong) < 2 ^ Suc (unat (my_bit_log2 5))"
  by (rule my_bit_log2_floor) simp

text \<open>
  \<open>my_count_bits\<close> computes the number of set bits of its 64-bit argument; the
  parallel counting of \<open>my_count_bits_uint32\<close> does so for both halves.
\<close>

theorem my_count_bits_correct:
  "unat (my_count_bits x) = card {i. bit x i} \<and>
   unat (my_count_bits_uint32 y) = card {i. bit y i}"
  by (simp add: my_count_bits_popcount my_count_bits_uint32_popcount popcount_card)

text \<open>
  rounding up gives the least power of two not below the argument, reduced to 32 bits
  (so arguments above \<open>2 ^ 31\<close> give 0), and 0 for 0.
\<close>

theorem my_round_up_to_next_power_correct:
  "unat (my_round_up_to_next_power v) =
     (if v = 0 then 0 else 2 ^ (LEAST n. unat v \<le> 2 ^ n) mod 2 ^ 32)"
proof (cases "v = 0")
  case True
  then show ?thesis by (simp add: my_round_up_to_next_power_def Let_def)
next
  case False
  then have v: "unat (v - 1) + 1 = unat v"
    by (simp add: unat_minus_one unat_gt_0)
  obtain n where n: "unat (v - 1) < 2 ^ n" "n \<noteq> 0 \<longrightarrow> 2 ^ (n - 1) \<le> unat (v - 1)"
    using bitlen_exists by blast
  have "(LEAST n. unat v \<le> 2 ^ n) = n"
  proof (rule Least_equality)
    show "unat v \<le> 2 ^ n" using n v by linarith
    fix m assume "unat v \<le> 2 ^ m"
    show "n \<le> m"
    proof (cases "n = 0")
      case False
      then have "2 ^ (n - 1) < (2 :: nat) ^ m" using n \<open>unat v \<le> 2 ^ m\<close> v by linarith
      then show ?thesis by simp
    qed simp
  qed
  moreover have "my_round_up_to_next_power v = 2 ^ n"
    using smear_eq_mask [of "v - 1" n] n by (simp add: my_round_up_smear inc_mask_eq_exp)
  ultimately show ?thesis using False by (simp add: unat_power_mod)
qed

text \<open>
  clearing the highest bit of a value between \<open>2 ^ n\<close> and \<open>2 ^ (n + 1)\<close> subtracts
  \<open>2 ^ n\<close>.
\<close>

theorem my_clear_highest_bit_correct:
  assumes "2 ^ n \<le> unat v" "unat v < 2 ^ Suc n"
  shows "unat (my_clear_highest_bit v) = unat v - 2 ^ n"
proof -
  have "smear (drop_bit 1 v) = mask n"
  proof (rule smear_eq_mask)
    show "unat (drop_bit 1 v) < 2 ^ n" using assms(2) by (simp add: unat_drop_bit_div)
    assume "n \<noteq> 0"
    then have "(2 :: nat) ^ n = 2 * 2 ^ (n - 1)" by (cases n) simp_all
    then show "2 ^ (n - 1) \<le> unat (drop_bit 1 v)" using assms(1) by (simp add: unat_drop_bit_div)
  qed
  then have "my_clear_highest_bit v = take_bit n v"
    by (simp add: my_clear_highest_bit_smear take_bit_eq_mask)
  then have "unat (my_clear_highest_bit v) = take_bit n (unat v)"
    by (simp add: unsigned_take_bit_eq)
  also have "\<dots> = unat v mod 2 ^ n" by (simp add: take_bit_eq_mod)
  also have "\<dots> = unat v - 2 ^ n"
    using assms by (simp add: mod_if)
  finally show ?thesis .
qed

theorem my_clear_highest_bit_correct_witness:
  "unat (my_clear_highest_bit 13) = 13 - 2 ^ 3"
  using my_clear_highest_bit_correct [of 3 13] by simp

text \<open>
  with a table that reverses the bits of each byte, \<open>my_reverse_bits\<close> reverses the 32
  bits of its argument.
\<close>

theorem my_reverse_bits_correct:
  assumes tab: "\<And>b i. i < 8 \<Longrightarrow> bit (tab (unat (b :: uchar))) i = bit b (7 - i)"
    and i: "i < 32"
  shows "bit (my_reverse_bits tab key) i = bit key (31 - i)"
proof -
  have low: "unat (w AND 255) = unat (ucast w :: uchar)" for w :: uint32
  proof -
    have "w AND 255 = take_bit 8 w" by (simp add: take_bit_eq_mask mask_eq_exp_minus_1)
    then show ?thesis by (simp add: unsigned_take_bit_eq unsigned_ucast_eq)
  qed
  have high: "unat (drop_bit 24 key) = unat (ucast (drop_bit 24 key) :: uchar)"
    using uint32_lt [of key]
    by (simp add: unat_ucast_eq_mod unat_drop_bit_div less_mult_imp_div_less)
  have field: "bit (push_bit (24 - k) (ucast (tab (unat (ucast (drop_bit k key) :: uchar)))) :: uint32) i =
      (24 - k \<le> i \<and> i < 32 - k \<and> bit key (31 - i))" if "k \<le> 24" for k
  proof (cases "24 - k \<le> i \<and> i < 32 - k")
    case True
    then have j: "i - (24 - k) < 8" "k + (7 - (i - (24 - k))) = 31 - i" "7 - (i - (24 - k)) < 8" using that by linarith+
    have "bit (tab (unat (ucast (drop_bit k key) :: uchar))) (i - (24 - k)) = bit key (31 - i)"
      unfolding tab [OF j(1)] bit_ucast_iff bit_drop_bit_eq j(2) [symmetric] using j(3) by simp
    moreover have "i - (24 - k) < 32" using i by linarith
    ultimately show ?thesis using True i by (simp add: bit_push_bit_iff bit_ucast_iff)
  next
    case False
    then have "24 - k \<le> i \<Longrightarrow> 8 \<le> i - (24 - k)" using that by linarith
    with False show ?thesis by (auto simp: bit_push_bit_iff bit_ucast_iff dest: bit_imp_le_length)
  qed
  show ?thesis
    using field [of 0] field [of 8] field [of 16] field [of 24] i
    unfolding my_reverse_bits_def low high bit_or_iff by simp linarith
qed

text \<open>A table as the server defines it: entry \<open>n\<close> is \<open>n\<close> with its eight bits reversed.\<close>

definition reverse_table :: "nat \<Rightarrow> uchar" where
  "reverse_table n =
     foldr (\<lambda>i acc. (if bit n (7 - i) then push_bit i 1 else 0) OR acc) [0..<8] 0"

lemma bit_or_foldr:
  "bit (foldr (\<lambda>i acc. (if P i then push_bit i 1 else 0) OR acc) js 0 :: uchar) n \<longleftrightarrow>
     n < 8 \<and> n \<in> set js \<and> P n"
  by (induction js) (auto simp: bit_or_iff bit_exp_iff dest: bit_imp_le_length)

lemma reverse_table_bit: "i < 8 \<Longrightarrow> bit (reverse_table (unat b)) i = bit (b :: uchar) (7 - i)"
  by (simp add: reverse_table_def bit_or_foldr bit_unsigned_iff)

theorem my_reverse_bits_correct_witness:
  "bit (my_reverse_bits reverse_table 1) 31 = bit (1 :: uint32) (31 - 31)"
  by (rule my_reverse_bits_correct) (simp_all add: reverse_table_bit)

text \<open>
  \<open>my_set_bits n\<close> is the number with exactly the \<open>n\<close> lowest bits set for \<open>n\<close> from 1
  to 64; for any other \<open>n\<close> its shift count is out of range.
\<close>

theorem my_set_bits_correct:
  "my_set_bits n = (if 1 \<le> n \<and> n \<le> 64 then Some (mask (nat n)) else None)"
proof (cases "1 \<le> n \<and> n \<le> 64")
  case True
  define k where "k = nat (n - 1)"
  have k: "nat n = Suc k" "k < 64" using True by (auto simp: k_def)
  have "push_bit k 1 - 1 = (mask k :: uint64)" by (simp add: mask_eq_exp_minus_1)
  then have "push_bit 1 (push_bit k 1 - 1) OR 1 = (mask (Suc k) :: uint64)"
    by (simp add: mask_Suc_double ac_simps)
  with True k show ?thesis by (simp add: my_set_bits_def k_def)
next
  case False
  then show ?thesis by (auto simp: my_set_bits_def)
qed

end
