(* ===== verification/Bitmaps.thy ===== *)
theory Bitmaps
  imports MyBit
begin

text \<open>
  Bitmaps: the inline operations of \<^verbatim>\<open>my_bitmap.h\<close> on \<open>MY_BITMAP\<close>, the 64-bit
  specialisation \<open>Bitmap<64>\<close> of \<^verbatim>\<open>sql_bitmap.h\<close>, the iterators \<open>Table_map_iterator\<close> and
  \<open>Bitmap<width>::Iterator\<close>, and \<open>Bitmap<width>::print\<close>.  The contract of a bit set (what
  each operation does to the set of bits) is the locale \<open>bitset\<close>, extended to the set
  algebra by \<open>bitset_algebra\<close>; \<open>MY_BITMAP\<close> is interpreted in the first, \<open>Bitmap<64>\<close> in both.
\<close>

unbundle bit_operations_syntax

section \<open>The contract of a bit set\<close>

locale bitset =
  fixes inv :: "'b \<Rightarrow> bool"
    and width :: "'b \<Rightarrow> nat"
    and bits :: "'b \<Rightarrow> nat set"
    and set_bit :: "'b \<Rightarrow> nat \<Rightarrow> 'b"
    and clear_bit :: "'b \<Rightarrow> nat \<Rightarrow> 'b"
    and is_set :: "'b \<Rightarrow> nat \<Rightarrow> bool"
    and set_all :: "'b \<Rightarrow> 'b"
    and clear_all :: "'b \<Rightarrow> 'b"
  assumes bits_width: "inv b \<Longrightarrow> bits b \<subseteq> {..<width b}"
    and inv_set_bit: "inv b \<Longrightarrow> n < width b \<Longrightarrow> inv (set_bit b n)"
    and inv_clear_bit: "inv b \<Longrightarrow> n < width b \<Longrightarrow> inv (clear_bit b n)"
    and inv_set_all: "inv b \<Longrightarrow> inv (set_all b)"
    and inv_clear_all: "inv b \<Longrightarrow> inv (clear_all b)"
    and width_set_bit: "width (set_bit b n) = width b"
    and width_clear_bit: "width (clear_bit b n) = width b"
    and bits_set_bit: "inv b \<Longrightarrow> n < width b \<Longrightarrow> bits (set_bit b n) = insert n (bits b)"
    and bits_clear_bit: "inv b \<Longrightarrow> n < width b \<Longrightarrow> bits (clear_bit b n) = bits b - {n}"
    and bits_is_set: "inv b \<Longrightarrow> n < width b \<Longrightarrow> is_set b n = (n \<in> bits b)"
    and bits_set_all: "inv b \<Longrightarrow> bits (set_all b) = {..<width b}"
    and bits_clear_all: "inv b \<Longrightarrow> bits (clear_all b) = {}"
begin

lemma is_set_set_bit:
  "inv b \<Longrightarrow> n < width b \<Longrightarrow> k < width b \<Longrightarrow> is_set (set_bit b n) k = (k = n \<or> is_set b k)"
  by (simp add: bits_is_set inv_set_bit width_set_bit bits_set_bit)

lemma is_set_clear_bit:
  "inv b \<Longrightarrow> n < width b \<Longrightarrow> k < width b \<Longrightarrow> is_set (clear_bit b n) k = (k \<noteq> n \<and> is_set b k)"
  by (auto simp: bits_is_set inv_clear_bit width_clear_bit bits_clear_bit)

text \<open>Setting the bits of a list one after the other.\<close>

lemma set_bits_foldl:
  "inv b \<Longrightarrow> set ns \<subseteq> {..<width b} \<Longrightarrow>
   inv (foldl set_bit b ns) \<and> width (foldl set_bit b ns) = width b \<and>
   bits (foldl set_bit b ns) = bits b \<union> set ns"
proof (induction ns arbitrary: b)
  case (Cons n ns)
  from Cons.prems have "inv (set_bit b n)" "set ns \<subseteq> {..<width (set_bit b n)}" "n < width b"
    by (simp_all add: inv_set_bit width_set_bit)
  from Cons.IH [OF this(1,2)] this(3) Cons.prems(1) show ?case
    by (auto simp: bits_set_bit width_set_bit)
qed simp

end

locale bitset_algebra = bitset +
  fixes intersect :: "'b \<Rightarrow> 'b \<Rightarrow> 'b"
    and subtract :: "'b \<Rightarrow> 'b \<Rightarrow> 'b"
    and merge :: "'b \<Rightarrow> 'b \<Rightarrow> 'b"
    and is_subset :: "'b \<Rightarrow> 'b \<Rightarrow> bool"
    and is_overlapping :: "'b \<Rightarrow> 'b \<Rightarrow> bool"
  assumes bits_intersect: "bits (intersect b c) = bits b \<inter> bits c"
    and bits_subtract: "bits (subtract b c) = bits b - bits c"
    and bits_merge: "bits (merge b c) = bits b \<union> bits c"
    and bits_is_subset: "is_subset b c = (bits b \<subseteq> bits c)"
    and bits_is_overlapping: "is_overlapping b c = (bits b \<inter> bits c \<noteq> {})"
begin

lemma subset_iff_merge: "is_subset b c \<longleftrightarrow> bits (merge b c) = bits c"
  by (auto simp: bits_is_subset bits_merge)

lemma subtract_not_overlapping: "\<not> is_overlapping (subtract b c) c"
  by (auto simp: bits_is_overlapping bits_subtract)

lemma overlapping_sym: "is_overlapping b c = is_overlapping c b"
  by (auto simp: bits_is_overlapping)

lemma split_merge: "bits (merge (intersect b c) (subtract b c)) = bits b"
  by (auto simp: bits_merge bits_intersect bits_subtract)

end

section \<open>my\_bitmap.h\<close>

text \<open>
  \<open>struct st_bitmap\<close>: the buffer as its bytes, \<open>last_word_ptr\<close> as the index of a 32-bit word
  of the buffer.  The mutex is not modelled (the inline operations never take it).
\<close>

record MY_BITMAP =
  bitmap :: "uchar list"
  last_word_ptr :: nat
  last_word_mask :: uint32
  n_bits :: nat

definition bitmap_buffer_size :: "nat \<Rightarrow> nat" where
  "bitmap_buffer_size b = (b + 31) div 32 * 4"

definition no_bytes_in_map :: "MY_BITMAP \<Rightarrow> nat" where
  "no_bytes_in_map M = (n_bits M + 7) div 8"

definition no_words_in_map :: "MY_BITMAP \<Rightarrow> nat" where
  "no_words_in_map M = (n_bits M + 31) div 32"

definition bytes_word_aligned :: "nat \<Rightarrow> nat" where
  "bytes_word_aligned bytes = 4 * ((bytes + 3) div 4)"

definition bitmap_set_bit_raw :: "MY_BITMAP \<Rightarrow> nat \<Rightarrow> MY_BITMAP" where
  "bitmap_set_bit_raw M b =
     M\<lparr>bitmap := (bitmap M)[b div 8 := bitmap M ! (b div 8) OR push_bit (b AND 7) 1]\<rparr>"

definition bitmap_flip_bit_raw :: "MY_BITMAP \<Rightarrow> nat \<Rightarrow> MY_BITMAP" where
  "bitmap_flip_bit_raw M b =
     M\<lparr>bitmap := (bitmap M)[b div 8 := bitmap M ! (b div 8) XOR push_bit (b AND 7) 1]\<rparr>"

definition bitmap_clear_bit_raw :: "MY_BITMAP \<Rightarrow> nat \<Rightarrow> MY_BITMAP" where
  "bitmap_clear_bit_raw M b =
     M\<lparr>bitmap := (bitmap M)[b div 8 := bitmap M ! (b div 8) AND NOT (push_bit (b AND 7) 1)]\<rparr>"

definition bitmap_is_set_raw :: "MY_BITMAP \<Rightarrow> nat \<Rightarrow> uchar" where
  "bitmap_is_set_raw M b = bitmap M ! (b div 8) AND push_bit (b AND 7) 1"

text \<open>The checked variants of debug builds: a failed assertion has no result.\<close>

definition bitmap_set_bit :: "MY_BITMAP \<Rightarrow> nat \<Rightarrow> MY_BITMAP option" where
  "bitmap_set_bit M b = (if b < n_bits M then Some (bitmap_set_bit_raw M b) else None)"

definition bitmap_flip_bit :: "MY_BITMAP \<Rightarrow> nat \<Rightarrow> MY_BITMAP option" where
  "bitmap_flip_bit M b = (if b < n_bits M then Some (bitmap_flip_bit_raw M b) else None)"

definition bitmap_clear_bit :: "MY_BITMAP \<Rightarrow> nat \<Rightarrow> MY_BITMAP option" where
  "bitmap_clear_bit M b = (if b < n_bits M then Some (bitmap_clear_bit_raw M b) else None)"

definition bitmap_is_set :: "MY_BITMAP \<Rightarrow> nat \<Rightarrow> uchar option" where
  "bitmap_is_set M b = (if b < n_bits M then Some (bitmap_is_set_raw M b) else None)"

text \<open>The 32-bit word \<open>i\<close> of the buffer, lowest byte first.\<close>

definition word_at :: "uchar list \<Rightarrow> nat \<Rightarrow> uint32" where
  "word_at bs i = of_nat (le_nat (take 4 (drop (4 * i) bs)))"

definition bitmap_cmp :: "MY_BITMAP \<Rightarrow> MY_BITMAP \<Rightarrow> bool" where
  "bitmap_cmp M1 M2 =
     (if take (4 * (no_words_in_map M1 - 1)) (bitmap M1) \<noteq>
         take (4 * (no_words_in_map M1 - 1)) (bitmap M2) then False
      else (word_at (bitmap M1) (last_word_ptr M1) OR last_word_mask M1) =
           (word_at (bitmap M2) (last_word_ptr M2) OR last_word_mask M2))"

definition bitmap_clear_all :: "MY_BITMAP \<Rightarrow> MY_BITMAP" where
  "bitmap_clear_all M =
     M\<lparr>bitmap := replicate (4 * no_words_in_map M) 0 @ drop (4 * no_words_in_map M) (bitmap M)\<rparr>"

definition bitmap_set_all :: "MY_BITMAP \<Rightarrow> MY_BITMAP" where
  "bitmap_set_all M =
     M\<lparr>bitmap := replicate (4 * no_words_in_map M) 0xFF @ drop (4 * no_words_in_map M) (bitmap M)\<rparr>"

text \<open>What \<open>my_bitmap_init\<close> establishes and the operations rely on.\<close>

definition bitmap_ok :: "MY_BITMAP \<Rightarrow> bool" where
  "bitmap_ok M \<longleftrightarrow> 0 < n_bits M \<and> length (bitmap M) = 4 * no_words_in_map M \<and>
     last_word_ptr M = no_words_in_map M - 1 \<and>
     (\<forall>i<32. bit (last_word_mask M) i \<longleftrightarrow> n_bits M \<le> 32 * last_word_ptr M + i)"

definition bitmap_bits :: "MY_BITMAP \<Rightarrow> nat set" where
  "bitmap_bits M = {i. i < n_bits M \<and> bit (bitmap M ! (i div 8)) (i mod 8)}"

lemma and_7: "(b :: nat) AND 7 = b mod 8"
  using take_bit_eq_mask [of 3 b] by (simp add: take_bit_eq_mod mask_eq_exp_minus_1)

lemma byte_in_range: "bitmap_ok M \<Longrightarrow> b < n_bits M \<Longrightarrow> b div 8 < length (bitmap M)"
  by (simp add: bitmap_ok_def no_words_in_map_def)

lemma same_bit: "(i :: nat) div 8 = b div 8 \<Longrightarrow> i mod 8 = b mod 8 \<longleftrightarrow> i = b"
  by (metis mult_div_mod_eq)

lemma bit_one_byte: "bit (push_bit (b mod 8) 1 :: uchar) k \<longleftrightarrow> k = b mod 8"
  by (auto simp: bit_exp_iff)

lemma bitmap_is_set_bits:
  "b < n_bits M \<Longrightarrow> bitmap_is_set_raw M b \<noteq> 0 \<longleftrightarrow> b \<in> bitmap_bits M"
  using and_exp_eq_0_iff_not_bit [of "bitmap M ! (b div 8)" "b mod 8"]
  by (simp add: bitmap_is_set_raw_def bitmap_bits_def and_7)

lemma n_bits_update [simp]:
  "n_bits (bitmap_set_bit_raw M b) = n_bits M"
  "n_bits (bitmap_clear_bit_raw M b) = n_bits M"
  "n_bits (bitmap_flip_bit_raw M b) = n_bits M"
  "n_bits (bitmap_set_all M) = n_bits M" "n_bits (bitmap_clear_all M) = n_bits M"
  by (simp_all add: bitmap_set_bit_raw_def bitmap_clear_bit_raw_def bitmap_flip_bit_raw_def
      bitmap_set_all_def bitmap_clear_all_def)

lemmas bitmap_raw_defs = bitmap_set_bit_raw_def bitmap_clear_bit_raw_def bitmap_flip_bit_raw_def

lemma bitmap_ok_update:
  assumes "bitmap_ok M"
  shows "bitmap_ok (bitmap_set_bit_raw M b)" "bitmap_ok (bitmap_clear_bit_raw M b)"
    "bitmap_ok (bitmap_flip_bit_raw M b)" "bitmap_ok (bitmap_set_all M)" "bitmap_ok (bitmap_clear_all M)"
  using assms by (simp_all add: bitmap_ok_def bitmap_raw_defs bitmap_set_all_def bitmap_clear_all_def
      no_words_in_map_def)

lemma bit_updated_byte:
  assumes "bitmap_ok M" "b < n_bits M"
  shows "i < n_bits M \<Longrightarrow> bit ((bitmap M)[b div 8 := v] ! (i div 8)) (i mod 8) =
    (if i div 8 = b div 8 then bit v (i mod 8) else bit (bitmap M ! (i div 8)) (i mod 8))"
  using byte_in_range [OF assms] by simp

lemma bitmap_bits_set:
  assumes "bitmap_ok M" "b < n_bits M"
  shows "bitmap_bits (bitmap_set_bit_raw M b) = insert b (bitmap_bits M)"
  using assms same_bit [of _ b] bit_updated_byte [OF assms]
  by (auto simp: bitmap_bits_def bitmap_set_bit_raw_def and_7 bit_or_iff bit_exp_iff split: if_splits)

lemma bitmap_bits_clear:
  assumes "bitmap_ok M" "b < n_bits M"
  shows "bitmap_bits (bitmap_clear_bit_raw M b) = bitmap_bits M - {b}"
  using assms same_bit [of _ b] bit_updated_byte [OF assms]
  by (auto simp: bitmap_bits_def bitmap_clear_bit_raw_def and_7 bit_and_iff bit_not_iff bit_exp_iff split: if_splits)

lemma bitmap_bits_flip:
  assumes "bitmap_ok M" "b < n_bits M"
  shows "bitmap_bits (bitmap_flip_bit_raw M b) =
    (if b \<in> bitmap_bits M then bitmap_bits M - {b} else insert b (bitmap_bits M))"
  using assms same_bit [of _ b] bit_updated_byte [OF assms]
  by (auto simp: bitmap_bits_def bitmap_flip_bit_raw_def and_7 bit_xor_iff bit_exp_iff split: if_splits)

lemma bit_all_ones: "bit (255 :: int) (k mod 8)"
  using bit_mask_iff [of 8 "k mod 8", where 'a = int] by (simp add: mask_eq_exp_minus_1)

lemma bitmap_bits_set_all: "bitmap_ok M \<Longrightarrow> bitmap_bits (bitmap_set_all M) = {..<n_bits M}"
  using byte_in_range [of M]
  by (auto simp: bitmap_bits_def bitmap_set_all_def bitmap_ok_def nth_append bit_all_ones)

lemma bitmap_bits_clear_all: "bitmap_ok M \<Longrightarrow> bitmap_bits (bitmap_clear_all M) = {}"
  using byte_in_range [of M]
  by (auto simp: bitmap_bits_def bitmap_clear_all_def bitmap_ok_def nth_append)

interpretation mb: bitset bitmap_ok n_bits bitmap_bits bitmap_set_bit_raw bitmap_clear_bit_raw
  "\<lambda>M n. bitmap_is_set_raw M n \<noteq> 0" bitmap_set_all bitmap_clear_all
  by unfold_locales
     (auto simp: bitmap_ok_update bitmap_bits_set bitmap_bits_clear bitmap_is_set_bits
       bitmap_bits_set_all bitmap_bits_clear_all, simp add: bitmap_bits_def)

text \<open>
  in a well-formed bitmap, the checked bit operations fail exactly on bits outside the
  map; on every other bit they set, clear or flip that bit of the set, keep all others and
  keep the map well-formed, and the test reports membership.
\<close>

theorem my_bitmap_operations:
  assumes "bitmap_ok M"
  shows "(b \<ge> n_bits M \<longrightarrow> bitmap_set_bit M b = None \<and> bitmap_clear_bit M b = None \<and>
            bitmap_flip_bit M b = None \<and> bitmap_is_set M b = None) \<and>
         (b < n_bits M \<longrightarrow>
            (\<exists>S C F. bitmap_set_bit M b = Some S \<and> bitmap_ok S \<and> bitmap_bits S = insert b (bitmap_bits M) \<and>
               bitmap_clear_bit M b = Some C \<and> bitmap_ok C \<and> bitmap_bits C = bitmap_bits M - {b} \<and>
               bitmap_flip_bit M b = Some F \<and> bitmap_ok F \<and>
               bitmap_bits F = (if b \<in> bitmap_bits M then bitmap_bits M - {b} else insert b (bitmap_bits M))) \<and>
            (\<exists>v. bitmap_is_set M b = Some v \<and> (v \<noteq> 0 \<longleftrightarrow> b \<in> bitmap_bits M)))"
  using assms
  by (auto simp: bitmap_set_bit_def bitmap_clear_bit_def bitmap_flip_bit_def bitmap_is_set_def
      mb.inv_set_bit mb.inv_clear_bit bitmap_ok_update mb.bits_set_bit mb.bits_clear_bit
      bitmap_bits_flip bitmap_is_set_bits)

text \<open>A bitmap of five bits with bit 1 set.\<close>

definition sample_map :: MY_BITMAP where
  "sample_map = \<lparr>bitmap = [2, 0, 0, 0], last_word_ptr = 0, last_word_mask = 0xFFFFFFE0, n_bits = 5\<rparr>"

lemma sample_map_ok: "bitmap_ok sample_map"
proof -
  have "(0xFFFFFFE0 :: uint32) = NOT (mask 5)" by (simp add: mask_eq_exp_minus_1)
  then have "bit (0xFFFFFFE0 :: uint32) i \<longleftrightarrow> 5 \<le> i" if "i < 32" for i
    using that by (simp only: bit_not_iff bit_mask_iff) auto
  then show ?thesis by (simp add: bitmap_ok_def sample_map_def no_words_in_map_def)
qed

theorem my_bitmap_operations_witness:
  "bitmap_set_bit sample_map 5 = None \<and> (\<exists>S. bitmap_set_bit sample_map 3 = Some S \<and> bitmap_ok S)"
  using my_bitmap_operations [OF sample_map_ok, of 5] my_bitmap_operations [OF sample_map_ok, of 3]
  by (auto simp: sample_map_def)

section \<open>Comparison of bitmaps\<close>

lemma bit_le_nat:
  "k < 8 * length bs \<Longrightarrow> bit (le_nat bs) k = bit (bs ! (k div 8)) (k mod 8)"
proof (induction bs arbitrary: k)
  case (Cons b bs)
  have b: "unat b < 2 ^ 8" using uchar_lt [of b] by simp
  have "bit (le_nat (b # bs)) k = (if k < 8 then bit b k else bit (le_nat bs) (k - 8))"
    using bit_add_shift [OF b, of "le_nat bs" k] by (simp add: bit_unsigned_iff)
  moreover have "(k - 8) div 8 = k div 8 - 1" "(k - 8) mod 8 = k mod 8" "0 < k div 8" if "\<not> k < 8"
    using that by (auto simp: mod_if div_if)
  ultimately show ?case using Cons.IH [of "k - 8"] Cons.prems by (cases "k < 8") (simp_all add: nth_Cons')
qed simp

lemma word_eq_bits: "(a :: 'a::len word) = b \<longleftrightarrow> (\<forall>k<LENGTH('a). bit a k = bit b k)"
  by (auto intro: bit_word_eqI)

lemma bit_word_at:
  assumes "k < 32" "4 * i + 4 \<le> length bs"
  shows "bit (word_at bs i) k = bit (bs ! (4 * i + k div 8)) (k mod 8)"
proof -
  let ?w = "take 4 (drop (4 * i) bs)"
  have len: "length ?w = 4" using assms(2) by simp
  have "le_nat ?w < 256 ^ 4" using le_nat_bound [of ?w] len by simp
  then have "unat (word_at bs i) = le_nat ?w" by (simp add: word_at_def unat_of_nat)
  then have "bit (word_at bs i) k = bit (le_nat ?w) k" using assms(1) by (metis bit_unsigned_iff bit_imp_le_length possible_bit_nat)
  also have "\<dots> = bit (bs ! (4 * i + k div 8)) (k mod 8)"
    using bit_le_nat [of k ?w] assms len by simp
  finally show ?thesis .
qed

text \<open>
  two well-formed bitmaps of the same width compare equal exactly when they hold the same
  bits; the padding bits of the last word do not matter.
\<close>

theorem bitmap_cmp_correct:
  assumes "bitmap_ok M1" "bitmap_ok M2" "n_bits M1 = n_bits M2"
  shows "bitmap_cmp M1 M2 \<longleftrightarrow> bitmap_bits M1 = bitmap_bits M2"
proof -
  define w where "w = no_words_in_map M1 - 1"
  have n: "32 * w < n_bits M1" "n_bits M1 \<le> 32 * w + 32" and words: "no_words_in_map M1 = Suc w"
    using assms(1) by (auto simp: w_def bitmap_ok_def no_words_in_map_def)
  have l: "length (bitmap M1) = 4 * w + 4" "length (bitmap M2) = 4 * w + 4"
    "last_word_ptr M1 = w" "last_word_ptr M2 = w"
    using assms words by (auto simp: bitmap_ok_def no_words_in_map_def w_def)
  have mask: "i < 32 \<Longrightarrow> bit (last_word_mask M1) i \<longleftrightarrow> n_bits M1 \<le> 32 * w + i"
    "i < 32 \<Longrightarrow> bit (last_word_mask M2) i \<longleftrightarrow> n_bits M1 \<le> 32 * w + i" for i
    using assms l by (auto simp: bitmap_ok_def)
  let ?b1 = "\<lambda>i. bit (bitmap M1 ! (i div 8)) (i mod 8)" and ?b2 = "\<lambda>i. bit (bitmap M2 ! (i div 8)) (i mod 8)"
  have low: "take (4 * w) (bitmap M1) = take (4 * w) (bitmap M2) \<longleftrightarrow> (\<forall>i<32 * w. ?b1 i = ?b2 i)"
  proof
    assume eq: "take (4 * w) (bitmap M1) = take (4 * w) (bitmap M2)"
    have "bitmap M1 ! j = bitmap M2 ! j" if "j < 4 * w" for j
      using arg_cong [OF eq, of "\<lambda>xs. xs ! j"] that by simp
    then show "\<forall>i<32 * w. ?b1 i = ?b2 i" by simp
  next
    assume eq: "\<forall>i<32 * w. ?b1 i = ?b2 i"
    show "take (4 * w) (bitmap M1) = take (4 * w) (bitmap M2)"
    proof (rule nth_equalityI)
      fix j assume "j < length (take (4 * w) (bitmap M1))"
      then have j: "j < 4 * w" using l by simp
      have "bitmap M1 ! j = bitmap M2 ! j"
      proof (rule bit_word_eqI)
        fix k assume "k < LENGTH(8)"
        then show "bit (bitmap M1 ! j) k = bit (bitmap M2 ! j) k"
          using eq [rule_format, of "8 * j + k"] j by simp
      qed
      then show "take (4 * w) (bitmap M1) ! j = take (4 * w) (bitmap M2) ! j" using j by simp
    qed (use l in simp)
  qed
  have wa: "bit (word_at (bitmap M1) w) k = ?b1 (32 * w + k)" "bit (word_at (bitmap M2) w) k = ?b2 (32 * w + k)"
    if "k < 32" for k
  proof -
    have "(32 * w + k) div 8 = 4 * w + k div 8" "(32 * w + k) mod 8 = k mod 8" by presburger+
    then show "bit (word_at (bitmap M1) w) k = ?b1 (32 * w + k)" "bit (word_at (bitmap M2) w) k = ?b2 (32 * w + k)"
      using that l by (simp_all add: bit_word_at)
  qed
  have high: "word_at (bitmap M1) w OR last_word_mask M1 = word_at (bitmap M2) w OR last_word_mask M2 \<longleftrightarrow>
      (\<forall>k<32. 32 * w + k < n_bits M1 \<longrightarrow> ?b1 (32 * w + k) = ?b2 (32 * w + k))"
    unfolding word_eq_bits bit_or_iff by (auto simp: wa mask not_le)
  have split: "(\<forall>i<n_bits M1. ?b1 i = ?b2 i) \<longleftrightarrow> (\<forall>i<32 * w. ?b1 i = ?b2 i) \<and>
      (\<forall>k<32. 32 * w + k < n_bits M1 \<longrightarrow> ?b1 (32 * w + k) = ?b2 (32 * w + k))"
  proof
    assume h: "(\<forall>i<32 * w. ?b1 i = ?b2 i) \<and>
      (\<forall>k<32. 32 * w + k < n_bits M1 \<longrightarrow> ?b1 (32 * w + k) = ?b2 (32 * w + k))"
    show "\<forall>i<n_bits M1. ?b1 i = ?b2 i"
    proof (intro allI impI)
      fix i assume "i < n_bits M1"
      then show "?b1 i = ?b2 i"
        using n(2) h [THEN conjunct2, rule_format, of "i - 32 * w"] h by (cases "i < 32 * w") simp_all
    qed
  qed (use n in auto)
  have "bitmap_bits M1 = bitmap_bits M2 \<longleftrightarrow> (\<forall>i<n_bits M1. ?b1 i = ?b2 i)"
    using assms(3) by (auto simp: bitmap_bits_def)
  then show ?thesis unfolding split low [symmetric] high [symmetric]
    by (simp add: bitmap_cmp_def words l)
qed

theorem bitmap_cmp_correct_witness:
  "bitmap_cmp sample_map sample_map \<longleftrightarrow> bitmap_bits sample_map = bitmap_bits sample_map"
  by (rule bitmap_cmp_correct [OF sample_map_ok sample_map_ok refl])

section \<open>sql\_bitmap.h: Bitmap<64>\<close>

type_synonym bitmap64 = uint64

definition b64_length :: nat where
  "b64_length = 64"

definition b64_set_bit :: "bitmap64 \<Rightarrow> nat \<Rightarrow> bitmap64" where
  "b64_set_bit M n = M OR push_bit n 1"

definition b64_clear_bit :: "bitmap64 \<Rightarrow> nat \<Rightarrow> bitmap64" where
  "b64_clear_bit M n = M AND NOT (push_bit n 1)"

definition b64_set_all :: "bitmap64 \<Rightarrow> bitmap64" where
  "b64_set_all M = NOT 0"

definition b64_clear_all :: "bitmap64 \<Rightarrow> bitmap64" where
  "b64_clear_all M = 0"

definition b64_set_prefix :: "bitmap64 \<Rightarrow> nat \<Rightarrow> bitmap64" where
  "b64_set_prefix M n = (if n \<ge> b64_length then b64_set_all M else push_bit n 1 - 1)"

definition b64_intersect :: "bitmap64 \<Rightarrow> bitmap64 \<Rightarrow> bitmap64" where
  "b64_intersect M M2 = M AND M2"

definition b64_intersect_extended :: "bitmap64 \<Rightarrow> uint64 \<Rightarrow> bitmap64" where
  "b64_intersect_extended M M2 = M AND M2"

definition b64_subtract :: "bitmap64 \<Rightarrow> bitmap64 \<Rightarrow> bitmap64" where
  "b64_subtract M M2 = M AND NOT M2"

definition b64_merge :: "bitmap64 \<Rightarrow> bitmap64 \<Rightarrow> bitmap64" where
  "b64_merge M M2 = M OR M2"

definition b64_is_set :: "bitmap64 \<Rightarrow> nat \<Rightarrow> bool" where
  "b64_is_set M n \<longleftrightarrow> M AND push_bit n 1 \<noteq> 0"

text \<open>A shift by 64 or more has no result; \<open>is_prefix\<close> does not exclude it.\<close>

definition b64_is_prefix :: "bitmap64 \<Rightarrow> nat \<Rightarrow> bool option" where
  "b64_is_prefix M n = (if n < 64 then Some (M = push_bit n 1 - 1) else None)"

definition b64_is_clear_all :: "bitmap64 \<Rightarrow> bool" where
  "b64_is_clear_all M \<longleftrightarrow> M = 0"

definition b64_is_set_all :: "bitmap64 \<Rightarrow> bool" where
  "b64_is_set_all M \<longleftrightarrow> M = NOT 0"

definition b64_is_subset :: "bitmap64 \<Rightarrow> bitmap64 \<Rightarrow> bool" where
  "b64_is_subset M M2 \<longleftrightarrow> M AND NOT M2 = 0"

definition b64_is_overlapping :: "bitmap64 \<Rightarrow> bitmap64 \<Rightarrow> bool" where
  "b64_is_overlapping M M2 \<longleftrightarrow> M AND M2 \<noteq> 0"

definition b64_eq :: "bitmap64 \<Rightarrow> bitmap64 \<Rightarrow> bool" where
  "b64_eq M M2 \<longleftrightarrow> M = M2"

definition b64_to_ulonglong :: "bitmap64 \<Rightarrow> uint64" where
  "b64_to_ulonglong M = M"

function b64_bits_set_loop :: "bitmap64 \<Rightarrow> nat \<Rightarrow> nat \<Rightarrow> nat" where
  "b64_bits_set_loop M res i =
     (if i < 64 then b64_bits_set_loop M (if M AND push_bit i 1 \<noteq> 0 then res + 1 else res) (i + 1)
      else res)"
  by pat_completeness auto
termination by (relation "measure (\<lambda>(M, res, i). 64 - i)") auto

declare b64_bits_set_loop.simps [simp del]

definition b64_bits_set :: "bitmap64 \<Rightarrow> nat" where
  "b64_bits_set M = b64_bits_set_loop M 0 0"

definition b64_bits :: "bitmap64 \<Rightarrow> nat set" where
  "b64_bits M = {i. bit M i}"

lemma b64_test: "M AND push_bit n 1 \<noteq> 0 \<longleftrightarrow> bit (M :: bitmap64) n"
  using and_exp_eq_0_iff_not_bit [of M n] by simp

lemma b64_eq_iff: "M = N \<longleftrightarrow> b64_bits M = b64_bits N"
  by (auto simp: b64_bits_def set_eq_iff intro: bit_eqI)

lemma b64_zero_iff: "(M :: bitmap64) = 0 \<longleftrightarrow> b64_bits M = {}"
  by (simp add: b64_eq_iff) (simp add: b64_bits_def)

lemma b64_bits_subtract: "b64_bits (M AND NOT N) = b64_bits M - b64_bits N"
  by (auto simp: b64_bits_def bit_and_iff bit_not_iff dest: bit_imp_le_length)

interpretation b64: bitset_algebra "\<lambda>_. True" "\<lambda>_ :: bitmap64. 64" b64_bits b64_set_bit b64_clear_bit
  b64_is_set b64_set_all b64_clear_all b64_intersect b64_subtract b64_merge b64_is_subset
  b64_is_overlapping
proof unfold_locales
  fix b c :: bitmap64 and n :: nat
  show "b64_bits b \<subseteq> {..<64}" by (auto simp: b64_bits_def dest: bit_imp_le_length)
  show "n < 64 \<Longrightarrow> b64_bits (b64_set_bit b n) = insert n (b64_bits b)"
    by (auto simp: b64_bits_def b64_set_bit_def bit_or_iff bit_exp_iff)
  show "n < 64 \<Longrightarrow> b64_bits (b64_clear_bit b n) = b64_bits b - {n}"
    by (auto simp: b64_bits_def b64_clear_bit_def bit_and_iff bit_not_iff bit_exp_iff
        dest: bit_imp_le_length)
  show "n < 64 \<Longrightarrow> b64_is_set b n = (n \<in> b64_bits b)"
    unfolding b64_is_set_def b64_test by (simp add: b64_bits_def)
  show "b64_bits (b64_set_all b) = {..<64}"
    by (auto simp: b64_bits_def b64_set_all_def dest: bit_imp_le_length)
  show "b64_bits (b64_clear_all b) = {}" by (simp add: b64_bits_def b64_clear_all_def)
  show "b64_bits (b64_intersect b c) = b64_bits b \<inter> b64_bits c"
    by (auto simp: b64_bits_def b64_intersect_def bit_and_iff)
  show "b64_bits (b64_subtract b c) = b64_bits b - b64_bits c"
    by (simp add: b64_subtract_def b64_bits_subtract)
  show "b64_bits (b64_merge b c) = b64_bits b \<union> b64_bits c"
    by (auto simp: b64_bits_def b64_merge_def bit_or_iff)
  show "b64_is_subset b c = (b64_bits b \<subseteq> b64_bits c)"
    unfolding b64_is_subset_def b64_zero_iff b64_bits_subtract by auto
  show "b64_is_overlapping b c = (b64_bits b \<inter> b64_bits c \<noteq> {})"
    unfolding b64_is_overlapping_def b64_zero_iff by (auto simp: b64_bits_def bit_and_iff)
qed simp_all

lemma b64_bits_set_loop_count:
  "i \<le> 64 \<Longrightarrow> b64_bits_set_loop M res i = res + length (filter (bit M) [i..<64])"
proof (induction M res i rule: b64_bits_set_loop.induct)
  case (1 M res i)
  show ?case
  proof (cases "i < 64")
    case True
    then show ?thesis using "1.IH"
      by (simp add: b64_bits_set_loop.simps [of M res i] upt_conv_Cons [of i 64] b64_test [of M i, simplified])
  next
    case False
    then have "i = 64" using "1.prems" by simp
    then show ?thesis by (simp add: b64_bits_set_loop.simps [of M res 64])
  qed
qed

text \<open>
  \<open>Bitmap<64>\<close> implements sets of the numbers below 64: each operation acts on the set of
  bits as its name says, and equality, emptiness and fullness are those of the set.
\<close>

theorem bitmap64_implements_sets:
  "(n < 64 \<longrightarrow> b64_bits (b64_set_bit M n) = insert n (b64_bits M) \<and>
               b64_bits (b64_clear_bit M n) = b64_bits M - {n} \<and>
               b64_is_set M n = (n \<in> b64_bits M)) \<and>
   b64_bits (b64_set_prefix M n) = {i. i < n \<and> i < 64} \<and>
   b64_bits (b64_set_all M) = {..<64} \<and> b64_bits (b64_clear_all M) = {} \<and>
   b64_bits (b64_intersect M N) = b64_bits M \<inter> b64_bits N \<and>
   b64_bits (b64_intersect_extended M N) = b64_bits M \<inter> b64_bits N \<and>
   b64_bits (b64_subtract M N) = b64_bits M - b64_bits N \<and>
   b64_bits (b64_merge M N) = b64_bits M \<union> b64_bits N \<and>
   b64_is_subset M N = (b64_bits M \<subseteq> b64_bits N) \<and>
   b64_is_overlapping M N = (b64_bits M \<inter> b64_bits N \<noteq> {}) \<and>
   b64_eq M N = (b64_bits M = b64_bits N) \<and>
   b64_is_clear_all M = (b64_bits M = {}) \<and> b64_is_set_all M = (b64_bits M = {..<64})"
proof -
  have pre: "b64_bits (b64_set_prefix M n) = {i. i < n \<and> i < 64}"
  proof (cases "n < 64")
    case True
    then have "b64_set_prefix M n = mask n"
      by (simp add: b64_set_prefix_def b64_length_def mask_eq_exp_minus_1)
    then show ?thesis by (auto simp: b64_bits_def bit_mask_iff)
  next
    case False
    then show ?thesis by (auto simp: b64_set_prefix_def b64_length_def b64.bits_set_all)
  qed
  have all: "b64_is_set_all M \<longleftrightarrow> b64_bits M = {..<64}"
    using b64.bits_set_all [of M] b64_eq_iff [of M "NOT 0"] by (simp add: b64_is_set_all_def b64_set_all_def)
  have ext: "b64_intersect_extended M N = b64_intersect M N"
    by (simp add: b64_intersect_extended_def b64_intersect_def)
  show ?thesis
    unfolding ext b64_eq_def b64_eq_iff [of M N] b64_is_clear_all_def b64_zero_iff all
    by (simp add: pre b64.bits_set_bit b64.bits_clear_bit b64.bits_is_set b64.bits_set_all
        b64.bits_clear_all b64.bits_intersect b64.bits_subtract b64.bits_merge b64.bits_is_subset
        b64.bits_is_overlapping)
qed

theorem bitmap64_implements_sets_witness: "b64_bits (b64_set_bit 0 5) = insert 5 (b64_bits 0)"
  using bitmap64_implements_sets [of 5 0] by simp

text \<open>
  the counting loop of \<open>Bitmap<64>::bits_set\<close> returns what \<open>my_count_bits\<close> computes, as
  the comment in the loop proposes.
\<close>

theorem bits_set_eq_my_count_bits: "b64_bits_set M = unat (my_count_bits M)"
  by (simp add: b64_bits_set_def b64_bits_set_loop_count my_count_bits_popcount popcount_def)

section \<open>Table\_map\_iterator\<close>

record Table_map_iterator =
  bmp :: uint64
  no :: uint32

definition tmi_init :: "uint64 \<Rightarrow> Table_map_iterator" where
  "tmi_init t = \<lparr>bmp = t, no = 0\<rparr>"

definition last_bit :: "uchar list" where
  "last_bit = [32, 0, 1, 0, 2, 0, 1, 0, 3, 0, 1, 0, 2, 0, 1, 0]"

definition TMI_BITMAP_END :: uint32 where
  "TMI_BITMAP_END = 64"

lemma drop_bit_4_less: "drop_bit 4 (w :: uint64) \<noteq> 0 \<Longrightarrow> unat (drop_bit 4 w) < unat w"
proof -
  assume "drop_bit 4 w \<noteq> 0"
  then have "w \<noteq> 0" by auto
  then have "0 < unat w" by (simp add: unat_gt_0)
  then show "unat (drop_bit 4 w) < unat w" unfolding unat_drop_bit_div by simp
qed

function next_bit :: "Table_map_iterator \<Rightarrow> uint32 \<times> Table_map_iterator" where
  "next_bit it =
     (let b = last_bit ! unat (bmp it AND 0xF)
      in if b = 32
         then let it' = it\<lparr>no := no it + 4, bmp := drop_bit 4 (bmp it)\<rparr>
              in if bmp it' = 0 then (TMI_BITMAP_END, it') else next_bit it'
         else (no it + ucast b, it\<lparr>bmp := bmp it AND NOT (push_bit (unat b) 1)\<rparr>))"
  by pat_completeness auto
termination by (relation "measure (\<lambda>it. unat (bmp it))") (auto simp: drop_bit_4_less)

declare next_bit.simps [simp del]

text \<open>The bit numbers an iterator has yet to deliver.\<close>

definition tmi_set :: "Table_map_iterator \<Rightarrow> nat set" where
  "tmi_set it = (\<lambda>i. unat (no it) + i) ` {i. bit (bmp it) i}"

text \<open>A caller's loop \<open>while ((i= it++) != BITMAP_END)\<close>, at most \<open>k\<close> times.\<close>

primrec tmi_drain :: "nat \<Rightarrow> Table_map_iterator \<Rightarrow> nat list" where
  "tmi_drain 0 it = []"
| "tmi_drain (Suc k) it =
     (case next_bit it of (r, it') \<Rightarrow>
        if r = TMI_BITMAP_END then [] else unat r # tmi_drain k it')"

lemma last_bit_table:
  assumes "n < 16"
  shows "(last_bit ! n = 32 \<longleftrightarrow> n = 0) \<and>
    (n \<noteq> 0 \<longrightarrow> unat (last_bit ! n) < 4 \<and> bit n (unat (last_bit ! n)) \<and> (\<forall>j<unat (last_bit ! n). \<not> bit n j))"
proof -
  have "list_all (\<lambda>n. (last_bit ! n = 32 \<longleftrightarrow> n = 0) \<and> (n \<noteq> 0 \<longrightarrow> unat (last_bit ! n) < 4 \<and>
      bit n (unat (last_bit ! n)) \<and> list_all (\<lambda>j. \<not> bit n j) [0..<unat (last_bit ! n)])) [0..<16]"
    by code_simp
  with assms show ?thesis by (simp add: list_all_iff)
qed

lemma low_nibble:
  "unat ((w :: uint64) AND 0xF) < 16" "bit (unat (w AND 0xF)) j \<longleftrightarrow> j < 4 \<and> bit w j"
proof -
  have m: "w AND 0xF = take_bit 4 w" by (simp add: take_bit_eq_mask mask_eq_exp_minus_1)
  show "unat (w AND 0xF) < 16" unfolding m using take_bit_nat_less_exp [of 4 "unat w"]
    by (simp add: unsigned_take_bit_eq)
  show "bit (unat (w AND 0xF)) j \<longleftrightarrow> j < 4 \<and> bit w j" unfolding m
    by (auto simp: unsigned_take_bit_eq bit_take_bit_iff bit_unsigned_iff)
qed

lemma tmi_set_shift:
  assumes "unat (bmp it AND 0xF) = 0" "unat (no it) + 4 < 2 ^ 32"
  shows "tmi_set (it\<lparr>no := no it + 4, bmp := drop_bit 4 (bmp it)\<rparr>) = tmi_set it"
proof -
  have low: "bit (bmp it) i \<Longrightarrow> 4 \<le> i" for i
    using low_nibble(2) [of "bmp it" i] assms(1) by (auto simp: not_less [symmetric])
  have n: "unat (no it + 4) = unat (no it) + 4" using assms(2) by (simp add: unat_word_ariths)
  have "(\<lambda>i. unat (no it) + 4 + i) ` {i. bit (bmp it) (4 + i)} = (\<lambda>i. unat (no it) + i) ` {i. bit (bmp it) i}"
  proof (intro equalityI subsetI)
    fix x assume "x \<in> (\<lambda>i. unat (no it) + i) ` {i. bit (bmp it) i}"
    then obtain i where i: "bit (bmp it) i" "x = unat (no it) + i" by auto
    with low [OF i(1)] show "x \<in> (\<lambda>i. unat (no it) + 4 + i) ` {i. bit (bmp it) (4 + i)}"
      by (intro image_eqI [of _ _ "i - 4"]) auto
  qed auto
  then show ?thesis by (simp add: tmi_set_def n bit_drop_bit_eq)
qed

lemma tmi_set_empty: "tmi_set it = {} \<longleftrightarrow> bmp it = 0"
  by (auto simp: tmi_set_def intro: bit_eqI)

lemma next_bit_correct:
  assumes "tmi_set it \<subseteq> {..<64}" "unat (no it) \<le> 64" "bmp it \<noteq> 0"
  shows "\<exists>r it'. next_bit it = (r, it') \<and> unat r \<in> tmi_set it \<and> (\<forall>x\<in>tmi_set it. unat r \<le> x) \<and>
         tmi_set it' = tmi_set it - {unat r} \<and> unat (no it') \<le> 64"
  using assms
proof (induction it rule: next_bit.induct)
  case (1 it)
  let ?n = "unat (bmp it AND 0xF)" and ?b = "last_bit ! unat (bmp it AND 0xF)"
  let ?it = "it\<lparr>no := no it + 4, bmp := drop_bit 4 (bmp it)\<rparr>"
  note tab = last_bit_table [OF low_nibble(1) [of "bmp it"]]
  show ?case
  proof (cases "?n = 0")
    case True
    have same: "tmi_set ?it = tmi_set it" using "1.prems"(2) True by (intro tmi_set_shift) simp_all
    then have "bmp ?it \<noteq> 0" using "1.prems"(3) tmi_set_empty by metis
    moreover have "unat (no ?it) \<le> 64"
    proof -
      obtain x where x: "x \<in> tmi_set ?it" using \<open>bmp ?it \<noteq> 0\<close> tmi_set_empty by blast
      then have "unat (no ?it) \<le> x" by (auto simp: tmi_set_def)
      then show ?thesis using x same "1.prems"(1) by force
    qed
    moreover have "next_bit it = next_bit ?it"
      using True tab \<open>bmp ?it \<noteq> 0\<close> by (simp add: next_bit.simps [of it] Let_def)
    ultimately show ?thesis
      using "1.IH" [OF refl _ refl] True tab same "1.prems"(1) by simp
  next
    case False
    then have b: "?b \<noteq> 32" "unat ?b < 4" "bit ?n (unat ?b)" "\<forall>j<unat ?b. \<not> bit ?n j" using tab by auto
    then have bb: "bit (bmp it) (unat ?b)" "\<forall>j<unat ?b. \<not> bit (bmp it) j"
      using low_nibble(2) [of "bmp it"] by auto
    let ?it' = "it\<lparr>bmp := bmp it AND NOT (push_bit (unat ?b) 1)\<rparr>"
    have nx: "next_bit it = (no it + ucast ?b, ?it')"
      using b(1) by (simp add: next_bit.simps [of it] Let_def)
    have r: "unat (no it + ucast ?b) = unat (no it) + unat ?b"
      using "1.prems"(2) b(2) by (simp add: unat_word_ariths unat_ucast_eq_mod)
    have "tmi_set ?it' = tmi_set it - {unat (no it) + unat ?b}"
    proof -
      have "{i. bit (bmp ?it') i} = {i. bit (bmp it) i} - {unat ?b}"
        using b64_bits_subtract [of "bmp it" "push_bit (unat ?b) 1"] b(2)
        by (auto simp: b64_bits_def bit_exp_iff)
      then have "tmi_set ?it' = (\<lambda>i. unat (no it) + i) ` ({i. bit (bmp it) i} - {unat ?b})"
        by (simp add: tmi_set_def)
      also have "\<dots> = tmi_set it - {unat (no it) + unat ?b}"
        unfolding tmi_set_def by (subst image_set_diff) auto
      finally show ?thesis .
    qed
    moreover have "unat ?b \<le> i" if "bit (bmp it) i" for i
      using bb(2) that not_le by blast
    ultimately show ?thesis using nx r bb(1) "1.prems"(2) by (auto simp: tmi_set_def)
  qed
qed

lemma next_bit_end: "bmp it = 0 \<Longrightarrow> fst (next_bit it) = TMI_BITMAP_END"
  by (simp add: next_bit.simps [of it] last_bit_def Let_def)

lemma tmi_drain_correct:
  "tmi_set it \<subseteq> {..<64} \<Longrightarrow> unat (no it) \<le> 64 \<Longrightarrow> card (tmi_set it) < k \<Longrightarrow>
   tmi_drain k it = sorted_list_of_set (tmi_set it)"
proof (induction k arbitrary: it)
  case (Suc k)
  show ?case
  proof (cases "bmp it = 0")
    case True
    then show ?thesis using next_bit_end [OF True] tmi_set_empty [of it] by (simp add: case_prod_beta)
  next
    case False
    obtain r it' where r: "next_bit it = (r, it')" "unat r \<in> tmi_set it" "\<forall>x\<in>tmi_set it. unat r \<le> x"
      "tmi_set it' = tmi_set it - {unat r}" "unat (no it') \<le> 64"
      using next_bit_correct [OF Suc.prems(1,2) False] by blast
    have fin: "finite (tmi_set it)" using Suc.prems(1) finite_subset by blast
    have "unat r < 64" using r(2) Suc.prems(1) by auto
    then have ne: "r \<noteq> TMI_BITMAP_END" by (auto simp: TMI_BITMAP_END_def)
    have "card (tmi_set it') < k" using card_Diff1_less [OF fin r(2)] Suc.prems(3) r(4) by simp
    then have "tmi_drain k it' = sorted_list_of_set (tmi_set it')"
      using r(4,5) Suc.prems(1) by (intro Suc.IH) auto
    moreover have "sorted_list_of_set (tmi_set it) = unat r # sorted_list_of_set (tmi_set it - {unat r})"
    proof -
      have "Min (tmi_set it) = unat r" using r(2,3) fin by (intro Min_eqI) auto
      then show ?thesis using sorted_list_of_set_nonempty [OF fin] r(2) by auto
    qed
    ultimately show ?thesis using r(1,4) ne by simp
  qed
qed simp

text \<open>
  \<open>Table_map_iterator\<close> delivers exactly the set bits of the table map, in ascending order,
  and then \<open>BITMAP_END\<close>; 65 calls are always enough.
\<close>

theorem table_map_iterator_enumerates:
  "tmi_drain 65 (tmi_init t) = sorted_list_of_set {i. bit t i}"
proof -
  have s: "tmi_set (tmi_init t) = {i. bit t i}" by (auto simp: tmi_set_def tmi_init_def)
  have "{i. bit t i} \<subseteq> {..<64}" by (auto dest: bit_imp_le_length)
  moreover from this have "card {i. bit t i} \<le> 64"
    using card_mono [of "{..<64}" "{i. bit t i}"] by simp
  ultimately show ?thesis using tmi_drain_correct [of "tmi_init t" 65] unfolding s
    by (simp add: tmi_init_def)
qed

section \<open>Bitmap<width>: iteration, printing, conversion\<close>

text \<open>
  \<open>Bitmap<width>::Iterator::operator++\<close>: the counter never exceeds the width, so the loop
  condition \<open>no == default_width\<close> of the source is written \<open>default_width \<le> no\<close>.
\<close>

function bitmap_iterator_next :: "MY_BITMAP \<Rightarrow> nat \<Rightarrow> nat \<times> nat" where
  "bitmap_iterator_next M k =
     (if n_bits M \<le> k then (n_bits M, k)
      else if bitmap_is_set_raw M k = 0 then bitmap_iterator_next M (k + 1)
      else (k, k + 1))"
  by pat_completeness auto
termination by (relation "measure (\<lambda>(M, k). n_bits M - k)") auto

declare bitmap_iterator_next.simps [simp del]

text \<open>\<open>Bitmap<width>::print\<close>: the bytes are walked from the highest to the lowest.\<close>

fun skip_zero_bytes :: "uchar list \<Rightarrow> uchar list" where
  "skip_zero_bytes (b # c # bs) = (if b = 0 then skip_zero_bytes (c # bs) else b # c # bs)"
| "skip_zero_bytes bs = bs"

primrec print_bytes :: "(nat \<Rightarrow> char) \<Rightarrow> uchar list \<Rightarrow> string" where
  "print_bytes dig_vec [] = []"
| "print_bytes dig_vec (b # bs) =
     dig_vec (unat (drop_bit 4 b)) # dig_vec (unat (b AND 15)) # print_bytes dig_vec bs"

definition bitmap_print :: "(nat \<Rightarrow> char) \<Rightarrow> uchar list \<Rightarrow> string" where
  "bitmap_print dig_vec buffer =
     (case skip_zero_bytes (rev buffer) of
        [] \<Rightarrow> []
      | b # bs \<Rightarrow>
          (if dig_vec (unat (drop_bit 4 b)) \<noteq> CHR ''0'' then [dig_vec (unat (drop_bit 4 b))] else []) @
          dig_vec (unat (b AND 15)) # print_bytes dig_vec bs)"

definition bitmap_to_ulonglong :: "uchar list \<Rightarrow> uint64" where
  "bitmap_to_ulonglong buffer =
     (if 8 \<le> length buffer then of_nat (le_nat (take 8 buffer)) else of_nat (le_nat (take 4 buffer)))"

lemma bitmap_iterator_next_correct:
  assumes "bitmap_ok M" "k \<le> n_bits M" "bitmap_iterator_next M k = (r, k')"
  shows "if \<exists>i\<in>bitmap_bits M. k \<le> i
         then r \<in> bitmap_bits M \<and> k \<le> r \<and> k' = Suc r \<and> (\<forall>i\<in>bitmap_bits M. k \<le> i \<longrightarrow> r \<le> i)
         else r = n_bits M \<and> k' = n_bits M"
  using assms
proof (induction M k rule: bitmap_iterator_next.induct)
  case (1 M k)
  show ?case
  proof (cases "n_bits M \<le> k")
    case True
    then show ?thesis using "1.prems"
      by (auto simp: bitmap_iterator_next.simps [of M k] bitmap_bits_def)
  next
    case inside: False
    show ?thesis
    proof (cases "k \<in> bitmap_bits M")
      case True
      then show ?thesis using inside "1.prems" bitmap_is_set_bits [of k M]
        by (auto simp: bitmap_iterator_next.simps [of M k])
    next
      case False
      then have z: "bitmap_is_set_raw M k = 0" using inside bitmap_is_set_bits [of k M] by auto
      have next_k: "i \<in> bitmap_bits M \<Longrightarrow> k \<le> i \<longleftrightarrow> Suc k \<le> i" for i using False by (cases "i = k") auto
      have "bitmap_iterator_next M (k + 1) = (r, k')" "k + 1 \<le> n_bits M"
        using "1.prems"(3) inside z by (auto simp: bitmap_iterator_next.simps [of M k])
      from "1.IH" [OF inside z "1.prems"(1) this(2,1)] show ?thesis
        using next_k by (auto split: if_splits)
    qed
  qed
qed

text \<open>Reading the printed digits back, highest digit first.\<close>

definition undigits :: "(char \<Rightarrow> nat) \<Rightarrow> string \<Rightarrow> nat" where
  "undigits undig cs = foldl (\<lambda>v c. 16 * v + undig c) 0 cs"

lemma undigits_append:
  "foldl (\<lambda>v c. 16 * v + undig c) a (cs @ ds) = foldl (\<lambda>v c. 16 * v + undig c) (foldl (\<lambda>v c. 16 * v + undig c) a cs) ds"
  by simp

lemma byte_digits:
  "unat (drop_bit 4 (b :: uchar)) < 16" "unat (b AND 15) < 16"
  "16 * unat (drop_bit 4 b) + unat (b AND 15) = unat b"
proof -
  have m: "b AND 15 = take_bit 4 b" by (simp add: take_bit_eq_mask mask_eq_exp_minus_1)
  have l: "unat (b AND 15) = unat b mod 16" unfolding m by (simp add: unsigned_take_bit_eq take_bit_eq_mod [where 'a = nat])
  have h: "unat (drop_bit 4 b) = unat b div 16" by (simp add: unat_drop_bit_div)
  show "unat (drop_bit 4 b) < 16" "unat (b AND 15) < 16" "16 * unat (drop_bit 4 b) + unat (b AND 15) = unat b"
    unfolding l h using uchar_lt [of b] by (auto simp: less_mult_imp_div_less)
qed

lemma undigits_print_bytes:
  assumes "\<And>d. d < 16 \<Longrightarrow> undig (dig_vec d) = d"
  shows "foldl (\<lambda>v c. 16 * v + undig c) a (print_bytes dig_vec bs) = 256 ^ length bs * a + le_nat (rev bs)"
proof (induction bs arbitrary: a)
  case (Cons b bs)
  have two: "16 * (16 * a + unat (drop_bit 4 b)) + unat (b AND 15) = 256 * a + unat b"
    using byte_digits(3) [of b] by simp
  have "foldl (\<lambda>v c. 16 * v + undig c) a (print_bytes dig_vec (b # bs)) =
        foldl (\<lambda>v c. 16 * v + undig c) (256 * a + unat b) (print_bytes dig_vec bs)"
    unfolding two [symmetric] using assms byte_digits(1,2) [of b] by simp
  then show ?case using Cons by (simp add: le_nat_append algebra_simps)
qed simp

lemma le_nat_skip_zero: "le_nat (rev (skip_zero_bytes bs)) = le_nat (rev bs)"
  by (induction bs rule: skip_zero_bytes.induct) (auto simp: le_nat_append)

text \<open>
  the printed hexadecimal digits of a bitmap read back as the number its buffer holds, for
  every digit table that maps 0 to the character 0 and has an inverse.
\<close>

theorem bitmap_print_roundtrip:
  assumes "\<And>d. d < 16 \<Longrightarrow> undig (dig_vec d) = d" and "dig_vec 0 = CHR ''0''" and "buffer \<noteq> []"
  shows "undigits undig (bitmap_print dig_vec buffer) = le_nat buffer"
proof -
  obtain b bs where bs: "skip_zero_bytes (rev buffer) = b # bs"
  proof -
    have "skip_zero_bytes xs \<noteq> []" if "xs \<noteq> []" for xs
      using that by (induction xs rule: skip_zero_bytes.induct) auto
    then show thesis using that assms(3) by (metis list.exhaust rev_is_Nil_conv)
  qed
  have zero: "undig CHR ''0'' = 0" using assms(1) [of 0] assms(2) by simp
  have top: "foldl (\<lambda>v c. 16 * v + undig c) 0
      ((if dig_vec (unat (drop_bit 4 b)) \<noteq> CHR ''0'' then [dig_vec (unat (drop_bit 4 b))] else []) @
       [dig_vec (unat (b AND 15))]) = unat b"
    using assms(1) byte_digits [of b] zero by (auto split: if_splits) (metis add.left_neutral mult_0_right)
  have "undigits undig (bitmap_print dig_vec buffer) = foldl (\<lambda>v c. 16 * v + undig c) (unat b) (print_bytes dig_vec bs)"
    unfolding top [symmetric] undigits_append [symmetric] by (simp add: undigits_def bitmap_print_def bs)
  also have "\<dots> = le_nat (rev (b # bs))"
    using undigits_print_bytes [OF assms(1)] by (simp add: le_nat_append)
  also have "\<dots> = le_nat buffer" unfolding bs [symmetric] le_nat_skip_zero by simp
  finally show ?thesis .
qed

text \<open>The digit table of the server, \<open>0123456789ABCDEF\<close>, and its inverse.\<close>

definition dig_vec_upper :: "nat \<Rightarrow> char" where
  "dig_vec_upper d = ''0123456789ABCDEF'' ! d"

definition undig_upper :: "char \<Rightarrow> nat" where
  "undig_upper c = (if of_char c < (58 :: nat) then of_char c - 48 else of_char c - 55)"

lemma undig_upper_inverse: "d < 16 \<Longrightarrow> undig_upper (dig_vec_upper d) = d"
proof -
  assume "d < 16"
  moreover have "list_all (\<lambda>d. undig_upper (dig_vec_upper d) = d) [0..<16]" by code_simp
  ultimately show ?thesis by (simp add: list_all_iff)
qed

theorem bitmap_print_roundtrip_witness:
  "undigits undig_upper (bitmap_print dig_vec_upper [0x2A, 1, 0, 0]) = le_nat [0x2A, 1, 0, 0]"
proof (rule bitmap_print_roundtrip)
  show "undig_upper (dig_vec_upper d) = d" if "d < 16" for d using that by (rule undig_upper_inverse)
  show "dig_vec_upper 0 = CHR ''0''" by (simp add: dig_vec_upper_def)
qed simp

end
