(* ===== verification/Containers.thy ===== *)
theory Containers
  imports Prelude
begin

text \<open>
  The contracts the linked lists and buffers of the server share.  A container holds a sequence
  of elements (\<open>holds s xs\<close>); \<open>fits xs\<close> says which sequences it can hold (distinct nodes,
  no overflow of the element counter, enough room).  \<open>fifo\<close> is the contract of adding at one
  end and taking from the other, \<open>lifo\<close> of adding and taking at the same end, \<open>deque\<close> of
  both; the clients proved here once (filling and draining a container) hold for each list
  that is shown to implement the contract.
\<close>

primrec drain :: "('s \<Rightarrow> 'v \<times> 's) \<Rightarrow> nat \<Rightarrow> 's \<Rightarrow> 'v list \<times> 's" where
  "drain get_one 0 s = ([], s)"
| "drain get_one (Suc n) s =
     (let (v, s1) = get_one s; (vs, s2) = drain get_one n s1 in (v # vs, s2))"

definition fill :: "('s \<Rightarrow> 'e \<Rightarrow> 's) \<Rightarrow> 'e list \<Rightarrow> 's \<Rightarrow> 's" where
  "fill add xs s = foldl add s xs"

lemma fill_simps [simp]:
  "fill add [] s = s" "fill add (x # xs) s = fill add xs (add s x)"
  by (simp_all add: fill_def)

locale taking =
  fixes holds :: "'s \<Rightarrow> 'e list \<Rightarrow> bool"
    and fits :: "'e list \<Rightarrow> bool"
    and val :: "'e \<Rightarrow> 'v"
    and take_first :: "'s \<Rightarrow> 'v \<times> 's"
  assumes take_value: "holds s (x # xs) \<Longrightarrow> fst (take_first s) = val x"
    and take_rest: "holds s (x # xs) \<Longrightarrow> holds (snd (take_first s)) xs"
    and fits_split: "fits (xs @ ys) \<Longrightarrow> fits xs \<and> fits ys"
begin

lemma drain_all:
  "holds s xs \<Longrightarrow>
   fst (drain take_first (length xs) s) = map val xs \<and> holds (snd (drain take_first (length xs) s)) []"
proof (induction xs arbitrary: s)
  case (Cons x xs)
  obtain v s1 where p: "take_first s = (v, s1)" by force
  have "v = val x" "holds s1 xs" using take_value [OF Cons.prems] take_rest [OF Cons.prems] p by auto
  with Cons.IH [of s1] p show ?case by (auto simp: split_beta)
qed simp

end

locale fifo = taking holds fits val take_first
  for holds :: "'s \<Rightarrow> 'e list \<Rightarrow> bool" and fits and val :: "'e \<Rightarrow> 'v" and take_first +
  fixes add_last :: "'s \<Rightarrow> 'e \<Rightarrow> 's"
  assumes add_last: "holds s xs \<Longrightarrow> fits (xs @ [x]) \<Longrightarrow> holds (add_last s x) (xs @ [x])"
begin

lemma fill_last: "holds s xs \<Longrightarrow> fits (xs @ ys) \<Longrightarrow> holds (fill add_last ys s) (xs @ ys)"
proof (induction ys arbitrary: s xs)
  case (Cons y ys)
  have "fits (xs @ [y])" using fits_split [of "xs @ [y]" ys] Cons.prems(2) by simp
  then have "holds (add_last s y) (xs @ [y])" using Cons.prems(1) add_last by blast
  from Cons.IH [OF this] show ?case using Cons.prems(2) by simp
qed simp

theorem fifo_order:
  assumes "holds s []" "fits ys"
  shows "fst (drain take_first (length ys) (fill add_last ys s)) = map val ys"
    "holds (snd (drain take_first (length ys) (fill add_last ys s))) []"
  using drain_all fill_last [OF assms(1), of ys] assms(2) by force+

end

locale lifo = taking holds fits val take_first
  for holds :: "'s \<Rightarrow> 'e list \<Rightarrow> bool" and fits and val :: "'e \<Rightarrow> 'v" and take_first +
  fixes add_first :: "'s \<Rightarrow> 'e \<Rightarrow> 's"
  assumes add_first: "holds s xs \<Longrightarrow> fits (x # xs) \<Longrightarrow> holds (add_first s x) (x # xs)"
begin

lemma fill_first: "holds s xs \<Longrightarrow> fits (rev ys @ xs) \<Longrightarrow> holds (fill add_first ys s) (rev ys @ xs)"
proof (induction ys arbitrary: s xs)
  case (Cons y ys)
  have "fits (y # xs)" using fits_split [of "rev ys" "y # xs"] Cons.prems(2) by simp
  then have "holds (add_first s y) (y # xs)" using Cons.prems(1) add_first by blast
  from Cons.IH [OF this] show ?case using Cons.prems(2) by simp
qed simp

theorem lifo_order:
  assumes "holds s []" "fits (rev ys)"
  shows "fst (drain take_first (length ys) (fill add_first ys s)) = map val (rev ys)"
    "holds (snd (drain take_first (length ys) (fill add_first ys s))) []"
  using drain_all [OF fill_first [OF assms(1)], of ys] assms(2) by simp_all

end

locale deque = fifo holds fits val take_first add_last + lifo holds fits val take_first add_first
  for holds :: "'s \<Rightarrow> 'e list \<Rightarrow> bool" and fits val take_first add_last add_first
begin

lemma fill_both:
  assumes "holds s []" "fits (rev xs @ ys)"
  shows "holds (fill add_last ys (fill add_first xs s)) (rev xs @ ys)"
  using assms fill_first [OF assms(1), of xs] fits_split [OF assms(2)] fill_last by simp

end

end
