(* ===== verification/BaseList.thy ===== *)
theory BaseList
  imports Containers
begin

text \<open>
  The singly linked list \<open>base_list\<close> of \<^verbatim>\<open>sql_list.h\<close> on an explicit heap.  A list ends in the
  shared node \<open>end_of_list\<close>, and \<open>last\<close> is the address of the pointer that has to be
  overwritten to append: the member \<open>first\<close> of the list object, or the member \<open>next\<close> of its
  last node.  Such an address is a value of the datatype \<open>cell\<close>.  The predicate \<open>is_list\<close>
  says which nodes a list object owns; every operation is shown to act on that sequence of
  nodes the way its name promises.
\<close>

section \<open>Nodes, list objects and the heap\<close>

record list_node =
  ln_next :: ptr
  ln_info :: ptr

datatype cell = First ptr | Next ptr

record base_list =
  bl_first :: ptr
  bl_last :: cell
  bl_elements :: uint32

record list_heap =
  nodes :: "ptr \<Rightarrow> list_node"
  objs :: "ptr \<Rightarrow> base_list"

abbreviation (input) NULL :: ptr where "NULL \<equiv> 0"

definition end_of_list :: ptr where
  "end_of_list = 1"

lemma end_of_list_not_null [simp]: "end_of_list \<noteq> NULL" "NULL \<noteq> end_of_list"
  by (simp_all add: end_of_list_def)

definition new_list_node :: "list_heap \<Rightarrow> ptr \<Rightarrow> ptr \<Rightarrow> ptr \<Rightarrow> list_heap" where
  "new_list_node h n info_par next_par =
     h\<lparr>nodes := (nodes h)(n := \<lparr>ln_next = next_par, ln_info = info_par\<rparr>)\<rparr>"

text \<open>The default constructor makes the end marker: no element, and its own successor.\<close>

definition end_node :: list_node where
  "end_node = \<lparr>ln_next = end_of_list, ln_info = NULL\<rparr>"

fun load :: "list_heap \<Rightarrow> cell \<Rightarrow> ptr" where
  "load h (First l) = bl_first (objs h l)"
| "load h (Next n) = ln_next (nodes h n)"

fun store :: "list_heap \<Rightarrow> cell \<Rightarrow> ptr \<Rightarrow> list_heap" where
  "store h (First l) v = h\<lparr>objs := (objs h)(l := (objs h l)\<lparr>bl_first := v\<rparr>)\<rparr>"
| "store h (Next n) v = h\<lparr>nodes := (nodes h)(n := (nodes h n)\<lparr>ln_next := v\<rparr>)\<rparr>"

definition set_last :: "list_heap \<Rightarrow> ptr \<Rightarrow> cell \<Rightarrow> list_heap" where
  "set_last h l c = h\<lparr>objs := (objs h)(l := (objs h l)\<lparr>bl_last := c\<rparr>)\<rparr>"

definition set_elements :: "list_heap \<Rightarrow> ptr \<Rightarrow> uint32 \<Rightarrow> list_heap" where
  "set_elements h l k = h\<lparr>objs := (objs h)(l := (objs h l)\<lparr>bl_elements := k\<rparr>)\<rparr>"

section \<open>Operations\<close>

definition list_eq :: "list_heap \<Rightarrow> ptr \<Rightarrow> ptr \<Rightarrow> bool" where
  "list_eq h l rhs \<longleftrightarrow>
     bl_elements (objs h l) = bl_elements (objs h rhs) \<and>
     bl_first (objs h l) = bl_first (objs h rhs) \<and>
     bl_last (objs h l) = bl_last (objs h rhs)"

definition list_assign :: "list_heap \<Rightarrow> ptr \<Rightarrow> ptr \<Rightarrow> list_heap" where
  "list_assign h l rhs =
     (let h1 = set_elements h l (bl_elements (objs h rhs));
          h2 = store h1 (First l) (bl_first (objs h1 rhs))
      in set_last h2 l (if bl_elements (objs h2 l) \<noteq> 0 then bl_last (objs h2 rhs) else First l))"

definition list_empty :: "list_heap \<Rightarrow> ptr \<Rightarrow> list_heap" where
  "list_empty h l = set_last (store (set_elements h l 0) (First l) end_of_list) l (First l)"

definition is_empty :: "list_heap \<Rightarrow> ptr \<Rightarrow> bool" where
  "is_empty h l \<longleftrightarrow> bl_first (objs h l) = end_of_list"

text \<open>
  The node an allocation returns is the argument \<open>n\<close>; a failed allocation returns \<open>NULL\<close>, and no
  constructor runs then.  The Boolean result is true on failure, as in the code.
\<close>

definition push_back :: "list_heap \<Rightarrow> ptr \<Rightarrow> ptr \<Rightarrow> ptr \<Rightarrow> bool \<times> list_heap" where
  "push_back h l n info =
     (let h1 = (if n \<noteq> NULL then new_list_node h n info end_of_list else h);
          h2 = store h1 (bl_last (objs h1 l)) n
      in if n \<noteq> NULL
         then (False, set_elements (set_last h2 l (Next n)) l (bl_elements (objs h2 l) + 1))
         else (True, h2))"

definition push_front_impl :: "list_heap \<Rightarrow> ptr \<Rightarrow> ptr \<Rightarrow> bool \<times> list_heap" where
  "push_front_impl h l node =
     (if node \<noteq> NULL
      then let h1 = (if bl_last (objs h l) = First l then set_last h l (Next node) else h);
               h2 = store h1 (First l) node
           in (False, set_elements h2 l (bl_elements (objs h2 l) + 1))
      else (True, h))"

definition push_front :: "list_heap \<Rightarrow> ptr \<Rightarrow> ptr \<Rightarrow> ptr \<Rightarrow> bool \<times> list_heap" where
  "push_front h l n info =
     push_front_impl (if n \<noteq> NULL then new_list_node h n info (bl_first (objs h l)) else h) l n"

definition list_remove :: "list_heap \<Rightarrow> ptr \<Rightarrow> cell \<Rightarrow> list_heap" where
  "list_remove h l prev =
     (let node = ln_next (nodes h (load h prev));
          h1 = set_elements h l (bl_elements (objs h l) - 1);
          h2 = (if bl_elements (objs h1 l) = 0 then set_last h1 l (First l)
                else if bl_last (objs h1 l) = Next (load h1 prev) then set_last h1 l prev
                else h1)
      in store h2 prev node)"

definition append_list :: "list_heap \<Rightarrow> ptr \<Rightarrow> ptr \<Rightarrow> list_heap" where
  "append_list h l r =
     (if \<not> is_empty h r
      then if is_empty h l then list_assign h l r
           else let h1 = store h (bl_last (objs h l)) (bl_first (objs h r));
                    h2 = set_last h1 l (bl_last (objs h1 r))
                in set_elements h2 l (bl_elements (objs h2 l) + bl_elements (objs h2 r))
      else h)"

definition pop :: "list_heap \<Rightarrow> ptr \<Rightarrow> ptr \<times> list_heap" where
  "pop h l =
     (if bl_first (objs h l) = end_of_list then (NULL, h)
      else let tmp = bl_first (objs h l);
               h1 = store h (First l) (ln_next (nodes h tmp));
               h2 = set_elements h1 l (bl_elements (objs h1 l) - 1);
               h3 = (if bl_elements (objs h2 l) = 0 then set_last h2 l (First l) else h2)
           in (ln_info (nodes h3 tmp), h3))"

text \<open>
  The loops over the nodes return \<open>None\<close> when they do not end (a cyclic chain).  \<open>disjoin\<close>
  carries the state of its loop: the cell \<open>prev\<close>, the node and the heap.
\<close>

partial_function (option) disjoin_loop ::
    "list_heap \<Rightarrow> ptr \<Rightarrow> ptr \<Rightarrow> cell \<Rightarrow> ptr \<Rightarrow> list_heap option" where
  "disjoin_loop h l list_first prev node =
     (if node \<noteq> end_of_list \<and> node \<noteq> list_first
      then let prev' = Next node; node' = ln_next (nodes h node);
               h' = set_elements h l (bl_elements (objs h l) + 1)
           in if node' = end_of_list then Some h'
              else disjoin_loop h' l list_first prev' node'
      else Some (set_last (store h prev end_of_list) l prev))"

definition disjoin :: "list_heap \<Rightarrow> ptr \<Rightarrow> ptr \<Rightarrow> list_heap option" where
  "disjoin h l r = disjoin_loop (set_elements h l 0) l (bl_first (objs h r)) (First l) (bl_first (objs h l))"

definition prepend :: "list_heap \<Rightarrow> ptr \<Rightarrow> ptr \<Rightarrow> list_heap" where
  "prepend h l r =
     (if \<not> is_empty h r
      then let h1 = (if is_empty h l then set_last h l (bl_last (objs h r)) else h);
               h2 = store h1 (bl_last (objs h1 r)) (bl_first (objs h1 l));
               h3 = store h2 (First l) (bl_first (objs h2 r))
           in set_elements h3 l (bl_elements (objs h3 l) + bl_elements (objs h3 r))
      else h)"

definition swap_lists :: "list_heap \<Rightarrow> ptr \<Rightarrow> ptr \<Rightarrow> list_heap" where
  "swap_lists h l rhs =
     (let rhs_last = bl_last (objs h rhs);
          a = bl_first (objs h l);
          h1 = store (store h (First l) (bl_first (objs h rhs))) (First rhs) a;
          b = bl_elements (objs h1 l);
          h2 = set_elements (set_elements h1 l (bl_elements (objs h1 rhs))) rhs b;
          h3 = set_last h2 rhs (if bl_last (objs h2 l) = First l then First rhs else bl_last (objs h2 l))
      in set_last h3 l (if rhs_last = First rhs then First l else rhs_last))"

definition head :: "list_heap \<Rightarrow> ptr \<Rightarrow> ptr" where
  "head h l = ln_info (nodes h (bl_first (objs h l)))"

definition last_node :: "list_heap \<Rightarrow> ptr \<Rightarrow> ptr" where
  "last_node h l = load h (bl_last (objs h l))"

definition first_node :: "list_heap \<Rightarrow> ptr \<Rightarrow> ptr" where
  "first_node h l = bl_first (objs h l)"

text \<open>The address of an \<open>info\<close> member is written as the node that holds it.\<close>

definition head_ref :: "list_heap \<Rightarrow> ptr \<Rightarrow> ptr option" where
  "head_ref h l = (if bl_first (objs h l) \<noteq> end_of_list then Some (bl_first (objs h l)) else None)"

partial_function (option) find_eq ::
    "list_heap \<Rightarrow> (ptr \<Rightarrow> ptr \<Rightarrow> bool) \<Rightarrow> ptr \<Rightarrow> ptr \<Rightarrow> ptr option" where
  "find_eq h eq info node =
     (if node \<noteq> end_of_list \<and> \<not> eq (ln_info (nodes h node)) info
      then find_eq h eq info (ln_next (nodes h node))
      else Some node)"

definition add_unique ::
    "list_heap \<Rightarrow> ptr \<Rightarrow> ptr \<Rightarrow> ptr \<Rightarrow> (ptr \<Rightarrow> ptr \<Rightarrow> bool) \<Rightarrow> (bool \<times> list_heap) option" where
  "add_unique h l n info eq =
     (case find_eq h eq info (bl_first (objs h l)) of
        None \<Rightarrow> None
      | Some node \<Rightarrow> Some (if node = end_of_list then push_back h l n info else (True, h)))"

fun elem_loop :: "list_heap \<Rightarrow> nat \<Rightarrow> ptr \<Rightarrow> ptr" where
  "elem_loop h n node =
     (if node = end_of_list then NULL
      else case n of 0 \<Rightarrow> ln_info (nodes h node)
           | Suc m \<Rightarrow> elem_loop h m (ln_next (nodes h node)))"

definition elem :: "list_heap \<Rightarrow> ptr \<Rightarrow> nat \<Rightarrow> ptr" where
  "elem h l n = elem_loop h n (bl_first (objs h l))"

text \<open>\<open>check_list\<close> returns its verdict; the messages it prints are left out.\<close>

partial_function (option) check_list_loop ::
    "list_heap \<Rightarrow> ptr \<Rightarrow> uint32 \<Rightarrow> (ptr \<times> uint32) option option" where
  "check_list_loop h node cnt =
     (if ln_next (nodes h node) \<noteq> end_of_list
      then if ln_info (nodes h node) = NULL then Some None
           else check_list_loop h (ln_next (nodes h node)) (cnt + 1)
      else Some (Some (node, cnt)))"

definition check_list :: "list_heap \<Rightarrow> ptr \<Rightarrow> bool option" where
  "check_list h l =
     (case check_list_loop h (bl_first (objs h l)) 0 of
        None \<Rightarrow> None
      | Some None \<Rightarrow> Some False
      | Some (Some (node, cnt)) \<Rightarrow>
          Some (if bl_last (objs h l) \<noteq> Next node then False
                else if cnt + 1 \<noteq> bl_elements (objs h l) then False
                else True))"

definition after :: "list_heap \<Rightarrow> ptr \<Rightarrow> ptr \<Rightarrow> ptr \<Rightarrow> ptr \<Rightarrow> list_heap" where
  "after h l n info node =
     (let h1 = (if n \<noteq> NULL then new_list_node h n info (ln_next (nodes h node)) else h);
          h2 = store h1 (Next node) n;
          h3 = set_elements h2 l (bl_elements (objs h2 l) + 1)
      in if bl_last (objs h3 l) = Next node then set_last h3 l (Next n) else h3)"

section \<open>The nodes of a list\<close>

primrec lseg :: "(ptr \<Rightarrow> list_node) \<Rightarrow> ptr \<Rightarrow> ptr list \<Rightarrow> ptr \<Rightarrow> bool" where
  "lseg N p [] q \<longleftrightarrow> p = q"
| "lseg N p (n # ns) q \<longleftrightarrow> p = n \<and> lseg N (ln_next (N n)) ns q"

definition tail_cell :: "ptr \<Rightarrow> ptr list \<Rightarrow> cell" where
  "tail_cell l ns = (if ns = [] then First l else Next (last ns))"

definition seg :: "list_heap \<Rightarrow> ptr \<Rightarrow> ptr list \<Rightarrow> ptr \<Rightarrow> bool" where
  "seg h l ns q \<longleftrightarrow> lseg (nodes h) (bl_first (objs h l)) ns q"

definition ok_nodes :: "ptr list \<Rightarrow> bool" where
  "ok_nodes ns \<longleftrightarrow> distinct ns \<and> NULL \<notin> set ns \<and> end_of_list \<notin> set ns \<and> length ns < 2 ^ 32"

definition is_list :: "list_heap \<Rightarrow> ptr \<Rightarrow> ptr list \<Rightarrow> bool" where
  "is_list h l ns \<longleftrightarrow>
     seg h l ns end_of_list \<and> ok_nodes ns \<and>
     bl_last (objs h l) = tail_cell l ns \<and> bl_elements (objs h l) = of_nat (length ns)"

definition infos :: "list_heap \<Rightarrow> ptr list \<Rightarrow> ptr list" where
  "infos h ns = map (\<lambda>n. ln_info (nodes h n)) ns"

lemma tail_cell_simps [simp]:
  "tail_cell l [] = First l" "tail_cell l (ns @ [n]) = Next n"
  "ns \<noteq> [] \<Longrightarrow> tail_cell l ns = Next (last ns)"
  "tail_cell l (ns @ n # ms) = Next (last (n # ms))" "tail_cell l (n # ms) = Next (last (n # ms))"
  by (simp_all add: tail_cell_def)

lemma tail_cell_First: "tail_cell l ns = First k \<longleftrightarrow> ns = [] \<and> k = l"
  by (auto simp: tail_cell_def)

lemma tail_cell_Next: "tail_cell l ns = Next k \<longleftrightarrow> ns \<noteq> [] \<and> k = last ns"
  by (auto simp: tail_cell_def)

lemma ok_nodes_simps [simp]:
  "ok_nodes []"
  "ok_nodes (n # ns) \<longleftrightarrow> ok_nodes ns \<and> n \<noteq> NULL \<and> n \<noteq> end_of_list \<and> n \<notin> set ns \<and> length ns + 1 < 2 ^ 32"
  by (auto simp: ok_nodes_def)

lemma ok_nodes_append:
  "ok_nodes (xs @ ys) \<longleftrightarrow>
     ok_nodes xs \<and> ok_nodes ys \<and> set xs \<inter> set ys = {} \<and> length xs + length ys < 2 ^ 32"
  by (auto simp: ok_nodes_def)

lemma ok_nodes_distinct: "ok_nodes ns \<Longrightarrow> distinct ns"
  by (simp add: ok_nodes_def)

lemma heap_access [simp]:
  "nodes (set_last h l c) = nodes h" "nodes (set_elements h l k) = nodes h"
  "objs (set_last h l c) = (objs h)(l := (objs h l)\<lparr>bl_last := c\<rparr>)"
  "objs (set_elements h l k) = (objs h)(l := (objs h l)\<lparr>bl_elements := k\<rparr>)"
  "objs (new_list_node h n i q) = objs h"
  "nodes (new_list_node h n i q) = (nodes h)(n := \<lparr>ln_next = q, ln_info = i\<rparr>)"
  by (simp_all add: set_last_def set_elements_def new_list_node_def)

lemma load_heap_access [simp]:
  "load (set_last h l c) p = load h p" "load (set_elements h l k) p = load h p"
  by (cases p; simp)+

lemma store_objs [simp]:
  "bl_last (objs (store h c v) l) = bl_last (objs h l)"
  "bl_elements (objs (store h c v) l) = bl_elements (objs h l)"
  "bl_first (objs (store h c v) l) = (if c = First l then v else bl_first (objs h l))"
  "ln_info (nodes (store h c v) n) = ln_info (nodes h n)"
  "ln_next (nodes (store h c v) n) = (if c = Next n then v else ln_next (nodes h n))"
  by (cases c; simp)+

lemma store_access [simp]:
  "objs (store h (Next n) v) = objs h" "nodes (store h (First l) v) = nodes h"
  "objs (store h (First l) v) = (objs h)(l := (objs h l)\<lparr>bl_first := v\<rparr>)"
  "nodes (store h (Next n) v) = (nodes h)(n := (nodes h n)\<lparr>ln_next := v\<rparr>)"
  by simp_all

declare store.simps [simp del]

lemma lseg_append: "lseg N p (xs @ ys) q \<longleftrightarrow> (\<exists>r. lseg N p xs r \<and> lseg N r ys q)"
  by (induction xs arbitrary: p) auto

lemma lseg_cong: "(\<And>n. n \<in> set ns \<Longrightarrow> ln_next (N n) = ln_next (M n)) \<Longrightarrow> lseg N p ns q = lseg M p ns q"
  by (induction ns arbitrary: p) auto

lemma lseg_upd: "n \<notin> set ns \<Longrightarrow> lseg (N(n := v)) p ns q = lseg N p ns q"
  by (rule lseg_cong) auto

lemma lseg_start: "lseg N p ns q \<Longrightarrow> p = hd (ns @ [q])"
  by (cases ns) auto

lemma seg_append: "seg h l (xs @ ys) q \<longleftrightarrow> (\<exists>r. seg h l xs r \<and> lseg (nodes h) r ys q)"
  by (simp add: seg_def lseg_append)

lemma seg_load_tail: "seg h l ns q \<Longrightarrow> load h (tail_cell l ns) = q"
  by (cases ns rule: rev_cases) (auto simp: seg_def lseg_append)

text \<open>
  Overwriting the tail cell of a chain redirects the chain and leaves every other chain alone.
\<close>

lemma seg_store_tail:
  assumes "seg h l ns q" "distinct ns"
  shows "seg (store h (tail_cell l ns) v) l ns v"
proof (cases ns rule: rev_cases)
  case Nil then show ?thesis by (simp add: seg_def)
next
  case (snoc ms m)
  then have "m \<notin> set ms" using assms by simp
  then show ?thesis using assms snoc by (simp add: seg_def lseg_append lseg_upd)
qed

lemma lseg_store_tail: "set ns \<inter> set ms = {} \<Longrightarrow> lseg (nodes (store h (tail_cell l ns) v)) p ms q = lseg (nodes h) p ms q"
  by (cases ns rule: rev_cases) (auto simp: lseg_upd)

lemma seg_store_other:
  assumes "seg h l' ms q" "set ns \<inter> set ms = {}" "l \<noteq> l'"
  shows "seg (store h (tail_cell l ns) v) l' ms q"
  using assms by (auto simp: seg_def lseg_store_tail tail_cell_First)

lemma seg_set [simp]:
  "seg (set_last h k c) l ns q = seg h l ns q" "seg (set_elements h k e) l ns q = seg h l ns q"
  by (simp_all add: seg_def)

lemma seg_store_set [simp]:
  "seg (store (set_last h k c) p v) l ns q = seg (store h p v) l ns q"
  "seg (store (set_elements h k e) p v) l ns q = seg (store h p v) l ns q"
  by (cases p; simp add: seg_def)+

lemma nodes_store_set [simp]:
  "nodes (store (set_last h k c) p v) = nodes (store h p v)"
  "nodes (store (set_elements h k e) p v) = nodes (store h p v)"
  by (cases p; simp)+

lemma seg_new: "n \<notin> set ns \<Longrightarrow> seg (new_list_node h n i r) l ns q = seg h l ns q"
  by (simp add: seg_def lseg_upd)

lemma infos_simps [simp]:
  "infos h [] = []" "infos h (n # ns) = ln_info (nodes h n) # infos h ns"
  "infos h (xs @ ys) = infos h xs @ infos h ys"
  "infos (set_last h l c) ns = infos h ns" "infos (set_elements h l k) ns = infos h ns"
  "infos (store h p v) ns = infos h ns" "length (infos h ns) = length ns"
  by (simp_all add: infos_def)

lemma infos_new: "n \<notin> set ns \<Longrightarrow> infos (new_list_node h n i q) ns = infos h ns"
  by (auto simp: infos_def)

lemma is_list_empty_iff: "is_list h l ns \<Longrightarrow> is_empty h l \<longleftrightarrow> ns = []"
  by (cases ns) (auto simp: is_list_def is_empty_def seg_def)

lemma of_nat_eq_0_uint32:
  assumes "n < 2 ^ 32" shows "(of_nat n :: uint32) = 0 \<longleftrightarrow> n = 0"
proof -
  have "unat (of_nat n :: uint32) = n" using assms by (simp add: unat_of_nat)
  then have "(of_nat n :: uint32) \<noteq> 0" if "n \<noteq> 0" using that unat_eq_zero [of "of_nat n :: uint32"] by linarith
  then show ?thesis by auto
qed

section \<open>The operations on the sequence of nodes\<close>

lemma push_back_is_list:
  assumes "is_list h l ns" "ok_nodes (ns @ [n])"
  shows "fst (push_back h l n x) = False"
    "is_list (snd (push_back h l n x)) l (ns @ [n])"
    "infos (snd (push_back h l n x)) (ns @ [n]) = infos h ns @ [x]"
proof -
  have n: "n \<noteq> NULL" "n \<notin> set ns" "distinct ns"
    using assms(2) by (auto simp: ok_nodes_append ok_nodes_distinct)
  let ?h = "store (new_list_node h n x end_of_list) (tail_cell l ns) n"
  have "seg ?h l ns n"
    by (rule seg_store_tail [where q = end_of_list]) (use assms(1) n in \<open>simp_all add: is_list_def seg_new\<close>)
  moreover have "ln_next (nodes ?h n) = end_of_list" using n by (auto simp: tail_cell_Next)
  ultimately have s: "seg ?h l (ns @ [n]) end_of_list" by (simp add: seg_append)
  show "is_list (snd (push_back h l n x)) l (ns @ [n])"
    using assms n s by (simp add: push_back_def Let_def is_list_def)
  show "infos (snd (push_back h l n x)) (ns @ [n]) = infos h ns @ [x]"
    using n by (simp add: push_back_def Let_def infos_new)
qed (use assms(2) in \<open>simp add: push_back_def Let_def ok_nodes_append\<close>)

lemma push_front_is_list:
  assumes "is_list h l ns" "ok_nodes (n # ns)"
  shows "fst (push_front h l n x) = False"
    "is_list (snd (push_front h l n x)) l (n # ns)"
    "infos (snd (push_front h l n x)) (n # ns) = x # infos h ns"
proof -
  have n: "n \<noteq> NULL" "n \<notin> set ns" using assms(2) by simp_all
  have *: "seg (store (new_list_node h n x (bl_first (objs h l))) (First l) n) l (n # ns) end_of_list"
    using assms(1) n by (simp add: is_list_def seg_def lseg_upd)
  show "is_list (snd (push_front h l n x)) l (n # ns)"
    using assms n * by (auto simp: push_front_def push_front_impl_def Let_def is_list_def tail_cell_First seg_def)
  show "infos (snd (push_front h l n x)) (n # ns) = x # infos h ns"
    using n by (simp add: push_front_def push_front_impl_def Let_def infos_new)
qed (use assms(2) in \<open>simp add: push_front_def push_front_impl_def Let_def\<close>)

lemma list_empty_is_list: "is_list (list_empty h l) l []"
  by (simp add: is_list_def list_empty_def seg_def)

lemma pop_is_list:
  assumes "is_list h l (n # ns)"
  shows "fst (pop h l) = ln_info (nodes h n)" "is_list (snd (pop h l)) l ns"
    "infos (snd (pop h l)) ms = infos h ms"
proof -
  have n: "bl_first (objs h l) = n" "n \<noteq> end_of_list" using assms by (simp_all add: is_list_def seg_def)
  show "fst (pop h l) = ln_info (nodes h n)" "infos (snd (pop h l)) ms = infos h ms"
    using n by (simp_all add: pop_def Let_def)
  have len: "length ns < 2 ^ 32" using assms by (simp add: is_list_def)
  show "is_list (snd (pop h l)) l ns"
    using assms n of_nat_eq_0_uint32 [OF len] by (auto simp: pop_def Let_def is_list_def seg_def)
qed

lemma pop_empty: "is_list h l [] \<Longrightarrow> pop h l = (NULL, h)"
  by (simp add: is_list_def pop_def seg_def)

lemma list_remove_is_list:
  assumes "is_list h l (xs @ n # ys)"
  shows "is_list (list_remove h l (tail_cell l xs)) l (xs @ ys)"
    "infos (list_remove h l (tail_cell l xs)) ms = infos h ms"
proof -
  have ok: "ok_nodes (xs @ n # ys)" and s: "seg h l (xs @ n # ys) end_of_list" using assms by (simp_all add: is_list_def)
  have cut: "seg h l xs n" "lseg (nodes h) (ln_next (nodes h n)) ys end_of_list" using s by (auto simp: seg_append)
  have d: "distinct xs" "set xs \<inter> set ys = {}" using ok by (auto simp: ok_nodes_append ok_nodes_distinct)
  have at: "load h (tail_cell l xs) = n" by (rule seg_load_tail [OF cut(1)])
  have s': "seg (store h (tail_cell l xs) (ln_next (nodes h n))) l (xs @ ys) end_of_list"
    using seg_store_tail [OF cut(1) d(1)] cut(2) d(2) by (auto simp: seg_append lseg_store_tail)
  have len: "length xs + length ys < 2 ^ 32" using ok by (simp add: ok_nodes_append)
  have cnt: "(of_nat (length xs) + of_nat (length ys) :: uint32) = 0 \<longleftrightarrow> xs = [] \<and> ys = []"
    using of_nat_eq_0_uint32 [OF len] by simp
  have last: "last (n # ys) = n \<longleftrightarrow> ys = []" using ok by (auto simp: ok_nodes_append)
  show "is_list (list_remove h l (tail_cell l xs)) l (xs @ ys)"
    using assms ok s' last cnt
    by (auto simp: list_remove_def Let_def is_list_def at ok_nodes_append)
  show "infos (list_remove h l (tail_cell l xs)) ms = infos h ms" by (simp add: list_remove_def Let_def)
qed

lemma is_list_cut:
  assumes "is_list h l ns"
  shows "seg h l ns end_of_list" "distinct ns" "ok_nodes ns" "bl_last (objs h l) = tail_cell l ns"
    "bl_elements (objs h l) = of_nat (length ns)"
  using assms by (simp_all add: is_list_def ok_nodes_distinct)

lemma append_list_is_list:
  assumes "is_list h l ns" "is_list h r ms" "ok_nodes (ns @ ms)" "l \<noteq> r"
  shows "is_list (append_list h l r) l (ns @ ms)" "infos (append_list h l r) zs = infos h zs"
proof -
  note L = is_list_cut [OF assms(1)] and R = is_list_cut [OF assms(2)]
  have e: "is_empty h l \<longleftrightarrow> ns = []" "is_empty h r \<longleftrightarrow> ms = []" using assms is_list_empty_iff by auto
  have start: "lseg (nodes h) (bl_first (objs h r)) ms end_of_list" using R(1) by (simp add: seg_def)
  have dj: "set ns \<inter> set ms = {}" using assms(3) by (simp add: ok_nodes_append)
  have len: "ms \<noteq> [] \<Longrightarrow> (of_nat (length ms) :: uint32) \<noteq> 0"
    using R(3) by (simp add: of_nat_eq_0_uint32 ok_nodes_def)
  consider "ms = []" | "ms \<noteq> []" "ns = []" | "ms \<noteq> []" "ns \<noteq> []" by auto
  then show "is_list (append_list h l r) l (ns @ ms)"
  proof cases
    case 1 then show ?thesis using assms e by (simp add: append_list_def)
  next
    case 2 then show ?thesis using assms e R start len
      by (simp add: append_list_def is_list_def list_assign_def seg_def)
  next
    case 3
    have "seg (store h (tail_cell l ns) (bl_first (objs h r))) l (ns @ ms) end_of_list"
      using seg_store_tail [OF L(1,2)] start lseg_store_tail [OF dj] unfolding seg_append by blast
    then show ?thesis using 3 assms e L R by (simp add: append_list_def is_list_def Let_def)
  qed
  show "infos (append_list h l r) zs = infos h zs"
    by (simp add: append_list_def list_assign_def Let_def)
qed

lemma prepend_is_list:
  assumes "is_list h l ns" "is_list h r ms" "ok_nodes (ms @ ns)" "l \<noteq> r"
  shows "is_list (prepend h l r) l (ms @ ns)" "infos (prepend h l r) zs = infos h zs"
proof -
  note L = is_list_cut [OF assms(1)] and R = is_list_cut [OF assms(2)]
  have e: "is_empty h l \<longleftrightarrow> ns = []" "is_empty h r \<longleftrightarrow> ms = []" using assms is_list_empty_iff by auto
  have dj: "set ms \<inter> set ns = {}" using assms(3) by (simp add: ok_nodes_append)
  have start: "lseg (nodes h) (bl_first (objs h l)) ns end_of_list" using L(1) by (simp add: seg_def)
  let ?h = "store h (tail_cell r ms) (bl_first (objs h l))"
  have "seg ?h r ms (bl_first (objs h l))" by (rule seg_store_tail [OF R(1,2)])
  then have s: "lseg (nodes ?h) (bl_first (objs ?h r)) (ms @ ns) end_of_list"
    using start lseg_store_tail [OF dj] unfolding seg_def lseg_append by blast
  show "is_list (prepend h l r) l (ms @ ns)"
  proof (cases "ms = []")
    case True then show ?thesis using assms e by (simp add: prepend_def)
  next
    case False
    then show ?thesis using assms e s L R
      by (auto simp: prepend_def is_list_def Let_def seg_def add.commute)
  qed
  show "infos (prepend h l r) zs = infos h zs" by (simp add: prepend_def Let_def)
qed

lemma swap_lists_is_list:
  assumes "is_list h l ns" "is_list h r ms" "l \<noteq> r"
  shows "is_list (swap_lists h l r) l ms" "is_list (swap_lists h l r) r ns"
    "infos (swap_lists h l r) zs = infos h zs"
  using assms by (auto simp: swap_lists_def Let_def is_list_def seg_def tail_cell_def)

lemma after_is_list:
  assumes "is_list h l (xs @ m # ys)" "ok_nodes (xs @ m # n # ys)"
  shows "is_list (after h l n x m) l (xs @ m # n # ys)"
    "infos (after h l n x m) (xs @ m # n # ys) = infos h (xs @ [m]) @ x # infos h ys"
proof -
  note L = is_list_cut [OF assms(1)]
  have n: "n \<noteq> NULL" "n \<notin> set xs" "n \<noteq> m" "n \<notin> set ys" "m \<notin> set xs" "m \<notin> set ys"
    using assms(2) by (auto simp: ok_nodes_append)
  have "seg h l xs m" "lseg (nodes h) (ln_next (nodes h m)) ys end_of_list" using L(1) by (auto simp: seg_append)
  then have s: "seg (store (new_list_node h n x (ln_next (nodes h m))) (Next m) n) l (xs @ m # n # ys) end_of_list"
    using n by (simp add: seg_def lseg_append lseg_upd)
  show "is_list (after h l n x m) l (xs @ m # n # ys)"
    using s n assms(2) L(4,5) by (auto simp: after_def Let_def is_list_def)
  show "infos (after h l n x m) (xs @ m # n # ys) = infos h (xs @ [m]) @ x # infos h ys"
    using n by (simp add: after_def Let_def infos_new)
qed

lemma infos_after: "n \<notin> set zs \<Longrightarrow> infos (after h l n x m) zs = infos h zs"
  by (simp add: after_def Let_def infos_new)

section \<open>Loops over the nodes\<close>

lemma disjoin_loop_tail:
  assumes "lseg (nodes h) p (ns @ m # ms) end_of_list" "end_of_list \<notin> set (ns @ m # ms)" "m \<notin> set ns"
  shows "disjoin_loop h l m c p =
     Some (let c' = (if ns = [] then c else Next (last ns));
               h' = set_elements h l (bl_elements (objs h l) + of_nat (length ns))
           in set_last (store h' c' end_of_list) l c')"
  using assms
proof (induction ns arbitrary: p c h)
  case Nil
  then show ?case by (subst disjoin_loop.simps) (simp add: Let_def set_elements_def)
next
  case (Cons n ns)
  then have "p = n" "ln_next (nodes h n) \<noteq> end_of_list" by (cases ns; auto)+
  moreover have "set_elements (set_elements h l a) l b = set_elements h l b" for a b
    by (simp add: set_elements_def)
  ultimately show ?case using Cons.prems Cons.IH [of "set_elements h l (bl_elements (objs h l) + 1)"]
    by (subst disjoin_loop.simps) (simp add: Let_def add.assoc)
qed

lemma disjoin_loop_no_tail:
  assumes "lseg (nodes h) p (n # ns) end_of_list" "end_of_list \<notin> set (n # ns)" "q \<notin> set (n # ns)"
  shows "disjoin_loop h l q c p = Some (set_elements h l (bl_elements (objs h l) + of_nat (length (n # ns))))"
  using assms
proof (induction ns arbitrary: n p c h)
  case Nil
  then show ?case by (subst disjoin_loop.simps) (simp add: Let_def)
next
  case (Cons m ns)
  have "set_elements (set_elements h l a) l b = set_elements h l b" for a b
    by (simp add: set_elements_def)
  then show ?case using Cons.prems Cons.IH [of "set_elements h l (bl_elements (objs h l) + 1)" m m "Next n"]
    by (subst disjoin_loop.simps) (simp add: Let_def add.assoc)
qed

lemma disjoin_is_list:
  assumes "is_list h l (ns @ ms)" "if ms = [] then bl_first (objs h r) \<notin> set ns else bl_first (objs h r) = hd ms"
  shows "\<exists>h'. disjoin h l r = Some h' \<and> is_list h' l ns \<and> infos h' ns = infos h ns"
proof -
  note L = is_list_cut [OF assms(1)]
  have ok: "end_of_list \<notin> set (ns @ ms)" "ok_nodes ns" using L(3) by (auto simp: ok_nodes_append ok_nodes_def)
  consider (tail) m ms' where "ms = m # ms'" | (none) "ms = []" "ns = []" | (all) n ns' where "ms = []" "ns = n # ns'"
    by (meson neq_Nil_conv)
  then show ?thesis
  proof cases
    case tail
    have m: "m \<notin> set ns" "bl_first (objs h r) = m" "distinct ns" using L(2) tail assms(2) by auto
    have "seg h l ns m" using L(1) tail by (auto simp: seg_append)
    from seg_store_tail [OF this m(3)] have "seg (store h (tail_cell l ns) end_of_list) l ns end_of_list" .
    moreover have "disjoin h l r = Some (set_last (store (set_elements h l (of_nat (length ns))) (tail_cell l ns) end_of_list) l (tail_cell l ns))"
      unfolding disjoin_def m(2)
      using disjoin_loop_tail [of "set_elements h l 0" "bl_first (objs h l)" ns m ms' l "First l"] L(1) ok(1) m(1) tail
      by (simp add: seg_def tail_cell_def Let_def set_elements_def)
    ultimately show ?thesis using ok(2) by (simp add: is_list_def)
  next
    case none
    then have "bl_first (objs h l) = end_of_list" using L(1) by (simp add: seg_def)
    then show ?thesis using none
      by (simp add: disjoin_def disjoin_loop.simps is_list_def seg_def)
  next
    case all
    then have "disjoin h l r = Some (set_elements h l (of_nat (length ns)))"
      unfolding disjoin_def using disjoin_loop_no_tail [of "set_elements h l 0" "bl_first (objs h l)" n ns' "bl_first (objs h r)" l "First l"] L(1) ok(1) assms(2)
      by (simp add: seg_def set_elements_def)
    then show ?thesis using all assms(1) by (simp add: is_list_def)
  qed
qed

lemma find_eq_lseg:
  assumes "lseg (nodes h) p ns end_of_list" "end_of_list \<notin> set ns"
  shows "find_eq h eq x p =
     Some (case List.find (\<lambda>n. eq (ln_info (nodes h n)) x) ns of None \<Rightarrow> end_of_list | Some n \<Rightarrow> n)"
  using assms
proof (induction ns arbitrary: p)
  case Nil then show ?case by (subst find_eq.simps) simp
next
  case (Cons n ns) then show ?case by (subst find_eq.simps) auto
qed

lemma add_unique_is_list:
  assumes "is_list h l ns" "ok_nodes (ns @ [n])"
  shows "\<exists>e h'. add_unique h l n x eq = Some (e, h') \<and> (e \<longleftrightarrow> (\<exists>y\<in>set (infos h ns). eq y x)) \<and>
           (if e then h' = h else is_list h' l (ns @ [n]) \<and> infos h' (ns @ [n]) = infos h ns @ [x])"
proof -
  note L = is_list_cut [OF assms(1)]
  have eol: "end_of_list \<notin> set ns" using L(3) by (simp add: ok_nodes_def)
  have f: "find_eq h eq x (bl_first (objs h l)) =
     Some (case List.find (\<lambda>n. eq (ln_info (nodes h n)) x) ns of None \<Rightarrow> end_of_list | Some n \<Rightarrow> n)"
    using find_eq_lseg [OF _ eol] L(1) by (simp add: seg_def)
  have none: "List.find (\<lambda>n. eq (ln_info (nodes h n)) x) ns = None \<longleftrightarrow> \<not> (\<exists>y\<in>set (infos h ns). eq y x)"
    by (auto simp: find_None_iff infos_def)
  show ?thesis
  proof (cases "List.find (\<lambda>n. eq (ln_info (nodes h n)) x) ns")
    case None
    then have "add_unique h l n x eq = Some (push_back h l n x)" by (simp add: add_unique_def f)
    then show ?thesis using push_back_is_list [OF assms, of x] None none by (cases "push_back h l n x") auto
  next
    case (Some m)
    then have "m \<in> set ns" by (auto simp: find_Some_iff)
    then have "add_unique h l n x eq = Some (True, h)" using eol Some by (auto simp: add_unique_def f)
    then show ?thesis using Some none by auto
  qed
qed

lemma elem_loop_lseg:
  "lseg (nodes h) p ns end_of_list \<Longrightarrow> end_of_list \<notin> set ns \<Longrightarrow>
   elem_loop h k p = (if k < length ns then infos h ns ! k else NULL)"
proof (induction ns arbitrary: p k)
  case Nil then show ?case by (subst elem_loop.simps) simp
next
  case (Cons n ns) then show ?case by (subst elem_loop.simps) (auto split: nat.splits)
qed

lemma check_list_loop_lseg:
  assumes "lseg (nodes h) p (ns @ [n]) end_of_list" "end_of_list \<notin> set (ns @ [n])"
  shows "check_list_loop h p c =
     Some (if NULL \<in> set (infos h ns) then None else Some (n, c + of_nat (length ns)))"
  using assms
proof (induction ns arbitrary: p c)
  case Nil then show ?case by (subst check_list_loop.simps) simp
next
  case (Cons m ns)
  then have "p = m" "ln_next (nodes h m) \<noteq> end_of_list" by (cases ns; auto)+
  then show ?case using Cons by (subst check_list_loop.simps) (auto simp: add.assoc)
qed

section \<open>A list object implements a double-ended queue\<close>

text \<open>
  An element of the container is a node together with the pointer it carries; a sequence fits
  when its nodes are distinct proper nodes and their number fits the counter \<open>elements\<close>.
\<close>

definition list_holds :: "ptr \<Rightarrow> list_heap \<Rightarrow> (ptr \<times> ptr) list \<Rightarrow> bool" where
  "list_holds l h es \<longleftrightarrow> is_list h l (map fst es) \<and> infos h (map fst es) = map snd es"

definition list_fits :: "(ptr \<times> ptr) list \<Rightarrow> bool" where
  "list_fits es \<longleftrightarrow> ok_nodes (map fst es)"

definition add_back :: "ptr \<Rightarrow> list_heap \<Rightarrow> ptr \<times> ptr \<Rightarrow> list_heap" where
  "add_back l h e = snd (push_back h l (fst e) (snd e))"

definition add_front :: "ptr \<Rightarrow> list_heap \<Rightarrow> ptr \<times> ptr \<Rightarrow> list_heap" where
  "add_front l h e = snd (push_front h l (fst e) (snd e))"

interpretation bl: deque "list_holds l" list_fits snd "\<lambda>h. pop h l" "add_back l" "add_front l"
proof unfold_locales
  fix h e es
  assume "list_holds l h (e # es)"
  then have "is_list h l (fst e # map fst es)" "infos h (fst e # map fst es) = snd e # map snd es"
    by (simp_all add: list_holds_def)
  then show "fst (pop h l) = snd e" "list_holds l (snd (pop h l)) es"
    using pop_is_list [of h l "fst e" "map fst es"] by (simp_all add: list_holds_def)
next
  fix h e es
  assume "list_holds l h es"
  then show "list_fits (es @ [e]) \<Longrightarrow> list_holds l (add_back l h e) (es @ [e])"
    "list_fits (e # es) \<Longrightarrow> list_holds l (add_front l h e) (e # es)"
    using push_back_is_list [of h l "map fst es" "fst e" "snd e"]
      push_front_is_list [of h l "map fst es" "fst e" "snd e"]
    unfolding list_holds_def list_fits_def add_back_def add_front_def by auto
qed (simp add: list_fits_def ok_nodes_append)

text \<open>Two list objects: object 0 owns the nodes 2 and 3, object 1 the node 4.\<close>

definition sample_heap :: list_heap where
  "sample_heap =
     \<lparr>nodes = (\<lambda>n. if n = 2 then \<lparr>ln_next = 3, ln_info = 20\<rparr> else if n = 3 then \<lparr>ln_next = end_of_list, ln_info = 30\<rparr>
               else if n = 4 then \<lparr>ln_next = end_of_list, ln_info = 40\<rparr> else end_node),
      objs = (\<lambda>l. if l = 0 then \<lparr>bl_first = 2, bl_last = Next 3, bl_elements = 2\<rparr>
              else \<lparr>bl_first = 4, bl_last = Next 4, bl_elements = 1\<rparr>)\<rparr>"

lemma sample_heap_lists: "is_list sample_heap 0 [2, 3]" "is_list sample_heap 1 [4]"
  by (simp_all add: sample_heap_def is_list_def seg_def end_of_list_def)

text \<open>
  C1: a \<open>base_list\<close> filled by \<open>push_back\<close> is popped in the order of insertion, one filled by
  \<open>push_front\<close> in the reverse order, and in both cases it ends up empty.
\<close>

theorem base_list_deque:
  assumes "list_fits es"
  shows "let q = drain (\<lambda>h. pop h l) (length es) (fill (add_back l) es (list_empty h l));
             s = drain (\<lambda>h. pop h l) (length es) (fill (add_front l) es (list_empty h l))
         in fst q = map snd es \<and> is_empty (snd q) l \<and> fst s = map snd (rev es) \<and> is_empty (snd s) l"
proof -
  have e: "list_holds l (list_empty h l) []" by (simp add: list_holds_def list_empty_is_list)
  have r: "list_fits (rev es)" using assms by (simp add: list_fits_def ok_nodes_def rev_map [symmetric])
  have z: "list_holds l h' [] \<Longrightarrow> is_empty h' l" for h'
    using is_list_empty_iff [of h' l "[]"] by (simp add: list_holds_def)
  show ?thesis unfolding Let_def
    using bl.fifo_order [OF e assms] bl.lifo_order [OF e r] z by blast
qed

theorem base_list_deque_witness:
  "fst (drain (\<lambda>h. pop h 0) (length [(2, 20), (3, 30)])
          (fill (add_back 0) [(2, 20), (3, 30)] (list_empty sample_heap 0))) = [20, 30]"
proof -
  have "list_fits [(2, 20), (3, 30)]" by (simp add: list_fits_def end_of_list_def)
  from base_list_deque [OF this, of 0 sample_heap] show ?thesis by (simp add: Let_def)
qed

text \<open>
  C2: removing the node after a cell, and inserting a new node after a node, change the node
  sequence exactly at that place, keep the list well-formed (including \<open>last\<close> and \<open>elements\<close>),
  and undo each other.
\<close>

theorem base_list_edit:
  assumes "is_list h l (xs @ m # ys)" "ok_nodes (xs @ m # n # ys)"
  shows "is_list (list_remove h l (tail_cell l xs)) l (xs @ ys) \<and>
         is_list (after h l n v m) l (xs @ m # n # ys) \<and>
         infos (after h l n v m) (xs @ m # n # ys) = infos h (xs @ [m]) @ v # infos h ys \<and>
         is_list (list_remove (after h l n v m) l (Next m)) l (xs @ m # ys) \<and>
         infos (list_remove (after h l n v m) l (Next m)) (xs @ m # ys) = infos h (xs @ m # ys)"
proof -
  note a = after_is_list [OF assms, of v]
  have "is_list (after h l n v m) l ((xs @ [m]) @ n # ys)" using a(1) by simp
  note b = list_remove_is_list [OF this]
  have "infos (after h l n v m) (xs @ m # ys) = infos h (xs @ m # ys)"
    by (rule infos_after) (use assms(2) in \<open>auto simp: ok_nodes_append\<close>)
  then have "infos (list_remove (after h l n v m) l (Next m)) (xs @ m # ys) = infos h (xs @ m # ys)"
    using b(2) [of "xs @ m # ys"] by (simp only: tail_cell_simps(2))
  moreover have "is_list (list_remove (after h l n v m) l (Next m)) l (xs @ m # ys)" using b(1) by simp
  ultimately show ?thesis using a list_remove_is_list(1) [OF assms(1)] by blast
qed

theorem base_list_edit_witness:
  "is_list (list_remove sample_heap 0 (Next 2)) 0 [2] \<and> is_list (after sample_heap 0 5 50 3) 0 [2, 3, 5]"
  using base_list_edit [of sample_heap 0 "[2]" 3 "[]" 5 50] sample_heap_lists
  by (simp add: end_of_list_def)

text \<open>
  appending a list with its own nodes concatenates the node sequences and leaves the
  appended list intact; \<open>disjoin\<close> with the shared tail then terminates and restores the first
  list.
\<close>

theorem append_disjoin_roundtrip:
  assumes "is_list h l ns" "is_list h r ms" "ok_nodes (ns @ ms)" "l \<noteq> r"
  shows "is_list (append_list h l r) l (ns @ ms) \<and> is_list (append_list h l r) r ms \<and>
         (\<exists>h'. disjoin (append_list h l r) l r = Some h' \<and> is_list h' l ns \<and> infos h' ns = infos h ns)"
proof -
  note a = append_list_is_list [OF assms]
  note R = is_list_cut [OF assms(2)] and L = is_list_cut [OF assms(1)]
  have dj: "set ns \<inter> set ms = {}" using assms(3) by (simp add: ok_nodes_append)
  have "seg (store h (tail_cell l ns) v) r ms end_of_list" for v
    by (rule seg_store_other [OF R(1) dj assms(4)])
  moreover have "tail_cell l ns \<noteq> First r" using assms(4) by (simp add: tail_cell_First)
  ultimately have r: "is_list (append_list h l r) r ms"
    using assms(2,4) L(4) by (auto simp: append_list_def Let_def list_assign_def is_list_def seg_def)
  have "bl_first (objs (append_list h l r) r) = hd (ms @ [end_of_list])"
    using is_list_cut(1) [OF r] by (auto simp: seg_def dest: lseg_start)
  then have "if ms = [] then bl_first (objs (append_list h l r) r) \<notin> set ns else bl_first (objs (append_list h l r) r) = hd ms"
    using L(3) by (auto simp: ok_nodes_def)
  from disjoin_is_list [OF a(1) this] show ?thesis using a r by auto
qed

theorem append_disjoin_roundtrip_witness:
  "is_list (append_list sample_heap 0 1) 0 [2, 3, 4] \<and> is_list (append_list sample_heap 0 1) 1 [4]"
  using append_disjoin_roundtrip [OF sample_heap_lists] by (simp add: end_of_list_def)

text \<open>
  \<open>prepend\<close> puts the other list in front, \<open>swap\<close> exchanges the contents of two lists, and
  \<open>add_unique\<close> returns, appends exactly when no element compares equal and reports otherwise.
\<close>

theorem base_list_combine:
  assumes "is_list h l ns" "is_list h r ms" "ok_nodes (ms @ ns)" "l \<noteq> r" "ok_nodes (ns @ [n])"
  shows "is_list (prepend h l r) l (ms @ ns) \<and>
         is_list (swap_lists h l r) l ms \<and> is_list (swap_lists h l r) r ns \<and>
         (\<exists>e h'. add_unique h l n x eq = Some (e, h') \<and> (e \<longleftrightarrow> (\<exists>y\<in>set (infos h ns). eq y x)) \<and>
            (if e then h' = h else is_list h' l (ns @ [n]) \<and> infos h' (ns @ [n]) = infos h ns @ [x]))"
  using prepend_is_list(1) [OF assms(1-4)] swap_lists_is_list(1,2) [OF assms(1,2,4)]
    add_unique_is_list [OF assms(1,5)] by blast

theorem base_list_combine_witness:
  "is_list (prepend sample_heap 0 1) 0 [4, 2, 3] \<and> is_list (swap_lists sample_heap 0 1) 1 [2, 3]"
  using base_list_combine [OF sample_heap_lists, of 5 30 "(=)"] by (simp add: end_of_list_def)

text \<open>
  a failed allocation in \<open>push_back\<close> is reported, but the null pointer has then already been
  written over the end marker of the list: the object is no longer a list of any nodes.
\<close>

theorem push_back_failure_breaks_list:
  assumes "is_list h l ns"
  shows "fst (push_back h l NULL x) \<and> seg (snd (push_back h l NULL x)) l ns NULL \<and>
         \<not> is_list (snd (push_back h l NULL x)) l ms"
proof -
  note L = is_list_cut [OF assms]
  let ?h = "snd (push_back h l NULL x)"
  have h: "?h = store h (tail_cell l ns) NULL" using L(4) by (simp add: push_back_def Let_def)
  have s: "seg ?h l ns NULL" unfolding h by (rule seg_store_tail [OF L(1,2)])
  have "load ?h (tail_cell l ns) = NULL" by (rule seg_load_tail [OF s])
  moreover have "bl_last (objs ?h l) = tail_cell l ns" using L(4) h by simp
  ultimately have "\<not> is_list ?h l ms"
    using seg_load_tail is_list_cut(1,4) by (metis end_of_list_not_null(1))
  then show ?thesis using s by (simp add: push_back_def Let_def)
qed

theorem push_back_failure_breaks_list_witness: "\<not> is_list (snd (push_back sample_heap 0 NULL 9)) 0 [2, 3]"
  using push_back_failure_breaks_list [OF sample_heap_lists(1)] by blast

text \<open>
  on a well-formed list the debugging check returns, and accepts it exactly when the list has
  an element and no element before the last one is null; in particular it rejects every
  well-formed empty list.  \<open>elem\<close> reads the n-th element, and null past the end.
\<close>

theorem check_list_verdict:
  assumes "is_list h l ns" "nodes h end_of_list = end_node"
  shows "check_list h l = Some (ns \<noteq> [] \<and> NULL \<notin> set (infos h (butlast ns))) \<and>
         elem h l k = (if k < length ns then infos h ns ! k else NULL)"
proof
  note L = is_list_cut [OF assms(1)]
  have eol: "end_of_list \<notin> set ns" using L(3) by (simp add: ok_nodes_def)
  show "elem h l k = (if k < length ns then infos h ns ! k else NULL)"
    using elem_loop_lseg [OF _ eol] L(1) by (simp add: elem_def seg_def)
  show "check_list h l = Some (ns \<noteq> [] \<and> NULL \<notin> set (infos h (butlast ns)))"
  proof (cases ns rule: rev_cases)
    case Nil
    then have "bl_first (objs h l) = end_of_list" using L(1) by (simp add: seg_def)
    then show ?thesis using Nil L(4) assms(2)
      by (simp add: check_list_def check_list_loop.simps end_node_def)
  next
    case (snoc xs n)
    then show ?thesis using check_list_loop_lseg [of h "bl_first (objs h l)" xs n 0] L(1,4,5) eol
      by (auto simp: check_list_def seg_def)
  qed
qed

theorem check_list_verdict_witness:
  "check_list sample_heap 0 = Some True \<and> check_list (list_empty sample_heap 0) 0 = Some False \<and> elem sample_heap 0 1 = 30"
proof -
  have e: "nodes sample_heap end_of_list = end_node" by (simp add: sample_heap_def end_of_list_def)
  then have f: "nodes (list_empty sample_heap 0) end_of_list = end_node" by (simp add: list_empty_def)
  have "infos sample_heap [2] = [20]" "infos sample_heap [2, 3] = [20, 30]" by (simp_all add: sample_heap_def)
  then show ?thesis
    using check_list_verdict [OF sample_heap_lists(1) e, of 1]
      check_list_verdict [OF list_empty_is_list f] by simp
qed

end
