(* ===== verification/ListIterator.thy ===== *)
theory ListIterator
  imports BaseList "HOL-Library.Multiset"
begin

text \<open>
  The iterators over \<open>base_list\<close> and the algorithms \<^verbatim>\<open>sql_list.h\<close> builds on them: deleting all
  elements, replacing each element by a clone, and the bubble sort of a \<open>List<T>\<close>.  An iterator
  is described by the nodes it has passed and the nodes that remain.
\<close>

section \<open>The iterator\<close>

record base_list_iterator =
  it_list :: ptr
  it_el :: cell
  it_prev :: "cell option"
  it_current :: ptr

definition iter_init :: "ptr \<Rightarrow> base_list_iterator" where
  "iter_init list_par = \<lparr>it_list = list_par, it_el = First list_par, it_prev = None, it_current = NULL\<rparr>"

definition iter_next :: "list_heap \<Rightarrow> base_list_iterator \<Rightarrow> ptr \<times> base_list_iterator" where
  "iter_next h it =
     (let c = load h (it_el it)
      in (ln_info (nodes h c), it\<lparr>it_prev := Some (it_el it), it_current := c, it_el := Next c\<rparr>))"

definition iter_peek :: "list_heap \<Rightarrow> base_list_iterator \<Rightarrow> ptr" where
  "iter_peek h it = ln_info (nodes h (load h (it_el it)))"

definition iter_next_fast :: "list_heap \<Rightarrow> base_list_iterator \<Rightarrow> ptr \<times> base_list_iterator" where
  "iter_next_fast h it = (let tmp = load h (it_el it) in (ln_info (nodes h tmp), it\<lparr>it_el := Next tmp\<rparr>))"

definition iter_rewind :: "base_list_iterator \<Rightarrow> base_list_iterator" where
  "iter_rewind it = it\<lparr>it_el := First (it_list it)\<rparr>"

definition set_info :: "list_heap \<Rightarrow> ptr \<Rightarrow> ptr \<Rightarrow> list_heap" where
  "set_info h n v = h\<lparr>nodes := (nodes h)(n := (nodes h n)\<lparr>ln_info := v\<rparr>)\<rparr>"

text \<open>\<open>replace\<close> asserts that the element it replaces is not null.\<close>

definition iter_replace :: "list_heap \<Rightarrow> base_list_iterator \<Rightarrow> ptr \<Rightarrow> (ptr \<times> list_heap) option" where
  "iter_replace h it element =
     (if ln_info (nodes h (it_current it)) \<noteq> NULL
      then Some (ln_info (nodes h (it_current it)), set_info h (it_current it) element) else None)"

definition iter_replace_list :: "list_heap \<Rightarrow> base_list_iterator \<Rightarrow> ptr \<Rightarrow> ptr \<times> list_heap" where
  "iter_replace_list h it new_list =
     (let c = it_current it; l = it_list it; ret_value = ln_info (nodes h c)
      in if \<not> is_empty h new_list
         then let h1 = store h (bl_last (objs h new_list)) (ln_next (nodes h c));
                  h2 = set_info h1 c (ln_info (nodes h1 (bl_first (objs h1 new_list))));
                  h3 = store h2 (Next c) (ln_next (nodes h2 (bl_first (objs h2 new_list))));
                  h4 = (if bl_last (objs h3 l) = Next c \<and> bl_elements (objs h3 new_list) > 1
                        then set_last h3 l (bl_last (objs h3 new_list)) else h3)
              in (ret_value, set_elements h4 l (bl_elements (objs h4 l) + (bl_elements (objs h4 new_list) - 1)))
         else (ret_value, h))"

text \<open>\<open>remove\<close> needs the cell the last \<open>next\<close> came from; before the first one it is null.\<close>

definition iter_remove :: "list_heap \<Rightarrow> base_list_iterator \<Rightarrow> (list_heap \<times> base_list_iterator) option" where
  "iter_remove h it =
     (case it_prev it of
        None \<Rightarrow> None
      | Some p \<Rightarrow> Some (list_remove h (it_list it) p, it\<lparr>it_el := p, it_current := NULL\<rparr>))"

definition iter_after :: "list_heap \<Rightarrow> base_list_iterator \<Rightarrow> ptr \<Rightarrow> ptr \<Rightarrow> list_heap \<times> base_list_iterator" where
  "iter_after h it n element =
     (let h1 = after h (it_list it) n element (it_current it);
          c = ln_next (nodes h1 (it_current it))
      in (h1, it\<lparr>it_current := c, it_el := Next c\<rparr>))"

definition iter_is_last :: "base_list_iterator \<Rightarrow> bool" where
  "iter_is_last it \<longleftrightarrow> it_el it = Next end_of_list"

definition iter_at_end :: "base_list_iterator \<Rightarrow> bool" where
  "iter_at_end it \<longleftrightarrow> it_current it = end_of_list"

definition iter_sublist :: "list_heap \<Rightarrow> base_list_iterator \<Rightarrow> ptr \<Rightarrow> uint32 \<Rightarrow> list_heap" where
  "iter_sublist h it ls elm =
     (let h1 = store h (First ls) (load h (it_el it));
          h2 = set_last h1 ls (bl_last (objs h1 (it_list it)))
      in set_elements h2 ls elm)"

section \<open>Algorithms over a list\<close>

partial_function (option) delete_loop :: "list_heap \<Rightarrow> ptr \<Rightarrow> ptr list \<Rightarrow> ptr list option" where
  "delete_loop h element deleted =
     (if element \<noteq> end_of_list
      then delete_loop h (ln_next (nodes h element)) (deleted @ [ln_info (nodes h element)])
      else Some deleted)"

text \<open>\<open>delete_elements\<close> returns the pointers it has deleted, in order, and the new heap.\<close>

definition delete_elements :: "list_heap \<Rightarrow> ptr \<Rightarrow> (ptr list \<times> list_heap) option" where
  "delete_elements h l =
     (case delete_loop h (bl_first (objs h l)) [] of
        None \<Rightarrow> None
      | Some deleted \<Rightarrow> Some (deleted, list_empty h l))"

partial_function (option) copy_replace_loop ::
    "(ptr \<Rightarrow> ptr) \<Rightarrow> list_heap \<Rightarrow> base_list_iterator \<Rightarrow> list_heap option" where
  "copy_replace_loop clone h it =
     (let (el, it') = iter_next h it
      in if el \<noteq> NULL
         then (case iter_replace h it' (clone el) of
                 None \<Rightarrow> None | Some (old, h1) \<Rightarrow> copy_replace_loop clone h1 it')
         else Some h)"

definition list_copy_and_replace_each_value :: "(ptr \<Rightarrow> ptr) \<Rightarrow> list_heap \<Rightarrow> ptr \<Rightarrow> list_heap option" where
  "list_copy_and_replace_each_value clone h l = copy_replace_loop clone h (iter_init l)"

text \<open>
  Bubble sort.  A reference \<open>T**\<close> to an element is the node whose \<open>info\<close> it points to, and 0 when
  it is null; \<open>sort_func\<close> is the caller's comparison with its third argument applied.
\<close>

partial_function (option) bubble_pass ::
    "(ptr \<Rightarrow> ptr \<Rightarrow> int) \<Rightarrow> ptr \<Rightarrow> list_heap \<Rightarrow> base_list_iterator \<Rightarrow> ptr \<Rightarrow> ptr \<Rightarrow> bool \<Rightarrow>
     (list_heap \<times> base_list_iterator \<times> ptr \<times> bool) option" where
  "bubble_pass sort_func last_ref h it ref1 item1 swap =
     (let (item2, it') = iter_next h it; ref2 = it_current it'
      in if item2 \<noteq> NULL \<and> ref2 \<noteq> last_ref
         then if sort_func item1 item2 > 0
              then bubble_pass sort_func last_ref (set_info (set_info h ref1 item2) ref2 item1) it' ref2 item1 True
              else bubble_pass sort_func last_ref h it' ref2 item2 swap
         else Some (h, it', ref1, swap))"

partial_function (option) bubble_loop ::
    "(ptr \<Rightarrow> ptr \<Rightarrow> int) \<Rightarrow> list_heap \<Rightarrow> base_list_iterator \<Rightarrow> ptr \<Rightarrow> list_heap option" where
  "bubble_loop sort_func h it ref1 =
     (let (item1, it1) = iter_next h it
      in case bubble_pass sort_func ref1 h it1 (it_current it1) item1 False of
           None \<Rightarrow> None
         | Some (h', it', ref1', swap) \<Rightarrow>
             if swap then bubble_loop sort_func h' (iter_rewind it') ref1' else Some h')"

definition bubble_sort :: "(ptr \<Rightarrow> ptr \<Rightarrow> int) \<Rightarrow> list_heap \<Rightarrow> ptr \<Rightarrow> list_heap option" where
  "bubble_sort sort_func h l = bubble_loop sort_func h (iter_init l) NULL"

section \<open>The iterator walks the list\<close>

definition iter_at :: "list_heap \<Rightarrow> base_list_iterator \<Rightarrow> ptr list \<Rightarrow> ptr list \<Rightarrow> bool" where
  "iter_at h it xs ys \<longleftrightarrow>
     is_list h (it_list it) (xs @ ys) \<and> nodes h end_of_list = end_node \<and> it_el it = tail_cell (it_list it) xs"

lemma iter_init_at: "is_list h l ns \<Longrightarrow> nodes h end_of_list = end_node \<Longrightarrow> iter_at h (iter_init l) [] ns"
  by (simp add: iter_at_def iter_init_def)

lemma iter_at_load: "iter_at h it xs ys \<Longrightarrow> load h (it_el it) = hd (ys @ [end_of_list])"
  unfolding iter_at_def is_list_def seg_append by (metis lseg_start seg_load_tail)

lemma iter_next_step:
  assumes "iter_at h it xs (n # ys)"
  shows "iter_next h it =
      (ln_info (nodes h n), \<lparr>it_list = it_list it, it_el = Next n, it_prev = Some (tail_cell (it_list it) xs), it_current = n\<rparr>)"
    "iter_at h (snd (iter_next h it)) (xs @ [n]) ys"
    "it_list (snd (iter_next h it)) = it_list it" "it_current (snd (iter_next h it)) = n"
proof -
  have l: "load h (it_el it) = n" using iter_at_load [OF assms] by simp
  show "iter_next h it =
      (ln_info (nodes h n), \<lparr>it_list = it_list it, it_el = Next n, it_prev = Some (tail_cell (it_list it) xs), it_current = n\<rparr>)"
    using assms unfolding iter_next_def l Let_def by (cases it) (simp add: iter_at_def)
  then show "iter_at h (snd (iter_next h it)) (xs @ [n]) ys"
    "it_list (snd (iter_next h it)) = it_list it" "it_current (snd (iter_next h it)) = n"
    using assms by (simp_all add: iter_at_def)
qed

lemma iter_next_end:
  assumes "iter_at h it xs []"
  shows "fst (iter_next h it) = NULL" "iter_is_last (snd (iter_next h it))" "iter_at_end (snd (iter_next h it))"
    "it_list (snd (iter_next h it)) = it_list it"
  using iter_at_load [OF assms] assms
  by (simp_all add: iter_next_def Let_def iter_is_last_def iter_at_end_def iter_at_def end_node_def)

text \<open>Heaps that differ only in the elements of the nodes in \<open>S\<close>.\<close>

definition same_links :: "ptr set \<Rightarrow> list_heap \<Rightarrow> list_heap \<Rightarrow> bool" where
  "same_links S h h' \<longleftrightarrow>
     objs h' = objs h \<and> (\<forall>n. ln_next (nodes h' n) = ln_next (nodes h n)) \<and> (\<forall>n. n \<notin> S \<longrightarrow> nodes h' n = nodes h n)"

lemma same_links_refl [simp]: "same_links S h h"
  by (simp add: same_links_def)

lemma same_links_trans: "same_links S h h' \<Longrightarrow> same_links T h' h'' \<Longrightarrow> same_links (S \<union> T) h h''"
  by (auto simp: same_links_def)

lemma same_links_mono: "same_links S h h' \<Longrightarrow> S \<subseteq> T \<Longrightarrow> same_links T h h'"
  by (auto simp: same_links_def)

lemma same_links_set_info: "n \<in> S \<Longrightarrow> same_links S h (set_info h n v)"
  by (auto simp: same_links_def set_info_def)

lemma same_links_is_list: "same_links S h h' \<Longrightarrow> is_list h' l ns = is_list h l ns"
  using lseg_cong [of ns "nodes h'" "nodes h"] by (simp add: same_links_def is_list_def seg_def)

lemma same_links_infos: "same_links S h h' \<Longrightarrow> set ns \<inter> S = {} \<Longrightarrow> infos h' ns = infos h ns"
  by (auto simp: same_links_def infos_def)

lemma same_links_iter_at:
  "same_links S h h' \<Longrightarrow> end_of_list \<notin> S \<Longrightarrow> iter_at h' it xs ys = iter_at h it xs ys"
  by (auto simp: iter_at_def same_links_is_list) (auto simp: same_links_def)

lemma set_info_access [simp]:
  "ln_info (nodes (set_info h n v) m) = (if m = n then v else ln_info (nodes h m))"
  by (simp add: set_info_def)

lemma infos_set_info: "n \<notin> set ns \<Longrightarrow> infos (set_info h n v) ns = infos h ns"
  by (auto simp: infos_def)

lemma iter_at_distinct: "iter_at h it xs ys \<Longrightarrow> distinct (xs @ ys) \<and> end_of_list \<notin> set (xs @ ys) \<and> NULL \<notin> set (xs @ ys)"
  by (auto simp: iter_at_def is_list_def ok_nodes_def)

lemma delete_loop_lseg:
  "lseg (nodes h) p ns end_of_list \<Longrightarrow> end_of_list \<notin> set ns \<Longrightarrow> delete_loop h p ds = Some (ds @ infos h ns)"
proof (induction ns arbitrary: p ds)
  case Nil then show ?case by (subst delete_loop.simps) simp
next
  case (Cons n ns) then show ?case by (subst delete_loop.simps) auto
qed

lemma copy_replace_loop_at:
  assumes "iter_at h it xs ys" "NULL \<notin> set (infos h ys)"
  shows "\<exists>h'. copy_replace_loop clone h it = Some h' \<and> same_links (set ys) h h' \<and> infos h' ys = map clone (infos h ys)"
  using assms
proof (induction ys arbitrary: h it xs)
  case Nil
  then have "fst (iter_next h it) = NULL" by (simp add: iter_next_end)
  then have "copy_replace_loop clone h it = Some h" by (subst copy_replace_loop.simps) (simp add: split_beta Let_def)
  then show ?case by simp
next
  case (Cons n ys)
  let ?it = "snd (iter_next h it)" and ?h = "set_info h n (clone (ln_info (nodes h n)))"
  note N = iter_next_step [OF Cons.prems(1)] and D = iter_at_distinct [OF Cons.prems(1)]
  have loop: "copy_replace_loop clone h it = copy_replace_loop clone ?h ?it"
    using Cons.prems(2) N(1) by (subst copy_replace_loop.simps) (simp add: iter_replace_def)
  have l: "same_links {n} h ?h" by (rule same_links_set_info) simp
  have "iter_at ?h ?it (xs @ [n]) ys" using N(2) same_links_iter_at [OF l] D by auto
  moreover have i: "infos ?h ys = infos h ys" using D by (intro infos_set_info) auto
  ultimately obtain h' where h': "copy_replace_loop clone ?h ?it = Some h'" "same_links (set ys) ?h h'"
    "infos h' ys = map clone (infos ?h ys)"
    using Cons.IH Cons.prems(2) by (metis infos_simps(2) list.set_intros(2))
  have "ln_info (nodes h' n) = clone (ln_info (nodes h n))"
    using h'(2) D by (auto simp: same_links_def)
  moreover have "same_links (set (n # ys)) h h'" using same_links_trans [OF l h'(2)] by simp
  ultimately show ?case using loop h' i by auto
qed

section \<open>Bubble sort\<close>

text \<open>A comparison function orders the elements: at most one of two directions is positive, and
  \<open>\<le> 0\<close> is transitive.\<close>

definition comparison :: "('a \<Rightarrow> 'a \<Rightarrow> int) \<Rightarrow> bool" where
  "comparison f \<longleftrightarrow> (\<forall>a b. f a b > 0 \<longrightarrow> f b a \<le> 0) \<and> (\<forall>a b c. f a b \<le> 0 \<longrightarrow> f b c \<le> 0 \<longrightarrow> f a c \<le> 0)"

text \<open>One pass on the sequence of elements, and whether it exchanged any.\<close>

primrec bub :: "('a \<Rightarrow> 'a \<Rightarrow> int) \<Rightarrow> 'a \<Rightarrow> 'a list \<Rightarrow> 'a list" where
  "bub f x [] = [x]"
| "bub f x (y # ys) = (if f x y > 0 then y # bub f x ys else x # bub f y ys)"

primrec swaps :: "('a \<Rightarrow> 'a \<Rightarrow> int) \<Rightarrow> 'a \<Rightarrow> 'a list \<Rightarrow> bool" where
  "swaps f x [] = False"
| "swaps f x (y # ys) = (f x y > 0 \<or> swaps f y ys)"

lemma bub_mset [simp]: "mset (bub f x ys) = add_mset x (mset ys)"
  by (induction ys arbitrary: x) auto

lemma bub_not_Nil [simp]: "bub f x ys \<noteq> []"
  by (cases ys) auto

lemma bub_set: "set (bub f x ys) = insert x (set ys)"
  using bub_mset [of f x ys] by (metis set_mset_mset set_mset_add_mset_insert)

lemma comparison_refl: "comparison f \<Longrightarrow> f a a \<le> 0"
  by (meson comparison_def not_le)

lemma comparisonD:
  assumes "comparison f"
  shows "f a b > 0 \<Longrightarrow> f b a \<le> 0" "f a b \<le> 0 \<Longrightarrow> f b c \<le> 0 \<Longrightarrow> f a c \<le> 0"
  using assms unfolding comparison_def by blast+

lemma bub_last: "comparison f \<Longrightarrow> z \<in> set (bub f x ys) \<Longrightarrow> f z (last (bub f x ys)) \<le> 0"
proof (induction ys arbitrary: x z)
  case Nil then show ?case by (simp add: comparison_refl)
next
  case (Cons y ys)
  have x: "f x (last (bub f x ys)) \<le> 0" and y: "f y (last (bub f y ys)) \<le> 0"
    using Cons.IH [OF Cons.prems(1)] by (simp_all add: bub_set)
  show ?case
  proof (cases "f x y > 0")
    case True
    then have "f y (last (bub f x ys)) \<le> 0" using comparisonD [OF Cons.prems(1)] x by blast
    then show ?thesis using True Cons by auto
  next
    case False
    then have "f x (last (bub f y ys)) \<le> 0" using comparisonD(2) [OF Cons.prems(1)] y by (meson not_le)
    then show ?thesis using False Cons by auto
  qed
qed

lemma no_swaps:
  "comparison f \<Longrightarrow> \<not> swaps f x ys \<Longrightarrow> bub f x ys = x # ys \<and> sorted_wrt (\<lambda>a b. f a b \<le> 0) (x # ys)"
proof (induction ys arbitrary: x)
  case (Cons y ys)
  then have "f x y \<le> 0" and IH: "bub f y ys = y # ys" "sorted_wrt (\<lambda>a b. f a b \<le> 0) (y # ys)" by auto
  then have "f x z \<le> 0" if "z \<in> set (y # ys)" for z
    using that comparisonD(2) [OF Cons.prems(1), of x y z] by auto
  moreover have "\<not> 0 < f x y" using \<open>f x y \<le> 0\<close> by simp
  ultimately show ?case using IH by simp
qed simp

lemma bubble_pass_at:
  assumes "iter_at h it (xs @ [n]) (ms @ rest)" "rest = [] \<or> hd rest = last_ref" "last_ref \<notin> set ms"
    "NULL \<notin> set (infos h ms)"
  shows "\<exists>h' it'. bubble_pass f last_ref h it n (ln_info (nodes h n)) sw =
             Some (h', it', last (n # ms), sw \<or> swaps f (ln_info (nodes h n)) (infos h ms)) \<and>
           same_links (set (n # ms)) h h' \<and> it_list it' = it_list it \<and>
           infos h' (n # ms) = bub f (ln_info (nodes h n)) (infos h ms)"
  using assms
proof (induction ms arbitrary: h it xs n sw)
  case Nil
  have stop: "fst (iter_next h it) = NULL \<or> it_current (snd (iter_next h it)) = last_ref"
    using Nil iter_next_end(1) [of h it] iter_next_step(4) [of h it "xs @ [n]" "hd rest" "tl rest"]
    by (cases rest) auto
  have "it_list (snd (iter_next h it)) = it_list it" by (simp add: iter_next_def Let_def)
  then show ?case using stop by (subst bubble_pass.simps) (auto simp: split_beta Let_def)
next
  case (Cons m ms)
  let ?it = "snd (iter_next h it)" and ?x = "ln_info (nodes h n)" and ?y = "ln_info (nodes h m)"
  note D = iter_at_distinct [OF Cons.prems(1)]
  have at: "iter_at h it (xs @ [n]) (m # (ms @ rest))" using Cons.prems(1) by simp
  note N = iter_next_step [OF at]
  define h1 where "h1 = (if f ?x ?y > 0 then set_info (set_info h n ?y) m ?x else h)"
  have pass: "bubble_pass f last_ref h it n ?x sw =
      bubble_pass f last_ref h1 ?it m (ln_info (nodes h1 m)) (sw \<or> f ?x ?y > 0)"
    using Cons.prems(3,4) N(1) by (subst bubble_pass.simps) (simp add: h1_def Let_def)
  have l: "same_links {n, m} h h1"
    using same_links_trans [OF same_links_set_info same_links_set_info, of n "{n}" m "{m}" h ?y ?x]
    by (auto simp: h1_def insert_commute)
  have at1: "iter_at h1 ?it ((xs @ [n]) @ [m]) (ms @ rest)" using N(2) same_links_iter_at [OF l] D by auto
  have i: "infos h1 ms = infos h ms" using D by (intro same_links_infos [OF l]) auto
  obtain h' it' where R: "bubble_pass f last_ref h1 ?it m (ln_info (nodes h1 m)) (sw \<or> f ?x ?y > 0) =
       Some (h', it', last (m # ms), (sw \<or> f ?x ?y > 0) \<or> swaps f (ln_info (nodes h1 m)) (infos h ms))"
    "same_links (set (m # ms)) h1 h'" "it_list it' = it_list ?it"
    "infos h' (m # ms) = bub f (ln_info (nodes h1 m)) (infos h ms)"
    using Cons.IH [OF at1 Cons.prems(2), where sw = "sw \<or> f ?x ?y > 0"] Cons.prems(3,4) unfolding i by auto
  have n: "ln_info (nodes h' n) = (if f ?x ?y > 0 then ?y else ?x)"
    using R(2) D by (auto simp: same_links_def h1_def)
  have l': "same_links (set (n # m # ms)) h h'" using same_links_trans [OF l R(2)] by (auto elim: same_links_mono)
  have m1: "ln_info (nodes h1 m) = (if f ?x ?y > 0 then ?x else ?y)" by (simp add: h1_def)
  show ?case
    using pass R n l' N(3) m1 by (cases "f ?x ?y > 0") (auto)
qed

lemma bubble_loop_at:
  assumes "comparison f" "iter_at h it [] (P @ R)" "P \<noteq> []" "R = [] \<or> hd R = ref1" "ref1 \<notin> set P"
    "NULL \<notin> set (infos h P)" "sorted_wrt (\<lambda>a b. f a b \<le> 0) (infos h R)"
    "\<And>a b. a \<in> set (infos h P) \<Longrightarrow> b \<in> set (infos h R) \<Longrightarrow> f a b \<le> 0"
  shows "\<exists>h'. bubble_loop f h it ref1 = Some h' \<and> same_links (set P) h h' \<and>
           mset (infos h' (P @ R)) = mset (infos h (P @ R)) \<and> sorted_wrt (\<lambda>a b. f a b \<le> 0) (infos h' (P @ R))"
  using assms(2-)
proof (induction "length P" arbitrary: P h it ref1 R rule: less_induct)
  case less
  let ?le = "\<lambda>a b. f a b \<le> 0"
  obtain n ms where P: "P = n # ms" using less.prems(2) by (cases P) auto
  let ?x = "ln_info (nodes h n)" and ?ys = "infos h ms" and ?it = "snd (iter_next h it)"
  have "iter_at h it [] (n # (ms @ R))" using less.prems(1) P by simp
  note N = iter_next_step [OF this] and D = iter_at_distinct [OF less.prems(1)]
  obtain h1 it1 where pass: "bubble_pass f ref1 h ?it n ?x False = Some (h1, it1, last P, swaps f ?x ?ys)"
    "same_links (set P) h h1" "it_list it1 = it_list ?it" "infos h1 P = bub f ?x ?ys"
    using bubble_pass_at [of h ?it "[]" n ms R ref1 f False] N(2) less.prems(3,4,5) P by auto
  have loop: "bubble_loop f h it ref1 =
      (if swaps f ?x ?ys then bubble_loop f h1 (iter_rewind it1) (last P) else Some h1)"
    using N(1) pass(1) by (subst bubble_loop.simps) simp
  have R: "infos h1 R = infos h R" using D by (intro same_links_infos [OF pass(2)]) auto
  have ms: "mset (infos h1 P) = mset (infos h P)" using pass(4) P by simp
  have set1: "set (infos h1 P) = set (infos h P)" using ms by (metis set_mset_mset)
  show ?case
  proof (cases "swaps f ?x ?ys")
    case False
    then have "sorted_wrt ?le (infos h1 P)" using no_swaps [OF assms(1)] pass(4) by metis
    then have "sorted_wrt ?le (infos h1 (P @ R))"
      using less.prems(6,7) set1 by (simp add: R sorted_wrt_append)
    then show ?thesis using loop False pass(2) ms R by auto
  next
    case True
    then have "ms \<noteq> []" by auto
    then obtain P' z where Q: "P = P' @ [z]" "P' \<noteq> []" using P by (cases ms rule: rev_cases) auto
    have last: "bub f ?x ?ys = infos h1 P' @ [ln_info (nodes h1 z)]" using pass(4) Q(1) by simp
    have below: "f a (ln_info (nodes h1 z)) \<le> 0" if "a \<in> set (infos h1 P)" for a
      using bub_last [OF assms(1), of a ?x ?ys] that pass(4) last by simp
    have below2: "f a b \<le> 0" if "a \<in> set (infos h1 P)" "b \<in> set (infos h R)" for a b
      using less.prems(7) that set1 by simp
    have "iter_at h1 (iter_rewind it1) [] (P' @ z # R)"
      using less.prems(1) same_links_is_list [OF pass(2)] pass(2,3) N(3) D Q
      by (auto simp: iter_at_def iter_rewind_def same_links_def)
    note at = this
    obtain h2 where h2: "bubble_loop f h1 (iter_rewind it1) z = Some h2" "same_links (set P') h1 h2"
      "mset (infos h2 (P' @ z # R)) = mset (infos h1 (P' @ z # R))" "sorted_wrt ?le (infos h2 (P' @ z # R))"
    proof -
      have "length P' < length P" "z \<notin> set P'" using Q D by auto
      moreover have "NULL \<notin> set (infos h1 P')"
        using less.prems(5) set1 unfolding Q(1) by (metis UnCI infos_simps(3) set_append)
      moreover have "sorted_wrt ?le (infos h1 (z # R))" using less.prems(6) R below2 Q by simp
      moreover have "f a b \<le> 0" if "a \<in> set (infos h1 P')" "b \<in> set (infos h1 (z # R))" for a b
        using that below [of a] below2 [of a b] Q R by auto
      ultimately show thesis
        using less.hyps [of P' h1 "iter_rewind it1" "z # R" z] that Q(2) at by fastforce
    qed
    have "same_links (set P) h h2" using same_links_trans [OF pass(2) h2(2)] Q by (auto elim: same_links_mono)
    moreover have "mset (infos h2 (P @ R)) = mset (infos h (P @ R))" using h2(3) ms Q R by simp
    ultimately show ?thesis using loop True h2(1,4) Q by simp
  qed
qed

lemma bubble_sort_empty:
  assumes "is_list h l []" "nodes h end_of_list = end_node"
  shows "bubble_sort f h l = Some h"
proof -
  have "bl_first (objs h l) = end_of_list" using assms by (simp add: is_list_def seg_def)
  then show ?thesis using assms(2) unfolding bubble_sort_def
    by (subst bubble_loop.simps, subst bubble_pass.simps) (simp add: iter_next_def iter_init_def Let_def end_node_def)
qed

section \<open>Properties of iteration and sorting\<close>

lemma drain_at_end:
  assumes "nodes h end_of_list = end_node" "load h (it_el it) = end_of_list"
  shows "fst (drain (iter_next h) k it) = replicate k NULL"
  using assms(2)
proof (induction k arbitrary: it)
  case (Suc k)
  obtain it' where it': "iter_next h it = (NULL, it')" "load h (it_el it') = end_of_list"
    using assms(1) Suc.prems by (simp add: iter_next_def Let_def end_node_def)
  then show ?case using Suc.IH [OF it'(2)] by (simp add: split_beta)
qed simp

lemma drain_iter_at:
  "iter_at h it xs ys \<Longrightarrow> fst (drain (iter_next h) (length ys + k) it) = infos h ys @ replicate k NULL"
proof (induction ys arbitrary: it xs)
  case Nil
  then show ?case using drain_at_end [of h it k] iter_at_load [OF Nil] by (simp add: iter_at_def)
next
  case (Cons y ys)
  from Cons.IH [OF iter_next_step(2) [OF Cons.prems]] show ?case
    using iter_next_step(1) [OF Cons.prems] by (simp add: split_beta)
qed

text \<open>
  C38: bubble sort of a well-formed list with non-null elements returns, keeps every node in
  place, and leaves a permutation of the elements that is sorted by the comparison function.
\<close>

theorem bubble_sort_correct:
  assumes "comparison f" "is_list h l ns" "nodes h end_of_list = end_node" "NULL \<notin> set (infos h ns)"
  shows "\<exists>h'. bubble_sort f h l = Some h' \<and> is_list h' l ns \<and>
           mset (infos h' ns) = mset (infos h ns) \<and> sorted_wrt (\<lambda>a b. f a b \<le> 0) (infos h' ns)"
proof (cases "ns = []")
  case True
  then show ?thesis using bubble_sort_empty [of h l f] assms(2,3) by auto
next
  case False
  note at = iter_init_at [OF assms(2,3)]
  have "NULL \<notin> set ns" using iter_at_distinct [OF at] by simp
  then have "\<exists>h'. bubble_sort f h l = Some h' \<and> same_links (set ns) h h' \<and>
      mset (infos h' ns) = mset (infos h ns) \<and> sorted_wrt (\<lambda>a b. f a b \<le> 0) (infos h' ns)"
    using bubble_loop_at [OF assms(1), of h "iter_init l" ns "[]" NULL] at False assms(4)
    by (simp add: bubble_sort_def)
  then show ?thesis using assms(2) same_links_is_list [of "set ns" h] by blast
qed

definition diff_cmp :: "ptr \<Rightarrow> ptr \<Rightarrow> int" where
  "diff_cmp a b = int a - int b"

lemma sample_heap_end: "nodes sample_heap end_of_list = end_node"
  by (simp add: sample_heap_def end_of_list_def)

lemma sample_heap_infos: "infos sample_heap [2, 3] = [20, 30]"
  by (simp add: sample_heap_def)

theorem bubble_sort_correct_witness:
  "\<exists>h'. bubble_sort (\<lambda>a b. diff_cmp b a) sample_heap 0 = Some h' \<and> mset (infos h' [2, 3]) = {#20, 30#} \<and>
        sorted_wrt (\<lambda>a b. b \<le> a) (infos h' [2, 3])"
proof -
  have "comparison (\<lambda>a b. diff_cmp b a)" by (auto simp: comparison_def diff_cmp_def)
  from bubble_sort_correct [OF this sample_heap_lists(1) sample_heap_end] show ?thesis
    unfolding sample_heap_infos by (auto simp: diff_cmp_def)
qed

text \<open>
  an iterator returns the elements of the list in order and null ever after;
  replacing each value by a clone and deleting all elements terminate, visit each element
  once in order, and keep the list well-formed.
\<close>

theorem list_traversals:
  assumes "is_list h l ns" "nodes h end_of_list = end_node" "NULL \<notin> set (infos h ns)"
  shows "fst (drain (iter_next h) (length ns + k) (iter_init l)) = infos h ns @ replicate k NULL \<and>
         (\<exists>h'. list_copy_and_replace_each_value clone h l = Some h' \<and> is_list h' l ns \<and>
               infos h' ns = map clone (infos h ns)) \<and>
         (\<exists>h'. delete_elements h l = Some (infos h ns, h') \<and> is_list h' l [])"
proof (intro conjI)
  note at = iter_init_at [OF assms(1,2)]
  show "fst (drain (iter_next h) (length ns + k) (iter_init l)) = infos h ns @ replicate k NULL"
    by (rule drain_iter_at [OF at])
  show "\<exists>h'. list_copy_and_replace_each_value clone h l = Some h' \<and> is_list h' l ns \<and>
               infos h' ns = map clone (infos h ns)"
    using copy_replace_loop_at [OF at assms(3), of clone] same_links_is_list assms(1)
    unfolding list_copy_and_replace_each_value_def by metis
  show "\<exists>h'. delete_elements h l = Some (infos h ns, h') \<and> is_list h' l []"
    using delete_loop_lseg [of h "bl_first (objs h l)" ns "[]"] is_list_cut(1,3) [OF assms(1)]
    by (simp add: delete_elements_def seg_def list_empty_is_list ok_nodes_def)
qed

theorem list_traversals_witness:
  "fst (drain (iter_next sample_heap) (length [2, 3 :: ptr] + 1) (iter_init 0)) = [20, 30, 0] \<and>
   (\<exists>h'. delete_elements sample_heap 0 = Some ([20, 30], h') \<and> is_list h' 0 [])"
  using list_traversals [OF sample_heap_lists(1) sample_heap_end, of 1] unfolding sample_heap_infos by simp

text \<open>
  in the middle of an iteration, removing the current node, inserting after it and
  replacing its element act on the list at the iterator's place, and the iterator goes on with
  the node that followed; replacing fails an assertion where the element is null.
\<close>

theorem iterator_edits:
  assumes "iter_at h it xs (n # ys)" "ok_nodes (xs @ n # m # ys)"
  shows "let it' = snd (iter_next h it); l = it_list it in
    (\<exists>h1 it1. iter_remove h it' = Some (h1, it1) \<and> iter_at h1 it1 xs ys \<and> infos h1 (xs @ ys) = infos h (xs @ ys)) \<and>
    iter_at (fst (iter_after h it' m v)) (snd (iter_after h it' m v)) (xs @ [n, m]) ys \<and>
    iter_replace h it' v = (if ln_info (nodes h n) = NULL then None else Some (ln_info (nodes h n), set_info h n v)) \<and>
    iter_at (set_info h n v) it' (xs @ [n]) ys"
proof -
  note N = iter_next_step [OF assms(1)]
  have L: "is_list h (it_list it) (xs @ n # ys)" "nodes h end_of_list = end_node" using assms(1) by (simp_all add: iter_at_def)
  have D: "end_of_list \<notin> set (xs @ n # m # ys)" using assms(2) by (simp add: ok_nodes_def)
  have s: "same_links {n} h (set_info h n v)" by (rule same_links_set_info) simp
  have r: "nodes (list_remove h (it_list it) (tail_cell (it_list it) xs)) end_of_list = end_node"
    using L(2) D by (cases xs rule: rev_cases) (auto simp: list_remove_def Let_def)
  have a: "nodes (after h (it_list it) m v n) end_of_list = end_node"
    "ln_next (nodes (after h (it_list it) m v n) n) = m"
    using L(2) D by (auto simp: after_def Let_def)
  have "is_list (set_info h n v) (it_list it) (xs @ n # ys)" "nodes (set_info h n v) end_of_list = end_node"
    using L same_links_is_list [OF s] s D by (auto simp: same_links_def)
  then show ?thesis
    using list_remove_is_list [OF L(1)] after_is_list(1) [OF L(1) assms(2), of v] r a N
    by (simp add: Let_def iter_remove_def iter_after_def iter_replace_def iter_at_def)
qed

theorem iterator_edits_witness:
  "\<exists>h1 it1. iter_remove sample_heap (snd (iter_next sample_heap (iter_init 0))) = Some (h1, it1) \<and> iter_at h1 it1 [] [3]"
proof -
  have "iter_at sample_heap (iter_init 0) [] (2 # [3])"
    using iter_init_at [OF sample_heap_lists(1) sample_heap_end] .
  from iterator_edits [OF this, of 5 50] show ?thesis by (auto simp: end_of_list_def Let_def)
qed

end
