(* ===== verification/IntrusiveLists.thy ===== *)
theory IntrusiveLists
  imports BaseList
begin

text \<open>
  The intrusive lists of \<^verbatim>\<open>sql_list.h\<close>.  \<open>SQL_I_List\<close> is singly linked and keeps, like
  \<open>base_list\<close>, the address of the pointer to overwrite when appending; its members are those of
  \<open>base_list\<close> under other names (\<open>next\<close> is \<open>bl_last\<close>), and its chains end in the null pointer, so
  the heap of \<^verbatim>\<open>BaseList\<close> is reused.  \<open>base_ilist\<close> is doubly linked, with the link of
  the list object itself as end marker, and has a heap of its own.
\<close>

section \<open>The list \<open>SQL_I_List\<close>\<close>

definition sil_empty :: "list_heap \<Rightarrow> ptr \<Rightarrow> list_heap" where
  "sil_empty h l = set_last (store (set_elements h l 0) (First l) NULL) l (First l)"

definition sil_copy :: "list_heap \<Rightarrow> ptr \<Rightarrow> ptr \<Rightarrow> list_heap" where
  "sil_copy h l tmp =
     (let h1 = set_elements h l (bl_elements (objs h tmp));
          h2 = store h1 (First l) (bl_first (objs h1 tmp))
      in set_last h2 l (if bl_elements (objs h2 l) \<noteq> 0 then bl_last (objs h2 tmp) else First l))"

definition link_in_list :: "list_heap \<Rightarrow> ptr \<Rightarrow> ptr \<Rightarrow> cell \<Rightarrow> list_heap" where
  "link_in_list h l element next_ptr =
     (let h1 = set_elements h l (bl_elements (objs h l) + 1);
          h2 = store h1 (bl_last (objs h1 l)) element;
          h3 = set_last h2 l next_ptr
      in store h3 (bl_last (objs h3 l)) NULL)"

text \<open>\<open>*save= *this\<close> is the implicit member-wise assignment.\<close>

definition save_and_clear :: "list_heap \<Rightarrow> ptr \<Rightarrow> ptr \<Rightarrow> list_heap" where
  "save_and_clear h l save = sil_empty (h\<lparr>objs := (objs h)(save := objs h l)\<rparr>) l"

definition sil_push_front :: "list_heap \<Rightarrow> ptr \<Rightarrow> ptr \<Rightarrow> list_heap" where
  "sil_push_front h l save =
     (let h1 = store h (bl_last (objs h save)) (bl_first (objs h l));
          h2 = store h1 (First l) (bl_first (objs h1 save))
      in set_elements h2 l (bl_elements (objs h2 l) + bl_elements (objs h2 save)))"

definition sil_push_back :: "list_heap \<Rightarrow> ptr \<Rightarrow> ptr \<Rightarrow> list_heap" where
  "sil_push_back h l save =
     (if bl_first (objs h save) \<noteq> NULL
      then let h1 = store h (bl_last (objs h l)) (bl_first (objs h save));
               h2 = set_last h1 l (bl_last (objs h1 save))
           in set_elements h2 l (bl_elements (objs h2 l) + bl_elements (objs h2 save))
      else h)"

section \<open>The doubly linked list \<open>base_ilist\<close>\<close>

text \<open>
  A link is an element or the end marker of a list object; the cells a \<open>prev\<close> pointer can refer
  to are the \<open>first\<close> members of list objects and the \<open>next\<close> members of links.
\<close>

datatype iaddr = Null | Elem ptr | Last ptr

datatype icell = IFirst ptr | INext iaddr

record ilink =
  il_prev :: "icell option"
  il_next :: iaddr

record ilist_heap =
  links :: "iaddr \<Rightarrow> ilink"
  firsts :: "ptr \<Rightarrow> iaddr"

fun iload :: "ilist_heap \<Rightarrow> icell \<Rightarrow> iaddr" where
  "iload h (IFirst l) = firsts h l"
| "iload h (INext a) = il_next (links h a)"

fun istore :: "ilist_heap \<Rightarrow> icell \<Rightarrow> iaddr \<Rightarrow> ilist_heap" where
  "istore h (IFirst l) v = h\<lparr>firsts := (firsts h)(l := v)\<rparr>"
| "istore h (INext a) v = h\<lparr>links := (links h)(a := (links h a)\<lparr>il_next := v\<rparr>)\<rparr>"

definition set_prev :: "ilist_heap \<Rightarrow> iaddr \<Rightarrow> icell option \<Rightarrow> ilist_heap" where
  "set_prev h a p = h\<lparr>links := (links h)(a := (links h a)\<lparr>il_prev := p\<rparr>)\<rparr>"

definition new_ilink :: ilink where
  "new_ilink = \<lparr>il_prev = None, il_next = Null\<rparr>"

definition unlink :: "ilist_heap \<Rightarrow> iaddr \<Rightarrow> ilist_heap" where
  "unlink h a =
     (let h1 = (case il_prev (links h a) of None \<Rightarrow> h | Some p \<Rightarrow> istore h p (il_next (links h a)));
          h2 = (if il_next (links h1 a) \<noteq> Null
                then set_prev h1 (il_next (links h1 a)) (il_prev (links h1 a)) else h1)
      in istore (set_prev h2 a None) (INext a) Null)"

definition ilist_empty :: "ilist_heap \<Rightarrow> ptr \<Rightarrow> ilist_heap" where
  "ilist_empty h l = set_prev (istore h (IFirst l) (Last l)) (Last l) (Some (IFirst l))"

definition ilist_is_empty :: "ilist_heap \<Rightarrow> ptr \<Rightarrow> bool" where
  "ilist_is_empty h l \<longleftrightarrow> firsts h l = Last l"

definition ilist_is_last :: "ilist_heap \<Rightarrow> ptr \<Rightarrow> iaddr \<Rightarrow> bool" where
  "ilist_is_last h l p \<longleftrightarrow> il_next (links h p) = Null \<or> il_next (links h p) = Last l"

definition ilist_append :: "ilist_heap \<Rightarrow> ptr \<Rightarrow> iaddr \<Rightarrow> ilist_heap" where
  "ilist_append h l a =
     (let h1 = set_prev h (firsts h l) (Some (INext a));
          h2 = istore h1 (INext a) (firsts h1 l);
          h3 = set_prev h2 a (Some (IFirst l))
      in istore h3 (IFirst l) a)"

text \<open>\<open>last.prev\<close> is dereferenced without a test: \<open>empty\<close> has set it in every list object.\<close>

definition ilist_push_back :: "ilist_heap \<Rightarrow> ptr \<Rightarrow> iaddr \<Rightarrow> ilist_heap option" where
  "ilist_push_back h l a =
     (case il_prev (links h (Last l)) of
        None \<Rightarrow> None
      | Some p \<Rightarrow>
          (let h1 = istore h p a;
               h2 = istore h1 (INext a) (Last l);
               h3 = set_prev h2 a (il_prev (links h2 (Last l)))
           in Some (set_prev h3 (Last l) (Some (INext a)))))"

definition ilist_get :: "ilist_heap \<Rightarrow> ptr \<Rightarrow> iaddr \<times> ilist_heap" where
  "ilist_get h l =
     (if firsts h l = Last l then (Null, h) else (firsts h l, unlink h (firsts h l)))"

definition ilist_head :: "ilist_heap \<Rightarrow> ptr \<Rightarrow> iaddr" where
  "ilist_head h l = (if firsts h l \<noteq> Last l then firsts h l else Null)"

definition move_elements_to :: "ilist_heap \<Rightarrow> ptr \<Rightarrow> ptr \<Rightarrow> ilist_heap" where
  "move_elements_to h l new_owner =
     (let h1 = istore h (IFirst new_owner) (firsts h l);
          h2 = h1\<lparr>links := (links h1)(Last new_owner := links h1 (Last l))\<rparr>
      in ilist_empty h2 l)"

record base_ilist_iterator =
  ii_list :: ptr
  ii_el :: icell
  ii_current :: iaddr

definition ilist_iter_init :: "ptr \<Rightarrow> base_ilist_iterator" where
  "ilist_iter_init list_par = \<lparr>ii_list = list_par, ii_el = IFirst list_par, ii_current = Null\<rparr>"

definition ilist_iter_next :: "ilist_heap \<Rightarrow> base_ilist_iterator \<Rightarrow> iaddr \<times> base_ilist_iterator" where
  "ilist_iter_next h it =
     (let c = iload h (ii_el it)
      in if c = Last (ii_list it) then (Null, it\<lparr>ii_current := c\<rparr>)
         else (c, it\<lparr>ii_current := c, ii_el := INext c\<rparr>))"

section \<open>Correctness of \<open>SQL_I_List\<close>\<close>

definition is_sil :: "list_heap \<Rightarrow> ptr \<Rightarrow> ptr list \<Rightarrow> bool" where
  "is_sil h l ns \<longleftrightarrow>
     seg h l ns NULL \<and> distinct ns \<and> NULL \<notin> set ns \<and>
     bl_last (objs h l) = tail_cell l ns \<and> bl_elements (objs h l) = of_nat (length ns)"

lemma sil_empty_is_sil: "is_sil (sil_empty h l) l []"
  by (simp add: is_sil_def sil_empty_def seg_def)

lemma link_in_list_is_sil:
  assumes "is_sil h l ns" "e \<noteq> NULL" "e \<notin> set ns"
  shows "is_sil (link_in_list h l e (Next e)) l (ns @ [e])"
proof -
  have "seg (store h (tail_cell l ns) e) l ns e"
    by (rule seg_store_tail [where q = NULL]) (use assms in \<open>simp_all add: is_sil_def\<close>)
  then have "seg (store (store h (tail_cell l ns) e) (Next e) NULL) l (ns @ [e]) NULL"
    using assms(3) by (auto simp: seg_def lseg_append lseg_upd)
  then show ?thesis using assms by (auto simp: is_sil_def link_in_list_def Let_def seg_def)
qed

lemma sil_push_back_is_sil:
  assumes "is_sil h l ns" "is_sil h s ms" "set ns \<inter> set ms = {}" "l \<noteq> s"
  shows "is_sil (sil_push_back h l s) l (ns @ ms)"
proof (cases "ms = []")
  case True
  then show ?thesis using assms by (simp add: is_sil_def sil_push_back_def seg_def)
next
  case False
  have f: "bl_first (objs h s) = hd ms" "lseg (nodes h) (bl_first (objs h s)) ms NULL"
    using assms(2) False by (cases ms; auto simp: is_sil_def seg_def)+
  then have nn: "0 < bl_first (objs h s)" using False assms(2) by (cases ms) (auto simp: is_sil_def)
  have "seg (store h (tail_cell l ns) (bl_first (objs h s))) l ns (bl_first (objs h s))"
    by (rule seg_store_tail [where q = NULL]) (use assms in \<open>simp_all add: is_sil_def\<close>)
  then have "seg (store h (tail_cell l ns) (bl_first (objs h s))) l (ns @ ms) NULL"
    using f(2) lseg_store_tail [OF assms(3)] unfolding seg_append by blast
  then show ?thesis using assms False nn by (auto simp: is_sil_def sil_push_back_def Let_def)
qed

lemma sil_push_front_is_sil:
  assumes "is_sil h l ns" "is_sil h s ms" "set ms \<inter> set ns = {}" "l \<noteq> s"
  shows "seg (sil_push_front h l s) l (ms @ ns) NULL"
    "bl_elements (objs (sil_push_front h l s) l) = of_nat (length (ms @ ns))"
    "bl_last (objs (sil_push_front h l s) l) = tail_cell l ns"
proof -
  let ?h = "store h (tail_cell s ms) (bl_first (objs h l))"
  have "seg ?h s ms (bl_first (objs h l))"
    by (rule seg_store_tail [where q = NULL]) (use assms in \<open>simp_all add: is_sil_def\<close>)
  moreover have "lseg (nodes ?h) (bl_first (objs h l)) ns NULL"
    using assms(1,3) by (simp add: is_sil_def seg_def lseg_store_tail)
  ultimately have "lseg (nodes ?h) (bl_first (objs ?h s)) (ms @ ns) NULL"
    unfolding seg_def lseg_append by blast
  then show "seg (sil_push_front h l s) l (ms @ ns) NULL"
    using assms(2,4) by (simp add: sil_push_front_def Let_def seg_def is_sil_def)
qed (use assms in \<open>simp_all add: sil_push_front_def Let_def is_sil_def add.commute\<close>)

lemma save_and_clear_is_sil:
  assumes "is_sil h l ns" "ns \<noteq> []" "l \<noteq> s"
  shows "is_sil (save_and_clear h l s) l []" "is_sil (save_and_clear h l s) s ns"
  using assms sil_empty_is_sil by (auto simp: save_and_clear_def is_sil_def sil_empty_def seg_def)

text \<open>
  linking an element into an \<open>SQL_I_List\<close> appends it; after \<open>save_and_clear\<close> of a non-empty
  list, \<open>push_back\<close> of the saved list restores it, and \<open>push_front\<close> of the saved list onto a
  non-empty list puts the saved elements first.
\<close>

theorem sql_i_list_operations:
  assumes "is_sil h l ns" "ns \<noteq> []" "l \<noteq> s" "e \<noteq> NULL" "e \<notin> set ns"
  shows "is_sil (link_in_list h l e (Next e)) l (ns @ [e]) \<and>
         is_sil (sil_push_back (save_and_clear h l s) l s) l ns \<and>
         is_sil (sil_push_front (link_in_list (save_and_clear h l s) l e (Next e)) l s) l (ns @ [e])"
proof (intro conjI)
  note S = save_and_clear_is_sil [OF assms(1-3)]
  show "is_sil (link_in_list h l e (Next e)) l (ns @ [e])" by (rule link_in_list_is_sil [OF assms(1,4,5)])
  show "is_sil (sil_push_back (save_and_clear h l s) l s) l ns"
    using sil_push_back_is_sil [OF S] assms(3) by simp
  let ?g = "link_in_list (save_and_clear h l s) l e (Next e)"
  have E: "is_sil ?g l [e]" using link_in_list_is_sil [OF S(1) assms(4)] by simp
  have "bl_last (objs (save_and_clear h l s) l) = First l" using S(1) by (simp add: is_sil_def)
  then have "objs ?g s = objs (save_and_clear h l s) s" "\<And>n. n \<noteq> e \<Longrightarrow> nodes ?g n = nodes (save_and_clear h l s) n"
    using assms(3) by (simp_all add: link_in_list_def Let_def)
  moreover have "lseg (nodes ?g) p ns q = lseg (nodes (save_and_clear h l s)) p ns q" for p q
    using calculation(2) assms(5) by (intro lseg_cong) metis
  ultimately have "is_sil ?g s ns" using S(2) by (simp add: is_sil_def seg_def)
  from sil_push_front_is_sil [OF E this] show "is_sil (sil_push_front ?g l s) l (ns @ [e])"
    using assms by (auto simp: is_sil_def)
qed

text \<open>Object 0 holds the single element 2; every other object is empty.\<close>

definition sample_sil :: list_heap where
  "sample_sil = \<lparr>nodes = (\<lambda>n. \<lparr>ln_next = NULL, ln_info = NULL\<rparr>),
     objs = (\<lambda>l. if l = 0 then \<lparr>bl_first = 2, bl_last = Next 2, bl_elements = 1\<rparr>
                 else \<lparr>bl_first = NULL, bl_last = First l, bl_elements = 0\<rparr>)\<rparr>"

lemma sample_sil_lists: "is_sil sample_sil 0 [2]" "is_sil sample_sil 1 []"
  by (simp_all add: sample_sil_def is_sil_def seg_def)

theorem sql_i_list_operations_witness:
  "is_sil (sil_push_front (link_in_list (save_and_clear sample_sil 0 7) 0 3 (Next 3)) 0 7) 0 [2, 3]"
  using sql_i_list_operations [OF sample_sil_lists(1), of 7 3] by simp

text \<open>
  \<open>push_front\<close> onto an empty \<open>SQL_I_List\<close> leaves \<open>next\<close> pointing at \<open>first\<close>: the next element
  linked in replaces the whole list.  Saving an empty list and pushing the saved list to the
  front later drops the current elements, while \<open>elements\<close> still counts them.
\<close>

theorem sql_i_list_push_front_loses:
  assumes "is_sil h l []" "is_sil h s ms" "l \<noteq> s" "e \<noteq> NULL" "e \<notin> set ms"
  shows "seg (sil_push_front h l s) l ms NULL \<and> bl_last (objs (sil_push_front h l s) l) = First l \<and>
         seg (link_in_list (sil_push_front h l s) l e (Next e)) l [e] NULL \<and>
         bl_elements (objs (link_in_list (sil_push_front h l s) l e (Next e)) l) = of_nat (length ms + 1) \<and>
         (let g = sil_push_front (link_in_list (save_and_clear h l s) l e (Next e)) l s
          in seg g l [] NULL \<and> bl_elements (objs g l) = 1)"
proof (intro conjI)
  note F = sil_push_front_is_sil [OF assms(1,2) _ assms(3)]
  show "seg (sil_push_front h l s) l ms NULL" "bl_last (objs (sil_push_front h l s) l) = First l"
    using F by simp_all
  then show "seg (link_in_list (sil_push_front h l s) l e (Next e)) l [e] NULL"
    "bl_elements (objs (link_in_list (sil_push_front h l s) l e (Next e)) l) = of_nat (length ms + 1)"
    using F(2) by (simp_all add: link_in_list_def Let_def seg_def)
  have "bl_last (objs h l) = First l" "bl_elements (objs h l) = 0" "bl_first (objs h l) = NULL"
    using assms(1) by (simp_all add: is_sil_def seg_def)
  then show "let g = sil_push_front (link_in_list (save_and_clear h l s) l e (Next e)) l s
          in seg g l [] NULL \<and> bl_elements (objs g l) = 1"
    using assms(3) by (simp add: save_and_clear_def sil_empty_def link_in_list_def sil_push_front_def Let_def seg_def)
qed

theorem sql_i_list_push_front_loses_witness:
  "seg (link_in_list (sil_push_front sample_sil 1 0) 1 5 (Next 5)) 1 [5] NULL"
  using sql_i_list_push_front_loses [OF sample_sil_lists(2,1), of 5] by simp

section \<open>Correctness of \<open>base_ilist\<close>\<close>

primrec dseg :: "ilist_heap \<Rightarrow> icell \<Rightarrow> ptr list \<Rightarrow> ptr \<Rightarrow> bool" where
  "dseg h c [] l \<longleftrightarrow> iload h c = Last l \<and> il_prev (links h (Last l)) = Some c"
| "dseg h c (x # xs) l \<longleftrightarrow>
     iload h c = Elem x \<and> il_prev (links h (Elem x)) = Some c \<and> dseg h (INext (Elem x)) xs l"

definition is_ilist :: "ilist_heap \<Rightarrow> ptr \<Rightarrow> ptr list \<Rightarrow> bool" where
  "is_ilist h l xs \<longleftrightarrow> dseg h (IFirst l) xs l \<and> distinct xs"

definition end_cell :: "icell \<Rightarrow> ptr list \<Rightarrow> icell" where
  "end_cell c xs = (if xs = [] then c else INext (Elem (last xs)))"

lemma end_cell_simps [simp]:
  "end_cell c [] = c" "end_cell c (x # xs) = end_cell (INext (Elem x)) xs" "end_cell c (xs @ [x]) = INext (Elem x)"
  by (simp_all add: end_cell_def)

lemma ilist_access [simp]:
  "links (istore h (IFirst l) v) = links h" "firsts (istore h (INext a) v) = firsts h"
  "firsts (istore h (IFirst l) v) = (firsts h)(l := v)" "firsts (set_prev h a p) = firsts h"
  "firsts (istore h c v) l = (if c = IFirst l then v else firsts h l)"
  "il_prev (links (istore h c v) a) = il_prev (links h a)"
  "il_next (links (istore h c v) a) = (if c = INext a then v else il_next (links h a))"
  "iload (istore h c v) d = (if c = d then v else iload h d)"
  "il_prev (links (set_prev h a p) b) = (if a = b then p else il_prev (links h b))"
  "il_next (links (set_prev h a p) b) = il_next (links h b)"
  "iload (set_prev h a p) c = iload h c"
  by (simp_all add: set_prev_def split: if_splits) ((cases c; cases d; simp) | (cases c; simp))+

declare istore.simps [simp del]

primrec dpath :: "ilist_heap \<Rightarrow> icell \<Rightarrow> ptr list \<Rightarrow> bool" where
  "dpath h c [] \<longleftrightarrow> True"
| "dpath h c (x # xs) \<longleftrightarrow> iload h c = Elem x \<and> il_prev (links h (Elem x)) = Some c \<and> dpath h (INext (Elem x)) xs"

lemma dseg_append: "dseg h c (xs @ ys) l \<longleftrightarrow> dpath h c xs \<and> dseg h (end_cell c xs) ys l"
  by (induction xs arbitrary: c) auto

lemma dseg_cong:
  assumes "iload h c = iload h' c" "\<And>x. x \<in> set xs \<Longrightarrow> iload h (INext (Elem x)) = iload h' (INext (Elem x))"
    "\<And>x. x \<in> set xs \<Longrightarrow> il_prev (links h (Elem x)) = il_prev (links h' (Elem x))"
    "il_prev (links h (Last l)) = il_prev (links h' (Last l))"
  shows "dseg h c xs l = dseg h' c xs l"
  using assms by (induction xs arbitrary: c) simp_all

lemma dpath_cong:
  assumes "xs \<noteq> [] \<Longrightarrow> iload h c = iload h' c"
    "\<And>x. x \<in> set (butlast xs) \<Longrightarrow> iload h (INext (Elem x)) = iload h' (INext (Elem x))"
    "\<And>x. x \<in> set xs \<Longrightarrow> il_prev (links h (Elem x)) = il_prev (links h' (Elem x))"
  shows "dpath h c xs = dpath h' c xs"
  using assms
proof (induction xs arbitrary: c)
  case (Cons x xs)
  have "dpath h (INext (Elem x)) xs = dpath h' (INext (Elem x)) xs"
    using Cons.prems by (cases "xs = []") (simp, intro Cons.IH, auto)
  then show ?case using Cons.prems by simp
qed simp

lemma dseg_prev_last: "dseg h c xs l \<Longrightarrow> il_prev (links h (Last l)) = Some (end_cell c xs) \<and> iload h (end_cell c xs) = Last l"
  by (induction xs arbitrary: c) auto

lemma end_cell_eq_INext: "end_cell (IFirst l) xs = INext a \<longleftrightarrow> xs \<noteq> [] \<and> a = Elem (last xs)"
  by (auto simp: end_cell_def)

lemma end_cell_eq_IFirst: "end_cell (IFirst l) xs = IFirst k \<longleftrightarrow> xs = [] \<and> k = l"
  by (auto simp: end_cell_def)

lemma last_notin_butlast: "distinct xs \<Longrightarrow> x \<in> set (butlast xs) \<Longrightarrow> x \<noteq> last xs"
  by (metis append_butlast_last_id distinct_butlast empty_iff in_set_butlastD list.set(1) not_distinct_conv_prefix)

text \<open>Redirecting the cell after \<open>xs\<close> does not disturb the path through \<open>xs\<close>.\<close>

lemma dpath_istore_end:
  assumes "dpath h (IFirst l) xs" "distinct xs"
  shows "dpath (istore h (end_cell (IFirst l) xs) v) (IFirst l) xs"
proof -
  have "dpath (istore h (end_cell (IFirst l) xs) v) (IFirst l) xs = dpath h (IFirst l) xs"
    using last_notin_butlast [OF assms(2)]
    by (intro dpath_cong) (auto simp: end_cell_eq_INext end_cell_eq_IFirst)
  then show ?thesis using assms by simp
qed

lemma ilist_append_is_ilist:
  assumes "is_ilist h l xs" "x \<notin> set xs"
  shows "is_ilist (ilist_append h l (Elem x)) l (x # xs)"
proof -
  let ?h = "ilist_append h l (Elem x)"
  have "dseg h (IFirst l) xs l" using assms by (simp add: is_ilist_def)
  then have "dseg ?h (INext (Elem x)) xs l"
  proof (cases xs)
    case Nil
    with \<open>dseg h (IFirst l) xs l\<close> show ?thesis by (simp add: ilist_append_def Let_def)
  next
    case (Cons y ys)
    then have f: "firsts h l = Elem y" "dseg h (INext (Elem y)) ys l" "y \<notin> set ys" "x \<noteq> y" "x \<notin> set ys"
      using \<open>dseg h (IFirst l) xs l\<close> assms by (auto simp: is_ilist_def)
    have "dseg ?h (INext (Elem y)) ys l = dseg h (INext (Elem y)) ys l"
      using f by (intro dseg_cong) (auto simp: ilist_append_def Let_def)
    then show ?thesis using f Cons by (simp add: ilist_append_def Let_def)
  qed
  then show ?thesis using assms by (simp add: is_ilist_def ilist_append_def Let_def)
qed

lemma ilist_push_back_is_ilist:
  assumes "is_ilist h l xs" "x \<notin> set xs"
  shows "\<exists>h'. ilist_push_back h l (Elem x) = Some h' \<and> is_ilist h' l (xs @ [x])"
proof -
  let ?c = "end_cell (IFirst l) xs"
  have d: "dseg h (IFirst l) xs l" "distinct xs" using assms by (simp_all add: is_ilist_def)
  have p: "il_prev (links h (Last l)) = Some ?c" using dseg_prev_last [OF d(1)] by simp
  define h' where "h' = set_prev (set_prev (istore (istore h ?c (Elem x)) (INext (Elem x)) (Last l)) (Elem x) (Some ?c))
      (Last l) (Some (INext (Elem x)))"
  have r: "ilist_push_back h l (Elem x) = Some h'" using p by (simp add: ilist_push_back_def h'_def Let_def)
  have c: "?c \<noteq> INext (Elem x)" using assms(2) by (auto simp: end_cell_eq_INext)
  have "dpath h (IFirst l) xs" using d(1) dseg_append [of h "IFirst l" xs "[]"] by simp
  then have "dpath (istore h ?c (Elem x)) (IFirst l) xs" by (rule dpath_istore_end [OF _ d(2)])
  moreover have "dpath h' (IFirst l) xs = dpath (istore h ?c (Elem x)) (IFirst l) xs"
    using assms(2) c by (intro dpath_cong) (auto simp: h'_def dest: in_set_butlastD)
  ultimately have "dseg h' (IFirst l) (xs @ [x]) l"
    using c by (auto simp: dseg_append h'_def)
  then show ?thesis using r d(2) assms(2) by (simp add: is_ilist_def)
qed

lemma unlink_is_ilist:
  assumes "is_ilist h l (xs @ x # ys)"
  shows "is_ilist (unlink h (Elem x)) l (xs @ ys)" "links (unlink h (Elem x)) (Elem x) = new_ilink"
proof -
  let ?c = "end_cell (IFirst l) xs" and ?t = "il_next (links h (Elem x))" and ?h = "unlink h (Elem x)"
  have d: "dpath h (IFirst l) xs" "il_prev (links h (Elem x)) = Some ?c" "dseg h (INext (Elem x)) ys l"
    "x \<notin> set xs" "x \<notin> set ys" "distinct xs" "distinct ys" "set xs \<inter> set ys = {}"
    using assms by (auto simp: is_ilist_def dseg_append)
  have c: "?c \<noteq> INext (Elem x)" using d(4) by (auto simp: end_cell_eq_INext)
  have lx: "xs \<noteq> [] \<Longrightarrow> last xs \<notin> set ys" using d(8) last_in_set [of xs] by blast
  have t: "?t = (if ys = [] then Last l else Elem (hd ys))" using d(3) by (cases ys) auto
  have u: "?h = istore (set_prev (set_prev (istore h ?c ?t) ?t (Some ?c)) (Elem x) None) (INext (Elem x)) Null"
    using d(2) t c by (simp add: unlink_def Let_def)
  have "dpath (istore h ?c ?t) (IFirst l) xs" by (rule dpath_istore_end [OF d(1,6)])
  moreover have "dpath ?h (IFirst l) xs = dpath (istore h ?c ?t) (IFirst l) xs"
    using d(4,8) c t by (intro dpath_cong) (auto simp: u dest: in_set_butlastD split: if_splits)
  moreover have "dseg ?h ?c ys l"
  proof (cases ys)
    case Nil then show ?thesis using t c by (simp add: u)
  next
    case (Cons y zs)
    have "dseg ?h (INext (Elem y)) zs l = dseg h (INext (Elem y)) zs l"
      using d(5,7) lx Cons t by (intro dseg_cong) (auto simp: u end_cell_eq_INext)
    then show ?thesis using Cons d(3,5) t c by (simp add: u)
  qed
  ultimately show "is_ilist ?h l (xs @ ys)" using assms by (simp add: is_ilist_def dseg_append)
  show "links ?h (Elem x) = new_ilink"
    by (simp add: u new_ilink_def set_prev_def istore.simps)
qed

lemma ilist_empty_is_ilist: "is_ilist (ilist_empty h l) l []"
  by (simp add: is_ilist_def ilist_empty_def)

lemma ilist_get_is_ilist:
  assumes "is_ilist h l (x # xs)"
  shows "fst (ilist_get h l) = Elem x" "is_ilist (snd (ilist_get h l)) l xs"
proof -
  have "firsts h l = Elem x" using assms by (simp add: is_ilist_def)
  then show "fst (ilist_get h l) = Elem x" "is_ilist (snd (ilist_get h l)) l xs"
    using unlink_is_ilist(1) [of h l "[]" x xs] assms by (simp_all add: ilist_get_def)
qed

interpretation il: deque "\<lambda>h. is_ilist h l" distinct Elem "\<lambda>h. ilist_get h l"
  "\<lambda>h x. the (ilist_push_back h l (Elem x))" "\<lambda>h x. ilist_append h l (Elem x)"
proof unfold_locales
  fix h x xs
  assume "is_ilist h l (x # xs)"
  then show "fst (ilist_get h l) = Elem x" "is_ilist (snd (ilist_get h l)) l xs" by (rule ilist_get_is_ilist)+
next
  fix h x xs
  assume "is_ilist h l xs"
  then show "distinct (xs @ [x]) \<Longrightarrow> is_ilist (the (ilist_push_back h l (Elem x))) l (xs @ [x])"
    "distinct (x # xs) \<Longrightarrow> is_ilist (ilist_append h l (Elem x)) l (x # xs)"
    using ilist_push_back_is_ilist [of h l xs x] ilist_append_is_ilist [of h l xs x] by auto
qed simp

lemma drain_ilist_iter:
  "dseg h (ii_el it) xs (ii_list it) \<Longrightarrow>
   fst (drain (ilist_iter_next h) (length xs + 1) it) = map Elem xs @ [Null]"
proof (induction xs arbitrary: it)
  case Nil then show ?case by (simp add: ilist_iter_next_def Let_def split_beta)
next
  case (Cons x xs)
  let ?it = "it\<lparr>ii_current := Elem x, ii_el := INext (Elem x)\<rparr>"
  have "ilist_iter_next h it = (Elem x, ?it)" using Cons.prems by (simp add: ilist_iter_next_def Let_def)
  moreover have "fst (drain (ilist_iter_next h) (length xs + 1) ?it) = map Elem xs @ [Null]"
    using Cons.prems by (intro Cons.IH) simp
  ultimately show ?case by (simp add: split_beta)
qed

text \<open>
  links pushed to the back of an emptied \<open>base_ilist\<close> are taken by \<open>get\<close> in order, links
  put in front by \<open>append\<close> in reverse order; an iterator visits all links in order and then
  returns null; unlinking any link leaves exactly the others, with the link itself cleared.
\<close>

theorem base_ilist_operations:
  assumes "is_ilist h l (xs @ x # ys)" "distinct zs"
  shows "fst (drain (\<lambda>h. ilist_get h l) (length zs)
               (fill (\<lambda>h x. the (ilist_push_back h l (Elem x))) zs (ilist_empty h l))) = map Elem zs \<and>
         fst (drain (\<lambda>h. ilist_get h l) (length zs)
               (fill (\<lambda>h x. ilist_append h l (Elem x)) zs (ilist_empty h l))) = map Elem (rev zs) \<and>
         fst (drain (ilist_iter_next h) (length (xs @ x # ys) + 1) (ilist_iter_init l)) = map Elem (xs @ x # ys) @ [Null] \<and>
         is_ilist (unlink h (Elem x)) l (xs @ ys) \<and> links (unlink h (Elem x)) (Elem x) = new_ilink"
proof (intro conjI)
  note E = ilist_empty_is_ilist [of h l]
  show "fst (drain (\<lambda>h. ilist_get h l) (length zs)
               (fill (\<lambda>h x. the (ilist_push_back h l (Elem x))) zs (ilist_empty h l))) = map Elem zs"
    by (rule il.fifo_order(1) [OF E assms(2)])
  show "fst (drain (\<lambda>h. ilist_get h l) (length zs)
               (fill (\<lambda>h x. ilist_append h l (Elem x)) zs (ilist_empty h l))) = map Elem (rev zs)"
    by (rule il.lifo_order(1) [OF E]) (use assms(2) in simp)
  show "fst (drain (ilist_iter_next h) (length (xs @ x # ys) + 1) (ilist_iter_init l)) = map Elem (xs @ x # ys) @ [Null]"
    by (rule drain_ilist_iter) (use assms(1) in \<open>simp add: is_ilist_def ilist_iter_init_def\<close>)
  show "is_ilist (unlink h (Elem x)) l (xs @ ys)" "links (unlink h (Elem x)) (Elem x) = new_ilink"
    by (rule unlink_is_ilist [OF assms(1)])+
qed

text \<open>The list object 0 with the single link 5; every other list object is empty.\<close>

definition sample_ilist :: ilist_heap where
  "sample_ilist = ilist_append \<lparr>links = (\<lambda>a. case a of Last k \<Rightarrow> \<lparr>il_prev = Some (IFirst k), il_next = Null\<rparr> | _ \<Rightarrow> new_ilink),
     firsts = Last\<rparr> 0 (Elem 5)"

lemma sample_ilist_ok: "is_ilist sample_ilist 0 [5]" "is_ilist sample_ilist 1 []"
  by (simp_all add: sample_ilist_def is_ilist_def ilist_append_def Let_def)

theorem base_ilist_operations_witness:
  "is_ilist (unlink sample_ilist (Elem 5)) 0 [] \<and>
   fst (drain (ilist_iter_next sample_ilist) (length ([] @ [5 :: ptr]) + 1) (ilist_iter_init 0)) = [Elem 5, Null]"
  using base_ilist_operations [of sample_ilist 0 "[]" 5 "[]" "[]"] sample_ilist_ok by simp

text \<open>
  \<open>move_elements_to\<close> empties the old owner but does not hand over a working list: whatever
  the old owner held, the new owner, empty before as required, does not hold a list of any
  elements afterwards, and the moved chain still ends in the old owner's end marker.
\<close>

theorem move_elements_to_breaks_list:
  assumes "is_ilist h l xs" "is_ilist h k []" "l \<noteq> k"
  shows "is_ilist (move_elements_to h l k) l [] \<and> \<not> is_ilist (move_elements_to h l k) k ys \<and>
         \<not> ilist_is_empty (move_elements_to h l k) k"
proof -
  let ?h = "move_elements_to h l k"
  have d: "dseg h (IFirst l) xs l" using assms(1) by (simp add: is_ilist_def)
  have e: "is_ilist ?h l []" by (simp add: move_elements_to_def Let_def ilist_empty_is_ilist)
  have f: "firsts ?h k = firsts h l" "\<And>x. il_next (links ?h (Elem x)) = il_next (links h (Elem x))"
    using assms(3) by (simp_all add: move_elements_to_def Let_def ilist_empty_def)
  have "\<not> dseg ?h c' ys k" if "dseg h c zs l" "iload ?h c' = iload h c" for c c' ys zs
    using that
  proof (induction ys arbitrary: c c' zs)
    case Nil then show ?case using assms(3) by (cases zs) auto
  next
    case (Cons y ys)
    then show ?case using f(2) by (cases zs) auto
  qed
  from this [OF d] have "\<not> dseg ?h (IFirst k) ys k" using f(1) by simp
  moreover have "firsts h l \<noteq> Last k" using d assms(3) by (cases xs) auto
  ultimately show ?thesis using e f(1) by (simp add: is_ilist_def ilist_is_empty_def)
qed

theorem move_elements_to_breaks_list_witness: "\<not> is_ilist (move_elements_to sample_ilist 0 1) 1 [5]"
  using move_elements_to_breaks_list [OF sample_ilist_ok] by simp

end
