(* ===== verification/PList.thy ===== *)
theory PList
  imports BaseList
begin

text \<open>
  The intrusive parameterised list \<open>I_P_List\<close> of \<^verbatim>\<open>sql_plist.h\<close>, with the counting policy
  \<open>I_P_List_counter\<close> and the insertion policy \<open>I_P_List_fast_push_back\<close>.  The adapter \<open>B\<close> gives the
  members \<open>next\<close> and \<open>prev\<close> of an element; they are the two maps of the heap.  \<open>swap\<close> accepts
  only lists with the default insertion policy, so it is modelled without \<open>m_last\<close>.
\<close>

section \<open>Lists and operations\<close>

record I_P_List =
  m_first :: ptr
  m_last :: cell
  m_counter :: uint32

record plist_heap =
  p_next :: "ptr \<Rightarrow> ptr"
  p_prev :: "ptr \<Rightarrow> cell"
  plists :: "ptr \<Rightarrow> I_P_List"

fun pload :: "plist_heap \<Rightarrow> cell \<Rightarrow> ptr" where
  "pload h (First l) = m_first (plists h l)"
| "pload h (Next a) = p_next h a"

fun pstore :: "plist_heap \<Rightarrow> cell \<Rightarrow> ptr \<Rightarrow> plist_heap" where
  "pstore h (First l) v = h\<lparr>plists := (plists h)(l := (plists h l)\<lparr>m_first := v\<rparr>)\<rparr>"
| "pstore h (Next a) v = h\<lparr>p_next := (p_next h)(a := v)\<rparr>"

definition set_p_prev :: "plist_heap \<Rightarrow> ptr \<Rightarrow> cell \<Rightarrow> plist_heap" where
  "set_p_prev h a c = h\<lparr>p_prev := (p_prev h)(a := c)\<rparr>"

definition counter_reset :: "plist_heap \<Rightarrow> ptr \<Rightarrow> plist_heap" where
  "counter_reset h l = h\<lparr>plists := (plists h)(l := (plists h l)\<lparr>m_counter := 0\<rparr>)\<rparr>"

definition counter_inc :: "plist_heap \<Rightarrow> ptr \<Rightarrow> plist_heap" where
  "counter_inc h l = h\<lparr>plists := (plists h)(l := (plists h l)\<lparr>m_counter := m_counter (plists h l) + 1\<rparr>)\<rparr>"

definition counter_dec :: "plist_heap \<Rightarrow> ptr \<Rightarrow> plist_heap" where
  "counter_dec h l = h\<lparr>plists := (plists h)(l := (plists h l)\<lparr>m_counter := m_counter (plists h l) - 1\<rparr>)\<rparr>"

definition counter_swap :: "plist_heap \<Rightarrow> ptr \<Rightarrow> ptr \<Rightarrow> plist_heap" where
  "counter_swap h l k =
     (let a = m_counter (plists h l); b = m_counter (plists h k);
          h1 = h\<lparr>plists := (plists h)(l := (plists h l)\<lparr>m_counter := b\<rparr>)\<rparr>
      in h1\<lparr>plists := (plists h1)(k := (plists h1 k)\<lparr>m_counter := a\<rparr>)\<rparr>)"

definition pl_elements :: "plist_heap \<Rightarrow> ptr \<Rightarrow> uint32" where
  "pl_elements h l = m_counter (plists h l)"

definition pl_set_last :: "plist_heap \<Rightarrow> ptr \<Rightarrow> cell \<Rightarrow> plist_heap" where
  "pl_set_last h l c = h\<lparr>plists := (plists h)(l := (plists h l)\<lparr>m_last := c\<rparr>)\<rparr>"

definition pl_get_last :: "plist_heap \<Rightarrow> ptr \<Rightarrow> cell" where
  "pl_get_last h l = m_last (plists h l)"

definition pl_empty :: "plist_heap \<Rightarrow> ptr \<Rightarrow> plist_heap" where
  "pl_empty h l = pl_set_last (counter_reset (pstore h (First l) NULL) l) l (First l)"

definition pl_is_empty :: "plist_heap \<Rightarrow> ptr \<Rightarrow> bool" where
  "pl_is_empty h l \<longleftrightarrow> m_first (plists h l) = NULL"

definition pl_push_front :: "plist_heap \<Rightarrow> ptr \<Rightarrow> ptr \<Rightarrow> plist_heap" where
  "pl_push_front h l a =
     (let h1 = pstore h (Next a) (m_first (plists h l));
          h2 = (if m_first (plists h1 l) \<noteq> NULL then set_p_prev h1 (m_first (plists h1 l)) (Next a)
                else pl_set_last h1 l (Next a));
          h3 = pstore h2 (First l) a;
          h4 = set_p_prev h3 a (First l)
      in counter_inc h4 l)"

definition pl_push_back :: "plist_heap \<Rightarrow> ptr \<Rightarrow> ptr \<Rightarrow> plist_heap" where
  "pl_push_back h l a =
     (let last = pl_get_last h l;
          h1 = pstore h (Next a) (pload h last);
          h2 = pstore h1 last a;
          h3 = set_p_prev h2 a last;
          h4 = pl_set_last h3 l (Next a)
      in counter_inc h4 l)"

definition pl_insert_after :: "plist_heap \<Rightarrow> ptr \<Rightarrow> ptr \<Rightarrow> ptr \<Rightarrow> plist_heap" where
  "pl_insert_after h l pos a =
     (if pos = NULL then pl_push_front h l a
      else let h1 = pstore h (Next a) (p_next h pos);
               h2 = set_p_prev h1 a (Next pos);
               h3 = pstore h2 (Next pos) a;
               h4 = (if p_next h3 a \<noteq> NULL then set_p_prev h3 (p_next h3 a) (Next a)
                     else pl_set_last h3 l (Next a))
           in counter_inc h4 l)"

definition pl_remove :: "plist_heap \<Rightarrow> ptr \<Rightarrow> ptr \<Rightarrow> plist_heap" where
  "pl_remove h l a =
     (let nxt = p_next h a;
          h1 = (if nxt \<noteq> NULL then set_p_prev h nxt (p_prev h a) else pl_set_last h l (p_prev h a));
          h2 = pstore h1 (p_prev h1 a) nxt
      in counter_dec h2 l)"

definition pl_front :: "plist_heap \<Rightarrow> ptr \<Rightarrow> ptr" where
  "pl_front h l = m_first (plists h l)"

definition pl_pop_front :: "plist_heap \<Rightarrow> ptr \<Rightarrow> ptr \<times> plist_heap" where
  "pl_pop_front h l =
     (let result = pl_front h l in (result, if result \<noteq> NULL then pl_remove h l result else h))"

definition pl_swap :: "plist_heap \<Rightarrow> ptr \<Rightarrow> ptr \<Rightarrow> plist_heap" where
  "pl_swap h l rhs =
     (let a = m_first (plists h l); b = m_first (plists h rhs);
          h1 = pstore (pstore h (First l) b) (First rhs) a;
          h2 = (if m_first (plists h1 l) \<noteq> NULL then set_p_prev h1 (m_first (plists h1 l)) (First l) else h1);
          h3 = (if m_first (plists h2 rhs) \<noteq> NULL then set_p_prev h2 (m_first (plists h2 rhs)) (First rhs) else h2)
      in counter_swap h3 l rhs)"

record I_P_List_iterator =
  pi_list :: ptr
  pi_current :: ptr

definition pl_iter_init :: "plist_heap \<Rightarrow> ptr \<Rightarrow> I_P_List_iterator" where
  "pl_iter_init h a = \<lparr>pi_list = a, pi_current = m_first (plists h a)\<rparr>"

definition pl_iter_post :: "plist_heap \<Rightarrow> I_P_List_iterator \<Rightarrow> ptr \<times> I_P_List_iterator" where
  "pl_iter_post h it =
     (pi_current it, if pi_current it \<noteq> NULL then it\<lparr>pi_current := p_next h (pi_current it)\<rparr> else it)"

definition pl_iter_pre :: "plist_heap \<Rightarrow> I_P_List_iterator \<Rightarrow> ptr \<times> I_P_List_iterator" where
  "pl_iter_pre h it = (p_next h (pi_current it), it\<lparr>pi_current := p_next h (pi_current it)\<rparr>)"

definition pl_iter_rewind :: "plist_heap \<Rightarrow> I_P_List_iterator \<Rightarrow> I_P_List_iterator" where
  "pl_iter_rewind h it = it\<lparr>pi_current := m_first (plists h (pi_list it))\<rparr>"

section \<open>The elements of a list\<close>

primrec ppath :: "plist_heap \<Rightarrow> cell \<Rightarrow> ptr list \<Rightarrow> ptr \<Rightarrow> bool" where
  "ppath h c [] q \<longleftrightarrow> pload h c = q"
| "ppath h c (x # xs) q \<longleftrightarrow> pload h c = x \<and> x \<noteq> NULL \<and> p_prev h x = c \<and> ppath h (Next x) xs q"

definition is_plist :: "plist_heap \<Rightarrow> ptr \<Rightarrow> ptr list \<Rightarrow> bool" where
  "is_plist h l xs \<longleftrightarrow>
     ppath h (First l) xs NULL \<and> distinct xs \<and> m_last (plists h l) = tail_cell l xs \<and>
     m_counter (plists h l) = of_nat (length xs)"

lemma plist_access [simp]:
  "p_next (pstore h (First l) v) = p_next h" "plists (pstore h (Next a) v) = plists h"
  "p_next (pstore h c v) a = (if c = Next a then v else p_next h a)"
  "m_first (plists (pstore h c v) l) = (if c = First l then v else m_first (plists h l))"
  "m_last (plists (pstore h c v) l) = m_last (plists h l)"
  "m_counter (plists (pstore h c v) l) = m_counter (plists h l)"
  "p_prev (pstore h c v) = p_prev h"
  "pload (pstore h c v) d = (if c = d then v else pload h d)"
  "p_next (set_p_prev h a c) = p_next h" "plists (set_p_prev h a c) = plists h"
  "p_prev (set_p_prev h a c) = (p_prev h)(a := c)" "pload (set_p_prev h a c) d = pload h d"
  "p_next (pl_set_last h l c) = p_next h" "p_prev (pl_set_last h l c) = p_prev h"
  "plists (pl_set_last h l c) = (plists h)(l := (plists h l)\<lparr>m_last := c\<rparr>)" "pload (pl_set_last h l c) d = pload h d"
  "p_next (counter_inc h l) = p_next h" "p_prev (counter_inc h l) = p_prev h"
  "plists (counter_inc h l) = (plists h)(l := (plists h l)\<lparr>m_counter := m_counter (plists h l) + 1\<rparr>)"
  "pload (counter_inc h l) d = pload h d"
  "p_next (counter_dec h l) = p_next h" "p_prev (counter_dec h l) = p_prev h"
  "plists (counter_dec h l) = (plists h)(l := (plists h l)\<lparr>m_counter := m_counter (plists h l) - 1\<rparr>)"
  "pload (counter_dec h l) d = pload h d"
  by (cases c; cases d; auto simp: set_p_prev_def pl_set_last_def counter_inc_def counter_dec_def)+

declare pstore.simps [simp del]

lemma ppath_cong:
  assumes "pload h c = pload h' c" "\<And>x. x \<in> set xs \<Longrightarrow> p_next h x = p_next h' x \<and> p_prev h x = p_prev h' x"
  shows "ppath h c xs q = ppath h' c xs q"
  using assms by (induction xs arbitrary: c) simp_all

lemma ppath_append: "ppath h (First l) (xs @ ys) q \<longleftrightarrow>
    (if ys = [] then ppath h (First l) xs q
     else ppath h (First l) xs (hd ys) \<and> ppath h (tail_cell l xs) ys q)"
proof -
  have "ppath h c (xs @ y # zs) q \<longleftrightarrow>
      ppath h c xs y \<and> ppath h (if xs = [] then c else Next (last xs)) (y # zs) q" for c y zs
    by (induction xs arbitrary: c) auto
  then show ?thesis by (cases ys) (auto simp: tail_cell_def)
qed

lemma ppath_load: "ppath h c xs q \<Longrightarrow> pload h c = hd (xs @ [q])"
  by (cases xs) auto

lemma ppath_not_null: "ppath h c xs q \<Longrightarrow> NULL \<notin> set xs"
  by (induction xs arbitrary: c) auto

lemma ppath_tail: "ppath h (First l) xs q \<Longrightarrow> pload h (tail_cell l xs) = q"
  by (cases xs rule: rev_cases) (auto simp: ppath_append)

text \<open>Redirecting the end of a path.\<close>

lemma ppath_store_tail:
  assumes "ppath h (First l) xs q" "distinct xs"
  shows "ppath (pstore h (tail_cell l xs) v) (First l) xs v"
proof (cases xs rule: rev_cases)
  case (snoc ys y)
  then have "ppath h (First l) ys y" "y \<noteq> NULL" "p_prev h y = tail_cell l ys" "y \<notin> set ys"
    using assms by (auto simp: ppath_append)
  moreover have "ppath (pstore h (Next y) v) (First l) ys y = ppath h (First l) ys y"
    using \<open>y \<notin> set ys\<close> by (intro ppath_cong) auto
  moreover have "tail_cell l ys \<noteq> Next y" using \<open>y \<notin> set ys\<close> last_in_set [of ys] by (auto simp: tail_cell_def)
  ultimately show ?thesis using snoc ppath_tail [of h l ys y] by (auto simp: ppath_append)
qed simp

lemma tail_cell_notin: "x \<notin> set xs \<Longrightarrow> tail_cell l xs \<noteq> Next x"
  using last_in_set [of xs] by (auto simp: tail_cell_def)

lemma is_plistD:
  assumes "is_plist h l xs"
  shows "ppath h (First l) xs NULL" "distinct xs" "NULL \<notin> set xs" "m_last (plists h l) = tail_cell l xs"
    "m_counter (plists h l) = of_nat (length xs)" "m_first (plists h l) = hd (xs @ [NULL])"
  using assms ppath_not_null ppath_load [of h "First l" xs NULL] by (auto simp: is_plist_def)

lemma pl_empty_is_plist: "is_plist (pl_empty h l) l []"
  by (simp add: is_plist_def pl_empty_def pl_set_last_def counter_reset_def pstore.simps)

lemma pl_push_front_is_plist:
  assumes "is_plist h l xs" "a \<noteq> NULL" "a \<notin> set xs"
  shows "is_plist (pl_push_front h l a) l (a # xs)"
proof -
  note D = is_plistD [OF assms(1)]
  let ?h = "pl_push_front h l a"
  have "ppath ?h (Next a) xs NULL"
  proof (cases xs)
    case Nil then show ?thesis using D(6) by (simp add: pl_push_front_def Let_def)
  next
    case (Cons y ys)
    then have y: "m_first (plists h l) = y" "y \<noteq> NULL" "y \<noteq> a" "y \<notin> set ys" "ppath h (Next y) ys NULL" "a \<notin> set ys"
      using D assms by auto
    have "ppath ?h (Next y) ys NULL = ppath h (Next y) ys NULL"
      using y by (intro ppath_cong) (auto simp: pl_push_front_def Let_def)
    then show ?thesis using y Cons by (simp add: pl_push_front_def Let_def)
  qed
  then show ?thesis using D assms
    by (cases xs) (auto simp: is_plist_def pl_push_front_def Let_def add.commute)
qed

lemma pl_push_back_is_plist:
  assumes "is_plist h l xs" "a \<noteq> NULL" "a \<notin> set xs"
  shows "is_plist (pl_push_back h l a) l (xs @ [a])"
proof -
  note D = is_plistD [OF assms(1)]
  let ?h = "pl_push_back h l a" and ?c = "tail_cell l xs"
  have c: "?c \<noteq> Next a" by (rule tail_cell_notin [OF assms(3)])
  have "ppath (pstore h ?c a) (First l) xs a" by (rule ppath_store_tail [OF D(1,2)])
  moreover have "ppath ?h (First l) xs a = ppath (pstore h ?c a) (First l) xs a"
    using assms(3) D(4) by (intro ppath_cong) (auto simp: pl_push_back_def Let_def pl_get_last_def)
  ultimately show ?thesis using D assms c ppath_tail [OF D(1)]
    by (auto simp: is_plist_def ppath_append pl_push_back_def Let_def pl_get_last_def)
qed

lemma pl_insert_after_is_plist:
  assumes "is_plist h l (xs @ p # ys)" "a \<noteq> NULL" "a \<notin> set (xs @ p # ys)"
  shows "is_plist (pl_insert_after h l p a) l (xs @ p # a # ys)"
proof -
  note D = is_plistD [OF assms(1)]
  let ?h = "pl_insert_after h l p a"
  have d: "p \<noteq> NULL" "p \<notin> set xs" "p \<notin> set ys" "set xs \<inter> set ys = {}" "p_next h p = hd (ys @ [NULL])"
    "ppath h (First l) xs p" "p_prev h p = tail_cell l xs" "ppath h (Next p) ys NULL"
    using D ppath_load [of h "Next p" ys NULL] by (auto simp: ppath_append)
  have "ppath ?h (First l) xs p = ppath h (First l) xs p"
    using assms(3) d D(3) by (intro ppath_cong) (cases ys; auto simp: pl_insert_after_def Let_def)+
  moreover have "ppath ?h (Next a) ys NULL"
  proof (cases ys)
    case Nil then show ?thesis using d assms by (simp add: pl_insert_after_def Let_def)
  next
    case (Cons y zs)
    have "ppath ?h (Next y) zs NULL = ppath h (Next y) zs NULL"
      using d assms Cons D by (intro ppath_cong) (auto simp: pl_insert_after_def Let_def)
    then show ?thesis using d assms Cons D by (auto simp: pl_insert_after_def Let_def)
  qed
  moreover have "tail_cell l xs \<noteq> Next p" "tail_cell l xs \<noteq> Next a"
    using d(2) assms(3) by (auto intro!: tail_cell_notin)
  ultimately show ?thesis using D d assms ppath_tail [OF d(6)]
    by (cases ys) (auto simp: is_plist_def ppath_append pl_insert_after_def Let_def)
qed

lemma pl_remove_is_plist:
  assumes "is_plist h l (xs @ a # ys)"
  shows "is_plist (pl_remove h l a) l (xs @ ys)"
proof -
  note D = is_plistD [OF assms]
  let ?h = "pl_remove h l a" and ?c = "tail_cell l xs"
  have d: "a \<noteq> NULL" "a \<notin> set xs" "a \<notin> set ys" "set xs \<inter> set ys = {}" "distinct xs" "distinct ys"
    "ppath h (First l) xs a" "p_prev h a = ?c" "ppath h (Next a) ys NULL" "p_next h a = hd (ys @ [NULL])"
    "NULL \<notin> set ys"
    using D ppath_load [of h "Next a" ys NULL] by (auto simp: ppath_append)
  have lx: "xs \<noteq> [] \<Longrightarrow> last xs \<notin> set ys" using d(4) last_in_set [of xs] by blast
  have "ppath (pstore h ?c (hd (ys @ [NULL]))) (First l) xs (hd (ys @ [NULL]))"
    by (rule ppath_store_tail [OF d(7,5)])
  moreover have "ppath ?h (First l) xs q = ppath (pstore h ?c (hd (ys @ [NULL]))) (First l) xs q" for q
    using d(2-4,8,10,11) by (intro ppath_cong) (cases ys; auto simp: pl_remove_def Let_def)+
  moreover have "ppath ?h ?c ys NULL"
  proof (cases ys)
    case Nil then show ?thesis using d by (simp add: pl_remove_def Let_def)
  next
    case (Cons y zs)
    have "ppath ?h (Next y) zs NULL = ppath h (Next y) zs NULL"
      using d Cons lx by (intro ppath_cong) (auto simp: pl_remove_def Let_def tail_cell_Next)
    then show ?thesis using d Cons by (auto simp: pl_remove_def Let_def)
  qed
  ultimately show ?thesis using D d
    by (cases ys) (auto simp: is_plist_def ppath_append pl_remove_def Let_def)
qed

lemma pl_pop_front_is_plist:
  assumes "is_plist h l (x # xs)"
  shows "fst (pl_pop_front h l) = x" "is_plist (snd (pl_pop_front h l)) l xs"
proof -
  have x: "m_first (plists h l) = x" "x \<noteq> NULL" using is_plistD [OF assms] by auto
  then show "fst (pl_pop_front h l) = x" "is_plist (snd (pl_pop_front h l)) l xs"
    using pl_remove_is_plist [of h l "[]" x xs] assms by (simp_all add: pl_pop_front_def pl_front_def Let_def)
qed

lemma ppath_move:
  assumes "ppath h c xs NULL" "distinct xs" "pload h' d = pload h c"
    "\<And>x. x \<in> set xs \<Longrightarrow> p_next h' x = p_next h x"
    "\<And>x. x \<in> set xs \<Longrightarrow> p_prev h' x = (if x = hd xs then d else p_prev h x)"
  shows "ppath h' d xs NULL"
proof (cases xs)
  case (Cons x ys)
  then have "ppath h (Next x) ys NULL" "x \<notin> set ys" using assms by auto
  moreover have "ppath h' (Next x) ys NULL = ppath h (Next x) ys NULL"
    using assms Cons \<open>x \<notin> set ys\<close> by (intro ppath_cong) auto
  ultimately show ?thesis using assms Cons by auto
qed (use assms in simp)

lemma counter_swap_access [simp]:
  "p_next (counter_swap h l k) = p_next h" "p_prev (counter_swap h l k) = p_prev h"
  "m_first (plists (counter_swap h l k) j) = m_first (plists h j)"
  "l \<noteq> k \<Longrightarrow> m_counter (plists (counter_swap h l k) l) = m_counter (plists h k)"
  "m_counter (plists (counter_swap h l k) k) = m_counter (plists h l)"
  by (simp_all add: counter_swap_def Let_def)

lemma pl_swap_paths:
  assumes "is_plist h l xs" "is_plist h k ys" "set xs \<inter> set ys = {}" "l \<noteq> k"
  shows "ppath (pl_swap h l k) (First l) ys NULL" "ppath (pl_swap h l k) (First k) xs NULL"
    "pl_elements (pl_swap h l k) l = of_nat (length ys)" "pl_elements (pl_swap h l k) k = of_nat (length xs)"
proof -
  note L = is_plistD [OF assms(1)] and K = is_plistD [OF assms(2)]
  have x: "m_first (plists h l) = hd (xs @ [NULL])" and y: "m_first (plists h k) = hd (ys @ [NULL])" by (fact L(6) K(6))+
  show "ppath (pl_swap h l k) (First l) ys NULL"
    by (rule ppath_move [OF K(1,2)]; cases xs; cases ys) (use assms(3,4) x y L(3) K(3) in \<open>auto simp: pl_swap_def Let_def\<close>)
  show "ppath (pl_swap h l k) (First k) xs NULL"
    by (rule ppath_move [OF L(1,2)]; cases xs; cases ys) (use assms(3,4) x y L(3) K(3) in \<open>auto simp: pl_swap_def Let_def\<close>)
  show "pl_elements (pl_swap h l k) l = of_nat (length ys)" "pl_elements (pl_swap h l k) k = of_nat (length xs)"
    using assms(4) L(5) K(5) by (simp_all add: pl_elements_def pl_swap_def Let_def)
qed

definition pl_fits :: "ptr list \<Rightarrow> bool" where
  "pl_fits xs \<longleftrightarrow> distinct xs \<and> NULL \<notin> set xs"

interpretation pl: deque "\<lambda>h. is_plist h l" pl_fits "\<lambda>x. x" "\<lambda>h. pl_pop_front h l"
  "\<lambda>h. pl_push_back h l" "\<lambda>h. pl_push_front h l"
  by unfold_locales
    (auto simp: pl_fits_def pl_pop_front_is_plist pl_push_back_is_plist pl_push_front_is_plist)

lemma drain_pl_iter:
  "ppath h c xs NULL \<Longrightarrow> pi_current it = pload h c \<Longrightarrow>
   fst (drain (pl_iter_post h) (length xs + 1) it) = xs @ [NULL]"
proof (induction xs arbitrary: c it)
  case Nil then show ?case by (simp add: pl_iter_post_def)
next
  case (Cons x xs)
  have "fst (drain (pl_iter_post h) (length xs + 1) (it\<lparr>pi_current := p_next h x\<rparr>)) = xs @ [NULL]"
    using Cons.prems by (intro Cons.IH [of "Next x"]) auto
  moreover have "pl_iter_post h it = (x, it\<lparr>pi_current := p_next h x\<rparr>)"
    using Cons.prems by (simp add: pl_iter_post_def)
  ultimately show ?case by (simp add: split_beta)
qed

section \<open>Properties\<close>

text \<open>
  elements pushed to the back of an empty \<open>I_P_List\<close> leave it through \<open>pop_front\<close> in order,
  elements pushed to the front in reverse order, and filling both ends concatenates the two
  sequences, with the counter equal to their number.
\<close>

theorem plist_deque:
  assumes "pl_fits (rev xs @ ys)"
  shows "fst (drain (\<lambda>h. pl_pop_front h l) (length ys) (fill (\<lambda>h. pl_push_back h l) ys (pl_empty h l))) = ys \<and>
         fst (drain (\<lambda>h. pl_pop_front h l) (length xs) (fill (\<lambda>h. pl_push_front h l) xs (pl_empty h l))) = rev xs \<and>
         (let h' = fill (\<lambda>h. pl_push_back h l) ys (fill (\<lambda>h. pl_push_front h l) xs (pl_empty h l))
          in is_plist h' l (rev xs @ ys) \<and> pl_elements h' l = of_nat (length xs + length ys))"
proof -
  note E = pl_empty_is_plist [of h l]
  have f: "pl_fits ys" "pl_fits (rev xs)" using pl.fits_split [OF assms] by simp_all
  have b: "is_plist (fill (\<lambda>h. pl_push_back h l) ys (fill (\<lambda>h. pl_push_front h l) xs (pl_empty h l))) l (rev xs @ ys)"
    by (rule pl.fill_both [OF E assms])
  show ?thesis
    using pl.fifo_order(1) [OF E f(1)] pl.lifo_order(1) [OF E f(2)] b is_plistD(5) [OF b]
    by (simp add: Let_def pl_elements_def)
qed

definition empty_pheap :: plist_heap where
  "empty_pheap = \<lparr>p_next = (\<lambda>_. NULL), p_prev = (\<lambda>_. First 0),
     plists = (\<lambda>l. \<lparr>m_first = NULL, m_last = First l, m_counter = 0\<rparr>)\<rparr>"

theorem plist_deque_witness:
  "fst (drain (\<lambda>h. pl_pop_front h 0) (length [7, 8 :: ptr])
         (fill (\<lambda>h. pl_push_back h 0) [7, 8] (pl_empty empty_pheap 0))) = [7, 8]"
  using plist_deque [of "[]" "[7, 8]" 0 empty_pheap] by (simp add: pl_fits_def)

text \<open>
  inserting after an element and removing an element act exactly at their place, keep the
  list well-formed (both links, the address of the last pointer and the counter) and undo
  each other; an element may be removed right after an iterator has returned it.
\<close>

theorem plist_edit:
  assumes "is_plist h l (xs @ p # ys)" "a \<noteq> NULL" "a \<notin> set (xs @ p # ys)"
  shows "is_plist (pl_insert_after h l p a) l (xs @ p # a # ys) \<and>
         is_plist (pl_remove (pl_insert_after h l p a) l a) l (xs @ p # ys) \<and>
         is_plist (pl_remove h l p) l (xs @ ys) \<and>
         fst (drain (pl_iter_post h) (length (xs @ p # ys) + 1) (pl_iter_init h l)) = (xs @ p # ys) @ [NULL] \<and>
         pl_iter_post h \<lparr>pi_list = l, pi_current = p\<rparr> = (p, \<lparr>pi_list = l, pi_current = hd (ys @ [NULL])\<rparr>)"
proof -
  note I = pl_insert_after_is_plist [OF assms]
  have "is_plist (pl_insert_after h l p a) l ((xs @ [p]) @ a # ys)" using I by simp
  from pl_remove_is_plist [OF this] have r: "is_plist (pl_remove (pl_insert_after h l p a) l a) l (xs @ p # ys)" by simp
  have path: "ppath h (First l) (xs @ p # ys) NULL" by (rule is_plistD(1) [OF assms(1)])
  then have "p \<noteq> NULL" "p_next h p = hd (ys @ [NULL])"
    using ppath_load [of h "Next p" ys NULL] by (auto simp: ppath_append)
  then show ?thesis using I r pl_remove_is_plist [OF assms(1)] drain_pl_iter [OF path, of "pl_iter_init h l"]
    by (simp add: pl_iter_post_def pl_iter_init_def)
qed

lemma sample_plist: "is_plist (pl_push_front empty_pheap 0 5) 0 ([] @ 5 # [])"
  using pl_push_front_is_plist [of empty_pheap 0 "[]" 5] by (simp add: is_plist_def empty_pheap_def)

theorem plist_edit_witness: "is_plist (pl_insert_after (pl_push_front empty_pheap 0 5) 0 5 6) 0 [5, 6]"
  using plist_edit [OF sample_plist, of 6] by simp

text \<open>
  \<open>swap\<close> exchanges the elements and the counters of two lists, with each first element
  linked back to its new list.
\<close>

theorem plist_swap:
  assumes "is_plist h l xs" "is_plist h k ys" "set xs \<inter> set ys = {}" "l \<noteq> k"
  shows "ppath (pl_swap h l k) (First l) ys NULL \<and> ppath (pl_swap h l k) (First k) xs NULL \<and>
         pl_elements (pl_swap h l k) l = of_nat (length ys) \<and> pl_elements (pl_swap h l k) k = of_nat (length xs)"
  using pl_swap_paths [OF assms] by blast

theorem plist_swap_witness: "ppath (pl_swap (pl_push_front empty_pheap 0 5) 0 1) (First 1) [5] NULL"
proof -
  have "is_plist (pl_push_front empty_pheap 0 5) 1 []"
    by (simp add: is_plist_def empty_pheap_def pl_push_front_def Let_def)
  from plist_swap [OF sample_plist this] show ?thesis by simp
qed

end
