(* ===== verification/NodeHeap.thy ===== *)
theory NodeHeap
  imports Prelude "HOL-Library.Monad_Syntax"
begin

text \<open>
  Linked nodes in memory that is allocated and freed.  A heap maps the addresses of the live nodes to
  their contents; an access to any other address, the null pointer included, has no result.  An
  operation that returns has therefore read and written live nodes only, and freed each node at most
  once.
\<close>

text \<open>A failing assertion of a debugging build has no result either.\<close>

definition DBUG_ASSERT :: "bool \<Rightarrow> unit option" where
  "DBUG_ASSERT b = (if b then Some () else None)"

lemma DBUG_ASSERT_simps [simp]: "DBUG_ASSERT True = Some ()" "DBUG_ASSERT False = None"
  by (simp_all add: DBUG_ASSERT_def)

lemma DBUG_ASSERT_bind: "(DBUG_ASSERT b \<bind> f) = Some x \<longleftrightarrow> b \<and> f () = Some x"
  by (cases b) simp_all

type_synonym 'n node_heap = "ptr \<rightharpoonup> 'n"

definition write_node :: "'n node_heap \<Rightarrow> ptr \<Rightarrow> ('n \<Rightarrow> 'n) \<Rightarrow> 'n node_heap option" where
  "write_node h p f = (if p = 0 then None else do { n \<leftarrow> h p; Some (h(p \<mapsto> f n)) })"

definition read_node :: "'n node_heap \<Rightarrow> ptr \<Rightarrow> 'n option" where
  "read_node h p = (if p = 0 then None else h p)"

definition free_node :: "'n node_heap \<Rightarrow> ptr \<Rightarrow> 'n node_heap option" where
  "free_node h p = do { read_node h p; Some (h(p := None)) }"

text \<open>The loop that frees a list: the successor is read before the node is freed.\<close>

partial_function (option) free_all :: "('n \<Rightarrow> ptr) \<Rightarrow> 'n node_heap \<Rightarrow> ptr \<Rightarrow> 'n node_heap option" where
  "free_all nxt h p =
     (if p = 0 then Some h
      else do { n \<leftarrow> read_node h p; h1 \<leftarrow> free_node h p; free_all nxt h1 (nxt n) })"

declare free_all.simps [code]

text \<open>The nodes \<open>ps\<close> form a chain from \<open>p\<close> to the null pointer.\<close>

fun chain :: "('n \<Rightarrow> ptr) \<Rightarrow> 'n node_heap \<Rightarrow> ptr \<Rightarrow> ptr list \<Rightarrow> bool" where
  "chain nxt h p [] \<longleftrightarrow> p = 0"
| "chain nxt h p (a # as) \<longleftrightarrow> p = a \<and> a \<noteq> 0 \<and> (\<exists>n. h a = Some n \<and> chain nxt h (nxt n) as)"

lemma chain_null [simp]: "chain nxt h 0 ps \<longleftrightarrow> ps = []"
  by (cases ps) auto

lemma chain_live: "chain nxt h p ps \<Longrightarrow> set ps \<subseteq> dom h \<and> 0 \<notin> set ps"
  by (induction ps arbitrary: p) auto

lemma chain_upd [heap_simps]: "a \<notin> set ps \<Longrightarrow> chain nxt (h(a := v)) p ps \<longleftrightarrow> chain nxt h p ps"
  by (induction ps arbitrary: p) auto

lemma chain_same_next: "h a = Some n \<Longrightarrow> nxt n' = nxt n \<Longrightarrow> chain nxt (h(a \<mapsto> n')) p ps \<longleftrightarrow> chain nxt h p ps"
  by (induction ps arbitrary: p) auto

text \<open>A chain without its last node, and what the last node needs to extend it.\<close>

lemma chain_snoc:
  assumes "distinct (ps @ [a, b])" "chain nxt h p (ps @ [a])" "h a = Some n" "nxt n' = b" "b \<noteq> 0" "nxt nb = 0"
  shows "chain nxt (h(a \<mapsto> n', b \<mapsto> nb)) p (ps @ [a, b])"
  using assms by (induction ps arbitrary: p) auto

lemma chain_last_next: "chain nxt h p (ps @ [a]) \<Longrightarrow> \<exists>n. h a = Some n \<and> nxt n = 0"
  by (induction ps arbitrary: p) auto

lemma node_access [simp]:
  "a \<noteq> 0 \<Longrightarrow> h a = Some n \<Longrightarrow> read_node h a = Some n"
  "a \<noteq> 0 \<Longrightarrow> h a = Some n \<Longrightarrow> write_node h a f = Some (h(a \<mapsto> f n))"
  "a \<noteq> 0 \<Longrightarrow> h a = Some n \<Longrightarrow> free_node h a = Some (h(a := None))"
  "read_node h 0 = None" "write_node h 0 f = None" "free_node h 0 = None"
  "h a = None \<Longrightarrow> read_node h a = None" "h a = None \<Longrightarrow> write_node h a f = None" "h a = None \<Longrightarrow> free_node h a = None"
  by (simp_all add: read_node_def write_node_def free_node_def)

text \<open>Freeing a chain of distinct nodes returns, and frees exactly these nodes.\<close>

lemma free_all_chain:
  assumes "chain nxt h p ps" "distinct ps"
  shows "free_all nxt h p = Some (h |` (- set ps))"
  using assms
proof (induction ps arbitrary: h p)
  case Nil
  then show ?case by (subst free_all.simps) (simp add: restrict_map_def)
next
  case (Cons a ps)
  obtain n where n: "h a = Some n" "a \<noteq> 0" "p = a" "chain nxt h (nxt n) ps" using Cons.prems(1) by auto
  have "chain nxt (h(a := None)) (nxt n) ps" using n(4) Cons.prems(2) chain_upd [of a ps nxt h None] by simp
  then have "free_all nxt (h(a := None)) (nxt n) = Some ((h(a := None)) |` (- set ps))"
    by (rule Cons.IH) (use Cons.prems(2) in simp)
  moreover have "(h(a := None)) |` (- set ps) = h |` (- set (a # ps))" by (auto simp: restrict_map_def)
  ultimately show ?case using n by (subst free_all.simps) simp
qed

end
