(* ===== verification/LifoBuffer.thy ===== *)
theory LifoBuffer
  imports Containers NodeHeap
begin

text \<open>
  The last-in-first-out buffers of \<^verbatim>\<open>sql_lifo_buffer.h\<close> that the multi-range read code fills with
  fixed-size elements: \<open>Forward_lifo_buffer\<close> grows towards higher addresses,
  \<open>Backward_lifo_buffer\<close> towards lower ones, and an iterator walks over either without reading
  from it.  A buffer is a record of addresses, the bytes are in the memory; \<open>TRASH_ALLOC\<close>,
  which only fills unused bytes in debugging builds, is left out.  A failing \<open>DBUG_ASSERT\<close> is the result
  \<open>None\<close>.
\<close>

section \<open>The buffers\<close>

record Lifo_buffer =
  size1 :: nat
  size2 :: nat
  write_ptr1 :: ptr
  write_ptr2 :: ptr
  read_ptr1 :: ptr
  read_ptr2 :: ptr
  start :: ptr
  buf_end :: ptr
  pos :: ptr

type_synonym lifo_state = "mem \<times> Lifo_buffer"

definition set_buffer_space :: "(Lifo_buffer \<Rightarrow> Lifo_buffer) \<Rightarrow> Lifo_buffer \<Rightarrow> ptr \<Rightarrow> ptr \<Rightarrow> Lifo_buffer" where
  "set_buffer_space reset b start_arg end_arg = reset (b\<lparr>start := start_arg, buf_end := end_arg\<rparr>)"

definition setup_writing :: "Lifo_buffer \<Rightarrow> nat \<Rightarrow> nat \<Rightarrow> Lifo_buffer" where
  "setup_writing b len1 len2 = b\<lparr>size1 := len1, size2 := len2\<rparr>"

definition setup_reading :: "Lifo_buffer \<Rightarrow> nat \<Rightarrow> nat \<Rightarrow> unit option" where
  "setup_reading b len1 len2 = do { DBUG_ASSERT (len1 = size1 b); DBUG_ASSERT (len2 = size2 b) }"

definition can_write :: "(Lifo_buffer \<Rightarrow> nat \<Rightarrow> bool) \<Rightarrow> Lifo_buffer \<Rightarrow> bool" where
  "can_write have_space_for b = have_space_for b (size1 b + size2 b)"

definition lifo_is_empty :: "(Lifo_buffer \<Rightarrow> nat) \<Rightarrow> Lifo_buffer \<Rightarrow> bool" where
  "lifo_is_empty used_size b \<longleftrightarrow> used_size b = 0"

subsection \<open>Forward\<close>

definition fwd_used_size :: "Lifo_buffer \<Rightarrow> nat" where
  "fwd_used_size b = pos b - start b"

definition fwd_reset :: "Lifo_buffer \<Rightarrow> Lifo_buffer" where
  "fwd_reset b = b\<lparr>pos := start b\<rparr>"

definition fwd_end_of_space :: "Lifo_buffer \<Rightarrow> ptr" where
  "fwd_end_of_space b = pos b"

definition fwd_have_space_for :: "Lifo_buffer \<Rightarrow> nat \<Rightarrow> bool" where
  "fwd_have_space_for b bytes \<longleftrightarrow> pos b + bytes < buf_end b"

definition fwd_write_bytes :: "lifo_state \<Rightarrow> ptr \<Rightarrow> nat \<Rightarrow> lifo_state option" where
  "fwd_write_bytes s data bytes =
     (let (m, b) = s
      in do { DBUG_ASSERT (fwd_have_space_for b bytes);
              Some (put_bytes m (pos b) (bytes_at m data bytes), b\<lparr>pos := pos b + bytes\<rparr>) })"

definition fwd_write :: "lifo_state \<Rightarrow> lifo_state option" where
  "fwd_write s =
     do { s1 \<leftarrow> fwd_write_bytes s (write_ptr1 (snd s)) (size1 (snd s));
          if size2 (snd s1) \<noteq> 0 then fwd_write_bytes s1 (write_ptr2 (snd s1)) (size2 (snd s1)) else Some s1 }"

definition fwd_have_data :: "Lifo_buffer \<Rightarrow> ptr \<Rightarrow> nat \<Rightarrow> bool" where
  "fwd_have_data b position bytes \<longleftrightarrow> int position - int (start b) \<ge> int bytes"

definition fwd_read_bytes :: "Lifo_buffer \<Rightarrow> ptr \<Rightarrow> nat \<Rightarrow> (ptr \<times> ptr) option" where
  "fwd_read_bytes b position bytes =
     do { DBUG_ASSERT (fwd_have_data b position bytes); Some (position - bytes, position - bytes) }"

text \<open>\<open>read\<close> returns true at the end, the new position, and the two data pointers.\<close>

type_synonym read_fun = "Lifo_buffer \<Rightarrow> ptr \<Rightarrow> ptr \<Rightarrow> ptr \<Rightarrow> (bool \<times> ptr \<times> ptr \<times> ptr) option"

definition fwd_read_at :: read_fun where
  "fwd_read_at b position ptr1 ptr2 =
     (if \<not> fwd_have_data b position (size1 b + size2 b) then Some (True, position, ptr1, ptr2)
      else do { (position1, ptr2') \<leftarrow>
                  (if size2 b \<noteq> 0 then fwd_read_bytes b position (size2 b) else Some (position, ptr2));
                (position2, ptr1') \<leftarrow> fwd_read_bytes b position1 (size1 b);
                Some (False, position2, ptr1', ptr2') })"

definition read_with :: "read_fun \<Rightarrow> Lifo_buffer \<Rightarrow> (bool \<times> Lifo_buffer) option" where
  "read_with read_at b =
     do { (eof, p, p1, p2) \<leftarrow> read_at b (pos b) (read_ptr1 b) (read_ptr2 b);
          Some (eof, b\<lparr>pos := p, read_ptr1 := p1, read_ptr2 := p2\<rparr>) }"

definition fwd_read :: "Lifo_buffer \<Rightarrow> (bool \<times> Lifo_buffer) option" where
  "fwd_read = read_with fwd_read_at"

definition fwd_grow :: "Lifo_buffer \<Rightarrow> ptr \<Rightarrow> ptr \<Rightarrow> Lifo_buffer option" where
  "fwd_grow b unused_start unused_end =
     (if unused_end \<ge> unused_start \<and> buf_end b = unused_start then Some (b\<lparr>buf_end := unused_end\<rparr>) else None)"

definition fwd_used_area :: "Lifo_buffer \<Rightarrow> ptr" where
  "fwd_used_area b = start b"

definition fwd_get_pos :: "Lifo_buffer \<Rightarrow> ptr" where
  "fwd_get_pos b = pos b"

subsection \<open>Backward\<close>

definition bwd_used_size :: "Lifo_buffer \<Rightarrow> nat" where
  "bwd_used_size b = buf_end b - pos b"

definition bwd_reset :: "Lifo_buffer \<Rightarrow> Lifo_buffer" where
  "bwd_reset b = b\<lparr>pos := buf_end b\<rparr>"

definition bwd_end_of_space :: "Lifo_buffer \<Rightarrow> ptr" where
  "bwd_end_of_space b = buf_end b"

definition bwd_have_space_for :: "Lifo_buffer \<Rightarrow> nat \<Rightarrow> bool" where
  "bwd_have_space_for b bytes \<longleftrightarrow> int (pos b) - int bytes \<ge> int (start b)"

definition bwd_write_bytes :: "lifo_state \<Rightarrow> ptr \<Rightarrow> nat \<Rightarrow> lifo_state option" where
  "bwd_write_bytes s data bytes =
     (let (m, b) = s
      in do { DBUG_ASSERT (bwd_have_space_for b bytes);
              let b1 = b\<lparr>pos := pos b - bytes\<rparr>;
              Some (put_bytes m (pos b1) (bytes_at m data bytes), b1) })"

definition bwd_write :: "lifo_state \<Rightarrow> lifo_state option" where
  "bwd_write s =
     do { s1 \<leftarrow> (if write_ptr2 (snd s) \<noteq> 0 then bwd_write_bytes s (write_ptr2 (snd s)) (size2 (snd s)) else Some s);
          bwd_write_bytes s1 (write_ptr1 (snd s1)) (size1 (snd s1)) }"

definition bwd_have_data :: "Lifo_buffer \<Rightarrow> ptr \<Rightarrow> nat \<Rightarrow> bool" where
  "bwd_have_data b position bytes \<longleftrightarrow> int (buf_end b) - int position \<ge> int bytes"

definition bwd_read_bytes :: "Lifo_buffer \<Rightarrow> ptr \<Rightarrow> nat \<Rightarrow> (ptr \<times> ptr) option" where
  "bwd_read_bytes b position bytes =
     do { DBUG_ASSERT (bwd_have_data b position bytes); Some (position + bytes, position) }"

definition bwd_read_at :: read_fun where
  "bwd_read_at b position ptr1 ptr2 =
     (if \<not> bwd_have_data b position (size1 b + size2 b) then Some (True, position, ptr1, ptr2)
      else do { (position1, ptr1') \<leftarrow> bwd_read_bytes b position (size1 b);
                (position2, ptr2') \<leftarrow>
                  (if size2 b \<noteq> 0 then bwd_read_bytes b position1 (size2 b) else Some (position1, ptr2));
                Some (False, position2, ptr1', ptr2') })"

definition bwd_read :: "Lifo_buffer \<Rightarrow> (bool \<times> Lifo_buffer) option" where
  "bwd_read = read_with bwd_read_at"

text \<open>The unused space returned, and the buffer without it.\<close>

definition bwd_remove_unused_space :: "Lifo_buffer \<Rightarrow> ptr \<times> ptr \<times> Lifo_buffer" where
  "bwd_remove_unused_space b = (start b, pos b, b\<lparr>start := pos b\<rparr>)"

definition bwd_used_area :: "Lifo_buffer \<Rightarrow> ptr" where
  "bwd_used_area b = pos b"

definition bwd_get_pos :: "Lifo_buffer \<Rightarrow> ptr" where
  "bwd_get_pos b = pos b"

subsection \<open>Iterator\<close>

record Lifo_buffer_iterator =
  li_pos :: ptr
  li_read_ptr1 :: ptr
  li_read_ptr2 :: ptr

definition lifo_iter_init :: "(Lifo_buffer \<Rightarrow> ptr) \<Rightarrow> Lifo_buffer \<Rightarrow> Lifo_buffer_iterator \<Rightarrow> Lifo_buffer_iterator" where
  "lifo_iter_init get_pos buf_arg it = it\<lparr>li_pos := get_pos buf_arg\<rparr>"

definition lifo_iter_read ::
    "read_fun \<Rightarrow> Lifo_buffer \<Rightarrow> Lifo_buffer_iterator \<Rightarrow> (bool \<times> Lifo_buffer_iterator) option" where
  "lifo_iter_read read_at buf it =
     do { (eof, p, p1, p2) \<leftarrow> read_at buf (li_pos it) (li_read_ptr1 it) (li_read_ptr2 it);
          Some (eof, \<lparr>li_pos = p, li_read_ptr1 = p1, li_read_ptr2 = p2\<rparr>) }"

section \<open>The elements of a buffer\<close>

type_synonym elem2 = "uchar list \<times> uchar list"

definition flat :: "elem2 list \<Rightarrow> uchar list" where
  "flat es = concat (map (\<lambda>e. fst e @ snd e) es)"

definition sized :: "nat \<Rightarrow> nat \<Rightarrow> elem2 list \<Rightarrow> bool" where
  "sized a b es \<longleftrightarrow> (\<forall>e\<in>set es. length (fst e) = a \<and> length (snd e) = b)"

lemma flat_simps [simp]:
  "flat [] = []" "flat (e # es) = fst e @ snd e @ flat es" "flat (es @ fs) = flat es @ flat fs"
  by (simp_all add: flat_def)

lemma sized_simps [simp]:
  "sized a b []" "sized a b (e # es) \<longleftrightarrow> length (fst e) = a \<and> length (snd e) = b \<and> sized a b es"
  "sized a b (es @ fs) \<longleftrightarrow> sized a b es \<and> sized a b fs" "sized a b (rev es) = sized a b es"
  by (auto simp: sized_def)

lemma length_flat: "sized a b es \<Longrightarrow> length (flat es) = length es * (a + b)"
  by (induction es) auto

text \<open>
  The elements of a buffer, most recent first, occupy the used space: from the oldest to the
  most recent in a forward buffer, the other way round in a backward buffer.
\<close>

definition fwd_holds :: "lifo_state \<Rightarrow> elem2 list \<Rightarrow> bool" where
  "fwd_holds s es \<longleftrightarrow> (case s of (m, b) \<Rightarrow>
     start b \<le> pos b \<and> pos b \<le> buf_end b \<and> sized (size1 b) (size2 b) es \<and>
     bytes_at m (start b) (pos b - start b) = flat (rev es))"

definition bwd_holds :: "lifo_state \<Rightarrow> elem2 list \<Rightarrow> bool" where
  "bwd_holds s es \<longleftrightarrow> (case s of (m, b) \<Rightarrow>
     start b \<le> pos b \<and> pos b \<le> buf_end b \<and> sized (size1 b) (size2 b) es \<and>
     bytes_at m (pos b) (buf_end b - pos b) = flat es)"

definition value_read :: "mem \<Rightarrow> Lifo_buffer \<Rightarrow> elem2" where
  "value_read m b = (bytes_at m (read_ptr1 b) (size1 b), bytes_at m (read_ptr2 b) (size2 b))"

lemma fwd_holds_len: "fwd_holds (m, b) es \<Longrightarrow> pos b = start b + length es * (size1 b + size2 b)"
  using length_flat [of "size1 b" "size2 b" "rev es"] length_bytes_at [of m "start b" "pos b - start b"]
  by (simp add: fwd_holds_def)

lemma bwd_holds_len: "bwd_holds (m, b) es \<Longrightarrow> buf_end b = pos b + length es * (size1 b + size2 b)"
  using length_flat [of "size1 b" "size2 b" es] length_bytes_at [of m "pos b" "buf_end b - pos b"]
  by (simp add: bwd_holds_def)

lemma bytes_at_split:
  assumes "bytes_at m p n = xs @ ys"
  shows "bytes_at m p (length xs) = xs" "bytes_at m (p + length xs) (length ys) = ys" "n = length xs + length ys"
proof -
  show n: "n = length xs + length ys" using assms length_bytes_at [of m p n] by simp
  have "bytes_at m p (length xs) @ bytes_at m (p + length xs) (length ys) = xs @ ys"
    using assms unfolding n bytes_at_append .
  then show "bytes_at m p (length xs) = xs" "bytes_at m (p + length xs) (length ys) = ys" by simp_all
qed

lemma fwd_read_holds:
  assumes "fwd_holds (m, b) (e # es)"
  shows "\<exists>p1 p2. fwd_read_at b (pos b) q1 q2 = Some (False, pos b - (size1 b + size2 b), p1, p2) \<and>
           bytes_at m p1 (size1 b) = fst e \<and> bytes_at m p2 (size2 b) = snd e"
    "fwd_holds (m, b\<lparr>pos := pos b - (size1 b + size2 b), read_ptr1 := q1, read_ptr2 := q2\<rparr>) es"
proof -
  have h: "start b \<le> pos b" "pos b \<le> buf_end b" "sized (size1 b) (size2 b) es"
    "length (fst e) = size1 b" "length (snd e) = size2 b"
    "bytes_at m (start b) (pos b - start b) = flat (rev es) @ fst e @ snd e"
    using assms by (simp_all add: fwd_holds_def)
  let ?n = "length (flat (rev es))"
  note A = bytes_at_split [OF h(6)] and B = bytes_at_split [OF bytes_at_split(2) [OF h(6)]]
  have p: "pos b = start b + ?n + size1 b + size2 b" using A(3) h(1,4,5) by simp
  show "\<exists>p1 p2. fwd_read_at b (pos b) q1 q2 = Some (False, pos b - (size1 b + size2 b), p1, p2) \<and>
           bytes_at m p1 (size1 b) = fst e \<and> bytes_at m p2 (size2 b) = snd e"
    using B h(4,5) p by (auto simp: fwd_read_at_def fwd_have_data_def fwd_read_bytes_def)
  show "fwd_holds (m, b\<lparr>pos := pos b - (size1 b + size2 b), read_ptr1 := q1, read_ptr2 := q2\<rparr>) es"
    using A(1) h p by (simp add: fwd_holds_def)
qed

lemma bwd_read_holds:
  assumes "bwd_holds (m, b) (e # es)"
  shows "\<exists>p1 p2. bwd_read_at b (pos b) q1 q2 = Some (False, pos b + (size1 b + size2 b), p1, p2) \<and>
           bytes_at m p1 (size1 b) = fst e \<and> bytes_at m p2 (size2 b) = snd e"
    "bwd_holds (m, b\<lparr>pos := pos b + (size1 b + size2 b), read_ptr1 := q1, read_ptr2 := q2\<rparr>) es"
proof -
  have h: "start b \<le> pos b" "pos b \<le> buf_end b" "sized (size1 b) (size2 b) es"
    "length (fst e) = size1 b" "length (snd e) = size2 b"
    "bytes_at m (pos b) (buf_end b - pos b) = fst e @ snd e @ flat es"
    using assms by (simp_all add: bwd_holds_def)
  note A = bytes_at_split [OF h(6)]
  have "bytes_at m (pos b + length (fst e)) (length (snd e @ flat es)) = snd e @ flat es" by (rule A(2))
  note B = bytes_at_split [OF this]
  have p: "buf_end b = pos b + size1 b + size2 b + length (flat es)" using A(3) h(2,4,5) by simp
  show "\<exists>p1 p2. bwd_read_at b (pos b) q1 q2 = Some (False, pos b + (size1 b + size2 b), p1, p2) \<and>
           bytes_at m p1 (size1 b) = fst e \<and> bytes_at m p2 (size2 b) = snd e"
    using A B h(4,5) p by (auto simp: bwd_read_at_def bwd_have_data_def bwd_read_bytes_def)
  show "bwd_holds (m, b\<lparr>pos := pos b + (size1 b + size2 b), read_ptr1 := q1, read_ptr2 := q2\<rparr>) es"
    using B(2) h p by (simp add: bwd_holds_def ac_simps)
qed

lemma read_end:
  assumes "0 < size1 b + size2 b"
  shows "fwd_holds (m, b) [] \<Longrightarrow> fwd_read b = Some (True, b)" "bwd_holds (m, b) [] \<Longrightarrow> bwd_read b = Some (True, b)"
proof -
  assume "fwd_holds (m, b) []"
  then have "\<not> fwd_have_data b (pos b) (size1 b + size2 b)"
    using assms fwd_holds_len [of m b "[]"] by (auto simp: fwd_have_data_def)
  then show "fwd_read b = Some (True, b)" by (simp add: fwd_read_def read_with_def fwd_read_at_def)
next
  assume "bwd_holds (m, b) []"
  then have "\<not> bwd_have_data b (pos b) (size1 b + size2 b)"
    using assms bwd_holds_len [of m b "[]"] by (auto simp: bwd_have_data_def)
  then show "bwd_read b = Some (True, b)" by (simp add: bwd_read_def read_with_def bwd_read_at_def)
qed

text \<open>Writing: the source areas lie outside the space of the buffer.\<close>

abbreviation outside :: "Lifo_buffer \<Rightarrow> ptr \<Rightarrow> nat \<Rightarrow> bool" where
  "outside b p n \<equiv> p + n \<le> start b \<or> buf_end b \<le> p"

lemma fwd_write_holds:
  assumes "fwd_holds (m, b) es" "pos b + (size1 b + size2 b) < buf_end b"
    "outside b (write_ptr1 b) (size1 b)" "outside b (write_ptr2 b) (size2 b)"
  shows "\<exists>m' b'. fwd_write (m, b) = Some (m', b') \<and> b' = b\<lparr>pos := pos b + (size1 b + size2 b)\<rparr> \<and>
      fwd_holds (m', b') ((bytes_at m (write_ptr1 b) (size1 b), bytes_at m (write_ptr2 b) (size2 b)) # es) \<and>
      (\<forall>a. a < pos b \<or> pos b + (size1 b + size2 b) \<le> a \<longrightarrow> m' a = m a)"
proof -
  have h: "start b \<le> pos b" "sized (size1 b) (size2 b) es" "bytes_at m (start b) (pos b - start b) = flat (rev es)"
    using assms(1) by (simp_all add: fwd_holds_def)
  let ?d1 = "bytes_at m (write_ptr1 b) (size1 b)" and ?d2 = "bytes_at m (write_ptr2 b) (size2 b)"
  let ?m = "put_bytes m (pos b) (?d1 @ ?d2)"
  have "bytes_at (put_bytes m (pos b) ?d1) (write_ptr2 b) (size2 b) = ?d2"
    using assms(2,4) h(1) by (intro bytes_at_put_other) auto
  then have w: "fwd_write (m, b) = Some (?m, b\<lparr>pos := pos b + (size1 b + size2 b)\<rparr>)"
    using assms(2) by (auto simp: fwd_write_def fwd_write_bytes_def fwd_have_space_for_def put_bytes_append add.assoc)
  have "bytes_at ?m (start b) (pos b - start b + (size1 b + size2 b)) = flat (rev es) @ ?d1 @ ?d2"
    unfolding bytes_at_append [of _ _ "pos b - start b"] using h(1,3) by (simp add: mem_simps)
  then show ?thesis using w h assms(2) by (auto simp: fwd_holds_def put_bytes_apply)
qed

lemma bwd_write_holds:
  assumes "bwd_holds (m, b) es" "start b + (size1 b + size2 b) \<le> pos b" "write_ptr2 b \<noteq> 0 \<or> size2 b = 0"
    "outside b (write_ptr1 b) (size1 b)" "outside b (write_ptr2 b) (size2 b)"
  shows "\<exists>m' b'. bwd_write (m, b) = Some (m', b') \<and> b' = b\<lparr>pos := pos b - (size1 b + size2 b)\<rparr> \<and>
      bwd_holds (m', b') ((bytes_at m (write_ptr1 b) (size1 b), bytes_at m (write_ptr2 b) (size2 b)) # es) \<and>
      (\<forall>a. a < pos b - (size1 b + size2 b) \<or> pos b \<le> a \<longrightarrow> m' a = m a)"
proof -
  have h: "pos b \<le> buf_end b" "sized (size1 b) (size2 b) es" "bytes_at m (pos b) (buf_end b - pos b) = flat es"
    using assms(1) by (simp_all add: bwd_holds_def)
  let ?d1 = "bytes_at m (write_ptr1 b) (size1 b)" and ?d2 = "bytes_at m (write_ptr2 b) (size2 b)"
  let ?q = "pos b - (size1 b + size2 b)"
  let ?m = "put_bytes (put_bytes m (pos b - size2 b) ?d2) ?q ?d1"
  have "bytes_at (put_bytes m (pos b - size2 b) ?d2) (write_ptr1 b) (size1 b) = ?d1"
    using assms(2,4) h(1) by (intro bytes_at_put_other) auto
  then have w: "bwd_write (m, b) = Some (?m, b\<lparr>pos := ?q\<rparr>)"
    using assms(2,3) by (auto simp: bwd_write_def bwd_write_bytes_def bwd_have_space_for_def Let_def ac_simps)
  have q: "buf_end b - ?q = size1 b + (size2 b + (buf_end b - pos b))" "?q + size1 b = pos b - size2 b"
    "?q + (size1 b + size2 b) = pos b" "?q + size1 b + size2 b = pos b" using assms(2) h(1) by auto
  have "bytes_at ?m ?q (buf_end b - ?q) = ?d1 @ ?d2 @ flat es"
    unfolding q(1) bytes_at_append q(2,4) using assms(2) h(1,3) by (simp add: mem_simps)
  then show ?thesis using w h assms(2) by (auto simp: bwd_holds_def put_bytes_apply)
qed

text \<open>A forward buffer in which the element would not leave a byte of the space unused fails the assertion of one of the
  two parts.\<close>

lemma fwd_write_full:
  "buf_end b \<le> pos b + (size1 b + size2 b) \<Longrightarrow> fwd_write (m, b) = None"
  by (auto simp: fwd_write_def fwd_write_bytes_def fwd_have_space_for_def DBUG_ASSERT_def)

section \<open>Both buffers implement the contract of a last-in-first-out container\<close>

text \<open>
  A caller keeps the data of the next element in its own memory, at two addresses, points the
  buffer at them and calls \<open>write\<close>; after \<open>read\<close> it copies the element the buffer points to.  Once
  an assertion has failed there is no buffer any more.
\<close>

definition put_source :: "ptr \<times> ptr \<Rightarrow> lifo_state \<Rightarrow> elem2 \<Rightarrow> lifo_state" where
  "put_source src s e =
     (put_bytes (put_bytes (fst s) (fst src) (fst e)) (snd src) (snd e),
      (snd s)\<lparr>write_ptr1 := fst src, write_ptr2 := snd src\<rparr>)"

definition fwd_put :: "ptr \<times> ptr \<Rightarrow> lifo_state option \<Rightarrow> elem2 \<Rightarrow> lifo_state option" where
  "fwd_put src t e = do { s \<leftarrow> t; fwd_write (put_source src s e) }"

definition bwd_put :: "ptr \<times> ptr \<Rightarrow> lifo_state option \<Rightarrow> elem2 \<Rightarrow> lifo_state option" where
  "bwd_put src t e = do { s \<leftarrow> t; bwd_write (put_source src s e) }"

definition take_with :: "(Lifo_buffer \<Rightarrow> (bool \<times> Lifo_buffer) option) \<Rightarrow> lifo_state option \<Rightarrow>
    elem2 option \<times> lifo_state option" where
  "take_with read t =
     (case do { (m, b) \<leftarrow> t; (eof, b1) \<leftarrow> read b; Some (m, eof, b1) } of
        None \<Rightarrow> (None, None)
      | Some (m, eof, b1) \<Rightarrow> (if eof then None else Some (value_read m b1), Some (m, b1)))"

abbreviation fwd_take :: "lifo_state option \<Rightarrow> elem2 option \<times> lifo_state option" where
  "fwd_take \<equiv> take_with fwd_read"

abbreviation bwd_take :: "lifo_state option \<Rightarrow> elem2 option \<times> lifo_state option" where
  "bwd_take \<equiv> take_with bwd_read"

text \<open>The shape of a buffer, fixed while elements come and go: element sizes and space.\<close>

record lifo_shape =
  sh1 :: nat
  sh2 :: nat
  sh_start :: ptr
  sh_end :: ptr

definition has_shape :: "lifo_shape \<Rightarrow> Lifo_buffer \<Rightarrow> bool" where
  "has_shape z b \<longleftrightarrow> size1 b = sh1 z \<and> size2 b = sh2 z \<and> start b = sh_start z \<and> buf_end b = sh_end z"

definition source_ok :: "lifo_shape \<Rightarrow> ptr \<times> ptr \<Rightarrow> bool" where
  "source_ok z src \<longleftrightarrow>
     (fst src + sh1 z \<le> sh_start z \<or> sh_end z \<le> fst src) \<and> (snd src + sh2 z \<le> sh_start z \<or> sh_end z \<le> snd src) \<and>
     (fst src + sh1 z \<le> snd src \<or> snd src + sh2 z \<le> fst src) \<and> snd src \<noteq> 0"

text \<open>A backward buffer can use all of its space, a forward buffer keeps one byte (\<open>spare\<close>).\<close>

definition lifo_fits :: "nat \<Rightarrow> lifo_shape \<Rightarrow> ptr \<times> ptr \<Rightarrow> elem2 list \<Rightarrow> bool" where
  "lifo_fits spare z src es \<longleftrightarrow>
     source_ok z src \<and> sized (sh1 z) (sh2 z) es \<and> sh_start z + length es * (sh1 z + sh2 z) + spare \<le> sh_end z"

lemma lifo_fits_split: "lifo_fits k z src (es @ fs) \<Longrightarrow> lifo_fits k z src es \<and> lifo_fits k z src fs"
  by (auto simp: lifo_fits_def add_mult_distrib)

definition shaped :: "(lifo_state \<Rightarrow> elem2 list \<Rightarrow> bool) \<Rightarrow> lifo_shape \<Rightarrow> lifo_state option \<Rightarrow> elem2 list \<Rightarrow> bool" where
  "shaped holds z t es \<longleftrightarrow> (\<exists>s. t = Some s \<and> has_shape z (snd s) \<and> holds s es)"

lemma put_source_reads:
  assumes "source_ok z src" "sized (sh1 z) (sh2 z) [e]"
  shows "bytes_at (fst (put_source src s e)) (fst src) (sh1 z) = fst e"
    "bytes_at (fst (put_source src s e)) (snd src) (sh2 z) = snd e"
    "\<lbrakk>sh_start z \<le> p; p + n \<le> sh_end z\<rbrakk> \<Longrightarrow> bytes_at (fst (put_source src s e)) p n = bytes_at (fst s) p n"
proof -
  show "bytes_at (fst (put_source src s e)) (fst src) (sh1 z) = fst e"
    "bytes_at (fst (put_source src s e)) (snd src) (sh2 z) = snd e"
    using assms by (auto simp: put_source_def source_ok_def bytes_at_put_other bytes_at_put_same)
  assume "sh_start z \<le> p" "p + n \<le> sh_end z"
  then show "bytes_at (fst (put_source src s e)) p n = bytes_at (fst s) p n"
    unfolding put_source_def fst_conv using assms by (subst bytes_at_put_other; auto simp: source_ok_def)+
qed

lemma fwd_put_holds:
  assumes "shaped fwd_holds z t es" "lifo_fits 1 z src (e # es)"
  shows "shaped fwd_holds z (fwd_put src t e) (e # es)"
proof -
  obtain s where t: "t = Some s" "has_shape z (snd s)" "fwd_holds s es" using assms(1) by (auto simp: shaped_def)
  obtain m b where s: "s = (m, b)" by (cases s)
  obtain m1 b1 where p: "put_source src s e = (m1, b1)" by (cases "put_source src s e")
  have b1: "b1 = b\<lparr>write_ptr1 := fst src, write_ptr2 := snd src\<rparr>" using p s by (simp add: put_source_def)
  have f: "source_ok z src" "sized (sh1 z) (sh2 z) [e]" "sh_start z + (length es + 1) * (sh1 z + sh2 z) < sh_end z"
    using assms(2) by (simp_all add: lifo_fits_def)
  note R = put_source_reads [OF f(1,2), where s = s, unfolded p fst_conv]
  have z: "size1 b = sh1 z" "size2 b = sh2 z" "start b = sh_start z" "buf_end b = sh_end z"
    using t(2) s by (simp_all add: has_shape_def)
  have h: "fwd_holds (m1, b1) es"
    using t(3) s R(3) [of "start b" "pos b - start b"] z by (auto simp: fwd_holds_def b1)
  have len: "pos b = start b + length es * (size1 b + size2 b)" using fwd_holds_len t(3) s by blast
  have "\<exists>m' b'. fwd_write (m1, b1) = Some (m', b') \<and> b' = b1\<lparr>pos := pos b1 + (size1 b1 + size2 b1)\<rparr> \<and>
      fwd_holds (m', b') ((bytes_at m1 (write_ptr1 b1) (size1 b1), bytes_at m1 (write_ptr2 b1) (size2 b1)) # es) \<and>
      (\<forall>a. a < pos b1 \<or> pos b1 + (size1 b1 + size2 b1) \<le> a \<longrightarrow> m' a = m1 a)"
    by (rule fwd_write_holds [OF h]) (use f len z in \<open>auto simp: b1 source_ok_def\<close>)
  then show ?thesis using R(1,2) z by (auto simp: fwd_put_def t(1) p b1 has_shape_def shaped_def)
qed

lemma bwd_put_holds:
  assumes "shaped bwd_holds z t es" "lifo_fits 0 z src (e # es)"
  shows "shaped bwd_holds z (bwd_put src t e) (e # es)"
proof -
  obtain s where t: "t = Some s" "has_shape z (snd s)" "bwd_holds s es" using assms(1) by (auto simp: shaped_def)
  obtain m b where s: "s = (m, b)" by (cases s)
  obtain m1 b1 where p: "put_source src s e = (m1, b1)" by (cases "put_source src s e")
  have b1: "b1 = b\<lparr>write_ptr1 := fst src, write_ptr2 := snd src\<rparr>" using p s by (simp add: put_source_def)
  have f: "source_ok z src" "sized (sh1 z) (sh2 z) [e]" "sh_start z + (length es + 1) * (sh1 z + sh2 z) \<le> sh_end z"
    using assms(2) by (simp_all add: lifo_fits_def)
  note R = put_source_reads [OF f(1,2), where s = s, unfolded p fst_conv]
  have z: "size1 b = sh1 z" "size2 b = sh2 z" "start b = sh_start z" "buf_end b = sh_end z"
    using t(2) s by (simp_all add: has_shape_def)
  have h: "bwd_holds (m1, b1) es"
    using t(3) s R(3) [of "pos b" "buf_end b - pos b"] z by (auto simp: bwd_holds_def b1)
  have len: "buf_end b = pos b + length es * (size1 b + size2 b)" using bwd_holds_len t(3) s by blast
  have "\<exists>m' b'. bwd_write (m1, b1) = Some (m', b') \<and> b' = b1\<lparr>pos := pos b1 - (size1 b1 + size2 b1)\<rparr> \<and>
      bwd_holds (m', b') ((bytes_at m1 (write_ptr1 b1) (size1 b1), bytes_at m1 (write_ptr2 b1) (size2 b1)) # es) \<and>
      (\<forall>a. a < pos b1 - (size1 b1 + size2 b1) \<or> pos b1 \<le> a \<longrightarrow> m' a = m1 a)"
    by (rule bwd_write_holds [OF h]) (use f len z in \<open>auto simp: b1 source_ok_def\<close>)
  then show ?thesis using R(1,2) z by (auto simp: bwd_put_def t(1) p b1 has_shape_def shaped_def)
qed

lemma fwd_take_holds:
  assumes "shaped fwd_holds z t (e # es)"
  shows "fst (fwd_take t) = Some e" "shaped fwd_holds z (snd (fwd_take t)) es"
proof -
  obtain m b where t: "t = Some (m, b)" "has_shape z b" "fwd_holds (m, b) (e # es)"
    using assms by (auto simp: shaped_def)
  note R = fwd_read_holds [OF t(3)]
  show "fst (fwd_take t) = Some e" "shaped fwd_holds z (snd (fwd_take t)) es"
    using R(1) [of "read_ptr1 b" "read_ptr2 b"] R(2) t(2)
    by (auto simp: take_with_def t(1) fwd_read_def read_with_def value_read_def has_shape_def shaped_def)
qed

lemma bwd_take_holds:
  assumes "shaped bwd_holds z t (e # es)"
  shows "fst (bwd_take t) = Some e" "shaped bwd_holds z (snd (bwd_take t)) es"
proof -
  obtain m b where t: "t = Some (m, b)" "has_shape z b" "bwd_holds (m, b) (e # es)"
    using assms by (auto simp: shaped_def)
  note R = bwd_read_holds [OF t(3)]
  show "fst (bwd_take t) = Some e" "shaped bwd_holds z (snd (bwd_take t)) es"
    using R(1) [of "read_ptr1 b" "read_ptr2 b"] R(2) t(2)
    by (auto simp: take_with_def t(1) bwd_read_def read_with_def value_read_def has_shape_def shaped_def)
qed

interpretation fb: lifo "shaped fwd_holds z" "lifo_fits 1 z src" Some fwd_take "fwd_put src"
  by unfold_locales (use fwd_take_holds fwd_put_holds lifo_fits_split in blast)+

interpretation bb: lifo "shaped bwd_holds z" "lifo_fits 0 z src" Some bwd_take "bwd_put src"
  by unfold_locales (use bwd_take_holds bwd_put_holds lifo_fits_split in blast)+

section \<open>Properties\<close>

lemma reset_holds:
  "start b \<le> buf_end b \<Longrightarrow> fwd_holds (m, fwd_reset b) []" "start b \<le> buf_end b \<Longrightarrow> bwd_holds (m, bwd_reset b) []"
  by (simp_all add: fwd_holds_def bwd_holds_def fwd_reset_def bwd_reset_def)

lemma reset_shape [simp]:
  "has_shape z (fwd_reset b) = has_shape z b" "has_shape z (bwd_reset b) = has_shape z b"
  by (simp_all add: has_shape_def fwd_reset_def bwd_reset_def)

lemma fwd_fill_full:
  assumes "has_shape z b" "source_ok z src" "sized (sh1 z) (sh2 z) es" "0 < sh1 z + sh2 z" "es \<noteq> []"
    "sh_start z + length es * (sh1 z + sh2 z) = sh_end z"
  shows "fill (fwd_put src) es (Some (m, fwd_reset b)) = None"
proof -
  obtain xs e where es: "es = xs @ [e]" using assms(5) by (metis append_butlast_last_id)
  have f: "lifo_fits 1 z src (rev xs @ [])" using assms(2-4,6) es by (auto simp: lifo_fits_def)
  have "start b \<le> buf_end b" using assms(1,6) by (simp add: has_shape_def)
  then have "shaped fwd_holds z (Some (m, fwd_reset b)) []" using assms(1) reset_holds(1) [of b m] by (simp add: shaped_def)
  from fb.fill_first [OF this f] obtain m1 b1 where x: "fill (fwd_put src) xs (Some (m, fwd_reset b)) = Some (m1, b1)"
    "has_shape z b1" "fwd_holds (m1, b1) (rev xs)" by (auto simp: shaped_def)
  have "buf_end b1 = pos b1 + (size1 b1 + size2 b1)"
    using fwd_holds_len [OF x(3)] x(2) assms(6) es by (simp add: has_shape_def)
  then show ?thesis using x(1) by (simp add: es fill_def fwd_put_def put_source_def fwd_write_full)
qed

text \<open>
  C6: In either direction, elements written to a buffer with enough space fail no assertion and are read back
  completely and unchanged, the last one first.  A backward buffer can be filled completely; a
  forward buffer has enough space as long as one byte of it stays unused, and filling it to its last byte
  fails the assertion of \<open>write_bytes\<close>, whose test is strict.  The caller keeps the data of the next element in its own memory, at two places apart from
  each other and from the space of the buffer, the second one not at the null address.
\<close>

theorem lifo_buffers_reverse_order:
  assumes "has_shape z b" "source_ok z src" "sized (sh1 z) (sh2 z) es"
  shows "(sh_start z + length es * (sh1 z + sh2 z) < sh_end z \<longrightarrow>
            fst (drain fwd_take (length es) (fill (fwd_put src) es (Some (m, fwd_reset b)))) = map Some (rev es)) \<and>
         (sh_start z + length es * (sh1 z + sh2 z) \<le> sh_end z \<longrightarrow>
            fst (drain bwd_take (length es) (fill (bwd_put src) es (Some (m, bwd_reset b)))) = map Some (rev es)) \<and>
         (sh_start z + length es * (sh1 z + sh2 z) = sh_end z \<and> es \<noteq> [] \<and> 0 < sh1 z + sh2 z \<longrightarrow>
            fill (fwd_put src) es (Some (m, fwd_reset b)) = None)"
proof -
  have r: "shaped fwd_holds z (Some (m, fwd_reset b)) []" "shaped bwd_holds z (Some (m, bwd_reset b)) []"
    if "sh_start z \<le> sh_end z"
    using that assms(1) reset_holds [of b m] by (simp_all add: shaped_def has_shape_def [of z b])
  show ?thesis
    using fb.lifo_order(1) [of z "Some (m, fwd_reset b)" src es] bb.lifo_order(1) [of z "Some (m, bwd_reset b)" src es]
      fwd_fill_full [OF assms] r assms(2,3) by (simp add: lifo_fits_def)
qed

definition sample_buffer :: Lifo_buffer where
  "sample_buffer = \<lparr>size1 = 2, size2 = 1, write_ptr1 = 0, write_ptr2 = 0, read_ptr1 = 0, read_ptr2 = 0,
     start = 10, buf_end = 17, pos = 10\<rparr>"

theorem lifo_buffers_reverse_order_witness:
  "fst (drain fwd_take (length [([1, 2], [3]), ([4, 5], [6 :: uchar])])
     (fill (fwd_put (2, 5)) [([1, 2], [3]), ([4, 5], [6])] (Some (\<lambda>_. 0, fwd_reset sample_buffer)))) =
       [Some ([4, 5], [6]), Some ([1, 2], [3])] \<and>
   fill (fwd_put (2, 5)) [([1, 2], [3]), ([4, 5], [6])] (Some (\<lambda>_. 0, fwd_reset (sample_buffer\<lparr>buf_end := 16\<rparr>))) = None"
proof -
  let ?es = "[([1, 2], [3]), ([4, 5], [6 :: uchar])]"
  have z: "has_shape \<lparr>sh1 = 2, sh2 = 1, sh_start = 10, sh_end = 17\<rparr> sample_buffer"
    "has_shape \<lparr>sh1 = 2, sh2 = 1, sh_start = 10, sh_end = 16\<rparr> (sample_buffer\<lparr>buf_end := 16\<rparr>)"
    by (simp_all add: has_shape_def sample_buffer_def)
  show ?thesis
    using lifo_buffers_reverse_order [OF z(1), of "(2, 5)" ?es "\<lambda>_. 0"]
      lifo_buffers_reverse_order [OF z(2), of "(2, 5)" ?es "\<lambda>_. 0"]
    by (simp add: source_ok_def)
qed

text \<open>
  \<open>can_write\<close> guards \<open>write\<close>: if it holds, \<open>write\<close> adds the element at the write pointers,
  stays inside the space of the buffer and changes no other byte.  A forward buffer always
  leaves at least one byte of its space unused, a backward buffer can be filled completely.
\<close>

theorem can_write_safe:
  assumes "outside b (write_ptr1 b) (size1 b)" "outside b (write_ptr2 b) (size2 b)" "write_ptr2 b \<noteq> 0"
  shows "(fwd_holds (m, b) es \<longrightarrow>
           (can_write fwd_have_space_for b \<longleftrightarrow> start b + (length es + 1) * (size1 b + size2 b) < buf_end b) \<and>
           (can_write fwd_have_space_for b \<longrightarrow>
              (\<exists>m' b'. fwd_write (m, b) = Some (m', b') \<and>
                 fwd_holds (m', b') ((bytes_at m (write_ptr1 b) (size1 b), bytes_at m (write_ptr2 b) (size2 b)) # es) \<and>
                 (\<forall>a. a < start b \<or> buf_end b \<le> a \<longrightarrow> m' a = m a)))) \<and>
         (bwd_holds (m, b) es \<longrightarrow>
           (can_write bwd_have_space_for b \<longleftrightarrow> start b + (length es + 1) * (size1 b + size2 b) \<le> buf_end b) \<and>
           (can_write bwd_have_space_for b \<longrightarrow>
              (\<exists>m' b'. bwd_write (m, b) = Some (m', b') \<and>
                 bwd_holds (m', b') ((bytes_at m (write_ptr1 b) (size1 b), bytes_at m (write_ptr2 b) (size2 b)) # es) \<and>
                 (\<forall>a. a < start b \<or> buf_end b \<le> a \<longrightarrow> m' a = m a))))"
proof (intro conjI [of "_ \<longrightarrow> _" "_ \<longrightarrow> _"] impI [of "fwd_holds _ _"] impI [of "bwd_holds _ _"])
  assume h: "fwd_holds (m, b) es"
  have l: "pos b = start b + length es * (size1 b + size2 b)" by (rule fwd_holds_len [OF h])
  show "(can_write fwd_have_space_for b \<longleftrightarrow> start b + (length es + 1) * (size1 b + size2 b) < buf_end b) \<and>
           (can_write fwd_have_space_for b \<longrightarrow>
              (\<exists>m' b'. fwd_write (m, b) = Some (m', b') \<and>
                 fwd_holds (m', b') ((bytes_at m (write_ptr1 b) (size1 b), bytes_at m (write_ptr2 b) (size2 b)) # es) \<and>
                 (\<forall>a. a < start b \<or> buf_end b \<le> a \<longrightarrow> m' a = m a)))"
    using fwd_write_holds [OF h _ assms(1,2)] h l by (auto simp: can_write_def fwd_have_space_for_def)
next
  assume h: "bwd_holds (m, b) es"
  have l: "buf_end b = pos b + length es * (size1 b + size2 b)" by (rule bwd_holds_len [OF h])
  have g: "can_write bwd_have_space_for b \<longleftrightarrow> start b + (size1 b + size2 b) \<le> pos b"
    by (auto simp: can_write_def bwd_have_space_for_def)
  show "(can_write bwd_have_space_for b \<longleftrightarrow> start b + (length es + 1) * (size1 b + size2 b) \<le> buf_end b) \<and>
           (can_write bwd_have_space_for b \<longrightarrow>
              (\<exists>m' b'. bwd_write (m, b) = Some (m', b') \<and>
                 bwd_holds (m', b') ((bytes_at m (write_ptr1 b) (size1 b), bytes_at m (write_ptr2 b) (size2 b)) # es) \<and>
                 (\<forall>a. a < start b \<or> buf_end b \<le> a \<longrightarrow> m' a = m a)))"
    using bwd_write_holds [OF h _ _ assms(1,2)] assms(3) l unfolding g by auto
qed

theorem can_write_safe_witness:
  "can_write fwd_have_space_for (sample_buffer\<lparr>write_ptr2 := 5\<rparr>)"
proof -
  have "fwd_holds (\<lambda>_. 0, sample_buffer\<lparr>write_ptr2 := 5\<rparr>) []" by (simp add: fwd_holds_def sample_buffer_def)
  then show ?thesis using can_write_safe [of "sample_buffer\<lparr>write_ptr2 := 5\<rparr>" "\<lambda>_. 0" "[]"]
    by (simp add: sample_buffer_def)
qed

text \<open>
  Walking with an iterator.
\<close>

primrec iter_values ::
    "read_fun \<Rightarrow> mem \<Rightarrow> Lifo_buffer \<Rightarrow> nat \<Rightarrow> Lifo_buffer_iterator \<Rightarrow> elem2 option list option" where
  "iter_values read_at m b 0 it = Some []"
| "iter_values read_at m b (Suc n) it =
     do { (eof, it') \<leftarrow> lifo_iter_read read_at b it;
          vs \<leftarrow> iter_values read_at m b n it';
          Some ((if eof then None
                 else Some (bytes_at m (li_read_ptr1 it') (size1 b), bytes_at m (li_read_ptr2 it') (size2 b))) # vs) }"

lemma iter_values_step:
  assumes "read_at b (li_pos it) (li_read_ptr1 it) (li_read_ptr2 it) = Some (False, p, p1, p2)"
    and "iter_values read_at m b n \<lparr>li_pos = p, li_read_ptr1 = p1, li_read_ptr2 = p2\<rparr> = Some vs"
  shows "iter_values read_at m b (Suc n) it = Some (Some (bytes_at m p1 (size1 b), bytes_at m p2 (size2 b)) # vs)"
  using assms by (simp add: lifo_iter_read_def)

lemma fwd_read_at_pos [simp]: "fwd_read_at (b\<lparr>pos := q\<rparr>) = fwd_read_at b"
  by (intro ext) (simp add: fwd_read_at_def fwd_have_data_def fwd_read_bytes_def)

lemma bwd_read_at_pos [simp]: "bwd_read_at (b\<lparr>pos := q\<rparr>) = bwd_read_at b"
  by (intro ext) (simp add: bwd_read_at_def bwd_have_data_def bwd_read_bytes_def)

lemma fwd_iter_values:
  "0 < size1 b + size2 b \<Longrightarrow> fwd_holds (m, b\<lparr>pos := li_pos it\<rparr>) es \<Longrightarrow>
   iter_values fwd_read_at m b (length es + 1) it = Some (map Some es @ [None])"
proof (induction es arbitrary: it)
  case Nil
  then have "\<not> fwd_have_data b (li_pos it) (size1 b + size2 b)"
    using fwd_holds_len [OF Nil(2)] by (auto simp: fwd_have_data_def)
  then show ?case by (simp add: lifo_iter_read_def fwd_read_at_def)
next
  case (Cons e es)
  obtain p1 p2 where R: "fwd_read_at b (li_pos it) (li_read_ptr1 it) (li_read_ptr2 it) =
      Some (False, li_pos it - (size1 b + size2 b), p1, p2)" "bytes_at m p1 (size1 b) = fst e" "bytes_at m p2 (size2 b) = snd e"
    using fwd_read_holds(1) [OF Cons.prems(2), of "li_read_ptr1 it" "li_read_ptr2 it"] by auto
  have "fwd_holds (m, b\<lparr>pos := li_pos it - (size1 b + size2 b)\<rparr>) es"
    using fwd_read_holds(2) [OF Cons.prems(2), of "read_ptr1 b" "read_ptr2 b"] by (simp add: fwd_holds_def)
  then show ?case
    using iter_values_step [OF R(1) Cons.IH [OF Cons.prems(1)]] R(2,3) by (simp del: iter_values.simps)
qed

lemma bwd_iter_values:
  "0 < size1 b + size2 b \<Longrightarrow> bwd_holds (m, b\<lparr>pos := li_pos it\<rparr>) es \<Longrightarrow>
   iter_values bwd_read_at m b (length es + 1) it = Some (map Some es @ [None])"
proof (induction es arbitrary: it)
  case Nil
  then have "\<not> bwd_have_data b (li_pos it) (size1 b + size2 b)"
    using bwd_holds_len [OF Nil(2)] by (auto simp: bwd_have_data_def)
  then show ?case by (simp add: lifo_iter_read_def bwd_read_at_def)
next
  case (Cons e es)
  obtain p1 p2 where R: "bwd_read_at b (li_pos it) (li_read_ptr1 it) (li_read_ptr2 it) =
      Some (False, li_pos it + (size1 b + size2 b), p1, p2)" "bytes_at m p1 (size1 b) = fst e" "bytes_at m p2 (size2 b) = snd e"
    using bwd_read_holds(1) [OF Cons.prems(2), of "li_read_ptr1 it" "li_read_ptr2 it"] by auto
  have "bwd_holds (m, b\<lparr>pos := li_pos it + (size1 b + size2 b)\<rparr>) es"
    using bwd_read_holds(2) [OF Cons.prems(2), of "read_ptr1 b" "read_ptr2 b"] by (simp add: bwd_holds_def)
  then show ?case
    using iter_values_step [OF R(1) Cons.IH [OF Cons.prems(1)]] R(2,3) by (simp del: iter_values.simps)
qed

text \<open>
  an iterator over a buffer of non-empty elements returns the same elements in the same
  order as reading would, then reports the end.
\<close>

theorem lifo_iterator_enumerates:
  assumes "0 < size1 b + size2 b"
  shows "(fwd_holds (m, b) es \<longrightarrow>
           iter_values fwd_read_at m b (length es + 1) (lifo_iter_init fwd_get_pos b it) = Some (map Some es @ [None])) \<and>
         (bwd_holds (m, b) es \<longrightarrow>
           iter_values bwd_read_at m b (length es + 1) (lifo_iter_init bwd_get_pos b it) = Some (map Some es @ [None]))"
  using fwd_iter_values [OF assms, of m _ es] bwd_iter_values [OF assms, of m _ es]
  by (simp add: lifo_iter_init_def fwd_get_pos_def bwd_get_pos_def)

theorem lifo_iterator_enumerates_witness:
  "iter_values fwd_read_at (\<lambda>_. 7) (sample_buffer\<lparr>pos := 13\<rparr>) (length [([7, 7], [7]) :: elem2] + 1)
     (lifo_iter_init fwd_get_pos (sample_buffer\<lparr>pos := 13\<rparr>) \<lparr>li_pos = 0, li_read_ptr1 = 0, li_read_ptr2 = 0\<rparr>) =
   Some [Some ([7, 7], [7]), None]"
proof -
  have "fwd_holds (\<lambda>_. 7, sample_buffer\<lparr>pos := 13\<rparr>) [([7, 7], [7])]"
    by (simp add: fwd_holds_def sample_buffer_def bytes_at_def upt_rec)
  note h = this
  have "iter_values fwd_read_at (\<lambda>_. 7) (sample_buffer\<lparr>pos := 13\<rparr>) (length [([7, 7], [7]) :: elem2] + 1)
     (lifo_iter_init fwd_get_pos (sample_buffer\<lparr>pos := 13\<rparr>) \<lparr>li_pos = 0, li_read_ptr1 = 0, li_read_ptr2 = 0\<rparr>) =
     Some (map Some [([7, 7], [7])] @ [None])"
    by (rule lifo_iterator_enumerates [THEN conjunct1, THEN mp, OF _ h]) (simp add: sample_buffer_def)
  then show ?thesis by simp
qed

text \<open>
  the space a backward buffer gives up is adjacent to a forward buffer that ends where the
  backward buffer started, so the forward buffer can grow into it: both keep their
  elements, the two spaces stay disjoint, and a write to the forward buffer leaves the
  elements of the backward one alone.
\<close>

theorem space_handover:
  assumes "fwd_holds (m, f) es" "bwd_holds (m, b) fs" "buf_end f = start b"
    and "bwd_remove_unused_space b = (us, ue, b')"
  shows "\<exists>f'. fwd_grow f us ue = Some f' \<and> fwd_holds (m, f') es \<and> bwd_holds (m, b') fs \<and>
           buf_end f' = start b' \<and> bwd_used_size b' = bwd_used_size b \<and>
           (outside f' (write_ptr1 f') (size1 f') \<and> outside f' (write_ptr2 f') (size2 f') \<and> can_write fwd_have_space_for f' \<longrightarrow>
              (\<exists>m' g. fwd_write (m, f') = Some (m', g) \<and> bwd_holds (m', b') fs))"
proof -
  have u: "us = start b" "ue = pos b" "b' = b\<lparr>start := pos b\<rparr>"
    using assms(4) by (auto simp: bwd_remove_unused_space_def)
  have le: "start b \<le> pos b" "pos f \<le> buf_end f" using assms(1,2) by (simp_all add: bwd_holds_def fwd_holds_def)
  define f' where "f' = f\<lparr>buf_end := pos b\<rparr>"
  have f: "fwd_holds (m, f') es" using assms(1,3) le by (simp add: fwd_holds_def f'_def)
  have b: "bwd_holds (m, b') fs" using assms(2) u by (simp add: bwd_holds_def)
  have "\<exists>m' g. fwd_write (m, f') = Some (m', g) \<and> bwd_holds (m', b') fs"
    if w: "outside f' (write_ptr1 f') (size1 f')" "outside f' (write_ptr2 f') (size2 f')" "can_write fwd_have_space_for f'"
  proof -
    have sp: "pos f' + (size1 f' + size2 f') < buf_end f'" using w(3) by (simp add: can_write_def fwd_have_space_for_def)
    then obtain m' g where g: "fwd_write (m, f') = Some (m', g)" "\<And>a. pos f' + (size1 f' + size2 f') \<le> a \<Longrightarrow> m' a = m a"
      using fwd_write_holds [OF f _ w(1,2)] by auto
    have "bytes_at m' (pos b') n = bytes_at m (pos b') n" for n
      using g(2) sp u by (intro nth_equalityI) (auto simp: nth_bytes_at f'_def)
    then show ?thesis using b g(1) by (simp add: bwd_holds_def)
  qed
  then show ?thesis using f b assms(3) le u by (intro exI [of _ f']) (auto simp: fwd_grow_def f'_def bwd_used_size_def)
qed

theorem space_handover_witness:
  "\<exists>f'. fwd_grow sample_buffer 17 20 = Some f' \<and> buf_end f' = 20"
proof -
  have f: "fwd_holds (\<lambda>_. 0, sample_buffer) []" by (simp add: fwd_holds_def sample_buffer_def)
  have b: "bwd_holds (\<lambda>_. 0, sample_buffer\<lparr>start := 17, buf_end := 20, pos := 20\<rparr>) []"
    by (simp add: bwd_holds_def sample_buffer_def)
  from space_handover [OF f b, of 17 20] show ?thesis
    by (auto simp: sample_buffer_def bwd_remove_unused_space_def)
qed

end
