(* ===== verification/HashFilo.thy ===== *)
theory HashFilo
  imports Prelude
begin

text \<open>
  The cache \<open>hash_filo\<close> of \<^verbatim>\<open>hash_filo.h\<close> (a hash table whose elements are also chained from the most
  to the least recently used one, with eviction at a fixed size) and the set \<open>Hash_set\<close> of
  \<^verbatim>\<open>sql_hset.h\<close>.  The hash table itself (\<open>my_hash_search\<close>, \<open>my_hash_insert\<close>, \<dots>) is compiled code
  outside these headers: its functions are the members of the record \<open>hash_ops\<close>, an argument of
  the definitions, and what the callers rely on is the predicate \<open>hash_spec\<close>.
\<close>

section \<open>The hash table as a parameter\<close>

record ('c, 'k) hash_ops =
  hash_init :: 'c
  hash_search :: "'c \<Rightarrow> 'k \<Rightarrow> ptr"
  hash_insert :: "'c \<Rightarrow> ptr \<Rightarrow> bool \<times> 'c"
  hash_delete :: "'c \<Rightarrow> ptr \<Rightarrow> bool \<times> 'c"
  hash_records :: "'c \<Rightarrow> nat"
  hash_element :: "'c \<Rightarrow> nat \<Rightarrow> ptr"

section \<open>The cache\<close>

text \<open>The mutex is absent until it is initialised; then the flag tells whether it is held.\<close>

record 'c hash_filo =
  hf_size :: nat
  hf_init :: bool
  hf_lock :: "bool option"
  first_link :: ptr
  last_link :: ptr
  cache :: 'c
  next_used :: "ptr \<Rightarrow> ptr"
  prev_used :: "ptr \<Rightarrow> ptr"

definition hash_filo_new :: "nat \<Rightarrow> 'c \<Rightarrow> 'c hash_filo" where
  "hash_filo_new size_arg zero =
     \<lparr>hf_size = size_arg, hf_init = False, hf_lock = None, first_link = 0, last_link = 0, cache = zero,
      next_used = (\<lambda>_. 0), prev_used = (\<lambda>_. 0)\<rparr>"

text \<open>Locking returns nothing when the mutex has not been initialised (undefined behaviour).\<close>

definition mutex_lock :: "'c hash_filo \<Rightarrow> 'c hash_filo option" where
  "mutex_lock f = (case hf_lock f of Some False \<Rightarrow> Some (f\<lparr>hf_lock := Some True\<rparr>) | _ \<Rightarrow> None)"

definition mutex_unlock :: "'c hash_filo \<Rightarrow> 'c hash_filo option" where
  "mutex_unlock f = (case hf_lock f of Some True \<Rightarrow> Some (f\<lparr>hf_lock := Some False\<rparr>) | _ \<Rightarrow> None)"

definition filo_clear :: "('c, 'k) hash_ops \<Rightarrow> bool \<Rightarrow> 'c hash_filo \<Rightarrow> 'c hash_filo option" where
  "filo_clear H locked f =
     (let f1 = (if \<not> hf_init f then f\<lparr>hf_init := True, hf_lock := Some False\<rparr> else f)
      in case (if \<not> locked then mutex_lock f1 else Some f1) of
           None \<Rightarrow> None
         | Some f2 \<Rightarrow>
             (let f3 = f2\<lparr>first_link := 0, last_link := 0, cache := hash_init H\<rparr>
              in if \<not> locked then mutex_unlock f3 else Some f3))"

definition filo_first :: "'c hash_filo \<Rightarrow> ptr" where
  "filo_first f = first_link f"

definition filo_last :: "'c hash_filo \<Rightarrow> ptr" where
  "filo_last f = last_link f"

definition set_next :: "'c hash_filo \<Rightarrow> ptr \<Rightarrow> ptr \<Rightarrow> 'c hash_filo" where
  "set_next f a v = f\<lparr>next_used := (next_used f)(a := v)\<rparr>"

definition set_prev :: "'c hash_filo \<Rightarrow> ptr \<Rightarrow> ptr \<Rightarrow> 'c hash_filo" where
  "set_prev f a v = f\<lparr>prev_used := (prev_used f)(a := v)\<rparr>"

definition filo_search :: "('c, 'k) hash_ops \<Rightarrow> 'k \<Rightarrow> 'c hash_filo \<Rightarrow> ptr \<times> 'c hash_filo" where
  "filo_search H key f =
     (let entry = hash_search H (cache f) key
      in if entry \<noteq> 0
         then if entry \<noteq> first_link f
              then let f1 = (if entry = last_link f
                             then let g = f\<lparr>last_link := prev_used f (last_link f)\<rparr> in set_next g (last_link g) 0
                             else let g = set_prev f (next_used f entry) (prev_used f entry)
                                  in set_next g (prev_used g entry) (next_used g entry));
                       f2 = set_next (set_prev f1 entry 0) entry (first_link f1);
                       f3 = set_prev f2 (first_link f2) entry
                   in (entry, f3\<lparr>first_link := entry\<rparr>)
              else (entry, f)
         else (entry, f))"

text \<open>The assertions of \<open>search\<close> about the chain, in the state in which each is evaluated; that the caller
  holds the mutex is not one of them.\<close>

definition filo_search_asserts :: "('c, 'k) hash_ops \<Rightarrow> 'k \<Rightarrow> 'c hash_filo \<Rightarrow> bool" where
  "filo_search_asserts H key f =
     (let entry = hash_search H (cache f) key
      in if entry \<noteq> 0
         then first_link f \<noteq> 0 \<and> last_link f \<noteq> 0 \<and>
              (if entry \<noteq> first_link f
               then if entry = last_link f then prev_used f (last_link f) \<noteq> 0
                    else next_used f entry \<noteq> 0 \<and> prev_used f entry \<noteq> 0
               else True)
         else True)"

text \<open>The result is true on failure; the freed element of a failed insertion is the caller's.\<close>

definition filo_add :: "('c, 'k) hash_ops \<Rightarrow> ptr \<Rightarrow> 'c hash_filo \<Rightarrow> bool \<times> 'c hash_filo" where
  "filo_add H entry f =
     (if hf_size f = 0 then (True, f)
      else let f1 = (if hash_records H (cache f) = hf_size f
                     then let tmp = last_link f;
                              g = f\<lparr>last_link := prev_used f (last_link f)\<rparr>;
                              g1 = (if last_link g \<noteq> 0 then set_next g (last_link g) 0 else g\<lparr>first_link := 0\<rparr>)
                          in g1\<lparr>cache := snd (hash_delete H (cache g1) tmp)\<rparr>
                     else f);
               (failed, c) = hash_insert H (cache f1) entry;
               f2 = f1\<lparr>cache := c\<rparr>
           in if failed then (True, f2)
              else let f3 = set_next (set_prev f2 entry 0) entry (first_link f2);
                       f4 = (if first_link f3 \<noteq> 0 then set_prev f3 (first_link f3) entry
                             else f3\<lparr>last_link := entry\<rparr>)
                   in (False, f4\<lparr>first_link := entry\<rparr>))"

definition filo_size :: "'c hash_filo \<Rightarrow> nat" where
  "filo_size f = hf_size f"

definition filo_resize :: "('c, 'k) hash_ops \<Rightarrow> nat \<Rightarrow> 'c hash_filo \<Rightarrow> 'c hash_filo option" where
  "filo_resize H new_size f =
     (case mutex_lock f of
        None \<Rightarrow> None
      | Some f1 \<Rightarrow>
          (case filo_clear H True (f1\<lparr>hf_size := new_size\<rparr>) of
             None \<Rightarrow> None
           | Some f2 \<Rightarrow> mutex_unlock f2))"

section \<open>The hash set\<close>

text \<open>\<open>None\<close> is a hash whose buckets have not been allocated yet.\<close>

definition hset_table :: "('c, 'k) hash_ops \<Rightarrow> 'c option \<Rightarrow> 'c" where
  "hset_table H s = (case s of None \<Rightarrow> hash_init H | Some c \<Rightarrow> c)"

definition hset_find :: "('c, 'k) hash_ops \<Rightarrow> 'c option \<Rightarrow> 'k \<Rightarrow> ptr" where
  "hset_find H s key = hash_search H (hset_table H s) key"

definition hset_insert :: "('c, 'k) hash_ops \<Rightarrow> (ptr \<Rightarrow> 'k) \<Rightarrow> 'c option \<Rightarrow> ptr \<Rightarrow> bool \<times> 'c option" where
  "hset_insert H get_key s v =
     (let c = hset_table H s
      in if hset_find H (Some c) (get_key v) = 0
         then (let (failed, c') = hash_insert H c v in (failed, Some c'))
         else (False, Some c))"

definition hset_remove :: "('c, 'k) hash_ops \<Rightarrow> 'c option \<Rightarrow> ptr \<Rightarrow> bool \<times> 'c option" where
  "hset_remove H s v = (let (failed, c) = hash_delete H (hset_table H s) v in (failed, Some c))"

definition hset_size :: "('c, 'k) hash_ops \<Rightarrow> 'c option \<Rightarrow> nat" where
  "hset_size H s = hash_records H (hset_table H s)"

definition hset_is_empty :: "('c, 'k) hash_ops \<Rightarrow> 'c option \<Rightarrow> bool" where
  "hset_is_empty H s \<longleftrightarrow> hset_size H s = 0"

definition hset_at :: "('c, 'k) hash_ops \<Rightarrow> 'c option \<Rightarrow> nat \<Rightarrow> ptr" where
  "hset_at H s i = hash_element H (hset_table H s) i"

text \<open>The iterator is its index.\<close>

definition hset_iter_next :: "('c, 'k) hash_ops \<Rightarrow> 'c option \<Rightarrow> nat \<Rightarrow> ptr \<times> nat" where
  "hset_iter_next H s m_idx =
     (if m_idx < hset_size H s then (hset_at H s m_idx, m_idx + 1) else (0, m_idx))"

section \<open>What the callers rely on\<close>

text \<open>
  The documented behaviour of the hash table: the elements are kept in an array \<open>elems c\<close>; a search
  finds an element with the key, or returns null when there is none; an insertion adds the
  element or fails and changes nothing; a deletion removes the element (and may reorder).
\<close>

definition hash_spec :: "('c, 'k) hash_ops \<Rightarrow> ('c \<Rightarrow> ptr list) \<Rightarrow> (ptr \<Rightarrow> 'k) \<Rightarrow> bool" where
  "hash_spec H elems key_of \<longleftrightarrow>
     elems (hash_init H) = [] \<and>
     (\<forall>c k. if \<exists>e\<in>set (elems c). key_of e = k
            then hash_search H c k \<in> set (elems c) \<and> key_of (hash_search H c k) = k
            else hash_search H c k = 0) \<and>
     (\<forall>c e. if fst (hash_insert H c e) then elems (snd (hash_insert H c e)) = elems c
            else set (elems (snd (hash_insert H c e))) = insert e (set (elems c)) \<and>
                 length (elems (snd (hash_insert H c e))) = length (elems c) + 1) \<and>
     (\<forall>c e. e \<in> set (elems c) \<and> distinct (elems c) \<longrightarrow>
            set (elems (snd (hash_delete H c e))) = set (elems c) - {e} \<and> distinct (elems (snd (hash_delete H c e)))) \<and>
     (\<forall>c. hash_records H c = length (elems c)) \<and>
     (\<forall>c i. i < length (elems c) \<longrightarrow> hash_element H c i = elems c ! i)"

lemma hash_specD:
  assumes "hash_spec H elems key_of"
  shows "elems (hash_init H) = []"
    "\<exists>e\<in>set (elems c). key_of e = k \<Longrightarrow> hash_search H c k \<in> set (elems c) \<and> key_of (hash_search H c k) = k"
    "\<not> (\<exists>e\<in>set (elems c). key_of e = k) \<Longrightarrow> hash_search H c k = 0"
    "hash_insert H c e = (True, c') \<Longrightarrow> elems c' = elems c"
    "hash_insert H c e = (False, c') \<Longrightarrow> set (elems c') = insert e (set (elems c)) \<and> length (elems c') = length (elems c) + 1"
    "e \<in> set (elems c) \<Longrightarrow> distinct (elems c) \<Longrightarrow>
       set (elems (snd (hash_delete H c e))) = set (elems c) - {e} \<and> distinct (elems (snd (hash_delete H c e)))"
    "hash_records H c = length (elems c)"
    "i < length (elems c) \<Longrightarrow> hash_element H c i = elems c ! i"
proof -
  have s: "\<And>c k. if \<exists>e\<in>set (elems c). key_of e = k
            then hash_search H c k \<in> set (elems c) \<and> key_of (hash_search H c k) = k
            else hash_search H c k = 0"
    and i: "\<And>c e. if fst (hash_insert H c e) then elems (snd (hash_insert H c e)) = elems c
            else set (elems (snd (hash_insert H c e))) = insert e (set (elems c)) \<and>
                 length (elems (snd (hash_insert H c e))) = length (elems c) + 1"
    using assms unfolding hash_spec_def by blast+
  show "\<exists>e\<in>set (elems c). key_of e = k \<Longrightarrow> hash_search H c k \<in> set (elems c) \<and> key_of (hash_search H c k) = k"
    "\<not> (\<exists>e\<in>set (elems c). key_of e = k) \<Longrightarrow> hash_search H c k = 0" using s [of c k] by auto
  show "hash_insert H c e = (True, c') \<Longrightarrow> elems c' = elems c"
    "hash_insert H c e = (False, c') \<Longrightarrow> set (elems c') = insert e (set (elems c)) \<and> length (elems c') = length (elems c) + 1"
    using i [of c e] by auto
qed (use assms in \<open>auto simp: hash_spec_def\<close>)

section \<open>The chain of used elements\<close>

primrec dl :: "(ptr \<Rightarrow> ptr) \<Rightarrow> (ptr \<Rightarrow> ptr) \<Rightarrow> ptr \<Rightarrow> ptr list \<Rightarrow> ptr \<Rightarrow> bool" where
  "dl N P a [] q \<longleftrightarrow> True"
| "dl N P a (x # xs) q \<longleftrightarrow> P x = a \<and> N x = hd (xs @ [q]) \<and> dl N P x xs q"

lemma dl_append: "dl N P a (xs @ ys) q \<longleftrightarrow> dl N P a xs (hd (ys @ [q])) \<and> dl N P (last (a # xs)) ys q"
  by (induction xs arbitrary: a) (auto simp: hd_append)

lemma dl_cong: "(\<And>x. x \<in> set xs \<Longrightarrow> N x = N' x \<and> P x = P' x) \<Longrightarrow> dl N P a xs q = dl N' P' a xs q"
  by (induction xs arbitrary: a) auto

lemma dl_set_end:
  assumes "dl N P a xs q" "distinct xs"
  shows "dl (N(last (a # xs) := r)) P a xs r"
  using assms
proof (induction xs arbitrary: a)
  case (Cons x xs)
  show ?case
  proof (cases "xs = []")
    case True then show ?thesis using Cons.prems by simp
  next
    case False
    then have "x \<noteq> last xs" using Cons.prems by auto
    moreover have "hd (xs @ [r]) = hd (xs @ [q])" using False by (cases xs) auto
    ultimately show ?thesis using Cons False by auto
  qed
qed simp

lemma dl_set_start:
  assumes "dl N P a (x # xs) q" "x \<notin> set xs"
  shows "dl N (P(x := b)) b (x # xs) q"
proof -
  have "dl N (P(x := b)) x xs q = dl N P x xs q" using assms(2) by (intro dl_cong) auto
  then show ?thesis using assms by simp
qed

definition lru_ok :: "'c hash_filo \<Rightarrow> ptr list \<Rightarrow> bool" where
  "lru_ok f xs \<longleftrightarrow>
     first_link f = hd (xs @ [0]) \<and> last_link f = last (0 # xs) \<and>
     dl (next_used f) (prev_used f) 0 xs 0 \<and> distinct xs \<and> 0 \<notin> set xs"

lemma filo_link_access [simp]:
  "first_link (set_next f a v) = first_link f" "last_link (set_next f a v) = last_link f" "cache (set_next f a v) = cache f"
  "next_used (set_next f a v) = (next_used f)(a := v)" "prev_used (set_next f a v) = prev_used f"
  "first_link (set_prev f a v) = first_link f" "last_link (set_prev f a v) = last_link f" "cache (set_prev f a v) = cache f"
  "next_used (set_prev f a v) = next_used f" "prev_used (set_prev f a v) = (prev_used f)(a := v)"
  "hf_size (set_next f a v) = hf_size f" "hf_size (set_prev f a v) = hf_size f"
  by (simp_all add: set_next_def set_prev_def)

text \<open>Putting a new element in front of a chain.\<close>

lemma dl_front:
  assumes "dl N P 0 xs 0" "distinct xs" "e \<notin> set xs" "xs \<noteq> []"
  shows "dl (N(e := hd (xs @ [0]))) ((P(e := 0))(hd (xs @ [0]) := e)) 0 (e # xs) 0"
proof -
  obtain y ys where xs: "xs = y # ys" using assms(4) by (cases xs) auto
  have "dl N (P(y := e)) e (y # ys) 0" using dl_set_start [of N P 0 y ys 0 e] assms xs by simp
  moreover have "dl (N(e := y)) ((P(e := 0))(y := e)) e (y # ys) 0 = dl N (P(y := e)) e (y # ys) 0"
    using assms(3) xs by (intro dl_cong) auto
  ultimately show ?thesis using xs assms(3) by auto
qed

text \<open>The chain after its element \<open>e\<close> is taken out, from either end or from the middle.\<close>

lemma dl_unlink:
  assumes "dl N P 0 (ys @ e # zs) 0" "distinct (ys @ e # zs)" "0 \<notin> set (ys @ e # zs)" "ys \<noteq> []"
  shows "zs = [] \<Longrightarrow> P e = last ys \<and> dl (N(last ys := 0)) P 0 ys 0"
    "zs \<noteq> [] \<Longrightarrow> P e = last ys \<and> N e = hd zs \<and> dl (N(last ys := hd zs)) (P(hd zs := last ys)) 0 (ys @ zs) 0"
proof -
  have d: "dl N P 0 ys e" "P e = last ys" "N e = hd (zs @ [0])" "dl N P e zs 0" "distinct ys" "last ys \<in> set ys"
    using assms by (auto simp: dl_append)
  have y: "dl (N(last ys := r)) P 0 ys r" for r using dl_set_end [OF d(1,5), of r] assms(4) by simp
  show "zs = [] \<Longrightarrow> P e = last ys \<and> dl (N(last ys := 0)) P 0 ys 0" using y d by simp
  assume "zs \<noteq> []"
  then obtain w ws where zs: "zs = w # ws" by (cases zs) auto
  have "dl N (P(w := last ys)) (last ys) (w # ws) 0" using dl_set_start [of N P e w ws 0 "last ys"] d(4) zs assms(2) by simp
  moreover have "dl (N(last ys := w)) (P(w := last ys)) (last ys) (w # ws) 0 = dl N (P(w := last ys)) (last ys) (w # ws) 0"
    using d(6) assms(2) zs by (intro dl_cong) auto
  moreover have "dl (N(last ys := w)) (P(w := last ys)) 0 ys w = dl (N(last ys := w)) P 0 ys w"
    using assms(2) zs by (intro dl_cong) auto
  ultimately show "P e = last ys \<and> N e = hd zs \<and> dl (N(last ys := hd zs)) (P(hd zs := last ys)) 0 (ys @ zs) 0"
    using y [of w] d zs assms(4) by (simp add: dl_append)
qed

lemma filo_search_moves:
  assumes "lru_ok f (ys @ e # zs)" "hash_search H (cache f) k = e"
  shows "fst (filo_search H k f) = e" "lru_ok (snd (filo_search H k f)) (e # ys @ zs)"
    "cache (snd (filo_search H k f)) = cache f" "hf_size (snd (filo_search H k f)) = hf_size f"
proof -
  have l: "first_link f = hd (ys @ e # zs @ [0])" "last_link f = last (e # zs)"
    "dl (next_used f) (prev_used f) 0 (ys @ e # zs) 0" "distinct (ys @ e # zs)" "0 \<notin> set (ys @ e # zs)"
    using assms(1) by (simp_all add: lru_ok_def)
  have e: "e \<noteq> 0" "e \<notin> set (ys @ zs)" using l by auto
  show "fst (filo_search H k f) = e" "cache (snd (filo_search H k f)) = cache f" "hf_size (snd (filo_search H k f)) = hf_size f"
    using assms(2) by (simp_all add: filo_search_def Let_def)
  show "lru_ok (snd (filo_search H k f)) (e # ys @ zs)"
  proof (cases "ys = []")
    case True
    then show ?thesis using assms e l by (simp add: filo_search_def Let_def)
  next
    case False
    then have f: "first_link f \<noteq> e" "first_link f = hd (ys @ zs)" "hd ((ys @ zs) @ [0]) = hd (ys @ zs)"
      using l(1) e by (cases ys; auto)+
    note U = dl_unlink [OF l(3-5) False]
    show ?thesis
    proof (cases "zs = []")
      case True
      then have "last_link f = e" "prev_used f e = last ys" using l(2) U(1) by simp_all
      then show ?thesis
        using dl_front [of "(next_used f)(last ys := 0)" "prev_used f" ys e] U(1) True False e f l assms(2)
        by (auto simp: filo_search_def Let_def lru_ok_def)
    next
      case zs: False
      then have n: "last_link f \<noteq> e" "prev_used f e = last ys" "next_used f e = hd zs" "hd zs \<noteq> e"
        using l U(2) by auto
      have "last (e # ys @ zs) = last zs" using zs by simp
      then show ?thesis
        using dl_front [of "(next_used f)(last ys := hd zs)" "(prev_used f)(hd zs := last ys)" "ys @ zs" e]
          U(2) [OF zs] zs False e f l n assms(2)
        by (auto simp: filo_search_def Let_def lru_ok_def)
    qed
  qed
qed

lemma filo_search_asserts_hold:
  assumes "lru_ok f (ys @ e # zs)" "hash_search H (cache f) k = e"
  shows "filo_search_asserts H k f"
proof -
  have l: "first_link f = hd (ys @ e # zs @ [0])" "last_link f = last (e # zs)"
    "dl (next_used f) (prev_used f) 0 (ys @ e # zs) 0" "distinct (ys @ e # zs)" "0 \<notin> set (ys @ e # zs)"
    using assms(1) by (simp_all add: lru_ok_def)
  have nz: "hd zs \<noteq> 0" "last zs \<noteq> 0" if "zs \<noteq> []"
    using that l(5) hd_in_set [of zs] last_in_set [of zs] by (metis Un_iff list.set_intros(2) set_append)+
  have ny: "last ys \<noteq> 0" "hd ys \<noteq> 0" if "ys \<noteq> []"
    using that l(5) by (metis Un_iff last_in_set set_append, metis Un_iff hd_in_set set_append)
  have ends: "e \<noteq> 0" "first_link f \<noteq> 0" "last_link f \<noteq> 0"
    using l(1,2,5) ny(2) nz(2) by (auto simp: hd_append split: if_splits)
  show ?thesis
  proof (cases "ys = []")
    case True
    then show ?thesis using l(1) assms(2) ends by (simp add: filo_search_asserts_def)
  next
    case ys: False
    note U = dl_unlink [OF l(3-5) ys]
    show ?thesis
    proof (cases "zs = []")
      case True
      then show ?thesis using U(1) ys ny ends l(2) assms(2) by (simp add: filo_search_asserts_def)
    next
      case False
      then have "last_link f \<noteq> e" using l(2,4) last_in_set [of zs] by auto
      then show ?thesis using U(2) ys ny nz False ends assms(2) by (simp add: filo_search_asserts_def)
    qed
  qed
qed

text \<open>Evicting the least recently used element, as \<open>add\<close> does when the cache is full.\<close>

lemma evict_last:
  assumes "lru_ok f (ys @ [e])"
  shows "let g = f\<lparr>last_link := prev_used f (last_link f)\<rparr>;
             g1 = (if last_link g \<noteq> 0 then set_next g (last_link g) 0 else g\<lparr>first_link := 0\<rparr>)
         in last_link f = e \<and> lru_ok g1 ys"
proof -
  have l: "first_link f = hd (ys @ [e] @ [0])" "last_link f = e" "dl (next_used f) (prev_used f) 0 (ys @ e # []) 0"
    "distinct (ys @ e # [])" "0 \<notin> set (ys @ e # [])"
    using assms by (simp_all add: lru_ok_def)
  show ?thesis
  proof (cases "ys = []")
    case True then show ?thesis using l by (simp add: lru_ok_def Let_def)
  next
    case False
    have "prev_used f e = last ys" "dl ((next_used f)(last ys := 0)) (prev_used f) 0 ys 0"
      using dl_unlink(1) [OF l(3-5) False] by auto
    moreover have "last ys \<noteq> 0" using False l(5) last_in_set [of ys] by (metis Un_iff set_append)
    moreover have "hd (ys @ [e] @ [0]) = hd ys" using False by (simp add: hd_append)
    ultimately show ?thesis using l False by (auto simp: lru_ok_def Let_def)
  qed
qed

lemma lru_ok_cache [simp]: "lru_ok (f\<lparr>cache := c\<rparr>) xs = lru_ok f xs"
  by (simp add: lru_ok_def)

lemma add_front_ok:
  assumes "lru_ok f xs" "e \<noteq> 0" "e \<notin> set xs"
  shows "let f3 = set_next (set_prev f e 0) e (first_link f);
             f4 = (if first_link f3 \<noteq> 0 then set_prev f3 (first_link f3) e else f3\<lparr>last_link := e\<rparr>)
         in lru_ok (f4\<lparr>first_link := e\<rparr>) (e # xs)"
proof (cases xs)
  case Nil then show ?thesis using assms by (simp add: lru_ok_def Let_def)
next
  case (Cons x zs)
  then show ?thesis using dl_front [of "next_used f" "prev_used f" xs e] assms by (auto simp: lru_ok_def Let_def)
qed

section \<open>Refinement of an abstract cache\<close>

text \<open>
  The abstract cache is the list of its elements, most recently used first.  \<open>ok\<close> tells whether
  the hash table accepts the insertion.
\<close>

definition lru_search :: "(ptr \<Rightarrow> 'k) \<Rightarrow> 'k \<Rightarrow> ptr list \<Rightarrow> ptr \<times> ptr list" where
  "lru_search key_of k xs =
     (case List.find (\<lambda>e. key_of e = k) xs of None \<Rightarrow> (0, xs) | Some e \<Rightarrow> (e, e # remove1 e xs))"

definition lru_add :: "bool \<Rightarrow> nat \<Rightarrow> ptr \<Rightarrow> ptr list \<Rightarrow> bool \<times> ptr list" where
  "lru_add ok max_size e xs =
     (if max_size = 0 then (True, xs)
      else let ys = (if length xs = max_size then butlast xs else xs)
           in if ok then (False, e # ys) else (True, ys))"

text \<open>The cache and the abstract list hold the same elements, no two with the same key.\<close>

definition filo_refines :: "('c \<Rightarrow> ptr list) \<Rightarrow> (ptr \<Rightarrow> 'k) \<Rightarrow> 'c hash_filo \<Rightarrow> ptr list \<Rightarrow> bool" where
  "filo_refines elems key_of f xs \<longleftrightarrow>
     lru_ok f xs \<and> set (elems (cache f)) = set xs \<and> distinct (elems (cache f)) \<and>
     inj_on key_of (set xs) \<and> length xs \<le> hf_size f"

lemma filo_refines_length: "filo_refines elems key_of f xs \<Longrightarrow> length (elems (cache f)) = length xs"
  using distinct_card [of xs] distinct_card [of "elems (cache f)"] by (simp add: filo_refines_def lru_ok_def)

lemma filo_search_refines:
  assumes "hash_spec H elems key_of" "filo_refines elems key_of f xs"
  shows "filo_search_asserts H k f \<and> fst (filo_search H k f) = fst (lru_search key_of k xs) \<and>
         filo_refines elems key_of (snd (filo_search H k f)) (snd (lru_search key_of k xs))"
proof (cases "List.find (\<lambda>e. key_of e = k) xs")
  case None
  then have "hash_search H (cache f) k = 0"
    using assms(2) hash_specD(3) [OF assms(1), of "cache f" k] by (auto simp: find_None_iff filo_refines_def)
  then show ?thesis using None assms(2) by (simp add: filo_search_def filo_search_asserts_def lru_search_def)
next
  case (Some e)
  then have e: "e \<in> set xs" "key_of e = k" by (auto simp: find_Some_iff)
  have r: "lru_ok f xs" "set (elems (cache f)) = set xs" "inj_on key_of (set xs)" "distinct xs"
    using assms(2) by (auto simp: filo_refines_def lru_ok_def)
  have "hash_search H (cache f) k \<in> set xs \<and> key_of (hash_search H (cache f) k) = k"
    using hash_specD(2) [OF assms(1), of "cache f" k] e r(2) by auto
  then have h: "hash_search H (cache f) k = e" using r(3) e by (auto dest: inj_onD)
  obtain ys zs where xs: "xs = ys @ e # zs" using e(1) by (meson split_list)
  have rm: "remove1 e xs = ys @ zs" using xs r(4) by (simp add: remove1_append)
  note M = filo_search_moves [OF r(1) [unfolded xs] h]
  show ?thesis
    using M filo_search_asserts_hold [OF r(1) [unfolded xs] h] assms(2) Some rm xs
    by (auto simp: lru_search_def filo_refines_def)
qed

text \<open>The hash table an addition inserts into: the table without the last element when the cache is full.\<close>

definition table_with_room :: "('c, 'k) hash_ops \<Rightarrow> 'c hash_filo \<Rightarrow> ptr list \<Rightarrow> 'c" where
  "table_with_room H f xs =
     (if length xs = hf_size f then snd (hash_delete H (cache f) (last xs)) else cache f)"

lemma filo_add_refines:
  assumes "hash_spec H elems key_of" "filo_refines elems key_of f xs"
    "e \<noteq> 0" "key_of e \<notin> key_of ` set xs"
  defines "ok \<equiv> \<not> fst (hash_insert H (table_with_room H f xs) e)"
  shows "fst (filo_add H e f) = fst (lru_add ok (hf_size f) e xs) \<and>
         filo_refines elems key_of (snd (filo_add H e f)) (snd (lru_add ok (hf_size f) e xs)) \<and>
         hf_size (snd (filo_add H e f)) = hf_size f"
proof (cases "hf_size f = 0")
  case True then show ?thesis using assms(2) by (simp add: filo_add_def lru_add_def)
next
  case size: False
  define f1 where "f1 = (if hash_records H (cache f) = hf_size f
                     then let tmp = last_link f;
                              g = f\<lparr>last_link := prev_used f (last_link f)\<rparr>;
                              g1 = (if last_link g \<noteq> 0 then set_next g (last_link g) 0 else g\<lparr>first_link := 0\<rparr>)
                          in g1\<lparr>cache := snd (hash_delete H (cache g1) tmp)\<rparr>
                     else f)"
  define ys where "ys = (if length xs = hf_size f then butlast xs else xs)"
  have r: "lru_ok f xs" "set (elems (cache f)) = set xs" "distinct (elems (cache f))" "inj_on key_of (set xs)"
    "length xs \<le> hf_size f" using assms(2) by (simp_all add: filo_refines_def)
  have recs: "hash_records H (cache f) = length xs"
    using hash_specD(7) [OF assms(1)] filo_refines_length [OF assms(2)] by simp
  have F: "lru_ok f1 ys \<and> set (elems (cache f1)) = set ys \<and> distinct (elems (cache f1)) \<and> hf_size f1 = hf_size f \<and>
    cache f1 = table_with_room H f xs"
  proof (cases "length xs = hf_size f")
    case True
    then obtain z where xs: "xs = ys @ [z]" using size by (cases xs rule: rev_cases) (auto simp: ys_def)
    note E = evict_last [OF r(1) [unfolded xs]]
    have "z \<notin> set ys" using r(1) xs by (auto simp: lru_ok_def)
    then show ?thesis
      using E hash_specD(6) [OF assms(1) _ r(3), of z] r(2) xs True recs
      by (auto simp: f1_def Let_def table_with_room_def)
  next
    case False then show ?thesis using r recs by (simp add: f1_def ys_def table_with_room_def)
  qed
  have len: "length ys < hf_size f" "set ys \<subseteq> set xs" using r(5) size by (auto simp: ys_def dest: in_set_butlastD)
  have e: "e \<notin> set ys" "key_of e \<notin> key_of ` set ys" using assms(4) len(2) by auto
  obtain failed c where i: "hash_insert H (cache f1) e = (failed, c)" by force
  have add: "filo_add H e f = (if failed then (True, f1\<lparr>cache := c\<rparr>)
       else let f2 = f1\<lparr>cache := c\<rparr>; f3 = set_next (set_prev f2 e 0) e (first_link f2);
                f4 = (if first_link f3 \<noteq> 0 then set_prev f3 (first_link f3) e else f3\<lparr>last_link := e\<rparr>)
            in (False, f4\<lparr>first_link := e\<rparr>))"
    using size i by (simp add: filo_add_def f1_def [symmetric] Let_def)
  have inj: "inj_on key_of (set ys)" using r(4) len(2) inj_on_subset by blast
  have ok: "ok \<longleftrightarrow> \<not> failed" using i F by (simp add: ok_def)
  have L: "lru_add (\<not> failed) (hf_size f) e xs = (failed, if failed then ys else e # ys)"
    using size by (simp add: lru_add_def ys_def Let_def)
  show ?thesis
  proof (cases failed)
    case True
    then have "filo_refines elems key_of (f1\<lparr>cache := c\<rparr>) ys"
      using F hash_specD(4) [OF assms(1)] i inj len by (auto simp: filo_refines_def)
    then show ?thesis using add L True F ok by simp
  next
    case False
    have ins: "set (elems c) = insert e (set ys)" "length (elems c) = length ys + 1"
      using hash_specD(5) [OF assms(1)] i False F by (auto simp: distinct_card [symmetric] lru_ok_def)
    moreover have "distinct ys" using F by (simp add: lru_ok_def)
    ultimately have "distinct (elems c)" using e(1) by (intro card_distinct) (simp add: distinct_card)
    then have "filo_refines elems key_of (snd (filo_add H e f)) (e # ys)"
      using add_front_ok [of "f1\<lparr>cache := c\<rparr>" ys e] assms(3) e F ins inj len add False
      by (auto simp: filo_refines_def Let_def)
    then show ?thesis using add L False F ok by (simp add: Let_def)
  qed
qed

text \<open>Requests to the cache: a search, or the addition of an element whose key is not cached.\<close>

datatype 'k request = Search 'k | Add ptr

inductive filo_step :: "('c, 'k) hash_ops \<Rightarrow> (ptr \<Rightarrow> 'k) \<Rightarrow> 'c hash_filo \<Rightarrow> 'k request \<Rightarrow> 'c hash_filo \<Rightarrow> bool"
  for H key_of where
  step_search: "filo_step H key_of f (Search k) (snd (filo_search H k f))"
| step_add: "e \<noteq> 0 \<Longrightarrow> hash_search H (cache f) (key_of e) = 0 \<Longrightarrow> filo_step H key_of f (Add e) (snd (filo_add H e f))"

inductive_cases filo_step_cases: "filo_step H key_of f r g"

inductive filo_reaches :: "('c, 'k) hash_ops \<Rightarrow> (ptr \<Rightarrow> 'k) \<Rightarrow> 'c hash_filo \<Rightarrow> 'c hash_filo \<Rightarrow> bool"
  for H key_of f where
  reach_start: "filo_reaches H key_of f f"
| reach_step: "filo_reaches H key_of f g \<Longrightarrow> filo_step H key_of g r g' \<Longrightarrow> filo_reaches H key_of f g'"

lemma filo_step_refines:
  assumes "hash_spec H elems key_of" "filo_step H key_of f r g" "filo_refines elems key_of f xs"
  shows "\<exists>ys. filo_refines elems key_of g ys \<and> hf_size g = hf_size f"
  using assms(2)
proof (cases rule: filo_step.cases)
  case (step_search k)
  have "hf_size g = hf_size f" using step_search by (simp add: filo_search_def Let_def)
  then show ?thesis using filo_search_refines [OF assms(1,3), of k] step_search by auto
next
  case (step_add e)
  have "key_of e \<notin> key_of ` set xs"
  proof
    assume "key_of e \<in> key_of ` set xs"
    moreover have "set (elems (cache f)) = set xs" using assms(3) by (simp add: filo_refines_def)
    ultimately have "\<exists>x\<in>set (elems (cache f)). key_of x = key_of e" by (metis imageE)
    then have "hash_search H (cache f) (key_of e) \<in> set xs"
      using hash_specD(2) [OF assms(1), of "cache f" "key_of e"] assms(3) by (simp add: filo_refines_def)
    then show False using step_add assms(3) by (auto simp: filo_refines_def lru_ok_def)
  qed
  from filo_add_refines [OF assms(1,3) _ this] show ?thesis using step_add by auto
qed

lemma filo_clear_refines:
  assumes "hash_spec H elems key_of" "filo_clear H locked f = Some g"
  shows "filo_refines elems key_of g []"
  using assms(2) hash_specD(1) [OF assms(1)]
  by (auto simp: filo_clear_def Let_def mutex_lock_def mutex_unlock_def filo_refines_def lru_ok_def
      split: option.splits bool.splits if_splits)

text \<open>
  C4: One search of the cache finds the element the abstract least-recently-used cache finds and
  moves it to the front, and no assertion about the chain fails. One addition of an element that is
  not null and has a new key reports a failure exactly when the size is 0 or the hash table rejects
  the element; it evicts the last element exactly when the cache is full, puts the new element in
  front when the table accepts it, and leaves the links consistent and the table holding exactly the chained elements.
  The hash table itself behaves as documented (\<open>hash_spec\<close>), and the caller holds the mutex.
\<close>

theorem hash_filo_refines_lru:
  assumes "hash_spec H elems key_of" "filo_refines elems key_of f xs"
  shows "filo_search_asserts H k f \<and> fst (filo_search H k f) = fst (lru_search key_of k xs) \<and>
         filo_refines elems key_of (snd (filo_search H k f)) (snd (lru_search key_of k xs)) \<and>
         (e \<noteq> 0 \<and> key_of e \<notin> key_of ` set xs \<longrightarrow>
            (let room = (if length xs = hf_size f then snd (hash_delete H (cache f) (last xs)) else cache f);
                 ok = (\<not> fst (hash_insert H room e))
             in fst (filo_add H e f) = (hf_size f = 0 \<or> \<not> ok) \<and>
                filo_refines elems key_of (snd (filo_add H e f)) (snd (lru_add ok (hf_size f) e xs))))"
  using filo_search_refines [OF assms, of k] filo_add_refines [OF assms, of e]
  by (auto simp: Let_def table_with_room_def [symmetric] lru_add_def)

text \<open>
  whatever sequence of searches and additions follows a \<open>clear\<close>, the cache never holds more
  elements than its size, its chain lists exactly the elements of the hash table, and no two of
  them have the same key.
\<close>

theorem hash_filo_bounded:
  assumes "hash_spec H elems key_of" "filo_clear H locked f = Some f0" "filo_reaches H key_of f0 g"
  shows "\<exists>xs. lru_ok g xs \<and> set xs = set (elems (cache g)) \<and> inj_on key_of (set xs) \<and>
              hash_records H (cache g) = length xs \<and> length xs \<le> hf_size f"
proof -
  have s: "hf_size f0 = hf_size f"
    using assms(2) by (auto simp: filo_clear_def Let_def mutex_lock_def mutex_unlock_def split: option.splits bool.splits if_splits)
  have "\<exists>xs. filo_refines elems key_of g xs \<and> hf_size g = hf_size f0"
    using assms(3)
  proof (induction rule: filo_reaches.induct)
    case reach_start
    show ?case using filo_clear_refines [OF assms(1,2)] by auto
  next
    case (reach_step g r g')
    then show ?case using filo_step_refines [OF assms(1)] by metis
  qed
  then obtain xs where x: "filo_refines elems key_of g xs" "hf_size g = hf_size f0" by blast
  then show ?thesis
    using filo_refines_length [OF x(1)] hash_specD(7) [OF assms(1), of "cache g"] s
    by (intro exI [of _ xs]) (auto simp: filo_refines_def)
qed

text \<open>A hash table as a list of elements, each its own key.\<close>

definition list_hash :: "(ptr list, ptr) hash_ops" where
  "list_hash = \<lparr>hash_init = [], hash_search = (\<lambda>c k. if k \<in> set c then k else 0), hash_insert = (\<lambda>c e. (False, c @ [e])),
     hash_delete = (\<lambda>c e. (False, removeAll e c)), hash_records = length, hash_element = (\<lambda>c i. if i < length c then c ! i else 0)\<rparr>"

lemma list_hash_spec: "hash_spec list_hash (\<lambda>c. c) (\<lambda>e. e)"
  by (auto simp: hash_spec_def list_hash_def distinct_removeAll)

definition cleared :: "ptr list hash_filo" where
  "cleared = (hash_filo_new 2 [])\<lparr>hf_init := True, hf_lock := Some False\<rparr>"

lemma clear_new: "filo_clear list_hash False (hash_filo_new 2 []) = Some cleared"
  by (simp add: filo_clear_def hash_filo_new_def cleared_def mutex_lock_def mutex_unlock_def list_hash_def)

lemma cleared_refines: "filo_refines (\<lambda>c. c) (\<lambda>e. e) cleared []"
  by (rule filo_clear_refines [OF list_hash_spec clear_new])

definition filled :: "ptr list hash_filo" where
  "filled = snd (filo_add list_hash 6 (snd (filo_add list_hash 5 cleared)))"

lemma filled_refines: "filo_refines (\<lambda>c. c) (\<lambda>e. e) filled [6, 5]"
proof -
  have "filo_refines (\<lambda>c. c) (\<lambda>e. e) (snd (filo_add list_hash 5 cleared)) [5]"
    using filo_add_refines [OF list_hash_spec cleared_refines, of 5]
    by (simp add: lru_add_def list_hash_def cleared_def hash_filo_new_def Let_def)
  from filo_add_refines [OF list_hash_spec this, of 6] show ?thesis
    by (simp add: lru_add_def list_hash_def filled_def cleared_def hash_filo_new_def Let_def filo_add_def)
qed

theorem hash_filo_refines_lru_witness:
  "fst (filo_search list_hash 5 filled) = 5 \<and>
   filo_refines (\<lambda>c. c) (\<lambda>e. e) (snd (filo_search list_hash 5 filled)) [5, 6] \<and>
   fst (filo_add list_hash 7 filled) = False \<and>
   filo_refines (\<lambda>c. c) (\<lambda>e. e) (snd (filo_add list_hash 7 filled)) [7, 6]"
proof -
  have "hf_size filled = 2"
    by (simp add: filled_def filo_add_def list_hash_def cleared_def hash_filo_new_def Let_def)
  then show ?thesis
    using hash_filo_refines_lru [OF list_hash_spec filled_refines, of 5 7]
    by (simp add: lru_search_def lru_add_def list_hash_def Let_def)
qed

theorem hash_filo_bounded_witness:
  "\<exists>xs. lru_ok (snd (filo_add list_hash 5 cleared)) xs \<and> length xs \<le> 2"
proof -
  have "filo_step list_hash (\<lambda>e. e) cleared (Add 5) (snd (filo_add list_hash 5 cleared))"
    by (rule step_add) (simp_all add: list_hash_def cleared_def hash_filo_new_def)
  then have "filo_reaches list_hash (\<lambda>e. e) cleared (snd (filo_add list_hash 5 cleared))"
    by (rule reach_step [OF reach_start])
  from hash_filo_bounded [OF list_hash_spec clear_new this] show ?thesis by (auto simp: hash_filo_new_def)
qed

text \<open>
  \<open>resize\<close> locks the mutex that only \<open>clear\<close> initialises: before the first \<open>clear\<close> it has no
  defined result; after it, \<open>resize\<close> empties the cache, sets the new size and releases the
  mutex.
\<close>

theorem hash_filo_resize:
  "filo_resize H n (hash_filo_new sz c) = None \<and>
   (\<exists>f g. filo_clear H False (hash_filo_new sz c) = Some f \<and> filo_resize H n f = Some g \<and>
          hf_size g = n \<and> lru_ok g [] \<and> cache g = hash_init H \<and> hf_lock g = Some False)"
  by (simp add: filo_resize_def filo_clear_def hash_filo_new_def mutex_lock_def mutex_unlock_def lru_ok_def Let_def)

section \<open>The hash set\<close>

lemma hset_insert_elems:
  assumes "hash_spec H elems key_of" "0 \<notin> set (elems (hset_table H s))" "hset_insert H key_of s v = (False, s')"
  shows "if key_of v \<in> key_of ` set (elems (hset_table H s)) then s' = Some (hset_table H s)
         else set (elems (hset_table H s')) = insert v (set (elems (hset_table H s))) \<and>
              length (elems (hset_table H s')) = length (elems (hset_table H s)) + 1"
proof (cases "key_of v \<in> key_of ` set (elems (hset_table H s))")
  case True
  then have "hash_search H (hset_table H s) (key_of v) \<noteq> 0"
    using hash_specD(2) [OF assms(1), of "hset_table H s" "key_of v"] assms(2) by (metis (no_types, lifting) imageE)
  then show ?thesis using True assms(3) by (simp add: hset_insert_def Let_def hset_find_def hset_table_def)
next
  case False
  then have "hash_search H (hset_table H s) (key_of v) = 0"
    using hash_specD(3) [OF assms(1), of "hset_table H s" "key_of v"] by (metis imageI)
  then show ?thesis
    using False assms(3) hash_specD(5) [OF assms(1), of "hset_table H s" v]
    by (auto simp: hset_insert_def Let_def hset_find_def hset_table_def split: prod.splits)
qed

lemma hset_walk:
  assumes "hash_spec H elems key_of" "i \<le> length (elems (hset_table H s))"
  shows "map (\<lambda>j. fst (hset_iter_next H s j)) [i..<length (elems (hset_table H s))] = drop i (elems (hset_table H s))"
  using hash_specD(7,8) [OF assms(1)] assms(2)
  by (intro nth_equalityI) (auto simp: hset_iter_next_def hset_size_def hset_at_def)

text \<open>
  inserting into a hash set keeps one element per key: a value whose key is present changes
  nothing, a new one is added; the size counts the elements, and the iterator visits every
  element once, then returns null.
\<close>

theorem hash_set_operations:
  assumes "hash_spec H elems key_of" "0 \<notin> set (elems (hset_table H s))" "hset_insert H key_of s v = (False, s')"
    and "distinct (map key_of (elems (hset_table H s)))"
  shows "key_of ` set (elems (hset_table H s')) = insert (key_of v) (key_of ` set (elems (hset_table H s))) \<and>
         distinct (map key_of (elems (hset_table H s'))) \<and>
         hset_size H s' = card (key_of ` set (elems (hset_table H s'))) \<and>
         map (\<lambda>j. fst (hset_iter_next H s' j)) [0..<hset_size H s'] = elems (hset_table H s') \<and>
         hset_iter_next H s' (hset_size H s') = (0, hset_size H s')"
proof -
  let ?E = "elems (hset_table H s)" and ?E' = "elems (hset_table H s')"
  note I = hset_insert_elems [OF assms(1-3)]
  have sz: "hset_size H s' = length ?E'" using hash_specD(7) [OF assms(1)] by (simp add: hset_size_def)
  have keys: "key_of ` set ?E' = insert (key_of v) (key_of ` set ?E)" using I by (auto simp: hset_table_def split: if_splits)
  have "card (key_of ` set ?E) = length ?E" using assms(4) distinct_card [of "map key_of ?E"] by simp
  then have "card (key_of ` set ?E') = length ?E'"
    using I keys by (auto simp: hset_table_def insert_absorb split: if_splits)
  then have "distinct (map key_of ?E')" "card (key_of ` set ?E') = length ?E'"
    using card_distinct [of "map key_of ?E'"] by auto
  then show ?thesis using keys sz hset_walk [OF assms(1), of 0 s'] by (simp add: hset_iter_next_def)
qed

theorem hash_set_operations_witness:
  "hset_size list_hash (snd (hset_insert list_hash (\<lambda>e. e) None 5)) = 1"
proof -
  have i: "hset_insert list_hash (\<lambda>e. e) None 5 = (False, Some [5])"
    by (simp add: hset_insert_def hset_table_def hset_find_def list_hash_def)
  have z: "hset_table list_hash None = []" by (simp add: hset_table_def list_hash_def)
  show ?thesis
    using hash_set_operations [OF list_hash_spec _ i] unfolding z by (simp add: i hset_table_def)
qed

end
