(* ===== verification/Arrays.thy ===== *)
theory Arrays
  imports Prelude "HOL-Library.Multiset"
begin

text \<open>
  The growable array \<open>Mem_root_array\<close> of \<^verbatim>\<open>mem_root_array.h\<close> and the view \<open>Bounds_checked_array\<close> of
  \<^verbatim>\<open>sql_array.h\<close>.  A failed assertion is the result \<open>None\<close>.  The allocator \<open>alloc_root\<close> is compiled
  code: it is the argument \<open>alloc\<close>, which gets the number of bytes and returns the initial slots
  of the new array or nothing.  The records \<open>built\<close> and \<open>destroyed\<close> keep the elements that were
  copy-constructed and destroyed, in order.
\<close>

section \<open>Mem-root array\<close>

record 'a Mem_root_array =
  slots :: "nat \<Rightarrow> 'a"
  m_size :: nat
  m_capacity :: nat
  built :: "'a list"
  destroyed :: "'a list"

type_synonym 'a allocator = "nat \<Rightarrow> (nat \<Rightarrow> 'a) option"

definition mra_new :: "(nat \<Rightarrow> 'a) \<Rightarrow> 'a Mem_root_array" where
  "mra_new raw = \<lparr>slots = raw, m_size = 0, m_capacity = 0, built = [], destroyed = []\<rparr>"

definition mra_at :: "'a Mem_root_array \<Rightarrow> nat \<Rightarrow> 'a option" where
  "mra_at a n = (if n < m_size a then Some (slots a n) else None)"

text \<open>\<open>size() - 1\<close> wraps around in an empty array, so that the bound of \<open>at\<close> fails.\<close>

definition mra_back :: "'a Mem_root_array \<Rightarrow> 'a option" where
  "mra_back a = mra_at a (if m_size a = 0 then 2 ^ 64 - 1 else m_size a - 1)"

definition mra_empty :: "'a Mem_root_array \<Rightarrow> bool" where
  "mra_empty a \<longleftrightarrow> m_size a = 0"

definition construct :: "nat \<Rightarrow> 'a \<Rightarrow> 'a Mem_root_array \<Rightarrow> 'a Mem_root_array" where
  "construct i x a = a\<lparr>slots := (slots a)(i := x), built := built a @ [x]\<rparr>"

fun destroy_from :: "nat \<Rightarrow> nat \<Rightarrow> 'a Mem_root_array \<Rightarrow> 'a Mem_root_array" where
  "destroy_from ix 0 a = a"
| "destroy_from ix (Suc k) a = destroy_from (Suc ix) k (a\<lparr>destroyed := destroyed a @ [slots a ix]\<rparr>)"

definition mra_chop :: "bool \<Rightarrow> nat \<Rightarrow> 'a Mem_root_array \<Rightarrow> 'a Mem_root_array option" where
  "mra_chop trivial p a =
     (if \<not> p < m_size a then None
      else let a1 = (if \<not> trivial then destroy_from p (m_size a - p) a else a)
           in Some (a1\<lparr>m_size := p\<rparr>))"

definition mra_clear :: "bool \<Rightarrow> 'a Mem_root_array \<Rightarrow> 'a Mem_root_array option" where
  "mra_clear trivial a = (if \<not> mra_empty a then mra_chop trivial 0 a else Some a)"

text \<open>The copying loop of \<open>reserve\<close>, from index \<open>ix\<close>, \<open>k\<close> elements to go, into the new slots.\<close>

fun copy_over :: "bool \<Rightarrow> nat \<Rightarrow> nat \<Rightarrow> (nat \<Rightarrow> 'a) \<Rightarrow> 'a Mem_root_array \<Rightarrow> (nat \<Rightarrow> 'a) \<times> 'a Mem_root_array" where
  "copy_over trivial ix 0 arr a = (arr, a)"
| "copy_over trivial ix (Suc k) arr a =
     (let a1 = a\<lparr>built := built a @ [slots a ix]\<rparr>;
          a2 = (if \<not> trivial then a1\<lparr>destroyed := destroyed a1 @ [slots a1 ix]\<rparr> else a1)
      in copy_over trivial (Suc ix) k (arr(ix := slots a ix)) a2)"

definition mra_reserve :: "'a allocator \<Rightarrow> nat \<Rightarrow> bool \<Rightarrow> nat \<Rightarrow> 'a Mem_root_array \<Rightarrow> bool \<times> 'a Mem_root_array" where
  "mra_reserve alloc element_size trivial n a =
     (if n \<le> m_capacity a then (False, a)
      else case alloc (n * element_size mod 2 ^ 64) of
             None \<Rightarrow> (True, a)
           | Some arr \<Rightarrow>
               (let (arr', a1) = copy_over trivial 0 (m_size a) arr a
                in (False, a1\<lparr>slots := arr', m_capacity := n\<rparr>)))"

definition mra_push_back :: "'a allocator \<Rightarrow> nat \<Rightarrow> bool \<Rightarrow> 'a \<Rightarrow> 'a Mem_root_array \<Rightarrow> bool \<times> 'a Mem_root_array" where
  "mra_push_back alloc element_size trivial x a =
     (let (e1, a1) = (if 0 = m_capacity a then mra_reserve alloc element_size trivial 20 a else (False, a))
      in if e1 then (True, a1)
         else let (e2, a2) = (if m_size a1 = m_capacity a1
                              then mra_reserve alloc element_size trivial (m_capacity a1 * 2 mod 2 ^ 64) a1
                              else (False, a1))
              in if e2 then (True, a2)
                 else (False, construct (m_size a2) x (a2\<lparr>m_size := m_size a2 + 1\<rparr>)))"

definition mra_pop_back :: "bool \<Rightarrow> 'a Mem_root_array \<Rightarrow> 'a Mem_root_array option" where
  "mra_pop_back trivial a =
     (if mra_empty a then None
      else let a1 = (if \<not> trivial then a\<lparr>destroyed := destroyed a @ [slots a (m_size a - 1)]\<rparr> else a)
           in Some (a1\<lparr>m_size := m_size a1 - 1\<rparr>))"

text \<open>The loops of \<open>resize\<close>; a loop that never ends is \<open>None\<close>.\<close>

partial_function (option) push_until ::
    "'a allocator \<Rightarrow> nat \<Rightarrow> bool \<Rightarrow> nat \<Rightarrow> 'a \<Rightarrow> 'a Mem_root_array \<Rightarrow> 'a Mem_root_array option" where
  "push_until alloc element_size trivial n val a =
     (if n \<noteq> m_size a
      then push_until alloc element_size trivial n val (snd (mra_push_back alloc element_size trivial val a))
      else Some a)"

fun pop_until :: "bool \<Rightarrow> nat \<Rightarrow> 'a Mem_root_array \<Rightarrow> 'a Mem_root_array option" where
  "pop_until trivial 0 a = Some a"
| "pop_until trivial (Suc k) a =
     (case mra_pop_back trivial a of None \<Rightarrow> None | Some a1 \<Rightarrow> pop_until trivial k a1)"

definition mra_resize :: "'a allocator \<Rightarrow> nat \<Rightarrow> bool \<Rightarrow> nat \<Rightarrow> 'a \<Rightarrow> 'a Mem_root_array \<Rightarrow> 'a Mem_root_array option" where
  "mra_resize alloc element_size trivial n val a =
     (if n = m_size a then Some a
      else if n > m_size a
      then let (e, a1) = mra_reserve alloc element_size trivial n a
           in if \<not> e then push_until alloc element_size trivial n val a1 else Some a1
      else case (if \<not> trivial then pop_until trivial (m_size a - n) a else Some a) of
             None \<Rightarrow> None
           | Some a1 \<Rightarrow> Some (a1\<lparr>m_size := n\<rparr>))"

section \<open>Bounds-checked array\<close>

text \<open>The view is the address of its first element and a length; element \<open>i\<close> is at address \<open>m_array + i\<close>.\<close>

record Bounds_checked_array =
  bca_array :: ptr
  bca_size :: nat

definition bca_reset :: "ptr \<Rightarrow> nat \<Rightarrow> Bounds_checked_array" where
  "bca_reset array_arg size_arg = \<lparr>bca_array = array_arg, bca_size = size_arg\<rparr>"

definition bca_resize :: "Bounds_checked_array \<Rightarrow> nat \<Rightarrow> Bounds_checked_array option" where
  "bca_resize v new_size = (if new_size \<le> bca_size v then Some (v\<lparr>bca_size := new_size\<rparr>) else None)"

definition bca_index :: "(ptr \<Rightarrow> 'a) \<Rightarrow> Bounds_checked_array \<Rightarrow> nat \<Rightarrow> 'a option" where
  "bca_index m v n = (if n < bca_size v then Some (m (bca_array v + n)) else None)"

definition bca_store :: "(ptr \<Rightarrow> 'a) \<Rightarrow> Bounds_checked_array \<Rightarrow> nat \<Rightarrow> 'a \<Rightarrow> (ptr \<Rightarrow> 'a) option" where
  "bca_store m v n x = (if n < bca_size v then Some (m(bca_array v + n := x)) else None)"

definition bca_is_null :: "Bounds_checked_array \<Rightarrow> bool" where
  "bca_is_null v \<longleftrightarrow> bca_array v = 0"

definition bca_pop_front :: "Bounds_checked_array \<Rightarrow> Bounds_checked_array option" where
  "bca_pop_front v =
     (if bca_size v > 0 then Some \<lparr>bca_array = bca_array v + 1, bca_size = bca_size v - 1\<rparr> else None)"

definition bca_eq :: "Bounds_checked_array \<Rightarrow> Bounds_checked_array \<Rightarrow> bool" where
  "bca_eq v rhs \<longleftrightarrow> bca_array v = bca_array rhs \<and> bca_size v = bca_size rhs"

definition bca_neq :: "Bounds_checked_array \<Rightarrow> Bounds_checked_array \<Rightarrow> bool" where
  "bca_neq v rhs \<longleftrightarrow> bca_array v \<noteq> bca_array rhs \<or> bca_size v \<noteq> bca_size rhs"

section \<open>Invariant and contents\<close>

definition contents :: "'a Mem_root_array \<Rightarrow> 'a list" where
  "contents a = map (slots a) [0..<m_size a]"

text \<open>
  The size stays within the capacity, and every element that was built is either still in the
  array or has been destroyed.  (With a trivial destructor nothing is destroyed, and only the
  first part is kept.)
\<close>

definition mra_ok :: "bool \<Rightarrow> 'a Mem_root_array \<Rightarrow> bool" where
  "mra_ok trivial a \<longleftrightarrow>
     m_size a \<le> m_capacity a \<and> m_capacity a < 2 ^ 63 \<and>
     (\<not> trivial \<longrightarrow> mset (built a) = mset (destroyed a) + mset (contents a))"

lemma destroy_from_eq:
  "destroy_from ix k a = a\<lparr>destroyed := destroyed a @ map (slots a) [ix..<ix + k]\<rparr>"
proof (induction k arbitrary: ix a)
  case (Suc k)
  have "[ix..<ix + Suc k] = ix # [Suc ix..<Suc ix + k]" by (simp add: upt_rec)
  then show ?case using Suc by simp
qed simp

lemma copy_over_eq:
  "copy_over trivial ix k arr a =
     ((\<lambda>j. if ix \<le> j \<and> j < ix + k then slots a j else arr j),
      a\<lparr>built := built a @ map (slots a) [ix..<ix + k],
        destroyed := destroyed a @ (if trivial then [] else map (slots a) [ix..<ix + k])\<rparr>)"
proof (induction k arbitrary: ix arr a)
  case 0 show ?case by (auto simp: fun_eq_iff)
next
  case (Suc k)
  have u: "[ix..<ix + Suc k] = ix # [Suc ix..<Suc ix + k]" by (simp add: upt_rec)
  show ?case unfolding u by (simp add: Suc.IH Let_def del: upt_Suc) (auto simp: fun_eq_iff)
qed

lemma reserve_ok:
  assumes "mra_ok trivial a" "n < 2 ^ 63" "mra_reserve alloc es trivial n a = (e, a')"
  shows "mra_ok trivial a'" "contents a' = contents a" "m_size a' = m_size a"
    "m_capacity a' = (if e then m_capacity a else max n (m_capacity a))"
    "e \<longleftrightarrow> n > m_capacity a \<and> alloc (n * es mod 2 ^ 64) = None"
proof -
  show 1: "m_size a' = m_size a" "m_capacity a' = (if e then m_capacity a else max n (m_capacity a))"
    "e \<longleftrightarrow> n > m_capacity a \<and> alloc (n * es mod 2 ^ 64) = None"
    using assms(3) by (auto simp: mra_reserve_def copy_over_eq split: if_splits option.splits)
  show c: "contents a' = contents a"
    using assms(3) by (auto simp: mra_reserve_def copy_over_eq contents_def split: if_splits option.splits)
  have "mset (built a') = mset (destroyed a') + mset (contents a')" if "\<not> trivial"
    using assms that c by (auto simp: mra_reserve_def copy_over_eq mra_ok_def contents_def split: if_splits option.splits)
  then show "mra_ok trivial a'" using assms(1,2) 1 by (auto simp: mra_ok_def)
qed

lemma construct_contents:
  "contents (construct (m_size a) x (a\<lparr>m_size := m_size a + 1\<rparr>)) = contents a @ [x]"
  by (auto simp: contents_def construct_def)

lemma push_back_ok:
  assumes "mra_ok trivial a" "m_capacity a < 2 ^ 62" "mra_push_back alloc es trivial x a = (e, a')"
  shows "mra_ok trivial a'" "contents a' = contents a @ (if e then [] else [x])"
    "m_size a' = m_size a + (if e then 0 else 1)"
    "m_size a < m_capacity a \<Longrightarrow> \<not> e \<and> m_capacity a' = m_capacity a"
    "m_size a = m_capacity a \<Longrightarrow>
       m_capacity a' = (if e then m_capacity a else if m_capacity a = 0 then 20 else 2 * m_capacity a)"
    "m_size a = m_capacity a \<Longrightarrow> e \<longleftrightarrow> alloc ((if m_capacity a = 0 then 20 else 2 * m_capacity a) * es mod 2 ^ 64) = None"
proof -
  obtain e1 a1 where A: "(if 0 = m_capacity a then mra_reserve alloc es trivial 20 a else (False, a)) = (e1, a1)" by force
  have a1: "mra_ok trivial a1" "contents a1 = contents a" "m_size a1 = m_size a"
    "m_capacity a1 = (if e1 \<or> m_capacity a \<noteq> 0 then m_capacity a else 20)"
    "e1 \<longleftrightarrow> m_capacity a = 0 \<and> alloc (20 * es mod 2 ^ 64) = None"
    using A assms(1) reserve_ok [OF assms(1), of 20 alloc es e1 a1] by (auto split: if_splits)
  obtain e2 a2 where B: "(if m_size a1 = m_capacity a1 then mra_reserve alloc es trivial (m_capacity a1 * 2 mod 2 ^ 64) a1
      else (False, a1)) = (e2, a2)" by force
  have cap: "m_capacity a1 * 2 mod 2 ^ 64 = m_capacity a1 * 2" "m_capacity a1 * 2 < 2 ^ 63" using a1(4) assms(2) by auto
  have a2: "mra_ok trivial a2" "contents a2 = contents a1" "m_size a2 = m_size a1"
    "m_capacity a2 = (if \<not> e2 \<and> m_size a1 = m_capacity a1 then m_capacity a1 * 2 else m_capacity a1)"
    "e2 \<longleftrightarrow> m_size a1 = m_capacity a1 \<and> m_capacity a1 > 0 \<and> alloc (m_capacity a1 * 2 * es mod 2 ^ 64) = None"
    using B a1(1) reserve_ok [OF a1(1) cap(2), of alloc es e2 a2] unfolding cap(1) by (auto split: if_splits)
  have P: "mra_push_back alloc es trivial x a =
      (if e1 then (True, a1) else if e2 then (True, a2)
       else (False, construct (m_size a2) x (a2\<lparr>m_size := m_size a2 + 1\<rparr>)))"
    using A B by (simp add: mra_push_back_def Let_def)
  have C: "contents (construct (m_size a2) x (a2\<lparr>m_size := m_size a2 + 1\<rparr>)) = contents a2 @ [x]" by (rule construct_contents)
  have e: "e \<longleftrightarrow> e1 \<or> e2" using assms(3) P by (cases e1; cases e2) simp_all
  have fail: "a' = (if e1 then a1 else a2)" if e using assms(3) P that e by (cases e1) (simp_all split: if_splits)
  have done_: "a' = construct (m_size a2) x (a2\<lparr>m_size := m_size a2 + 1\<rparr>)" if "\<not> e"
    using assms(3) P that e by simp
  have sz: "m_size a' = m_size a + (if e then 0 else 1)" "m_capacity a' = (if e1 then m_capacity a1 else m_capacity a2)"
    using fail done_ e a1(3) a2(3) by (cases e; simp add: construct_def)+
  show "contents a' = contents a @ (if e then [] else [x])"
    using fail done_ C a1(2) a2(2) by (cases e) simp_all
  show "m_size a' = m_size a + (if e then 0 else 1)" by (rule sz(1))
  have k: "m_size a \<le> m_capacity a" using assms(1) by (simp add: mra_ok_def)
  show "\<not> e \<and> m_capacity a' = m_capacity a" if "m_size a < m_capacity a"
    using that sz(2) a1(3-5) a2(3-5) e by simp
  have full: "m_capacity a = 0 \<Longrightarrow> \<not> e1 \<Longrightarrow> m_capacity a1 = 20 \<and> \<not> e2 \<and> m_capacity a2 = 20"
    "m_capacity a \<noteq> 0 \<Longrightarrow> \<not> e1 \<and> m_capacity a1 = m_capacity a" if "m_size a = m_capacity a"
    using that a1(3-5) a2(3-5) by auto
  show "m_capacity a' = (if e then m_capacity a else if m_capacity a = 0 then 20 else 2 * m_capacity a)"
    "e \<longleftrightarrow> alloc ((if m_capacity a = 0 then 20 else 2 * m_capacity a) * es mod 2 ^ 64) = None"
    if c: "m_size a = m_capacity a"
  proof -
    have "m_capacity a' = (if e then m_capacity a else if m_capacity a = 0 then 20 else 2 * m_capacity a) \<and>
      (e \<longleftrightarrow> alloc ((if m_capacity a = 0 then 20 else 2 * m_capacity a) * es mod 2 ^ 64) = None)"
    proof (cases "m_capacity a = 0")
      case True then show ?thesis using full(1) [OF c True] sz(2) e a1(4,5) by (cases e1) simp_all
    next
      case False
      note F = full(2) [OF c False]
      have "m_size a1 = m_capacity a1" using F a1(3) c by simp
      then show ?thesis using F False sz(2) e a2(4,5) by (cases e2) (simp_all add: mult.commute mult.left_commute)
    qed
    then show "m_capacity a' = (if e then m_capacity a else if m_capacity a = 0 then 20 else 2 * m_capacity a)"
      "e \<longleftrightarrow> alloc ((if m_capacity a = 0 then 20 else 2 * m_capacity a) * es mod 2 ^ 64) = None" by blast+
  qed
  have "mra_ok trivial (construct (m_size a2) x (a2\<lparr>m_size := m_size a2 + 1\<rparr>))" if "\<not> e"
  proof -
    have "m_size a2 < m_capacity a2"
      using full k a1(3-5) a2(3,4) that e by (cases "m_size a = m_capacity a"; cases "m_capacity a = 0") simp_all
    then show ?thesis using a2(1) C by (simp add: mra_ok_def construct_def)
  qed
  then show "mra_ok trivial a'" using fail done_ a1(1) a2(1) by (cases e) simp_all
qed

lemma pop_back_ok:
  assumes "mra_ok trivial a" "m_size a \<noteq> 0"
  shows "\<exists>a'. mra_pop_back trivial a = Some a' \<and> mra_ok trivial a' \<and> contents a' = butlast (contents a) \<and>
           m_size a' = m_size a - 1 \<and> m_capacity a' = m_capacity a"
proof -
  have "contents a = map (slots a) [0..<m_size a - 1] @ [slots a (m_size a - 1)]"
    using assms(2) by (cases "m_size a") (auto simp: contents_def)
  then show ?thesis using assms by (auto simp: mra_pop_back_def mra_empty_def mra_ok_def contents_def Let_def)
qed

lemma chop_ok:
  assumes "mra_ok trivial a" "p < m_size a"
  shows "\<exists>a'. mra_chop trivial p a = Some a' \<and> mra_ok trivial a' \<and> contents a' = take p (contents a) \<and> m_capacity a' = m_capacity a"
proof -
  have "[0..<m_size a] = [0..<p] @ [p..<m_size a]" using assms(2) upt_add_eq_append [of 0 p "m_size a - p"] by simp
  then have "contents a = map (slots a) [0..<p] @ map (slots a) [p..<m_size a]" by (simp add: contents_def)
  then show ?thesis using assms by (auto simp: mra_chop_def mra_ok_def destroy_from_eq contents_def Let_def)
qed

lemma push_until_ok:
  assumes "mra_ok trivial a" "m_size a \<le> n" "n \<le> m_capacity a" "m_capacity a < 2 ^ 62"
  shows "\<exists>a'. push_until alloc es trivial n val a = Some a' \<and> mra_ok trivial a' \<and>
           contents a' = contents a @ replicate (n - m_size a) val \<and> m_capacity a' = m_capacity a"
  using assms
proof (induction "n - m_size a" arbitrary: a)
  case 0 then show ?case by (subst push_until.simps) simp
next
  case (Suc k)
  obtain e a1 where P: "mra_push_back alloc es trivial val a = (e, a1)" by force
  note O = push_back_ok [OF Suc.prems(1,4) P]
  have ne: "\<not> e" "m_capacity a1 = m_capacity a" using O(4) Suc.hyps(2) Suc.prems by auto
  have "\<exists>a'. push_until alloc es trivial n val a1 = Some a' \<and> mra_ok trivial a' \<and>
           contents a' = contents a1 @ replicate (n - m_size a1) val \<and> m_capacity a' = m_capacity a1"
    using Suc.hyps O ne Suc.prems by (intro Suc.hyps(1)) auto
  moreover have "push_until alloc es trivial n val a = push_until alloc es trivial n val a1"
    using Suc.hyps(2) P by (subst push_until.simps) auto
  moreover have "n - m_size a = Suc (n - m_size a1)" using Suc.hyps(2) O(3) ne by simp
  ultimately show ?case using O(2) ne by auto
qed

lemma pop_until_ok:
  "mra_ok trivial a \<Longrightarrow> k \<le> m_size a \<Longrightarrow>
   \<exists>a'. pop_until trivial k a = Some a' \<and> mra_ok trivial a' \<and> contents a' = take (m_size a - k) (contents a) \<and>
        m_size a' = m_size a - k \<and> m_capacity a' = m_capacity a"
proof (induction k arbitrary: a)
  case 0 then show ?case by (simp add: contents_def)
next
  case (Suc k)
  obtain a1 where a1: "mra_pop_back trivial a = Some a1" "mra_ok trivial a1" "contents a1 = butlast (contents a)"
    "m_size a1 = m_size a - 1" "m_capacity a1 = m_capacity a" using pop_back_ok [OF Suc.prems(1)] Suc.prems(2) by auto
  have "take (m_size a - 1 - k) (butlast (contents a)) = take (m_size a - Suc k) (contents a)"
    using Suc.prems(2) by (simp add: butlast_conv_take contents_def min_def)
  then show ?case using Suc.IH [OF a1(2)] a1 Suc.prems(2) by auto
qed

lemma resize_ok:
  assumes "mra_ok trivial a" "m_capacity a < 2 ^ 62" "n < 2 ^ 62"
  shows "\<exists>a'. mra_resize alloc es trivial n val a = Some a' \<and> mra_ok trivial a' \<and>
           contents a' = (if n > m_capacity a \<and> alloc (n * es mod 2 ^ 64) = None then contents a
                          else take n (contents a) @ replicate (n - m_size a) val)"
proof -
  have len: "length (contents a) = m_size a" by (simp add: contents_def)
  consider "n = m_size a" | "n > m_size a" | "n < m_size a" by linarith
  then show ?thesis
  proof cases
    case 1 then show ?thesis using assms len by (simp add: mra_resize_def mra_ok_def)
  next
    case 2
    obtain e a1 where R: "mra_reserve alloc es trivial n a = (e, a1)" by force
    have n: "n < 2 ^ 63" using assms(3) by simp
    note K = reserve_ok [OF assms(1) n R]
    show ?thesis
    proof (cases e)
      case True then show ?thesis using 2 R K by (auto simp: mra_resize_def)
    next
      case False
      have "\<exists>a'. push_until alloc es trivial n val a1 = Some a' \<and> mra_ok trivial a' \<and>
           contents a' = contents a1 @ replicate (n - m_size a1) val \<and> m_capacity a' = m_capacity a1"
        using K False 2 assms(2,3) by (intro push_until_ok) auto
      then show ?thesis using 2 R K False len by (auto simp: mra_resize_def)
    qed
  next
    case 3
    have pop: "\<exists>a'. pop_until trivial (m_size a - n) a = Some a' \<and> mra_ok trivial a' \<and> contents a' = take n (contents a) \<and>
        m_size a' = n" using pop_until_ok [OF assms(1), of "m_size a - n"] 3 by auto
    have cap: "\<not> n > m_capacity a" using 3 assms(1) by (auto simp: mra_ok_def)
    show ?thesis
    proof (cases trivial)
      case True
      have "contents (a\<lparr>m_size := n\<rparr>) = take n (contents a)" using 3 by (simp add: contents_def take_map)
      then show ?thesis using 3 True assms(1) cap by (auto simp: mra_resize_def mra_ok_def)
    next
      case False
      then obtain a' where "pop_until trivial (m_size a - n) a = Some a'" "mra_ok trivial a'" "contents a' = take n (contents a)"
        "m_size a' = n" using pop by blast
      then show ?thesis using 3 False cap by (auto simp: mra_resize_def)
    qed
  qed
qed

section \<open>Properties\<close>

text \<open>
  \<open>push_back\<close> either appends the element or, exactly when the array is full and the
  allocation for the doubled capacity fails, reports failure with the contents unchanged; the
  size never exceeds the capacity, and every built element is in the array or was destroyed.
\<close>

theorem mem_root_array_push_back:
  assumes "mra_ok trivial a" "m_capacity a < 2 ^ 62" "mra_push_back alloc es trivial x a = (e, a')"
  shows "mra_ok trivial a' \<and> contents a' = contents a @ (if e then [] else [x]) \<and>
         (e \<longleftrightarrow> m_size a = m_capacity a \<and>
                alloc ((if m_capacity a = 0 then 20 else 2 * m_capacity a) * es mod 2 ^ 64) = None) \<and>
         m_capacity a' = (if e \<or> m_size a < m_capacity a then m_capacity a
                          else if m_capacity a = 0 then 20 else 2 * m_capacity a)"
proof -
  note P = push_back_ok [OF assms]
  have "m_size a \<le> m_capacity a" using assms(1) by (simp add: mra_ok_def)
  then consider "m_size a < m_capacity a" | "m_size a = m_capacity a" by linarith
  then show ?thesis
  proof cases
    case 1 then show ?thesis using P(1,2,4) by auto
  next
    case 2 then show ?thesis using P(1,2) P(5,6) [OF 2] by auto
  qed
qed

definition new_array :: "nat Mem_root_array" where
  "new_array = mra_new (\<lambda>_. 0)"

lemma new_array_ok: "mra_ok False new_array" "m_capacity new_array < 2 ^ 62" "contents new_array = []"
  by (simp_all add: new_array_def mra_new_def mra_ok_def contents_def)

theorem mem_root_array_push_back_witness:
  "contents (snd (mra_push_back (\<lambda>_. Some (\<lambda>_. 0)) 8 False 7 new_array)) = [7] \<and>
   fst (mra_push_back (\<lambda>_. None) 8 False 7 new_array)"
proof -
  let ?r = "mra_push_back (\<lambda>_. Some (\<lambda>_. 0)) 8 False 7 new_array" and ?s = "mra_push_back (\<lambda>_. None) 8 False 7 new_array"
  show ?thesis
    using mem_root_array_push_back [OF new_array_ok(1,2), of "\<lambda>_. Some (\<lambda>_. 0)" 8 7 "fst ?r" "snd ?r"]
      mem_root_array_push_back [OF new_array_ok(1,2), of "\<lambda>_. None" 8 7 "fst ?s" "snd ?s"]
      new_array_ok(3) by (simp add: new_array_def mra_new_def)
qed

text \<open>
  \<open>resize\<close> terminates; it truncates to the first \<open>n\<close> elements, or pads with copies of the
  value, except that a failed allocation silently leaves the array as it was; \<open>chop\<close> and
  \<open>pop_back\<close> truncate.  All keep the invariant.
\<close>

theorem mem_root_array_resize:
  assumes "mra_ok trivial a" "m_capacity a < 2 ^ 62" "n < 2 ^ 62"
  shows "(\<exists>a'. mra_resize alloc es trivial n val a = Some a' \<and> mra_ok trivial a' \<and>
            contents a' = (if n > m_capacity a \<and> alloc (n * es mod 2 ^ 64) = None then contents a
                           else take n (contents a) @ replicate (n - m_size a) val)) \<and>
         (p < m_size a \<longrightarrow> (\<exists>a'. mra_chop trivial p a = Some a' \<and> mra_ok trivial a' \<and> contents a' = take p (contents a))) \<and>
         (m_size a \<noteq> 0 \<longrightarrow> (\<exists>a'. mra_pop_back trivial a = Some a' \<and> mra_ok trivial a' \<and> contents a' = butlast (contents a)))"
  using resize_ok [OF assms, of alloc es val] chop_ok [OF assms(1), of p] pop_back_ok [OF assms(1)] by blast

theorem mem_root_array_resize_witness:
  "\<exists>a'. mra_resize (\<lambda>_. Some (\<lambda>_. 0)) 8 False 3 7 new_array = Some a' \<and> contents a' = [7, 7, 7]"
  using mem_root_array_resize [OF new_array_ok(1,2), of 3 "\<lambda>_. Some (\<lambda>_. 0)" 8 7 0] new_array_ok(3)
  by (auto simp: new_array_def mra_new_def numeral_3_eq_3)

text \<open>
  a bounds-checked array rejects every index outside its bound and every growth of the
  bound; popping the front shifts all indices by one; what was stored at an index is read back
  there and nowhere else; and \<open>!=\<close> is the negation of \<open>==\<close>.
\<close>

theorem bounds_checked_array_laws:
  "(bca_index m v n = None \<longleftrightarrow> n \<ge> bca_size v) \<and> (bca_resize v k = None \<longleftrightarrow> k > bca_size v) \<and>
   (case bca_pop_front v of
      None \<Rightarrow> bca_size v = 0
    | Some w \<Rightarrow> bca_size v = bca_size w + 1 \<and> bca_index m w n = bca_index m v (n + 1)) \<and>
   (case bca_store m v n x of
      None \<Rightarrow> bca_index m v n = None
    | Some m' \<Rightarrow> (\<forall>i. bca_index m' v i = (if i = n then Some x else bca_index m v i))) \<and>
   bca_neq v w = (\<not> bca_eq v w)"
  by (auto simp: bca_index_def bca_resize_def bca_pop_front_def bca_store_def bca_eq_def bca_neq_def)

end
