(* ===== verification/TranxAllocator.thy ===== *)
theory TranxAllocator
  imports Prelude
begin

text \<open>
  The node allocator of semi-synchronous replication, \<open>Tranx_node_allocator\<close> of
  \<^verbatim>\<open>semisync_master.h\<close>.  Nodes live in blocks of sixteen, the blocks are chained, and nodes are
  handed out in the order of the chain; freeing the nodes before a node moves whole blocks to
  the rear.  Addresses are numbers, so that the pointer comparisons of the code are those of the
  model; the block \<open>my_malloc\<close> returns is an argument (0 when it fails).
\<close>

section \<open>The allocator\<close>

record Tranx_node =
  log_name :: string
  log_pos :: uint64
  tn_next :: ptr
  hash_next :: ptr

abbreviation (input) BLOCK_TRANX_NODES :: nat where "BLOCK_TRANX_NODES \<equiv> 16"

text \<open>The size of a node: the file name of \<open>FN_REFLEN\<close> bytes, a position and two pointers; a block
  starts with its pointer to the next block.\<close>

definition node_size :: nat where
  "node_size = 512 + 8 + 8 + 8"

definition node_addr :: "ptr \<Rightarrow> nat \<Rightarrow> ptr" where
  "node_addr block i = block + 8 + i * node_size"

definition block_size :: nat where
  "block_size = 8 + BLOCK_TRANX_NODES * node_size"

record Tranx_node_allocator =
  reserved_blocks :: nat
  first_block :: ptr
  last_block :: ptr
  current_block :: ptr
  last_node :: int
  block_num :: nat
  block_next :: "ptr \<Rightarrow> ptr"
  node_at :: "ptr \<Rightarrow> Tranx_node"

definition tna_new :: "nat \<Rightarrow> (ptr \<Rightarrow> Tranx_node) \<Rightarrow> Tranx_node_allocator" where
  "tna_new reserved_nodes raw =
     \<lparr>reserved_blocks = reserved_nodes div BLOCK_TRANX_NODES +
        (if reserved_nodes mod BLOCK_TRANX_NODES > 1 then 2 else 1),
      first_block = 0, last_block = 0, current_block = 0, last_node = -1, block_num = 0,
      block_next = (\<lambda>_. 0), node_at = raw\<rparr>"

definition set_block_next :: "Tranx_node_allocator \<Rightarrow> ptr \<Rightarrow> ptr \<Rightarrow> Tranx_node_allocator" where
  "set_block_next a b v = a\<lparr>block_next := (block_next a)(b := v)\<rparr>"

definition allocate_block :: "Tranx_node_allocator \<Rightarrow> ptr \<Rightarrow> bool \<times> Tranx_node_allocator" where
  "allocate_block a block =
     (if block \<noteq> 0
      then let a1 = set_block_next a block 0;
               a2 = (if first_block a1 = 0 then a1\<lparr>first_block := block\<rparr>
                     else set_block_next a1 (last_block a1) block)
           in (False, a2\<lparr>last_block := block, current_block := block, block_num := block_num a2 + 1\<rparr>)
      else (True, a))"

definition allocate_node :: "Tranx_node_allocator \<Rightarrow> ptr \<Rightarrow> ptr \<times> Tranx_node_allocator" where
  "allocate_node a mem_block =
     (let block = current_block a;
          a1 = (if last_node a = int BLOCK_TRANX_NODES - 1
                then a\<lparr>current_block := block_next a (current_block a), last_node := -1\<rparr> else a);
          (failed, a2) = (if current_block a1 = 0 then allocate_block a1 mem_block else (False, a1))
      in if failed
         then (0, a2\<lparr>current_block := block,
                     last_node := (if block \<noteq> 0 then int BLOCK_TRANX_NODES - 1 else last_node a2)\<rparr>)
         else let a3 = a2\<lparr>last_node := last_node a2 + 1\<rparr>;
                  trx_node = node_addr (current_block a3) (nat (last_node a3))
              in (trx_node, a3\<lparr>node_at := (node_at a3)(trx_node :=
                    \<lparr>log_name = [], log_pos = 0, tn_next = 0, hash_next = 0\<rparr>)\<rparr>))"

text \<open>Freeing a block gives its address back; the loop returns the first block that is kept.\<close>

partial_function (option) free_blocks_loop ::
    "Tranx_node_allocator \<Rightarrow> ptr \<Rightarrow> (ptr \<times> Tranx_node_allocator) option" where
  "free_blocks_loop a block =
     (if block_num a > reserved_blocks a \<and> block \<noteq> 0
      then free_blocks_loop (a\<lparr>block_num := block_num a - 1\<rparr>) (block_next a block)
      else Some (block, a))"

definition free_blocks :: "Tranx_node_allocator \<Rightarrow> Tranx_node_allocator option" where
  "free_blocks a =
     (if current_block a = 0 \<or> block_next a (current_block a) = 0 then Some a
      else case free_blocks_loop a (block_next a (block_next a (current_block a))) of
             None \<Rightarrow> None
           | Some (block, a1) \<Rightarrow>
               (let a2 = set_block_next a1 (block_next a1 (current_block a1)) block
                in Some (if block = 0 then a2\<lparr>last_block := block_next a2 (current_block a2)\<rparr> else a2)))"

definition free_all_nodes :: "Tranx_node_allocator \<Rightarrow> Tranx_node_allocator option" where
  "free_all_nodes a = free_blocks (a\<lparr>current_block := first_block a, last_node := -1\<rparr>)"

text \<open>The result 1 is the one the code reaches behind a failed assertion.\<close>

partial_function (option) free_before_loop ::
    "Tranx_node_allocator \<Rightarrow> ptr \<Rightarrow> ptr \<Rightarrow> ptr \<Rightarrow> (nat \<times> Tranx_node_allocator) option" where
  "free_before_loop a node block prev_block =
     (if block \<noteq> block_next a (current_block a)
      then if node_addr block 0 \<le> node \<and> node_addr block BLOCK_TRANX_NODES \<ge> node
           then if first_block a \<noteq> block
                then let a1 = set_block_next a (last_block a) (first_block a);
                         a2 = a1\<lparr>first_block := block, last_block := prev_block\<rparr>;
                         a3 = set_block_next a2 (last_block a2) 0
                     in (case free_blocks a3 of None \<Rightarrow> None | Some a4 \<Rightarrow> Some (0, a4))
                else Some (0, a)
           else free_before_loop a node (block_next a block) block
      else Some (1, a))"

definition free_nodes_before :: "Tranx_node_allocator \<Rightarrow> ptr \<Rightarrow> (nat \<times> Tranx_node_allocator) option" where
  "free_nodes_before a node = free_before_loop a node (first_block a) 0"

section \<open>The chain of blocks\<close>

primrec bchain :: "(ptr \<Rightarrow> ptr) \<Rightarrow> ptr \<Rightarrow> ptr list \<Rightarrow> ptr \<Rightarrow> bool" where
  "bchain N p [] q \<longleftrightarrow> p = q"
| "bchain N p (b # bs) q \<longleftrightarrow> p = b \<and> bchain N (N b) bs q"

text \<open>Blocks are disjoint pieces of memory, none of them at address 0.\<close>

definition disjoint_blocks :: "ptr list \<Rightarrow> bool" where
  "disjoint_blocks bs \<longleftrightarrow>
     distinct bs \<and> 0 \<notin> set bs \<and>
     (\<forall>b\<in>set bs. \<forall>c\<in>set bs. b \<noteq> c \<longrightarrow> b + block_size \<le> c \<or> c + block_size \<le> b)"

text \<open>
  The state of the allocator: the blocks \<open>bs\<close> up to the current one, in use, and the free blocks
  \<open>cs\<close> behind it.
\<close>

definition tna_ok :: "Tranx_node_allocator \<Rightarrow> ptr list \<Rightarrow> ptr list \<Rightarrow> bool" where
  "tna_ok a bs cs \<longleftrightarrow>
     bchain (block_next a) (first_block a) (bs @ cs) 0 \<and> disjoint_blocks (bs @ cs) \<and>
     block_num a = length (bs @ cs) \<and> -1 \<le> last_node a \<and> last_node a \<le> 15 \<and>
     (if bs = [] then cs = [] \<and> current_block a = 0 \<and> last_node a = -1
      else current_block a = last bs \<and> last_block a = last (bs @ cs))"

definition block_nodes :: "ptr \<Rightarrow> ptr list" where
  "block_nodes b = map (node_addr b) [0..<BLOCK_TRANX_NODES]"

text \<open>The nodes handed out and not yet freed, oldest first.\<close>

definition used :: "Tranx_node_allocator \<Rightarrow> ptr list \<Rightarrow> ptr list" where
  "used a bs =
     (if bs = [] then []
      else concat (map block_nodes (butlast bs)) @ map (node_addr (last bs)) [0..<nat (last_node a + 1)])"

lemma bchain_append: "bchain N p (xs @ ys) q \<longleftrightarrow> (\<exists>r. bchain N p xs r \<and> bchain N r ys q)"
  by (induction xs arbitrary: p) auto

lemma bchain_cong: "(\<And>b. b \<in> set bs \<Longrightarrow> N b = M b) \<Longrightarrow> bchain N p bs q = bchain M p bs q"
  by (induction bs arbitrary: p) auto

lemma bchain_upd: "b \<notin> set bs \<Longrightarrow> bchain (N(b := v)) p bs q = bchain N p bs q"
  by (induction bs arbitrary: p) auto

lemma last_block_not_null: "disjoint_blocks (bs @ cs) \<Longrightarrow> bs \<noteq> [] \<Longrightarrow> last bs \<noteq> 0"
  unfolding disjoint_blocks_def by (metis Un_iff last_in_set set_append)

lemma bchain_set_end:
  "bchain N p bs q \<Longrightarrow> distinct bs \<Longrightarrow> bs \<noteq> [] \<Longrightarrow> bchain (N(last bs := r)) p bs r"
proof (induction bs arbitrary: p)
  case (Cons b bs)
  then show ?case by (cases "bs = []") auto
qed simp

lemma bchain_next_last: "bchain N p bs q \<Longrightarrow> bs \<noteq> [] \<Longrightarrow> N (last bs) = q"
  by (induction bs arbitrary: p) auto

lemma bchain_start: "bchain N p bs q \<Longrightarrow> p = hd (bs @ [q])"
  by (cases bs) auto

lemma disjoint_blocks_perm: "disjoint_blocks bs \<Longrightarrow> set cs \<subseteq> set bs \<Longrightarrow> distinct cs \<Longrightarrow> disjoint_blocks cs"
  by (auto simp: disjoint_blocks_def)

lemma tna_access [simp]:
  "first_block (set_block_next a b v) = first_block a" "last_block (set_block_next a b v) = last_block a"
  "current_block (set_block_next a b v) = current_block a" "last_node (set_block_next a b v) = last_node a"
  "block_num (set_block_next a b v) = block_num a" "reserved_blocks (set_block_next a b v) = reserved_blocks a"
  "block_next (set_block_next a b v) = (block_next a)(b := v)"
  by (simp_all add: set_block_next_def)

text \<open>A node address determines its block and its place in it.\<close>

lemma node_in_block:
  assumes "disjoint_blocks bs" "b \<in> set bs" "c \<in> set bs" "i < 16"
  shows "node_addr c 0 \<le> node_addr b i \<and> node_addr c 16 \<ge> node_addr b i \<longleftrightarrow> b = c"
proof (cases "b = c")
  case True
  then show ?thesis using assms(4) by (simp add: node_addr_def node_size_def)
next
  case False
  then have "b + block_size \<le> c \<or> c + block_size \<le> b" using assms by (auto simp: disjoint_blocks_def)
  then show ?thesis using False assms(4) by (auto simp: node_addr_def node_size_def block_size_def)
qed

lemma node_addr_inj:
  assumes "disjoint_blocks bs" "b \<in> set bs" "c \<in> set bs" "i < 16" "j < 16" "node_addr b i = node_addr c j"
  shows "b = c \<and> i = j"
proof -
  have "b = c" using node_in_block [OF assms(1,2,3,4)] node_in_block [OF assms(1,3,3,5)] assms(6) by auto
  then show ?thesis using assms(6) by (simp add: node_addr_def node_size_def)
qed

lemma distinct_block_nodes: "disjoint_blocks bs \<Longrightarrow> distinct (concat (map block_nodes bs))"
proof (induction bs)
  case (Cons b bs)
  have "distinct (block_nodes b)"
    by (auto simp: block_nodes_def distinct_map inj_on_def node_addr_def node_size_def)
  moreover have "set (block_nodes b) \<inter> set (concat (map block_nodes bs)) = {}"
  proof -
    have "b = c" if "c \<in> set bs" "i < 16" "j < 16" "node_addr b i = node_addr c j" for c i j
      using node_addr_inj [OF Cons.prems, of b c i j] that by simp
    moreover have "b \<notin> set bs" using Cons.prems by (simp add: disjoint_blocks_def)
    ultimately show ?thesis by (fastforce simp: block_nodes_def)
  qed
  moreover have "disjoint_blocks bs" using Cons.prems by (auto simp: disjoint_blocks_def)
  ultimately show ?case using Cons.IH by auto
qed simp

lemma used_distinct:
  assumes "tna_ok a bs cs"
  shows "distinct (used a bs)"
proof (cases "bs = []")
  case False
  let ?n = "nat (last_node a + 1)"
  have n: "?n \<le> 16" using assms by (auto simp: tna_ok_def)
  have "disjoint_blocks bs" using assms disjoint_blocks_perm [of "bs @ cs" bs] by (auto simp: tna_ok_def disjoint_blocks_def)
  then have "distinct (concat (map block_nodes (butlast bs @ [last bs])))"
    using distinct_block_nodes False by simp
  then have d: "distinct (concat (map block_nodes (butlast bs)))" "distinct (block_nodes (last bs))"
    "set (concat (map block_nodes (butlast bs))) \<inter> set (block_nodes (last bs)) = {}" by simp_all
  have t: "map (node_addr (last bs)) [0..<?n] = take ?n (block_nodes (last bs))"
    using n by (simp add: block_nodes_def take_map)
  show ?thesis using d False set_take_subset [of ?n "block_nodes (last bs)"] unfolding used_def t by (auto simp: disjoint_iff)
qed (simp add: used_def)

lemma used_step:
  assumes "bs \<noteq> []" "0 \<le> last_node a' " "last_node a' = last_node a + 1"
  shows "used a' bs = used a bs @ [node_addr (last bs) (nat (last_node a'))]"
proof -
  have "nat (last_node a' + 1) = Suc (nat (last_node a'))" "nat (last_node a + 1) = nat (last_node a')"
    using assms by simp_all
  then show ?thesis using assms(1) by (simp add: used_def)
qed

lemma used_new_block:
  assumes "bs = [] \<or> last_node a = 15" "last_node a' = 0"
  shows "used a' (bs @ [b]) = used a bs @ [node_addr b 0]"
proof (cases "bs = []")
  case False
  then have "nat (last_node a + 1) = 16" using assms(1) by simp
  then have "used a bs = concat (map block_nodes (butlast bs)) @ block_nodes (last bs)"
    using False by (simp add: used_def block_nodes_def)
  also have "\<dots> = concat (map block_nodes (butlast bs @ [last bs]))" by simp
  finally have "used a bs = concat (map block_nodes bs)" using False by simp
  then show ?thesis using False assms(2) by (simp add: used_def)
qed (use assms in \<open>simp add: used_def\<close>)

lemma allocate_block_ok:
  assumes "tna_ok a bs []" "b \<noteq> 0" "disjoint_blocks (bs @ [b])"
  shows "\<exists>a'. allocate_block (a\<lparr>current_block := c, last_node := k\<rparr>) b = (False, a') \<and>
     bchain (block_next a') (first_block a') (bs @ [b]) 0 \<and> last_block a' = b \<and> current_block a' = b \<and>
     block_num a' = length (bs @ [b]) \<and> last_node a' = k \<and> reserved_blocks a' = reserved_blocks a"
proof -
  have ch: "bchain (block_next a) (first_block a) bs 0" "b \<notin> set bs" "distinct bs" "0 \<notin> set bs"
    using assms by (auto simp: tna_ok_def disjoint_blocks_def)
  show ?thesis
  proof (cases "bs = []")
    case True
    then have "first_block a = 0" "block_num a = 0" using assms(1) by (simp_all add: tna_ok_def)
    then show ?thesis using True assms(2) by (simp add: allocate_block_def Let_def)
  next
    case False
    then have f: "first_block a = hd bs" "hd bs \<in> set bs" using bchain_start [OF ch(1)] by (cases bs; simp)+
    then have "first_block a \<noteq> 0" using ch(4) by metis
    moreover have "last_block a = last bs" "block_num a = length bs" using assms(1) False by (simp_all add: tna_ok_def)
    moreover have "last bs \<noteq> b" using False ch(2) by (metis last_in_set)
    moreover have "bchain ((block_next a)(b := 0, last bs := b)) (first_block a) bs b"
    proof (rule bchain_set_end [OF _ ch(3) False])
      show "bchain ((block_next a)(b := 0)) (first_block a) bs 0"
        using ch(1,2) by (simp add: bchain_upd)
    qed
    ultimately show ?thesis using assms(2) f by (auto simp: allocate_block_def Let_def bchain_append)
  qed
qed

lemma allocate_node_ok:
  assumes "tna_ok a bs cs" "mem_block = 0 \<or> disjoint_blocks (bs @ cs @ [mem_block])"
  shows "let (node, a') = allocate_node a mem_block in
     if node = 0 then cs = [] \<and> mem_block = 0 \<and> a' = a
     else \<exists>bs' cs'. tna_ok a' bs' cs' \<and> used a' bs' = used a bs @ [node]"
proof -
  have ok: "bchain (block_next a) (first_block a) (bs @ cs) 0" "disjoint_blocks (bs @ cs)" "block_num a = length (bs @ cs)"
    "-1 \<le> last_node a" "last_node a \<le> 15" using assms(1) by (simp_all add: tna_ok_def)
  have addr: "node_addr b i \<noteq> 0" for b i by (simp add: node_addr_def)
  consider (room) "bs \<noteq> []" "last_node a < 15" | (nextb) c cs' where "bs \<noteq> []" "last_node a = 15" "cs = c # cs'"
    | (full) "bs = [] \<or> last_node a = 15" "cs = []"
    using assms(1) ok(5) by (cases cs; cases "bs = []"; cases "last_node a = 15"; force simp: tna_ok_def)
  then show ?thesis
  proof cases
    case room
    then have c: "current_block a = last bs" "last bs \<noteq> 0" "last_block a = last (bs @ cs)"
      using assms(1) last_block_not_null [OF ok(2)] by (simp_all add: tna_ok_def)
    define a' where "a' = snd (allocate_node a mem_block)"
    have r: "allocate_node a mem_block = (node_addr (last bs) (nat (last_node a + 1)), a')"
      "block_next a' = block_next a" "first_block a' = first_block a" "block_num a' = block_num a"
      "last_node a' = last_node a + 1" "current_block a' = last bs" "last_block a' = last_block a"
      using room c by (simp_all add: allocate_node_def a'_def Let_def)
    have "tna_ok a' bs cs" using ok r room c by (simp add: tna_ok_def)
    moreover have "used a' bs = used a bs @ [node_addr (last bs) (nat (last_node a'))]"
      using room ok(4) r(5) by (intro used_step) simp_all
    ultimately show ?thesis using r by (auto simp: addr)
  next
    case nextb
    have "block_next a (last bs) = c" using ok(1) nextb bchain_next_last [of "block_next a" "first_block a" bs c]
      by (auto simp: bchain_append)
    moreover have "current_block a = last bs" "c \<noteq> 0" "last_block a = last (bs @ cs)"
      using assms(1) nextb ok(2) by (auto simp: tna_ok_def disjoint_blocks_def)
    moreover define a' where "a' = snd (allocate_node a mem_block)"
    ultimately have r: "allocate_node a mem_block = (node_addr c 0, a')"
      "block_next a' = block_next a" "first_block a' = first_block a" "block_num a' = block_num a"
      "last_node a' = 0" "current_block a' = c" "last_block a' = last (bs @ cs)"
      using nextb by (simp_all add: allocate_node_def Let_def)
    have "tna_ok a' (bs @ [c]) cs'" using ok r nextb by (simp add: tna_ok_def)
    moreover have "used a' (bs @ [c]) = used a bs @ [node_addr c 0]"
      using nextb r(5) by (intro used_new_block) simp_all
    ultimately show ?thesis using r(1) by (auto simp: addr)
  next
    case full
    have cur: "(if last_node a = 15 then block_next a (current_block a) else current_block a) = 0"
      using assms(1) full bchain_next_last [of "block_next a" "first_block a" bs 0] ok(1) by (auto simp: tna_ok_def split: if_splits)
    show ?thesis
    proof (cases "mem_block = 0")
      case True
      have "allocate_node a mem_block = (0, a)"
      proof (cases "last_node a = 15")
        case eq: True
        have "bs \<noteq> []" using eq assms(1) by (auto simp: tna_ok_def)
        then have "current_block a \<noteq> 0" using assms(1) last_block_not_null [OF ok(2)] by (simp add: tna_ok_def)
        then show ?thesis using eq True cur by (cases a) (simp add: allocate_node_def allocate_block_def)
      next
        case False
        then show ?thesis using True cur by (cases a) (simp add: allocate_node_def allocate_block_def)
      qed
      then show ?thesis using full True by simp
    next
      case False
      then have dj: "disjoint_blocks (bs @ [mem_block])" using assms(2) full by simp
      have ok0: "tna_ok a bs []" using assms(1) full by simp
      obtain a2 where a2: "allocate_block (a\<lparr>current_block := 0, last_node := -1\<rparr>) mem_block = (False, a2)"
        "bchain (block_next a2) (first_block a2) (bs @ [mem_block]) 0" "last_block a2 = mem_block" "current_block a2 = mem_block"
        "block_num a2 = length (bs @ [mem_block])" "last_node a2 = -1" "reserved_blocks a2 = reserved_blocks a"
        using allocate_block_ok [OF ok0 False dj, where c = 0 and k = "-1"] by auto
      have st: "(if last_node a = 15 then a\<lparr>current_block := block_next a (current_block a), last_node := -1\<rparr> else a) =
          a\<lparr>current_block := 0, last_node := -1\<rparr>" using cur full assms(1) by (auto simp: tna_ok_def)
      define a' where "a' = snd (allocate_node a mem_block)"
      have r: "allocate_node a mem_block = (node_addr mem_block 0, a')"
        "block_next a' = block_next a2" "first_block a' = first_block a2" "block_num a' = block_num a2"
        "last_node a' = 0" "current_block a' = mem_block" "last_block a' = mem_block"
        using st a2 by (simp_all add: allocate_node_def Let_def a'_def)
      have "tna_ok a' (bs @ [mem_block]) []" using r a2 dj by (simp add: tna_ok_def)
      moreover have "used a' (bs @ [mem_block]) = used a bs @ [node_addr mem_block 0]"
        using full r(5) by (intro used_new_block) simp_all
      ultimately show ?thesis using r(1) by (auto simp: addr)
    qed
  qed
qed

lemma free_blocks_loop_ok:
  "bchain (block_next a) p cs 0 \<Longrightarrow> 0 \<notin> set cs \<Longrightarrow>
   \<exists>k. free_blocks_loop a p = Some (hd (drop k cs @ [0]), a\<lparr>block_num := block_num a - k\<rparr>) \<and>
       k \<le> length cs \<and> k \<le> block_num a - reserved_blocks a \<and> (k = length cs \<or> block_num a - k \<le> reserved_blocks a)"
proof (induction cs arbitrary: a p)
  case Nil
  then show ?case by (intro exI [of _ 0]) (subst free_blocks_loop.simps, simp)
next
  case (Cons c cs)
  then have p: "p = c" "c \<noteq> 0" by auto
  show ?case
  proof (cases "block_num a > reserved_blocks a")
    case True
    let ?a = "a\<lparr>block_num := block_num a - 1\<rparr>"
    have "bchain (block_next ?a) (block_next a c) cs 0" "0 \<notin> set cs" using Cons.prems by auto
    from Cons.IH [OF this] obtain k where k: "free_blocks_loop ?a (block_next a c) =
        Some (hd (drop k cs @ [0]), a\<lparr>block_num := block_num a - Suc k\<rparr>)"
      "k \<le> length cs" "k \<le> block_num a - 1 - reserved_blocks a" "k = length cs \<or> block_num a - 1 - k \<le> reserved_blocks a"
      by auto
    moreover have "free_blocks_loop a p = free_blocks_loop ?a (block_next a c)"
      using True p by (subst free_blocks_loop.simps) simp
    ultimately show ?thesis using True by (intro exI [of _ "Suc k"]) auto
  next
    case False
    then show ?thesis using p by (intro exI [of _ 0]) (subst free_blocks_loop.simps, simp)
  qed
qed

text \<open>\<open>free_blocks\<close> shortens the free blocks to the reserve, always keeping the first of them.\<close>

lemma free_blocks_ok:
  assumes "tna_ok a bs cs"
  shows "\<exists>a' cs'. free_blocks a = Some a' \<and> tna_ok a' bs cs' \<and> last_node a' = last_node a \<and>
     set cs' \<subseteq> set cs \<and> block_num a' = min (block_num a) (max (length bs + 1) (reserved_blocks a)) \<and>
     reserved_blocks a' = reserved_blocks a"
proof (cases "bs = [] \<or> cs = []")
  case True
  then have "current_block a = 0 \<or> block_next a (current_block a) = 0"
    using assms bchain_next_last [of "block_next a" "first_block a" bs 0] by (auto simp: tna_ok_def split: if_splits)
  then show ?thesis using assms True by (intro exI [of _ a] exI [of _ cs]) (auto simp: free_blocks_def tna_ok_def min_def)
next
  case False
  then obtain c ds where cs: "cs = c # ds" by (cases cs) auto
  have ok: "bchain (block_next a) (first_block a) bs c" "bchain (block_next a) (block_next a c) ds 0" "c \<noteq> 0" "0 \<notin> set ds"
    "disjoint_blocks (bs @ c # ds)" "current_block a = last bs" "last_block a = last (c # ds)" "block_num a = length bs + 1 + length ds"
    using assms False cs by (auto simp: tna_ok_def bchain_append disjoint_blocks_def)
  have nx: "block_next a (last bs) = c" using bchain_next_last [OF ok(1)] False by simp
  have dist: "distinct (bs @ c # ds)" using ok(5) by (simp add: disjoint_blocks_def)
  then have lb: "last bs \<noteq> c" using False by (metis IntI UnCI distinct_append empty_iff last_in_set list.set_intros(1))
  obtain k where k: "free_blocks_loop a (block_next a c) = Some (hd (drop k ds @ [0]), a\<lparr>block_num := block_num a - k\<rparr>)"
    "k \<le> length ds" "k \<le> block_num a - reserved_blocks a" "k = length ds \<or> block_num a - k \<le> reserved_blocks a"
    using free_blocks_loop_ok [OF ok(2,4)] by auto
  let ?d = "hd (drop k ds @ [0])" and ?e = "drop k ds"
  define a2 where "a2 = set_block_next (a\<lparr>block_num := block_num a - k\<rparr>) c ?d"
  define a' where "a' = (if ?d = 0 then a2\<lparr>last_block := c\<rparr> else a2)"
  have r: "free_blocks a = Some a'"
    using ok(3,6) nx lb k(1) last_block_not_null [OF ok(5)] False
    by (auto simp: free_blocks_def a'_def a2_def Let_def)
  have "0 \<notin> set ?e" using ok(4) by (auto dest: in_set_dropD)
  then have d0: "?d = 0 \<longleftrightarrow> ?e = []" by (cases ?e) simp_all
  have "bchain (block_next a) (hd (?e @ [0])) ?e 0"
    using ok(2) append_take_drop_id [of k ds] bchain_append [of "block_next a" "block_next a c" "take k ds" ?e 0] bchain_start
    by metis
  moreover have "c \<notin> set ?e" "c \<notin> set bs" using dist by (auto dest: in_set_dropD)
  ultimately have "bchain ((block_next a)(c := ?d)) (first_block a) (bs @ c # ?e) 0"
    using ok(1) by (auto simp: bchain_append bchain_upd)
  moreover have "disjoint_blocks (bs @ c # ?e)"
    using ok(5) dist by (intro disjoint_blocks_perm [OF ok(5)]) (auto dest: in_set_dropD intro: distinct_drop)
  moreover have "last_block a' = last (bs @ c # ?e)"
    using d0 ok(7) k(2) by (auto simp: a'_def a2_def last_drop)
  moreover have "block_next a' = (block_next a)(c := ?d)" "first_block a' = first_block a" "block_num a' = length (bs @ c # ?e)"
    "current_block a' = last bs" "last_node a' = last_node a"
    using ok(6,8) k(2) by (auto simp: a'_def a2_def)
  ultimately have "tna_ok a' bs (c # ?e)"
    using assms False by (simp add: tna_ok_def)
  moreover have "last_node a' = last_node a" "reserved_blocks a' = reserved_blocks a" "block_num a' = block_num a - k"
    by (simp_all add: a'_def a2_def)
  moreover have "block_num a - k = min (block_num a) (max (length bs + 1) (reserved_blocks a))" using k(2-4) ok(8) by auto
  ultimately show ?thesis using r cs
    by (intro exI [of _ a'] exI [of _ "c # ?e"]) (auto dest: in_set_dropD)
qed

text \<open>The search for the block of a node.\<close>

lemma free_before_loop_find:
  assumes "bchain (block_next a) p (xs @ b # ys) (block_next a (current_block a))"
    "disjoint_blocks bs" "set (xs @ b # ys) \<subseteq> set bs" "distinct (xs @ b # ys)" "i < 16"
    "block_next a (current_block a) \<notin> set (xs @ b # ys)"
  shows "free_before_loop a (node_addr b i) p prev = free_before_loop a (node_addr b i) b (last (prev # xs))"
  using assms(1,3,4,6)
proof (induction xs arbitrary: p prev)
  case Nil then show ?case by simp
next
  case (Cons x xs)
  have x: "p = x" "x \<noteq> block_next a (current_block a)" "x \<noteq> b" "x \<in> set bs" "b \<in> set bs" using Cons.prems by auto
  then have "\<not> (node_addr x 0 \<le> node_addr b i \<and> node_addr x 16 \<ge> node_addr b i)"
    using node_in_block [OF assms(2) x(5,4) assms(5)] by auto
  then have "free_before_loop a (node_addr b i) p prev = free_before_loop a (node_addr b i) (block_next a x) x"
    using x(1,2) by (subst free_before_loop.simps) auto
  also have "\<dots> = free_before_loop a (node_addr b i) b (last (x # xs))"
    using Cons.prems by (intro Cons.IH) auto
  finally show ?case by simp
qed

lemma used_drop:
  assumes "last_node a' = last_node a"
  shows "used a' (b # ys) = drop (16 * length xs) (used a (xs @ b # ys))"
proof -
  have "length (concat (map block_nodes xs)) = 16 * length xs"
    by (induction xs) (simp_all add: block_nodes_def)
  moreover have "butlast (xs @ b # ys) = xs @ butlast (b # ys)" by (simp add: butlast_append)
  ultimately show ?thesis using assms by (simp add: used_def)
qed

lemma free_nodes_before_ok:
  assumes "tna_ok a (xs @ b # ys) cs" "i < 16"
  shows "\<exists>a' cs'. free_nodes_before a (node_addr b i) = Some (0, a') \<and> tna_ok a' (b # ys) cs' \<and>
     used a' (b # ys) = drop (16 * length xs) (used a (xs @ b # ys)) \<and> set cs' \<subseteq> set (xs @ cs) \<and>
     (if xs = [] then a' = a else block_num a' = min (block_num a) (max (length (b # ys) + 1) (reserved_blocks a)))"
proof -
  let ?bs = "xs @ b # ys"
  have ok: "bchain (block_next a) (first_block a) (?bs @ cs) 0" "disjoint_blocks (?bs @ cs)" "current_block a = last ?bs"
    "last_block a = last (?bs @ cs)" "block_num a = length (?bs @ cs)" "-1 \<le> last_node a" "last_node a \<le> 15"
    using assms(1) by (simp_all add: tna_ok_def)
  obtain r where r: "bchain (block_next a) (first_block a) ?bs r" "bchain (block_next a) r cs 0" using ok(1) bchain_append by metis
  have rn: "block_next a (current_block a) = r" using bchain_next_last [OF r(1)] ok(3) by simp
  have rc: "r = hd (cs @ [0])" by (rule bchain_start [OF r(2)])
  have dist: "distinct (?bs @ cs)" "0 \<notin> set (?bs @ cs)" using ok(2) by (simp_all add: disjoint_blocks_def)
  have rb: "r \<notin> set ?bs" using rc dist by (cases cs) auto
  have find: "free_nodes_before a (node_addr b i) = free_before_loop a (node_addr b i) b (last (0 # xs))"
    unfolding free_nodes_before_def
    by (rule free_before_loop_find [of a _ _ _ ys "?bs @ cs"]) (use r rn ok(2) dist rb assms(2) in auto)
  have inb: "node_addr b 0 \<le> node_addr b i \<and> node_addr b 16 \<ge> node_addr b i"
    using node_in_block [OF ok(2), of b b i] assms(2) by simp
  show ?thesis
  proof (cases "xs = []")
    case True
    then have "free_nodes_before a (node_addr b i) = Some (0, a)"
      using find inb rb rn bchain_start [OF r(1)] by (subst (asm) free_before_loop.simps) auto
    then show ?thesis using True assms(1) by (intro exI [of _ a] exI [of _ cs]) simp
  next
    case False
    have fb: "first_block a = hd xs" "hd xs \<in> set xs" using bchain_start [OF r(1)] False by (cases xs; simp)+
    then have nb: "first_block a \<noteq> b" using dist by auto
    have lx: "last xs \<in> set xs" "last (0 # xs) = last xs" using False by simp_all
    define a3 where "a3 = set_block_next ((set_block_next a (last_block a) (first_block a))\<lparr>first_block := b, last_block := last xs\<rparr>) (last xs) 0"
    have run: "free_nodes_before a (node_addr b i) = (case free_blocks a3 of None \<Rightarrow> None | Some a4 \<Rightarrow> Some (0, a4))"
      using find inb rb rn nb lx by (subst (asm) free_before_loop.simps) (auto simp: a3_def Let_def)
    have rest: "bchain (block_next a) b ((b # ys) @ cs) 0" and front: "bchain (block_next a) (hd xs) xs b"
      using ok(1) fb by (auto simp: bchain_append)
    have lb: "last_block a = last ((b # ys) @ cs)" using ok(4) by simp
    have "bchain ((block_next a)(last_block a := hd xs)) b ((b # ys) @ cs) (hd xs)"
      unfolding lb by (rule bchain_set_end [OF rest]) (use dist in auto)
    then have A: "bchain ((block_next a)(last_block a := hd xs, last xs := 0)) b ((b # ys) @ cs) (hd xs)"
      using dist lx(1) by (subst bchain_upd) auto
    have lbn: "last_block a \<notin> set xs" using lb dist last_in_set [of "(b # ys) @ cs"] by auto
    have "bchain ((block_next a)(last xs := 0)) (hd xs) xs 0" by (rule bchain_set_end [OF front]) (use dist False in auto)
    then have "bchain ((block_next a)(last_block a := hd xs, last xs := 0)) (hd xs) xs 0"
      using lbn lx(1) by (subst fun_upd_twist) (auto simp: bchain_upd)
    then have "bchain ((block_next a)(last_block a := hd xs, last xs := 0)) b (((b # ys) @ cs) @ xs) 0"
      using A unfolding bchain_append [of _ _ "(b # ys) @ cs" xs] by blast
    then have "bchain (block_next a3) (first_block a3) ((b # ys) @ cs @ xs) 0"
      using fb by (simp add: a3_def)
    moreover have "disjoint_blocks ((b # ys) @ cs @ xs)"
      by (rule disjoint_blocks_perm [OF ok(2)]) (use dist in auto)
    ultimately have "tna_ok a3 (b # ys) (cs @ xs)"
      using ok(3,5-7) False by (simp add: tna_ok_def a3_def)
    from free_blocks_ok [OF this] obtain a4 cs' where a4: "free_blocks a3 = Some a4" "tna_ok a4 (b # ys) cs'"
      "last_node a4 = last_node a3" "set cs' \<subseteq> set (cs @ xs)"
      "block_num a4 = min (block_num a3) (max (length (b # ys) + 1) (reserved_blocks a3))" by auto
    have "last_node a4 = last_node a" "reserved_blocks a3 = reserved_blocks a" "block_num a3 = block_num a"
      using a4(3) by (simp_all add: a3_def)
    then show ?thesis using run a4 used_drop [of a4 a b ys xs] False by (intro exI [of _ a4] exI [of _ cs']) auto
  qed
qed

section \<open>Properties\<close>

lemma tna_new_ok: "tna_ok (tna_new n raw) [] []"
  by (simp add: tna_ok_def tna_new_def disjoint_blocks_def)

text \<open>
  Allocating a node hands out a node that is not in use and appends it to the nodes in use;
  it fails only when no free block is left and memory is exhausted, and then changes nothing.
\<close>

theorem allocate_node_fresh:
  assumes "tna_ok a bs cs" "mem_block = 0 \<or> disjoint_blocks (bs @ cs @ [mem_block])"
    and "allocate_node a mem_block = (node, a')"
  shows "if node = 0 then cs = [] \<and> mem_block = 0 \<and> a' = a
         else node \<notin> set (used a bs) \<and> (\<exists>bs' cs'. tna_ok a' bs' cs' \<and> used a' bs' = used a bs @ [node])"
proof -
  have R: "if node = 0 then cs = [] \<and> mem_block = 0 \<and> a' = a
      else \<exists>bs' cs'. tna_ok a' bs' cs' \<and> used a' bs' = used a bs @ [node]"
    using allocate_node_ok [OF assms(1,2)] assms(3) by (simp add: Let_def)
  show ?thesis
  proof (cases "node = 0")
    case False
    then obtain bs' cs' where N: "tna_ok a' bs' cs'" "used a' bs' = used a bs @ [node]" using R by auto
    then have "distinct (used a bs @ [node])" using used_distinct [OF N(1)] by simp
    then show ?thesis using False N by auto
  qed (use R in simp)
qed

definition first_alloc :: "ptr \<times> Tranx_node_allocator" where
  "first_alloc = allocate_node (tna_new 20 (\<lambda>_. \<lparr>log_name = [], log_pos = 0, tn_next = 0, hash_next = 0\<rparr>)) 1000"

theorem allocate_node_fresh_witness:
  "\<exists>bs' cs'. tna_ok (snd first_alloc) bs' cs' \<and> used (snd first_alloc) bs' = [fst first_alloc]"
proof -
  have "fst first_alloc \<noteq> 0"
    by (simp add: first_alloc_def allocate_node_def allocate_block_def tna_new_def node_addr_def Let_def)
  then show ?thesis
    using allocate_node_fresh [OF tna_new_ok, of 1000 20 _ "fst first_alloc" "snd first_alloc"]
    by (auto simp: first_alloc_def disjoint_blocks_def used_def)
qed

text \<open>
  C9: Freeing the nodes before a node of a block in use terminates with success and drops exactly the nodes
  of the blocks before its block, keeping the order of the rest.  If there is no block before it nothing changes;
  otherwise free blocks are released until the number of blocks is the reserve or only one
  free block is left behind the blocks in use, whichever is more, and never more than that: the
  reserve is kept.  Freeing all nodes leaves none in use, and as many blocks as the reserve, two at least, or
  all of them if there were fewer.
\<close>

theorem free_nodes_correct:
  assumes "tna_ok a (xs @ b # ys) cs" "i < 16"
  shows "(\<exists>a' cs'. free_nodes_before a (node_addr b i) = Some (0, a') \<and> tna_ok a' (b # ys) cs' \<and>
            used a' (b # ys) = drop (16 * length xs) (used a (xs @ b # ys)) \<and> set cs' \<subseteq> set (xs @ cs) \<and>
            (if xs = [] then a' = a
             else block_num a' = min (block_num a) (max (length (b # ys) + 1) (reserved_blocks a)))) \<and>
         (\<exists>a' c cs'. free_all_nodes a = Some a' \<and> tna_ok a' [c] cs' \<and> used a' [c] = [] \<and>
            block_num a' = min (block_num a) (max 2 (reserved_blocks a)))"
proof
  show "\<exists>a' cs'. free_nodes_before a (node_addr b i) = Some (0, a') \<and> tna_ok a' (b # ys) cs' \<and>
            used a' (b # ys) = drop (16 * length xs) (used a (xs @ b # ys)) \<and> set cs' \<subseteq> set (xs @ cs) \<and>
            (if xs = [] then a' = a
             else block_num a' = min (block_num a) (max (length (b # ys) + 1) (reserved_blocks a)))"
    by (rule free_nodes_before_ok [OF assms])
  obtain c ds where c: "xs @ b # ys @ cs = c # ds" by (cases xs) auto
  let ?a = "a\<lparr>current_block := first_block a, last_node := -1\<rparr>"
  have ok: "bchain (block_next a) (first_block a) (c # ds) 0" "disjoint_blocks (c # ds)" "block_num a = length (c # ds)"
    "last_block a = last (c # ds)"
    using assms(1) by (simp_all add: tna_ok_def flip: c)
  have "tna_ok ?a [c] ds" using ok by (auto simp: tna_ok_def)
  from free_blocks_ok [OF this] obtain a' cs' where a': "free_blocks ?a = Some a'" "tna_ok a' [c] cs'" "last_node a' = -1"
    "block_num a' = min (block_num a) (max (length [c] + 1) (reserved_blocks a))" by auto
  then show "\<exists>a' c cs'. free_all_nodes a = Some a' \<and> tna_ok a' [c] cs' \<and> used a' [c] = [] \<and>
            block_num a' = min (block_num a) (max 2 (reserved_blocks a))"
    by (intro exI [of _ a'] exI [of _ c] exI [of _ cs']) (simp add: free_all_nodes_def used_def)
qed

text \<open>Four blocks of which three are in use, the last with five nodes, and a reserve of three blocks.\<close>

definition busy_tna :: Tranx_node_allocator where
  "busy_tna = (tna_new 40 (\<lambda>_. \<lparr>log_name = [], log_pos = 0, tn_next = 0, hash_next = 0\<rparr>))
     \<lparr>reserved_blocks := 3, first_block := 10000, last_block := 40000, current_block := 30000, last_node := 4, block_num := 4,
      block_next := (\<lambda>_. 0)(10000 := 20000, 20000 := 30000, 30000 := 40000)\<rparr>"

lemma busy_tna_ok: "tna_ok busy_tna ([10000, 20000] @ 30000 # []) [40000]"
  by (simp add: tna_ok_def busy_tna_def tna_new_def disjoint_blocks_def block_size_def node_size_def)

theorem free_nodes_correct_witness:
  "(\<exists>a' cs'. free_nodes_before busy_tna (node_addr 30000 2) = Some (0, a') \<and> tna_ok a' [30000] cs' \<and>
     used a' [30000] = drop 32 (used busy_tna [10000, 20000, 30000]) \<and> block_num a' = 3) \<and>
   (\<exists>a' c cs'. free_all_nodes busy_tna = Some a' \<and> used a' [c] = [] \<and> tna_ok a' [c] cs' \<and> block_num a' = 3)"
proof -
  have "block_num busy_tna = 4" "reserved_blocks busy_tna = 3" by (simp_all add: busy_tna_def)
  with free_nodes_correct [OF busy_tna_ok, of 2] show ?thesis by auto
qed

text \<open>
  the reserve set up by the constructor holds at least the reserved nodes, as its
  comment says, and at most two blocks more than needed.
\<close>

theorem reserved_blocks_enough:
  "n \<le> BLOCK_TRANX_NODES * reserved_blocks (tna_new n raw) \<and>
   BLOCK_TRANX_NODES * reserved_blocks (tna_new n raw) < n + 2 * BLOCK_TRANX_NODES"
  unfolding tna_new_def by simp presburger

end
