(* ===== verification/Spatial.thy ===== *)
theory Spatial
  imports Prelude
begin

text \<open>
  Minimum bounding rectangles, the structure \<open>MBR\<close> of \<^verbatim>\<open>spatial.h\<close>.  Coordinates are of any
  linearly ordered type, which covers the doubles other than NaN; \<open>DBL_MAX\<close> and its negative
  are the arguments \<open>dmax\<close> and \<open>dmin\<close> of the empty rectangle, and the rounding sums of \<open>buffer\<close>
  are arguments too.  The set of points of a rectangle gives each test its meaning.
\<close>

section \<open>The rectangle and its operations\<close>

record 'a MBR =
  xmin :: 'a
  ymin :: 'a
  xmax :: 'a
  ymax :: 'a

definition mbr_empty :: "'a \<Rightarrow> 'a \<Rightarrow> 'a MBR" where
  "mbr_empty dmin dmax = \<lparr>xmin = dmax, ymin = dmax, xmax = dmin, ymax = dmin\<rparr>"

definition mbr_of_corners :: "'a \<times> 'a \<Rightarrow> 'a \<times> 'a \<Rightarrow> 'a MBR" where
  "mbr_of_corners pmin pmax = \<lparr>xmin = fst pmin, ymin = snd pmin, xmax = fst pmax, ymax = snd pmax\<rparr>"

definition add_xy :: "'a :: linorder \<Rightarrow> 'a \<Rightarrow> 'a MBR \<Rightarrow> 'a MBR" where
  "add_xy x y m =
     (let m1 = (if x < xmin m then m\<lparr>xmin := x\<rparr> else m);
          m2 = (if x > xmax m1 then m1\<lparr>xmax := x\<rparr> else m1);
          m3 = (if y < ymin m2 then m2\<lparr>ymin := y\<rparr> else m2)
      in if y > ymax m3 then m3\<lparr>ymax := y\<rparr> else m3)"

definition add_mbr :: "'a :: linorder MBR \<Rightarrow> 'a MBR \<Rightarrow> 'a MBR" where
  "add_mbr n m =
     (let m1 = (if xmin n < xmin m then m\<lparr>xmin := xmin n\<rparr> else m);
          m2 = (if xmax n > xmax m1 then m1\<lparr>xmax := xmax n\<rparr> else m1);
          m3 = (if ymin n < ymin m2 then m2\<lparr>ymin := ymin n\<rparr> else m2)
      in if ymax n > ymax m3 then m3\<lparr>ymax := ymax n\<rparr> else m3)"

definition mbr_join :: "'a :: linorder MBR \<Rightarrow> 'a MBR \<Rightarrow> 'a MBR" where
  "mbr_join m1 m2 = add_mbr m2 \<lparr>xmin = xmin m1, ymin = ymin m1, xmax = xmax m1, ymax = ymax m1\<rparr>"

definition buffer :: "('a \<Rightarrow> 'a \<Rightarrow> 'a) \<Rightarrow> ('a \<Rightarrow> 'a \<Rightarrow> 'a) \<Rightarrow> 'a \<Rightarrow> 'a MBR \<Rightarrow> 'a MBR" where
  "buffer sub add d m = \<lparr>xmin = sub (xmin m) d, ymin = sub (ymin m) d, xmax = add (xmax m) d, ymax = add (ymax m) d\<rparr>"

definition equals :: "'a MBR \<Rightarrow> 'a MBR \<Rightarrow> bool" where
  "equals m n \<longleftrightarrow> xmin n = xmin m \<and> ymin n = ymin m \<and> xmax n = xmax m \<and> ymax n = ymax m"

definition disjoint :: "'a :: linorder MBR \<Rightarrow> 'a MBR \<Rightarrow> bool" where
  "disjoint m n \<longleftrightarrow> xmin n > xmax m \<or> ymin n > ymax m \<or> xmax n < xmin m \<or> ymax n < ymin m"

definition intersects :: "'a :: linorder MBR \<Rightarrow> 'a MBR \<Rightarrow> bool" where
  "intersects m n \<longleftrightarrow> \<not> disjoint m n"

definition touches :: "'a :: linorder MBR \<Rightarrow> 'a MBR \<Rightarrow> bool" where
  "touches m n \<longleftrightarrow>
     ((xmin n = xmax m \<or> xmax n = xmin m) \<and>
      ((ymin n \<ge> ymin m \<and> ymin n \<le> ymax m) \<or> (ymax n \<ge> ymin m \<and> ymax n \<le> ymax m))) \<or>
     ((ymin n = ymax m \<or> ymax n = ymin m) \<and>
      ((xmin n \<ge> xmin m \<and> xmin n \<le> xmax m) \<or> (xmax n \<ge> xmin m \<and> xmax n \<le> xmax m)))"

definition within :: "'a :: linorder MBR \<Rightarrow> 'a MBR \<Rightarrow> bool" where
  "within m n \<longleftrightarrow> xmin n \<le> xmin m \<and> ymin n \<le> ymin m \<and> xmax n \<ge> xmax m \<and> ymax n \<ge> ymax m"

definition contains :: "'a :: linorder MBR \<Rightarrow> 'a MBR \<Rightarrow> bool" where
  "contains m n \<longleftrightarrow> xmin n \<ge> xmin m \<and> ymin n \<ge> ymin m \<and> xmax n \<le> xmax m \<and> ymax n \<le> ymax m"

definition inner_point :: "'a :: linorder MBR \<Rightarrow> 'a \<Rightarrow> 'a \<Rightarrow> bool" where
  "inner_point m x y \<longleftrightarrow> xmin m < x \<and> xmax m > x \<and> ymin m < y \<and> ymax m > y"

definition dimension :: "'a :: linorder MBR \<Rightarrow> int" where
  "dimension m =
     (if xmin m > xmax m then -1
      else let d = (if xmin m < xmax m then 1 else 0)
           in if ymin m > ymax m then -1 else if ymin m < ymax m then d + 1 else d)"

definition overlaps :: "'a :: linorder MBR \<Rightarrow> 'a MBR \<Rightarrow> bool" where
  "overlaps m n =
     (let d = dimension m
      in if d \<noteq> dimension n \<or> d \<le> 0 \<or> contains m n \<or> within m n then False
         else d = dimension \<lparr>xmin = max (xmin m) (xmin n), ymin = max (ymin m) (ymin n),
                             xmax = min (xmax m) (xmax n), ymax = min (ymax m) (ymax n)\<rparr>)"

definition valid :: "'a :: linorder MBR \<Rightarrow> bool" where
  "valid m \<longleftrightarrow> xmin m \<le> xmax m \<and> ymin m \<le> ymax m"

section \<open>The points of a rectangle\<close>

definition points :: "'a :: linorder MBR \<Rightarrow> ('a \<times> 'a) set" where
  "points m = {(x, y). xmin m \<le> x \<and> x \<le> xmax m \<and> ymin m \<le> y \<and> y \<le> ymax m}"

lemma points_empty_iff: "points m = {} \<longleftrightarrow> \<not> valid m"
proof -
  have "(xmin m, ymin m) \<in> points m" if "valid m" using that by (simp add: points_def valid_def)
  moreover have "points m = {}" if "\<not> valid m" using that by (auto simp: points_def valid_def)
  ultimately show ?thesis by blast
qed

lemma add_xy_fields:
  "xmin (add_xy x y m) = min x (xmin m)" "xmax (add_xy x y m) = max x (xmax m)"
  "ymin (add_xy x y m) = min y (ymin m)" "ymax (add_xy x y m) = max y (ymax m)"
  by (auto simp: add_xy_def Let_def min_def max_def)

lemma add_mbr_fields:
  "xmin (add_mbr n m) = min (xmin n) (xmin m)" "xmax (add_mbr n m) = max (xmax n) (xmax m)"
  "ymin (add_mbr n m) = min (ymin n) (ymin m)" "ymax (add_mbr n m) = max (ymax n) (ymax m)"
  by (auto simp: add_mbr_def Let_def min_def max_def)

lemma within_points: "valid m \<Longrightarrow> within m n \<longleftrightarrow> points m \<subseteq> points n"
proof
  assume v: "valid m" and s: "points m \<subseteq> points n"
  have "(xmin m, ymin m) \<in> points n" "(xmax m, ymax m) \<in> points n" using v s by (auto simp: points_def valid_def)
  then show "within m n" by (simp add: points_def within_def)
qed (auto simp: within_def points_def)

lemma add_xy_within: "within (add_xy x y m) k \<longleftrightarrow> within m k \<and> xmin k \<le> x \<and> x \<le> xmax k \<and> ymin k \<le> y \<and> y \<le> ymax k"
  by (auto simp: within_def add_xy_fields)

lemma dimension_flat:
  "valid m \<Longrightarrow> dimension m = (if xmin m < xmax m then 1 else 0) + (if ymin m < ymax m then 1 else 0)"
  by (auto simp: dimension_def valid_def Let_def)

lemma dimension_invalid: "\<not> valid m \<Longrightarrow> dimension m = -1"
  by (auto simp: dimension_def valid_def Let_def)

section \<open>Properties\<close>

text \<open>
  starting from the empty rectangle and adding points one by one gives their minimum
  bounding rectangle: it lies within another rectangle exactly when all the points do (for
  coordinates in the range of the empty rectangle).
\<close>

theorem mbr_of_points:
  assumes "\<forall>(x, y)\<in>set ps. dmin \<le> x \<and> x \<le> dmax \<and> dmin \<le> y \<and> y \<le> dmax" "ps \<noteq> []"
  shows "within (foldr (\<lambda>(x, y). add_xy x y) ps (mbr_empty dmin dmax)) k \<longleftrightarrow> set ps \<subseteq> points k"
proof -
  have le: "dmin \<le> dmax" using assms by (cases ps) auto
  have *: "within (foldr (\<lambda>(x, y). add_xy x y) qs (mbr_empty dmin dmax)) k \<longleftrightarrow>
      within (mbr_empty dmin dmax) k \<and> set qs \<subseteq> points k" for qs
    by (induction qs) (auto simp: add_xy_within points_def)
  obtain x y where p: "(x, y) \<in> set ps" using assms(2) by (cases ps) auto
  have "within (mbr_empty dmin dmax) k" if "set ps \<subseteq> points k"
  proof -
    have "xmin k \<le> x" "x \<le> xmax k" "ymin k \<le> y" "y \<le> ymax k" using that p by (auto simp: points_def)
    moreover have "dmin \<le> x" "x \<le> dmax" "dmin \<le> y" "y \<le> dmax" using assms(1) p by auto
    ultimately show ?thesis by (auto simp: within_def mbr_empty_def)
  qed
  then show ?thesis using * by blast
qed

theorem mbr_of_points_witness:
  "within (foldr (\<lambda>(x, y). add_xy x y) [(1, 2), (5, 0)] (mbr_empty (-100) 100)) \<lparr>xmin = 1, ymin = 0, xmax = 5, ymax = (2 :: int)\<rparr>"
proof -
  have "\<forall>(x, y)\<in>set [(1 :: int, 2 :: int), (5, 0)]. -100 \<le> x \<and> x \<le> 100 \<and> -100 \<le> y \<and> y \<le> 100" by simp
  from mbr_of_points [OF this] show ?thesis by (simp add: points_def)
qed

text \<open>
  \<open>add_mbr\<close> is the join of rectangles under \<open>within\<close>: the least rectangle containing both;
  \<open>contains\<close> is the converse of \<open>within\<close>, and two rectangles are \<open>equals\<close> exactly when each
  is within the other.
\<close>

theorem mbr_join_least:
  "(within (mbr_join m n) k \<longleftrightarrow> within m k \<and> within n k) \<and>
   contains m n = within n m \<and> (equals m n \<longleftrightarrow> within m n \<and> within n m) \<and>
   (valid m \<longrightarrow> (within m n \<longleftrightarrow> points m \<subseteq> points n))"
proof (intro conjI)
  show "valid m \<longrightarrow> (within m n \<longleftrightarrow> points m \<subseteq> points n)" using within_points by blast
qed (auto simp: mbr_join_def within_def contains_def equals_def add_mbr_fields)

theorem mbr_join_least_witness:
  "within \<lparr>xmin = 1, ymin = 1, xmax = 2, ymax = (2 :: int)\<rparr> \<lparr>xmin = 0, ymin = 0, xmax = 3, ymax = 3\<rparr> \<longleftrightarrow>
   points \<lparr>xmin = 1, ymin = 1, xmax = 2, ymax = (2 :: int)\<rparr> \<subseteq> points \<lparr>xmin = 0, ymin = 0, xmax = 3, ymax = 3\<rparr>"
  using mbr_join_least [of "\<lparr>xmin = 1, ymin = 1, xmax = 2, ymax = (2 :: int)\<rparr>" "\<lparr>xmin = 0, ymin = 0, xmax = 3, ymax = 3\<rparr>"]
  by (simp add: valid_def)

text \<open>
  two valid rectangles intersect exactly when they have a common point; \<open>overlaps\<close> is
  symmetric, and holds only if they intersect and neither contains the other.
\<close>

theorem mbr_intersects_overlaps:
  assumes "valid m" "valid n"
  shows "(intersects m n \<longleftrightarrow> points m \<inter> points n \<noteq> {}) \<and> overlaps m n = overlaps n m \<and>
         (overlaps m n \<longrightarrow> intersects m n \<and> \<not> contains m n \<and> \<not> within m n)"
proof (intro conjI)
  have mem: "(max (xmin m) (xmin n), max (ymin m) (ymin n)) \<in> points m \<inter> points n" if "intersects m n"
    using that assms by (auto simp: intersects_def disjoint_def points_def valid_def)
  show "intersects m n \<longleftrightarrow> points m \<inter> points n \<noteq> {}"
  proof
    assume "points m \<inter> points n \<noteq> {}"
    then obtain x y where "(x, y) \<in> points m" "(x, y) \<in> points n" by auto
    then show "intersects m n" unfolding intersects_def disjoint_def points_def by fastforce
  qed (use mem in blast)
  show "overlaps m n = overlaps n m"
    by (auto simp: overlaps_def Let_def contains_def within_def max.commute min.commute)
  let ?i = "\<lparr>xmin = max (xmin m) (xmin n), ymin = max (ymin m) (ymin n), xmax = min (xmax m) (xmax n), ymax = min (ymax m) (ymax n)\<rparr>"
  show "overlaps m n \<longrightarrow> intersects m n \<and> \<not> contains m n \<and> \<not> within m n"
  proof
    assume o: "overlaps m n"
    then have "dimension ?i = dimension m" "dimension m > 0" "\<not> contains m n" "\<not> within m n"
      by (auto simp: overlaps_def Let_def split: if_splits)
    then have "valid ?i" using dimension_invalid [of ?i] by (cases "valid ?i") auto
    then show "intersects m n \<and> \<not> contains m n \<and> \<not> within m n"
      using \<open>\<not> contains m n\<close> \<open>\<not> within m n\<close> by (auto simp: valid_def intersects_def disjoint_def)
  qed
qed

theorem mbr_intersects_overlaps_witness:
  "intersects \<lparr>xmin = 0, ymin = 0, xmax = 2, ymax = (2 :: int)\<rparr> \<lparr>xmin = 1, ymin = 1, xmax = 3, ymax = 3\<rparr> \<longleftrightarrow>
   points \<lparr>xmin = 0, ymin = 0, xmax = 2, ymax = (2 :: int)\<rparr> \<inter> points \<lparr>xmin = 1, ymin = 1, xmax = 3, ymax = 3\<rparr> \<noteq> {}"
  using mbr_intersects_overlaps [of "\<lparr>xmin = 0, ymin = 0, xmax = 2, ymax = (2 :: int)\<rparr>" "\<lparr>xmin = 1, ymin = 1, xmax = 3, ymax = 3\<rparr>"]
  by (simp add: valid_def)

text \<open>
  \<open>touches\<close> is not symmetric, although touching is: it only looks whether an end of the
  argument's side lies on the side of the rectangle, and misses an argument whose side covers
  that side completely.
\<close>

theorem mbr_touches_asymmetric:
  "\<exists>m n :: int MBR. valid m \<and> valid n \<and> touches n m \<and> \<not> touches m n"
  by (rule exI [of _ "\<lparr>xmin = 0, ymin = 1, xmax = 1, ymax = 2\<rparr>"],
      rule exI [of _ "\<lparr>xmin = 1, ymin = 0, xmax = 2, ymax = 3\<rparr>"]) (simp add: touches_def valid_def)

end
