(* ===== verification/RangeArg.thy ===== *)
theory RangeArg
  imports Prelude
begin

text \<open>
  The elementary intervals of the range optimiser, \<open>SEL_ARG\<close> of \<^verbatim>\<open>opt_range.h\<close>: their comparison,
  intersection, splitting and merging, and the key values they store.  Interval lists are
  linked through \<open>sa_next\<close> in a heap of intervals.  The functions defined outside the header are
  arguments: \<open>sel_cmp\<close>, which compares two end points given by a key value and flags, \<open>key_cmp\<close>
  of the field, and \<open>first\<close> and \<open>last\<close> of an interval list.  The seven-argument constructor is
  outside too, so the cloning operations return the arguments they pass to it.
\<close>

unbundle bit_operations_syntax

section \<open>Flags and intervals\<close>

definition NO_MIN_RANGE :: uchar where "NO_MIN_RANGE = 1"

definition NO_MAX_RANGE :: uchar where "NO_MAX_RANGE = 2"

definition NEAR_MIN :: uchar where "NEAR_MIN = 4"

definition NEAR_MAX :: uchar where "NEAR_MAX = 8"

definition GEOM_FLAG :: uchar where "GEOM_FLAG = 128"

datatype sel_type = IMPOSSIBLE | MAYBE | MAYBE_KEY | KEY_RANGE

type_synonym key_value = "uchar list"

record SEL_ARG =
  min_flag :: uchar
  max_flag :: uchar
  maybe_flag :: uchar
  part :: uchar
  maybe_null :: bool
  elements :: uint32
  min_value :: key_value
  max_value :: key_value
  sa_next :: ptr
  next_key_part :: ptr
  sa_type :: sel_type

text \<open>The arguments of the constructor (field left out): part, values, flags.\<close>

record sel_arg_init =
  i_part :: uchar
  i_min :: key_value
  i_max :: key_value
  i_min_flag :: uchar
  i_max_flag :: uchar
  i_maybe :: uchar

type_synonym end_cmp = "key_value \<Rightarrow> key_value \<Rightarrow> uchar \<Rightarrow> uchar \<Rightarrow> int"

definition cmp_min_to_min :: "end_cmp \<Rightarrow> SEL_ARG \<Rightarrow> SEL_ARG \<Rightarrow> int" where
  "cmp_min_to_min sel_cmp a arg = sel_cmp (min_value a) (min_value arg) (min_flag a) (min_flag arg)"

definition cmp_min_to_max :: "end_cmp \<Rightarrow> SEL_ARG \<Rightarrow> SEL_ARG \<Rightarrow> int" where
  "cmp_min_to_max sel_cmp a arg = sel_cmp (min_value a) (max_value arg) (min_flag a) (max_flag arg)"

definition cmp_max_to_max :: "end_cmp \<Rightarrow> SEL_ARG \<Rightarrow> SEL_ARG \<Rightarrow> int" where
  "cmp_max_to_max sel_cmp a arg = sel_cmp (max_value a) (max_value arg) (max_flag a) (max_flag arg)"

definition cmp_max_to_min :: "end_cmp \<Rightarrow> SEL_ARG \<Rightarrow> SEL_ARG \<Rightarrow> int" where
  "cmp_max_to_min sel_cmp a arg = sel_cmp (max_value a) (min_value arg) (max_flag a) (min_flag arg)"

definition is_same :: "end_cmp \<Rightarrow> SEL_ARG \<Rightarrow> SEL_ARG \<Rightarrow> bool" where
  "is_same sel_cmp a arg =
     (if sa_type a \<noteq> sa_type arg \<or> part a \<noteq> part arg then False
      else if sa_type a \<noteq> KEY_RANGE then True
      else cmp_min_to_min sel_cmp a arg = 0 \<and> cmp_max_to_max sel_cmp a arg = 0)"

partial_function (option) all_same_loop ::
    "end_cmp \<Rightarrow> (ptr \<Rightarrow> SEL_ARG) \<Rightarrow> ptr \<Rightarrow> ptr \<Rightarrow> (ptr \<times> ptr) option" where
  "all_same_loop sel_cmp h cur_arg cmp_arg =
     (if cur_arg \<noteq> 0 \<and> cmp_arg \<noteq> 0 \<and> is_same sel_cmp (h cur_arg) (h cmp_arg)
      then all_same_loop sel_cmp h (sa_next (h cur_arg)) (sa_next (h cmp_arg))
      else Some (cur_arg, cmp_arg))"

definition all_same :: "end_cmp \<Rightarrow> (ptr \<Rightarrow> ptr) \<Rightarrow> (ptr \<Rightarrow> SEL_ARG) \<Rightarrow> ptr \<Rightarrow> ptr \<Rightarrow> bool option" where
  "all_same sel_cmp first_of h a arg =
     (if sa_type (h a) \<noteq> sa_type (h arg) \<or> part (h a) \<noteq> part (h arg) then Some False
      else if sa_type (h a) \<noteq> KEY_RANGE then Some True
      else if arg = a then Some True
      else case all_same_loop sel_cmp h (first_of a) (first_of arg) of
             None \<Rightarrow> None
           | Some (cur_arg, cmp_arg) \<Rightarrow> Some (\<not> (cur_arg \<noteq> 0 \<or> cmp_arg \<noteq> 0)))"

definition merge_flags :: "SEL_ARG \<Rightarrow> SEL_ARG \<Rightarrow> SEL_ARG" where
  "merge_flags a arg = a\<lparr>maybe_flag := maybe_flag a OR maybe_flag arg\<rparr>"

definition maybe_smaller :: "SEL_ARG \<Rightarrow> SEL_ARG" where
  "maybe_smaller a = a\<lparr>maybe_flag := 1\<rparr>"

definition is_null_interval :: "SEL_ARG \<Rightarrow> bool" where
  "is_null_interval a \<longleftrightarrow> maybe_null a \<and> hd (max_value a) = 1"

definition clone_and :: "end_cmp \<Rightarrow> SEL_ARG \<Rightarrow> SEL_ARG \<Rightarrow> sel_arg_init" where
  "clone_and sel_cmp a arg =
     (let (new_min, flag_min) = (if cmp_min_to_min sel_cmp a arg \<ge> 0 then (min_value a, min_flag a)
                                 else (min_value arg, min_flag arg));
          (new_max, flag_max) = (if cmp_max_to_max sel_cmp a arg \<le> 0 then (max_value a, max_flag a)
                                 else (max_value arg, max_flag arg))
      in \<lparr>i_part = part a, i_min = new_min, i_max = new_max, i_min_flag = flag_min, i_max_flag = flag_max,
          i_maybe = (if maybe_flag a \<noteq> 0 \<and> maybe_flag arg \<noteq> 0 then 1 else 0)\<rparr>)"

definition clone_first :: "SEL_ARG \<Rightarrow> SEL_ARG \<Rightarrow> sel_arg_init" where
  "clone_first a arg =
     \<lparr>i_part = part a, i_min = min_value a, i_max = min_value arg, i_min_flag = min_flag a,
      i_max_flag = (if min_flag arg AND NEAR_MIN \<noteq> 0 then 0 else NEAR_MAX),
      i_maybe = maybe_flag a OR maybe_flag arg\<rparr>"

definition clone_last :: "SEL_ARG \<Rightarrow> SEL_ARG \<Rightarrow> sel_arg_init" where
  "clone_last a arg =
     \<lparr>i_part = part a, i_min = min_value a, i_max = max_value arg, i_min_flag = min_flag a,
      i_max_flag = max_flag arg, i_maybe = maybe_flag a OR maybe_flag arg\<rparr>"

text \<open>The Boolean result of \<open>copy_min\<close> and \<open>copy_max\<close> reports that the range has become the full range.\<close>

definition copy_min :: "end_cmp \<Rightarrow> SEL_ARG \<Rightarrow> SEL_ARG \<Rightarrow> bool \<times> SEL_ARG" where
  "copy_min sel_cmp a arg =
     (let wider = cmp_min_to_min sel_cmp a arg > 0;
          a1 = (if wider then a\<lparr>min_value := min_value arg, min_flag := min_flag arg\<rparr> else a)
      in if wider \<and> max_flag a1 AND (NO_MAX_RANGE OR NO_MIN_RANGE) = NO_MAX_RANGE OR NO_MIN_RANGE
         then (True, a1)
         else (False, a1\<lparr>maybe_flag := maybe_flag a1 OR maybe_flag arg\<rparr>))"

definition copy_max :: "end_cmp \<Rightarrow> SEL_ARG \<Rightarrow> SEL_ARG \<Rightarrow> bool \<times> SEL_ARG" where
  "copy_max sel_cmp a arg =
     (let wider = cmp_max_to_max sel_cmp a arg \<le> 0;
          a1 = (if wider then a\<lparr>max_value := max_value arg, max_flag := max_flag arg\<rparr> else a)
      in if wider \<and> max_flag a1 AND (NO_MAX_RANGE OR NO_MIN_RANGE) = NO_MAX_RANGE OR NO_MIN_RANGE
         then (True, a1)
         else (False, a1\<lparr>maybe_flag := maybe_flag a1 OR maybe_flag arg\<rparr>))"

definition copy_min_to_min :: "SEL_ARG \<Rightarrow> SEL_ARG \<Rightarrow> SEL_ARG" where
  "copy_min_to_min a arg = a\<lparr>min_value := min_value arg, min_flag := min_flag arg\<rparr>"

definition copy_min_to_max :: "SEL_ARG \<Rightarrow> SEL_ARG \<Rightarrow> SEL_ARG" where
  "copy_min_to_max a arg =
     a\<lparr>max_value := min_value arg, max_flag := (if min_flag arg AND NEAR_MIN \<noteq> 0 then 0 else NEAR_MAX)\<rparr>"

definition copy_max_to_min :: "SEL_ARG \<Rightarrow> SEL_ARG \<Rightarrow> SEL_ARG" where
  "copy_max_to_min a arg =
     a\<lparr>min_value := max_value arg, min_flag := (if max_flag arg AND NEAR_MAX \<noteq> 0 then 0 else NEAR_MIN)\<rparr>"

text \<open>The key values appended to the key buffer: their number, 0 or 1, and the bytes.\<close>

definition key_image :: "bool \<Rightarrow> key_value \<Rightarrow> nat \<Rightarrow> uchar list" where
  "key_image may_null v len = (if may_null \<and> hd v \<noteq> 0 then 1 # replicate (len - 1) 0 else take len v)"

definition store_min :: "SEL_ARG \<Rightarrow> nat \<Rightarrow> uchar \<Rightarrow> uchar list \<Rightarrow> nat \<times> uchar list" where
  "store_min a len min_key_flag buf =
     (if min_flag a AND GEOM_FLAG \<noteq> 0 \<or>
         (min_flag a AND NO_MIN_RANGE = 0 \<and> min_key_flag AND (NO_MIN_RANGE OR NEAR_MIN) = 0)
      then (1, buf @ key_image (maybe_null a) (min_value a) len)
      else (0, buf))"

definition store_max :: "SEL_ARG \<Rightarrow> nat \<Rightarrow> uchar \<Rightarrow> uchar list \<Rightarrow> nat \<times> uchar list" where
  "store_max a len max_key_flag buf =
     (if max_flag a AND NO_MAX_RANGE = 0 \<and> max_key_flag AND (NO_MAX_RANGE OR NEAR_MAX) = 0
      then (1, buf @ key_image (maybe_null a) (max_value a) len)
      else (0, buf))"

text \<open>
  Storing the values of all key parts: the result is the number of values, the buffer and the
  accumulated flags; \<open>key_len\<close> gives the stored length of a key part.
\<close>

partial_function (option) store_min_key ::
    "(ptr \<Rightarrow> ptr) \<Rightarrow> (ptr \<Rightarrow> SEL_ARG) \<Rightarrow> (uchar \<Rightarrow> nat) \<Rightarrow> nat \<Rightarrow> ptr \<Rightarrow> uchar list \<Rightarrow> uchar \<Rightarrow>
     (nat \<times> uchar list \<times> uchar) option" where
  "store_min_key first_of h key_len last_part p buf flag =
     (let key_tree = h (first_of p);
          (res, buf1) = store_min key_tree (key_len (part key_tree)) flag buf;
          flag1 = flag OR min_flag key_tree;
          n = next_key_part key_tree
      in if n \<noteq> 0 \<and> sa_type (h n) = KEY_RANGE \<and> unat (part key_tree) \<noteq> last_part \<and>
            unat (part (h n)) = unat (part key_tree) + 1 \<and> flag1 AND (NO_MIN_RANGE OR NEAR_MIN) = 0
         then Option.bind (store_min_key first_of h key_len last_part n buf1 flag1)
                (\<lambda>(k, b, f). Some (res + k, b, f))
         else Some (res, buf1, flag1))"

partial_function (option) store_max_key ::
    "(ptr \<Rightarrow> ptr) \<Rightarrow> (ptr \<Rightarrow> SEL_ARG) \<Rightarrow> (uchar \<Rightarrow> nat) \<Rightarrow> nat \<Rightarrow> ptr \<Rightarrow> uchar list \<Rightarrow> uchar \<Rightarrow>
     (nat \<times> uchar list \<times> uchar) option" where
  "store_max_key last_of h key_len last_part p buf flag =
     (let key_tree = h (last_of p);
          (res, buf1) = store_max key_tree (key_len (part key_tree)) flag buf;
          flag1 = flag OR max_flag key_tree;
          n = next_key_part key_tree
      in if n \<noteq> 0 \<and> sa_type (h n) = KEY_RANGE \<and> unat (part key_tree) \<noteq> last_part \<and>
            unat (part (h n)) = unat (part key_tree) + 1 \<and> flag1 AND (NO_MAX_RANGE OR NEAR_MAX) = 0
         then Option.bind (store_max_key last_of h key_len last_part n buf1 flag1)
                (\<lambda>(k, b, f). Some (res + k, b, f))
         else Some (res, buf1, flag1))"

definition simple_key :: "SEL_ARG \<Rightarrow> bool" where
  "simple_key a \<longleftrightarrow> next_key_part a = 0 \<and> elements a = 1"

definition is_singlepoint :: "(key_value \<Rightarrow> key_value \<Rightarrow> int) \<Rightarrow> SEL_ARG \<Rightarrow> bool" where
  "is_singlepoint key_cmp a =
     (if min_flag a \<noteq> 0 \<or> max_flag a \<noteq> 0 then False
      else if maybe_null a
      then if hd (min_value a) \<noteq> hd (max_value a) then False
           else if hd (min_value a) \<noteq> 0 then True
           else key_cmp (tl (min_value a)) (tl (max_value a)) = 0
      else key_cmp (min_value a) (max_value a) = 0)"

section \<open>Intervals as sets of key values\<close>

text \<open>
  What the comparison function provides: every end point has a position on a line, and \<open>sel_cmp\<close>
  compares positions.  The flags \<open>NEAR_MIN\<close> and \<open>NEAR_MAX\<close> place the end point just above and just
  below the value, so that a key value is beyond it exactly when it is strictly beyond the
  value.
\<close>

definition sel_cmp_spec :: "end_cmp \<Rightarrow> (key_value \<Rightarrow> uchar \<Rightarrow> int) \<Rightarrow> bool" where
  "sel_cmp_spec sel_cmp at \<longleftrightarrow>
     (\<forall>a b fa fb. (sel_cmp a b fa fb < 0 \<longleftrightarrow> at a fa < at b fb) \<and> (sel_cmp a b fa fb = 0 \<longleftrightarrow> at a fa = at b fb)) \<and>
     (\<forall>x v. (at x 0 \<le> at v NEAR_MAX \<longleftrightarrow> at x 0 < at v 0) \<and> (at v NEAR_MIN \<le> at x 0 \<longleftrightarrow> at v 0 < at x 0))"

definition in_range :: "(key_value \<Rightarrow> uchar \<Rightarrow> int) \<Rightarrow> key_value \<times> uchar \<Rightarrow> key_value \<times> uchar \<Rightarrow> key_value \<Rightarrow> bool" where
  "in_range at lo hi x \<longleftrightarrow> at (fst lo) (snd lo) \<le> at x 0 \<and> at x 0 \<le> at (fst hi) (snd hi)"

definition in_arg :: "(key_value \<Rightarrow> uchar \<Rightarrow> int) \<Rightarrow> SEL_ARG \<Rightarrow> key_value \<Rightarrow> bool" where
  "in_arg at a x = in_range at (min_value a, min_flag a) (max_value a, max_flag a) x"

definition in_init :: "(key_value \<Rightarrow> uchar \<Rightarrow> int) \<Rightarrow> sel_arg_init \<Rightarrow> key_value \<Rightarrow> bool" where
  "in_init at a x = in_range at (i_min a, i_min_flag a) (i_max a, i_max_flag a) x"

text \<open>An interval with a proper lower (upper) end: its value, closed or open.\<close>

definition proper_min :: "SEL_ARG \<Rightarrow> bool" where
  "proper_min a \<longleftrightarrow> min_flag a = 0 \<or> min_flag a = NEAR_MIN"

definition proper_max :: "SEL_ARG \<Rightarrow> bool" where
  "proper_max a \<longleftrightarrow> max_flag a = 0 \<or> max_flag a = NEAR_MAX"

lemma sel_cmp_specD:
  assumes "sel_cmp_spec sel_cmp at"
  shows "sel_cmp a b fa fb < 0 \<longleftrightarrow> at a fa < at b fb" "sel_cmp a b fa fb = 0 \<longleftrightarrow> at a fa = at b fb"
    "sel_cmp a b fa fb > 0 \<longleftrightarrow> at a fa > at b fb" "sel_cmp a b fa fb \<ge> 0 \<longleftrightarrow> at a fa \<ge> at b fb"
    "sel_cmp a b fa fb \<le> 0 \<longleftrightarrow> at a fa \<le> at b fb"
    "at x 0 \<le> at v NEAR_MAX \<longleftrightarrow> at x 0 < at v 0" "at v NEAR_MIN \<le> at x 0 \<longleftrightarrow> at v 0 < at x 0"
proof -
  show l: "sel_cmp a b fa fb < 0 \<longleftrightarrow> at a fa < at b fb" and e: "sel_cmp a b fa fb = 0 \<longleftrightarrow> at a fa = at b fb"
    and "at x 0 \<le> at v NEAR_MAX \<longleftrightarrow> at x 0 < at v 0" "at v NEAR_MIN \<le> at x 0 \<longleftrightarrow> at v 0 < at x 0"
    using assms by (simp_all add: sel_cmp_spec_def)
  show "sel_cmp a b fa fb > 0 \<longleftrightarrow> at a fa > at b fb" "sel_cmp a b fa fb \<ge> 0 \<longleftrightarrow> at a fa \<ge> at b fb"
    "sel_cmp a b fa fb \<le> 0 \<longleftrightarrow> at a fa \<le> at b fb" using l e by linarith+
qed

lemma clone_and_in:
  assumes "sel_cmp_spec sel_cmp at"
  shows "in_init at (clone_and sel_cmp a b) x \<longleftrightarrow> in_arg at a x \<and> in_arg at b x"
  using sel_cmp_specD(4) [OF assms, of "min_value a" "min_value b" "min_flag a" "min_flag b"]
    sel_cmp_specD(5) [OF assms, of "max_value a" "max_value b" "max_flag a" "max_flag b"]
  by (auto simp: in_init_def in_arg_def in_range_def clone_and_def cmp_min_to_min_def cmp_max_to_max_def Let_def)

lemma near_flags: "NEAR_MIN AND NEAR_MIN \<noteq> 0" "NEAR_MAX AND NEAR_MAX \<noteq> 0" "(0 :: uchar) AND v = 0"
  by (simp_all add: NEAR_MIN_def NEAR_MAX_def)

lemma below_min:
  assumes "sel_cmp_spec sel_cmp at" "proper_min b"
  shows "at x 0 \<le> at (min_value b) (if min_flag b AND NEAR_MIN \<noteq> 0 then 0 else NEAR_MAX) \<longleftrightarrow>
         \<not> at (min_value b) (min_flag b) \<le> at x 0"
  using assms(2) sel_cmp_specD(6,7) [OF assms(1)] near_flags by (auto simp: proper_min_def)

lemma above_max:
  assumes "sel_cmp_spec sel_cmp at" "proper_max b"
  shows "at (max_value b) (if max_flag b AND NEAR_MAX \<noteq> 0 then 0 else NEAR_MIN) \<le> at x 0 \<longleftrightarrow>
         \<not> at x 0 \<le> at (max_value b) (max_flag b)"
  using assms(2) sel_cmp_specD(6,7) [OF assms(1)] near_flags by (auto simp: proper_max_def)

section \<open>Properties\<close>

lemma copied_maybe:
  assumes "\<not> fst (copy_min sel_cmp a b)" "\<not> fst (copy_max sel_cmp (snd (copy_min sel_cmp a b)) b)"
  shows "maybe_flag (snd (copy_max sel_cmp (snd (copy_min sel_cmp a b)) b)) = maybe_flag a OR maybe_flag b"
proof -
  have "maybe_flag (snd (copy_min sel_cmp a b)) = maybe_flag a OR maybe_flag b"
    using assms(1) by (auto simp: copy_min_def Let_def split: if_splits)
  moreover have "maybe_flag (snd (copy_max sel_cmp c b)) = maybe_flag c OR maybe_flag b"
    if "\<not> fst (copy_max sel_cmp c b)" for c
    using that by (auto simp: copy_max_def Let_def split: if_splits)
  ultimately show ?thesis using assms(2) by (simp add: or.assoc)
qed

text \<open>
  C10: \<open>clone_and\<close> builds the intersection of two intervals, with the maybe flag 1 when both have
  it set and 0 otherwise; for overlapping intervals \<open>copy_min\<close> followed by \<open>copy_max\<close> widens an interval to exactly
  the union, and unless one of them reports the full range the maybe flag then holds the bits of both.  The comparison of two ends,
  compiled code, orders them as places on a line (\<open>sel_cmp_spec\<close>).
\<close>

theorem sel_arg_and_or:
  assumes "sel_cmp_spec sel_cmp at"
  shows "(in_init at (clone_and sel_cmp a b) x \<longleftrightarrow> in_arg at a x \<and> in_arg at b x) \<and>
         i_maybe (clone_and sel_cmp a b) = (if maybe_flag a \<noteq> 0 \<and> maybe_flag b \<noteq> 0 then 1 else 0) \<and>
         ((\<exists>y. in_arg at a y \<and> in_arg at b y) \<longrightarrow>
            (in_arg at (snd (copy_max sel_cmp (snd (copy_min sel_cmp a b)) b)) x \<longleftrightarrow> in_arg at a x \<or> in_arg at b x)) \<and>
         (\<not> fst (copy_min sel_cmp a b) \<and> \<not> fst (copy_max sel_cmp (snd (copy_min sel_cmp a b)) b) \<longrightarrow>
            maybe_flag (snd (copy_max sel_cmp (snd (copy_min sel_cmp a b)) b)) = maybe_flag a OR maybe_flag b)"
proof (intro conjI impI)
  show "in_init at (clone_and sel_cmp a b) x \<longleftrightarrow> in_arg at a x \<and> in_arg at b x" by (rule clone_and_in [OF assms])
  show "i_maybe (clone_and sel_cmp a b) = (if maybe_flag a \<noteq> 0 \<and> maybe_flag b \<noteq> 0 then 1 else 0)"
    by (simp add: clone_and_def Let_def)
  show "maybe_flag (snd (copy_max sel_cmp (snd (copy_min sel_cmp a b)) b)) = maybe_flag a OR maybe_flag b"
    if "\<not> fst (copy_min sel_cmp a b) \<and> \<not> fst (copy_max sel_cmp (snd (copy_min sel_cmp a b)) b)"
    using that by (intro copied_maybe) simp_all
  assume "\<exists>y. in_arg at a y \<and> in_arg at b y"
  then obtain y where y: "in_arg at a y" "in_arg at b y" by blast
  let ?c = "snd (copy_max sel_cmp (snd (copy_min sel_cmp a b)) b)"
  have "at (min_value ?c) (min_flag ?c) = min (at (min_value a) (min_flag a)) (at (min_value b) (min_flag b))"
    "at (max_value ?c) (max_flag ?c) = max (at (max_value a) (max_flag a)) (at (max_value b) (max_flag b))"
    by (auto simp: copy_min_def copy_max_def Let_def cmp_min_to_min_def cmp_max_to_max_def sel_cmp_specD [OF assms])
  then show "in_arg at ?c x \<longleftrightarrow> in_arg at a x \<or> in_arg at b x"
    using y by (auto simp: in_arg_def in_range_def)
qed

text \<open>One-byte keys on the number line, each value with room above and below it.\<close>

definition byte_at :: "key_value \<Rightarrow> uchar \<Rightarrow> int" where
  "byte_at v f =
     (if f AND NO_MIN_RANGE \<noteq> 0 then -10 else if f AND NO_MAX_RANGE \<noteq> 0 then 10000
      else 4 * int (unat (hd v)) + (if f AND NEAR_MIN \<noteq> 0 then 1 else if f AND NEAR_MAX \<noteq> 0 then -1 else 0))"

definition byte_cmp :: end_cmp where
  "byte_cmp a b fa fb = byte_at a fa - byte_at b fb"

lemma byte_cmp_spec: "sel_cmp_spec byte_cmp byte_at"
  by (auto simp: sel_cmp_spec_def byte_cmp_def byte_at_def NO_MIN_RANGE_def NO_MAX_RANGE_def NEAR_MIN_def NEAR_MAX_def)

definition sample_arg :: "uchar \<Rightarrow> uchar \<Rightarrow> SEL_ARG" where
  "sample_arg lo hi = \<lparr>min_flag = 0, max_flag = 0, maybe_flag = 0, part = 0, maybe_null = False, elements = 1,
     min_value = [lo], max_value = [hi], sa_next = 0, next_key_part = 0, sa_type = KEY_RANGE\<rparr>"

theorem sel_arg_and_or_witness:
  "in_init byte_at (clone_and byte_cmp (sample_arg 2 6) (sample_arg 4 9)) [5] \<and>
   \<not> in_init byte_at (clone_and byte_cmp (sample_arg 2 6) (sample_arg 4 9)) [3] \<and>
   i_maybe (clone_and byte_cmp (sample_arg 2 6) ((sample_arg 4 9)\<lparr>maybe_flag := 1\<rparr>)) = 0 \<and>
   in_arg byte_at (snd (copy_max byte_cmp (snd (copy_min byte_cmp (sample_arg 2 6) (sample_arg 4 9))) (sample_arg 4 9))) [3]"
proof -
  have in_sample: "in_arg byte_at (sample_arg lo hi) [x] \<longleftrightarrow> uint lo \<le> uint x \<and> uint x \<le> uint hi" for lo hi x
    by (auto simp: in_arg_def in_range_def byte_at_def sample_arg_def)
  then have "\<exists>y. in_arg byte_at (sample_arg 2 6) y \<and> in_arg byte_at (sample_arg 4 9) y" by (intro exI [of _ "[5]"]) simp
  then show ?thesis
    using sel_arg_and_or [OF byte_cmp_spec, of "sample_arg 2 6" "sample_arg 4 9" "[5]"]
      sel_arg_and_or [OF byte_cmp_spec, of "sample_arg 2 6" "sample_arg 4 9" "[3]"]
      sel_arg_and_or [OF byte_cmp_spec, of "sample_arg 2 6" "(sample_arg 4 9)\<lparr>maybe_flag := 1\<rparr>" "[3]"]
    by (simp add: in_sample) (simp add: sample_arg_def)
qed

text \<open>
  splitting an interval at the lower (upper) end of another one loses nothing and counts
  nothing twice: what \<open>copy_min_to_max\<close> and \<open>clone_first\<close> keep lies strictly before the other
  interval, what \<open>copy_max_to_min\<close> keeps strictly after it.
\<close>

theorem sel_arg_split:
  assumes "sel_cmp_spec sel_cmp at" "proper_min b" "proper_max b"
  shows "(in_init at (clone_first a b) x \<longleftrightarrow>
            at (min_value a) (min_flag a) \<le> at x 0 \<and> \<not> at (min_value b) (min_flag b) \<le> at x 0) \<and>
         (in_arg at (copy_min_to_max a b) x \<longleftrightarrow> in_init at (clone_first a b) x) \<and>
         (in_arg at (copy_max_to_min a b) x \<longleftrightarrow>
            at x 0 \<le> at (max_value a) (max_flag a) \<and> \<not> at x 0 \<le> at (max_value b) (max_flag b)) \<and>
         (in_init at (clone_last a b) x \<longleftrightarrow>
            at (min_value a) (min_flag a) \<le> at x 0 \<and> at x 0 \<le> at (max_value b) (max_flag b))"
  using below_min [OF assms(1,2), of x] above_max [OF assms(1,3), of x]
  by (auto simp: in_init_def in_arg_def in_range_def clone_first_def clone_last_def copy_min_to_max_def copy_max_to_min_def)

theorem sel_arg_split_witness:
  "in_arg byte_at (copy_min_to_max (sample_arg 2 9) (sample_arg 4 6)) [3] \<longleftrightarrow>
   in_init byte_at (clone_first (sample_arg 2 9) (sample_arg 4 6)) [3]"
  using sel_arg_split [OF byte_cmp_spec, of "sample_arg 4 6" "sample_arg 2 9" "[3]"]
  by (simp add: proper_min_def proper_max_def sample_arg_def)

text \<open>
  the test for the full range looks at \<open>max_flag\<close> only: as long as an upper end never carries
  the flag of a missing lower bound, neither \<open>copy_min\<close> nor \<open>copy_max\<close> ever reports the full
  range, whatever the bounds become.
\<close>

theorem full_range_never_reported:
  assumes "max_flag a AND NO_MIN_RANGE = 0" "max_flag b AND NO_MIN_RANGE = 0"
  shows "\<not> fst (copy_min sel_cmp a b) \<and> \<not> fst (copy_max sel_cmp a b)"
proof -
  have "f AND (NO_MAX_RANGE OR NO_MIN_RANGE) \<noteq> NO_MAX_RANGE OR NO_MIN_RANGE" if "f AND NO_MIN_RANGE = 0" for f :: uchar
  proof
    assume "f AND (NO_MAX_RANGE OR NO_MIN_RANGE) = NO_MAX_RANGE OR NO_MIN_RANGE"
    then have "bit (f AND (NO_MAX_RANGE OR NO_MIN_RANGE)) 0 = bit (NO_MAX_RANGE OR NO_MIN_RANGE) 0" by simp
    then have "bit f 0" by (simp add: bit_and_iff bit_or_iff NO_MAX_RANGE_def NO_MIN_RANGE_def)
    moreover have "\<not> bit (f AND NO_MIN_RANGE) 0" using that by simp
    ultimately show False by (simp add: bit_and_iff NO_MIN_RANGE_def)
  qed
  then show ?thesis using assms by (simp add: copy_min_def copy_max_def Let_def)
qed

theorem full_range_never_reported_witness:
  "\<not> fst (copy_min byte_cmp ((sample_arg 2 9)\<lparr>max_flag := NO_MAX_RANGE\<rparr>) ((sample_arg 0 0)\<lparr>min_flag := NO_MIN_RANGE\<rparr>))"
  using full_range_never_reported [of "(sample_arg 2 9)\<lparr>max_flag := NO_MAX_RANGE\<rparr>" "(sample_arg 0 0)\<lparr>min_flag := NO_MIN_RANGE\<rparr>" byte_cmp]
  by (simp add: sample_arg_def NO_MAX_RANGE_def NO_MIN_RANGE_def)

end
