(* ===== verification/SqlString.thy ===== *)
theory SqlString
  imports ByteOrder "HOL-Library.Monad_Syntax"
begin

text \<open>
  The class \<open>String\<close> of \<^verbatim>\<open>sql_string.h\<close>: a character pointer with a length, an allocated length,
  the amount to over-allocate, the ownership flag and the character set.  A heap is the byte
  memory together with the areas that may be accessed; reading or writing outside them has no
  result (\<open>None\<close>), so a theorem that an operation returns \<open>Some\<close> is a theorem that it is memory
  safe.  The functions the header only declares (\<open>real_alloc\<close>, \<open>realloc_raw\<close>, \<open>my_realloc\<close>,
  \<open>my_free\<close>, \<open>net_store_length\<close>, the hexadecimal digit table) are parameters; \<open>realloc_contract\<close>
  is what the header's code relies on of \<open>realloc_raw\<close>.  Assertions, which are active in debugging
  builds only, are left out.
\<close>

section \<open>Heaps\<close>

record Heap =
  bytes :: mem
  areas :: "(ptr \<times> nat) list"

definition accessible :: "Heap \<Rightarrow> ptr \<Rightarrow> bool" where
  "accessible h a \<longleftrightarrow> list_ex (\<lambda>(p, n). p \<le> a \<and> a < p + n) (areas h)"

definition peek :: "Heap \<Rightarrow> ptr \<Rightarrow> uchar option" where
  "peek h a = (if accessible h a then Some (bytes h a) else None)"

definition poke :: "Heap \<Rightarrow> ptr \<Rightarrow> uchar \<Rightarrow> Heap option" where
  "poke h a v = (if accessible h a then Some (h\<lparr>bytes := (bytes h)(a := v)\<rparr>) else None)"

definition area_ok :: "Heap \<Rightarrow> ptr \<Rightarrow> nat \<Rightarrow> bool" where
  "area_ok h p n \<longleftrightarrow> list_all (accessible h) [p ..< p + n]"

text \<open>\<open>memcpy\<close> from and to the heap.\<close>

definition copy_out :: "Heap \<Rightarrow> ptr \<Rightarrow> nat \<Rightarrow> uchar list option" where
  "copy_out h p n = (if area_ok h p n then Some (bytes_at (bytes h) p n) else None)"

definition copy_in :: "Heap \<Rightarrow> ptr \<Rightarrow> uchar list \<Rightarrow> Heap option" where
  "copy_in h p bs = (if area_ok h p (length bs) then Some (h\<lparr>bytes := put_bytes (bytes h) p bs\<rparr>) else None)"

section \<open>The class\<close>

record 'cs Sql_string =
  Ptr :: ptr
  str_length :: uint32
  Alloced_length :: uint32
  extra_alloc :: uint32
  alloced :: bool
  thread_specific :: bool
  str_charset :: 'cs

text \<open>An operation that reports an error returns the flag, the heap and the string.\<close>

type_synonym 'cs sresult = "(bool \<times> Heap \<times> 'cs Sql_string) option"
type_synonym 'cs string_alloc_fun = "Heap \<Rightarrow> 'cs Sql_string \<Rightarrow> uint64 \<Rightarrow> bool \<times> Heap \<times> 'cs Sql_string"

subsection \<open>Construction\<close>

definition String_default :: "'cs \<Rightarrow> 'cs Sql_string" where
  "String_default my_charset_bin =
     \<lparr>Ptr = 0, str_length = 0, Alloced_length = 0, extra_alloc = 0, alloced = False,
      thread_specific = False, str_charset = my_charset_bin\<rparr>"

text \<open>The constructor from a size leaves \<open>Ptr\<close> and \<open>str_length\<close> to \<open>real_alloc\<close>: \<open>s0\<close> is the
  uninitialised object.\<close>

definition String_sized :: "'cs string_alloc_fun \<Rightarrow> 'cs \<Rightarrow> Heap \<Rightarrow> 'cs Sql_string \<Rightarrow> uint64 \<Rightarrow> Heap \<times> 'cs Sql_string" where
  "String_sized real_alloc my_charset_bin h s0 length_arg =
     (let (_, h1, s1) = real_alloc h (s0\<lparr>alloced := False, thread_specific := False,
            Alloced_length := 0, extra_alloc := 0\<rparr>) length_arg
      in (h1, s1\<lparr>str_charset := my_charset_bin\<rparr>))"

definition String_const :: "ptr \<Rightarrow> uint64 \<Rightarrow> 'cs \<Rightarrow> 'cs Sql_string" where
  "String_const str len cs =
     \<lparr>Ptr = str, str_length = ucast len, Alloced_length = 0, extra_alloc = 0, alloced = False,
      thread_specific = False, str_charset = cs\<rparr>"

definition String_buffer :: "ptr \<Rightarrow> uint64 \<Rightarrow> 'cs \<Rightarrow> 'cs Sql_string" where
  "String_buffer str len cs =
     \<lparr>Ptr = str, str_length = ucast len, Alloced_length = ucast len, extra_alloc = 0, alloced = False,
      thread_specific = False, str_charset = cs\<rparr>"

definition String_alias :: "'cs Sql_string \<Rightarrow> 'cs Sql_string" where
  "String_alias str =
     \<lparr>Ptr = Ptr str, str_length = str_length str, Alloced_length = Alloced_length str,
      extra_alloc = 0, alloced = False, thread_specific = False, str_charset = str_charset str\<rparr>"

subsection \<open>Small operations\<close>

definition set_thread_specific :: "'cs Sql_string \<Rightarrow> 'cs Sql_string" where
  "set_thread_specific s = (if \<not> alloced s then s\<lparr>thread_specific := True\<rparr> else s)"

definition set_length :: "'cs Sql_string \<Rightarrow> uint64 \<Rightarrow> 'cs Sql_string" where
  "set_length s len = s\<lparr>str_length := ucast len\<rparr>"

definition extra_allocation :: "'cs Sql_string \<Rightarrow> uint64 \<Rightarrow> 'cs Sql_string" where
  "extra_allocation s len = s\<lparr>extra_alloc := ucast len\<rparr>"

definition string_is_empty :: "'cs Sql_string \<Rightarrow> bool" where
  "string_is_empty s \<longleftrightarrow> str_length s = 0"

definition mark_as_const :: "'cs Sql_string \<Rightarrow> 'cs Sql_string" where
  "mark_as_const s = s\<lparr>Alloced_length := 0\<rparr>"

definition string_end :: "'cs Sql_string \<Rightarrow> ptr" where
  "string_end s = Ptr s + unat (str_length s)"

definition LEX_STRING_of :: "'cs Sql_string \<Rightarrow> ptr \<times> uint64" where
  "LEX_STRING_of s = (Ptr s, ucast (str_length s))"

definition string_free :: "(Heap \<Rightarrow> ptr \<Rightarrow> Heap) \<Rightarrow> Heap \<Rightarrow> 'cs Sql_string \<Rightarrow> Heap \<times> 'cs Sql_string" where
  "string_free my_free h s =
     (let (h1, s1) = (if alloced s then (my_free h (Ptr s), s\<lparr>alloced := False\<rparr>) else (h, s))
      in (h1, s1\<lparr>Alloced_length := 0, extra_alloc := 0, Ptr := 0, str_length := 0\<rparr>))"

definition string_alloc :: "'cs string_alloc_fun \<Rightarrow> 'cs string_alloc_fun" where
  "string_alloc real_alloc h s arg_length =
     (if arg_length < ucast (Alloced_length s) then (False, h, s) else real_alloc h s arg_length)"

subsection \<open>Growing the buffer\<close>

definition string_realloc :: "'cs string_alloc_fun \<Rightarrow> Heap \<Rightarrow> 'cs Sql_string \<Rightarrow> uint64 \<Rightarrow> 'cs sresult" where
  "string_realloc realloc_raw h s arg_length =
     (let (err, h1, s1) = realloc_raw h s arg_length
      in if err then Some (True, h1, s1)
         else do { h2 \<leftarrow> poke h1 (Ptr s1 + unat arg_length) 0; Some (False, h2, s1) })"

definition realloc_with_extra :: "'cs string_alloc_fun \<Rightarrow> Heap \<Rightarrow> 'cs Sql_string \<Rightarrow> uint64 \<Rightarrow> 'cs sresult" where
  "realloc_with_extra realloc_raw h s arg_length =
     (let s0 = (if extra_alloc s < 4096 then s\<lparr>extra_alloc := extra_alloc s * 2 + 128\<rparr> else s);
          (err, h1, s1) = realloc_raw h s0 (arg_length + ucast (extra_alloc s0))
      in if err then Some (True, h1, s1)
         else do { h2 \<leftarrow> poke h1 (Ptr s1 + unat arg_length) 0; Some (False, h2, s1) })"

definition realloc_with_extra_if_needed ::
    "'cs string_alloc_fun \<Rightarrow> Heap \<Rightarrow> 'cs Sql_string \<Rightarrow> uint64 \<Rightarrow> 'cs sresult" where
  "realloc_with_extra_if_needed realloc_raw h s arg_length =
     (if arg_length < ucast (Alloced_length s)
      then do { h1 \<leftarrow> poke h (Ptr s + unat arg_length) 0; Some (False, h1, s) }
      else realloc_with_extra realloc_raw h s arg_length)"

definition reserve :: "'cs string_alloc_fun \<Rightarrow> Heap \<Rightarrow> 'cs Sql_string \<Rightarrow> uint64 \<Rightarrow> 'cs sresult" where
  "reserve realloc_raw h s space_needed =
     string_realloc realloc_raw h s (ucast (str_length s) + space_needed)"

definition ALIGN_SIZE :: "uint64 \<Rightarrow> uint64" where
  "ALIGN_SIZE A = (A + 8 - 1) AND NOT (8 - 1)"

definition shrink :: "(Heap \<Rightarrow> ptr \<Rightarrow> uint64 \<Rightarrow> bool \<Rightarrow> (Heap \<times> ptr) option) \<Rightarrow> 'cs string_alloc_fun \<Rightarrow>
    Heap \<Rightarrow> 'cs Sql_string \<Rightarrow> uint64 \<Rightarrow> Heap \<times> 'cs Sql_string" where
  "shrink my_realloc real_alloc h s arg_length =
     (if \<not> alloced s then (h, s)
      else if ALIGN_SIZE (arg_length + 1) < ucast (Alloced_length s)
      then (case my_realloc h (Ptr s) arg_length (thread_specific s) of
              None \<Rightarrow> snd (real_alloc h (s\<lparr>Alloced_length := 0\<rparr>) arg_length)
            | Some (h1, new_ptr) \<Rightarrow> (h1, s\<lparr>Ptr := new_ptr, Alloced_length := ucast arg_length\<rparr>))
      else (h, s))"

subsection \<open>Zero termination\<close>

definition c_ptr :: "'cs string_alloc_fun \<Rightarrow> Heap \<Rightarrow> 'cs Sql_string \<Rightarrow> (Heap \<times> 'cs Sql_string) option" where
  "c_ptr realloc_raw h s =
     do { needed \<leftarrow> (if Ptr s = 0 then Some True
                     else map_option (\<lambda>b. b \<noteq> 0) (peek h (Ptr s + unat (str_length s))));
          if needed then map_option snd (string_realloc realloc_raw h s (ucast (str_length s)))
          else Some (h, s) }"

definition c_ptr_quick :: "Heap \<Rightarrow> 'cs Sql_string \<Rightarrow> (Heap \<times> 'cs Sql_string) option" where
  "c_ptr_quick h s =
     (if Ptr s \<noteq> 0 \<and> str_length s < Alloced_length s
      then do { h1 \<leftarrow> poke h (Ptr s + unat (str_length s)) 0; Some (h1, s) }
      else Some (h, s))"

definition c_ptr_safe :: "'cs string_alloc_fun \<Rightarrow> Heap \<Rightarrow> 'cs Sql_string \<Rightarrow> (Heap \<times> 'cs Sql_string) option" where
  "c_ptr_safe realloc_raw h s =
     (if Ptr s \<noteq> 0 \<and> str_length s < Alloced_length s
      then do { h1 \<leftarrow> poke h (Ptr s + unat (str_length s)) 0; Some (h1, s) }
      else map_option snd (string_realloc realloc_raw h s (ucast (str_length s))))"

subsection \<open>Handing buffers over\<close>

definition set_from_string :: "(Heap \<Rightarrow> ptr \<Rightarrow> Heap) \<Rightarrow> Heap \<Rightarrow> 'cs Sql_string \<Rightarrow> 'cs Sql_string \<Rightarrow>
    uint64 \<Rightarrow> uint64 \<Rightarrow> Heap \<times> 'cs Sql_string" where
  "set_from_string my_free h s str offset arg_length =
     (let (h1, s1) = string_free my_free h s;
          s2 = s1\<lparr>Ptr := Ptr str + unat offset, str_length := ucast arg_length\<rparr>;
          s3 = (if Alloced_length str \<noteq> 0
                then s2\<lparr>Alloced_length := ucast (ucast (Alloced_length str) - offset)\<rparr> else s2)
      in (h1, s3\<lparr>str_charset := str_charset str\<rparr>))"

definition set_buffer :: "(Heap \<Rightarrow> ptr \<Rightarrow> Heap) \<Rightarrow> Heap \<Rightarrow> 'cs Sql_string \<Rightarrow> ptr \<Rightarrow> uint64 \<Rightarrow> 'cs \<Rightarrow>
    Heap \<times> 'cs Sql_string" where
  "set_buffer my_free h s str arg_length cs =
     (let (h1, s1) = string_free my_free h s
      in (h1, s1\<lparr>Ptr := str, str_length := ucast arg_length, Alloced_length := ucast arg_length,
                 str_charset := cs\<rparr>))"

definition set_const :: "(Heap \<Rightarrow> ptr \<Rightarrow> Heap) \<Rightarrow> Heap \<Rightarrow> 'cs Sql_string \<Rightarrow> ptr \<Rightarrow> uint64 \<Rightarrow> 'cs \<Rightarrow>
    Heap \<times> 'cs Sql_string" where
  "set_const my_free h s str arg_length cs =
     (let (h1, s1) = string_free my_free h s
      in (h1, s1\<lparr>Ptr := str, str_length := ucast arg_length, str_charset := cs\<rparr>))"

definition set_quick :: "'cs Sql_string \<Rightarrow> ptr \<Rightarrow> uint64 \<Rightarrow> 'cs \<Rightarrow> 'cs Sql_string" where
  "set_quick s str arg_length cs =
     (let s1 = (if \<not> alloced s
                then s\<lparr>Ptr := str, str_length := ucast arg_length, Alloced_length := ucast arg_length\<rparr>
                else s)
      in s1\<lparr>str_charset := cs\<rparr>)"

definition string_reset :: "(Heap \<Rightarrow> ptr \<Rightarrow> Heap) \<Rightarrow> Heap \<Rightarrow> 'cs Sql_string \<Rightarrow> ptr \<Rightarrow> uint64 \<Rightarrow> uint64 \<Rightarrow>
    'cs \<Rightarrow> Heap \<times> 'cs Sql_string" where
  "string_reset my_free h s ptr_arg length_arg alloced_length_arg cs =
     (let (h1, s1) = string_free my_free h s
      in (h1, s1\<lparr>Ptr := ptr_arg, str_length := ucast length_arg,
                 Alloced_length := ucast alloced_length_arg, str_charset := cs,
                 alloced := (ptr_arg \<noteq> 0)\<rparr>))"

definition release :: "'cs Sql_string \<Rightarrow> ptr \<times> 'cs Sql_string" where
  "release s = (Ptr s, s\<lparr>Ptr := 0, str_length := 0, Alloced_length := 0, extra_alloc := 0,
                         alloced := False, thread_specific := False\<rparr>)"

text \<open>Assignment; \<open>same\<close> tells whether both sides are the same object.\<close>

definition string_assign :: "(Heap \<Rightarrow> ptr \<Rightarrow> Heap) \<Rightarrow> bool \<Rightarrow> Heap \<Rightarrow> 'cs Sql_string \<Rightarrow> 'cs Sql_string \<Rightarrow>
    Heap \<times> 'cs Sql_string" where
  "string_assign my_free same h this s =
     (if \<not> same
      then let (h1, s1) = string_free my_free h this
           in (h1, s1\<lparr>Ptr := Ptr s, str_length := str_length s, Alloced_length := Alloced_length s,
                      str_charset := str_charset s\<rparr>)
      else (h, this))"

text \<open>\<open>move\<close> returns the receiving and the given string.\<close>

definition string_move :: "(Heap \<Rightarrow> ptr \<Rightarrow> Heap) \<Rightarrow> Heap \<Rightarrow> 'cs Sql_string \<Rightarrow> 'cs Sql_string \<Rightarrow>
    Heap \<times> 'cs Sql_string \<times> 'cs Sql_string" where
  "string_move my_free h this s =
     (let (h1, s1) = string_free my_free h this
      in (h1, s1\<lparr>Ptr := Ptr s, str_length := str_length s, Alloced_length := Alloced_length s,
                 extra_alloc := extra_alloc s, alloced := alloced s,
                 thread_specific := thread_specific s\<rparr>, s\<lparr>alloced := False\<rparr>))"

definition uses_buffer_owned_by :: "'cs Sql_string \<Rightarrow> 'cs Sql_string \<Rightarrow> bool" where
  "uses_buffer_owned_by this s \<longleftrightarrow>
     alloced s \<and> Ptr this \<ge> Ptr s \<and> Ptr this < Ptr s + unat (str_length s)"

subsection \<open>Appending\<close>

definition q_append_char :: "Heap \<Rightarrow> 'cs Sql_string \<Rightarrow> uchar \<Rightarrow> (Heap \<times> 'cs Sql_string) option" where
  "q_append_char h s c =
     do { h1 \<leftarrow> poke h (Ptr s + unat (str_length s)) c;
          Some (h1, s\<lparr>str_length := str_length s + 1\<rparr>) }"

definition append_char :: "'cs string_alloc_fun \<Rightarrow> Heap \<Rightarrow> 'cs Sql_string \<Rightarrow> uchar \<Rightarrow> 'cs sresult" where
  "append_char realloc_raw h s chr =
     (if str_length s < Alloced_length s
      then do { (h1, s1) \<leftarrow> q_append_char h s chr; Some (False, h1, s1) }
      else do { (err, h1, s1) \<leftarrow> realloc_with_extra realloc_raw h s (ucast (str_length s + 1));
                if err then Some (True, h1, s1)
                else do { (h2, s2) \<leftarrow> q_append_char h1 s1 chr; Some (False, h2, s2) } })"

text \<open>The hexadecimal digits of \<open>n\<close> bytes at \<open>src\<close>; the table of digits is a parameter.\<close>

fun append_hex :: "'cs string_alloc_fun \<Rightarrow> (nat \<Rightarrow> uchar) \<Rightarrow> Heap \<Rightarrow> 'cs Sql_string \<Rightarrow> ptr \<Rightarrow> nat \<Rightarrow> 'cs sresult" where
  "append_hex realloc_raw dig_vec_lower h s src 0 = Some (False, h, s)"
| "append_hex realloc_raw dig_vec_lower h s src (Suc n) =
     do { b \<leftarrow> peek h src;
          (err, h1, s1) \<leftarrow> append_char realloc_raw h s (dig_vec_lower (unat (drop_bit 4 b)));
          if err then Some (True, h1, s1)
          else do { b1 \<leftarrow> peek h1 src;
                    (err1, h2, s2) \<leftarrow> append_char realloc_raw h1 s1 (dig_vec_lower (unat (b1 AND 0x0F)));
                    if err1 then Some (True, h2, s2)
                    else append_hex realloc_raw dig_vec_lower h2 s2 (src + 1) n } }"

definition q_append2b :: "Heap \<Rightarrow> 'cs Sql_string \<Rightarrow> uint32 \<Rightarrow> (Heap \<times> 'cs Sql_string) option" where
  "q_append2b h s n =
     (if area_ok h (Ptr s + unat (str_length s)) 2
      then Some (h\<lparr>bytes := int2store (bytes h) (Ptr s + unat (str_length s)) n\<rparr>,
                 s\<lparr>str_length := str_length s + 2\<rparr>) else None)"

definition q_append_uint32 :: "Heap \<Rightarrow> 'cs Sql_string \<Rightarrow> uint32 \<Rightarrow> (Heap \<times> 'cs Sql_string) option" where
  "q_append_uint32 h s n =
     (if area_ok h (Ptr s + unat (str_length s)) 4
      then Some (h\<lparr>bytes := int4store (bytes h) (Ptr s + unat (str_length s)) n\<rparr>,
                 s\<lparr>str_length := str_length s + 4\<rparr>) else None)"

definition q_append_data :: "Heap \<Rightarrow> 'cs Sql_string \<Rightarrow> ptr \<Rightarrow> uint64 \<Rightarrow> (Heap \<times> 'cs Sql_string) option" where
  "q_append_data h s data data_len =
     do { bs \<leftarrow> copy_out h data (unat data_len);
          h1 \<leftarrow> copy_in h (Ptr s + unat (str_length s)) bs;
          Some (h1, s\<lparr>str_length := str_length s + ucast data_len\<rparr>) }"

definition write_at_position :: "Heap \<Rightarrow> 'cs Sql_string \<Rightarrow> nat \<Rightarrow> uint32 \<Rightarrow> Heap option" where
  "write_at_position h s position value =
     (if area_ok h (Ptr s + position) 4
      then Some (h\<lparr>bytes := int4store (bytes h) (Ptr s + position) value\<rparr>) else None)"

definition chop :: "Heap \<Rightarrow> 'cs Sql_string \<Rightarrow> (Heap \<times> 'cs Sql_string) option" where
  "chop h s =
     do { h1 \<leftarrow> poke h (Ptr s + unat (str_length s - 1)) 0;
          Some (h1, s\<lparr>str_length := str_length s - 1\<rparr>) }"

text \<open>\<open>prep_append\<close> returns the address of the area to fill, 0 when the buffer could not grow.\<close>

definition prep_append :: "'cs string_alloc_fun \<Rightarrow> Heap \<Rightarrow> 'cs Sql_string \<Rightarrow> uint32 \<Rightarrow> uint32 \<Rightarrow>
    (ptr \<times> Heap \<times> 'cs Sql_string) option" where
  "prep_append realloc_raw h s arg_length step_alloc =
     (let new_length = arg_length + str_length s
      in do { (err, h1, s1) \<leftarrow> (if new_length > Alloced_length s
                 then string_realloc realloc_raw h s (ucast (new_length + step_alloc))
                 else Some (False, h, s));
              if err then Some (0, h1, s1)
              else Some (Ptr s1 + unat (str_length s1), h1,
                         s1\<lparr>str_length := str_length s1 + arg_length\<rparr>) })"

definition append_step :: "'cs string_alloc_fun \<Rightarrow> Heap \<Rightarrow> 'cs Sql_string \<Rightarrow> ptr \<Rightarrow> uint32 \<Rightarrow> uint32 \<Rightarrow> 'cs sresult" where
  "append_step realloc_raw h s p arg_length step_alloc =
     (let new_length = arg_length + str_length s
      in do { (err, h1, s1) \<leftarrow> (if new_length > Alloced_length s
                 then string_realloc realloc_raw h s (ucast (new_length + step_alloc))
                 else Some (False, h, s));
              if err then Some (True, h1, s1)
              else do { bs \<leftarrow> copy_out h1 p (unat arg_length);
                        h2 \<leftarrow> copy_in h1 (Ptr s1 + unat (str_length s1)) bs;
                        Some (False, h2, s1\<lparr>str_length := str_length s1 + arg_length\<rparr>) } })"

text \<open>\<open>net_store_length\<close> writes a length and returns the address after it.\<close>

definition q_net_store_length :: "(Heap \<Rightarrow> ptr \<Rightarrow> uint64 \<Rightarrow> (Heap \<times> ptr) option) \<Rightarrow> Heap \<Rightarrow>
    'cs Sql_string \<Rightarrow> uint64 \<Rightarrow> (Heap \<times> 'cs Sql_string) option" where
  "q_net_store_length net_store_length h s len =
     do { (h1, pos) \<leftarrow> net_store_length h (Ptr s + unat (str_length s)) len;
          Some (h1, s\<lparr>str_length := of_int (int pos - int (Ptr s))\<rparr>) }"

definition q_net_store_data :: "(Heap \<Rightarrow> ptr \<Rightarrow> uint64 \<Rightarrow> (Heap \<times> ptr) option) \<Rightarrow> Heap \<Rightarrow>
    'cs Sql_string \<Rightarrow> ptr \<Rightarrow> uint64 \<Rightarrow> (Heap \<times> 'cs Sql_string) option" where
  "q_net_store_data net_store_length h s from len =
     do { (h1, s1) \<leftarrow> q_net_store_length net_store_length h s len;
          q_append_data h1 s1 from (ucast (ucast len :: uint32)) }"

subsection \<open>Comparing and classifying\<close>

definition bin_eq :: "Heap \<Rightarrow> 'cs Sql_string \<Rightarrow> 'cs Sql_string \<Rightarrow> bool option" where
  "bin_eq h s other =
     (if str_length s = str_length other
      then do { a \<leftarrow> copy_out h (Ptr s) (unat (str_length s));
                b \<leftarrow> copy_out h (Ptr other) (unat (str_length s)); Some (a = b) }
      else Some False)"

fun ascii_scan :: "Heap \<Rightarrow> ptr \<Rightarrow> nat \<Rightarrow> bool option" where
  "ascii_scan h c 0 = Some True"
| "ascii_scan h c (Suc n) =
     do { b \<leftarrow> peek h c; if b AND NOT 0x7f \<noteq> 0 then Some False else ascii_scan h (c + 1) n }"

definition is_ascii :: "('cs \<Rightarrow> nat) \<Rightarrow> Heap \<Rightarrow> 'cs Sql_string \<Rightarrow> bool option" where
  "is_ascii mbminlen h s =
     (if str_length s = 0 then Some True
      else if mbminlen (str_charset s) > 1 then Some False
      else ascii_scan h (Ptr s) (unat (str_length s)))"

definition StringBuffer :: "ptr \<Rightarrow> uint64 \<Rightarrow> 'cs \<Rightarrow> 'cs Sql_string" where
  "StringBuffer buff buff_sz cs = set_length (String_buffer buff buff_sz cs) 0"

section \<open>Well-formed strings and what an operation may touch\<close>

definition content :: "Heap \<Rightarrow> 'cs Sql_string \<Rightarrow> uchar list" where
  "content h s = bytes_at (bytes h) (Ptr s) (unat (str_length s))"

text \<open>The characters and the buffer are accessible, and a string with a buffer fits it; a string
  whose allocated length is 0 reads memory it does not own.\<close>

definition wf_string :: "Heap \<Rightarrow> 'cs Sql_string \<Rightarrow> bool" where
  "wf_string h s \<longleftrightarrow> area_ok h (Ptr s) (max (unat (str_length s)) (unat (Alloced_length s))) \<and>
     (Alloced_length s \<noteq> 0 \<longrightarrow> str_length s \<le> Alloced_length s)"

definition in_buffer :: "'cs Sql_string \<Rightarrow> ptr \<Rightarrow> bool" where
  "in_buffer s a \<longleftrightarrow> Ptr s \<le> a \<and> a < Ptr s + unat (Alloced_length s)"

text \<open>Everything outside the buffer of the string stays accessible and unchanged, and the new buffer
  does not reach into it.\<close>

definition confined :: "Heap \<Rightarrow> 'cs Sql_string \<Rightarrow> Heap \<Rightarrow> 'cs Sql_string \<Rightarrow> bool" where
  "confined h s h' s' \<longleftrightarrow>
     (\<forall>a. accessible h a \<and> \<not> in_buffer s a \<longrightarrow>
        accessible h' a \<and> bytes h' a = bytes h a \<and> \<not> in_buffer s' a)"

definition appended :: "Heap \<Rightarrow> 'cs Sql_string \<Rightarrow> Heap \<Rightarrow> 'cs Sql_string \<Rightarrow> uchar list \<Rightarrow> bool" where
  "appended h s h' s' bs \<longleftrightarrow> wf_string h' s' \<and> content h' s' = content h s @ bs \<and>
     confined h s h' s' \<and> str_charset s' = str_charset s"

text \<open>What \<open>realloc_raw\<close> does for a request that is not below the length of the string: it fails
  and changes nothing, or the buffer has more than the requested number of bytes and holds the
  same characters.\<close>

definition realloc_contract :: "'cs string_alloc_fun \<Rightarrow> bool" where
  "realloc_contract realloc_raw \<longleftrightarrow>
     (\<forall>h s n. wf_string h s \<and> unat (str_length s) \<le> unat n \<longrightarrow>
       (case realloc_raw h s n of
          (True, h', s') \<Rightarrow> h' = h \<and> s' = s
        | (False, h', s') \<Rightarrow> appended h s h' s' [] \<and> unat n < unat (Alloced_length s') \<and>
            str_length s' = str_length s \<and> extra_alloc s' = extra_alloc s))"

lemma area_ok_iff: "area_ok h p n \<longleftrightarrow> (\<forall>a. p \<le> a \<and> a < p + n \<longrightarrow> accessible h a)"
  by (auto simp: area_ok_def list_all_iff)

lemma accessible_bytes [simp]: "accessible (h\<lparr>bytes := m\<rparr>) a = accessible h a"
  by (simp add: accessible_def)

lemma area_ok_bytes [simp]: "area_ok (h\<lparr>bytes := m\<rparr>) p n = area_ok h p n"
  by (simp add: area_ok_iff)

lemma area_ok_mono: "area_ok h p n \<Longrightarrow> p \<le> q \<Longrightarrow> q + k \<le> p + n \<Longrightarrow> area_ok h q k"
  by (auto simp: area_ok_iff)

lemma confined_refl [simp]: "confined h s h s"
  by (simp add: confined_def)

lemma confined_trans: "confined h s h1 s1 \<Longrightarrow> confined h1 s1 h2 s2 \<Longrightarrow> confined h s h2 s2"
  by (simp add: confined_def)

lemma appended_trans:
  "appended h s h1 s1 xs \<Longrightarrow> appended h1 s1 h2 s2 ys \<Longrightarrow> appended h s h2 s2 (xs @ ys)"
  by (auto simp: appended_def intro: confined_trans)

lemma appended_nil: "wf_string h s \<Longrightarrow> appended h s h s []"
  by (simp add: appended_def)

lemma wf_string_fits:
  "wf_string h s \<Longrightarrow> Alloced_length s \<noteq> 0 \<Longrightarrow> unat (str_length s) \<le> unat (Alloced_length s)"
  by (simp add: wf_string_def word_le_nat_alt)

lemma wf_string_area: "wf_string h s \<Longrightarrow> i + n \<le> unat (Alloced_length s) \<Longrightarrow> area_ok h (Ptr s + i) n"
  by (auto simp: wf_string_def intro: area_ok_mono)

lemma unat_add_small32:
  "unat (a :: uint32) + n < 4294967296 \<Longrightarrow> unat (a + of_nat n) = unat a + n"
  by (simp add: unat_word_ariths unat_of_nat)

text \<open>Writing behind the characters, inside the buffer.\<close>

lemma appended_put:
  assumes wf: "wf_string h s" and fits: "unat (str_length s) + length bs \<le> unat (Alloced_length s)"
  shows "appended h s (h\<lparr>bytes := put_bytes (bytes h) (Ptr s + unat (str_length s)) bs\<rparr>)
           (s\<lparr>str_length := str_length s + of_nat (length bs)\<rparr>) bs"
proof -
  have len: "unat (str_length s + of_nat (length bs)) = unat (str_length s) + length bs"
    using fits uint32_lt [of "Alloced_length s"] by (intro unat_add_small32) simp
  show ?thesis using wf fits
    by (auto simp: appended_def wf_string_def content_def confined_def in_buffer_def len max_def
        bytes_at_append mem_simps word_le_nat_alt)
qed

lemma appended_poke_slack:
  assumes "wf_string h s" and "unat (str_length s) \<le> n" "n < unat (Alloced_length s)"
  shows "appended h s (h\<lparr>bytes := (bytes h)(Ptr s + n := v)\<rparr>) s []"
  using assms
  by (auto simp: appended_def wf_string_def content_def confined_def in_buffer_def bytes_at_def)

lemma poke_slack:
  assumes "wf_string h s" and "unat (str_length s) \<le> n" "n < unat (Alloced_length s)"
  obtains h' where "poke h (Ptr s + n) v = Some h'" "appended h s h' s []" 
proof
  have "accessible h (Ptr s + n)" using wf_string_area [OF assms(1), of n 1] assms(3)
    by (auto simp: area_ok_iff)
  then show "poke h (Ptr s + n) v = Some (h\<lparr>bytes := (bytes h)(Ptr s + n := v)\<rparr>)"
    by (simp add: poke_def)
qed (rule appended_poke_slack [OF assms])

section \<open>Growing\<close>

lemma extra_alloc_irrelevant [simp]:
  "wf_string h (s\<lparr>extra_alloc := e\<rparr>) = wf_string h s"
  "content h (s\<lparr>extra_alloc := e\<rparr>) = content h s"
  "confined h (s\<lparr>extra_alloc := e\<rparr>) h' s' = confined h s h' s'"
  "confined h s h' (t\<lparr>extra_alloc := e\<rparr>) = confined h s h' t"
  "appended h (s\<lparr>extra_alloc := e\<rparr>) h' s' bs = appended h s h' s' bs"
  "appended h s h' (t\<lparr>extra_alloc := e\<rparr>) bs = appended h s h' t bs"
  by (simp_all add: wf_string_def content_def confined_def in_buffer_def appended_def)

text \<open>The result of growing a buffer to more than \<open>n\<close> bytes: nothing but \<open>extra_alloc\<close> changed, or
  the room is there and byte \<open>n\<close> is zero.\<close>

definition grow_outcome :: "Heap \<Rightarrow> 'cs Sql_string \<Rightarrow> nat \<Rightarrow> uint32 \<Rightarrow> 'cs sresult \<Rightarrow> bool" where
  "grow_outcome h s n e r \<longleftrightarrow>
     (case r of None \<Rightarrow> False
      | Some (True, h', s') \<Rightarrow> h' = h \<and> s' = s\<lparr>extra_alloc := e\<rparr>
      | Some (False, h', s') \<Rightarrow> appended h s h' s' [] \<and> n < unat (Alloced_length s') \<and>
          str_length s' = str_length s \<and> extra_alloc s' = e \<and> peek h' (Ptr s' + n) = Some 0)"

lemma grow_outcomeI:
  assumes rr: "realloc_contract realloc_raw" and wf: "wf_string h s"
    and n: "unat (str_length s) \<le> n" "n \<le> unat k"
  shows "grow_outcome h s n (extra_alloc s)
    (let (err, h1, s1) = realloc_raw h s k
      in if err then Some (True, h1, s1)
         else do { h2 \<leftarrow> poke h1 (Ptr s1 + n) 0; Some (False, h2, s1) })"
proof -
  obtain err h1 s1 where r: "realloc_raw h s k = (err, h1, s1)" by (cases "realloc_raw h s k") auto
  have c: "case realloc_raw h s k of (True, h', s') \<Rightarrow> h' = h \<and> s' = s
        | (False, h', s') \<Rightarrow> appended h s h' s' [] \<and> unat k < unat (Alloced_length s') \<and>
            str_length s' = str_length s \<and> extra_alloc s' = extra_alloc s"
    by (rule rr [unfolded realloc_contract_def, rule_format]) (use wf n in simp)
  show ?thesis
  proof (cases err)
    case True
    then show ?thesis using c r by (simp add: grow_outcome_def)
  next
    case False
    with c r have a: "appended h s h1 s1 []" "unat k < unat (Alloced_length s1)"
      "str_length s1 = str_length s" "extra_alloc s1 = extra_alloc s" by auto
    then obtain h2 where h2: "poke h1 (Ptr s1 + n) 0 = Some h2" "appended h1 s1 h2 s1 []"
      using poke_slack [of h1 s1 n 0] n by (auto simp: appended_def)
    moreover have "peek h2 (Ptr s1 + n) = Some 0" using h2(1) 
      by (auto simp: poke_def peek_def split: if_splits)
    moreover have "appended h s h2 s1 []" using appended_trans [OF a(1) h2(2)] by simp
    ultimately show ?thesis using False r a n by (simp add: grow_outcome_def)
  qed
qed

lemma string_realloc_outcome:
  assumes "realloc_contract realloc_raw" "wf_string h s" "unat (str_length s) \<le> unat n"
  shows "grow_outcome h s (unat n) (extra_alloc s) (string_realloc realloc_raw h s n)"
  unfolding string_realloc_def using grow_outcomeI [OF assms] by simp

text \<open>The amount to over-allocate doubles, plus 128, until it reaches 4096.\<close>

definition next_extra :: "uint32 \<Rightarrow> uint32" where
  "next_extra e = (if e < 4096 then e * 2 + 128 else e)"

lemma realloc_with_extra_outcome:
  assumes rr: "realloc_contract realloc_raw" and wf: "wf_string h s"
    and n: "unat (str_length s) \<le> unat n" "unat n < 2 ^ 63"
  shows "grow_outcome h s (unat n) (next_extra (extra_alloc s)) (realloc_with_extra realloc_raw h s n)"
proof -
  define s0 where "s0 = s\<lparr>extra_alloc := next_extra (extra_alloc s)\<rparr>"
  have s0: "s0 = (if extra_alloc s < 4096 then s\<lparr>extra_alloc := extra_alloc s * 2 + 128\<rparr> else s)"
    by (simp add: s0_def next_extra_def)
  have k: "unat n \<le> unat (n + ucast (extra_alloc s0))"
    using n(2) uint32_lt [of "extra_alloc s0"] by (simp add: unat_word_ariths unat_ucast_eq_mod)
  have "wf_string h s0" "unat (str_length s0) \<le> unat n" using wf n by (simp_all add: s0_def)
  from grow_outcomeI [OF rr this k]
  have "grow_outcome h s0 (unat n) (extra_alloc s0) (realloc_with_extra realloc_raw h s n)"
    unfolding realloc_with_extra_def s0 [symmetric] Let_def by simp
  then show ?thesis
    by (auto simp: grow_outcome_def s0_def split: option.splits bool.splits)
qed

lemma grow_outcome_cases:
  assumes "grow_outcome h s n e r"
  obtains (error) "r = Some (True, h, s\<lparr>extra_alloc := e\<rparr>)"
  | (ok) h' s' where "r = Some (False, h', s')" "appended h s h' s' []" "n < unat (Alloced_length s')"
      "str_length s' = str_length s" "extra_alloc s' = e" "peek h' (Ptr s' + n) = Some 0"
  using assms by (auto simp: grow_outcome_def split: option.splits bool.splits)

section \<open>Appending\<close>

text \<open>An append of \<open>bs\<close> never accesses memory it may not, keeps the string well formed, adds a prefix of
  \<open>bs\<close> to the characters, and reports an error exactly when a part of \<open>bs\<close> is missing.\<close>

definition append_outcome :: "Heap \<Rightarrow> 'cs Sql_string \<Rightarrow> uchar list \<Rightarrow> 'cs sresult \<Rightarrow> bool" where
  "append_outcome h s bs r \<longleftrightarrow>
     (case r of None \<Rightarrow> False
      | Some (err, h', s') \<Rightarrow>
          (\<exists>xs ys. bs = xs @ ys \<and> (err \<longleftrightarrow> ys \<noteq> []) \<and> appended h s h' s' xs))"

lemma q_append_char_ok:
  assumes wf: "wf_string h s" and fits: "unat (str_length s) < unat (Alloced_length s)"
  obtains h' s' where "q_append_char h s c = Some (h', s')" "appended h s h' s' [c]"
proof -
  have "accessible h (Ptr s + unat (str_length s))"
    using wf_string_area [OF wf, of "unat (str_length s)" 1] fits by (auto simp: area_ok_iff)
  then have "q_append_char h s c =
      Some (h\<lparr>bytes := put_bytes (bytes h) (Ptr s + unat (str_length s)) [c]\<rparr>,
            s\<lparr>str_length := str_length s + of_nat (length [c])\<rparr>)"
    by (simp add: q_append_char_def poke_def)
  with appended_put [OF wf, of "[c]"] fits show thesis by (intro that) auto
qed

lemma append_char_outcome:
  assumes rr: "realloc_contract realloc_raw" and wf: "wf_string h s"
    and room: "unat (str_length s) + 1 < 2 ^ 32"
  shows "append_outcome h s [c] (append_char realloc_raw h s c)"
proof (cases "str_length s < Alloced_length s")
  case True
  then obtain h' s' where "q_append_char h s c = Some (h', s')" "appended h s h' s' [c]"
    using q_append_char_ok [OF wf] by (metis word_less_nat_alt)
  then show ?thesis using True by (simp add: append_char_def append_outcome_def)
next
  case False
  define n :: uint64 where "n = ucast (str_length s + 1)"
  have n: "unat n = unat (str_length s) + 1"
    using room uint32_lt [of "str_length s + 1"]
    by (simp add: n_def unat_ucast_eq_mod unat_word_ariths)
  have "grow_outcome h s (unat n) (next_extra (extra_alloc s)) (realloc_with_extra realloc_raw h s n)"
    using n room by (intro realloc_with_extra_outcome [OF rr wf]) simp_all
  then show ?thesis
  proof (cases rule: grow_outcome_cases)
    case error
    then show ?thesis using False appended_nil [OF wf]
      by (auto simp: append_char_def append_outcome_def simp flip: n_def)
  next
    case (ok h1 s1)
    then obtain h2 s2 where "q_append_char h1 s1 c = Some (h2, s2)" "appended h1 s1 h2 s2 [c]"
      using q_append_char_ok [of h1 s1 c] n by (auto simp: appended_def)
    with ok False show ?thesis using appended_trans [OF ok(2)]
      by (fastforce simp add: append_char_def append_outcome_def simp flip: n_def)
  qed
qed

text \<open>Two appends in sequence, the second only if the first succeeds.\<close>

lemma append_outcome_bind:
  assumes r: "append_outcome h s xs r"
    and f: "\<And>h1 s1. appended h s h1 s1 xs \<Longrightarrow> append_outcome h1 s1 ys (f h1 s1)"
  shows "append_outcome h s (xs @ ys)
    (do { (err, h1, s1) \<leftarrow> r; if err then Some (True, h1, s1) else f h1 s1 })"
proof -
  from r obtain err h1 s1 us vs where 1: "r = Some (err, h1, s1)" "xs = us @ vs"
    "err \<longleftrightarrow> vs \<noteq> []" "appended h s h1 s1 us"
    by (auto simp: append_outcome_def split: option.splits)
  show ?thesis
  proof (cases err)
    case True
    then show ?thesis using 1 by (auto simp: append_outcome_def)
  next
    case False
    with 1 f have "append_outcome h1 s1 ys (f h1 s1)" by simp
    then obtain err2 h2 s2 us2 vs2 where 2: "f h1 s1 = Some (err2, h2, s2)" "ys = us2 @ vs2"
      "err2 \<longleftrightarrow> vs2 \<noteq> []" "appended h1 s1 h2 s2 us2"
      by (auto simp: append_outcome_def split: option.splits)
    have "appended h s h2 s2 (xs @ us2)" using appended_trans [OF 1(4) 2(4)] 1 False by simp
    then have "\<exists>as bs. xs @ ys = as @ bs \<and> (err2 \<longleftrightarrow> bs \<noteq> []) \<and> appended h s h2 s2 as"
      using 2 by (intro exI [of _ "xs @ us2"] exI [of _ vs2]) simp
    then show ?thesis using 1 2 False by (simp add: append_outcome_def)
  qed
qed

lemma appended_length:
  "appended h s h' s' bs \<Longrightarrow> unat (str_length s') = unat (str_length s) + length bs"
  unfolding appended_def content_def by (metis length_append length_bytes_at)

text \<open>Source bytes that are not in the buffer of the string.\<close>

definition outside_source :: "Heap \<Rightarrow> 'cs Sql_string \<Rightarrow> ptr \<Rightarrow> nat \<Rightarrow> bool" where
  "outside_source h s src n \<longleftrightarrow> list_all (\<lambda>a. accessible h a \<and> \<not> in_buffer s a) [src ..< src + n]"

lemma outside_source_iff:
  "outside_source h s src n \<longleftrightarrow> (\<forall>a. src \<le> a \<and> a < src + n \<longrightarrow> accessible h a \<and> \<not> in_buffer s a)"
  by (auto simp: outside_source_def list_all_iff)

lemma outside_source_area: "outside_source h s src n \<Longrightarrow> area_ok h src n"
  by (simp add: outside_source_iff area_ok_iff)

lemma source_kept:
  assumes "appended h s h1 s1 xs" "outside_source h s src n"
  shows "outside_source h1 s1 src n" "bytes_at (bytes h1) src n = bytes_at (bytes h) src n"
  using assms by (auto simp: outside_source_iff appended_def confined_def bytes_at_def)

definition hex_pair :: "(nat \<Rightarrow> uchar) \<Rightarrow> uchar \<Rightarrow> uchar list" where
  "hex_pair dig b = [dig (unat b div 16), dig (unat b mod 16)]"

lemma length_hex_pair [simp]: "length (hex_pair dig b) = 2"
  by (simp add: hex_pair_def)

lemma hex_pair_nibbles:
  "hex_pair dig b = [dig (unat (drop_bit 4 b)), dig (unat (b AND 0x0F))]"
proof -
  have "b AND 0x0F = take_bit 4 b" by (simp add: take_bit_eq_mask mask_eq_exp_minus_1)
  then show ?thesis
    by (simp add: hex_pair_def unat_drop_bit_div unsigned_take_bit_eq take_bit_eq_mod [where 'a = nat])
qed

lemma append_hex_outcome:
  assumes "realloc_contract realloc_raw" "wf_string h s" "outside_source h s src n"
    and "unat (str_length s) + 2 * n < 2 ^ 32"
  shows "append_outcome h s (concat (map (hex_pair dig) (bytes_at (bytes h) src n)))
           (append_hex realloc_raw dig h s src n)"
  using assms(2-4)
proof (induction n arbitrary: h s src)
  case 0
  then show ?case by (simp add: append_outcome_def appended_nil)
next
  case (Suc n)
  define b where "b = bytes h src"
  have read: "peek h1 src = Some b" if "appended h s h1 s1 xs" for h1 s1 xs
    using source_kept [OF that Suc.prems(2)]
    by (simp add: outside_source_iff peek_def b_def bytes_at_Suc)
  have rest: "append_outcome h2 s2 (concat (map (hex_pair dig) (bytes_at (bytes h) (Suc src) n)))
      (append_hex realloc_raw dig h2 s2 (src + 1) n)"
    if "appended h s h2 s2 (hex_pair dig b)" for h2 s2
    using Suc.IH [of h2 s2 "Suc src"] source_kept [OF that Suc.prems(2)] appended_length [OF that]
      that Suc.prems(3) by (simp add: appended_def outside_source_iff bytes_at_Suc)
  have second: "append_outcome h1 s1 ([dig (unat (b AND 0x0F))] @
        concat (map (hex_pair dig) (bytes_at (bytes h) (Suc src) n)))
      (do { (err1, h2, s2) \<leftarrow> append_char realloc_raw h1 s1 (dig (unat (b AND 0x0F)));
            if err1 then Some (True, h2, s2) else append_hex realloc_raw dig h2 s2 (src + 1) n })"
    if a: "appended h s h1 s1 [dig (unat (drop_bit 4 b))]" for h1 s1
  proof (rule append_outcome_bind)
    show "append_outcome h1 s1 [dig (unat (b AND 0x0F))]
      (append_char realloc_raw h1 s1 (dig (unat (b AND 0x0F))))"
      using a appended_length [OF a] Suc.prems(3) by (intro append_char_outcome assms(1))
        (simp_all add: appended_def)
  qed (use appended_trans [OF a] rest in \<open>auto simp: hex_pair_nibbles\<close>)
  have "append_outcome h s ([dig (unat (drop_bit 4 b))] @ [dig (unat (b AND 0x0F))] @
        concat (map (hex_pair dig) (bytes_at (bytes h) (Suc src) n)))
      (do { (err, h1, s1) \<leftarrow> append_char realloc_raw h s (dig (unat (drop_bit 4 b)));
            if err then Some (True, h1, s1)
            else do { b1 \<leftarrow> peek h1 src;
                      (err1, h2, s2) \<leftarrow> append_char realloc_raw h1 s1 (dig (unat (b1 AND 0x0F)));
                      if err1 then Some (True, h2, s2)
                      else append_hex realloc_raw dig h2 s2 (src + 1) n } })"
    by (rule append_outcome_bind, rule append_char_outcome)
      (use assms(1) Suc.prems read second in \<open>simp_all\<close>)
  then show ?case
    using read [OF appended_nil [OF Suc.prems(1)]]
    by (simp add: bytes_at_Suc hex_pair_nibbles [of dig b] flip: b_def)
qed

subsection \<open>The unchecked appends\<close>

text \<open>One unchecked append and the bytes it adds.\<close>

datatype q_op = Q_char uchar | Q_2b uint32 | Q_4b uint32

fun q_bytes :: "q_op \<Rightarrow> uchar list" where
  "q_bytes (Q_char c) = [c]"
| "q_bytes (Q_2b n) = le_bytes 2 (unat n)"
| "q_bytes (Q_4b n) = le_bytes 4 (unat n)"

fun q_step :: "Heap \<Rightarrow> 'cs Sql_string \<Rightarrow> q_op \<Rightarrow> (Heap \<times> 'cs Sql_string) option" where
  "q_step h s (Q_char c) = q_append_char h s c"
| "q_step h s (Q_2b n) = q_append2b h s n"
| "q_step h s (Q_4b n) = q_append_uint32 h s n"

fun q_run :: "Heap \<Rightarrow> 'cs Sql_string \<Rightarrow> q_op list \<Rightarrow> (Heap \<times> 'cs Sql_string) option" where
  "q_run h s [] = Some (h, s)"
| "q_run h s (q # qs) = do { (h1, s1) \<leftarrow> q_step h s q; q_run h1 s1 qs }"

lemma q_step_put:
  assumes "area_ok h (Ptr s + unat (str_length s)) (length (q_bytes q))"
  shows "q_step h s q =
    Some (h\<lparr>bytes := put_bytes (bytes h) (Ptr s + unat (str_length s)) (q_bytes q)\<rparr>,
          s\<lparr>str_length := str_length s + of_nat (length (q_bytes q))\<rparr>)"
  using assms
  by (cases q) (simp_all add: q_append_char_def poke_def q_append2b_def q_append_uint32_def
      store_bytes area_ok_iff)

lemma q_step_ok:
  assumes wf: "wf_string h s" and fits: "unat (str_length s) + length (q_bytes q) \<le> unat (Alloced_length s)"
  obtains h' s' where "q_step h s q = Some (h', s')" "appended h s h' s' (q_bytes q)"
    "Alloced_length s' = Alloced_length s"
  using q_step_put [OF wf_string_area [OF wf fits]] appended_put [OF wf fits] by (rule that) simp

lemma q_run_ok:
  assumes "wf_string h s"
    and "unat (str_length s) + length (concat (map q_bytes qs)) \<le> unat (Alloced_length s)"
  shows "\<exists>h' s'. q_run h s qs = Some (h', s') \<and> appended h s h' s' (concat (map q_bytes qs)) \<and>
           Alloced_length s' = Alloced_length s"
  using assms
proof (induction qs arbitrary: h s)
  case Nil
  then show ?case by (simp add: appended_nil)
next
  case (Cons q qs)
  then obtain h1 s1 where 1: "q_step h s q = Some (h1, s1)" "appended h s h1 s1 (q_bytes q)"
    "Alloced_length s1 = Alloced_length s" by (auto elim: q_step_ok [of h s q])
  have "wf_string h1 s1" "unat (str_length s1) + length (concat (map q_bytes qs)) \<le> unat (Alloced_length s1)"
    using Cons.prems(2) 1 appended_length [OF 1(2)] by (simp_all add: appended_def)
  from Cons.IH [OF this] show ?case using 1 appended_trans [OF 1(2)] by auto
qed

lemma reserve_outcome:
  assumes "realloc_contract realloc_raw" "wf_string h s" "unat (str_length s) + unat n < 2 ^ 64"
  shows "grow_outcome h s (unat (str_length s) + unat n) (extra_alloc s) (reserve realloc_raw h s n)"
proof -
  have "unat (ucast (str_length s) + n) = unat (str_length s) + unat n"
    using assms(3) uint32_lt [of "str_length s"] by (simp add: unat_word_ariths unat_ucast_eq_mod)
  then show ?thesis
    using string_realloc_outcome [OF assms(1,2), of "ucast (str_length s) + n"] by (simp add: reserve_def)
qed

subsection \<open>Appending a block of bytes\<close>

lemma q_append_data_ok:
  assumes wf: "wf_string h s" and src: "outside_source h s p (unat n)"
    and fits: "unat (str_length s) + unat n \<le> unat (Alloced_length s)"
  shows "\<exists>h' s'. q_append_data h s p n = Some (h', s') \<and>
           appended h s h' s' (bytes_at (bytes h) p (unat n)) \<and> Alloced_length s' = Alloced_length s"
proof -
  have "(of_nat (unat n) :: uint32) = ucast n" by (simp add: of_nat_unat)
  with appended_put [OF wf, of "bytes_at (bytes h) p (unat n)"] fits src show ?thesis
    by (simp add: q_append_data_def copy_out_def copy_in_def outside_source_area wf_string_area [OF wf])
qed

lemma grow_for_outcome:
  assumes rr: "realloc_contract realloc_raw" and wf: "wf_string h s"
    and len: "unat n + unat (str_length s) + unat step < 2 ^ 32"
  shows "(\<exists>h1 s1. (if n + str_length s > Alloced_length s
             then string_realloc realloc_raw h s (ucast (n + str_length s + step))
             else Some (False, h, s)) = Some (False, h1, s1) \<and> appended h s h1 s1 [] \<and>
             str_length s1 = str_length s \<and> unat (str_length s) + unat n \<le> unat (Alloced_length s1)) \<or>
         (if n + str_length s > Alloced_length s
             then string_realloc realloc_raw h s (ucast (n + str_length s + step))
             else Some (False, h, s)) = Some (True, h, s)"
proof (cases "n + str_length s > Alloced_length s")
  case True
  have k: "unat (ucast (n + str_length s + step) :: uint64) = unat n + unat (str_length s) + unat step"
    using len by (simp add: unat_word_ariths unat_ucast_eq_mod)
  have "grow_outcome h s (unat n + unat (str_length s) + unat step) (extra_alloc s)
      (string_realloc realloc_raw h s (ucast (n + str_length s + step)))"
    using string_realloc_outcome [OF rr wf, of "ucast (n + str_length s + step)"] k by simp
  then show ?thesis using True by (cases rule: grow_outcome_cases) auto
next
  case False
  then have "unat (str_length s) + unat n \<le> unat (Alloced_length s)"
    using len by (simp add: word_less_nat_alt unat_word_ariths)
  then show ?thesis using False wf by (simp add: appended_nil)
qed

lemma append_step_outcome:
  assumes rr: "realloc_contract realloc_raw" and wf: "wf_string h s"
    and src: "outside_source h s p (unat n)" and pos: "n \<noteq> 0"
    and len: "unat n + unat (str_length s) + unat step < 2 ^ 32"
  shows "append_outcome h s (bytes_at (bytes h) p (unat n)) (append_step realloc_raw h s p n step)"
  using grow_for_outcome [OF rr wf len]
proof (elim disjE exE conjE)
  fix h1 s1
  assume g: "(if n + str_length s > Alloced_length s
             then string_realloc realloc_raw h s (ucast (n + str_length s + step))
             else Some (False, h, s)) = Some (False, h1, s1)" and a: "appended h s h1 s1 []"
    and l: "str_length s1 = str_length s" "unat (str_length s) + unat n \<le> unat (Alloced_length s1)"
  have wf1: "wf_string h1 s1" using a by (simp add: appended_def)
  note src1 = source_kept [OF a src]
  have "appended h1 s1 (h1\<lparr>bytes := put_bytes (bytes h1) (Ptr s1 + unat (str_length s1)) (bytes_at (bytes h) p (unat n))\<rparr>)
      (s1\<lparr>str_length := str_length s1 + n\<rparr>) (bytes_at (bytes h) p (unat n))"
    using appended_put [OF wf1, of "bytes_at (bytes h) p (unat n)"] l by (simp add: of_nat_unat)
  from appended_trans [OF a this] show ?thesis
    using l wf_string_area [OF wf1, of "unat (str_length s)" "unat n"] src1
    by (simp add: append_step_def Let_def g append_outcome_def copy_out_def copy_in_def outside_source_area)
next
  assume g: "(if n + str_length s > Alloced_length s
             then string_realloc realloc_raw h s (ucast (n + str_length s + step))
             else Some (False, h, s)) = Some (True, h, s)"
  have "bytes_at (bytes h) p (unat n) \<noteq> []" using pos by (simp flip: length_0_conv add: unat_eq_0)
  then show ?thesis using appended_nil [OF wf]
    by (auto simp: append_step_def Let_def g append_outcome_def)
qed

section \<open>An allocator that keeps the contract\<close>

text \<open>Every request that needs room takes a fresh area behind all others.\<close>

definition heap_top :: "Heap \<Rightarrow> ptr" where
  "heap_top h = foldr (\<lambda>(p, n) m. max (p + n) m) (areas h) 1"

definition fresh_realloc_raw :: "'cs string_alloc_fun" where
  "fresh_realloc_raw h s n =
     (if n < ucast (Alloced_length s) then (False, h, s)
      else if 2 ^ 32 \<le> unat n + 1 then (True, h, s)
      else let p = heap_top h
           in (False, \<lparr>bytes = put_bytes (bytes h) p (bytes_at (bytes h) (Ptr s) (unat (str_length s))),
                       areas = (p, unat n + 1) # areas h\<rparr>,
               s\<lparr>Ptr := p, Alloced_length := of_nat (unat n + 1), alloced := True\<rparr>))"

lemma heap_top_above: "accessible h a \<Longrightarrow> a < heap_top h"
proof -
  have "list_ex (\<lambda>(p, n). p \<le> a \<and> a < p + n) xs \<Longrightarrow> a < foldr (\<lambda>(p, n) m. max (p + n) m) xs 1" for xs
    by (induction xs) auto
  then show "accessible h a \<Longrightarrow> a < heap_top h" by (simp add: accessible_def heap_top_def)
qed

lemma fresh_realloc_raw_grows:
  assumes wf: "wf_string h s" and n: "unat (str_length s) \<le> unat n" "unat n + 1 < 2 ^ 32"
  defines "h' \<equiv> \<lparr>bytes = put_bytes (bytes h) (heap_top h) (content h s), areas = (heap_top h, unat n + 1) # areas h\<rparr>"
    and "s' \<equiv> s\<lparr>Ptr := heap_top h, Alloced_length := of_nat (unat n + 1), alloced := True\<rparr>"
  shows "appended h s h' s' []"
proof -
  have al: "unat (Alloced_length s') = unat n + 1" using n by (simp add: s'_def unat_word_ariths unat_ucast_eq_mod)
  have "confined h s h' s'"
    using heap_top_above
    by (fastforce simp: confined_def in_buffer_def al s'_def h'_def accessible_def put_bytes_outside)
  moreover have "wf_string h' s'" using n al
    by (auto simp: wf_string_def area_ok_iff h'_def s'_def accessible_def word_le_nat_alt)
  moreover have "content h' s' = content h s"
    by (simp add: content_def h'_def s'_def mem_simps)
  ultimately show ?thesis by (simp add: appended_def s'_def)
qed

lemma fresh_realloc_raw_contract: "realloc_contract fresh_realloc_raw"
  unfolding realloc_contract_def
proof (intro allI impI, elim conjE)
  fix h :: Heap and s :: "'a Sql_string" and n :: uint64
  assume wf: "wf_string h s" and n: "unat (str_length s) \<le> unat n"
  show "case fresh_realloc_raw h s n of (True, h', s') \<Rightarrow> h' = h \<and> s' = s
     | (False, h', s') \<Rightarrow> appended h s h' s' [] \<and> unat n < unat (Alloced_length s') \<and>
         str_length s' = str_length s \<and> extra_alloc s' = extra_alloc s"
  proof (cases "n < ucast (Alloced_length s) \<or> 2 ^ 32 \<le> unat n + 1")
    case True
    then show ?thesis using uint32_lt [of "Alloced_length s"]
      by (auto simp: fresh_realloc_raw_def appended_nil [OF wf] word_less_nat_alt unat_ucast_eq_mod)
  next
    case False
    then show ?thesis using fresh_realloc_raw_grows [OF wf n]
      by (simp add: fresh_realloc_raw_def content_def Let_def unat_word_ariths unat_ucast_eq_mod)
  qed
qed

section \<open>Freeing\<close>

text \<open>\<open>my_free\<close> takes away the area that starts at the given address and nothing else.\<close>

definition outside_area :: "Heap \<Rightarrow> ptr \<Rightarrow> ptr \<Rightarrow> bool" where
  "outside_area h p a \<longleftrightarrow> list_all (\<lambda>(q, n). q = p \<longrightarrow> a < q \<or> q + n \<le> a) (areas h)"

definition free_contract :: "(Heap \<Rightarrow> ptr \<Rightarrow> Heap) \<Rightarrow> bool" where
  "free_contract my_free \<longleftrightarrow>
     (\<forall>h p a. accessible h a \<and> outside_area h p a \<longrightarrow>
        accessible (my_free h p) a \<and> bytes (my_free h p) a = bytes h a)"

text \<open>No byte of \<open>s\<close> is in the area that freeing \<open>this\<close> takes away.\<close>

definition apart :: "Heap \<Rightarrow> 'cs Sql_string \<Rightarrow> 'cs Sql_string \<Rightarrow> bool" where
  "apart h this s \<longleftrightarrow> alloced this \<longrightarrow>
     list_all (outside_area h (Ptr this))
       [Ptr s ..< Ptr s + max (unat (str_length s)) (unat (Alloced_length s))]"

definition area_free :: "Heap \<Rightarrow> ptr \<Rightarrow> Heap" where
  "area_free h p = h\<lparr>areas := filter (\<lambda>(q, n). q \<noteq> p) (areas h)\<rparr>"

lemma area_free_contract: "free_contract area_free"
  by (fastforce simp: free_contract_def area_free_def accessible_def outside_area_def list_ex_iff list_all_iff)

lemma string_free_heap: "fst (string_free my_free h s) = (if alloced s then my_free h (Ptr s) else h)"
  and string_free_string: "snd (string_free my_free h s) =
    s\<lparr>alloced := False, Alloced_length := 0, extra_alloc := 0, Ptr := 0, str_length := 0\<rparr>"
  by (auto simp: string_free_def Let_def)

text \<open>A string with the pointer and lengths of \<open>s\<close> is as good as \<open>s\<close> after \<open>this\<close> was freed.\<close>

lemma same_data_after_free:
  assumes free: "free_contract my_free" and wf: "wf_string h s" and ap: "apart h this s"
    and same: "Ptr t = Ptr s" "str_length t = str_length s" "Alloced_length t = Alloced_length s"
  defines "h' \<equiv> fst (string_free my_free h this)"
  shows "wf_string h' t" "content h' t = content h s"
proof -
  have keep: "accessible h' a \<and> bytes h' a = bytes h a"
    if "Ptr s \<le> a" "a < Ptr s + max (unat (str_length s)) (unat (Alloced_length s))" for a
    using that wf ap free
    by (auto simp: h'_def string_free_heap wf_string_def area_ok_iff apart_def list_all_iff free_contract_def)
  then show "wf_string h' t" using wf by (simp add: wf_string_def same area_ok_iff)
  show "content h' t = content h s" using keep by (auto simp: content_def same bytes_at_def)
qed

section \<open>Correctness of the class\<close>

text \<open>
  The length of the string is a 32-bit number and the sum with the length of the block is not checked: when it
  wraps to at most the allocated length, \<open>append\<close> does not grow the buffer; it copies the block behind the
  end of the buffer, or fails if the memory there may not be written, and the length gets smaller.
\<close>

theorem append_length_wraps:
  assumes "2 ^ 32 \<le> unat (str_length s) + unat n" "n + str_length s \<le> Alloced_length s"
  shows "append_step realloc_raw h s p n step =
      do { bs \<leftarrow> copy_out h p (unat n);
           h1 \<leftarrow> copy_in h (string_end s) bs;
           Some (False, h1, s\<lparr>str_length := str_length s + n\<rparr>) } \<and>
    Ptr s + unat (Alloced_length s) < string_end s + unat n \<and> str_length s + n < str_length s"
proof -
  have "\<not> n + str_length s > Alloced_length s" using assms(2) by simp
  moreover have "unat (str_length s + n) = unat (str_length s) + unat n - 2 ^ 32"
    using assms(1) uint32_lt [of n] uint32_lt [of "str_length s"]
    by (simp add: unat_word_ariths le_mod_geq)
  ultimately show ?thesis
    using assms(1) uint32_lt [of n] uint32_lt [of "Alloced_length s"]
    by (simp add: append_step_def string_end_def word_less_nat_alt)
qed

text \<open>
  C3: The checked appends: appending a character, the hexadecimal form of a block or a block of bytes to a
  well-formed string never touches memory outside the string and never reads what it may not; the
  string stays well formed, everything outside its buffer keeps its value, and an error is reported
  exactly when part of the bytes could not be appended, the bytes before it having been appended. This
  holds when the block is not empty and lies outside the string's own buffer, when the length of the
  string, twice the length of the block and the allocation step together stay below 2^32 (the source adds them
  in 32 bits unchecked; \<open>append_length_wraps\<close> shows that behind that limit the copy leaves the buffer), and
  when the reallocation either fails and changes nothing or gives a buffer that is large enough and
  keeps the characters.
\<close>

theorem string_appends:
  assumes "realloc_contract realloc_raw" "wf_string h s" "outside_source h s src n"
    and "unat (str_length s) + 2 * n + unat step < 2 ^ 32" "0 < n"
  shows "append_outcome h s [c] (append_char realloc_raw h s c) \<and>
    append_outcome h s (concat (map (hex_pair dig) (bytes_at (bytes h) src n)))
      (append_hex realloc_raw dig h s src n) \<and>
    append_outcome h s (bytes_at (bytes h) src n) (append_step realloc_raw h s src (of_nat n) step)"
proof (intro conjI)
  have n: "unat (of_nat n :: uint32) = n" using assms(4) by (simp add: unat_of_nat)
  show "append_outcome h s (bytes_at (bytes h) src n) (append_step realloc_raw h s src (of_nat n) step)"
    using append_step_outcome [OF assms(1,2), of src "of_nat n" step] assms(3-5) n
    by (fastforce simp del: of_nat_eq_0_iff)
qed (use assms in \<open>auto intro: append_char_outcome append_hex_outcome\<close>)

definition string_heap :: Heap where
  "string_heap = \<lparr>bytes = (\<lambda>a. of_nat a), areas = [(10, 4), (40, 3)]\<rparr>"

definition buffer_string :: "nat Sql_string" where
  "buffer_string = StringBuffer 10 4 7"

lemma buffer_string_ok:
  "wf_string string_heap buffer_string" "accessible string_heap (string_end buffer_string)"
  "outside_source string_heap buffer_string 40 3" "str_length buffer_string = 0"
  "Ptr buffer_string \<noteq> 0 \<and> str_length buffer_string < Alloced_length buffer_string"
  by (simp_all add: string_heap_def buffer_string_def StringBuffer_def set_length_def String_buffer_def
      wf_string_def outside_source_iff area_ok_iff accessible_def in_buffer_def string_end_def)

theorem string_appends_witness:
  "append_outcome string_heap buffer_string [97] (append_char fresh_realloc_raw string_heap buffer_string 97) \<and>
   append_outcome string_heap buffer_string
      (concat (map (hex_pair (\<lambda>d. of_nat (48 + d))) (bytes_at (bytes string_heap) 40 3)))
      (append_hex fresh_realloc_raw (\<lambda>d. of_nat (48 + d)) string_heap buffer_string 40 3) \<and>
   append_outcome string_heap buffer_string (bytes_at (bytes string_heap) 40 3)
     (append_step fresh_realloc_raw string_heap buffer_string 40 (of_nat 3) 16)"
  by (rule string_appends [OF fresh_realloc_raw_contract]) (simp_all add: buffer_string_ok)

text \<open>
  \<open>reserve\<close> followed by the unchecked appends: \<open>reserve\<close> changes nothing when it fails, and after it
  succeeded any sequence of unchecked appends of characters, two-byte and four-byte numbers that
  adds at most the reserved number of bytes stays inside the buffer and appends exactly its bytes, the
  numbers lowest byte first.
\<close>

theorem string_reserve_q_append:
  assumes "realloc_contract realloc_raw" "wf_string h s" "unat (str_length s) + unat n < 2 ^ 64"
    and "length (concat (map q_bytes qs)) \<le> unat n"
  shows "reserve realloc_raw h s n = Some (True, h, s) \<or>
    (\<exists>h1 s1 h2 s2. reserve realloc_raw h s n = Some (False, h1, s1) \<and> q_run h1 s1 qs = Some (h2, s2) \<and>
       appended h s h2 s2 (concat (map q_bytes qs)) \<and> Alloced_length s2 = Alloced_length s1)"
  using reserve_outcome [OF assms(1-3)]
proof (cases rule: grow_outcome_cases)
  case (ok h1 s1)
  have "wf_string h1 s1" using ok(2) by (simp add: appended_def)
  from q_run_ok [OF this, of qs] ok assms(4) obtain h2 s2 where
    "q_run h1 s1 qs = Some (h2, s2)" "appended h1 s1 h2 s2 (concat (map q_bytes qs))"
    "Alloced_length s2 = Alloced_length s1" by auto
  with ok(1) appended_trans [OF ok(2)] show ?thesis by fastforce
qed simp

theorem string_reserve_q_append_witness:
  "reserve fresh_realloc_raw string_heap buffer_string 7 = Some (True, string_heap, buffer_string) \<or>
    (\<exists>h1 s1 h2 s2. reserve fresh_realloc_raw string_heap buffer_string 7 = Some (False, h1, s1) \<and>
       q_run h1 s1 [Q_2b 513, Q_char 9, Q_4b 1] = Some (h2, s2) \<and>
       appended string_heap buffer_string h2 s2 (concat (map q_bytes [Q_2b 513, Q_char 9, Q_4b 1])) \<and>
       Alloced_length s2 = Alloced_length s1)"
  by (rule string_reserve_q_append [OF fresh_realloc_raw_contract]) (simp_all add: buffer_string_ok)

lemma c_ptr_grow:
  assumes "realloc_contract realloc_raw" "wf_string h s"
  shows "map_option snd (string_realloc realloc_raw h s (ucast (str_length s))) = Some (h, s) \<or>
    (\<exists>h' s'. map_option snd (string_realloc realloc_raw h s (ucast (str_length s))) = Some (h', s') \<and>
       appended h s h' s' [] \<and> peek h' (string_end s') = Some 0)"
proof -
  have n: "unat (ucast (str_length s) :: uint64) = unat (str_length s)"
    using uint32_lt [of "str_length s"] by (simp add: unat_ucast_eq_mod)
  have "grow_outcome h s (unat (str_length s)) (extra_alloc s)
      (string_realloc realloc_raw h s (ucast (str_length s)))"
    using string_realloc_outcome [OF assms, of "ucast (str_length s)"] n by simp
  then show ?thesis
    by (cases rule: grow_outcome_cases) (auto simp: string_end_def)
qed

text \<open>
  \<open>c_ptr_safe\<close> and \<open>c_ptr\<close> keep the characters of a well-formed string and leave a zero byte behind
  them, unless the buffer cannot grow, in which case nothing has changed; \<open>c_ptr\<close> reads the byte behind
  the characters, which has to be accessible.
\<close>

theorem string_zero_terminated:
  assumes "realloc_contract realloc_raw" "wf_string h s" "accessible h (string_end s)"
  shows "(c_ptr_safe realloc_raw h s = Some (h, s) \<or>
      (\<exists>h' s'. c_ptr_safe realloc_raw h s = Some (h', s') \<and> appended h s h' s' [] \<and>
         peek h' (string_end s') = Some 0)) \<and>
    (c_ptr realloc_raw h s = Some (h, s) \<or>
      (\<exists>h' s'. c_ptr realloc_raw h s = Some (h', s') \<and> appended h s h' s' [] \<and>
         peek h' (string_end s') = Some 0)) \<and>
    (Ptr s \<noteq> 0 \<and> str_length s < Alloced_length s \<longrightarrow>
       c_ptr_quick h s = c_ptr_safe realloc_raw h s \<and>
       (\<exists>h'. c_ptr_quick h s = Some (h', s) \<and> appended h s h' s [] \<and> peek h' (string_end s) = Some 0))"
proof -
  have quick: "\<exists>h'. c_ptr_quick h s = Some (h', s) \<and> appended h s h' s [] \<and> peek h' (string_end s) = Some 0"
    if "Ptr s \<noteq> 0 \<and> str_length s < Alloced_length s"
    using that appended_poke_slack [OF assms(2), of "unat (str_length s)" 0] assms(3)
    by (auto simp: c_ptr_quick_def poke_def peek_def string_end_def word_less_nat_alt)
  moreover have "c_ptr_safe realloc_raw h s = (if Ptr s \<noteq> 0 \<and> str_length s < Alloced_length s
      then c_ptr_quick h s
      else map_option snd (string_realloc realloc_raw h s (ucast (str_length s))))"
    by (simp add: c_ptr_safe_def c_ptr_quick_def)
  moreover have "c_ptr realloc_raw h s = (if Ptr s = 0 \<or> bytes h (string_end s) \<noteq> 0
      then map_option snd (string_realloc realloc_raw h s (ucast (str_length s))) else Some (h, s))"
    using assms(3) by (simp add: c_ptr_def peek_def string_end_def)
  ultimately show ?thesis using c_ptr_grow [OF assms(1,2)] by (auto split: if_splits)
qed

theorem string_zero_terminated_witness:
  "Ptr buffer_string \<noteq> 0 \<and> str_length buffer_string < Alloced_length buffer_string \<and>
   (\<exists>h'. c_ptr_quick string_heap buffer_string = Some (h', buffer_string) \<and>
      appended string_heap buffer_string h' buffer_string [] \<and> peek h' (string_end buffer_string) = Some 0)"
  using string_zero_terminated [OF fresh_realloc_raw_contract buffer_string_ok(1,2)] buffer_string_ok(5) by blast

text \<open>
  Handing a buffer over: after \<open>move\<close>, after assignment and after \<open>release\<close> followed by \<open>reset\<close> the
  receiving string is well formed and has the characters of the given one, and exactly one of the
  two owns the buffer: with \<open>move\<close> the receiver if the giver did, with assignment the giver, with
  \<open>reset\<close> the receiver.  \<open>move\<close> keeps the character set of the receiver, the others take the one
  given.
\<close>

theorem string_handover:
  assumes "free_contract my_free" "wf_string h s" "apart h this s"
  shows "(case string_move my_free h this s of (h', t, s') \<Rightarrow>
      wf_string h' t \<and> content h' t = content h s \<and> alloced t = alloced s \<and> \<not> alloced s' \<and>
      str_charset t = str_charset this) \<and>
    (case string_assign my_free False h this s of (h', t) \<Rightarrow>
      wf_string h' t \<and> content h' t = content h s \<and> \<not> alloced t \<and> str_charset t = str_charset s) \<and>
    (case release s of (p, s') \<Rightarrow>
      (case string_reset my_free h this p (ucast (str_length s)) (ucast (Alloced_length s)) (str_charset s) of
        (h', t) \<Rightarrow> wf_string h' t \<and> content h' t = content h s \<and> alloced t = (Ptr s \<noteq> 0) \<and>
          \<not> alloced s' \<and> Ptr s' = 0 \<and> str_charset t = str_charset s))"
proof -
  have id: "(ucast (ucast a :: uint64) :: uint32) = a" for a :: uint32
    by (rule word_eq_unatI) (use uint32_lt [of a] in \<open>simp add: unat_ucast_eq_mod\<close>)
  note facts = string_free_string same_data_after_free [OF assms]
  show ?thesis
    by (auto simp: string_move_def string_assign_def string_reset_def release_def Let_def
        split_beta facts id)
qed

theorem string_handover_witness:
  "case string_move area_free \<lparr>bytes = (\<lambda>a. of_nat a), areas = [(10, 4), (40, 3)]\<rparr>
       (String_default 1) \<lparr>Ptr = 10, str_length = 2, Alloced_length = 4, extra_alloc = 0, alloced = True,
         thread_specific = False, str_charset = 7 :: nat\<rparr> of
     (h', t, s') \<Rightarrow> content h' t = [10, 11] \<and> alloced t \<and> \<not> alloced s' \<and> str_charset t = 1"
  using string_handover [of area_free "\<lparr>bytes = (\<lambda>a. of_nat a), areas = [(10, 4), (40, 3)]\<rparr>"
      "\<lparr>Ptr = 10, str_length = 2, Alloced_length = 4, extra_alloc = 0, alloced = True,
         thread_specific = False, str_charset = 7 :: nat\<rparr>" "String_default 1"] area_free_contract
  by (simp add: wf_string_def area_ok_iff accessible_def apart_def String_default_def content_def
      bytes_at_def upt_rec split_beta string_move_def)

lemma ascii_scan_correct:
  "area_ok h p n \<Longrightarrow> ascii_scan h p n = Some (\<forall>b \<in> set (bytes_at (bytes h) p n). unat b < 128)"
proof (induction n arbitrary: p)
  case (Suc n)
  have "(b AND NOT 0x7f \<noteq> 0) \<longleftrightarrow> \<not> unat b < 128" for b :: uchar
  proof -
    have "b AND NOT 0x7f = b AND 128"
      by (rule bit_word_eqI) (auto simp: bit_simps less_Suc_eq numeral_eq_Suc)
    then show ?thesis using and_128_iff [of b] by (simp add: not_less)
  qed
  moreover have "accessible h p" "area_ok h (Suc p) n" using Suc.prems by (auto simp: area_ok_iff)
  ultimately show ?case using Suc.IH [of "Suc p"] by (simp add: peek_def bytes_at_Suc)
qed simp

text \<open>
  On well-formed strings \<open>bin_eq\<close> decides whether the characters are the same bytes, \<open>is_ascii\<close>
  whether the string is empty or has a character set with one-byte units and only bytes below 128,
  and \<open>chop\<close> drops the last byte of a string that has a buffer and is not empty.
\<close>

theorem string_queries:
  assumes "wf_string h s" "wf_string h t"
  shows "bin_eq h s t = Some (content h s = content h t) \<and>
    is_ascii mbminlen h s = Some (content h s = [] \<or>
      mbminlen (str_charset s) \<le> 1 \<and> (\<forall>b \<in> set (content h s). unat b < 128)) \<and>
    (str_length s \<noteq> 0 \<and> Alloced_length s \<noteq> 0 \<longrightarrow>
      (\<exists>h' s'. chop h s = Some (h', s') \<and> wf_string h' s' \<and> content h' s' = butlast (content h s)))"
proof (intro conjI impI)
  have area: "area_ok h (Ptr s) (unat (str_length s))" "area_ok h (Ptr t) (unat (str_length t))"
    using assms by (auto simp: wf_string_def intro: area_ok_mono)
  have "str_length s \<noteq> str_length t \<Longrightarrow> content h s \<noteq> content h t"
    unfolding content_def by (metis length_bytes_at word_unat_eq_iff)
  then show "bin_eq h s t = Some (content h s = content h t)"
    using area by (auto simp: bin_eq_def copy_out_def content_def)
  have "content h s = [] \<longleftrightarrow> str_length s = 0"
    by (simp add: content_def unat_eq_0 flip: length_0_conv)
  then show "is_ascii mbminlen h s = Some (content h s = [] \<or>
      mbminlen (str_charset s) \<le> 1 \<and> (\<forall>b \<in> set (content h s). unat b < 128))"
    using ascii_scan_correct [OF area(1)] by (simp add: is_ascii_def content_def)
  assume a: "str_length s \<noteq> 0 \<and> Alloced_length s \<noteq> 0"
  have len: "unat (str_length s) = Suc (unat (str_length s - 1))"
    using a unat_minus_one [of "str_length s"] unat_eq_0 [of "str_length s"] by linarith
  define h' where "h' = h\<lparr>bytes := (bytes h)(Ptr s + unat (str_length s - 1) := 0)\<rparr>"
  have "chop h s = Some (h', s\<lparr>str_length := str_length s - 1\<rparr>)"
  proof -
    have "unat (str_length s - 1) < unat (str_length s)" using len by linarith
    then have "accessible h (Ptr s + unat (str_length s - 1))"
      using area(1) unfolding area_ok_iff by (metis add_less_cancel_left le_add1)
    then show ?thesis by (simp add: chop_def poke_def h'_def)
  qed
  moreover have "wf_string h' (s\<lparr>str_length := str_length s - 1\<rparr>)"
  proof -
    have "str_length s \<le> Alloced_length s" "area_ok h (Ptr s) (unat (Alloced_length s))"
      using assms(1) a by (auto simp: wf_string_def max_def word_le_nat_alt split: if_splits)
    moreover from this have "unat (str_length s - 1) \<le> unat (Alloced_length s)"
      using len unfolding word_le_nat_alt by linarith
    ultimately show ?thesis by (simp add: wf_string_def h'_def word_le_nat_alt max_absorb2)
  qed
  moreover have "content h' (s\<lparr>str_length := str_length s - 1\<rparr>) = butlast (content h s)"
  proof -
    have snoc: "bytes_at m p (Suc k) = bytes_at m p k @ [m (p + k)]" for m p k
      by (simp add: bytes_at_def)
    have "bytes_at ((bytes h)(p + k := 0)) p k = bytes_at (bytes h) p k" for p k
      by (simp add: bytes_at_def)
    then show ?thesis unfolding content_def len snoc by (simp add: h'_def)
  qed
  ultimately show "\<exists>h' s'. chop h s = Some (h', s') \<and> wf_string h' s' \<and> content h' s' = butlast (content h s)"
    by blast
qed

theorem string_queries_witness:
  "bin_eq string_heap buffer_string buffer_string = Some True \<and>
   is_ascii (\<lambda>_. 1) string_heap (set_length buffer_string 4) = Some True \<and>
   (\<exists>h' s'. chop string_heap (set_length buffer_string 4) = Some (h', s') \<and> content h' s' = [10, 11, 12])"
proof -
  have wf: "wf_string string_heap (set_length buffer_string 4)"
    by (simp add: string_heap_def buffer_string_def StringBuffer_def set_length_def String_buffer_def
        wf_string_def area_ok_iff accessible_def)
  have c: "content string_heap (set_length buffer_string 4) = [10, 11, 12, 13]"
    by (simp add: string_heap_def buffer_string_def StringBuffer_def set_length_def String_buffer_def
        content_def bytes_at_def upt_rec)
  have n: "str_length (set_length buffer_string 4) \<noteq> 0 \<and> Alloced_length (set_length buffer_string 4) \<noteq> 0"
    by (simp add: buffer_string_def StringBuffer_def set_length_def String_buffer_def)
  show ?thesis
    using string_queries [OF buffer_string_ok(1) buffer_string_ok(1), of "\<lambda>_. 1"]
      string_queries [OF wf wf, of "\<lambda>_. 1"] n by (simp add: c) blast
qed

end
