(* ===== verification/WindowFuncs.thy ===== *)
theory WindowFuncs
  imports Complex_Main Prelude "HOL-Library.Signed_Division"
begin

text \<open>
  The window functions of \<^verbatim>\<open>item_windowfunc.h\<close> whose computation is in the header: row numbers,
  relative ranks, \<open>NTILE\<close>, the two percentile functions, the tracker of peer groups, and the item that
  wraps a window function and runs through the three phases of its evaluation.  Row counters keep their
  64 bits; values of type \<open>double\<close> are exact real numbers.  The cache items, which hold the value of
  the order expression of a row, are options: \<open>None\<close> is SQL's NULL.
\<close>

section \<open>Row numbers and ranks\<close>

datatype win_error = ER_INVALID_NTILE_ARGUMENT | ER_ARGUMENT_OUT_OF_RANGE | ER_ARGUMENT_NOT_CONSTANT

record Item_sum_row_number =
  rn_count :: uint64

definition rn_clear :: "Item_sum_row_number \<Rightarrow> Item_sum_row_number" where
  "rn_clear s = s\<lparr>rn_count := 0\<rparr>"

definition rn_add :: "Item_sum_row_number \<Rightarrow> bool \<times> Item_sum_row_number" where
  "rn_add s = (False, s\<lparr>rn_count := rn_count s + 1\<rparr>)"

definition rn_val_int :: "Item_sum_row_number \<Rightarrow> uint64" where
  "rn_val_int s = rn_count s"

text \<open>The state the functions that need the size of the partition share.\<close>

record Item_sum_window_with_row_count =
  partition_row_count :: uint64
  null_value :: bool

definition set_row_count :: "uint64 \<Rightarrow> 'a Item_sum_window_with_row_count_scheme \<Rightarrow>
    'a Item_sum_window_with_row_count_scheme" where
  "set_row_count c s = s\<lparr>partition_row_count := c\<rparr>"

definition get_row_count :: "'a Item_sum_window_with_row_count_scheme \<Rightarrow> uint64" where
  "get_row_count s = partition_row_count s"

record Item_sum_percent_rank = Item_sum_window_with_row_count +
  pr_cur_rank :: uint64
  pr_row_number :: uint64

definition pr_clear :: "Item_sum_percent_rank \<Rightarrow> Item_sum_percent_rank" where
  "pr_clear s = s\<lparr>pr_cur_rank := 1, pr_row_number := 0\<rparr>"

definition pr_val_real :: "Item_sum_percent_rank \<Rightarrow> real \<times> Item_sum_percent_rank" where
  "pr_val_real s =
     (let partition_rows = get_row_count s
      in (if partition_rows > 1
          then of_int (sint (pr_cur_rank s - 1)) / of_nat (unat (partition_rows - 1)) else 0,
          s\<lparr>null_value := \<not> partition_rows > 0\<rparr>))"

record Item_sum_cume_dist = Item_sum_window_with_row_count +
  current_row_count :: uint64

definition cd_clear :: "'a Item_sum_cume_dist_scheme \<Rightarrow> 'a Item_sum_cume_dist_scheme" where
  "cd_clear s = set_row_count 0 (s\<lparr>current_row_count := 0\<rparr>)"

definition cd_add :: "'a Item_sum_cume_dist_scheme \<Rightarrow> bool \<times> 'a Item_sum_cume_dist_scheme" where
  "cd_add s = (False, s\<lparr>current_row_count := current_row_count s + 1\<rparr>)"

definition cd_val_real :: "'a Item_sum_cume_dist_scheme \<Rightarrow> real \<times> 'a Item_sum_cume_dist_scheme" where
  "cd_val_real s =
     (if get_row_count s = 0 then (0, s\<lparr>null_value := True\<rparr>)
      else (of_nat (unat (current_row_count s)) / of_nat (unat (get_row_count s)),
            s\<lparr>null_value := False\<rparr>))"

definition get_row_number :: "'a Item_sum_cume_dist_scheme \<Rightarrow> uint64" where
  "get_row_number s = current_row_count s"

section \<open>NTILE\<close>

text \<open>\<open>Item_sum_ntile\<close> has the fields of \<open>Item_sum_cume_dist\<close>.  The value is returned with the error the
  function raised, if any; a division by zero has no result.\<close>

type_synonym Item_sum_ntile = Item_sum_cume_dist

definition nt_val_int :: "uint64 \<Rightarrow> Item_sum_ntile \<Rightarrow> (uint64 \<times> win_error option \<times> Item_sum_ntile) option" where
  "nt_val_int num_quantiles s =
     (if get_row_count s = 0 then Some (0, None, s\<lparr>null_value := True\<rparr>)
      else if sint num_quantiles \<le> 0 then Some (1, Some ER_INVALID_NTILE_ARGUMENT, s)
      else let s' = s\<lparr>null_value := False\<rparr>;
               quantile_size = word_of_int (sint (get_row_count s) sdiv sint num_quantiles);
               extra_rows = get_row_count s - quantile_size * num_quantiles
           in if current_row_count s \<le> extra_rows * (quantile_size + 1)
              then if quantile_size + 1 = 0 then None
                   else Some ((current_row_count s - 1) div (quantile_size + 1) + 1, None, s')
              else if quantile_size = 0 then None
                   else Some ((current_row_count s - 1 - extra_rows) div quantile_size + 1, None, s'))"

section \<open>Percentiles\<close>

record 'v Item_sum_percentile_disc = Item_sum_cume_dist +
  pd_value :: "'v option"
  val_calculated :: bool
  pd_first_call :: bool
  pd_prev_value :: real

definition pd_clear :: "'v Item_sum_percentile_disc \<Rightarrow> 'v Item_sum_percentile_disc" where
  "pd_clear s = cd_clear (s\<lparr>val_calculated := False, pd_first_call := True, pd_value := None\<rparr>)"

text \<open>The value of the argument and of the order item in the current row are parameters; the function
  returns the error it raised.\<close>

definition pd_add :: "real option \<Rightarrow> 'v option \<Rightarrow> 'v Item_sum_percentile_disc \<Rightarrow>
    win_error option \<times> 'v Item_sum_percentile_disc" where
  "pd_add arg order_item s =
     (case arg of None \<Rightarrow> (None, s)
      | Some arg_val \<Rightarrow>
          let s0 = (if pd_first_call s then s\<lparr>pd_prev_value := arg_val\<rparr> else s)
          in if pd_first_call s \<and> (pd_prev_value s0 > 1 \<or> pd_prev_value s0 < 0)
             then (Some ER_ARGUMENT_OUT_OF_RANGE, s0)
             else let s1 = s0\<lparr>pd_first_call := False\<rparr>
             in if pd_prev_value s1 \<noteq> arg_val then (Some ER_ARGUMENT_NOT_CONSTANT, s1)
                else if val_calculated s1 then (None, s1)
                else let s2 = s1\<lparr>pd_value := order_item\<rparr>
                in if pd_value s2 = None then (None, s2)
                   else let s3 = snd (cd_add s2); (val, s4) = cd_val_real s3
                        in (None, if val \<ge> pd_prev_value s4 \<and> \<not> val_calculated s4
                                  then s4\<lparr>val_calculated := True\<rparr> else s4))"

text \<open>\<open>val_real\<close> and its variants for other result types: NULL without rows or argument, else the
  cached value.\<close>

definition pd_val :: "real option \<Rightarrow> 'v Item_sum_percentile_disc \<Rightarrow> 'v option \<times> 'v Item_sum_percentile_disc" where
  "pd_val arg s =
     (if get_row_count s = 0 \<or> arg = None then (None, s\<lparr>null_value := True\<rparr>)
      else (pd_value s, s\<lparr>null_value := False\<rparr>))"

record Item_sum_percentile_cont = Item_sum_cume_dist +
  floor_value :: "real option"
  ceil_value :: "real option"
  pc_first_call :: bool
  pc_prev_value :: real
  ceil_val_calculated :: bool
  floor_val_calculated :: bool

definition pc_clear :: "Item_sum_percentile_cont \<Rightarrow> Item_sum_percentile_cont" where
  "pc_clear s = cd_clear (s\<lparr>pc_first_call := True, floor_value := None, ceil_value := None,
     floor_val_calculated := False, ceil_val_calculated := False\<rparr>)"

text \<open>The row the percentile falls on, counted from 1.\<close>

definition pc_target :: "Item_sum_percentile_cont \<Rightarrow> real" where
  "pc_target s = 1 + pc_prev_value s * of_int (sint (get_row_count s) - 1)"

text \<open>Whether the row counter equals a whole number of type \<open>double\<close>.\<close>

definition row_is :: "'a Item_sum_cume_dist_scheme \<Rightarrow> int \<Rightarrow> bool" where
  "row_is s k \<longleftrightarrow> real (unat (get_row_number s)) = real_of_int k"

definition pc_add :: "real option \<Rightarrow> real option \<Rightarrow> Item_sum_percentile_cont \<Rightarrow>
    win_error option \<times> Item_sum_percentile_cont" where
  "pc_add arg order_item s =
     (case arg of None \<Rightarrow> (None, s)
      | Some arg_val \<Rightarrow>
          let s0 = (if pc_first_call s then s\<lparr>pc_first_call := False, pc_prev_value := arg_val\<rparr> else s)
          in if pc_first_call s \<and> (pc_prev_value s0 > 1 \<or> pc_prev_value s0 < 0)
             then (Some ER_ARGUMENT_OUT_OF_RANGE, s0)
             else if pc_prev_value s0 \<noteq> arg_val then (Some ER_ARGUMENT_NOT_CONSTANT, s0)
             else let s1 = (if \<not> floor_val_calculated s0 then s0\<lparr>floor_value := order_item\<rparr> else s0)
             in if \<not> floor_val_calculated s0 \<and> floor_value s1 = None then (None, s1)
                else let s2 = (if floor_val_calculated s1 \<and> \<not> ceil_val_calculated s1
                               then s1\<lparr>ceil_value := order_item\<rparr> else s1)
                in if floor_val_calculated s1 \<and> \<not> ceil_val_calculated s1 \<and> ceil_value s2 = None
                   then (None, s2)
                   else let s3 = snd (cd_add s2); val = pc_target s3;
                            s4 = (if \<not> floor_val_calculated s3 \<and> row_is s3 (floor val)
                                  then s3\<lparr>floor_val_calculated := True\<rparr> else s3);
                            s5 = (if \<not> ceil_val_calculated s4 \<and> row_is s4 (ceiling val)
                                  then s4\<lparr>ceil_val_calculated := True\<rparr> else s4)
                        in (None, s5))"

text \<open>The value read from a cache item that is NULL is 0.\<close>

definition cache_val_real :: "real option \<Rightarrow> real" where
  "cache_val_real v = (case v of None \<Rightarrow> 0 | Some x \<Rightarrow> x)"

definition pc_val_real :: "real option \<Rightarrow> Item_sum_percentile_cont \<Rightarrow> real \<times> Item_sum_percentile_cont" where
  "pc_val_real arg s =
     (if get_row_count s = 0 \<or> arg = None then (0, s\<lparr>null_value := True\<rparr>)
      else let s' = s\<lparr>null_value := False\<rparr>; val = pc_target s
           in if ceiling val = floor val then (cache_val_real (floor_value s'), s')
              else ((val - of_int (floor val)) * cache_val_real (ceil_value s') +
                    (of_int (ceiling val) - val) * cache_val_real (floor_value s'), s'))"

section \<open>Peer groups\<close>

text \<open>\<open>test_if_group_changed\<close> compares the cached values of the group fields with the current row and
  updates them; it is compiled code and a parameter on the type of the field caches.\<close>

record 'f Group_bound_tracker =
  group_fields :: "'f list"
  first_check :: bool

definition gbt_init :: "'f Group_bound_tracker \<Rightarrow> 'f Group_bound_tracker" where
  "gbt_init t = t\<lparr>first_check := True\<rparr>"

definition gbt_cleanup :: "'f Group_bound_tracker \<Rightarrow> 'f Group_bound_tracker" where
  "gbt_cleanup t = t\<lparr>group_fields := []\<rparr>"

definition check_if_next_group :: "('f list \<Rightarrow> int \<times> 'f list) \<Rightarrow> 'f Group_bound_tracker \<Rightarrow>
    bool \<times> 'f Group_bound_tracker" where
  "check_if_next_group test_if_group_changed t =
     (let (changed, fs) = test_if_group_changed (group_fields t); t1 = t\<lparr>group_fields := fs\<rparr>
      in if changed > -1 \<or> first_check t1 then (True, t1\<lparr>first_check := False\<rparr>) else (False, t1))"

fun compare_with_cache :: "('f \<Rightarrow> int) \<Rightarrow> 'f list \<Rightarrow> int" where
  "compare_with_cache cmp_read_only [] = 0"
| "compare_with_cache cmp_read_only (f # fs) =
     (if cmp_read_only f \<noteq> 0 then cmp_read_only f else compare_with_cache cmp_read_only fs)"

section \<open>The window function item\<close>

datatype Sumfunctype = COUNT_FUNC | COUNT_DISTINCT_FUNC | SUM_FUNC | SUM_DISTINCT_FUNC | AVG_FUNC
  | AVG_DISTINCT_FUNC | MIN_FUNC | MAX_FUNC | STD_FUNC | VARIANCE_FUNC | SUM_BIT_FUNC | UDF_SUM_FUNC
  | GROUP_CONCAT_FUNC | ROW_NUMBER_FUNC | RANK_FUNC | DENSE_RANK_FUNC | PERCENT_RANK_FUNC
  | CUME_DIST_FUNC | NTILE_FUNC | FIRST_VALUE_FUNC | LAST_VALUE_FUNC | NTH_VALUE_FUNC | LEAD_FUNC
  | LAG_FUNC | PERCENTILE_CONT_FUNC | PERCENTILE_DISC_FUNC | SP_AGGREGATE_FUNC

definition is_aggr_sum_func :: "Sumfunctype \<Rightarrow> bool" where
  "is_aggr_sum_func f \<longleftrightarrow> f \<in> {COUNT_FUNC, COUNT_DISTINCT_FUNC, SUM_FUNC, SUM_DISTINCT_FUNC, AVG_FUNC,
     AVG_DISTINCT_FUNC, MIN_FUNC, MAX_FUNC, STD_FUNC, VARIANCE_FUNC, SUM_BIT_FUNC, UDF_SUM_FUNC,
     GROUP_CONCAT_FUNC}"

definition is_frame_prohibited :: "Sumfunctype \<Rightarrow> bool" where
  "is_frame_prohibited f \<longleftrightarrow> f \<in> {ROW_NUMBER_FUNC, RANK_FUNC, DENSE_RANK_FUNC, PERCENT_RANK_FUNC,
     CUME_DIST_FUNC, NTILE_FUNC, PERCENTILE_CONT_FUNC, PERCENTILE_DISC_FUNC}"

definition requires_special_cursors :: "Sumfunctype \<Rightarrow> bool" where
  "requires_special_cursors f \<longleftrightarrow> f \<in> {FIRST_VALUE_FUNC, LAST_VALUE_FUNC, NTH_VALUE_FUNC, LAG_FUNC, LEAD_FUNC}"

definition requires_partition_size :: "Sumfunctype \<Rightarrow> bool" where
  "requires_partition_size f \<longleftrightarrow> f \<in> {PERCENT_RANK_FUNC, CUME_DIST_FUNC, NTILE_FUNC, PERCENTILE_CONT_FUNC,
     PERCENTILE_DISC_FUNC}"

definition requires_peer_size :: "Sumfunctype \<Rightarrow> bool" where
  "requires_peer_size f \<longleftrightarrow> f = CUME_DIST_FUNC"

definition is_order_list_mandatory :: "Sumfunctype \<Rightarrow> bool" where
  "is_order_list_mandatory f \<longleftrightarrow> f \<in> {RANK_FUNC, DENSE_RANK_FUNC, PERCENT_RANK_FUNC, CUME_DIST_FUNC, LAG_FUNC,
     LEAD_FUNC, PERCENTILE_CONT_FUNC, PERCENTILE_DISC_FUNC}"

definition only_single_element_order_list :: "Sumfunctype \<Rightarrow> bool" where
  "only_single_element_order_list f \<longleftrightarrow> f \<in> {PERCENTILE_CONT_FUNC, PERCENTILE_DISC_FUNC}"

record Item_window_func =
  force_return_blank :: bool
  read_value_from_result_field :: bool
  wf_null_value :: bool

definition set_phase_to_initial :: "Item_window_func \<Rightarrow> Item_window_func" where
  "set_phase_to_initial w = w\<lparr>force_return_blank := True, read_value_from_result_field := False\<rparr>"

definition set_phase_to_computation :: "Item_window_func \<Rightarrow> Item_window_func" where
  "set_phase_to_computation w = w\<lparr>force_return_blank := False, read_value_from_result_field := False\<rparr>"

definition set_phase_to_retrieval :: "Item_window_func \<Rightarrow> Item_window_func" where
  "set_phase_to_retrieval w = w\<lparr>force_return_blank := False, read_value_from_result_field := True\<rparr>"

text \<open>The values of the result field and of the window function, each with its NULL flag, are
  parameters.\<close>

definition wf_is_null :: "Item_window_func \<Rightarrow> bool \<Rightarrow> bool \<Rightarrow> bool" where
  "wf_is_null w field_null func_null =
     (if force_return_blank w then True
      else if read_value_from_result_field w then field_null else func_null)"

definition wf_val_real :: "Item_window_func \<Rightarrow> real \<times> bool \<Rightarrow> real \<times> bool \<Rightarrow> real \<times> Item_window_func" where
  "wf_val_real w field func =
     (if force_return_blank w then (0, w\<lparr>wf_null_value := True\<rparr>)
      else if read_value_from_result_field w then (fst field, w\<lparr>wf_null_value := snd field\<rparr>)
      else (fst func, w\<lparr>wf_null_value := snd func\<rparr>))"

definition wf_val_int :: "Item_window_func \<Rightarrow> uint64 \<times> bool \<Rightarrow> uint64 \<times> bool \<Rightarrow> uint64 \<times> Item_window_func" where
  "wf_val_int w field func =
     (if force_return_blank w then (0, w\<lparr>wf_null_value := True\<rparr>)
      else if read_value_from_result_field w then (fst field, w\<lparr>wf_null_value := snd field\<rparr>)
      else (fst func, w\<lparr>wf_null_value := snd func\<rparr>))"

text \<open>\<open>val_str\<close>, \<open>val_decimal\<close> and \<open>get_date\<close> do not read a result field that is NULL; \<open>none\<close> is the
  value they return then (a null pointer, or true for \<open>get_date\<close>).\<close>

definition wf_val_object :: "'r \<Rightarrow> Item_window_func \<Rightarrow> 'r \<times> bool \<Rightarrow> 'r \<times> bool \<Rightarrow> 'r \<times> Item_window_func" where
  "wf_val_object none w field func =
     (if force_return_blank w then (none, w\<lparr>wf_null_value := True\<rparr>)
      else if read_value_from_result_field w
      then (if snd field then none else fst field, w\<lparr>wf_null_value := snd field\<rparr>)
      else (fst func, w\<lparr>wf_null_value := snd func\<rparr>))"

section \<open>Distribution of rows over tiles\<close>

text \<open>The number of the tile of row \<open>i\<close> of \<open>n\<close>, over natural numbers.\<close>

definition tile :: "nat \<Rightarrow> nat \<Rightarrow> nat \<Rightarrow> nat" where
  "tile q n i = (if i \<le> n mod q * (n div q + 1) then (i - 1) div (n div q + 1) + 1
                 else (i - 1 - n mod q) div (n div q) + 1)"

lemma sint_of_nat64: "n < 2 ^ 63 \<Longrightarrow> sint (of_nat n :: uint64) = int n"
  by (simp add: signed_of_nat signed_take_bit_int_eq_self)

lemma unat_of_nat64: "n < 2 ^ 64 \<Longrightarrow> unat (of_nat n :: uint64) = n"
  by (simp add: unat_of_nat)

lemma first_tiles_le: "0 < q \<Longrightarrow> n mod q * (n div q + 1) \<le> (n :: nat)"
proof -
  assume "0 < q"
  have "n mod q * (n div q + 1) = n mod q * (n div q) + n mod q" by simp
  also have "\<dots> \<le> q * (n div q) + n mod q"
    using \<open>0 < q\<close> by (intro add_le_mono1 mult_le_mono1) (simp add: less_imp_le)
  also have "\<dots> = n" by (rule mult_div_mod_eq)
  finally show ?thesis .
qed

lemma of_nat64_minus: "i \<le> n \<Longrightarrow> (of_nat n :: uint64) - of_nat i = of_nat (n - i)"
  by (simp add: of_nat_diff)

lemma of_nat64_div: "n < 2 ^ 64 \<Longrightarrow> m < 2 ^ 64 \<Longrightarrow> (of_nat n :: uint64) div of_nat m = of_nat (n div m)"
  by (rule word_eq_unatI) (simp add: unat_div unat_of_nat64 le_less_trans [OF div_le_dividend])

lemma of_nat64_le: "n < 2 ^ 64 \<Longrightarrow> m < 2 ^ 64 \<Longrightarrow> (of_nat n :: uint64) \<le> of_nat m \<longleftrightarrow> n \<le> m"
  by (simp add: word_le_nat_alt unat_of_nat64)

lemma of_nat64_eq_0: "n < 2 ^ 64 \<Longrightarrow> (of_nat n :: uint64) = 0 \<longleftrightarrow> n = 0"
  using unat_of_nat64 [of n] unat_eq_0 [of "of_nat n :: uint64"] by metis

lemma map_div_blocks: "0 < s \<Longrightarrow> map (\<lambda>k. k div s) [0 ..< m * s] = concat (map (replicate s) [0 ..< m])"
proof (induction m)
  case (Suc m)
  have "map (\<lambda>k. k div s) [m * s ..< m * s + s] = replicate s m"
    by (rule nth_equalityI) (use Suc.prems in auto)
  moreover have "[0 ..< Suc m * s] = [0 ..< m * s] @ [m * s ..< m * s + s]"
    using upt_add_eq_append [of 0 "m * s" s] by (simp add: add.commute)
  ultimately show ?case using Suc by simp
qed simp

lemma nt_val_int_tile:
  assumes i: "0 < i" "i \<le> n" and n: "n < 2 ^ 63" and q: "0 < q" "q < 2 ^ 63"
    and s: "get_row_count s = of_nat n" "current_row_count s = of_nat i"
  shows "nt_val_int (of_nat q) s = Some (of_nat (tile q n i), None, s\<lparr>null_value := False\<rparr>)"
proof -
  define z e where "z = n div q" and "e = n mod q"
  have ez: "e * (z + 1) \<le> n" unfolding e_def z_def by (rule first_tiles_le [OF q(1)])
  have zn: "z \<le> n" by (simp add: z_def)
  have lt: "n < 2 ^ 64" "q < 2 ^ 64" "z < 2 ^ 64" "z + 1 < 2 ^ 64" "i < 2 ^ 64" "e * (z + 1) < 2 ^ 64"
    using n q i ez zn by simp_all
  have rc: "(of_nat n :: uint64) \<noteq> 0" using i lt of_nat64_eq_0 [of n] by simp
  have size: "word_of_int (sint (of_nat n :: uint64) sdiv sint (of_nat q :: uint64)) = (of_nat z :: uint64)"
    using n q by (simp add: sint_of_nat64 signed_divide_int_def z_def sgn_if flip: zdiv_int)
  have "(of_nat n :: uint64) - of_nat z * of_nat q = of_nat (n - z * q)"
    by (simp add: z_def of_nat_diff)
  then have extra: "(of_nat n :: uint64) - of_nat z * of_nat q = of_nat e"
    by (simp add: z_def e_def minus_div_mult_eq_mod)
  have suc: "of_nat z + 1 = (of_nat (z + 1) :: uint64)" by simp
  have pred: "(of_nat i :: uint64) - 1 = of_nat (i - 1)" using i of_nat64_minus [of 1 i] by simp
  show ?thesis
  proof (cases "i \<le> e * (z + 1)")
    case True
    then have "(of_nat i :: uint64) \<le> of_nat e * of_nat (z + 1)"
      using True by (simp only: of_nat_mult [symmetric] of_nat64_le [OF lt(5,6)])
    then show ?thesis using True rc q lt of_nat64_eq_0 [OF lt(4)] of_nat64_div [of "i - 1" "z + 1"]
      unfolding nt_val_int_def s Let_def size extra suc pred
      by (simp add: tile_def sint_of_nat64 flip: z_def e_def)
  next
    case False
    have z: "z \<noteq> 0"
    proof
      assume "z = 0"
      then have "e = n" using mult_div_mod_eq [of q n] by (simp add: z_def e_def)
      then show False using False i \<open>z = 0\<close> by simp
    qed
    have "e \<le> i - 1" using False by (cases e) auto
    then have dv: "((of_nat (i - 1) :: uint64) - of_nat e) div of_nat z = of_nat ((i - 1 - e) div z)"
      using lt by (simp only: of_nat64_minus) (rule of_nat64_div, simp_all)
    have "\<not> (of_nat i :: uint64) \<le> of_nat e * of_nat (z + 1)"
      using False by (simp only: of_nat_mult [symmetric] of_nat64_le [OF lt(5,6)] not_False_eq_True)
    then show ?thesis
      using False rc q lt z of_nat64_eq_0 [OF lt(3)]
      unfolding nt_val_int_def s Let_def size extra suc pred dv
      by (simp add: tile_def sint_of_nat64 flip: z_def e_def)
  qed
qed

lemma concat_replicate_shift:
  "concat (map (\<lambda>b. replicate z (f b)) xs) = map f (concat (map (replicate z) xs))"
  by (induction xs) auto

lemma tiles_of_rows:
  assumes q: "0 < q"
  shows "map (tile q n) [1 ..< Suc n] =
    concat (map (\<lambda>b. replicate (n div q + (if b \<le> n mod q then 1 else 0)) b) [1 ..< Suc q])"
proof -
  define z e where "z = n div q" and "e = n mod q"
  have eq: "e < q" and n: "n = e * (z + 1) + (q - e) * z"
  proof -
    show "e < q" using q by (simp add: e_def)
    then have "e * (z + 1) + (q - e) * z = q * z + e" by (simp add: diff_mult_distrib algebra_simps)
    then show "n = e * (z + 1) + (q - e) * z" by (simp add: z_def e_def)
  qed
  have "map (tile q n) [1 ..< Suc n] = map (\<lambda>k. tile q n (Suc k)) [0 ..< n]"
    by (simp add: map_Suc_upt [symmetric] comp_def del: upt_Suc)
  also have "[0 ..< n] = [0 ..< e * (z + 1)] @ map (\<lambda>j. j + e * (z + 1)) [0 ..< (q - e) * z]"
    unfolding map_add_upt by (subst n) (metis add.commute upt_add_eq_append zero_le)
  also have "map (\<lambda>k. tile q n (Suc k)) \<dots> =
      map Suc (map (\<lambda>k. k div (z + 1)) [0 ..< e * (z + 1)]) @
      map (\<lambda>j. Suc (e + j)) (map (\<lambda>j. j div z) [0 ..< (q - e) * z])"
  proof -
    have "tile q n (Suc k) = Suc (k div (z + 1))" if "k < e * (z + 1)" for k
      using that by (simp add: tile_def flip: z_def e_def)
    moreover have "tile q n (Suc (j + e * (z + 1))) = Suc (e + j div z)" if "j < (q - e) * z" for j
    proof -
      have "0 < z" using that by (cases z) auto
      have "(j + e * (z + 1) - e) div z = e + j div z" using \<open>0 < z\<close> by (simp add: algebra_simps)
      then show ?thesis by (simp add: tile_def flip: z_def e_def)
    qed
    ultimately show ?thesis by simp
  qed
  also have "map (\<lambda>k. k div (z + 1)) [0 ..< e * (z + 1)] = concat (map (replicate (z + 1)) [0 ..< e])"
    by (rule map_div_blocks) simp
  also have "map (\<lambda>j. j div z) [0 ..< (q - e) * z] = concat (map (replicate z) [0 ..< q - e])"
    by (cases "z = 0") (simp_all add: map_div_blocks map_replicate_const)
  also have "map Suc (concat (map (replicate (z + 1)) [0 ..< e])) @
        map (\<lambda>j. Suc (e + j)) (concat (map (replicate z) [0 ..< q - e])) =
      concat (map (\<lambda>b. replicate (z + (if b \<le> e then 1 else 0)) b) [1 ..< Suc q])"
  proof -
    have 1: "[1 ..< Suc q] = map Suc [0 ..< e] @ map (\<lambda>j. Suc (e + j)) [0 ..< q - e]"
    proof -
      have "[1 ..< Suc q] = map Suc [0 ..< q]" by (simp only: map_Suc_upt One_nat_def)
      also have "[0 ..< q] = [0 ..< e] @ map (\<lambda>j. e + j) [0 ..< q - e]"
        using eq upt_add_eq_append [of 0 e "q - e"] map_add_upt [of e "q - e"] by (simp add: add.commute)
      finally show ?thesis by simp
    qed
    have a: "map (\<lambda>b. replicate (z + (if b \<le> e then 1 else 0)) b) (map Suc [0 ..< e]) =
        map (\<lambda>b. replicate (z + 1) (Suc b)) [0 ..< e]" by simp
    have b: "map (\<lambda>b. replicate (z + (if b \<le> e then 1 else 0)) b) (map (\<lambda>j. Suc (e + j)) [0 ..< q - e]) =
        map (\<lambda>j. replicate z (Suc (e + j))) [0 ..< q - e]" by simp
    show ?thesis
      unfolding 1 map_append concat_append concat_replicate_shift [symmetric] a b ..
  qed
  finally show ?thesis by (simp add: z_def e_def)
qed

text \<open>The values of \<open>n\<close> rows, added one after the other.\<close>

fun nt_rows :: "uint64 \<Rightarrow> Item_sum_ntile \<Rightarrow> nat \<Rightarrow> uint64 option list" where
  "nt_rows num_quantiles s 0 = []"
| "nt_rows num_quantiles s (Suc k) =
     (case nt_val_int num_quantiles (snd (cd_add s)) of
        None \<Rightarrow> [None]
      | Some (v, _, s1) \<Rightarrow> Some v # nt_rows num_quantiles s1 k)"

lemma nt_rows_tiles:
  assumes "i + k \<le> n" "n < 2 ^ 63" "0 < q" "q < 2 ^ 63"
    and "get_row_count s = of_nat n" "current_row_count s = of_nat i"
  shows "nt_rows (of_nat q) s k = map (\<lambda>j. Some (of_nat (tile q n j))) [Suc i ..< Suc i + k]"
  using assms
proof (induction k arbitrary: i s)
  case (Suc k)
  let ?s = "snd (cd_add s)"
  have "nt_val_int (of_nat q) ?s = Some (of_nat (tile q n (Suc i)), None, ?s\<lparr>null_value := False\<rparr>)"
    by (rule nt_val_int_tile) (use Suc.prems in \<open>simp_all add: cd_add_def get_row_count_def\<close>)
  moreover have "nt_rows (of_nat q) (?s\<lparr>null_value := False\<rparr>) k =
      map (\<lambda>j. Some (of_nat (tile q n j))) [Suc (Suc i) ..< Suc (Suc i) + k]"
    by (rule Suc.IH) (use Suc.prems in \<open>simp_all add: cd_add_def get_row_count_def\<close>)
  ultimately show ?case by (simp add: upt_conv_Cons del: upt_Suc)
qed simp

text \<open>
  \<open>NTILE(q)\<close> over a partition of \<open>n\<close> rows numbers the tiles 1 to \<open>q\<close> in the order of the rows; the first
  \<open>n mod q\<close> tiles have \<open>n div q + 1\<close> rows and the others \<open>n div q\<close>, so that the sizes differ by at most
  one.  No row divides by zero.
\<close>

theorem ntile_distribution:
  assumes "n < 2 ^ 63" "0 < q" "q < 2 ^ 63"
  shows "nt_rows (of_nat q) (set_row_count (of_nat n) (cd_clear s)) n =
    map (\<lambda>b. Some (of_nat b))
      (concat (map (\<lambda>b. replicate (n div q + (if b \<le> n mod q then 1 else 0)) b) [1 ..< Suc q]))"
proof -
  have "nt_rows (of_nat q) (set_row_count (of_nat n) (cd_clear s)) n =
      map (\<lambda>j. Some (of_nat (tile q n j))) [1 ..< Suc n]"
    using nt_rows_tiles [of 0 n n q "set_row_count (of_nat n) (cd_clear s)"] assms
    by (simp add: cd_clear_def set_row_count_def get_row_count_def)
  also have "\<dots> = map (\<lambda>b. Some (of_nat b)) (map (tile q n) [1 ..< Suc n])" by simp
  finally show ?thesis unfolding tiles_of_rows [OF assms(2)] .
qed

theorem ntile_distribution_witness:
  "nt_rows (of_nat 3) (set_row_count (of_nat 7) (cd_clear \<lparr>partition_row_count = 9, null_value = True, current_row_count = 4\<rparr>)) 7 =
   map (\<lambda>b. Some (of_nat b)) [1, 1, 1, 2, 2, 3, 3]"
proof -
  have "concat (map (\<lambda>b. replicate (7 div 3 + (if b \<le> 7 mod 3 then 1 else 0)) b) [1 ..< Suc 3]) =
      [1, 1, 1, 2, 2, 3, 3 :: nat]" by code_simp
  then show ?thesis using ntile_distribution [of 7 3] by simp
qed

section \<open>Percentiles of a partition\<close>

fun pd_run :: "real \<Rightarrow> 'v list \<Rightarrow> 'v Item_sum_percentile_disc \<Rightarrow> win_error option \<times> 'v Item_sum_percentile_disc" where
  "pd_run p [] s = (None, s)"
| "pd_run p (v # vs) s =
     (case pd_add (Some p) (Some v) s of (None, s1) \<Rightarrow> pd_run p vs s1 | (Some e, s1) \<Rightarrow> (Some e, s1))"

lemma pd_run_snoc:
  "pd_run p (vs @ [v]) s =
     (case pd_run p vs s of (None, s1) \<Rightarrow> pd_add (Some p) (Some v) s1 | (Some e, s1) \<Rightarrow> (Some e, s1))"
  by (induction vs arbitrary: s) (auto split: prod.splits option.splits)

text \<open>The row that holds the percentile: the first whose share of the partition is at least \<open>p\<close>.\<close>

definition disc_row :: "real \<Rightarrow> nat \<Rightarrow> nat" where
  "disc_row p n = max 1 (nat \<lceil>p * of_nat n\<rceil>)"

lemma disc_row_iff: "0 < j \<Longrightarrow> 0 < n \<Longrightarrow> p \<le> of_nat j / of_nat n \<longleftrightarrow> disc_row p n \<le> j"
proof -
  assume "0 < j" "0 < n"
  then have "p \<le> of_nat j / of_nat n \<longleftrightarrow> p * of_nat n \<le> of_nat j" by (simp add: pos_le_divide_eq)
  also have "\<dots> \<longleftrightarrow> \<lceil>p * of_nat n\<rceil> \<le> int j" by (simp add: ceiling_le_iff)
  also have "\<dots> \<longleftrightarrow> disc_row p n \<le> j" using \<open>0 < j\<close> unfolding disc_row_def max.bounded_iff nat_le_iff by simp
  finally show ?thesis .
qed

lemma disc_row_pos: "0 < disc_row p n"
  by (simp add: disc_row_def)

lemma disc_row_le: "0 < n \<Longrightarrow> p \<le> 1 \<Longrightarrow> disc_row p n \<le> n"
  using disc_row_iff [of n n p] by simp

definition pd_at :: "real \<Rightarrow> nat \<Rightarrow> 'v list \<Rightarrow> 'v Item_sum_percentile_disc \<Rightarrow> bool" where
  "pd_at p n vs s \<longleftrightarrow> get_row_count s = of_nat n \<and>
     (if vs = [] then pd_first_call s else \<not> pd_first_call s \<and> pd_prev_value s = p) \<and>
     val_calculated s = (disc_row p n \<le> length vs) \<and>
     current_row_count s = of_nat (min (length vs) (disc_row p n)) \<and>
     (vs \<noteq> [] \<longrightarrow> pd_value s = Some (vs ! (min (length vs) (disc_row p n) - 1)))"

lemma pd_add_at:
  assumes at: "pd_at p n vs s" and n: "n < 2 ^ 64" "length vs < n" and p: "0 \<le> p" "p \<le> 1"
  shows "fst (pd_add (Some p) (Some v) s) = None \<and> pd_at p n (vs @ [v]) (snd (pd_add (Some p) (Some v) s))"
proof (cases "disc_row p n \<le> length vs")
  case True
  then have "vs \<noteq> []" "disc_row p n - Suc 0 < length vs" using disc_row_pos [of p n] by auto
  then show ?thesis using at True p
    by (simp add: pd_at_def pd_add_def Let_def nth_append min_absorb2 get_row_count_def)
next
  case False
  have rc: "(of_nat n :: uint64) \<noteq> 0" "unat (of_nat n :: uint64) = n"
    using n of_nat64_eq_0 [of n] by (simp_all add: unat_of_nat64)
  have cnt: "unat (of_nat (length vs) + 1 :: uint64) = Suc (length vs)"
    using n unat_of_nat64 [of "Suc (length vs)"] by (simp add: add.commute)
  have calc: "p \<le> (1 + of_nat (length vs)) / of_nat n \<longleftrightarrow> disc_row p n \<le> Suc (length vs)"
    using disc_row_iff [of "Suc (length vs)" n p] n by simp
  show ?thesis using at False p n
    by (auto simp: pd_at_def pd_add_def Let_def cd_add_def cd_val_real_def get_row_count_def rc cnt calc
        nth_append min_def split: if_splits)
qed

lemma pd_run_at:
  assumes n: "n < 2 ^ 64" "length vs \<le> n" and p: "0 \<le> p" "p \<le> 1" and s: "pd_at p n [] s"
  shows "fst (pd_run p vs s) = None \<and> pd_at p n vs (snd (pd_run p vs s))"
  using n(2)
proof (induction vs rule: rev_induct)
  case Nil
  then show ?case using s by simp
next
  case (snoc v vs)
  then have "fst (pd_run p vs s) = None" "pd_at p n vs (snd (pd_run p vs s))" by auto
  then show ?case using pd_add_at [OF _ n(1) _ p, of vs "snd (pd_run p vs s)" v] snoc.prems
    by (simp add: pd_run_snoc split_beta split: option.splits)
qed

text \<open>The two neighbouring rows of the percentile, counted from 1.\<close>

definition cont_row :: "real \<Rightarrow> nat \<Rightarrow> real" where
  "cont_row p n = 1 + p * (of_nat n - 1)"

definition floor_row :: "real \<Rightarrow> nat \<Rightarrow> nat" where
  "floor_row p n = nat \<lfloor>cont_row p n\<rfloor>"

definition ceil_row :: "real \<Rightarrow> nat \<Rightarrow> nat" where
  "ceil_row p n = nat \<lceil>cont_row p n\<rceil>"

lemma cont_row_bounds: "0 \<le> p \<Longrightarrow> p \<le> 1 \<Longrightarrow> 0 < n \<Longrightarrow> 1 \<le> cont_row p n \<and> cont_row p n \<le> of_nat n"
proof -
  assume a: "0 \<le> p" "p \<le> 1" "0 < n"
  then have "p * (of_nat n - 1) \<le> 1 * (of_nat n - 1)" by (intro mult_right_mono) auto
  moreover have "0 \<le> p * (of_nat n - 1)" using a by (intro mult_nonneg_nonneg) auto
  ultimately show ?thesis by (simp add: cont_row_def)
qed

lemma rows_bounds:
  assumes "0 \<le> p" "p \<le> 1" "0 < n"
  shows "1 \<le> floor_row p n" "floor_row p n \<le> ceil_row p n" "ceil_row p n \<le> Suc (floor_row p n)"
    "ceil_row p n \<le> n"
    "real (floor_row p n) = of_int \<lfloor>cont_row p n\<rfloor>" "real (ceil_row p n) = of_int \<lceil>cont_row p n\<rceil>"
proof -
  note b = cont_row_bounds [OF assms]
  have f: "1 \<le> \<lfloor>cont_row p n\<rfloor>" and c: "\<lceil>cont_row p n\<rceil> \<le> int n" using b by (simp_all add: le_floor_iff ceiling_le_iff)
  have fc: "\<lfloor>cont_row p n\<rfloor> \<le> \<lceil>cont_row p n\<rceil>" "\<lceil>cont_row p n\<rceil> \<le> \<lfloor>cont_row p n\<rfloor> + 1"
    by (rule floor_le_ceiling) linarith
  show "1 \<le> floor_row p n" "floor_row p n \<le> ceil_row p n" "ceil_row p n \<le> Suc (floor_row p n)"
    "ceil_row p n \<le> n"
    using f c fc unfolding floor_row_def ceil_row_def by linarith+
  show "real (floor_row p n) = of_int \<lfloor>cont_row p n\<rfloor>" "real (ceil_row p n) = of_int \<lceil>cont_row p n\<rceil>"
    using f fc by (simp_all add: floor_row_def ceil_row_def)
qed

fun pc_run :: "real \<Rightarrow> real list \<Rightarrow> Item_sum_percentile_cont \<Rightarrow> win_error option \<times> Item_sum_percentile_cont" where
  "pc_run p [] s = (None, s)"
| "pc_run p (v # vs) s =
     (case pc_add (Some p) (Some v) s of (None, s1) \<Rightarrow> pc_run p vs s1 | (Some e, s1) \<Rightarrow> (Some e, s1))"

lemma pc_run_snoc:
  "pc_run p (vs @ [v]) s =
     (case pc_run p vs s of (None, s1) \<Rightarrow> pc_add (Some p) (Some v) s1 | (Some e, s1) \<Rightarrow> (Some e, s1))"
  by (induction vs arbitrary: s) (auto split: prod.splits option.splits)

definition pc_at :: "real \<Rightarrow> nat \<Rightarrow> real list \<Rightarrow> Item_sum_percentile_cont \<Rightarrow> bool" where
  "pc_at p n vs s \<longleftrightarrow> get_row_count s = of_nat n \<and> current_row_count s = of_nat (length vs) \<and>
     (if vs = [] then pc_first_call s else \<not> pc_first_call s \<and> pc_prev_value s = p) \<and>
     floor_val_calculated s = (floor_row p n \<le> length vs) \<and>
     ceil_val_calculated s = (ceil_row p n \<le> length vs) \<and>
     (vs \<noteq> [] \<longrightarrow> floor_value s = Some (vs ! (min (length vs) (floor_row p n) - 1))) \<and>
     (floor_row p n < ceil_row p n \<and> ceil_row p n \<le> length vs \<longrightarrow>
        ceil_value s = Some (vs ! (ceil_row p n - 1)))"

lemma pc_target_row: "n < 2 ^ 63 \<Longrightarrow> get_row_count s = of_nat n \<Longrightarrow> pc_target s = cont_row (pc_prev_value s) n"
  unfolding pc_target_def cont_row_def by (simp only: sint_of_nat64) simp

lemma row_is_iff: "row_is s k \<longleftrightarrow> int (unat (current_row_count s)) = k"
  unfolding row_is_def get_row_number_def by linarith

lemma pc_add_at:
  assumes at: "pc_at p n vs s" and n: "n < 2 ^ 63" "length vs < n" and p: "0 \<le> p" "p \<le> 1"
  shows "fst (pc_add (Some p) (Some v) s) = None \<and> pc_at p n (vs @ [v]) (snd (pc_add (Some p) (Some v) s))"
proof -
  have n0: "0 < n" using n by simp
  note R = rows_bounds [OF p n0]
  define F C L where "F = floor_row p n" and "C = ceil_row p n" and "L = length vs"
  have cnt: "unat (of_nat L + 1 :: uint64) = Suc L"
    using n unat_of_nat64 [of "Suc L"] by (simp add: add.commute L_def)
  have target: "pc_target t = cont_row p n" if "get_row_count t = of_nat n" "pc_prev_value t = p" for t
    using pc_target_row [OF n(1) that(1)] that(2) by simp
  have fl: "row_is t \<lfloor>cont_row p n\<rfloor> \<longleftrightarrow> F = Suc L" if "current_row_count t = of_nat L + 1" for t :: "'a Item_sum_cume_dist_scheme"
    using R(1,5) unfolding row_is_iff that cnt F_def floor_row_def by linarith
  have ce: "row_is t \<lceil>cont_row p n\<rceil> \<longleftrightarrow> C = Suc L" if "current_row_count t = of_nat L + 1" for t :: "'a Item_sum_cume_dist_scheme"
    using R(1,2,6) unfolding row_is_iff that cnt C_def ceil_row_def by linarith
  have s0: "(if pc_first_call s then s\<lparr>pc_first_call := False, pc_prev_value := p\<rparr> else s) =
      s\<lparr>pc_first_call := False, pc_prev_value := p\<rparr>"
    using at by (auto simp: pc_at_def split: if_splits)
  note step = pc_add_def s0 Let_def cd_add_def get_row_count_def target fl ce
  note flags = at [unfolded pc_at_def get_row_count_def, folded F_def C_def L_def]
  have nth: "(vs @ [v]) ! i = (if i < L then vs ! i else if i = L then v else [] ! (i - Suc L))" for i
    by (auto simp: nth_append L_def)
  consider "L < F" | "F \<le> L" "L < C" | "C \<le> L" by linarith
  then show ?thesis
  proof cases
    case 1
    then show ?thesis using flags p R(1-3) [folded F_def C_def]
      by (simp add: step pc_at_def nth min_def flip: F_def C_def L_def)
  next
    case 2
    then have "F = L" "C = Suc L" using R(3) [folded F_def C_def] by auto
    then show ?thesis using flags p R(1) [folded F_def]
      by (simp add: step pc_at_def nth min_def flip: F_def C_def L_def) (auto simp: L_def)
  next
    case 3
    then have "vs \<noteq> []" "F \<le> L" "F - Suc 0 < L" "C - Suc 0 < L" "\<not> F > Suc L"
      using R(1-3) [folded F_def C_def] by (auto simp: L_def)
    then show ?thesis using 3 flags p
      by (simp add: step pc_at_def nth min_absorb2 flip: F_def C_def L_def)
  qed
qed


lemma pc_run_at:
  assumes n: "n < 2 ^ 63" "length vs \<le> n" and p: "0 \<le> p" "p \<le> 1" and s: "pc_at p n [] s"
  shows "fst (pc_run p vs s) = None \<and> pc_at p n vs (snd (pc_run p vs s))"
  using n(2)
proof (induction vs rule: rev_induct)
  case Nil
  then show ?case using s by simp
next
  case (snoc v vs)
  then have "fst (pc_run p vs s) = None" "pc_at p n vs (snd (pc_run p vs s))" by auto
  then show ?case using pc_add_at [OF _ n(1) _ p, of vs "snd (pc_run p vs s)" v] snoc.prems
    by (simp add: pc_run_snoc split_beta split: option.splits)
qed

text \<open>Linear interpolation at position \<open>x\<close>, counted from 0.\<close>

definition interpolate :: "real list \<Rightarrow> real \<Rightarrow> real" where
  "interpolate vs x =
     (if \<lceil>x\<rceil> = \<lfloor>x\<rfloor> then vs ! nat \<lfloor>x\<rfloor>
      else (x - of_int \<lfloor>x\<rfloor>) * vs ! nat \<lceil>x\<rceil> + (of_int \<lceil>x\<rceil> - x) * vs ! nat \<lfloor>x\<rfloor>)"

lemma pd_start: "0 < n \<Longrightarrow> pd_at p n [] (set_row_count (of_nat n) (pd_clear s))"
  using disc_row_pos [of p n]
  by (simp add: pd_at_def pd_clear_def cd_clear_def set_row_count_def get_row_count_def)

lemma pc_start: "0 \<le> p \<Longrightarrow> p \<le> 1 \<Longrightarrow> 0 < n \<Longrightarrow> pc_at p n [] (set_row_count (of_nat n) (pc_clear s))"
  using rows_bounds [of p n]
  by (simp add: pc_at_def pc_clear_def cd_clear_def set_row_count_def get_row_count_def)

lemma pc_val_interpolates:
  assumes p: "0 \<le> p" "p \<le> 1" and vs: "vs \<noteq> []" "length vs < 2 ^ 63" and at: "pc_at p (length vs) vs s"
  shows "fst (pc_val_real (Some p) s) = interpolate vs (p * of_nat (length vs - 1))"
proof -
  define n x where "n = length vs" and "x = p * of_nat (length vs - 1)"
  have n0: "0 < n" using vs by (simp add: n_def)
  note R = rows_bounds [OF p n0]
  have row: "cont_row p n = 1 + x" using n0 by (simp add: cont_row_def x_def n_def of_nat_diff Suc_le_eq)
  have idx: "floor_row p n - 1 = nat \<lfloor>x\<rfloor>" "ceil_row p n - 1 = nat \<lceil>x\<rceil>"
    unfolding floor_row_def ceil_row_def row by linarith+
  have prev: "pc_prev_value s = p" "get_row_count s = of_nat n" using at vs by (simp_all add: pc_at_def n_def)
  have t: "pc_target s = 1 + x" using pc_target_row [OF _ prev(2)] prev(1) vs row by (simp add: n_def)
  have rc: "get_row_count s \<noteq> 0" using of_nat64_eq_0 [of n] n0 vs prev(2) by (simp add: n_def)
  have fv: "floor_value s = Some (vs ! nat \<lfloor>x\<rfloor>)"
    using at vs R(2,4) idx by (simp add: pc_at_def min_absorb2 flip: n_def)
  have cv: "ceil_value s = Some (vs ! nat \<lceil>x\<rceil>)" if "\<lceil>x\<rceil> \<noteq> \<lfloor>x\<rfloor>"
  proof -
    have "floor_row p n < ceil_row p n"
    proof -
      have "\<lfloor>1 + x\<rfloor> = 1 + \<lfloor>x\<rfloor>" "\<lceil>1 + x\<rceil> = 1 + \<lceil>x\<rceil>" "\<lfloor>x\<rfloor> < \<lceil>x\<rceil>"
        using that floor_le_ceiling [of x] by linarith+
      then show ?thesis using R(1) unfolding floor_row_def ceil_row_def row by linarith
    qed
    then show ?thesis using at R(4) idx by (simp add: pc_at_def flip: n_def)
  qed
  have "\<lceil>1 + x\<rceil> = 1 + \<lceil>x\<rceil>" by linarith
  then show ?thesis
    using rc fv cv unfolding pc_val_real_def t Let_def interpolate_def x_def [symmetric]
    by (auto simp: cache_val_real_def)
qed

text \<open>
  C15: Over a partition without NULLs, with the size of the partition set and a constant argument \<open>p\<close> between
  0 and 1, \<open>PERCENTILE_DISC\<close> raises no error and returns the value of the first row whose
  share of the partition is at least \<open>p\<close>, and \<open>PERCENTILE_CONT\<close> the linear interpolation between the
  two rows around the position \<open>p * (n - 1)\<close>.
\<close>

theorem percentiles_correct:
  assumes "0 \<le> p" "p \<le> 1" "vs \<noteq> []" "length vs < 2 ^ 63"
  shows "(case pd_run p vs (set_row_count (of_nat (length vs)) (pd_clear s)) of
      (err, s1) \<Rightarrow> err = None \<and> fst (pd_val (Some p) s1) = Some (vs ! (disc_row p (length vs) - 1))) \<and>
    (case pc_run p vs (set_row_count (of_nat (length vs)) (pc_clear t)) of
      (err, t1) \<Rightarrow> err = None \<and> fst (pc_val_real (Some p) t1) = interpolate vs (p * of_nat (length vs - 1)))"
proof -
  have n: "0 < length vs" "length vs < 2 ^ 64" using assms(3,4) by simp_all
  note D = pd_run_at [OF n(2) order_refl assms(1,2) pd_start [OF n(1)], of s]
  note C = pc_run_at [OF assms(4) order_refl assms(1,2) pc_start [OF assms(1,2) n(1)], of t]
  have "(of_nat (length vs) :: uint64) \<noteq> 0" using of_nat64_eq_0 [OF n(2)] n by simp
  then have "fst (pd_val (Some p) (snd (pd_run p vs (set_row_count (of_nat (length vs)) (pd_clear s))))) =
      Some (vs ! (disc_row p (length vs) - 1))"
    using D assms(3) disc_row_le [OF n(1) assms(2)] by (simp add: pd_at_def pd_val_def min_absorb2)
  moreover note pc_val_interpolates [OF assms C [THEN conjunct2]]
  ultimately show ?thesis using D C by (simp add: split_beta)
qed

definition sample_disc :: "real Item_sum_percentile_disc" where
  "sample_disc = \<lparr>partition_row_count = 0, null_value = False, current_row_count = 0, pd_value = None,
     val_calculated = True, pd_first_call = False, pd_prev_value = 0\<rparr>"

definition sample_cont :: Item_sum_percentile_cont where
  "sample_cont = \<lparr>partition_row_count = 0, null_value = False, current_row_count = 0, floor_value = None,
     ceil_value = None, pc_first_call = False, pc_prev_value = 0, ceil_val_calculated = True,
     floor_val_calculated = True\<rparr>"

theorem percentiles_correct_witness:
  "fst (pd_val (Some (1/2)) (snd (pd_run (1/2) [10, 20, 30, 40] (set_row_count (of_nat 4) (pd_clear sample_disc))))) =
     Some 20 \<and>
   fst (pc_val_real (Some (1/2)) (snd (pc_run (1/2) [10, 20, 30, 40] (set_row_count (of_nat 4) (pc_clear sample_cont))))) =
     25"
proof
  have r: "disc_row (1/2) (Suc (Suc (Suc (Suc 0)))) = 2" by (simp add: disc_row_def)
  have c: "\<lceil>3/2 :: real\<rceil> = 2" "\<lfloor>3/2 :: real\<rfloor> = 1" by linarith+
  have i: "interpolate [10, 20, 30, 40] (3/2) = 25" by (simp add: interpolate_def c)
  show "fst (pd_val (Some (1/2)) (snd (pd_run (1/2) [10, 20, 30, 40]
      (set_row_count (of_nat 4) (pd_clear sample_disc))))) = Some 20"
    using percentiles_correct [of "1/2" "[10, 20, 30, 40]" sample_disc, THEN conjunct1]
    by (simp add: split_beta r del: pd_run.simps)
  show "fst (pc_val_real (Some (1/2)) (snd (pc_run (1/2) [10, 20, 30, 40]
      (set_row_count (of_nat 4) (pc_clear sample_cont))))) = 25"
    using percentiles_correct [of "1/2" "[10, 20, 30, 40]" _ sample_cont, THEN conjunct2]
    by (simp add: split_beta i del: pc_run.simps)
qed

text \<open>
  The relative ranks are shares: \<open>PERCENT_RANK\<close> of a rank between 1 and the size \<open>n\<close> of the partition is
  \<open>(rank - 1) / (n - 1)\<close>, between 0 and 1, and 0 in a partition of one row; \<open>CUME_DIST\<close> of row \<open>i\<close> is
  \<open>i / n\<close>, positive and at most 1.  Neither divides by zero, and both are NULL exactly when the
  partition is empty.
\<close>

theorem relative_ranks:
  assumes "1 \<le> r" "r \<le> n" "n < 2 ^ 63" "pr_cur_rank s = of_nat r" "get_row_count s = of_nat n"
    and "current_row_count c = of_nat r" "get_row_count c = of_nat n"
  shows "fst (pr_val_real s) = (if n = 1 then 0 else (of_nat r - 1) / (of_nat n - 1)) \<and>
    0 \<le> fst (pr_val_real s) \<and> fst (pr_val_real s) \<le> 1 \<and> \<not> null_value (snd (pr_val_real s)) \<and>
    fst (cd_val_real c) = of_nat r / of_nat n \<and> 0 < fst (cd_val_real c) \<and> fst (cd_val_real c) \<le> 1 \<and>
    \<not> null_value (snd (cd_val_real c))"
proof -
  have lt: "n < 2 ^ 64" "r < 2 ^ 64" "1 < (2 ^ 64 :: nat)" using assms by simp_all
  have n1: "unat (of_nat n - 1 :: uint64) = n - 1"
    using of_nat64_minus [of 1 n] unat_of_nat64 [of "n - 1"] assms by simp
  have r1: "sint (of_nat r - 1 :: uint64) = int r - 1"
    using of_nat64_minus [of 1 r] sint_of_nat64 [of "r - 1"] assms by simp
  have gt: "(1 :: uint64) < of_nat n \<longleftrightarrow> 1 < n" "(0 :: uint64) < of_nat n" "(of_nat n :: uint64) \<noteq> 0"
    using lt assms by (simp_all add: word_less_nat_alt unat_of_nat64 word_unat_eq_iff)
  have pr: "fst (pr_val_real s) = (if n = 1 then 0 else (of_nat r - 1) / (of_nat n - 1))"
    using assms n1 r1 gt unfolding pr_val_real_def Let_def assms(4,5) r1 n1 by (auto simp: of_nat_diff)
  have cd: "fst (cd_val_real c) = of_nat r / of_nat n"
    using gt lt unfolding cd_val_real_def assms(6,7) by (simp only: unat_of_nat64) simp
  have "0 \<le> fst (pr_val_real s)" "fst (pr_val_real s) \<le> 1"
    using assms(1,2) unfolding pr by (auto simp: divide_simps)
  moreover have "0 < fst (cd_val_real c)" "fst (cd_val_real c) \<le> 1"
    using assms(1,2) unfolding cd by (auto simp: divide_simps)
  ultimately show ?thesis using pr cd gt
    by (simp add: pr_val_real_def cd_val_real_def Let_def assms(5,7))
qed

theorem relative_ranks_witness:
  "fst (pr_val_real \<lparr>partition_row_count = 5, null_value = True, pr_cur_rank = 3, pr_row_number = 3\<rparr>) = 1 / 2 \<and>
   fst (cd_val_real \<lparr>partition_row_count = 5, null_value = True, current_row_count = 3\<rparr>) = 3 / 5"
  using relative_ranks [of 3 5 "\<lparr>partition_row_count = 5, null_value = True, pr_cur_rank = 3, pr_row_number = 3\<rparr>"
      "\<lparr>partition_row_count = 5, null_value = True, current_row_count = 3\<rparr>"]
  by (simp add: get_row_count_def)

text \<open>
  In the initial phase the item is NULL whatever its parts hold, in the computation phase it shows the
  window function, and in the retrieval phase the result field: the value, the NULL flag it stores
  and \<open>is_null\<close> agree in every phase.
\<close>

lemma window_item_phases:
  "wf_is_null (set_phase_to_initial w) fn gn \<and> wf_null_value (snd (wf_val_int (set_phase_to_initial w) (f, fn) (g, gn)))"
  "wf_val_int (set_phase_to_computation w) (f, fn) (g, gn) =
     (g, set_phase_to_computation w\<lparr>wf_null_value := wf_is_null (set_phase_to_computation w) fn gn\<rparr>)"
  "wf_val_int (set_phase_to_retrieval w) (f, fn) (g, gn) =
     (f, set_phase_to_retrieval w\<lparr>wf_null_value := wf_is_null (set_phase_to_retrieval w) fn gn\<rparr>)"
  by (simp_all add: set_phase_to_initial_def set_phase_to_computation_def set_phase_to_retrieval_def
      wf_is_null_def wf_val_int_def)

end
