(* ===== verification/MdlKey.thy ===== *)
theory MdlKey
  imports Prelude
begin

text \<open>
  Metadata lock keys, requests and contexts of \<^verbatim>\<open>mdl.h\<close>.  A key is the byte string made of the
  namespace, the database name and the object name, each name closed by a zero byte, in a buffer of
  fixed size; lock requests are matched and ordered by comparing these bytes.  \<open>strmake\<close> and the hash
  function are compiled code and parameters; \<open>strmake_spec\<close> is the documented behaviour of \<open>strmake\<close>.
  C strings are byte lists without the closing zero.
\<close>

section \<open>Lock types\<close>

datatype enum_mdl_type = MDL_INTENTION_EXCLUSIVE | MDL_SHARED | MDL_SHARED_HIGH_PRIO | MDL_SHARED_READ
  | MDL_SHARED_WRITE | MDL_SHARED_UPGRADABLE | MDL_SHARED_READ_ONLY | MDL_SHARED_NO_WRITE
  | MDL_SHARED_NO_READ_WRITE | MDL_EXCLUSIVE

datatype enum_mdl_duration = MDL_STATEMENT | MDL_TRANSACTION | MDL_EXPLICIT

text \<open>The numbers of the enumeration, and the order the code compares types in.\<close>

primrec mdl_type_num :: "enum_mdl_type \<Rightarrow> nat" where
  "mdl_type_num MDL_INTENTION_EXCLUSIVE = 0"
| "mdl_type_num MDL_SHARED = 1"
| "mdl_type_num MDL_SHARED_HIGH_PRIO = 2"
| "mdl_type_num MDL_SHARED_READ = 3"
| "mdl_type_num MDL_SHARED_WRITE = 4"
| "mdl_type_num MDL_SHARED_UPGRADABLE = 5"
| "mdl_type_num MDL_SHARED_READ_ONLY = 6"
| "mdl_type_num MDL_SHARED_NO_WRITE = 7"
| "mdl_type_num MDL_SHARED_NO_READ_WRITE = 8"
| "mdl_type_num MDL_EXCLUSIVE = 9"

lemma mdl_type_num_inject: "mdl_type_num s = mdl_type_num t \<Longrightarrow> s = t"
  by (cases s; cases t) simp_all

instantiation enum_mdl_type :: linorder
begin

definition less_eq_enum_mdl_type :: "enum_mdl_type \<Rightarrow> enum_mdl_type \<Rightarrow> bool" where
  "less_eq_enum_mdl_type s t \<longleftrightarrow> mdl_type_num s \<le> mdl_type_num t"

definition less_enum_mdl_type :: "enum_mdl_type \<Rightarrow> enum_mdl_type \<Rightarrow> bool" where
  "less_enum_mdl_type s t \<longleftrightarrow> mdl_type_num s < mdl_type_num t"

instance
  by standard (auto simp: less_eq_enum_mdl_type_def less_enum_mdl_type_def intro: mdl_type_num_inject)

end

section \<open>Keys\<close>

datatype enum_mdl_namespace = GLOBAL | SCHEMA | TABLE | FUNCTION | PROCEDURE | PACKAGE_BODY | TRIGGER
  | EVENT | COMMIT | USER_LOCK

primrec namespace_num :: "enum_mdl_namespace \<Rightarrow> uchar" where
  "namespace_num GLOBAL = 0"
| "namespace_num SCHEMA = 1"
| "namespace_num TABLE = 2"
| "namespace_num FUNCTION = 3"
| "namespace_num PROCEDURE = 4"
| "namespace_num PACKAGE_BODY = 5"
| "namespace_num TRIGGER = 6"
| "namespace_num EVENT = 7"
| "namespace_num COMMIT = 8"
| "namespace_num USER_LOCK = 9"

definition NAME_LEN :: nat where
  "NAME_LEN = 64 * 3"

definition MAX_MDLKEY_LENGTH :: nat where
  "MAX_MDLKEY_LENGTH = 1 + NAME_LEN + 1 + NAME_LEN + 1"

text \<open>The buffer \<open>m_ptr\<close> is a memory of its own, from address 0.\<close>

record MDL_key =
  m_length :: uint16
  m_db_name_length :: uint16
  m_hash_value :: uint32
  m_ptr :: mem

type_synonym strmake_fun = "mem \<Rightarrow> ptr \<Rightarrow> uchar list \<Rightarrow> nat \<Rightarrow> mem \<times> ptr"

definition mdl_key_init :: "strmake_fun \<Rightarrow> (uchar list \<Rightarrow> uint32) \<Rightarrow> enum_mdl_namespace \<Rightarrow>
    uchar list \<Rightarrow> uchar list \<Rightarrow> MDL_key \<Rightarrow> MDL_key" where
  "mdl_key_init strmake my_hash_sort mdl_namespace_arg db name_arg k =
     (let m0 = (m_ptr k)(0 := namespace_num mdl_namespace_arg);
          (m1, db_end) = strmake m0 1 db NAME_LEN;
          db_len = (of_nat (db_end - 1) :: uint16);
          (m2, name_end) = strmake m1 (unat db_len + 2) name_arg NAME_LEN;
          len = (of_nat (name_end + 1) :: uint16)
      in k\<lparr>m_ptr := m2, m_db_name_length := db_len, m_length := len,
           m_hash_value := my_hash_sort (bytes_at m2 1 (unat len - 1))\<rparr>)"

definition mdl_key_copy :: "MDL_key \<Rightarrow> MDL_key \<Rightarrow> MDL_key" where
  "mdl_key_copy k rhs =
     k\<lparr>m_ptr := put_bytes (m_ptr k) 0 (bytes_at (m_ptr rhs) 0 (unat (m_length rhs))),
       m_length := m_length rhs, m_db_name_length := m_db_name_length rhs,
       m_hash_value := m_hash_value rhs\<rparr>"

definition db_name :: "MDL_key \<Rightarrow> ptr" where
  "db_name k = 1"

definition db_name_length :: "MDL_key \<Rightarrow> nat" where
  "db_name_length k = unat (m_db_name_length k)"

definition name :: "MDL_key \<Rightarrow> ptr" where
  "name k = unat (m_db_name_length k) + 2"

definition name_length :: "MDL_key \<Rightarrow> uint32" where
  "name_length k = ucast (m_length k) - ucast (m_db_name_length k) - 3"

definition mdl_namespace :: "MDL_key \<Rightarrow> uchar" where
  "mdl_namespace k = m_ptr k 0"

text \<open>\<open>memcmp\<close>: the sign of the first difference, as unsigned bytes.\<close>

fun memcmp_bytes :: "uchar list \<Rightarrow> uchar list \<Rightarrow> int" where
  "memcmp_bytes (x # xs) (y # ys) = (if x < y then -1 else if y < x then 1 else memcmp_bytes xs ys)"
| "memcmp_bytes _ _ = 0"

definition is_equal :: "MDL_key \<Rightarrow> MDL_key \<Rightarrow> bool" where
  "is_equal k rhs \<longleftrightarrow> m_length k = m_length rhs \<and>
     memcmp_bytes (bytes_at (m_ptr k) 0 (unat (m_length k))) (bytes_at (m_ptr rhs) 0 (unat (m_length k))) = 0"

definition mdl_key_cmp :: "MDL_key \<Rightarrow> MDL_key \<Rightarrow> int" where
  "mdl_key_cmp k rhs =
     (let n = min (unat (m_length k)) (unat (m_length rhs))
      in memcmp_bytes (bytes_at (m_ptr k) 0 n) (bytes_at (m_ptr rhs) 0 n))"

definition hash_value :: "MDL_key \<Rightarrow> uint32" where
  "hash_value k = m_hash_value k + ucast (mdl_namespace k)"

definition tc_hash_value :: "MDL_key \<Rightarrow> uint32" where
  "tc_hash_value k = m_hash_value k"

section \<open>Requests, tickets and contexts\<close>

record MDL_request =
  rq_type :: enum_mdl_type
  rq_duration :: enum_mdl_duration
  rq_ticket :: ptr
  rq_key :: MDL_key

definition set_type :: "MDL_request \<Rightarrow> enum_mdl_type \<Rightarrow> MDL_request" where
  "set_type r type_arg = r\<lparr>rq_type := type_arg\<rparr>"

definition is_write_lock_request :: "MDL_request \<Rightarrow> bool" where
  "is_write_lock_request r \<longleftrightarrow> rq_type r \<ge> MDL_SHARED_WRITE \<and> rq_type r \<noteq> MDL_SHARED_READ_ONLY"

definition request_assign :: "MDL_request \<Rightarrow> MDL_request \<Rightarrow> MDL_request" where
  "request_assign r rhs = r\<lparr>rq_ticket := 0\<rparr>"

text \<open>The copy constructor; \<open>k0\<close> is the uninitialised key.\<close>

definition request_copy :: "MDL_key \<Rightarrow> MDL_request \<Rightarrow> MDL_request" where
  "request_copy k0 rhs =
     \<lparr>rq_type = rq_type rhs, rq_duration = rq_duration rhs, rq_ticket = 0, rq_key = mdl_key_copy k0 (rq_key rhs)\<rparr>"

definition is_upgradable_or_exclusive :: "enum_mdl_type \<Rightarrow> bool" where
  "is_upgradable_or_exclusive t \<longleftrightarrow> t = MDL_SHARED_UPGRADABLE \<or> t = MDL_SHARED_NO_WRITE \<or>
     t = MDL_SHARED_NO_READ_WRITE \<or> t = MDL_EXCLUSIVE"

text \<open>The tickets of a context by duration, newest first; \<open>prlock\<close> counts the readers and records the
  writer of \<open>m_LOCK_waiting_for\<close>.  Taking the lock in a way that would wait has no result.\<close>

record MDL_context =
  m_tickets :: "enum_mdl_duration \<Rightarrow> ptr list"
  m_needs_thr_lock_abort :: bool
  m_waiting_for :: ptr
  prlock_readers :: nat
  prlock_writer :: bool

definition front :: "ptr list \<Rightarrow> ptr" where
  "front ts = (case ts of [] \<Rightarrow> 0 | t # _ \<Rightarrow> t)"

definition has_locks :: "MDL_context \<Rightarrow> bool" where
  "has_locks c \<longleftrightarrow> \<not> (m_tickets c MDL_STATEMENT = [] \<and> m_tickets c MDL_TRANSACTION = [] \<and>
     m_tickets c MDL_EXPLICIT = [])"

definition has_transactional_locks :: "MDL_context \<Rightarrow> bool" where
  "has_transactional_locks c \<longleftrightarrow> m_tickets c MDL_TRANSACTION \<noteq> []"

definition mdl_savepoint :: "MDL_context \<Rightarrow> ptr \<times> ptr" where
  "mdl_savepoint c = (front (m_tickets c MDL_STATEMENT), front (m_tickets c MDL_TRANSACTION))"

definition prlock_wrlock :: "MDL_context \<Rightarrow> MDL_context option" where
  "prlock_wrlock c = (if prlock_readers c = 0 \<and> \<not> prlock_writer c then Some (c\<lparr>prlock_writer := True\<rparr>) else None)"

definition prlock_rdlock :: "MDL_context \<Rightarrow> MDL_context option" where
  "prlock_rdlock c = (if \<not> prlock_writer c then Some (c\<lparr>prlock_readers := prlock_readers c + 1\<rparr>) else None)"

definition prlock_unlock :: "MDL_context \<Rightarrow> MDL_context option" where
  "prlock_unlock c =
     (if prlock_writer c then Some (c\<lparr>prlock_writer := False\<rparr>)
      else if prlock_readers c > 0 then Some (c\<lparr>prlock_readers := prlock_readers c - 1\<rparr>) else None)"

definition will_wait_for :: "MDL_context \<Rightarrow> ptr \<Rightarrow> MDL_context option" where
  "will_wait_for c waiting_for_arg =
     Option.bind (prlock_wrlock c) (\<lambda>c1. prlock_unlock (c1\<lparr>m_waiting_for := waiting_for_arg\<rparr>))"

definition done_waiting_for :: "MDL_context \<Rightarrow> MDL_context option" where
  "done_waiting_for c =
     Option.bind (prlock_wrlock c) (\<lambda>c1. prlock_unlock (c1\<lparr>m_waiting_for := 0\<rparr>))"

definition lock_deadlock_victim :: "MDL_context \<Rightarrow> MDL_context option" where
  "lock_deadlock_victim c = prlock_rdlock c"

definition unlock_deadlock_victim :: "MDL_context \<Rightarrow> MDL_context option" where
  "unlock_deadlock_victim c = prlock_unlock c"

section \<open>Keys as byte strings\<close>

definition strmake_spec :: "strmake_fun \<Rightarrow> bool" where
  "strmake_spec strmake \<longleftrightarrow>
     (\<forall>m p src n. strmake m p src n = (put_bytes m p (take n src @ [0]), p + min n (length src)))"

text \<open>Names as C strings that fit a key.\<close>

definition mdl_name :: "uchar list \<Rightarrow> bool" where
  "mdl_name s \<longleftrightarrow> 0 \<notin> set s \<and> length s \<le> NAME_LEN"

definition key_bytes :: "enum_mdl_namespace \<Rightarrow> uchar list \<Rightarrow> uchar list \<Rightarrow> uchar list" where
  "key_bytes ns db nm = namespace_num ns # db @ 0 # nm @ [0]"

lemma mdl_key_init_layout:
  fixes k :: MDL_key and hash :: "uchar list \<Rightarrow> uint32" and ns db nm
  assumes st: "strmake_spec strmake"
  defines "k' \<equiv> mdl_key_init strmake hash ns db nm k"
  shows "m_ptr k' = put_bytes (m_ptr k) 0 (key_bytes ns (take NAME_LEN db) (take NAME_LEN nm))"
    "unat (m_db_name_length k') = length (take NAME_LEN db)"
    "unat (m_length k') = length (key_bytes ns (take NAME_LEN db) (take NAME_LEN nm))"
proof -
  define d e where "d = take NAME_LEN db" and "e = take NAME_LEN nm"
  have len: "length d \<le> 192" "length e \<le> 192" by (simp_all add: d_def e_def NAME_LEN_def)
  have S: "strmake m p db NAME_LEN = (put_bytes m p (d @ [0]), p + length d)"
    "strmake m p nm NAME_LEN = (put_bytes m p (e @ [0]), p + length e)" for m p
    using st by (simp_all add: strmake_spec_def d_def e_def min.commute)
  have small: "unat (of_nat i :: uint16) = i" if "i \<le> 400" for i using that by (simp add: unat_of_nat)
  have M: "put_bytes (put_bytes m (Suc 0) (d @ [0])) (Suc (Suc (length d))) (e @ [0]) =
      put_bytes m (Suc 0) (d @ 0 # e @ [0])" for m
    using put_bytes_append [of m "Suc 0" "d @ [0]" "e @ [0]"] by simp
  have L: "unat (3 + (of_nat (length d) + of_nat (length e)) :: uint16) = Suc (Suc (Suc (length d + length e)))"
    using small [of "length d + length e + 3"] len by (simp add: add.commute add.left_commute)
  show "m_ptr k' = put_bytes (m_ptr k) 0 (key_bytes ns (take NAME_LEN db) (take NAME_LEN nm))"
    "unat (m_db_name_length k') = length (take NAME_LEN db)"
    "unat (m_length k') = length (key_bytes ns (take NAME_LEN db) (take NAME_LEN nm))"
    using len by (simp_all add: k'_def mdl_key_init_def Let_def S small M L key_bytes_def flip: d_def e_def)
qed

lemma bytes_at_put_inside:
  "i + n \<le> length bs \<Longrightarrow> bytes_at (put_bytes m 0 bs) i n = take n (drop i bs)"
  by (rule nth_equalityI) (auto simp: nth_bytes_at put_bytes_apply)

lemma mdl_key_bytes:
  assumes "strmake_spec strmake" "mdl_name db" "mdl_name nm"
  shows "bytes_at (m_ptr (mdl_key_init strmake hash ns db nm k)) 0 (unat (m_length (mdl_key_init strmake hash ns db nm k))) =
      key_bytes ns db nm"
    "unat (m_length (mdl_key_init strmake hash ns db nm k)) = length (key_bytes ns db nm)"
    "unat (m_db_name_length (mdl_key_init strmake hash ns db nm k)) = length db"
  using mdl_key_init_layout [OF assms(1), of hash ns db nm k] assms(2,3)
  by (simp_all add: mdl_name_def mem_simps)

lemma memcmp_bytes_eq: "length xs = length ys \<Longrightarrow> memcmp_bytes xs ys = 0 \<longleftrightarrow> xs = ys"
  by (induction xs ys rule: list_induct2) (auto simp: not_less intro: antisym)

lemma memcmp_bytes_take:
  "memcmp_bytes (take (min (length xs) (length ys)) xs) (take (min (length xs) (length ys)) ys) = memcmp_bytes xs ys"
  by (induction xs ys rule: memcmp_bytes.induct) (auto simp: min_def)

text \<open>The order of names as byte strings: the shorter of two strings with a common prefix is the
  smaller.\<close>

fun name_cmp :: "uchar list \<Rightarrow> uchar list \<Rightarrow> int" where
  "name_cmp [] [] = 0"
| "name_cmp [] (y # ys) = -1"
| "name_cmp (x # xs) [] = 1"
| "name_cmp (x # xs) (y # ys) = (if x < y then -1 else if y < x then 1 else name_cmp xs ys)"

lemma name_cmp_eq_0: "name_cmp xs ys = 0 \<longleftrightarrow> xs = ys"
  by (induction xs ys rule: name_cmp.induct) (auto simp: not_less intro: antisym)

lemma memcmp_terminated:
  "0 \<notin> set xs \<Longrightarrow> 0 \<notin> set ys \<Longrightarrow>
   memcmp_bytes (xs @ 0 # us) (ys @ 0 # vs) = (if xs = ys then memcmp_bytes us vs else name_cmp xs ys)"
proof (induction xs ys rule: name_cmp.induct)
  case (2 y ys)
  then show ?case using word_gt_0 [of y] by auto
next
  case (3 x xs)
  then show ?case using word_gt_0 [of x] by auto
qed (auto simp: not_less intro: antisym)

definition key_cmp :: "enum_mdl_namespace \<Rightarrow> uchar list \<Rightarrow> uchar list \<Rightarrow> enum_mdl_namespace \<Rightarrow> uchar list \<Rightarrow>
    uchar list \<Rightarrow> int" where
  "key_cmp ns db nm ns' db' nm' =
     (if namespace_num ns < namespace_num ns' then -1
      else if namespace_num ns' < namespace_num ns then 1
      else if db \<noteq> db' then name_cmp db db' else name_cmp nm nm')"

lemma namespace_num_inject: "namespace_num n = namespace_num n' \<longleftrightarrow> n = n'"
  by (cases n; cases n') simp_all

lemma key_bytes_parts:
  "length (key_bytes ns db nm) = length db + length nm + 3"
  "take (length db + 1) (drop 1 (key_bytes ns db nm)) = db @ [0]"
  "take (length nm + 1) (drop (length db + 2) (key_bytes ns db nm)) = nm @ [0]"
  by (simp_all add: key_bytes_def)

lemma mdl_key_roundtrip_facts:
  assumes "strmake_spec strmake" "mdl_name db" "mdl_name nm" "k = mdl_key_init strmake hash ns db nm k0"
  shows "mdl_namespace k = namespace_num ns" "m_hash_value k = hash (db @ 0 # nm @ [0])"
    "m_ptr k = put_bytes (m_ptr k0) 0 (key_bytes ns db nm)"
    "unat (m_db_name_length k) = length db" "unat (m_length k) = length (key_bytes ns db nm)"
proof -
  have t: "take NAME_LEN db = db" "take NAME_LEN nm = nm" using assms(2,3) by (simp_all add: mdl_name_def)
  note L = mdl_key_init_layout [OF assms(1), of hash ns db nm k0, folded assms(4), unfolded t]
  show "m_ptr k = put_bytes (m_ptr k0) 0 (key_bytes ns db nm)"
    "unat (m_db_name_length k) = length db" "unat (m_length k) = length (key_bytes ns db nm)" by (rule L)+
  have "m_hash_value k = hash (bytes_at (m_ptr k) 1 (unat (m_length k) - 1))"
    by (simp add: assms(4) mdl_key_init_def Let_def split_beta)
  also have "bytes_at (m_ptr k) 1 (unat (m_length k) - 1) = db @ 0 # nm @ [0]"
    unfolding L by (subst bytes_at_put_inside) (simp_all add: key_bytes_def)
  finally show "m_hash_value k = hash (db @ 0 # nm @ [0])" .
  show "mdl_namespace k = namespace_num ns" by (simp add: mdl_namespace_def L key_bytes_def put_bytes_apply)
qed

text \<open>
  A key determines what it was made from: the namespace, the database name and the object name, with
  their lengths, are read back from it, and a copy of the key equals it.
\<close>

theorem mdl_key_roundtrip:
  assumes "strmake_spec strmake" "mdl_name db" "mdl_name nm" "k = mdl_key_init strmake hash ns db nm k0"
  shows "mdl_namespace k = namespace_num ns \<and> db_name_length k = length db \<and>
    bytes_at (m_ptr k) (db_name k) (length db + 1) = db @ [0] \<and>
    unat (name_length k) = length nm \<and> bytes_at (m_ptr k) (name k) (length nm + 1) = nm @ [0] \<and>
    tc_hash_value k = hash (db @ 0 # nm @ [0]) \<and> is_equal k (mdl_key_copy k1 k)"
proof -
  note L = mdl_key_roundtrip_facts [OF assms]
  have fits: "length db \<le> 192" "length nm \<le> 192" using assms(2,3) by (simp_all add: mdl_name_def NAME_LEN_def)
  have "unat (name_length k) = length nm"
  proof -
    have "name_length k = of_nat (unat (m_length k)) - of_nat (unat (m_db_name_length k)) - 3"
      by (simp add: name_length_def)
    also have "\<dots> = of_nat (length nm)" unfolding L(4,5) by (simp add: key_bytes_def)
    finally show ?thesis using fits by (simp add: unat_of_nat)
  qed
  moreover have "is_equal k (mdl_key_copy k1 k)"
    by (simp add: is_equal_def mdl_key_copy_def memcmp_bytes_eq mem_simps)
  moreover have "bytes_at (m_ptr k) (db_name k) (length db + 1) = db @ [0]"
    unfolding L(3) db_name_def using key_bytes_parts(1) [of ns db nm] key_bytes_parts(2) [of db ns nm] by (subst bytes_at_put_inside) simp_all
  moreover have "bytes_at (m_ptr k) (name k) (length nm + 1) = nm @ [0]"
    unfolding L(3,4) name_def using key_bytes_parts(1) [of ns db nm] key_bytes_parts(3) [of nm db ns] by (subst bytes_at_put_inside) simp_all
  ultimately show ?thesis using L(1,2,4) by (simp add: db_name_length_def tc_hash_value_def)
qed

text \<open>A \<open>strmake\<close> as documented.\<close>

definition copy_strmake :: strmake_fun where
  "copy_strmake m p src n = (put_bytes m p (take n src @ [0]), p + min n (length src))"

lemma copy_strmake_spec: "strmake_spec copy_strmake"
  by (simp add: strmake_spec_def copy_strmake_def)

definition blank_key :: MDL_key where
  "blank_key = \<lparr>m_length = 0, m_db_name_length = 0, m_hash_value = 0, m_ptr = (\<lambda>_. 77)\<rparr>"

definition sample_key :: "uchar list \<Rightarrow> uchar list \<Rightarrow> MDL_key" where
  "sample_key db nm = mdl_key_init copy_strmake (\<lambda>bs. of_nat (length bs)) TABLE db nm blank_key"

theorem mdl_key_roundtrip_witness:
  "db_name_length (sample_key [97, 98] [99]) = 2 \<and> bytes_at (m_ptr (sample_key [97, 98] [99])) (name (sample_key [97, 98] [99])) (length [99 :: uchar] + 1) = [99, 0]"
  using mdl_key_roundtrip [OF copy_strmake_spec _ _ sample_key_def, of "[97, 98]" "[99]"]
  by (simp add: mdl_name_def NAME_LEN_def)

text \<open>
  Keys are equal exactly when namespace, database and name are, and \<open>cmp\<close> orders them
  lexicographically by namespace, database name and object name, although it compares only the common
  length of the two byte strings: the zero bytes that close the names decide before it.
\<close>

theorem mdl_key_order:
  assumes "strmake_spec strmake" "mdl_name db" "mdl_name nm" "mdl_name db'" "mdl_name nm'"
    and "k = mdl_key_init strmake hash ns db nm k0" "k' = mdl_key_init strmake hash ns' db' nm' k0'"
  shows "(is_equal k k' \<longleftrightarrow> ns = ns' \<and> db = db' \<and> nm = nm') \<and>
    mdl_key_cmp k k' = key_cmp ns db nm ns' db' nm' \<and>
    (mdl_key_cmp k k' = 0 \<longleftrightarrow> is_equal k k') \<and> (is_equal k k' \<longrightarrow> hash_value k = hash_value k')"
proof -
  let ?b = "key_bytes ns db nm" and ?b' = "key_bytes ns' db' nm'"
  note B = mdl_key_bytes [OF assms(1-3), of hash ns k0, folded assms(6)]
  note B' = mdl_key_bytes [OF assms(1,4,5), of hash ns' k0', folded assms(7)]
  have pre: "n \<le> i \<Longrightarrow> bytes_at m 0 n = take n (bytes_at m 0 i)" for m n i
    by (rule nth_equalityI) (auto simp: nth_bytes_at)
  have "mdl_key_cmp k k' = memcmp_bytes (take (min (length ?b) (length ?b')) ?b) (take (min (length ?b) (length ?b')) ?b')"
    unfolding mdl_key_cmp_def Let_def
    using pre [of "min (length ?b) (length ?b')" "length ?b" "m_ptr k"]
      pre [of "min (length ?b) (length ?b')" "length ?b'" "m_ptr k'"] B B' by simp
  then have cmp: "mdl_key_cmp k k' = memcmp_bytes ?b ?b'" by (simp only: memcmp_bytes_take)
  have z: "0 \<notin> set db" "0 \<notin> set db'" "0 \<notin> set nm" "0 \<notin> set nm'" using assms(2-5) by (simp_all add: mdl_name_def)
  have lex: "memcmp_bytes ?b ?b' = key_cmp ns db nm ns' db' nm'"
    using memcmp_terminated [OF z(1,2), of "nm @ [0]" "nm' @ [0]"] memcmp_terminated [OF z(3,4), of "[]" "[]"]
    by (simp add: key_bytes_def key_cmp_def) (metis name_cmp_eq_0)
  have same: "key_cmp ns db nm ns' db' nm' = 0 \<longleftrightarrow> ns = ns' \<and> db = db' \<and> nm = nm'"
    by (auto simp: key_cmp_def name_cmp_eq_0 not_less namespace_num_inject dest: antisym)
  have "is_equal k k' \<longleftrightarrow> ?b = ?b'"
  proof (cases "length ?b = length ?b'")
    case True
    then have "m_length k = m_length k'" using B(2) B'(2) by (simp add: word_unat_eq_iff)
    then show ?thesis using B(1) B'(1) True B(2) B'(2) by (simp add: is_equal_def memcmp_bytes_eq)
  next
    case False
    then have "m_length k \<noteq> m_length k'" using B(2) B'(2) by auto
    then show ?thesis using False by (auto simp: is_equal_def)
  qed
  moreover have "?b = ?b' \<longleftrightarrow> memcmp_bytes ?b ?b' = 0"
    using same lex by (metis memcmp_bytes_eq)
  moreover have "hash_value k = hash_value k'" if "?b = ?b'"
  proof -
    have "ns = ns' \<and> db = db' \<and> nm = nm'"
      using that memcmp_bytes_eq [of ?b ?b'] same lex by simp
    then show ?thesis
      using mdl_key_roundtrip_facts [OF assms(1-3,6)] mdl_key_roundtrip_facts [OF assms(1,4,5,7)]
      by (simp add: hash_value_def)
  qed
  ultimately show ?thesis using cmp lex same by simp
qed

theorem mdl_key_order_witness:
  "\<not> is_equal (sample_key [97] [98]) (sample_key [97] [98, 99]) \<and>
   mdl_key_cmp (sample_key [97] [98]) (sample_key [97] [98, 99]) = -1"
  using mdl_key_order [OF copy_strmake_spec _ _ _ _ sample_key_def sample_key_def, of "[97]" "[98]" "[97]" "[98, 99]"]
  by (simp add: mdl_name_def NAME_LEN_def key_cmp_def)

text \<open>
  Building a key never writes behind its buffer, however long the names are: longer names are cut, and
  the recorded length never exceeds the size of the buffer.
\<close>

theorem mdl_key_no_overrun:
  assumes "strmake_spec strmake"
  shows "unat (m_length (mdl_key_init strmake hash ns db nm k)) \<le> MAX_MDLKEY_LENGTH \<and>
    (MAX_MDLKEY_LENGTH \<le> a \<longrightarrow> m_ptr (mdl_key_init strmake hash ns db nm k) a = m_ptr k a)"
proof -
  let ?b = "key_bytes ns (take NAME_LEN db) (take NAME_LEN nm)"
  note L = mdl_key_init_layout [OF assms, of hash ns db nm k]
  have "length ?b \<le> MAX_MDLKEY_LENGTH" by (simp add: key_bytes_parts(1) MAX_MDLKEY_LENGTH_def)
  then show ?thesis using L by (simp add: put_bytes_outside)
qed

theorem mdl_key_no_overrun_witness:
  "m_ptr (sample_key (replicate 500 97) (replicate 500 98)) 387 = 77"
  using mdl_key_no_overrun [OF copy_strmake_spec, of "\<lambda>bs. of_nat (length bs)" TABLE "replicate 500 97" "replicate 500 98" blank_key 387]
  by (simp add: sample_key_def MAX_MDLKEY_LENGTH_def NAME_LEN_def blank_key_def)

text \<open>Every type of lock that can be upgraded counts as a write lock request, and the edge to the lock
  a context waits for changes only while nobody inspects it.\<close>

lemma upgradable_writes: "is_upgradable_or_exclusive (rq_type r) \<Longrightarrow> is_write_lock_request r"
  by (auto simp: is_upgradable_or_exclusive_def is_write_lock_request_def less_eq_enum_mdl_type_def)

lemma waiting_for_protocol:
  assumes "prlock_readers c = 0" "\<not> prlock_writer c"
  shows "will_wait_for c g = Some (c\<lparr>m_waiting_for := g\<rparr>)" "done_waiting_for c = Some (c\<lparr>m_waiting_for := 0\<rparr>)"
    "Option.bind (lock_deadlock_victim c) (\<lambda>c1. will_wait_for c1 g) = None"
    "Option.bind (lock_deadlock_victim c) unlock_deadlock_victim = Some c"
  using assms by (simp_all add: will_wait_for_def done_waiting_for_def prlock_wrlock_def prlock_unlock_def
      lock_deadlock_victim_def unlock_deadlock_victim_def prlock_rdlock_def)

end
