(* ===== verification/SqlNumbers.thy ===== *)
theory SqlNumbers
  imports Prelude
begin

text \<open>
  Whole numbers of the server: \<open>Longlong_hybrid\<close> of \<^verbatim>\<open>sql_type_int.h\<close>, a 64-bit pattern with a flag
  that says whether it is signed, and the step of a sequence in \<^verbatim>\<open>sql_sequence.h\<close>.  A hybrid is
  compared with the number it stands for.  The sequence step adds signed numbers before it tests
  whether the sum fits; the addition is modelled with wrap-around.
\<close>

section \<open>Numbers that may be signed or unsigned\<close>

record Longlong_hybrid =
  m_value :: uint64
  m_unsigned :: bool

definition LONGLONG_MAX :: uint64 where
  "LONGLONG_MAX = 0x7FFFFFFFFFFFFFFF"

definition LONGLONG_MIN :: uint64 where
  "LONGLONG_MIN = 0x8000000000000000"

definition cmp_signed :: "Longlong_hybrid \<Rightarrow> Longlong_hybrid \<Rightarrow> int" where
  "cmp_signed h other =
     (if sint (m_value h) < sint (m_value other) then -1 else if m_value h = m_value other then 0 else 1)"

definition cmp_unsigned :: "Longlong_hybrid \<Rightarrow> Longlong_hybrid \<Rightarrow> int" where
  "cmp_unsigned h other =
     (if m_value h < m_value other then -1 else if m_value h = m_value other then 0 else 1)"

definition is_unsigned_outside_of_signed_range :: "Longlong_hybrid \<Rightarrow> bool" where
  "is_unsigned_outside_of_signed_range h \<longleftrightarrow> m_unsigned h \<and> m_value h > LONGLONG_MAX"

definition neg :: "Longlong_hybrid \<Rightarrow> bool" where
  "neg h \<longleftrightarrow> sint (m_value h) < 0 \<and> \<not> m_unsigned h"

definition hybrid_abs :: "Longlong_hybrid \<Rightarrow> uint64" where
  "hybrid_abs h =
     (if m_unsigned h then m_value h
      else if m_value h = LONGLONG_MIN then LONGLONG_MAX + 1
      else if sint (m_value h) < 0 then - m_value h else m_value h)"

definition to_ulonglong :: "Longlong_hybrid \<Rightarrow> uint64 \<Rightarrow> uint64" where
  "to_ulonglong h upper_bound =
     (if neg h then 0 else if m_value h > upper_bound then upper_bound else m_value h)"

definition to_uint :: "Longlong_hybrid \<Rightarrow> uint32 \<Rightarrow> uint32" where
  "to_uint h upper_bound = ucast (to_ulonglong h (ucast upper_bound))"

definition hybrid_cmp :: "Longlong_hybrid \<Rightarrow> Longlong_hybrid \<Rightarrow> int" where
  "hybrid_cmp h other =
     (if m_unsigned h = m_unsigned other
      then if m_unsigned h then cmp_unsigned h other else cmp_signed h other
      else if is_unsigned_outside_of_signed_range h then 1
      else if is_unsigned_outside_of_signed_range other then -1
      else cmp_signed h other)"

text \<open>The number a hybrid stands for.\<close>

definition hybrid_int :: "Longlong_hybrid \<Rightarrow> int" where
  "hybrid_int h = (if m_unsigned h then uint (m_value h) else sint (m_value h))"

lemma uint_bounds64: "0 \<le> uint (w :: uint64)" "uint (w :: uint64) < 2 ^ 64"
  using uint_bounded [of w] by simp_all

lemma sint_uint64: "sint (w :: uint64) = (if uint w < 2 ^ 63 then uint w else uint w - 2 ^ 64)"
proof -
  have "sint w = (uint w + 2 ^ 63) mod 2 ^ 64 - 2 ^ 63"
    by (simp add: sint_uint signed_take_bit_eq_take_bit_shift take_bit_eq_mod)
  moreover have "(uint w + 2 ^ 63) mod 2 ^ 64 = (if uint w < 2 ^ 63 then uint w + 2 ^ 63 else uint w + 2 ^ 63 - 2 ^ 64)"
  proof (cases "uint w < 2 ^ 63")
    case True
    then show ?thesis using uint_bounds64 [of w] by (simp add: mod_pos_pos_trivial)
  next
    case False
    then have "(uint w + 2 ^ 63 - 2 ^ 64) mod 2 ^ 64 = uint w + 2 ^ 63 - 2 ^ 64"
      using uint_bounds64 [of w] by (intro mod_pos_pos_trivial) simp_all
    then show ?thesis using False by (simp only: minus_mod_self2 if_False)
  qed
  ultimately show ?thesis by (simp split: if_splits)
qed

lemma uint_longlong_max: "uint LONGLONG_MAX = 2 ^ 63 - 1"
  by (simp add: LONGLONG_MAX_def)

text \<open>
  \<open>cmp\<close> compares the numbers two hybrids stand for, whatever their signs and flags: -1, 0 or 1 as the
  first is smaller, equal or larger; \<open>neg\<close> is true exactly of negative numbers.
\<close>

theorem longlong_hybrid_cmp:
  "hybrid_cmp a b = sgn (hybrid_int a - hybrid_int b) \<and> (neg a \<longleftrightarrow> hybrid_int a < 0)"
proof -
  define x y where "x = uint (m_value a)" and "y = uint (m_value b)"
  have bounds: "0 \<le> x" "x < 2 ^ 64" "0 \<le> y" "y < 2 ^ 64"
    using uint_bounds64 by (simp_all only: x_def y_def)
  note facts = hybrid_int_def sint_uint64 word_less_def word_uint_eq_iff uint_longlong_max
  have "hybrid_cmp a b = sgn (hybrid_int a - hybrid_int b)"
    using bounds
    by (auto simp: hybrid_cmp_def cmp_signed_def cmp_unsigned_def is_unsigned_outside_of_signed_range_def
        facts sgn_if simp flip: x_def y_def)
  moreover have "neg a \<longleftrightarrow> hybrid_int a < 0"
    using bounds by (auto simp: neg_def facts simp flip: x_def)
  ultimately show ?thesis by blast
qed

text \<open>
  \<open>abs\<close> is the absolute value of the number, also of the smallest signed one, and \<open>to_ulonglong\<close> moves
  the number into the range from 0 to the bound; \<open>to_uint\<close> agrees with it.
\<close>

theorem longlong_hybrid_range:
  "uint (hybrid_abs h) = \<bar>hybrid_int h\<bar> \<and>
   uint (to_ulonglong h u) = max 0 (min (hybrid_int h) (uint u)) \<and>
   uint (to_uint h v) = max 0 (min (hybrid_int h) (uint v))"
proof -
  note facts = hybrid_int_def sint_uint64 word_less_def word_uint_eq_iff
  define x where "x = uint (m_value h)"
  have bounds: "0 \<le> x" "x < 2 ^ 64" using uint_bounds64 by (simp_all only: x_def)
  have u: "uint (to_ulonglong h u) = max 0 (min (hybrid_int h) (uint u))" for u
  proof -
    define y where "y = uint u"
    have "0 \<le> y" "y < 2 ^ 64" using uint_bounds64 by (simp_all only: y_def)
    then show ?thesis using bounds
      by (auto simp: to_ulonglong_def neg_def facts max_def min_def simp flip: x_def y_def)
  qed
  have "uint (ucast v :: uint64) = uint v" for v :: uint32 by (simp add: uint_up_ucast is_up)
  moreover have "uint (to_uint h v) = uint (to_ulonglong h (ucast v)) mod 2 ^ 32"
    by (simp add: to_uint_def unsigned_ucast_eq take_bit_eq_mod)
  moreover have "uint v < 2 ^ 32" using uint_bounded [of v] by simp
  ultimately have "uint (to_uint h v) = max 0 (min (hybrid_int h) (uint v))"
    by (simp add: u max_def min_def)
  moreover have "uint (hybrid_abs h) = \<bar>hybrid_int h\<bar>"
  proof -
    have minus: "uint (- m_value h) = (- x) mod 2 ^ 64" by (simp add: uint_word_ariths x_def)
    have "(- x) mod 2 ^ 64 = 2 ^ 64 - x" if "0 < x"
      using that bounds by (simp add: zmod_zminus1_eq_if mod_pos_pos_trivial)
    then show ?thesis using bounds
      by (auto simp: hybrid_abs_def facts LONGLONG_MIN_def LONGLONG_MAX_def minus simp flip: x_def)
  qed
  ultimately show ?thesis using u by blast
qed

section \<open>Sequences\<close>

definition longlong :: "int \<Rightarrow> bool" where
  "longlong x \<longleftrightarrow> - (2 ^ 63) \<le> x \<and> x < 2 ^ 63"

definition wrap64 :: "int \<Rightarrow> int" where
  "wrap64 x = (x + 2 ^ 63) mod 2 ^ 64 - 2 ^ 63"

record sequence_definition =
  reserved_until :: int
  min_value :: int
  max_value :: int
  seq_start :: int
  increment :: int
  seq_cache :: int
  seq_round :: int
  restart :: int
  cycle :: bool
  used_fields :: nat
  real_increment :: int
  next_free_value :: int

text \<open>The constructor; \<open>s0\<close> has the members it leaves uninitialised.\<close>

definition sequence_definition_new :: "sequence_definition \<Rightarrow> sequence_definition" where
  "sequence_definition_new s0 = s0\<lparr>min_value := 1, max_value := 2 ^ 63 - 1 - 1, seq_start := 1, increment := 1,
     seq_cache := 1000, seq_round := 0, restart := 0, cycle := False, used_fields := 0\<rparr>"

text \<open>\<open>SEQUENCE\<close> adds the flag \<open>all_values_used\<close>; \<open>adjust_values\<close> is compiled code and a parameter.\<close>

record SEQUENCE = sequence_definition +
  all_values_used :: bool

definition sequence_copy :: "(int \<Rightarrow> SEQUENCE \<Rightarrow> SEQUENCE) \<Rightarrow> SEQUENCE \<Rightarrow> sequence_definition \<Rightarrow> SEQUENCE" where
  "sequence_copy adjust_values s seq =
     (let s1 = sequence_definition.extend seq (SEQUENCE.fields (all_values_used s))
      in (adjust_values (reserved_until s1) s1)\<lparr>all_values_used := False\<rparr>)"

definition increment_value :: "'a sequence_definition_scheme \<Rightarrow> int \<Rightarrow> int" where
  "increment_value s value =
     (if real_increment s > 0
      then if wrap64 (value + real_increment s) > max_value s \<or> value > wrap64 (max_value s - real_increment s)
           then wrap64 (max_value s + 1) else wrap64 (value + real_increment s)
      else if wrap64 (value + real_increment s) < min_value s \<or> value < wrap64 (min_value s - real_increment s)
           then wrap64 (min_value s - 1) else wrap64 (value + real_increment s))"

lemma wrap64_cases:
  assumes "- (2 ^ 64) \<le> x" "x < 2 ^ 64"
  shows "wrap64 x = (if x < - (2 ^ 63) then x + 2 ^ 64 else if x < 2 ^ 63 then x else x - 2 ^ 64)"
proof -
  have "(x + 2 ^ 63) mod 2 ^ 64 = x + 2 ^ 63" if "- (2 ^ 63) \<le> x" "x < 2 ^ 63"
    using that by (intro mod_pos_pos_trivial) simp_all
  moreover have "(x + 2 ^ 63) mod 2 ^ 64 = x + 2 ^ 63 + 2 ^ 64" if "x < - (2 ^ 63)"
    using that assms mod_add_self2 [of "x + 2 ^ 63" "2 ^ 64"] mod_pos_pos_trivial [of "x + 2 ^ 63 + 2 ^ 64" "2 ^ 64"]
    by simp
  moreover have "(x + 2 ^ 63) mod 2 ^ 64 = x + 2 ^ 63 - 2 ^ 64" if "2 ^ 63 \<le> x"
    using that assms minus_mod_self2 [of "x + 2 ^ 63" "2 ^ 64"] mod_pos_pos_trivial [of "x + 2 ^ 63 - 2 ^ 64" "2 ^ 64"]
    by simp
  ultimately show ?thesis by (simp add: wrap64_def not_less)
qed

text \<open>
  The step of a sequence: from a value inside the bounds of the sequence it goes to the sum of value and
  increment if that is inside the bounds, and otherwise to the number right behind the bound it
  would cross, with no false result when the sum does not fit 64 bits.  The bounds have to leave room
  for that number.
\<close>

theorem sequence_increment:
  assumes "longlong (real_increment s)" "longlong (value)" "- (2 ^ 63) < min_value s" "max_value s < 2 ^ 63 - 1"
    and "min_value s \<le> value" "value \<le> max_value s"
  shows "increment_value s value =
    (if real_increment s > 0 then min (value + real_increment s) (max_value s + 1)
     else max (value + real_increment s) (min_value s - 1))"
  using assms by (auto simp: increment_value_def wrap64_cases longlong_def min_def max_def)

definition sample_sequence :: sequence_definition where
  "sample_sequence = (sequence_definition_new \<lparr>reserved_until = 0, min_value = 0, max_value = 0, seq_start = 0,
     increment = 0, seq_cache = 0, seq_round = 0, restart = 0, cycle = True, used_fields = 3,
     real_increment = 2 ^ 62, next_free_value = 0\<rparr>)\<lparr>max_value := 2 ^ 62 + 5\<rparr>"

theorem sequence_increment_witness:
  "increment_value sample_sequence 4 = 2 ^ 62 + 4 \<and> increment_value sample_sequence (2 ^ 62) = 2 ^ 62 + 6"
  using sequence_increment [of sample_sequence 4] sequence_increment [of sample_sequence "2 ^ 62"]
  by (simp add: sample_sequence_def sequence_definition_new_def longlong_def)

end
