(* ===== verification/Histograms.thy ===== *)
theory Histograms
  imports Complex_Main ByteOrder "HOL-Library.Signed_Division" "HOL-Library.Monad_Syntax"
begin

text \<open>
  Column statistics of \<^verbatim>\<open>sql_statistics.h\<close>: histograms with one or two bytes per bound, the search for the
  bucket of a position, the selectivity of a range, and the scaled ratios and NULL flags of a
  column.  Positions and ratios of type \<open>double\<close> are exact real numbers.  Reading a bound outside the
  histogram has no result, so that a search that returns has read inside it.  The conversion of a scaled position to \<open>uint\<close>
  is the integer part, where the language defines it; for negative positions and those of \<open>2 ^ 32\<close> and more it leaves
  the result open, and the model takes 0 and the integer part itself.
\<close>

section \<open>Histograms\<close>

datatype Histogram_type = SINGLE_PREC_HB | DOUBLE_PREC_HB

record Histogram =
  htype :: Histogram_type
  hsize :: uchar
  hvalues :: ptr

definition prec_factor :: "Histogram \<Rightarrow> nat" where
  "prec_factor h = (case htype h of SINGLE_PREC_HB \<Rightarrow> 2 ^ 8 - 1 | DOUBLE_PREC_HB \<Rightarrow> 2 ^ 16 - 1)"

definition get_width :: "Histogram \<Rightarrow> nat" where
  "get_width h = (case htype h of SINGLE_PREC_HB \<Rightarrow> unat (hsize h) | DOUBLE_PREC_HB \<Rightarrow> unat (hsize h) div 2)"

definition bound_at :: "mem \<Rightarrow> Histogram \<Rightarrow> nat \<Rightarrow> nat" where
  "bound_at m h i =
     (case htype h of SINGLE_PREC_HB \<Rightarrow> unat (m (hvalues h + i))
      | DOUBLE_PREC_HB \<Rightarrow> unat (uint2korr m (hvalues h + i * 2)))"

definition get_value :: "mem \<Rightarrow> Histogram \<Rightarrow> nat \<Rightarrow> nat option" where
  "get_value m h i = (if i < get_width h then Some (bound_at m h i) else None)"

text \<open>The binary search loop, with the variables of the code.\<close>

partial_function (option) bucket_loop ::
    "mem \<Rightarrow> Histogram \<Rightarrow> nat \<Rightarrow> int \<Rightarrow> int \<Rightarrow> int \<Rightarrow> nat \<Rightarrow> nat option" where
  "bucket_loop m h val lp rp d i =
     (if d \<noteq> 0
      then do { v \<leftarrow> get_value m h i;
                if val = v then Some i
                else if val < v
                then let rp1 = int i; d1 = (rp1 - lp) sdiv 2
                     in bucket_loop m h val lp rp1 d1 (nat (lp + d1))
                else do { w \<leftarrow> get_value m h (i + 1);
                          if val > w
                          then let lp1 = int i + 1; d1 = (rp - lp1) sdiv 2
                               in bucket_loop m h val lp1 rp d1 (nat (lp1 + d1))
                          else Some i } }
      else Some i)"

fun bucket_down :: "mem \<Rightarrow> Histogram \<Rightarrow> nat \<Rightarrow> nat \<Rightarrow> nat option" where
  "bucket_down m h val 0 = Some 0"
| "bucket_down m h val (Suc i) =
     do { v \<leftarrow> get_value m h i; if val = v then bucket_down m h val i else Some (Suc i) }"

function bucket_up :: "mem \<Rightarrow> Histogram \<Rightarrow> nat \<Rightarrow> nat \<Rightarrow> nat option" where
  "bucket_up m h val i =
     (if i + 1 < get_width h
      then do { v \<leftarrow> get_value m h (i + 1); if val = v then bucket_up m h val (i + 1) else Some i }
      else Some i)"
  by pat_completeness auto
termination
  by (relation "measure (\<lambda>(m, h, val, i). get_width h - i)") auto

declare bucket_up.simps [simp del]

definition find_bucket :: "mem \<Rightarrow> Histogram \<Rightarrow> real \<Rightarrow> bool \<Rightarrow> nat option" where
  "find_bucket m h pos first =
     (let val = nat \<lfloor>pos * real (prec_factor h)\<rfloor>; d = int (get_width h div 2)
      in do { i0 \<leftarrow> bucket_loop m h val 0 (int (get_width h) - 1) d (nat (0 + d));
              v \<leftarrow> get_value m h i0;
              let i = (if val > v \<and> i0 < get_width h - 1 then i0 + 1 else i0);
              v1 \<leftarrow> get_value m h i;
              if val = v1 then if first then bucket_down m h val i else bucket_up m h val i
              else Some i })"

definition set_size :: "Histogram \<Rightarrow> uint64 \<Rightarrow> Histogram" where
  "set_size h sz = h\<lparr>hsize := ucast sz\<rparr>"

definition set_htype :: "Histogram \<Rightarrow> Histogram_type \<Rightarrow> Histogram" where
  "set_htype h t = h\<lparr>htype := t\<rparr>"

definition set_values :: "Histogram \<Rightarrow> ptr \<Rightarrow> Histogram" where
  "set_values h vals = h\<lparr>hvalues := vals\<rparr>"

definition is_available :: "Histogram \<Rightarrow> bool" where
  "is_available h \<longleftrightarrow> hsize h > 0 \<and> hvalues h \<noteq> 0"

definition set_value :: "mem \<Rightarrow> Histogram \<Rightarrow> nat \<Rightarrow> real \<Rightarrow> mem" where
  "set_value m h i val =
     (case htype h of
        SINGLE_PREC_HB \<Rightarrow> m(hvalues h + i := of_nat (nat \<lfloor>val * real (prec_factor h)\<rfloor>))
      | DOUBLE_PREC_HB \<Rightarrow> int2store m (hvalues h + i * 2) (of_nat (nat \<lfloor>val * real (prec_factor h)\<rfloor>)))"

definition set_prev_value :: "mem \<Rightarrow> Histogram \<Rightarrow> nat \<Rightarrow> mem" where
  "set_prev_value m h i =
     (case htype h of
        SINGLE_PREC_HB \<Rightarrow> m(hvalues h + i := m (hvalues h + i - 1))
      | DOUBLE_PREC_HB \<Rightarrow> int2store m (hvalues h + i * 2) (ucast (uint2korr m (hvalues h + i * 2 - 2))))"

definition range_selectivity :: "mem \<Rightarrow> Histogram \<Rightarrow> real \<Rightarrow> real \<Rightarrow> real option" where
  "range_selectivity m h min_pos max_pos =
     do { min_b \<leftarrow> find_bucket m h min_pos True;
          max_b \<leftarrow> find_bucket m h max_pos False;
          Some (1 / (real (get_width h) + 1) * real (unat (of_nat max_b - of_nat min_b + 1 :: uint32))) }"

section \<open>Statistics of a column\<close>

record Column_statistics =
  column_stat_nulls :: uint32
  nulls_ratio :: ulong
  avg_length :: ulong
  avg_frequency :: ulong

text \<open>The positions of the columns of the statistical table.\<close>

definition COLUMN_STAT_COLUMN_NAME :: nat where "COLUMN_STAT_COLUMN_NAME = 2"
definition COLUMN_STAT_MIN_VALUE :: nat where "COLUMN_STAT_MIN_VALUE = 3"
definition COLUMN_STAT_MAX_VALUE :: nat where "COLUMN_STAT_MAX_VALUE = 4"
definition COLUMN_STAT_HISTOGRAM :: nat where "COLUMN_STAT_HISTOGRAM = 10"

definition no_values_provided_bitmap :: uint32 where
  "no_values_provided_bitmap =
     push_bit (COLUMN_STAT_COLUMN_NAME + 1)
       (push_bit (COLUMN_STAT_HISTOGRAM - COLUMN_STAT_COLUMN_NAME) 1 - 1)"

definition set_all_nulls :: "Column_statistics \<Rightarrow> Column_statistics" where
  "set_all_nulls c = c\<lparr>column_stat_nulls := no_values_provided_bitmap\<rparr>"

definition set_not_null :: "Column_statistics \<Rightarrow> nat \<Rightarrow> Column_statistics" where
  "set_not_null c stat_field_no = c\<lparr>column_stat_nulls := column_stat_nulls c AND NOT (push_bit stat_field_no 1)\<rparr>"

definition stat_is_null :: "Column_statistics \<Rightarrow> nat \<Rightarrow> bool" where
  "stat_is_null c stat_field_no \<longleftrightarrow> column_stat_nulls c AND push_bit stat_field_no 1 \<noteq> 0"

definition min_max_values_are_provided :: "Column_statistics \<Rightarrow> bool" where
  "min_max_values_are_provided c \<longleftrightarrow>
     \<not> stat_is_null c COLUMN_STAT_MIN_VALUE \<and> \<not> stat_is_null c COLUMN_STAT_MAX_VALUE"

definition no_stat_values_provided :: "Column_statistics \<Rightarrow> bool" where
  "no_stat_values_provided c \<longleftrightarrow> column_stat_nulls c = no_values_provided_bitmap"

definition get_nulls_ratio :: "Column_statistics \<Rightarrow> real" where
  "get_nulls_ratio c = real (unat (nulls_ratio c)) / 100000"

definition get_avg_length :: "Column_statistics \<Rightarrow> real" where
  "get_avg_length c = real (unat (avg_length c)) / 100000"

definition get_avg_frequency :: "Column_statistics \<Rightarrow> real" where
  "get_avg_frequency c = real (unat (avg_frequency c)) / 100000"

definition scaled :: "real \<Rightarrow> ulong" where
  "scaled val = of_nat (nat \<lfloor>val * 100000\<rfloor>)"

definition set_nulls_ratio :: "Column_statistics \<Rightarrow> real \<Rightarrow> Column_statistics" where
  "set_nulls_ratio c val = c\<lparr>nulls_ratio := scaled val\<rparr>"

definition set_avg_length :: "Column_statistics \<Rightarrow> real \<Rightarrow> Column_statistics" where
  "set_avg_length c val = c\<lparr>avg_length := scaled val\<rparr>"

definition set_avg_frequency :: "Column_statistics \<Rightarrow> real \<Rightarrow> Column_statistics" where
  "set_avg_frequency c val = c\<lparr>avg_frequency := scaled val\<rparr>"


section \<open>The search for a bucket\<close>

definition bounds :: "mem \<Rightarrow> Histogram \<Rightarrow> nat list" where
  "bounds m h = map (bound_at m h) [0 ..< get_width h]"

lemma get_value_bounds: "get_value m h i = (if i < length (bounds m h) then Some (bounds m h ! i) else None)"
  by (simp add: get_value_def bounds_def)

text \<open>What the search returns in a sorted list of bounds: the first or last bound equal to the value if
  there is one, else the first larger bound, or the last bound if none is larger.\<close>

definition bucket_spec :: "nat list \<Rightarrow> nat \<Rightarrow> bool \<Rightarrow> nat \<Rightarrow> bool" where
  "bucket_spec vs val first r \<longleftrightarrow> r < length vs \<and>
     (if val \<in> set vs
      then vs ! r = val \<and> (if first then \<forall>j < r. vs ! j < val else \<forall>j. r < j \<and> j < length vs \<longrightarrow> val < vs ! j)
      else (\<forall>j < r. vs ! j < val) \<and> (val < vs ! r \<or> r = length vs - 1))"

text \<open>Where the loop may stop.\<close>

definition loop_stop :: "nat list \<Rightarrow> nat \<Rightarrow> nat \<Rightarrow> bool" where
  "loop_stop vs val i \<longleftrightarrow> i < length vs \<and>
     (vs ! i = val \<or> val < vs ! i \<and> i = 0 \<or>
      vs ! i < val \<and> (i = length vs - 1 \<or> val \<le> vs ! (i + 1) \<or> i + 1 = length vs - 1))"

lemma bucket_loop_stops:
  assumes "vs = bounds m h" "lp \<le> rp" "rp < length vs"
    and "lp = 0 \<or> vs ! lp < val" "rp = length vs - 1 \<or> val < vs ! rp"
  shows "\<exists>i. bucket_loop m h val (int lp) (int rp) ((int rp - int lp) sdiv 2) (nat (int lp + (int rp - int lp) sdiv 2)) = Some i \<and>
    loop_stop vs val i"
  using assms(2-5)
proof (induction "rp - lp" arbitrary: lp rp rule: less_induct)
  case less
  define k where "k = (rp - lp) div 2"
  have d: "(int rp - int lp) sdiv 2 = int k"
    using less.prems(1) by (simp add: signed_divide_int_def sgn_if k_def zdiv_int of_nat_diff)
  have i: "nat (int lp + int k) = lp + k" by simp
  note unfold = bucket_loop.simps [of m h val "int lp" "int rp" "int k" "lp + k"]
  show ?case
  proof (cases "k = 0")
    case True
    then have "rp = lp \<or> rp = Suc lp" using less.prems(1) by (auto simp: k_def)
    then have "loop_stop vs val lp" using less.prems by (auto simp: loop_stop_def)
    then show ?thesis unfolding d i unfold using True by simp
  next
    case False
    then have gap: "lp + k + 1 \<le> rp" "lp + k < rp" "0 < k" by (auto simp: k_def)
    then have read: "get_value m h (lp + k) = Some (vs ! (lp + k))" "get_value m h (lp + k + 1) = Some (vs ! (lp + k + 1))"
      using less.prems(2) assms(1) by (simp_all add: get_value_bounds)
    consider "val = vs ! (lp + k)" | "val < vs ! (lp + k)" | "vs ! (lp + k) < val" "vs ! (lp + k + 1) < val"
      | "vs ! (lp + k) < val" "val \<le> vs ! (lp + k + 1)" by linarith
    then show ?thesis
    proof cases
      case 1
      then show ?thesis unfolding d i unfold using False read gap less.prems(2) by (simp add: loop_stop_def)
    next
      case 2
      have "\<exists>j. bucket_loop m h val (int lp) (int (lp + k)) ((int (lp + k) - int lp) sdiv 2)
          (nat (int lp + (int (lp + k) - int lp) sdiv 2)) = Some j \<and> loop_stop vs val j"
        by (rule less.hyps) (use gap 2 less.prems in auto)
      then show ?thesis unfolding d i unfold using False read(1) 2 by (simp add: Let_def)
    next
      case 3
      have "\<exists>j. bucket_loop m h val (int (lp + k + 1)) (int rp) ((int rp - int (lp + k + 1)) sdiv 2)
          (nat (int (lp + k + 1) + (int rp - int (lp + k + 1)) sdiv 2)) = Some j \<and> loop_stop vs val j"
        by (rule less.hyps) (use gap 3 less.prems in auto)
      then show ?thesis unfolding d i unfold using False read 3 by (simp add: Let_def add.commute add.left_commute)
    next
      case 4
      then show ?thesis unfolding d i unfold using False read gap less.prems(2) by (simp add: loop_stop_def)
    qed
  qed
qed

text \<open>The first round starts at the middle of the width, which is one further than the middle of the
  search range when the width is even.\<close>

lemma bucket_search_stops:
  fixes vs defines "w \<equiv> length vs"
  assumes vs: "vs = bounds m h" and w: "w \<noteq> 0" "w \<noteq> 2 \<or> val \<le> vs ! 1"
  shows "\<exists>i. bucket_loop m h val 0 (int w - 1) (int (w div 2)) (nat (0 + int (w div 2))) = Some i \<and> loop_stop vs val i"
proof (cases "w = 1")
  case True
  then have "loop_stop vs val 0" by (auto simp: loop_stop_def w_def)
  then show ?thesis using True by (subst bucket_loop.simps) simp
next
  case False
  define k where "k = w div 2"
  have k: "0 < k" "k < w" using False w(1) by (auto simp: k_def)
  have read: "get_value m h k = Some (vs ! k)" using k vs by (simp add: get_value_bounds w_def)
  note unfold = bucket_loop.simps [of m h val 0 "int w - 1" "int k" k]
  consider "val = vs ! k" | "val < vs ! k" | "vs ! k < val" by linarith
  then show ?thesis unfolding k_def [symmetric]
  proof cases
    case 1
    then show "\<exists>i. bucket_loop m h val 0 (int w - 1) (int k) (nat (0 + int k)) = Some i \<and> loop_stop vs val i"
      using unfold k read by (simp add: loop_stop_def w_def)
  next
    case 2
    then show "\<exists>i. bucket_loop m h val 0 (int w - 1) (int k) (nat (0 + int k)) = Some i \<and> loop_stop vs val i"
      using unfold k read bucket_loop_stops [OF vs, of 0 k val] by (simp add: w_def Let_def)
  next
    case 3
    have "w \<noteq> 2" using 3 w(2) by (auto simp: k_def)
    then have k1: "k + 1 \<le> w - 1" using k by (auto simp: k_def)
    then have read1: "get_value m h (k + 1) = Some (vs ! (k + 1))" using vs w(1) by (simp add: get_value_bounds w_def)
    show "\<exists>i. bucket_loop m h val 0 (int w - 1) (int k) (nat (0 + int k)) = Some i \<and> loop_stop vs val i"
    proof (cases "vs ! (k + 1) < val")
      case True
      define r where "r = w - 1"
      have r: "int w - 1 = int r" using w(1) by (simp add: r_def of_nat_diff)
      have "bucket_loop m h val 0 (int r) (int k) k =
          bucket_loop m h val (int (k + 1)) (int r) ((int r - int (k + 1)) sdiv 2)
            (nat (int (k + 1) + (int r - int (k + 1)) sdiv 2))"
        using k read read1 3 True
        by (subst bucket_loop.simps) (simp add: Let_def add.commute [of "int k" 1])
      moreover have "\<exists>i. bucket_loop m h val (int (k + 1)) (int r) ((int r - int (k + 1)) sdiv 2)
            (nat (int (k + 1) + (int r - int (k + 1)) sdiv 2)) = Some i \<and> loop_stop vs val i"
        by (rule bucket_loop_stops [OF vs]) (use k1 True w in \<open>simp_all add: w_def r_def\<close>)
      ultimately show ?thesis unfolding r by simp
    next
      case False
      then show ?thesis using unfold k read read1 3 k1 by (auto simp: loop_stop_def w_def)
    qed
  qed
qed

lemma bucket_down_first:
  assumes "vs = bounds m h" "sorted vs" "i < length vs" "vs ! i = val"
  shows "\<exists>r. bucket_down m h val i = Some r \<and> r < length vs \<and> vs ! r = val \<and> (\<forall>j < r. vs ! j < val)"
  using assms(3,4)
proof (induction i)
  case (Suc i)
  have le: "vs ! i \<le> val" using sorted_nth_mono [OF assms(2), of i "Suc i"] Suc.prems by simp
  show ?case
  proof (cases "vs ! i = val")
    case True
    then show ?thesis using Suc assms(1) by (simp add: get_value_bounds)
  next
    case False
    then have "vs ! j < val" if "j < Suc i" for j
      using sorted_nth_mono [OF assms(2), of j i] Suc.prems le that by simp
    then show ?thesis using False Suc.prems assms(1) by (simp add: get_value_bounds)
  qed
qed auto

lemma bucket_up_last:
  assumes "vs = bounds m h" "sorted vs" "i < length vs" "vs ! i = val"
  shows "\<exists>r. bucket_up m h val i = Some r \<and> r < length vs \<and> vs ! r = val \<and> (\<forall>j. r < j \<and> j < length vs \<longrightarrow> val < vs ! j)"
  using assms(3,4)
proof (induction "length vs - i" arbitrary: i rule: less_induct)
  case less
  have w: "get_width h = length vs" by (simp add: assms(1) bounds_def)
  show ?case
  proof (cases "i + 1 < length vs \<and> vs ! (i + 1) = val")
    case True
    then have "\<exists>r. bucket_up m h val (i + 1) = Some r \<and> r < length vs \<and> vs ! r = val \<and>
        (\<forall>j. r < j \<and> j < length vs \<longrightarrow> val < vs ! j)" by (intro less.hyps) auto
    moreover have "bucket_up m h val i = bucket_up m h val (i + 1)"
      using True assms(1) by (subst bucket_up.simps) (simp add: w get_value_bounds)
    ultimately show ?thesis by simp
  next
    case False
    then have "bucket_up m h val i = Some i"
      using assms(1) by (subst bucket_up.simps) (auto simp: w get_value_bounds)
    moreover have "val < vs ! j" if "i < j" "j < length vs" for j
    proof -
      have "vs ! i \<le> vs ! (i + 1)" "vs ! (i + 1) \<le> vs ! j"
        using sorted_nth_mono [OF assms(2)] that by simp_all
      then show ?thesis using False less.prems that by auto
    qed
    ultimately show ?thesis using less.prems by auto
  qed
qed

lemma not_a_bound:
  assumes "sorted vs" "i < length vs" "\<forall>j < i. vs ! j < val" "vs ! i \<noteq> val" "val < vs ! i \<or> i = length vs - 1"
  shows "val \<notin> set vs"
proof
  assume "val \<in> set vs"
  then obtain j where j: "j < length vs" "vs ! j = val" by (auto simp: in_set_conv_nth)
  then have "i < j" using assms(3,4) by (cases j i rule: linorder_cases) auto
  then show False using sorted_nth_mono [OF assms(1), of i j] j assms(5) by auto
qed

text \<open>The step after the loop: to the next bound if the one found is smaller.\<close>

lemma after_loop:
  assumes vs: "sorted vs" and stop: "loop_stop vs val i0"
  defines "i \<equiv> (if val > vs ! i0 \<and> i0 < length vs - 1 then i0 + 1 else i0)"
  shows "i < length vs" "vs ! i = val \<or> (\<forall>j < i. vs ! j < val) \<and> (val < vs ! i \<or> i = length vs - 1)"
proof -
  have i0: "i0 < length vs" using stop by (simp add: loop_stop_def)
  then show "i < length vs" by (auto simp: i_def)
  have below: "vs ! j < val" if "j \<le> i0" "vs ! i0 < val" for j
    using sorted_nth_mono [OF vs that(1) i0] that(2) by simp
  consider "vs ! i0 = val" | "val < vs ! i0" "i0 = 0" | "vs ! i0 < val" "i0 = length vs - 1"
    | "vs ! i0 < val" "i0 < length vs - 1" "val \<le> vs ! (i0 + 1) \<or> i0 + 1 = length vs - 1"
  proof -
    have "i0 = length vs - 1 \<or> i0 < length vs - 1" using i0 by linarith
    then show ?thesis using stop that unfolding loop_stop_def by blast
  qed
  then show "vs ! i = val \<or> (\<forall>j < i. vs ! j < val) \<and> (val < vs ! i \<or> i = length vs - 1)"
  proof cases
    case 3
    then show ?thesis using below by (auto simp: i_def)
  next
    case 4
    then show ?thesis using below by (auto simp: i_def le_less less_Suc_eq_le)
  qed (auto simp: i_def)
qed

lemma find_bucket_found:
  assumes "sorted (bounds m h)" "bounds m h \<noteq> []"
    and "length (bounds m h) = 2 \<Longrightarrow> nat \<lfloor>pos * real (prec_factor h)\<rfloor> \<le> bounds m h ! 1"
  shows "\<exists>r. find_bucket m h pos first = Some r \<and>
    bucket_spec (bounds m h) (nat \<lfloor>pos * real (prec_factor h)\<rfloor>) first r"
proof -
  define vs val where "vs = bounds m h" and "val = nat \<lfloor>pos * real (prec_factor h)\<rfloor>"
  have w: "get_width h = length vs" by (simp add: vs_def bounds_def)
  have gv: "get_value m h i = (if i < length vs then Some (vs ! i) else None)" for i
    by (simp add: get_value_bounds vs_def)
  obtain i0 where loop: "bucket_loop m h val 0 (int (length vs) - 1) (int (length vs div 2))
      (nat (0 + int (length vs div 2))) = Some i0" and stop: "loop_stop vs val i0"
    using bucket_search_stops [OF vs_def, of val] assms(2,3) by (auto simp: vs_def val_def)
  define i where "i = (if val > vs ! i0 \<and> i0 < length vs - 1 then i0 + 1 else i0)"
  have sorted: "sorted vs" using assms(1) by (simp add: vs_def)
  note A = after_loop [OF sorted stop, folded i_def]
  have i0: "i0 < length vs" using stop by (simp add: loop_stop_def)
  have eq: "find_bucket m h pos first =
      (if val = vs ! i then if first then bucket_down m h val i else bucket_up m h val i else Some i)"
  proof -
    have "get_value m h i0 = Some (vs ! i0)" "get_value m h i = Some (vs ! i)" using i0 A(1) by (simp_all add: gv)
    then show ?thesis
      unfolding find_bucket_def Let_def w val_def [symmetric] loop bind.bind_lunit i_def [symmetric]
      by (simp only: bind.bind_lunit i_def [symmetric])
  qed
  show ?thesis
  proof (cases "vs ! i = val")
    case True
    then have "val \<in> set vs" using A(1) by (auto simp: in_set_conv_nth)
    then show ?thesis
      using eq True bucket_down_first [OF vs_def sorted A(1) True] bucket_up_last [OF vs_def sorted A(1) True]
      by (auto simp: bucket_spec_def simp flip: vs_def val_def)
  next
    case False
    then have "val \<notin> set vs" using A not_a_bound [OF sorted A(1)] by blast
    then show ?thesis using eq False A by (auto simp: bucket_spec_def simp flip: vs_def val_def)
  qed
qed

text \<open>
  C12: The binary search for a bucket returns for every position of a histogram with ascending bounds, without
  reading outside it: the first (or last) bound that equals the position, if there is one, else the
  first larger bound, or the last bound if none is larger.  With exactly two bounds this holds for
  positions up to the second one only: beyond it the search reads behind the histogram.
\<close>

theorem find_bucket_correct:
  assumes "sorted (bounds m h)" "bounds m h \<noteq> []"
    and "length (bounds m h) = 2 \<Longrightarrow> nat \<lfloor>pos * real (prec_factor h)\<rfloor> \<le> bounds m h ! 1"
  shows "\<exists>r. find_bucket m h pos first = Some r \<and>
    bucket_spec (bounds m h) (nat \<lfloor>pos * real (prec_factor h)\<rfloor>) first r"
  by (rule find_bucket_found [OF assms])

lemma bucket_le:
  assumes "bucket_spec vs u True r" "bucket_spec vs v False t" "u \<le> v" "sorted vs"
  shows "r \<le> t"
proof (rule ccontr)
  assume "\<not> r \<le> t"
  then have t: "t < r" "r < length vs" "t < length vs" using assms(1,2) by (auto simp: bucket_spec_def)
  then have "vs ! t < u" using assms(1) by (auto simp: bucket_spec_def split: if_splits)
  then show False using assms(2,3) t by (auto simp: bucket_spec_def split: if_splits)
qed

lemma both_buckets_found:
  assumes "sorted (bounds m h)" "bounds m h \<noteq> []" "min_pos \<le> max_pos"
    and "length (bounds m h) = 2 \<Longrightarrow> nat \<lfloor>max_pos * real (prec_factor h)\<rfloor> \<le> bounds m h ! 1"
  shows "\<exists>r t. find_bucket m h min_pos True = Some r \<and> find_bucket m h max_pos False = Some t \<and> r \<le> t \<and> t < get_width h \<and>
    bucket_spec (bounds m h) (nat \<lfloor>min_pos * real (prec_factor h)\<rfloor>) True r \<and>
    bucket_spec (bounds m h) (nat \<lfloor>max_pos * real (prec_factor h)\<rfloor>) False t"
proof -
  have le: "nat \<lfloor>min_pos * real (prec_factor h)\<rfloor> \<le> nat \<lfloor>max_pos * real (prec_factor h)\<rfloor>"
    using assms(3) by (intro nat_mono floor_mono mult_right_mono) simp_all
  then have "length (bounds m h) = 2 \<Longrightarrow> nat \<lfloor>min_pos * real (prec_factor h)\<rfloor> \<le> bounds m h ! 1"
    using assms(4) by simp
  then obtain r where r: "find_bucket m h min_pos True = Some r"
      "bucket_spec (bounds m h) (nat \<lfloor>min_pos * real (prec_factor h)\<rfloor>) True r"
    using find_bucket_found [OF assms(1,2)] by blast
  obtain t where t: "find_bucket m h max_pos False = Some t"
      "bucket_spec (bounds m h) (nat \<lfloor>max_pos * real (prec_factor h)\<rfloor>) False t"
    using find_bucket_found [OF assms(1,2,4)] by blast
  have "t < get_width h" using t(2) by (auto simp: bucket_spec_def bounds_def)
  then show ?thesis using r t bucket_le [OF r(2) t(2) le assms(1)] by blast
qed

text \<open>
  C34: The selectivity of a range of positions is the share of the buckets it touches.  For ascending bounds (at least
  one) and a range whose ends are in order, both ends lie in a bucket as the search specifies it, that of the lower end the
  first and that of the upper end the last one possible, not before it; and the selectivity is exactly the number of buckets
  from the one to the other divided by the \<open>width + 1\<close> buckets of the histogram, hence at least one of them and at most all
  but one.  With exactly two bounds this holds for ranges that end at the second bound or below it; for a range that ends
  beyond it the search reads behind the histogram and the selectivity is left open.  Positions are exact real numbers.
\<close>

theorem range_selectivity_bounds:
  assumes "sorted (bounds m h)" "bounds m h \<noteq> []" "min_pos \<le> max_pos"
    and "length (bounds m h) = 2 \<Longrightarrow> nat \<lfloor>max_pos * real (prec_factor h)\<rfloor> \<le> bounds m h ! 1"
  shows "\<exists>r t. bucket_spec (bounds m h) (nat \<lfloor>min_pos * real (prec_factor h)\<rfloor>) True r \<and>
    bucket_spec (bounds m h) (nat \<lfloor>max_pos * real (prec_factor h)\<rfloor>) False t \<and> r \<le> t \<and>
    range_selectivity m h min_pos max_pos = Some (real (t - r + 1) / (real (get_width h) + 1)) \<and>
    1 \<le> t - r + 1 \<and> t - r + 1 \<le> get_width h"
proof -
  obtain r t where rt: "find_bucket m h min_pos True = Some r" "find_bucket m h max_pos False = Some t" "r \<le> t" "t < get_width h"
      "bucket_spec (bounds m h) (nat \<lfloor>min_pos * real (prec_factor h)\<rfloor>) True r"
      "bucket_spec (bounds m h) (nat \<lfloor>max_pos * real (prec_factor h)\<rfloor>) False t"
    using both_buckets_found [OF assms] by blast
  have "get_width h < 256" using uchar_lt [of "hsize h"] by (auto simp: get_width_def split: Histogram_type.splits)
  moreover have "(of_nat t - of_nat r + 1 :: uint32) = of_nat (t - r + 1)" using rt(3) by (simp add: of_nat_diff)
  ultimately have "unat (of_nat t - of_nat r + 1 :: uint32) = t - r + 1" using rt(4) by (simp only: unat_of_nat) simp
  then have "range_selectivity m h min_pos max_pos = Some (1 / (real (get_width h) + 1) * real (t - r + 1))"
    unfolding range_selectivity_def rt(1,2) by (simp only: bind.bind_lunit)
  then show ?thesis using rt by (intro exI [of _ r] exI [of _ t]) simp
qed

lemma bucket_spec_unique:
  assumes "sorted vs" "bucket_spec vs v first r" "bucket_spec vs v first t"
  shows "r = t"
proof -
  have "\<not> r' < t'" if b: "bucket_spec vs v first r'" "bucket_spec vs v first t'" for r' t'
  proof
    assume "r' < t'"
    then show False using b sorted_nth_mono [OF assms(1), of r' t'] by (auto simp: bucket_spec_def split: if_splits)
  qed
  then show ?thesis using assms(2,3) by (meson linorder_neqE_nat)
qed

text \<open>
  In a histogram with two bounds the search for a position beyond the second bound reads a third one,
  behind the histogram.
\<close>

theorem find_bucket_reads_behind:
  assumes "get_width h = 2" "bounds m h ! 1 < nat \<lfloor>pos * real (prec_factor h)\<rfloor>"
  shows "find_bucket m h pos first = None"
proof -
  define val where "val = nat \<lfloor>pos * real (prec_factor h)\<rfloor>"
  have len: "length (bounds m h) = 2" using assms(1) by (simp add: bounds_def)
  have "bucket_loop m h val 0 1 1 1 = None"
    using assms(2) by (subst bucket_loop.simps) (simp add: get_value_bounds len flip: val_def)
  then show ?thesis by (simp add: find_bucket_def Let_def assms(1) flip: val_def)
qed

text \<open>Three bounds of one byte each, at address 5.\<close>

definition sample_histogram :: Histogram where
  "sample_histogram = \<lparr>htype = SINGLE_PREC_HB, hsize = 3, hvalues = 5\<rparr>"

definition sample_bounds :: mem where
  "sample_bounds = (\<lambda>_. 0)(5 := 10, 6 := 51, 7 := 200)"

lemma sample_histogram_bounds:
  "bounds sample_bounds sample_histogram = [10, 51, 200]" "prec_factor sample_histogram = 255"
  by (simp_all add: bounds_def get_width_def bound_at_def sample_histogram_def sample_bounds_def prec_factor_def upt_rec)

theorem find_bucket_correct_witness:
  "\<exists>r. find_bucket sample_bounds sample_histogram (1 / 5) True = Some r \<and> bucket_spec [10, 51, 200] 51 True r"
  using find_bucket_correct [of sample_bounds sample_histogram "1 / 5" True]
  by (simp add: sample_histogram_bounds)

text \<open>Positions 1/5 and 1/2 scale to 51 and 127: the second and the third bound, two of four buckets.\<close>

theorem range_selectivity_bounds_witness:
  "range_selectivity sample_bounds sample_histogram (1 / 5) (1 / 2) = Some (1 / 2)"
proof -
  have b: "bucket_spec [10, 51, 200] 51 True 1" "bucket_spec [10, 51, 200] 127 False 2"
    by (auto simp: bucket_spec_def less_Suc_eq nth_Cons split: nat.splits)
  have u: "bucket_spec [10, 51, 200] 51 True r \<Longrightarrow> r = 1" "bucket_spec [10, 51, 200] 127 False t \<Longrightarrow> t = 2" for r t
    using b bucket_spec_unique [of "[10, 51, 200]"] by auto
  have "\<lfloor>(255::real) / 2\<rfloor> = 127" by linarith
  moreover have "get_width sample_histogram = 3" by (simp add: get_width_def sample_histogram_def)
  ultimately show ?thesis using range_selectivity_bounds [of sample_bounds sample_histogram "1 / 5" "1 / 2"]
    by (auto simp: sample_histogram_bounds dest!: u)
qed

theorem find_bucket_reads_behind_witness:
  "find_bucket (\<lambda>_. 7) \<lparr>htype = SINGLE_PREC_HB, hsize = 2, hvalues = 5\<rparr> 1 True = None"
  by (rule find_bucket_reads_behind) (simp_all add: get_width_def bounds_def bound_at_def prec_factor_def)

section \<open>Column statistics\<close>

lemma bit_no_values: "bit no_values_provided_bitmap n \<longleftrightarrow> 3 \<le> n \<and> n \<le> 10"
proof -
  have "no_values_provided_bitmap = push_bit 3 (mask 8 :: uint32)"
    by (simp add: no_values_provided_bitmap_def COLUMN_STAT_COLUMN_NAME_def COLUMN_STAT_HISTOGRAM_def mask_eq_exp_minus_1)
  then have "bit no_values_provided_bitmap n \<longleftrightarrow> bit (push_bit 3 (mask 8 :: uint32)) n" by simp
  also have "\<dots> \<longleftrightarrow> 3 \<le> n \<and> n \<le> 10" by (auto simp: bit_push_bit_iff bit_mask_iff)
  finally show ?thesis .
qed

lemma select_update:
  "nulls_ratio (c\<lparr>nulls_ratio := r\<rparr>) = r" "avg_length (c\<lparr>avg_length := r\<rparr>) = r"
  "avg_frequency (c\<lparr>avg_frequency := r\<rparr>) = r"
  by simp_all

lemma stat_is_null_bit: "n < 32 \<Longrightarrow> stat_is_null c n \<longleftrightarrow> bit (column_stat_nulls c) n"
proof -
  assume "n < 32"
  have "column_stat_nulls c AND push_bit n 1 = (if bit (column_stat_nulls c) n then push_bit n 1 else 0)"
    by (intro bit_word_eqI) (auto simp: bit_and_iff bit_exp_iff)
  moreover have "bit (push_bit n (1 :: uint32)) n" using \<open>n < 32\<close> by (simp add: bit_simps)
  ultimately show ?thesis using \<open>n < 32\<close> by (auto simp: stat_is_null_def)
qed

text \<open>
  The NULL flags of a column: after \<open>set_all_nulls\<close> and \<open>set_not_null\<close> for some fields, \<open>is_null\<close> holds
  exactly of the statistical fields (the minimum to the histogram) that were not set.  A ratio that
  is stored and read back loses less than one part in 100000, as long as it fits into the 32 bits it is stored in.
\<close>

theorem column_statistics_roundtrip:
  assumes "n < 32" "0 \<le> x" "x < 42949"
  shows "(stat_is_null (fold (\<lambda>f c. set_not_null c f) fs (set_all_nulls c)) n \<longleftrightarrow> 3 \<le> n \<and> n \<le> 10 \<and> n \<notin> set fs) \<and>
    get_nulls_ratio (set_nulls_ratio c x) \<le> x \<and> x < get_nulls_ratio (set_nulls_ratio c x) + 1 / 100000 \<and>
    get_avg_length (set_avg_length c x) \<le> x \<and> x < get_avg_length (set_avg_length c x) + 1 / 100000 \<and>
    get_avg_frequency (set_avg_frequency c x) \<le> x \<and> x < get_avg_frequency (set_avg_frequency c x) + 1 / 100000"
proof -
  have "bit (column_stat_nulls (fold (\<lambda>f c. set_not_null c f) fs c)) n \<longleftrightarrow> bit (column_stat_nulls c) n \<and> n \<notin> set fs" for c
    using assms(1) by (induction fs arbitrary: c) (auto simp: set_not_null_def bit_simps)
  then have nulls: "stat_is_null (fold (\<lambda>f c. set_not_null c f) fs (set_all_nulls c)) n \<longleftrightarrow> 3 \<le> n \<and> n \<le> 10 \<and> n \<notin> set fs"
    using assms(1) by (simp add: stat_is_null_bit set_all_nulls_def bit_no_values)
  have fl: "0 \<le> \<lfloor>x * 100000\<rfloor>" "\<lfloor>x * 100000\<rfloor> < 4294967296" using assms(2,3) by (simp_all add: floor_less_iff)
  then have "unat (scaled x) = nat \<lfloor>x * 100000\<rfloor>" unfolding scaled_def by (simp only: unat_of_nat) (simp add: nat_less_iff)
  then have sc: "real (unat (scaled x)) = of_int \<lfloor>x * 100000\<rfloor>" using fl by (simp only: of_nat_nat)
  have "of_int \<lfloor>x * 100000\<rfloor> / 100000 \<le> x" "x < of_int \<lfloor>x * 100000\<rfloor> / 100000 + 1 / 100000" by linarith+
  then show ?thesis using nulls
    by (simp only: get_nulls_ratio_def get_avg_length_def get_avg_frequency_def set_nulls_ratio_def
      set_avg_length_def set_avg_frequency_def select_update sc)
qed

theorem column_statistics_roundtrip_witness:
  "\<not> stat_is_null (fold (\<lambda>f c. set_not_null c f) [3, 4] (set_all_nulls
      \<lparr>column_stat_nulls = 0, nulls_ratio = 0, avg_length = 0, avg_frequency = 0\<rparr>)) 4"
  using column_statistics_roundtrip [of 4 0 "[3, 4]" "\<lparr>column_stat_nulls = 0, nulls_ratio = 0, avg_length = 0, avg_frequency = 0\<rparr>"]
  by simp

end
