(* ===== verification/HandlerScan.thy ===== *)
theory HandlerScan
  imports NodeHeap
begin

text \<open>
  The public wrappers of class \<open>handler\<close> (\<^verbatim>\<open>handler.h\<close>) around the calls of a storage engine: opening and
  closing an index scan, a table scan, the prefetching variants of both, index-only reads and
  bulk inserts.  The storage engine is a parameter: a record of the virtual functions the wrappers
  call, each on a state of the engine and with an arbitrary result; an engine may change the member
  \<open>active_index\<close> in any of its functions.  \<open>ha_external_lock\<close>, which sets the lock type, is compiled code and a
  parameter too.  A failing \<open>DBUG_ASSERT\<close> is the
  result \<open>None\<close>.  The theorems say which sequences of calls an engine can see.
\<close>

section \<open>The storage engine\<close>

datatype ha_extra_function = HA_EXTRA_KEYREAD | HA_EXTRA_NO_KEYREAD

record 'e engine =
  index_init :: "'e \<Rightarrow> uint32 \<Rightarrow> bool \<Rightarrow> int \<times> 'e"
  index_end :: "'e \<Rightarrow> int \<times> 'e"
  rnd_init :: "'e \<Rightarrow> bool \<Rightarrow> int \<times> 'e"
  rnd_end :: "'e \<Rightarrow> int \<times> 'e"
  pre_index_init :: "'e \<Rightarrow> uint32 \<Rightarrow> bool \<Rightarrow> int \<times> 'e"
  pre_index_end :: "'e \<Rightarrow> int \<times> 'e"
  pre_rnd_init :: "'e \<Rightarrow> bool \<Rightarrow> int \<times> 'e"
  pre_rnd_end :: "'e \<Rightarrow> int \<times> 'e"
  extra :: "'e \<Rightarrow> ha_extra_function \<Rightarrow> int \<times> 'e"
  extra_opt :: "'e \<Rightarrow> ha_extra_function \<Rightarrow> uint64 \<Rightarrow> int \<times> 'e"
  start_bulk_insert :: "'e \<Rightarrow> uint64 \<Rightarrow> uint32 \<Rightarrow> 'e"
  end_bulk_insert :: "'e \<Rightarrow> int \<times> 'e"
  sets_index :: "'e \<Rightarrow> uint32 \<Rightarrow> uint32"
  locks :: "'e \<Rightarrow> int \<Rightarrow> int \<Rightarrow> int \<times> int \<times> 'e"

text \<open>\<open>sets_index\<close> is the value an engine in the given state leaves in \<open>active_index\<close>; \<open>locks\<close> maps the engine's
  state, the current and the requested lock type to the result of \<open>ha_external_lock\<close>, the lock type
  and the engine's state after it. A successful call sets the requested lock type.\<close>

definition lock_contract :: "'e engine \<Rightarrow> bool" where
  "lock_contract E \<longleftrightarrow> (\<forall>e old new m e1. locks E e old new = (0, m, e1) \<longrightarrow> m = new)"

section \<open>The handler\<close>

definition MAX_KEY :: uint32 where "MAX_KEY = 64"

definition F_UNLCK :: int where "F_UNLCK = 3"

datatype init_stat = NONE | INDEX | RND

record 'e handler =
  engine_state :: 'e
  inited :: init_stat
  pre_inited :: init_stat
  active_index :: uint32
  keyread :: uint32
  end_range :: ptr
  estimation_rows_to_insert :: uint64
  m_lock_type :: int

definition handler_new :: "'e \<Rightarrow> 'e handler" where
  "handler_new e =
     \<lparr>engine_state = e, inited = NONE, pre_inited = NONE, active_index = MAX_KEY, keyread = MAX_KEY,
      end_range = 0, estimation_rows_to_insert = 0, m_lock_type = F_UNLCK\<rparr>"


text \<open>A call of a function of the engine.\<close>

definition engine_do :: "'e engine \<Rightarrow> 'e handler \<Rightarrow> ('e \<Rightarrow> int \<times> 'e) \<Rightarrow> int \<times> 'e handler" where
  "engine_do E h f =
     (let (r, e) = f (engine_state h)
      in (r, h\<lparr>engine_state := e, active_index := sets_index E e (active_index h)\<rparr>))"

definition ha_index_init :: "'e engine \<Rightarrow> 'e handler \<Rightarrow> uint32 \<Rightarrow> bool \<Rightarrow> (int \<times> 'e handler) option" where
  "ha_index_init E h idx srt =
     do { DBUG_ASSERT (inited h = NONE);
          let (result, h1) = engine_do E h (\<lambda>e. index_init E e idx srt);
          Some (result, if result = 0 then h1\<lparr>inited := INDEX, active_index := idx, end_range := 0\<rparr> else h1) }"

definition ha_index_end :: "'e engine \<Rightarrow> 'e handler \<Rightarrow> (int \<times> 'e handler) option" where
  "ha_index_end E h =
     do { DBUG_ASSERT (inited h = INDEX);
          Some (engine_do E (h\<lparr>inited := NONE, active_index := MAX_KEY, end_range := 0\<rparr>) (index_end E)) }"

definition ha_rnd_init :: "'e engine \<Rightarrow> 'e handler \<Rightarrow> bool \<Rightarrow> (int \<times> 'e handler) option" where
  "ha_rnd_init E h scan =
     do { DBUG_ASSERT (inited h = NONE \<or> (inited h = RND \<and> scan));
          let (result, h1) = engine_do E h (\<lambda>e. rnd_init E e scan);
          Some (result, h1\<lparr>inited := if result \<noteq> 0 then NONE else RND, end_range := 0\<rparr>) }"

definition ha_rnd_end :: "'e engine \<Rightarrow> 'e handler \<Rightarrow> (int \<times> 'e handler) option" where
  "ha_rnd_end E h =
     do { DBUG_ASSERT (inited h = RND);
          Some (engine_do E (h\<lparr>inited := NONE, end_range := 0\<rparr>) (rnd_end E)) }"

definition ha_index_or_rnd_end :: "'e engine \<Rightarrow> 'e handler \<Rightarrow> (int \<times> 'e handler) option" where
  "ha_index_or_rnd_end E h =
     (if inited h = INDEX then ha_index_end E h
      else if inited h = RND then ha_rnd_end E h else Some (0, h))"

definition ha_external_lock :: "'e engine \<Rightarrow> 'e handler \<Rightarrow> int \<Rightarrow> int \<times> 'e handler" where
  "ha_external_lock E h lock_type =
     (let (r, m, e) = locks E (engine_state h) (m_lock_type h) lock_type
      in (r, h\<lparr>engine_state := e, m_lock_type := m, active_index := sets_index E e (active_index h)\<rparr>))"

definition keyread_enabled :: "'e handler \<Rightarrow> bool" where
  "keyread_enabled h \<longleftrightarrow> keyread h < MAX_KEY"

definition ha_start_keyread :: "'e engine \<Rightarrow> 'e handler \<Rightarrow> uint32 \<Rightarrow> int \<times> 'e handler" where
  "ha_start_keyread E h idx =
     (let (res, h1) = (if keyread_enabled h then (0, h)
                       else engine_do E h (\<lambda>e. extra_opt E e HA_EXTRA_KEYREAD (ucast idx)))
      in (res, h1\<lparr>keyread := idx\<rparr>))"

definition ha_end_keyread :: "'e engine \<Rightarrow> 'e handler \<Rightarrow> int \<times> 'e handler" where
  "ha_end_keyread E h =
     (if \<not> keyread_enabled h then (0, h)
      else engine_do E (h\<lparr>keyread := MAX_KEY\<rparr>) (\<lambda>e. extra E e HA_EXTRA_NO_KEYREAD))"

definition ha_start_bulk_insert :: "'e engine \<Rightarrow> 'e handler \<Rightarrow> uint64 \<Rightarrow> uint32 \<Rightarrow> 'e handler" where
  "ha_start_bulk_insert E h rows flags =
     snd (engine_do E (h\<lparr>estimation_rows_to_insert := rows\<rparr>) (\<lambda>e. (0, start_bulk_insert E e rows flags)))"

definition ha_end_bulk_insert :: "'e engine \<Rightarrow> 'e handler \<Rightarrow> int \<times> 'e handler" where
  "ha_end_bulk_insert E h = engine_do E (h\<lparr>estimation_rows_to_insert := 0\<rparr>) (end_bulk_insert E)"


definition ha_pre_rnd_init :: "'e engine \<Rightarrow> 'e handler \<Rightarrow> bool \<Rightarrow> (int \<times> 'e handler) option" where
  "ha_pre_rnd_init E h scan =
     do { DBUG_ASSERT (pre_inited h = NONE \<or> (pre_inited h = RND \<and> scan));
          let (result, h1) = engine_do E h (\<lambda>e. pre_rnd_init E e scan);
          Some (result, h1\<lparr>pre_inited := if result \<noteq> 0 then NONE else RND\<rparr>) }"

definition ha_pre_rnd_end :: "'e engine \<Rightarrow> 'e handler \<Rightarrow> (int \<times> 'e handler) option" where
  "ha_pre_rnd_end E h =
     do { DBUG_ASSERT (pre_inited h = RND);
          Some (engine_do E (h\<lparr>pre_inited := NONE\<rparr>) (pre_rnd_end E)) }"

definition ha_pre_index_init :: "'e engine \<Rightarrow> 'e handler \<Rightarrow> uint32 \<Rightarrow> bool \<Rightarrow> (int \<times> 'e handler) option" where
  "ha_pre_index_init E h idx srt =
     do { DBUG_ASSERT (pre_inited h = NONE);
          let (result, h1) = engine_do E h (\<lambda>e. pre_index_init E e idx srt);
          Some (result, if result = 0 then h1\<lparr>pre_inited := INDEX\<rparr> else h1) }"

definition ha_pre_index_end :: "'e engine \<Rightarrow> 'e handler \<Rightarrow> (int \<times> 'e handler) option" where
  "ha_pre_index_end E h =
     do { DBUG_ASSERT (pre_inited h = INDEX);
          Some (engine_do E (h\<lparr>pre_inited := NONE\<rparr>) (pre_index_end E)) }"

definition ha_pre_index_or_rnd_end :: "'e engine \<Rightarrow> 'e handler \<Rightarrow> (int \<times> 'e handler) option" where
  "ha_pre_index_or_rnd_end E h =
     (if pre_inited h = INDEX then ha_pre_index_end E h
      else if pre_inited h = RND then ha_pre_rnd_end E h else Some (0, h))"

section \<open>The requests of a client\<close>

datatype ha_request =
    Index_init uint32 bool | Index_end | Rnd_init bool | Rnd_end | Index_or_rnd_end
  | Start_keyread uint32 | End_keyread | Start_bulk uint64 uint32 | End_bulk
  | Pre_rnd_init bool | Pre_rnd_end | Pre_index_init uint32 bool | Pre_index_end | Pre_index_or_rnd_end
  | External_lock int

fun ha_do :: "'e engine \<Rightarrow> 'e handler \<Rightarrow> ha_request \<Rightarrow> 'e handler option" where
  "ha_do E h (Index_init idx srt) = map_option snd (ha_index_init E h idx srt)"
| "ha_do E h Index_end = map_option snd (ha_index_end E h)"
| "ha_do E h (Rnd_init scan) = map_option snd (ha_rnd_init E h scan)"
| "ha_do E h Rnd_end = map_option snd (ha_rnd_end E h)"
| "ha_do E h Index_or_rnd_end = map_option snd (ha_index_or_rnd_end E h)"
| "ha_do E h (Start_keyread idx) = Some (snd (ha_start_keyread E h idx))"
| "ha_do E h End_keyread = Some (snd (ha_end_keyread E h))"
| "ha_do E h (Start_bulk rows flags) = Some (ha_start_bulk_insert E h rows flags)"
| "ha_do E h End_bulk = Some (snd (ha_end_bulk_insert E h))"
| "ha_do E h (Pre_rnd_init scan) = map_option snd (ha_pre_rnd_init E h scan)"
| "ha_do E h Pre_rnd_end = map_option snd (ha_pre_rnd_end E h)"
| "ha_do E h (Pre_index_init idx srt) = map_option snd (ha_pre_index_init E h idx srt)"
| "ha_do E h Pre_index_end = map_option snd (ha_pre_index_end E h)"
| "ha_do E h Pre_index_or_rnd_end = map_option snd (ha_pre_index_or_rnd_end E h)"
| "ha_do E h (External_lock lock_type) = Some (snd (ha_external_lock E h lock_type))"

fun ha_all :: "'e engine \<Rightarrow> 'e handler \<Rightarrow> ha_request list \<Rightarrow> 'e handler option" where
  "ha_all E h [] = Some h"
| "ha_all E h (r # rs) = do { h1 \<leftarrow> ha_do E h r; ha_all E h1 rs }"

section \<open>An engine that records the calls it gets\<close>

datatype engine_call =
    C_index_init int | C_index_end | C_rnd_init bool int | C_rnd_end
  | C_keyread | C_no_keyread | C_bulk_start | C_bulk_end
  | C_pre_index_init int | C_pre_index_end | C_pre_rnd_init bool int | C_pre_rnd_end
  | C_external_lock int int

type_synonym 'e recorded = "'e \<times> engine_call list"

definition record_call :: "(int \<Rightarrow> engine_call) \<Rightarrow> ('e \<Rightarrow> int \<times> 'e) \<Rightarrow> 'e recorded \<Rightarrow> int \<times> 'e recorded" where
  "record_call c f s = (let (r, e) = f (fst s) in (r, (e, snd s @ [c r])))"

fun extra_call :: "ha_extra_function \<Rightarrow> engine_call" where
  "extra_call HA_EXTRA_KEYREAD = C_keyread"
| "extra_call HA_EXTRA_NO_KEYREAD = C_no_keyread"

definition recorder :: "'e engine \<Rightarrow> 'e recorded engine" where
  "recorder E =
     \<lparr>index_init = \<lambda>s idx srt. record_call C_index_init (\<lambda>e. index_init E e idx srt) s,
      index_end = record_call (\<lambda>_. C_index_end) (index_end E),
      rnd_init = \<lambda>s scan. record_call (C_rnd_init scan) (\<lambda>e. rnd_init E e scan) s,
      rnd_end = record_call (\<lambda>_. C_rnd_end) (rnd_end E),
      pre_index_init = \<lambda>s idx srt. record_call C_pre_index_init (\<lambda>e. pre_index_init E e idx srt) s,
      pre_index_end = record_call (\<lambda>_. C_pre_index_end) (pre_index_end E),
      pre_rnd_init = \<lambda>s scan. record_call (C_pre_rnd_init scan) (\<lambda>e. pre_rnd_init E e scan) s,
      pre_rnd_end = record_call (\<lambda>_. C_pre_rnd_end) (pre_rnd_end E),
      extra = \<lambda>s f. record_call (\<lambda>_. extra_call f) (\<lambda>e. extra E e f) s,
      extra_opt = \<lambda>s f a. record_call (\<lambda>_. extra_call f) (\<lambda>e. extra_opt E e f a) s,
      start_bulk_insert = \<lambda>s rows flags. (start_bulk_insert E (fst s) rows flags, snd s @ [C_bulk_start]),
      end_bulk_insert = record_call (\<lambda>_. C_bulk_end) (end_bulk_insert E),
      sets_index = \<lambda>s. sets_index E (fst s),
      locks = \<lambda>s old new. (let (r, m, e) = locks E (fst s) old new in (r, m, (e, snd s @ [C_external_lock new r])))\<rparr>"

definition calls :: "'e recorded handler \<Rightarrow> engine_call list" where
  "calls h = snd (engine_state h)"

definition unrecorded :: "'e recorded handler \<Rightarrow> 'e handler" where
  "unrecorded h =
     \<lparr>engine_state = fst (engine_state h), inited = inited h, pre_inited = pre_inited h,
      active_index = active_index h, keyread = keyread h, end_range = end_range h,
      estimation_rows_to_insert = estimation_rows_to_insert h, m_lock_type = m_lock_type h\<rparr>"

section \<open>The protocols of an engine\<close>

text \<open>
  What the comments in \<^verbatim>\<open>handler.h\<close> promise an engine: scans do not nest; \<open>rnd_init\<close> may be called again in a
  scan if \<open>scan\<close> is set; an end is called for each scan that was opened.  Each protocol is an automaton over the
  calls, with no result on a call that breaks the rules; calls of the other protocols do not matter.
\<close>

fun scan_protocol :: "init_stat \<Rightarrow> engine_call \<Rightarrow> init_stat option" where
  "scan_protocol s (C_index_init r) = (if s = NONE then Some (if r = 0 then INDEX else NONE) else None)"
| "scan_protocol s C_index_end = (if s = INDEX then Some NONE else None)"
| "scan_protocol s (C_rnd_init scan r) =
     (if s = NONE \<or> (s = RND \<and> scan) then Some (if r = 0 then RND else NONE) else None)"
| "scan_protocol s C_rnd_end = (if s = RND then Some NONE else None)"
| "scan_protocol s _ = Some s"

fun prefetch_protocol :: "init_stat \<Rightarrow> engine_call \<Rightarrow> init_stat option" where
  "prefetch_protocol s (C_pre_index_init r) = (if s = NONE then Some (if r = 0 then INDEX else NONE) else None)"
| "prefetch_protocol s C_pre_index_end = (if s = INDEX then Some NONE else None)"
| "prefetch_protocol s (C_pre_rnd_init scan r) =
     (if s = NONE \<or> (s = RND \<and> scan) then Some (if r = 0 then RND else NONE) else None)"
| "prefetch_protocol s C_pre_rnd_end = (if s = RND then Some NONE else None)"
| "prefetch_protocol s _ = Some s"

fun keyread_protocol :: "bool \<Rightarrow> engine_call \<Rightarrow> bool option" where
  "keyread_protocol on C_keyread = (if on then None else Some True)"
| "keyread_protocol on C_no_keyread = (if on then Some False else None)"
| "keyread_protocol on _ = Some on"

fun follows :: "('m \<Rightarrow> 'c \<Rightarrow> 'm option) \<Rightarrow> 'm \<Rightarrow> 'c list \<Rightarrow> 'm option" where
  "follows P s [] = Some s"
| "follows P s (c # cs) = do { s1 \<leftarrow> P s c; follows P s1 cs }"

lemma follows_append: "follows P s (cs @ ds) = do { s1 \<leftarrow> follows P s cs; follows P s1 ds }"
  by (induction cs arbitrary: s) (simp_all split: bind_split)

text \<open>
  A machine that talks to an environment, and a protocol whose state the machine tracks: if each step emits
  calls that lead the protocol from the tracked state to the new tracked state, every run follows the
  protocol.
\<close>

locale tracked_protocol =
  fixes run_step :: "'s \<Rightarrow> 'r \<Rightarrow> 's option"
    and run_all :: "'s \<Rightarrow> 'r list \<Rightarrow> 's option"
    and allowed :: "'r \<Rightarrow> bool"
    and emitted :: "'s \<Rightarrow> 'c list"
    and protocol :: "'m \<Rightarrow> 'c \<Rightarrow> 'm option"
    and tracked :: "'s \<Rightarrow> 'm"
  assumes run_nil: "run_all s [] = Some s"
    and run_cons: "run_all s (r # rs) = do { s1 \<leftarrow> run_step s r; run_all s1 rs }"
    and step_follows: "run_step s r = Some t \<Longrightarrow> allowed r \<Longrightarrow>
      \<exists>cs. emitted t = emitted s @ cs \<and> follows protocol (tracked s) cs = Some (tracked t)"
begin

lemma emitted_extends:
  assumes "follows protocol m (emitted s) = Some (tracked s)" "run_step s r = Some t" "allowed r"
  shows "follows protocol m (emitted t) = Some (tracked t)"
proof -
  obtain cs where "emitted t = emitted s @ cs" "follows protocol (tracked s) cs = Some (tracked t)"
    using step_follows assms(2,3) by blast
  then show ?thesis using assms(1) by (simp add: follows_append)
qed

lemma run_follows:
  "follows protocol m (emitted s) = Some (tracked s) \<Longrightarrow> run_all s rs = Some t \<Longrightarrow> list_all allowed rs \<Longrightarrow>
   follows protocol m (emitted t) = Some (tracked t)"
  by (induction rs arbitrary: s) (auto simp: run_nil run_cons split: bind_splits dest: emitted_extends)

end

fun request_ok :: "ha_request \<Rightarrow> bool" where
  "request_ok (Start_keyread idx) \<longleftrightarrow> idx < MAX_KEY"
| "request_ok _ \<longleftrightarrow> True"

lemmas ha_defs = engine_do_def ha_external_lock_def ha_index_init_def ha_index_end_def ha_rnd_init_def ha_rnd_end_def ha_index_or_rnd_end_def
  ha_start_keyread_def ha_end_keyread_def ha_start_bulk_insert_def ha_end_bulk_insert_def ha_pre_rnd_init_def
  ha_pre_rnd_end_def ha_pre_index_init_def ha_pre_index_end_def ha_pre_index_or_rnd_end_def

lemmas rec_defs = recorder_def record_call_def calls_def

interpretation scan: tracked_protocol "ha_do (recorder E)" "ha_all (recorder E)" "\<lambda>_. True" calls scan_protocol inited
proof (unfold_locales, goal_cases)
  case (3 s r t)
  then show ?case
    by (cases r) (auto simp: ha_defs rec_defs DBUG_ASSERT_bind Let_def split: prod.splits if_splits)
qed simp_all

interpretation prefetch: tracked_protocol "ha_do (recorder E)" "ha_all (recorder E)" "\<lambda>_. True" calls prefetch_protocol pre_inited
proof (unfold_locales, goal_cases)
  case (3 s r t)
  then show ?case
    by (cases r) (auto simp: ha_defs rec_defs DBUG_ASSERT_bind Let_def split: prod.splits if_splits)
qed simp_all

interpretation keys: tracked_protocol "ha_do (recorder E)" "ha_all (recorder E)" request_ok calls keyread_protocol keyread_enabled
proof (unfold_locales, goal_cases)
  case (3 s r t)
  then show ?case
    by (cases r) (auto simp: ha_defs rec_defs DBUG_ASSERT_bind Let_def keyread_enabled_def split: prod.splits if_splits)
qed simp_all

section \<open>Runs of a handler\<close>

lemma run_follows_protocols:
  assumes "ha_all (recorder E) (handler_new (e, [])) rs = Some h"
  shows "follows scan_protocol NONE (calls h) = Some (inited h)"
    "follows prefetch_protocol NONE (calls h) = Some (pre_inited h)"
    "list_all request_ok rs \<Longrightarrow> follows keyread_protocol False (calls h) = Some (keyread_enabled h)"
  using scan.run_follows [OF _ assms, of NONE] prefetch.run_follows [OF _ assms, of NONE]
    keys.run_follows [OF _ assms, of False]
  by (simp_all add: calls_def handler_new_def keyread_enabled_def list_all_iff)



text \<open>Recording does not change what a handler does.\<close>

lemma ha_do_unrecorded: "ha_do E (unrecorded h) r = map_option unrecorded (ha_do (recorder E) h r)"
  by (cases r) (auto simp: ha_defs rec_defs unrecorded_def keyread_enabled_def DBUG_ASSERT_def Let_def split: prod.splits)

lemma ha_all_unrecorded: "ha_all E (unrecorded h) rs = map_option unrecorded (ha_all (recorder E) h rs)"
  by (induction rs arbitrary: h) (simp_all add: ha_do_unrecorded map_option_bind split: bind_split)

text \<open>
  C5: Whatever a storage engine returns: the requests of a client that fail no assertion make the handler
  call the engine by its protocols.  Index and table scans never nest and each end belongs to an
  open scan, and prefetching scans likewise.  Index-only reading is never switched on twice or off when it
  is not on, provided every \<open>ha_start_keyread\<close> names an index below \<open>MAX_KEY\<close> (the source does not
  assert this; \<open>keyread_switched_on_twice\<close> shows what happens otherwise).  The
  state the handler keeps is the state of the protocol, and recording the calls
  changes nothing in the handler.
\<close>

theorem handler_calls_follow_protocol:
  assumes "ha_all E (handler_new e) rs = Some h"
  shows "\<exists>t. ha_all (recorder E) (handler_new (e, [])) rs = Some t \<and> unrecorded t = h \<and>
    follows scan_protocol NONE (calls t) = Some (inited h) \<and>
    follows prefetch_protocol NONE (calls t) = Some (pre_inited h) \<and>
    (list_all request_ok rs \<longrightarrow> follows keyread_protocol False (calls t) = Some (keyread_enabled h))"
proof -
  have "unrecorded (handler_new (e, [])) = handler_new e" by (simp add: unrecorded_def handler_new_def)
  then have "map_option unrecorded (ha_all (recorder E) (handler_new (e, [])) rs) = Some h"
    using assms ha_all_unrecorded [of E "handler_new (e, [])" rs] by simp
  then obtain t where t: "ha_all (recorder E) (handler_new (e, [])) rs = Some t" "unrecorded t = h" by auto
  have "inited h = inited t" "pre_inited h = pre_inited t" "keyread_enabled h = keyread_enabled t"
    using t(2) by (auto simp: unrecorded_def keyread_enabled_def)
  then show ?thesis using t run_follows_protocols [OF t(1)] by (intro exI [of _ t]) simp
qed

text \<open>An index number that is not below \<open>MAX_KEY\<close> leaves index-only reading marked as off: the next
  \<open>ha_start_keyread\<close> switches it on again, and \<open>ha_end_keyread\<close> never switches it off.\<close>

lemma keyread_switched_on_twice:
  assumes "\<not> idx < MAX_KEY"
  shows "\<exists>t. ha_all (recorder E) (handler_new (e, [])) [Start_keyread idx, Start_keyread idx, End_keyread] = Some t \<and>
    calls t = [C_keyread, C_keyread] \<and> follows keyread_protocol False (calls t) = None"
  using assms
  by (simp add: ha_defs rec_defs handler_new_def keyread_enabled_def split: prod.split)


text \<open>A sample engine: it counts its calls and fails every third one.\<close>

definition sample_call :: "nat \<Rightarrow> int \<times> nat" where
  "sample_call n = (if n mod 3 = 2 then 134 else 0, Suc n)"

definition sample_engine :: "nat engine" where
  "sample_engine =
     \<lparr>index_init = \<lambda>n _ _. sample_call n, index_end = sample_call, rnd_init = \<lambda>n _. sample_call n, rnd_end = sample_call,
      pre_index_init = \<lambda>n _ _. sample_call n, pre_index_end = sample_call,
      pre_rnd_init = \<lambda>n _. sample_call n, pre_rnd_end = sample_call, extra = \<lambda>n _. sample_call n,
      extra_opt = \<lambda>n _ _. sample_call n, start_bulk_insert = \<lambda>n _ _. Suc n, end_bulk_insert = sample_call,
      sets_index = \<lambda>n i. if n = 3 then 0 else i,
      locks = \<lambda>n old new. (let (r, m) = sample_call n in (r, if r = 0 then new else old, m))\<rparr>"

definition sample_requests :: "ha_request list" where
  "sample_requests = [External_lock 1, Index_init 3 True, Index_end, Rnd_init True, Start_keyread 2]"

definition sample_trace :: "engine_call list" where
  "sample_trace = [C_external_lock 1 0, C_index_init 0, C_index_end, C_rnd_init True 0, C_keyread]"

definition sample_handler :: "'e \<Rightarrow> 'e handler" where
  "sample_handler e =
     \<lparr>engine_state = e, inited = RND, pre_inited = NONE, active_index = 0, keyread = 2,
      end_range = 0, estimation_rows_to_insert = 0, m_lock_type = 1\<rparr>"

lemma sample_run:
  "ha_all sample_engine (handler_new 0) sample_requests = Some (sample_handler 5)"
  "ha_all (recorder sample_engine) (handler_new (0, [])) sample_requests = Some (sample_handler (5, sample_trace))"
  by (simp_all add: sample_requests_def sample_engine_def sample_call_def sample_handler_def sample_trace_def
      ha_defs rec_defs handler_new_def keyread_enabled_def MAX_KEY_def)

lemma sample_requests_ok: "list_all request_ok sample_requests" "lock_contract sample_engine"
  by (simp_all add: sample_requests_def MAX_KEY_def lock_contract_def sample_engine_def sample_call_def)

theorem handler_calls_follow_protocol_witness:
  "follows scan_protocol NONE sample_trace = Some RND \<and> follows prefetch_protocol NONE sample_trace = Some NONE \<and>
   follows keyread_protocol False sample_trace = Some True"
  using handler_calls_follow_protocol [OF sample_run(1)] sample_requests_ok
  by (auto simp: sample_run(2) sample_handler_def calls_def keyread_enabled_def MAX_KEY_def)


end
