(* ===== verification/HandlerData.thy ===== *)
theory HandlerData
  imports Complex_Main ByteOrder
begin

text \<open>
  Data that travels through the storage engine interface of \<^verbatim>\<open>handler.h\<close>: the identifiers of distributed
  transactions (\<open>xid_t\<close>), the cost of a plan (\<open>Cost_estimate\<close>) and the classification of engine errors.
  An \<open>xid_t\<close> is the 140 bytes of the structure in memory (three numbers of type \<open>long\<close> and the data), as on a
  little-endian machine, because the code copies and hashes it as bytes; numbers of type \<open>double\<close> are exact real numbers.
\<close>

section \<open>Transaction identifiers\<close>

definition XIDDATASIZE :: nat where "XIDDATASIZE = 128"
definition MYSQL_XID_PREFIX :: "uchar list" where
  "MYSQL_XID_PREFIX = map (\<lambda>c. of_char c) ''MySQLXid''"
definition MYSQL_XID_PREFIX_LEN :: nat where "MYSQL_XID_PREFIX_LEN = 8"
definition MYSQL_XID_OFFSET :: nat where "MYSQL_XID_OFFSET = MYSQL_XID_PREFIX_LEN + 4"
definition MYSQL_XID_GTRID_LEN :: nat where "MYSQL_XID_GTRID_LEN = MYSQL_XID_OFFSET + 8"

definition formatID :: "mem \<Rightarrow> ptr \<Rightarrow> ulong" where "formatID m x = load_le 4 m x"
definition gtrid_length :: "mem \<Rightarrow> ptr \<Rightarrow> ulong" where "gtrid_length m x = load_le 4 m (x + 4)"
definition bqual_length :: "mem \<Rightarrow> ptr \<Rightarrow> ulong" where "bqual_length m x = load_le 4 m (x + 8)"
definition xid_data :: "ptr \<Rightarrow> ptr" where "xid_data x = x + 12"

text \<open>A \<open>long\<close> as the number of bytes to copy or compare: it is converted to \<open>size_t\<close>.\<close>

definition byte_count :: "ulong \<Rightarrow> nat" where "byte_count n = unat (scast n :: uint64)"

definition xid_is_null :: "mem \<Rightarrow> ptr \<Rightarrow> bool" where
  "xid_is_null m x \<longleftrightarrow> formatID m x = - 1"

definition xid_null :: "mem \<Rightarrow> ptr \<Rightarrow> mem" where
  "xid_null m x = store_le 4 m x (- 1 :: ulong)"

text \<open>\<open>eq(g, b, d)\<close>, with \<open>d\<close> an address, and \<open>eq(xid)\<close>.\<close>

definition xid_eq_parts :: "mem \<Rightarrow> ptr \<Rightarrow> ulong \<Rightarrow> ulong \<Rightarrow> ptr \<Rightarrow> bool" where
  "xid_eq_parts m x g b d \<longleftrightarrow>
     \<not> xid_is_null m x \<and> g = gtrid_length m x \<and> b = bqual_length m x \<and>
     bytes_at m d (byte_count (g + b)) = bytes_at m (xid_data x) (byte_count (g + b))"

definition xid_eq :: "mem \<Rightarrow> ptr \<Rightarrow> ptr \<Rightarrow> bool" where
  "xid_eq m x y \<longleftrightarrow> \<not> xid_is_null m y \<and> xid_eq_parts m x (gtrid_length m y) (bqual_length m y) (xid_data y)"

definition xid_key :: "ptr \<Rightarrow> ptr" where "xid_key x = x + 4"

definition xid_key_length :: "mem \<Rightarrow> ptr \<Rightarrow> uint32" where
  "xid_key_length m x = ucast (4 + 4 + (scast (gtrid_length m x) :: uint64) + scast (bqual_length m x))"

definition xid_length :: "mem \<Rightarrow> ptr \<Rightarrow> uint32" where
  "xid_length m x = 4 + xid_key_length m x"

text \<open>The four variants of \<open>set\<close>.  Strings given by address in the code are the bytes found there.\<close>

definition xid_set_xid :: "mem \<Rightarrow> ptr \<Rightarrow> ptr \<Rightarrow> mem" where
  "xid_set_xid m x y = put_bytes m x (bytes_at m y (unat (xid_length m y)))"

definition xid_set_strings :: "mem \<Rightarrow> ptr \<Rightarrow> ulong \<Rightarrow> uchar list \<Rightarrow> ulong \<Rightarrow> uchar list \<Rightarrow> ulong \<Rightarrow> mem" where
  "xid_set_strings m x f g gl b bl =
     (let m1 = store_le 4 m x f;
          m2 = put_bytes (store_le 4 m1 (x + 4) gl) (xid_data x) (take (byte_count gl) g)
      in put_bytes (store_le 4 m2 (x + 8) bl) (nat (int (xid_data x) + sint gl)) (take (byte_count bl) b))"

definition xid_set_parts :: "mem \<Rightarrow> ptr \<Rightarrow> ulong \<Rightarrow> ulong \<Rightarrow> uchar list \<Rightarrow> mem" where
  "xid_set_parts m x g b d =
     (let m1 = store_le 4 (store_le 4 (store_le 4 m x (1 :: ulong)) (x + 4) g) (x + 8) b
      in put_bytes m1 (xid_data x) (take (byte_count (g + b)) d))"

definition xid_set_my :: "ulong \<Rightarrow> mem \<Rightarrow> ptr \<Rightarrow> uint64 \<Rightarrow> mem" where
  "xid_set_my server_id m x xid =
     (let m1 = store_le 4 m x (1 :: ulong);
          m2 = xid_set_parts m1 x (of_nat MYSQL_XID_PREFIX_LEN) 0 MYSQL_XID_PREFIX;
          m3 = store_le 4 m2 (xid_data x + MYSQL_XID_PREFIX_LEN) server_id;
          m4 = store_le 8 m3 (xid_data x + MYSQL_XID_OFFSET) xid
      in store_le 4 m4 (x + 4) (of_nat MYSQL_XID_GTRID_LEN :: ulong))"

definition quick_get_my_xid :: "mem \<Rightarrow> ptr \<Rightarrow> uint64" where
  "quick_get_my_xid m x = load_le 8 m (xid_data x + MYSQL_XID_OFFSET)"

definition get_my_xid :: "mem \<Rightarrow> ptr \<Rightarrow> uint64" where
  "get_my_xid m x =
     (if gtrid_length m x = of_nat MYSQL_XID_GTRID_LEN \<and> bqual_length m x = 0 \<and>
         bytes_at m (xid_data x) MYSQL_XID_PREFIX_LEN = MYSQL_XID_PREFIX
      then quick_get_my_xid m x else 0)"

section \<open>Costs\<close>

record Cost_estimate =
  io_count :: real
  avg_io_cost :: real
  cpu_cost :: real
  import_cost :: real
  mem_cost :: real

definition IO_COEFF :: real where "IO_COEFF = 1"
definition CPU_COEFF :: real where "CPU_COEFF = 1"
definition MEM_COEFF :: real where "MEM_COEFF = 1"
definition IMPORT_COEFF :: real where "IMPORT_COEFF = 1"

definition total_cost :: "Cost_estimate \<Rightarrow> real" where
  "total_cost c =
     IO_COEFF * io_count c * avg_io_cost c + CPU_COEFF * cpu_cost c + MEM_COEFF * mem_cost c + IMPORT_COEFF * import_cost c"

definition cost_is_zero :: "Cost_estimate \<Rightarrow> bool" where
  "cost_is_zero c \<longleftrightarrow> io_count c = 0 \<and> cpu_cost c = 0 \<and> import_cost c = 0 \<and> mem_cost c = 0"

definition cost_reset :: Cost_estimate where
  "cost_reset = \<lparr>io_count = 0, avg_io_cost = 1, cpu_cost = 0, import_cost = 0, mem_cost = 0\<rparr>"

definition cost_multiply :: "Cost_estimate \<Rightarrow> real \<Rightarrow> Cost_estimate" where
  "cost_multiply c k =
     c\<lparr>io_count := io_count c * k, cpu_cost := cpu_cost c * k, import_cost := import_cost c * k\<rparr>"

definition add_io :: "Cost_estimate \<Rightarrow> real \<Rightarrow> real \<Rightarrow> Cost_estimate" where
  "add_io c add_io_cnt add_avg_cost =
     (if add_io_cnt > 0
      then let io_count_sum = io_count c + add_io_cnt
           in c\<lparr>avg_io_cost := (io_count c * avg_io_cost c + add_io_cnt * add_avg_cost) / io_count_sum,
                io_count := io_count_sum\<rparr>
      else c)"

definition cost_add :: "Cost_estimate \<Rightarrow> Cost_estimate \<Rightarrow> Cost_estimate" where
  "cost_add c d =
     (let io_count_sum = io_count c + io_count d;
          c1 = (add_io c (io_count d) (avg_io_cost d))\<lparr>io_count := io_count_sum\<rparr>
      in c1\<lparr>cpu_cost := cpu_cost c1 + cpu_cost d\<rparr>)"

definition add_cpu :: "Cost_estimate \<Rightarrow> real \<Rightarrow> Cost_estimate" where
  "add_cpu c x = c\<lparr>cpu_cost := cpu_cost c + x\<rparr>"

definition add_import :: "Cost_estimate \<Rightarrow> real \<Rightarrow> Cost_estimate" where
  "add_import c x = c\<lparr>import_cost := import_cost c + x\<rparr>"

definition add_mem :: "Cost_estimate \<Rightarrow> real \<Rightarrow> Cost_estimate" where
  "add_mem c x = c\<lparr>mem_cost := mem_cost c + x\<rparr>"

definition convert_from_cost :: "real \<Rightarrow> Cost_estimate" where
  "convert_from_cost cost = cost_reset\<lparr>io_count := cost\<rparr>"

section \<open>Errors of an engine\<close>

definition HA_CHECK_DUP_KEY :: uint32 where "HA_CHECK_DUP_KEY = 1"
definition HA_CHECK_DUP_UNIQUE :: uint32 where "HA_CHECK_DUP_UNIQUE = 2"
definition HA_CHECK_FK_ERROR :: uint32 where "HA_CHECK_FK_ERROR = 4"
definition HA_ERR_FOUND_DUPP_KEY :: int where "HA_ERR_FOUND_DUPP_KEY = 121"
definition HA_ERR_FOUND_DUPP_UNIQUE :: int where "HA_ERR_FOUND_DUPP_UNIQUE = 141"
definition HA_ERR_NO_REFERENCED_ROW :: int where "HA_ERR_NO_REFERENCED_ROW = 151"
definition HA_ERR_ROW_IS_REFERENCED :: int where "HA_ERR_ROW_IS_REFERENCED = 152"
definition HA_ERR_AUTOINC_ERANGE :: int where "HA_ERR_AUTOINC_ERANGE = 167"

definition is_fatal_error :: "int \<Rightarrow> uint32 \<Rightarrow> bool" where
  "is_fatal_error error flags =
     (\<not> (error = 0 \<or>
         (flags AND HA_CHECK_DUP_KEY \<noteq> 0 \<and> (error = HA_ERR_FOUND_DUPP_KEY \<or> error = HA_ERR_FOUND_DUPP_UNIQUE)) \<or>
         error = HA_ERR_AUTOINC_ERANGE \<or>
         (flags AND HA_CHECK_FK_ERROR \<noteq> 0 \<and> (error = HA_ERR_ROW_IS_REFERENCED \<or> error = HA_ERR_NO_REFERENCED_ROW))))"

lemmas xid_fields = formatID_def gtrid_length_def bqual_length_def xid_data_def xid_is_null_def


section \<open>Transaction identifiers: sets, copies and keys\<close>

definition xid_ok :: "mem \<Rightarrow> ptr \<Rightarrow> bool" where
  "xid_ok m x \<longleftrightarrow> unat (gtrid_length m x) + unat (bqual_length m x) \<le> XIDDATASIZE"

lemma byte_count_small: "unat (n :: ulong) \<le> 128 \<Longrightarrow> unat (scast n :: uint64) = unat n"
proof -
  assume "unat n \<le> 128"
  then have "sint n = int (unat n)" by (intro sint_nonneg) simp
  then have "(scast n :: uint64) = of_nat (unat n)" by (metis of_int_of_nat_eq of_int_sint)
  then have "unat (scast n :: uint64) = unat n mod 2 ^ 64" by (simp only: unat_of_nat) simp
  then show ?thesis using \<open>unat n \<le> 128\<close> by simp
qed

lemma xid_ok_lengths:
  assumes "xid_ok m x"
  shows "byte_count (gtrid_length m x + bqual_length m x) = unat (gtrid_length m x) + unat (bqual_length m x)"
    "unat (xid_key_length m x) = 8 + byte_count (gtrid_length m x + bqual_length m x)"
    "unat (xid_length m x) = 12 + byte_count (gtrid_length m x + bqual_length m x)"
proof -
  let ?g = "gtrid_length m x" and ?b = "bqual_length m x"
  have le: "unat ?g + unat ?b \<le> 128" using assms by (simp add: xid_ok_def XIDDATASIZE_def)
  then have s: "unat (?g + ?b) = unat ?g + unat ?b" by (subst unat_word_ariths) simp
  then show c: "byte_count (?g + ?b) = unat ?g + unat ?b" using le by (simp add: byte_count_def byte_count_small)
  have g: "unat (scast ?g :: uint64) = unat ?g" "unat (scast ?b :: uint64) = unat ?b" using le by (simp_all add: byte_count_small)
  have "unat (4 + 4 + scast ?g + scast ?b :: uint64) = 8 + (unat ?g + unat ?b)" using le g by (simp add: unat_word_ariths)
  then show k: "unat (xid_key_length m x) = 8 + byte_count (?g + ?b)"
    using le c unfolding xid_key_length_def by (subst unat_ucast_eq_mod) simp
  then show "unat (xid_length m x) = 12 + byte_count (?g + ?b)"
    using le c unfolding xid_length_def by (subst unat_word_ariths) simp
qed

text \<open>The bytes of the key: the two lengths and the data they count.\<close>

lemma xid_key_bytes:
  assumes "xid_ok m x"
  shows "bytes_at m (xid_key x) (unat (xid_key_length m x)) =
    le_bytes 4 (unat (gtrid_length m x)) @ le_bytes 4 (unat (bqual_length m x)) @
    bytes_at m (xid_data x) (byte_count (gtrid_length m x + bqual_length m x))"
proof -
  have "bytes_at m (x + 4) (8 + n) = bytes_at m (x + 4) 4 @ bytes_at m (x + 8) 4 @ bytes_at m (x + 12) n" for n
    using bytes_at_append [of m "x + 4" 4 "4 + n"] bytes_at_append [of m "x + 8" 4 n] by (simp add: add.commute)
  then show ?thesis
    by (simp add: xid_ok_lengths(2) [OF assms] xid_key_def gtrid_length_def bqual_length_def xid_data_def le_bytes_load4)
qed

lemma le_bytes_8_inj: "le_bytes 8 (unat (a :: uint64)) = le_bytes 8 (unat b) \<longleftrightarrow> a = b"
proof
  assume "le_bytes 8 (unat a) = le_bytes 8 (unat b)"
  then have "le_nat (le_bytes 8 (unat a)) = le_nat (le_bytes 8 (unat b))" by simp
  then show "a = b" by (simp add: le_nat_le_bytes uint64_lt word_eq_unatI)
qed simp

lemma le_bytes_4_inj: "le_bytes 4 (unat (a :: ulong)) = le_bytes 4 (unat b) \<longleftrightarrow> a = b"
proof
  assume "le_bytes 4 (unat a) = le_bytes 4 (unat b)"
  then have "le_nat (le_bytes 4 (unat a)) = le_nat (le_bytes 4 (unat b))" by simp
  then show "a = b" by (simp add: le_nat_le_bytes uint32_lt word_eq_unatI)
qed simp

text \<open>
  The hash key of an identifier agrees with its equality: two identifiers that are not null are
  equal exactly if the bytes from \<open>key()\<close> on, \<open>key_length()\<close> many, are the same.
\<close>

theorem xid_eq_iff_same_key:
  assumes "xid_ok m x" "xid_ok m y"
  shows "xid_eq m x y \<longleftrightarrow> \<not> xid_is_null m x \<and> \<not> xid_is_null m y \<and>
    bytes_at m (xid_key x) (unat (xid_key_length m x)) = bytes_at m (xid_key y) (unat (xid_key_length m y))"
  unfolding xid_key_bytes [OF assms(1)] xid_key_bytes [OF assms(2)]
  by (auto simp: xid_eq_def xid_eq_parts_def append_eq_append_conv le_bytes_4_inj)

lemma xid_copy_bytes:
  assumes "disjoint_areas x y 140" "xid_ok m y" "i + n \<le> unat (xid_length m y)"
  shows "bytes_at (xid_set_xid m x y) (x + i) n = bytes_at m (y + i) n"
    "bytes_at (xid_set_xid m x y) (y + i) n = bytes_at m (y + i) n"
proof -
  have "unat (xid_length m y) \<le> 140"
    using assms(2) by (simp add: xid_ok_lengths xid_ok_def XIDDATASIZE_def)
  then show "bytes_at (xid_set_xid m x y) (y + i) n = bytes_at m (y + i) n"
    using assms(1,3) unfolding xid_set_xid_def by (intro bytes_at_put_other) auto
  show "bytes_at (xid_set_xid m x y) (x + i) n = bytes_at m (y + i) n"
    using assms(3) by (intro nth_equalityI) (simp_all add: nth_bytes_at xid_set_xid_def put_bytes_apply add.assoc)
qed

lemma load_le_cong: "bytes_at m p n = bytes_at m' q n \<Longrightarrow> load_le n m p = load_le n m' q"
  by (simp add: load_le_def)

text \<open>
  Copying an identifier to another place copies its format, its lengths and the data they count, so the
  copy equals the original and carries the same internal transaction number; the bytes behind are
  not touched.
\<close>

theorem xid_copy_equal:
  assumes "disjoint_areas x y 140" "xid_ok m y"
  defines "c \<equiv> xid_set_xid m x y"
  shows "formatID c x = formatID m y \<and> gtrid_length c x = gtrid_length m y \<and> bqual_length c x = bqual_length m y \<and>
    (xid_eq c x y \<longleftrightarrow> \<not> xid_is_null m y) \<and>
    bytes_at c (xid_data x) (unat (gtrid_length m y) + unat (bqual_length m y)) =
      bytes_at m (xid_data y) (unat (gtrid_length m y) + unat (bqual_length m y)) \<and>
    (\<forall>a. a < x \<or> x + 12 + unat (gtrid_length m y) + unat (bqual_length m y) \<le> a \<longrightarrow> c a = m a)"
proof -
  note len = xid_ok_lengths [OF assms(2)]
  note b = xid_copy_bytes [OF assms(1,2), folded c_def]
  have hd: "load_le 4 c (x + i) = (load_le 4 m (y + i) :: ulong)" "load_le 4 c (y + i) = (load_le 4 m (y + i) :: ulong)"
    if "i \<le> 8" for i using b [of i 4] that len(3) by (auto intro: load_le_cong)
  have f: "formatID c x = formatID m y" "formatID c y = formatID m y" "gtrid_length c x = gtrid_length m y"
    "gtrid_length c y = gtrid_length m y" "bqual_length c x = bqual_length m y" "bqual_length c y = bqual_length m y"
    using hd [of 0] hd [of 4] hd [of 8] by (simp_all add: formatID_def gtrid_length_def bqual_length_def)
  let ?n = "byte_count (gtrid_length m y + bqual_length m y)"
  have d: "bytes_at c (x + 12) ?n = bytes_at m (y + 12) ?n" "bytes_at c (y + 12) ?n = bytes_at m (y + 12) ?n"
    using b [of 12 ?n] len(3) by auto
  have "xid_eq c x y \<longleftrightarrow> \<not> xid_is_null m y"
    using f d by (auto simp: xid_eq_def xid_eq_parts_def xid_is_null_def xid_data_def)
  moreover have "\<forall>a. a < x \<or> x + 12 + unat (gtrid_length m y) + unat (bqual_length m y) \<le> a \<longrightarrow> c a = m a"
    using len by (auto simp: c_def xid_set_xid_def put_bytes_outside)
  ultimately show ?thesis using f d len(1) by (simp add: xid_data_def)
qed

lemma prefix_length [simp]: "length MYSQL_XID_PREFIX = 8"
  by (simp add: MYSQL_XID_PREFIX_def)

lemmas xid_consts = MYSQL_XID_PREFIX_LEN_def MYSQL_XID_OFFSET_def MYSQL_XID_GTRID_LEN_def

lemma xid_set_my_fields:
  fixes m x v s defines "c \<equiv> xid_set_my s m x v"
  shows "formatID c x = 1" "gtrid_length c x = 20" "bqual_length c x = 0"
    "bytes_at c (x + 12) 8 = MYSQL_XID_PREFIX" "load_le 4 c (x + 20) = s" "load_le 8 c (x + 24) = v"
  unfolding c_def
  by (simp_all add: xid_set_my_def xid_set_parts_def Let_def xid_fields xid_consts struct_simps byte_count_def add.commute [of _ x])

text \<open>
  The identifier the server makes for its own transactions: whatever was in the structure before, after
  \<open>set(xid)\<close> it is not null and \<open>get_my_xid\<close> returns the number, and two such identifiers of one
  server are equal exactly if their numbers are.
\<close>

theorem my_xid_roundtrip:
  assumes "disjoint_areas x y 140"
  shows "get_my_xid (xid_set_my s m x a) x = a \<and> \<not> xid_is_null (xid_set_my s m x a) x \<and>
    (xid_eq (xid_set_my s (xid_set_my s m x a) y b) x y \<longleftrightarrow> a = b)"
proof -
  let ?c = "xid_set_my s (xid_set_my s m x a) y b"
  have own: "get_my_xid (xid_set_my s m x a) x = a \<and> \<not> xid_is_null (xid_set_my s m x a) x"
    by (simp add: get_my_xid_def quick_get_my_xid_def xid_set_my_fields xid_is_null_def xid_consts xid_data_def add.commute [of _ x])
  have other: "load_le 8 ?c (x + i) = (load_le 8 (xid_set_my s m x a) (x + i) :: uint64)"
     "load_le 4 ?c (x + i) = (load_le 4 (xid_set_my s m x a) (x + i) :: ulong)"
     "bytes_at ?c (x + i) 8 = bytes_at (xid_set_my s m x a) (x + i) 8" if "i \<le> 132" for i
    using assms that
    by (auto simp: xid_set_my_def [of _ _ y] xid_set_parts_def Let_def xid_fields xid_consts struct_simps bytes_at_put_other)
  note fx = xid_set_my_fields [of s m x a]
  have x: "formatID ?c x = 1" "gtrid_length ?c x = 20" "bqual_length ?c x = 0"
      "bytes_at ?c (x + 12) 8 = MYSQL_XID_PREFIX" "load_le 4 ?c (x + 20) = s" "load_le 8 ?c (x + 24) = a"
    using other(2) [of 0] other(2) [of 4] other(2) [of 8] other(3) [of 12] other(2) [of 20] other(1) [of 24] fx
    by (simp_all add: xid_fields)
  note y = xid_set_my_fields [of s "xid_set_my s m x a" y b]
  have split20: "bytes_at ?c (p + 12) 20 = bytes_at ?c (p + 12) 8 @ le_bytes 4 (unat (load_le 4 ?c (p + 20) :: ulong)) @
      le_bytes 8 (unat (load_le 8 ?c (p + 24) :: uint64))" for p
    using bytes_at_append [of ?c "p + 12" 8 12] bytes_at_append [of ?c "p + 20" 4 8]
    by (simp add: le_bytes_load le_bytes_load4 add.commute [of _ p])
  have "xid_eq ?c x y \<longleftrightarrow> bytes_at ?c (y + 12) 20 = bytes_at ?c (x + 12) 20"
    using x(1-3) y(1-3) by (simp add: xid_eq_def xid_eq_parts_def xid_is_null_def xid_data_def byte_count_def)
  also have "\<dots> \<longleftrightarrow> a = b"
    using x(4-6) y(4-6) split20 [of x] split20 [of y] by (auto simp: le_bytes_8_inj)
  finally show ?thesis using own by blast
qed

section \<open>Costs\<close>

text \<open>
  Adding the cost of one step to another: the I/O and CPU parts of the total are added exactly, whatever the
  average I/O costs are; the memory and import parts of the added cost are dropped.  Scaling
  multiplies everything but the memory part.
\<close>

theorem cost_add_total:
  assumes "0 \<le> io_count c" "0 \<le> io_count d"
  shows "total_cost (cost_add c d) = total_cost c + total_cost d - mem_cost d - import_cost d \<and>
    total_cost (cost_multiply c k) = k * (total_cost c - mem_cost c) + mem_cost c \<and>
    total_cost cost_reset = 0 \<and> total_cost (convert_from_cost r) = r"
proof (cases "io_count d = 0")
  case True
  then show ?thesis
    by (simp add: total_cost_def cost_add_def add_io_def cost_multiply_def convert_from_cost_def cost_reset_def
        IO_COEFF_def CPU_COEFF_def MEM_COEFF_def IMPORT_COEFF_def algebra_simps)
next
  case False
  then have "0 < io_count c + io_count d" "0 < io_count d" using assms by auto
  then show ?thesis
    by (simp add: total_cost_def cost_add_def add_io_def Let_def cost_multiply_def convert_from_cost_def cost_reset_def
        IO_COEFF_def CPU_COEFF_def MEM_COEFF_def IMPORT_COEFF_def field_simps)
qed

section \<open>Errors\<close>

text \<open>
  The flag for duplicate unique values decides nothing: whether an error is fatal depends only on the flags for
  duplicate keys and foreign keys, and with no flag set only success and an exhausted
  auto-increment column are not fatal.
\<close>

theorem is_fatal_error_flags:
  "is_fatal_error error (flags OR HA_CHECK_DUP_UNIQUE) = is_fatal_error error flags \<and>
   (is_fatal_error error 0 \<longleftrightarrow> error \<noteq> 0 \<and> error \<noteq> HA_ERR_AUTOINC_ERANGE)"
proof -
  have "(flags OR 2) AND k = flags AND k" if "2 AND k = 0" for k :: uint32
    using that by (simp add: bit.conj_disj_distrib2)
  from this [of 1] this [of 4] show ?thesis
    by (simp add: is_fatal_error_def HA_CHECK_DUP_UNIQUE_def HA_CHECK_DUP_KEY_def HA_CHECK_FK_ERROR_def)
qed

section \<open>Concrete cases\<close>

lemma sample_xid: "xid_ok (xid_set_my 1 m x v) x" "\<not> xid_is_null (xid_set_my 1 m x v) x"
  by (simp_all add: xid_ok_def XIDDATASIZE_def xid_is_null_def xid_set_my_fields)

theorem xid_eq_iff_same_key_witness:
  "xid_eq (xid_set_my 1 (\<lambda>_. 0) 0 7) 0 0"
  using xid_eq_iff_same_key [OF sample_xid(1) sample_xid(1)] sample_xid(2) by blast

theorem xid_copy_equal_witness:
  "xid_eq (xid_set_xid (xid_set_my 1 (\<lambda>_. 0) 200 7) 0 200) 0 200"
  using xid_copy_equal [of 0 200 "xid_set_my 1 (\<lambda>_. 0) 200 7"] sample_xid by simp

theorem my_xid_roundtrip_witness:
  "get_my_xid (xid_set_my 1 (\<lambda>_. 0) 0 7) 0 = 7 \<and> \<not> xid_eq (xid_set_my 1 (xid_set_my 1 (\<lambda>_. 0) 0 7) 200 8) 0 200"
  using my_xid_roundtrip [of 0 200 1 "\<lambda>_. 0" 7 8] by simp

theorem cost_add_total_witness:
  "total_cost (cost_add \<lparr>io_count = 2, avg_io_cost = 3, cpu_cost = 1, import_cost = 0, mem_cost = 0\<rparr>
     \<lparr>io_count = 4, avg_io_cost = 1, cpu_cost = 1, import_cost = 5, mem_cost = 6\<rparr>) = 12"
  using cost_add_total [of "\<lparr>io_count = 2, avg_io_cost = 3, cpu_cost = 1, import_cost = 0, mem_cost = 0\<rparr>"
     "\<lparr>io_count = 4, avg_io_cost = 1, cpu_cost = 1, import_cost = 5, mem_cost = 6\<rparr>" 1 1]
  by (simp add: total_cost_def IO_COEFF_def CPU_COEFF_def MEM_COEFF_def IMPORT_COEFF_def)

end
