(* ===== verification/ProfQueue.thy ===== *)
theory ProfQueue
  imports NodeHeap Containers
begin

text \<open>
  The queue template of \<^verbatim>\<open>sql_profile.h\<close> that keeps the measurements of a profiled query: a doubly linked list
  of items that \<open>push_back\<close> allocates and \<open>pop\<close> and \<open>empty\<close> free.  The result of \<open>my_malloc\<close> is an argument: the address
  (null if it failed) and the bytes that happen to be there.
\<close>

section \<open>The queue\<close>

record queue_item =
  payload :: ptr
  q_next :: ptr
  previous :: ptr

record Queue =
  q_first :: ptr
  q_last :: ptr
  elements :: ulong

type_synonym queue_state = "queue_item node_heap \<times> Queue"
type_synonym my_malloc_result = "ptr \<times> queue_item"

definition queue_new :: Queue where
  "queue_new = \<lparr>q_first = 0, q_last = 0, elements = 0\<rparr>"

definition queue_empty :: "queue_state \<Rightarrow> queue_state option" where
  "queue_empty s = do { h \<leftarrow> free_all q_next (fst s) (q_first (snd s)); Some (h, (snd s)\<lparr>elements := 0\<rparr>) }"

definition my_malloc :: "queue_item node_heap \<Rightarrow> my_malloc_result \<Rightarrow> queue_item node_heap" where
  "my_malloc h r = (if fst r = 0 then h else h(fst r \<mapsto> snd r))"

definition queue_push_back :: "my_malloc_result \<Rightarrow> queue_state \<Rightarrow> ptr \<Rightarrow> queue_state option" where
  "queue_push_back r s pl =
     (let (h, q) = s; new_item = fst r; first1 = (if q_first q = 0 then new_item else q_first q)
      in do { h2 \<leftarrow> write_node (my_malloc h r) new_item (payload_update (\<lambda>_. pl));
              h3 \<leftarrow> (if q_last q \<noteq> 0
                    then do { l \<leftarrow> read_node h2 (q_last q);
                              DBUG_ASSERT (q_next l = 0);
                              write_node h2 (q_last q) (q_next_update (\<lambda>_. new_item)) }
                    else Some h2);
              h4 \<leftarrow> write_node h3 new_item (previous_update (\<lambda>_. q_last q));
              h5 \<leftarrow> write_node h4 new_item (q_next_update (\<lambda>_. 0));
              Some (h5, q\<lparr>q_first := first1, q_last := new_item, elements := elements q + 1\<rparr>) })"

definition queue_pop :: "queue_state \<Rightarrow> (ptr \<times> queue_state) option" where
  "queue_pop s =
     (let (h, q) = s; old_item = q_first q
      in if q_first q = 0 then Some (0, s)
         else do { i \<leftarrow> read_node h old_item;
                   (h1, last1) \<leftarrow> (if q_next i \<noteq> 0
                                  then do { h1 \<leftarrow> write_node h (q_next i) (previous_update (\<lambda>_. 0)); Some (h1, q_last q) }
                                  else Some (h, 0));
                   f \<leftarrow> read_node h1 (q_first q);
                   h2 \<leftarrow> free_node h1 old_item;
                   Some (payload i, (h2, q\<lparr>q_first := q_next f, q_last := last1, elements := elements q - 1\<rparr>)) })"

definition queue_is_empty :: "Queue \<Rightarrow> bool option" where
  "queue_is_empty q =
     do { DBUG_ASSERT ((elements q > 0 \<and> q_first q \<noteq> 0) \<or> (elements q = 0 \<or> q_first q = 0));
          Some (elements q = 0) }"

definition new_iterator :: "Queue \<Rightarrow> ptr" where
  "new_iterator q = q_first q"

definition iterator_next :: "queue_item node_heap \<Rightarrow> ptr \<Rightarrow> ptr option" where
  "iterator_next h current = map_option q_next (read_node h current)"

definition iterator_value :: "queue_item node_heap \<Rightarrow> ptr \<Rightarrow> ptr option" where
  "iterator_value h current = map_option payload (read_node h current)"

section \<open>What a queue holds\<close>

text \<open>The items from \<open>p\<close> on, each with its payload, the link back starting with \<open>prev\<close>.\<close>

fun items :: "queue_item node_heap \<Rightarrow> ptr \<Rightarrow> ptr \<Rightarrow> (ptr \<times> ptr) list \<Rightarrow> bool" where
  "items h prev p [] \<longleftrightarrow> p = 0"
| "items h prev p ((a, v) # es) \<longleftrightarrow>
     p = a \<and> a \<noteq> 0 \<and> (\<exists>n. h a = Some n \<and> payload n = v \<and> previous n = prev \<and> items h a (q_next n) es)"

definition queue_holds :: "queue_state \<Rightarrow> (ptr \<times> ptr) list \<Rightarrow> bool" where
  "queue_holds s es \<longleftrightarrow>
     items (fst s) 0 (q_first (snd s)) es \<and> q_last (snd s) = (if es = [] then 0 else fst (List.last es)) \<and>
     elements (snd s) = of_nat (length es) \<and> distinct (map fst es)"

lemma items_chain: "items h prev p es \<Longrightarrow> chain q_next h p (map fst es)"
  by (induction h prev p es rule: items.induct) auto

lemma items_upd [heap_simps]: "a \<notin> fst ` set es \<Longrightarrow> items (h(a := x)) prev p es \<longleftrightarrow> items h prev p es"
  by (induction es arbitrary: prev p) auto

lemma items_null [simp]: "items h prev 0 es \<longleftrightarrow> es = []"
  by (cases "(h, prev, 0 :: ptr, es)" rule: items.cases) auto

lemma items_prev: "items h prev p ((a, v) # es) \<Longrightarrow> a \<notin> fst ` set es \<Longrightarrow>
    items (h(a \<mapsto> (the (h a))\<lparr>previous := prev'\<rparr>)) prev' p ((a, v) # es)"
  by (auto simp: heap_simps)

lemma items_snoc:
  "items h prev p (es @ [(a, v)]) \<Longrightarrow> distinct (map fst es @ [a, b]) \<Longrightarrow> b \<noteq> 0 \<Longrightarrow> h a = Some n \<Longrightarrow>
   items (h(a \<mapsto> n\<lparr>q_next := b\<rparr>, b \<mapsto> \<lparr>payload = w, q_next = 0, previous = a\<rparr>)) prev p (es @ [(a, v), (b, w)])"
  by (induction es arbitrary: prev p) auto

lemma items_last: "items h prev p (es @ [(a, v)]) \<Longrightarrow> \<exists>n. h a = Some n \<and> q_next n = 0 \<and> a \<noteq> 0"
  by (induction es arbitrary: prev p) auto


section \<open>The operations on a queue that holds items\<close>

lemma queue_push_back_holds:
  assumes "queue_holds s es" "a \<noteq> 0" "a \<notin> fst ` set es" "length es < 2 ^ 64 - 1"
  shows "\<exists>t. queue_push_back (a, junk) s v = Some t \<and> queue_holds t (es @ [(a, v)]) \<and> dom (fst t) = insert a (dom (fst s))"
proof -
  obtain h q where s: "s = (h, q)" by force
  note hq = assms(1) [unfolded s queue_holds_def]
  show ?thesis
  proof (cases es rule: rev_cases)
    case Nil
    then show ?thesis using hq assms(2)
      by (simp add: s queue_push_back_def my_malloc_def queue_holds_def)
  next
    case (snoc fs e)
    obtain b w where e: "e = (b, w)" by force
    have b: "q_last q = b" "b \<noteq> a" "q_first q \<noteq> 0" "items h 0 (q_first q) (fs @ [(b, w)])"
      using hq snoc e assms(3) by (auto simp: neq_Nil_conv)
    obtain n where n: "h b = Some n" "q_next n = 0" "b \<noteq> 0" using items_last [OF b(4)] by blast
    let ?h = "h(b \<mapsto> n\<lparr>q_next := a\<rparr>, a \<mapsto> \<lparr>payload = v, q_next = 0, previous = b\<rparr>)"
    have "queue_push_back (a, junk) s v = Some (?h, q\<lparr>q_last := a, elements := elements q + 1\<rparr>)"
      using b n assms(2) by (cases junk) (simp add: s queue_push_back_def my_malloc_def fun_upd_twist [of a b])
    moreover have "items ?h 0 (q_first q) (fs @ [(b, w), (a, v)])"
      using items_snoc [OF b(4), of a n v] n hq snoc e assms(2,3) b(2) by auto
    ultimately show ?thesis using hq snoc e n(1) assms(3)
      by (auto simp: queue_holds_def s)
  qed
qed

lemma queue_pop_holds:
  assumes "queue_holds s ((a, v) # es)"
  shows "\<exists>t. queue_pop s = Some (v, t) \<and> queue_holds t es \<and> dom (fst t) = dom (fst s) - {a}"
proof -
  obtain h q where s: "s = (h, q)" by force
  note hq = assms [unfolded s queue_holds_def]
  obtain n where n: "h a = Some n" "payload n = v" "previous n = 0" "items h a (q_next n) es" "q_first q = a" "a \<noteq> 0"
    using hq by auto
  show ?thesis
  proof (cases es)
    case Nil
    then show ?thesis using n hq by (auto simp: s queue_pop_def queue_holds_def)
  next
    case (Cons e fs)
    obtain b w where e: "e = (b, w)" by force
    obtain k where k: "h b = Some k" "q_next n = b" "b \<noteq> 0" "b \<noteq> a" using n(4) Cons e hq by auto
    let ?h = "(h(b \<mapsto> k\<lparr>previous := 0\<rparr>))(a := None)"
    have "queue_pop s = Some (v, (?h, q\<lparr>q_first := b, q_last := q_last q, elements := elements q - 1\<rparr>))"
      using n k by (simp add: s queue_pop_def)
    moreover have "items ?h 0 b es"
      using items_prev [of h a b b w fs 0] n(4) k hq Cons e by (auto simp: heap_simps)
    ultimately show ?thesis using hq Cons e k(1,4) n(1) by (auto simp: queue_holds_def s)
  qed
qed

lemma queue_empty_holds:
  assumes "queue_holds s es"
  shows "queue_empty s = Some (fst s |` (- (fst ` set es)), (snd s)\<lparr>elements := 0\<rparr>)"
proof -
  have "chain q_next (fst s) (q_first (snd s)) (map fst es)" "distinct (map fst es)"
    using assms items_chain by (auto simp: queue_holds_def)
  from free_all_chain [OF this] show ?thesis by (simp add: queue_empty_def)
qed

section \<open>First in, first out\<close>

text \<open>A queue and its heap as one state that is lost (\<open>None\<close>) once memory has been misused.\<close>

definition add_item :: "queue_state option \<Rightarrow> my_malloc_result \<times> ptr \<Rightarrow> queue_state option" where
  "add_item s e = do { t \<leftarrow> s; queue_push_back (fst e) t (snd e) }"

definition take_item :: "queue_state option \<Rightarrow> ptr \<times> queue_state option" where
  "take_item s = (case Option.bind s queue_pop of None \<Rightarrow> (0, None) | Some (v, t) \<Rightarrow> (v, Some t))"

definition item_of :: "my_malloc_result \<times> ptr \<Rightarrow> ptr \<times> ptr" where
  "item_of e = (fst (fst e), snd e)"

definition item_at :: "my_malloc_result \<times> ptr \<Rightarrow> ptr" where
  "item_at e = fst (fst e)"

text \<open>\<open>D\<close> are the live addresses outside the queue.\<close>

definition queue_is :: "ptr set \<Rightarrow> queue_state option \<Rightarrow> (my_malloc_result \<times> ptr) list \<Rightarrow> bool" where
  "queue_is D s es \<longleftrightarrow>
     (\<exists>t. s = Some t \<and> queue_holds t (map item_of es) \<and> dom (fst t) = D \<union> item_at ` set es) \<and> item_at ` set es \<inter> D = {}"

definition queue_fits :: "ptr set \<Rightarrow> (my_malloc_result \<times> ptr) list \<Rightarrow> bool" where
  "queue_fits D es \<longleftrightarrow> distinct (map item_at es) \<and> 0 \<notin> item_at ` set es \<and> item_at ` set es \<inter> D = {} \<and> length es < 2 ^ 64"

lemma item_of_simps [simp]: "fst (item_of e) = item_at e" "fst ` item_of ` A = item_at ` A"
  by (simp_all add: item_of_def item_at_def image_image)

lemma take_item_is:
  assumes "queue_is D s (e # es)"
  shows "fst (take_item s) = snd e \<and> queue_is D (snd (take_item s)) es"
proof -
  obtain t where t: "s = Some t" "queue_holds t (map item_of (e # es))" "dom (fst t) = D \<union> item_at ` set (e # es)"
      "item_at ` set (e # es) \<inter> D = {}"
    using assms(1) by (auto simp: queue_is_def)
  obtain u where u: "queue_pop t = Some (snd e, u)" "queue_holds u (map item_of es)" "dom (fst u) = dom (fst t) - {item_at e}"
    using queue_pop_holds [of t "item_at e" "snd e" "map item_of es"] t(2) by (auto simp: item_of_def item_at_def)
  have "item_at e \<notin> item_at ` set es" using t(2) by (auto simp: queue_holds_def)
  then have "dom (fst u) = D \<union> item_at ` set es" using u(3) t(3,4) by auto
  then show ?thesis using t u by (simp add: take_item_def queue_is_def)
qed

lemma add_item_is:
  assumes "queue_is D s es" "queue_fits D (es @ [e])"
  shows "queue_is D (add_item s e) (es @ [e])"
proof -
  obtain t where t: "s = Some t" "queue_holds t (map item_of es)" "dom (fst t) = D \<union> item_at ` set es"
      "item_at ` set es \<inter> D = {}"
    using assms(1) by (auto simp: queue_is_def)
  have "\<exists>u. queue_push_back (item_at e, snd (fst e)) t (snd e) = Some u \<and>
      queue_holds u (map item_of es @ [(item_at e, snd e)]) \<and> dom (fst u) = insert (item_at e) (dom (fst t))"
    using assms(2) t(2) by (intro queue_push_back_holds) (auto simp: queue_fits_def image_image)
  moreover have "item_at e \<notin> D" using assms(2) by (auto simp: queue_fits_def)
  ultimately show ?thesis using t by (auto simp: add_item_def queue_is_def item_of_def item_at_def)
qed

interpretation pq: fifo "queue_is D" "queue_fits D" snd take_item add_item
proof unfold_locales
  fix s x xs
  assume "queue_is D s (x # xs)"
  from take_item_is [OF this]
  show "fst (take_item s) = snd x" "queue_is D (snd (take_item s)) xs" by simp_all
next
  fix s xs x
  assume "queue_is D s xs" "queue_fits D (xs @ [x])"
  then show "queue_is D (add_item s x) (xs @ [x])" by (rule add_item_is)
qed (auto simp: queue_fits_def)

lemma queue_new_is: "dom h = D \<Longrightarrow> queue_is D (Some (h, queue_new)) []"
  by (simp add: queue_is_def queue_holds_def queue_new_def)

text \<open>
  The queue of measurements: any number of items pushed into a new queue come out in the same order;
  no access reaches memory that is not live, also not through the links back, and at the end
  exactly the items that were allocated have been freed.
\<close>

theorem profile_queue_fifo:
  assumes "queue_fits (dom h) es"
  shows "fst (drain take_item (length es) (fill add_item es (Some (h, queue_new)))) = map snd es \<and>
    (\<exists>g q. snd (drain take_item (length es) (fill add_item es (Some (h, queue_new)))) = Some (g, q) \<and>
       dom g = dom h \<and> q = queue_new \<and> queue_is_empty q = Some True)"
proof -
  note drained = pq.fifo_order [OF queue_new_is [OF refl] assms]
  obtain g q where gq: "snd (drain take_item (length es) (fill add_item es (Some (h, queue_new)))) = Some (g, q)"
      "queue_holds (g, q) []" "dom g = dom h"
    using drained(2) by (auto simp: queue_is_def)
  have "q = queue_new" using gq(2) by (simp add: queue_holds_def queue_new_def)
  then show ?thesis using gq drained(1) by (simp add: queue_is_empty_def queue_new_def)
qed

text \<open>
  \<open>empty\<close> frees the items and resets the counter but not the two pointers: the queue reports that it
  is empty, and the next \<open>pop\<close>, the next \<open>push_back\<close> into new memory and the first step of an iterator
  access freed memory.
\<close>

theorem profile_queue_empty_dangles:
  assumes "queue_holds s es" "es \<noteq> []" "fst r \<notin> fst ` set es"
  shows "\<exists>t. queue_empty s = Some t \<and> dom (fst t) = dom (fst s) - fst ` set es \<and> queue_is_empty (snd t) = Some True \<and>
    queue_pop t = None \<and> queue_push_back r t v = None \<and> iterator_value (fst t) (new_iterator (snd t)) = None"
proof -
  obtain h q where s: "s = (h, q)" by force
  obtain a w fs where es: "es = (a, w) # fs" using assms(2) by (cases es) auto
  have q: "q_first q = a" "a \<noteq> 0" "q_last q \<in> fst ` set es"
    using assms(1) es by (auto simp: queue_holds_def s)
  have "0 \<notin> set (map fst es)" using assms(1) items_chain chain_live by (metis queue_holds_def)
  then have l: "q_last q \<noteq> 0" using q(3) by (metis list.set_map)
  let ?h = "h |` (- fst ` set es)"
  have freed: "?h a = None" "?h (q_last q) = None" using q(3) es by (auto simp: restrict_map_def)
  moreover have "fst r \<noteq> q_last q" using assms(3) q(3) by metis
  ultimately have "write_node (my_malloc ?h r) (fst r) f = None \<or>
      (\<exists>g. write_node (my_malloc ?h r) (fst r) f = Some g \<and> g (q_last q) = None)" for f
    by (auto simp: my_malloc_def)
  from this [of "payload_update (\<lambda>_. v)"] have "queue_push_back r (?h, q\<lparr>elements := 0\<rparr>) v = None"
    using l by (auto simp: queue_push_back_def Let_def)
  then show ?thesis using queue_empty_holds [OF assms(1)] q freed s
    by (auto simp: queue_pop_def queue_is_empty_def iterator_value_def new_iterator_def)
qed

text \<open>A queue of two items.\<close>

definition sample_items :: "(my_malloc_result \<times> ptr) list" where
  "sample_items = [((100, \<lparr>payload = 3, q_next = 4, previous = 5\<rparr>), 7), ((200, \<lparr>payload = 0, q_next = 0, previous = 0\<rparr>), 8)]"

lemma sample_items_fit: "queue_fits (dom Map.empty) sample_items"
  by (simp add: sample_items_def queue_fits_def item_at_def)

theorem profile_queue_fifo_witness:
  "fst (drain take_item (length sample_items) (fill add_item sample_items (Some (Map.empty, queue_new)))) = map snd sample_items"
  using profile_queue_fifo [OF sample_items_fit] by blast

definition sample_queue :: queue_state where
  "sample_queue = ([100 \<mapsto> \<lparr>payload = 7, q_next = 0, previous = 0\<rparr>], \<lparr>q_first = 100, q_last = 100, elements = 1\<rparr>)"

lemma sample_queue_holds: "queue_holds sample_queue [(100, 7)]"
  by (simp add: sample_queue_def queue_holds_def)

theorem profile_queue_empty_dangles_witness:
  "\<exists>t. queue_empty sample_queue = Some t \<and> queue_is_empty (snd t) = Some True \<and> queue_pop t = None"
  using profile_queue_empty_dangles [OF sample_queue_holds, of "(0, \<lparr>payload = 0, q_next = 0, previous = 0\<rparr>)" 0] by auto

end
