(* ===== verification/AutoInc.thy ===== *)
theory AutoInc
  imports NodeHeap Containers
begin

text \<open>
  Small structures of \<^verbatim>\<open>structs.h\<close>: the intervals of reserved auto-increment values and the list that hands
  them out, the options of DDL statements and the counters of stored-program blocks.  The nodes of the
  interval list live in an allocated heap; \<open>append\<close> is compiled code, so a list is any chain of
  intervals.
\<close>

section \<open>Intervals\<close>

record Discrete_interval =
  interval_min :: uint64
  interval_values :: uint64
  interval_max :: uint64
  di_next :: ptr

definition interval_replace :: "Discrete_interval \<Rightarrow> uint64 \<Rightarrow> uint64 \<Rightarrow> uint64 \<Rightarrow> Discrete_interval" where
  "interval_replace d start val incr =
     d\<lparr>interval_min := start, interval_values := val,
       interval_max := if val = ULONGLONG_MAX then val else start + val * incr\<rparr>"

definition Discrete_interval_new :: "uint64 \<Rightarrow> uint64 \<Rightarrow> uint64 \<Rightarrow> Discrete_interval" where
  "Discrete_interval_new start val incr =
     interval_replace \<lparr>interval_min = 0, interval_values = 0, interval_max = 0, di_next = 0\<rparr> start val incr"

definition merge_if_contiguous :: "Discrete_interval \<Rightarrow> uint64 \<Rightarrow> uint64 \<Rightarrow> uint64 \<Rightarrow> bool \<times> Discrete_interval" where
  "merge_if_contiguous d start val incr =
     (if interval_max d = start
      then (False,
            if val = ULONGLONG_MAX then d\<lparr>interval_values := val, interval_max := val\<rparr>
            else d\<lparr>interval_values := interval_values d + val, interval_max := start + val * incr\<rparr>)
      else (True, d))"

section \<open>Lists of intervals\<close>

record Discrete_intervals_list =
  head :: ptr
  tail :: ptr
  current :: ptr
  il_elements :: uint32

type_synonym interval_heap = "Discrete_interval node_heap"

definition set_members :: "Discrete_intervals_list \<Rightarrow> ptr \<Rightarrow> ptr \<Rightarrow> ptr \<Rightarrow> uint32 \<Rightarrow> Discrete_intervals_list" where
  "set_members l h t c el = l\<lparr>head := h, tail := t, current := c, il_elements := el\<rparr>"

definition empty_no_free :: "Discrete_intervals_list \<Rightarrow> Discrete_intervals_list" where
  "empty_no_free l = set_members l 0 0 0 0"

definition intervals_empty ::
    "interval_heap \<Rightarrow> Discrete_intervals_list \<Rightarrow> (interval_heap \<times> Discrete_intervals_list) option" where
  "intervals_empty h l = do { g \<leftarrow> free_all di_next h (head l); Some (g, empty_no_free l) }"

definition copy_shallow :: "Discrete_intervals_list \<Rightarrow> Discrete_intervals_list \<Rightarrow> Discrete_intervals_list" where
  "copy_shallow l dli = l\<lparr>head := head dli, tail := tail dli, current := current dli, il_elements := il_elements dli\<rparr>"

definition intervals_swap ::
    "Discrete_intervals_list \<Rightarrow> Discrete_intervals_list \<Rightarrow> Discrete_intervals_list \<times> Discrete_intervals_list" where
  "intervals_swap l dli =
     (let h = head dli; t = tail dli; c = current dli; el = il_elements dli; dli1 = copy_shallow dli l
      in (set_members l h t c el, dli1))"

definition get_next :: "interval_heap \<Rightarrow> Discrete_intervals_list \<Rightarrow> (ptr \<times> Discrete_intervals_list) option" where
  "get_next h l =
     (let tmp = current l
      in if current l \<noteq> 0 then do { d \<leftarrow> read_node h (current l); Some (tmp, l\<lparr>current := di_next d\<rparr>) }
         else Some (tmp, l))"

definition intervals_minimum :: "interval_heap \<Rightarrow> Discrete_intervals_list \<Rightarrow> uint64 option" where
  "intervals_minimum h l = (if head l \<noteq> 0 then map_option interval_min (read_node h (head l)) else Some 0)"

definition intervals_maximum :: "interval_heap \<Rightarrow> Discrete_intervals_list \<Rightarrow> uint64 option" where
  "intervals_maximum h l = (if head l \<noteq> 0 then map_option interval_max (read_node h (tail l)) else Some 0)"

section \<open>Options of DDL statements\<close>

definition OPT_NONE :: uint32 where "OPT_NONE = 0"
definition OPT_IF_NOT_EXISTS :: uint32 where "OPT_IF_NOT_EXISTS = 2"
definition OPT_LIKE :: uint32 where "OPT_LIKE = 4"
definition OPT_OR_REPLACE :: uint32 where "OPT_OR_REPLACE = 16"
definition OPT_OR_REPLACE_SLAVE_GENERATED :: uint32 where "OPT_OR_REPLACE_SLAVE_GENERATED = 32"
definition OPT_IF_EXISTS :: uint32 where "OPT_IF_EXISTS = 64"

definition create_like_options :: "uint32 \<Rightarrow> uint32" where
  "create_like_options m_options = m_options AND (OPT_IF_NOT_EXISTS OR OPT_OR_REPLACE)"

definition if_not_exists :: "uint32 \<Rightarrow> bool" where "if_not_exists m_options \<longleftrightarrow> m_options AND OPT_IF_NOT_EXISTS \<noteq> 0"
definition or_replace :: "uint32 \<Rightarrow> bool" where "or_replace m_options \<longleftrightarrow> m_options AND OPT_OR_REPLACE \<noteq> 0"
definition or_replace_slave_generated :: "uint32 \<Rightarrow> bool" where
  "or_replace_slave_generated m_options \<longleftrightarrow> m_options AND OPT_OR_REPLACE_SLAVE_GENERATED \<noteq> 0"
definition ddl_like :: "uint32 \<Rightarrow> bool" where "ddl_like m_options \<longleftrightarrow> m_options AND OPT_LIKE \<noteq> 0"
definition if_exists :: "uint32 \<Rightarrow> bool" where "if_exists m_options \<longleftrightarrow> m_options AND OPT_IF_EXISTS \<noteq> 0"

definition ddl_add :: "uint32 \<Rightarrow> uint32 \<Rightarrow> uint32" where
  "ddl_add m_options other = m_options OR other"

section \<open>Counters of stored-program blocks\<close>

record Lex_spblock_st =
  hndlrs :: int
  vars :: int
  conds :: int
  curs :: int

definition spblock_init :: Lex_spblock_st where
  "spblock_init = \<lparr>hndlrs = 0, vars = 0, conds = 0, curs = 0\<rparr>"

definition spblock_init_using_vars :: "int \<Rightarrow> Lex_spblock_st" where
  "spblock_init_using_vars nvars = \<lparr>hndlrs = 0, vars = nvars, conds = 0, curs = 0\<rparr>"

definition spblock_join :: "Lex_spblock_st \<Rightarrow> Lex_spblock_st \<Rightarrow> Lex_spblock_st" where
  "spblock_join b1 b2 =
     \<lparr>hndlrs = hndlrs b1 + hndlrs b2, vars = vars b1 + vars b2, conds = conds b1 + conds b2, curs = curs b1 + curs b2\<rparr>"

section \<open>The values of an interval\<close>

definition interval_list :: "Discrete_interval \<Rightarrow> uint64 \<Rightarrow> nat list" where
  "interval_list d incr = map (\<lambda>k. unat (interval_min d) + k * unat incr) [0 ..< unat (interval_values d)]"

text \<open>A bounded interval whose excluded end fits the type and lies below the mark for an unbounded one.\<close>

definition interval_ok :: "Discrete_interval \<Rightarrow> uint64 \<Rightarrow> bool" where
  "interval_ok d incr \<longleftrightarrow> unat (interval_min d) + unat (interval_values d) * unat incr = unat (interval_max d) \<and>
     interval_values d \<noteq> ULONGLONG_MAX"

definition reservation_fits :: "uint64 \<Rightarrow> uint64 \<Rightarrow> uint64 \<Rightarrow> bool" where
  "reservation_fits start val incr \<longleftrightarrow> 0 < incr \<and> unat start + unat val * unat incr < 2 ^ 64 - 1"

lemma unat_end: "unat start + unat val * unat incr < 2 ^ 64 \<Longrightarrow> unat (start + val * incr) = unat start + unat val * unat (incr :: uint64)"
  by (simp add: unat_word_ariths)

lemma fits_not_max: "reservation_fits start val incr \<Longrightarrow> val \<noteq> ULONGLONG_MAX"
proof
  assume fits: "reservation_fits start val incr" and "val = ULONGLONG_MAX"
  then have "unat val = 2 ^ 64 - 1" by (simp only: unat_ULONGLONG_MAX)
  moreover have "unat val \<le> unat val * unat incr" using fits by (simp add: reservation_fits_def word_less_nat_alt)
  ultimately show False using fits by (simp add: reservation_fits_def)
qed

lemma interval_new_ok: "reservation_fits start val incr \<Longrightarrow> interval_ok (Discrete_interval_new start val incr) incr"
  using fits_not_max [of start val incr] unat_end [of start val incr]
  by (simp add: interval_ok_def Discrete_interval_new_def interval_replace_def reservation_fits_def)

lemma merged_values:
  assumes "interval_ok d incr" "reservation_fits (interval_max d) val incr"
  shows "unat (interval_values d + val) = unat (interval_values d) + unat val" "interval_values d + val \<noteq> ULONGLONG_MAX"
proof -
  let ?v = "unat (interval_values d)"
  have incr: "1 \<le> unat incr" using assms(2) by (simp add: reservation_fits_def word_less_nat_alt)
  have "(?v + unat val) * 1 \<le> (?v + unat val) * unat incr" using incr by (rule mult_le_mono2)
  also have "\<dots> \<le> unat (interval_max d) + unat val * unat incr"
    using assms(1) by (simp add: interval_ok_def add_mult_distrib)
  also have "\<dots> < 2 ^ 64 - 1" using assms(2) by (simp add: reservation_fits_def)
  finally have lt: "?v + unat val < 2 ^ 64 - 1" by simp
  then show sum: "unat (interval_values d + val) = ?v + unat val" by (subst unat_word_ariths) simp
  show "interval_values d + val \<noteq> ULONGLONG_MAX"
  proof
    assume "interval_values d + val = ULONGLONG_MAX"
    then have "unat (interval_values d + val) = 2 ^ 64 - 1" by (simp only: unat_ULONGLONG_MAX)
    then show False using lt sum by simp
  qed
qed

lemma map_upt_shift: "map f [a ..< a + n] = map (\<lambda>k. f (a + k)) [0 ..< n]"
  by (rule nth_equalityI) simp_all

lemma upt_split: "[0 ..< a + n] = [0 ..< a] @ [a ..< a + n]"
  by (rule upt_add_eq_append) simp

text \<open>
  Merging a reservation into an interval: it succeeds exactly if the new values start where the interval
  ends, and then the interval stands for its old values followed by the new ones; otherwise it is
  unchanged.  The redundant excluded end stays right.
\<close>

theorem interval_merge_correct:
  assumes "interval_ok d incr" "reservation_fits start val incr"
  defines "m \<equiv> merge_if_contiguous d start val incr"
  shows "(fst m \<longleftrightarrow> interval_max d \<noteq> start) \<and> interval_ok (snd m) incr \<and>
    interval_list (snd m) incr =
      interval_list d incr @ (if fst m then [] else interval_list (Discrete_interval_new start val incr) incr)"
proof (cases "interval_max d = start")
  case False
  then show ?thesis using assms(1) by (simp add: m_def merge_if_contiguous_def)
next
  case True
  note nm = fits_not_max [OF assms(2)]
  have ev: "unat (interval_values d + val) = unat (interval_values d) + unat val" "interval_values d + val \<noteq> ULONGLONG_MAX"
    using merged_values [OF assms(1), of val] assms(2) True by simp_all
  have st: "unat start = unat (interval_min d) + unat (interval_values d) * unat incr"
    using assms(1) True by (simp add: interval_ok_def)
  have en: "unat (start + val * incr) = unat start + unat val * unat incr"
    using assms(2) by (intro unat_end) (simp add: reservation_fits_def)
  let ?d = "d\<lparr>interval_values := interval_values d + val, interval_max := start + val * incr\<rparr>"
  have m: "m = (False, ?d)" using True nm by (simp add: m_def merge_if_contiguous_def)
  have "interval_ok ?d incr" using ev en st by (simp add: interval_ok_def algebra_simps)
  moreover have "interval_list ?d incr = interval_list d incr @ interval_list (Discrete_interval_new start val incr) incr"
    by (simp add: interval_list_def Discrete_interval_new_def interval_replace_def ev(1) st upt_split map_upt_shift)
      (simp add: algebra_simps)
  ultimately show ?thesis using m True by simp
qed

section \<open>Handing out the intervals\<close>

definition next_interval :: "interval_heap \<Rightarrow> Discrete_intervals_list option \<Rightarrow> ptr \<times> Discrete_intervals_list option" where
  "next_interval h s = (case Option.bind s (get_next h) of None \<Rightarrow> (0, None) | Some (p, l) \<Rightarrow> (p, Some l))"

text \<open>\<open>l\<close> has still to hand out the intervals \<open>ps\<close>.\<close>

definition pending :: "interval_heap \<Rightarrow> Discrete_intervals_list option \<Rightarrow> ptr list \<Rightarrow> bool" where
  "pending h s ps \<longleftrightarrow> (\<exists>l. s = Some l \<and> chain di_next h (current l) ps)"

interpretation intervals: taking "pending h" "\<lambda>_. True" "\<lambda>p. p" "next_interval h"
  by unfold_locales (auto simp: pending_def next_interval_def get_next_def)

lemma drain_append: "drain f (m + n) s = (let (vs, s1) = drain f m s; (ws, s2) = drain f n s1 in (vs @ ws, s2))"
  by (induction m arbitrary: s) (auto simp: split_beta Let_def)

lemma drain_done: "pending h s [] \<Longrightarrow> drain (next_interval h) k s = (replicate k 0, s)"
  by (induction k) (auto simp: pending_def next_interval_def get_next_def)

text \<open>
  A list whose \<open>current\<close> is its head hands out its intervals from head to tail, and then null however often it
  is asked; giving the list back afterwards frees each interval exactly once and no other
  node.
\<close>

theorem intervals_handed_out:
  assumes "chain di_next h (head l) ps" "distinct ps" "current l = head l"
  shows "fst (drain (next_interval h) (length ps + k) (Some l)) = ps @ replicate k 0 \<and>
    (\<exists>l2. snd (drain (next_interval h) (length ps + k) (Some l)) = Some l2 \<and>
       intervals_empty h l2 = Some (h |` (- set ps), empty_no_free l2))"
proof -
  have "pending h (Some l) ps" using assms(1,3) by (simp add: pending_def)
  note d = intervals.drain_all [OF this]
  obtain vs s2 where p: "drain (next_interval h) (length ps) (Some l) = (vs, s2)" by force
  then have all: "drain (next_interval h) (length ps + k) (Some l) = (ps @ replicate k 0, s2)"
    using d drain_done [of h s2 k] by (simp add: drain_append)
  have keeps: "\<exists>l2. snd (drain (next_interval h) n (Some l)) = Some l2 \<and> head l2 = head l"
    if "pending h (Some l) qs" "n \<le> length qs" for n qs l
    using that
  proof (induction n arbitrary: l qs)
    case (Suc n)
    then obtain q rs where qs: "qs = q # rs" by (cases qs) auto
    obtain l1 where "get_next h l = Some (q, l1)" "head l1 = head l" "pending h (Some l1) rs"
      using Suc.prems(1) qs by (auto simp: pending_def get_next_def)
    then show ?case using Suc.IH [of l1 rs] Suc.prems(2) qs by (simp add: next_interval_def split_beta Let_def)
  qed simp
  obtain l2 where "s2 = Some l2" "head l2 = head l" using keeps [of l ps "length ps"] \<open>pending h (Some l) ps\<close> p by auto
  then show ?thesis using all free_all_chain [OF assms(1,2)] by (simp add: intervals_empty_def)
qed

text \<open>A shallow copy shares the intervals: giving back both lists frees an interval twice.\<close>

theorem shallow_copy_double_free:
  assumes "chain di_next h (head l) (p # ps)" "distinct (p # ps)"
  shows "\<exists>g. intervals_empty h (copy_shallow k l) = Some (g, empty_no_free k) \<and> intervals_empty g l = None"
proof -
  have "head l = p" "p \<noteq> 0" using assms(1) by auto
  moreover have "free_all di_next (h |` (- set (p # ps))) p = None"
    using \<open>p \<noteq> 0\<close> by (subst free_all.simps) (simp add: restrict_map_def)
  ultimately show ?thesis using free_all_chain [OF assms]
    by (simp add: intervals_empty_def copy_shallow_def empty_no_free_def set_members_def)
qed

section \<open>Options\<close>

lemma and_or_zero: "(a OR b) AND c = 0 \<longleftrightarrow> a AND c = 0 \<and> b AND (c :: uint32) = 0"
  by (auto simp: bit_eq_iff bit_simps)

text \<open>
  Adding options: each option is set afterwards exactly if it was set before or is among the added ones;
  the options passed on by \<open>CREATE TABLE LIKE\<close> are the two it can have, and nothing else.
\<close>

theorem ddl_options_add:
  "(if_not_exists (ddl_add a b) \<longleftrightarrow> if_not_exists a \<or> if_not_exists b) \<and> (or_replace (ddl_add a b) \<longleftrightarrow> or_replace a \<or> or_replace b) \<and>
   (ddl_like (ddl_add a b) \<longleftrightarrow> ddl_like a \<or> ddl_like b) \<and> (if_exists (ddl_add a b) \<longleftrightarrow> if_exists a \<or> if_exists b) \<and>
   (if_not_exists (create_like_options a) \<longleftrightarrow> if_not_exists a) \<and> (or_replace (create_like_options a) \<longleftrightarrow> or_replace a) \<and>
   \<not> ddl_like (create_like_options a) \<and> \<not> if_exists (create_like_options a) \<and> \<not> or_replace_slave_generated (create_like_options a)"
  by (simp add: if_not_exists_def or_replace_def ddl_like_def if_exists_def or_replace_slave_generated_def ddl_add_def
      create_like_options_def OPT_IF_NOT_EXISTS_def OPT_OR_REPLACE_def OPT_LIKE_def OPT_IF_EXISTS_def
      OPT_OR_REPLACE_SLAVE_GENERATED_def and_or_zero and.assoc)

section \<open>Concrete cases\<close>

definition sample_intervals :: interval_heap where
  "sample_intervals = [8 \<mapsto> (Discrete_interval_new 1 2 1)\<lparr>di_next := 16\<rparr>, 16 \<mapsto> Discrete_interval_new 10 5 1]"

definition sample_list :: Discrete_intervals_list where
  "sample_list = \<lparr>head = 8, tail = 16, current = 8, il_elements = 2\<rparr>"

lemma sample_chain: "chain di_next sample_intervals (head sample_list) [8, 16]"
  by (simp add: sample_intervals_def sample_list_def Discrete_interval_new_def interval_replace_def)

theorem interval_merge_correct_witness:
  "interval_list (snd (merge_if_contiguous (Discrete_interval_new 1 2 1) 3 3 1)) 1 = [1, 2, 3, 4, 5]"
proof -
  have "interval_ok (Discrete_interval_new 1 2 1) 1"
    by (rule interval_new_ok) (simp add: reservation_fits_def)
  from interval_merge_correct [OF this, of 3 3] show ?thesis
    by (simp add: reservation_fits_def Discrete_interval_new_def interval_replace_def ULONGLONG_MAX_def interval_list_def upt_rec)
qed

theorem intervals_handed_out_witness:
  "fst (drain (next_interval sample_intervals) 3 (Some sample_list)) = [8, 16, 0]"
  using intervals_handed_out [OF sample_chain, of 1] by (simp add: sample_list_def numeral_3_eq_3)

theorem shallow_copy_double_free_witness:
  "\<exists>g. intervals_empty sample_intervals (copy_shallow sample_list sample_list) = Some (g, empty_no_free sample_list) \<and>
     intervals_empty g sample_list = None"
  using shallow_copy_double_free [OF sample_chain] by simp

end
