(* ===== verification/RecordFields.thy ===== *)
theory RecordFields
  imports IsamPack
begin

text \<open>
  The fields of a record as \<^verbatim>\<open>field.h\<close> accesses them: the NULL bits in the record, moving a field to another
  record, copying images, keeping a minimum and a maximum, the packed form of the integer types in
  the binary log, the odd bits of a BIT field, the length and pointer of a BLOB and the flags of the
  \<^verbatim>\<open>.frm\<close> file.  A record is a piece of memory; the virtual functions \<open>cmp\<close> and \<open>pack_length\<close> of a field type are
  arguments.
\<close>

section \<open>Position and NULL bit\<close>

record Field =
  field_ptr :: ptr
  null_ptr :: ptr
  null_bit :: uchar

text \<open>What a field uses of its table: the null-complemented row, the first record, outer joins.\<close>

record TABLE =
  null_row :: bool
  record0 :: ptr
  table_maybe_null :: bool

definition ADD_TO_PTR :: "ptr \<Rightarrow> int \<Rightarrow> ptr" where
  "ADD_TO_PTR p n = nat (int p + n)"

definition is_null :: "mem \<Rightarrow> TABLE \<Rightarrow> Field \<Rightarrow> int \<Rightarrow> bool" where
  "is_null m t f row_offset =
     (if null_ptr f \<noteq> 0 then m (ADD_TO_PTR (null_ptr f) row_offset) AND null_bit f \<noteq> 0 else null_row t)"

definition is_real_null :: "mem \<Rightarrow> Field \<Rightarrow> int \<Rightarrow> bool" where
  "is_real_null m f row_offset \<longleftrightarrow> null_ptr f \<noteq> 0 \<and> m (ADD_TO_PTR (null_ptr f) row_offset) AND null_bit f \<noteq> 0"

definition set_null :: "mem \<Rightarrow> Field \<Rightarrow> int \<Rightarrow> mem" where
  "set_null m f row_offset =
     (if null_ptr f \<noteq> 0
      then let a = ADD_TO_PTR (null_ptr f) row_offset in m(a := m a OR null_bit f) else m)"

definition set_notnull :: "mem \<Rightarrow> Field \<Rightarrow> int \<Rightarrow> mem" where
  "set_notnull m f row_offset =
     (if null_ptr f \<noteq> 0
      then let a = ADD_TO_PTR (null_ptr f) row_offset in m(a := m a AND NOT (null_bit f)) else m)"

definition maybe_null :: "TABLE \<Rightarrow> Field \<Rightarrow> bool" where
  "maybe_null t f \<longleftrightarrow> null_ptr f \<noteq> 0 \<or> table_maybe_null t"

definition real_maybe_null :: "Field \<Rightarrow> bool" where
  "real_maybe_null f \<longleftrightarrow> null_ptr f \<noteq> 0"

definition null_offset :: "Field \<Rightarrow> ptr \<Rightarrow> uint32" where
  "null_offset f rec = of_int (int (null_ptr f) - int rec)"

definition maybe_null_in_table :: "TABLE \<Rightarrow> Field \<Rightarrow> bool" where
  "maybe_null_in_table t f \<longleftrightarrow> record0 t \<le> null_ptr f \<and> null_ptr f \<le> field_ptr f"

definition is_null_in_record :: "mem \<Rightarrow> TABLE \<Rightarrow> Field \<Rightarrow> ptr \<Rightarrow> bool" where
  "is_null_in_record m t f rec \<longleftrightarrow>
     maybe_null_in_table t f \<and> m (rec + unat (null_offset f (record0 t))) AND null_bit f \<noteq> 0"

definition set_null_ptr :: "Field \<Rightarrow> ptr \<Rightarrow> uint32 \<Rightarrow> Field" where
  "set_null_ptr f p_null_ptr p_null_bit = f\<lparr>null_ptr := p_null_ptr, null_bit := ucast p_null_bit\<rparr>"

definition move_field :: "Field \<Rightarrow> ptr \<Rightarrow> ptr \<Rightarrow> uchar \<Rightarrow> Field" where
  "move_field f ptr_arg null_ptr_arg null_bit_arg =
     f\<lparr>field_ptr := ptr_arg, null_ptr := null_ptr_arg, null_bit := null_bit_arg\<rparr>"

definition move_field_offset :: "Field \<Rightarrow> int \<Rightarrow> Field" where
  "move_field_offset f ptr_diff =
     (let f1 = f\<lparr>field_ptr := ADD_TO_PTR (field_ptr f) ptr_diff\<rparr>
      in if null_ptr f1 \<noteq> 0 then f1\<lparr>null_ptr := ADD_TO_PTR (null_ptr f1) ptr_diff\<rparr> else f1)"

definition field_eq :: "Field \<Rightarrow> Field \<Rightarrow> bool" where
  "field_eq f g \<longleftrightarrow> field_ptr f = field_ptr g \<and> null_ptr f = null_ptr g \<and> null_bit f = null_bit g"

section \<open>Images and extreme values\<close>

definition get_image :: "mem \<Rightarrow> Field \<Rightarrow> ptr \<Rightarrow> nat \<Rightarrow> mem" where
  "get_image m f buff len = put_bytes m buff (bytes_at m (field_ptr f) len)"

definition set_image :: "mem \<Rightarrow> Field \<Rightarrow> ptr \<Rightarrow> nat \<Rightarrow> mem" where
  "set_image m f buff len = put_bytes m (field_ptr f) (bytes_at m buff len)"

definition update_min ::
    "(uchar list \<Rightarrow> uchar list \<Rightarrow> int) \<Rightarrow> nat \<Rightarrow> mem \<Rightarrow> Field \<Rightarrow> Field \<Rightarrow> bool \<Rightarrow> bool \<times> mem" where
  "update_min cmp pack_length m f min_val force_update =
     (let update_fl = force_update \<or>
            cmp (bytes_at m (field_ptr f) pack_length) (bytes_at m (field_ptr min_val) pack_length) < 0
      in (update_fl,
          if update_fl
          then let m1 = set_notnull m min_val 0
               in put_bytes m1 (field_ptr min_val) (bytes_at m1 (field_ptr f) pack_length)
          else m))"

definition update_max ::
    "(uchar list \<Rightarrow> uchar list \<Rightarrow> int) \<Rightarrow> nat \<Rightarrow> mem \<Rightarrow> Field \<Rightarrow> Field \<Rightarrow> bool \<Rightarrow> bool \<times> mem" where
  "update_max cmp pack_length m f max_val force_update =
     (let update_fl = force_update \<or>
            cmp (bytes_at m (field_ptr f) pack_length) (bytes_at m (field_ptr max_val) pack_length) > 0
      in (update_fl,
          if update_fl
          then let m1 = set_notnull m max_val 0
               in put_bytes m1 (field_ptr max_val) (bytes_at m1 (field_ptr f) pack_length)
          else m))"

section \<open>Packed integers\<close>

text \<open>
  Source and target of these copies are different pieces of memory for the callers; where they overlap \<open>memcpy\<close> is
  undefined, and the model copies the bytes as they were before.
\<close>

definition pack_int :: "mem \<Rightarrow> ptr \<Rightarrow> ptr \<Rightarrow> nat \<Rightarrow> ptr \<times> mem" where
  "pack_int m to from sz = (to + sz, put_bytes m to (bytes_at m from sz))"

text \<open>The null pointer is returned when the input is too short.\<close>

definition unpack_int :: "mem \<Rightarrow> ptr \<Rightarrow> ptr \<Rightarrow> ptr \<Rightarrow> nat \<Rightarrow> ptr \<times> mem" where
  "unpack_int m to from from_end sz =
     (if from + sz > from_end then (0, m) else (from + sz, put_bytes m to (bytes_at m from sz)))"

definition pack_int16 :: "mem \<Rightarrow> ptr \<Rightarrow> ptr \<Rightarrow> ptr \<times> mem" where "pack_int16 m to from = pack_int m to from 2"
definition unpack_int16 :: "mem \<Rightarrow> ptr \<Rightarrow> ptr \<Rightarrow> ptr \<Rightarrow> ptr \<times> mem" where
  "unpack_int16 m to from from_end = unpack_int m to from from_end 2"
definition pack_int24 :: "mem \<Rightarrow> ptr \<Rightarrow> ptr \<Rightarrow> ptr \<times> mem" where "pack_int24 m to from = pack_int m to from 3"
definition unpack_int24 :: "mem \<Rightarrow> ptr \<Rightarrow> ptr \<Rightarrow> ptr \<Rightarrow> ptr \<times> mem" where
  "unpack_int24 m to from from_end = unpack_int m to from from_end 3"
definition pack_int32 :: "mem \<Rightarrow> ptr \<Rightarrow> ptr \<Rightarrow> ptr \<times> mem" where "pack_int32 m to from = pack_int m to from 4"
definition unpack_int32 :: "mem \<Rightarrow> ptr \<Rightarrow> ptr \<Rightarrow> ptr \<Rightarrow> ptr \<times> mem" where
  "unpack_int32 m to from from_end = unpack_int m to from from_end 4"
definition pack_int64 :: "mem \<Rightarrow> ptr \<Rightarrow> ptr \<Rightarrow> ptr \<times> mem" where "pack_int64 m to from = pack_int m to from 8"
definition unpack_int64 :: "mem \<Rightarrow> ptr \<Rightarrow> ptr \<Rightarrow> ptr \<Rightarrow> ptr \<times> mem" where
  "unpack_int64 m to from from_end = unpack_int m to from from_end 8"

text \<open>The integer types that define their packed form in the header.\<close>

datatype int_field = Field_tiny | Field_short | Field_long | Field_longlong

fun int_pack_length :: "int_field \<Rightarrow> nat" where
  "int_pack_length Field_tiny = 1"
| "int_pack_length Field_short = 2"
| "int_pack_length Field_long = 4"
| "int_pack_length Field_longlong = 8"

definition tiny_pack :: "mem \<Rightarrow> ptr \<Rightarrow> ptr \<Rightarrow> ptr \<times> mem" where "tiny_pack m to from = (to + 1, m(to := m from))"
definition tiny_unpack :: "mem \<Rightarrow> ptr \<Rightarrow> ptr \<Rightarrow> ptr \<Rightarrow> ptr \<times> mem" where
  "tiny_unpack m to from from_end = (if from = from_end then (0, m) else (from + 1, m(to := m from)))"
definition short_pack :: "mem \<Rightarrow> ptr \<Rightarrow> ptr \<Rightarrow> ptr \<times> mem" where "short_pack m to from = pack_int16 m to from"
definition short_unpack :: "mem \<Rightarrow> ptr \<Rightarrow> ptr \<Rightarrow> ptr \<Rightarrow> ptr \<times> mem" where
  "short_unpack m to from from_end = unpack_int16 m to from from_end"
definition long_pack :: "mem \<Rightarrow> ptr \<Rightarrow> ptr \<Rightarrow> ptr \<times> mem" where "long_pack m to from = pack_int32 m to from"
definition long_unpack :: "mem \<Rightarrow> ptr \<Rightarrow> ptr \<Rightarrow> ptr \<Rightarrow> ptr \<times> mem" where
  "long_unpack m to from from_end = unpack_int32 m to from from_end"
definition longlong_pack :: "mem \<Rightarrow> ptr \<Rightarrow> ptr \<Rightarrow> ptr \<times> mem" where "longlong_pack m to from = pack_int64 m to from"
definition longlong_unpack :: "mem \<Rightarrow> ptr \<Rightarrow> ptr \<Rightarrow> ptr \<Rightarrow> ptr \<times> mem" where
  "longlong_unpack m to from from_end = unpack_int64 m to from from_end"

definition tiny_reset :: "mem \<Rightarrow> Field \<Rightarrow> mem" where "tiny_reset m f = m(field_ptr f := 0)"
definition short_reset :: "mem \<Rightarrow> Field \<Rightarrow> mem" where
  "short_reset m f = (let p = field_ptr f in m(p + 1 := 0, p := 0))"
definition medium_reset :: "mem \<Rightarrow> Field \<Rightarrow> mem" where
  "medium_reset m f = (let p = field_ptr f in m(p + 2 := 0, p + 1 := 0, p := 0))"
definition long_reset :: "mem \<Rightarrow> Field \<Rightarrow> mem" where
  "long_reset m f = (let p = field_ptr f in m(p + 3 := 0, p + 2 := 0, p + 1 := 0, p := 0))"
definition longlong_reset :: "mem \<Rightarrow> Field \<Rightarrow> mem" where
  "longlong_reset m f =
     (let p = field_ptr f
      in m(p + 7 := 0, p + 6 := 0, p + 5 := 0, p + 4 := 0, p + 3 := 0, p + 2 := 0, p + 1 := 0, p := 0))"

text \<open>The virtual calls.\<close>

fun int_pack :: "int_field \<Rightarrow> mem \<Rightarrow> ptr \<Rightarrow> ptr \<Rightarrow> ptr \<times> mem" where
  "int_pack Field_tiny = tiny_pack"
| "int_pack Field_short = short_pack"
| "int_pack Field_long = long_pack"
| "int_pack Field_longlong = longlong_pack"

fun int_unpack :: "int_field \<Rightarrow> mem \<Rightarrow> ptr \<Rightarrow> ptr \<Rightarrow> ptr \<Rightarrow> ptr \<times> mem" where
  "int_unpack Field_tiny = tiny_unpack"
| "int_unpack Field_short = short_unpack"
| "int_unpack Field_long = long_unpack"
| "int_unpack Field_longlong = longlong_unpack"

section \<open>BIT and BLOB fields\<close>

record Field_bit = Field +
  bit_ptr :: ptr
  bit_ofs :: uchar
  bit_len :: uint32
  bytes_in_rec :: uint32

definition bit_reset :: "mem \<Rightarrow> Field_bit \<Rightarrow> mem" where
  "bit_reset m f =
     (let m1 = put_bytes m (field_ptr f) (replicate (unat (bytes_in_rec f)) 0)
      in if bit_ptr f \<noteq> 0 \<and> bit_len f > 0 then clr_rec_bits m1 (bit_ptr f) (bit_ofs f) (bit_len f) else m1)"

definition set_bit_ptr :: "Field_bit \<Rightarrow> ptr \<Rightarrow> uchar \<Rightarrow> Field_bit" where
  "set_bit_ptr f bit_ptr_arg bit_ofs_arg = f\<lparr>bit_ptr := bit_ptr_arg, bit_ofs := bit_ofs_arg\<rparr>"

record Field_blob = Field +
  packlength :: nat

definition blob_max_data_length :: "Field_blob \<Rightarrow> uint32" where
  "blob_max_data_length f = ucast (push_bit (packlength f * 8) (1 :: uint64) - 1)"

definition blob_pack_length :: "Field_blob \<Rightarrow> nat" where
  "blob_pack_length f = packlength f + 8"

definition blob_reset :: "mem \<Rightarrow> Field_blob \<Rightarrow> mem" where
  "blob_reset m f = put_bytes m (field_ptr f) (replicate (packlength f + 8) 0)"

definition get_ptr :: "mem \<Rightarrow> Field_blob \<Rightarrow> int \<Rightarrow> uint64" where
  "get_ptr m f row_offset = load_le 8 m (ADD_TO_PTR (field_ptr f + packlength f) row_offset)"

definition set_ptr :: "mem \<Rightarrow> Field_blob \<Rightarrow> uchar list \<Rightarrow> uint64 \<Rightarrow> mem" where
  "set_ptr m f len data =
     store_le 8 (put_bytes m (field_ptr f) (take (packlength f) len)) (field_ptr f + packlength f) data"

section \<open>Flags of the .frm file\<close>

definition FIELDFLAG_DECIMAL :: uint32 where "FIELDFLAG_DECIMAL = 1"
definition FIELDFLAG_NUMBER :: uint32 where "FIELDFLAG_NUMBER = 2"
definition FIELDFLAG_ZEROFILL :: uint32 where "FIELDFLAG_ZEROFILL = 4"
definition FIELDFLAG_PACK :: uint32 where "FIELDFLAG_PACK = 120"
definition FIELDFLAG_INTERVAL :: uint32 where "FIELDFLAG_INTERVAL = 256"
definition FIELDFLAG_BITFIELD :: uint32 where "FIELDFLAG_BITFIELD = 512"
definition FIELDFLAG_BLOB :: uint32 where "FIELDFLAG_BLOB = 1024"
definition FIELDFLAG_GEOM :: uint32 where "FIELDFLAG_GEOM = 2048"
definition FIELDFLAG_PACK_SHIFT :: nat where "FIELDFLAG_PACK_SHIFT = 3"
definition FIELDFLAG_DEC_SHIFT :: nat where "FIELDFLAG_DEC_SHIFT = 8"
definition FIELDFLAG_MAX_DEC :: uint32 where "FIELDFLAG_MAX_DEC = 63"

definition f_is_num :: "uint32 \<Rightarrow> bool" where "f_is_num x \<longleftrightarrow> x AND FIELDFLAG_NUMBER \<noteq> 0"
definition f_is_alpha :: "uint32 \<Rightarrow> bool" where "f_is_alpha x \<longleftrightarrow> \<not> f_is_num x"
definition f_is_packed :: "uint32 \<Rightarrow> bool" where "f_is_packed x \<longleftrightarrow> x AND FIELDFLAG_PACK \<noteq> 0"
definition f_packtype :: "uint32 \<Rightarrow> uint32" where "f_packtype x = drop_bit FIELDFLAG_PACK_SHIFT x AND 15"
definition f_decimals :: "uint32 \<Rightarrow> uchar" where
  "f_decimals x = ucast (drop_bit FIELDFLAG_DEC_SHIFT x AND FIELDFLAG_MAX_DEC)"
definition f_settype :: "uint32 \<Rightarrow> uint32" where "f_settype x = push_bit FIELDFLAG_PACK_SHIFT x"
definition f_is_enum :: "uint32 \<Rightarrow> bool" where
  "f_is_enum x \<longleftrightarrow> x AND (FIELDFLAG_INTERVAL OR FIELDFLAG_NUMBER) = FIELDFLAG_INTERVAL"
definition f_is_bitfield :: "uint32 \<Rightarrow> bool" where
  "f_is_bitfield x \<longleftrightarrow> x AND (FIELDFLAG_BITFIELD OR FIELDFLAG_NUMBER) = FIELDFLAG_BITFIELD"
definition f_is_blob :: "uint32 \<Rightarrow> bool" where
  "f_is_blob x \<longleftrightarrow> x AND (FIELDFLAG_BLOB OR FIELDFLAG_NUMBER) = FIELDFLAG_BLOB"
definition f_is_geom :: "uint32 \<Rightarrow> bool" where
  "f_is_geom x \<longleftrightarrow> x AND (FIELDFLAG_GEOM OR FIELDFLAG_NUMBER) = FIELDFLAG_GEOM"


section \<open>NULL bits\<close>

lemma disjoint_bits:
  "(a :: uchar) AND b = 0 \<Longrightarrow> (x OR a) AND b = x AND b" "(a :: uchar) AND b = 0 \<Longrightarrow> (x AND NOT a) AND b = x AND b"
proof -
  assume "a AND b = 0"
  then have n: "\<not> (bit a i \<and> bit b i)" for i by (metis bit_and_iff bit_0_eq bot_apply bot_bool_def)
  show "(x OR a) AND b = x AND b" "(x AND NOT a) AND b = x AND b"
    using n by (auto intro!: bit_word_eqI simp: bit_simps)
qed

lemma set_bits_self: "(x OR a) AND a = (a :: uchar)" "(x AND NOT a) AND a = 0"
  by (auto intro!: bit_word_eqI simp: bit_simps)

lemma ADD_TO_PTR_0 [simp]: "ADD_TO_PTR p 0 = p"
  by (simp add: ADD_TO_PTR_def)

lemma ADD_TO_PTR_inj: "0 \<le> d \<Longrightarrow> ADD_TO_PTR p d = ADD_TO_PTR q d \<longleftrightarrow> p = q"
  by (auto simp: ADD_TO_PTR_def nat_eq_iff2)

text \<open>
  The NULL bits of a record: setting or clearing the bit of one field in some row changes what \<open>is_null\<close> says of
  that field in that row and of no other field with a bit of its own, also when
  the bits share a byte.
\<close>

theorem null_bits_independent:
  assumes "null_ptr f \<noteq> 0" "null_ptr g \<noteq> 0" "null_bit f \<noteq> 0" "0 \<le> d"
    and "null_ptr f \<noteq> null_ptr g \<or> null_bit f AND null_bit g = 0"
  shows "is_null (set_null m f d) t f d \<and> \<not> is_null (set_notnull m f d) t f d \<and>
    (is_null (set_null m f d) t g d \<longleftrightarrow> is_null m t g d) \<and> (is_null (set_notnull m f d) t g d \<longleftrightarrow> is_null m t g d)"
  using assms by (cases "null_ptr f = null_ptr g")
    (auto simp: is_null_def set_null_def set_notnull_def Let_def set_bits_self disjoint_bits ADD_TO_PTR_inj)

text \<open>
  Three ways to look at a field in another record agree: with the row offset, after moving the field there,
  and through \<open>is_null_in_record\<close>, for a field whose NULL byte is in the first record.
\<close>

theorem null_in_other_record:
  assumes "null_ptr f \<noteq> 0" "maybe_null_in_table t f" "null_ptr f < record0 t + 2 ^ 32" "rec \<noteq> 0"
  defines "d \<equiv> int rec - int (record0 t)"
  shows "is_null m t (move_field_offset f d) 0 = is_null m t f d \<and> is_null_in_record m t f rec = is_null m t f d"
proof -
  have le: "record0 t \<le> null_ptr f" using assms(2) by (simp add: maybe_null_in_table_def)
  have "unat (null_offset f (record0 t)) = null_ptr f - record0 t"
  proof -
    have "unat (of_nat (null_ptr f - record0 t) :: uint32) = null_ptr f - record0 t"
      using assms(3) le by (subst unat_of_nat) simp
    then show ?thesis using le by (simp add: null_offset_def of_nat_diff)
  qed
  moreover have at: "ADD_TO_PTR (null_ptr f) d = rec + (null_ptr f - record0 t)"
    using le by (simp add: ADD_TO_PTR_def d_def)
  ultimately show ?thesis using assms(1,2,4)
    by (simp add: is_null_def is_null_in_record_def move_field_offset_def Let_def)
qed

section \<open>Packed integers\<close>

lemma put_single: "put_bytes m p [b] = m(p := b)"
  by simp

lemma bytes_single: "bytes_at m p 1 = [m p]"
  by (simp add: bytes_at_def)

lemma int_pack_bytes: "int_pack k m to from = (to + int_pack_length k, put_bytes m to (bytes_at m from (int_pack_length k)))"
  by (cases k) (simp_all add: tiny_pack_def short_pack_def long_pack_def longlong_pack_def pack_int16_def pack_int32_def pack_int64_def pack_int_def bytes_at_Suc)

lemma int_unpack_bytes:
  "from \<le> from_end \<Longrightarrow> int_unpack k m to from from_end =
     (if from + int_pack_length k > from_end then (0, m)
      else (from + int_pack_length k, put_bytes m to (bytes_at m from (int_pack_length k))))"
  by (cases k) (auto simp: tiny_unpack_def short_unpack_def long_unpack_def longlong_unpack_def unpack_int16_def unpack_int32_def unpack_int64_def unpack_int_def bytes_at_Suc)

text \<open>
  C33: The packed form of an integer field: unpacking what was packed restores the bytes of the field and stops
  right behind the packed form; with one byte missing, or more, nothing is written and the null
  pointer is returned.
\<close>

theorem int_field_roundtrip:
  assumes "int_pack k m to from = (after, m1)"
  shows "after = to + int_pack_length k \<and>
    (\<exists>m2. int_unpack k m1 back to after = (after, m2) \<and>
       bytes_at m2 back (int_pack_length k) = bytes_at m from (int_pack_length k)) \<and>
    (\<forall>e. to \<le> e \<and> e < after \<longrightarrow> int_unpack k m1 back to e = (0, m1))"
proof -
  have a: "after = to + int_pack_length k" "m1 = put_bytes m to (bytes_at m from (int_pack_length k))"
    using assms by (simp_all add: int_pack_bytes)
  then have "bytes_at m1 to (int_pack_length k) = bytes_at m from (int_pack_length k)" by (simp add: bytes_at_put_same)
  then have "int_unpack k m1 back to after = (after, put_bytes m1 back (bytes_at m from (int_pack_length k)))"
    using a by (simp add: int_unpack_bytes)
  moreover have "int_unpack k m1 back to e = (0, m1)" if "to \<le> e" "e < after" for e
    using that a by (simp add: int_unpack_bytes)
  ultimately show ?thesis using a by (simp add: bytes_at_put_same)
qed

section \<open>Minimum and maximum of a column\<close>

text \<open>The image of each row is put into the field and the extreme values are updated, the first time by force.\<close>

fun scan_min :: "(uchar list \<Rightarrow> uchar list \<Rightarrow> int) \<Rightarrow> nat \<Rightarrow> mem \<Rightarrow> Field \<Rightarrow> Field \<Rightarrow> bool \<Rightarrow> uchar list list \<Rightarrow> mem" where
  "scan_min cmp n m f min_val force [] = m"
| "scan_min cmp n m f min_val force (r # rs) =
     scan_min cmp n (snd (update_min cmp n (put_bytes m (field_ptr f) r) f min_val force)) f min_val False rs"

fun scan_max :: "(uchar list \<Rightarrow> uchar list \<Rightarrow> int) \<Rightarrow> nat \<Rightarrow> mem \<Rightarrow> Field \<Rightarrow> Field \<Rightarrow> bool \<Rightarrow> uchar list list \<Rightarrow> mem" where
  "scan_max cmp n m f max_val force [] = m"
| "scan_max cmp n m f max_val force (r # rs) =
     scan_max cmp n (snd (update_max cmp n (put_bytes m (field_ptr f) r) f max_val force)) f max_val False rs"

definition apart :: "nat \<Rightarrow> Field \<Rightarrow> Field \<Rightarrow> bool" where
  "apart n f g \<longleftrightarrow> disjoint_areas (field_ptr f) (field_ptr g) n \<and>
     (null_ptr g < field_ptr f \<or> field_ptr f + n \<le> null_ptr g) \<and> (null_ptr g < field_ptr g \<or> field_ptr g + n \<le> null_ptr g)"

lemma bytes_set_notnull: "null_ptr g < p \<or> p + n \<le> null_ptr g \<Longrightarrow> bytes_at (set_notnull m g 0) p n = bytes_at m p n"
  by (rule nth_equalityI) (auto simp: set_notnull_def Let_def ADD_TO_PTR_def nth_bytes_at)

text \<open>\<open>stored\<close> is the extreme value so far, \<open>None\<close> before the first row.\<close>

definition pick :: "(uchar list \<Rightarrow> uchar list \<Rightarrow> int) \<Rightarrow> uchar list \<Rightarrow> bool \<Rightarrow> uchar list \<Rightarrow> uchar list" where
  "pick cmp best force r = (if force \<or> cmp r best < 0 then r else best)"

lemma update_min_step:
  assumes "apart n f g" "length r = n"
  shows "bytes_at (snd (update_min cmp n (put_bytes m (field_ptr f) r) f g force)) (field_ptr g) n =
    pick cmp (bytes_at m (field_ptr g) n) force r"
    "bytes_at (snd (update_max cmp n (put_bytes m (field_ptr f) r) f g force)) (field_ptr g) n =
    pick (\<lambda>a b. - cmp a b) (bytes_at m (field_ptr g) n) force r"
proof -
  let ?m = "put_bytes m (field_ptr f) r"
  have r: "bytes_at ?m (field_ptr f) n = r" using assms(2) by (simp add: bytes_at_put_same)
  have g: "bytes_at ?m (field_ptr g) n = bytes_at m (field_ptr g) n"
    using assms by (intro bytes_at_put_other) (auto simp: apart_def)
  have s: "bytes_at (set_notnull ?m g 0) (field_ptr f) n = r"
    using assms(1) r by (subst bytes_set_notnull) (auto simp: apart_def)
  show "bytes_at (snd (update_min cmp n ?m f g force)) (field_ptr g) n = pick cmp (bytes_at m (field_ptr g) n) force r"
    "bytes_at (snd (update_max cmp n ?m f g force)) (field_ptr g) n = pick (\<lambda>a b. - cmp a b) (bytes_at m (field_ptr g) n) force r"
    using r g s assms(2) by (auto simp: update_min_def update_max_def pick_def Let_def bytes_at_put_same)
qed

fun pick_all :: "(uchar list \<Rightarrow> uchar list \<Rightarrow> int) \<Rightarrow> uchar list \<Rightarrow> bool \<Rightarrow> uchar list list \<Rightarrow> uchar list" where
  "pick_all cmp best force [] = best"
| "pick_all cmp best force (r # rs) = pick_all cmp (pick cmp best force r) False rs"

lemma scan_picks:
  assumes "apart n f g" "\<forall>r\<in>set rs. length r = n"
  shows "bytes_at (scan_min cmp n m f g force rs) (field_ptr g) n = pick_all cmp (bytes_at m (field_ptr g) n) force rs"
    "bytes_at (scan_max cmp n m f g force rs) (field_ptr g) n = pick_all (\<lambda>a b. - cmp a b) (bytes_at m (field_ptr g) n) force rs"
  using assms(2) by (induction rs arbitrary: m force) (simp_all add: update_min_step [OF assms(1)])

text \<open>A comparison is a total preorder when its sign changes with the sides and it is transitive.\<close>

definition orders :: "(uchar list \<Rightarrow> uchar list \<Rightarrow> int) \<Rightarrow> bool" where
  "orders cmp \<longleftrightarrow> (\<forall>a b. cmp a b < 0 \<longleftrightarrow> 0 < cmp b a) \<and> (\<forall>a b c. cmp a b \<le> 0 \<longrightarrow> cmp b c \<le> 0 \<longrightarrow> cmp a c \<le> 0)"

lemma orders_flip: "orders cmp \<Longrightarrow> 0 \<le> cmp a b \<longleftrightarrow> cmp b a \<le> 0"
  by (metis linorder_not_less orders_def)

lemma orders_converse: "orders cmp \<Longrightarrow> orders (\<lambda>a b. - cmp a b)"
  unfolding orders_def [of "\<lambda>a b. - cmp a b"] by (auto simp: orders_flip) (auto simp: orders_def)

lemma orders_trans: "orders cmp \<Longrightarrow> cmp a b \<le> 0 \<Longrightarrow> cmp b c \<le> 0 \<Longrightarrow> cmp a c \<le> 0"
  by (auto simp: orders_def)

lemma pick_least: "orders cmp \<Longrightarrow> cmp (pick cmp best False r) best \<le> 0 \<and> cmp (pick cmp best False r) r \<le> 0"
  using orders_flip [of cmp r best] orders_flip [of cmp best best] orders_flip [of cmp r r] by (auto simp: pick_def)

lemma pick_all_least:
  assumes "orders cmp"
  shows "pick_all cmp best False rs \<in> insert best (set rs) \<and> cmp (pick_all cmp best False rs) best \<le> 0 \<and>
    (\<forall>r\<in>set rs. cmp (pick_all cmp best False rs) r \<le> 0)"
proof (induction rs arbitrary: best)
  case Nil
  then show ?case using orders_flip [OF assms, of best best] by auto
next
  case (Cons r rs)
  let ?b = "pick cmp best False r" and ?p = "pick_all cmp (pick cmp best False r) False rs"
  have "?b \<in> {best, r}" by (simp add: pick_def)
  moreover have "cmp ?p best \<le> 0" "cmp ?p r \<le> 0"
    using Cons [of ?b] pick_least [OF assms, of best r] orders_trans [OF assms, of ?p ?b] by blast+
  ultimately show ?case using Cons [of ?b] by auto
qed

text \<open>
  The statistics of a column: after the rows of a table have been scanned, the first one with a forced
  update, the minimum field holds the image of one of the rows that compares not greater than any other and
  the maximum field one that compares not smaller, whatever the fields held before.
\<close>

theorem column_min_max:
  fixes m :: mem
  assumes "orders cmp" "apart n f g" "\<forall>r\<in>set rows. length r = n" "rows \<noteq> []"
  defines "lo \<equiv> bytes_at (scan_min cmp n m f g True rows) (field_ptr g) n"
    and "hi \<equiv> bytes_at (scan_max cmp n m f g True rows) (field_ptr g) n"
  shows "lo \<in> set rows \<and> hi \<in> set rows \<and> (\<forall>r\<in>set rows. cmp lo r \<le> 0 \<and> 0 \<le> cmp hi r)"
proof -
  obtain r rs where rows: "rows = r # rs" using assms(4) by (cases rows) auto
  let ?up = "\<lambda>a b. - cmp a b"
  have "lo = pick_all cmp r False rs" "hi = pick_all ?up r False rs"
    unfolding lo_def hi_def using scan_picks [OF assms(2,3)] by (simp_all add: rows pick_def)
  then show ?thesis using pick_all_least [OF assms(1), of r rs] pick_all_least [OF orders_converse [OF assms(1)], of r rs]
    by (auto simp: rows)
qed

section \<open>BIT and BLOB fields\<close>

text \<open>
  Resetting a BIT field clears its bytes and its odd bits, which share their bytes with the NULL bits of the
  record: every other bit stays.
\<close>

theorem bit_field_reset:
  assumes "unat (bit_ofs f) < 8" "unat (bit_len f) \<le> 8" "bit_ptr f \<noteq> 0"
    and "bit_ptr f + 2 \<le> field_ptr f"
  shows "bytes_at (bit_reset m f) (field_ptr f) (unat (bytes_in_rec f)) = replicate (unat (bytes_in_rec f)) 0 \<and>
    (0 < bit_len f \<longrightarrow> get_rec_bits (bit_reset m f) (bit_ptr f) (bit_ofs f) (bit_len f) = 0) \<and>
    (\<forall>i<8. \<not> (unat (bit_ofs f) \<le> i \<and> i < unat (bit_ofs f) + unat (bit_len f)) \<longrightarrow>
       bit (bit_reset m f (bit_ptr f)) i = bit (m (bit_ptr f)) i)"
proof -
  let ?p = "bit_ptr f" and ?n = "unat (bytes_in_rec f)" and ?o = "bit_ofs f" and ?l = "bit_len f"
  define m1 where "m1 = put_bytes m (field_ptr f) (replicate ?n 0)"
  have m1: "m1 ?p = m ?p" using assms(4) by (simp add: m1_def put_bytes_outside)
  have z: "bytes_at m1 (field_ptr f) ?n = replicate ?n 0" by (simp add: m1_def bytes_at_put_same)
  show ?thesis
  proof (cases "0 < ?l")
    case False
    then have "bit_reset m f = m1" by (simp add: bit_reset_def m1_def)
    then show ?thesis using False m1 z by simp
  next
    case True
    then have r: "bit_reset m f = set_rec_bits 0 m1 ?p ?o ?l"
      using assms(3) by (simp add: bit_reset_def m1_def clr_rec_bits_def Let_def)
    have "bytes_at (set_rec_bits 0 m1 ?p ?o ?l) (field_ptr f) ?n = bytes_at m1 (field_ptr f) ?n"
      using assms(4) by (intro nth_equalityI) (auto simp: nth_bytes_at set_rec_bits_frame)
    moreover have "get_rec_bits (set_rec_bits 0 m1 ?p ?o ?l) ?p ?o ?l = 0"
      using assms(1,2) by (intro bit_word_eqI)
        (auto simp: bit_get_rec_bits bit_set_rec_bits_low bit_set_rec_bits_high simp del: One_nat_def add_Suc_right)
    moreover have "bit (set_rec_bits 0 m1 ?p ?o ?l ?p) i = bit (m ?p) i"
      if "i < 8" "\<not> (unat ?o \<le> i \<and> i < unat ?o + unat ?l)" for i
      using that assms(1,2) m1 by (auto simp: bit_set_rec_bits_low)
    ultimately show ?thesis unfolding r using z by simp
  qed
qed

text \<open>
  A BLOB keeps its length and the address of its data in the record: both are read back as they were stored,
  and the longest length is the largest number that fits the length bytes.
\<close>

theorem blob_pointer_roundtrip:
  assumes "length len = packlength f" "1 \<le> packlength f" "packlength f \<le> 4"
  shows "get_ptr (set_ptr m f len data) f 0 = data \<and>
    bytes_at (set_ptr m f len data) (field_ptr f) (packlength f) = len \<and>
    unat (blob_max_data_length f) = 256 ^ packlength f - 1"
proof -
  have "packlength f \<in> {1, 2, 3, 4}" using assms(2,3) by auto
  then have "unat (blob_max_data_length f) = 256 ^ packlength f - 1" by (auto simp: blob_max_data_length_def)
  then show ?thesis using assms(1)
    by (simp add: get_ptr_def set_ptr_def load_store_same bytes_store_other bytes_at_put_same)
qed

section \<open>Flags\<close>

text \<open>
  The flag word of a column in the .frm file: the pack type and the number of decimals are read back from
  the places they are put into, and a numeric column, whose decimals share bits with the kinds, is
  never taken for an ENUM, BIT, BLOB or geometry column.
\<close>

theorem frm_flags:
  assumes "unat t < 16" "unat d < 64"
  shows "f_packtype (push_bit FIELDFLAG_DEC_SHIFT d OR f_settype t OR FIELDFLAG_NUMBER) = t \<and>
    f_decimals (push_bit FIELDFLAG_DEC_SHIFT d OR f_settype t OR FIELDFLAG_NUMBER) = ucast d \<and>
    (f_is_num x \<longrightarrow> \<not> f_is_enum x \<and> \<not> f_is_bitfield x \<and> \<not> f_is_blob x \<and> \<not> f_is_geom x)"
proof -
  have t: "bit t i \<Longrightarrow> i < 4" for i using assms(1) bit_of_lt [of t 4] by simp
  have d: "bit d i \<Longrightarrow> i < 6" for i using assms(2) bit_of_lt [of d 6] by simp
  have flag_masks: "FIELDFLAG_NUMBER = push_bit 1 1" "(15 :: uint32) = mask 4" "(63 :: uint32) = mask 6"
    by (simp_all add: FIELDFLAG_NUMBER_def mask_eq_exp_minus_1)
  let ?w = "push_bit FIELDFLAG_DEC_SHIFT d OR f_settype t OR FIELDFLAG_NUMBER"
  have "f_packtype ?w = t"
    unfolding f_packtype_def flag_masks f_settype_def FIELDFLAG_PACK_SHIFT_def FIELDFLAG_DEC_SHIFT_def
    by (rule bit_word_eqI) (auto simp: bit_simps dest: t d)
  moreover have "f_decimals ?w = ucast d"
    unfolding f_decimals_def flag_masks f_settype_def FIELDFLAG_PACK_SHIFT_def FIELDFLAG_DEC_SHIFT_def FIELDFLAG_MAX_DEC_def
    by (rule bit_word_eqI) (auto simp: bit_simps dest: t d)
  moreover have other_kind: "\<not> (x AND (k OR 2) = k)" if "x AND 2 \<noteq> 0" "k AND 2 = 0" for k :: uint32
  proof
    assume "x AND (k OR 2) = k"
    then have "(x AND (k OR 2)) AND 2 = 0" using that(2) by simp
    then show False using that(1) by (simp add: and.assoc and.left_commute)
  qed
  ultimately show ?thesis using other_kind [of 256] other_kind [of 512] other_kind [of 1024] other_kind [of 2048]
    by (simp add: f_is_num_def f_is_enum_def f_is_bitfield_def f_is_blob_def f_is_geom_def FIELDFLAG_NUMBER_def
        FIELDFLAG_INTERVAL_def FIELDFLAG_BITFIELD_def FIELDFLAG_BLOB_def FIELDFLAG_GEOM_def)
qed

section \<open>Concrete cases\<close>

definition sample_field :: Field where
  "sample_field = \<lparr>field_ptr = 110, null_ptr = 100, null_bit = 2\<rparr>"

definition sample_other :: Field where
  "sample_other = \<lparr>field_ptr = 120, null_ptr = 100, null_bit = 4\<rparr>"

definition sample_table :: TABLE where
  "sample_table = \<lparr>null_row = False, record0 = 100, table_maybe_null = False\<rparr>"

theorem null_bits_independent_witness:
  "is_null (set_null (\<lambda>_. 0) sample_field 0) sample_table sample_field 0 \<and>
   \<not> is_null (set_null (\<lambda>_. 0) sample_field 0) sample_table sample_other 0"
  using null_bits_independent [of sample_field sample_other 0 "\<lambda>_. 0" sample_table]
  by (simp add: sample_field_def sample_other_def) (simp add: is_null_def)

theorem null_in_other_record_witness:
  "is_null_in_record (\<lambda>_. 255) sample_table sample_field 500 \<longleftrightarrow> is_null (\<lambda>_. 255) sample_table sample_field 400"
  using null_in_other_record [of sample_field sample_table 500 "\<lambda>_. 255"]
  by (simp add: sample_field_def sample_table_def maybe_null_in_table_def)

theorem int_field_roundtrip_witness:
  "\<exists>m2. int_unpack Field_long (snd (int_pack Field_long (\<lambda>a. of_nat a) 50 110)) 200 50 54 = (54, m2) \<and>
     bytes_at m2 200 4 = bytes_at (\<lambda>a. of_nat a) 110 4"
proof -
  have "int_pack Field_long (\<lambda>a. of_nat a) 50 110 = (54, snd (int_pack Field_long (\<lambda>a. of_nat a) 50 110))"
    by (simp only: int_pack_bytes) simp
  from int_field_roundtrip [OF this] show ?thesis by auto
qed

definition compare_numbers :: "uchar list \<Rightarrow> uchar list \<Rightarrow> int" where
  "compare_numbers a b = int (le_nat a) - int (le_nat b)"

theorem column_min_max_witness:
  "bytes_at (scan_min compare_numbers 1 (\<lambda>_. 0) sample_field sample_other True [[7], [3], [5]]) 120 1 \<in> set [[7], [3], [5]]"
proof -
  have "orders compare_numbers" by (auto simp: orders_def compare_numbers_def)
  from column_min_max [OF this, of 1 sample_field sample_other "[[7], [3], [5]]" "\<lambda>_. 0"]
  show ?thesis by (simp add: apart_def) (simp add: sample_field_def sample_other_def)
qed

theorem bit_field_reset_witness:
  "get_rec_bits (bit_reset (\<lambda>_. 255) \<lparr>field_ptr = 110, null_ptr = 100, null_bit = 2, bit_ptr = 100, bit_ofs = 6, bit_len = 4, bytes_in_rec = 2\<rparr>)
     100 6 4 = 0"
  using bit_field_reset [of "\<lparr>field_ptr = 110, null_ptr = 100, null_bit = 2, bit_ptr = 100, bit_ofs = 6, bit_len = 4, bytes_in_rec = 2\<rparr>" "\<lambda>_. 255"]
  by simp

theorem blob_pointer_roundtrip_witness:
  "get_ptr (set_ptr (\<lambda>_. 0) \<lparr>field_ptr = 110, null_ptr = 100, null_bit = 2, packlength = 2\<rparr> [4, 1] 5000)
     \<lparr>field_ptr = 110, null_ptr = 100, null_bit = 2, packlength = 2\<rparr> 0 = 5000"
  using blob_pointer_roundtrip [of "[4, 1]" "\<lparr>field_ptr = 110, null_ptr = 100, null_bit = 2, packlength = 2\<rparr>"] by simp

theorem frm_flags_witness:
  "f_packtype (push_bit FIELDFLAG_DEC_SHIFT 5 OR f_settype 9 OR FIELDFLAG_NUMBER) = 9"
  using frm_flags [of 9 5] by simp

end
