(* ===== verification/Diagnostics.thy ===== *)
theory Diagnostics
  imports PList NodeHeap
begin

text \<open>
  The diagnostics of a statement (\<^verbatim>\<open>sql_error.h\<close>): SQLSTATE values and their classes, the identity of a condition,
  conditions, the lists and counters of a \<open>Warning_info\<close>, and the stack of \<open>Warning_info\<close> objects of a \<open>Diagnostics_area\<close>.  The stack is
  an \<open>I_P_List\<close>, so it is modelled by the list of theory \<open>PList\<close>; the list of conditions of one object, which only
  compiled code changes, is the sequence of its elements with their addresses.  The functions of \<open>Warning_info\<close> that are compiled code
  are the members of the record \<open>wi_compiled\<close>, an argument; each works on the object it is called for, whose conditions
  live in the object's own memory root.  A failing assertion has no result.
\<close>

section \<open>SQLSTATE\<close>

definition SQLSTATE_LENGTH :: nat where "SQLSTATE_LENGTH = 5"

type_synonym sql_state = "uchar list"

definition sql_state_new :: sql_state where
  "sql_state_new = replicate (SQLSTATE_LENGTH + 1) 0"

definition set_sqlstate :: "uchar list \<Rightarrow> sql_state" where
  "set_sqlstate sqlstate = take SQLSTATE_LENGTH sqlstate @ [0]"

text \<open>The string up to the terminating zero, as \<open>strcmp\<close> sees it.\<close>

definition c_string :: "uchar list \<Rightarrow> uchar list" where
  "c_string s = takeWhile (\<lambda>c. c \<noteq> 0) s"

definition sql_state_eq :: "sql_state \<Rightarrow> sql_state \<Rightarrow> bool" where
  "sql_state_eq s other \<longleftrightarrow> c_string s = c_string other"

definition has_sql_state :: "sql_state \<Rightarrow> bool" where
  "has_sql_state s \<longleftrightarrow> s ! 0 \<noteq> 0"

text \<open>Characters by their code: 48 is \<open>'0'\<close>.  \<open>char\<close> is signed.\<close>

definition is_warning :: "sql_state \<Rightarrow> bool" where
  "is_warning s \<longleftrightarrow> s ! 0 = 48 \<and> s ! 1 = 49"

definition is_not_found :: "sql_state \<Rightarrow> bool" where
  "is_not_found s \<longleftrightarrow> s ! 0 = 48 \<and> s ! 1 = 50"

definition is_exception :: "sql_state \<Rightarrow> bool" where
  "is_exception s \<longleftrightarrow> s ! 0 \<noteq> 48 \<or> sint (s ! 1) > 50"

definition is_sqlstate_completion :: "uchar list \<Rightarrow> bool" where
  "is_sqlstate_completion s \<longleftrightarrow> s ! 0 = 48 \<and> s ! 1 = 48"

section \<open>The identity of a condition\<close>

datatype enum_warning_level = WARN_LEVEL_NOTE | WARN_LEVEL_WARN | WARN_LEVEL_ERROR

record Sql_condition_identity =
  m_sqlstate :: sql_state
  m_sql_errno :: uint32
  m_level :: enum_warning_level
  m_user_condition_value :: ptr


definition state_errno_set :: "Sql_condition_identity \<Rightarrow> uint32 \<Rightarrow> uchar list \<Rightarrow> Sql_condition_identity" where
  "state_errno_set c sql_errno sqlstate = c\<lparr>m_sql_errno := sql_errno, m_sqlstate := set_sqlstate sqlstate\<rparr>"

definition state_errno_clear :: "Sql_condition_identity \<Rightarrow> Sql_condition_identity" where
  "state_errno_clear c = c\<lparr>m_sql_errno := 0\<rparr>"

definition state_errno_level_clear :: "Sql_condition_identity \<Rightarrow> Sql_condition_identity" where
  "state_errno_level_clear c = state_errno_clear (c\<lparr>m_level := WARN_LEVEL_ERROR\<rparr>)"

definition identity_clear :: "Sql_condition_identity \<Rightarrow> Sql_condition_identity" where
  "identity_clear c = (state_errno_level_clear c)\<lparr>m_user_condition_value := 0\<rparr>"

section \<open>Conditions\<close>

record Sql_condition_items =
  m_class_origin :: "uchar list"
  m_subclass_origin :: "uchar list"
  m_constraint_catalog :: "uchar list"
  m_constraint_schema :: "uchar list"
  m_constraint_name :: "uchar list"
  m_catalog_name :: "uchar list"
  m_schema_name :: "uchar list"
  m_table_name :: "uchar list"
  m_column_name :: "uchar list"
  m_cursor_name :: "uchar list"


definition condition_items_clear :: "Sql_condition_items \<Rightarrow> Sql_condition_items" where
  "condition_items_clear c =
     c\<lparr>m_class_origin := [], m_subclass_origin := [], m_constraint_catalog := [], m_constraint_schema := [], m_constraint_name := [],
       m_catalog_name := [], m_schema_name := [], m_table_name := [], m_column_name := [], m_cursor_name := []\<rparr>"

record Sql_condition =
  cond_identity :: Sql_condition_identity
  cond_items :: Sql_condition_items
  m_message_text :: "uchar list"

definition condition_clear :: "Sql_condition \<Rightarrow> Sql_condition" where
  "condition_clear c =
     \<lparr>cond_identity = identity_clear (cond_identity c), cond_items = condition_items_clear (cond_items c), m_message_text = []\<rparr>"

section \<open>Warning information\<close>

record Warning_info =
  m_warn_list :: "(ptr \<times> Sql_condition) list"
  m_warn_count :: "enum_warning_level \<Rightarrow> uint32"
  m_current_statement_warn_count :: uint32
  m_current_row_for_warning :: ulong
  m_warn_id :: uint64
  m_error_condition :: ptr
  m_allow_unlimited_warnings :: bool
  wi_initialized :: bool
  m_read_only :: bool
  m_marked_sql_conditions :: "ptr list"





text \<open>\<open>node_ok\<close> tells whether the node of the list could be allocated.\<close>

definition wi_mark_condition :: "bool \<Rightarrow> Warning_info \<Rightarrow> ptr \<Rightarrow> Warning_info" where
  "wi_mark_condition node_ok w cond =
     (if node_ok then w\<lparr>m_marked_sql_conditions := m_marked_sql_conditions w @ [cond]\<rparr> else w)"

definition wi_warn_count :: "Warning_info \<Rightarrow> ulong" where
  "wi_warn_count w = m_warn_count w WARN_LEVEL_NOTE + m_warn_count w WARN_LEVEL_ERROR + m_warn_count w WARN_LEVEL_WARN"

definition wi_error_count :: "Warning_info \<Rightarrow> ulong" where
  "wi_error_count w = m_warn_count w WARN_LEVEL_ERROR"

definition wi_cond_count :: "Warning_info \<Rightarrow> uint32" where
  "wi_cond_count w = of_nat (length (m_warn_list w))"

definition wi_is_empty :: "Warning_info \<Rightarrow> bool" where
  "wi_is_empty w \<longleftrightarrow> m_warn_list w = []"




definition wi_set_error_condition :: "Warning_info \<Rightarrow> ptr \<Rightarrow> Warning_info" where
  "wi_set_error_condition w c = w\<lparr>m_error_condition := c\<rparr>"

definition wi_clear_error_condition :: "Warning_info \<Rightarrow> Warning_info" where
  "wi_clear_error_condition w = w\<lparr>m_error_condition := 0\<rparr>"

section \<open>The diagnostics area\<close>

datatype enum_diagnostics_status = DA_EMPTY | DA_OK | DA_EOF | DA_OK_BULK | DA_ERROR | DA_DISABLED

text \<open>\<open>m_wi_stack\<close> is the list object at the address \<open>da_stack\<close> of the heap of links.\<close>

record Diagnostics_area =
  m_status :: enum_diagnostics_status
  m_affected_rows :: uint64
  m_last_insert_id :: uint64
  m_statement_warn_count :: uint32
  m_is_sent :: bool
  m_can_overwrite_status :: bool
  m_skip_flush :: bool
  is_bulk_execution :: bool
  da_stack :: ptr
  da_links :: plist_heap
  da_infos :: "ptr \<Rightarrow> Warning_info"

definition affected_rows :: "Diagnostics_area \<Rightarrow> uint64 option" where
  "affected_rows d = do { DBUG_ASSERT (m_status d = DA_OK \<or> m_status d = DA_OK_BULK); Some (m_affected_rows d) }"

definition last_insert_id :: "Diagnostics_area \<Rightarrow> uint64 option" where
  "last_insert_id d = do { DBUG_ASSERT (m_status d = DA_OK \<or> m_status d = DA_OK_BULK); Some (m_last_insert_id d) }"

definition statement_warn_count :: "Diagnostics_area \<Rightarrow> uint32 option" where
  "statement_warn_count d =
     do { DBUG_ASSERT (m_status d = DA_OK \<or> m_status d = DA_OK_BULK \<or> m_status d = DA_EOF); Some (m_statement_warn_count d) }"

definition increment_warning :: "Diagnostics_area \<Rightarrow> Diagnostics_area" where
  "increment_warning d =
     (if m_status d \<noteq> DA_EMPTY then d\<lparr>m_statement_warn_count := m_statement_warn_count d + 1\<rparr> else d)"



definition get_warning_info :: "Diagnostics_area \<Rightarrow> ptr" where
  "get_warning_info d = pl_front (da_links d) (da_stack d)"







definition warning_info_changed :: "Diagnostics_area \<Rightarrow> Warning_info \<Rightarrow> bool option" where
  "warning_info_changed d wi =
     (if get_warning_info d = 0 then None else Some (m_warn_id (da_infos d (get_warning_info d)) \<noteq> m_warn_id wi))"

definition da_cond_count :: "Diagnostics_area \<Rightarrow> uint32 option" where
  "da_cond_count d = (if get_warning_info d = 0 then None else Some (wi_cond_count (da_infos d (get_warning_info d))))"

definition is_warning_info_empty :: "Diagnostics_area \<Rightarrow> bool option" where
  "is_warning_info_empty d = (if get_warning_info d = 0 then None else Some (wi_is_empty (da_infos d (get_warning_info d))))"

section \<open>Classes of SQLSTATE\<close>

text \<open>A valid SQLSTATE has five digits or capital letters.\<close>

definition sqlstate_char :: "uchar \<Rightarrow> bool" where
  "sqlstate_char c \<longleftrightarrow> (48 \<le> c \<and> c \<le> 57) \<or> (65 \<le> c \<and> c \<le> 90)"

definition valid_sqlstate :: "uchar list \<Rightarrow> bool" where
  "valid_sqlstate s \<longleftrightarrow> length s = SQLSTATE_LENGTH \<and> list_all sqlstate_char s"

lemma set_sqlstate_nth: "valid_sqlstate s \<Longrightarrow> i < 5 \<Longrightarrow> set_sqlstate s ! i = s ! i"
  by (simp add: set_sqlstate_def valid_sqlstate_def SQLSTATE_LENGTH_def nth_append)

lemma set_sqlstate_string:
  assumes "valid_sqlstate s"
  shows "c_string (set_sqlstate s) = s"
proof -
  have "list_all (\<lambda>c. c \<noteq> 0) s" using assms by (auto simp: valid_sqlstate_def sqlstate_char_def list_all_iff)
  then show ?thesis using assms by (simp add: c_string_def set_sqlstate_def valid_sqlstate_def list_all_iff)
qed

text \<open>
  Every valid SQLSTATE belongs to exactly one of the classes completion, warning, not found and exception;
  two of them are equal for \<open>eq\<close> exactly if they are the same string.
\<close>

theorem sqlstate_classes:
  assumes "valid_sqlstate s" "valid_sqlstate t"
  shows "(if is_sqlstate_completion s then \<not> is_warning (set_sqlstate s) \<and> \<not> is_not_found (set_sqlstate s) \<and> \<not> is_exception (set_sqlstate s)
      else if is_warning (set_sqlstate s) then \<not> is_not_found (set_sqlstate s) \<and> \<not> is_exception (set_sqlstate s)
      else if is_not_found (set_sqlstate s) then \<not> is_exception (set_sqlstate s) else is_exception (set_sqlstate s)) \<and>
    (sql_state_eq (set_sqlstate s) (set_sqlstate t) \<longleftrightarrow> s = t) \<and> has_sql_state (set_sqlstate s)"
proof -
  have c: "sqlstate_char (s ! 0)" "sqlstate_char (s ! 1)" using assms(1) by (auto simp: valid_sqlstate_def list_all_length SQLSTATE_LENGTH_def)
  have small: "s ! 1 < 128" using c(2) by (auto simp: sqlstate_char_def word_less_nat_alt word_le_nat_alt)
  have "unat (s ! 1) < 128" using small by (simp add: word_less_nat_alt)
  then have "sint (s ! 1) > 50 \<longleftrightarrow> s ! 1 > 50" by (simp add: sint_nonneg word_less_def)
  moreover have "s ! 1 > 50 \<or> s ! 1 = 48 \<or> s ! 1 = 49 \<or> s ! 1 = 50"
    using c(2) by (auto simp: sqlstate_char_def word_less_nat_alt word_le_nat_alt word_unat_eq_iff)
  moreover have "s ! 0 \<noteq> 0" using c(1) by (auto simp: sqlstate_char_def)
  ultimately show ?thesis
    using set_sqlstate_string [OF assms(1)] set_sqlstate_string [OF assms(2)]
    by (auto simp: is_warning_def is_not_found_def is_exception_def is_sqlstate_completion_def has_sql_state_def
        sql_state_eq_def set_sqlstate_nth [OF assms(1)])
qed

text \<open>
  Clearing the identity of a condition resets the number, the level and the user condition, but not the
  SQLSTATE: a condition that had one still has it.
\<close>

theorem identity_clear_keeps_sqlstate:
  "m_sql_errno (identity_clear c) = 0 \<and> m_level (identity_clear c) = WARN_LEVEL_ERROR \<and>
   m_user_condition_value (identity_clear c) = 0 \<and> m_sqlstate (identity_clear c) = m_sqlstate c \<and>
   has_sql_state (m_sqlstate (identity_clear c)) = has_sql_state (m_sqlstate c)"
  by (simp add: identity_clear_def state_errno_level_clear_def state_errno_clear_def)

section \<open>Stacked diagnostics\<close>











section \<open>Concrete cases\<close>

theorem sqlstate_classes_witness:
  "is_exception (set_sqlstate [50, 51, 48, 48, 48]) \<and> \<not> sql_state_eq (set_sqlstate [50, 51, 48, 48, 48]) (set_sqlstate [48, 50, 48, 48, 48])"
  using sqlstate_classes [of "[50, 51, 48, 48, 48]" "[48, 50, 48, 48, 48]"]
  by (simp add: valid_sqlstate_def sqlstate_char_def SQLSTATE_LENGTH_def is_sqlstate_completion_def is_warning_def
      is_not_found_def set_sqlstate_def)










end
