(* ===== verification/Trackers.thy ===== *)
theory Trackers
  imports Complex_Main Prelude
begin

text \<open>
  The counters and timers behind \<open>ANALYZE\<close> (\<^verbatim>\<open>sql_analyze_stmt.h\<close>): the time tracker over a 64-bit cycle counter, the
  access counters of a table and what a sort reports about its runs.  The cycle counter that \<open>my_timer_cycles\<close>
  reads is an argument of each operation that reads it; averages are exact rational numbers, with the
  division by zero of the code left out by the hypotheses.
\<close>

section \<open>Time\<close>

record Exec_time_tracker =
  tcount :: uint64
  cycles :: uint64
  last_start :: uint64

definition cycles_stop_tracking :: "uint64 \<Rightarrow> Exec_time_tracker \<Rightarrow> Exec_time_tracker" where
  "cycles_stop_tracking my_timer_cycles t =
     (let end = my_timer_cycles; c = cycles t + (end - last_start t)
      in t\<lparr>cycles := if end < last_start t then c + ULONGLONG_MAX else c\<rparr>)"

definition start_tracking :: "uint64 \<Rightarrow> Exec_time_tracker \<Rightarrow> Exec_time_tracker" where
  "start_tracking my_timer_cycles t = t\<lparr>last_start := my_timer_cycles\<rparr>"

definition stop_tracking :: "uint64 \<Rightarrow> Exec_time_tracker \<Rightarrow> Exec_time_tracker" where
  "stop_tracking my_timer_cycles t = cycles_stop_tracking my_timer_cycles (t\<lparr>tcount := tcount t + 1\<rparr>)"

definition get_loops :: "Exec_time_tracker \<Rightarrow> uint64" where
  "get_loops t = tcount t"

definition get_time_ms :: "uint64 \<Rightarrow> Exec_time_tracker \<Rightarrow> real" where
  "get_time_ms frequency t = 1000 * real (unat (cycles t)) / real (unat frequency)"

record Time_and_counter_tracker = Exec_time_tracker +
  timed :: bool

definition Time_and_counter_tracker_new :: "bool \<Rightarrow> uint64 \<Rightarrow> Time_and_counter_tracker" where
  "Time_and_counter_tracker_new timed_arg junk = \<lparr>tcount = 0, cycles = 0, last_start = junk, timed = timed_arg\<rparr>"

definition incr_loops :: "Time_and_counter_tracker \<Rightarrow> Time_and_counter_tracker" where
  "incr_loops t = t\<lparr>tcount := tcount t + 1\<rparr>"

definition counter_start_tracking :: "uint64 \<Rightarrow> Time_and_counter_tracker \<Rightarrow> Time_and_counter_tracker" where
  "counter_start_tracking my_timer_cycles t = t\<lparr>last_start := my_timer_cycles\<rparr>"

definition counter_stop_tracking :: "uint64 \<Rightarrow> Time_and_counter_tracker \<Rightarrow> Time_and_counter_tracker" where
  "counter_stop_tracking my_timer_cycles t =
     (let end = my_timer_cycles; c = cycles t + (end - last_start t)
      in t\<lparr>cycles := if end < last_start t then c + ULONGLONG_MAX else c\<rparr>)"

definition ANALYZE_START_TRACKING :: "uint64 \<Rightarrow> Time_and_counter_tracker \<Rightarrow> Time_and_counter_tracker" where
  "ANALYZE_START_TRACKING now t =
     (let t1 = incr_loops t in if timed t1 then counter_start_tracking now t1 else t1)"

definition ANALYZE_STOP_TRACKING :: "uint64 \<Rightarrow> Time_and_counter_tracker \<Rightarrow> Time_and_counter_tracker" where
  "ANALYZE_STOP_TRACKING now t = (if timed t then counter_stop_tracking now t else t)"

section \<open>Access to a table\<close>

record Table_access_tracker =
  r_scans :: uint64
  r_rows :: uint64
  r_rows_after_where :: uint64

definition Table_access_tracker_new :: Table_access_tracker where
  "Table_access_tracker_new = \<lparr>r_scans = 0, r_rows = 0, r_rows_after_where = 0\<rparr>"

definition has_scans :: "Table_access_tracker \<Rightarrow> bool" where
  "has_scans t \<longleftrightarrow> r_scans t \<noteq> 0"

definition get_avg_rows :: "Table_access_tracker \<Rightarrow> real" where
  "get_avg_rows t = (if r_scans t \<noteq> 0 then real (unat (r_rows t)) / real (unat (r_scans t)) else 0)"

definition get_filtered_after_where :: "Table_access_tracker \<Rightarrow> real" where
  "get_filtered_after_where t =
     (if r_rows t > 0 then real (unat (r_rows_after_where t)) / real (unat (r_rows t)) else 1)"

definition on_scan_init :: "Table_access_tracker \<Rightarrow> Table_access_tracker" where
  "on_scan_init t = t\<lparr>r_scans := r_scans t + 1\<rparr>"

definition on_record_read :: "Table_access_tracker \<Rightarrow> Table_access_tracker" where
  "on_record_read t = t\<lparr>r_rows := r_rows t + 1\<rparr>"

definition on_record_after_where :: "Table_access_tracker \<Rightarrow> Table_access_tracker" where
  "on_record_after_where t = t\<lparr>r_rows_after_where := r_rows_after_where t + 1\<rparr>"

section \<open>Sorting\<close>

record Filesort_tracker =
  time_tracker :: Time_and_counter_tracker
  r_limit :: uint64
  r_used_pq :: uint64
  r_examined_rows :: uint64
  r_sorted_rows :: uint64
  r_output_rows :: uint64
  sort_passes :: uint64
  sort_buffer_size :: uint64

definition Filesort_tracker_new :: "bool \<Rightarrow> uint64 \<Rightarrow> Filesort_tracker" where
  "Filesort_tracker_new do_timing junk =
     \<lparr>time_tracker = Time_and_counter_tracker_new do_timing junk, r_limit = 0, r_used_pq = 0, r_examined_rows = 0,
      r_sorted_rows = 0, r_output_rows = 0, sort_passes = 0, sort_buffer_size = 0\<rparr>"

definition report_use :: "uint64 \<Rightarrow> Filesort_tracker \<Rightarrow> uint64 \<Rightarrow> Filesort_tracker" where
  "report_use now t r_limit_arg =
     (let t1 = t\<lparr>r_limit := if tcount (time_tracker t) = 0 then r_limit_arg
                           else if r_limit t \<noteq> r_limit_arg then 0 else r_limit_arg\<rparr>
      in t1\<lparr>time_tracker := ANALYZE_START_TRACKING now (time_tracker t1)\<rparr>)"

definition incr_pq_used :: "Filesort_tracker \<Rightarrow> Filesort_tracker" where
  "incr_pq_used t = t\<lparr>r_used_pq := r_used_pq t + 1\<rparr>"

definition report_row_numbers :: "Filesort_tracker \<Rightarrow> uint64 \<Rightarrow> uint64 \<Rightarrow> uint64 \<Rightarrow> Filesort_tracker" where
  "report_row_numbers t examined_rows sorted_rows returned_rows =
     t\<lparr>r_examined_rows := r_examined_rows t + examined_rows, r_sorted_rows := r_sorted_rows t + sorted_rows,
       r_output_rows := r_output_rows t + returned_rows\<rparr>"

definition report_merge_passes_at_start :: "Filesort_tracker \<Rightarrow> ulong \<Rightarrow> Filesort_tracker" where
  "report_merge_passes_at_start t passes = t\<lparr>sort_passes := sort_passes t - ucast passes\<rparr>"

definition report_merge_passes_at_end :: "uint64 \<Rightarrow> Filesort_tracker \<Rightarrow> ulong \<Rightarrow> Filesort_tracker" where
  "report_merge_passes_at_end now t passes =
     (let t1 = t\<lparr>time_tracker := ANALYZE_STOP_TRACKING now (time_tracker t)\<rparr>
      in t1\<lparr>sort_passes := sort_passes t1 + ucast passes\<rparr>)"

definition report_sort_buffer_size :: "Filesort_tracker \<Rightarrow> uint64 \<Rightarrow> Filesort_tracker" where
  "report_sort_buffer_size t bufsize =
     t\<lparr>sort_buffer_size := if sort_buffer_size t \<noteq> 0 then ULONGLONG_MAX else bufsize\<rparr>"

definition get_avg_examined_rows :: "Filesort_tracker \<Rightarrow> real" where
  "get_avg_examined_rows t = real (unat (r_examined_rows t)) / real (unat (tcount (time_tracker t)))"

definition get_avg_returned_rows :: "Filesort_tracker \<Rightarrow> real" where
  "get_avg_returned_rows t = real (unat (r_output_rows t)) / real (unat (tcount (time_tracker t)))"

definition get_r_filtered :: "Filesort_tracker \<Rightarrow> real" where
  "get_r_filtered t =
     (if r_examined_rows t > 0 then real (unat (r_sorted_rows t)) / real (unat (r_examined_rows t)) else 1)"

section \<open>The time between start and stop\<close>

text \<open>
  The tracked time: when the cycle counter has not wrapped around between start and stop the elapsed cycles are
  added; when it has wrapped, modular subtraction alone would be right, and the extra correction makes the
  sum one cycle too small.
\<close>

theorem time_tracker_elapsed:
  fixes elapsed begin_at :: uint64 and t :: Exec_time_tracker
  defines "t' \<equiv> stop_tracking (begin_at + elapsed) (start_tracking begin_at t)"
  shows "cycles t' = cycles t + elapsed - (if unat begin_at + unat elapsed < 2 ^ 64 then 0 else 1) \<and>
    get_loops t' = get_loops t + 1"
proof -
  have "begin_at + elapsed < begin_at \<longleftrightarrow> \<not> unat begin_at + unat elapsed < 2 ^ 64"
  proof (cases "unat begin_at + unat elapsed < 2 ^ 64")
    case True
    then show ?thesis by (simp add: word_less_nat_alt unat_word_ariths)
  next
    case False
    then have "(unat begin_at + unat elapsed) mod 2 ^ 64 = unat begin_at + unat elapsed - 2 ^ 64"
      using uint64_lt [of begin_at] uint64_lt [of elapsed] by (simp add: mod_if)
    then show ?thesis using False uint64_lt [of elapsed] by (simp add: word_less_nat_alt unat_word_ariths)
  qed
  then show ?thesis
    by (simp add: t'_def stop_tracking_def cycles_stop_tracking_def start_tracking_def get_loops_def Let_def ULONGLONG_MAX_def)
qed

section \<open>Reports of several sorts\<close>

text \<open>One run of a sort: its limit, the merge passes before and after, and when it starts and stops.\<close>

record sort_run =
  run_limit :: uint64
  run_pass_start :: ulong
  run_pass_end :: ulong
  run_begin :: uint64
  run_finish :: uint64

definition track_run :: "Filesort_tracker \<Rightarrow> sort_run \<Rightarrow> Filesort_tracker" where
  "track_run t r =
     report_merge_passes_at_end (run_finish r)
       (report_merge_passes_at_start (report_use (run_begin r) t (run_limit r)) (run_pass_start r)) (run_pass_end r)"

definition track_runs :: "Filesort_tracker \<Rightarrow> sort_run list \<Rightarrow> Filesort_tracker" where
  "track_runs t rs = foldl track_run t rs"

lemma track_run_fields:
  "tcount (time_tracker (track_run t r)) = tcount (time_tracker t) + 1"
  "sort_passes (track_run t r) = sort_passes t + (ucast (run_pass_end r) - ucast (run_pass_start r))"
  "r_limit (track_run t r) = (if tcount (time_tracker t) = 0 then run_limit r
     else if r_limit t \<noteq> run_limit r then 0 else run_limit r)"
  by (simp_all add: track_run_def report_merge_passes_at_end_def report_merge_passes_at_start_def report_use_def Let_def
      ANALYZE_START_TRACKING_def ANALYZE_STOP_TRACKING_def incr_loops_def counter_start_tracking_def counter_stop_tracking_def)

lemma track_runs_fields:
  "tcount (time_tracker (track_runs t rs)) = tcount (time_tracker t) + of_nat (length rs) \<and>
   sort_passes (track_runs t rs) = sort_passes t + sum_list (map (\<lambda>r. ucast (run_pass_end r) - ucast (run_pass_start r)) rs)"
  by (induction rs rule: rev_induct) (simp_all add: track_runs_def track_run_fields)

lemma track_runs_limit:
  assumes "length rs < 2 ^ 64" "\<forall>r\<in>set rs. run_limit r \<noteq> 0" "rs \<noteq> []"
  shows "r_limit (track_runs (Filesort_tracker_new b junk) rs) =
    (if \<forall>r\<in>set rs. run_limit r = run_limit (hd rs) then run_limit (hd rs) else 0)"
  using assms
proof (induction rs rule: rev_induct)
  case (snoc r rs)
  let ?t = "track_runs (Filesort_tracker_new b junk) rs"
  have runs: "track_runs (Filesort_tracker_new b junk) (rs @ [r]) = track_run ?t r" by (simp add: track_runs_def)
  have c: "tcount (time_tracker ?t) = of_nat (length rs)"
    using track_runs_fields [of "Filesort_tracker_new b junk" rs] by (simp add: Filesort_tracker_new_def Time_and_counter_tracker_new_def)
  show ?case
  proof (cases "rs = []")
    case True
    then show ?thesis using c runs by (simp add: track_run_fields)
  next
    case False
    have "of_nat (length rs) \<noteq> (0 :: uint64)"
      using False snoc.prems(1) by (auto simp: word_unat_eq_iff unat_of_nat)
    then have lim: "r_limit (track_run ?t r) = (if r_limit ?t \<noteq> run_limit r then 0 else run_limit r)"
      using c by (simp add: track_run_fields)
    define a where "a = run_limit (hd rs)"
    define P where "P \<longleftrightarrow> (\<forall>x\<in>set rs. run_limit x = a)"
    have IH: "r_limit ?t = (if P then a else 0)"
      unfolding P_def a_def using False snoc.prems by (intro snoc.IH) simp_all
    have "hd (rs @ [r]) = hd rs" "(\<forall>x\<in>set (rs @ [r]). run_limit x = a) \<longleftrightarrow> P \<and> run_limit r = a"
      using False by (auto simp: P_def)
    moreover have "run_limit r \<noteq> 0" using snoc.prems(2) by simp
    ultimately show ?thesis unfolding runs lim IH a_def [symmetric] by (cases P) (auto simp: a_def)
  qed
qed simp

text \<open>
  A sort that is run several times: the limit shown is the common limit of all runs, or zero if they differ,
  the number of loops is the number of runs, and the merge passes add up the passes of each
  run.
\<close>

theorem filesort_tracker_runs:
  fixes b :: bool and junk :: uint64
  assumes "length rs < 2 ^ 64" "\<forall>r\<in>set rs. run_limit r \<noteq> 0" "rs \<noteq> []"
  defines "t \<equiv> track_runs (Filesort_tracker_new b junk) rs"
  shows "r_limit t = (if \<forall>r\<in>set rs. run_limit r = run_limit (hd rs) then run_limit (hd rs) else 0) \<and>
    unat (tcount (time_tracker t)) = length rs \<and>
    sort_passes t = sum_list (map (\<lambda>r. ucast (run_pass_end r) - ucast (run_pass_start r)) rs)"
proof -
  have "tcount (time_tracker t) = of_nat (length rs)"
    "sort_passes t = sum_list (map (\<lambda>r. ucast (run_pass_end r) - ucast (run_pass_start r)) rs)"
    using track_runs_fields [of "Filesort_tracker_new b junk" rs]
    by (simp_all add: t_def Filesort_tracker_new_def Time_and_counter_tracker_new_def)
  then show ?thesis using track_runs_limit [OF assms(1-3)] assms(1) by (simp add: t_def unat_of_nat)
qed

text \<open>
  Buffer sizes: the mark for \<open>buffers of different sizes\<close> is set by a second buffer of any size, also
  of the same one.
\<close>

theorem sort_buffer_mark:
  assumes "a \<noteq> 0"
  shows "sort_buffer_size (report_sort_buffer_size (report_sort_buffer_size (Filesort_tracker_new d junk) a) b) = ULONGLONG_MAX"
  using assms by (simp add: report_sort_buffer_size_def Filesort_tracker_new_def)

section \<open>Access counters\<close>

text \<open>One scan: each row is read, and counted again if it passes the condition.\<close>

definition track_scan :: "Table_access_tracker \<Rightarrow> bool list \<Rightarrow> Table_access_tracker" where
  "track_scan t rows =
     foldl (\<lambda>u passes. let v = on_record_read u in if passes then on_record_after_where v else v) (on_scan_init t) rows"

definition track_scans :: "Table_access_tracker \<Rightarrow> bool list list \<Rightarrow> Table_access_tracker" where
  "track_scans t scans = foldl track_scan t scans"

lemma track_scan_fields:
  "r_scans (track_scan t rows) = r_scans t + 1 \<and> r_rows (track_scan t rows) = r_rows t + of_nat (length rows) \<and>
   r_rows_after_where (track_scan t rows) = r_rows_after_where t + of_nat (length (filter (\<lambda>p. p) rows))"
  by (induction rows rule: rev_induct)
    (auto simp: track_scan_def on_scan_init_def on_record_read_def on_record_after_where_def Let_def)

lemma track_scans_fields:
  "r_scans (track_scans t ss) = r_scans t + of_nat (length ss) \<and> r_rows (track_scans t ss) = r_rows t + of_nat (length (concat ss)) \<and>
   r_rows_after_where (track_scans t ss) = r_rows_after_where t + of_nat (length (filter (\<lambda>p. p) (concat ss)))"
  by (induction ss rule: rev_induct) (simp_all add: track_scans_def track_scan_fields)

text \<open>
  The figures \<open>ANALYZE\<close> shows for a table: the average number of rows of a scan and the share of rows that
  passed the condition, a number between zero and one, as long as no counter overflows.
\<close>

theorem table_access_averages:
  assumes "length ss < 2 ^ 64" "length (concat ss) < 2 ^ 64" "ss \<noteq> []"
  defines "t \<equiv> track_scans Table_access_tracker_new ss"
  shows "get_avg_rows t = real (length (concat ss)) / real (length ss) \<and>
    get_filtered_after_where t = (if concat ss = [] then 1 else real (length (filter (\<lambda>p. p) (concat ss))) / real (length (concat ss))) \<and>
    0 \<le> get_filtered_after_where t \<and> get_filtered_after_where t \<le> 1"
proof -
  have le: "length (filter (\<lambda>p. p) (concat ss)) \<le> length (concat ss)" by (rule length_filter_le)
  have "unat (r_scans t) = length ss" "unat (r_rows t) = length (concat ss)"
    "unat (r_rows_after_where t) = length (filter (\<lambda>p. p) (concat ss))"
    using track_scans_fields [of Table_access_tracker_new ss] assms(1,2) le_less_trans [OF le assms(2)]
    by (simp_all add: t_def Table_access_tracker_new_def unat_of_nat del: length_concat)
  moreover from this have "r_scans t \<noteq> 0" "r_rows t > 0 \<longleftrightarrow> concat ss \<noteq> []"
    using assms(3) by (auto simp: word_unat_eq_iff word_less_nat_alt)
  ultimately show ?thesis using le
    by (auto simp: get_avg_rows_def get_filtered_after_where_def divide_le_eq_1 simp flip: length_greater_0_conv)
qed

section \<open>Concrete cases\<close>

theorem filesort_tracker_runs_witness:
  "r_limit (track_runs (Filesort_tracker_new True 0)
     [\<lparr>run_limit = 10, run_pass_start = 3, run_pass_end = 5, run_begin = 0, run_finish = 1\<rparr>,
      \<lparr>run_limit = 20, run_pass_start = 5, run_pass_end = 5, run_begin = 2, run_finish = 3\<rparr>]) = 0"
  using filesort_tracker_runs [of "[\<lparr>run_limit = 10, run_pass_start = 3, run_pass_end = 5, run_begin = 0, run_finish = 1\<rparr>,
      \<lparr>run_limit = 20, run_pass_start = 5, run_pass_end = 5, run_begin = 2, run_finish = 3\<rparr>]" True 0] by simp

theorem sort_buffer_mark_witness:
  "sort_buffer_size (report_sort_buffer_size (report_sort_buffer_size (Filesort_tracker_new True 0) 4096) 4096) = ULONGLONG_MAX"
  using sort_buffer_mark [of 4096] by simp

theorem table_access_averages_witness:
  "get_avg_rows (track_scans Table_access_tracker_new [[True, False], [True]]) = 3 / 2"
  using table_access_averages [of "[[True, False], [True]]"] by simp

end
