(* ===== verification/WsrepAddress.thy ===== *)
theory WsrepAddress
  imports Prelude "HOL-Library.Monad_Syntax"
begin

text \<open>
  The parser for the addresses of cluster nodes (\<^verbatim>\<open>wsrep_utils.h\<close>, class \<open>Address\<close>): host names, IPv4 and IPv6
  addresses with an optional port.  A C string is the list of its characters without the final zero, a
  pointer into it a position, the null pointer \<open>None\<close>.  Handing a null pointer to \<open>strchr\<close> is undefined and gives no
  result.  \<open>strtol\<close> is modelled as the C standard describes it for base ten and 32-bit \<open>long\<close>.
\<close>

section \<open>Library functions\<close>

definition strchr :: "string \<Rightarrow> nat \<Rightarrow> char \<Rightarrow> nat option" where
  "strchr s from c =
     (let k = length (takeWhile (\<lambda>d. d \<noteq> c) (drop from s))
      in if from + k < length s then Some (from + k) else None)"

definition ptr_less :: "nat option \<Rightarrow> nat option \<Rightarrow> bool" where
  "ptr_less p q = (case (p, q) of (Some i, Some j) \<Rightarrow> i < j | (None, Some _) \<Rightarrow> True | _ \<Rightarrow> False)"

definition code :: "char \<Rightarrow> nat" where "code c = of_char c"

definition is_space :: "char \<Rightarrow> bool" where
  "is_space c \<longleftrightarrow> code c = 32 \<or> (9 \<le> code c \<and> code c \<le> 13)"

definition is_digit :: "char \<Rightarrow> bool" where
  "is_digit c \<longleftrightarrow> 48 \<le> code c \<and> code c \<le> 57"

definition digits_value :: "string \<Rightarrow> int" where
  "digits_value ds = foldl (\<lambda>a c. 10 * a + int (code c - 48)) 0 ds"

datatype errno = ENone | ERANGE

definition LONG_MAX :: int where "LONG_MAX = 2 ^ 31 - 1"
definition LONG_MIN :: int where "LONG_MIN = - (2 ^ 31)"

definition sign_of :: "string \<Rightarrow> bool \<times> string" where
  "sign_of s = (case s of [] \<Rightarrow> (False, s)
     | c # r \<Rightarrow> if c = CHR ''-'' then (True, r) else if c = CHR ''+'' then (False, r) else (False, s))"

definition strtol :: "string \<Rightarrow> int \<times> errno" where
  "strtol s =
     (let (neg, r) = sign_of (dropWhile is_space s);
          v = digits_value (takeWhile is_digit r); n = (if neg then - v else v)
      in if n > LONG_MAX then (LONG_MAX, ERANGE) else if n < LONG_MIN then (LONG_MIN, ERANGE) else (n, ENone))"

text \<open>The conversion of \<open>long\<close> to \<open>int\<close>.\<close>

definition to_int :: "int \<Rightarrow> int" where
  "to_int n = (n + 2 ^ 31) mod 2 ^ 32 - 2 ^ 31"

section \<open>Addresses\<close>

datatype family = UNSPEC | INET | INET6

record Address =
  m_address :: string
  m_address_len :: nat
  m_family :: family
  m_port :: int
  m_valid :: bool

definition Address_new :: Address where
  "Address_new = \<lparr>m_address = [], m_address_len = 0, m_family = UNSPEC, m_port = 0, m_valid = False\<rparr>"

definition is_ipv6 :: "Address \<Rightarrow> bool" where
  "is_ipv6 a \<longleftrightarrow> m_family a = INET6"

definition colon_count :: "string \<Rightarrow> nat" where
  "colon_count addr = length (filter (\<lambda>c. c = CHR '':'') addr)"

text \<open>\<open>parse_port\<close> returns true on an error.\<close>

definition parse_port :: "Address \<Rightarrow> string \<Rightarrow> bool \<times> Address" where
  "parse_port a port =
     (let (n, e) = strtol port; a1 = a\<lparr>m_port := to_int n\<rparr>
      in if e = ERANGE then (True, a1\<lparr>m_port := 0, m_valid := False\<rparr>) else (False, a1))"

definition opt_parse_port :: "Address \<Rightarrow> string \<Rightarrow> nat option \<Rightarrow> bool \<times> Address" where
  "opt_parse_port a s colon = (case colon of None \<Rightarrow> (False, a) | Some p \<Rightarrow> parse_port a (drop (p + 1) s))"

text \<open>The end of the parser: the copy of the host part from \<open>start\<close> to \<open>end\<close>.\<close>

definition copy_host :: "Address \<Rightarrow> string \<Rightarrow> nat \<Rightarrow> nat \<Rightarrow> Address" where
  "copy_host a s start end =
     (let len = (int end - int start) mod 2 ^ 64
      in if len \<ge> 256 then a\<lparr>m_valid := False\<rparr>
         else a\<lparr>m_address := take (nat len) (drop start s), m_address_len := nat len + 1, m_valid := True\<rparr>)"

definition parse_addr :: "Address \<Rightarrow> string \<Rightarrow> Address option" where
  "parse_addr a addr_in =
     (let open_bracket = strchr addr_in 0 (CHR ''[''); close_bracket = strchr addr_in 0 (CHR '']'');
          colon = strchr addr_in 0 (CHR '':''); dot = strchr addr_in 0 (CHR ''.''); cc = colon_count addr_in
      in if open_bracket \<noteq> None \<or> dot = None \<or> (colon \<noteq> None \<and> (dot = None \<or> ptr_less colon dot))
         then case open_bracket of
                Some ob \<Rightarrow>
                  if close_bracket = None \<and> ptr_less open_bracket close_bracket then Some (a\<lparr>m_valid := False\<rparr>)
                  else do { cb \<leftarrow> close_bracket;
                            let (bad, a1) = opt_parse_port a addr_in (strchr addr_in cb (CHR '':''));
                            Some (if bad then a1 else copy_host (a1\<lparr>m_family := INET6\<rparr>) addr_in (ob + 1) cb) }
              | None \<Rightarrow>
                  if cc = 0 then Some (copy_host a addr_in 0 (length addr_in))
                  else if cc = 1
                  then do { p \<leftarrow> colon;
                            let (bad, a1) = parse_port a (drop (p + 1) addr_in);
                            Some (if bad then a1 else copy_host a1 addr_in 0 p) }
                  else Some (copy_host (a\<lparr>m_family := INET6\<rparr>) addr_in 0 (length addr_in))
         else case colon of
                Some p \<Rightarrow> let (bad, a1) = parse_port a (drop (p + 1) addr_in)
                           in Some (if bad then a1 else copy_host a1 addr_in 0 p)
              | None \<Rightarrow> Some (copy_host a addr_in 0 (length addr_in)))"

definition Address_of :: "string \<Rightarrow> Address option" where
  "Address_of addr_in = parse_addr Address_new addr_in"

section \<open>Searching a character\<close>

lemma strchr_append_first: "c \<notin> set s \<Longrightarrow> strchr (s @ c # t) 0 c = Some (length s)"
proof -
  assume "c \<notin> set s"
  then have "takeWhile (\<lambda>d. d \<noteq> c) (s @ c # t) = s" by (metis (mono_tags, lifting) append_Nil2 takeWhile_append2 takeWhile.simps(2))
  then show ?thesis by (simp add: strchr_def)
qed

lemma takeWhile_all: "c \<notin> set s \<Longrightarrow> takeWhile (\<lambda>d. d \<noteq> c) s = s"
  by (simp only: takeWhile_eq_all_conv) metis

lemma strchr_absent: "c \<notin> set s \<Longrightarrow> strchr s 0 c = None"
  by (simp add: strchr_def takeWhile_all del: takeWhile_eq_all_conv)

lemma strchr_from: "strchr (s @ t) (length s) c = map_option (\<lambda>p. length s + p) (strchr t 0 c)"
  by (simp add: strchr_def Let_def)

lemma strchr_none_iff: "strchr s 0 c = None \<longleftrightarrow> c \<notin> set s"
proof
  assume "strchr s 0 c = None"
  then have "length (takeWhile (\<lambda>d. d \<noteq> c) s) = length s"
    using length_takeWhile_le [of "\<lambda>d. d \<noteq> c" s] by (auto simp: strchr_def Let_def split: if_splits)
  then have "takeWhile (\<lambda>d. d \<noteq> c) s = s" by (metis order_refl take_all takeWhile_eq_take)
  then show "c \<notin> set s" by (simp only: takeWhile_eq_all_conv) metis
qed (rule strchr_absent)

lemma digits_value_nonneg: "0 \<le> digits_value ds"
proof -
  have "0 \<le> a \<Longrightarrow> 0 \<le> foldl (\<lambda>a c. 10 * a + int (code c - 48)) a ds" for a
    by (induction ds arbitrary: a) auto
  then show ?thesis by (simp add: digits_value_def)
qed

section \<open>Ports\<close>

definition port_string :: "string \<Rightarrow> bool" where
  "port_string ds \<longleftrightarrow> ds \<noteq> [] \<and> list_all is_digit ds"

lemma digit_chars: "is_digit c \<Longrightarrow> \<not> is_space c \<and> c \<noteq> CHR ''-'' \<and> c \<noteq> CHR ''+'' \<and> c \<noteq> CHR '':'' \<and> c \<noteq> CHR ''['' \<and> c \<noteq> CHR '']'' \<and> c \<noteq> CHR ''.''"
  by (auto simp: is_digit_def is_space_def code_def)

lemma strtol_digits:
  assumes "port_string ds"
  shows "strtol ds = (if digits_value ds > LONG_MAX then (LONG_MAX, ERANGE) else (digits_value ds, ENone))"
proof -
  obtain c r where ds: "ds = c # r" "is_digit c" using assms by (cases ds) (auto simp: port_string_def)
  have "dropWhile is_space ds = ds" "sign_of ds = (False, ds)" using ds digit_chars [of c] by (auto simp: sign_of_def)
  moreover have "takeWhile is_digit ds = ds" using assms by (simp add: port_string_def takeWhile_eq_all_conv list_all_iff)
  moreover have "\<not> digits_value ds < LONG_MIN" using digits_value_nonneg [of ds] by (simp add: LONG_MIN_def)
  ultimately show ?thesis by (simp add: strtol_def Let_def del: takeWhile_eq_all_conv)
qed

lemma to_int_small: "- (2 ^ 31) \<le> n \<Longrightarrow> n < 2 ^ 31 \<Longrightarrow> to_int n = n"
  by (simp add: to_int_def)

text \<open>A host part that the parser can take: no brackets, no colon, and short enough for the buffer.\<close>

definition plain_host :: "string \<Rightarrow> bool" where
  "plain_host h \<longleftrightarrow> CHR ''['' \<notin> set h \<and> CHR '']'' \<notin> set h \<and> CHR '':'' \<notin> set h \<and> length h < 256"

definition address :: "string \<Rightarrow> family \<Rightarrow> int \<Rightarrow> Address" where
  "address h f p = \<lparr>m_address = h, m_address_len = length h + 1, m_family = f, m_port = p, m_valid = True\<rparr>"

lemma copy_host_prefix:
  "length h < 256 \<Longrightarrow> copy_host a (pre @ h @ post) (length pre) (length pre + length h) =
     a\<lparr>m_address := h, m_address_len := length h + 1, m_valid := True\<rparr>"
  by (simp add: copy_host_def Let_def)

lemma parse_port_ok:
  "port_string ds \<Longrightarrow> digits_value ds < 2 ^ 31 \<Longrightarrow> parse_port a ds = (False, a\<lparr>m_port := digits_value ds\<rparr>)"
  using digits_value_nonneg [of ds] by (simp add: parse_port_def strtol_digits LONG_MAX_def to_int_small)

lemma port_no_special: "port_string ds \<Longrightarrow> CHR '':'' \<notin> set ds \<and> CHR ''['' \<notin> set ds \<and> CHR '']'' \<notin> set ds \<and> CHR ''.'' \<notin> set ds"
  using digit_chars by (auto simp: port_string_def list_all_iff)

section \<open>The forms of an address\<close>

lemma colon_count_zero: "CHR '':'' \<notin> set s \<Longrightarrow> colon_count s = 0"
  by (auto simp: colon_count_def filter_empty_conv)

lemma colon_count_append: "colon_count (s @ t) = colon_count s + colon_count t"
  by (simp add: colon_count_def)

lemma colon_count_colon: "colon_count (CHR '':'' # s) = Suc (colon_count s)"
  by (simp add: colon_count_def)

lemma host_port_scan:
  assumes "plain_host h" "port_string ds"
  shows "strchr (h @ CHR '':'' # ds) 0 (CHR ''['') = None"
    and "strchr (h @ CHR '':'' # ds) 0 (CHR '':'') = Some (length h)"
    and "colon_count (h @ CHR '':'' # ds) = 1"
  using assms(1) port_no_special [OF assms(2)]
  by (simp_all add: plain_host_def strchr_absent strchr_append_first colon_count_append colon_count_zero colon_count_colon)

lemma parse_host:
  assumes "plain_host h"
  shows "Address_of h = Some (address h UNSPEC 0)"
proof -
  have "strchr h 0 (CHR ''['') = None" "strchr h 0 (CHR '':'') = None" "colon_count h = 0"
    using assms by (simp_all add: plain_host_def strchr_absent colon_count_zero)
  then show ?thesis using assms copy_host_prefix [of h Address_new "[]" "[]"]
    by (simp add: Address_of_def parse_addr_def Let_def plain_host_def address_def Address_new_def)
qed

lemma parse_host_port:
  assumes "plain_host h" "port_string ds" "digits_value ds < 2 ^ 31"
  shows "Address_of (h @ CHR '':'' # ds) = Some (address h UNSPEC (digits_value ds))"
proof -
  let ?s = "h @ CHR '':'' # ds"
  note host_port_scan [OF assms(1,2)]
  moreover have "parse_port Address_new (drop (length h + 1) ?s) = (False, Address_new\<lparr>m_port := digits_value ds\<rparr>)"
    using parse_port_ok [OF assms(2,3)] by simp
  moreover have "copy_host (Address_new\<lparr>m_port := digits_value ds\<rparr>) ?s 0 (length h) = address h UNSPEC (digits_value ds)"
    using assms(1) copy_host_prefix [of h "Address_new\<lparr>m_port := digits_value ds\<rparr>" "[]"]
    by (simp add: plain_host_def address_def Address_new_def)
  ultimately show ?thesis by (simp add: Address_of_def parse_addr_def Let_def)
qed

lemma parse_bracketed:
  assumes "CHR ''['' \<notin> set h" "CHR '']'' \<notin> set h" "length h < 256"
    and "rst = [] \<and> p = 0 \<or> (\<exists>ds. rst = CHR '':'' # ds \<and> port_string ds \<and> digits_value ds < 2 ^ 31 \<and> p = digits_value ds)"
  shows "Address_of (CHR ''['' # h @ CHR '']'' # rst) = Some (address h INET6 p)"
proof -
  let ?s = "CHR ''['' # h @ CHR '']'' # rst"
  have ob: "strchr ?s 0 (CHR ''['') = Some 0" using strchr_append_first [of "CHR ''[''" "[]"] by simp
  have cb: "strchr ?s 0 (CHR '']'') = Some (Suc (length h))"
    using strchr_append_first [of "CHR '']''" "CHR ''['' # h" rst] assms(2) by simp
  have split: "?s = (CHR ''['' # h) @ CHR '']'' # rst" by simp
  have port: "opt_parse_port Address_new ?s (strchr ?s (Suc (length h)) (CHR '':'')) = (False, Address_new\<lparr>m_port := p\<rparr>)"
    using assms(4)
  proof
    assume "rst = [] \<and> p = 0"
    moreover have "strchr [CHR '']''] 0 (CHR '':'') = None" by (rule strchr_absent) simp
    ultimately show ?thesis using strchr_from [of "CHR ''['' # h" "[CHR '']'']" "CHR '':''"]
      by (simp add: opt_parse_port_def Address_new_def)
  next
    assume "\<exists>ds. rst = CHR '':'' # ds \<and> port_string ds \<and> digits_value ds < 2 ^ 31 \<and> p = digits_value ds"
    then obtain ds where ds: "rst = CHR '':'' # ds" "port_string ds" "digits_value ds < 2 ^ 31" "p = digits_value ds" by blast
    have "strchr (CHR '']'' # CHR '':'' # ds) 0 (CHR '':'') = Some 1"
      using strchr_append_first [of "CHR '':''" "[CHR '']'']" ds] by simp
    then have "strchr ?s (Suc (length h)) (CHR '':'') = Some (length h + 2)"
      using strchr_from [of "CHR ''['' # h" "CHR '']'' # rst" "CHR '':''"] ds(1) by simp
    then show ?thesis using parse_port_ok [OF ds(2,3), of Address_new] ds by (simp add: opt_parse_port_def)
  qed
  have "copy_host (Address_new\<lparr>m_port := p, m_family := INET6\<rparr>) ?s 1 (Suc (length h)) = address h INET6 p"
    using copy_host_prefix [of h "Address_new\<lparr>m_port := p, m_family := INET6\<rparr>" "[CHR ''['']" "CHR '']'' # rst"] assms(3)
    by (simp add: address_def Address_new_def)
  then show ?thesis using ob cb port by (simp add: Address_of_def parse_addr_def)
qed

text \<open>
  Parsing an address gives back its parts: a host name or IPv4 address with or without a port, and an IPv6 address in
  brackets with or without one, whatever colons and dots it has; the port is the decimal
  number behind the colon.
\<close>

theorem address_parse_forms:
  assumes "plain_host h" "port_string ds" "digits_value ds < 2 ^ 31"
    and "CHR ''['' \<notin> set g" "CHR '']'' \<notin> set g" "length g < 256"
  shows "Address_of h = Some (address h UNSPEC 0) \<and>
    Address_of (h @ '':'' @ ds) = Some (address h UNSPEC (digits_value ds)) \<and>
    Address_of (''['' @ g @ '']'') = Some (address g INET6 0) \<and>
    Address_of (''['' @ g @ '']:'' @ ds) = Some (address g INET6 (digits_value ds))"
  using parse_host [OF assms(1)] parse_host_port [OF assms(1-3)] parse_bracketed [OF assms(4-6), of "[]" 0]
    parse_bracketed [OF assms(4-6), of "CHR '':'' # ds" "digits_value ds"] assms(2,3) by simp

text \<open>
  C30: Addresses the parser cannot take: an opening bracket without a closing one is not rejected, although the code means
  to, but hands a null pointer to \<open>strchr\<close>; a port that does not fit a \<open>long\<close> leaves the address invalid; a host of 256
  characters or more leaves it invalid too.
\<close>

theorem address_parse_errors:
  assumes "CHR '']'' \<notin> set u" "CHR ''['' \<in> set u"
    and "plain_host h" "port_string ds" "LONG_MAX < digits_value ds"
    and "CHR '':'' \<notin> set k" "CHR ''['' \<notin> set k" "256 \<le> length k" "length k < 2 ^ 64"
  shows "Address_of u = None \<and>
    (\<exists>a. Address_of (h @ '':'' @ ds) = Some a \<and> \<not> m_valid a \<and> m_port a = 0) \<and>
    (\<exists>a. Address_of k = Some a \<and> \<not> m_valid a)"
proof -
  have "strchr u 0 (CHR '']'') = None" "strchr u 0 (CHR ''['') \<noteq> None" using assms(1,2) by (auto simp: strchr_none_iff)
  then have 1: "Address_of u = None" by (auto simp: Address_of_def parse_addr_def ptr_less_def Let_def split: option.splits)
  let ?s = "h @ CHR '':'' # ds"
  note host_port_scan [OF assms(3,4)]
  moreover have "parse_port Address_new (drop (length h + 1) ?s) = (True, Address_new\<lparr>m_port := 0, m_valid := False\<rparr>)"
    using strtol_digits [OF assms(4)] assms(5) by (simp add: parse_port_def)
  ultimately have "Address_of ?s = Some (Address_new\<lparr>m_port := 0, m_valid := False\<rparr>)"
    by (simp add: Address_of_def parse_addr_def Let_def)
  then have 2: "\<exists>a. Address_of (h @ '':'' @ ds) = Some a \<and> \<not> m_valid a \<and> m_port a = 0" by simp
  have "strchr k 0 (CHR ''['') = None" "strchr k 0 (CHR '':'') = None" "colon_count k = 0"
    using assms(6,7) by (simp_all add: strchr_absent colon_count_zero)
  moreover have "copy_host Address_new k 0 (length k) = Address_new\<lparr>m_valid := False\<rparr>"
    using assms(8,9) by (simp add: copy_host_def Let_def)
  ultimately have 3: "\<exists>a. Address_of k = Some a \<and> \<not> m_valid a" by (simp add: Address_of_def parse_addr_def Let_def)
  show ?thesis using 1 2 3 by blast
qed

section \<open>Concrete cases\<close>

theorem address_parse_forms_witness:
  "Address_of ''db.example.org:4567'' = Some (address ''db.example.org'' UNSPEC 4567) \<and>
   Address_of ''[fe80::1]:4567'' = Some (address ''fe80::1'' INET6 4567)"
  using address_parse_forms [of "''db.example.org''" "''4567''" "''fe80::1''"]
  by (simp add: plain_host_def port_string_def is_digit_def code_def digits_value_def)

theorem address_parse_errors_witness:
  "Address_of ''[fe80::1'' = None \<and> (\<exists>a. Address_of ''node:2147483648'' = Some a \<and> \<not> m_valid a \<and> m_port a = 0)"
  using address_parse_errors [of "''[fe80::1''" "''node''" "''2147483648''" "replicate 256 CHR ''a''"]
  by (simp add: plain_host_def port_string_def is_digit_def code_def digits_value_def LONG_MAX_def)

end
