(* ===== verification/Transactions.thy ===== *)
theory Transactions
  imports NodeHeap HandlerData
begin

text \<open>
  The transaction state of a session: the list of storage engines that take part in a statement or
  transaction (\<^verbatim>\<open>handler.h\<close>, classes \<open>THD_TRANS\<close> and \<open>Ha_trx_info\<close>), the flags of statements that cannot be rolled
  back, the state of a distributed transaction and the network timeout that depends on them
  (\<^verbatim>\<open>sql_class.h\<close>).  The engine entries live in a heap of nodes and are linked by address; a failing
  assertion of a debugging build has no result.
\<close>

section \<open>Participants of a transaction\<close>

record Ha_trx_info =
  m_next :: ptr
  m_ht :: ptr
  m_flags :: uchar

type_synonym trx_heap = "Ha_trx_info node_heap"

record THD_TRANS =
  no_2pc :: bool
  ha_list :: ptr
  modified_non_trans_table :: bool
  m_unsafe_rollback_flags :: uint32

definition TRX_READ_ONLY :: uchar where "TRX_READ_ONLY = 0"
definition TRX_READ_WRITE :: uchar where "TRX_READ_WRITE = 1"

definition is_started :: "trx_heap \<Rightarrow> ptr \<Rightarrow> bool option" where
  "is_started h this = do { n \<leftarrow> read_node h this; Some (m_ht n \<noteq> 0) }"

definition register_ha :: "trx_heap \<Rightarrow> ptr \<Rightarrow> THD_TRANS \<Rightarrow> ptr \<Rightarrow> (trx_heap \<times> THD_TRANS) option" where
  "register_ha h this tr ht_arg =
     do { n \<leftarrow> read_node h this;
          DBUG_ASSERT (m_flags n = 0); DBUG_ASSERT (m_ht n = 0); DBUG_ASSERT (m_next n = 0);
          h1 \<leftarrow> write_node h this (\<lambda>n. n\<lparr>m_ht := ht_arg, m_flags := TRX_READ_ONLY, m_next := ha_list tr\<rparr>);
          Some (h1, tr\<lparr>ha_list := this\<rparr>) }"

definition Ha_trx_info_new :: Ha_trx_info where
  "Ha_trx_info_new = \<lparr>m_next = 0, m_ht = 0, m_flags = 0\<rparr>"

definition ha_trx_reset :: "trx_heap \<Rightarrow> ptr \<Rightarrow> trx_heap option" where
  "ha_trx_reset h this = write_node h this (\<lambda>n. n\<lparr>m_next := 0, m_ht := 0, m_flags := 0\<rparr>)"

definition set_trx_read_write :: "trx_heap \<Rightarrow> ptr \<Rightarrow> trx_heap option" where
  "set_trx_read_write h this =
     do { b \<leftarrow> is_started h this; DBUG_ASSERT b;
          write_node h this (\<lambda>n. n\<lparr>m_flags := m_flags n OR TRX_READ_WRITE\<rparr>) }"

definition is_trx_read_write :: "trx_heap \<Rightarrow> ptr \<Rightarrow> bool option" where
  "is_trx_read_write h this =
     do { b \<leftarrow> is_started h this; DBUG_ASSERT b;
          n \<leftarrow> read_node h this; Some (m_flags n AND TRX_READ_WRITE \<noteq> 0) }"

definition coalesce_trx_with :: "trx_heap \<Rightarrow> ptr \<Rightarrow> ptr \<Rightarrow> trx_heap option" where
  "coalesce_trx_with h this stmt_trx =
     do { b \<leftarrow> is_started h this; DBUG_ASSERT b;
          rw \<leftarrow> is_trx_read_write h stmt_trx;
          if rw then set_trx_read_write h this else Some h }"

definition trx_next :: "trx_heap \<Rightarrow> ptr \<Rightarrow> ptr option" where
  "trx_next h this = do { b \<leftarrow> is_started h this; DBUG_ASSERT b; n \<leftarrow> read_node h this; Some (m_next n) }"

definition trx_ht :: "trx_heap \<Rightarrow> ptr \<Rightarrow> ptr option" where
  "trx_ht h this = do { b \<leftarrow> is_started h this; DBUG_ASSERT b; n \<leftarrow> read_node h this; Some (m_ht n) }"

partial_function (option) read_write_loop :: "trx_heap \<Rightarrow> ptr \<Rightarrow> bool option" where
  "read_write_loop h ha_info =
     (if ha_info = 0 then Some False
      else do { rw \<leftarrow> is_trx_read_write h ha_info;
                if rw then Some True else do { n \<leftarrow> trx_next h ha_info; read_write_loop h n } })"

declare read_write_loop.simps [code]

definition trans_is_trx_read_write :: "trx_heap \<Rightarrow> THD_TRANS \<Rightarrow> bool option" where
  "trans_is_trx_read_write h t = read_write_loop h (ha_list t)"

definition trans_is_empty :: "THD_TRANS \<Rightarrow> bool" where "trans_is_empty t \<longleftrightarrow> ha_list t = 0"

section \<open>Flags of a transaction\<close>

definition trans_reset :: "THD_TRANS \<Rightarrow> THD_TRANS" where
  "trans_reset t = t\<lparr>no_2pc := False, modified_non_trans_table := False, m_unsafe_rollback_flags := 0\<rparr>"

definition CREATED_TEMP_TABLE :: uint32 where "CREATED_TEMP_TABLE = 2"
definition DROPPED_TEMP_TABLE :: uint32 where "DROPPED_TEMP_TABLE = 4"
definition DID_WAIT :: uint32 where "DID_WAIT = 8"
definition DID_DDL :: uint32 where "DID_DDL = 0x10"

definition mark_flag :: "uint32 \<Rightarrow> THD_TRANS \<Rightarrow> THD_TRANS" where
  "mark_flag f t = t\<lparr>m_unsafe_rollback_flags := m_unsafe_rollback_flags t OR f\<rparr>"

definition mark_created_temp_table :: "THD_TRANS \<Rightarrow> THD_TRANS" where
  "mark_created_temp_table = mark_flag CREATED_TEMP_TABLE"
definition mark_dropped_temp_table :: "THD_TRANS \<Rightarrow> THD_TRANS" where
  "mark_dropped_temp_table = mark_flag DROPPED_TEMP_TABLE"
definition mark_trans_did_wait :: "THD_TRANS \<Rightarrow> THD_TRANS" where
  "mark_trans_did_wait = mark_flag DID_WAIT"
definition mark_trans_did_ddl :: "THD_TRANS \<Rightarrow> THD_TRANS" where
  "mark_trans_did_ddl = mark_flag DID_DDL"

definition has_created_dropped_temp_table :: "THD_TRANS \<Rightarrow> bool" where
  "has_created_dropped_temp_table t \<longleftrightarrow> m_unsafe_rollback_flags t AND (CREATED_TEMP_TABLE OR DROPPED_TEMP_TABLE) \<noteq> 0"
definition trans_did_wait :: "THD_TRANS \<Rightarrow> bool" where
  "trans_did_wait t \<longleftrightarrow> m_unsafe_rollback_flags t AND DID_WAIT \<noteq> 0"
definition trans_did_ddl :: "THD_TRANS \<Rightarrow> bool" where
  "trans_did_ddl t \<longleftrightarrow> m_unsafe_rollback_flags t AND DID_DDL \<noteq> 0"

section \<open>Distributed transactions\<close>

datatype xa_states = XA_NOTR | XA_ACTIVE | XA_IDLE | XA_PREPARED | XA_ROLLBACK_ONLY

record XID_STATE =
  xid :: ptr
  xa_state :: xa_states
  rm_error :: uint32

text \<open>The error raised is the result.\<close>

definition ER_XAER_RMFAIL :: uint32 where "ER_XAER_RMFAIL = 1399"

definition check_has_uncommitted_xa :: "XID_STATE \<Rightarrow> uint32 option \<times> bool" where
  "check_has_uncommitted_xa x =
     (if xa_state x = XA_IDLE \<or> xa_state x = XA_PREPARED \<or> xa_state x = XA_ROLLBACK_ONLY
      then (Some ER_XAER_RMFAIL, True) else (None, False))"

record st_transactions =
  savepoints :: ptr
  trans_all :: THD_TRANS
  trans_stmt :: THD_TRANS
  xid_state :: XID_STATE
  changed_tables :: ptr

text \<open>\<open>cleanup\<close>, without the memory root it empties.\<close>

definition transactions_cleanup :: "mem \<Rightarrow> st_transactions \<Rightarrow> mem \<times> st_transactions" where
  "transactions_cleanup m t =
     (let t1 = t\<lparr>changed_tables := 0, savepoints := 0\<rparr>
      in (if rm_error (xid_state t1) = 0 then xid_null m (xid (xid_state t1)) else m, t1))"

definition transactions_is_active :: "st_transactions \<Rightarrow> bool" where
  "transactions_is_active t \<longleftrightarrow> ha_list (trans_all t) \<noteq> 0"

definition merge_unsafe_rollback_flags :: "st_transactions \<Rightarrow> st_transactions" where
  "merge_unsafe_rollback_flags t =
     (let a = trans_all t; s = trans_stmt t;
          a1 = (if modified_non_trans_table s then a\<lparr>modified_non_trans_table := True\<rparr> else a)
      in t\<lparr>trans_all := a1\<lparr>m_unsafe_rollback_flags := m_unsafe_rollback_flags a1 OR
             (m_unsafe_rollback_flags s AND (DID_WAIT OR CREATED_TEMP_TABLE OR DROPPED_TEMP_TABLE OR DID_DDL))\<rparr>\<rparr>)"

section \<open>Timeouts\<close>

record timeouts =
  net_wait_timeout :: ulong
  idle_transaction_timeout :: uint32
  idle_readonly_transaction_timeout :: uint32
  idle_write_transaction_timeout :: uint32

definition SERVER_STATUS_IN_TRANS :: uint32 where "SERVER_STATUS_IN_TRANS = 1"

definition in_active_multi_stmt_transaction :: "uint32 \<Rightarrow> bool" where
  "in_active_multi_stmt_transaction server_status \<longleftrightarrow> server_status AND SERVER_STATUS_IN_TRANS \<noteq> 0"

definition get_net_wait_timeout :: "trx_heap \<Rightarrow> st_transactions \<Rightarrow> uint32 \<Rightarrow> timeouts \<Rightarrow> uint32 option" where
  "get_net_wait_timeout h t server_status v =
     (if in_active_multi_stmt_transaction server_status
      then do { rw \<leftarrow> trans_is_trx_read_write h (trans_all t);
                Some (if rw \<and> idle_write_transaction_timeout v > 0 then idle_write_transaction_timeout v
                      else if \<not> rw \<and> idle_readonly_transaction_timeout v > 0 then idle_readonly_transaction_timeout v
                      else if idle_transaction_timeout v > 0 then idle_transaction_timeout v
                      else net_wait_timeout v) }
      else Some (net_wait_timeout v))"

section \<open>The engines of a transaction\<close>

text \<open>
  The entries \<open>ps\<close> take part in the transaction, those of \<open>W\<close> in read-write mode; entries outside the list are as
  their constructor leaves them.
\<close>

definition participants :: "trx_heap \<Rightarrow> THD_TRANS \<Rightarrow> ptr list \<Rightarrow> ptr set \<Rightarrow> bool" where
  "participants h t ps W \<longleftrightarrow>
     chain m_next h (ha_list t) ps \<and> distinct ps \<and> W \<subseteq> set ps \<and>
     (\<forall>p\<in>set ps. \<exists>n. h p = Some n \<and> m_ht n \<noteq> 0 \<and> m_flags n = (if p \<in> W then 1 else 0))"

lemma participant_read_write:
  "p \<noteq> 0 \<Longrightarrow> h p = Some n \<Longrightarrow> m_ht n \<noteq> 0 \<Longrightarrow> is_trx_read_write h p = Some (m_flags n AND TRX_READ_WRITE \<noteq> 0)"
  by (simp add: is_trx_read_write_def is_started_def)

lemma participant_next: "p \<noteq> 0 \<Longrightarrow> h p = Some n \<Longrightarrow> m_ht n \<noteq> 0 \<Longrightarrow> trx_next h p = Some (m_next n)"
  by (simp add: trx_next_def is_started_def)

lemma read_write_loop_chain:
  assumes "chain m_next h p ps" "\<forall>q\<in>set ps. \<exists>n. h q = Some n \<and> m_ht n \<noteq> 0 \<and> m_flags n = (if q \<in> W then 1 else 0)"
  shows "read_write_loop h p = Some (\<exists>q\<in>set ps. q \<in> W)"
  using assms
proof (induction ps arbitrary: p)
  case Nil
  then show ?case by (subst read_write_loop.simps) simp
next
  case (Cons a ps)
  obtain n where n: "h a = Some n" "m_ht n \<noteq> 0" "m_flags n = (if a \<in> W then 1 else 0)" using Cons.prems(2) by auto
  have a: "p = a" "a \<noteq> 0" "chain m_next h (m_next n) ps" using Cons.prems(1) n(1) by auto
  have "read_write_loop h (m_next n) = Some (\<exists>q\<in>set ps. q \<in> W)"
    by (rule Cons.IH [OF a(3)]) (use Cons.prems(2) in simp)
  then show ?case
    using participant_read_write [of a h n] participant_next [of a h n] a n
    by (subst read_write_loop.simps) (simp add: TRX_READ_WRITE_def)
qed

lemma participants_read_write:
  "participants h t ps W \<Longrightarrow> trans_is_trx_read_write h t = Some (W \<noteq> {})"
  using read_write_loop_chain [of h "ha_list t" ps W] by (auto simp: participants_def trans_is_trx_read_write_def)

lemma register_ha_participants:
  assumes "participants h t ps W" "p \<noteq> 0" "p \<notin> set ps" "h p = Some Ha_trx_info_new" "ht \<noteq> 0"
  shows "\<exists>h' t'. register_ha h p t ht = Some (h', t') \<and> participants h' t' (p # ps) W \<and> (\<forall>q. q \<noteq> p \<longrightarrow> h' q = h q)"
  using assms chain_upd [of p ps m_next h]
  by (auto simp: register_ha_def Ha_trx_info_new_def participants_def TRX_READ_ONLY_def)

lemma set_trx_read_write_participants:
  assumes "participants h t ps W" "p \<in> set ps"
  shows "\<exists>h'. set_trx_read_write h p = Some h' \<and> participants h' t ps (insert p W) \<and> (\<forall>q. q \<noteq> p \<longrightarrow> h' q = h q)"
proof -
  obtain n where n: "h p = Some n" "m_ht n \<noteq> 0" "m_flags n = (if p \<in> W then 1 else 0)"
    using assms by (auto simp: participants_def)
  have "p \<noteq> 0" using assms chain_live [of m_next h "ha_list t" ps] by (metis participants_def)
  then show ?thesis using assms n chain_same_next [of h p n m_next "n\<lparr>m_flags := m_flags n OR TRX_READ_WRITE\<rparr>"]
    by (auto simp: set_trx_read_write_def is_started_def participants_def TRX_READ_WRITE_def)
qed

text \<open>What happens to a transaction: an engine registers its entry, or announces that it will write.\<close>

datatype trx_event = Register ptr ptr | Write ptr

definition trx_step :: "trx_event \<Rightarrow> trx_heap \<times> THD_TRANS \<Rightarrow> (trx_heap \<times> THD_TRANS) option" where
  "trx_step e s = (case e of Register p ht \<Rightarrow> register_ha (fst s) p (snd s) ht
     | Write p \<Rightarrow> map_option (\<lambda>h. (h, snd s)) (set_trx_read_write (fst s) p))"

primrec trx_run :: "trx_event list \<Rightarrow> trx_heap \<times> THD_TRANS \<Rightarrow> (trx_heap \<times> THD_TRANS) option" where
  "trx_run [] s = Some s"
| "trx_run (e # es) s = trx_step e s \<bind> trx_run es"

text \<open>Every entry registers once, with an engine, and only registered engines write.\<close>

fun trx_legal :: "ptr list \<Rightarrow> trx_event list \<Rightarrow> bool" where
  "trx_legal ps [] \<longleftrightarrow> True"
| "trx_legal ps (Register p ht # es) \<longleftrightarrow> p \<noteq> 0 \<and> p \<notin> set ps \<and> ht \<noteq> 0 \<and> trx_legal (p # ps) es"
| "trx_legal ps (Write p # es) \<longleftrightarrow> p \<in> set ps \<and> trx_legal ps es"

fun registered :: "trx_event list \<Rightarrow> ptr list" where
  "registered [] = []"
| "registered (Register p ht # es) = p # registered es"
| "registered (Write p # es) = registered es"

definition written :: "trx_event list \<Rightarrow> ptr set" where
  "written es = {p. Write p \<in> set es}"

lemma written_simps [simp]:
  "written [] = {}" "written (Register p ht # es) = written es" "written (Write p # es) = insert p (written es)"
  by (auto simp: written_def)

lemma trx_legal_fresh: "trx_legal ps es \<Longrightarrow> set ps \<inter> set (registered es) = {}"
  by (induction ps es rule: trx_legal.induct) auto

lemma trx_run_participants:
  assumes "participants h t ps W" "trx_legal ps es" "\<forall>p\<in>set (registered es). h p = Some Ha_trx_info_new"
  shows "\<exists>h' t'. trx_run es (h, t) = Some (h', t') \<and> participants h' t' (rev (registered es) @ ps) (W \<union> written es)"
  using assms
proof (induction ps es arbitrary: h t W rule: trx_legal.induct)
  case (1 ps)
  then show ?case by simp
next
  case (2 ps p ht es)
  obtain h1 t1 where 1: "register_ha h p t ht = Some (h1, t1)" "participants h1 t1 (p # ps) W" "\<forall>q. q \<noteq> p \<longrightarrow> h1 q = h q"
    using register_ha_participants [OF "2.prems"(1), of p ht] "2.prems"(2,3) by auto
  have "p \<notin> set (registered es)" using trx_legal_fresh [of "p # ps"] "2.prems"(2) by auto
  then have "\<forall>q\<in>set (registered es). h1 q = Some Ha_trx_info_new" using 1(3) "2.prems"(3) by (metis list.set_intros(2) registered.simps(2))
  then show ?case using "2.IH" [OF 1(2)] "2.prems"(2) 1(1) by (auto simp: trx_step_def)
next
  case (3 ps p es)
  obtain h1 where 1: "set_trx_read_write h p = Some h1" "participants h1 t ps (insert p W)" "\<forall>q. q \<noteq> p \<longrightarrow> h1 q = h q"
    using set_trx_read_write_participants [OF "3.prems"(1), of p] "3.prems"(2) by auto
  have "p \<notin> set (registered es)" using trx_legal_fresh [of ps] "3.prems"(2) by auto
  then have "\<forall>q\<in>set (registered es). h1 q = Some Ha_trx_info_new" using 1(3) "3.prems"(3) by (metis registered.simps(3))
  then show ?case using "3.IH" [OF 1(2)] "3.prems"(2) 1(1) by (auto simp: trx_step_def)
qed

text \<open>
  C19: A transaction knows its engines: after any sequence in which engines register once and write only when registered,
  the list holds exactly the registered entries, last one first; the loop that asks whether the
  transaction is read-write ends, reads only entries in use and says yes exactly if some engine announced a write.  The
  timeout of an idle connection is, inside an active transaction, the one for that mode, if it is 0 the one for transactions of
  either mode, and if that is 0 too the timeout of the connection; outside a transaction it is the timeout of the connection.  The
  transaction starts with an empty list and the entries as their constructor leaves them.
\<close>

theorem transaction_knows_engines:
  assumes "trx_legal [] es" "\<forall>p\<in>set (registered es). h p = Some Ha_trx_info_new" "trans_is_empty t"
  shows "\<exists>h' t'. trx_run es (h, t) = Some (h', t') \<and> chain m_next h' (ha_list t') (rev (registered es)) \<and>
    trans_is_trx_read_write h' t' = Some (\<exists>p. Write p \<in> set es) \<and>
    (\<forall>trx server_status v. trans_all trx = t' \<longrightarrow>
       get_net_wait_timeout h' trx server_status v =
         Some (let k = (if \<exists>p. Write p \<in> set es then idle_write_transaction_timeout v else idle_readonly_transaction_timeout v)
               in if server_status AND SERVER_STATUS_IN_TRANS = 0 then net_wait_timeout v
                  else if k \<noteq> 0 then k
                  else if idle_transaction_timeout v \<noteq> 0 then idle_transaction_timeout v
                  else net_wait_timeout v))"
proof -
  have "participants h t [] {}" using assms(3) by (simp add: participants_def trans_is_empty_def)
  from trx_run_participants [OF this assms(1,2)] obtain h' t' where
    run: "trx_run es (h, t) = Some (h', t')" and part: "participants h' t' (rev (registered es)) (written es)" by auto
  have rw: "trans_is_trx_read_write h' t' = Some (\<exists>p. Write p \<in> set es)"
    using participants_read_write [OF part] by (auto simp: written_def)
  moreover have "chain m_next h' (ha_list t') (rev (registered es))" using part by (simp add: participants_def)
  moreover have "get_net_wait_timeout h' trx server_status v =
         Some (let k = (if \<exists>p. Write p \<in> set es then idle_write_transaction_timeout v else idle_readonly_transaction_timeout v)
               in if server_status AND SERVER_STATUS_IN_TRANS = 0 then net_wait_timeout v
                  else if k \<noteq> 0 then k
                  else if idle_transaction_timeout v \<noteq> 0 then idle_transaction_timeout v
                  else net_wait_timeout v)" if "trans_all trx = t'" for trx server_status v
    using rw that by (simp add: get_net_wait_timeout_def in_active_multi_stmt_transaction_def Let_def word_neq_0_conv)
  ultimately show ?thesis using run by blast
qed

section \<open>Flags that forbid a rollback\<close>

lemma flag_or: "(a OR b) AND m \<noteq> 0 \<longleftrightarrow> a AND m \<noteq> 0 \<or> b AND m \<noteq> (0 :: uint32)"
  by (auto simp: bit_eq_iff bit_simps)

text \<open>
  The end of a statement hands its flags to the transaction: a wait, a created or dropped temporary table, a
  schema change or a modified non-transactional table of the statement is one of the transaction, and what the
  transaction had before stays.
\<close>

theorem statement_flags_merged:
  fixes t :: st_transactions
  defines "a \<equiv> trans_all (merge_unsafe_rollback_flags t)"
  shows "trans_did_wait a = (trans_did_wait (trans_all t) \<or> trans_did_wait (trans_stmt t)) \<and>
    trans_did_ddl a = (trans_did_ddl (trans_all t) \<or> trans_did_ddl (trans_stmt t)) \<and>
    has_created_dropped_temp_table a =
      (has_created_dropped_temp_table (trans_all t) \<or> has_created_dropped_temp_table (trans_stmt t)) \<and>
    modified_non_trans_table a = (modified_non_trans_table (trans_all t) \<or> modified_non_trans_table (trans_stmt t)) \<and>
    ha_list a = ha_list (trans_all t) \<and> trans_stmt (merge_unsafe_rollback_flags t) = trans_stmt t"
  by (simp add: a_def merge_unsafe_rollback_flags_def Let_def trans_did_wait_def trans_did_ddl_def flag_or
      has_created_dropped_temp_table_def DID_WAIT_def DID_DDL_def CREATED_TEMP_TABLE_def DROPPED_TEMP_TABLE_def and.assoc)

text \<open>
  The end of a transaction forgets the identifier of a distributed transaction, unless a resource manager has
  failed and the user still has to roll it back.
\<close>

theorem cleanup_forgets_xid:
  fixes m :: mem and t :: st_transactions
  defines "m' \<equiv> fst (transactions_cleanup m t)" and "t' \<equiv> snd (transactions_cleanup m t)"
  shows "savepoints t' = 0 \<and> changed_tables t' = 0 \<and> xid_state t' = xid_state t \<and>
    xid_is_null m' (xid (xid_state t')) = (rm_error (xid_state t) = 0 \<or> xid_is_null m (xid (xid_state t)))"
  by (cases "rm_error (xid_state t) = 0")
    (simp_all add: m'_def t'_def transactions_cleanup_def Let_def xid_is_null_def xid_null_def formatID_def load_store_same4)

section \<open>Concrete cases\<close>

definition sample_trx_heap :: trx_heap where
  "sample_trx_heap = [1 \<mapsto> Ha_trx_info_new, 2 \<mapsto> Ha_trx_info_new]"

definition empty_trans :: THD_TRANS where
  "empty_trans = \<lparr>no_2pc = False, ha_list = 0, modified_non_trans_table = False, m_unsafe_rollback_flags = 0\<rparr>"

theorem transaction_knows_engines_witness:
  "\<exists>h' t'. trx_run [Register 1 100, Register 2 200, Write 1] (sample_trx_heap, empty_trans) = Some (h', t') \<and>
    chain m_next h' (ha_list t') [2, 1] \<and> trans_is_trx_read_write h' t' = Some True \<and>
    get_net_wait_timeout h' \<lparr>savepoints = 0, trans_all = t', trans_stmt = empty_trans,
        xid_state = \<lparr>xid = 0, xa_state = XA_NOTR, rm_error = 0\<rparr>, changed_tables = 0\<rparr>
      SERVER_STATUS_IN_TRANS \<lparr>net_wait_timeout = 28800, idle_transaction_timeout = 90,
        idle_readonly_transaction_timeout = 60, idle_write_transaction_timeout = 0\<rparr> = Some 90"
proof -
  have "trx_legal [] [Register 1 100, Register 2 200, Write 1]"
    "\<forall>p\<in>set (registered [Register 1 100, Register 2 200, Write 1]). sample_trx_heap p = Some Ha_trx_info_new" "trans_is_empty empty_trans"
    by (simp_all add: sample_trx_heap_def trans_is_empty_def empty_trans_def)
  from transaction_knows_engines [OF this] show ?thesis
    by (elim exE conjE) (intro exI conjI, assumption, simp_all add: SERVER_STATUS_IN_TRANS_def)
qed

end
