(* ===== verification/SessionClock.thy ===== *)
theory SessionClock
  imports Prelude "HOL-Library.Product_Lexorder"
begin

text \<open>
  The clock of a session (\<^verbatim>\<open>sql_class.h\<close>, class \<open>THD\<close>; the conversions of \<^verbatim>\<open>my_sys.h\<close> and \<^verbatim>\<open>my_time.h\<close>): the
  time a statement starts, which the user or the replication stream can prescribe and which otherwise follows the system
  clock without ever standing still.  What the clocks show is an argument of the operations.  Seconds are of the
  type \<open>my_time_t\<close>, a \<open>long\<close>: a signed number of 32 bits, so that a conversion to it drops the higher bits and a
  second after the last one is the earliest one (the language leaves the increment open there; it wraps on the machines of the configuration).
\<close>

section \<open>Conversions\<close>

definition HRTIME_RESOLUTION :: uint64 where "HRTIME_RESOLUTION = 1000000"
definition TIME_MAX_SECOND_PART :: ulong where "TIME_MAX_SECOND_PART = 999999"

type_synonym my_time_t = uint32

definition hrtime_to_time :: "uint64 \<Rightarrow> uint64" where
  "hrtime_to_time X = X div HRTIME_RESOLUTION"

definition hrtime_to_my_time :: "uint64 \<Rightarrow> my_time_t" where
  "hrtime_to_my_time X = ucast (hrtime_to_time X)"

definition hrtime_sec_part :: "uint64 \<Rightarrow> ulong" where
  "hrtime_sec_part X = ucast (X mod HRTIME_RESOLUTION)"

definition hrtime_from_time :: "my_time_t \<Rightarrow> uint64" where
  "hrtime_from_time X = scast X * HRTIME_RESOLUTION"

section \<open>The session's times\<close>

record system_time =
  st_start :: uint64
  st_sec :: my_time_t
  st_sec_part :: ulong

record clock =
  system_time :: system_time
  user_time :: uint64
  start_time :: my_time_t
  start_time_sec_part :: ulong
  query_start_sec_part_used :: bool
  start_utime :: uint64
  utime_after_lock :: uint64
  utime_after_query :: uint64

definition set_system_time :: "uint64 \<Rightarrow> system_time \<Rightarrow> system_time" where
  "set_system_time hrtime s =
     (let sec = hrtime_to_my_time hrtime; sec_part = hrtime_sec_part hrtime
      in if sint sec > sint (st_sec s) \<or> (sec = st_sec s \<and> sec_part > st_sec_part s) \<or> hrtime < st_start s
         then s\<lparr>st_sec := sec, st_sec_part := sec_part\<rparr>
         else if st_sec_part s < TIME_MAX_SECOND_PART then s\<lparr>st_sec_part := st_sec_part s + 1\<rparr>
         else s\<lparr>st_sec := st_sec s + 1, st_sec_part := 0\<rparr>)"

definition set_start_time :: "uint64 \<Rightarrow> clock \<Rightarrow> clock" where
  "set_start_time hrtime c =
     (if user_time c \<noteq> 0
      then c\<lparr>start_time := hrtime_to_my_time (user_time c), start_time_sec_part := hrtime_sec_part (user_time c)\<rparr>
      else let s = set_system_time hrtime (system_time c)
           in c\<lparr>system_time := s, start_time := st_sec s, start_time_sec_part := st_sec_part s\<rparr>)"

text \<open>The three variants of \<open>set_time\<close>; \<open>utime\<close> is the value of the interval timer.\<close>

definition set_time :: "uint64 \<Rightarrow> uint64 \<Rightarrow> clock \<Rightarrow> clock" where
  "set_time hrtime utime c = (set_start_time hrtime c)\<lparr>start_utime := utime, utime_after_lock := utime\<rparr>"

definition set_time_user :: "uint64 \<Rightarrow> uint64 \<Rightarrow> uint64 \<Rightarrow> clock \<Rightarrow> clock" where
  "set_time_user t hrtime utime c = set_time hrtime utime (c\<lparr>user_time := t\<rparr>)"

datatype secure_timestamp = SECTIME_NO | SECTIME_SUPER | SECTIME_REPL | SECTIME_YES

primrec sectime :: "secure_timestamp \<Rightarrow> nat" where
  "sectime SECTIME_NO = 0" | "sectime SECTIME_SUPER = 1" | "sectime SECTIME_REPL = 2" | "sectime SECTIME_YES = 3"

definition set_time_repl ::
  "secure_timestamp \<Rightarrow> bool \<Rightarrow> my_time_t \<Rightarrow> ulong \<Rightarrow> uint64 \<Rightarrow> uint64 \<Rightarrow> clock \<Rightarrow> clock" where
  "set_time_repl opt_secure_timestamp slave_thread t sec_part hrtime utime c =
     (if sectime opt_secure_timestamp > sectime (if slave_thread then SECTIME_REPL else SECTIME_SUPER)
      then set_time hrtime utime c
      else
        let c1 = (if sec_part \<le> TIME_MAX_SECOND_PART
                  then c\<lparr>start_time := t, start_time_sec_part := sec_part,
                         system_time := (system_time c)\<lparr>st_sec := t, st_sec_part := sec_part\<rparr>\<rparr>
                  else if t \<noteq> st_sec (system_time c)
                  then c\<lparr>start_time := t, start_time_sec_part := 0,
                         system_time := (system_time c)\<lparr>st_sec := t, st_sec_part := 0\<rparr>\<rparr>
                  else c\<lparr>start_time := t, start_time_sec_part := st_sec_part (system_time c) + 1,
                         system_time := (system_time c)\<lparr>st_sec_part := st_sec_part (system_time c) + 1\<rparr>\<rparr>)
        in c1\<lparr>user_time := hrtime_from_time (start_time c1) + ucast (start_time_sec_part c1),
              start_utime := utime, utime_after_lock := utime\<rparr>)"

definition set_time_after_lock :: "uint64 \<Rightarrow> clock \<Rightarrow> clock" where
  "set_time_after_lock utime c = c\<lparr>utime_after_lock := utime\<rparr>"

definition set_time_for_next_stage :: "uint64 \<Rightarrow> clock \<Rightarrow> clock" where
  "set_time_for_next_stage utime c = c\<lparr>utime_after_query := utime\<rparr>"

definition query_start_sec_part :: "clock \<Rightarrow> ulong \<times> clock" where
  "query_start_sec_part c = (start_time_sec_part c, c\<lparr>query_start_sec_part_used := True\<rparr>)"

text \<open>The start of a transaction: seconds and microseconds of the statement that starts it.\<close>

definition trans_time_reset :: "clock \<Rightarrow> (my_time_t \<times> ulong) \<times> clock" where
  "trans_time_reset c = (let (part, c1) = query_start_sec_part c in ((start_time c, part), c1))"

definition OPTION_NOT_AUTOCOMMIT :: uint64 where "OPTION_NOT_AUTOCOMMIT = push_bit 19 1"
definition OPTION_BEGIN :: uint64 where "OPTION_BEGIN = push_bit 20 1"

definition in_multi_stmt_transaction_mode :: "uint64 \<Rightarrow> bool" where
  "in_multi_stmt_transaction_mode option_bits \<longleftrightarrow> option_bits AND (OPTION_NOT_AUTOCOMMIT OR OPTION_BEGIN) \<noteq> 0"

definition transaction_time :: "uint64 \<Rightarrow> my_time_t \<times> ulong \<Rightarrow> clock \<Rightarrow> (my_time_t \<times> ulong) \<times> clock" where
  "transaction_time option_bits trans_start c =
     (if \<not> in_multi_stmt_transaction_mode option_bits then trans_time_reset c else (trans_start, c))"

definition SERVER_QUERY_WAS_SLOW :: uint32 where "SERVER_QUERY_WAS_SLOW = 2048"

definition update_server_status :: "uint64 \<Rightarrow> uint64 \<Rightarrow> uint32 \<Rightarrow> clock \<Rightarrow> uint32 \<times> clock" where
  "update_server_status utime long_query_time server_status c =
     (let c1 = set_time_for_next_stage utime c
      in (if utime_after_query c1 \<ge> utime_after_lock c1 + long_query_time
          then server_status OR SERVER_QUERY_WAS_SLOW else server_status, c1))"

section \<open>The system clock never stands still\<close>

definition stamp :: "system_time \<Rightarrow> int \<times> ulong" where
  "stamp s = (sint (st_sec s), st_sec_part s)"

definition clock_ok :: "system_time \<Rightarrow> bool" where
  "clock_ok s \<longleftrightarrow> st_sec_part s \<le> TIME_MAX_SECOND_PART"

lemma unat_hrtime_sec_part: "unat (hrtime_sec_part X) = unat X mod 1000000"
  by (simp add: hrtime_sec_part_def HRTIME_RESOLUTION_def unat_ucast_eq_mod unat_mod)

lemma hrtime_sec_part_le: "hrtime_sec_part X \<le> TIME_MAX_SECOND_PART"
  using unat_hrtime_sec_part [of X] by (simp add: TIME_MAX_SECOND_PART_def word_le_nat_alt)

lemma sec_part_inc: "p < TIME_MAX_SECOND_PART \<Longrightarrow> p < p + 1 \<and> p + 1 \<le> TIME_MAX_SECOND_PART"
  by (simp add: TIME_MAX_SECOND_PART_def word_less_nat_alt word_le_nat_alt unat_word_ariths)

lemma sint_my_time: "- (2 ^ 31) \<le> sint (t :: my_time_t) \<and> sint t < 2 ^ 31"
  using sint_greater_eq [of t] sint_less [of t] by simp

lemma sint_next_second: "sint (t :: my_time_t) < 2 ^ 31 - 1 \<Longrightarrow> sint (t + 1) = sint t + 1"
  using sint_my_time [of t] by (simp add: signed_word_eqI sint_word_ariths signed_take_bit_int_eq_self_iff)

text \<open>The seconds of the clock, as long as they fit 31 bits.\<close>

lemma sint_hrtime_to_my_time:
  assumes "hrtime_to_time hr < 2 ^ 31"
  shows "sint (hrtime_to_my_time hr) = uint (hrtime_to_time hr)"
proof -
  have l: "unat (hrtime_to_time hr) < 2 ^ 31" using assms by (simp add: word_less_nat_alt)
  then have "unat (hrtime_to_my_time hr) = unat (hrtime_to_time hr)" by (simp add: hrtime_to_my_time_def unat_ucast_eq_mod)
  moreover from this l have "sint (hrtime_to_my_time hr) = int (unat (hrtime_to_my_time hr))" by (intro sint_nonneg) simp
  ultimately show ?thesis by (simp only: uint_nat)
qed

lemma my_time_eqI: "sint (a :: my_time_t) = sint b \<Longrightarrow> a = b"
  by (rule signed_word_eqI)

text \<open>The sign bit of a number of 32 bits.\<close>

lemma my_time_negative: "sint (t :: my_time_t) < 0 \<longleftrightarrow> 2 ^ 31 \<le> unat t"
proof
  assume "2 ^ 31 \<le> unat t"
  show "sint t < 0"
  proof (rule ccontr)
    assume "\<not> sint t < 0"
    then have "t = of_nat (nat (sint t))" by simp
    then have "unat t = nat (sint t) mod 2 ^ 32" using unat_of_nat [of "nat (sint t)", where 'a = 32] by simp
    moreover have "nat (sint t) < 2 ^ 31" using \<open>\<not> sint t < 0\<close> sint_my_time [of t] by (simp add: nat_less_iff)
    ultimately show False using \<open>2 ^ 31 \<le> unat t\<close> by simp
  qed
next
  assume "sint t < 0"
  show "2 ^ 31 \<le> unat t" using \<open>sint t < 0\<close> sint_nonneg [of t] by (cases "unat t < 2 ^ 31") auto
qed

lemma set_system_time_ok: "clock_ok s \<Longrightarrow> clock_ok (set_system_time hr s) \<and> st_start (set_system_time hr s) = st_start s"
  using hrtime_sec_part_le [of hr] sec_part_inc [of "st_sec_part s"]
  by (auto simp: set_system_time_def clock_ok_def Let_def)

lemma set_system_time_later:
  assumes "clock_ok s" "st_start s \<le> hr" "sint (st_sec s) < 2 ^ 31 - 1"
  shows "stamp s < stamp (set_system_time hr s)"
    "sint (st_sec (set_system_time hr s)) \<le> max (sint (hrtime_to_my_time hr)) (sint (st_sec s) + 1)"
  using assms sec_part_inc [of "st_sec_part s"] sint_next_second [OF assms(3)]
  by (auto simp: set_system_time_def stamp_def Let_def less_prod_def)

text \<open>The start times of statements that read the clock as \<open>hrs\<close> one after the other.\<close>

primrec statement_times :: "clock \<Rightarrow> uint64 list \<Rightarrow> (int \<times> ulong) list" where
  "statement_times c [] = []"
| "statement_times c (hr # hrs) =
     (let c1 = set_start_time hr c in (sint (start_time c1), start_time_sec_part c1) # statement_times c1 hrs)"

text \<open>The seconds leave room for \<open>n\<close> more seconds.\<close>

definition seconds_left :: "nat \<Rightarrow> clock \<Rightarrow> uint64 list \<Rightarrow> bool" where
  "seconds_left n c hrs \<longleftrightarrow>
     sint (st_sec (system_time c)) + int n < 2 ^ 31 \<and> list_all (\<lambda>hr. uint (hrtime_to_time hr) + int n < 2 ^ 31) hrs"

lemma statement_times_later:
  "user_time c = 0 \<Longrightarrow> clock_ok (system_time c) \<Longrightarrow> \<forall>hr\<in>set hrs. st_start (system_time c) \<le> hr \<Longrightarrow>
   seconds_left (length hrs) c hrs \<Longrightarrow>
     sorted_wrt (<) (stamp (system_time c) # statement_times c hrs) \<and>
     (\<forall>(s, p)\<in>set (statement_times c hrs). p \<le> TIME_MAX_SECOND_PART)"
proof (induction hrs arbitrary: c)
  case (Cons hr hrs)
  define s where "s = set_system_time hr (system_time c)"
  have c1: "set_start_time hr c = c\<lparr>system_time := s, start_time := st_sec s, start_time_sec_part := st_sec_part s\<rparr>"
    using Cons.prems(1) by (simp add: set_start_time_def s_def Let_def)
  have ok: "clock_ok s" "st_start s = st_start (system_time c)" using set_system_time_ok Cons.prems(2) by (simp_all add: s_def)
  have room: "sint (st_sec (system_time c)) < 2 ^ 31 - 1" "st_start (system_time c) \<le> hr"
    using Cons.prems(3,4) by (simp_all add: seconds_left_def)
  have "uint (hrtime_to_time hr) + int (length hrs) < 2 ^ 31" using Cons.prems(4) by (simp add: seconds_left_def)
  moreover from this have "sint (hrtime_to_my_time hr) = uint (hrtime_to_time hr)"
    by (intro sint_hrtime_to_my_time) (simp add: word_less_def)
  ultimately have "sint (st_sec s) + int (length hrs) < 2 ^ 31"
    using set_system_time_later(2) [OF Cons.prems(2) room(2,1)] Cons.prems(4) by (auto simp: s_def seconds_left_def max_def split: if_splits)
  then have left: "seconds_left (length hrs) (set_start_time hr c) hrs"
    using Cons.prems(4) by (auto simp: seconds_left_def c1 list_all_iff)
  have "stamp (system_time c) < stamp s"
    using set_system_time_later(1) [OF Cons.prems(2) room(2,1)] by (simp add: s_def)
  moreover have "sorted_wrt (<) (stamp s # statement_times (set_start_time hr c) hrs) \<and>
     (\<forall>(s, p)\<in>set (statement_times (set_start_time hr c) hrs). p \<le> TIME_MAX_SECOND_PART)"
    using Cons.IH [of "set_start_time hr c"] Cons.prems ok left by (simp add: c1)
  moreover have "statement_times c (hr # hrs) = stamp s # statement_times (set_start_time hr c) hrs"
    by (simp add: Let_def c1 stamp_def)
  moreover have "case stamp s of (s, p) \<Rightarrow> p \<le> TIME_MAX_SECOND_PART" using ok(1) by (simp add: stamp_def clock_ok_def)
  ultimately show ?case by (simp only: sorted_wrt2 [OF transp_on_less] set_simps ball_simps) simp
qed simp

text \<open>
  C18: As long as the user prescribes no time, the clock does not fall behind the start of the session's clock, and
  the seconds do not reach the end of their 32 bits (the session's last time and every reading of the clock lie at least as many
  seconds before 2^31, in January 2038, as there are statements), the
  statements of a session have strictly increasing start times, whatever else the system clock shows: it may stand
  still or go back.  The microseconds stay below one second.
\<close>

theorem statement_times_increase:
  assumes "user_time c = 0" "clock_ok (system_time c)" "\<forall>hr\<in>set hrs. st_start (system_time c) \<le> hr"
    and "sint (st_sec (system_time c)) + int (length hrs) < 2 ^ 31"
    and "\<forall>hr\<in>set hrs. uint (hrtime_to_time hr) + int (length hrs) < 2 ^ 31"
  shows "sorted_wrt (<) (stamp (system_time c) # statement_times c hrs) \<and> length (statement_times c hrs) = length hrs \<and>
    (\<forall>(s, p)\<in>set (statement_times c hrs). p \<le> TIME_MAX_SECOND_PART)"
proof -
  have "length (statement_times c hrs) = length hrs" for c by (induction hrs arbitrary: c) (simp_all add: Let_def)
  moreover have "seconds_left (length hrs) c hrs" using assms(4,5) by (simp add: seconds_left_def list_all_iff)
  ultimately show ?thesis using statement_times_later [OF assms(1-3)] by blast
qed

text \<open>
  At the end of the 32 bits the times do not increase any more: the second after the last one is the earliest of all, and a
  clock that shows 2^31 seconds or more (up to 2^32) is converted to a negative time, so that a
  session whose time is not negative ignores it and goes on in steps of a microsecond.
\<close>

theorem statement_time_wraps:
  fixes s :: system_time
  shows "\<lbrakk>st_sec s = 0x7FFFFFFF; st_sec_part s = TIME_MAX_SECOND_PART; st_start s \<le> hr\<rbrakk> \<Longrightarrow>
      stamp (set_system_time hr s) = (- (2 ^ 31), 0)"
    and "\<lbrakk>2 ^ 31 \<le> unat (hrtime_to_time hr); unat (hrtime_to_time hr) < 2 ^ 32; 0 \<le> sint (st_sec s); st_start s \<le> hr;
       st_sec_part s < TIME_MAX_SECOND_PART\<rbrakk> \<Longrightarrow> set_system_time hr s = s\<lparr>st_sec_part := st_sec_part s + 1\<rparr>"
proof -
  assume a: "st_sec s = 0x7FFFFFFF" "st_sec_part s = TIME_MAX_SECOND_PART" "st_start s \<le> hr"
  have "\<not> sint (hrtime_to_my_time hr) > 0x7FFFFFFF" using sint_my_time [of "hrtime_to_my_time hr"] by simp
  then show "stamp (set_system_time hr s) = (- (2 ^ 31), 0)"
    using a hrtime_sec_part_le [of hr] by (auto simp: set_system_time_def stamp_def Let_def)
next
  assume a: "2 ^ 31 \<le> unat (hrtime_to_time hr)" "unat (hrtime_to_time hr) < 2 ^ 32" "0 \<le> sint (st_sec s)" "st_start s \<le> hr"
    "st_sec_part s < TIME_MAX_SECOND_PART"
  have "unat (hrtime_to_my_time hr) = unat (hrtime_to_time hr)"
    using a(2) by (simp add: hrtime_to_my_time_def unat_ucast_eq_mod)
  then have "sint (hrtime_to_my_time hr) < 0" using a(1) my_time_negative [of "hrtime_to_my_time hr"] by simp
  then show "set_system_time hr s = s\<lparr>st_sec_part := st_sec_part s + 1\<rparr>"
    using a(3-5) by (auto simp: set_system_time_def Let_def)
qed

text \<open>When the system clock is ahead of the last time given out, the statement starts at the time of the clock.\<close>

theorem statement_time_exact:
  assumes "user_time c = 0" "stamp (system_time c) < (sint (hrtime_to_my_time hr), hrtime_sec_part hr)"
  shows "start_time (set_start_time hr c) = hrtime_to_my_time hr \<and>
    start_time_sec_part (set_start_time hr c) = hrtime_sec_part hr"
  using assms my_time_eqI [of "st_sec (system_time c)" "hrtime_to_my_time hr"]
  by (auto simp: set_start_time_def set_system_time_def Let_def stamp_def less_prod_def)

section \<open>Times from the replication stream\<close>

lemma hrtime_split:
  assumes "0 \<le> sint t" "p \<le> TIME_MAX_SECOND_PART"
  shows "hrtime_to_my_time (hrtime_from_time t + ucast p) = t \<and> hrtime_sec_part (hrtime_from_time t + ucast p) = p"
proof -
  have p: "unat p < 1000000" using assms(2) by (simp add: TIME_MAX_SECOND_PART_def word_le_nat_alt)
  have t: "unat t < 2 ^ 31" using assms(1) my_time_negative [of t] by linarith
  then have "sint t = int (unat t)" by (intro sint_nonneg) simp
  then have "unat (scast t :: uint64) = unat t" using uint32_lt [of t] by (simp add: scast_eq unat_ucast_eq_mod)
  then have "unat (hrtime_from_time t + ucast p) = unat t * 1000000 + unat p"
    using t p by (simp add: hrtime_from_time_def HRTIME_RESOLUTION_def unat_word_ariths unat_ucast_eq_mod)
  then show ?thesis using t p uint32_lt [of t]
    by (auto intro!: word_eq_unatI simp: unat_hrtime_sec_part hrtime_to_my_time_def hrtime_to_time_def HRTIME_RESOLUTION_def
        unat_ucast_eq_mod unat_div)
qed

lemma hrtime_from_time_pos: "0 < sint t \<Longrightarrow> p \<le> TIME_MAX_SECOND_PART \<Longrightarrow> hrtime_from_time t + ucast p \<noteq> 0"
  using hrtime_split [of t p] by (auto simp: hrtime_to_my_time_def hrtime_to_time_def)

text \<open>
  A time from the replication stream, where the server accepts it: a time with microseconds is taken as it is; without
  microseconds the first event of a second has none, and each further event of that second is
  one microsecond after the one before.  The time is then prescribed for the statements that follow, which start at
  exactly that time.
\<close>

theorem replicated_time:
  fixes c :: clock and part :: ulong and hr ut hr' :: uint64
  assumes "0 < sint t" "sectime opt \<le> sectime (if slave then SECTIME_REPL else SECTIME_SUPER)"
    and "st_sec (system_time c) = t \<Longrightarrow> st_sec_part (system_time c) < TIME_MAX_SECOND_PART"
  defines "c1 \<equiv> set_time_repl opt slave t part hr ut c"
    and "p \<equiv> (if part \<le> TIME_MAX_SECOND_PART then part
              else if t \<noteq> st_sec (system_time c) then 0 else st_sec_part (system_time c) + 1)"
  shows "start_time c1 = t \<and> start_time_sec_part c1 = p \<and> stamp (system_time c1) = (sint t, p) \<and> p \<le> TIME_MAX_SECOND_PART \<and>
    start_time (set_start_time hr' c1) = t \<and> start_time_sec_part (set_start_time hr' c1) = p"
proof -
  have p: "p \<le> TIME_MAX_SECOND_PART"
    using sec_part_inc [of "st_sec_part (system_time c)"] assms(3) by (auto simp: p_def)
  have c1: "start_time c1 = t" "start_time_sec_part c1 = p" "stamp (system_time c1) = (sint t, p)"
    "user_time c1 = hrtime_from_time t + ucast p"
    using assms(2) by (auto simp: c1_def p_def set_time_repl_def stamp_def Let_def)
  then show ?thesis using p hrtime_split [of t p] hrtime_from_time_pos [of t p] assms(1)
    by (simp add: set_start_time_def)
qed

text \<open>
  When a second has used up its microseconds, a further event without microseconds gets the invalid part 1000000: the
  code increments it without a carry.  The statements that follow start in the next second.
\<close>

theorem replicated_second_overflow:
  fixes c :: clock and part :: ulong and hr ut hr' :: uint64
  assumes "0 < sint t" "sint t < 2 ^ 31 - 1" "sectime opt \<le> sectime (if slave then SECTIME_REPL else SECTIME_SUPER)"
    and "st_sec (system_time c) = t" "st_sec_part (system_time c) = TIME_MAX_SECOND_PART" "part > TIME_MAX_SECOND_PART"
  defines "c1 \<equiv> set_time_repl opt slave t part hr ut c"
  shows "start_time c1 = t \<and> start_time_sec_part c1 = 1000000 \<and> \<not> clock_ok (system_time c1) \<and>
    start_time (set_start_time hr' c1) = t + 1 \<and> start_time_sec_part (set_start_time hr' c1) = 0"
proof -
  have c1: "start_time c1 = t" "start_time_sec_part c1 = 1000000" "st_sec_part (system_time c1) = 1000000"
    "user_time c1 = hrtime_from_time t + 1000000"
    using assms(3-6) by (auto simp: c1_def set_time_repl_def TIME_MAX_SECOND_PART_def Let_def)
  have n: "sint (t + 1) = sint t + 1" by (rule sint_next_second [OF assms(2)])
  then have "(scast (t + 1) :: uint64) = scast t + 1" by (simp only: scast_eq of_int_add of_int_1)
  then have "hrtime_from_time t + 1000000 = hrtime_from_time (t + 1) + ucast (0 :: ulong)"
    by (simp add: hrtime_from_time_def HRTIME_RESOLUTION_def distrib_right)
  then show ?thesis using c1 hrtime_split [of "t + 1" 0] hrtime_from_time_pos [of "t + 1" 0] assms(1) n
    by (simp add: set_start_time_def clock_ok_def TIME_MAX_SECOND_PART_def)
qed

section \<open>Concrete cases\<close>

definition sample_clock :: clock where
  "sample_clock = \<lparr>system_time = \<lparr>st_start = 5000000, st_sec = 7, st_sec_part = 999999\<rparr>, user_time = 0, start_time = 0,
     start_time_sec_part = 0, query_start_sec_part_used = False, start_utime = 0, utime_after_lock = 0, utime_after_query = 0\<rparr>"

theorem statement_times_increase_witness:
  "sorted_wrt (<) ((7, 999999) # statement_times sample_clock [6000000, 6000000, 9000000])"
  using statement_times_increase [of sample_clock "[6000000, 6000000, 9000000]"]
  by (simp add: sample_clock_def clock_ok_def TIME_MAX_SECOND_PART_def stamp_def hrtime_to_time_def HRTIME_RESOLUTION_def)

theorem statement_time_exact_witness:
  "start_time (set_start_time 9000001 sample_clock) = hrtime_to_my_time 9000001"
  using statement_time_exact [of sample_clock 9000001]
  by (simp add: sample_clock_def stamp_def hrtime_to_my_time_def hrtime_to_time_def HRTIME_RESOLUTION_def less_prod_def)

theorem replicated_time_witness:
  "start_time_sec_part (set_time_repl SECTIME_NO True 8 1000000 0 0 sample_clock) = 0"
  using replicated_time [of 8 SECTIME_NO True sample_clock 1000000 0 0 0]
  by (simp add: sample_clock_def TIME_MAX_SECOND_PART_def)

theorem replicated_second_overflow_witness:
  "start_time_sec_part (set_time_repl SECTIME_NO True 7 1000000 0 0 sample_clock) = 1000000"
  using replicated_second_overflow [of 7 SECTIME_NO True sample_clock 1000000 0 0 0]
  by (simp add: sample_clock_def TIME_MAX_SECOND_PART_def)

end
