(* ===== verification/SessionState.thy ===== *)
theory SessionState
  imports NodeHeap
begin

text \<open>
  State that a session carries from statement to statement (\<^verbatim>\<open>sql_class.h\<close>, class \<open>THD\<close>): the kill level, the format
  of the binary log, generated identifiers, row counters, the query timer, and the scopes that save parts of the
  state and restore them.  Functions of the server that the header only declares (\<open>reset_killed\<close>, the
  timer functions, \<open>has_thd_temporary_tables\<close>) are arguments.
\<close>

section \<open>Killing a session\<close>

type_synonym killed_state = uint32

definition NOT_KILLED :: killed_state where "NOT_KILLED = 0"
definition KILL_HARD_BIT :: killed_state where "KILL_HARD_BIT = 1"
definition KILL_BAD_DATA :: killed_state where "KILL_BAD_DATA = 2"
definition KILL_QUERY :: killed_state where "KILL_QUERY = 4"
definition ABORT_QUERY :: killed_state where "ABORT_QUERY = 6"
definition KILL_TIMEOUT :: killed_state where "KILL_TIMEOUT = 8"
definition KILL_SLAVE_SAME_ID :: killed_state where "KILL_SLAVE_SAME_ID = 10"
definition KILL_CONNECTION :: killed_state where "KILL_CONNECTION = 12"
definition KILL_CONNECTION_HARD :: killed_state where "KILL_CONNECTION_HARD = 13"
definition KILL_SYSTEM_THREAD :: killed_state where "KILL_SYSTEM_THREAD = 14"
definition KILL_SERVER :: killed_state where "KILL_SERVER = 16"
definition KILL_WAIT_TIMEOUT :: killed_state where "KILL_WAIT_TIMEOUT = 18"

definition killed_mask_hard :: "killed_state \<Rightarrow> killed_state" where
  "killed_mask_hard k = k AND NOT KILL_HARD_BIT"

record err_info =
  err_no :: int
  err_msg :: string

record kill_info =
  killed :: killed_state
  killed_err :: "err_info option"
  abort :: bool

text \<open>A request to kill: the level, the error number and message, and whether memory for them can be allocated.\<close>

record kill_request =
  killed_arg :: killed_state
  killed_errno_arg :: int
  killed_err_msg_arg :: string
  alloc_ok :: bool

definition set_killed_no_mutex :: "kill_request \<Rightarrow> kill_info \<Rightarrow> kill_info" where
  "set_killed_no_mutex r s =
     (if killed s \<le> killed_arg r
      then let s1 = s\<lparr>killed := killed_arg r\<rparr>
           in if killed_errno_arg r \<noteq> 0
              then s1\<lparr>killed_err := (if alloc_ok r then Some \<lparr>err_no = killed_errno_arg r, err_msg = take 255 (killed_err_msg_arg r)\<rparr> else None)\<rparr>
              else s1
      else s)"

definition set_killed :: "kill_request \<Rightarrow> kill_info \<Rightarrow> kill_info" where
  "set_killed r s = set_killed_no_mutex r s"

definition reset_kill_query :: "(kill_info \<Rightarrow> kill_info) \<Rightarrow> kill_info \<Rightarrow> kill_info" where
  "reset_kill_query reset_killed s =
     (if killed s < KILL_CONNECTION then (reset_killed s)\<lparr>abort := False\<rparr> else s)"

text \<open>\<open>check_killed\<close>: whether the session has to stop, and which of a kill message and pending calls are served.\<close>

datatype kill_action = Send_kill_message | Process_apc_requests

definition check_killed :: "bool \<Rightarrow> bool \<Rightarrow> kill_info \<Rightarrow> bool \<times> kill_action list" where
  "check_killed dont_send_error_message have_apc_requests s =
     (if killed s \<noteq> NOT_KILLED
      then (True, if dont_send_error_message then [] else [Send_kill_message])
      else (False, if have_apc_requests then [Process_apc_requests] else []))"

definition check_limit_rows_examined :: "uint64 \<Rightarrow> uint64 \<times> kill_info \<Rightarrow> uint64 \<times> kill_info" where
  "check_limit_rows_examined limit_rows_examined_cnt s =
     (let n = fst s + 1
      in (n, if n > limit_rows_examined_cnt
             then set_killed \<lparr>killed_arg = ABORT_QUERY, killed_errno_arg = 0, killed_err_msg_arg = [], alloc_ok = True\<rparr> (snd s)
             else snd s))"

section \<open>The format of the binary log\<close>

datatype enum_binlog_format = BINLOG_FORMAT_MIXED | BINLOG_FORMAT_STMT | BINLOG_FORMAT_ROW | BINLOG_FORMAT_UNSPEC

record binlog_state =
  binlog_format :: enum_binlog_format
  current_stmt_binlog_format :: enum_binlog_format
  in_sub_stmt :: uint32

definition WSREP_FORMAT :: "enum_binlog_format \<Rightarrow> enum_binlog_format \<Rightarrow> enum_binlog_format" where
  "WSREP_FORMAT wsrep_forced_binlog_format my_format =
     (if wsrep_forced_binlog_format \<noteq> BINLOG_FORMAT_UNSPEC then wsrep_forced_binlog_format else my_format)"

definition wsrep_binlog_format :: "enum_binlog_format \<Rightarrow> binlog_state \<Rightarrow> enum_binlog_format" where
  "wsrep_binlog_format forced b = WSREP_FORMAT forced (binlog_format b)"

definition is_current_stmt_binlog_format_row :: "binlog_state \<Rightarrow> bool option" where
  "is_current_stmt_binlog_format_row b =
     do { DBUG_ASSERT (current_stmt_binlog_format b = BINLOG_FORMAT_STMT \<or> current_stmt_binlog_format b = BINLOG_FORMAT_ROW);
          Some (current_stmt_binlog_format b = BINLOG_FORMAT_ROW) }"

definition set_binlog_format :: "enum_binlog_format \<Rightarrow> enum_binlog_format \<Rightarrow> binlog_state \<Rightarrow> binlog_state" where
  "set_binlog_format format current_format b = b\<lparr>binlog_format := format, current_stmt_binlog_format := current_format\<rparr>"

definition get_binlog_format :: "binlog_state \<Rightarrow> enum_binlog_format \<times> enum_binlog_format" where
  "get_binlog_format b = (binlog_format b, current_stmt_binlog_format b)"

definition set_binlog_format_stmt :: "binlog_state \<Rightarrow> binlog_state" where
  "set_binlog_format_stmt b = b\<lparr>binlog_format := BINLOG_FORMAT_STMT, current_stmt_binlog_format := BINLOG_FORMAT_STMT\<rparr>"

definition set_current_stmt_binlog_format_row :: "binlog_state \<Rightarrow> binlog_state" where
  "set_current_stmt_binlog_format_row b = b\<lparr>current_stmt_binlog_format := BINLOG_FORMAT_ROW\<rparr>"

definition set_current_stmt_binlog_format_row_if_mixed :: "enum_binlog_format \<Rightarrow> binlog_state \<Rightarrow> binlog_state" where
  "set_current_stmt_binlog_format_row_if_mixed forced b =
     (if wsrep_binlog_format forced b = BINLOG_FORMAT_MIXED \<and> in_sub_stmt b = 0
      then set_current_stmt_binlog_format_row b else b)"

definition set_current_stmt_binlog_format_stmt :: "binlog_state \<Rightarrow> enum_binlog_format \<times> binlog_state" where
  "set_current_stmt_binlog_format_stmt b = (current_stmt_binlog_format b, b\<lparr>current_stmt_binlog_format := BINLOG_FORMAT_STMT\<rparr>)"

definition restore_stmt_binlog_format :: "enum_binlog_format \<Rightarrow> binlog_state \<Rightarrow> binlog_state option" where
  "restore_stmt_binlog_format format b =
     do { row \<leftarrow> is_current_stmt_binlog_format_row b; DBUG_ASSERT (\<not> row);
          Some (b\<lparr>current_stmt_binlog_format := format\<rparr>) }"

definition reset_current_stmt_binlog_format_row :: "enum_binlog_format \<Rightarrow> bool \<Rightarrow> binlog_state \<Rightarrow> binlog_state" where
  "reset_current_stmt_binlog_format_row forced has_thd_temporary_tables b =
     (if in_sub_stmt b = 0
      then if wsrep_binlog_format forced b = BINLOG_FORMAT_ROW then set_current_stmt_binlog_format_row b
           else if \<not> has_thd_temporary_tables then snd (set_current_stmt_binlog_format_stmt b)
           else b
      else b)"

text \<open>The scope \<open>ScopedStatementReplication\<close>, around what happens inside; the session may be absent.\<close>

definition scoped_statement_replication ::
  "(binlog_state \<Rightarrow> binlog_state option) \<Rightarrow> binlog_state option \<Rightarrow> binlog_state option option" where
  "scoped_statement_replication body thd =
     (case thd of None \<Rightarrow> Some None
      | Some b \<Rightarrow> let (saved_binlog_format, b1) = set_current_stmt_binlog_format_stmt b
                  in do { b2 \<leftarrow> body b1; b3 \<leftarrow> restore_stmt_binlog_format saved_binlog_format b2; Some (Some b3) })"

datatype binlog_filter_state = BINLOG_FILTER_UNKNOWN | BINLOG_FILTER_CLEAR | BINLOG_FILTER_SET

definition reset_binlog_local_stmt_filter :: "binlog_filter_state \<Rightarrow> binlog_filter_state" where
  "reset_binlog_local_stmt_filter s = BINLOG_FILTER_UNKNOWN"

definition clear_binlog_local_stmt_filter :: "binlog_filter_state \<Rightarrow> binlog_filter_state option" where
  "clear_binlog_local_stmt_filter s = do { DBUG_ASSERT (s = BINLOG_FILTER_UNKNOWN); Some BINLOG_FILTER_CLEAR }"

definition set_binlog_local_stmt_filter :: "binlog_filter_state \<Rightarrow> binlog_filter_state option" where
  "set_binlog_local_stmt_filter s = do { DBUG_ASSERT (s = BINLOG_FILTER_UNKNOWN); Some BINLOG_FILTER_SET }"

text \<open>The macros \<open>tmp_disable_binlog\<close> and \<open>reenable_binlog\<close> around a block.\<close>

record binlog_options =
  option_bits :: uint64
  sql_log_bin_off :: bool

definition OPTION_BIN_LOG :: uint64 where "OPTION_BIN_LOG = push_bit 18 1"

definition is_current_stmt_binlog_disabled :: "bool \<Rightarrow> binlog_options \<Rightarrow> bool" where
  "is_current_stmt_binlog_disabled is_open v \<longleftrightarrow> option_bits v AND OPTION_BIN_LOG = 0 \<or> \<not> is_open"

definition tmp_disable_binlog :: "binlog_options \<Rightarrow> uint64 \<times> binlog_options" where
  "tmp_disable_binlog v = (option_bits v, v\<lparr>option_bits := option_bits v AND NOT OPTION_BIN_LOG, sql_log_bin_off := True\<rparr>)"

definition reenable_binlog :: "uint64 \<Rightarrow> binlog_options \<Rightarrow> binlog_options" where
  "reenable_binlog save_options v = v\<lparr>option_bits := save_options, sql_log_bin_off := False\<rparr>"

section \<open>Generated identifiers and row counts\<close>

record insert_ids =
  first_successful_insert_id_in_prev_stmt :: uint64
  first_successful_insert_id_in_prev_stmt_for_binlog :: uint64
  first_successful_insert_id_in_cur_stmt :: uint64
  stmt_depends_on_first_successful_insert_id_in_prev_stmt :: bool

definition record_first_successful_insert_id_in_cur_stmt :: "uint64 \<Rightarrow> insert_ids \<Rightarrow> insert_ids" where
  "record_first_successful_insert_id_in_cur_stmt id_arg s =
     (if first_successful_insert_id_in_cur_stmt s = 0 then s\<lparr>first_successful_insert_id_in_cur_stmt := id_arg\<rparr> else s)"

definition read_first_successful_insert_id_in_prev_stmt :: "insert_ids \<Rightarrow> uint64 \<times> insert_ids" where
  "read_first_successful_insert_id_in_prev_stmt s =
     (let s1 = (if \<not> stmt_depends_on_first_successful_insert_id_in_prev_stmt s
                then s\<lparr>first_successful_insert_id_in_prev_stmt_for_binlog := first_successful_insert_id_in_prev_stmt s,
                       stmt_depends_on_first_successful_insert_id_in_prev_stmt := True\<rparr>
                else s)
      in (first_successful_insert_id_in_prev_stmt s1, s1))"

record row_counts =
  m_row_count_func :: uint64
  affected_rows :: uint64

definition set_row_count_func :: "uint64 \<Rightarrow> row_counts \<Rightarrow> row_counts" where
  "set_row_count_func n s = s\<lparr>m_row_count_func := n\<rparr>"

definition set_affected_rows :: "uint64 \<Rightarrow> row_counts \<Rightarrow> row_counts" where
  "set_affected_rows n s = s\<lparr>affected_rows := affected_rows s + (if sint n \<ge> 0 then n else 0)\<rparr>"

text \<open>\<open>my_ok\<close> and \<open>my_eof\<close>, without the status they put into the diagnostics area.\<close>

definition my_ok :: "uint64 \<Rightarrow> row_counts \<Rightarrow> row_counts" where
  "my_ok affected_rows_arg s = set_affected_rows affected_rows_arg (set_row_count_func affected_rows_arg s)"

definition my_eof :: "row_counts \<Rightarrow> row_counts" where
  "my_eof s = set_row_count_func (- 1) s"

section \<open>Modes and scopes\<close>

definition MODE_NO_BACKSLASH_ESCAPES :: uint64 where "MODE_NO_BACKSLASH_ESCAPES = push_bit 20 1"
definition MODE_STRICT_TRANS_TABLES :: uint64 where "MODE_STRICT_TRANS_TABLES = push_bit 21 1"
definition MODE_STRICT_ALL_TABLES :: uint64 where "MODE_STRICT_ALL_TABLES = push_bit 22 1"
definition MODE_NO_ZERO_IN_DATE :: uint64 where "MODE_NO_ZERO_IN_DATE = push_bit 23 1"
definition MODE_NO_ZERO_DATE :: uint64 where "MODE_NO_ZERO_DATE = push_bit 24 1"
definition MODE_INVALID_DATES :: uint64 where "MODE_INVALID_DATES = push_bit 25 1"

definition is_strict_mode :: "uint64 \<Rightarrow> bool" where
  "is_strict_mode sql_mode \<longleftrightarrow> sql_mode AND (MODE_STRICT_TRANS_TABLES OR MODE_STRICT_ALL_TABLES) \<noteq> 0"

definition backslash_escapes :: "uint64 \<Rightarrow> bool" where
  "backslash_escapes sql_mode \<longleftrightarrow> sql_mode AND MODE_NO_BACKSLASH_ESCAPES = 0"

definition sql_mode_for_dates :: "uint64 \<Rightarrow> uint64" where
  "sql_mode_for_dates sql_mode = sql_mode AND (MODE_NO_ZERO_DATE OR MODE_NO_ZERO_IN_DATE OR MODE_INVALID_DATES)"

datatype enum_check_fields = CHECK_FIELD_IGNORE | CHECK_FIELD_EXPRESSION | CHECK_FIELD_WARN | CHECK_FIELD_ERROR_FOR_NULL

record check_state =
  sql_mode :: uint64
  count_cuted_fields :: enum_check_fields
  abort_on_warning :: bool
  stmt_modified_non_trans_table :: bool

definition really_abort_on_warning :: "check_state \<Rightarrow> bool" where
  "really_abort_on_warning s \<longleftrightarrow>
     abort_on_warning s \<and> (\<not> stmt_modified_non_trans_table s \<or> sql_mode s AND MODE_STRICT_ALL_TABLES \<noteq> 0)"

text \<open>The scopes \<open>Sql_mode_save\<close> and \<open>Sp_eval_expr_state\<close> around a block.\<close>

definition sql_mode_save_scope :: "(check_state \<Rightarrow> check_state) \<Rightarrow> check_state \<Rightarrow> check_state" where
  "sql_mode_save_scope body s = (let old_mode = sql_mode s in (body s)\<lparr>sql_mode := old_mode\<rparr>)"

definition sp_eval_start :: "check_state \<Rightarrow> check_state" where
  "sp_eval_start s =
     s\<lparr>count_cuted_fields := CHECK_FIELD_ERROR_FOR_NULL, abort_on_warning := is_strict_mode (sql_mode s),
       stmt_modified_non_trans_table := False\<rparr>"

definition sp_eval_stop :: "enum_check_fields \<Rightarrow> bool \<Rightarrow> bool \<Rightarrow> check_state \<Rightarrow> check_state" where
  "sp_eval_stop c a m s = s\<lparr>count_cuted_fields := c, abort_on_warning := a, stmt_modified_non_trans_table := m\<rparr>"

definition sp_eval_expr_scope :: "(check_state \<Rightarrow> check_state) \<Rightarrow> check_state \<Rightarrow> check_state" where
  "sp_eval_expr_scope body s =
     sp_eval_stop (count_cuted_fields s) (abort_on_warning s) (stmt_modified_non_trans_table s) (body (sp_eval_start s))"

section \<open>The query timer\<close>

record timer_context =
  spcont :: ptr
  sub_stmt :: uint32
  slave_thread :: bool
  max_statement_time :: uint64

definition set_query_timer ::
  "('t \<Rightarrow> bool) \<Rightarrow> ('t \<Rightarrow> uint64 \<Rightarrow> 't) \<Rightarrow> timer_context \<Rightarrow> 't \<Rightarrow> 't" where
  "set_query_timer expired thr_timer_settime c query_timer =
     (if max_statement_time c = 0 \<or> spcont c \<noteq> 0 \<or> sub_stmt c \<noteq> 0 \<or> slave_thread c \<or> \<not> expired query_timer
      then query_timer else thr_timer_settime query_timer (max_statement_time c))"

definition reset_query_timer :: "('t \<Rightarrow> bool) \<Rightarrow> ('t \<Rightarrow> 't) \<Rightarrow> timer_context \<Rightarrow> 't \<Rightarrow> 't" where
  "reset_query_timer expired thr_timer_end c query_timer =
     (if spcont c \<noteq> 0 \<or> sub_stmt c \<noteq> 0 \<or> slave_thread c then query_timer
      else if \<not> expired query_timer then thr_timer_end query_timer else query_timer)"

section \<open>States of a statement\<close>

datatype enum_state = STMT_INITIALIZED | STMT_INITIALIZED_FOR_SP | STMT_PREPARED | STMT_CONVENTIONAL_EXECUTION
  | STMT_EXECUTED | STMT_ERROR

primrec state_num :: "enum_state \<Rightarrow> int" where
  "state_num STMT_INITIALIZED = 0" | "state_num STMT_INITIALIZED_FOR_SP = 1" | "state_num STMT_PREPARED = 2"
| "state_num STMT_CONVENTIONAL_EXECUTION = 3" | "state_num STMT_EXECUTED = 4" | "state_num STMT_ERROR = - 1"

definition is_stmt_prepare :: "enum_state \<Rightarrow> bool" where "is_stmt_prepare s \<longleftrightarrow> s = STMT_INITIALIZED"
definition is_stmt_prepare_or_first_sp_execute :: "enum_state \<Rightarrow> bool" where
  "is_stmt_prepare_or_first_sp_execute s \<longleftrightarrow> state_num s < state_num STMT_PREPARED"
definition is_stmt_prepare_or_first_stmt_execute :: "enum_state \<Rightarrow> bool" where
  "is_stmt_prepare_or_first_stmt_execute s \<longleftrightarrow> state_num s \<le> state_num STMT_PREPARED"
definition is_stmt_execute :: "enum_state \<Rightarrow> bool" where
  "is_stmt_execute s \<longleftrightarrow> s = STMT_PREPARED \<or> s = STMT_EXECUTED"
definition is_conventional :: "enum_state \<Rightarrow> bool" where
  "is_conventional s \<longleftrightarrow> s = STMT_CONVENTIONAL_EXECUTION"

section \<open>Kill levels\<close>

definition kill_all :: "kill_request list \<Rightarrow> kill_info \<Rightarrow> kill_info" where
  "kill_all rs s = fold set_killed rs s"

lemma kill_all_simps [simp]:
  "kill_all [] s = s" "kill_all (r # rs) s = kill_all rs (set_killed r s)" "kill_all (rs @ qs) s = kill_all qs (kill_all rs s)"
  by (simp_all add: kill_all_def)

lemma set_killed_max: "killed (set_killed r s) = max (killed s) (killed_arg r)"
  by (simp add: set_killed_def set_killed_no_mutex_def Let_def max_def)

lemma set_killed_lesser: "killed_arg r < killed s \<Longrightarrow> set_killed r s = s"
  by (simp add: set_killed_def set_killed_no_mutex_def)

lemma kill_all_max: "killed (kill_all rs s) = Max (insert (killed s) (set (map killed_arg rs)))"
proof (induction rs arbitrary: s)
  case (Cons r rs)
  have "Max (insert (max (killed s) (killed_arg r)) (killed_arg ` set rs)) = Max (insert (killed s) (insert (killed_arg r) (killed_arg ` set rs)))"
    by (cases "set rs = {}") (simp_all add: max.assoc)
  then show ?case by (simp add: Cons set_killed_max)
qed simp

lemma kill_all_lesser: "\<forall>q\<in>set qs. killed_arg q < killed s \<Longrightarrow> kill_all qs s = s"
  by (induction qs) (simp_all add: set_killed_lesser)

text \<open>
  Requests to kill a session: its level is the highest one requested, whatever the order; a request below the
  present level changes nothing, so the error that goes with the last request of the highest level is the one that is
  reported, its message cut to 255 characters; and killing the connection survives the reset
  that ends a killed query, while a lower level is reset.
\<close>

theorem kill_levels:
  assumes "\<forall>q\<in>set rs. killed_arg q \<le> killed_arg r" "killed s \<le> killed_arg r" "\<forall>q\<in>set qs. killed_arg q < killed_arg r"
    and "killed_errno_arg r \<noteq> 0" "alloc_ok r"
  shows "killed (kill_all us s) = Max (insert (killed s) (set (map killed_arg us))) \<and>
    killed_err (kill_all (rs @ r # qs) s) = Some \<lparr>err_no = killed_errno_arg r, err_msg = take 255 (killed_err_msg_arg r)\<rparr> \<and>
    (KILL_CONNECTION \<le> killed_arg r \<longrightarrow> reset_kill_query reset_killed (kill_all (rs @ r # qs) s) = kill_all (rs @ r # qs) s) \<and>
    (killed_arg r < KILL_CONNECTION \<longrightarrow>
       killed (reset_kill_query reset_killed (kill_all (rs @ r # qs) s)) = killed (reset_killed (kill_all (rs @ r # qs) s)))"
proof -
  have "killed (kill_all rs s) \<le> killed_arg r" using assms(1,2) by (auto simp: kill_all_max)
  then have 1: "set_killed r (kill_all rs s) =
      (kill_all rs s)\<lparr>killed := killed_arg r, killed_err := Some \<lparr>err_no = killed_errno_arg r, err_msg = take 255 (killed_err_msg_arg r)\<rparr>\<rparr>"
    using assms(4,5) by (simp add: set_killed_def set_killed_no_mutex_def)
  then have "kill_all (rs @ r # qs) s = set_killed r (kill_all rs s)" using kill_all_lesser assms(3) by simp
  then show ?thesis using 1 by (simp add: kill_all_max reset_kill_query_def)
qed

text \<open>The limit on examined rows aborts the query with the first row above it, and leaves a higher kill level alone.\<close>

lemma rows_examined_limit_aux:
  "unat n + k < 2 ^ 64 \<Longrightarrow> ((check_limit_rows_examined lim) ^^ k) (n, s) =
     (n + of_nat k, if 0 < k \<and> unat n + k > unat lim \<and> killed s \<le> ABORT_QUERY then s\<lparr>killed := ABORT_QUERY\<rparr> else s)"
proof (induction k)
  case (Suc k)
  have n: "unat (n + of_nat k + 1) = unat n + Suc k"
    using Suc.prems by (simp add: unat_word_ariths unat_of_nat)
  then have "n + of_nat k + 1 > lim \<longleftrightarrow> unat n + Suc k > unat lim" by (simp add: word_less_nat_alt)
  then show ?case using Suc n
    by (auto simp: check_limit_rows_examined_def Let_def set_killed_def set_killed_no_mutex_def add.assoc add.commute)
qed simp

theorem rows_examined_limit:
  assumes "k < 2 ^ 64" "killed s \<le> ABORT_QUERY"
  shows "((check_limit_rows_examined lim) ^^ k) (0, s) =
    (of_nat k, if k > unat lim then s\<lparr>killed := ABORT_QUERY\<rparr> else s)"
  using rows_examined_limit_aux [of 0 k lim s] assms by simp

section \<open>Statement and row format\<close>

datatype binlog_event = Row_if_mixed | Force_row | Reset bool

definition binlog_step :: "enum_binlog_format \<Rightarrow> binlog_state \<Rightarrow> binlog_event \<Rightarrow> binlog_state" where
  "binlog_step forced b e = (case e of Row_if_mixed \<Rightarrow> set_current_stmt_binlog_format_row_if_mixed forced b
     | Force_row \<Rightarrow> set_current_stmt_binlog_format_row b
     | Reset temp \<Rightarrow> reset_current_stmt_binlog_format_row forced temp b)"

lemmas binlog_defs = binlog_step_def set_current_stmt_binlog_format_row_if_mixed_def set_current_stmt_binlog_format_row_def
  reset_current_stmt_binlog_format_row_def set_current_stmt_binlog_format_stmt_def

lemma binlog_step_keeps:
  "binlog_format (binlog_step f b e) = binlog_format b" "in_sub_stmt (binlog_step f b e) = in_sub_stmt b"
  by (cases e; simp add: binlog_defs)+

lemma binlog_steps_keep [simp]:
  "binlog_format (foldl (binlog_step f) b es) = binlog_format b" "in_sub_stmt (foldl (binlog_step f) b es) = in_sub_stmt b"
  by (induction es arbitrary: b) (simp_all add: binlog_step_keeps)

lemma binlog_step_valid:
  "current_stmt_binlog_format b \<in> {BINLOG_FORMAT_STMT, BINLOG_FORMAT_ROW} \<Longrightarrow>
     current_stmt_binlog_format (binlog_step f b e) \<in> {BINLOG_FORMAT_STMT, BINLOG_FORMAT_ROW}"
  by (cases e) (auto simp: binlog_defs)

lemma binlog_steps_valid:
  "current_stmt_binlog_format b \<in> {BINLOG_FORMAT_STMT, BINLOG_FORMAT_ROW} \<Longrightarrow>
     current_stmt_binlog_format (foldl (binlog_step f) b es) \<in> {BINLOG_FORMAT_STMT, BINLOG_FORMAT_ROW}"
proof (induction es arbitrary: b)
  case (Cons e es)
  from Cons.IH [OF binlog_step_valid [OF Cons.prems]] show ?case by simp
qed simp

lemma binlog_sub_stmt: "in_sub_stmt b \<noteq> 0 \<Longrightarrow> Force_row \<notin> set es \<Longrightarrow> foldl (binlog_step f) b es = b"
proof (induction es)
  case (Cons e es)
  then have "binlog_step f b e = b" by (cases e) (auto simp: binlog_defs)
  then show ?case using Cons by simp
qed simp

lemma binlog_row_sticks:
  "current_stmt_binlog_format b = BINLOG_FORMAT_ROW \<Longrightarrow> Reset False \<notin> set es \<Longrightarrow>
     current_stmt_binlog_format (foldl (binlog_step f) b es) = BINLOG_FORMAT_ROW"
proof (induction es arbitrary: b)
  case (Cons e es)
  then have "current_stmt_binlog_format (binlog_step f b e) = BINLOG_FORMAT_ROW" by (cases e) (auto simp: binlog_defs)
  then show ?case using Cons by simp
qed simp

text \<open>
  How the format of the current statement changes: it is always statement or row format, so the test of the format never
  fails; a stored function or trigger keeps the format it started with; row format stays while there are temporary
  tables; without them, the end of a statement brings back statement format unless the configured or
  enforced format is row.
\<close>

theorem binlog_format_rules:
  fixes b :: binlog_state and f :: enum_binlog_format and es :: "binlog_event list"
  assumes "current_stmt_binlog_format b \<in> {BINLOG_FORMAT_STMT, BINLOG_FORMAT_ROW}"
  defines "b' \<equiv> foldl (binlog_step f) b es"
  shows "is_current_stmt_binlog_format_row b' = Some (current_stmt_binlog_format b' = BINLOG_FORMAT_ROW) \<and>
    (in_sub_stmt b \<noteq> 0 \<and> Force_row \<notin> set es \<longrightarrow> b' = b) \<and>
    (current_stmt_binlog_format b = BINLOG_FORMAT_ROW \<and> Reset False \<notin> set es \<longrightarrow>
       current_stmt_binlog_format b' = BINLOG_FORMAT_ROW) \<and>
    (in_sub_stmt b = 0 \<longrightarrow> is_current_stmt_binlog_format_row (binlog_step f b' (Reset False)) =
       Some (wsrep_binlog_format f b = BINLOG_FORMAT_ROW))"
proof -
  have "current_stmt_binlog_format b' \<in> {BINLOG_FORMAT_STMT, BINLOG_FORMAT_ROW}"
    unfolding b'_def by (rule binlog_steps_valid [OF assms(1)])
  then have "is_current_stmt_binlog_format_row b' = Some (current_stmt_binlog_format b' = BINLOG_FORMAT_ROW)"
    by (auto simp: is_current_stmt_binlog_format_row_def)
  moreover have "in_sub_stmt b = 0 \<longrightarrow> is_current_stmt_binlog_format_row (binlog_step f b' (Reset False)) =
       Some (wsrep_binlog_format f b = BINLOG_FORMAT_ROW)"
    by (simp add: b'_def binlog_defs wsrep_binlog_format_def is_current_stmt_binlog_format_row_def)
  ultimately show ?thesis using binlog_sub_stmt [of b es f] binlog_row_sticks [of b es f] unfolding b'_def by blast
qed

text \<open>
  A scope of statement-based replication gives back the format it found, if the block inside ends in statement
  format; such scopes nest.
\<close>

definition ends_in_stmt :: "(binlog_state \<Rightarrow> binlog_state option) \<Rightarrow> bool" where
  "ends_in_stmt body \<longleftrightarrow> (\<forall>b. current_stmt_binlog_format b = BINLOG_FORMAT_STMT \<longrightarrow>
     (\<exists>b'. body b = Some b' \<and> current_stmt_binlog_format b' = BINLOG_FORMAT_STMT))"

definition scope :: "(binlog_state \<Rightarrow> binlog_state option) \<Rightarrow> binlog_state \<Rightarrow> binlog_state option" where
  "scope body b = do { r \<leftarrow> scoped_statement_replication body (Some b); r }"

theorem statement_replication_scope:
  assumes "ends_in_stmt body"
  shows "(\<exists>b'. scope body b = Some b' \<and> current_stmt_binlog_format b' = current_stmt_binlog_format b) \<and>
    ends_in_stmt (scope body)"
proof -
  have "\<exists>b'. scope body b = Some b' \<and> current_stmt_binlog_format b' = current_stmt_binlog_format b" for b
  proof -
    obtain b' where "body (b\<lparr>current_stmt_binlog_format := BINLOG_FORMAT_STMT\<rparr>) = Some b'" "current_stmt_binlog_format b' = BINLOG_FORMAT_STMT"
      using assms [unfolded ends_in_stmt_def, rule_format, of "b\<lparr>current_stmt_binlog_format := BINLOG_FORMAT_STMT\<rparr>"] by auto
    then show ?thesis by (simp add: scope_def scoped_statement_replication_def set_current_stmt_binlog_format_stmt_def
          restore_stmt_binlog_format_def is_current_stmt_binlog_format_row_def)
  qed
  then show ?thesis unfolding ends_in_stmt_def by metis
qed

text \<open>
  Disabling the binary log for a block: the options come back as they were, but the flag that says that the
  session has switched the log off is cleared even if it was set before.
\<close>

theorem binlog_disabled_block:
  fixes v :: binlog_options and body :: "binlog_options \<Rightarrow> binlog_options"
  defines "v' \<equiv> (let (save, v1) = tmp_disable_binlog v in reenable_binlog save (body v1))"
  shows "is_current_stmt_binlog_disabled is_open (snd (tmp_disable_binlog v)) \<and>
    option_bits v' = option_bits v \<and> \<not> sql_log_bin_off v'"
proof -
  have "(option_bits v AND NOT OPTION_BIN_LOG) AND OPTION_BIN_LOG = 0" by (auto simp: bit_eq_iff bit_simps)
  then show ?thesis by (simp add: v'_def tmp_disable_binlog_def reenable_binlog_def is_current_stmt_binlog_disabled_def)
qed

section \<open>Identifiers and row counts\<close>

text \<open>What a statement does to the identifiers: it inserts rows, reads the last identifier, or sets it.\<close>

datatype id_event = Insert_id uint64 | Read_id | Set_prev uint64

definition id_step :: "insert_ids \<Rightarrow> id_event \<Rightarrow> insert_ids" where
  "id_step s e = (case e of Insert_id i \<Rightarrow> record_first_successful_insert_id_in_cur_stmt i s
     | Read_id \<Rightarrow> snd (read_first_successful_insert_id_in_prev_stmt s)
     | Set_prev v \<Rightarrow> s\<lparr>first_successful_insert_id_in_prev_stmt := v\<rparr>)"

fun inserted :: "id_event list \<Rightarrow> uint64 list" where
  "inserted [] = []"
| "inserted (Insert_id i # es) = i # inserted es"
| "inserted (_ # es) = inserted es"

definition first_nonzero :: "uint64 list \<Rightarrow> uint64" where
  "first_nonzero ids = (case dropWhile (\<lambda>i. i = 0) ids of [] \<Rightarrow> 0 | i # _ \<Rightarrow> i)"

lemmas id_defs = id_step_def record_first_successful_insert_id_in_cur_stmt_def
  read_first_successful_insert_id_in_prev_stmt_def Let_def

lemma first_insert_id:
  "first_successful_insert_id_in_cur_stmt (foldl id_step s es) =
     (if first_successful_insert_id_in_cur_stmt s = 0 then first_nonzero (inserted es) else first_successful_insert_id_in_cur_stmt s)"
proof (induction es arbitrary: s)
  case (Cons e es)
  then show ?case by (cases e) (auto simp: id_defs first_nonzero_def)
qed (simp add: first_nonzero_def)

lemma binlog_id_frozen:
  "stmt_depends_on_first_successful_insert_id_in_prev_stmt s \<Longrightarrow>
     stmt_depends_on_first_successful_insert_id_in_prev_stmt (foldl id_step s es) \<and>
     first_successful_insert_id_in_prev_stmt_for_binlog (foldl id_step s es) = first_successful_insert_id_in_prev_stmt_for_binlog s"
proof (induction es arbitrary: s)
  case (Cons e es)
  have "stmt_depends_on_first_successful_insert_id_in_prev_stmt (id_step s e)"
    "first_successful_insert_id_in_prev_stmt_for_binlog (id_step s e) = first_successful_insert_id_in_prev_stmt_for_binlog s"
    using Cons.prems by (cases e; simp add: id_defs)+
  then show ?case using Cons.IH [of "id_step s e"] by simp
qed simp

lemma prev_id_before_read:
  "Read_id \<notin> set es \<Longrightarrow> stmt_depends_on_first_successful_insert_id_in_prev_stmt (foldl id_step s es) =
     stmt_depends_on_first_successful_insert_id_in_prev_stmt s"
proof (induction es arbitrary: s)
  case (Cons e es)
  have "stmt_depends_on_first_successful_insert_id_in_prev_stmt (id_step s e) = stmt_depends_on_first_successful_insert_id_in_prev_stmt s"
    using Cons.prems by (cases e) (simp_all add: id_defs)
  then show ?case using Cons.IH [of "id_step s e"] Cons.prems by simp
qed simp

text \<open>
  The identifiers of a statement: the one reported is the first non-zero one it generated; the one that
  goes to the binary log is the value at the first read, whatever the statement does afterwards.
\<close>

theorem generated_ids:
  assumes "first_successful_insert_id_in_cur_stmt s = 0" "\<not> stmt_depends_on_first_successful_insert_id_in_prev_stmt s"
    and "Read_id \<notin> set es"
  shows "first_successful_insert_id_in_cur_stmt (foldl id_step s us) = first_nonzero (inserted us) \<and>
    first_successful_insert_id_in_prev_stmt_for_binlog (foldl id_step s (es @ Read_id # fs)) =
      fst (read_first_successful_insert_id_in_prev_stmt (foldl id_step s es))"
proof -
  let ?t = "foldl id_step s es"
  have "\<not> stmt_depends_on_first_successful_insert_id_in_prev_stmt ?t" using prev_id_before_read assms(2,3) by simp
  then have "stmt_depends_on_first_successful_insert_id_in_prev_stmt (id_step ?t Read_id)"
    "first_successful_insert_id_in_prev_stmt_for_binlog (id_step ?t Read_id) = fst (read_first_successful_insert_id_in_prev_stmt ?t)"
    by (simp_all add: id_defs)
  then show ?thesis using binlog_id_frozen [of "id_step ?t Read_id" fs] first_insert_id [of s us] assms(1) by simp
qed

datatype end_event = Ok uint64 | Eof

definition end_step :: "row_counts \<Rightarrow> end_event \<Rightarrow> row_counts" where
  "end_step s e = (case e of Ok n \<Rightarrow> my_ok n s | Eof \<Rightarrow> my_eof s)"

definition rows_of :: "end_event \<Rightarrow> nat" where
  "rows_of e = (case e of Ok n \<Rightarrow> unat n | Eof \<Rightarrow> 0)"

lemma my_ok_rows: "unat n < 2 ^ 63 \<Longrightarrow> affected_rows (my_ok n s) = affected_rows s + n"
  using sint_nonneg [of n] by (simp add: my_ok_def set_affected_rows_def set_row_count_func_def)

lemma end_steps_rows:
  "\<forall>n. Ok n \<in> set es \<longrightarrow> unat n < 2 ^ 63 \<Longrightarrow>
     affected_rows (foldl end_step s es) = affected_rows s + of_nat (sum_list (map rows_of es))"
proof (induction es arbitrary: s)
  case (Cons e es)
  have "affected_rows (end_step s e) = affected_rows s + of_nat (rows_of e)"
    using Cons.prems by (cases e) (simp_all add: end_step_def rows_of_def my_ok_rows my_eof_def set_row_count_func_def)
  then show ?case using Cons.IH [of "end_step s e"] Cons.prems by (simp add: add.assoc)
qed simp

text \<open>
  The counts behind \<open>ROW_COUNT()\<close> and the slow query log: the former is that of the last statement, \<open>-1\<close> after a result set;
  the latter adds up the rows of all statements.
\<close>

theorem row_counts_add_up:
  assumes "\<forall>n. Ok n \<in> set es \<longrightarrow> unat n < 2 ^ 63" "sum_list (map rows_of es) < 2 ^ 64" "affected_rows s = 0"
  shows "unat (affected_rows (foldl end_step s es)) = sum_list (map rows_of es) \<and>
    m_row_count_func (foldl end_step s (es @ [Ok k])) = k \<and> sint (m_row_count_func (foldl end_step s (es @ [Eof]))) = - 1"
  using end_steps_rows [OF assms(1), of s] assms(2,3)
  by (simp add: unat_of_nat end_step_def my_ok_def my_eof_def set_affected_rows_def set_row_count_func_def)

section \<open>Scopes and the timer\<close>

text \<open>
  Evaluating an expression for a stored routine: inside, warnings abort exactly in strict mode; afterwards the checks of the
  surrounding statement are back, whatever the expression did to them.
\<close>

theorem sp_eval_scope:
  fixes s :: check_state and body :: "check_state \<Rightarrow> check_state"
  shows "really_abort_on_warning (sp_eval_start s) = is_strict_mode (sql_mode s) \<and>
    count_cuted_fields (sp_eval_expr_scope body s) = count_cuted_fields s \<and>
    abort_on_warning (sp_eval_expr_scope body s) = abort_on_warning s \<and>
    stmt_modified_non_trans_table (sp_eval_expr_scope body s) = stmt_modified_non_trans_table s \<and>
    sql_mode (sql_mode_save_scope (sp_eval_expr_scope body) s) = sql_mode s"
  by (simp add: really_abort_on_warning_def sp_eval_start_def sp_eval_expr_scope_def sp_eval_stop_def sql_mode_save_scope_def)

text \<open>
  The query timer, over timer functions that arm and disarm it: a statement of a client arms it once, also if it
  executes a prepared statement that asks again, and leaves it disarmed; routines and replication threads never touch it.
\<close>

theorem query_timer_once:
  assumes "\<And>t k. \<not> expired (settime t k)" "\<And>t. expired (tend t)"
  shows "set_query_timer expired settime c (set_query_timer expired settime c t) = set_query_timer expired settime c t \<and>
    (spcont c = 0 \<and> sub_stmt c = 0 \<and> \<not> slave_thread c \<longrightarrow> expired (reset_query_timer expired tend c t)) \<and>
    (spcont c \<noteq> 0 \<or> sub_stmt c \<noteq> 0 \<or> slave_thread c \<longrightarrow>
       set_query_timer expired settime c t = t \<and> reset_query_timer expired tend c t = t)"
  using assms by (auto simp: set_query_timer_def reset_query_timer_def)

section \<open>Concrete cases\<close>

definition sample_kill :: kill_info where
  "sample_kill = \<lparr>killed = NOT_KILLED, killed_err = None, abort = False\<rparr>"

definition kill_with :: "killed_state \<Rightarrow> int \<Rightarrow> string \<Rightarrow> kill_request" where
  "kill_with k e msg = \<lparr>killed_arg = k, killed_errno_arg = e, killed_err_msg_arg = msg, alloc_ok = True\<rparr>"

theorem kill_levels_witness:
  "killed_err (kill_all [kill_with KILL_QUERY 0 [], kill_with KILL_CONNECTION 1927 ''bye'', kill_with KILL_QUERY 1317 ''x''] sample_kill) =
     Some \<lparr>err_no = 1927, err_msg = ''bye''\<rparr>"
  using kill_levels [of "[kill_with KILL_QUERY 0 []]" "kill_with KILL_CONNECTION 1927 ''bye''" sample_kill
      "[kill_with KILL_QUERY 1317 ''x'']" "[]" "\<lambda>s. s"]
  by (simp add: kill_with_def sample_kill_def KILL_QUERY_def KILL_CONNECTION_def NOT_KILLED_def)

theorem rows_examined_limit_witness:
  "((check_limit_rows_examined 2) ^^ 3) (0, sample_kill) = (3, sample_kill\<lparr>killed := ABORT_QUERY\<rparr>)"
  using rows_examined_limit [of 3 sample_kill 2] by (simp add: sample_kill_def NOT_KILLED_def ABORT_QUERY_def)

definition sample_binlog :: binlog_state where
  "sample_binlog = \<lparr>binlog_format = BINLOG_FORMAT_MIXED, current_stmt_binlog_format = BINLOG_FORMAT_STMT, in_sub_stmt = 0\<rparr>"

theorem binlog_format_rules_witness:
  "is_current_stmt_binlog_format_row (binlog_step BINLOG_FORMAT_UNSPEC
     (foldl (binlog_step BINLOG_FORMAT_UNSPEC) sample_binlog [Row_if_mixed, Reset True]) (Reset False)) = Some False"
  using binlog_format_rules [of sample_binlog BINLOG_FORMAT_UNSPEC "[Row_if_mixed, Reset True]"]
  by (simp add: sample_binlog_def wsrep_binlog_format_def WSREP_FORMAT_def)

theorem statement_replication_scope_witness:
  "\<exists>b'. scope Some (sample_binlog\<lparr>current_stmt_binlog_format := BINLOG_FORMAT_ROW\<rparr>) = Some b' \<and>
     current_stmt_binlog_format b' = BINLOG_FORMAT_ROW"
  using statement_replication_scope [of Some "sample_binlog\<lparr>current_stmt_binlog_format := BINLOG_FORMAT_ROW\<rparr>"]
  by (simp add: ends_in_stmt_def)

definition sample_ids :: insert_ids where
  "sample_ids = \<lparr>first_successful_insert_id_in_prev_stmt = 5, first_successful_insert_id_in_prev_stmt_for_binlog = 0,
     first_successful_insert_id_in_cur_stmt = 0, stmt_depends_on_first_successful_insert_id_in_prev_stmt = False\<rparr>"

theorem generated_ids_witness:
  "first_successful_insert_id_in_prev_stmt_for_binlog (foldl id_step sample_ids ([Insert_id 8] @ Read_id # [Set_prev 9, Read_id])) = 5"
  using generated_ids [of sample_ids "[Insert_id 8]" "[]" "[Set_prev 9, Read_id]"]
  by (simp add: sample_ids_def id_defs)

theorem row_counts_add_up_witness:
  "unat (affected_rows (foldl end_step \<lparr>m_row_count_func = 0, affected_rows = 0\<rparr> [Ok 2, Eof, Ok 3])) = 5"
  using row_counts_add_up [of "[Ok 2, Eof, Ok 3]" "\<lparr>m_row_count_func = 0, affected_rows = 0\<rparr>" 0]
  by (auto simp: rows_of_def)

theorem query_timer_once_witness:
  "reset_query_timer (\<lambda>t. t = (0 :: uint64)) (\<lambda>t. 0) \<lparr>spcont = 0, sub_stmt = 0, slave_thread = False, max_statement_time = 10\<rparr> 7 = 0"
  using query_timer_once [of "\<lambda>t. t = (0 :: uint64)" "\<lambda>t k. 1" "\<lambda>t. 0"
      "\<lparr>spcont = 0, sub_stmt = 0, slave_thread = False, max_statement_time = 10\<rparr>" 7] by simp

end
