(* ===== verification/CommitOrder.thy ===== *)
theory CommitOrder
  imports NodeHeap
begin

text \<open>
  Transactions that wait for the commit of another one (\<^verbatim>\<open>sql_class.h\<close>, \<open>struct wait_for_commit\<close>), and the prepared
  statements of a session (\<open>Statement_map\<close>).  A waiting transaction is an entry in the linked list of the one it waits for; its removal
  walks the list with a pointer to a pointer, modelled by the location that holds the pointer.
\<close>

section \<open>Waiting for a prior commit\<close>

record wait_for_commit =
  subsequent_commits_list :: ptr
  next_subsequent_commit :: ptr
  waitee :: ptr
  wakeup_error :: int

type_synonym wait_heap = "wait_for_commit node_heap"

datatype wait_loc = List_of ptr | Next_of ptr

fun loc_read :: "wait_heap \<Rightarrow> wait_loc \<Rightarrow> ptr option" where
  "loc_read h (List_of w) = do { n \<leftarrow> read_node h w; Some (subsequent_commits_list n) }"
| "loc_read h (Next_of c) = do { n \<leftarrow> read_node h c; Some (next_subsequent_commit n) }"

fun loc_write :: "wait_heap \<Rightarrow> wait_loc \<Rightarrow> ptr \<Rightarrow> wait_heap option" where
  "loc_write h (List_of w) p = write_node h w (\<lambda>n. n\<lparr>subsequent_commits_list := p\<rparr>)"
| "loc_write h (Next_of c) p = write_node h c (\<lambda>n. n\<lparr>next_subsequent_commit := p\<rparr>)"

partial_function (option) remove_loop :: "wait_heap \<Rightarrow> ptr \<Rightarrow> wait_loc \<Rightarrow> wait_heap option" where
  "remove_loop h this next_ptr_ptr =
     do { cur \<leftarrow> loc_read h next_ptr_ptr;
          if cur \<noteq> 0
          then if cur = this
               then do { n \<leftarrow> read_node h this; loc_write h next_ptr_ptr (next_subsequent_commit n) }
               else remove_loop h this (Next_of cur)
          else Some h }"

declare remove_loop.simps [code]

definition remove_from_list :: "wait_heap \<Rightarrow> ptr \<Rightarrow> wait_loc \<Rightarrow> wait_heap option" where
  "remove_from_list h this next_ptr_ptr =
     do { h1 \<leftarrow> remove_loop h this next_ptr_ptr; write_node h1 this (\<lambda>n. n\<lparr>waitee := 0\<rparr>) }"

text \<open>
  The inline checks in front of the functions that wait, wake up and unregister, which are arguments; the error raised
  comes with the result.
\<close>

definition ER_PRIOR_COMMIT_FAILED :: uint32 where "ER_PRIOR_COMMIT_FAILED = 1964"

definition wait_for_prior_commit ::
  "(wait_heap \<Rightarrow> ptr \<Rightarrow> (int \<times> uint32 option) option) \<Rightarrow> wait_heap \<Rightarrow> ptr \<Rightarrow> (int \<times> uint32 option) option" where
  "wait_for_prior_commit wait_for_prior_commit2 h this =
     do { n \<leftarrow> read_node h this;
          if waitee n \<noteq> 0 then wait_for_prior_commit2 h this
          else Some (wakeup_error n, if wakeup_error n \<noteq> 0 then Some ER_PRIOR_COMMIT_FAILED else None) }"

definition wakeup_subsequent_commits ::
  "(wait_heap \<Rightarrow> ptr \<Rightarrow> int \<Rightarrow> wait_heap option) \<Rightarrow> wait_heap \<Rightarrow> ptr \<Rightarrow> int \<Rightarrow> wait_heap option" where
  "wakeup_subsequent_commits wakeup_subsequent_commits2 h this wakeup_error_arg =
     do { n \<leftarrow> read_node h this;
          if subsequent_commits_list n \<noteq> 0 then wakeup_subsequent_commits2 h this wakeup_error_arg else Some h }"

definition unregister_wait_for_prior_commit ::
  "(wait_heap \<Rightarrow> ptr \<Rightarrow> wait_heap option) \<Rightarrow> wait_heap \<Rightarrow> ptr \<Rightarrow> wait_heap option" where
  "unregister_wait_for_prior_commit unregister2 h this =
     do { n \<leftarrow> read_node h this;
          if waitee n \<noteq> 0 then unregister2 h this else write_node h this (\<lambda>n. n\<lparr>wakeup_error := 0\<rparr>) }"

text \<open>The session's side; the session holds a pointer to its entry, or none.\<close>

definition thd_wait_for_prior_commit ::
  "(wait_heap \<Rightarrow> ptr \<Rightarrow> (int \<times> uint32 option) option) \<Rightarrow> wait_heap \<Rightarrow> ptr \<Rightarrow> (int \<times> uint32 option) option" where
  "thd_wait_for_prior_commit wait2 h wait_for_commit_ptr =
     (if wait_for_commit_ptr \<noteq> 0 then wait_for_prior_commit wait2 h wait_for_commit_ptr else Some (0, None))"

definition thd_wakeup_subsequent_commits ::
  "(wait_heap \<Rightarrow> ptr \<Rightarrow> int \<Rightarrow> wait_heap option) \<Rightarrow> wait_heap \<Rightarrow> ptr \<Rightarrow> int \<Rightarrow> wait_heap option" where
  "thd_wakeup_subsequent_commits wakeup2 h wait_for_commit_ptr e =
     (if wait_for_commit_ptr \<noteq> 0 then wakeup_subsequent_commits wakeup2 h wait_for_commit_ptr e else Some h)"

definition suspend_subsequent_commits :: "ptr \<Rightarrow> ptr \<times> ptr" where
  "suspend_subsequent_commits wait_for_commit_ptr = (wait_for_commit_ptr, 0)"

definition resume_subsequent_commits :: "ptr \<Rightarrow> ptr \<Rightarrow> ptr option" where
  "resume_subsequent_commits suspended wait_for_commit_ptr = do { DBUG_ASSERT (wait_for_commit_ptr = 0); Some suspended }"

section \<open>Prepared statements of a session\<close>

record Statement =
  st_id :: ulong
  st_name :: ptr

text \<open>\<open>st_hash\<close> is the search by number in the hash table, with the null pointer for a number it does not hold.\<close>

definition statement_find :: "Statement node_heap \<Rightarrow> (ulong \<Rightarrow> ptr) \<Rightarrow> ptr \<Rightarrow> ulong \<Rightarrow> (ptr \<times> ptr) option" where
  "statement_find h st_hash last_found_statement id_arg =
     do { miss \<leftarrow> (if last_found_statement = 0 then Some True
                    else do { s \<leftarrow> read_node h last_found_statement; Some (id_arg \<noteq> st_id s) });
          if miss
          then let stmt = st_hash id_arg
               in do { named \<leftarrow> (if stmt = 0 then Some False else do { s \<leftarrow> read_node h stmt; Some (st_name s \<noteq> 0) });
                       Some (if named then (0, last_found_statement) else (stmt, stmt)) }
          else Some (last_found_statement, last_found_statement) }"

section \<open>Removing a waiter\<close>

definition loc_node :: "wait_loc \<Rightarrow> ptr" where
  "loc_node l = (case l of List_of w \<Rightarrow> w | Next_of c \<Rightarrow> c)"

abbreviation wait_chain :: "wait_heap \<Rightarrow> ptr \<Rightarrow> ptr list \<Rightarrow> bool" where
  "wait_chain \<equiv> chain next_subsequent_commit"

text \<open>The location is a live one outside the rest of the list.\<close>

definition loc_ok :: "wait_heap \<Rightarrow> wait_loc \<Rightarrow> ptr list \<Rightarrow> bool" where
  "loc_ok h l ps \<longleftrightarrow> loc_node l \<noteq> 0 \<and> loc_node l \<in> dom h \<and> loc_node l \<notin> set ps"

lemma loc_read_ok: "loc_ok h l ps \<Longrightarrow> \<exists>p. loc_read h l = Some p"
  by (cases l) (auto simp: loc_ok_def loc_node_def)

lemma loc_write_ok:
  assumes "loc_ok h l ps" "wait_chain h p ps"
  shows "\<exists>h'. loc_write h l p = Some h' \<and> loc_read h' l = Some p \<and> wait_chain h' p ps \<and> dom h' = dom h \<and>
    (\<forall>q. q \<noteq> loc_node l \<longrightarrow> h' q = h q) \<and> (\<forall>q n'. h' q = Some n' \<longrightarrow> (\<exists>n. h q = Some n \<and> waitee n' = waitee n))"
proof (cases l)
  case (List_of w)
  then obtain n where n: "w \<noteq> 0" "h w = Some n" using assms(1) by (auto simp: loc_ok_def loc_node_def)
  then have "wait_chain (h(w \<mapsto> n\<lparr>subsequent_commits_list := p\<rparr>)) p ps"
    using chain_same_next [of h w n next_subsequent_commit "n\<lparr>subsequent_commits_list := p\<rparr>"] assms(2) by simp
  then show ?thesis using n List_of by (auto simp: loc_node_def)
next
  case (Next_of c)
  then obtain n where n: "c \<noteq> 0" "h c = Some n" "c \<notin> set ps" using assms(1) by (auto simp: loc_ok_def loc_node_def)
  then have "wait_chain (h(c \<mapsto> n\<lparr>next_subsequent_commit := p\<rparr>)) p ps"
    using chain_upd [of c ps next_subsequent_commit h] assms(2) by simp
  then show ?thesis using n Next_of by (auto simp: loc_node_def)
qed

lemma remove_loop_chain:
  assumes "loc_ok h l ps" "loc_read h l = Some p" "wait_chain h p ps" "distinct ps"
  shows "\<exists>h' p'. remove_loop h this l = Some h' \<and> loc_read h' l = Some p' \<and> wait_chain h' p' (remove1 this ps) \<and>
    dom h' = dom h \<and> (\<forall>q. q \<notin> set ps \<longrightarrow> q \<noteq> loc_node l \<longrightarrow> h' q = h q) \<and>
    (\<forall>q n'. h' q = Some n' \<longrightarrow> (\<exists>n. h q = Some n \<and> waitee n' = waitee n))"
  using assms
proof (induction ps arbitrary: l p)
  case Nil
  then show ?case by (subst remove_loop.simps) auto
next
  case (Cons a ps)
  obtain n where a: "p = a" "a \<noteq> 0" "h a = Some n" "wait_chain h (next_subsequent_commit n) ps" using Cons.prems(3) by auto
  show ?case
  proof (cases "a = this")
    case True
    have "loc_ok h l ps" using Cons.prems(1) by (auto simp: loc_ok_def)
    from loc_write_ok [OF this a(4)] show ?thesis using True a Cons.prems(2) by (subst remove_loop.simps) auto
  next
    case False
    have "loc_ok h (Next_of a) ps" using a Cons.prems(4) by (auto simp: loc_ok_def loc_node_def)
    from Cons.IH [OF this _ a(4)] obtain h' p' where IH: "remove_loop h this (Next_of a) = Some h'"
      "loc_read h' (Next_of a) = Some p'" "wait_chain h' p' (remove1 this ps)" "dom h' = dom h"
      "\<forall>q. q \<notin> set ps \<longrightarrow> q \<noteq> a \<longrightarrow> h' q = h q"
      "\<forall>q n'. h' q = Some n' \<longrightarrow> (\<exists>n. h q = Some n \<and> waitee n' = waitee n)"
      using a(2,3) Cons.prems(4) by (auto simp: loc_node_def)
    have "h' (loc_node l) = h (loc_node l)" using IH(5) Cons.prems(1) by (auto simp: loc_ok_def)
    then have "loc_read h' l = Some a" using Cons.prems(2) a(1) by (cases l) (auto simp: loc_node_def read_node_def split: if_splits)
    moreover have "wait_chain h' a (a # remove1 this ps)"
      using IH(2,3) a(2) by (cases "h' a") (auto simp: read_node_def)
    moreover have "remove_loop h this l = Some h'" using IH(1) Cons.prems(2) a(1,2) False by (subst remove_loop.simps) simp
    ultimately show ?thesis using IH False by auto
  qed
qed

text \<open>
  C22: A waiter that unregisters: the walk ends, the list of the transaction it waited for loses exactly this
  entry and keeps the order of the others, the waiter waits for nobody any more, and what the others wait for stays the
  same.
\<close>

theorem waiter_removed:
  assumes "h w = Some nw" "w \<noteq> 0" "wait_chain h (subsequent_commits_list nw) ps" "distinct ps" "w \<notin> set ps"
    and "this \<in> dom h" "this \<noteq> 0"
  shows "\<exists>h' nw'. remove_from_list h this (List_of w) = Some h' \<and> h' w = Some nw' \<and>
    wait_chain h' (subsequent_commits_list nw') (remove1 this ps) \<and>
    (\<forall>q n'. h' q = Some n' \<longrightarrow> (\<exists>n. h q = Some n \<and> waitee n' = (if q = this then 0 else waitee n)))"
proof -
  have "loc_ok h (List_of w) ps" using assms by (auto simp: loc_ok_def loc_node_def)
  from remove_loop_chain [OF this _ assms(3,4), of this] assms(1,2) obtain h1 p' where h1:
    "remove_loop h this (List_of w) = Some h1" "loc_read h1 (List_of w) = Some p'" "wait_chain h1 p' (remove1 this ps)"
    "dom h1 = dom h" "\<forall>q n'. h1 q = Some n' \<longrightarrow> (\<exists>n. h q = Some n \<and> waitee n' = waitee n)" by auto
  obtain nw1 where w1: "h1 w = Some nw1" "subsequent_commits_list nw1 = p'"
    using h1(2) assms(2) by (cases "h1 w") (auto simp: read_node_def)
  obtain nt where t: "h1 this = Some nt" using h1(4) assms(6) by auto
  let ?h = "h1(this \<mapsto> nt\<lparr>waitee := 0\<rparr>)"
  have "remove_from_list h this (List_of w) = Some ?h" using h1(1) t assms(7) by (simp add: remove_from_list_def)
  moreover have "wait_chain ?h p' (remove1 this ps)"
    using h1(3) chain_same_next [of h1 this nt next_subsequent_commit "nt\<lparr>waitee := 0\<rparr>"] t by simp
  moreover have "\<exists>nw'. ?h w = Some nw' \<and> subsequent_commits_list nw' = p'" using w1 t by auto
  moreover have "\<forall>q n'. ?h q = Some n' \<longrightarrow> (\<exists>n. h q = Some n \<and> waitee n' = (if q = this then 0 else waitee n))"
    using h1(4,5) assms(6) by auto
  ultimately show ?thesis by metis
qed

section \<open>Finding a statement\<close>

text \<open>What the hash table of the statements promises: it finds statements by their number.\<close>

definition hash_ok :: "Statement node_heap \<Rightarrow> (ulong \<Rightarrow> ptr) \<Rightarrow> bool" where
  "hash_ok h st_hash \<longleftrightarrow> (\<forall>i. st_hash i \<noteq> 0 \<longrightarrow> (\<exists>s. h (st_hash i) = Some s \<and> st_id s = i))"

text \<open>The statement found last is still in the table and has no name.\<close>

definition cache_ok :: "Statement node_heap \<Rightarrow> (ulong \<Rightarrow> ptr) \<Rightarrow> ptr \<Rightarrow> bool" where
  "cache_ok h st_hash lst \<longleftrightarrow> lst = 0 \<or> (\<exists>s. h lst = Some s \<and> st_hash (st_id s) = lst \<and> st_name s = 0)"

definition plain_find :: "Statement node_heap \<Rightarrow> (ulong \<Rightarrow> ptr) \<Rightarrow> ulong \<Rightarrow> ptr" where
  "plain_find h st_hash i = (case h (st_hash i) of Some s \<Rightarrow> if st_name s = 0 then st_hash i else 0 | None \<Rightarrow> 0)"

text \<open>A sequence of searches, each starting from what the one before remembers.\<close>

primrec find_all :: "Statement node_heap \<Rightarrow> (ulong \<Rightarrow> ptr) \<Rightarrow> ptr \<Rightarrow> ulong list \<Rightarrow> ptr list option" where
  "find_all h st_hash lst [] = Some []"
| "find_all h st_hash lst (i # is) =
     do { (r, lst') \<leftarrow> statement_find h st_hash lst i; rs \<leftarrow> find_all h st_hash lst' is; Some (r # rs) }"

lemma statement_find_plain:
  assumes "hash_ok h st_hash" "cache_ok h st_hash lst" "h 0 = None"
  shows "\<exists>lst'. statement_find h st_hash lst i = Some (plain_find h st_hash i, lst') \<and> cache_ok h st_hash lst'"
proof -
  have hash: "st_hash i = 0 \<or> (\<exists>s. h (st_hash i) = Some s \<and> st_id s = i)" using assms(1) by (auto simp: hash_ok_def)
  show ?thesis
  proof (cases "lst \<noteq> 0 \<and> (\<exists>s. h lst = Some s \<and> st_id s = i)")
    case True
    then show ?thesis using assms(2) by (auto simp: cache_ok_def statement_find_def plain_find_def)
  next
    case False
    then have miss: "(if lst = 0 then Some True else do { s \<leftarrow> read_node h lst; Some (i \<noteq> st_id s) }) = Some True"
      using assms(2) by (auto simp: cache_ok_def)
    show ?thesis
    proof (cases "st_hash i = 0")
      case True
      then show ?thesis using assms(3) by (simp add: statement_find_def miss plain_find_def cache_ok_def)
    next
      case False
      then obtain s where "h (st_hash i) = Some s" "st_id s = i" using hash by auto
      then show ?thesis using False assms(2)
        by (cases "st_name s = 0") (auto simp: statement_find_def miss plain_find_def cache_ok_def Let_def)
    qed
  qed
qed

text \<open>
  Finding statements by number: the statement remembered from the last search does not change the answer, which
  is the statement of that number unless it has a name; every search keeps the memory valid, so a whole sequence
  of searches answers as the table does.
\<close>

theorem statements_found:
  assumes "hash_ok h st_hash" "cache_ok h st_hash lst" "h 0 = None"
  shows "find_all h st_hash lst is = Some (map (plain_find h st_hash) is)"
  using assms(2)
proof (induction "is" arbitrary: lst)
  case (Cons i "is")
  then show ?case using statement_find_plain [OF assms(1) Cons.prems assms(3), of i] by auto
qed simp

section \<open>Concrete cases\<close>

definition sample_wait :: "ptr \<Rightarrow> ptr \<Rightarrow> ptr \<Rightarrow> wait_for_commit" where
  "sample_wait l n w = \<lparr>subsequent_commits_list = l, next_subsequent_commit = n, waitee = w, wakeup_error = 0\<rparr>"

definition sample_waits :: wait_heap where
  "sample_waits = [1 \<mapsto> sample_wait 2 0 0, 2 \<mapsto> sample_wait 0 3 1, 3 \<mapsto> sample_wait 0 4 1, 4 \<mapsto> sample_wait 0 0 1]"

theorem waiter_removed_witness:
  "\<exists>h' nw'. remove_from_list sample_waits 3 (List_of 1) = Some h' \<and> h' 1 = Some nw' \<and>
     chain next_subsequent_commit h' (subsequent_commits_list nw') [2, 4]"
  using waiter_removed [of sample_waits 1 "sample_wait 2 0 0" "[2, 3, 4]" 3]
  by (auto simp: sample_waits_def sample_wait_def)

definition sample_stmts :: "Statement node_heap" where
  "sample_stmts = [10 \<mapsto> \<lparr>st_id = 1, st_name = 0\<rparr>, 20 \<mapsto> \<lparr>st_id = 2, st_name = 99\<rparr>]"

definition sample_hash :: "ulong \<Rightarrow> ptr" where
  "sample_hash i = (if i = 1 then 10 else if i = 2 then 20 else 0)"

theorem statements_found_witness:
  "find_all sample_stmts sample_hash 0 [1, 1, 2, 3] = Some [10, 10, 0, 0]"
  using statements_found [of sample_stmts sample_hash 0 "[1, 1, 2, 3]"]
  by (auto simp: sample_stmts_def sample_hash_def hash_ok_def cache_ok_def plain_find_def)

end
