(* ===== verification/Identifiers.thy ===== *)
theory Identifiers
  imports Prelude
begin

text \<open>
  Strings the session makes for the parser (\<^verbatim>\<open>sql_class.h\<close>, class \<open>THD\<close>): identifiers without their doubled quotes, copies
  with a terminating zero, and the current database.  Strings are bytes in memory; the address that the allocator returns, the null
  pointer when it fails, is an argument.  The loop of \<open>quote_unescape\<close> ends because each round moves the reading position forward.
\<close>

record LEX_CSTRING =
  lex_str :: ptr
  lex_length :: nat

section \<open>Quotes\<close>

function quote_loop :: "mem \<Rightarrow> ptr \<Rightarrow> ptr \<Rightarrow> ptr \<Rightarrow> uchar \<Rightarrow> mem \<times> ptr" where
  "quote_loop m tmp tmpend to quote =
     (if tmp < tmpend
      then let c = m tmp; m1 = m(to := c)
           in if c = quote then quote_loop m1 (tmp + 1 + 1) tmpend (to + 1) quote
              else quote_loop m1 (tmp + 1) tmpend (to + 1) quote
      else (m, to))"
  by pat_completeness auto
termination by (relation "measure (\<lambda>(m, tmp, tmpend, to, quote). tmpend - tmp)") auto

declare quote_loop.simps [simp del]

text \<open>The result: whether memory ran out, the memory and the string.\<close>

definition quote_unescape :: "mem \<Rightarrow> ptr \<Rightarrow> LEX_CSTRING \<Rightarrow> uchar \<Rightarrow> bool \<times> mem \<times> LEX_CSTRING" where
  "quote_unescape m alloc src quote =
     (if alloc = 0 then (True, m, \<lparr>lex_str = 0, lex_length = 0\<rparr>)
      else let (m1, to) = quote_loop m (lex_str src) (lex_str src + lex_length src) alloc quote
           in (False, m1(to := 0), \<lparr>lex_str = alloc, lex_length = to - alloc\<rparr>))"

section \<open>Copies\<close>

text \<open>\<open>make_clex_string\<close>: the descriptor of 16 bytes and the characters behind it are allocated together.\<close>

definition make_clex_string :: "mem \<Rightarrow> ptr \<Rightarrow> ptr \<Rightarrow> nat \<Rightarrow> mem \<times> LEX_CSTRING option" where
  "make_clex_string m alloc str len =
     (if alloc = 0 then (m, None)
      else let tmp = alloc + 16; m1 = put_bytes m tmp (bytes_at m str len)
           in (m1(tmp + len := 0), Some \<lparr>lex_str = tmp, lex_length = len\<rparr>))"

text \<open>The function \<open>strmake_root\<close> of the memory library is an argument: it returns the memory and the address of the copy, or null.\<close>

type_synonym strmake = "mem \<Rightarrow> ptr \<Rightarrow> nat \<Rightarrow> mem \<times> ptr"

definition make_lex_string :: "strmake \<Rightarrow> mem \<Rightarrow> ptr \<Rightarrow> nat \<Rightarrow> mem \<times> bool \<times> LEX_CSTRING" where
  "make_lex_string strmake_root m str len =
     (let (m1, s) = strmake_root m str len
      in if s = 0 then (m1, False, \<lparr>lex_str = 0, lex_length = 0\<rparr>) else (m1, True, \<lparr>lex_str = s, lex_length = len\<rparr>))"

datatype db_result = No_db_error | Db_copied bool LEX_CSTRING

definition copy_db_to :: "strmake \<Rightarrow> mem \<Rightarrow> LEX_CSTRING \<Rightarrow> bool \<Rightarrow> mem \<times> db_result" where
  "copy_db_to strmake_root m db with_clauses =
     (if lex_str db = 0
      then if \<not> with_clauses then (m, No_db_error) else (m, Db_copied False \<lparr>lex_str = 0, lex_length = 0\<rparr>)
      else let (m1, s) = strmake_root m (lex_str db) (lex_length db)
           in (m1, Db_copied (s = 0) \<lparr>lex_str = s, lex_length = lex_length db\<rparr>))"

section \<open>Removing doubled quotes\<close>

fun unescape :: "uchar \<Rightarrow> uchar list \<Rightarrow> uchar list" where
  "unescape q [] = []"
| "unescape q [c] = [c]"
| "unescape q (c # d # cs) = (if c = q then c # unescape q cs else c # unescape q (d # cs))"

definition double_quotes :: "uchar \<Rightarrow> uchar list \<Rightarrow> uchar list" where
  "double_quotes q cs = concat (map (\<lambda>c. if c = q then [q, q] else [c]) cs)"

lemma unescape_Cons: "unescape q (c # cs) = c # unescape q (if c = q then drop 1 cs else cs)"
  by (cases cs) simp_all

lemma unescape_double: "unescape q (double_quotes q cs) = cs"
  by (induction cs) (simp_all add: double_quotes_def unescape_Cons)

lemma length_unescape: "length (unescape q cs) \<le> length cs"
  by (induction q cs rule: unescape.induct) auto

lemma quote_loop_unescape:
  "bytes_at m tmp n = cs \<Longrightarrow> to + n < tmp \<or> tmp + n \<le> to \<Longrightarrow>
     quote_loop m tmp (tmp + n) to q = (put_bytes m to (unescape q cs), to + length (unescape q cs))"
proof (induction q cs arbitrary: m tmp n to rule: unescape.induct)
  case (1 q)
  then have "n = 0" by (metis length_bytes_at list.size(3))
  then show ?case by (subst quote_loop.simps) simp
next
  case (2 q c)
  then have n: "n = 1" by (metis One_nat_def length_Cons length_bytes_at list.size(3))
  then have "m tmp = c" using "2.prems" by (simp add: bytes_at_Suc)
  then show ?case using n by (subst quote_loop.simps, subst quote_loop.simps) (simp add: Let_def quote_loop.simps)
next
  case (3 q c d cs)
  then have "length (c # d # cs) = n" by (metis length_bytes_at)
  then obtain k where n: "n = Suc (Suc k)" "k = length cs" by auto
  have b: "m tmp = c" "m (Suc tmp) = d" "bytes_at m (tmp + 2) k = cs" "bytes_at m (tmp + 1) (Suc k) = d # cs"
    using "3.prems"(1) n by (simp_all add: bytes_at_Suc)
  define m1 where "m1 = m(to := c)"
  have upd: "bytes_at m1 (tmp + j) i = bytes_at m (tmp + j) i" if "j + i \<le> n" for i j
    using bytes_at_put_other [of "tmp + j" i to "[c]" m] "3.prems"(2) that by (auto simp: m1_def)
  show ?case
  proof (cases "c = q")
    case True
    have "quote_loop m1 (tmp + 2) (tmp + 2 + k) (to + 1) q =
        (put_bytes m1 (to + 1) (unescape q cs), to + 1 + length (unescape q cs))"
      using "3.IH"(1) [OF True, of m1 "tmp + 2" k "to + 1"] b(3) upd [of 2 k] "3.prems"(2) n by simp linarith
    then show ?thesis using True b(1) n by (subst quote_loop.simps) (simp add: Let_def m1_def)
  next
    case False
    have "quote_loop m1 (tmp + 1) (tmp + 1 + Suc k) (to + 1) q =
        (put_bytes m1 (to + 1) (unescape q (d # cs)), to + 1 + length (unescape q (d # cs)))"
      using "3.IH"(2) [OF False, of m1 "tmp + 1" "Suc k" "to + 1"] b(4) upd [of 1 "Suc k"] "3.prems"(2) n by simp linarith
    then show ?thesis using False b(1) n by (subst quote_loop.simps) (simp add: Let_def m1_def)
  qed
qed

lemma quote_unescape_result:
  fixes src :: LEX_CSTRING and m :: mem and q :: uchar
  assumes "alloc \<noteq> 0" "alloc + lex_length src < lex_str src \<or> lex_str src + lex_length src \<le> alloc"
  defines "cs \<equiv> unescape q (bytes_at m (lex_str src) (lex_length src))"
  shows "quote_unescape m alloc src q =
    (False, (put_bytes m alloc cs)(alloc + length cs := 0), \<lparr>lex_str = alloc, lex_length = length cs\<rparr>)"
  using quote_loop_unescape [of m "lex_str src" "lex_length src" _ alloc q] assms by (simp add: quote_unescape_def)

text \<open>
  C24: An identifier in quotes: an identifier whose quotes the client has doubled comes back as it was, terminated by a
  zero; the copy writes at most one byte more than the source has, only inside the memory allocated for it; when the
  allocation fails nothing is written and the empty string is returned.
\<close>

theorem quoted_identifier:
  fixes src :: LEX_CSTRING and m :: mem
  assumes "alloc \<noteq> 0" "alloc + lex_length src < lex_str src \<or> lex_str src + lex_length src \<le> alloc"
    and "bytes_at m (lex_str src) (lex_length src) = double_quotes q name"
  shows "\<exists>m'. quote_unescape m alloc src q = (False, m', \<lparr>lex_str = alloc, lex_length = length name\<rparr>) \<and>
    bytes_at m' alloc (length name) = name \<and> m' (alloc + length name) = 0 \<and> length name \<le> lex_length src \<and>
    (\<forall>a. a < alloc \<or> alloc + lex_length src < a \<longrightarrow> m' a = m a) \<and>
    quote_unescape m 0 src q = (True, m, \<lparr>lex_str = 0, lex_length = 0\<rparr>)"
proof -
  have le: "length name \<le> lex_length src"
    using length_unescape [of q "double_quotes q name"] assms(3) by (metis length_bytes_at unescape_double)
  let ?m = "(put_bytes m alloc name)(alloc + length name := 0)"
  have "quote_unescape m alloc src q = (False, ?m, \<lparr>lex_str = alloc, lex_length = length name\<rparr>)"
    using quote_unescape_result [OF assms(1,2), of m q] assms(3) by (simp add: unescape_double)
  moreover have "bytes_at ?m alloc (length name) = name"
    using bytes_at_put_other [of alloc "length name" "alloc + length name" "[0]" "put_bytes m alloc name"] by (simp add: bytes_at_put_same)
  moreover have "\<forall>a. a < alloc \<or> alloc + lex_length src < a \<longrightarrow> ?m a = m a" using le by (auto simp: put_bytes_outside)
  ultimately show ?thesis using le by (simp add: quote_unescape_def)
qed

text \<open>A copy with its descriptor: it has the same characters and a zero behind them, and the source is unchanged.\<close>

theorem clex_string_copied:
  assumes "alloc \<noteq> 0" "str + len \<le> alloc \<or> alloc + 16 + len < str"
  shows "\<exists>m'. make_clex_string m alloc str len = (m', Some \<lparr>lex_str = alloc + 16, lex_length = len\<rparr>) \<and>
    bytes_at m' (alloc + 16) len = bytes_at m str len \<and> m' (alloc + 16 + len) = 0 \<and> bytes_at m' str len = bytes_at m str len"
proof -
  define d where "d = alloc + 16"
  let ?m = "put_bytes m d (bytes_at m str len)"
  have "bytes_at (?m(d + len := 0)) d len = bytes_at m str len"
    using bytes_at_put_other [of d len "d + len" "[0]" ?m] by (simp add: bytes_at_put_same)
  moreover have "bytes_at (?m(d + len := 0)) str len = bytes_at m str len"
    using bytes_at_put_other [of str len "d + len" "[0]" ?m] bytes_at_put_other [of str len d "bytes_at m str len" m] assms(2)
    by (auto simp: d_def)
  ultimately show ?thesis using assms(1) by (simp add: make_clex_string_def Let_def d_def)
qed

text \<open>
  What the memory library promises of \<open>strmake_root\<close>: null, or an address with the characters and a zero.
\<close>

definition strmake_contract :: "strmake \<Rightarrow> bool" where
  "strmake_contract f \<longleftrightarrow> (\<forall>m str len m' p. f m str len = (m', p) \<longrightarrow>
     p = 0 \<or> (bytes_at m' p len = bytes_at m str len \<and> m' (p + len) = 0))"

text \<open>
  The current database for a table name without one: an error when there is none and no common table expression can be
  meant, the empty name when one can, otherwise a copy of the name, and an error exactly when memory ran out.
\<close>

theorem current_db_copied:
  assumes "strmake_contract f"
  shows "case copy_db_to f m db with_clauses of
      (m', No_db_error) \<Rightarrow> lex_str db = 0 \<and> \<not> with_clauses \<and> m' = m
    | (m', Db_copied err d) \<Rightarrow>
        if lex_str db = 0 then with_clauses \<and> \<not> err \<and> lex_str d = 0 \<and> m' = m
        else err = (lex_str d = 0) \<and>
          (\<not> err \<longrightarrow> bytes_at m' (lex_str d) (lex_length d) = bytes_at m (lex_str db) (lex_length db) \<and>
             m' (lex_str d + lex_length d) = 0)"
proof -
  obtain m1 p where f: "f m (lex_str db) (lex_length db) = (m1, p)" by (cases "f m (lex_str db) (lex_length db)")
  then have "p = 0 \<or> (bytes_at m1 p (lex_length db) = bytes_at m (lex_str db) (lex_length db) \<and> m1 (p + lex_length db) = 0)"
    using assms by (simp add: strmake_contract_def)
  then show ?thesis using f by (auto simp: copy_db_to_def)
qed

section \<open>Concrete cases\<close>

definition sample_text :: mem where
  "sample_text = put_bytes (\<lambda>_. 0) 100 [97, 34, 34, 98]"

lemma sample_text_bytes: "bytes_at sample_text 100 4 = [97, 34, 34, 98]"
  unfolding sample_text_def by (rule bytes_at_put_same) simp

theorem quoted_identifier_witness:
  "\<exists>m'. quote_unescape sample_text 200 \<lparr>lex_str = 100, lex_length = 4\<rparr> 34 = (False, m', \<lparr>lex_str = 200, lex_length = 3\<rparr>) \<and>
     bytes_at m' 200 3 = [97, 34, 98]"
  using quoted_identifier [of 200 "\<lparr>lex_str = 100, lex_length = 4\<rparr>" sample_text 34 "[97, 34, 98]"]
  by (auto simp: sample_text_bytes double_quotes_def numeral_3_eq_3)

theorem clex_string_copied_witness:
  "\<exists>m'. make_clex_string sample_text 200 100 4 = (m', Some \<lparr>lex_str = 216, lex_length = 4\<rparr>) \<and>
     bytes_at m' 216 4 = [97, 34, 34, 98]"
  using clex_string_copied [of 200 100 4 sample_text] by (auto simp: sample_text_bytes)

definition sample_strmake :: strmake where
  "sample_strmake m str len = ((put_bytes m 500 (bytes_at m str len))(500 + len := 0), 500)"

lemma sample_strmake_contract: "strmake_contract sample_strmake"
proof -
  have "bytes_at ((put_bytes m 500 (bytes_at m str len))(500 + len := 0)) 500 len = bytes_at m str len" for m str len
    using bytes_at_put_other [of 500 len "500 + len" "[0]" "put_bytes m 500 (bytes_at m str len)"] by (simp add: bytes_at_put_same)
  then show ?thesis by (auto simp: strmake_contract_def sample_strmake_def)
qed

theorem current_db_copied_witness:
  "case copy_db_to sample_strmake sample_text \<lparr>lex_str = 100, lex_length = 4\<rparr> False of
     (m', No_db_error) \<Rightarrow> False | (m', Db_copied err d) \<Rightarrow> \<not> err \<longrightarrow> bytes_at m' (lex_str d) (lex_length d) = [97, 34, 34, 98]"
  using current_db_copied [OF sample_strmake_contract, of "\<lparr>lex_str = 100, lex_length = 4\<rparr>" False sample_text]
  by (auto simp: sample_text_bytes split: prod.splits db_result.splits)

end
