(* ===== verification/Runs.thy ===== *)
theory Runs
  imports Main
begin

text \<open>
  Sequences of operations.  Many components are used by clients that call operations in any order the protocol allows.  \<open>simulation\<close> is
  the contract between such a component and an abstract machine: each operation, where the abstract machine allows it, keeps the
  relation between the two.  Proved once here: whole runs keep it.  An invariant is the case of an abstract machine with one state.
\<close>

primrec allowed :: "('op \<Rightarrow> 'a \<Rightarrow> bool) \<Rightarrow> ('op \<Rightarrow> 'a \<Rightarrow> 'a) \<Rightarrow> 'op list \<Rightarrow> 'a \<Rightarrow> bool" where
  "allowed ok aexec [] a \<longleftrightarrow> True"
| "allowed ok aexec (op # ops) a \<longleftrightarrow> ok op a \<and> allowed ok aexec ops (aexec op a)"

lemma allowed_append:
  "allowed ok aexec (xs @ ys) a \<longleftrightarrow> allowed ok aexec xs a \<and> allowed ok aexec ys (fold aexec xs a)"
  by (induction xs arbitrary: a) auto

lemma allowed_all: "(\<And>op a. op \<in> set ops \<Longrightarrow> ok op a) \<Longrightarrow> allowed ok aexec ops a"
  by (induction ops arbitrary: a) auto

locale simulation =
  fixes exec :: "'op \<Rightarrow> 's \<Rightarrow> 's"
    and aexec :: "'op \<Rightarrow> 'a \<Rightarrow> 'a"
    and ok :: "'op \<Rightarrow> 'a \<Rightarrow> bool"
    and rel :: "'s \<Rightarrow> 'a \<Rightarrow> bool"
  assumes step: "rel s a \<Longrightarrow> ok op a \<Longrightarrow> rel (exec op s) (aexec op a)"
begin

lemma run: "rel s a \<Longrightarrow> allowed ok aexec ops a \<Longrightarrow> rel (fold exec ops s) (fold aexec ops a)"
  by (induction ops arbitrary: s a) (auto intro: step)

end

text \<open>The same for operations that may have no result; the simulation also says that they have one.\<close>

definition run_opt :: "('op \<Rightarrow> 's \<Rightarrow> 's option) \<Rightarrow> 'op list \<Rightarrow> 's \<Rightarrow> 's option" where
  "run_opt exec ops s = fold (\<lambda>op r. Option.bind r (exec op)) ops (Some s)"

lemma run_opt_None [simp]: "fold (\<lambda>op r. Option.bind r (exec op)) ops None = None"
  by (induction ops) simp_all

lemma run_opt_simps [simp]:
  "run_opt exec [] s = Some s"
  "run_opt exec (op # ops) s = Option.bind (exec op s) (run_opt exec ops)"
  by (simp_all add: run_opt_def) (cases "exec op s"; simp add: run_opt_def)

locale progress_simulation =
  fixes exec :: "'op \<Rightarrow> 's \<Rightarrow> 's option"
    and aexec :: "'op \<Rightarrow> 'a \<Rightarrow> 'a"
    and ok :: "'op \<Rightarrow> 'a \<Rightarrow> bool"
    and rel :: "'s \<Rightarrow> 'a \<Rightarrow> bool"
  assumes step: "rel s a \<Longrightarrow> ok op a \<Longrightarrow> \<exists>s'. exec op s = Some s' \<and> rel s' (aexec op a)"
begin

lemma run: "rel s a \<Longrightarrow> allowed ok aexec ops a \<Longrightarrow> \<exists>s'. run_opt exec ops s = Some s' \<and> rel s' (fold aexec ops a)"
proof (induction ops arbitrary: s a)
  case (Cons op ops)
  obtain s1 where "exec op s = Some s1" "rel s1 (aexec op a)" using step Cons.prems by fastforce
  then show ?case using Cons.IH [of s1 "aexec op a"] Cons.prems(2) by simp
qed simp

end

end
