(* ===== verification/LexStream.thy ===== *)
theory LexStream
  imports NodeHeap Runs
begin

text \<open>
  The character stream of the lexer (\<^verbatim>\<open>sql_lex.h\<close>, class \<open>Lex_input_stream\<close>): the raw query text and the pre-processed
  text without the comments that are to be discarded, two buffers in memory with positions that move in parallel.  The
  classification of spaces belongs to a character set and is an argument.
\<close>

section \<open>The stream\<close>

datatype enum_comment_state = NO_COMMENT | PRESERVE_COMMENT | DISCARD_COMMENT

record lex_stream =
  m_ptr :: ptr
  m_tok_start :: ptr
  m_tok_end :: ptr
  m_end_of_query :: ptr
  m_tok_start_prev :: ptr
  m_buf :: ptr
  m_echo :: bool
  m_echo_saved :: bool
  m_cpp_buf :: ptr
  m_cpp_ptr :: ptr
  m_cpp_tok_start :: ptr
  m_cpp_tok_start_prev :: ptr
  m_cpp_tok_end :: ptr
  lookahead_token :: int
  in_comment :: enum_comment_state
  in_comment_saved :: enum_comment_state

definition set_echo :: "bool \<Rightarrow> lex_stream \<Rightarrow> lex_stream" where
  "set_echo echo s = s\<lparr>m_echo := echo\<rparr>"

definition save_in_comment_state :: "lex_stream \<Rightarrow> lex_stream" where
  "save_in_comment_state s = s\<lparr>m_echo_saved := m_echo s, in_comment_saved := in_comment s\<rparr>"

definition restore_in_comment_state :: "lex_stream \<Rightarrow> lex_stream" where
  "restore_in_comment_state s = s\<lparr>m_echo := m_echo_saved s, in_comment := in_comment_saved s\<rparr>"

definition skip_binary :: "nat \<Rightarrow> mem \<times> lex_stream \<Rightarrow> mem \<times> lex_stream" where
  "skip_binary n ms =
     (let (m, s) = ms;
          (m1, s1) = (if m_echo s then (put_bytes m (m_cpp_ptr s) (bytes_at m (m_ptr s) n), s\<lparr>m_cpp_ptr := m_cpp_ptr s + n\<rparr>) else (m, s))
      in (m1, s1\<lparr>m_ptr := m_ptr s1 + n\<rparr>))"

definition yyGet :: "mem \<times> lex_stream \<Rightarrow> uchar \<times> (mem \<times> lex_stream)" where
  "yyGet ms =
     (let (m, s) = ms; c = m (m_ptr s); s1 = s\<lparr>m_ptr := m_ptr s + 1\<rparr>
      in (c, if m_echo s1 then (m(m_cpp_ptr s1 := c), s1\<lparr>m_cpp_ptr := m_cpp_ptr s1 + 1\<rparr>) else (m, s1)))"

definition yyGetLast :: "mem \<times> lex_stream \<Rightarrow> uchar" where
  "yyGetLast ms = (let (m, s) = ms in m (m_ptr s - 1))"

definition yyPeekn :: "nat \<Rightarrow> mem \<times> lex_stream \<Rightarrow> uchar" where
  "yyPeekn n ms = (let (m, s) = ms in m (m_ptr s + n))"

definition yyPeek :: "mem \<times> lex_stream \<Rightarrow> uchar" where
  "yyPeek ms = (let (m, s) = ms in m (m_ptr s))"

definition yyUnget :: "lex_stream \<Rightarrow> lex_stream" where
  "yyUnget s =
     (let s1 = s\<lparr>m_ptr := m_ptr s - 1\<rparr> in if m_echo s1 then s1\<lparr>m_cpp_ptr := m_cpp_ptr s1 - 1\<rparr> else s1)"

definition yySkip :: "mem \<times> lex_stream \<Rightarrow> mem \<times> lex_stream" where
  "yySkip ms =
     (let (m, s) = ms
      in if m_echo s then (m(m_cpp_ptr s := m (m_ptr s)), s\<lparr>m_cpp_ptr := m_cpp_ptr s + 1, m_ptr := m_ptr s + 1\<rparr>)
         else (m, s\<lparr>m_ptr := m_ptr s + 1\<rparr>))"

definition yySkipn :: "nat \<Rightarrow> mem \<times> lex_stream \<Rightarrow> mem \<times> lex_stream" where
  "yySkipn n ms =
     (let (m, s) = ms;
          (m1, s1) = (if m_echo s then (put_bytes m (m_cpp_ptr s) (bytes_at m (m_ptr s) n), s\<lparr>m_cpp_ptr := m_cpp_ptr s + n\<rparr>) else (m, s))
      in (m1, s1\<lparr>m_ptr := m_ptr s1 + n\<rparr>))"

definition yyUnput :: "uchar \<Rightarrow> mem \<times> lex_stream \<Rightarrow> ptr \<times> (mem \<times> lex_stream)" where
  "yyUnput ch ms =
     (let (m, s) = ms; s1 = s\<lparr>m_ptr := m_ptr s - 1\<rparr>; m1 = m(m_ptr s1 := ch);
          s2 = (if m_echo s1 then s1\<lparr>m_cpp_ptr := m_cpp_ptr s1 - 1\<rparr> else s1)
      in (m_ptr s2, m1, s2))"

definition eof_n :: "nat \<Rightarrow> lex_stream \<Rightarrow> bool" where
  "eof_n n s \<longleftrightarrow> m_ptr s + n \<ge> m_end_of_query s"

definition eof :: "lex_stream \<Rightarrow> bool" where
  "eof s \<longleftrightarrow> m_ptr s \<ge> m_end_of_query s"

section \<open>Tokens\<close>

definition start_token :: "lex_stream \<Rightarrow> lex_stream" where
  "start_token s =
     s\<lparr>m_tok_start_prev := m_tok_start s, m_tok_start := m_ptr s, m_tok_end := m_ptr s,
       m_cpp_tok_start_prev := m_cpp_tok_start s, m_cpp_tok_start := m_cpp_ptr s, m_cpp_tok_end := m_cpp_ptr s\<rparr>"

definition restart_token :: "lex_stream \<Rightarrow> lex_stream" where
  "restart_token s = s\<lparr>m_tok_start := m_ptr s, m_cpp_tok_start := m_cpp_ptr s\<rparr>"

definition yyLength :: "lex_stream \<Rightarrow> uint32 option" where
  "yyLength s = do { DBUG_ASSERT (m_ptr s > m_tok_start s); Some (of_nat (m_ptr s - m_tok_start s - 1)) }"

definition has_lookahead :: "lex_stream \<Rightarrow> bool" where
  "has_lookahead s \<longleftrightarrow> lookahead_token s \<ge> 0"

definition get_tok_start :: "lex_stream \<Rightarrow> ptr" where
  "get_tok_start s = (if has_lookahead s then m_tok_start_prev s else m_tok_start s)"

definition get_cpp_tok_start :: "lex_stream \<Rightarrow> ptr" where
  "get_cpp_tok_start s = (if has_lookahead s then m_cpp_tok_start_prev s else m_cpp_tok_start s)"

definition set_cpp_tok_start :: "ptr \<Rightarrow> lex_stream \<Rightarrow> lex_stream" where
  "set_cpp_tok_start pos s = s\<lparr>m_cpp_tok_start := pos\<rparr>"

function rtrim_loop :: "(uchar \<Rightarrow> bool) \<Rightarrow> mem \<Rightarrow> ptr \<Rightarrow> ptr \<Rightarrow> ptr" where
  "rtrim_loop my_isspace m cpp_buf p =
     (if p > cpp_buf \<and> my_isspace (m (p - 1)) then rtrim_loop my_isspace m cpp_buf (p - 1) else p)"
  by pat_completeness auto
termination by (relation "measure (\<lambda>(f, m, b, p). p)") auto

declare rtrim_loop.simps [simp del]

definition get_cpp_tok_end_rtrim :: "(uchar \<Rightarrow> bool) \<Rightarrow> mem \<times> lex_stream \<Rightarrow> ptr" where
  "get_cpp_tok_end_rtrim my_isspace ms = (let (m, s) = ms in rtrim_loop my_isspace m (m_cpp_buf s) (m_cpp_tok_end s))"

definition get_cpp_ptr_rtrim :: "(uchar \<Rightarrow> bool) \<Rightarrow> mem \<times> lex_stream \<Rightarrow> ptr" where
  "get_cpp_ptr_rtrim my_isspace ms = (let (m, s) = ms in rtrim_loop my_isspace m (m_cpp_buf s) (m_cpp_ptr s))"

section \<open>The pre-processed text\<close>

lemma get_is_skip: "snd (yyGet ms) = yySkipn 1 ms" "fst (yyGet ms) = yyPeek ms"
  by (simp_all add: yyGet_def yySkipn_def yyPeek_def Let_def bytes_at_Suc split: prod.splits)

lemma skip_is_skipn: "yySkip ms = yySkipn 1 ms" "skip_binary n ms = yySkipn n ms"
  by (simp_all add: yySkip_def skip_binary_def yySkipn_def bytes_at_Suc split: prod.splits)

text \<open>What the lexer does with the stream; the abstract state remembers for each character accepted whether it was echoed.\<close>

datatype lex_op = Get | Skip | Skip_n nat | Skip_binary nat | Unget | Echo bool

definition lex_exec :: "lex_op \<Rightarrow> mem \<times> lex_stream \<Rightarrow> mem \<times> lex_stream" where
  "lex_exec op ms = (case op of Get \<Rightarrow> snd (yyGet ms) | Skip \<Rightarrow> yySkip ms | Skip_n n \<Rightarrow> yySkipn n ms
     | Skip_binary n \<Rightarrow> skip_binary n ms | Unget \<Rightarrow> (fst ms, yyUnget (snd ms)) | Echo b \<Rightarrow> (fst ms, set_echo b (snd ms)))"

type_synonym lex_hist = "bool list \<times> bool"

definition hist_exec :: "lex_op \<Rightarrow> lex_hist \<Rightarrow> lex_hist" where
  "hist_exec op h = (let (hist, echo) = h in
     case op of Get \<Rightarrow> (hist @ [echo], echo) | Skip \<Rightarrow> (hist @ [echo], echo) | Skip_n n \<Rightarrow> (hist @ replicate n echo, echo)
     | Skip_binary n \<Rightarrow> (hist @ replicate n echo, echo) | Unget \<Rightarrow> (butlast hist, echo) | Echo b \<Rightarrow> (hist, b))"

text \<open>
  The lexer stays inside the text, and takes back a character in the echo mode in which it was accepted, as the comment in the
  header asks.
\<close>

definition lex_ok :: "nat \<Rightarrow> lex_op \<Rightarrow> lex_hist \<Rightarrow> bool" where
  "lex_ok len op h = (let (hist, echo) = h in
     case op of Get \<Rightarrow> length hist < len | Skip \<Rightarrow> length hist < len | Skip_n n \<Rightarrow> length hist + n \<le> len
     | Skip_binary n \<Rightarrow> length hist + n \<le> len | Unget \<Rightarrow> hist \<noteq> [] \<and> last hist = echo | Echo b \<Rightarrow> True)"

definition echoed :: "bool list \<Rightarrow> uchar list \<Rightarrow> uchar list" where
  "echoed hist qs = map snd (filter fst (zip hist qs))"

definition stream_rel :: "uchar list \<Rightarrow> mem \<times> lex_stream \<Rightarrow> lex_hist \<Rightarrow> bool" where
  "stream_rel qs ms h =
     (let (m, s) = ms; (hist, echo) = h
      in bytes_at m (m_buf s) (length qs) = qs \<and> length hist \<le> length qs \<and> m_ptr s = m_buf s + length hist \<and> m_echo s = echo \<and>
         m_cpp_ptr s = m_cpp_buf s + length (echoed hist qs) \<and> bytes_at m (m_cpp_buf s) (length (echoed hist qs)) = echoed hist qs \<and>
         (m_buf s + length qs \<le> m_cpp_buf s \<or> m_cpp_buf s + length qs \<le> m_buf s))"

lemma length_echoed: "length (echoed hist qs) \<le> length hist"
  unfolding echoed_def using length_filter_le [of fst "zip hist qs"] by simp

lemma echoed_replicate: "echoed (replicate n e) qs = (if e then take n qs else [])"
proof (induction n arbitrary: qs)
  case (Suc n)
  then show ?case by (cases qs) (auto simp: echoed_def)
qed (simp add: echoed_def)

lemma echoed_append:
  "length hist \<le> length qs \<Longrightarrow>
     echoed (hist @ replicate n e) qs = echoed hist qs @ (if e then take n (drop (length hist) qs) else [])"
proof (induction hist arbitrary: qs)
  case Nil
  then show ?case by (simp add: echoed_replicate) (simp add: echoed_def)
next
  case (Cons b hist)
  then obtain c t where "qs = c # t" "length hist \<le> length t" by (cases qs) auto
  then show ?case using Cons.IH [of t] by (cases e) (simp_all add: echoed_def)
qed

lemma bytes_at_part:
  assumes "bytes_at m p (length qs) = qs" "i + n \<le> length qs"
  shows "bytes_at m (p + i) n = take n (drop i qs)"
proof (rule nth_equalityI)
  fix k
  assume "k < length (bytes_at m (p + i) n)"
  then have k: "k < n" "i + k < length qs" using assms(2) by simp_all
  have "qs ! (i + k) = m (p + (i + k))" using nth_bytes_at [OF k(2), of m p] assms(1) by simp
  then show "bytes_at m (p + i) n ! k = take n (drop i qs) ! k" using k assms(2) by (simp add: nth_bytes_at add.assoc)
qed (use assms(2) in simp)

lemma skipn_rel:
  assumes "stream_rel qs ms (hist, echo)" "length hist + n \<le> length qs"
  shows "stream_rel qs (yySkipn n ms) (hist @ replicate n echo, echo)"
proof -
  obtain m s where ms: "ms = (m, s)" by (cases ms)
  have R: "bytes_at m (m_buf s) (length qs) = qs" "m_ptr s = m_buf s + length hist" "m_echo s = echo"
      "m_cpp_ptr s = m_cpp_buf s + length (echoed hist qs)" "bytes_at m (m_cpp_buf s) (length (echoed hist qs)) = echoed hist qs"
      "m_buf s + length qs \<le> m_cpp_buf s \<or> m_cpp_buf s + length qs \<le> m_buf s"
    using assms(1) by (auto simp: stream_rel_def ms)
  show ?thesis
  proof (cases echo)
    case False
    then show ?thesis using R assms(2) by (simp add: stream_rel_def ms yySkipn_def echoed_append)
  next
    case True
    let ?cs = "take n (drop (length hist) qs)" let ?m = "put_bytes m (m_cpp_ptr s) ?cs"
    have cs: "bytes_at m (m_ptr s) n = ?cs" "length ?cs = n" using bytes_at_part [OF R(1) assms(2)] R(2) assms(2) by simp_all
    have le: "length (echoed hist qs) \<le> length hist" by (rule length_echoed)
    have "bytes_at ?m (m_buf s) (length qs) = qs"
      using bytes_at_put_other [of "m_buf s" "length qs" "m_cpp_ptr s" ?cs m] R assms(2) cs(2) le by auto
    moreover have "bytes_at ?m (m_cpp_buf s) (length (echoed hist qs)) = echoed hist qs"
      using bytes_at_put_other [of "m_cpp_buf s" "length (echoed hist qs)" "m_cpp_ptr s" ?cs m] R by auto
    then have "bytes_at ?m (m_cpp_buf s) (length (echoed hist qs) + n) = echoed hist qs @ ?cs"
      using bytes_at_put_same [of n ?cs m "m_cpp_ptr s"] cs(2) R(4) by (simp add: bytes_at_append)
    ultimately show ?thesis using R assms(2) True cs
      by (simp add: stream_rel_def ms yySkipn_def echoed_append)
  qed
qed

lemma unget_rel:
  assumes "stream_rel qs (m, s) (hist, echo)" "hist \<noteq> []" "last hist = echo"
  shows "stream_rel qs (m, yyUnget s) (butlast hist, echo)"
proof -
  have le: "length hist \<le> length qs" using assms(1) by (simp add: stream_rel_def)
  have "hist = butlast hist @ replicate 1 echo" using append_butlast_last_id [OF assms(2)] assms(3) by simp
  then have e: "echoed hist qs = echoed (butlast hist) qs @ (if echo then take 1 (drop (length hist - 1) qs) else [])"
    using echoed_append [of "butlast hist" qs 1 echo] le by (metis diff_le_self length_butlast order_trans)
  have d: "echo \<Longrightarrow> length (take 1 (drop (length hist - 1) qs)) = 1" using le assms(2) by (cases hist) auto
  have "bytes_at m (m_cpp_buf s) (length (echoed (butlast hist) qs)) = echoed (butlast hist) qs"
    using assms(1) e bytes_at_part [of m "m_cpp_buf s" "echoed hist qs" 0 "length (echoed (butlast hist) qs)"]
    by (simp add: stream_rel_def)
  moreover have "m_buf s + length hist - Suc 0 = m_buf s + (length hist - Suc 0)" using assms(2) by (cases hist) auto
  ultimately show ?thesis using assms e d le by (cases echo) (auto simp: stream_rel_def yyUnget_def Let_def)
qed

lemma lex_exec_rel:
  assumes "stream_rel qs ms h" "lex_ok (length qs) op h"
  shows "stream_rel qs (lex_exec op ms) (hist_exec op h)"
proof -
  obtain m s hist echo where ms: "ms = (m, s)" "h = (hist, echo)" by (cases ms; cases h)
  show ?thesis
  proof (cases op)
    case Unget
    then show ?thesis using assms ms unget_rel by (simp add: lex_exec_def hist_exec_def lex_ok_def)
  next
    case (Echo b)
    then show ?thesis using assms ms by (simp add: lex_exec_def hist_exec_def set_echo_def stream_rel_def)
  qed (use assms ms skipn_rel [of qs ms hist echo] in
      \<open>auto simp: lex_exec_def hist_exec_def lex_ok_def get_is_skip skip_is_skipn dest: skipn_rel [where n = 1]\<close>)
qed

interpretation stream: simulation lex_exec hist_exec "lex_ok (length qs)" "stream_rel qs" for qs
  by unfold_locales (rule lex_exec_rel)

text \<open>
  C25: Reading a query: from the start of the text, whatever the lexer accepts, skips and takes back, the pre-processed
  buffer holds exactly the accepted characters that were echoed, in their order; it never holds more characters than
  the lexer has read, so a buffer as long as the query is enough; the query text itself is not changed, and the next
  character read is the one behind those accepted.
\<close>

theorem preprocessed_text:
  fixes m :: mem and s :: lex_stream
  assumes "bytes_at m (m_buf s) (length qs) = qs" "m_ptr s = m_buf s" "m_cpp_ptr s = m_cpp_buf s"
    and "m_buf s + length qs \<le> m_cpp_buf s \<or> m_cpp_buf s + length qs \<le> m_buf s"
    and "allowed (lex_ok (length qs)) hist_exec ops ([], m_echo s)" "fold lex_exec ops (m, s) = (m', s')" "fold hist_exec ops ([], m_echo s) = (hist, echo)"
  shows "bytes_at m' (m_cpp_buf s') (m_cpp_ptr s' - m_cpp_buf s') = echoed hist qs \<and>
    m_cpp_ptr s' - m_cpp_buf s' \<le> m_ptr s' - m_buf s' \<and> bytes_at m' (m_buf s') (length qs) = qs \<and>
    m_ptr s' = m_buf s' + length hist \<and> length hist \<le> length qs \<and>
    (length hist < length qs \<longrightarrow> fst (yyGet (m', s')) = qs ! length hist)"
proof -
  have "stream_rel qs (m, s) ([], m_echo s)" using assms(1-4) by (simp add: stream_rel_def echoed_def)
  from stream.run [OF this assms(5)] have R: "stream_rel qs (m', s') (hist, echo)" using assms(6,7) by simp
  then have "length hist < length qs \<longrightarrow> fst (yyGet (m', s')) = qs ! length hist"
    by (simp add: stream_rel_def get_is_skip yyPeek_def) (metis nth_bytes_at)
  then show ?thesis using R length_echoed [of hist qs] by (simp add: stream_rel_def)
qed

section \<open>Tokens and trailing spaces\<close>

lemma rtrim_loop_spec:
  "buf \<le> p \<Longrightarrow> buf \<le> rtrim_loop isspace m buf p \<and> rtrim_loop isspace m buf p \<le> p \<and>
     (\<forall>a. rtrim_loop isspace m buf p \<le> a \<and> a < p \<longrightarrow> isspace (m a)) \<and>
     (rtrim_loop isspace m buf p = buf \<or> \<not> isspace (m (rtrim_loop isspace m buf p - 1)))"
proof (induction isspace m buf p rule: rtrim_loop.induct)
  case (1 isspace m buf p)
  show ?case
  proof (cases "p > buf \<and> isspace (m (p - 1))")
    case True
    then have eq: "rtrim_loop isspace m buf p = rtrim_loop isspace m buf (p - 1)" by (subst rtrim_loop.simps) simp
    have IH: "buf \<le> rtrim_loop isspace m buf (p - 1) \<and> rtrim_loop isspace m buf (p - 1) \<le> p - 1 \<and>
       (\<forall>a. rtrim_loop isspace m buf (p - 1) \<le> a \<and> a < p - 1 \<longrightarrow> isspace (m a)) \<and>
       (rtrim_loop isspace m buf (p - 1) = buf \<or> \<not> isspace (m (rtrim_loop isspace m buf (p - 1) - 1)))"
      by (rule "1.IH" [OF True]) (use True in auto)
    have "a < p \<longleftrightarrow> a < p - 1 \<or> a = p - 1" for a using True by auto
    then show ?thesis using IH True unfolding eq by auto
  next
    case False
    then have "rtrim_loop isspace m buf p = p" by (subst rtrim_loop.simps) auto
    then show ?thesis using False "1.prems" by auto
  qed
qed

text \<open>
  The text of a token without trailing spaces: the loop ends, what it cuts off are spaces, and what is left is empty or
  ends in a character that is none.
\<close>

theorem token_rtrim:
  fixes s :: lex_stream and m :: mem and isspace :: "uchar \<Rightarrow> bool"
  assumes "m_cpp_buf s \<le> m_cpp_ptr s"
  defines "r \<equiv> get_cpp_ptr_rtrim isspace (m, s)"
  shows "m_cpp_buf s \<le> r \<and> r \<le> m_cpp_ptr s \<and> (\<forall>a. r \<le> a \<and> a < m_cpp_ptr s \<longrightarrow> isspace (m a)) \<and>
    (r = m_cpp_buf s \<or> \<not> isspace (m (r - 1)))"
  using rtrim_loop_spec [OF assms(1), of isspace m] by (simp add: r_def get_cpp_ptr_rtrim_def)

text \<open>
  Tokens: while a token has been scanned in advance, the start reported is that of the token before it; and the end-of-file test
  with a number of characters also answers true when exactly that many are left, where its description says fewer.
\<close>

theorem token_positions:
  fixes s s1 :: lex_stream
  assumes "lookahead_token s1 \<ge> 0" "m_tok_start s1 = m_ptr s" "m_cpp_tok_start s1 = m_cpp_ptr s" "m_ptr s \<le> m_end_of_query s"
  shows "get_tok_start (start_token s1) = m_ptr s \<and> get_cpp_tok_start (start_token s1) = m_cpp_ptr s \<and>
    m_tok_start (start_token s1) = m_ptr s1 \<and>
    eof_n n s = (m_end_of_query s - m_ptr s \<le> n) \<and> (eof s = eof_n 0 s)"
  using assms by (auto simp: get_tok_start_def get_cpp_tok_start_def start_token_def has_lookahead_def eof_n_def eof_def)

text \<open>Taking back a character restores the positions of both texts, and putting back another one changes the text to read.\<close>

theorem unget_cancels_get:
  "snd (lex_exec Unget (lex_exec Get (m, s))) = s \<and>
   (m_ptr s \<noteq> m_cpp_ptr s \<longrightarrow> yyPeek (snd (yyUnput c (snd (yyGet (m, s))))) = c \<and>
      snd (snd (yyUnput c (snd (yyGet (m, s))))) = s)"
  by (simp add: lex_exec_def yyGet_def yyUnget_def yyUnput_def yyPeek_def Let_def)

section \<open>Concrete cases\<close>

definition sample_stream :: lex_stream where
  "sample_stream = \<lparr>m_ptr = 10, m_tok_start = 10, m_tok_end = 10, m_end_of_query = 14, m_tok_start_prev = 10, m_buf = 10, m_echo = True,
     m_echo_saved = True, m_cpp_buf = 50, m_cpp_ptr = 50, m_cpp_tok_start = 50, m_cpp_tok_start_prev = 50, m_cpp_tok_end = 50,
     lookahead_token = 0, in_comment = NO_COMMENT, in_comment_saved = NO_COMMENT\<rparr>"

definition sample_query :: mem where
  "sample_query = put_bytes (\<lambda>_. 0) 10 [97, 98, 99, 100]"

lemma sample_query_bytes: "bytes_at sample_query 10 (length [97 :: uchar, 98, 99, 100]) = [97, 98, 99, 100]"
  unfolding sample_query_def by (rule bytes_at_put_same) simp

theorem preprocessed_text_witness:
  "bytes_at (fst (fold lex_exec [Get, Echo False, Skip, Echo True, Get] (sample_query, sample_stream))) 50 2 = [97, 99]"
proof -
  let ?ops = "[Get, Echo False, Skip, Echo True, Get]"
  obtain m' s' where r: "fold lex_exec ?ops (sample_query, sample_stream) = (m', s')" by (cases "fold lex_exec ?ops (sample_query, sample_stream)")
  have h: "fold hist_exec ?ops ([], m_echo sample_stream) = ([True, False, True], True)" by (simp add: hist_exec_def sample_stream_def)
  have "s' = snd (fold lex_exec ?ops (sample_query, sample_stream))" using r by simp
  then have s: "m_cpp_buf s' = 50" "m_cpp_ptr s' = 52"
    by (simp_all add: sample_stream_def lex_exec_def yyGet_def yySkip_def set_echo_def Let_def)
  have a: "allowed (lex_ok (length [97 :: uchar, 98, 99, 100])) hist_exec ?ops ([], m_echo sample_stream)"
    by (simp add: lex_ok_def hist_exec_def sample_stream_def)
  have b: "bytes_at sample_query (m_buf sample_stream) (length [97 :: uchar, 98, 99, 100]) = [97, 98, 99, 100]"
    using sample_query_bytes by (simp add: sample_stream_def)
  have "bytes_at m' (m_cpp_buf s') (m_cpp_ptr s' - m_cpp_buf s') = echoed [True, False, True] [97, 98, 99, 100]"
    using preprocessed_text [OF b _ _ _ a r h] by (simp add: sample_stream_def)
  then show ?thesis using r s by (simp add: echoed_def)
qed

theorem token_rtrim_witness:
  "get_cpp_ptr_rtrim (\<lambda>c. c = 32) (\<lambda>_. 32, sample_stream) = 50"
  using token_rtrim [of sample_stream "\<lambda>c. c = 32" "\<lambda>_. 32"] by (simp add: sample_stream_def)

theorem token_positions_witness:
  "get_tok_start (start_token sample_stream) = 10"
  using token_positions [of sample_stream sample_stream 0] by (simp add: sample_stream_def)

theorem unget_cancels_get_witness:
  "snd (lex_exec Unget (lex_exec Get (sample_query, sample_stream))) = sample_stream"
  using unget_cancels_get [of sample_query sample_stream] by simp

end
