(* ===== verification/QueryTables.thy ===== *)
theory QueryTables
  imports NodeHeap Runs
begin

text \<open>
  The tables of a statement (\<^verbatim>\<open>sql_lex.h\<close>, class \<open>Query_tables_list\<close>): the global list with its pointer to the last link, the mark behind the
  statement's own tables, and the flags that say why a statement is unsafe for statement-based replication.  A link is the head of the list or
  the member \<open>next_global\<close> of a table; the array \<open>binlog_unsafe_map\<close> is filled elsewhere and is an argument.
\<close>

section \<open>The list of tables\<close>

datatype table_link = Query_tables | Next_global ptr

record TABLE_LIST =
  next_global :: ptr
  prev_global :: table_link

record Query_tables_list =
  query_tables :: ptr
  query_tables_last :: table_link
  query_tables_own_last :: "table_link option"

type_synonym table_heap = "TABLE_LIST node_heap"

fun link_read :: "table_heap \<times> Query_tables_list \<Rightarrow> table_link \<Rightarrow> ptr option" where
  "link_read (h, q) Query_tables = Some (query_tables q)"
| "link_read (h, q) (Next_global t) = do { n \<leftarrow> read_node h t; Some (next_global n) }"

fun link_write :: "table_heap \<times> Query_tables_list \<Rightarrow> table_link \<Rightarrow> ptr \<Rightarrow> (table_heap \<times> Query_tables_list) option" where
  "link_write (h, q) Query_tables p = Some (h, q\<lparr>query_tables := p\<rparr>)"
| "link_write (h, q) (Next_global t) p = do { h1 \<leftarrow> write_node h t (\<lambda>n. n\<lparr>next_global := p\<rparr>); Some (h1, q) }"

definition add_to_query_tables :: "ptr \<Rightarrow> table_heap \<times> Query_tables_list \<Rightarrow> (table_heap \<times> Query_tables_list) option" where
  "add_to_query_tables table s =
     do { h1 \<leftarrow> write_node (fst s) table (\<lambda>n. n\<lparr>prev_global := query_tables_last (snd s)\<rparr>);
          (h2, q2) \<leftarrow> link_write (h1, snd s) (query_tables_last (snd s)) table;
          Some (h2, q2\<lparr>query_tables_last := Next_global table\<rparr>) }"

definition requires_prelocking :: "Query_tables_list \<Rightarrow> bool" where
  "requires_prelocking q \<longleftrightarrow> query_tables_own_last q \<noteq> None"

definition mark_as_requiring_prelocking :: "table_link \<Rightarrow> Query_tables_list \<Rightarrow> Query_tables_list" where
  "mark_as_requiring_prelocking tables_own_last q = q\<lparr>query_tables_own_last := Some tables_own_last\<rparr>"

definition first_not_own_table :: "table_heap \<times> Query_tables_list \<Rightarrow> ptr option" where
  "first_not_own_table s = (case query_tables_own_last (snd s) of Some l \<Rightarrow> link_read s l | None \<Rightarrow> Some 0)"

definition chop_off_not_own_tables :: "table_heap \<times> Query_tables_list \<Rightarrow> (table_heap \<times> Query_tables_list) option" where
  "chop_off_not_own_tables s =
     (case query_tables_own_last (snd s) of
        Some l \<Rightarrow> do { (h1, q1) \<leftarrow> link_write s l 0; Some (h1, q1\<lparr>query_tables_last := l, query_tables_own_last := None\<rparr>) }
      | None \<Rightarrow> Some s)"

text \<open>The table that contains the last link; the address computed from the head of the list is no table.\<close>

definition last_table :: "Query_tables_list \<Rightarrow> ptr option" where
  "last_table q = (if query_tables q \<noteq> 0 then (case query_tables_last q of Next_global t \<Rightarrow> Some t | Query_tables \<Rightarrow> None) else Some 0)"

section \<open>Unsafe statements\<close>

datatype enum_binlog_stmt_unsafe =
    BINLOG_STMT_UNSAFE_LIMIT | BINLOG_STMT_UNSAFE_INSERT_DELAYED | BINLOG_STMT_UNSAFE_SYSTEM_TABLE
  | BINLOG_STMT_UNSAFE_AUTOINC_COLUMNS | BINLOG_STMT_UNSAFE_UDF | BINLOG_STMT_UNSAFE_SYSTEM_VARIABLE
  | BINLOG_STMT_UNSAFE_SYSTEM_FUNCTION | BINLOG_STMT_UNSAFE_NONTRANS_AFTER_TRANS
  | BINLOG_STMT_UNSAFE_MULTIPLE_ENGINES_AND_SELF_LOGGING_ENGINE | BINLOG_STMT_UNSAFE_MIXED_STATEMENT
  | BINLOG_STMT_UNSAFE_INSERT_IGNORE_SELECT | BINLOG_STMT_UNSAFE_INSERT_SELECT_UPDATE
  | BINLOG_STMT_UNSAFE_WRITE_AUTOINC_SELECT | BINLOG_STMT_UNSAFE_REPLACE_SELECT
  | BINLOG_STMT_UNSAFE_CREATE_IGNORE_SELECT | BINLOG_STMT_UNSAFE_CREATE_REPLACE_SELECT
  | BINLOG_STMT_UNSAFE_CREATE_SELECT_AUTOINC | BINLOG_STMT_UNSAFE_UPDATE_IGNORE
  | BINLOG_STMT_UNSAFE_INSERT_TWO_KEYS | BINLOG_STMT_UNSAFE_AUTOINC_NOT_FIRST

primrec unsafe_num :: "enum_binlog_stmt_unsafe \<Rightarrow> nat" where
  "unsafe_num BINLOG_STMT_UNSAFE_LIMIT = 0" | "unsafe_num BINLOG_STMT_UNSAFE_INSERT_DELAYED = 1"
| "unsafe_num BINLOG_STMT_UNSAFE_SYSTEM_TABLE = 2" | "unsafe_num BINLOG_STMT_UNSAFE_AUTOINC_COLUMNS = 3"
| "unsafe_num BINLOG_STMT_UNSAFE_UDF = 4" | "unsafe_num BINLOG_STMT_UNSAFE_SYSTEM_VARIABLE = 5"
| "unsafe_num BINLOG_STMT_UNSAFE_SYSTEM_FUNCTION = 6" | "unsafe_num BINLOG_STMT_UNSAFE_NONTRANS_AFTER_TRANS = 7"
| "unsafe_num BINLOG_STMT_UNSAFE_MULTIPLE_ENGINES_AND_SELF_LOGGING_ENGINE = 8" | "unsafe_num BINLOG_STMT_UNSAFE_MIXED_STATEMENT = 9"
| "unsafe_num BINLOG_STMT_UNSAFE_INSERT_IGNORE_SELECT = 10" | "unsafe_num BINLOG_STMT_UNSAFE_INSERT_SELECT_UPDATE = 11"
| "unsafe_num BINLOG_STMT_UNSAFE_WRITE_AUTOINC_SELECT = 12" | "unsafe_num BINLOG_STMT_UNSAFE_REPLACE_SELECT = 13"
| "unsafe_num BINLOG_STMT_UNSAFE_CREATE_IGNORE_SELECT = 14" | "unsafe_num BINLOG_STMT_UNSAFE_CREATE_REPLACE_SELECT = 15"
| "unsafe_num BINLOG_STMT_UNSAFE_CREATE_SELECT_AUTOINC = 16" | "unsafe_num BINLOG_STMT_UNSAFE_UPDATE_IGNORE = 17"
| "unsafe_num BINLOG_STMT_UNSAFE_INSERT_TWO_KEYS = 18" | "unsafe_num BINLOG_STMT_UNSAFE_AUTOINC_NOT_FIRST = 19"

definition BINLOG_STMT_UNSAFE_COUNT :: nat where "BINLOG_STMT_UNSAFE_COUNT = 20"
definition BINLOG_STMT_TYPE_ROW_INJECTION :: nat where "BINLOG_STMT_TYPE_ROW_INJECTION = 0"
definition BINLOG_STMT_UNSAFE_ALL_FLAGS :: uint32 where
  "BINLOG_STMT_UNSAFE_ALL_FLAGS = push_bit BINLOG_STMT_UNSAFE_COUNT 1 - 1"

definition set_stmt_unsafe :: "enum_binlog_stmt_unsafe \<Rightarrow> uint32 \<Rightarrow> uint32" where
  "set_stmt_unsafe unsafe_type binlog_stmt_flags = binlog_stmt_flags OR push_bit (unsafe_num unsafe_type) 1"

definition set_stmt_unsafe_flags :: "uint32 \<Rightarrow> uint32 \<Rightarrow> uint32 option" where
  "set_stmt_unsafe_flags flags binlog_stmt_flags =
     do { DBUG_ASSERT (flags AND NOT BINLOG_STMT_UNSAFE_ALL_FLAGS = 0); Some (binlog_stmt_flags OR flags) }"

definition get_stmt_unsafe_flags :: "uint32 \<Rightarrow> uint32" where
  "get_stmt_unsafe_flags binlog_stmt_flags = binlog_stmt_flags AND BINLOG_STMT_UNSAFE_ALL_FLAGS"

definition is_stmt_unsafe :: "uint32 \<Rightarrow> bool" where
  "is_stmt_unsafe f \<longleftrightarrow> get_stmt_unsafe_flags f \<noteq> 0"

definition is_stmt_unsafe_type :: "enum_binlog_stmt_unsafe \<Rightarrow> uint32 \<Rightarrow> bool" where
  "is_stmt_unsafe_type u f \<longleftrightarrow> f AND push_bit (unsafe_num u) 1 \<noteq> 0"

definition clear_stmt_unsafe :: "uint32 \<Rightarrow> uint32" where
  "clear_stmt_unsafe f = f AND NOT BINLOG_STMT_UNSAFE_ALL_FLAGS"

definition is_stmt_row_injection :: "uint32 \<Rightarrow> bool" where
  "is_stmt_row_injection f \<longleftrightarrow> f AND push_bit (BINLOG_STMT_UNSAFE_COUNT + BINLOG_STMT_TYPE_ROW_INJECTION) 1 \<noteq> 0"

definition set_stmt_row_injection :: "uint32 \<Rightarrow> uint32" where
  "set_stmt_row_injection f = f OR push_bit (BINLOG_STMT_UNSAFE_COUNT + BINLOG_STMT_TYPE_ROW_INJECTION) 1"

section \<open>Accessed tables\<close>

datatype enum_stmt_accessed_table = STMT_READS_TRANS_TABLE | STMT_READS_NON_TRANS_TABLE | STMT_READS_TEMP_TRANS_TABLE
  | STMT_READS_TEMP_NON_TRANS_TABLE | STMT_WRITES_TRANS_TABLE | STMT_WRITES_NON_TRANS_TABLE | STMT_WRITES_TEMP_TRANS_TABLE
  | STMT_WRITES_TEMP_NON_TRANS_TABLE

primrec access_num :: "enum_stmt_accessed_table \<Rightarrow> nat" where
  "access_num STMT_READS_TRANS_TABLE = 0" | "access_num STMT_READS_NON_TRANS_TABLE = 1"
| "access_num STMT_READS_TEMP_TRANS_TABLE = 2" | "access_num STMT_READS_TEMP_NON_TRANS_TABLE = 3"
| "access_num STMT_WRITES_TRANS_TABLE = 4" | "access_num STMT_WRITES_NON_TRANS_TABLE = 5"
| "access_num STMT_WRITES_TEMP_TRANS_TABLE = 6" | "access_num STMT_WRITES_TEMP_NON_TRANS_TABLE = 7"

definition set_stmt_accessed_table :: "enum_stmt_accessed_table \<Rightarrow> uint32 \<Rightarrow> uint32" where
  "set_stmt_accessed_table accessed_table flag = flag OR push_bit (access_num accessed_table) 1"

definition stmt_accessed_table :: "enum_stmt_accessed_table \<Rightarrow> uint32 \<Rightarrow> bool" where
  "stmt_accessed_table accessed_table flag \<longleftrightarrow> flag AND push_bit (access_num accessed_table) 1 \<noteq> 0"

definition stmt_accessed_non_trans_temp_table :: "uint32 \<Rightarrow> bool" where
  "stmt_accessed_non_trans_temp_table flag \<longleftrightarrow>
     flag AND (push_bit (access_num STMT_READS_TEMP_NON_TRANS_TABLE) 1 OR push_bit (access_num STMT_WRITES_TEMP_NON_TRANS_TABLE) 1) \<noteq> 0"

datatype enum_tx_isolation = ISO_READ_UNCOMMITTED | ISO_READ_COMMITTED | ISO_REPEATABLE_READ | ISO_SERIALIZABLE

primrec iso_num :: "enum_tx_isolation \<Rightarrow> nat" where
  "iso_num ISO_READ_UNCOMMITTED = 0" | "iso_num ISO_READ_COMMITTED = 1" | "iso_num ISO_REPEATABLE_READ = 2" | "iso_num ISO_SERIALIZABLE = 3"

definition BINLOG_DIRECT_ON :: uint32 where "BINLOG_DIRECT_ON = 0xF0"
definition BINLOG_DIRECT_OFF :: uint32 where "BINLOG_DIRECT_OFF = 0xF"
definition TRX_CACHE_EMPTY :: uint32 where "TRX_CACHE_EMPTY = 0x33"
definition TRX_CACHE_NOT_EMPTY :: uint32 where "TRX_CACHE_NOT_EMPTY = 0xCC"
definition IL_LT_REPEATABLE :: uint32 where "IL_LT_REPEATABLE = 0xAA"
definition IL_GTE_REPEATABLE :: uint32 where "IL_GTE_REPEATABLE = 0x55"

definition mixed_condition :: "bool \<Rightarrow> bool \<Rightarrow> enum_tx_isolation \<Rightarrow> uint32" where
  "mixed_condition binlog_direct trx_cache_is_not_empty tx_isolation =
     (if binlog_direct then BINLOG_DIRECT_ON else BINLOG_DIRECT_OFF) AND
     (if trx_cache_is_not_empty then TRX_CACHE_NOT_EMPTY else TRX_CACHE_EMPTY) AND
     (if iso_num tx_isolation \<ge> iso_num ISO_REPEATABLE_READ then IL_GTE_REPEATABLE else IL_LT_REPEATABLE)"

definition is_mixed_stmt_unsafe ::
  "(nat \<Rightarrow> uint32) \<Rightarrow> uint32 \<Rightarrow> bool \<Rightarrow> bool \<Rightarrow> bool \<Rightarrow> enum_tx_isolation \<Rightarrow> bool" where
  "is_mixed_stmt_unsafe binlog_unsafe_map flag in_multi_stmt_transaction_mode binlog_direct trx_cache_is_not_empty tx_isolation =
     (let unsafe = (if in_multi_stmt_transaction_mode
                    then binlog_unsafe_map (unat flag) AND mixed_condition binlog_direct trx_cache_is_not_empty tx_isolation \<noteq> 0
                    else False)
      in if stmt_accessed_table STMT_WRITES_NON_TRANS_TABLE flag \<and> stmt_accessed_table STMT_READS_TRANS_TABLE flag \<and>
            iso_num tx_isolation < iso_num ISO_REPEATABLE_READ then True
         else if stmt_accessed_table STMT_WRITES_TEMP_NON_TRANS_TABLE flag \<and> stmt_accessed_table STMT_READS_TRANS_TABLE flag \<and>
            iso_num tx_isolation < iso_num ISO_REPEATABLE_READ then True
         else unsafe)"

section \<open>The list as a sequence\<close>

datatype table_op = Add ptr | Mark | Chop

definition table_exec :: "table_op \<Rightarrow> table_heap \<times> Query_tables_list \<Rightarrow> (table_heap \<times> Query_tables_list) option" where
  "table_exec op s = (case op of Add t \<Rightarrow> add_to_query_tables t s
     | Mark \<Rightarrow> Some (fst s, mark_as_requiring_prelocking (query_tables_last (snd s)) (snd s))
     | Chop \<Rightarrow> chop_off_not_own_tables s)"

text \<open>The abstract list: the tables, how many of them are the statement's own once that is marked, and the tables ever added.\<close>

type_synonym table_seq = "ptr list \<times> nat option \<times> ptr set"

definition seq_exec :: "table_op \<Rightarrow> table_seq \<Rightarrow> table_seq" where
  "seq_exec op a = (let (ts, own, used) = a in case op of Add t \<Rightarrow> (ts @ [t], own, insert t used)
     | Mark \<Rightarrow> (ts, Some (length ts), used)
     | Chop \<Rightarrow> (case own of Some n \<Rightarrow> (take n ts, None, used) | None \<Rightarrow> (ts, None, used)))"

definition seq_ok :: "ptr set \<Rightarrow> table_op \<Rightarrow> table_seq \<Rightarrow> bool" where
  "seq_ok U op a = (let (ts, own, used) = a in case op of Add t \<Rightarrow> t \<noteq> 0 \<and> t \<in> U \<and> t \<notin> used | _ \<Rightarrow> True)"

definition link_of :: "ptr list \<Rightarrow> nat \<Rightarrow> table_link" where
  "link_of ts n = (if n = 0 then Query_tables else Next_global (ts ! (n - 1)))"

lemma link_of_append [simp]: "n \<le> length ts \<Longrightarrow> link_of (ts @ us) n = link_of ts n"
  by (auto simp: link_of_def nth_append)

lemma link_of_take [simp]: "i \<le> n \<Longrightarrow> link_of (take n ts) i = link_of ts i"
  by (auto simp: link_of_def)

definition table_rel :: "ptr set \<Rightarrow> table_heap \<times> Query_tables_list \<Rightarrow> table_seq \<Rightarrow> bool" where
  "table_rel U s a = (let (h, q) = s; (ts, own, used) = a in
     distinct ts \<and> set ts \<subseteq> used \<and> chain next_global h (query_tables q) ts \<and> query_tables_last q = link_of ts (length ts) \<and>
     query_tables_own_last q = map_option (link_of ts) own \<and> (\<forall>n. own = Some n \<longrightarrow> n \<le> length ts) \<and>
     (\<forall>t\<in>U - used. \<exists>n. h t = Some n \<and> next_global n = 0) \<and>
     (\<forall>i<length ts. \<exists>n. h (ts ! i) = Some n \<and> prev_global n = link_of ts i))"

lemma table_relD:
  assumes "table_rel U (h, q) (ts, own, used)"
  shows "distinct ts" "set ts \<subseteq> used" "chain next_global h (query_tables q) ts" "query_tables_last q = link_of ts (length ts)"
    "query_tables_own_last q = map_option (link_of ts) own" "own = Some n \<Longrightarrow> n \<le> length ts"
    "t \<in> U \<Longrightarrow> t \<notin> used \<Longrightarrow> \<exists>n. h t = Some n \<and> next_global n = 0"
    "i < length ts \<Longrightarrow> \<exists>n. h (ts ! i) = Some n \<and> prev_global n = link_of ts i"
  using assms by (simp_all add: table_rel_def)

lemma chain_cut:
  assumes "distinct (us @ a # vs)" "chain nxt h p (us @ a # vs)" "nxt n' = 0"
  shows "chain nxt (h(a \<mapsto> n')) p (us @ [a])"
  using assms
proof (induction us arbitrary: p)
  case (Cons u us)
  then obtain n where n: "p = u" "u \<noteq> 0" "h u = Some n" "chain nxt h (nxt n) (us @ a # vs)" by auto
  define g where "g = h(a \<mapsto> n')"
  have "chain nxt g (nxt n) (us @ [a])" unfolding g_def by (intro Cons.IH) (use Cons.prems n(4) in simp_all)
  moreover have "g u = Some n" using Cons.prems(1) n(3) by (simp add: g_def)
  ultimately have "chain nxt g p ((u # us) @ [a])" using n(1,2) by simp
  then show ?case by (simp only: g_def)
qed auto

lemma chain_extend:
  assumes "chain nxt h p (us @ [a])" "distinct (us @ [a, b])" "b \<noteq> 0" "h a = Some na" "nxt na' = b" "h b = Some nb" "nxt nb = 0"
  shows "chain nxt (h(a \<mapsto> na')) p (us @ [a, b])"
proof -
  have "chain nxt (h(a \<mapsto> na', b \<mapsto> nb)) p (us @ [a, b])" using chain_snoc [of us a b nxt h p na na' nb] assms by simp
  moreover have "h(a \<mapsto> na', b \<mapsto> nb) = h(a \<mapsto> na')" using assms(2,6) by auto
  ultimately show ?thesis by simp
qed

lemma add_step:
  assumes "table_rel U (h, q) (ts, own, used)" "t \<noteq> 0" "t \<in> U" "t \<notin> used"
  shows "\<exists>s'. add_to_query_tables t (h, q) = Some s' \<and> table_rel U s' (ts @ [t], own, insert t used)"
proof -
  note R = table_relD [OF assms(1)]
  obtain nt where nt: "h t = Some nt" "next_global nt = 0" using R(7) [OF assms(3,4)] by blast
  have t: "t \<notin> set ts" using R(2) assms(4) by blast
  define h1 where "h1 = h(t \<mapsto> nt\<lparr>prev_global := query_tables_last q\<rparr>)"
  have w: "write_node h t (\<lambda>n. n\<lparr>prev_global := query_tables_last q\<rparr>) = Some h1" using nt(1) assms(2) by (simp add: h1_def)
  have c1: "chain next_global h1 (query_tables q) ts" unfolding h1_def using R(3) chain_upd [OF t] by blast
  have p1: "\<exists>n. h1 (ts ! i) = Some n \<and> prev_global n = link_of ts i" if "i < length ts" for i
    using R(8) [OF that] t that by (auto simp: h1_def)
  have f1: "\<forall>u\<in>U - insert t used. \<exists>n. h1 u = Some n \<and> next_global n = 0" using R(7) by (auto simp: h1_def)
  have rest: "distinct (ts @ [t])" "set (ts @ [t]) \<subseteq> insert t used" "\<forall>n. own = Some n \<longrightarrow> n \<le> length ts"
    "query_tables_own_last q = map_option (link_of ts) own"
    using R(1,2,5,6) t by auto
  then have own: "query_tables_own_last q = map_option (link_of (ts @ [t])) own" by (cases own) auto
  show ?thesis
  proof (cases ts rule: rev_cases)
    case Nil
    then have l: "query_tables_last q = Query_tables" using R(4) by (simp add: link_of_def)
    have ht: "h1 t = Some (nt\<lparr>prev_global := Query_tables\<rparr>)" by (simp add: h1_def l)
    have "add_to_query_tables t (h, q) = Some (h1, q\<lparr>query_tables := t, query_tables_last := Next_global t\<rparr>)"
      using w l by (simp add: add_to_query_tables_def)
    moreover have "table_rel U (h1, q\<lparr>query_tables := t, query_tables_last := Next_global t\<rparr>) (ts @ [t], own, insert t used)"
      using Nil rest own f1 ht nt(2) assms(2) by (auto simp: table_rel_def link_of_def)
    ultimately show ?thesis by blast
  next
    case (snoc us a)
    then have l: "query_tables_last q = Next_global a" using R(4) by (simp add: link_of_def)
    obtain na where na: "h1 a = Some na" "a \<noteq> 0" using c1 snoc chain_live [OF c1] by auto
    let ?h2 = "h1(a \<mapsto> na\<lparr>next_global := t\<rparr>)"
    have "add_to_query_tables t (h, q) = Some (?h2, q\<lparr>query_tables_last := Next_global t\<rparr>)"
      using w l na by (simp add: add_to_query_tables_def)
    moreover have c2: "chain next_global ?h2 (query_tables q) (ts @ [t])"
      using chain_extend [of next_global h1 "query_tables q" us a t na "na\<lparr>next_global := t\<rparr>"] c1 snoc rest(1) assms(2) na(1) nt(2)
      by (simp add: h1_def)
    moreover have p2: "\<forall>i<length (ts @ [t]). \<exists>n. ?h2 ((ts @ [t]) ! i) = Some n \<and> prev_global n = link_of (ts @ [t]) i"
    proof (intro allI impI)
      fix i assume i: "i < length (ts @ [t])"
      show "\<exists>n. ?h2 ((ts @ [t]) ! i) = Some n \<and> prev_global n = link_of (ts @ [t]) i"
      proof (cases "i < length ts")
        case True
        then show ?thesis using p1 na by (fastforce simp: nth_append)
      next
        case False
        then have "i = length ts" using i by simp
        then have "(ts @ [t]) ! i = t" "link_of (ts @ [t]) i = query_tables_last q" using R(4) by simp_all
        moreover have "t \<noteq> a" using t snoc by auto
        ultimately show ?thesis by (simp add: h1_def)
      qed
    qed
    moreover have "\<forall>u\<in>U - insert t used. \<exists>n. ?h2 u = Some n \<and> next_global n = 0" using f1 rest(2) snoc by auto
    ultimately show ?thesis using rest own by (auto simp: table_rel_def link_of_def nth_append)
  qed
qed

lemma chop_step:
  assumes "table_rel U (h, q) (ts, Some n, used)"
  shows "\<exists>s'. chop_off_not_own_tables (h, q) = Some s' \<and> table_rel U s' (take n ts, None, used)"
proof -
  note R = table_relD [OF assms]
  have n: "n \<le> length ts" using R(6) by simp
  have f: "\<forall>t\<in>U - used. \<exists>n. h t = Some n \<and> next_global n = 0" using R(7) by blast
  have sub: "distinct (take n ts)" "set (take n ts) \<subseteq> used" using R(1,2) set_take_subset [of n ts] by auto
  show ?thesis
  proof (cases n)
    case 0
    then show ?thesis using R(5) f by (simp add: chop_off_not_own_tables_def table_rel_def link_of_def)
  next
    case (Suc k)
    let ?a = "ts ! k"
    have ts: "ts = take k ts @ ?a # drop n ts" using n Suc id_take_nth_drop [of k ts] by simp
    have tk: "take n ts = take k ts @ [?a]" using n Suc take_Suc_conv_app_nth [of k ts] by simp
    obtain na where na: "h ?a = Some na" "prev_global na = link_of ts k" using R(8) [of k] n Suc by auto
    have a0: "?a \<noteq> 0" "?a \<in> used" using chain_live [OF R(3)] R(2) n Suc by (metis nth_mem Suc_le_lessD, metis nth_mem subsetD Suc_le_lessD)
    define g where "g = h(?a \<mapsto> na\<lparr>next_global := 0\<rparr>)"
    have "chop_off_not_own_tables (h, q) = Some (g, q\<lparr>query_tables_last := link_of ts n, query_tables_own_last := None\<rparr>)"
      using R(5) na a0(1) Suc by (simp add: chop_off_not_own_tables_def link_of_def g_def)
    moreover have "chain next_global g (query_tables q) (take n ts)"
      unfolding g_def tk by (rule chain_cut [of _ _ "drop n ts"]) (use R(1,3) ts in auto)
    moreover have "\<forall>t\<in>U - used. \<exists>n. g t = Some n \<and> next_global n = 0" using f a0(2) by (auto simp: g_def)
    moreover have "\<exists>m. g (ts ! i) = Some m \<and> prev_global m = link_of ts i" if "i < n" for i
      using R(8) [of i] that n na by (auto simp: g_def)
    ultimately show ?thesis using sub n by (auto simp: table_rel_def)
  qed
qed

lemma chain_nth_next:
  "chain nxt h p ts \<Longrightarrow> k < length ts \<Longrightarrow>
     \<exists>n. h (ts ! k) = Some n \<and> ts ! k \<noteq> 0 \<and> nxt n = (if Suc k < length ts then ts ! Suc k else 0)"
proof (induction ts arbitrary: p k)
  case (Cons t ts)
  then obtain n where n: "t \<noteq> 0" "h t = Some n" "chain nxt h (nxt n) ts" by auto
  show ?case
  proof (cases k)
    case 0
    then show ?thesis using n by (cases ts) auto
  next
    case (Suc j)
    then show ?thesis using Cons.IH [OF n(3), of j] Cons.prems(2) by (cases "Suc j < length ts") simp_all
  qed
qed simp

text \<open>Reading a link of the list gives the next table.\<close>

lemma chain_link:
  assumes "chain next_global h (query_tables q) ts" "n \<le> length ts"
  shows "link_read (h, q) (link_of ts n) = Some (if n < length ts then ts ! n else 0)"
proof (cases n)
  case 0
  then show ?thesis using assms(1) by (cases ts) (auto simp: link_of_def)
next
  case (Suc k)
  from chain_nth_next [OF assms(1), of k] show ?thesis using Suc assms(2) by (auto simp: link_of_def)
qed

lemma table_exec_step:
  assumes "table_rel U s a" "seq_ok U op a"
  shows "\<exists>s'. table_exec op s = Some s' \<and> table_rel U s' (seq_exec op a)"
proof -
  obtain h q ts own used where e: "s = (h, q)" "a = (ts, own, used)" by (metis prod.exhaust)
  show ?thesis
  proof (cases op)
    case (Add t)
    then show ?thesis using assms add_step [of U h q ts own used t] by (auto simp: e table_exec_def seq_exec_def seq_ok_def)
  next
    case Mark
    then show ?thesis using assms(1)
      by (auto simp: e table_exec_def seq_exec_def mark_as_requiring_prelocking_def table_rel_def)
  next
    case Chop
    then show ?thesis
    proof (cases own)
      case None
      then show ?thesis using Chop assms(1) by (auto simp: e table_exec_def seq_exec_def chop_off_not_own_tables_def table_rel_def)
    next
      case (Some n)
      then show ?thesis using Chop assms(1) chop_step [of U h q ts n used] by (simp add: e table_exec_def seq_exec_def)
    qed
  qed
qed

interpretation tables: progress_simulation table_exec seq_exec "seq_ok U" "table_rel U" for U
  by unfold_locales (rule table_exec_step)

text \<open>
  C26: The global list of tables: for tables that were not added before, any sequence of adding a table, marking the end of the statement's own
  tables and chopping off the others succeeds; the list then holds the tables in the order they were added, without those
  chopped off, each knows the link that points to it, and the last table and the first one that is not the statement's own are
  found.
\<close>

theorem query_tables_sequence:
  assumes "\<forall>t\<in>U. \<exists>n. h t = Some n \<and> next_global n = 0"
    and "allowed (seq_ok U) seq_exec ops ([], None, {})" "fold seq_exec ops ([], None, {}) = (ts, own, used)"
  shows "\<exists>h' q'. run_opt table_exec ops (h, \<lparr>query_tables = 0, query_tables_last = Query_tables, query_tables_own_last = None\<rparr>) = Some (h', q') \<and>
    chain next_global h' (query_tables q') ts \<and>
    (\<forall>i<length ts. \<exists>n. h' (ts ! i) = Some n \<and> prev_global n = link_of ts i) \<and>
    last_table q' = Some (if ts = [] then 0 else last ts) \<and>
    requires_prelocking q' = (own \<noteq> None) \<and>
    first_not_own_table (h', q') = Some (case own of Some n \<Rightarrow> if n < length ts then ts ! n else 0 | None \<Rightarrow> 0)"
proof -
  have "table_rel U (h, \<lparr>query_tables = 0, query_tables_last = Query_tables, query_tables_own_last = None\<rparr>) ([], None, {})"
    using assms(1) by (simp add: table_rel_def link_of_def)
  from tables.run [OF this assms(2)] obtain h' q' where
    run: "run_opt table_exec ops (h, \<lparr>query_tables = 0, query_tables_last = Query_tables, query_tables_own_last = None\<rparr>) = Some (h', q')"
    and rel: "table_rel U (h', q') (ts, own, used)" using assms(3) by auto
  note R = table_relD [OF rel]
  have "last_table q' = Some (if ts = [] then 0 else last ts)"
  proof (cases "ts = []")
    case False
    then have "query_tables q' \<noteq> 0" using R(3) by (cases ts) auto
    then show ?thesis using False R(4) by (simp add: last_table_def link_of_def last_conv_nth)
  qed (use R(3) in \<open>simp add: last_table_def\<close>)
  moreover have "first_not_own_table (h', q') = Some (case own of Some n \<Rightarrow> if n < length ts then ts ! n else 0 | None \<Rightarrow> 0)"
  proof (cases own)
    case (Some n)
    have "link_read (h', q') (link_of ts n) = Some (if n < length ts then ts ! n else 0)"
      using chain_link [OF R(3), of n] R(6) [OF Some] by simp
    then show ?thesis using Some R(5) by (simp add: first_not_own_table_def)
  qed (use R(5) in \<open>simp add: first_not_own_table_def\<close>)
  moreover have "requires_prelocking q' = (own \<noteq> None)" using R(5) by (simp add: requires_prelocking_def)
  ultimately show ?thesis using run R(3,8) by blast
qed

section \<open>Flags as sets\<close>

lemma unsafe_num_lt: "unsafe_num u < BINLOG_STMT_UNSAFE_COUNT"
  by (cases u) (simp_all add: BINLOG_STMT_UNSAFE_COUNT_def)

lemma unsafe_num_inj: "unsafe_num u = unsafe_num v \<longleftrightarrow> u = v"
  by (cases u; cases v) simp_all

lemma access_num_inj: "access_num u = access_num v \<longleftrightarrow> u = v"
  by (cases u; cases v) simp_all

lemma bit_push_one: "k < 32 \<Longrightarrow> bit (push_bit k 1 :: uint32) j \<longleftrightarrow> j = k"
  by (auto simp: bit_simps)

lemma all_flags_bit: "bit BINLOG_STMT_UNSAFE_ALL_FLAGS j \<longleftrightarrow> j < 20"
proof -
  have eq: "BINLOG_STMT_UNSAFE_ALL_FLAGS = mask 20"
    by (simp add: BINLOG_STMT_UNSAFE_ALL_FLAGS_def BINLOG_STMT_UNSAFE_COUNT_def mask_eq_exp_minus_1)
  show ?thesis unfolding eq bit_mask_iff by auto
qed

lemma unsafe_num_lt20: "unsafe_num u < 20"
  using unsafe_num_lt [of u] by (simp add: BINLOG_STMT_UNSAFE_COUNT_def)

lemma unsafe_flag_bits:
  "bit (set_stmt_unsafe u f) k \<longleftrightarrow> bit f k \<or> k = unsafe_num u"
  "bit (set_stmt_row_injection f) k \<longleftrightarrow> bit f k \<or> k = 20"
  "is_stmt_unsafe_type u f \<longleftrightarrow> bit f (unsafe_num u)"
  "is_stmt_row_injection f \<longleftrightarrow> bit f 20"
  "bit (get_stmt_unsafe_flags f) k \<longleftrightarrow> bit f k \<and> k < 20"
  "bit (clear_stmt_unsafe f) k \<longleftrightarrow> bit f k \<and> \<not> k < 20"
proof -
  have lt: "unsafe_num u < 32" using unsafe_num_lt20 [of u] by simp
  show "bit (set_stmt_unsafe u f) k \<longleftrightarrow> bit f k \<or> k = unsafe_num u"
    by (simp only: set_stmt_unsafe_def bit_or_iff bit_push_one [OF lt])
  have "bit (push_bit 20 1 :: uint32) k \<longleftrightarrow> k = 20" by (rule bit_push_one) simp
  then show "bit (set_stmt_row_injection f) k \<longleftrightarrow> bit f k \<or> k = 20"
    by (simp only: set_stmt_row_injection_def BINLOG_STMT_UNSAFE_COUNT_def BINLOG_STMT_TYPE_ROW_INJECTION_def bit_or_iff add_0_right)
  show "is_stmt_unsafe_type u f \<longleftrightarrow> bit f (unsafe_num u)" "is_stmt_row_injection f \<longleftrightarrow> bit f 20"
    by (simp_all only: is_stmt_unsafe_type_def is_stmt_row_injection_def BINLOG_STMT_UNSAFE_COUNT_def
        BINLOG_STMT_TYPE_ROW_INJECTION_def bit_iff_and_push_bit_not_eq_0 add_0_right)
  show "bit (get_stmt_unsafe_flags f) k \<longleftrightarrow> bit f k \<and> k < 20" "bit (clear_stmt_unsafe f) k \<longleftrightarrow> bit f k \<and> \<not> k < 20"
    by (auto simp: get_stmt_unsafe_flags_def clear_stmt_unsafe_def bit_and_iff bit_not_iff all_flags_bit dest: bit_imp_le_length)
qed

lemma set_unsafe_bits: "bit (fold set_stmt_unsafe us f) k \<longleftrightarrow> bit f k \<or> (\<exists>u\<in>set us. k = unsafe_num u)"
  by (induction us arbitrary: f) (auto simp: unsafe_flag_bits)

lemma access_flag_bits:
  "bit (set_stmt_accessed_table u f) k \<longleftrightarrow> bit f k \<or> k = access_num u"
  "stmt_accessed_table u f \<longleftrightarrow> bit f (access_num u)"
proof -
  have "access_num u < 32" by (cases u) simp_all
  then show "bit (set_stmt_accessed_table u f) k \<longleftrightarrow> bit f k \<or> k = access_num u"
    by (simp only: set_stmt_accessed_table_def bit_or_iff bit_push_one)
  show "stmt_accessed_table u f \<longleftrightarrow> bit f (access_num u)"
    by (simp only: stmt_accessed_table_def bit_iff_and_push_bit_not_eq_0)
qed

text \<open>
  The reasons why a statement is unsafe: exactly those marked are reported, and the statement is unsafe if there is one; clearing them
  removes all and keeps the mark of a row injection, which is independent of them.
\<close>

theorem unsafe_flags_are_a_set:
  fixes us :: "enum_binlog_stmt_unsafe list" and row :: bool
  defines "f \<equiv> fold set_stmt_unsafe us (if row then set_stmt_row_injection 0 else 0)"
  shows "is_stmt_unsafe_type u f = (u \<in> set us) \<and> is_stmt_unsafe f = (us \<noteq> []) \<and> is_stmt_row_injection f = row \<and>
    \<not> is_stmt_unsafe (clear_stmt_unsafe f) \<and> is_stmt_row_injection (clear_stmt_unsafe f) = row \<and>
    set_stmt_unsafe_flags (get_stmt_unsafe_flags f) f = Some f"
proof -
  have f: "bit f k \<longleftrightarrow> (row \<and> k = 20) \<or> (\<exists>v\<in>set us. k = unsafe_num v)" for k
    unfolding f_def set_unsafe_bits by (auto simp: unsafe_flag_bits)
  have n20: "unsafe_num v \<noteq> 20" for v using unsafe_num_lt20 [of v] by simp
  have "w \<noteq> 0 \<longleftrightarrow> (\<exists>k. bit w k)" for w :: uint32
    by (metis bit_0_eq bot_apply bot_bool_def bit_eqI)
  then have "is_stmt_unsafe f \<longleftrightarrow> (\<exists>k. bit (get_stmt_unsafe_flags f) k)" by (simp only: is_stmt_unsafe_def)
  then have "is_stmt_unsafe f = (us \<noteq> [])" using unsafe_num_lt20 by (auto simp: unsafe_flag_bits f) (metis last_in_set)
  moreover have "is_stmt_unsafe_type u f = (u \<in> set us)" using n20 by (auto simp: unsafe_flag_bits f unsafe_num_inj)
  moreover have "is_stmt_row_injection f = row" "is_stmt_row_injection (clear_stmt_unsafe f) = row"
    using n20 by (auto simp: unsafe_flag_bits f)
  moreover have "\<not> is_stmt_unsafe (clear_stmt_unsafe f)" by (auto simp: is_stmt_unsafe_def bit_eq_iff unsafe_flag_bits)
  moreover have "set_stmt_unsafe_flags (get_stmt_unsafe_flags f) f = Some f"
  proof -
    have "get_stmt_unsafe_flags f AND NOT BINLOG_STMT_UNSAFE_ALL_FLAGS = 0" "f OR get_stmt_unsafe_flags f = f"
      by (auto simp: bit_eq_iff unsafe_flag_bits bit_and_iff bit_or_iff bit_not_iff all_flags_bit)
    then show ?thesis by (simp add: set_stmt_unsafe_flags_def)
  qed
  ultimately show ?thesis by blast
qed

text \<open>The eight configurations of a session select eight different bits of the map.\<close>

definition config_bit :: "bool \<Rightarrow> bool \<Rightarrow> enum_tx_isolation \<Rightarrow> nat" where
  "config_bit direct not_empty level = (if direct then 4 else 0) + (if not_empty then 2 else 0) + (if iso_num level < 2 then 1 else 0)"

lemma mixed_condition_bit: "mixed_condition d e i = push_bit (config_bit d e i) 1"
  by (cases d; cases e; cases i)
    (simp_all add: mixed_condition_def config_bit_def BINLOG_DIRECT_ON_def BINLOG_DIRECT_OFF_def TRX_CACHE_EMPTY_def
      TRX_CACHE_NOT_EMPTY_def IL_LT_REPEATABLE_def IL_GTE_REPEATABLE_def)

text \<open>
  A statement that mixes transactional and non-transactional tables is unsafe exactly in two cases: inside a transaction, when the map
  says so for the tables accessed in the bit that belongs to the configuration of the session; and, anywhere, when it writes a
  non-transactional table, temporary or not, and reads a transactional one below the isolation level of repeatable reads.
\<close>

theorem mixed_statement_unsafe:
  fixes acc :: "enum_stmt_accessed_table list"
  defines "f \<equiv> fold set_stmt_accessed_table acc 0"
  shows "is_mixed_stmt_unsafe umap f in_trans direct not_empty level =
    (in_trans \<and> bit (umap (unat f)) (config_bit direct not_empty level) \<or>
     level \<in> {ISO_READ_UNCOMMITTED, ISO_READ_COMMITTED} \<and> STMT_READS_TRANS_TABLE \<in> set acc \<and>
     (STMT_WRITES_NON_TRANS_TABLE \<in> set acc \<or> STMT_WRITES_TEMP_NON_TRANS_TABLE \<in> set acc))"
proof -
  have "bit (fold set_stmt_accessed_table acc g) k \<longleftrightarrow> bit g k \<or> (\<exists>u\<in>set acc. k = access_num u)" for g k
    by (induction acc arbitrary: g) (auto simp: access_flag_bits)
  then have acc: "stmt_accessed_table u f \<longleftrightarrow> u \<in> set acc" for u
    by (auto simp: f_def access_flag_bits access_num_inj)
  show ?thesis
    by (cases level) (auto simp: is_mixed_stmt_unsafe_def acc mixed_condition_bit bit_iff_and_push_bit_not_eq_0 Let_def)
qed

section \<open>Concrete cases\<close>

definition sample_tables :: table_heap where
  "sample_tables = (\<lambda>t. if t \<in> {1, 2, 3} then Some \<lparr>next_global = 0, prev_global = Query_tables\<rparr> else None)"

theorem query_tables_sequence_witness:
  "\<exists>h' q'. run_opt table_exec [Add 1, Mark, Add 2, Chop, Add 3]
     (sample_tables, \<lparr>query_tables = 0, query_tables_last = Query_tables, query_tables_own_last = None\<rparr>) = Some (h', q') \<and>
     chain next_global h' (query_tables q') [1, 3] \<and> last_table q' = Some 3"
proof -
  let ?ops = "[Add 1, Mark, Add 2, Chop, Add 3]"
  have "\<forall>t\<in>{1, 2, 3}. \<exists>n. sample_tables t = Some n \<and> next_global n = 0" by (simp add: sample_tables_def)
  moreover have "allowed (seq_ok {1, 2, 3}) seq_exec ?ops ([], None, {})" "fold seq_exec ?ops ([], None, {}) = ([1, 3], None, {1, 2, 3})"
    by (auto simp: seq_ok_def seq_exec_def)
  ultimately have "\<exists>h' q'. run_opt table_exec ?ops
     (sample_tables, \<lparr>query_tables = 0, query_tables_last = Query_tables, query_tables_own_last = None\<rparr>) = Some (h', q') \<and>
     chain next_global h' (query_tables q') [1, 3] \<and> last_table q' = Some (if [1, 3] = ([] :: nat list) then 0 else last [1, 3])"
    using query_tables_sequence [of "{1, 2, 3}" sample_tables ?ops "[1, 3]" None "{1, 2, 3}"] by blast
  moreover have "(if [1, 3] = ([] :: nat list) then 0 else last [1, 3]) = (3 :: nat)" by simp
  ultimately show ?thesis by (simp only:)
qed

end
