(* ===== verification/BoundedQueue.thy ===== *)
theory BoundedQueue
  imports NodeHeap Runs "HOL-Library.Multiset"
begin

text \<open>
  The queue that keeps the best \<open>N\<close> keys of a sort with a limit (\<^verbatim>\<open>bounded_queue.h\<close>) on top of the priority queues of \<^verbatim>\<open>queues.h\<close>.  A
  priority queue is an array of elements that starts at position 1.  The functions that keep it in heap order (\<open>queue_insert\<close>, \<open>_downheap\<close>,
  \<open>queue_remove\<close>, \<open>init_queue\<close>) are declared only, so they are arguments; they see the keys in memory through a function.  An element of
  a bounded queue is a slot of the array \<open>m_sort_keys\<close>, given by its index.
\<close>

section \<open>Priority queues\<close>

record st_queue =
  root :: "nat list"
  elements :: uint32
  max_elements :: uint32
  max_at_top :: int

definition queue_first_element :: uint32 where "queue_first_element = 1"

definition queue_last_element :: "st_queue \<Rightarrow> uint32" where
  "queue_last_element q = elements q"

definition st_queue_empty :: "st_queue \<Rightarrow> bool" where
  "st_queue_empty q \<longleftrightarrow> elements q = 0"

definition queue_element :: "st_queue \<Rightarrow> uint32 \<Rightarrow> nat option" where
  "queue_element q index = (if unat index < length (root q) then Some (root q ! unat index) else None)"

definition queue_top :: "st_queue \<Rightarrow> nat option" where
  "queue_top q = queue_element q 1"

definition queue_end :: "st_queue \<Rightarrow> nat option" where
  "queue_end q = queue_element q (elements q)"

definition queue_replace_top :: "(st_queue \<Rightarrow> uint32 \<Rightarrow> nat \<Rightarrow> st_queue option) \<Rightarrow> st_queue \<Rightarrow> st_queue option" where
  "queue_replace_top downheap q = do { t \<leftarrow> queue_top q; downheap q 1 t }"

definition queue_set_max_at_top :: "bool \<Rightarrow> st_queue \<Rightarrow> st_queue" where
  "queue_set_max_at_top set_arg q = q\<lparr>max_at_top := if set_arg then -1 else 1\<rparr>"

definition queue_remove_top :: "(st_queue \<Rightarrow> uint32 \<Rightarrow> 'r) \<Rightarrow> st_queue \<Rightarrow> 'r" where
  "queue_remove_top queue_remove q = queue_remove q queue_first_element"

definition queue_remove_all :: "st_queue \<Rightarrow> st_queue" where
  "queue_remove_all q = q\<lparr>elements := 0\<rparr>"

definition queue_is_full :: "st_queue \<Rightarrow> bool" where
  "queue_is_full q \<longleftrightarrow> elements q = max_elements q"

section \<open>Bounded queues\<close>

record 'k Bounded_queue =
  m_sort_keys :: "'k list"
  m_queue :: st_queue

definition bq_new :: "'k Bounded_queue" where
  "bq_new = \<lparr>m_sort_keys = [], m_queue = \<lparr>root = [], elements = 0, max_elements = 0, max_at_top = 0\<rparr>\<rparr>"

definition is_initialized :: "'k Bounded_queue \<Rightarrow> bool" where
  "is_initialized b \<longleftrightarrow> max_elements (m_queue b) > 0"

definition num_elements :: "'k Bounded_queue \<Rightarrow> uint32" where
  "num_elements b = elements (m_queue b)"

definition UINT_MAX :: uint64 where "UINT_MAX = 0xFFFFFFFF"

definition bq_init ::
  "(st_queue \<Rightarrow> uint32 \<Rightarrow> bool \<Rightarrow> int \<times> st_queue) \<Rightarrow> uint64 \<Rightarrow> bool \<Rightarrow> 'k list \<Rightarrow> 'k Bounded_queue \<Rightarrow> int \<times> 'k Bounded_queue" where
  "bq_init init_queue max_elems max_top sort_keys b =
     (let b1 = b\<lparr>m_sort_keys := sort_keys\<rparr>
      in if max_elems \<ge> UINT_MAX - 1 then (1, b1)
         else let (r, q) = init_queue (m_queue b1) (ucast max_elems + 1) max_top in (r, b1\<lparr>m_queue := q\<rparr>))"

definition put_key :: "'k \<Rightarrow> nat \<Rightarrow> 'k Bounded_queue \<Rightarrow> 'k Bounded_queue option" where
  "put_key k slot b = (if slot < length (m_sort_keys b) then Some (b\<lparr>m_sort_keys := (m_sort_keys b)[slot := k]\<rparr>) else None)"

definition key_at :: "'k Bounded_queue \<Rightarrow> nat \<Rightarrow> 'k" where
  "key_at b slot = m_sort_keys b ! slot"

definition bq_push ::
  "('e \<Rightarrow> 'k) \<Rightarrow> ((nat \<Rightarrow> 'k) \<Rightarrow> st_queue \<Rightarrow> nat \<Rightarrow> st_queue option) \<Rightarrow> ((nat \<Rightarrow> 'k) \<Rightarrow> st_queue \<Rightarrow> uint32 \<Rightarrow> nat \<Rightarrow> st_queue option) \<Rightarrow>
     'e \<Rightarrow> 'k Bounded_queue \<Rightarrow> 'k Bounded_queue option" where
  "bq_push m_keymaker queue_insert downheap element b =
     do { DBUG_ASSERT (is_initialized b);
          if queue_is_full (m_queue b) then
            do { pq_top \<leftarrow> queue_top (m_queue b);
                 b1 \<leftarrow> put_key (m_keymaker element) pq_top b;
                 q \<leftarrow> queue_replace_top (downheap (key_at b1)) (m_queue b1);
                 Some (b1\<lparr>m_queue := q\<rparr>) }
          else
            do { b1 \<leftarrow> put_key (m_keymaker element) (unat (elements (m_queue b))) b;
                 q \<leftarrow> queue_insert (key_at b1) (m_queue b1) (unat (elements (m_queue b1)));
                 Some (b1\<lparr>m_queue := q\<rparr>) } }"

definition bq_pop ::
  "((nat \<Rightarrow> 'k) \<Rightarrow> st_queue \<Rightarrow> uint32 \<Rightarrow> (nat \<times> st_queue) option) \<Rightarrow> 'k Bounded_queue \<Rightarrow> (nat option \<times> 'k Bounded_queue) option" where
  "bq_pop queue_remove b =
     do { q1 \<leftarrow> (if queue_is_full (m_queue b) then map_option snd (queue_remove (key_at b) (m_queue b) 0) else Some (m_queue b));
          DBUG_ASSERT (elements q1 > 0);
          if elements q1 = 0 then Some (None, b\<lparr>m_queue := q1\<rparr>)
          else do { (r, q2) \<leftarrow> queue_remove (key_at b) q1 0; Some (Some r, b\<lparr>m_queue := q2\<rparr>) } }"

section \<open>What the queue functions promise\<close>

text \<open>\<open>a\<close> may stand above \<open>b\<close>: \<open>max_at_top\<close> is 1 for the smallest element on top and -1 for the largest.\<close>

definition ranks :: "('k \<Rightarrow> 'k \<Rightarrow> int) \<Rightarrow> int \<Rightarrow> 'k \<Rightarrow> 'k \<Rightarrow> bool" where
  "ranks cmp dir a b \<longleftrightarrow> dir * cmp a b \<le> 0"

definition compare_function :: "('k \<Rightarrow> 'k \<Rightarrow> int) \<Rightarrow> bool" where
  "compare_function cmp \<longleftrightarrow> (\<forall>a b. (cmp a b \<le> 0 \<longleftrightarrow> 0 \<le> cmp b a)) \<and> (\<forall>a b c. cmp a b \<le> 0 \<longrightarrow> cmp b c \<le> 0 \<longrightarrow> cmp a c \<le> 0)"

definition slots :: "st_queue \<Rightarrow> nat list" where
  "slots q = take (unat (elements q)) (tl (root q))"

text \<open>The array is large enough, and from position \<open>k\<close> on each element is above its two children.\<close>

definition queue_heap :: "('k \<Rightarrow> 'k \<Rightarrow> int) \<Rightarrow> nat \<Rightarrow> (nat \<Rightarrow> 'k) \<Rightarrow> st_queue \<Rightarrow> bool" where
  "queue_heap cmp k key q \<longleftrightarrow> unat (elements q) \<le> unat (max_elements q) \<and> unat (max_elements q) < length (root q) \<and>
     (\<forall>i\<in>{2..unat (elements q)}. k \<le> i div 2 \<longrightarrow> ranks cmp (max_at_top q) (key (root q ! (i div 2))) (key (root q ! i)))"

text \<open>
  \<open>queue_insert\<close> adds an element to a queue that is not full, \<open>_downheap\<close> at position 1 restores the order of a queue that lacks it at the top only;
  \<open>init_queue\<close> makes an empty queue when it returns 0.
\<close>

definition queue_functions ::
  "('k \<Rightarrow> 'k \<Rightarrow> int) \<Rightarrow> ((nat \<Rightarrow> 'k) \<Rightarrow> st_queue \<Rightarrow> nat \<Rightarrow> st_queue option) \<Rightarrow>
     ((nat \<Rightarrow> 'k) \<Rightarrow> st_queue \<Rightarrow> uint32 \<Rightarrow> nat \<Rightarrow> st_queue option) \<Rightarrow> (st_queue \<Rightarrow> uint32 \<Rightarrow> bool \<Rightarrow> int \<times> st_queue) \<Rightarrow> bool" where
  "queue_functions cmp queue_insert downheap init_queue \<longleftrightarrow>
     (\<forall>key q e. queue_heap cmp 1 key q \<and> elements q < max_elements q \<longrightarrow>
        (\<exists>q'. queue_insert key q e = Some q' \<and> queue_heap cmp 1 key q' \<and> mset (slots q') = add_mset e (mset (slots q)) \<and>
           elements q' = elements q + 1 \<and> max_elements q' = max_elements q \<and> max_at_top q' = max_at_top q)) \<and>
     (\<forall>key q. queue_heap cmp 2 key q \<and> 0 < elements q \<longrightarrow>
        (\<exists>q'. downheap key q 1 (root q ! 1) = Some q' \<and> queue_heap cmp 1 key q' \<and> mset (slots q') = mset (slots q) \<and>
           elements q' = elements q \<and> max_elements q' = max_elements q \<and> max_at_top q' = max_at_top q)) \<and>
     (\<forall>q n dir q'. init_queue q n dir = (0, q') \<longrightarrow>
        elements q' = 0 \<and> max_elements q' = n \<and> unat n < length (root q') \<and> max_at_top q' = (if dir then -1 else 1))"

section \<open>The queue keeps the best keys\<close>

lemma ranks_refl: "compare_function cmp \<Longrightarrow> dir = 1 \<or> dir = -1 \<Longrightarrow> ranks cmp dir a a"
  unfolding compare_function_def ranks_def by (metis linorder_linear mult_minus1 mult_1 neg_le_0_iff_le)

lemma ranks_trans: "compare_function cmp \<Longrightarrow> dir = 1 \<or> dir = -1 \<Longrightarrow> ranks cmp dir a b \<Longrightarrow> ranks cmp dir b c \<Longrightarrow> ranks cmp dir a c"
  unfolding compare_function_def ranks_def by (auto; metis)

text \<open>In a heap the top is above every element.\<close>

lemma top_above:
  assumes "compare_function cmp" "max_at_top q = 1 \<or> max_at_top q = -1" "queue_heap cmp 1 key q" "1 \<le> i" "i \<le> unat (elements q)"
  shows "ranks cmp (max_at_top q) (key (root q ! 1)) (key (root q ! i))"
  using assms(4,5)
proof (induction i rule: less_induct)
  case (less i)
  show ?case
  proof (cases "i = 1")
    case False
    then have "ranks cmp (max_at_top q) (key (root q ! 1)) (key (root q ! (i div 2)))"
      using less.prems by (intro less.IH) auto
    moreover have "ranks cmp (max_at_top q) (key (root q ! (i div 2))) (key (root q ! i))"
      using assms(3) less.prems False unfolding queue_heap_def by auto
    ultimately show ?thesis using ranks_trans [OF assms(1,2)] by blast
  qed (simp add: ranks_refl [OF assms(1,2)])
qed

lemma slots_nth: "queue_heap cmp k key q \<Longrightarrow> i < unat (elements q) \<Longrightarrow> slots q ! i = root q ! Suc i"
  by (auto simp: slots_def queue_heap_def nth_tl)

lemma length_slots: "queue_heap cmp k key q \<Longrightarrow> length (slots q) = unat (elements q)"
  by (auto simp: slots_def queue_heap_def)

text \<open>The keys that are kept: all, except for the top of a full queue, which is the slot to spare.\<close>

definition queue_keys :: "'k Bounded_queue \<Rightarrow> 'k multiset" where
  "queue_keys b = image_mset (key_at b) (mset (slots (m_queue b)))"

definition kept_keys :: "'k Bounded_queue \<Rightarrow> 'k multiset" where
  "kept_keys b = (if queue_is_full (m_queue b) then queue_keys b - {#key_at b (root (m_queue b) ! 1)#} else queue_keys b)"

definition bq_inv :: "('k \<Rightarrow> 'k \<Rightarrow> int) \<Rightarrow> nat \<Rightarrow> int \<Rightarrow> 'k Bounded_queue \<Rightarrow> bool" where
  "bq_inv cmp N dir b \<longleftrightarrow> unat (max_elements (m_queue b)) = Suc N \<and> max_at_top (m_queue b) = dir \<and>
     N < length (m_sort_keys b) \<and> queue_heap cmp 1 (key_at b) (m_queue b) \<and>
     mset (slots (m_queue b)) = mset [0..<unat (elements (m_queue b))]"

text \<open>All keys are those kept and others that none of the kept ones is above.\<close>

definition bq_rel :: "('k \<Rightarrow> 'k \<Rightarrow> int) \<Rightarrow> nat \<Rightarrow> int \<Rightarrow> 'k Bounded_queue \<Rightarrow> 'k multiset \<Rightarrow> bool" where
  "bq_rel cmp N dir b A \<longleftrightarrow> bq_inv cmp N dir b \<and>
     (\<exists>rest. A = kept_keys b + rest \<and> (\<forall>a\<in>#kept_keys b. \<forall>r\<in>#rest. ranks cmp dir r a) \<and>
        (\<not> queue_is_full (m_queue b) \<longrightarrow> rest = {#}))"

lemma queue_heap_cong:
  assumes "queue_heap cmp k key q" "1 \<le> k" "\<And>i. k \<le> i \<Longrightarrow> i \<le> unat (elements q) \<Longrightarrow> key' (root q ! i) = key (root q ! i)"
  shows "queue_heap cmp k key' q"
proof -
  have "key' (root q ! (i div 2)) = key (root q ! (i div 2)) \<and> key' (root q ! i) = key (root q ! i)"
    if "i \<in> {2..unat (elements q)}" "k \<le> i div 2" for i
    using that assms(2) by (intro conjI assms(3)) auto
  then show ?thesis using assms(1) unfolding queue_heap_def by simp
qed

lemma bq_invD:
  assumes "bq_inv cmp N dir b"
  shows "unat (max_elements (m_queue b)) = Suc N" "max_at_top (m_queue b) = dir" "N < length (m_sort_keys b)"
    "queue_heap cmp 1 (key_at b) (m_queue b)" "unat (elements (m_queue b)) \<le> Suc N"
    "distinct (slots (m_queue b))" "set (slots (m_queue b)) = {0..<unat (elements (m_queue b))}" "is_initialized b"
proof -
  have "mset (slots (m_queue b)) = mset [0..<unat (elements (m_queue b))]" using assms by (simp add: bq_inv_def)
  then show "distinct (slots (m_queue b))" "set (slots (m_queue b)) = {0..<unat (elements (m_queue b))}"
    by (metis distinct_upt mset_eq_imp_distinct_iff) (metis mset_eq_setD set_upt \<open>mset _ = _\<close>)
qed (use assms in \<open>auto simp: bq_inv_def queue_heap_def is_initialized_def word_less_nat_alt\<close>)

text \<open>The position of an element determines it.\<close>

lemma root_position:
  assumes "bq_inv cmp N dir b" "1 \<le> i" "i \<le> unat (elements (m_queue b))"
  shows "root (m_queue b) ! i < unat (elements (m_queue b))"
    "1 \<le> j \<Longrightarrow> j \<le> unat (elements (m_queue b)) \<Longrightarrow> root (m_queue b) ! i = root (m_queue b) ! j \<Longrightarrow> i = j"
proof -
  note I = bq_invD [OF assms(1)]
  have n: "slots (m_queue b) ! (k - 1) = root (m_queue b) ! k" if "1 \<le> k" "k \<le> unat (elements (m_queue b))" for k
    using slots_nth [OF I(4), of "k - 1"] that by simp
  have l: "length (slots (m_queue b)) = unat (elements (m_queue b))" using length_slots [OF I(4)] .
  have "slots (m_queue b) ! (i - 1) \<in> set (slots (m_queue b))" using assms(2,3) l by (intro nth_mem) simp
  then show "root (m_queue b) ! i < unat (elements (m_queue b))" using I(7) n [OF assms(2,3)] by simp
  assume j: "1 \<le> j" "j \<le> unat (elements (m_queue b))" "root (m_queue b) ! i = root (m_queue b) ! j"
  then have "slots (m_queue b) ! (i - 1) = slots (m_queue b) ! (j - 1)" using n [OF assms(2,3)] n [OF j(1,2)] by simp
  then have "i - 1 = j - 1" by (rule nth_eq_iff_index_eq [OF I(6), THEN iffD1, rotated 2]) (use l assms(2,3) j in auto)
  then show "i = j" using assms(2) j(1) by simp
qed

lemma push_room:
  assumes F: "queue_functions cmp queue_insert downheap init_queue"
    and inv: "bq_inv cmp N dir b" and room: "\<not> queue_is_full (m_queue b)"
  shows "\<exists>b'. bq_push km queue_insert downheap e b = Some b' \<and> bq_inv cmp N dir b' \<and> queue_keys b' = add_mset (km e) (queue_keys b) \<and>
    unat (elements (m_queue b')) = Suc (unat (elements (m_queue b)))"
proof -
  note I = bq_invD [OF inv]
  define n where "n = unat (elements (m_queue b))"
  have lt: "n < Suc N" using I(1,5) room unfolding queue_is_full_def n_def by (metis le_less unsigned_word_eqI)
  define b1 where "b1 = b\<lparr>m_sort_keys := (m_sort_keys b)[n := km e]\<rparr>"
  have put: "put_key (km e) n b = Some b1" using lt I(3) by (simp add: put_key_def b1_def)
  have key: "key_at b1 s = (if s = n then km e else key_at b s)" for s using lt I(3) by (simp add: key_at_def b1_def)
  have q: "m_queue b1 = m_queue b" by (simp add: b1_def)
  have "queue_heap cmp 1 (key_at b1) (m_queue b)"
  proof (rule queue_heap_cong [OF I(4)])
    fix i assume "1 \<le> i" "i \<le> unat (elements (m_queue b))"
    then show "key_at b1 (root (m_queue b) ! i) = key_at b (root (m_queue b) ! i)"
      using root_position(1) [OF inv, of i] by (simp add: key n_def)
  qed simp
  moreover have "elements (m_queue b) < max_elements (m_queue b)" using lt I(1) by (simp add: word_less_nat_alt n_def)
  ultimately obtain q' where q': "queue_insert (key_at b1) (m_queue b) n = Some q'" "queue_heap cmp 1 (key_at b1) q'"
      "mset (slots q') = add_mset n (mset (slots (m_queue b)))" "elements q' = elements (m_queue b) + 1"
      "max_elements q' = max_elements (m_queue b)" "max_at_top q' = max_at_top (m_queue b)"
    using F unfolding queue_functions_def by blast
  have n1: "unat (elements q') = Suc n"
    using q'(4) lt I(1) uint32_lt [of "max_elements (m_queue b)"] by (simp add: n_def unat_word_ariths)
  define b2 where "b2 = b1\<lparr>m_queue := q'\<rparr>"
  have k2: "key_at b2 = key_at b1" by (simp add: b2_def key_at_def fun_eq_iff)
  have "bq_push km queue_insert downheap e b = Some b2"
    using room put q'(1) I(8) by (simp add: bq_push_def q b2_def n_def)
  moreover have "bq_inv cmp N dir b2"
    using q' I inv n1 unfolding bq_inv_def k2 by (simp add: b2_def b1_def n_def)
  moreover have "queue_keys b2 = add_mset (km e) (queue_keys b)"
  proof -
    have "image_mset (key_at b1) (mset (slots (m_queue b))) = image_mset (key_at b) (mset (slots (m_queue b)))"
      using I(7) by (intro image_mset_cong) (auto simp: key n_def)
    then show ?thesis using q'(3) by (simp add: queue_keys_def k2 key) (simp add: b2_def key)
  qed
  moreover have "unat (elements (m_queue b2)) = Suc (unat (elements (m_queue b)))" using n1 by (simp add: b2_def n_def)
  ultimately show ?thesis by blast
qed

lemma kept_split:
  assumes "compare_function cmp" "dir = 1 \<or> dir = -1" "bq_inv cmp N dir b" "queue_is_full (m_queue b)"
  shows "queue_keys b = add_mset (key_at b (root (m_queue b) ! 1)) (kept_keys b)"
    "a \<in># queue_keys b \<Longrightarrow> ranks cmp dir (key_at b (root (m_queue b) ! 1)) a"
proof -
  note I = bq_invD [OF assms(3)]
  have n: "unat (elements (m_queue b)) = Suc N" using assms(4) I(1) by (simp add: queue_is_full_def)
  have "root (m_queue b) ! 1 \<in># mset (slots (m_queue b))"
    using root_position(1) [OF assms(3), of 1] I(7) n by simp
  then have "key_at b (root (m_queue b) ! 1) \<in># queue_keys b" by (auto simp: queue_keys_def)
  then show "queue_keys b = add_mset (key_at b (root (m_queue b) ! 1)) (kept_keys b)"
    using assms(4) by (simp add: kept_keys_def)
  assume "a \<in># queue_keys b"
  then obtain i where "i < length (slots (m_queue b))" "a = key_at b (slots (m_queue b) ! i)"
    by (auto simp: queue_keys_def in_set_conv_nth)
  then show "ranks cmp dir (key_at b (root (m_queue b) ! 1)) a"
    using top_above [OF assms(1) _ I(4), of "Suc i"] assms(2) I(2) slots_nth [OF I(4)] length_slots [OF I(4)] by auto
qed

lemma push_full:
  assumes F: "queue_functions cmp queue_insert downheap init_queue"
    and inv: "bq_inv cmp N dir b" and full: "queue_is_full (m_queue b)"
  shows "\<exists>b'. bq_push km queue_insert downheap e b = Some b' \<and> bq_inv cmp N dir b' \<and> queue_keys b' = add_mset (km e) (kept_keys b) \<and>
    queue_is_full (m_queue b')"
proof -
  note I = bq_invD [OF inv]
  have n: "unat (elements (m_queue b)) = Suc N" using full I(1) by (simp add: queue_is_full_def)
  define t where "t = root (m_queue b) ! 1"
  have t: "t < Suc N" using root_position(1) [OF inv, of 1] n by (simp add: t_def)
  have qt: "queue_top (m_queue b) = Some t" using I(1,4) by (auto simp: queue_top_def queue_element_def queue_heap_def t_def)
  define b1 where "b1 = b\<lparr>m_sort_keys := (m_sort_keys b)[t := km e]\<rparr>"
  have put: "put_key (km e) t b = Some b1" using t I(3) by (simp add: put_key_def b1_def)
  have key: "key_at b1 s = (if s = t then km e else key_at b s)" for s using t I(3) by (simp add: key_at_def b1_def)
  have q: "m_queue b1 = m_queue b" by (simp add: b1_def)
  have "queue_heap cmp 2 (key_at b) (m_queue b)" using I(4) by (auto simp: queue_heap_def)
  then have "queue_heap cmp 2 (key_at b1) (m_queue b)"
  proof (rule queue_heap_cong)
    fix i assume "2 \<le> i" "i \<le> unat (elements (m_queue b))"
    then show "key_at b1 (root (m_queue b) ! i) = key_at b (root (m_queue b) ! i)"
      using root_position(2) [OF inv, of i 1] n by (auto simp: key t_def)
  qed simp
  moreover have "0 < elements (m_queue b)" using n by (simp add: word_less_nat_alt)
  ultimately obtain q' where q': "downheap (key_at b1) (m_queue b) 1 t = Some q'" "queue_heap cmp 1 (key_at b1) q'"
      "mset (slots q') = mset (slots (m_queue b))" "elements q' = elements (m_queue b)"
      "max_elements q' = max_elements (m_queue b)" "max_at_top q' = max_at_top (m_queue b)"
    using F unfolding queue_functions_def t_def by blast
  define b2 where "b2 = b1\<lparr>m_queue := q'\<rparr>"
  have k2: "key_at b2 = key_at b1" by (simp add: b2_def key_at_def fun_eq_iff)
  have "bq_push km queue_insert downheap e b = Some b2"
    using full put q'(1) I(8) qt by (simp add: bq_push_def q b2_def queue_replace_top_def)
  moreover have "bq_inv cmp N dir b2"
    using q' I inv unfolding bq_inv_def k2 by (simp add: b2_def b1_def)
  moreover have "queue_keys b2 = add_mset (km e) (kept_keys b)"
  proof -
    obtain M where M: "mset (slots (m_queue b)) = add_mset t M"
      using I(7) n t by (metis atLeast0LessThan lessThan_iff mset_add set_mset_mset)
    then have "t \<notin># M" using I(6) unfolding distinct_count_atmost_1 by (simp add: not_in_iff) (metis One_nat_def Suc_inject nat.distinct(1))
    then have "image_mset (key_at b1) M = image_mset (key_at b) M" by (intro image_mset_cong) (auto simp: key)
    moreover have "kept_keys b = image_mset (key_at b) M" using full M by (simp add: kept_keys_def queue_keys_def t_def)
    ultimately show ?thesis using M q'(3) by (simp add: queue_keys_def k2) (simp add: b2_def key)
  qed
  moreover have "queue_is_full (m_queue b2)" using full q' by (simp add: b2_def queue_is_full_def)
  ultimately show ?thesis by blast
qed

lemma push_step:
  assumes "queue_functions cmp queue_insert downheap init_queue \<and> compare_function cmp \<and> (dir = 1 \<or> dir = -1) \<and> bq_rel cmp N dir b A"
  shows "\<exists>b'. bq_push km queue_insert downheap e b = Some b' \<and>
    (queue_functions cmp queue_insert downheap init_queue \<and> compare_function cmp \<and> (dir = 1 \<or> dir = -1) \<and> bq_rel cmp N dir b' (add_mset (km e) A))"
proof -
  have F: "queue_functions cmp queue_insert downheap init_queue" and C: "compare_function cmp" and D: "dir = 1 \<or> dir = -1"
    and inv: "bq_inv cmp N dir b" using assms by (auto simp: bq_rel_def)
  obtain rest where rest: "A = kept_keys b + rest" "\<forall>a\<in>#kept_keys b. \<forall>r\<in>#rest. ranks cmp dir r a"
      "\<not> queue_is_full (m_queue b) \<Longrightarrow> rest = {#}"
    using assms by (auto simp: bq_rel_def)
  have "\<exists>b'. bq_push km queue_insert downheap e b = Some b' \<and> bq_inv cmp N dir b' \<and> queue_keys b' = add_mset (km e) (kept_keys b) \<and>
    (queue_is_full (m_queue b) \<longrightarrow> queue_is_full (m_queue b'))"
    using push_room [OF F inv, where km = km and e = e] push_full [OF F inv, where km = km and e = e] by (cases "queue_is_full (m_queue b)") (auto simp: kept_keys_def)
  then obtain b' where b': "bq_push km queue_insert downheap e b = Some b'" "bq_inv cmp N dir b'"
      "queue_keys b' = add_mset (km e) (kept_keys b)" "queue_is_full (m_queue b) \<Longrightarrow> queue_is_full (m_queue b')" by blast
  have "bq_rel cmp N dir b' (add_mset (km e) A)"
  proof (cases "queue_is_full (m_queue b')")
    case False
    then have "rest = {#}" "kept_keys b' = queue_keys b'" using rest(3) b'(4) by (auto simp: kept_keys_def)
    then show ?thesis using b' rest(1) by (simp add: bq_rel_def)
  next
    case True
    define t where "t = key_at b' (root (m_queue b') ! 1)"
    have split: "add_mset (km e) (kept_keys b) = add_mset t (kept_keys b')"
      using kept_split(1) [OF C D b'(2) True] b'(3) by (simp add: t_def)
    have t: "ranks cmp dir t a" if "a \<in># add_mset (km e) (kept_keys b)" for a
      using kept_split(2) [OF C D b'(2) True, of a] that b'(3) by (simp add: t_def)
    have "ranks cmp dir r a" if a: "a \<in># kept_keys b'" and r: "r \<in># add_mset t rest" for a r
    proof (cases "r = t")
      case False
      then have r: "r \<in># rest" using r by simp
      show ?thesis
      proof (cases "t = km e")
        case True
        then show ?thesis using a r rest(2) split by simp
      next
        case False
        then have "t \<in># kept_keys b" using split by (metis insert_noteq_member)
        moreover have "ranks cmp dir t a" using a split by (intro t) simp
        ultimately show ?thesis using rest(2) r ranks_trans [OF C D] by blast
      qed
    qed (use a split in \<open>simp add: t\<close>)
    moreover have "add_mset (km e) A = kept_keys b' + add_mset t rest" using split rest(1) by (metis union_mset_add_mset_left union_mset_add_mset_right)
    ultimately show ?thesis using b'(2) True unfolding bq_rel_def by blast
  qed
  then show ?thesis using b'(1) F C D by blast
qed

interpretation bounded: progress_simulation "bq_push km queue_insert downheap" "\<lambda>e. add_mset (km e)" "\<lambda>e A. True"
    "\<lambda>b A. queue_functions cmp queue_insert downheap init_queue \<and> compare_function cmp \<and> (dir = 1 \<or> dir = -1) \<and> bq_rel cmp N dir b A"
  for km :: "'e \<Rightarrow> 'k" and queue_insert downheap init_queue cmp dir N
  by unfold_locales (rule push_step)

lemma fold_add_mset: "fold (\<lambda>e. add_mset (f e)) es A = mset (map f es) + A"
  by (induction es arbitrary: A) auto

lemma kept_size: "bq_inv cmp N dir b \<Longrightarrow> size (kept_keys b) = min N (size (queue_keys b)) \<and> size (queue_keys b) = unat (elements (m_queue b))"
proof -
  assume inv: "bq_inv cmp N dir b"
  note I = bq_invD [OF inv]
  have n: "size (queue_keys b) = unat (elements (m_queue b))" using length_slots [OF I(4)] by (simp add: queue_keys_def)
  show ?thesis
  proof (cases "queue_is_full (m_queue b)")
    case True
    then have "unat (elements (m_queue b)) = Suc N" using I(1) by (simp add: queue_is_full_def)
    moreover have "key_at b (root (m_queue b) ! 1) \<in># queue_keys b"
      using root_position(1) [OF inv, of 1] I(7) calculation by (auto simp: queue_keys_def)
    ultimately show ?thesis using True n by (simp add: kept_keys_def size_Diff_singleton)
  next
    case False
    then have "unat (elements (m_queue b)) \<noteq> Suc N" using I(1) unfolding queue_is_full_def by (metis unsigned_word_eqI)
    then show ?thesis using False n I(5) by (simp add: kept_keys_def)
  qed
qed

lemma init_inv:
  assumes "queue_functions cmp queue_insert downheap init_queue"
    and "bq_init init_queue max_elems max_top sort_keys b = (0, b0)" "unat max_elems < length sort_keys"
  shows "bq_inv cmp (unat max_elems) (if max_top then -1 else 1) b0 \<and> elements (m_queue b0) = 0"
proof -
  have lt: "max_elems < UINT_MAX - 1"
    using assms(2) by (auto simp: bq_init_def Let_def not_le [symmetric])
  have "unat (ucast max_elems + 1 :: uint32) = Suc (unat max_elems)"
    using lt by (simp add: UINT_MAX_def word_less_nat_alt unat_word_ariths unat_ucast_eq_mod)
  moreover obtain q where q: "init_queue (m_queue b) (ucast max_elems + 1) max_top = (0, q)" "b0 = b\<lparr>m_sort_keys := sort_keys, m_queue := q\<rparr>"
    using assms(2) lt [unfolded not_le [symmetric]] by (cases "init_queue (m_queue b) (ucast max_elems + 1) max_top") (simp add: bq_init_def Let_def)
  moreover have "elements q = 0 \<and> max_elements q = ucast max_elems + 1 \<and> unat (ucast max_elems + 1 :: uint32) < length (root q) \<and>
      max_at_top q = (if max_top then -1 else 1)"
    using assms(1) q(1) unfolding queue_functions_def by blast
  ultimately show ?thesis using assms(3) by (simp add: bq_inv_def queue_heap_def slots_def)
qed

text \<open>
  C7: A bounded queue of size \<open>N\<close>: any number of elements can be pushed, and the queue keeps the \<open>N\<close> best keys of all, the smallest ones if the largest
  is at the top and the largest ones otherwise (all, if fewer were pushed); each key that is not kept is no better than each that is.
\<close>

theorem bounded_queue_keeps_best:
  assumes "queue_functions cmp queue_insert downheap init_queue" "compare_function cmp"
    and "bq_init init_queue max_elems max_top sort_keys bq_new = (0, b0)" "unat max_elems < length sort_keys"
  shows "\<exists>b rest. run_opt (bq_push km queue_insert downheap) es b0 = Some b \<and> mset (map km es) = kept_keys b + rest \<and>
    size (kept_keys b) = min (unat max_elems) (length es) \<and>
    (\<forall>a\<in>#kept_keys b. \<forall>r\<in>#rest. if max_top then cmp a r \<le> 0 else 0 \<le> cmp a r)"
proof -
  let ?dir = "if max_top then -1 else 1 :: int"
  have inv: "bq_inv cmp (unat max_elems) ?dir b0" "elements (m_queue b0) = 0" using init_inv [OF assms(1,3,4)] by auto
  have "queue_keys b0 = {#}" using inv by (simp add: queue_keys_def slots_def)
  moreover have "\<not> queue_is_full (m_queue b0)" using inv bq_invD(1) [OF inv(1)] by (auto simp: queue_is_full_def)
  ultimately have "bq_rel cmp (unat max_elems) ?dir b0 {#}" using inv by (simp add: bq_rel_def kept_keys_def)
  then obtain b where b: "run_opt (bq_push km queue_insert downheap) es b0 = Some b"
      "bq_rel cmp (unat max_elems) ?dir b (mset (map km es))"
    using bounded.run [where cmp = cmp and init_queue = init_queue and dir = ?dir and N = "unat max_elems" and s = b0 and a = "{#}" and km = km and ops = es
        and queue_insert = queue_insert and downheap = downheap] assms(1,2)
    by (cases max_top) (auto simp: allowed_all fold_add_mset)
  then obtain rest where rest: "mset (map km es) = kept_keys b + rest" "\<forall>a\<in>#kept_keys b. \<forall>r\<in>#rest. ranks cmp ?dir r a"
      "\<not> queue_is_full (m_queue b) \<Longrightarrow> rest = {#}" "bq_inv cmp (unat max_elems) ?dir b" by (auto simp: bq_rel_def)
  have len: "length es = size (kept_keys b) + size rest" using arg_cong [OF rest(1), of size] by simp
  have "size (kept_keys b) = min (unat max_elems) (length es)"
  proof (cases "queue_is_full (m_queue b)")
    case True
    then have "unat (elements (m_queue b)) = Suc (unat max_elems)" using bq_invD(1) [OF rest(4)] by (simp add: queue_is_full_def)
    then show ?thesis using kept_size [OF rest(4)] len by simp
  next
    case False
    then have "kept_keys b = queue_keys b" by (simp add: kept_keys_def)
    then show ?thesis using kept_size [OF rest(4)] len rest(3) [OF False] by (metis add_0_right size_empty)
  qed
  moreover have "if max_top then cmp a r \<le> 0 else 0 \<le> cmp a r" if "a \<in># kept_keys b" "r \<in># rest" for a r
    using rest(2) that assms(2) by (auto simp: ranks_def compare_function_def split: if_splits)
  ultimately show ?thesis using b(1) rest(1) by blast
qed

text \<open>
  \<open>pop\<close> removes position 0, which is not a position of the queue: if \<open>queue_remove\<close> has a result only for positions from the first to the last
  element, \<open>pop\<close> has none.
\<close>

theorem pop_asks_for_no_element:
  assumes "\<And>key q i. i < queue_first_element \<or> queue_last_element q < i \<Longrightarrow> queue_remove key q i = None"
  shows "bq_pop queue_remove b = None"
  using assms [of 0] by (auto simp: bq_pop_def queue_first_element_def Option.bind_eq_None_conv)

section \<open>Concrete cases\<close>

text \<open>Queue functions that keep the array in order.\<close>

definition sample_sort :: "(nat \<Rightarrow> int) \<Rightarrow> nat list \<Rightarrow> st_queue \<Rightarrow> st_queue" where
  "sample_sort key xs q =
     (let ys = sort_key (\<lambda>s. max_at_top q * key s) xs in q\<lparr>root := 0 # ys @ replicate (unat (max_elements q) - length ys) 0, elements := of_nat (length ys)\<rparr>)"

definition sample_insert :: "(nat \<Rightarrow> int) \<Rightarrow> st_queue \<Rightarrow> nat \<Rightarrow> st_queue option" where
  "sample_insert key q e = Some (sample_sort key (e # slots q) q)"

definition sample_downheap :: "(nat \<Rightarrow> int) \<Rightarrow> st_queue \<Rightarrow> uint32 \<Rightarrow> nat \<Rightarrow> st_queue option" where
  "sample_downheap key q i e = Some (sample_sort key (slots q) q)"

definition sample_init_queue :: "st_queue \<Rightarrow> uint32 \<Rightarrow> bool \<Rightarrow> int \<times> st_queue" where
  "sample_init_queue q n max_top =
     (0, \<lparr>root = replicate (Suc (unat n)) 0, elements = 0, max_elements = n, max_at_top = if max_top then -1 else 1\<rparr>)"

lemma sample_sort_heap:
  assumes "length xs \<le> unat (max_elements q)"
  shows "queue_heap (-) 1 key (sample_sort key xs q)" "mset (slots (sample_sort key xs q)) = mset xs"
    "elements (sample_sort key xs q) = of_nat (length xs)" "max_elements (sample_sort key xs q) = max_elements q"
    "max_at_top (sample_sort key xs q) = max_at_top q"
proof -
  let ?f = "\<lambda>s. max_at_top q * key s"
  let ?ys = "sort_key ?f xs"
  have n: "unat (of_nat (length xs) :: uint32) = length xs"
    using assms uint32_lt [of "max_elements q"] by (simp add: unat_of_nat)
  have "ranks (-) (max_at_top q) (key (?ys ! i)) (key (?ys ! j))" if "i \<le> j" "j < length xs" for i j
    using sorted_nth_mono [OF sorted_sort_key [of ?f xs], of i j] that by (simp add: ranks_def algebra_simps)
  then have "ranks (-) (max_at_top q) (key ((0 # ?ys @ zs) ! (i div 2))) (key ((0 # ?ys @ zs) ! i))" if "2 \<le> i" "i \<le> length xs" for i zs
    using that by (cases i; cases "i div 2") (auto simp: nth_append)
  then show "queue_heap (-) 1 key (sample_sort key xs q)" using assms n by (simp add: queue_heap_def sample_sort_def Let_def)
  show "mset (slots (sample_sort key xs q)) = mset xs" using n by (simp add: slots_def sample_sort_def Let_def)
qed (simp_all add: sample_sort_def Let_def)

lemma sample_queue_functions: "queue_functions (-) sample_insert sample_downheap sample_init_queue"
proof -
  have "\<exists>q'. sample_insert key q e = Some q' \<and> queue_heap (-) 1 key q' \<and> mset (slots q') = add_mset e (mset (slots q)) \<and>
      elements q' = elements q + 1 \<and> max_elements q' = max_elements q \<and> max_at_top q' = max_at_top q"
    if q: "queue_heap (-) 1 key q" "elements q < max_elements q" for key :: "nat \<Rightarrow> int" and q e
  proof -
    have "length (e # slots q) \<le> unat (max_elements q)" "of_nat (length (e # slots q)) = elements q + 1"
      using q length_slots [OF q(1)] by (simp_all add: word_less_nat_alt)
    then show ?thesis using sample_sort_heap [of "e # slots q" q key] by (simp add: sample_insert_def)
  qed
  moreover have "\<exists>q'. sample_downheap key q 1 (root q ! 1) = Some q' \<and> queue_heap (-) 1 key q' \<and> mset (slots q') = mset (slots q) \<and>
      elements q' = elements q \<and> max_elements q' = max_elements q \<and> max_at_top q' = max_at_top q"
    if q: "queue_heap (-) 2 key q" for key :: "nat \<Rightarrow> int" and q
  proof -
    have "length (slots q) \<le> unat (max_elements q)" "of_nat (length (slots q)) = elements q"
      using q length_slots [OF q] by (simp_all add: queue_heap_def)
    then show ?thesis using sample_sort_heap [of "slots q" q key] by (simp add: sample_downheap_def)
  qed
  ultimately show ?thesis unfolding queue_functions_def by (auto simp: sample_init_queue_def)
qed

text \<open>The two smallest of the numbers 5, 3, 8, 1, 9.\<close>

theorem bounded_queue_keeps_best_witness:
  "\<exists>b rest. run_opt (bq_push (\<lambda>e :: int. e) sample_insert sample_downheap) [5, 3, 8, 1, 9]
       (snd (bq_init sample_init_queue 2 True [0, 0, 0] bq_new)) = Some b \<and>
     mset [5, 3, 8, 1, 9] = kept_keys b + rest \<and> size (kept_keys b) = 2 \<and> (\<forall>a\<in>#kept_keys b. \<forall>r\<in>#rest. a - r \<le> 0)"
proof -
  have two: "min (unat (2 :: uint64)) (length [5, 3, 8, 1, 9 :: int]) = 2" by simp
  have "compare_function ((-) :: int \<Rightarrow> int \<Rightarrow> int)" by (auto simp: compare_function_def)
  moreover have "bq_init sample_init_queue 2 True [0, 0, 0 :: int] bq_new = (0, snd (bq_init sample_init_queue 2 True [0, 0, 0] bq_new))"
    by (simp add: bq_init_def sample_init_queue_def UINT_MAX_def Let_def)
  ultimately show ?thesis
    using bounded_queue_keeps_best [OF sample_queue_functions, of 2 True "[0, 0, 0]" "snd (bq_init sample_init_queue 2 True [0, 0, 0] bq_new)" "\<lambda>e. e" "[5, 3, 8, 1, 9]"]
    unfolding two by simp
qed

theorem pop_asks_for_no_element_witness:
  "bq_pop (\<lambda>key q i. if i < queue_first_element \<or> queue_last_element q < i then None else Some (root q ! unat i, q))
     (snd (bq_init sample_init_queue 2 True [0, 0, 0 :: int] bq_new)) = None"
  by (rule pop_asks_for_no_element) simp

end
