(* ===== verification/SqlTime.thy ===== *)
theory SqlTime
  imports SessionClock NodeHeap "HOL-Library.Signed_Division"
begin

text \<open>
  Temporal values (\<^verbatim>\<open>mysql_time.h\<close>, \<^verbatim>\<open>my_time.h\<close>, \<^verbatim>\<open>sql_time.h\<close>) and the classes \<open>Time\<close>, \<open>Date\<close> and \<open>Datetime\<close> that hold valid ones
  (\<^verbatim>\<open>sql_type.h\<close>).  The functions \<open>check_datetime_range\<close>, \<open>set_zero_time\<close>, \<open>pack_time\<close>, \<open>check_date\<close> and \<open>number_to_datetime\<close> and the table
  \<open>log_10_int\<close> of powers of ten are not in the headers and are arguments.  A value that comes from an expression (\<open>make_from_item\<close>) is an argument
  of the constructors.
\<close>

section \<open>Values\<close>

datatype enum_mysql_timestamp_type =
    MYSQL_TIMESTAMP_NONE | MYSQL_TIMESTAMP_ERROR | MYSQL_TIMESTAMP_DATE | MYSQL_TIMESTAMP_DATETIME | MYSQL_TIMESTAMP_TIME

record MYSQL_TIME =
  year :: uint32
  month :: uint32
  day :: uint32
  hour :: uint32
  minute :: uint32
  second :: uint32
  second_part :: ulong
  neg :: bool
  time_type :: enum_mysql_timestamp_type

definition TIMESTAMP_MAX_YEAR :: uint32 where "TIMESTAMP_MAX_YEAR = 2038"
definition YY_PART_YEAR :: uint32 where "YY_PART_YEAR = 70"
definition TIMESTAMP_MIN_YEAR :: uint32 where "TIMESTAMP_MIN_YEAR = 1900 + YY_PART_YEAR - 1"
definition TIME_FUZZY_DATES :: uint64 where "TIME_FUZZY_DATES = 1"
definition TIME_TIME_ONLY :: uint64 where "TIME_TIME_ONLY = 4"
definition TIME_INVALID_DATES :: uint64 where "TIME_INVALID_DATES = push_bit 25 1"
definition TIME_MAX_HOUR :: uint32 where "TIME_MAX_HOUR = 838"
definition TIME_MAX_MINUTE :: uint32 where "TIME_MAX_MINUTE = 59"
definition TIME_MAX_SECOND :: uint32 where "TIME_MAX_SECOND = 59"
definition TIME_SECOND_PART_DIGITS :: uint32 where "TIME_SECOND_PART_DIGITS = 6"

definition MYSQL_TIME_WARN_WARNINGS :: uint32 where "MYSQL_TIME_WARN_WARNINGS = 1 OR 2"
definition MYSQL_TIME_WARN_NOTES :: uint32 where "MYSQL_TIME_WARN_NOTES = 16"

definition MYSQL_TIME_WARN_HAVE_WARNINGS :: "uint32 \<Rightarrow> bool" where
  "MYSQL_TIME_WARN_HAVE_WARNINGS x \<longleftrightarrow> x AND MYSQL_TIME_WARN_WARNINGS \<noteq> 0"

definition MYSQL_TIME_WARN_HAVE_NOTES :: "uint32 \<Rightarrow> bool" where
  "MYSQL_TIME_WARN_HAVE_NOTES x \<longleftrightarrow> x AND MYSQL_TIME_WARN_NOTES \<noteq> 0"

definition validate_timestamp_range :: "MYSQL_TIME \<Rightarrow> bool" where
  "validate_timestamp_range t \<longleftrightarrow>
     \<not> ((year t > TIMESTAMP_MAX_YEAR \<or> year t < TIMESTAMP_MIN_YEAR) \<or>
        (year t = TIMESTAMP_MAX_YEAR \<and> (month t > 1 \<or> day t > 19)) \<or>
        (year t = TIMESTAMP_MIN_YEAR \<and> (month t < 12 \<or> day t < 31)))"

definition sec_part_shift :: "(nat \<Rightarrow> uint64) \<Rightarrow> int \<Rightarrow> uint32 \<Rightarrow> int" where
  "sec_part_shift log_10_int sp digits = sp sdiv sint (log_10_int (unat (TIME_SECOND_PART_DIGITS - digits)))"

definition sec_part_unshift :: "(nat \<Rightarrow> uint64) \<Rightarrow> int \<Rightarrow> uint32 \<Rightarrow> int" where
  "sec_part_unshift log_10_int sp digits = sp * sint (log_10_int (unat (TIME_SECOND_PART_DIGITS - digits)))"

definition my_time_fraction_remainder :: "(nat \<Rightarrow> uint64) \<Rightarrow> int \<Rightarrow> uint32 \<Rightarrow> int option" where
  "my_time_fraction_remainder log_10_int nr decs =
     do { DBUG_ASSERT (decs \<le> TIME_SECOND_PART_DIGITS); Some (nr smod sint (ucast (log_10_int (unat (TIME_SECOND_PART_DIGITS - decs))) :: ulong)) }"

definition my_time_trunc :: "(nat \<Rightarrow> uint64) \<Rightarrow> MYSQL_TIME \<Rightarrow> uint32 \<Rightarrow> MYSQL_TIME option" where
  "my_time_trunc log_10_int ltime decs =
     do { r \<leftarrow> my_time_fraction_remainder log_10_int (sint (second_part ltime)) decs;
          Some (ltime\<lparr>second_part := second_part ltime - of_int r\<rparr>) }"

definition my_timeval_trunc :: "(nat \<Rightarrow> uint64) \<Rightarrow> int \<times> int \<Rightarrow> uint32 \<Rightarrow> (int \<times> int) option" where
  "my_timeval_trunc log_10_int tv decs =
     do { r \<leftarrow> my_time_fraction_remainder log_10_int (snd tv) decs; Some (fst tv, snd tv - r) }"

section \<open>Conversions\<close>

definition datetime_to_time :: "MYSQL_TIME \<Rightarrow> MYSQL_TIME option" where
  "datetime_to_time ltime =
     do { DBUG_ASSERT (time_type ltime = MYSQL_TIMESTAMP_DATE \<or> time_type ltime = MYSQL_TIMESTAMP_DATETIME);
          DBUG_ASSERT (\<not> neg ltime);
          Some (ltime\<lparr>year := 0, month := 0, day := 0, time_type := MYSQL_TIMESTAMP_TIME\<rparr>) }"

definition datetime_to_date :: "MYSQL_TIME \<Rightarrow> MYSQL_TIME option" where
  "datetime_to_date ltime =
     do { DBUG_ASSERT (time_type ltime = MYSQL_TIMESTAMP_DATE \<or> time_type ltime = MYSQL_TIMESTAMP_DATETIME);
          DBUG_ASSERT (\<not> neg ltime);
          Some (ltime\<lparr>second_part := 0, hour := 0, minute := 0, second := 0, time_type := MYSQL_TIMESTAMP_DATE\<rparr>) }"

definition date_to_datetime :: "MYSQL_TIME \<Rightarrow> MYSQL_TIME option" where
  "date_to_datetime ltime =
     do { DBUG_ASSERT (time_type ltime = MYSQL_TIMESTAMP_DATE \<or> time_type ltime = MYSQL_TIMESTAMP_DATETIME);
          DBUG_ASSERT (\<not> neg ltime);
          Some (ltime\<lparr>time_type := MYSQL_TIMESTAMP_DATETIME\<rparr>) }"

definition non_zero_hhmmssuu :: "MYSQL_TIME \<Rightarrow> bool" where
  "non_zero_hhmmssuu t \<longleftrightarrow> hour t \<noteq> 0 \<or> minute t \<noteq> 0 \<or> second t \<noteq> 0 \<or> second_part t \<noteq> 0"

definition non_zero_YYMMDD :: "MYSQL_TIME \<Rightarrow> bool" where
  "non_zero_YYMMDD t \<longleftrightarrow> year t \<noteq> 0 \<or> month t \<noteq> 0 \<or> day t \<noteq> 0"

definition non_zero_date :: "MYSQL_TIME \<Rightarrow> bool" where
  "non_zero_date t \<longleftrightarrow> non_zero_YYMMDD t \<or> time_type t = MYSQL_TIMESTAMP_DATETIME \<and> non_zero_hhmmssuu t"

definition check_date_of :: "(MYSQL_TIME \<Rightarrow> bool \<Rightarrow> uint64 \<Rightarrow> bool \<times> int) \<Rightarrow> MYSQL_TIME \<Rightarrow> uint64 \<Rightarrow> bool \<times> int" where
  "check_date_of check_date ltime flags = check_date ltime (non_zero_date ltime) flags"

section \<open>Class Time\<close>

datatype datetime_to_time_mode_t =
    DATETIME_TO_TIME_YYYYMMDD_000000DD_MIX_TO_HOURS
  | DATETIME_TO_TIME_YYYYMMDD_TRUNCATE

record time_options =
  m_get_date_flags :: uint64
  m_datetime_to_time_mode :: datetime_to_time_mode_t

definition flags_for_get_date :: uint64 where
  "flags_for_get_date = TIME_TIME_ONLY OR TIME_INVALID_DATES"

definition comparison_flags_for_get_date :: uint64 where
  "comparison_flags_for_get_date = TIME_TIME_ONLY OR TIME_INVALID_DATES OR TIME_FUZZY_DATES"

definition options_default :: time_options where
  "options_default = \<lparr>m_get_date_flags = flags_for_get_date, m_datetime_to_time_mode = DATETIME_TO_TIME_YYYYMMDD_000000DD_MIX_TO_HOURS\<rparr>"

definition options_of_flags :: "uint64 \<Rightarrow> time_options" where
  "options_of_flags flags = \<lparr>m_get_date_flags = flags, m_datetime_to_time_mode = DATETIME_TO_TIME_YYYYMMDD_000000DD_MIX_TO_HOURS\<rparr>"

definition options_for_cast :: time_options where
  "options_for_cast = \<lparr>m_get_date_flags = flags_for_get_date, m_datetime_to_time_mode = DATETIME_TO_TIME_YYYYMMDD_TRUNCATE\<rparr>"

definition is_valid_time_slow :: "MYSQL_TIME \<Rightarrow> bool" where
  "is_valid_time_slow t \<longleftrightarrow> time_type t = MYSQL_TIMESTAMP_TIME \<and> year t = 0 \<and> month t = 0 \<and> day t = 0 \<and>
     minute t \<le> TIME_MAX_MINUTE \<and> second t \<le> TIME_MAX_SECOND \<and> second_part t \<le> TIME_MAX_SECOND_PART"

definition time_is_valid_value_slow :: "MYSQL_TIME \<Rightarrow> bool" where
  "time_is_valid_value_slow t \<longleftrightarrow> time_type t = MYSQL_TIMESTAMP_NONE \<or> is_valid_time_slow t"

definition valid_datetime_to_valid_time :: "time_options \<Rightarrow> MYSQL_TIME \<Rightarrow> MYSQL_TIME option" where
  "valid_datetime_to_valid_time opt t =
     do { DBUG_ASSERT (time_type t = MYSQL_TIMESTAMP_DATE \<or> time_type t = MYSQL_TIMESTAMP_DATETIME);
          DBUG_ASSERT (day t < 32);
          DBUG_ASSERT (hour t < 24);
          t1 \<leftarrow> Some (if year t = 0 \<and> month t = 0 \<and> m_datetime_to_time_mode opt = DATETIME_TO_TIME_YYYYMMDD_000000DD_MIX_TO_HOURS
                    then t\<lparr>hour := hour t + day t * 24\<rparr> else t);
          t2 \<leftarrow> Some (t1\<lparr>year := 0, month := 0, day := 0, time_type := MYSQL_TIMESTAMP_TIME\<rparr>);
          DBUG_ASSERT (is_valid_time_slow t2);
          Some t2 }"

definition valid_MYSQL_TIME_to_valid_value ::
  "(MYSQL_TIME \<Rightarrow> enum_mysql_timestamp_type \<Rightarrow> MYSQL_TIME) \<Rightarrow> time_options \<Rightarrow> MYSQL_TIME \<Rightarrow> MYSQL_TIME option" where
  "valid_MYSQL_TIME_to_valid_value set_zero_time opt t =
     (case time_type t of
        MYSQL_TIMESTAMP_DATE \<Rightarrow> valid_datetime_to_valid_time opt t
      | MYSQL_TIMESTAMP_DATETIME \<Rightarrow> valid_datetime_to_valid_time opt t
      | MYSQL_TIMESTAMP_NONE \<Rightarrow> Some t
      | MYSQL_TIMESTAMP_ERROR \<Rightarrow> Some (set_zero_time t MYSQL_TIMESTAMP_TIME)
      | MYSQL_TIMESTAMP_TIME \<Rightarrow> do { DBUG_ASSERT (is_valid_time_slow t); Some t })"

definition is_valid_time :: "MYSQL_TIME \<Rightarrow> bool option" where
  "is_valid_time t = do { DBUG_ASSERT (time_is_valid_value_slow t); Some (time_type t = MYSQL_TIMESTAMP_TIME) }"

definition time_get_mysql_time :: "MYSQL_TIME \<Rightarrow> MYSQL_TIME option" where
  "time_get_mysql_time t = do { DBUG_ASSERT (is_valid_time_slow t); Some t }"

definition time_copy_to_mysql_time :: "MYSQL_TIME \<Rightarrow> MYSQL_TIME \<Rightarrow> (bool \<times> MYSQL_TIME) option" where
  "time_copy_to_mysql_time t ltime =
     (if time_type t = MYSQL_TIMESTAMP_NONE then Some (True, ltime\<lparr>time_type := MYSQL_TIMESTAMP_NONE\<rparr>)
      else do { DBUG_ASSERT (is_valid_time_slow t); Some (False, t) })"

definition time_cmp :: "(MYSQL_TIME \<Rightarrow> int) \<Rightarrow> MYSQL_TIME \<Rightarrow> MYSQL_TIME \<Rightarrow> int option" where
  "time_cmp pack_time t other =
     do { DBUG_ASSERT (is_valid_time_slow t);
          DBUG_ASSERT (is_valid_time_slow other);
          Some (let p0 = pack_time t; p1 = pack_time other in if p0 < p1 then -1 else if p0 > p1 then 1 else 0) }"

definition to_seconds_abs :: "MYSQL_TIME \<Rightarrow> int option" where
  "to_seconds_abs t = do { DBUG_ASSERT (is_valid_time_slow t); Some (uint (hour t) * 3600 + uint (minute t * 60) + uint (second t)) }"

definition to_seconds :: "MYSQL_TIME \<Rightarrow> int option" where
  "to_seconds t = do { s \<leftarrow> to_seconds_abs t; Some (if neg t then - s else s) }"

section \<open>Classes Date and Datetime\<close>

definition is_valid_date_slow :: "(MYSQL_TIME \<Rightarrow> bool) \<Rightarrow> MYSQL_TIME \<Rightarrow> bool option" where
  "is_valid_date_slow check_datetime_range t =
     do { DBUG_ASSERT (time_type t = MYSQL_TIMESTAMP_DATE); Some (\<not> check_datetime_range t) }"

definition date_is_valid_value_slow :: "(MYSQL_TIME \<Rightarrow> bool) \<Rightarrow> MYSQL_TIME \<Rightarrow> bool option" where
  "date_is_valid_value_slow check_datetime_range t =
     (if time_type t = MYSQL_TIMESTAMP_NONE then Some True else is_valid_date_slow check_datetime_range t)"

definition date_new :: "(MYSQL_TIME \<Rightarrow> bool) \<Rightarrow> MYSQL_TIME \<Rightarrow> MYSQL_TIME option" where
  "date_new check_datetime_range v =
     do { t \<leftarrow> (if time_type v = MYSQL_TIMESTAMP_DATETIME then datetime_to_date v else Some v);
          ok \<leftarrow> date_is_valid_value_slow check_datetime_range t;
          DBUG_ASSERT ok;
          Some t }"

definition date_of :: "(MYSQL_TIME \<Rightarrow> bool) \<Rightarrow> MYSQL_TIME \<Rightarrow> MYSQL_TIME option" where
  "date_of check_datetime_range d =
     do { t \<leftarrow> datetime_to_date d; ok \<leftarrow> is_valid_date_slow check_datetime_range t; DBUG_ASSERT ok; Some t }"

definition is_valid_date :: "(MYSQL_TIME \<Rightarrow> bool) \<Rightarrow> MYSQL_TIME \<Rightarrow> bool option" where
  "is_valid_date check_datetime_range t =
     do { ok \<leftarrow> date_is_valid_value_slow check_datetime_range t; DBUG_ASSERT ok; Some (time_type t = MYSQL_TIMESTAMP_DATE) }"

definition is_valid_datetime_slow :: "(MYSQL_TIME \<Rightarrow> bool) \<Rightarrow> MYSQL_TIME \<Rightarrow> bool option" where
  "is_valid_datetime_slow check_datetime_range t =
     do { DBUG_ASSERT (time_type t = MYSQL_TIMESTAMP_DATETIME); Some (\<not> check_datetime_range t) }"

definition datetime_is_valid_value_slow :: "(MYSQL_TIME \<Rightarrow> bool) \<Rightarrow> MYSQL_TIME \<Rightarrow> bool option" where
  "datetime_is_valid_value_slow check_datetime_range t =
     (if time_type t = MYSQL_TIMESTAMP_NONE then Some True else is_valid_datetime_slow check_datetime_range t)"

definition datetime_new :: "(MYSQL_TIME \<Rightarrow> bool) \<Rightarrow> MYSQL_TIME \<Rightarrow> MYSQL_TIME option" where
  "datetime_new check_datetime_range v =
     do { t \<leftarrow> (if time_type v = MYSQL_TIMESTAMP_DATE then date_to_datetime v else Some v);
          ok \<leftarrow> datetime_is_valid_value_slow check_datetime_range t;
          DBUG_ASSERT ok;
          Some t }"

definition is_valid_datetime :: "(MYSQL_TIME \<Rightarrow> bool) \<Rightarrow> MYSQL_TIME \<Rightarrow> bool option" where
  "is_valid_datetime check_datetime_range t =
     do { ok \<leftarrow> datetime_is_valid_value_slow check_datetime_range t; DBUG_ASSERT ok; Some (time_type t = MYSQL_TIMESTAMP_DATETIME) }"

definition hhmmssff_is_zero :: "(MYSQL_TIME \<Rightarrow> bool) \<Rightarrow> MYSQL_TIME \<Rightarrow> bool option" where
  "hhmmssff_is_zero check_datetime_range t =
     do { ok \<leftarrow> is_valid_datetime_slow check_datetime_range t;
          DBUG_ASSERT ok;
          Some (hour t = 0 \<and> minute t = 0 \<and> second t = 0 \<and> second_part t = 0) }"

definition datetime_copy_to_mysql_time :: "(MYSQL_TIME \<Rightarrow> bool) \<Rightarrow> MYSQL_TIME \<Rightarrow> MYSQL_TIME \<Rightarrow> (bool \<times> MYSQL_TIME) option" where
  "datetime_copy_to_mysql_time check_datetime_range t ltime =
     (if time_type t = MYSQL_TIMESTAMP_NONE then Some (True, ltime\<lparr>time_type := MYSQL_TIMESTAMP_NONE\<rparr>)
      else do { ok \<leftarrow> is_valid_datetime_slow check_datetime_range t; DBUG_ASSERT ok; Some (False, t) })"

definition datetime_copy_to_type ::
  "(MYSQL_TIME \<Rightarrow> bool) \<Rightarrow> MYSQL_TIME \<Rightarrow> MYSQL_TIME \<Rightarrow> enum_mysql_timestamp_type \<Rightarrow> (bool \<times> MYSQL_TIME) option" where
  "datetime_copy_to_type check_datetime_range t ltime type =
     do { DBUG_ASSERT (type = MYSQL_TIMESTAMP_DATE \<or> type = MYSQL_TIMESTAMP_DATETIME);
          (err, l1) \<leftarrow> datetime_copy_to_mysql_time check_datetime_range t ltime;
          if err then Some (True, l1)
          else do { z \<leftarrow> (if type \<noteq> MYSQL_TIMESTAMP_DATE then Some True else hhmmssff_is_zero check_datetime_range t);
                    DBUG_ASSERT z;
                    Some (False, l1\<lparr>time_type := type\<rparr>) } }"

section \<open>Values of expressions as times\<close>

text \<open>What an expression may return: a value within the range of its type, no value, or an error.\<close>

definition item_value :: "MYSQL_TIME \<Rightarrow> bool" where
  "item_value t \<longleftrightarrow> (case time_type t of
      MYSQL_TIMESTAMP_TIME \<Rightarrow> is_valid_time_slow t \<and> hour t \<le> TIME_MAX_HOUR
    | MYSQL_TIMESTAMP_DATE \<Rightarrow> day t < 32 \<and> hour t < 24 \<and> minute t \<le> TIME_MAX_MINUTE \<and> second t \<le> TIME_MAX_SECOND \<and> second_part t \<le> TIME_MAX_SECOND_PART
    | MYSQL_TIMESTAMP_DATETIME \<Rightarrow> day t < 32 \<and> hour t < 24 \<and> minute t \<le> TIME_MAX_MINUTE \<and> second t \<le> TIME_MAX_SECOND \<and> second_part t \<le> TIME_MAX_SECOND_PART
    | _ \<Rightarrow> True)"

definition days_as_hours :: "time_options \<Rightarrow> MYSQL_TIME \<Rightarrow> nat" where
  "days_as_hours opt t =
     (if year t = 0 \<and> month t = 0 \<and> m_datetime_to_time_mode opt = DATETIME_TO_TIME_YYYYMMDD_000000DD_MIX_TO_HOURS then unat (day t) * 24 else 0)"

lemmas time_limits = TIME_MAX_MINUTE_def TIME_MAX_SECOND_def TIME_MAX_HOUR_def word_le_nat_alt word_less_nat_alt

lemma mixed_hours: "day t < 32 \<Longrightarrow> hour t < 24 \<Longrightarrow> unat (hour t + day t * 24) = unat (hour t) + unat (day t) * 24"
  by (simp add: word_less_nat_alt unat_word_ariths)

lemma seconds_abs:
  assumes "is_valid_time_slow t"
  shows "to_seconds_abs t = Some (int (unat (hour t) * 3600 + unat (minute t) * 60 + unat (second t)))"
proof -
  have "unat (minute t * 60) = unat (minute t) * 60"
    using assms by (simp add: is_valid_time_slow_def time_limits unat_word_ariths)
  then have "uint (minute t * 60) = int (unat (minute t) * 60)" by (metis of_nat_unat)
  then show ?thesis using assms by (simp add: to_seconds_abs_def)
qed

lemma date_as_time:
  assumes "time_type t = MYSQL_TIMESTAMP_DATE \<or> time_type t = MYSQL_TIMESTAMP_DATETIME" "item_value t"
  shows "\<exists>t'. valid_datetime_to_valid_time opt t = Some t' \<and> is_valid_time_slow t' \<and>
    unat (hour t') = unat (hour t) + days_as_hours opt t \<and> unat (hour t') \<le> 767 \<and> minute t' = minute t \<and> second t' = second t"
proof -
  have v: "day t < 32" "hour t < 24" "minute t \<le> TIME_MAX_MINUTE" "second t \<le> TIME_MAX_SECOND" "second_part t \<le> TIME_MAX_SECOND_PART"
    using assms by (auto simp: item_value_def)
  have "unat (day t) \<le> 31" "unat (hour t) \<le> 23" using v(1,2) by (simp_all add: word_less_nat_alt)
  then show ?thesis
    using assms(1) v mixed_hours [OF v(1,2)]
    by (auto simp: valid_datetime_to_valid_time_def is_valid_time_slow_def days_as_hours_def)
qed

text \<open>
  C28: A time made from the value of an expression: the conversion returns a valid time, or no value exactly when there was none.  The hours stay
  within the limit of 838; a date gives its time of day, and with days mixed to hours, when year and month are zero, also its days.
\<close>

theorem time_value_of_expression:
  assumes "item_value t"
    and "\<And>tm type. set_zero_time tm type = \<lparr>year = 0, month = 0, day = 0, hour = 0, minute = 0, second = 0, second_part = 0, neg = False, time_type = type\<rparr>"
  shows "\<exists>t'. valid_MYSQL_TIME_to_valid_value set_zero_time opt t = Some t' \<and> time_is_valid_value_slow t' \<and>
    is_valid_time t' = Some (time_type t \<noteq> MYSQL_TIMESTAMP_NONE) \<and>
    (time_type t \<noteq> MYSQL_TIMESTAMP_NONE \<longrightarrow> hour t' \<le> TIME_MAX_HOUR) \<and>
    (time_type t = MYSQL_TIMESTAMP_DATE \<or> time_type t = MYSQL_TIMESTAMP_DATETIME \<longrightarrow>
       to_seconds_abs t' = Some (int ((days_as_hours opt t + unat (hour t)) * 3600 + unat (minute t) * 60 + unat (second t))))"
proof (cases "time_type t = MYSQL_TIMESTAMP_DATE \<or> time_type t = MYSQL_TIMESTAMP_DATETIME")
  case True
  from date_as_time [OF this assms(1)] obtain t' where t': "valid_datetime_to_valid_time opt t = Some t'" "is_valid_time_slow t'"
      "unat (hour t') = unat (hour t) + days_as_hours opt t" "unat (hour t') \<le> 767" "minute t' = minute t" "second t' = second t" by blast
  have "time_type t' = MYSQL_TIMESTAMP_TIME" using t'(2) by (simp add: is_valid_time_slow_def)
  moreover have "valid_MYSQL_TIME_to_valid_value set_zero_time opt t = Some t'"
    using True t'(1) by (auto simp: valid_MYSQL_TIME_to_valid_value_def)
  moreover have "hour t' \<le> TIME_MAX_HOUR" using t'(4) by (simp add: time_limits)
  ultimately show ?thesis
    using True t' seconds_abs [OF t'(2)] by (auto simp: time_is_valid_value_slow_def is_valid_time_def add.commute)
next
  case False
  then show ?thesis
    using assms by (cases "time_type t")
      (auto simp: valid_MYSQL_TIME_to_valid_value_def item_value_def time_is_valid_value_slow_def is_valid_time_def is_valid_time_slow_def)
qed

text \<open>The validity check of a time does not look at the hours.\<close>

theorem time_validity_ignores_hours: "is_valid_time_slow (t\<lparr>hour := h\<rparr>) = is_valid_time_slow t"
  by (simp add: is_valid_time_slow_def)

section \<open>Fractions of a second\<close>

lemma sdiv_nat: "0 < m \<Longrightarrow> int n sdiv int m = int (n div m)"
  by (simp add: signed_divide_int_def sgn_if zdiv_int)

text \<open>
  Truncating a fraction to \<open>d\<close> digits, for a table of powers of ten: the remainder is cut off, a second truncation changes nothing, and the result is
  what shifting the digits out and in again gives.
\<close>

theorem fraction_truncation:
  assumes "\<And>i. i \<le> 6 \<Longrightarrow> unat (log_10_int i) = 10 ^ i" "decs \<le> TIME_SECOND_PART_DIGITS" "second_part t \<le> TIME_MAX_SECOND_PART"
  shows "\<exists>t'. my_time_trunc log_10_int t decs = Some t' \<and> my_time_trunc log_10_int t' decs = Some t' \<and>
    unat (second_part t') = unat (second_part t) - unat (second_part t) mod 10 ^ (6 - unat decs) \<and>
    sec_part_unshift log_10_int (sec_part_shift log_10_int (sint (second_part t)) decs) decs = sint (second_part t')"
proof -
  define m where "m = (10 :: nat) ^ (6 - unat decs)"
  define n where "n = unat (second_part t)"
  have d: "unat decs \<le> 6" using assms(2) by (simp add: TIME_SECOND_PART_DIGITS_def word_le_nat_alt)
  then have "unat (TIME_SECOND_PART_DIGITS - decs) = 6 - unat decs" by (simp add: TIME_SECOND_PART_DIGITS_def unat_sub word_le_nat_alt)
  then have lm: "unat (log_10_int (unat (TIME_SECOND_PART_DIGITS - decs))) = m" using assms(1) [of "6 - unat decs"] by (simp add: m_def)
  have "m \<le> 10 ^ 6" unfolding m_def by (rule power_increasing) auto
  then have m: "sint (log_10_int (unat (TIME_SECOND_PART_DIGITS - decs))) = int m" using lm by (subst sint_nonneg) auto
  have ml: "sint (ucast (log_10_int (unat (TIME_SECOND_PART_DIGITS - decs))) :: ulong) = int m"
    using lm \<open>m \<le> 10 ^ 6\<close> by (subst sint_nonneg) (auto simp: unat_ucast_eq_mod)
  have n: "n < 2 ^ 31" using assms(3) by (simp add: n_def TIME_MAX_SECOND_PART_def word_le_nat_alt)
  have m0: "0 < m" by (simp add: m_def)
  have rem: "my_time_fraction_remainder log_10_int (sint w) decs = Some (int (unat w mod m))" if "unat w < 2 ^ 31" for w :: ulong
    using assms(2) that m0 by (simp add: my_time_fraction_remainder_def ml sint_nonneg signed_modulo_int_def sgn_if zmod_int not_less)
  define t' where "t' = t\<lparr>second_part := of_nat (n - n mod m)\<rparr>"
  have cut: "second_part t - of_int (int (n mod m)) = of_nat (n - n mod m)" by (simp add: n_def of_nat_diff)
  have "unat (of_nat (n - n mod m) :: ulong) = n - n mod m" using n by (simp only: unat_of_nat) (simp add: less_imp_diff_less)
  then have n': "unat (second_part t') = n - n mod m" by (simp only: t'_def) simp
  have "my_time_trunc log_10_int t decs = Some t'" using rem [of "second_part t"] n cut by (simp add: my_time_trunc_def n_def t'_def)
  moreover have "(n - n mod m) mod m = 0" by (metis minus_mod_eq_mult_div mod_mult_self1_is_0)
  then have "my_time_trunc log_10_int t' decs = Some t'" using rem [of "second_part t'"] n n' by (simp add: my_time_trunc_def)
  moreover have "sec_part_unshift log_10_int (sec_part_shift log_10_int (sint (second_part t)) decs) decs = sint (second_part t')"
  proof -
    have "sint (second_part t) = int n" "sint (second_part t') = int (n - n mod m)"
      using n n' sint_nonneg [of "second_part t"] sint_nonneg [of "second_part t'"] by (auto simp: n_def)
    moreover have "int n sdiv int m * int m = int (n - n mod m)"
      using m0 by (simp only: sdiv_nat of_nat_mult [symmetric] minus_mod_eq_div_mult)
    ultimately show ?thesis by (simp only: sec_part_unshift_def sec_part_shift_def m)
  qed
  ultimately show ?thesis using n' unfolding n_def m_def by blast
qed

section \<open>Dates\<close>

text \<open>
  The range check for timestamps accepts exactly the dates from 31 December 1969 to 19 January 2038.
\<close>

theorem timestamp_range:
  assumes "1 \<le> month t" "month t \<le> 12" "day t \<le> 31"
  shows "validate_timestamp_range t \<longleftrightarrow>
    (1969, 12, 31) \<le> (unat (year t), unat (month t), unat (day t)) \<and> (unat (year t), unat (month t), unat (day t)) \<le> (2038, 1, 19)"
proof -
  have "unat (month t) \<le> 12" "1 \<le> unat (month t)" "unat (day t) \<le> 31" using assms by (simp_all add: word_le_nat_alt)
  then show ?thesis
    by (auto simp: validate_timestamp_range_def TIMESTAMP_MAX_YEAR_def TIMESTAMP_MIN_YEAR_def YY_PART_YEAR_def word_less_nat_alt word_unat_eq_iff
        less_eq_prod_simp)
qed

lemmas date_defs = date_new_def datetime_new_def date_of_def date_is_valid_value_slow_def datetime_is_valid_value_slow_def
  is_valid_date_slow_def is_valid_datetime_slow_def datetime_to_date_def date_to_datetime_def hhmmssff_is_zero_def
  datetime_copy_to_type_def datetime_copy_to_mysql_time_def

text \<open>
  The date and time of an expression, in range: it becomes a valid \<open>Date\<close> without its time of day and a valid \<open>Datetime\<close> with it; copying
  the \<open>Datetime\<close> back as a date succeeds exactly if the time of day is zero, and gives the same date then.
\<close>

theorem date_and_datetime_values:
  assumes "time_type v = MYSQL_TIMESTAMP_DATETIME" "\<not> neg v" "\<not> check_datetime_range v"
    and range: "\<And>t ty. \<not> check_datetime_range t \<Longrightarrow>
      \<not> check_datetime_range (t\<lparr>hour := 0, minute := 0, second := 0, second_part := 0, time_type := ty\<rparr>)"
  shows "\<exists>d. date_new check_datetime_range v = Some d \<and> date_of check_datetime_range v = Some d \<and> is_valid_date check_datetime_range d = Some True \<and>
      (year d, month d, day d) = (year v, month v, day v) \<and> \<not> non_zero_hhmmssuu d \<and>
      datetime_new check_datetime_range v = Some v \<and> is_valid_datetime check_datetime_range v = Some True \<and>
      datetime_copy_to_type check_datetime_range v l MYSQL_TIMESTAMP_DATE = (if non_zero_hhmmssuu v then None else Some (False, d))"
proof -
  define d where "d = v\<lparr>second_part := 0, hour := 0, minute := 0, second := 0, time_type := MYSQL_TIMESTAMP_DATE\<rparr>"
  have d: "d = v\<lparr>hour := 0, minute := 0, second := 0, second_part := 0, time_type := MYSQL_TIMESTAMP_DATE\<rparr>" by (simp add: d_def)
  have ok: "\<not> check_datetime_range d" unfolding d by (rule range) (rule assms(3))
  have dt: "datetime_to_date v = Some d" using assms(1,2) by (simp add: datetime_to_date_def d_def)
  have "d = v\<lparr>time_type := MYSQL_TIMESTAMP_DATE\<rparr>" if "\<not> non_zero_hhmmssuu v" using that by (simp add: d_def non_zero_hhmmssuu_def)
  then have "datetime_copy_to_type check_datetime_range v l MYSQL_TIMESTAMP_DATE = (if non_zero_hhmmssuu v then None else Some (False, d))"
    using assms(1,3) by (auto simp: date_defs non_zero_hhmmssuu_def)
  moreover have "time_type d = MYSQL_TIMESTAMP_DATE" by (simp add: d_def)
  moreover have "date_new check_datetime_range v = Some d" "date_of check_datetime_range v = Some d" "is_valid_date check_datetime_range d = Some True"
    using dt ok calculation(2) assms(1) by (simp_all add: date_new_def date_of_def is_valid_date_def date_is_valid_value_slow_def is_valid_date_slow_def)
  moreover have "datetime_new check_datetime_range v = Some v" "is_valid_datetime check_datetime_range v = Some True"
    using assms(1,3) by (simp_all add: date_defs is_valid_datetime_def)
  moreover have "(year d, month d, day d) = (year v, month v, day v) \<and> \<not> non_zero_hhmmssuu d" by (simp add: d_def non_zero_hhmmssuu_def)
  ultimately show ?thesis by blast
qed

section \<open>Concrete cases\<close>

definition sample_zero_time :: "MYSQL_TIME \<Rightarrow> enum_mysql_timestamp_type \<Rightarrow> MYSQL_TIME" where
  "sample_zero_time tm type =
     \<lparr>year = 0, month = 0, day = 0, hour = 0, minute = 0, second = 0, second_part = 0, neg = False, time_type = type\<rparr>"

definition sample_datetime :: MYSQL_TIME where
  "sample_datetime = \<lparr>year = 0, month = 0, day = 5, hour = 12, minute = 30, second = 1, second_part = 123456, neg = False,
     time_type = MYSQL_TIMESTAMP_DATETIME\<rparr>"

theorem time_value_of_expression_witness:
  "\<exists>t'. valid_MYSQL_TIME_to_valid_value sample_zero_time options_default sample_datetime = Some t' \<and> to_seconds_abs t' = Some (132 * 3600 + 30 * 60 + 1)"
proof -
  have "item_value sample_datetime" by (simp add: item_value_def sample_datetime_def time_limits TIME_MAX_SECOND_PART_def)
  from time_value_of_expression [OF this, of sample_zero_time, OF sample_zero_time_def, where opt = options_default] show ?thesis
    by (auto simp: sample_datetime_def options_default_def days_as_hours_def)
qed

theorem fraction_truncation_witness:
  "\<exists>t'. my_time_trunc (\<lambda>i. 10 ^ i) sample_datetime 3 = Some t' \<and> unat (second_part t') = 123000"
proof -
  have i: "unat (10 ^ i :: uint64) = 10 ^ i" if "i \<le> 6" for i
  proof -
    have "i \<in> {0, 1, 2, 3, 4, 5, 6}" using that by auto
    then show ?thesis by auto
  qed
  have "3 \<le> TIME_SECOND_PART_DIGITS" "second_part sample_datetime \<le> TIME_MAX_SECOND_PART"
    by (simp_all add: TIME_SECOND_PART_DIGITS_def sample_datetime_def TIME_MAX_SECOND_PART_def)
  from fraction_truncation [OF i this] show ?thesis by (auto simp: sample_datetime_def)
qed

theorem timestamp_range_witness:
  "validate_timestamp_range (sample_datetime\<lparr>year := 2038, month := 1, day := 19\<rparr>) \<and>
   \<not> validate_timestamp_range (sample_datetime\<lparr>year := 2038, month := 1, day := 20\<rparr>)"
  using timestamp_range [of "sample_datetime\<lparr>year := 2038, month := 1, day := 19\<rparr>"]
    timestamp_range [of "sample_datetime\<lparr>year := 2038, month := 1, day := 20\<rparr>"] by simp

theorem date_and_datetime_values_witness:
  "\<exists>d. date_new (\<lambda>t. hour t > 23) sample_datetime = Some d \<and> day d = 5 \<and> \<not> non_zero_hhmmssuu d"
  using date_and_datetime_values [of sample_datetime "\<lambda>t. hour t > 23"] by (auto simp: sample_datetime_def)

end
