(* ===== verification/InPredicate.thy ===== *)
theory InPredicate
  imports Complex_Main NodeHeap
begin

text \<open>
  Comparing one expression with a list of others, for \<open>IN\<close> and \<open>CASE\<close> (\<^verbatim>\<open>item_cmpfunc.h\<close>): the comparison objects that cache the value of the
  predicant, and the list of comparators that share one such object for each type handler.  An item is the values it evaluates to.  The
  classes \<open>cmp_item_int\<close>, \<open>cmp_item_real\<close> and \<open>cmp_item_sort_string\<close> are modelled; the classes whose functions are compiled (decimal,
  temporal and row comparison) are given by a record of functions, as is the collation and the outcome of copying a string.  A type
  handler is identified by its address.
\<close>

section \<open>Comparison objects\<close>

definition UNKNOWN :: int where "UNKNOWN = -1"

record sql_item =
  val_int :: int
  val_real :: real
  val_str :: "uchar list option"
  null_value :: bool

datatype 'c cmp_item =
    cmp_item_int int bool
  | cmp_item_real real bool
  | cmp_item_sort_string "uchar list option" bool
  | cmp_item_other 'c

record 'c cmp_functions =
  sortcmp :: "uchar list \<Rightarrow> uchar list \<Rightarrow> int"
  copy_fails :: "uchar list \<Rightarrow> bool"
  other_store_value :: "'c \<Rightarrow> sql_item \<Rightarrow> 'c"
  other_cmp :: "'c \<Rightarrow> sql_item \<Rightarrow> int"
  other_cmp_not_null :: "'c \<Rightarrow> sql_item \<Rightarrow> int"
  other_compare :: "'c \<Rightarrow> 'c \<Rightarrow> int"

fun store_value :: "'c cmp_functions \<Rightarrow> sql_item \<Rightarrow> 'c cmp_item \<Rightarrow> 'c cmp_item" where
  "store_value F item (cmp_item_int v n) = cmp_item_int (val_int item) (null_value item)"
| "store_value F item (cmp_item_real v n) = cmp_item_real (val_real item) (null_value item)"
| "store_value F item (cmp_item_sort_string v n) =
     cmp_item_sort_string (case val_str item of Some s \<Rightarrow> Some (if copy_fails F s then [] else s) | None \<Rightarrow> None) (null_value item)"
| "store_value F item (cmp_item_other c) = cmp_item_other (other_store_value F c item)"

fun item_cmp :: "'c cmp_functions \<Rightarrow> 'c cmp_item \<Rightarrow> sql_item \<Rightarrow> int" where
  "item_cmp F (cmp_item_int v n) arg = (let rc = v \<noteq> val_int arg in if n \<or> null_value arg then UNKNOWN else of_bool rc)"
| "item_cmp F (cmp_item_real v n) arg = (let rc = v \<noteq> val_real arg in if n \<or> null_value arg then UNKNOWN else of_bool rc)"
| "item_cmp F (cmp_item_sort_string v n) arg =
     (if n \<or> null_value arg then UNKNOWN
      else case (v, val_str arg) of
             (Some a, Some b) \<Rightarrow> of_bool (sortcmp F a b \<noteq> 0)
           | (None, None) \<Rightarrow> 0
           | _ \<Rightarrow> 1)"
| "item_cmp F (cmp_item_other c) arg = other_cmp F c arg"

fun item_cmp_not_null :: "'c cmp_functions \<Rightarrow> 'c cmp_item \<Rightarrow> sql_item \<Rightarrow> int option" where
  "item_cmp_not_null F (cmp_item_int v n) val = do { DBUG_ASSERT (\<not> null_value val); Some (of_bool (v \<noteq> val_int val)) }"
| "item_cmp_not_null F (cmp_item_real v n) val = do { DBUG_ASSERT (\<not> null_value val); Some (of_bool (v \<noteq> val_real val)) }"
| "item_cmp_not_null F (cmp_item_sort_string v n) val =
     do { DBUG_ASSERT (\<not> null_value val); a \<leftarrow> v; b \<leftarrow> val_str val; Some (of_bool (sortcmp F a b \<noteq> 0)) }"
| "item_cmp_not_null F (cmp_item_other c) val = Some (other_cmp_not_null F c val)"

fun item_compare :: "'c cmp_functions \<Rightarrow> 'c cmp_item \<Rightarrow> 'c cmp_item \<Rightarrow> int option" where
  "item_compare F (cmp_item_int a n) (cmp_item_int b m) = Some (if a < b then -1 else if a = b then 0 else 1)"
| "item_compare F (cmp_item_real a n) (cmp_item_real b m) = Some (if a < b then -1 else if a = b then 0 else 1)"
| "item_compare F (cmp_item_sort_string a n) (cmp_item_sort_string b m) = do { x \<leftarrow> a; y \<leftarrow> b; Some (sortcmp F x y) }"
| "item_compare F (cmp_item_other a) (cmp_item_other b) = Some (other_compare F a b)"
| "item_compare F _ _ = None"

section \<open>The list of comparators\<close>

text \<open>An element of an array; there is none behind its end.\<close>

definition elem_at :: "'a list \<Rightarrow> nat \<Rightarrow> 'a option" where
  "elem_at xs i = (if i < length xs then Some (xs ! i) else None)"

record 'c Predicant_to_value_comparator =
  m_handler :: ptr
  m_cmp_item :: "'c cmp_item option"
  m_arg_index :: nat
  m_handler_index :: nat

record 'c Predicant_to_list_comparator =
  m_comparators :: "'c Predicant_to_value_comparator list"
  m_comparator_count :: nat
  m_predicant_index :: nat

definition comparator_cleanup :: "'c Predicant_to_value_comparator" where
  "comparator_cleanup = \<lparr>m_handler = 0, m_cmp_item = None, m_arg_index = 0, m_handler_index = 0\<rparr>"

text \<open>The constructor and \<open>init_clone\<close>: the memory for the comparators comes from \<open>alloc_comparators\<close>.\<close>

definition pl_new :: "'c Predicant_to_value_comparator list \<Rightarrow> 'c Predicant_to_list_comparator" where
  "pl_new comparators = \<lparr>m_comparators = comparators, m_comparator_count = 0, m_predicant_index = 0\<rparr>"

definition init_clone :: "('c Predicant_to_list_comparator \<Rightarrow> bool \<times> 'c Predicant_to_list_comparator) \<Rightarrow>
    'c Predicant_to_list_comparator \<Rightarrow> bool \<times> 'c Predicant_to_list_comparator" where
  "init_clone alloc_comparators pl = alloc_comparators (pl\<lparr>m_comparator_count := 0, m_predicant_index := 0\<rparr>)"

definition add_predicant :: "sql_item list \<Rightarrow> nat \<Rightarrow> 'c Predicant_to_list_comparator \<Rightarrow> 'c Predicant_to_list_comparator option" where
  "add_predicant args predicant_index pl =
     do { DBUG_ASSERT (m_comparator_count pl = 0);
          DBUG_ASSERT (m_predicant_index pl = 0);
          DBUG_ASSERT (predicant_index < length args);
          Some (pl\<lparr>m_predicant_index := predicant_index\<rparr>) }"

primrec find_handler_loop :: "'c Predicant_to_list_comparator \<Rightarrow> ptr \<Rightarrow> nat list \<Rightarrow> nat \<Rightarrow> (bool \<times> nat) option" where
  "find_handler_loop pl handler [] idx = Some (True, idx)"
| "find_handler_loop pl handler (i # is) idx =
     do { c \<leftarrow> elem_at (m_comparators pl) i; if m_handler c = handler then Some (False, i) else find_handler_loop pl handler is idx }"

definition find_handler :: "'c Predicant_to_list_comparator \<Rightarrow> ptr \<Rightarrow> nat \<Rightarrow> nat \<Rightarrow> (bool \<times> nat) option" where
  "find_handler pl handler count idx =
     do { DBUG_ASSERT (count < m_comparator_count pl); find_handler_loop pl handler [0..<count] idx }"

definition pl_cleanup :: "'c Predicant_to_list_comparator \<Rightarrow> 'c Predicant_to_list_comparator" where
  "pl_cleanup pl =
     pl\<lparr>m_comparators := replicate (m_comparator_count pl) comparator_cleanup @ drop (m_comparator_count pl) (m_comparators pl),
        m_comparator_count := 0, m_predicant_index := 0\<rparr>"

definition get_comparator_type_handler :: "'c Predicant_to_list_comparator \<Rightarrow> nat \<Rightarrow> ptr option" where
  "get_comparator_type_handler pl i =
     do { DBUG_ASSERT (i < m_comparator_count pl); c \<leftarrow> elem_at (m_comparators pl) i; Some (m_handler c) }"

definition get_comparator_arg_index :: "'c Predicant_to_list_comparator \<Rightarrow> nat \<Rightarrow> nat option" where
  "get_comparator_arg_index pl i =
     do { DBUG_ASSERT (i < m_comparator_count pl); c \<leftarrow> elem_at (m_comparators pl) i; Some (m_arg_index c) }"

definition get_comparator_cmp_item :: "'c Predicant_to_list_comparator \<Rightarrow> nat \<Rightarrow> 'c cmp_item option option" where
  "get_comparator_cmp_item pl i =
     do { DBUG_ASSERT (i < m_comparator_count pl); c \<leftarrow> elem_at (m_comparators pl) i; Some (m_cmp_item c) }"

text \<open>The object shared by the comparators of one handler; the leftmost of them stores the predicant.\<close>

definition set_cmp_item :: "nat \<Rightarrow> 'c cmp_item \<Rightarrow> 'c Predicant_to_list_comparator \<Rightarrow> 'c Predicant_to_list_comparator" where
  "set_cmp_item j in_item pl = pl\<lparr>m_comparators := (m_comparators pl)[j := (m_comparators pl ! j)\<lparr>m_cmp_item := Some in_item\<rparr>]\<rparr>"

definition cmp_arg :: "'c cmp_functions \<Rightarrow> ptr \<Rightarrow> sql_item list \<Rightarrow> nat \<Rightarrow> 'c Predicant_to_list_comparator \<Rightarrow>
    (int \<times> 'c Predicant_to_list_comparator) option" where
  "cmp_arg F type_handler_row args i pl =
     do { c \<leftarrow> elem_at (m_comparators pl) i;
          cmp \<leftarrow> elem_at (m_comparators pl) (m_handler_index c);
          in_item \<leftarrow> m_cmp_item cmp;
          predicant \<leftarrow> elem_at args (m_predicant_index pl);
          (in1, pl1) \<leftarrow> Some (if m_handler_index c = i
                            then let x = store_value F predicant in_item in (x, set_cmp_item (m_handler_index c) x pl)
                            else (in_item, pl));
          if null_value predicant \<and> m_handler c \<noteq> type_handler_row then Some (UNKNOWN, pl1)
          else do { arg \<leftarrow> elem_at args (m_arg_index c); Some (item_cmp F in1 arg, pl1) } }"

definition cmp_args_nulls_equal :: "'c cmp_functions \<Rightarrow> sql_item list \<Rightarrow> nat \<Rightarrow> 'c Predicant_to_list_comparator \<Rightarrow>
    (int \<times> 'c Predicant_to_list_comparator) option" where
  "cmp_args_nulls_equal F args i pl =
     do { c \<leftarrow> elem_at (m_comparators pl) i;
          cmp \<leftarrow> elem_at (m_comparators pl) (m_handler_index c);
          in_item \<leftarrow> m_cmp_item cmp;
          predicant \<leftarrow> elem_at args (m_predicant_index pl);
          arg \<leftarrow> elem_at args (m_arg_index c);
          (in1, pl1) \<leftarrow> Some (if m_handler_index c = i
                            then let x = store_value F predicant in_item in (x, set_cmp_item (m_handler_index c) x pl)
                            else (in_item, pl));
          if null_value predicant \<and> null_value arg then Some (0, pl1)
          else if null_value predicant \<or> null_value arg then Some (UNKNOWN, pl1)
          else do { rc \<leftarrow> item_cmp_not_null F in1 arg; Some (rc, pl1) } }"

text \<open>
  The loops return whether no equal value was found, the index, the flag for unknown results (with no flag the first unknown result ends
  the search) and the list with its cached values.
\<close>

primrec cmp_loop :: "'c cmp_functions \<Rightarrow> ptr \<Rightarrow> sql_item list \<Rightarrow> nat list \<Rightarrow> nat \<Rightarrow> bool option \<Rightarrow> 'c Predicant_to_list_comparator \<Rightarrow>
    (bool \<times> nat \<times> bool option \<times> 'c Predicant_to_list_comparator) option" where
  "cmp_loop F type_handler_row args [] idx unknown pl = Some (True, idx, unknown, pl)"
| "cmp_loop F type_handler_row args (i # is) idx unknown pl =
     do { c \<leftarrow> elem_at (m_comparators pl) i;
          DBUG_ASSERT (m_handler c \<noteq> 0);
          (rc, pl1) \<leftarrow> cmp_arg F type_handler_row args i pl;
          if rc = 0 then Some (False, m_arg_index c, unknown, pl1)
          else if rc = UNKNOWN then
            (case unknown of
               None \<Rightarrow> Some (True, idx, None, pl1)
             | Some u \<Rightarrow> cmp_loop F type_handler_row args is idx (Some True) pl1)
          else cmp_loop F type_handler_row args is idx unknown pl1 }"

definition pl_cmp where
  "pl_cmp F type_handler_row args idx unknown pl = cmp_loop F type_handler_row args [0..<m_comparator_count pl] idx unknown pl"

primrec cmp_nulls_equal_loop :: "'c cmp_functions \<Rightarrow> sql_item list \<Rightarrow> nat list \<Rightarrow> nat \<Rightarrow> 'c Predicant_to_list_comparator \<Rightarrow>
    (bool \<times> nat \<times> 'c Predicant_to_list_comparator) option" where
  "cmp_nulls_equal_loop F args [] idx pl = Some (True, idx, pl)"
| "cmp_nulls_equal_loop F args (i # is) idx pl =
     do { c \<leftarrow> elem_at (m_comparators pl) i;
          DBUG_ASSERT (m_handler c \<noteq> 0);
          (rc, pl1) \<leftarrow> cmp_args_nulls_equal F args i pl;
          if rc = 0 then Some (False, m_arg_index c, pl1) else cmp_nulls_equal_loop F args is idx pl1 }"

definition cmp_nulls_equal where
  "cmp_nulls_equal F args idx pl = cmp_nulls_equal_loop F args [0..<m_comparator_count pl] idx pl"

section \<open>What the list promises\<close>

text \<open>
  The documented form of the list: \<open>m_handler_index\<close> is the leftmost comparator with the same handler, and that one has the comparison object.
\<close>

definition comparators_ok :: "sql_item list \<Rightarrow> 'c Predicant_to_list_comparator \<Rightarrow> bool" where
  "comparators_ok args pl \<longleftrightarrow> m_comparator_count pl \<le> length (m_comparators pl) \<and> m_predicant_index pl < length args \<and>
     (\<forall>i<m_comparator_count pl. let c = m_comparators pl ! i in
        m_handler c \<noteq> 0 \<and> m_arg_index c < length args \<and> m_handler_index c \<le> i \<and>
        m_handler_index (m_comparators pl ! m_handler_index c) = m_handler_index c \<and>
        m_cmp_item (m_comparators pl ! m_handler_index c) \<noteq> None)"

definition the_cmp_item :: "'c Predicant_to_list_comparator \<Rightarrow> nat \<Rightarrow> 'c cmp_item" where
  "the_cmp_item pl i = the (m_cmp_item (m_comparators pl ! m_handler_index (m_comparators pl ! i)))"

text \<open>The result of one pair, with the value of the predicant freshly stored.\<close>

definition pair_result :: "'c cmp_functions \<Rightarrow> ptr \<Rightarrow> sql_item list \<Rightarrow> 'c Predicant_to_list_comparator \<Rightarrow> nat \<Rightarrow> int" where
  "pair_result F row args pl i =
     (let c = m_comparators pl ! i; predicant = args ! m_predicant_index pl in
      if null_value predicant \<and> m_handler c \<noteq> row then UNKNOWN
      else item_cmp F (store_value F predicant (the_cmp_item pl i)) (args ! m_arg_index c))"

text \<open>The list after the first \<open>k\<close> comparisons: the objects of the comparators seen so far hold the predicant.\<close>

definition stored :: "'c cmp_functions \<Rightarrow> sql_item list \<Rightarrow> nat \<Rightarrow> 'c Predicant_to_list_comparator \<Rightarrow> 'c Predicant_to_list_comparator" where
  "stored F args k pl = pl\<lparr>m_comparators := map (\<lambda>(j, c). if j < k \<and> m_handler_index c = j
      then c\<lparr>m_cmp_item := map_option (store_value F (args ! m_predicant_index pl)) (m_cmp_item c)\<rparr> else c)
      (zip [0..<length (m_comparators pl)] (m_comparators pl))\<rparr>"

lemma stored_simps [simp]:
  "length (m_comparators (stored F args k pl)) = length (m_comparators pl)" "m_comparator_count (stored F args k pl) = m_comparator_count pl"
  "m_predicant_index (stored F args k pl) = m_predicant_index pl"
  by (simp_all add: stored_def)

lemma stored_nth: "j < length (m_comparators pl) \<Longrightarrow> m_comparators (stored F args k pl) ! j =
    (let c = m_comparators pl ! j in if j < k \<and> m_handler_index c = j
     then c\<lparr>m_cmp_item := map_option (store_value F (args ! m_predicant_index pl)) (m_cmp_item c)\<rparr> else c)"
  by (simp add: stored_def Let_def)

lemma stored_0: "stored F args 0 pl = pl"
proof -
  have "m_comparators (stored F args 0 pl) = m_comparators pl" by (rule nth_equalityI) (simp_all add: stored_nth)
  then show ?thesis by (simp add: stored_def)
qed

lemma comparators_okD:
  assumes "comparators_ok args pl" "i < m_comparator_count pl"
  shows "i < length (m_comparators pl)" "m_predicant_index pl < length args" "m_handler (m_comparators pl ! i) \<noteq> 0"
    "m_arg_index (m_comparators pl ! i) < length args" "m_handler_index (m_comparators pl ! i) \<le> i"
    "m_handler_index (m_comparators pl ! m_handler_index (m_comparators pl ! i)) = m_handler_index (m_comparators pl ! i)"
    "m_cmp_item (m_comparators pl ! m_handler_index (m_comparators pl ! i)) = Some (the_cmp_item pl i)"
  using assms by (auto simp: comparators_ok_def Let_def the_cmp_item_def)

text \<open>The comparator at position \<open>k\<close> finds the object of its handler, and leaves the predicant there.\<close>

lemma comparator_access:
  fixes F :: "'c cmp_functions" and args pl k
  assumes ok: "comparators_ok args pl" and k: "k < m_comparator_count pl"
  defines "c \<equiv> m_comparators pl ! k"
  defines "x \<equiv> store_value F (args ! m_predicant_index pl) (the_cmp_item pl k)"
  obtains c' ci where "elem_at (m_comparators (stored F args k pl)) k = Some c'"
      "m_handler c' = m_handler c" "m_arg_index c' = m_arg_index c" "m_handler_index c' = m_handler_index c"
      "elem_at (m_comparators (stored F args k pl)) (m_handler_index c) = Some ci"
      "m_cmp_item ci = Some (if m_handler_index c = k then the_cmp_item pl k else x)"
      "(if m_handler_index c = k then set_cmp_item (m_handler_index c) x (stored F args k pl) else stored F args k pl) = stored F args (Suc k) pl"
proof -
  note D = comparators_okD [OF ok k]
  let ?s = "stored F args k pl"
  let ?h = "m_handler_index c"
  have h: "?h \<le> k" "?h < length (m_comparators pl)" using D by (auto simp: c_def)
  have "m_comparators ?s ! k = c" using D(1) by (simp add: stored_nth c_def Let_def)
  then have 1: "elem_at (m_comparators ?s) k = Some c" using D(1) by (simp add: elem_at_def)
  have 2: "elem_at (m_comparators ?s) ?h = Some (m_comparators ?s ! ?h)" using h by (simp add: elem_at_def)
  have 3: "m_cmp_item (m_comparators ?s ! ?h) = Some (if ?h = k then the_cmp_item pl k else x)"
    using D(6,7) h by (auto simp: stored_nth Let_def c_def x_def)
  have 4: "(if ?h = k then set_cmp_item ?h x ?s else ?s) = stored F args (Suc k) pl"
  proof -
    have "m_comparators (if ?h = k then set_cmp_item ?h x ?s else ?s) = m_comparators (stored F args (Suc k) pl)"
    proof (rule nth_equalityI)
      fix j assume "j < length (m_comparators (if ?h = k then set_cmp_item ?h x ?s else ?s))"
      then have j: "j < length (m_comparators pl)" by (simp add: set_cmp_item_def split: if_splits)
      show "m_comparators (if ?h = k then set_cmp_item ?h x ?s else ?s) ! j = m_comparators (stored F args (Suc k) pl) ! j"
        using j D(7) by (auto simp: set_cmp_item_def stored_nth Let_def nth_list_update c_def x_def less_Suc_eq)
    qed (simp add: set_cmp_item_def)
    then show ?thesis by (simp add: set_cmp_item_def stored_def)
  qed
  show ?thesis by (rule that [OF 1 refl refl refl 2 3 4])
qed

lemma cmp_arg_step:
  assumes "comparators_ok args pl" "k < m_comparator_count pl"
  shows "cmp_arg F row args k (stored F args k pl) = Some (pair_result F row args pl k, stored F args (Suc k) pl)"
proof -
  note D = comparators_okD [OF assms]
  show ?thesis
    by (rule comparator_access [OF assms, where F = F])
      (use D(2,4) in \<open>auto simp: cmp_arg_def pair_result_def Let_def elem_at_def split: if_splits\<close>)
qed

lemma stored_ok: "comparators_ok args pl \<Longrightarrow> comparators_ok args (stored F args k pl)"
proof -
  assume ok: "comparators_ok args pl"
  have "let c = m_comparators (stored F args k pl) ! i in
        m_handler c \<noteq> 0 \<and> m_arg_index c < length args \<and> m_handler_index c \<le> i \<and>
        m_handler_index (m_comparators (stored F args k pl) ! m_handler_index c) = m_handler_index c \<and>
        m_cmp_item (m_comparators (stored F args k pl) ! m_handler_index c) \<noteq> None" if i: "i < m_comparator_count pl" for i
  proof -
    note D = comparators_okD [OF ok i]
    have h: "m_handler_index (m_comparators pl ! i) < length (m_comparators pl)" using D(1,5) by simp
    have "m_handler_index (m_comparators (stored F args k pl) ! j) = m_handler_index (m_comparators pl ! j)"
      "m_handler (m_comparators (stored F args k pl) ! j) = m_handler (m_comparators pl ! j)"
      "m_arg_index (m_comparators (stored F args k pl) ! j) = m_arg_index (m_comparators pl ! j)"
      "m_cmp_item (m_comparators (stored F args k pl) ! j) = None \<longleftrightarrow> m_cmp_item (m_comparators pl ! j) = None"
      if "j < length (m_comparators pl)" for j
      using that by (simp_all add: stored_nth Let_def)
    then show ?thesis using D h by (simp add: Let_def del: not_None_eq)
  qed
  then show ?thesis using ok by (simp add: comparators_ok_def)
qed

lemma stored_access: "i < length (m_comparators pl) \<Longrightarrow>
    \<exists>c. elem_at (m_comparators (stored F args k pl)) i = Some c \<and> m_handler c = m_handler (m_comparators pl ! i) \<and>
      m_arg_index c = m_arg_index (m_comparators pl ! i)"
  by (simp add: elem_at_def stored_nth Let_def)

text \<open>One round of the search.\<close>

lemma cmp_loop_step:
  assumes "comparators_ok args pl" "k < m_comparator_count pl"
  shows "cmp_loop F row args (k # is) idx unknown (stored F args k pl) =
    (let rc = pair_result F row args pl k in
     if rc = 0 then Some (False, m_arg_index (m_comparators pl ! k), unknown, stored F args (Suc k) pl)
     else if rc = UNKNOWN \<and> unknown = None then Some (True, idx, None, stored F args (Suc k) pl)
     else cmp_loop F row args is idx (map_option (\<lambda>u. u \<or> rc = UNKNOWN) unknown) (stored F args (Suc k) pl))"
proof -
  obtain c where c: "elem_at (m_comparators (stored F args k pl)) k = Some c" "m_handler c = m_handler (m_comparators pl ! k)"
      "m_arg_index c = m_arg_index (m_comparators pl ! k)"
    using stored_access comparators_okD(1) [OF assms] by blast
  then have "m_handler c \<noteq> 0" using comparators_okD(3) [OF assms] by simp
  moreover have "map_option (\<lambda>u. u) unknown = unknown" by (cases unknown) auto
  ultimately show ?thesis using c by (auto simp: cmp_arg_step [OF assms] Let_def split: option.split)
qed

lemma find_upt_step: "k < n \<Longrightarrow> find P [k..<n] = (if P k then Some k else find P [Suc k..<n])"
  by (simp add: upt_conv_Cons)

text \<open>With a flag the search runs to the first equal value; without it, to the first value that is equal or unknown.\<close>

lemma cmp_loop_flag:
  assumes "comparators_ok args pl" "k \<le> m_comparator_count pl"
  shows "cmp_loop F row args [k..<m_comparator_count pl] idx (Some u) (stored F args k pl) = Some
    (case find (\<lambda>i. pair_result F row args pl i = 0) [k..<m_comparator_count pl] of
       Some i \<Rightarrow> (False, m_arg_index (m_comparators pl ! i), Some (u \<or> (\<exists>j\<in>{k..<i}. pair_result F row args pl j = UNKNOWN)), stored F args (Suc i) pl)
     | None \<Rightarrow> (True, idx, Some (u \<or> (\<exists>j\<in>{k..<m_comparator_count pl}. pair_result F row args pl j = UNKNOWN)),
         stored F args (m_comparator_count pl) pl))"
  using assms(2)
proof (induction "m_comparator_count pl - k" arbitrary: k u)
  case (Suc d)
  then have k: "k < m_comparator_count pl" by simp
  have split: "{k..<m} = insert k {Suc k..<m}" if "k < m" for m using that by auto
  have "k < i" if "find P [Suc k..<n] = Some i" for P i n using that by (auto simp: find_Some_iff)
  moreover have "d = m_comparator_count pl - Suc k" "Suc k \<le> m_comparator_count pl" using Suc.hyps(2) k by simp_all
  note IH = Suc.hyps(1) [OF this, of "u \<or> pair_result F row args pl k = UNKNOWN"]
  ultimately show ?case
    using k by (auto simp: upt_conv_Cons [OF k] cmp_loop_step [OF assms(1) k] Let_def IH split simp del: cmp_loop.simps(2) split: option.split)
qed simp

lemma cmp_loop_no_flag:
  assumes "comparators_ok args pl" "k \<le> m_comparator_count pl"
  shows "cmp_loop F row args [k..<m_comparator_count pl] idx None (stored F args k pl) = Some
    (case find (\<lambda>i. pair_result F row args pl i \<in> {0, UNKNOWN}) [k..<m_comparator_count pl] of
       Some i \<Rightarrow> (if pair_result F row args pl i = 0 then (False, m_arg_index (m_comparators pl ! i), None, stored F args (Suc i) pl)
         else (True, idx, None, stored F args (Suc i) pl))
     | None \<Rightarrow> (True, idx, None, stored F args (m_comparator_count pl) pl))"
  using assms(2)
proof (induction "m_comparator_count pl - k" arbitrary: k)
  case (Suc d)
  then have k: "k < m_comparator_count pl" by simp
  have "d = m_comparator_count pl - Suc k" "Suc k \<le> m_comparator_count pl" using Suc.hyps(2) k by simp_all
  note IH = Suc.hyps(1) [OF this]
  show ?case by (simp add: upt_conv_Cons [OF k] cmp_loop_step [OF assms(1) k] Let_def IH del: cmp_loop.simps(2))
qed simp

lemma find_first:
  "find P [0..<n] = Some i \<longleftrightarrow> i < n \<and> P i \<and> (\<forall>j<i. \<not> P j)" "find P [0..<n] = None \<longleftrightarrow> (\<forall>i<n. \<not> P i)"
proof -
  have "(\<forall>j<k. \<not> P ([0..<n] ! j)) \<longleftrightarrow> (\<forall>j<k. \<not> P j)" if "k < n" for k using that by auto
  then show "find P [0..<n] = Some i \<longleftrightarrow> i < n \<and> P i \<and> (\<forall>j<i. \<not> P j)" by (auto simp: find_Some_iff)
qed (auto simp: find_None_iff)

text \<open>
  C14: The \<open>IN\<close> predicate: whatever was cached before, the search finds the first value whose comparison with the predicant gives equal; if there is none
  it has seen every pair, the index is untouched and the flag tells whether a result was unknown, which decides between false and null.
\<close>

theorem in_predicate_search:
  assumes "comparators_ok args pl"
  shows "\<exists>idx' unknown pl'.
    pl_cmp F row args idx (Some False) pl = Some (\<forall>i<m_comparator_count pl. pair_result F row args pl i \<noteq> 0, idx', Some unknown, pl') \<and>
    (if \<forall>i<m_comparator_count pl. pair_result F row args pl i \<noteq> 0
     then idx' = idx \<and> (unknown \<longleftrightarrow> (\<exists>i<m_comparator_count pl. pair_result F row args pl i = UNKNOWN))
     else \<exists>i<m_comparator_count pl. pair_result F row args pl i = 0 \<and> (\<forall>j<i. pair_result F row args pl j \<noteq> 0) \<and>
       idx' = m_arg_index (m_comparators pl ! i)) \<and>
    comparators_ok args pl'"
proof (cases "find (\<lambda>i. pair_result F row args pl i = 0) [0..<m_comparator_count pl]")
  case None
  then have "\<forall>i<m_comparator_count pl. pair_result F row args pl i \<noteq> 0" by (simp add: find_first)
  then show ?thesis
    using cmp_loop_flag [OF assms, of 0 F row idx False] None stored_ok [OF assms, of F]
    by (auto simp: pl_cmp_def stored_0)
next
  case (Some i)
  then have "i < m_comparator_count pl \<and> pair_result F row args pl i = 0 \<and> (\<forall>j<i. pair_result F row args pl j \<noteq> 0)" by (simp add: find_first)
  then show ?thesis
    using cmp_loop_flag [OF assms, of 0 F row idx False] Some stored_ok [OF assms, of F]
    by (auto simp: pl_cmp_def stored_0)
qed

text \<open>Without a flag, as for \<open>CASE\<close>, an equal value is found only if no comparison before it is unknown.\<close>

theorem case_search:
  assumes "comparators_ok args pl"
  shows "\<exists>idx' pl'. pl_cmp F row args idx None pl =
    Some (\<not> (\<exists>i<m_comparator_count pl. pair_result F row args pl i = 0 \<and> (\<forall>j<i. pair_result F row args pl j \<notin> {0, UNKNOWN})), idx', None, pl')"
proof (cases "find (\<lambda>i. pair_result F row args pl i \<in> {0, UNKNOWN}) [0..<m_comparator_count pl]")
  case None
  then have "\<not> (\<exists>i<m_comparator_count pl. pair_result F row args pl i = 0)" by (auto simp: find_first)
  then show ?thesis using cmp_loop_no_flag [OF assms, of 0 F row idx] None by (auto simp: pl_cmp_def stored_0)
next
  case (Some i)
  then have i: "i < m_comparator_count pl" "pair_result F row args pl i \<in> {0, UNKNOWN}" "\<forall>j<i. pair_result F row args pl j \<notin> {0, UNKNOWN}"
    by (simp_all add: find_first)
  have "(\<exists>k<m_comparator_count pl. pair_result F row args pl k = 0 \<and> (\<forall>j<k. pair_result F row args pl j \<notin> {0, UNKNOWN})) \<longleftrightarrow> pair_result F row args pl i = 0"
    using i by (metis insert_iff linorder_neqE_nat)
  then show ?thesis using cmp_loop_no_flag [OF assms, of 0 F row idx] Some by (auto simp: pl_cmp_def stored_0)
qed

text \<open>
  The result of a pair of scalars in the three classes: unknown if one is null, otherwise whether the values differ.
\<close>

theorem scalar_pairs:
  fixes pl :: "'c Predicant_to_list_comparator" and args i
  assumes "m_handler (m_comparators pl ! i) \<noteq> row"
  defines "p \<equiv> args ! m_predicant_index pl" and "a \<equiv> args ! m_arg_index (m_comparators pl ! i)"
  shows "(\<exists>v n. the_cmp_item pl i = cmp_item_int v n) \<Longrightarrow>
      pair_result F row args pl i = (if null_value p \<or> null_value a then UNKNOWN else of_bool (val_int p \<noteq> val_int a))"
    and "(\<exists>v n. the_cmp_item pl i = cmp_item_real v n) \<Longrightarrow>
      pair_result F row args pl i = (if null_value p \<or> null_value a then UNKNOWN else of_bool (val_real p \<noteq> val_real a))"
    and "(\<exists>v n. the_cmp_item pl i = cmp_item_sort_string v n) \<Longrightarrow> val_str p = Some s \<Longrightarrow> val_str a = Some t \<Longrightarrow> \<not> copy_fails F s \<Longrightarrow>
      pair_result F row args pl i = (if null_value p \<or> null_value a then UNKNOWN else of_bool (sortcmp F s t \<noteq> 0))"
  using assms(1) by (auto simp: pair_result_def Let_def p_def a_def)

section \<open>Two nulls as equal\<close>

definition pair_result_nulls :: "'c cmp_functions \<Rightarrow> sql_item list \<Rightarrow> 'c Predicant_to_list_comparator \<Rightarrow> nat \<Rightarrow> int option" where
  "pair_result_nulls F args pl i =
     (let p = args ! m_predicant_index pl; a = args ! m_arg_index (m_comparators pl ! i) in
      if null_value p \<and> null_value a then Some 0
      else if null_value p \<or> null_value a then Some UNKNOWN
      else item_cmp_not_null F (store_value F p (the_cmp_item pl i)) a)"

lemma cmp_args_nulls_equal_step:
  assumes "comparators_ok args pl" "k < m_comparator_count pl"
  shows "cmp_args_nulls_equal F args k (stored F args k pl) = map_option (\<lambda>rc. (rc, stored F args (Suc k) pl)) (pair_result_nulls F args pl k)"
proof -
  note D = comparators_okD [OF assms]
  show ?thesis
    by (rule comparator_access [OF assms, where F = F])
      (use D(2,4) in \<open>auto simp: cmp_args_nulls_equal_def pair_result_nulls_def Let_def elem_at_def map_conv_bind_option comp_def split: if_splits\<close>)
qed

text \<open>The comparison for \<open>DECODE\<close> finds the first pair that is equal, counting two nulls as equal.\<close>

theorem decode_search:
  assumes "comparators_ok args pl" "\<forall>i<m_comparator_count pl. pair_result_nulls F args pl i \<noteq> None"
  shows "\<exists>idx' pl'. cmp_nulls_equal F args idx pl = Some (\<forall>i<m_comparator_count pl. pair_result_nulls F args pl i \<noteq> Some 0, idx', pl') \<and>
    (\<forall>i<m_comparator_count pl. pair_result_nulls F args pl i = Some 0 \<and> (\<forall>j<i. pair_result_nulls F args pl j \<noteq> Some 0) \<longrightarrow>
       idx' = m_arg_index (m_comparators pl ! i))"
proof -
  have "k \<le> m_comparator_count pl \<Longrightarrow> \<exists>idx' pl'. cmp_nulls_equal_loop F args [k..<m_comparator_count pl] idx (stored F args k pl) =
      Some (\<forall>i\<in>{k..<m_comparator_count pl}. pair_result_nulls F args pl i \<noteq> Some 0, idx', pl') \<and>
      (\<forall>i\<in>{k..<m_comparator_count pl}. pair_result_nulls F args pl i = Some 0 \<and> (\<forall>j\<in>{k..<i}. pair_result_nulls F args pl j \<noteq> Some 0) \<longrightarrow>
         idx' = m_arg_index (m_comparators pl ! i))" for k
  proof (induction "m_comparator_count pl - k" arbitrary: k)
    case (Suc d)
    then have k: "k < m_comparator_count pl" by simp
    have "d = m_comparator_count pl - Suc k" "Suc k \<le> m_comparator_count pl" using Suc.hyps(2) k by simp_all
    note IH = Suc.hyps(1) [OF this]
    obtain c where c: "elem_at (m_comparators (stored F args k pl)) k = Some c" "m_handler c = m_handler (m_comparators pl ! k)"
        "m_arg_index c = m_arg_index (m_comparators pl ! k)"
      using stored_access comparators_okD(1) [OF assms(1) k] by blast
    then have h: "m_handler c \<noteq> 0" using comparators_okD(3) [OF assms(1) k] by simp
    obtain rc where rc: "pair_result_nulls F args pl k = Some rc" using assms(2) k by blast
    have split: "{k..<m} = insert k {Suc k..<m}" if "k < m" for m using that by auto
    show ?case
    proof (cases "rc = 0")
      case True
      then show ?thesis using c h rc k
        by (auto simp: upt_conv_Cons [OF k] cmp_args_nulls_equal_step [OF assms(1) k] split)
    next
      case False
      then have "\<forall>i\<in>{k..<m_comparator_count pl}. pair_result_nulls F args pl i = Some 0 \<longrightarrow> k < i" using rc by (auto simp: le_less)
      then show ?thesis using IH c h rc k False
        by (fastforce simp: upt_conv_Cons [OF k] cmp_args_nulls_equal_step [OF assms(1) k] split)
    qed
  qed simp
  from this [of 0] show ?thesis by (auto simp: cmp_nulls_equal_def stored_0)
qed

section \<open>Concrete cases\<close>

definition sample_functions :: "unit cmp_functions" where
  "sample_functions = \<lparr>sortcmp = (\<lambda>a b. if a = b then 0 else 1), copy_fails = (\<lambda>s. False), other_store_value = (\<lambda>c i. c),
     other_cmp = (\<lambda>c i. 0), other_cmp_not_null = (\<lambda>c i. 0), other_compare = (\<lambda>a b. 0)\<rparr>"

definition sample_item :: "int option \<Rightarrow> sql_item" where
  "sample_item v = (case v of Some x \<Rightarrow> \<lparr>val_int = x, val_real = 0, val_str = None, null_value = False\<rparr>
     | None \<Rightarrow> \<lparr>val_int = 0, val_real = 0, val_str = None, null_value = True\<rparr>)"

text \<open>The predicant 2 and the values 1, null and 2, all compared as integers with one object that holds an old value.\<close>

definition sample_args :: "sql_item list" where
  "sample_args = map sample_item [Some 2, Some 1, None, Some 2]"

definition sample_comparator :: "nat \<Rightarrow> unit Predicant_to_value_comparator" where
  "sample_comparator i = \<lparr>m_handler = 7, m_cmp_item = (if i = 0 then Some (cmp_item_int 99 True) else None), m_arg_index = i + 1, m_handler_index = 0\<rparr>"

definition sample_list :: "unit Predicant_to_list_comparator" where
  "sample_list = \<lparr>m_comparators = map sample_comparator [0, 1, 2], m_comparator_count = 3, m_predicant_index = 0\<rparr>"

lemma less_3: "(\<forall>i<(3 :: nat). P i) \<longleftrightarrow> P 0 \<and> P 1 \<and> P 2"
  by (auto simp: numeral_3_eq_3 less_Suc_eq numeral_2_eq_2)

lemma sample_list_ok: "comparators_ok sample_args sample_list"
  by (simp add: comparators_ok_def sample_list_def sample_args_def sample_comparator_def less_3 Let_def)

lemma sample_results:
  "pair_result F 9 sample_args sample_list 0 = 1" "pair_result F 9 sample_args sample_list 1 = UNKNOWN" "pair_result F 9 sample_args sample_list 2 = 0"
  by (simp_all add: pair_result_def sample_list_def sample_args_def sample_comparator_def sample_item_def the_cmp_item_def Let_def)

theorem in_predicate_search_witness:
  "\<exists>unknown pl'. pl_cmp sample_functions 9 sample_args 0 (Some False) sample_list = Some (False, 3, Some unknown, pl')"
proof -
  have n: "m_comparator_count sample_list = 3" by (simp add: sample_list_def)
  define rc where "rc = pair_result sample_functions 9 sample_args sample_list"
  have rc: "rc 0 = 1" "rc 1 = UNKNOWN" "rc 2 = 0" using sample_results [of sample_functions] by (simp_all add: rc_def)
  then have two: "i = 2" if "i < 3" "rc i = 0" for i
    using that by (auto simp: numeral_3_eq_3 less_Suc_eq numeral_2_eq_2 UNKNOWN_def)
  have nf: "(\<forall>i<3. rc i \<noteq> 0) = False" using rc(3) by (auto simp: less_3)
  from in_predicate_search [OF sample_list_ok, of sample_functions 9 0, folded rc_def, unfolded n nf if_False]
  obtain idx' unknown pl' i where r: "pl_cmp sample_functions 9 sample_args 0 (Some False) sample_list = Some (False, idx', Some unknown, pl')"
      "i < 3" "rc i = 0" "idx' = m_arg_index (m_comparators sample_list ! i)"
    by (elim exE conjE) (rule that)
  then have "idx' = 3" using two [OF r(2,3)] by (simp add: sample_list_def sample_comparator_def)
  then show ?thesis using r(1) by (simp only:) blast
qed

theorem case_search_witness: "\<exists>idx' pl'. pl_cmp sample_functions 9 sample_args 0 None sample_list = Some (True, idx', None, pl')"
proof -
  have n: "m_comparator_count sample_list = 3" by (simp add: sample_list_def)
  have "\<not> (\<exists>i<3. pair_result sample_functions 9 sample_args sample_list i = 0 \<and> (\<forall>j<i. pair_result sample_functions 9 sample_args sample_list j \<notin> {0, UNKNOWN}))"
    using sample_results [of sample_functions] by (auto simp: numeral_3_eq_3 less_Suc_eq numeral_2_eq_2 UNKNOWN_def)
  then show ?thesis using case_search [OF sample_list_ok, of sample_functions 9 0] unfolding n by simp
qed

theorem scalar_pairs_witness: "pair_result sample_functions 9 sample_args sample_list 2 = 0"
proof -
  have "m_handler (m_comparators sample_list ! 2) \<noteq> 9" "\<exists>v n. the_cmp_item sample_list 2 = cmp_item_int v n"
    by (auto simp: sample_list_def sample_comparator_def the_cmp_item_def)
  from scalar_pairs(1) [OF this, of sample_functions sample_args] show ?thesis
    by (simp add: sample_list_def sample_comparator_def sample_args_def sample_item_def)
qed

theorem decode_search_witness: "\<exists>idx' pl'. cmp_nulls_equal sample_functions sample_args 0 sample_list = Some (False, idx', pl')"
proof -
  have n: "m_comparator_count sample_list = 3" by (simp add: sample_list_def)
  have "pair_result_nulls sample_functions sample_args sample_list 0 = Some 1" "pair_result_nulls sample_functions sample_args sample_list 1 = Some UNKNOWN"
    "pair_result_nulls sample_functions sample_args sample_list 2 = Some 0"
    by (simp_all add: pair_result_nulls_def sample_list_def sample_args_def sample_comparator_def sample_item_def the_cmp_item_def Let_def)
  then show ?thesis using decode_search [OF sample_list_ok, of sample_functions 0] unfolding n by (auto simp: less_3)
qed

end
