(* ===== verification/LooseScan.thy ===== *)
theory LooseScan
  imports Complex_Main Prelude
begin

text \<open>
  The choice of a loose index scan for a semi-join (\<^verbatim>\<open>opt_subselect.h\<close>, class \<open>Loose_scan_opt\<close>): for every index the optimiser collects the key
  uses, checks whether the scan applies and keeps the cheapest way.  What the class reads from the join, its tables and the engines is
  given by records; \<open>get_bound_sj_equalities\<close> is an argument.  Costs and numbers of records are exact reals.
\<close>

section \<open>State\<close>

definition DBL_MAX :: real where "DBL_MAX = (2 - 1 / 2 ^ 52) * 2 ^ 1023"

definition PREV_BITS :: "uint32 \<Rightarrow> uint64" where
  "PREV_BITS A = push_bit (unat A) 1 - 1"

record sj_nest =
  sj_in_exprs :: uint32
  sj_inner_tables :: uint64
  sj_corr_tables :: uint64
  sj_depends_on :: uint64

record keyuse =
  sj_pred_no :: uint32
  keypart :: uint32
  used_tables :: uint64
  read_order :: bool

record join_state =
  emb_sjm_nest :: bool
  cur_sj_inner_tables :: uint64
  loose_scan_switch :: bool

record key_info =
  uses_partial_cols :: bool
  covering :: bool
  stats_records :: real
  keyread_time :: real
  rec_per_key :: "uint32 \<Rightarrow> ulong"

record range_quick =
  quick_index :: uint32
  quick_is_range :: bool
  quick_read_time :: real
  quick_records :: real

record Loose_scan_opt =
  try_loosescan :: bool
  bound_sj_equalities :: uint64
  handled_sj_equalities :: uint64
  loose_scan_keyparts :: uint64
  max_loose_keypart :: uint32
  part1_conds_met :: bool
  quick_uses_applicable_index :: bool
  quick_max_loose_keypart :: uint32
  best_loose_scan_key :: uint32
  best_loose_scan_cost :: real
  best_loose_scan_records :: real
  best_loose_scan_start_key :: ptr
  best_max_loose_keypart :: uint32

record POSITION =
  read_time :: real
  records_read :: real
  pos_key :: ptr
  cond_selectivity :: real
  loosescan_key :: uint32
  loosescan_parts :: uint32
  use_join_buffer :: bool
  pos_table :: ptr

section \<open>Operations\<close>

definition loose_init :: "(sj_nest \<Rightarrow> uint64 \<Rightarrow> uint64) \<Rightarrow> join_state \<Rightarrow> sj_nest option \<Rightarrow> uint64 \<Rightarrow> Loose_scan_opt \<Rightarrow> Loose_scan_opt" where
  "loose_init get_bound_sj_equalities join nest remaining_tables s =
     (let s1 = s\<lparr>best_loose_scan_cost := DBL_MAX\<rparr> in
      case nest of
        Some n \<Rightarrow>
          if \<not> emb_sjm_nest join \<and> sj_in_exprs n < 64 \<and> remaining_tables AND sj_inner_tables n = sj_inner_tables n \<and>
             cur_sj_inner_tables join = 0 \<and> remaining_tables AND sj_corr_tables n = 0 \<and>
             remaining_tables AND sj_depends_on n \<noteq> 0 \<and> loose_scan_switch join
          then s1\<lparr>bound_sj_equalities := get_bound_sj_equalities n remaining_tables, try_loosescan := True\<rparr>
          else s1
      | None \<Rightarrow> s1)"

definition next_ref_key :: "Loose_scan_opt \<Rightarrow> Loose_scan_opt" where
  "next_ref_key s = s\<lparr>handled_sj_equalities := 0, loose_scan_keyparts := 0, max_loose_keypart := 0, part1_conds_met := False\<rparr>"

definition add_keyuse :: "uint64 \<Rightarrow> keyuse \<Rightarrow> Loose_scan_opt \<Rightarrow> Loose_scan_opt" where
  "add_keyuse remaining_tables k s =
     (if try_loosescan s \<and> sj_pred_no k \<noteq> - 1 \<and> read_order k then
        if remaining_tables AND used_tables k = 0
        then s\<lparr>bound_sj_equalities := bound_sj_equalities s OR push_bit (unat (sj_pred_no k)) 1\<rparr>
        else s\<lparr>handled_sj_equalities := handled_sj_equalities s OR push_bit (unat (sj_pred_no k)) 1,
               loose_scan_keyparts := loose_scan_keyparts s OR push_bit (unat (keypart k)) 1,
               max_loose_keypart := if max_loose_keypart s < keypart k then keypart k else max_loose_keypart s\<rparr>
      else s)"

definition have_a_case :: "Loose_scan_opt \<Rightarrow> bool" where
  "have_a_case s \<longleftrightarrow> handled_sj_equalities s \<noteq> 0"

definition set_best :: "uint32 \<Rightarrow> real \<Rightarrow> real \<Rightarrow> uint32 \<Rightarrow> ptr \<Rightarrow> Loose_scan_opt \<Rightarrow> Loose_scan_opt" where
  "set_best key cost records max_keypart start_key s =
     s\<lparr>best_loose_scan_key := key, best_loose_scan_cost := cost, best_loose_scan_records := records,
       best_max_loose_keypart := max_keypart, best_loose_scan_start_key := start_key\<rparr>"

definition loose_applicable :: "sj_nest \<Rightarrow> key_info \<Rightarrow> uint64 \<Rightarrow> Loose_scan_opt \<Rightarrow> bool" where
  "loose_applicable n ki found_part s \<longleftrightarrow> try_loosescan s \<and>
     handled_sj_equalities s OR bound_sj_equalities s = PREV_BITS (sj_in_exprs n) \<and>
     PREV_BITS (max_loose_keypart s + 1) AND (found_part OR loose_scan_keyparts s) = PREV_BITS (max_loose_keypart s + 1) \<and>
     \<not> uses_partial_cols ki"

definition check_ref_access_part1 ::
  "sj_nest \<Rightarrow> key_info \<Rightarrow> range_quick option \<Rightarrow> uint32 \<Rightarrow> ptr \<Rightarrow> uint64 \<Rightarrow> Loose_scan_opt \<Rightarrow> Loose_scan_opt" where
  "check_ref_access_part1 n ki quick key start_key found_part s =
     (if loose_applicable n ki found_part s then
        let s1 = (case quick of
                    Some q \<Rightarrow> if quick_index q = key \<and> quick_is_range q
                             then s\<lparr>quick_uses_applicable_index := True, quick_max_loose_keypart := max_loose_keypart s\<rparr> else s
                  | None \<Rightarrow> s);
            s2 = (if found_part AND 1 \<noteq> 0 then s1\<lparr>part1_conds_met := True\<rparr> else s1)
        in if \<not> found_part AND 1 \<noteq> 0 \<and> covering ki then
             let s3 = s2\<lparr>part1_conds_met := True\<rparr>;
                 rpc = rec_per_key ki (max_loose_keypart s);
                 records = (if rpc \<noteq> 0 then stats_records ki / real (unat rpc) else stats_records ki)
             in if keyread_time ki < best_loose_scan_cost s3
                then set_best key (keyread_time ki) records (max_loose_keypart s3) start_key s3 else s3
           else s2
      else s)"

definition check_ref_access_part2 :: "uint32 \<Rightarrow> ptr \<Rightarrow> real \<Rightarrow> real \<Rightarrow> Loose_scan_opt \<Rightarrow> Loose_scan_opt" where
  "check_ref_access_part2 key start_key records rtime s =
     (if part1_conds_met s \<and> rtime < best_loose_scan_cost s
      then set_best key rtime records (max_loose_keypart s) start_key s else s)"

definition check_range_access :: "bool \<Rightarrow> range_quick \<Rightarrow> Loose_scan_opt \<Rightarrow> Loose_scan_opt" where
  "check_range_access idx_is_const_tables quick s =
     (if quick_uses_applicable_index s \<and> idx_is_const_tables \<and> quick_read_time quick < best_loose_scan_cost s
      then set_best (quick_index quick) (quick_read_time quick) (quick_records quick) (quick_max_loose_keypart s) 0 s else s)"

definition save_to_position :: "ptr \<Rightarrow> Loose_scan_opt \<Rightarrow> POSITION \<Rightarrow> POSITION" where
  "save_to_position tab s pos =
     (let pos1 = pos\<lparr>read_time := best_loose_scan_cost s\<rparr> in
      if best_loose_scan_cost s \<noteq> DBL_MAX
      then pos1\<lparr>records_read := best_loose_scan_records s, pos_key := best_loose_scan_start_key s, cond_selectivity := 1,
             loosescan_key := best_loose_scan_key s, loosescan_parts := best_max_loose_keypart s + 1,
             use_join_buffer := False, pos_table := tab\<rparr>
      else pos1)"

section \<open>When the scan applies\<close>

lemma bit_one_shift: "k < 64 \<Longrightarrow> bit (2 ^ k :: uint64) j \<longleftrightarrow> j = k"
  by (auto simp: bit_simps)

lemma bit_PREV_BITS: "unat A \<le> 64 \<Longrightarrow> bit (PREV_BITS A) j \<longleftrightarrow> j < unat A"
proof -
  assume "unat A \<le> 64"
  moreover have "PREV_BITS A = mask (unat A)" by (simp add: PREV_BITS_def mask_eq_exp_minus_1 push_bit_eq_mult)
  ultimately show ?thesis by (auto simp: bit_mask_iff)
qed

text \<open>The key uses that count: those of a semi-join equality, on an index that reads in order.\<close>

definition counts :: "keyuse \<Rightarrow> bool" where
  "counts k \<longleftrightarrow> sj_pred_no k \<noteq> - 1 \<and> read_order k"

definition keyuse_bound :: "uint64 \<Rightarrow> keyuse \<Rightarrow> bool" where
  "keyuse_bound remaining k \<longleftrightarrow> remaining AND used_tables k = 0"

definition good_keyuse :: "keyuse \<Rightarrow> bool" where
  "good_keyuse k \<longleftrightarrow> (counts k \<longrightarrow> unat (sj_pred_no k) < 64 \<and> unat (keypart k) < 64)"

lemma add_keyuse_effect:
  fixes remaining :: uint64
  assumes "try_loosescan s" "good_keyuse k"
  defines "s' \<equiv> add_keyuse remaining k s" and "h \<equiv> counts k \<and> \<not> keyuse_bound remaining k"
  shows "bit (handled_sj_equalities s') e \<longleftrightarrow> bit (handled_sj_equalities s) e \<or> h \<and> e = unat (sj_pred_no k)"
    "bit (bound_sj_equalities s') e \<longleftrightarrow> bit (bound_sj_equalities s) e \<or> counts k \<and> keyuse_bound remaining k \<and> e = unat (sj_pred_no k)"
    "bit (loose_scan_keyparts s') e \<longleftrightarrow> bit (loose_scan_keyparts s) e \<or> h \<and> e = unat (keypart k)"
    "unat (max_loose_keypart s') = (if h then max (unat (max_loose_keypart s)) (unat (keypart k)) else unat (max_loose_keypart s))"
    "try_loosescan s'" "part1_conds_met s' = part1_conds_met s"
  using assms(1,2)
  by (simp_all add: s'_def h_def add_keyuse_def counts_def keyuse_bound_def good_keyuse_def bit_or_iff bit_one_shift word_less_nat_alt max_def)

text \<open>Any number of key uses: the equalities handled by the index and those bound, and the key parts covered.\<close>

lemma add_keyuses:
  fixes remaining :: uint64
  assumes "try_loosescan s" "\<forall>k\<in>set ks. good_keyuse k"
  defines "s' \<equiv> fold (add_keyuse remaining) ks s" and "h \<equiv> \<lambda>k. counts k \<and> \<not> keyuse_bound remaining k"
  shows "bit (handled_sj_equalities s') e \<longleftrightarrow> bit (handled_sj_equalities s) e \<or> (\<exists>k\<in>set ks. h k \<and> e = unat (sj_pred_no k))"
    "bit (bound_sj_equalities s') e \<longleftrightarrow> bit (bound_sj_equalities s) e \<or> (\<exists>k\<in>set ks. counts k \<and> keyuse_bound remaining k \<and> e = unat (sj_pred_no k))"
    "bit (loose_scan_keyparts s') e \<longleftrightarrow> bit (loose_scan_keyparts s) e \<or> (\<exists>k\<in>set ks. h k \<and> e = unat (keypart k))"
    "\<forall>k\<in>set ks. h k \<longrightarrow> unat (keypart k) \<le> unat (max_loose_keypart s')"
    "unat (max_loose_keypart s) \<le> unat (max_loose_keypart s')"
    "unat (max_loose_keypart s) < 64 \<Longrightarrow> unat (max_loose_keypart s') < 64"
    "try_loosescan s'" "part1_conds_met s' = part1_conds_met s"
proof -
  have "(bit (handled_sj_equalities (fold (add_keyuse remaining) ks s)) e \<longleftrightarrow> bit (handled_sj_equalities s) e \<or> (\<exists>k\<in>set ks. h k \<and> e = unat (sj_pred_no k))) \<and>
    (bit (bound_sj_equalities (fold (add_keyuse remaining) ks s)) e \<longleftrightarrow>
       bit (bound_sj_equalities s) e \<or> (\<exists>k\<in>set ks. counts k \<and> keyuse_bound remaining k \<and> e = unat (sj_pred_no k))) \<and>
    (bit (loose_scan_keyparts (fold (add_keyuse remaining) ks s)) e \<longleftrightarrow> bit (loose_scan_keyparts s) e \<or> (\<exists>k\<in>set ks. h k \<and> e = unat (keypart k)))"
    using assms(1,2)
    by (induction ks arbitrary: s) (simp_all add: add_keyuse_effect h_def disj_assoc)
  then show "bit (handled_sj_equalities s') e \<longleftrightarrow> bit (handled_sj_equalities s) e \<or> (\<exists>k\<in>set ks. h k \<and> e = unat (sj_pred_no k))"
    "bit (bound_sj_equalities s') e \<longleftrightarrow> bit (bound_sj_equalities s) e \<or> (\<exists>k\<in>set ks. counts k \<and> keyuse_bound remaining k \<and> e = unat (sj_pred_no k))"
    "bit (loose_scan_keyparts s') e \<longleftrightarrow> bit (loose_scan_keyparts s) e \<or> (\<exists>k\<in>set ks. h k \<and> e = unat (keypart k))"
    by (simp_all add: s'_def)
  have "(\<forall>k\<in>set ks. h k \<longrightarrow> unat (keypart k) \<le> unat (max_loose_keypart (fold (add_keyuse remaining) ks s))) \<and>
    unat (max_loose_keypart s) \<le> unat (max_loose_keypart (fold (add_keyuse remaining) ks s)) \<and>
    (unat (max_loose_keypart s) < 64 \<longrightarrow> unat (max_loose_keypart (fold (add_keyuse remaining) ks s)) < 64) \<and>
    try_loosescan (fold (add_keyuse remaining) ks s) \<and> part1_conds_met (fold (add_keyuse remaining) ks s) = part1_conds_met s"
    using assms(1,2)
  proof (induction ks arbitrary: s)
    case (Cons k ks)
    note E = add_keyuse_effect(4,5,6) [of s k remaining]
    have "h k \<Longrightarrow> unat (keypart k) < 64" using Cons.prems(2) by (simp add: h_def good_keyuse_def)
    then show ?case using Cons.IH [of "add_keyuse remaining k s"] Cons.prems E by (auto simp: h_def split: if_splits)
  qed simp
  then show "\<forall>k\<in>set ks. h k \<longrightarrow> unat (keypart k) \<le> unat (max_loose_keypart s')" "unat (max_loose_keypart s) \<le> unat (max_loose_keypart s')"
    "unat (max_loose_keypart s) < 64 \<Longrightarrow> unat (max_loose_keypart s') < 64" "try_loosescan s'" "part1_conds_met s' = part1_conds_met s"
    by (simp_all add: s'_def)
qed

text \<open>
  After the key uses of an index: the scan is found applicable exactly if the equalities of the semi-join are those handled by a key part of the
  index or bound, each key part up to the last one used is either found for the ref access or handled, and the index holds whole columns.
\<close>

theorem loose_scan_applies:
  fixes remaining :: uint64 and ks :: "keyuse list"
  assumes "try_loosescan s" "\<forall>k\<in>set ks. good_keyuse k" "sj_in_exprs n < 64"
  defines "s' \<equiv> fold (add_keyuse remaining) ks (next_ref_key s)"
  defines "handled \<equiv> \<lambda>k. k \<in> set ks \<and> counts k \<and> \<not> keyuse_bound remaining k" and "bound \<equiv> \<lambda>k. k \<in> set ks \<and> counts k \<and> keyuse_bound remaining k"
  shows "loose_applicable n ki found_part s' \<longleftrightarrow> \<not> uses_partial_cols ki \<and>
    (\<forall>e. e < unat (sj_in_exprs n) \<longleftrightarrow> bit (bound_sj_equalities s) e \<or> (\<exists>k. (handled k \<or> bound k) \<and> e = unat (sj_pred_no k))) \<and>
    (\<forall>p\<le>unat (max_loose_keypart s'). bit found_part p \<or> (\<exists>k. handled k \<and> p = unat (keypart k))) \<and>
    (\<forall>k. handled k \<longrightarrow> unat (keypart k) \<le> unat (max_loose_keypart s'))"
proof -
  have t: "try_loosescan (next_ref_key s)" using assms(1) by (simp add: next_ref_key_def)
  note A = add_keyuses [OF t assms(2), of remaining, folded s'_def]
  have m: "unat (max_loose_keypart s') < 64" by (rule A(6)) (simp add: next_ref_key_def)
  then have m1: "unat (max_loose_keypart s' + 1) = Suc (unat (max_loose_keypart s'))" by (simp add: unat_word_ariths)
  have n: "unat (sj_in_exprs n) \<le> 64" using assms(3) by (simp add: word_less_nat_alt)
  have "handled_sj_equalities s' OR bound_sj_equalities s' = PREV_BITS (sj_in_exprs n) \<longleftrightarrow>
      (\<forall>e. bit (handled_sj_equalities s' OR bound_sj_equalities s') e \<longleftrightarrow> bit (PREV_BITS (sj_in_exprs n)) e)"
    by (auto intro: bit_word_eqI)
  also have "\<dots> \<longleftrightarrow> (\<forall>e. e < unat (sj_in_exprs n) \<longleftrightarrow> bit (bound_sj_equalities s) e \<or> (\<exists>k. (handled k \<or> bound k) \<and> e = unat (sj_pred_no k)))"
    by (simp add: bit_or_iff A(1,2) bit_PREV_BITS [OF n] handled_def bound_def next_ref_key_def) blast
  finally have eqs: "handled_sj_equalities s' OR bound_sj_equalities s' = PREV_BITS (sj_in_exprs n) \<longleftrightarrow>
      (\<forall>e. e < unat (sj_in_exprs n) \<longleftrightarrow> bit (bound_sj_equalities s) e \<or> (\<exists>k. (handled k \<or> bound k) \<and> e = unat (sj_pred_no k)))" .
  have m2: "unat (max_loose_keypart s' + 1) \<le> 64" using m m1 by simp
  have "PREV_BITS (max_loose_keypart s' + 1) AND (found_part OR loose_scan_keyparts s') = PREV_BITS (max_loose_keypart s' + 1) \<longleftrightarrow>
      (\<forall>p. bit (PREV_BITS (max_loose_keypart s' + 1) AND (found_part OR loose_scan_keyparts s')) p \<longleftrightarrow> bit (PREV_BITS (max_loose_keypart s' + 1)) p)"
    by (auto intro: bit_word_eqI)
  also have "\<dots> \<longleftrightarrow> (\<forall>p\<le>unat (max_loose_keypart s'). bit found_part p \<or> (\<exists>k. handled k \<and> p = unat (keypart k)))"
    by (simp add: bit_and_iff bit_or_iff A(3) bit_PREV_BITS [OF m2] m1 handled_def next_ref_key_def less_Suc_eq_le) blast
  finally show ?thesis using A(4,7) by (auto simp: loose_applicable_def eqs handled_def)
qed

section \<open>The cheapest scan\<close>

datatype loose_op =
    Next_ref_key
  | Add_keyuse uint64 keyuse
  | Part1 sj_nest key_info "range_quick option" uint32 ptr uint64
  | Part2 uint32 ptr real real
  | Range bool range_quick

fun loose_exec :: "loose_op \<Rightarrow> Loose_scan_opt \<Rightarrow> Loose_scan_opt" where
  "loose_exec Next_ref_key s = next_ref_key s"
| "loose_exec (Add_keyuse remaining k) s = add_keyuse remaining k s"
| "loose_exec (Part1 n ki quick key start_key found_part) s = check_ref_access_part1 n ki quick key start_key found_part s"
| "loose_exec (Part2 key start_key records rtime) s = check_ref_access_part2 key start_key records rtime s"
| "loose_exec (Range c quick) s = check_range_access c quick s"

text \<open>A scan: index, cost, records, last key part, first key use.  The scan a check considers, and the best one so far.\<close>

type_synonym scan = "uint32 \<times> real \<times> real \<times> uint32 \<times> ptr"

definition scan_cost :: "scan \<Rightarrow> real" where "scan_cost p = fst (snd p)"

fun offer :: "loose_op \<Rightarrow> Loose_scan_opt \<Rightarrow> scan list" where
  "offer (Part1 n ki quick key start_key found_part) s =
     (if loose_applicable n ki found_part s \<and> found_part AND 1 = 0 \<and> covering ki
      then [(key, keyread_time ki, (let rpc = rec_per_key ki (max_loose_keypart s) in if rpc \<noteq> 0 then stats_records ki / real (unat rpc) else stats_records ki),
             max_loose_keypart s, start_key)] else [])"
| "offer (Part2 key start_key records rtime) s = (if part1_conds_met s then [(key, rtime, records, max_loose_keypart s, start_key)] else [])"
| "offer (Range c quick) s =
     (if quick_uses_applicable_index s \<and> c then [(quick_index quick, quick_read_time quick, quick_records quick, quick_max_loose_keypart s, 0)] else [])"
| "offer _ s = []"

primrec offers :: "loose_op list \<Rightarrow> Loose_scan_opt \<Rightarrow> scan list" where
  "offers [] s = []"
| "offers (op # ops) s = offer op s @ offers ops (loose_exec op s)"

definition best_scan :: "Loose_scan_opt \<Rightarrow> scan" where
  "best_scan s = (best_loose_scan_key s, best_loose_scan_cost s, best_loose_scan_records s, best_max_loose_keypart s, best_loose_scan_start_key s)"

lemma best_step: "best_scan (loose_exec op s) = fold (\<lambda>p b. if scan_cost p < scan_cost b then p else b) (offer op s) (best_scan s)"
proof (cases op)
  case (Part1 n ki quick key start_key found_part)
  have "best_scan (if b then s\<lparr>quick_uses_applicable_index := u, quick_max_loose_keypart := m\<rparr> else s) = best_scan s" for b u m by (simp add: best_scan_def)
  then show ?thesis
    unfolding Part1 by (cases quick) (simp_all add: best_scan_def scan_cost_def check_ref_access_part1_def set_best_def Let_def)
qed (simp_all add: best_scan_def scan_cost_def next_ref_key_def add_keyuse_def check_ref_access_part2_def check_range_access_def set_best_def)

lemma best_run: "best_scan (fold loose_exec ops s) = fold (\<lambda>p b. if scan_cost p < scan_cost b then p else b) (offers ops s) (best_scan s)"
  by (induction ops arbitrary: s) (simp_all add: best_step)

lemma fold_min:
  fixes f :: "'a \<Rightarrow> real"
  shows "let r = fold (\<lambda>p b. if f p < f b then p else b) ps b in
    f r \<le> f b \<and> (\<forall>p\<in>set ps. f r \<le> f p) \<and> (r = b \<or> r \<in> set ps)"
proof (induction ps arbitrary: b)
  case (Cons p ps)
  show ?case using Cons.IH [of "if f p < f b then p else b"] by (auto simp: Let_def split: if_splits)
qed simp

text \<open>
  C16: Whatever indexes are examined and in whatever order, the position records the cheapest of the scans that were considered, with the index, number of
  records, key parts and first key use of that very scan; if none is cheaper than the largest number, the position only gets that number as its cost.
\<close>

theorem cheapest_loose_scan:
  fixes ops :: "loose_op list" and tab :: ptr and pos :: POSITION
  assumes "best_loose_scan_cost s = DBL_MAX"
  defines "s' \<equiv> fold loose_exec ops s" and "os \<equiv> offers ops s"
  defines "pos' \<equiv> save_to_position tab s' pos"
  shows "(\<forall>p\<in>set os. read_time pos' \<le> scan_cost p) \<and>
    (if \<exists>p\<in>set os. scan_cost p < DBL_MAX
     then \<exists>key cost records parts start. (key, cost, records, parts, start) \<in> set os \<and> read_time pos' = cost \<and> loosescan_key pos' = key \<and>
       records_read pos' = records \<and> loosescan_parts pos' = parts + 1 \<and> pos_key pos' = start \<and> \<not> use_join_buffer pos' \<and> pos_table pos' = tab
     else pos' = pos\<lparr>read_time := DBL_MAX\<rparr>)"
proof -
  have r: "best_scan s' = fold (\<lambda>p b. if scan_cost p < scan_cost b then p else b) os (best_scan s)" by (simp add: s'_def os_def best_run)
  have c: "scan_cost (best_scan s) = DBL_MAX" "scan_cost (best_scan s') = best_loose_scan_cost s'"
    using assms(1) by (simp_all add: scan_cost_def best_scan_def)
  have F: "best_loose_scan_cost s' \<le> DBL_MAX" "\<forall>p\<in>set os. best_loose_scan_cost s' \<le> scan_cost p" "best_scan s' = best_scan s \<or> best_scan s' \<in> set os"
    using fold_min [of scan_cost os "best_scan s"] c by (auto simp: Let_def simp flip: r)
  show ?thesis
  proof (cases "\<exists>p\<in>set os. scan_cost p < DBL_MAX")
    case True
    then have lt: "best_loose_scan_cost s' \<noteq> DBL_MAX" using F(2) by force
    then have "best_scan s' \<in> set os" using F(3) c by auto
    then have m: "(best_loose_scan_key s', best_loose_scan_cost s', best_loose_scan_records s', best_max_loose_keypart s', best_loose_scan_start_key s') \<in> set os"
      by (simp add: best_scan_def)
    show ?thesis using True F(2) lt m by (auto simp: pos'_def save_to_position_def Let_def)
  next
    case False
    then have "best_loose_scan_cost s' = DBL_MAX" using F(1,3) c by (force simp: not_less)
    then show ?thesis using False F(2) by (simp add: pos'_def save_to_position_def)
  qed
qed

section \<open>Concrete cases\<close>

definition sample_opt :: Loose_scan_opt where
  "sample_opt = \<lparr>try_loosescan = True, bound_sj_equalities = 0, handled_sj_equalities = 0, loose_scan_keyparts = 0, max_loose_keypart = 0,
     part1_conds_met = False, quick_uses_applicable_index = False, quick_max_loose_keypart = 0, best_loose_scan_key = 0,
     best_loose_scan_cost = DBL_MAX, best_loose_scan_records = 0, best_loose_scan_start_key = 0, best_max_loose_keypart = 0\<rparr>"

definition sample_keyuse :: keyuse where
  "sample_keyuse = \<lparr>sj_pred_no = 0, keypart = 0, used_tables = 2, read_order = True\<rparr>"

definition sample_nest :: sj_nest where
  "sample_nest = \<lparr>sj_in_exprs = 1, sj_inner_tables = 1, sj_corr_tables = 0, sj_depends_on = 2\<rparr>"

definition sample_key :: key_info where
  "sample_key = \<lparr>uses_partial_cols = False, covering = True, stats_records = 1000, keyread_time = 25, rec_per_key = (\<lambda>p. 10)\<rparr>"

definition sample_pos :: POSITION where
  "sample_pos = \<lparr>read_time = 0, records_read = 0, pos_key = 0, cond_selectivity = 0, loosescan_key = 0, loosescan_parts = 0,
     use_join_buffer = True, pos_table = 0\<rparr>"

lemma sample_state: "add_keyuse 2 sample_keyuse (next_ref_key sample_opt) =
    sample_opt\<lparr>handled_sj_equalities := 1, loose_scan_keyparts := 1\<rparr>"
  by (simp add: add_keyuse_def next_ref_key_def sample_opt_def sample_keyuse_def)

theorem loose_scan_applies_witness:
  "loose_applicable sample_nest sample_key 0 (fold (add_keyuse 2) [sample_keyuse] (next_ref_key sample_opt))"
proof -
  have "try_loosescan sample_opt" "\<forall>k\<in>set [sample_keyuse]. good_keyuse k" "sj_in_exprs sample_nest < 64"
    by (simp_all add: sample_opt_def sample_keyuse_def good_keyuse_def sample_nest_def)
  note A = loose_scan_applies [OF this, of sample_key 0 2]
  have "counts sample_keyuse" "\<not> keyuse_bound 2 sample_keyuse" by (simp_all add: counts_def keyuse_bound_def sample_keyuse_def)
  then have H: "(k \<in> set [sample_keyuse] \<and> counts k \<and> \<not> keyuse_bound 2 k) \<longleftrightarrow> k = sample_keyuse"
    "(k \<in> set [sample_keyuse] \<and> counts k \<and> keyuse_bound 2 k) \<longleftrightarrow> False" for k by auto
  have "unat (sj_pred_no sample_keyuse) = 0" "unat (keypart sample_keyuse) = 0" "unat (sj_in_exprs sample_nest) = 1"
      "bound_sj_equalities sample_opt = 0" "\<not> uses_partial_cols sample_key"
    by (simp_all add: sample_keyuse_def sample_nest_def sample_opt_def sample_key_def)
  then show ?thesis unfolding A H by (simp add: sample_state) (simp add: sample_opt_def)
qed

text \<open>The full scan of index 3 costs 25, the ref access to it 20.\<close>

definition sample_ops :: "loose_op list" where
  "sample_ops = [Next_ref_key, Add_keyuse 2 sample_keyuse, Part1 sample_nest sample_key None 3 8 0, Part2 3 8 100 20]"

lemma sample_offers: "offers sample_ops sample_opt = [(3, 25, 100, 0, 8), (3, 20, 100, 0, 8)]"
  by (simp add: sample_ops_def sample_state) (simp add: loose_applicable_def PREV_BITS_def check_ref_access_part1_def set_best_def
      sample_opt_def sample_nest_def sample_key_def Let_def)

lemma twenty_lt_DBL_MAX: "20 < DBL_MAX"
proof -
  have "(20 :: real) < 1 * 2 ^ 1023" using one_le_power [of "2 :: real" 1018] power_add [of "2 :: real" 5 1018] by simp
  also have "\<dots> \<le> DBL_MAX" unfolding DBL_MAX_def by (rule mult_right_mono) simp_all
  finally show ?thesis .
qed

theorem cheapest_loose_scan_witness:
  "read_time (save_to_position 5 (fold loose_exec sample_ops sample_opt) sample_pos) = 20"
proof -
  have "best_loose_scan_cost sample_opt = DBL_MAX" by (simp add: sample_opt_def)
  from cheapest_loose_scan [OF this, of sample_ops 5 sample_pos] show ?thesis
    using twenty_lt_DBL_MAX by (auto simp: sample_offers scan_cost_def)
qed

end
