(* ===== verification/TypeAttributes.thy ===== *)
theory TypeAttributes
  imports SqlTime SqlNumbers
begin

text \<open>
  Attributes of SQL data types (\<^verbatim>\<open>sql_type.h\<close>: \<open>DTCollation\<close>, \<open>Type_std_attributes\<close>, \<open>Type_cast_attributes\<close>, the information schema attributes), the
  lengths and precisions of decimals (\<^verbatim>\<open>my_decimal.h\<close>) and the overflow checks of functions (\<^verbatim>\<open>item_func.h\<close>).  A character set is its address,
  state flags and the largest length of a character; \<open>my_charset_bin\<close>, \<open>my_charset_numeric\<close>, \<open>my_charset_repertoire\<close> and \<open>my_strtoll10\<close> are arguments.
\<close>

section \<open>Collations\<close>

record CHARSET_INFO =
  cs_addr :: ptr
  cs_state :: uint32
  mbmaxlen :: uint32

definition MY_CS_PUREASCII :: uint32 where "MY_CS_PUREASCII = 4096"
definition MY_REPERTOIRE_ASCII :: uint32 where "MY_REPERTOIRE_ASCII = 1"
definition MY_REPERTOIRE_UNICODE30 :: uint32 where "MY_REPERTOIRE_UNICODE30 = 3"
definition MY_REPERTOIRE_NUMERIC :: uint32 where "MY_REPERTOIRE_NUMERIC = MY_REPERTOIRE_ASCII"

definition MY_COLL_ALLOW_SUPERSET_CONV :: uint32 where "MY_COLL_ALLOW_SUPERSET_CONV = 1"
definition MY_COLL_ALLOW_COERCIBLE_CONV :: uint32 where "MY_COLL_ALLOW_COERCIBLE_CONV = 2"
definition MY_COLL_DISALLOW_NONE :: uint32 where "MY_COLL_DISALLOW_NONE = 4"
definition MY_COLL_ALLOW_NUMERIC_CONV :: uint32 where "MY_COLL_ALLOW_NUMERIC_CONV = 8"
definition MY_COLL_ALLOW_CONV :: uint32 where "MY_COLL_ALLOW_CONV = MY_COLL_ALLOW_SUPERSET_CONV OR MY_COLL_ALLOW_COERCIBLE_CONV"
definition MY_COLL_CMP_CONV :: uint32 where "MY_COLL_CMP_CONV = MY_COLL_ALLOW_CONV OR MY_COLL_DISALLOW_NONE"

datatype Derivation =
    DERIVATION_IGNORABLE | DERIVATION_NUMERIC | DERIVATION_COERCIBLE | DERIVATION_SYSCONST | DERIVATION_IMPLICIT
  | DERIVATION_NONE | DERIVATION_EXPLICIT

record DTCollation =
  collation :: CHARSET_INFO
  derivation :: Derivation
  repertoire :: uint32

definition repertoire_from_charset :: "CHARSET_INFO \<Rightarrow> uint32" where
  "repertoire_from_charset cs = (if cs_state cs AND MY_CS_PUREASCII \<noteq> 0 then MY_REPERTOIRE_ASCII else MY_REPERTOIRE_UNICODE30)"

definition dtc_default :: "CHARSET_INFO \<Rightarrow> DTCollation" where
  "dtc_default my_charset_bin = \<lparr>collation = my_charset_bin, derivation = DERIVATION_NONE, repertoire = MY_REPERTOIRE_UNICODE30\<rparr>"

definition dtc_of_charset :: "(CHARSET_INFO \<Rightarrow> uint32) \<Rightarrow> CHARSET_INFO \<Rightarrow> DTCollation" where
  "dtc_of_charset my_charset_repertoire cs = \<lparr>collation = cs, derivation = DERIVATION_IMPLICIT, repertoire = my_charset_repertoire cs\<rparr>"

definition dtc_set :: "CHARSET_INFO \<Rightarrow> Derivation \<Rightarrow> DTCollation \<Rightarrow> DTCollation" where
  "dtc_set cs d c = c\<lparr>collation := cs, derivation := d, repertoire := repertoire_from_charset cs\<rparr>"

definition dtc_set_charset :: "CHARSET_INFO \<Rightarrow> DTCollation \<Rightarrow> DTCollation" where
  "dtc_set_charset cs c = c\<lparr>collation := cs, repertoire := repertoire_from_charset cs\<rparr>"

definition dtc_set_derivation :: "Derivation \<Rightarrow> DTCollation \<Rightarrow> DTCollation" where
  "dtc_set_derivation d c = c\<lparr>derivation := d\<rparr>"

definition dtc_set_numeric :: "CHARSET_INFO \<Rightarrow> DTCollation \<Rightarrow> DTCollation" where
  "dtc_set_numeric my_charset_numeric c = c\<lparr>collation := my_charset_numeric, derivation := DERIVATION_NUMERIC, repertoire := MY_REPERTOIRE_NUMERIC\<rparr>"

definition dtc_set_aggregate :: "(DTCollation \<Rightarrow> DTCollation \<Rightarrow> uint32 \<Rightarrow> bool \<times> DTCollation) \<Rightarrow> DTCollation \<Rightarrow> DTCollation \<Rightarrow> uint32 \<Rightarrow> bool \<times> DTCollation" where
  "dtc_set_aggregate aggregate dt1 dt2 flags = aggregate dt1 dt2 flags"

fun derivation_name :: "Derivation \<Rightarrow> string" where
  "derivation_name DERIVATION_NUMERIC = ''NUMERIC''"
| "derivation_name DERIVATION_IGNORABLE = ''IGNORABLE''"
| "derivation_name DERIVATION_COERCIBLE = ''COERCIBLE''"
| "derivation_name DERIVATION_IMPLICIT = ''IMPLICIT''"
| "derivation_name DERIVATION_SYSCONST = ''SYSCONST''"
| "derivation_name DERIVATION_EXPLICIT = ''EXPLICIT''"
| "derivation_name DERIVATION_NONE = ''NONE''"

section \<open>Standard attributes\<close>

definition UINT_MAX32 :: uint64 where "UINT_MAX32 = 0xFFFFFFFF"

definition char_to_byte_length_safe :: "uint64 \<Rightarrow> uint32 \<Rightarrow> uint32" where
  "char_to_byte_length_safe char_length_arg mbmaxlen_arg =
     (let tmp = char_length_arg * ucast mbmaxlen_arg in if tmp > UINT_MAX32 then ucast UINT_MAX32 else ucast tmp)"

definition NOT_FIXED_DEC :: uint32 where "NOT_FIXED_DEC = 39"
definition MIN_TIME_WIDTH :: uint32 where "MIN_TIME_WIDTH = 10"
definition MAX_DATE_WIDTH :: uint32 where "MAX_DATE_WIDTH = 10"
definition MAX_DATETIME_WIDTH :: uint32 where "MAX_DATETIME_WIDTH = 19"

record Type_std_attributes =
  dtc :: DTCollation
  decimals :: uint32
  max_length :: uint32
  unsigned_flag :: bool

definition type_std_default :: "CHARSET_INFO \<Rightarrow> Type_std_attributes" where
  "type_std_default my_charset_bin =
     \<lparr>dtc = \<lparr>collation = my_charset_bin, derivation = DERIVATION_COERCIBLE, repertoire = repertoire_from_charset my_charset_bin\<rparr>,
      decimals = 0, max_length = 0, unsigned_flag = False\<rparr>"

definition max_char_length :: "Type_std_attributes \<Rightarrow> uint32" where
  "max_char_length a = max_length a div mbmaxlen (collation (dtc a))"

definition fix_length_and_charset :: "uint32 \<Rightarrow> CHARSET_INFO \<Rightarrow> Type_std_attributes \<Rightarrow> Type_std_attributes" where
  "fix_length_and_charset max_char_length_arg cs a =
     a\<lparr>max_length := char_to_byte_length_safe (ucast max_char_length_arg) (mbmaxlen cs), dtc := (dtc a)\<lparr>collation := cs\<rparr>\<rparr>"

definition fix_char_length :: "uint32 \<Rightarrow> Type_std_attributes \<Rightarrow> Type_std_attributes" where
  "fix_char_length max_char_length_arg a =
     a\<lparr>max_length := char_to_byte_length_safe (ucast max_char_length_arg) (mbmaxlen (collation (dtc a)))\<rparr>"

definition fix_char_length_temporal_not_fixed_dec :: "uint32 \<Rightarrow> uint32 \<Rightarrow> Type_std_attributes \<Rightarrow> Type_std_attributes" where
  "fix_char_length_temporal_not_fixed_dec int_part_length dec a =
     (let a1 = a\<lparr>decimals := dec\<rparr>;
          (a2, char_length) =
            (if decimals a1 \<noteq> 0 then
               if decimals a1 = NOT_FIXED_DEC then (a1, int_part_length + (TIME_SECOND_PART_DIGITS + 1))
               else let a3 = a1\<lparr>decimals := if decimals a1 > TIME_SECOND_PART_DIGITS then TIME_SECOND_PART_DIGITS else decimals a1\<rparr>
                    in (a3, int_part_length + (decimals a3 + 1))
             else (a1, int_part_length))
      in fix_char_length char_length a2)"

definition set_numeric :: "CHARSET_INFO \<Rightarrow> Type_std_attributes \<Rightarrow> Type_std_attributes" where
  "set_numeric my_charset_numeric a = a\<lparr>dtc := dtc_set_numeric my_charset_numeric (dtc a)\<rparr>"

definition fix_attributes_temporal_not_fixed_dec :: "CHARSET_INFO \<Rightarrow> uint32 \<Rightarrow> uint32 \<Rightarrow> Type_std_attributes \<Rightarrow> Type_std_attributes" where
  "fix_attributes_temporal_not_fixed_dec my_charset_numeric int_part_length dec a =
     fix_char_length_temporal_not_fixed_dec int_part_length dec ((set_numeric my_charset_numeric a)\<lparr>unsigned_flag := False\<rparr>)"

definition fix_attributes_time_not_fixed_dec :: "CHARSET_INFO \<Rightarrow> uint32 \<Rightarrow> Type_std_attributes \<Rightarrow> Type_std_attributes" where
  "fix_attributes_time_not_fixed_dec num dec = fix_attributes_temporal_not_fixed_dec num MIN_TIME_WIDTH dec"

definition fix_attributes_datetime_not_fixed_dec :: "CHARSET_INFO \<Rightarrow> uint32 \<Rightarrow> Type_std_attributes \<Rightarrow> Type_std_attributes" where
  "fix_attributes_datetime_not_fixed_dec num dec = fix_attributes_temporal_not_fixed_dec num MAX_DATETIME_WIDTH dec"

definition fix_attributes_temporal :: "CHARSET_INFO \<Rightarrow> uint32 \<Rightarrow> uint32 \<Rightarrow> Type_std_attributes \<Rightarrow> Type_std_attributes" where
  "fix_attributes_temporal my_charset_numeric int_part_length dec a =
     (let a1 = (set_numeric my_charset_numeric a)\<lparr>unsigned_flag := False,
               decimals := if dec < TIME_SECOND_PART_DIGITS then dec else TIME_SECOND_PART_DIGITS\<rparr>
      in a1\<lparr>max_length := decimals a1 + int_part_length + (if dec \<noteq> 0 then 1 else 0)\<rparr>)"

definition fix_attributes_date :: "CHARSET_INFO \<Rightarrow> Type_std_attributes \<Rightarrow> Type_std_attributes" where
  "fix_attributes_date num = fix_attributes_temporal num MAX_DATE_WIDTH 0"

definition fix_attributes_time :: "CHARSET_INFO \<Rightarrow> uint32 \<Rightarrow> Type_std_attributes \<Rightarrow> Type_std_attributes" where
  "fix_attributes_time num dec = fix_attributes_temporal num MIN_TIME_WIDTH dec"

definition fix_attributes_datetime :: "CHARSET_INFO \<Rightarrow> uint32 \<Rightarrow> Type_std_attributes \<Rightarrow> Type_std_attributes" where
  "fix_attributes_datetime num dec = fix_attributes_temporal num MAX_DATETIME_WIDTH dec"

text \<open>Collecting the character sets of arguments: first the collations, then the converters; the flags say what is allowed.\<close>

definition agg_arg_charsets :: "(uint32 \<Rightarrow> 's \<Rightarrow> bool \<times> 's) \<Rightarrow> (uint32 \<Rightarrow> 's \<Rightarrow> bool \<times> 's) \<Rightarrow> uint32 \<Rightarrow> 's \<Rightarrow> bool \<times> 's" where
  "agg_arg_charsets agg_item_collations agg_item_set_converter flags s =
     (let (err, s1) = agg_item_collations flags s in if err then (True, s1) else agg_item_set_converter flags s1)"

definition agg_arg_charsets_for_string_result where
  "agg_arg_charsets_for_string_result c v s =
     agg_arg_charsets c v (MY_COLL_ALLOW_SUPERSET_CONV OR MY_COLL_ALLOW_COERCIBLE_CONV OR MY_COLL_ALLOW_NUMERIC_CONV) s"

definition agg_arg_charsets_for_string_result_with_comparison where
  "agg_arg_charsets_for_string_result_with_comparison c v s =
     agg_arg_charsets c v (MY_COLL_ALLOW_SUPERSET_CONV OR MY_COLL_ALLOW_COERCIBLE_CONV OR MY_COLL_ALLOW_NUMERIC_CONV OR MY_COLL_DISALLOW_NONE) s"

definition agg_arg_charsets_for_comparison where
  "agg_arg_charsets_for_comparison c v s =
     agg_arg_charsets c v (MY_COLL_ALLOW_SUPERSET_CONV OR MY_COLL_ALLOW_COERCIBLE_CONV OR MY_COLL_DISALLOW_NONE) s"

section \<open>Casts and the information schema\<close>

record Type_cast_attributes =
  cast_charset :: CHARSET_INFO
  cast_length :: uint64
  cast_decimals :: uint64
  length_specified :: bool
  decimals_specified :: bool

definition set_length_and_dec :: "(string \<Rightarrow> uint64) \<Rightarrow> string option \<Rightarrow> string option \<Rightarrow> Type_cast_attributes \<Rightarrow> Type_cast_attributes" where
  "set_length_and_dec my_strtoll10 c_len c_dec a =
     (let a1 = a\<lparr>length_specified := c_len \<noteq> None\<rparr>;
          a2 = (case c_len of Some s \<Rightarrow> a1\<lparr>cast_length := my_strtoll10 s\<rparr> | None \<Rightarrow> a1);
          a3 = a2\<lparr>decimals_specified := c_dec \<noteq> None\<rparr>
      in case c_dec of Some s \<Rightarrow> a3\<lparr>cast_decimals := my_strtoll10 s\<rparr> | None \<Rightarrow> a3)"

definition type_cast_new :: "CHARSET_INFO \<Rightarrow> Type_cast_attributes" where
  "type_cast_new cs = \<lparr>cast_charset = cs, cast_length = 0, cast_decimals = 0, length_specified = False, decimals_specified = False\<rparr>"

definition type_cast_of :: "(string \<Rightarrow> uint64) \<Rightarrow> string option \<Rightarrow> string option \<Rightarrow> CHARSET_INFO \<Rightarrow> Type_cast_attributes" where
  "type_cast_of my_strtoll10 c_len c_dec cs = set_length_and_dec my_strtoll10 c_len c_dec (type_cast_new cs)"

record numeric_attributes =
  m_precision :: uint32
  m_scale :: uint32
  m_available_attributes :: uint32

definition ATTR_PRECISION :: uint32 where "ATTR_PRECISION = 1"
definition ATTR_SCALE :: uint32 where "ATTR_SCALE = 2"

definition numeric_none :: numeric_attributes where
  "numeric_none = \<lparr>m_precision = 0, m_scale = 0, m_available_attributes = 0\<rparr>"

definition numeric_precision :: "uint32 \<Rightarrow> numeric_attributes" where
  "numeric_precision p = \<lparr>m_precision = p, m_scale = 0, m_available_attributes = ATTR_PRECISION\<rparr>"

definition numeric_precision_scale :: "uint32 \<Rightarrow> uint32 \<Rightarrow> numeric_attributes" where
  "numeric_precision_scale p s = \<lparr>m_precision = p, m_scale = s, m_available_attributes = ATTR_PRECISION OR ATTR_SCALE\<rparr>"

definition has_precision :: "numeric_attributes \<Rightarrow> bool" where
  "has_precision a \<longleftrightarrow> m_available_attributes a AND ATTR_PRECISION \<noteq> 0"

definition has_scale :: "numeric_attributes \<Rightarrow> bool" where
  "has_scale a \<longleftrightarrow> m_available_attributes a AND ATTR_SCALE \<noteq> 0"

definition get_precision :: "numeric_attributes \<Rightarrow> uint32 option" where
  "get_precision a = do { DBUG_ASSERT (has_precision a); Some (m_precision a) }"

definition get_scale :: "numeric_attributes \<Rightarrow> uint32 option" where
  "get_scale a = do { DBUG_ASSERT (has_scale a); Some (m_scale a) }"

section \<open>Decimals\<close>

definition DECIMAL_MAX_PRECISION :: uint32 where "DECIMAL_MAX_PRECISION = 65"

definition my_decimal_int_part :: "uint32 \<Rightarrow> uint32 \<Rightarrow> uint32" where
  "my_decimal_int_part precision decs = precision - (if decs = NOT_FIXED_DEC then 0 else decs)"

definition my_decimal_length_to_precision :: "uint32 \<Rightarrow> uint32 \<Rightarrow> bool \<Rightarrow> uint32 option" where
  "my_decimal_length_to_precision len scale uns =
     do { DBUG_ASSERT (len \<noteq> 0 \<or> scale = 0);
          Some (len - (if scale > 0 then 1 else 0) - (if uns \<or> len = 0 then 0 else 1)) }"

definition my_decimal_precision_to_length_no_truncation :: "uint32 \<Rightarrow> uchar \<Rightarrow> bool \<Rightarrow> uint32 option" where
  "my_decimal_precision_to_length_no_truncation precision scale uns =
     do { DBUG_ASSERT (precision \<noteq> 0 \<or> scale = 0);
          Some (precision + (if scale > 0 then 1 else 0) + (if uns \<or> precision = 0 then 0 else 1)) }"

definition my_decimal_precision_to_length :: "uint32 \<Rightarrow> uchar \<Rightarrow> bool \<Rightarrow> uint32 option" where
  "my_decimal_precision_to_length precision scale uns =
     do { DBUG_ASSERT (precision \<noteq> 0 \<or> scale = 0);
          my_decimal_precision_to_length_no_truncation (if precision > DECIMAL_MAX_PRECISION then DECIMAL_MAX_PRECISION else precision) scale uns }"

section \<open>Results of functions\<close>

definition MAX_BLOB_WIDTH :: uint64 where "MAX_BLOB_WIDTH = 16777216"

text \<open>The length and whether the result may be null.\<close>

definition fix_char_length_ulonglong :: "uint64 \<Rightarrow> Type_std_attributes \<Rightarrow> bool \<Rightarrow> Type_std_attributes \<times> bool" where
  "fix_char_length_ulonglong max_char_length_arg a maybe_null =
     (let max_result_length = max_char_length_arg * ucast (mbmaxlen (collation (dtc a)))
      in if max_result_length \<ge> MAX_BLOB_WIDTH then (a\<lparr>max_length := ucast MAX_BLOB_WIDTH\<rparr>, True)
         else (a\<lparr>max_length := ucast max_result_length\<rparr>, maybe_null))"

text \<open>An overflow raises an error, named after the type, and gives 0.\<close>

definition raise_integer_overflow :: "bool \<Rightarrow> string + uint64" where
  "raise_integer_overflow uns = Inl (if uns then ''BIGINT UNSIGNED'' else ''BIGINT'')"

definition check_integer_overflow :: "bool \<Rightarrow> uint64 \<Rightarrow> bool \<Rightarrow> string + uint64" where
  "check_integer_overflow uns value val_unsigned =
     (if uns \<and> \<not> val_unsigned \<and> sint value < 0 \<or> \<not> uns \<and> val_unsigned \<and> value > LONGLONG_MAX
      then raise_integer_overflow uns else Inr value)"

section \<open>Lengths\<close>

lemma unat_ucast_32_64: "unat (ucast (w :: uint32) :: uint64) = unat w"
  using uint32_lt [of w] by (simp add: unat_ucast_eq_mod)

lemma char_to_byte_length:
  assumes "unat c * unat m < 2 ^ 64"
  shows "unat (char_to_byte_length_safe c m) = min (2 ^ 32 - 1) (unat c * unat m)"
proof -
  have "unat (c * ucast m) = unat c * unat m" using assms by (simp add: unat_word_ariths unat_ucast_32_64)
  then show ?thesis by (simp add: char_to_byte_length_safe_def Let_def UINT_MAX32_def word_less_nat_alt unat_ucast_eq_mod min_def)
qed

lemma byte_length_of_chars: "unat (char_to_byte_length_safe (ucast n) m) = min (2 ^ 32 - 1) (unat n * unat (m :: uint32))" for n :: uint32
proof -
  have "unat n * unat m \<le> 4294967295 * 4294967295" using uint32_lt [of n] uint32_lt [of m] by (intro mult_le_mono) simp_all
  then show ?thesis using char_to_byte_length [of "ucast n" m] by (simp add: unat_ucast_32_64)
qed

text \<open>
  The length of a string type, set in characters: the length in bytes is the product with the largest length of a character, cut off at the
  largest 32-bit number instead of wrapping around; read back in characters it is the length that was set, if that fits, and never more.
\<close>

theorem char_length_set_and_read:
  fixes n :: uint32 and a :: Type_std_attributes
  assumes "mbmaxlen cs \<noteq> 0"
  defines "a' \<equiv> fix_length_and_charset n cs a"
  shows "unat (max_length a') = min (2 ^ 32 - 1) (unat n * unat (mbmaxlen cs)) \<and> max_char_length a' \<le> n \<and>
    (unat n * unat (mbmaxlen cs) < 2 ^ 32 \<longrightarrow> max_char_length a' = n) \<and>
    (collation (dtc a) = cs \<longrightarrow> fix_char_length n a = a')"
proof -
  have m: "unat (mbmaxlen cs) > 0" using assms(1) by (simp add: unat_gt_0)
  have len: "unat (max_length a') = min (2 ^ 32 - 1) (unat n * unat (mbmaxlen cs))"
    using byte_length_of_chars [of n "mbmaxlen cs"] by (simp add: a'_def fix_length_and_charset_def)
  have rd: "unat (max_char_length a') = unat (max_length a') div unat (mbmaxlen cs)"
    by (simp add: max_char_length_def a'_def fix_length_and_charset_def unat_div)
  have "unat (max_char_length a') \<le> unat n" unfolding rd len using m by (metis div_le_mono min.cobounded2 nonzero_mult_div_cancel_right less_irrefl)
  moreover have "unat n * unat (mbmaxlen cs) < 2 ^ 32 \<longrightarrow> max_char_length a' = n"
    using rd len m by (auto intro: word_eq_unatI)
  moreover have "collation (dtc a) = cs \<longrightarrow> fix_char_length n a = a'" by (auto simp: fix_char_length_def fix_length_and_charset_def a'_def)
  ultimately show ?thesis using len by (simp add: word_le_nat_alt)
qed

text \<open>
  The two ways to set the attributes of a temporal type agree, for a numeric character set with one byte for a character and a number of decimals
  that is given: at most six decimals, and a point before them if there are any.
\<close>

theorem temporal_attributes:
  assumes "mbmaxlen num = 1" "unat int_len < 2 ^ 31" "dec \<noteq> NOT_FIXED_DEC"
  shows "fix_attributes_temporal_not_fixed_dec num int_len dec a = fix_attributes_temporal num int_len dec a \<and>
    decimals (fix_attributes_temporal num int_len dec a) \<le> TIME_SECOND_PART_DIGITS \<and>
    unat (max_length (fix_attributes_temporal num int_len dec a)) = unat int_len + (if dec = 0 then 0 else min (unat dec) 6 + 1)"
proof -
  define d where "d = (if dec < TIME_SECOND_PART_DIGITS then dec else TIME_SECOND_PART_DIGITS)"
  have d: "d = (if dec > TIME_SECOND_PART_DIGITS then TIME_SECOND_PART_DIGITS else dec)" by (auto simp: d_def)
  have d6: "unat d \<le> 6" "unat d = min (unat dec) 6" "dec = 0 \<Longrightarrow> d = 0"
    by (auto simp: d_def TIME_SECOND_PART_DIGITS_def word_less_nat_alt min_def)
  have one: "char_to_byte_length_safe (ucast w) 1 = w" for w :: uint32
    by (rule word_eq_unatI) (use uint32_lt [of w] in \<open>simp add: byte_length_of_chars\<close>)
  define len where "len = int_len + (if dec = 0 then 0 else d + 1)"
  have "fix_attributes_temporal num int_len dec a = (set_numeric num a)\<lparr>unsigned_flag := False, decimals := d, max_length := len\<rparr>"
    using d6(3) by (simp add: fix_attributes_temporal_def Let_def len_def ac_simps flip: d_def)
  moreover have "fix_attributes_temporal_not_fixed_dec num int_len dec a = (set_numeric num a)\<lparr>unsigned_flag := False, decimals := d, max_length := len\<rparr>"
    using assms(1,3) d6(3) by (simp add: fix_attributes_temporal_not_fixed_dec_def fix_char_length_temporal_not_fixed_dec_def fix_char_length_def
        Let_def set_numeric_def dtc_set_numeric_def one len_def d)
  moreover have "unat len = unat int_len + (if dec = 0 then 0 else min (unat dec) 6 + 1)"
    using assms(2) d6 by (simp add: len_def unat_word_ariths)
  ultimately show ?thesis using d6(1) by (simp add: TIME_SECOND_PART_DIGITS_def word_le_nat_alt)
qed

text \<open>
  Precision and display length of a decimal: with room for a point and a sign, the length determines the precision again.
\<close>

theorem decimal_length_roundtrip:
  assumes "p \<noteq> 0 \<or> scale = 0" "p \<le> DECIMAL_MAX_PRECISION"
  shows "\<exists>len. my_decimal_precision_to_length p scale u = Some len \<and> my_decimal_precision_to_length_no_truncation p scale u = Some len \<and>
    unat len = unat p + of_bool (scale \<noteq> 0) + of_bool (\<not> u \<and> p \<noteq> 0) \<and>
    my_decimal_length_to_precision len (ucast scale) u = Some p"
proof -
  have p: "unat p \<le> 65" using assms(2) by (simp add: DECIMAL_MAX_PRECISION_def word_le_nat_alt)
  define len where "len = p + (if scale > 0 then 1 else 0) + (if u \<or> p = 0 then 0 else 1)"
  have l: "unat len = unat p + of_bool (scale \<noteq> 0) + of_bool (\<not> u \<and> p \<noteq> 0)"
    using p by (simp add: len_def unat_word_ariths word_gt_0)
  have s: "(ucast scale :: uint32) = 0 \<longleftrightarrow> scale = 0"
    using uchar_lt [of scale] by (auto simp: word_unat_eq_iff unat_ucast_eq_mod)
  have "len = 0 \<longleftrightarrow> p = 0" using l assms(1) by (auto simp: word_unat_eq_iff [of len] word_unat_eq_iff [of p])
  then have "my_decimal_length_to_precision len (ucast scale) u = Some p"
    using assms(1) s by (auto simp: my_decimal_length_to_precision_def len_def word_gt_0)
  then show ?thesis
    using assms l by (auto simp: my_decimal_precision_to_length_def my_decimal_precision_to_length_no_truncation_def len_def not_less)
qed

section \<open>Overflow\<close>

text \<open>The number a 64-bit value stands for, signed or not.\<close>

definition bigint_value :: "bool \<Rightarrow> uint64 \<Rightarrow> int" where
  "bigint_value u w = (if u then uint w else sint w)"

text \<open>
  The result of an integer function: the number a value stands for is returned unchanged, as a value of the signedness of the function, exactly
  if it can be represented there, and raises an error otherwise.
\<close>

theorem integer_overflow_checked:
  "check_integer_overflow u w v =
    (if bigint_value v w \<in> (if u then {0..2 ^ 64 - 1} else {-(2 ^ 63)..2 ^ 63 - 1}) then Inr w
     else Inl (if u then ''BIGINT UNSIGNED'' else ''BIGINT'')) \<and>
   (check_integer_overflow u w v = Inr r \<longrightarrow> bigint_value u r = bigint_value v w)"
proof -
  have s: "sint w = (if uint w < 2 ^ 63 then uint w else uint w - 2 ^ 64)" by (rule sint_uint64)
  have b: "0 \<le> uint w" "uint w < 2 ^ 64" by (rule uint_bounds64)+
  have g: "w > LONGLONG_MAX \<longleftrightarrow> \<not> uint w < 2 ^ 63" by (simp add: LONGLONG_MAX_def word_less_def) linarith
  have "r = w" if "check_integer_overflow u w v = Inr r"
    using that by (simp add: check_integer_overflow_def raise_integer_overflow_def split: if_splits)
  moreover have "bigint_value u w = bigint_value v w" if "check_integer_overflow u w v = Inr w"
    using that b unfolding check_integer_overflow_def raise_integer_overflow_def bigint_value_def s g by (cases u; cases v) (auto split: if_splits)
  moreover have "check_integer_overflow u w v =
    (if bigint_value v w \<in> (if u then {0..2 ^ 64 - 1} else {-(2 ^ 63)..2 ^ 63 - 1}) then Inr w
     else Inl (if u then ''BIGINT UNSIGNED'' else ''BIGINT''))"
    using b unfolding check_integer_overflow_def raise_integer_overflow_def bigint_value_def s g
    by (cases u; cases v) (auto intro: order.trans [OF _ b(1)])
  ultimately show ?thesis by blast
qed

text \<open>
  The length of a string function is cut off at the width of a blob, and the result may be null then; the product that is compared with it is
  computed modulo \<open>2^64\<close>, so a length that overflows it is taken for a short one.
\<close>

theorem function_length:
  "unat n * unat (mbmaxlen (collation (dtc a))) < 2 ^ 64 \<Longrightarrow>
     unat (max_length (fst (fix_char_length_ulonglong n a b))) = min 16777216 (unat n * unat (mbmaxlen (collation (dtc a)))) \<and>
     snd (fix_char_length_ulonglong n a b) = (b \<or> 16777216 \<le> unat n * unat (mbmaxlen (collation (dtc a))))"
proof -
  assume "unat n * unat (mbmaxlen (collation (dtc a))) < 2 ^ 64"
  then have "unat (n * ucast (mbmaxlen (collation (dtc a)))) = unat n * unat (mbmaxlen (collation (dtc a)))"
    by (simp add: unat_word_ariths unat_ucast_32_64)
  then show ?thesis by (simp add: fix_char_length_ulonglong_def Let_def MAX_BLOB_WIDTH_def word_le_nat_alt unat_ucast_eq_mod min_def)
qed

theorem function_length_wraps:
  "mbmaxlen (collation (dtc a)) = 4 \<Longrightarrow> max_length (fst (fix_char_length_ulonglong (2 ^ 62) a b)) = 0"
  by (simp add: fix_char_length_ulonglong_def Let_def MAX_BLOB_WIDTH_def)

section \<open>Concrete cases\<close>

definition sample_utf8 :: CHARSET_INFO where "sample_utf8 = \<lparr>cs_addr = 1, cs_state = 0, mbmaxlen = 4\<rparr>"
definition sample_latin1 :: CHARSET_INFO where "sample_latin1 = \<lparr>cs_addr = 2, cs_state = 0, mbmaxlen = 1\<rparr>"

theorem char_length_set_and_read_witness:
  "max_char_length (fix_length_and_charset 255 sample_utf8 (type_std_default sample_latin1)) = 255"
proof -
  have "mbmaxlen sample_utf8 \<noteq> 0" by (simp add: sample_utf8_def)
  from char_length_set_and_read [OF this, of 255 "type_std_default sample_latin1"] show ?thesis by (simp add: sample_utf8_def)
qed

theorem temporal_attributes_witness:
  "fix_attributes_time_not_fixed_dec sample_latin1 3 (type_std_default sample_utf8) = fix_attributes_time sample_latin1 3 (type_std_default sample_utf8)"
proof -
  have "mbmaxlen sample_latin1 = 1" "unat MIN_TIME_WIDTH < 2 ^ 31" "3 \<noteq> NOT_FIXED_DEC"
    by (simp_all add: sample_latin1_def MIN_TIME_WIDTH_def NOT_FIXED_DEC_def)
  from temporal_attributes [OF this] show ?thesis by (simp add: fix_attributes_time_not_fixed_dec_def fix_attributes_time_def)
qed

theorem decimal_length_roundtrip_witness:
  "my_decimal_precision_to_length 10 2 False = Some 12 \<and> my_decimal_length_to_precision 12 2 False = Some 10"
proof -
  have "(10 :: uint32) \<noteq> 0 \<or> (2 :: uchar) = 0" "(10 :: uint32) \<le> DECIMAL_MAX_PRECISION" by (simp_all add: DECIMAL_MAX_PRECISION_def)
  then obtain len where len: "my_decimal_precision_to_length 10 2 False = Some len" "unat len = 12" "my_decimal_length_to_precision len (ucast (2 :: uchar)) False = Some 10"
    using decimal_length_roundtrip [of 10 2 False] by auto
  then have "len = 12" by (intro word_eq_unatI) simp
  then show ?thesis using len by simp
qed

theorem integer_overflow_checked_witness:
  "check_integer_overflow True (-1) False = Inl ''BIGINT UNSIGNED'' \<and> check_integer_overflow True 7 False = Inr 7 \<and> bigint_value True 7 = bigint_value False 7"
  using integer_overflow_checked [of True "-1" False] integer_overflow_checked [of True 7 False 7] by (simp add: bigint_value_def)

theorem function_length_witness:
  "max_length (fst (fix_char_length_ulonglong 100 (type_std_default sample_utf8) False)) = 400"
proof -
  have "unat (max_length (fst (fix_char_length_ulonglong 100 (type_std_default sample_utf8) False))) = 400"
    using function_length [of 100 "type_std_default sample_utf8" False] by (simp add: type_std_default_def sample_utf8_def)
  then show ?thesis by (intro word_eq_unatI) simp
qed

theorem function_length_wraps_witness: "max_length (fst (fix_char_length_ulonglong (2 ^ 62) (type_std_default sample_utf8) False)) = 0"
  by (rule function_length_wraps) (simp add: type_std_default_def sample_utf8_def)

end
