(* ===== verification/Items.thy ===== *)
theory Items
  imports NodeHeap Runs Bitmaps
begin

text \<open>
  Parts of the expression classes that are in the headers: the arguments of a function and the tables they use (\<^verbatim>\<open>item.h\<close>), the strategies of an
  \<open>IN\<close> subquery and the ordered keys of its partial matching (\<^verbatim>\<open>item_subselect.h\<close>).  An item is its address; what its virtual functions return is
  given by arguments.  The outcome of an allocation is an argument.
\<close>

section \<open>Arguments\<close>

record Item_args =
  args :: "ptr list option"
  arg_count :: nat

definition item_args_0 :: Item_args where
  "item_args_0 = \<lparr>args = None, arg_count = 0\<rparr>"

text \<open>The one- and two-argument constructors use an array of two inside the object; its unused entry is 0 here.\<close>

definition item_args_1 :: "ptr \<Rightarrow> Item_args" where
  "item_args_1 a = \<lparr>args = Some [a, 0], arg_count = 1\<rparr>"

definition item_args_2 :: "ptr \<Rightarrow> ptr \<Rightarrow> Item_args" where
  "item_args_2 a b = \<lparr>args = Some [a, b], arg_count = 2\<rparr>"

definition item_args_3 :: "bool \<Rightarrow> ptr \<Rightarrow> ptr \<Rightarrow> ptr \<Rightarrow> Item_args" where
  "item_args_3 alloc_ok a b c = (if alloc_ok then \<lparr>args = Some [a, b, c], arg_count = 3\<rparr> else \<lparr>args = None, arg_count = 0\<rparr>)"

definition item_args_4 :: "bool \<Rightarrow> ptr \<Rightarrow> ptr \<Rightarrow> ptr \<Rightarrow> ptr \<Rightarrow> Item_args" where
  "item_args_4 alloc_ok a b c d = (if alloc_ok then \<lparr>args = Some [a, b, c, d], arg_count = 4\<rparr> else \<lparr>args = None, arg_count = 0\<rparr>)"

definition item_args_5 :: "bool \<Rightarrow> ptr \<Rightarrow> ptr \<Rightarrow> ptr \<Rightarrow> ptr \<Rightarrow> ptr \<Rightarrow> Item_args" where
  "item_args_5 alloc_ok a b c d e = (if alloc_ok then \<lparr>args = Some [a, b, c, d, e], arg_count = 5\<rparr> else \<lparr>args = None, arg_count = 5\<rparr>)"

definition arg_at :: "Item_args \<Rightarrow> nat \<Rightarrow> ptr option" where
  "arg_at ia i = do { xs \<leftarrow> args ia; if i < length xs then Some (xs ! i) else None }"

definition add_argument :: "ptr \<Rightarrow> Item_args \<Rightarrow> Item_args option" where
  "add_argument item ia =
     do { xs \<leftarrow> args ia;
          if arg_count ia < length xs then Some (ia\<lparr>args := Some (xs[arg_count ia := item]), arg_count := arg_count ia + 1\<rparr>) else None }"

definition remove_arguments :: "Item_args \<Rightarrow> Item_args" where
  "remove_arguments ia = ia\<lparr>arg_count := 0\<rparr>"

text \<open>The loops over the arguments, from index \<open>i\<close> on; a processor may change a state.\<close>

primrec walk_loop :: "(ptr \<Rightarrow> 's \<Rightarrow> bool \<times> 's) \<Rightarrow> Item_args \<Rightarrow> nat list \<Rightarrow> 's \<Rightarrow> (bool \<times> 's) option" where
  "walk_loop walk ia [] s = Some (False, s)"
| "walk_loop walk ia (i # is) s = do { a \<leftarrow> arg_at ia i; let (r, s1) = walk a s in if r then Some (True, s1) else walk_loop walk ia is s1 }"

definition walk_args :: "(ptr \<Rightarrow> 's \<Rightarrow> bool \<times> 's) \<Rightarrow> Item_args \<Rightarrow> 's \<Rightarrow> (bool \<times> 's) option" where
  "walk_args walk ia s = walk_loop walk ia [0..<arg_count ia] s"

primrec excl_dep_loop :: "(ptr \<Rightarrow> bool) \<Rightarrow> (ptr \<Rightarrow> bool) \<Rightarrow> Item_args \<Rightarrow> nat list \<Rightarrow> bool option" where
  "excl_dep_loop const_item dep ia [] = Some True"
| "excl_dep_loop const_item dep ia (i # is) =
     do { a \<leftarrow> arg_at ia i;
          if const_item a then excl_dep_loop const_item dep ia is
          else if \<not> dep a then Some False else excl_dep_loop const_item dep ia is }"

definition excl_dep_on_table :: "(ptr \<Rightarrow> bool) \<Rightarrow> (ptr \<Rightarrow> uint64 \<Rightarrow> bool) \<Rightarrow> uint64 \<Rightarrow> Item_args \<Rightarrow> bool option" where
  "excl_dep_on_table const_item item_excl_dep tab_map ia = excl_dep_loop const_item (\<lambda>a. item_excl_dep a tab_map) ia [0..<arg_count ia]"

definition excl_dep_on_grouping_fields :: "(ptr \<Rightarrow> bool) \<Rightarrow> (ptr \<Rightarrow> ptr \<Rightarrow> bool) \<Rightarrow> ptr \<Rightarrow> Item_args \<Rightarrow> bool option" where
  "excl_dep_on_grouping_fields const_item item_excl_dep sel ia = excl_dep_loop const_item (\<lambda>a. item_excl_dep a sel) ia [0..<arg_count ia]"

primrec args_eq_loop :: "(ptr \<Rightarrow> ptr \<Rightarrow> bool) \<Rightarrow> Item_args \<Rightarrow> Item_args \<Rightarrow> nat list \<Rightarrow> bool option" where
  "args_eq_loop eq ia other [] = Some True"
| "args_eq_loop eq ia other (i # is) =
     do { a \<leftarrow> arg_at ia i; b \<leftarrow> arg_at other i; if \<not> eq a b then Some False else args_eq_loop eq ia other is }"

definition args_eq :: "(ptr \<Rightarrow> ptr \<Rightarrow> bool) \<Rightarrow> Item_args \<Rightarrow> Item_args \<Rightarrow> bool option" where
  "args_eq eq ia other = args_eq_loop eq ia other [0..<arg_count ia]"

section \<open>Used tables\<close>

record Used_tables_and_const_cache =
  used_tables_cache :: uint64
  const_item_cache :: bool

definition cache_init :: Used_tables_and_const_cache where
  "cache_init = \<lparr>used_tables_cache = 0, const_item_cache = True\<rparr>"

definition cache_join :: "(ptr \<Rightarrow> uint64) \<Rightarrow> (ptr \<Rightarrow> bool) \<Rightarrow> ptr \<Rightarrow> Used_tables_and_const_cache \<Rightarrow> Used_tables_and_const_cache" where
  "cache_join used_tables const_item item c =
     c\<lparr>used_tables_cache := used_tables_cache c OR used_tables item, const_item_cache := const_item_cache c \<and> const_item item\<rparr>"

text \<open>
  \<open>update_used_tables\<close> of an item changes the state \<open>w\<close> of the items, from which the two virtual functions read.
\<close>

definition cache_update_and_join ::
  "(ptr \<Rightarrow> 'w \<Rightarrow> 'w) \<Rightarrow> ('w \<Rightarrow> ptr \<Rightarrow> uint64) \<Rightarrow> ('w \<Rightarrow> ptr \<Rightarrow> bool) \<Rightarrow> ptr \<Rightarrow> 'w \<times> Used_tables_and_const_cache \<Rightarrow> 'w \<times> Used_tables_and_const_cache" where
  "cache_update_and_join update used_tables const_item item s =
     (let w1 = update item (fst s) in (w1, cache_join (used_tables w1) (const_item w1) item (snd s)))"

primrec cache_update_loop where
  "cache_update_loop update used_tables const_item ia [] s = Some s"
| "cache_update_loop update used_tables const_item ia (i # is) s =
     do { a \<leftarrow> arg_at ia i; cache_update_loop update used_tables const_item ia is (cache_update_and_join update used_tables const_item a s) }"

definition cache_update_and_join_args where
  "cache_update_and_join_args update used_tables const_item ia s = cache_update_loop update used_tables const_item ia [0..<arg_count ia] s"

section \<open>Strategies of IN subqueries\<close>

definition SUBS_NOT_TRANSFORMED :: uchar where "SUBS_NOT_TRANSFORMED = 0"
definition SUBS_STRATEGY_CHOSEN :: uchar where "SUBS_STRATEGY_CHOSEN = 1"
definition SUBS_SEMI_JOIN :: uchar where "SUBS_SEMI_JOIN = 2"
definition SUBS_IN_TO_EXISTS :: uchar where "SUBS_IN_TO_EXISTS = 4"
definition SUBS_MATERIALIZATION :: uchar where "SUBS_MATERIALIZATION = 8"
definition SUBS_PARTIAL_MATCH_ROWID_MERGE :: uchar where "SUBS_PARTIAL_MATCH_ROWID_MERGE = 16"
definition SUBS_PARTIAL_MATCH_TABLE_SCAN :: uchar where "SUBS_PARTIAL_MATCH_TABLE_SCAN = 32"
definition SUBS_MAXMIN_INJECTED :: uchar where "SUBS_MAXMIN_INJECTED = 64"
definition SUBS_MAXMIN_ENGINE :: uchar where "SUBS_MAXMIN_ENGINE = 128"

lemmas subs_defs = SUBS_NOT_TRANSFORMED_def SUBS_STRATEGY_CHOSEN_def SUBS_SEMI_JOIN_def SUBS_IN_TO_EXISTS_def SUBS_MATERIALIZATION_def
  SUBS_PARTIAL_MATCH_ROWID_MERGE_def SUBS_PARTIAL_MATCH_TABLE_SCAN_def SUBS_MAXMIN_INJECTED_def SUBS_MAXMIN_ENGINE_def

definition single_strategy :: "uchar \<Rightarrow> bool" where
  "single_strategy s \<longleftrightarrow> s \<in> {SUBS_SEMI_JOIN, SUBS_IN_TO_EXISTS, SUBS_MATERIALIZATION, SUBS_PARTIAL_MATCH_ROWID_MERGE,
     SUBS_PARTIAL_MATCH_TABLE_SCAN, SUBS_MAXMIN_INJECTED, SUBS_MAXMIN_ENGINE}"

definition test_strategy :: "uchar \<Rightarrow> uchar \<Rightarrow> bool" where
  "test_strategy strategy in_strategy \<longleftrightarrow> in_strategy AND strategy \<noteq> 0"

definition test_set_strategy :: "uchar \<Rightarrow> uchar \<Rightarrow> bool option" where
  "test_set_strategy strategy in_strategy =
     do { DBUG_ASSERT (single_strategy strategy);
          Some (in_strategy AND SUBS_STRATEGY_CHOSEN \<noteq> 0 \<and> in_strategy AND NOT SUBS_STRATEGY_CHOSEN = strategy) }"

definition is_set_strategy :: "uchar \<Rightarrow> bool" where
  "is_set_strategy in_strategy \<longleftrightarrow> in_strategy AND SUBS_STRATEGY_CHOSEN \<noteq> 0"

definition has_strategy :: "uchar \<Rightarrow> bool" where
  "has_strategy in_strategy \<longleftrightarrow> in_strategy \<noteq> SUBS_NOT_TRANSFORMED"

definition add_strategy :: "uchar \<Rightarrow> uchar \<Rightarrow> uchar option" where
  "add_strategy strategy in_strategy =
     do { DBUG_ASSERT (strategy \<noteq> SUBS_NOT_TRANSFORMED);
          DBUG_ASSERT (strategy AND SUBS_STRATEGY_CHOSEN = 0);
          Some (in_strategy OR strategy) }"

definition reset_strategy :: "uchar \<Rightarrow> uchar \<Rightarrow> uchar option" where
  "reset_strategy strategy in_strategy = do { DBUG_ASSERT (strategy \<noteq> SUBS_NOT_TRANSFORMED); Some strategy }"

definition set_strategy :: "uchar \<Rightarrow> uchar \<Rightarrow> uchar option" where
  "set_strategy strategy in_strategy = do { DBUG_ASSERT (single_strategy strategy); Some (SUBS_STRATEGY_CHOSEN OR strategy) }"

text \<open>The guards of pushed conditions; the pointer to a guard is its index in the array.\<close>

definition get_cond_guard :: "bool list option \<Rightarrow> nat \<Rightarrow> nat option" where
  "get_cond_guard pushed_cond_guards i = (case pushed_cond_guards of Some g \<Rightarrow> Some i | None \<Rightarrow> None)"

definition set_cond_guard_var :: "nat \<Rightarrow> bool \<Rightarrow> bool list option \<Rightarrow> bool list option option" where
  "set_cond_guard_var i v pushed_cond_guards =
     (case pushed_cond_guards of Some g \<Rightarrow> if i < length g then Some (Some (g[i := v])) else None | None \<Rightarrow> Some None)"

section \<open>Ordered keys\<close>

record Ordered_key =
  key_buff :: "nat list"
  key_buff_elements :: nat
  cur_key_idx :: nat
  null_key :: MY_BITMAP
  null_count :: nat
  min_null_row :: nat
  max_null_row :: nat

definition add_key :: "nat \<Rightarrow> Ordered_key \<Rightarrow> Ordered_key option" where
  "add_key row_num k =
     do { DBUG_ASSERT (key_buff_elements k \<noteq> 0 \<and> cur_key_idx k < key_buff_elements k);
          if cur_key_idx k < length (key_buff k)
          then Some (k\<lparr>key_buff := (key_buff k)[cur_key_idx k := row_num], cur_key_idx := cur_key_idx k + 1\<rparr>) else None }"

definition key_first :: "Ordered_key \<Rightarrow> Ordered_key option" where
  "key_first k = do { DBUG_ASSERT (key_buff_elements k \<noteq> 0); Some (k\<lparr>cur_key_idx := 0\<rparr>) }"

definition key_next :: "Ordered_key \<Rightarrow> (bool \<times> Ordered_key) option" where
  "key_next k =
     do { DBUG_ASSERT (key_buff_elements k \<noteq> 0);
          if cur_key_idx k < key_buff_elements k - 1 then Some (True, k\<lparr>cur_key_idx := cur_key_idx k + 1\<rparr>) else Some (False, k) }"

definition key_current :: "Ordered_key \<Rightarrow> nat option" where
  "key_current k =
     do { DBUG_ASSERT (key_buff_elements k \<noteq> 0 \<and> cur_key_idx k < key_buff_elements k);
          if cur_key_idx k < length (key_buff k) then Some (key_buff k ! cur_key_idx k) else None }"

definition key_set_null :: "nat \<Rightarrow> Ordered_key \<Rightarrow> Ordered_key option" where
  "key_set_null row_num k = do { m \<leftarrow> bitmap_set_bit (null_key k) (row_num mod 2 ^ 32); Some (k\<lparr>null_key := m\<rparr>) }"

definition key_is_null :: "nat \<Rightarrow> nat \<Rightarrow> Ordered_key \<Rightarrow> bool option" where
  "key_is_null stats_records row_num k =
     (if null_count k = stats_records then do { DBUG_ASSERT (stats_records = n_bits (null_key k)); Some True }
      else if row_num > max_null_row k \<or> row_num < min_null_row k then Some False
      else do { v \<leftarrow> bitmap_is_set (null_key k) (row_num mod 2 ^ 32); Some (v \<noteq> 0) })"

text \<open>Reading all keys: from the first one as long as there is a next one.\<close>

function scan_keys :: "Ordered_key \<Rightarrow> nat list option" where
  "scan_keys k =
     do { c \<leftarrow> key_current k;
          (more, k1) \<leftarrow> key_next k;
          if more then do { rest \<leftarrow> scan_keys k1; Some (c # rest) } else Some [c] }"
  by pat_completeness auto
termination
  by (relation "measure (\<lambda>k. key_buff_elements k - cur_key_idx k)")
     (auto simp: key_next_def key_current_def DBUG_ASSERT_def split: if_splits)

declare scan_keys.simps [simp del]

section \<open>Arguments and their tables\<close>

definition args_ok :: "Item_args \<Rightarrow> bool" where
  "args_ok ia \<longleftrightarrow> (arg_count ia = 0 \<or> (\<exists>xs. args ia = Some xs \<and> arg_count ia \<le> length xs))"

definition arg_list :: "Item_args \<Rightarrow> ptr list" where
  "arg_list ia = (case args ia of Some xs \<Rightarrow> take (arg_count ia) xs | None \<Rightarrow> [])"

lemma arg_at_ok: "args_ok ia \<Longrightarrow> i < arg_count ia \<Longrightarrow> arg_at ia i = Some (arg_list ia ! i)"
  by (auto simp: args_ok_def arg_at_def arg_list_def)

lemma length_arg_list: "args_ok ia \<Longrightarrow> length (arg_list ia) = arg_count ia"
  by (auto simp: args_ok_def arg_list_def split: option.split)

text \<open>A loop over the indices reads the arguments in order.\<close>

lemma map_arg_list: "args_ok ia \<Longrightarrow> map (arg_at ia) [0..<arg_count ia] = map Some (arg_list ia)"
  by (rule nth_equalityI) (simp_all add: length_arg_list arg_at_ok)

lemma excl_dep_loop_list: "map (arg_at ia) is = map Some xs \<Longrightarrow> excl_dep_loop ci dep ia is = Some (\<forall>a\<in>set xs. ci a \<or> dep a)"
  by (induction "is" arbitrary: xs) auto

lemma walk_loop_list:
  "map (arg_at ia) is = map Some xs \<Longrightarrow> walk_loop walk ia is s =
     Some (fold (\<lambda>a (r, s). if r then (r, s) else walk a s) xs (False, s))"
proof (induction "is" arbitrary: xs s)
  case (Cons i "is")
  then obtain a as where xs: "xs = a # as" "arg_at ia i = Some a" "map (arg_at ia) is = map Some as" by (cases xs) auto
  have stop: "fold (\<lambda>a (r, s). if r then (r, s) else walk a s) as (True, t) = (True, t)" for t by (induction as) auto
  show ?case using Cons.IH [OF xs(3)] xs stop by (cases "walk a s") auto
qed simp

lemma cache_update_loop_list:
  "map (arg_at ia) is = map Some xs \<Longrightarrow> cache_update_loop u t c ia is s = Some (fold (cache_update_and_join u t c) xs s)"
proof (induction "is" arbitrary: xs s)
  case (Cons i "is")
  then show ?case by (cases xs) simp_all
qed simp

text \<open>
  The tables a function uses: after the update of all its arguments the cache holds exactly the tables that some argument uses, and says constant
  exactly if all arguments are; an update of an item changes no other item.
\<close>

theorem used_tables_of_arguments:
  assumes "args_ok ia" "distinct (arg_list ia)"
    and "\<And>a b w. a \<noteq> b \<Longrightarrow> used_tables (update b w) a = used_tables w a" "\<And>a b w. a \<noteq> b \<Longrightarrow> const_item (update b w) a = const_item w a"
  shows "\<exists>w' c. cache_update_and_join_args update used_tables const_item ia (w, cache_init) = Some (w', c) \<and>
    b64_bits (used_tables_cache c) = (\<Union>a\<in>set (arg_list ia). b64_bits (used_tables w' a)) \<and>
    (const_item_cache c \<longleftrightarrow> (\<forall>a\<in>set (arg_list ia). const_item w' a))"
proof -
  have keep: "used_tables (fold update xs w) a = used_tables w a \<and> const_item (fold update xs w) a = const_item w a" if "a \<notin> set xs" for xs a w
    using that by (induction xs arbitrary: w) (auto simp: assms(3,4))
  have "distinct xs \<Longrightarrow> \<exists>c'. fold (cache_update_and_join update used_tables const_item) xs (w, c) = (fold update xs w, c') \<and>
      b64_bits (used_tables_cache c') = b64_bits (used_tables_cache c) \<union> (\<Union>a\<in>set xs. b64_bits (used_tables (fold update xs w) a)) \<and>
      (const_item_cache c' \<longleftrightarrow> const_item_cache c \<and> (\<forall>a\<in>set xs. const_item (fold update xs w) a))" for xs w c
  proof (induction xs arbitrary: w c)
    case (Cons x xs)
    define c1 where "c1 = cache_join (used_tables (update x w)) (const_item (update x w)) x c"
    have "b64_bits (used_tables_cache c1) = b64_bits (used_tables_cache c) \<union> b64_bits (used_tables (update x w) x)"
      "const_item_cache c1 \<longleftrightarrow> const_item_cache c \<and> const_item (update x w) x"
      by (auto simp: c1_def cache_join_def b64_bits_def bit_or_iff)
    then show ?case
      using Cons.IH [of "update x w" c1] Cons.prems keep [of x xs "update x w"]
      by (auto simp: cache_update_and_join_def Let_def c1_def [symmetric])
  qed simp
  from this [OF assms(2), of w cache_init] show ?thesis
    using cache_update_loop_list [OF map_arg_list [OF assms(1)], of update used_tables const_item "(w, cache_init)"]
    by (auto simp: cache_update_and_join_args_def cache_init_def b64_bits_def)
qed

text \<open>
  The constructors give as many arguments as they count, also when the allocation of three or four fails; with five the count stays at five
  without an array, and every loop over the arguments reads through a null pointer.
\<close>

theorem argument_constructors:
  "args_ok item_args_0 \<and> args_ok (item_args_1 a) \<and> args_ok (item_args_2 a b) \<and> args_ok (item_args_3 ok a b c) \<and> args_ok (item_args_4 ok a b c d) \<and>
   (args_ok (item_args_5 ok a b c d e) \<longleftrightarrow> ok) \<and> walk_args walk (item_args_5 False a b c d e) s = None"
  by (simp add: args_ok_def item_args_0_def item_args_1_def item_args_2_def item_args_3_def item_args_4_def item_args_5_def
      walk_args_def arg_at_def upt_conv_Cons)

section \<open>The chosen strategy\<close>

lemma single_strategy_cases:
  "single_strategy s \<Longrightarrow> s = 2 \<or> s = 4 \<or> s = 8 \<or> s = 16 \<or> s = 32 \<or> s = 64 \<or> s = 128"
  by (auto simp: single_strategy_def subs_defs)

text \<open>
  Setting a strategy decides: it, and no other, is the chosen one.  Strategies that are only added are not chosen; one that is added to a
  chosen one makes the test fail for every strategy.
\<close>

theorem strategy_choice:
  assumes "single_strategy s" "single_strategy t" "single_strategy u"
  shows "\<exists>st. set_strategy s old = Some st \<and> is_set_strategy st \<and> has_strategy st \<and> test_set_strategy t st = Some (t = s) \<and>
    (test_strategy t st \<longleftrightarrow> t = s) \<and> (\<exists>st'. add_strategy t st = Some st' \<and> (t \<noteq> s \<longrightarrow> test_set_strategy u st' = Some False)) \<and>
    (\<exists>st'. add_strategy s SUBS_NOT_TRANSFORMED = Some st' \<and> \<not> is_set_strategy st' \<and> has_strategy st')"
  using single_strategy_cases [OF assms(1)] single_strategy_cases [OF assms(2)] single_strategy_cases [OF assms(3)]
  by (elim disjE; hypsubst) (simp_all add: set_strategy_def add_strategy_def is_set_strategy_def has_strategy_def test_set_strategy_def
      test_strategy_def single_strategy_def subs_defs)

section \<open>Keys in order\<close>

definition key_rel :: "nat \<Rightarrow> Ordered_key \<Rightarrow> nat list \<Rightarrow> bool" where
  "key_rel n k xs \<longleftrightarrow> key_buff_elements k = n \<and> length (key_buff k) = n \<and> length xs \<le> n \<and> cur_key_idx k = length xs \<and> take (length xs) (key_buff k) = xs"

interpretation keys: progress_simulation add_key "\<lambda>r xs. xs @ [r]" "\<lambda>r xs. length xs < n" "key_rel n" for n
proof
  fix k xs r
  assume "key_rel n k xs" "length xs < n"
  then show "\<exists>k'. add_key r k = Some k' \<and> key_rel n k' (xs @ [r])"
    by (auto simp: key_rel_def add_key_def take_Suc_conv_app_nth)
qed

lemma allowed_room: "length xs + length rs \<le> n \<Longrightarrow> allowed (\<lambda>r xs. length xs < n) (\<lambda>r xs. xs @ [r]) rs xs"
  by (induction rs arbitrary: xs) auto

lemma fold_snoc: "fold (\<lambda>r xs. xs @ [r]) rs xs = xs @ rs"
  by (induction rs arbitrary: xs) auto

lemma scan_keys_from:
  "key_buff_elements k = length (key_buff k) \<Longrightarrow> cur_key_idx k < length (key_buff k) \<Longrightarrow> scan_keys k = Some (drop (cur_key_idx k) (key_buff k))"
proof (induction k rule: scan_keys.induct)
  case (1 k)
  let ?c = "cur_key_idx k" and ?n = "length (key_buff k)"
  have ne: "key_buff k \<noteq> []" using "1.prems" by auto
  have cur: "key_current k = Some (key_buff k ! ?c)" using "1.prems" ne by (simp add: key_current_def)
  show ?case
  proof (cases "?c < ?n - 1")
    case True
    define k1 where "k1 = k\<lparr>cur_key_idx := ?c + 1\<rparr>"
    have nx: "key_next k = Some (True, k1)" using True "1.prems" ne by (simp add: key_next_def k1_def)
    have "scan_keys k1 = Some (drop (cur_key_idx k1) (key_buff k1))"
      using True "1.prems" by (intro "1.IH" [OF cur nx refl]) (auto simp: k1_def)
    then show ?thesis
      using "1.prems" by (subst scan_keys.simps) (simp add: cur nx, simp add: k1_def Cons_nth_drop_Suc)
  next
    case False
    then have "key_next k = Some (False, k)" "Suc ?c = ?n" using "1.prems" ne by (auto simp: key_next_def)
    then show ?thesis using "1.prems" by (subst scan_keys.simps) (simp add: cur flip: Cons_nth_drop_Suc)
  qed
qed

text \<open>
  The rows of an ordered key: after as many rows were added as it has elements, reading from the first key ends and gives these rows in order.
\<close>

theorem ordered_key_scan:
  assumes "key_buff_elements k = length rows" "length (key_buff k) = length rows" "cur_key_idx k = 0" "rows \<noteq> []"
  shows "\<exists>k1 k2. run_opt add_key rows k = Some k1 \<and> key_first k1 = Some k2 \<and> scan_keys k2 = Some rows"
proof -
  have "key_rel (length rows) k []" using assms by (simp add: key_rel_def)
  from keys.run [OF this allowed_room, of rows] obtain k1 where k1: "run_opt add_key rows k = Some k1" "key_rel (length rows) k1 rows"
    by (auto simp: fold_snoc)
  then have "key_first k1 = Some (k1\<lparr>cur_key_idx := 0\<rparr>)" using assms(4) by (simp add: key_first_def key_rel_def)
  moreover have "scan_keys (k1\<lparr>cur_key_idx := 0\<rparr>) = Some rows"
    using k1(2) assms(4) scan_keys_from [of "k1\<lparr>cur_key_idx := 0\<rparr>"] by (simp add: key_rel_def) (metis order_refl take_all)
  ultimately show ?thesis using k1(1) by blast
qed

definition null_rel :: "Ordered_key \<Rightarrow> Ordered_key \<Rightarrow> nat set \<Rightarrow> bool" where
  "null_rel k0 k A \<longleftrightarrow> n_bits (null_key k0) \<le> 2 ^ 32 \<and> bitmap_ok (null_key k) \<and> n_bits (null_key k) = n_bits (null_key k0) \<and> bitmap_bits (null_key k) = bitmap_bits (null_key k0) \<union> A \<and>
     null_count k = null_count k0 \<and> min_null_row k = min_null_row k0 \<and> max_null_row k = max_null_row k0"

interpretation nulls: progress_simulation key_set_null insert "\<lambda>r A. r < n_bits (null_key k0)" "null_rel k0" for k0
proof
  fix k A r
  assume "null_rel k0 k A" "r < n_bits (null_key k0)"
  then show "\<exists>k'. key_set_null r k = Some k' \<and> null_rel k0 k' (insert r A)"
    by (auto simp: null_rel_def key_set_null_def bitmap_set_bit_def mb.inv_set_bit mb.bits_set_bit)
qed

text \<open>
  The null rows of a column: a row is reported as null exactly if it was set, provided the limits enclose the rows that were set; the bitmap
  operations are those of \<open>Bitmaps\<close>.
\<close>

theorem null_rows_found:
  assumes "bitmap_ok (null_key k)" "bitmap_bits (null_key k) = {}" "\<forall>r\<in>set rows. r < n_bits (null_key k) \<and> min_null_row k \<le> r \<and> r \<le> max_null_row k"
    and "null_count k \<noteq> records" "row < n_bits (null_key k)" "n_bits (null_key k) \<le> 2 ^ 32"
  shows "\<exists>k'. run_opt key_set_null rows k = Some k' \<and> key_is_null records row k' = Some (row \<in> set rows)"
proof -
  have "null_rel k k {}" using assms by (simp add: null_rel_def)
  moreover have "allowed (\<lambda>r A. r < n_bits (null_key k)) insert rows {}" using assms(3) by (intro allowed_all) blast
  ultimately obtain k' where k': "run_opt key_set_null rows k = Some k'" "null_rel k k' (fold insert rows {})"
    using nulls.run [of k k "{}" rows] by blast
  have "fold insert rows {} = set rows" by (simp add: union_set_fold [symmetric])
  then show ?thesis
    using k' assms by (auto simp: null_rel_def key_is_null_def bitmap_is_set_def bitmap_is_set_bits)
qed

section \<open>Concrete cases\<close>

theorem used_tables_of_arguments_witness:
  "\<exists>w' c. cache_update_and_join_args (\<lambda>b (w :: unit). w) (\<lambda>w a. if a = 7 then 1 else 4) (\<lambda>w a. a = 7) (item_args_2 7 8) ((), cache_init) = Some (w', c) \<and>
     \<not> const_item_cache c"
proof -
  have "args_ok (item_args_2 7 8)" "distinct (arg_list (item_args_2 7 8))" by (simp_all add: args_ok_def arg_list_def item_args_2_def)
  from used_tables_of_arguments [OF this, of "\<lambda>w a. if a = 7 then 1 else 4" "\<lambda>b w. w" "\<lambda>w a. a = 7" "()"] show ?thesis
    by (auto simp: arg_list_def item_args_2_def)
qed

theorem strategy_choice_witness:
  "\<exists>st. set_strategy SUBS_MATERIALIZATION 0 = Some st \<and> test_set_strategy SUBS_MATERIALIZATION st = Some True"
  using strategy_choice [of SUBS_MATERIALIZATION SUBS_MATERIALIZATION SUBS_SEMI_JOIN 0] by (auto simp: single_strategy_def)

definition sample_ordered_key :: Ordered_key where
  "sample_ordered_key = \<lparr>key_buff = [0, 0, 0], key_buff_elements = 3, cur_key_idx = 0, null_key = bitmap_clear_all sample_map, null_count = 2,
     min_null_row = 1, max_null_row = 3\<rparr>"

theorem ordered_key_scan_witness:
  "\<exists>k1 k2. run_opt add_key [5, 2, 9] sample_ordered_key = Some k1 \<and> key_first k1 = Some k2 \<and> scan_keys k2 = Some [5, 2, 9]"
  by (rule ordered_key_scan) (simp_all add: sample_ordered_key_def)

theorem null_rows_found_witness:
  "\<exists>k'. run_opt key_set_null [1, 3] sample_ordered_key = Some k' \<and> key_is_null 5 3 k' = Some True"
proof -
  have nb: "n_bits (null_key sample_ordered_key) = 5" by (simp add: sample_ordered_key_def bitmap_clear_all_def sample_map_def)
  have ok: "bitmap_ok (null_key sample_ordered_key)" "bitmap_bits (null_key sample_ordered_key) = {}"
    using mb.inv_clear_all [OF sample_map_ok] bitmap_bits_clear_all [OF sample_map_ok] by (simp_all add: sample_ordered_key_def)
  have "\<exists>k'. run_opt key_set_null [1, 3] sample_ordered_key = Some k' \<and> key_is_null 5 3 k' = Some (3 \<in> set [1, 3 :: nat])"
    by (rule null_rows_found [OF ok]) (simp_all add: nb, simp_all add: sample_ordered_key_def)
  then show ?thesis by (simp del: run_opt_simps)
qed

end
