(* ===== verification/StoredPrograms.thy ===== *)
theory StoredPrograms
  imports BaseList QueryTables
begin

text \<open>
  Stored programs (\<^verbatim>\<open>sp_head.h\<close>, \<^verbatim>\<open>sp_pcontext.h\<close>): the instructions and their destinations, the parse contexts with their labels, the ownership of
  the \<open>LEX\<close> objects and of the items of cursor parameters, the routines of a package, and the attributes a routine passes on to
  the statement that calls it.  Lists are those of \<open>BaseList\<close>, the flags of a statement those of \<open>QueryTables\<close>.  Functions that the headers only
  declare are arguments.
\<close>

section \<open>Attributes of a routine\<close>

definition HAS_RETURN :: uint32 where "HAS_RETURN = 1"
definition MULTI_RESULTS :: uint32 where "MULTI_RESULTS = 8"
definition CONTAINS_DYNAMIC_SQL :: uint32 where "CONTAINS_DYNAMIC_SQL = 16"
definition IS_INVOKED :: uint32 where "IS_INVOKED = 32"
definition HAS_SET_AUTOCOMMIT_STMT :: uint32 where "HAS_SET_AUTOCOMMIT_STMT = 64"
definition HAS_COMMIT_OR_ROLLBACK :: uint32 where "HAS_COMMIT_OR_ROLLBACK = 128"
definition LOG_SLOW_STATEMENTS :: uint32 where "LOG_SLOW_STATEMENTS = 256"
definition LOG_GENERAL_LOG :: uint32 where "LOG_GENERAL_LOG = 512"
definition HAS_SQLCOM_RESET :: uint32 where "HAS_SQLCOM_RESET = 1024"
definition HAS_SQLCOM_FLUSH :: uint32 where "HAS_SQLCOM_FLUSH = 2048"
definition MODIFIES_DATA :: uint32 where "MODIFIES_DATA = 4096"
definition HAS_COLUMN_TYPE_REFS :: uint32 where "HAS_COLUMN_TYPE_REFS = 8192"
definition HAS_AGGREGATE_INSTR :: uint32 where "HAS_AGGREGATE_INSTR = 16384"

lemmas sp_flag_defs = HAS_RETURN_def MULTI_RESULTS_def CONTAINS_DYNAMIC_SQL_def IS_INVOKED_def HAS_SET_AUTOCOMMIT_STMT_def
  HAS_COMMIT_OR_ROLLBACK_def LOG_SLOW_STATEMENTS_def LOG_GENERAL_LOG_def HAS_SQLCOM_RESET_def HAS_SQLCOM_FLUSH_def MODIFIES_DATA_def
  HAS_COLUMN_TYPE_REFS_def HAS_AGGREGATE_INSTR_def

text \<open>The errors the code reports, with their text argument where it matters.\<close>

datatype sp_error =
    ER_STMT_NOT_ALLOWED_IN_SF_OR_TRG string | ER_SP_NO_RETSET string | ER_SP_CANT_SET_AUTOCOMMIT | ER_COMMIT_NOT_ALLOWED_IN_SF_OR_TRG
  | ER_SP_ALREADY_EXISTS | ER_SP_BAD_CURSOR_SELECT | ER_SP_LABEL_REDEFINE | ER_SP_DUP_COND | ER_SP_CURSOR_MISMATCH

definition is_not_allowed_in_function :: "string \<Rightarrow> uint32 \<Rightarrow> sp_error option \<times> bool" where
  "is_not_allowed_in_function where_arg m_flags =
     (if m_flags AND CONTAINS_DYNAMIC_SQL \<noteq> 0 then Some (ER_STMT_NOT_ALLOWED_IN_SF_OR_TRG ''Dynamic SQL'')
      else if m_flags AND MULTI_RESULTS \<noteq> 0 then Some (ER_SP_NO_RETSET where_arg)
      else if m_flags AND HAS_SET_AUTOCOMMIT_STMT \<noteq> 0 then Some ER_SP_CANT_SET_AUTOCOMMIT
      else if m_flags AND HAS_COMMIT_OR_ROLLBACK \<noteq> 0 then Some ER_COMMIT_NOT_ALLOWED_IN_SF_OR_TRG
      else if m_flags AND HAS_SQLCOM_RESET \<noteq> 0 then Some (ER_STMT_NOT_ALLOWED_IN_SF_OR_TRG ''RESET'')
      else if m_flags AND HAS_SQLCOM_FLUSH \<noteq> 0 then Some (ER_STMT_NOT_ALLOWED_IN_SF_OR_TRG ''FLUSH'')
      else None,
      m_flags AND (CONTAINS_DYNAMIC_SQL OR MULTI_RESULTS OR HAS_SET_AUTOCOMMIT_STMT OR HAS_COMMIT_OR_ROLLBACK OR
                   HAS_SQLCOM_RESET OR HAS_SQLCOM_FLUSH) \<noteq> 0)"

definition modifies_data :: "uint32 \<Rightarrow> bool" where
  "modifies_data m_flags \<longleftrightarrow> m_flags AND MODIFIES_DATA \<noteq> 0"

definition sp_is_invoked :: "uint32 \<Rightarrow> bool" where
  "sp_is_invoked m_flags \<longleftrightarrow> m_flags AND IS_INVOKED \<noteq> 0"

definition package_is_invoked :: "uint32 \<Rightarrow> uint32 \<Rightarrow> bool" where
  "package_is_invoked m_flags m_invoked_subroutine_count \<longleftrightarrow> sp_is_invoked m_flags \<or> m_invoked_subroutine_count > 0"

definition propagate_attributes :: "uint32 \<Rightarrow> uint32 \<Rightarrow> uint32 option" where
  "propagate_attributes unsafe_flags binlog_stmt_flags = set_stmt_unsafe_flags unsafe_flags binlog_stmt_flags"

section \<open>Instructions\<close>

text \<open>
  The classes of instructions that differ in the operations below; all other classes inherit those of \<open>sp_instr\<close>.  One record has the members of
  all classes.
\<close>

datatype instr_class = Cinstr | Cjump | Cjump_if_not | Cpreturn | Cfreturn | Chpush_jump | Chpop | Chreturn | Ccpop | Cerror | Cset_case_expr

record sp_instr =
  iclass :: instr_class
  marked :: uint32
  m_ip :: uint32
  m_dest :: uint32
  m_cont_dest :: uint32
  m_opt_hpop :: uint32
  m_count :: uint32

definition UINT_MAX :: uint32 where "UINT_MAX = 0xFFFFFFFF"

definition new_instr :: "instr_class \<Rightarrow> uint32 \<Rightarrow> sp_instr" where
  "new_instr c ip = \<lparr>iclass = c, marked = 0, m_ip = ip, m_dest = 0, m_cont_dest = 0, m_opt_hpop = 0, m_count = 0\<rparr>"

definition jump_backpatch :: "uint32 \<Rightarrow> sp_instr \<Rightarrow> sp_instr option" where
  "jump_backpatch dest i = do { DBUG_ASSERT (m_dest i = 0); Some (i\<lparr>m_dest := dest\<rparr>) }"

definition hpush_backpatch :: "uint32 \<Rightarrow> sp_instr \<Rightarrow> sp_instr option" where
  "hpush_backpatch dest i =
     do { DBUG_ASSERT (m_dest i = 0 \<or> m_opt_hpop i = 0);
          if m_dest i = 0 then Some (i\<lparr>m_dest := dest\<rparr>) else Some (i\<lparr>m_opt_hpop := dest\<rparr>) }"

definition backpatch :: "uint32 \<Rightarrow> sp_instr \<Rightarrow> sp_instr option" where
  "backpatch dest i =
     (case iclass i of
        Chpush_jump \<Rightarrow> hpush_backpatch dest i
      | Cjump \<Rightarrow> jump_backpatch dest i | Cjump_if_not \<Rightarrow> jump_backpatch dest i | Chreturn \<Rightarrow> jump_backpatch dest i
      | _ \<Rightarrow> Some i)"

definition jump_set_destination :: "uint32 \<Rightarrow> uint32 \<Rightarrow> sp_instr \<Rightarrow> sp_instr" where
  "jump_set_destination old_dest new_dest i = (if m_dest i = old_dest then i\<lparr>m_dest := new_dest\<rparr> else i)"

definition cont_set_destination :: "uint32 \<Rightarrow> uint32 \<Rightarrow> sp_instr \<Rightarrow> sp_instr" where
  "cont_set_destination old_dest new_dest i = (if m_cont_dest i = old_dest then i\<lparr>m_cont_dest := new_dest\<rparr> else i)"

text \<open>Only the classes with destinations have this operation.\<close>

definition set_destination :: "uint32 \<Rightarrow> uint32 \<Rightarrow> sp_instr \<Rightarrow> sp_instr option" where
  "set_destination old_dest new_dest i =
     (case iclass i of
        Cjump \<Rightarrow> Some (jump_set_destination old_dest new_dest i)
      | Chpush_jump \<Rightarrow> Some (jump_set_destination old_dest new_dest i)
      | Chreturn \<Rightarrow> Some (jump_set_destination old_dest new_dest i)
      | Cjump_if_not \<Rightarrow> Some (cont_set_destination old_dest new_dest (jump_set_destination old_dest new_dest i))
      | Cset_case_expr \<Rightarrow> Some (cont_set_destination old_dest new_dest i)
      | _ \<Rightarrow> None)"

text \<open>
  Marking, short cuts and moves; for the classes whose functions are compiled the result is given by an argument.
\<close>

definition opt_mark :: "(sp_instr \<Rightarrow> uint32 \<times> sp_instr) \<Rightarrow> sp_instr \<Rightarrow> uint32 \<times> sp_instr" where
  "opt_mark compiled i =
     (case iclass i of
        Cinstr \<Rightarrow> (m_ip i + 1, i\<lparr>marked := 1\<rparr>) | Chpop \<Rightarrow> (m_ip i + 1, i\<lparr>marked := 1\<rparr>) | Ccpop \<Rightarrow> (m_ip i + 1, i\<lparr>marked := 1\<rparr>)
      | Cpreturn \<Rightarrow> (UINT_MAX, i\<lparr>marked := 1\<rparr>) | Cfreturn \<Rightarrow> (UINT_MAX, i\<lparr>marked := 1\<rparr>) | Cerror \<Rightarrow> (UINT_MAX, i\<lparr>marked := 1\<rparr>)
      | _ \<Rightarrow> compiled i)"

definition opt_shortcut_jump :: "(sp_instr \<Rightarrow> uint32) \<Rightarrow> sp_instr \<Rightarrow> uint32" where
  "opt_shortcut_jump compiled i = (case iclass i of Cjump \<Rightarrow> compiled i | _ \<Rightarrow> m_ip i)"

definition opt_move :: "(uint32 \<Rightarrow> sp_instr \<Rightarrow> sp_instr) \<Rightarrow> uint32 \<Rightarrow> sp_instr \<Rightarrow> sp_instr" where
  "opt_move compiled dst i =
     (case iclass i of
        Cinstr \<Rightarrow> i\<lparr>m_ip := dst\<rparr> | Chpop \<Rightarrow> i\<lparr>m_ip := dst\<rparr> | Ccpop \<Rightarrow> i\<lparr>m_ip := dst\<rparr>
      | Cpreturn \<Rightarrow> i\<lparr>m_ip := dst\<rparr> | Cfreturn \<Rightarrow> i\<lparr>m_ip := dst\<rparr> | Cerror \<Rightarrow> i\<lparr>m_ip := dst\<rparr>
      | _ \<Rightarrow> compiled dst i)"

definition preturn_execute :: "uint32 \<times> uint32" where
  "preturn_execute = (UINT_MAX, 0)"

definition update_count :: "uint32 \<Rightarrow> sp_instr \<Rightarrow> sp_instr" where
  "update_count count i = i\<lparr>m_count := count\<rparr>"

definition instructions :: "sp_instr list \<Rightarrow> uint32" where
  "instructions m_instr = of_nat (length m_instr)"

definition get_instr :: "sp_instr list \<Rightarrow> uint32 \<Rightarrow> sp_instr option" where
  "get_instr m_instr i = (if unat i < length m_instr then Some (m_instr ! unat i) else None)"

definition last_instruction :: "sp_instr list \<Rightarrow> sp_instr option" where
  "last_instruction m_instr = (if m_instr = [] then None else Some (m_instr ! (length m_instr - 1)))"

section \<open>Ownership of LEX objects\<close>

text \<open>A dead object is \<^const>\<open>None\<close>; an access to it, and deleting it again, has no result.\<close>

record Lex_obj =
  sp_lex_in_use :: bool
  sphead :: ptr
  lex_result :: ptr
  safe_to_cache_query :: bool

type_synonym lex_store = "ptr \<rightharpoonup> Lex_obj"



record sp_lex_keeper =
  k_lex :: ptr
  k_lex_resp :: bool



definition disable_query_cache :: "sp_lex_keeper \<Rightarrow> lex_store \<Rightarrow> lex_store option" where
  "disable_query_cache k S = do { x \<leftarrow> S (k_lex k); Some (S(k_lex k \<mapsto> x\<lparr>safe_to_cache_query := False\<rparr>)) }"


text \<open>The \<open>LEX\<close> of a cursor.\<close>

definition cursor_validate :: "bool \<Rightarrow> ptr \<Rightarrow> (sp_error option \<times> bool) option" where
  "cursor_validate is_select result_arg =
     do { DBUG_ASSERT is_select; Some (if result_arg \<noteq> NULL then (Some ER_SP_BAD_CURSOR_SELECT, True) else (None, False)) }"

record cursor_lex =
  cl_in_use :: bool
  cl_free_list :: ptr

definition stmt_finalize :: "bool \<Rightarrow> ptr \<Rightarrow> cursor_lex \<times> ptr \<Rightarrow> (bool \<times> cursor_lex \<times> ptr) option" where
  "stmt_finalize is_select result_arg = (\<lambda>(c, thd_free_list).
     do { (e, bad) \<leftarrow> cursor_validate is_select result_arg;
          Some (if bad then (True, c, thd_free_list)
                else (False, c\<lparr>cl_in_use := True, cl_free_list := thd_free_list\<rparr>, NULL)) })"

section \<open>Cursor parameters\<close>

record sp_assignment_lex =
  prm_item :: ptr
  prm_free_list :: ptr

text \<open>
  The state of the generation: the free list of the session, the parameters, and the instructions, each with its variable, item and free list.
\<close>

record param_state =
  thd_free_list :: ptr
  prms :: "ptr \<Rightarrow> sp_assignment_lex"
  set_instrs :: "(ptr \<times> ptr \<times> ptr) list"

definition set_item_and_free_list :: "ptr \<Rightarrow> ptr \<Rightarrow> ptr \<Rightarrow> param_state \<Rightarrow> param_state" where
  "set_item_and_free_list item free_list prm s = s\<lparr>prms := (prms s)(prm := \<lparr>prm_item = item, prm_free_list = free_list\<rparr>)\<rparr>"

definition get_context_variable :: "ptr list \<Rightarrow> nat \<Rightarrow> ptr option" where
  "get_context_variable m_vars i = do { DBUG_ASSERT (i < length m_vars); Some (m_vars ! i) }"

definition get_last_context_variable :: "ptr list \<Rightarrow> nat \<Rightarrow> ptr option" where
  "get_last_context_variable m_vars i = do { DBUG_ASSERT (i < length m_vars); Some (m_vars ! (length m_vars - i - 1)) }"

definition add_set_cursor_param_variable ::
  "(ptr \<Rightarrow> ptr \<Rightarrow> ptr \<Rightarrow> param_state \<Rightarrow> bool \<times> param_state) \<Rightarrow> ptr list \<Rightarrow> nat \<Rightarrow> ptr \<Rightarrow> param_state \<Rightarrow> (bool \<times> param_state) option" where
  "add_set_cursor_param_variable set_local_variable m_vars idx prm s =
     do { DBUG_ASSERT (idx < length m_vars);
          spvar \<leftarrow> get_context_variable m_vars idx;
          DBUG_ASSERT (thd_free_list s = NULL);
          let s1 = s\<lparr>thd_free_list := prm_free_list (prms s prm)\<rparr>;
              (err, s2) = set_local_variable spvar (prm_item (prms s1 prm)) prm s1
          in if err then Some (True, s2) else Some (False, set_item_and_free_list NULL NULL prm s2) }"

text \<open>The iteration over the list of parameters gives its elements in order (\<open>ListIterator\<close>).\<close>

fun cursor_param_loop where
  "cursor_param_loop slv m_vars idx [] s = Some (False, s)"
| "cursor_param_loop slv m_vars idx (prm # ps) s =
     do { (err, s1) \<leftarrow> add_set_cursor_param_variable slv m_vars idx prm s;
          if err then Some (True, s1) else cursor_param_loop slv m_vars (idx + 1) ps s1 }"

definition add_set_cursor_param_variables where
  "add_set_cursor_param_variables slv m_vars parameters s =
     do { DBUG_ASSERT (length m_vars = length parameters); cursor_param_loop slv m_vars 0 parameters s }"

section \<open>Routines of a package\<close>

text \<open>A routine is found by its qualified name and type; \<open>find_qualified\<close> is compiled and returns a null pointer if there is none.\<close>

definition check_dup_qualified :: "('k \<Rightarrow> list_heap \<Rightarrow> ptr) \<Rightarrow> 'k \<Rightarrow> list_heap \<Rightarrow> sp_error option \<times> bool" where
  "check_dup_qualified find_qualified key h = (if find_qualified key h = NULL then (None, False) else (Some ER_SP_ALREADY_EXISTS, True))"

definition add_routine :: "('k \<Rightarrow> list_heap \<Rightarrow> ptr) \<Rightarrow> (ptr \<Rightarrow> 'k) \<Rightarrow> ptr \<Rightarrow> ptr \<Rightarrow> ptr \<Rightarrow> list_heap \<Rightarrow> sp_error option \<times> bool \<times> list_heap" where
  "add_routine find_qualified key_of l node lx h =
     (let (e, dup) = check_dup_qualified find_qualified (key_of lx) h
      in if dup then (e, True, h) else let (err, h1) = push_back h l node lx in (e, err, h1))"

record sp_package =
  m_routine_declarations :: ptr
  m_routine_implementations :: ptr

definition add_routine_declaration where
  "add_routine_declaration find_qualified key_of pkg node lx h = add_routine (find_qualified (m_routine_declarations pkg)) key_of (m_routine_declarations pkg) node lx h"

definition add_routine_implementation where
  "add_routine_implementation find_qualified key_of pkg node lx h = add_routine (find_qualified (m_routine_implementations pkg)) key_of (m_routine_implementations pkg) node lx h"

section \<open>Parse contexts\<close>

record sp_pcontext =
  m_max_var_index :: uint32
  m_max_cursor_index :: uint32
  m_parent :: ptr
  m_var_offset :: uint32
  m_cursor_offset :: uint32
  m_pboundary :: uint32
  m_num_case_exprs :: int
  m_vars :: "ptr list"
  m_case_expr_ids :: "int list"
  m_cursors :: "ptr list"
  m_labels :: ptr
  m_goto_labels :: ptr
  m_children :: "ptr list"

definition child_context :: "nat \<Rightarrow> sp_pcontext \<Rightarrow> ptr" where
  "child_context i c = (if i < length (m_children c) then m_children c ! i else NULL)"

definition current_var_count :: "sp_pcontext \<Rightarrow> uint32" where
  "current_var_count c = m_var_offset c + of_nat (length (m_vars c))"

definition context_var_count :: "sp_pcontext \<Rightarrow> uint32" where
  "context_var_count c = of_nat (length (m_vars c))"

definition declare_var_boundary :: "uint32 \<Rightarrow> sp_pcontext \<Rightarrow> sp_pcontext" where
  "declare_var_boundary n c = c\<lparr>m_pboundary := n\<rparr>"

definition frame_cursor_count :: "sp_pcontext \<Rightarrow> uint32" where
  "frame_cursor_count c = of_nat (length (m_cursors c))"

definition max_cursor_index :: "sp_pcontext \<Rightarrow> uint32" where
  "max_cursor_index c = m_max_cursor_index c + of_nat (length (m_cursors c))"

definition current_cursor_count :: "sp_pcontext \<Rightarrow> uint32" where
  "current_cursor_count c = m_cursor_offset c + of_nat (length (m_cursors c))"

definition get_cursor_by_local_frame_offset :: "nat \<Rightarrow> sp_pcontext \<Rightarrow> ptr option" where
  "get_cursor_by_local_frame_offset offset c = (if offset < length (m_cursors c) then Some (m_cursors c ! offset) else None)"

definition register_case_expr :: "sp_pcontext \<Rightarrow> int \<times> sp_pcontext" where
  "register_case_expr c = (m_num_case_exprs c, c\<lparr>m_num_case_exprs := m_num_case_exprs c + 1\<rparr>)"

text \<open>The outcome of the allocation is an argument; the result is true on failure.\<close>

definition push_case_expr_id :: "bool \<Rightarrow> int \<Rightarrow> sp_pcontext \<Rightarrow> bool \<times> sp_pcontext" where
  "push_case_expr_id alloc_ok case_expr_id c = (if alloc_ok then (False, c\<lparr>m_case_expr_ids := m_case_expr_ids c @ [case_expr_id]\<rparr>) else (True, c))"

definition pop_case_expr_id :: "sp_pcontext \<Rightarrow> sp_pcontext option" where
  "pop_case_expr_id c = (if m_case_expr_ids c = [] then None else Some (c\<lparr>m_case_expr_ids := butlast (m_case_expr_ids c)\<rparr>))"

definition get_current_case_expr_id :: "sp_pcontext \<Rightarrow> int option" where
  "get_current_case_expr_id c = (if m_case_expr_ids c = [] then None else Some (last (m_case_expr_ids c)))"

text \<open>The search for the last label goes on in the enclosing context; contexts are addressed by \<open>C\<close>.\<close>

partial_function (option) last_label :: "list_heap \<Rightarrow> (ptr \<Rightarrow> sp_pcontext) \<Rightarrow> ptr \<Rightarrow> ptr option" where
  "last_label h C c =
     (let label = head h (m_labels (C c))
      in if label = NULL \<and> m_parent (C c) \<noteq> NULL then last_label h C (m_parent (C c)) else Some label)"

definition last_goto_label :: "list_heap \<Rightarrow> sp_pcontext \<Rightarrow> ptr" where
  "last_goto_label h c = head h (m_goto_labels c)"

definition pop_label :: "list_heap \<Rightarrow> sp_pcontext \<Rightarrow> ptr \<times> list_heap" where
  "pop_label h c = pop h (m_labels c)"

definition block_label_declare :: "ptr \<Rightarrow> sp_error option \<times> bool" where
  "block_label_declare found = (if found \<noteq> NULL then (Some ER_SP_LABEL_REDEFINE, True) else (None, False))"

definition declare_condition :: "('n \<Rightarrow> 's \<Rightarrow> ptr) \<Rightarrow> ('n \<Rightarrow> ptr \<Rightarrow> 's \<Rightarrow> bool \<times> 's) \<Rightarrow> 'n \<Rightarrow> ptr \<Rightarrow> 's \<Rightarrow> sp_error option \<times> bool \<times> 's" where
  "declare_condition find_condition add_condition name val s =
     (if find_condition name s \<noteq> NULL then (Some ER_SP_DUP_COND, True, s) else (None, add_condition name val s))"

definition find_cursor_with_error :: "ptr \<Rightarrow> sp_error option \<times> ptr" where
  "find_cursor_with_error found = (if found = NULL then (Some ER_SP_CURSOR_MISMATCH, NULL) else (None, found))"

section \<open>Attributes\<close>

lemma sp_flag_bits:
  "f AND MULTI_RESULTS \<noteq> 0 \<longleftrightarrow> bit f 3" "f AND CONTAINS_DYNAMIC_SQL \<noteq> 0 \<longleftrightarrow> bit f 4" "f AND HAS_SET_AUTOCOMMIT_STMT \<noteq> 0 \<longleftrightarrow> bit f 6"
  "f AND HAS_COMMIT_OR_ROLLBACK \<noteq> 0 \<longleftrightarrow> bit f 7" "f AND HAS_SQLCOM_RESET \<noteq> 0 \<longleftrightarrow> bit f 10" "f AND HAS_SQLCOM_FLUSH \<noteq> 0 \<longleftrightarrow> bit f 11"
  by (simp_all add: bit_iff_and_push_bit_not_eq_0 sp_flag_defs)

lemma and_or_nonzero: "(f :: uint32) AND (a OR b) \<noteq> 0 \<longleftrightarrow> f AND a \<noteq> 0 \<or> f AND b \<noteq> 0"
  by (simp add: bit.conj_disj_distrib or_eq_0_iff)

text \<open>
  Statements that a function or trigger may not contain: the routine is refused exactly if one of the six flags is set, and then, and only
  then, an error is reported; dynamic SQL is reported before result sets, these before all others.
\<close>

theorem function_restrictions:
  "(snd (is_not_allowed_in_function w f) \<longleftrightarrow> bit f 3 \<or> bit f 4 \<or> bit f 6 \<or> bit f 7 \<or> bit f 10 \<or> bit f 11) \<and>
   (snd (is_not_allowed_in_function w f) \<longleftrightarrow> fst (is_not_allowed_in_function w f) \<noteq> None) \<and>
   (fst (is_not_allowed_in_function w f) = Some (ER_STMT_NOT_ALLOWED_IN_SF_OR_TRG ''Dynamic SQL'') \<longleftrightarrow> bit f 4) \<and>
   (fst (is_not_allowed_in_function w f) = Some (ER_SP_NO_RETSET w) \<longleftrightarrow> bit f 3 \<and> \<not> bit f 4)"
  by (auto simp: is_not_allowed_in_function_def and_or_nonzero sp_flag_bits)

lemma propagate_bits:
  assumes "flags AND NOT BINLOG_STMT_UNSAFE_ALL_FLAGS = 0"
  shows "propagate_attributes flags f = Some (f OR flags)"
  using assms by (simp add: propagate_attributes_def set_stmt_unsafe_flags_def)

interpretation taint: progress_simulation propagate_attributes "\<lambda>r f. f OR r" "\<lambda>r f. r AND NOT BINLOG_STMT_UNSAFE_ALL_FLAGS = 0" "(=)"
  by unfold_locales (simp add: propagate_bits)

lemma bit_fold_or: "bit (fold (\<lambda>r f. f OR r) rs (f :: uint32)) k \<longleftrightarrow> bit f k \<or> (\<exists>r\<in>set rs. bit r k)"
  by (induction rs arbitrary: f) (auto simp: bit_or_iff)

text \<open>
  A statement that calls routines is unsafe for exactly the reasons for which it was unsafe before or one of the routines is.
\<close>

theorem routines_taint_statement:
  assumes "\<forall>r\<in>set rs. r AND NOT BINLOG_STMT_UNSAFE_ALL_FLAGS = 0"
  shows "\<exists>f'. run_opt propagate_attributes rs f = Some f' \<and>
    (\<forall>u. is_stmt_unsafe_type u f' = (is_stmt_unsafe_type u f \<or> (\<exists>r\<in>set rs. is_stmt_unsafe_type u r))) \<and>
    is_stmt_row_injection f' = is_stmt_row_injection f"
proof -
  have inj: "\<not> bit r 20" if "r \<in> set rs" for r
  proof -
    have "bit (r AND NOT BINLOG_STMT_UNSAFE_ALL_FLAGS) 20 \<longleftrightarrow> False" using assms that by simp
    then show ?thesis by (simp add: bit_and_iff bit_not_iff all_flags_bit)
  qed
  have "run_opt propagate_attributes rs f = Some (fold (\<lambda>r f. f OR r) rs f)"
    using taint.run [of f f rs] assms by (auto intro: allowed_all)
  then show ?thesis using inj by (auto simp: unsafe_flag_bits bit_fold_or)
qed

section \<open>Destinations\<close>

text \<open>
  Resolution of jumps: a jump takes exactly one destination, and the handler instruction exactly two, the start and the end of the handler; one more
  is a failing assertion.  Other instructions ignore the calls.
\<close>

theorem destinations_resolved_once:
  assumes "0 \<notin> set ds" "m_dest i = 0" "m_opt_hpop i = 0"
  shows "run_opt backpatch ds i =
    (if iclass i \<in> {Cjump, Cjump_if_not, Chreturn} then (case ds of [] \<Rightarrow> Some i | [d] \<Rightarrow> Some (i\<lparr>m_dest := d\<rparr>) | _ \<Rightarrow> None)
     else if iclass i = Chpush_jump
     then (case ds of [] \<Rightarrow> Some i | [d] \<Rightarrow> Some (i\<lparr>m_dest := d\<rparr>) | [d, e] \<Rightarrow> Some (i\<lparr>m_dest := d, m_opt_hpop := e\<rparr>) | _ \<Rightarrow> None)
     else Some i)"
proof -
  have other: "run_opt backpatch ds i = Some i" if "iclass i \<notin> {Cjump, Cjump_if_not, Chreturn, Chpush_jump}" for ds
    using that by (induction ds) (auto simp: backpatch_def split: instr_class.splits)
  show ?thesis
    using assms other [of ds]
    by (cases "iclass i"; cases ds; cases "tl ds"; cases "tl (tl ds)")
       (auto simp: backpatch_def jump_backpatch_def hpush_backpatch_def)
qed

definition moved :: "(uint32 \<times> uint32) list \<Rightarrow> uint32 \<Rightarrow> uint32" where
  "moved moves d = (case map_of moves d of Some d' \<Rightarrow> d' | None \<Rightarrow> d)"

definition rename1 :: "uint32 \<times> uint32 \<Rightarrow> uint32 \<Rightarrow> uint32" where
  "rename1 m d = (if d = fst m then snd m else d)"

lemma renames_stop: "\<forall>m\<in>set moves. d < fst m \<Longrightarrow> fold rename1 moves d = d"
  by (induction moves) (auto simp: rename1_def)

lemma renames_moved:
  "sorted_wrt (\<lambda>a b. fst a < fst b) moves \<Longrightarrow> \<forall>m\<in>set moves. snd m \<le> fst m \<Longrightarrow> fold rename1 moves d = moved moves d"
proof (induction moves arbitrary: d)
  case (Cons m ms)
  show ?case
  proof (cases "d = fst m")
    case True
    then have "\<forall>q\<in>set ms. snd m < fst q" using Cons.prems by (auto intro: le_less_trans)
    then have "fold rename1 ms (snd m) = snd m" by (rule renames_stop)
    moreover have "rename1 m d = snd m" using True by (simp add: rename1_def)
    ultimately show ?thesis using True by (cases m) (simp add: moved_def)
  next
    case False
    moreover have "rename1 m d = d" using False by (simp add: rename1_def)
    ultimately show ?thesis using Cons by (cases m) (simp add: moved_def)
  qed
qed (simp add: moved_def)

definition has_dest :: "instr_class \<Rightarrow> bool" where
  "has_dest c \<longleftrightarrow> c \<in> {Cjump, Cjump_if_not, Chpush_jump, Chreturn}"

definition has_cont_dest :: "instr_class \<Rightarrow> bool" where
  "has_cont_dest c \<longleftrightarrow> c \<in> {Cjump_if_not, Cset_case_expr}"

lemma set_destination_rename:
  assumes "has_dest (iclass i) \<or> has_cont_dest (iclass i)"
  shows "\<exists>i'. set_destination (fst m) (snd m) i = Some i' \<and> iclass i' = iclass i \<and> m_ip i' = m_ip i \<and>
    m_dest i' = (if has_dest (iclass i) then rename1 m (m_dest i) else m_dest i) \<and>
    m_cont_dest i' = (if has_cont_dest (iclass i) then rename1 m (m_cont_dest i) else m_cont_dest i)"
  using assms by (cases "iclass i") (auto simp: set_destination_def jump_set_destination_def cont_set_destination_def rename1_def
      has_dest_def has_cont_dest_def)

text \<open>
  When the optimiser moves instructions towards the start, in the order of their indices, the destinations follow: after telling an instruction
  every move, each of its destinations is the new place of the instruction it named; a place that becomes occupied by an earlier move is not
  taken for the old one.
\<close>

theorem destinations_follow_moves:
  assumes "sorted_wrt (\<lambda>a b. fst a < fst b) moves" "\<forall>m\<in>set moves. snd m \<le> fst m" "has_dest (iclass i) \<or> has_cont_dest (iclass i)"
  shows "\<exists>i'. run_opt (\<lambda>m. set_destination (fst m) (snd m)) moves i = Some i' \<and> iclass i' = iclass i \<and> m_ip i' = m_ip i \<and>
    m_dest i' = (if has_dest (iclass i) then moved moves (m_dest i) else m_dest i) \<and>
    m_cont_dest i' = (if has_cont_dest (iclass i) then moved moves (m_cont_dest i) else m_cont_dest i)"
proof -
  have "has_dest (iclass i) \<or> has_cont_dest (iclass i) \<Longrightarrow>
      \<exists>i'. run_opt (\<lambda>m. set_destination (fst m) (snd m)) ms i = Some i' \<and> iclass i' = iclass i \<and> m_ip i' = m_ip i \<and>
      m_dest i' = (if has_dest (iclass i) then fold rename1 ms (m_dest i) else m_dest i) \<and>
      m_cont_dest i' = (if has_cont_dest (iclass i) then fold rename1 ms (m_cont_dest i) else m_cont_dest i)" for ms i
  proof (induction ms arbitrary: i)
    case (Cons m ms)
    from set_destination_rename [OF Cons.prems, of m] obtain j where j: "set_destination (fst m) (snd m) i = Some j" "iclass j = iclass i"
      "m_ip j = m_ip i" "m_dest j = (if has_dest (iclass i) then rename1 m (m_dest i) else m_dest i)"
      "m_cont_dest j = (if has_cont_dest (iclass i) then rename1 m (m_cont_dest i) else m_cont_dest i)" by blast
    then show ?case using Cons.IH [of j] Cons.prems by (auto split: if_splits)
  qed simp
  from this [OF assms(3), of moves] show ?thesis by (simp only: renames_moved [OF assms(1,2)])
qed

section \<open>Labels of nested blocks\<close>

fun ctx_chain :: "(ptr \<Rightarrow> sp_pcontext) \<Rightarrow> ptr list \<Rightarrow> bool" where
  "ctx_chain C [] \<longleftrightarrow> False"
| "ctx_chain C [c] \<longleftrightarrow> m_parent (C c) = NULL"
| "ctx_chain C (c # d # cs) \<longleftrightarrow> m_parent (C c) = d \<and> d \<noteq> NULL \<and> ctx_chain C (d # cs)"

definition labels_ok :: "list_heap \<Rightarrow> (ptr \<Rightarrow> sp_pcontext) \<Rightarrow> ptr list \<Rightarrow> (ptr \<Rightarrow> ptr list) \<Rightarrow> bool" where
  "labels_ok h C cs ns \<longleftrightarrow> ctx_chain C cs \<and> distinct (map (m_labels \<circ> C) cs) \<and> ln_info (nodes h end_of_list) = NULL \<and>
     (\<forall>c\<in>set cs. is_list h (m_labels (C c)) (ns c) \<and> NULL \<notin> set (infos h (ns c)))"

definition visible_labels :: "list_heap \<Rightarrow> ptr list \<Rightarrow> (ptr \<Rightarrow> ptr list) \<Rightarrow> ptr list" where
  "visible_labels h cs ns = concat (map (\<lambda>c. infos h (ns c)) cs)"

lemma head_is_list: "is_list h l ms \<Longrightarrow> ln_info (nodes h end_of_list) = NULL \<Longrightarrow> head h l = hd (infos h ms @ [NULL])"
  by (cases ms) (auto simp: is_list_def seg_def head_def)

lemma last_label_chain:
  assumes "ctx_chain C cs" "ln_info (nodes h end_of_list) = NULL"
    and "\<forall>c\<in>set cs. is_list h (m_labels (C c)) (ns c) \<and> NULL \<notin> set (infos h (ns c))"
  shows "last_label h C (hd cs) = Some (hd (visible_labels h cs ns @ [NULL]))"
  using assms
proof (induction C cs rule: ctx_chain.induct)
  case (2 C c)
  then have "head h (m_labels (C c)) = hd (infos h (ns c) @ [NULL])" by (intro head_is_list) auto
  then show ?case using 2 by (subst last_label.simps) (simp add: visible_labels_def)
next
  case (3 C c d cs)
  have hd: "head h (m_labels (C c)) = hd (infos h (ns c) @ [NULL])" using 3(3,4) by (intro head_is_list) auto
  show ?case
  proof (cases "infos h (ns c)")
    case Nil
    have "last_label h C d = Some (hd (visible_labels h (d # cs) ns @ [NULL]))" using 3 by simp
    then show ?thesis using 3(2) hd Nil by (subst last_label.simps) (simp add: visible_labels_def)
  next
    case (Cons x xs)
    then have "x \<noteq> NULL" using 3(4) by auto
    then show ?thesis using hd Cons by (subst last_label.simps) (simp add: visible_labels_def)
  qed
qed simp

lemma pop_other:
  "l' \<noteq> l \<Longrightarrow> is_list (snd (pop h l)) l' ms = is_list h l' ms" "nodes (snd (pop h l)) = nodes h"
  "infos (snd (pop h l)) xs = infos h xs"
  by (simp_all add: infos_def pop_def Let_def is_list_def seg_def set_elements_def set_last_def)

text \<open>
  Labels of nested blocks: the last label is the latest label of the innermost block that has one, and the search ends; taking it away
  makes the one before it the last.
\<close>

theorem labels_are_a_stack:
  assumes "labels_ok h C (c # cs) ns" "ns c = n # ms"
  shows "let r = pop_label h (C c); ns' = ns(c := ms)
    in last_label h C c = Some (fst r) \<and> labels_ok (snd r) C (c # cs) ns' \<and>
       visible_labels h (c # cs) ns = fst r # visible_labels (snd r) (c # cs) ns' \<and>
       last_label (snd r) C c = Some (hd (visible_labels (snd r) (c # cs) ns' @ [NULL]))"
proof -
  have lst: "is_list h (m_labels (C c)) (n # ms)" using assms by (auto simp: labels_ok_def)
  let ?h = "snd (pop_label h (C c))" and ?ns = "ns(c := ms)"
  have dist: "c \<notin> set cs" using assms(1) by (auto simp: labels_ok_def)
  have ok: "labels_ok ?h C (c # cs) ?ns"
    using assms pop_is_list(2) [OF lst] dist
    by (auto simp: labels_ok_def pop_label_def pop_other image_iff)
  have last: "last_label h' C c = Some (hd (visible_labels h' (c # cs) ns' @ [NULL]))" if "labels_ok h' C (c # cs) ns'" for h' ns'
    using last_label_chain [of C "c # cs" h' ns'] that by (simp add: labels_ok_def)
  have "fst (pop_label h (C c)) = ln_info (nodes h n)" using pop_is_list(1) [OF lst] by (simp add: pop_label_def)
  moreover have "visible_labels h (c # cs) ns = ln_info (nodes h n) # visible_labels ?h (c # cs) ?ns"
    using assms(2) dist by (auto simp: visible_labels_def pop_label_def pop_other intro!: arg_cong [where f = concat])
  ultimately show ?thesis using last [OF assms(1)] last [OF ok] ok by (simp add: Let_def)
qed

section \<open>Names in a package\<close>

text \<open>
  The declarations of a package: a routine whose qualified name and type are new is added at the end; one that exists already is refused with an error
  and changes nothing.  In both cases the names stay different.
\<close>

theorem package_declarations:
  assumes "is_list h (m_routine_declarations pkg) ns" "ok_nodes (ns @ [node])" "distinct (map key_of (infos h ns))"
    and "find_qualified (m_routine_declarations pkg) (key_of lx) h \<noteq> NULL \<longleftrightarrow> key_of lx \<in> key_of ` set (infos h ns)"
  shows "let (e, err, h') = add_routine_declaration find_qualified key_of pkg node lx h
    in if key_of lx \<in> key_of ` set (infos h ns) then e = Some ER_SP_ALREADY_EXISTS \<and> err \<and> h' = h
       else e = None \<and> \<not> err \<and> is_list h' (m_routine_declarations pkg) (ns @ [node]) \<and> infos h' (ns @ [node]) = infos h ns @ [lx] \<and>
            distinct (map key_of (infos h' (ns @ [node])))"
  using assms(3,4) push_back_is_list [OF assms(1,2), of lx]
  by (auto simp: add_routine_declaration_def add_routine_def check_dup_qualified_def Let_def split: prod.split)

section \<open>Items of cursor parameters\<close>

text \<open>
  What \<open>set_local_variable\<close> does: on success it adds one instruction that owns the item and takes over the free list of the session; on failure it
  adds none.
\<close>

definition slv_contract :: "(ptr \<Rightarrow> ptr \<Rightarrow> ptr \<Rightarrow> param_state \<Rightarrow> bool \<times> param_state) \<Rightarrow> bool" where
  "slv_contract slv \<longleftrightarrow> (\<forall>v it p s. case slv v it p s of (e, s') \<Rightarrow> prms s' = prms s \<and>
     (if e then set_instrs s' = set_instrs s else set_instrs s' = set_instrs s @ [(v, it, thd_free_list s)] \<and> thd_free_list s' = NULL))"

lemma slv_contractD:
  assumes "slv_contract slv" "slv v it p s = (e, s')"
  shows "prms s' = prms s" "if e then set_instrs s' = set_instrs s else set_instrs s' = set_instrs s @ [(v, it, thd_free_list s)] \<and> thd_free_list s' = NULL"
  using assms(1) [unfolded slv_contract_def, THEN spec [of _ v], THEN spec [of _ it], THEN spec [of _ p], THEN spec [of _ s]] assms(2) by simp_all

definition param_instrs :: "param_state \<Rightarrow> ptr list \<Rightarrow> ptr list \<Rightarrow> (ptr \<times> ptr \<times> ptr) list" where
  "param_instrs s vs ps = map2 (\<lambda>v p. (v, prm_item (prms s p), prm_free_list (prms s p))) vs ps"

definition moved_params :: "param_state \<Rightarrow> param_state \<Rightarrow> ptr list \<Rightarrow> ptr list \<Rightarrow> bool" where
  "moved_params s s' vs ps \<longleftrightarrow> set_instrs s' = set_instrs s @ param_instrs s vs ps \<and>
     (\<forall>p. prms s' p = (if p \<in> set ps then \<lparr>prm_item = NULL, prm_free_list = NULL\<rparr> else prms s p))"

lemma add_param_step:
  assumes "slv_contract slv" "idx < length vs" "thd_free_list s = NULL"
  obtains err s' where "add_set_cursor_param_variable slv vs idx p s = Some (err, s')"
    and "if err then set_instrs s' = set_instrs s \<and> prms s' = prms s else moved_params s s' [vs ! idx] [p] \<and> thd_free_list s' = NULL"
proof -
  let ?s1 = "s\<lparr>thd_free_list := prm_free_list (prms s p)\<rparr>"
  obtain e s2 where r: "slv (vs ! idx) (prm_item (prms s p)) p ?s1 = (e, s2)" by (metis prod.exhaust)
  then have "prms s2 = prms s" "if e then set_instrs s2 = set_instrs s
      else set_instrs s2 = set_instrs s @ [(vs ! idx, prm_item (prms s p), prm_free_list (prms s p))] \<and> thd_free_list s2 = NULL"
    using slv_contractD [OF assms(1) r] by simp_all
  then show ?thesis
    using assms(2,3) r that [of e "if e then s2 else set_item_and_free_list NULL NULL p s2"]
    by (auto simp: add_set_cursor_param_variable_def get_context_variable_def Let_def set_item_and_free_list_def moved_params_def param_instrs_def)
qed


lemma cursor_param_loop_moves:
  assumes "slv_contract slv" "idx + length ps = length vs" "distinct ps" "thd_free_list s = NULL"
  shows "\<exists>err s' k. cursor_param_loop slv vs idx ps s = Some (err, s') \<and> k \<le> length ps \<and> (err \<longleftrightarrow> k < length ps) \<and>
    moved_params s s' (take k (drop idx vs)) (take k ps)"
  using assms(2-)
proof (induction ps arbitrary: idx s)
  case Nil
  then show ?case by (auto simp: moved_params_def param_instrs_def)
next
  case (Cons p ps)
  obtain err s1 where r: "add_set_cursor_param_variable slv vs idx p s = Some (err, s1)"
    and s1: "if err then set_instrs s1 = set_instrs s \<and> prms s1 = prms s else moved_params s s1 [vs ! idx] [p] \<and> thd_free_list s1 = NULL"
    using add_param_step [OF assms(1), of idx vs s p] Cons.prems by auto
  show ?case
  proof (cases err)
    case True
    then have "moved_params s s1 (take 0 (drop idx vs)) (take 0 (p # ps))" using s1 by (simp add: moved_params_def param_instrs_def)
    then show ?thesis using True r by (intro exI [of _ True] exI [of _ s1] exI [of _ 0]) simp
  next
    case False
    then have m1: "moved_params s s1 [vs ! idx] [p]" "thd_free_list s1 = NULL" using s1 by simp_all
    obtain e s' k where IH: "cursor_param_loop slv vs (idx + 1) ps s1 = Some (e, s')" "k \<le> length ps" "e \<longleftrightarrow> k < length ps"
      "moved_params s1 s' (take k (drop (idx + 1) vs)) (take k ps)"
      using Cons.IH [of "idx + 1" s1] Cons.prems m1(2) by auto
    have same: "prms s1 q = prms s q" if "q \<in> set ps" for q using m1(1) Cons.prems(2) that by (auto simp: moved_params_def)
    have "param_instrs s1 (take k (drop (idx + 1) vs)) (take k ps) = param_instrs s (take k (drop (idx + 1) vs)) (take k ps)"
      unfolding param_instrs_def by (rule map_cong [OF refl]) (auto dest!: set_zip_rightD in_set_takeD simp: same)
    moreover have "drop idx vs = vs ! idx # drop (idx + 1) vs" using Cons.prems(1) by (simp add: Cons_nth_drop_Suc)
    ultimately have "moved_params s s' (take (Suc k) (drop idx vs)) (take (Suc k) (p # ps))"
      using m1(1) IH(4) by (auto simp: moved_params_def param_instrs_def)
    then show ?thesis using False r IH by (intro exI [of _ e] exI [of _ s'] exI [of _ "Suc k"]) simp
  qed
qed

text \<open>
  Items of the parameters of a cursor: the instructions are generated in the order of the parameters until one fails, and a parameter hands over its
  item and free list exactly if its instruction exists; no item is owned by two of them.
\<close>

theorem cursor_parameters_owned_once:
  assumes "slv_contract slv" "length vs = length ps" "distinct ps" "thd_free_list s = NULL"
  shows "\<exists>err s' k. add_set_cursor_param_variables slv vs ps s = Some (err, s') \<and> k \<le> length ps \<and> (err \<longleftrightarrow> k < length ps) \<and>
    moved_params s s' (take k vs) (take k ps)"
  using cursor_param_loop_moves [OF assms(1), of 0 ps vs s] assms by (simp add: add_set_cursor_param_variables_def)

section \<open>A LEX is deleted once\<close>




section \<open>Concrete cases\<close>

theorem routines_taint_statement_witness:
  "\<exists>f'. run_opt propagate_attributes [1, 2] 4 = Some f' \<and> is_stmt_unsafe_type BINLOG_STMT_UNSAFE_INSERT_DELAYED f' \<and>
     is_stmt_unsafe_type BINLOG_STMT_UNSAFE_SYSTEM_TABLE f' \<and> \<not> is_stmt_unsafe_type BINLOG_STMT_UNSAFE_UDF f'"
proof -
  have "\<forall>r\<in>set [1, 2 :: uint32]. r AND NOT BINLOG_STMT_UNSAFE_ALL_FLAGS = 0"
    by (simp add: BINLOG_STMT_UNSAFE_ALL_FLAGS_def BINLOG_STMT_UNSAFE_COUNT_def push_bit_of_1)
  from routines_taint_statement [OF this, of 4] obtain f' where f': "run_opt propagate_attributes [1, 2] 4 = Some f'"
    "is_stmt_unsafe_type u f' \<longleftrightarrow> is_stmt_unsafe_type u 4 \<or> (\<exists>r\<in>set [1, 2]. is_stmt_unsafe_type u r)" for u by metis
  have "is_stmt_unsafe_type BINLOG_STMT_UNSAFE_INSERT_DELAYED 2" "is_stmt_unsafe_type BINLOG_STMT_UNSAFE_SYSTEM_TABLE 4"
    "\<not> is_stmt_unsafe_type BINLOG_STMT_UNSAFE_UDF 1" "\<not> is_stmt_unsafe_type BINLOG_STMT_UNSAFE_UDF 2" "\<not> is_stmt_unsafe_type BINLOG_STMT_UNSAFE_UDF 4"
    by (simp_all add: is_stmt_unsafe_type_def)
  then show ?thesis using f'(2) by (intro exI [of _ f'] conjI f'(1)) simp_all
qed

theorem destinations_resolved_once_witness:
  "run_opt backpatch [7] (new_instr Cjump 3) = Some ((new_instr Cjump 3)\<lparr>m_dest := 7\<rparr>) \<and> run_opt backpatch [7, 8] (new_instr Cjump 3) = None"
proof
  show "run_opt backpatch [7] (new_instr Cjump 3) = Some ((new_instr Cjump 3)\<lparr>m_dest := 7\<rparr>)"
    by (subst destinations_resolved_once) (simp_all add: new_instr_def)
  show "run_opt backpatch [7, 8] (new_instr Cjump 3) = None"
    by (subst destinations_resolved_once) (simp_all add: new_instr_def)
qed

theorem destinations_follow_moves_witness:
  "\<exists>i'. run_opt (\<lambda>m. set_destination (fst m) (snd m)) [(5, 4), (7, 5)] ((new_instr Cjump 3)\<lparr>m_dest := 7\<rparr>) = Some i' \<and> m_dest i' = 5"
proof -
  let ?i = "(new_instr Cjump 3)\<lparr>m_dest := 7\<rparr>" and ?m = "[(5, 4), (7, 5 :: uint32)] :: (uint32 \<times> uint32) list"
  have c: "iclass ?i = Cjump" "m_dest ?i = 7" by (simp_all add: new_instr_def)
  have "moved ?m 7 = 5" by (simp add: moved_def)
  then show ?thesis using destinations_follow_moves [of ?m ?i] c by (auto simp: has_dest_def)
qed

definition sample_context :: sp_pcontext where
  "sample_context = \<lparr>m_max_var_index = 0, m_max_cursor_index = 0, m_parent = NULL, m_var_offset = 0, m_cursor_offset = 0, m_pboundary = 0,
     m_num_case_exprs = 0, m_vars = [], m_case_expr_ids = [], m_cursors = [], m_labels = 0, m_goto_labels = 9, m_children = []\<rparr>"

definition sample_contexts :: "ptr \<Rightarrow> sp_pcontext" where
  "sample_contexts c = (if c = 1 then sample_context else sample_context\<lparr>m_parent := 1, m_labels := 1\<rparr>)"

theorem labels_are_a_stack_witness:
  "fst (pop_label sample_heap (sample_contexts 6)) = 40 \<and> last_label sample_heap sample_contexts 6 = Some 40 \<and>
   last_label (snd (pop_label sample_heap (sample_contexts 6))) sample_contexts 6 = Some 20"
proof -
  let ?ns = "\<lambda>c. if c = 1 then [2, 3] else [4 :: ptr]"
  have "labels_ok sample_heap sample_contexts [6, 1] ?ns"
    using sample_heap_lists by (auto simp: labels_ok_def sample_contexts_def sample_context_def)
       (simp_all add: sample_heap_def end_node_def end_of_list_def)
  from labels_are_a_stack [OF this, of 4 "[]"] show ?thesis
    by (auto simp: Let_def visible_labels_def pop_label_def pop_other sample_heap_def)
qed

theorem package_declarations_witness:
  "fst (add_routine_declaration (\<lambda>(l :: ptr) (k :: nat) (h :: list_heap). if k = 20 \<or> k = 30 then 1 else 0) (\<lambda>x. x) \<lparr>m_routine_declarations = 0, m_routine_implementations = 1\<rparr> 6 30 sample_heap)
     = Some ER_SP_ALREADY_EXISTS"
proof -
  let ?p = "\<lparr>m_routine_declarations = 0, m_routine_implementations = 1\<rparr>" and ?f = "\<lambda>(l :: ptr) (k :: nat) (h :: list_heap). if k = 20 \<or> k = 30 then 1 else (0 :: ptr)"
  have a: "is_list sample_heap (m_routine_declarations ?p) [2, 3]" "ok_nodes ([2, 3] @ [6])"
    using sample_heap_lists by (simp_all add: end_of_list_def)
  have i: "ln_info (nodes sample_heap 2) = 20" "ln_info (nodes sample_heap 3) = 30" by (simp_all add: sample_heap_def)
  have "let (e, err, h') = add_routine_declaration ?f (\<lambda>x. x) ?p 6 30 sample_heap in e = Some ER_SP_ALREADY_EXISTS \<and> err \<and> h' = sample_heap"
    using package_declarations [OF a, of "\<lambda>x. x" ?f 30] by (simp add: i Let_def)
  then show ?thesis by (auto simp: Let_def split: prod.splits)
qed

definition sample_slv :: "ptr \<Rightarrow> ptr \<Rightarrow> ptr \<Rightarrow> param_state \<Rightarrow> bool \<times> param_state" where
  "sample_slv v it p s = (if v = 9 then (True, s) else (False, s\<lparr>set_instrs := set_instrs s @ [(v, it, thd_free_list s)], thd_free_list := NULL\<rparr>))"

theorem cursor_parameters_owned_once_witness:
  "\<exists>err s' k. add_set_cursor_param_variables sample_slv [1, 9] [10, 11] \<lparr>thd_free_list = NULL, prms = (\<lambda>p. \<lparr>prm_item = p + 100, prm_free_list = p + 200\<rparr>), set_instrs = []\<rparr>
       = Some (err, s') \<and> k \<le> 2 \<and> (err \<longleftrightarrow> k < 2) \<and>
     moved_params \<lparr>thd_free_list = NULL, prms = (\<lambda>p. \<lparr>prm_item = p + 100, prm_free_list = p + 200\<rparr>), set_instrs = []\<rparr> s' (take k [1, 9]) (take k [10, 11])"
proof -
  let ?s = "\<lparr>thd_free_list = NULL, prms = (\<lambda>p. \<lparr>prm_item = p + 100, prm_free_list = p + 200\<rparr>), set_instrs = []\<rparr> :: param_state"
  have "slv_contract sample_slv" by (simp add: slv_contract_def sample_slv_def)
  from cursor_parameters_owned_once [OF this, of "[1, 9]" "[10, 11]" ?s] show ?thesis by (simp add: numeral_2_eq_2)
qed



end
