(* ===== verification/Gcalc.thy ===== *)
theory Gcalc
  imports NodeHeap Runs
begin

text \<open>
  The geometric calculations behind spatial predicates (\<^verbatim>\<open>gcalc_slicescan.h\<close>, \<^verbatim>\<open>gcalc_tools.h\<close>): the pool of list items, the protocol in which a
  spatial object hands over its shapes, the iteration over a slice, and the inside and border states of shapes.  The slice scan itself
  is compiled code.
\<close>

section \<open>The pool of items\<close>

text \<open>An item is an address with the successor it holds; \<open>alloc_new_blk\<close>, which returns an item of a new block, is compiled.\<close>

record Gcalc_dyn_list =
  dl_items :: "ptr node_heap"
  m_free :: ptr

definition new_item :: "(Gcalc_dyn_list \<Rightarrow> ptr \<times> Gcalc_dyn_list) \<Rightarrow> Gcalc_dyn_list \<Rightarrow> (ptr \<times> Gcalc_dyn_list) option" where
  "new_item alloc_new_blk d =
     (if m_free d \<noteq> 0 then do { n \<leftarrow> read_node (dl_items d) (m_free d); Some (m_free d, d\<lparr>m_free := n\<rparr>) }
      else Some (alloc_new_blk d))"

definition free_item :: "ptr \<Rightarrow> Gcalc_dyn_list \<Rightarrow> Gcalc_dyn_list option" where
  "free_item item d = do { h \<leftarrow> write_node (dl_items d) item (\<lambda>_. m_free d); Some (d\<lparr>dl_items := h, m_free := item\<rparr>) }"

text \<open>A hook is the address of the variable with the start of the list, or of the successor of an item.\<close>

datatype hook = List_var | Next_of ptr

definition free_list_hook :: "ptr \<Rightarrow> hook \<Rightarrow> Gcalc_dyn_list \<Rightarrow> Gcalc_dyn_list option" where
  "free_list_hook list hook d =
     (case hook of
        List_var \<Rightarrow> (let list1 = m_free d in Some (d\<lparr>m_free := list1\<rparr>))
      | Next_of p \<Rightarrow> do { h \<leftarrow> write_node (dl_items d) p (\<lambda>_. m_free d); Some (d\<lparr>dl_items := h, m_free := list\<rparr>) })"

definition hook_value :: "ptr \<Rightarrow> hook \<Rightarrow> Gcalc_dyn_list \<Rightarrow> ptr option" where
  "hook_value list hook d = (case hook of List_var \<Rightarrow> Some list | Next_of p \<Rightarrow> read_node (dl_items d) p)"

partial_function (option) hook_loop :: "ptr \<Rightarrow> hook \<Rightarrow> Gcalc_dyn_list \<Rightarrow> hook option" where
  "hook_loop list hook d = do { v \<leftarrow> hook_value list hook d; if v \<noteq> 0 then hook_loop list (Next_of v) d else Some hook }"

definition free_list :: "ptr \<Rightarrow> Gcalc_dyn_list \<Rightarrow> Gcalc_dyn_list option" where
  "free_list list d = do { hook \<leftarrow> hook_loop list List_var d; free_list_hook list hook d }"

definition ptr_add :: "nat \<Rightarrow> ptr \<Rightarrow> nat \<Rightarrow> ptr" where
  "ptr_add m_sizeof_item p n_items = p + n_items * m_sizeof_item"

definition new_slice_point :: "(Gcalc_dyn_list \<Rightarrow> ptr \<times> Gcalc_dyn_list) \<Rightarrow> Gcalc_dyn_list \<Rightarrow> (ptr \<times> Gcalc_dyn_list) option" where
  "new_slice_point alloc_new_blk d = new_item alloc_new_blk d"

record intersection_info =
  edge_a :: ptr
  edge_b :: ptr
  t_calculated :: int
  x_calculated :: int
  y_calculated :: int

text \<open>The new item is written without a test whether there is one.\<close>

definition new_intersection_info ::
  "(Gcalc_dyn_list \<Rightarrow> ptr \<times> Gcalc_dyn_list) \<Rightarrow> ptr \<Rightarrow> ptr \<Rightarrow> Gcalc_dyn_list \<times> (ptr \<rightharpoonup> intersection_info) \<Rightarrow>
   (ptr \<times> Gcalc_dyn_list \<times> (ptr \<rightharpoonup> intersection_info)) option" where
  "new_intersection_info alloc_new_blk a b = (\<lambda>(d, infos).
     do { (ii, d1) \<leftarrow> new_item alloc_new_blk d;
          if ii = 0 then None
          else Some (ii, d1, infos(ii \<mapsto> \<lparr>edge_a = a, edge_b = b, t_calculated = 0, x_calculated = 0, y_calculated = 0\<rparr>)) })"

section \<open>Handing over shapes\<close>

record 'h Gcalc_shape_transporter =
  t_first :: ptr
  t_prev :: ptr
  m_shape_started :: int
  t_heap :: 'h

text \<open>The constructor leaves the two node pointers undefined; they are 0 here, and every shape sets them.\<close>

definition transporter_new :: "'h \<Rightarrow> 'h Gcalc_shape_transporter" where
  "transporter_new heap = \<lparr>t_first = 0, t_prev = 0, m_shape_started = 0, t_heap = heap\<rparr>"

definition int_start_line :: "'h Gcalc_shape_transporter \<Rightarrow> 'h Gcalc_shape_transporter option" where
  "int_start_line t = do { DBUG_ASSERT (m_shape_started t = 0); Some (t\<lparr>m_shape_started := 1, t_first := 0, t_prev := 0\<rparr>) }"

definition int_complete_line :: "('h Gcalc_shape_transporter \<Rightarrow> 'h) \<Rightarrow> 'h Gcalc_shape_transporter \<Rightarrow> 'h Gcalc_shape_transporter option" where
  "int_complete_line int_complete t = do { DBUG_ASSERT (m_shape_started t = 1); Some (t\<lparr>t_heap := int_complete t, m_shape_started := 0\<rparr>) }"

definition int_start_ring :: "'h Gcalc_shape_transporter \<Rightarrow> 'h Gcalc_shape_transporter option" where
  "int_start_ring t = do { DBUG_ASSERT (m_shape_started t = 2); Some (t\<lparr>m_shape_started := 3, t_first := 0, t_prev := 0\<rparr>) }"

definition int_complete_ring :: "('h Gcalc_shape_transporter \<Rightarrow> 'h) \<Rightarrow> 'h Gcalc_shape_transporter \<Rightarrow> 'h Gcalc_shape_transporter option" where
  "int_complete_ring int_complete t = do { DBUG_ASSERT (m_shape_started t = 3); Some (t\<lparr>t_heap := int_complete t, m_shape_started := 2\<rparr>) }"

definition int_start_poly :: "'h Gcalc_shape_transporter \<Rightarrow> 'h Gcalc_shape_transporter option" where
  "int_start_poly t = do { DBUG_ASSERT (m_shape_started t = 0); Some (t\<lparr>m_shape_started := 2\<rparr>) }"

definition int_complete_poly :: "'h Gcalc_shape_transporter \<Rightarrow> 'h Gcalc_shape_transporter option" where
  "int_complete_poly t = do { DBUG_ASSERT (m_shape_started t = 2); Some (t\<lparr>m_shape_started := 0\<rparr>) }"

definition line_started :: "'h Gcalc_shape_transporter \<Rightarrow> bool" where
  "line_started t \<longleftrightarrow> m_shape_started t = 1"

text \<open>The virtual functions return non-zero on failure; the second one is called only after the first succeeded.\<close>

definition start_simple_poly :: "('s \<Rightarrow> int \<times> 's) \<Rightarrow> ('s \<Rightarrow> int \<times> 's) \<Rightarrow> 's \<Rightarrow> bool \<times> 's" where
  "start_simple_poly start_poly start_ring s =
     (let (r, s1) = start_poly s in if r \<noteq> 0 then (True, s1) else let (r2, s2) = start_ring s1 in (r2 \<noteq> 0, s2))"

definition complete_simple_poly :: "('s \<Rightarrow> int \<times> 's) \<Rightarrow> ('s \<Rightarrow> int \<times> 's) \<Rightarrow> 's \<Rightarrow> bool \<times> 's" where
  "complete_simple_poly complete_ring complete_poly s =
     (let (r, s1) = complete_ring s in if r \<noteq> 0 then (True, s1) else let (r2, s2) = complete_poly s1 in (r2 \<noteq> 0, s2))"

section \<open>Nodes, events and slices\<close>

datatype node_type = nt_shape_node | nt_intersection | nt_eq_node

record shape_node =
  sn_type :: node_type
  sn_left :: ptr
  top_node :: int

definition is_bottom :: "shape_node \<Rightarrow> bool option" where
  "is_bottom i = do { DBUG_ASSERT (sn_type i = nt_shape_node); Some (sn_left i = 0) }"

definition is_top :: "shape_node \<Rightarrow> bool option" where
  "is_top i = do { DBUG_ASSERT (sn_type i = nt_shape_node); Some (top_node i \<noteq> 0) }"

definition is_single_node :: "shape_node \<Rightarrow> bool option" where
  "is_single_node i = do { b \<leftarrow> is_bottom i; if b then is_top i else Some False }"

definition scev_none :: uint32 where "scev_none = 0"
definition scev_point :: uint32 where "scev_point = 1"
definition scev_thread :: uint32 where "scev_thread = 2"
definition scev_two_threads :: uint32 where "scev_two_threads = 4"
definition scev_intersection :: uint32 where "scev_intersection = 8"
definition scev_end :: uint32 where "scev_end = 16"
definition scev_two_ends :: uint32 where "scev_two_ends = 32"
definition scev_single_point :: uint32 where "scev_single_point = 64"

text \<open>A point of a slice: its successor in the slice and in the list of events.\<close>

record slice_point =
  sp_next :: ptr
  sp_pi :: ptr
  ev_next :: ptr
  sp_event :: uint32

definition simple_event :: "slice_point node_heap \<Rightarrow> slice_point \<Rightarrow> uint32 option" where
  "simple_event h p =
     (if ev_next p = 0 then Some (sp_event p AND (scev_point OR scev_end))
      else do { q \<leftarrow> read_node h (ev_next p); Some (of_bool (ev_next q = 0 \<and> sp_event p = scev_two_ends)) })"

definition more_trapezoids :: "ptr \<Rightarrow> (ptr \<rightharpoonup> ptr) \<Rightarrow> bool option" where
  "more_trapezoids m_cur_pi next_of = (if m_cur_pi = 0 then Some False else do { n \<leftarrow> next_of m_cur_pi; Some (n \<noteq> 0) })"

definition get_events :: "ptr \<Rightarrow> ptr \<Rightarrow> ptr \<Rightarrow> ptr" where
  "get_events event_position event_end m_bottom_points = (if event_position = event_end then m_bottom_points else event_position)"

record Gcalc_point_iterator = it_sp :: ptr

definition point_iterator_new :: "ptr \<Rightarrow> Gcalc_point_iterator" where
  "point_iterator_new b_slice = \<lparr>it_sp = b_slice\<rparr>"

definition point_iterator_more :: "Gcalc_point_iterator \<Rightarrow> bool" where
  "point_iterator_more it \<longleftrightarrow> it_sp it \<noteq> 0"

definition point_iterator_step :: "slice_point node_heap \<Rightarrow> Gcalc_point_iterator \<Rightarrow> Gcalc_point_iterator option" where
  "point_iterator_step h it = do { p \<leftarrow> read_node h (it_sp it); Some (it\<lparr>it_sp := sp_next p\<rparr>) }"

definition point_iterator_restart :: "ptr \<Rightarrow> Gcalc_point_iterator \<Rightarrow> Gcalc_point_iterator" where
  "point_iterator_restart b_slice it = it\<lparr>it_sp := b_slice\<rparr>"

text \<open>The loop of a client over the points of a slice.\<close>

partial_function (option) visit_slice :: "slice_point node_heap \<Rightarrow> Gcalc_point_iterator \<Rightarrow> ptr list option" where
  "visit_slice h it =
     (if point_iterator_more it then do { it1 \<leftarrow> point_iterator_step h it; ps \<leftarrow> visit_slice h it1; Some (it_sp it # ps) } else Some [])"

section \<open>States of shapes\<close>

record Gcalc_function =
  i_states :: "int list"
  b_states :: "int list"

definition invert_i_state :: "nat \<Rightarrow> Gcalc_function \<Rightarrow> Gcalc_function option" where
  "invert_i_state shape f = (if shape < length (i_states f) then Some (f\<lparr>i_states := (i_states f)[shape := i_states f ! shape XOR 1]\<rparr>) else None)"

definition set_i_state :: "nat \<Rightarrow> Gcalc_function \<Rightarrow> Gcalc_function option" where
  "set_i_state shape f = (if shape < length (i_states f) then Some (f\<lparr>i_states := (i_states f)[shape := 1]\<rparr>) else None)"

definition clear_i_state :: "nat \<Rightarrow> Gcalc_function \<Rightarrow> Gcalc_function option" where
  "clear_i_state shape f = (if shape < length (i_states f) then Some (f\<lparr>i_states := (i_states f)[shape := 0]\<rparr>) else None)"

definition set_b_state :: "nat \<Rightarrow> Gcalc_function \<Rightarrow> Gcalc_function option" where
  "set_b_state shape f = (if shape < length (b_states f) then Some (f\<lparr>b_states := (b_states f)[shape := 1]\<rparr>) else None)"

definition clear_b_state :: "nat \<Rightarrow> Gcalc_function \<Rightarrow> Gcalc_function option" where
  "clear_b_state shape f = (if shape < length (b_states f) then Some (f\<lparr>b_states := (b_states f)[shape := 0]\<rparr>) else None)"

definition get_i_state :: "nat \<Rightarrow> Gcalc_function \<Rightarrow> int option" where
  "get_i_state shape f = (if shape < length (i_states f) then Some (i_states f ! shape) else None)"

definition get_b_state :: "nat \<Rightarrow> Gcalc_function \<Rightarrow> int option" where
  "get_b_state shape f = (if shape < length (b_states f) then Some (b_states f ! shape) else None)"

definition get_state :: "nat \<Rightarrow> Gcalc_function \<Rightarrow> int option" where
  "get_state shape f = do { i \<leftarrow> get_i_state shape f; b \<leftarrow> get_b_state shape f; Some (i OR b) }"

section \<open>Items in use\<close>

text \<open>The free items form a chain of items that are not in use.\<close>

definition pool_ok :: "Gcalc_dyn_list \<Rightarrow> ptr set \<Rightarrow> bool" where
  "pool_ok d U \<longleftrightarrow> U \<subseteq> dom (dl_items d) - {0} \<and> (\<exists>fs. chain (\<lambda>n. n) (dl_items d) (m_free d) fs \<and> distinct fs \<and> set fs \<inter> U = {})"

text \<open>What the comment of the class says of a new block: it consists of new items, of which one is returned and the others are free.\<close>

definition new_block_contract :: "(Gcalc_dyn_list \<Rightarrow> ptr \<times> Gcalc_dyn_list) \<Rightarrow> bool" where
  "new_block_contract alloc \<longleftrightarrow> (\<forall>d r d'. m_free d = 0 \<longrightarrow> alloc d = (r, d') \<longrightarrow> (r = 0 \<and> d' = d) \<or>
     (\<exists>xs. distinct (r # xs) \<and> 0 \<notin> set (r # xs) \<and> set (r # xs) \<inter> dom (dl_items d) = {} \<and> dom (dl_items d') = dom (dl_items d) \<union> set (r # xs) \<and>
       (\<forall>p\<in>dom (dl_items d). dl_items d' p = dl_items d p) \<and> chain (\<lambda>n. n) (dl_items d') (m_free d') xs))"

lemma hook_loop_chain:
  "chain (\<lambda>n. n) (dl_items d) v ps \<Longrightarrow> hook_value list hook d = Some v \<Longrightarrow>
   hook_loop list hook d = Some (if ps = [] then hook else Next_of (last ps))"
proof (induction ps arbitrary: v hook)
  case Nil
  then show ?case by (subst hook_loop.simps) simp
next
  case (Cons a ps)
  then obtain n where n: "dl_items d a = Some n" "v = a" "a \<noteq> 0" "chain (\<lambda>n. n) (dl_items d) n ps" by auto
  have "hook_loop list (Next_of a) d = Some (if ps = [] then Next_of a else Next_of (last ps))"
    using Cons.IH [OF n(4), of "Next_of a"] n by (simp add: hook_value_def)
  then show ?case using Cons.prems(2) n by (subst hook_loop.simps) simp
qed

text \<open>Linking the last item of one chain to the start of another one joins them.\<close>

lemma chain_join:
  assumes "chain (\<lambda>n. n) h p ps" "ps \<noteq> []" "distinct ps" "chain (\<lambda>n. n) h q qs" "set ps \<inter> set qs = {}"
  shows "chain (\<lambda>n. n) (h(last ps \<mapsto> q)) p (ps @ qs)"
  using assms
proof (induction ps arbitrary: p)
  case (Cons a ps)
  show ?case
  proof (cases "ps = []")
    case True
    moreover have "chain (\<lambda>n. n) (h(a \<mapsto> q)) q qs \<longleftrightarrow> chain (\<lambda>n. n) h q qs" using Cons.prems(5) by (intro chain_upd) simp
    ultimately show ?thesis using Cons.prems by (simp del: fun_upd_apply) (auto simp: fun_upd_same)
  next
    case False
    then have "a \<noteq> last ps" using Cons.prems(3) by auto
    moreover obtain n where n: "h a = Some n" "p = a" "a \<noteq> 0" "chain (\<lambda>n. n) h n ps" using Cons.prems(1) by auto
    moreover have "chain (\<lambda>n. n) (h(last ps \<mapsto> q)) n (ps @ qs)" 
      using Cons.prems by (intro Cons.IH [OF n(4) False]) simp_all
    ultimately show ?thesis using False by (simp add: fun_upd_def)
  qed
qed simp

lemma free_list_ok:
  assumes "pool_ok d U" "chain (\<lambda>n. n) (dl_items d) p ps" "distinct ps" "set ps \<subseteq> U"
  shows "\<exists>d'. free_list p d = Some d' \<and> pool_ok d' (U - set ps)"
proof -
  obtain fs where fs: "U \<subseteq> dom (dl_items d) - {0}" "chain (\<lambda>n. n) (dl_items d) (m_free d) fs" "distinct fs" "set fs \<inter> U = {}"
    using assms(1) by (auto simp: pool_ok_def)
  have hook: "hook_loop p List_var d = Some (if ps = [] then List_var else Next_of (last ps))"
    using hook_loop_chain [OF assms(2), of p List_var] by (simp add: hook_value_def)
  show ?thesis
  proof (cases "ps = []")
    case True
    then show ?thesis using hook assms(1) by (simp add: free_list_def free_list_hook_def)
  next
    case False
    then have "last ps \<in> U" using assms(4) by auto
    then obtain n where n: "dl_items d (last ps) = Some n" "last ps \<noteq> 0" using fs(1) by blast
    have "free_list p d = Some (d\<lparr>dl_items := (dl_items d)(last ps \<mapsto> m_free d), m_free := p\<rparr>)"
      using hook False n by (simp add: free_list_def free_list_hook_def)
    moreover have "chain (\<lambda>n. n) ((dl_items d)(last ps \<mapsto> m_free d)) p (ps @ fs)"
      using chain_join [OF assms(2) False assms(3) fs(2)] fs(4) assms(4) by blast
    then have "pool_ok (d\<lparr>dl_items := (dl_items d)(last ps \<mapsto> m_free d), m_free := p\<rparr>) (U - set ps)"
      using fs assms(3,4) by (fastforce simp: pool_ok_def intro!: exI [of _ "ps @ fs"])
    ultimately show ?thesis by blast
  qed
qed

lemma free_item_ok: "pool_ok d U \<Longrightarrow> p \<in> U \<Longrightarrow> \<exists>d'. free_item p d = Some d' \<and> pool_ok d' (U - {p})"
proof -
  assume *: "pool_ok d U" "p \<in> U"
  then obtain n where "dl_items d p = Some n" "p \<noteq> 0" unfolding pool_ok_def by blast
  moreover obtain fs where "chain (\<lambda>n. n) (dl_items d) (m_free d) fs" "distinct fs" "set fs \<inter> U = {}" "U \<subseteq> dom (dl_items d) - {0}"
    using * by (auto simp: pool_ok_def)
  ultimately have fs: "chain (\<lambda>n. n) (dl_items d) (m_free d) fs" "distinct fs" "set fs \<inter> U = {}" "dl_items d p = Some n" "p \<noteq> 0"
    "U \<subseteq> dom (dl_items d) - {0}" by auto
  have "p \<notin> set fs" using * fs by blast
  then have "chain (\<lambda>n. n) ((dl_items d)(p \<mapsto> m_free d)) p (p # fs)" using fs by (simp add: chain_upd)
  then have "pool_ok (d\<lparr>dl_items := (dl_items d)(p \<mapsto> m_free d), m_free := p\<rparr>) (U - {p})"
    using fs \<open>p \<notin> set fs\<close> by (fastforce simp: pool_ok_def intro!: exI [of _ "p # fs"])
  then show ?thesis using fs by (simp add: free_item_def)
qed

lemma new_item_ok:
  assumes "pool_ok d U" "new_block_contract alloc"
  shows "\<exists>r d'. new_item alloc d = Some (r, d') \<and> (r = 0 \<and> d' = d \<or> r \<noteq> 0 \<and> r \<notin> U \<and> pool_ok d' (insert r U))"
proof -
  obtain fs where fs: "U \<subseteq> dom (dl_items d) - {0}" "chain (\<lambda>n. n) (dl_items d) (m_free d) fs" "distinct fs" "set fs \<inter> U = {}"
    using assms(1) by (auto simp: pool_ok_def)
  show ?thesis
  proof (cases fs)
    case (Cons a as)
    then show ?thesis using fs by (fastforce simp: new_item_def pool_ok_def intro!: exI [of _ as])
  next
    case Nil
    then have f0: "m_free d = 0" using fs by simp
    obtain r d' where r: "alloc d = (r, d')" by force
    then consider "r = 0" "d' = d" | xs where "distinct (r # xs)" "0 \<notin> set (r # xs)" "set (r # xs) \<inter> dom (dl_items d) = {}"
      "dom (dl_items d') = dom (dl_items d) \<union> set (r # xs)" "chain (\<lambda>n. n) (dl_items d') (m_free d') xs"
      using assms(2) [unfolded new_block_contract_def, THEN spec [of _ d], THEN spec [of _ r], THEN spec [of _ d']] f0 by blast
    then show ?thesis
    proof cases
      case 1
      then show ?thesis using r f0 by (simp add: new_item_def)
    next
      case 2
      then have "r \<noteq> 0 \<and> r \<notin> U \<and> pool_ok d' (insert r U)"
        using fs(1) unfolding pool_ok_def by (intro conjI exI [of _ xs]) auto
      then show ?thesis using r f0 by (simp add: new_item_def)
    qed
  qed
qed

text \<open>
  The pool: an item that is in use is never handed out again, items of a freed list are available afterwards, and all operations end and access
  existing items only.
\<close>

theorem item_pool_safe:
  assumes "pool_ok d U" "new_block_contract alloc" "p \<in> U" "chain (\<lambda>n. n) (dl_items d) q ps" "distinct ps" "set ps \<subseteq> U"
  shows "(\<exists>r d'. new_item alloc d = Some (r, d') \<and> (r = 0 \<and> d' = d \<or> r \<noteq> 0 \<and> r \<notin> U \<and> pool_ok d' (insert r U))) \<and>
    (\<exists>d'. free_item p d = Some d' \<and> pool_ok d' (U - {p})) \<and> (\<exists>d'. free_list q d = Some d' \<and> pool_ok d' (U - set ps))"
  using new_item_ok [OF assms(1,2)] free_item_ok [OF assms(1,3)] free_list_ok [OF assms(1,4-6)] by blast

text \<open>
  When no memory is left the pool returns a null pointer, and the function that makes an intersection writes through it.
\<close>

theorem intersection_without_memory:
  assumes "m_free d = 0" "alloc d = (0, d)"
  shows "new_item alloc d = Some (0, d) \<and> new_intersection_info alloc a b (d, infos) = None"
  using assms by (simp add: new_item_def new_intersection_info_def)

section \<open>The protocol of shapes\<close>

datatype tcall = Start_line | Complete_line | Start_ring | Complete_ring | Start_poly | Complete_poly

primrec tstep :: "('h Gcalc_shape_transporter \<Rightarrow> 'h) \<Rightarrow> tcall \<Rightarrow> 'h Gcalc_shape_transporter \<Rightarrow> 'h Gcalc_shape_transporter option" where
  "tstep ic Start_line = int_start_line"
| "tstep ic Complete_line = int_complete_line ic"
| "tstep ic Start_ring = int_start_ring"
| "tstep ic Complete_ring = int_complete_ring ic"
| "tstep ic Start_poly = int_start_poly"
| "tstep ic Complete_poly = int_complete_poly"

text \<open>The shapes: lines, and polygons with a number of rings.\<close>

datatype shape = Line | Polygon nat

definition ring_calls :: "nat \<Rightarrow> tcall list" where
  "ring_calls n = concat (replicate n [Start_ring, Complete_ring])"

primrec calls :: "shape \<Rightarrow> tcall list" where
  "calls Line = [Start_line, Complete_line]"
| "calls (Polygon n) = Start_poly # ring_calls n @ [Complete_poly]"

definition all_calls :: "shape list \<Rightarrow> tcall list" where
  "all_calls shapes = concat (map calls shapes)"

text \<open>Only the state of the protocol matters for which calls are accepted.\<close>

primrec proto :: "tcall \<Rightarrow> int \<Rightarrow> int option" where
  "proto Start_line q = (if q = 0 then Some 1 else None)"
| "proto Complete_line q = (if q = 1 then Some 0 else None)"
| "proto Start_ring q = (if q = 2 then Some 3 else None)"
| "proto Complete_ring q = (if q = 3 then Some 2 else None)"
| "proto Start_poly q = (if q = 0 then Some 2 else None)"
| "proto Complete_poly q = (if q = 2 then Some 0 else None)"

lemmas int_call_defs = int_start_line_def int_complete_line_def int_start_ring_def int_complete_ring_def int_start_poly_def int_complete_poly_def

lemma tstep_proto: "map_option m_shape_started (tstep ic c t) = proto c (m_shape_started t)"
  by (cases c) (simp_all add: int_call_defs DBUG_ASSERT_def)

lemma run_tstep_proto: "map_option m_shape_started (run_opt (tstep ic) cs t) = run_opt proto cs (m_shape_started t)"
proof (induction cs arbitrary: t)
  case (Cons c cs)
  show ?case
  proof (cases "tstep ic c t")
    case None
    then show ?thesis using tstep_proto [of ic c t] by (cases "proto c (m_shape_started t)") simp_all
  next
    case (Some t1)
    then have "proto c (m_shape_started t) = Some (m_shape_started t1)" using tstep_proto [of ic c t] by simp
    then show ?thesis using Some Cons.IH [of t1] by simp
  qed
qed simp

lemma run_opt_append: "run_opt exec (xs @ ys) s = Option.bind (run_opt exec xs s) (run_opt exec ys)"
  by (induction xs arbitrary: s) (auto intro: Option.bind_cong split: Option.bind_splits)

lemma proto_rings: "run_opt proto (ring_calls n) 2 = Some 2"
  by (induction n) (simp_all add: ring_calls_def run_opt_append)

lemma proto_shapes: "run_opt proto (all_calls shapes) 0 = Some 0"
proof (induction shapes)
  case (Cons x xs)
  then show ?case by (cases x) (simp_all add: all_calls_def run_opt_append proto_rings)
qed (simp add: all_calls_def)

lemma proto_inv: "run_opt proto cs q = Some 0 \<Longrightarrow>
    (q = 0 \<longrightarrow> (\<exists>sh. cs = all_calls sh)) \<and> (q = 1 \<longrightarrow> (\<exists>sh. cs = Complete_line # all_calls sh)) \<and>
    (q = 2 \<longrightarrow> (\<exists>n sh. cs = ring_calls n @ Complete_poly # all_calls sh)) \<and>
    (q = 3 \<longrightarrow> (\<exists>n sh. cs = Complete_ring # ring_calls n @ Complete_poly # all_calls sh))"
proof (induction cs arbitrary: q)
  case Nil
  then show ?case by (auto simp: all_calls_def intro: exI [of _ "[]"])
next
  case (Cons c cs)
  have line: "Start_line # Complete_line # all_calls sh = all_calls (Line # sh)" for sh by (simp add: all_calls_def)
  have poly: "Start_poly # ring_calls n @ Complete_poly # all_calls sh = all_calls (Polygon n # sh)" for n sh by (simp add: all_calls_def)
  have ring: "Start_ring # Complete_ring # ring_calls n @ ys = ring_calls (Suc n) @ ys" for n ys by (simp add: ring_calls_def)
  have none: "Complete_poly # all_calls sh = ring_calls 0 @ Complete_poly # all_calls sh" for sh by (simp add: ring_calls_def)
  show ?case using Cons.prems Cons.IH [of "the (proto c q)"]
    by (cases c) (auto split: if_splits, (metis line poly ring none)+)
qed

text \<open>
  C29: The protocol in which shapes are handed over: a sequence of calls succeeds and ends outside of any shape exactly if it hands over lines and
  polygons one after the other, each completed before the next begins, the rings of a polygon inside of it.
\<close>

theorem shapes_accepted:
  assumes "m_shape_started t = 0"
  shows "(\<exists>t'. run_opt (tstep ic) cs t = Some t' \<and> m_shape_started t' = 0) \<longleftrightarrow> (\<exists>shapes. cs = all_calls shapes)"
proof -
  have "(\<exists>t'. run_opt (tstep ic) cs t = Some t' \<and> m_shape_started t' = 0) \<longleftrightarrow> run_opt proto cs 0 = Some 0"
    using run_tstep_proto [of ic cs t] assms by (cases "run_opt (tstep ic) cs t") auto
  also have "\<dots> \<longleftrightarrow> (\<exists>shapes. cs = all_calls shapes)" using proto_inv [of cs 0] proto_shapes by auto
  finally show ?thesis .
qed

section \<open>Points of a slice\<close>

text \<open>A client that iterates over a slice sees each of its points once, in order, and ends.\<close>

theorem slice_visited:
  assumes "chain sp_next h b_slice ps"
  shows "visit_slice h (point_iterator_new b_slice) = Some ps \<and> visit_slice h (point_iterator_restart b_slice it) = Some ps"
proof -
  have v: "chain sp_next h b ps \<Longrightarrow> it_sp j = b \<Longrightarrow> visit_slice h j = Some ps" for b j
  proof (induction ps arbitrary: b j)
    case Nil
    then show ?case by (subst visit_slice.simps) (simp add: point_iterator_more_def)
  next
    case (Cons a ps)
    then obtain n where n: "h a = Some n" "b = a" "a \<noteq> 0" "chain sp_next h (sp_next n) ps" by auto
    have "visit_slice h (j\<lparr>it_sp := sp_next n\<rparr>) = Some ps" by (rule Cons.IH [OF n(4)]) simp
    then show ?case using n Cons.prems(2)
      by (subst visit_slice.simps) (simp add: point_iterator_more_def point_iterator_step_def)
  qed
  show ?thesis using v [OF assms] by (simp add: point_iterator_new_def point_iterator_restart_def)
qed

section \<open>Inside and outside\<close>

lemma xor_parity: "(of_bool b :: int) XOR 1 = of_bool (\<not> b)"
  by (cases b) simp_all

definition parity_rel :: "nat \<Rightarrow> int list \<Rightarrow> Gcalc_function \<Rightarrow> nat list \<Rightarrow> bool" where
  "parity_rel n bs f cs \<longleftrightarrow> b_states f = bs \<and> i_states f = map (\<lambda>s. of_bool (odd (count_list cs s))) [0..<n]"

interpretation crossing: progress_simulation invert_i_state "(#)" "\<lambda>s cs. s < n" "parity_rel n bs" for n bs
proof
  fix f cs s
  assume "parity_rel n bs f cs" "s < n"
  then show "\<exists>f'. invert_i_state s f = Some f' \<and> parity_rel n bs f' (s # cs)"
    by (auto simp: invert_i_state_def parity_rel_def xor_parity intro!: nth_equalityI simp: nth_list_update)
qed

text \<open>
  The rule of even and odd crossings: after the edges of shapes were crossed, a point is inside a shape exactly if it was crossed an odd number of
  times; it belongs to the shape if it is inside or on the border.
\<close>

theorem even_odd_rule:
  assumes "\<forall>c\<in>set crossings. c < n" "i_states f = replicate n 0" "length (b_states f) = n" "s < n"
  shows "\<exists>f'. run_opt invert_i_state crossings f = Some f' \<and> get_i_state s f' = Some (of_bool (odd (count_list crossings s))) \<and>
    get_state s f' = Some (of_bool (odd (count_list crossings s)) OR b_states f ! s)"
proof -
  have "parity_rel n (b_states f) f []" using assms(2) by (auto simp: parity_rel_def intro: nth_equalityI)
  moreover have "allowed (\<lambda>s cs. s < n) (#) crossings []" using assms(1) by (intro allowed_all) blast
  ultimately obtain f' where f': "run_opt invert_i_state crossings f = Some f'" "parity_rel n (b_states f) f' (fold (#) crossings [])"
    using crossing.run by blast
  have "count_list (fold (#) crossings []) s = count_list crossings s" by (simp add: fold_Cons_rev count_list_rev)
  then show ?thesis using f' assms(3,4) by (auto simp: parity_rel_def get_state_def get_i_state_def get_b_state_def)
qed

section \<open>Concrete cases\<close>

text \<open>A pool with the items 1, 2 and 3, of which 3 is free; a new block is available for an empty pool only.\<close>

definition sample_pool :: Gcalc_dyn_list where
  "sample_pool = \<lparr>dl_items = [1 \<mapsto> 2, 2 \<mapsto> 0, 3 \<mapsto> 0], m_free = 3\<rparr>"

definition sample_alloc :: "Gcalc_dyn_list \<Rightarrow> ptr \<times> Gcalc_dyn_list" where
  "sample_alloc d = (if dom (dl_items d) = {} then (1, \<lparr>dl_items = [1 \<mapsto> 0, 2 \<mapsto> 0], m_free = 2\<rparr>) else (0, d))"

lemma sample_alloc_contract: "new_block_contract sample_alloc"
  unfolding new_block_contract_def
proof (intro allI impI)
  fix d r d'
  assume a: "m_free d = 0" "sample_alloc d = (r, d')"
  show "r = 0 \<and> d' = d \<or> (\<exists>xs. distinct (r # xs) \<and> 0 \<notin> set (r # xs) \<and> set (r # xs) \<inter> dom (dl_items d) = {} \<and>
      dom (dl_items d') = dom (dl_items d) \<union> set (r # xs) \<and> (\<forall>p\<in>dom (dl_items d). dl_items d' p = dl_items d p) \<and>
      chain (\<lambda>n. n) (dl_items d') (m_free d') xs)"
  proof (cases "dom (dl_items d) = {}")
    case True
    then show ?thesis using a by (intro disjI2 exI [of _ "[2]"]) (auto simp: sample_alloc_def split: if_splits)
  next
    case False
    then show ?thesis using a by (simp add: sample_alloc_def)
  qed
qed

theorem item_pool_safe_witness:
  "(\<exists>r d'. new_item sample_alloc sample_pool = Some (r, d') \<and> (r = 0 \<and> d' = sample_pool \<or> r \<noteq> 0 \<and> r \<notin> {1, 2} \<and> pool_ok d' (insert r {1, 2}))) \<and>
   (\<exists>d'. free_list 1 sample_pool = Some d' \<and> pool_ok d' ({1, 2} - set [1, 2]))"
proof -
  have "pool_ok sample_pool {1, 2}" by (auto simp: pool_ok_def sample_pool_def intro!: exI [of _ "[3]"])
  from item_pool_safe [OF this sample_alloc_contract, of 1 1 "[1, 2]"] show ?thesis by (simp add: sample_pool_def)
qed

theorem intersection_without_memory_witness:
  "new_intersection_info sample_alloc 5 6 (sample_pool\<lparr>m_free := 0\<rparr>, Map.empty) = None"
  using intersection_without_memory [of "sample_pool\<lparr>m_free := 0\<rparr>" sample_alloc 5 6 Map.empty] by (simp add: sample_alloc_def sample_pool_def)

theorem shapes_accepted_witness:
  "\<exists>t'. run_opt (tstep t_heap) [Start_poly, Start_ring, Complete_ring, Complete_poly, Start_line, Complete_line] (transporter_new ()) = Some t' \<and>
     m_shape_started t' = 0"
proof -
  have "m_shape_started (transporter_new ()) = 0" by (simp add: transporter_new_def)
  moreover have "[Start_poly, Start_ring, Complete_ring, Complete_poly, Start_line, Complete_line] = all_calls [Polygon 1, Line]"
    by (simp add: all_calls_def ring_calls_def)
  ultimately show ?thesis using shapes_accepted [of "transporter_new ()" t_heap] by blast
qed

definition sample_slice :: "slice_point node_heap" where
  "sample_slice = [4 \<mapsto> \<lparr>sp_next = 7, sp_pi = 1, ev_next = 0, sp_event = scev_point\<rparr>, 7 \<mapsto> \<lparr>sp_next = 0, sp_pi = 2, ev_next = 0, sp_event = scev_end\<rparr>]"

theorem slice_visited_witness: "visit_slice sample_slice (point_iterator_new 4) = Some [4, 7]"
proof -
  have "chain sp_next sample_slice 4 [4, 7]" by (simp add: sample_slice_def)
  then show ?thesis using slice_visited [of sample_slice 4 "[4, 7]" "\<lparr>it_sp = 0\<rparr>"] by blast
qed

theorem even_odd_rule_witness:
  "\<exists>f'. run_opt invert_i_state [0, 1, 0, 1, 1] \<lparr>i_states = [0, 0], b_states = [0, 1]\<rparr> = Some f' \<and> get_i_state 0 f' = Some 0 \<and> get_i_state 1 f' = Some 1"
proof -
  let ?f = "\<lparr>i_states = [0, 0], b_states = [0, 1]\<rparr>"
  have r: "i_states ?f = replicate 2 0" "length (b_states ?f) = 2" by (simp_all add: numeral_2_eq_2)
  have "\<forall>c\<in>set [0, 1, 0, 1, 1]. c < (2 :: nat)" by simp
  from even_odd_rule [OF this r, of 0] even_odd_rule [OF this r, of 1] show ?thesis by auto
qed

end
