(* ===== verification/AuditEvents.thy ===== *)
theory AuditEvents
  imports Runs Prelude
begin

text \<open>
  Notifications of audit plugins (\<^verbatim>\<open>sql_audit.h\<close>, \<^verbatim>\<open>plugin_audit.h\<close>).  What \<open>mysql_audit_notify\<close> receives is recorded as a trace of events, the latest one at
  the end.  A C string is the list of its characters before the terminating zero, a null pointer is \<^const>\<open>None\<close>; a \<open>LEX_CSTRING\<close> is given in the same way.
  The function \<open>strxnmov\<close>, which copies strings one after the other into a buffer, is compiled and an argument.
\<close>

section \<open>Events\<close>

type_synonym cstring = "string option"

definition MYSQL_AUDIT_GENERAL_CLASS :: nat where "MYSQL_AUDIT_GENERAL_CLASS = 0"
definition MYSQL_AUDIT_CONNECTION_CLASS :: nat where "MYSQL_AUDIT_CONNECTION_CLASS = 1"
definition MYSQL_AUDIT_TABLE_CLASS :: nat where "MYSQL_AUDIT_TABLE_CLASS = 15"

definition MYSQL_AUDIT_GENERAL_CLASSMASK :: ulong where "MYSQL_AUDIT_GENERAL_CLASSMASK = push_bit MYSQL_AUDIT_GENERAL_CLASS 1"
definition MYSQL_AUDIT_CONNECTION_CLASSMASK :: ulong where "MYSQL_AUDIT_CONNECTION_CLASSMASK = push_bit MYSQL_AUDIT_CONNECTION_CLASS 1"
definition MYSQL_AUDIT_TABLE_CLASSMASK :: ulong where "MYSQL_AUDIT_TABLE_CLASSMASK = push_bit MYSQL_AUDIT_TABLE_CLASS 1"

definition MYSQL_AUDIT_GENERAL_LOG :: uint32 where "MYSQL_AUDIT_GENERAL_LOG = 0"
definition MYSQL_AUDIT_GENERAL_ERROR :: uint32 where "MYSQL_AUDIT_GENERAL_ERROR = 1"
definition MYSQL_AUDIT_GENERAL_RESULT :: uint32 where "MYSQL_AUDIT_GENERAL_RESULT = 2"
definition MYSQL_AUDIT_GENERAL_STATUS :: uint32 where "MYSQL_AUDIT_GENERAL_STATUS = 3"
definition MYSQL_AUDIT_CONNECTION_CONNECT :: uint32 where "MYSQL_AUDIT_CONNECTION_CONNECT = 0"
definition MYSQL_AUDIT_CONNECTION_DISCONNECT :: uint32 where "MYSQL_AUDIT_CONNECTION_DISCONNECT = 1"
definition MYSQL_AUDIT_CONNECTION_CHANGE_USER :: uint32 where "MYSQL_AUDIT_CONNECTION_CHANGE_USER = 2"
definition MYSQL_AUDIT_TABLE_LOCK :: uint32 where "MYSQL_AUDIT_TABLE_LOCK = 0"
definition MYSQL_AUDIT_TABLE_CREATE :: uint32 where "MYSQL_AUDIT_TABLE_CREATE = 1"
definition MYSQL_AUDIT_TABLE_DROP :: uint32 where "MYSQL_AUDIT_TABLE_DROP = 2"
definition MYSQL_AUDIT_TABLE_RENAME :: uint32 where "MYSQL_AUDIT_TABLE_RENAME = 3"
definition MYSQL_AUDIT_TABLE_ALTER :: uint32 where "MYSQL_AUDIT_TABLE_ALTER = 4"

lemmas audit_table_codes = MYSQL_AUDIT_TABLE_LOCK_def MYSQL_AUDIT_TABLE_CREATE_def MYSQL_AUDIT_TABLE_DROP_def MYSQL_AUDIT_TABLE_RENAME_def
  MYSQL_AUDIT_TABLE_ALTER_def

record mysql_event_general =
  ge_subclass :: uint32
  general_error_code :: int
  general_thread_id :: ulong
  general_user :: cstring
  general_user_length :: uint32
  general_command :: cstring
  general_command_length :: uint32
  general_query :: cstring
  general_query_length :: uint32
  general_charset :: ptr
  general_time :: uint64
  general_rows :: uint64
  ge_query_id :: uint64
  ge_database :: cstring

record mysql_event_connection =
  ce_subclass :: uint32
  ce_status :: int
  ce_thread_id :: ulong
  ce_user :: cstring
  ce_user_length :: uint32
  ce_priv_user :: string
  ce_priv_user_length :: uint32
  ce_external_user :: cstring
  ce_external_user_length :: uint32
  ce_proxy_user :: string
  ce_proxy_user_length :: uint32
  ce_host :: cstring
  ce_host_length :: uint32
  ce_ip :: cstring
  ce_ip_length :: uint32
  ce_database :: cstring

record mysql_event_table =
  te_subclass :: uint32
  te_thread_id :: ulong
  te_user :: cstring
  te_priv_user :: string
  te_priv_host :: string
  te_external_user :: cstring
  te_proxy_user :: string
  te_host :: cstring
  te_ip :: cstring
  te_database :: cstring
  te_table :: cstring
  new_database :: cstring
  new_table :: cstring
  te_read_only :: bool
  te_query_id :: uint64

datatype audit_event = General mysql_event_general | Connection mysql_event_connection | Table_event mysql_event_table

section \<open>The session as the notifications see it\<close>

record Security_context =
  sc_user :: cstring
  sc_host :: cstring
  sc_ip :: cstring
  priv_user :: string
  priv_host :: string
  proxy_user :: string
  external_user :: cstring

record audit_thd =
  at_thread_id :: uint64
  security_ctx :: Security_context
  at_db :: cstring
  at_query_id :: uint64
  character_set_client :: ptr
  query_str :: cstring
  query_length :: uint32
  query_charset :: ptr
  da_is_error :: bool
  da_sql_errno :: uint32
  da_row :: ulong

text \<open>The global state: the classes some plugin wants, and the events delivered so far.\<close>

record audit_state =
  mysql_global_audit_mask :: ulong
  delivered :: "audit_event list"

definition mysql_audit_notify :: "audit_event \<Rightarrow> audit_state \<Rightarrow> audit_state" where
  "mysql_audit_notify event s = s\<lparr>delivered := delivered s @ [event]\<rparr>"

definition mysql_audit_general_enabled :: "audit_state \<Rightarrow> bool" where
  "mysql_audit_general_enabled s \<longleftrightarrow> mysql_global_audit_mask s AND MYSQL_AUDIT_GENERAL_CLASSMASK \<noteq> 0"

definition mysql_audit_connection_enabled :: "audit_state \<Rightarrow> bool" where
  "mysql_audit_connection_enabled s \<longleftrightarrow> mysql_global_audit_mask s AND MYSQL_AUDIT_CONNECTION_CLASSMASK \<noteq> 0"

definition mysql_audit_table_enabled :: "audit_state \<Rightarrow> bool" where
  "mysql_audit_table_enabled s \<longleftrightarrow> mysql_global_audit_mask s AND MYSQL_AUDIT_TABLE_CLASSMASK \<noteq> 0"

definition strlen_uint :: "string \<Rightarrow> uint32" where
  "strlen_uint s = of_nat (length s)"

definition safe_strlen_uint :: "cstring \<Rightarrow> uint32" where
  "safe_strlen_uint s = (case s of Some t \<Rightarrow> of_nat (length t) | None \<Rightarrow> 0)"

definition MAX_USER_HOST_SIZE :: nat where "MAX_USER_HOST_SIZE = 512"

definition or_empty :: "cstring \<Rightarrow> string" where
  "or_empty s = (case s of Some t \<Rightarrow> t | None \<Rightarrow> '''')"

definition make_user_name :: "(nat \<Rightarrow> string list \<Rightarrow> string) \<Rightarrow> audit_thd \<Rightarrow> string" where
  "make_user_name strxnmov thd =
     (let sctx = security_ctx thd
      in strxnmov MAX_USER_HOST_SIZE
           [if priv_user sctx \<noteq> [] then priv_user sctx else '''', ''['', or_empty (sc_user sctx), ''] @ '', or_empty (sc_host sctx), '' ['',
            or_empty (sc_ip sctx), '']''])"

section \<open>Notifications\<close>

definition mysql_audit_general_log ::
  "ptr \<Rightarrow> audit_thd option \<Rightarrow> uint64 \<Rightarrow> cstring \<Rightarrow> uint32 \<Rightarrow> cstring \<Rightarrow> uint32 \<Rightarrow> cstring \<Rightarrow> uint32 \<Rightarrow> audit_state \<Rightarrow> audit_state" where
  "mysql_audit_general_log global_charset thd time_arg user userlen cmd cmdlen query querylen s =
     (if mysql_audit_general_enabled s
      then mysql_audit_notify (General
        \<lparr>ge_subclass = MYSQL_AUDIT_GENERAL_LOG, general_error_code = 0,
         general_thread_id = (case thd of Some t \<Rightarrow> ucast (at_thread_id t) | None \<Rightarrow> 0),
         general_user = user, general_user_length = userlen, general_command = cmd, general_command_length = cmdlen,
         general_query = query, general_query_length = querylen,
         general_charset = (case thd of Some t \<Rightarrow> character_set_client t | None \<Rightarrow> global_charset),
         general_time = time_arg, general_rows = 0,
         ge_query_id = (case thd of Some t \<Rightarrow> at_query_id t | None \<Rightarrow> 0),
         ge_database = (case thd of Some t \<Rightarrow> at_db t | None \<Rightarrow> None)\<rparr>) s
      else s)"

definition mysql_audit_general ::
  "(nat \<Rightarrow> string list \<Rightarrow> string) \<Rightarrow> uint64 \<Rightarrow> ptr \<Rightarrow> audit_thd option \<Rightarrow> uint32 \<Rightarrow> int \<Rightarrow> cstring \<Rightarrow> audit_state \<Rightarrow> audit_state" where
  "mysql_audit_general strxnmov now my_charset_bin thd event_subtype error_code msg s =
     (if mysql_audit_general_enabled s
      then mysql_audit_notify (General (case thd of
          Some t \<Rightarrow>
            (let user_buff = make_user_name strxnmov t
             in \<lparr>ge_subclass = event_subtype, general_error_code = error_code, general_thread_id = ucast (at_thread_id t),
                 general_user = Some user_buff, general_user_length = of_nat (length user_buff),
                 general_command = msg, general_command_length = safe_strlen_uint msg,
                 general_query = query_str t, general_query_length = query_length t, general_charset = query_charset t,
                 general_time = now, general_rows = ucast (da_row t), ge_query_id = at_query_id t, ge_database = at_db t\<rparr>)
        | None \<Rightarrow>
            \<lparr>ge_subclass = event_subtype, general_error_code = error_code, general_thread_id = 0,
             general_user = None, general_user_length = 0, general_command = msg, general_command_length = safe_strlen_uint msg,
             general_query = None, general_query_length = 0, general_charset = my_charset_bin,
             general_time = now, general_rows = 0, ge_query_id = 0, ge_database = None\<rparr>)) s
      else s)"

text \<open>The three notifications about connections fill the event in the same way, apart from its kind and status.\<close>

definition connection_event :: "audit_thd \<Rightarrow> uint32 \<Rightarrow> int \<Rightarrow> mysql_event_connection" where
  "connection_event thd subclass status_arg =
     (let sctx = security_ctx thd
      in \<lparr>ce_subclass = subclass, ce_status = status_arg, ce_thread_id = ucast (at_thread_id thd),
          ce_user = sc_user sctx, ce_user_length = safe_strlen_uint (sc_user sctx),
          ce_priv_user = priv_user sctx, ce_priv_user_length = strlen_uint (priv_user sctx),
          ce_external_user = external_user sctx, ce_external_user_length = safe_strlen_uint (external_user sctx),
          ce_proxy_user = proxy_user sctx, ce_proxy_user_length = strlen_uint (proxy_user sctx),
          ce_host = sc_host sctx, ce_host_length = safe_strlen_uint (sc_host sctx),
          ce_ip = sc_ip sctx, ce_ip_length = safe_strlen_uint (sc_ip sctx), ce_database = at_db thd\<rparr>)"

definition mysql_audit_notify_connection_connect :: "audit_thd \<Rightarrow> audit_state \<Rightarrow> audit_state" where
  "mysql_audit_notify_connection_connect thd s =
     (if mysql_audit_connection_enabled s
      then mysql_audit_notify (Connection (connection_event thd MYSQL_AUDIT_CONNECTION_CONNECT
             (if da_is_error thd then sint (da_sql_errno thd) else 0))) s
      else s)"

definition mysql_audit_notify_connection_disconnect :: "audit_thd \<Rightarrow> int \<Rightarrow> audit_state \<Rightarrow> audit_state" where
  "mysql_audit_notify_connection_disconnect thd errcode s =
     (if mysql_audit_connection_enabled s
      then mysql_audit_notify (Connection (connection_event thd MYSQL_AUDIT_CONNECTION_DISCONNECT errcode)) s
      else s)"

definition mysql_audit_notify_connection_change_user :: "audit_thd \<Rightarrow> audit_state \<Rightarrow> audit_state" where
  "mysql_audit_notify_connection_change_user thd s =
     (if mysql_audit_connection_enabled s
      then mysql_audit_notify (Connection (connection_event thd MYSQL_AUDIT_CONNECTION_CHANGE_USER
             (if da_is_error thd then sint (da_sql_errno thd) else 0))) s
      else s)"

text \<open>A table is named by its database and its name.  The five notifications about tables again share what they copy from the session.\<close>

type_synonym table_id = "cstring \<times> cstring"

definition table_event :: "audit_thd \<Rightarrow> uint32 \<Rightarrow> bool \<Rightarrow> table_id \<Rightarrow> table_id \<Rightarrow> mysql_event_table" where
  "table_event thd subclass ro tab new_tab =
     (let sctx = security_ctx thd
      in \<lparr>te_subclass = subclass, te_thread_id = ucast (at_thread_id thd), te_user = sc_user sctx, te_priv_user = priv_user sctx,
          te_priv_host = priv_host sctx, te_external_user = external_user sctx, te_proxy_user = proxy_user sctx,
          te_host = sc_host sctx, te_ip = sc_ip sctx, te_database = fst tab, te_table = snd tab,
          new_database = fst new_tab, new_table = snd new_tab, te_read_only = ro, te_query_id = at_query_id thd\<rparr>)"

datatype lock_type = F_RDLCK | F_WRLCK | F_UNLCK

definition mysql_audit_external_lock :: "audit_thd \<Rightarrow> table_id \<Rightarrow> lock_type \<Rightarrow> audit_state \<Rightarrow> audit_state" where
  "mysql_audit_external_lock thd share lock s =
     (if lock \<noteq> F_UNLCK \<and> mysql_audit_table_enabled s
      then mysql_audit_notify (Table_event (table_event thd MYSQL_AUDIT_TABLE_LOCK (lock = F_RDLCK) share (None, None))) s
      else s)"

definition mysql_audit_create_table :: "audit_thd \<Rightarrow> table_id \<Rightarrow> audit_state \<Rightarrow> audit_state" where
  "mysql_audit_create_table thd share s =
     (if mysql_audit_table_enabled s
      then mysql_audit_notify (Table_event (table_event thd MYSQL_AUDIT_TABLE_CREATE False share (None, None))) s
      else s)"

definition mysql_audit_drop_table :: "audit_thd \<Rightarrow> table_id \<Rightarrow> audit_state \<Rightarrow> audit_state" where
  "mysql_audit_drop_table thd table s =
     (if mysql_audit_table_enabled s
      then mysql_audit_notify (Table_event (table_event thd MYSQL_AUDIT_TABLE_DROP False table (None, None))) s
      else s)"

definition mysql_audit_rename_table :: "audit_thd \<Rightarrow> table_id \<Rightarrow> table_id \<Rightarrow> audit_state \<Rightarrow> audit_state" where
  "mysql_audit_rename_table thd old_tab new_tab s =
     (if mysql_audit_table_enabled s
      then mysql_audit_notify (Table_event (table_event thd MYSQL_AUDIT_TABLE_RENAME False old_tab new_tab)) s
      else s)"

definition mysql_audit_alter_table :: "audit_thd \<Rightarrow> table_id \<Rightarrow> audit_state \<Rightarrow> audit_state" where
  "mysql_audit_alter_table thd table s =
     (if mysql_audit_table_enabled s
      then mysql_audit_notify (Table_event (table_event thd MYSQL_AUDIT_TABLE_ALTER False table (None, None))) s
      else s)"

section \<open>The audit trail\<close>

text \<open>What the server does to tables, and the notification each action makes.\<close>

datatype table_action = Lock audit_thd table_id lock_type | Create audit_thd table_id | Drop audit_thd table_id | Rename audit_thd table_id table_id | Alter audit_thd table_id

primrec notify_action :: "table_action \<Rightarrow> audit_state \<Rightarrow> audit_state" where
  "notify_action (Lock thd t l) = mysql_audit_external_lock thd t l"
| "notify_action (Create thd t) = mysql_audit_create_table thd t"
| "notify_action (Drop thd t) = mysql_audit_drop_table thd t"
| "notify_action (Rename thd t u) = mysql_audit_rename_table thd t u"
| "notify_action (Alter thd t) = mysql_audit_alter_table thd t"

text \<open>The tables that exist after an action.\<close>

primrec do_action :: "table_action \<Rightarrow> table_id set \<Rightarrow> table_id set" where
  "do_action (Lock thd t l) T = T"
| "do_action (Create thd t) T = insert t T"
| "do_action (Drop thd t) T = T - {t}"
| "do_action (Rename thd t u) T = insert u (T - {t})"
| "do_action (Alter thd t) T = T"

text \<open>What an auditor concludes from one event.\<close>

fun replay :: "audit_event \<Rightarrow> table_id set \<Rightarrow> table_id set" where
  "replay (Table_event e) T =
     (let t = (te_database e, te_table e)
      in if te_subclass e = MYSQL_AUDIT_TABLE_CREATE then insert t T
         else if te_subclass e = MYSQL_AUDIT_TABLE_DROP then T - {t}
         else if te_subclass e = MYSQL_AUDIT_TABLE_RENAME then insert (new_database e, new_table e) (T - {t})
         else T)"
| "replay _ T = T"

definition visible_action :: "table_action \<Rightarrow> bool" where
  "visible_action a \<longleftrightarrow> (case a of Lock thd t l \<Rightarrow> l \<noteq> F_UNLCK | _ \<Rightarrow> True)"

text \<open>The session of an action.\<close>

primrec action_thd :: "table_action \<Rightarrow> audit_thd" where
  "action_thd (Lock thd t l) = thd" | "action_thd (Create thd t) = thd" | "action_thd (Drop thd t) = thd"
| "action_thd (Rename thd t u) = thd" | "action_thd (Alter thd t) = thd"

definition event_by :: "audit_thd \<Rightarrow> audit_event \<Rightarrow> bool" where
  "event_by thd ev \<longleftrightarrow> (\<exists>e. ev = Table_event e \<and> te_thread_id e = ucast (at_thread_id thd) \<and> te_query_id e = at_query_id thd \<and>
     te_priv_user e = priv_user (security_ctx thd) \<and> te_user e = sc_user (security_ctx thd))"

lemmas notify_defs = mysql_audit_external_lock_def mysql_audit_create_table_def mysql_audit_drop_table_def mysql_audit_rename_table_def
  mysql_audit_alter_table_def mysql_audit_notify_def

definition trail_rel :: "table_id set \<Rightarrow> audit_state \<Rightarrow> table_id set \<times> audit_thd list \<Rightarrow> bool" where
  "trail_rel T0 s a \<longleftrightarrow> mysql_audit_table_enabled s \<and> fold replay (delivered s) T0 = fst a \<and> list_all2 event_by (snd a) (delivered s)"

interpretation trail: simulation notify_action "\<lambda>a (T, us). (do_action a T, if visible_action a then us @ [action_thd a] else us)" "\<lambda>_ _. True" "trail_rel T0" for T0
proof
  fix s :: audit_state and p :: "table_id set \<times> audit_thd list" and op :: table_action
  assume r: "trail_rel T0 s p"
  then have en: "mysql_audit_table_enabled s" by (simp add: trail_rel_def)
  obtain T us where p: "p = (T, us)" by force
  show "trail_rel T0 (notify_action op s) (case p of (T, us) \<Rightarrow> (do_action op T, if visible_action op then us @ [action_thd op] else us))"
    using r en unfolding p
    by (cases op) (auto simp: trail_rel_def notify_defs mysql_audit_table_enabled_def visible_action_def table_event_def audit_table_codes event_by_def Let_def
        intro!: list_all2_appendI)
qed

text \<open>
  C32: The audit trail is complete: if plugins want table events, an auditor who replays the events delivered knows exactly which tables exist, and there
  is one event for every action but an unlock, in the order of the actions and with the user, session and query that caused it.
\<close>

theorem audit_trail_complete:
  assumes "mysql_audit_table_enabled s" "delivered s = []"
  shows "fold replay (delivered (fold notify_action acts s)) T = fold do_action acts T \<and>
    list_all2 event_by (map action_thd (filter visible_action acts)) (delivered (fold notify_action acts s))"
proof -
  have "trail_rel T s (T, [])" using assms by (simp add: trail_rel_def)
  from trail.run [OF this, of acts] have r: "trail_rel T (fold notify_action acts s)
      (fold (\<lambda>a (T, us). (do_action a T, if visible_action a then us @ [action_thd a] else us)) acts (T, []))"
    by (simp add: allowed_all)
  have "fold (\<lambda>a (T, us). (do_action a T, if visible_action a then us @ [action_thd a] else us)) acts (T, us) =
      (fold do_action acts T, us @ map action_thd (filter visible_action acts))" for us
    by (induction acts arbitrary: T us) auto
  then show ?thesis using r by (simp add: trail_rel_def)
qed

text \<open>No class of events is delivered that no plugin asked for.\<close>

theorem only_wanted_events:
  assumes "\<forall>k. bit (mysql_global_audit_mask s) k \<longleftrightarrow> k \<in> K"
  shows "(MYSQL_AUDIT_TABLE_CLASS \<notin> K \<longrightarrow> fold notify_action acts s = s) \<and>
    (MYSQL_AUDIT_CONNECTION_CLASS \<notin> K \<longrightarrow> mysql_audit_notify_connection_connect thd s = s \<and>
       mysql_audit_notify_connection_disconnect thd code s = s \<and> mysql_audit_notify_connection_change_user thd s = s) \<and>
    (MYSQL_AUDIT_GENERAL_CLASS \<notin> K \<longrightarrow> mysql_audit_general_log cs th tm u ul c cl q ql s = s \<and> mysql_audit_general cp now cs th sub err msg s = s)"
proof -
  have t: "mysql_audit_table_enabled s \<longleftrightarrow> MYSQL_AUDIT_TABLE_CLASS \<in> K" and c: "mysql_audit_connection_enabled s \<longleftrightarrow> MYSQL_AUDIT_CONNECTION_CLASS \<in> K"
    and g: "mysql_audit_general_enabled s \<longleftrightarrow> MYSQL_AUDIT_GENERAL_CLASS \<in> K"
    unfolding mysql_audit_table_enabled_def mysql_audit_connection_enabled_def mysql_audit_general_enabled_def
      MYSQL_AUDIT_TABLE_CLASSMASK_def MYSQL_AUDIT_CONNECTION_CLASSMASK_def MYSQL_AUDIT_GENERAL_CLASSMASK_def
      bit_iff_and_push_bit_not_eq_0 [symmetric] using assms by blast+
  have "fold notify_action acts s = s" if "\<not> mysql_audit_table_enabled s"
  proof (induction acts)
    case (Cons a acts)
    have "notify_action a s = s" using that by (cases a) (simp_all add: notify_defs)
    then show ?case using Cons by simp
  qed simp
  then show ?thesis
    using t c g by (simp add: mysql_audit_notify_connection_connect_def mysql_audit_notify_connection_disconnect_def
        mysql_audit_notify_connection_change_user_def mysql_audit_general_log_def mysql_audit_general_def)
qed

text \<open>
  The user in a general event is the text of at most 512 characters that names the user, the login name and the host, and its length is that of the text.
\<close>

theorem general_event_user:
  assumes "\<And>n xs. strxnmov n xs = take n (concat xs)" "mysql_audit_general_enabled s"
  shows "\<exists>e. delivered (mysql_audit_general strxnmov now cs (Some thd) sub err msg s) = delivered s @ [General e] \<and>
    general_user e = Some (take 512 (priv_user (security_ctx thd) @ ''['' @ or_empty (sc_user (security_ctx thd)) @ ''] @ '' @
      or_empty (sc_host (security_ctx thd)) @ '' ['' @ or_empty (sc_ip (security_ctx thd)) @ '']'')) \<and>
    unat (general_user_length e) = length (or_empty (general_user e)) \<and> length (or_empty (general_user e)) \<le> 512"
proof -
  define user where "user = priv_user (security_ctx thd) @ ''['' @ or_empty (sc_user (security_ctx thd)) @ ''] @ '' @
      or_empty (sc_host (security_ctx thd)) @ '' ['' @ or_empty (sc_ip (security_ctx thd)) @ '']''"
  have "make_user_name strxnmov thd = take 512 user"
    using assms(1) by (auto simp: make_user_name_def MAX_USER_HOST_SIZE_def user_def Let_def)
  moreover have "unat (of_nat (length (take 512 user)) :: uint32) = length (take 512 user)"
    by (simp add: unat_of_nat take_bit_eq_mod del: length_take) (simp add: min_def)
  ultimately show ?thesis
    using assms(2) unfolding user_def [symmetric] by (simp add: mysql_audit_general_def mysql_audit_notify_def Let_def or_empty_def)
qed

section \<open>Concrete cases\<close>

definition sample_thd :: audit_thd where
  "sample_thd = \<lparr>at_thread_id = 5, security_ctx = \<lparr>sc_user = Some ''u'', sc_host = None, sc_ip = Some ''1'', priv_user = ''p'', priv_host = ''h'',
     proxy_user = [], external_user = None\<rparr>, at_db = None, at_query_id = 9, character_set_client = 1, query_str = None, query_length = 0,
     query_charset = 1, da_is_error = False, da_sql_errno = 0, da_row = 0\<rparr>"

definition sample_audit :: audit_state where
  "sample_audit = \<lparr>mysql_global_audit_mask = 0x8001, delivered = []\<rparr>"

theorem audit_trail_complete_witness:
  "fold replay (delivered (fold notify_action [Create sample_thd (Some ''d'', Some ''a''), Rename sample_thd (Some ''d'', Some ''a'') (Some ''d'', Some ''b'')] sample_audit)) {}
     = {(Some ''d'', Some ''b'')}"
proof -
  have "mysql_audit_table_enabled sample_audit" "delivered sample_audit = []"
    by (simp_all add: sample_audit_def mysql_audit_table_enabled_def MYSQL_AUDIT_TABLE_CLASSMASK_def MYSQL_AUDIT_TABLE_CLASS_def)
  from audit_trail_complete [OF this, of "[Create sample_thd (Some ''d'', Some ''a''), Rename sample_thd (Some ''d'', Some ''a'') (Some ''d'', Some ''b'')]" "{}"]
  show ?thesis by auto
qed

theorem only_wanted_events_witness: "mysql_audit_notify_connection_connect sample_thd (sample_audit\<lparr>mysql_global_audit_mask := 0\<rparr>) = sample_audit\<lparr>mysql_global_audit_mask := 0\<rparr>"
  using only_wanted_events [of "sample_audit\<lparr>mysql_global_audit_mask := 0\<rparr>" "{}" "[]" sample_thd] by simp

theorem general_event_user_witness:
  "\<exists>e. delivered (mysql_audit_general (\<lambda>n xs. take n (concat xs)) 0 1 (Some sample_thd) MYSQL_AUDIT_GENERAL_STATUS 0 None sample_audit) = [General e] \<and>
     general_user e = Some ''p[u] @  [1]''"
proof -
  have "mysql_audit_general_enabled sample_audit"
    by (simp add: sample_audit_def mysql_audit_general_enabled_def MYSQL_AUDIT_GENERAL_CLASSMASK_def MYSQL_AUDIT_GENERAL_CLASS_def)
  from general_event_user [OF _ this, of "\<lambda>n xs. take n (concat xs)" 0 1 sample_thd MYSQL_AUDIT_GENERAL_STATUS 0 None] show ?thesis
    by (auto simp: sample_audit_def sample_thd_def or_empty_def)
qed

end
