(* ===== verification/TableRefs.thy ===== *)
theory TableRefs
  imports RecordFields QueryTables MdlKey Runs
begin

text \<open>
  Tables and references to tables (\<^verbatim>\<open>table.h\<close>): the names in a cache key, rows that are complemented with NULL, column maps that are replaced for
  a while, iteration over fields, system versioning, and the table references of a statement with their kinds, numbers, versions, nests and
  views.  Fields and their NULL bits are those of \<open>RecordFields\<close>, the list of all tables of a statement is that of \<open>QueryTables\<close>, lock types are those of \<open>MdlKey\<close>.
\<close>

section \<open>Names of a share\<close>

partial_function (option) c_strlen :: "mem \<Rightarrow> ptr \<Rightarrow> nat option" where
  "c_strlen m p = (if m p = 0 then Some 0 else do { n \<leftarrow> c_strlen m (p + 1); Some (n + 1) })"

record share_names =
  cache_key_str :: ptr
  cache_key_length :: uint32
  sh_db_str :: ptr
  sh_db_length :: nat
  sh_name_str :: ptr
  sh_name_length :: nat

definition set_table_cache_key :: "mem \<Rightarrow> ptr \<Rightarrow> uint32 \<Rightarrow> share_names \<Rightarrow> share_names option" where
  "set_table_cache_key m key_buff key_length s =
     do { db_len \<leftarrow> c_strlen m key_buff;
          let name = key_buff + db_len + 1;
          name_len \<leftarrow> c_strlen m name;
          Some (s\<lparr>cache_key_str := key_buff, cache_key_length := key_length, sh_db_str := key_buff, sh_db_length := db_len,
                 sh_name_str := name, sh_name_length := name_len\<rparr>) }"

definition set_table_cache_key_copy :: "mem \<Rightarrow> ptr \<Rightarrow> ptr \<Rightarrow> uint32 \<Rightarrow> share_names \<Rightarrow> (mem \<times> share_names) option" where
  "set_table_cache_key_copy m key_buff key key_length s =
     do { let m1 = put_bytes m key_buff (bytes_at m key (unat key_length));
          s1 \<leftarrow> set_table_cache_key m1 key_buff key_length s;
          Some (m1, s1) }"

section \<open>Kind and version of a share\<close>

datatype enum_table_ref_type = TABLE_REF_NULL | TABLE_REF_VIEW | TABLE_REF_BASE_TABLE | TABLE_REF_I_S_TABLE | TABLE_REF_TMP_TABLE

datatype tmp_table_type = NO_TMP_TABLE | NON_TRANSACTIONAL_TMP_TABLE | TRANSACTIONAL_TMP_TABLE | INTERNAL_TMP_TABLE | SYSTEM_TMP_TABLE

datatype enum_table_category = TABLE_UNKNOWN_CATEGORY | TABLE_CATEGORY_TEMPORARY | TABLE_CATEGORY_USER | TABLE_CATEGORY_SYSTEM
  | TABLE_CATEGORY_INFORMATION | TABLE_CATEGORY_LOG | TABLE_CATEGORY_PERFORMANCE

datatype vers_sys_type_t = VERS_UNDEFINED | VERS_TIMESTAMP | VERS_TRX_ID

record TABLE_SHARE =
  share_is_view :: bool
  share_tmp_table :: tmp_table_type
  table_map_id :: ulong
  table_category :: enum_table_category
  share_versioned :: vers_sys_type_t
  row_start_field :: uint16
  row_end_field :: uint16

definition honor_global_locks :: "TABLE_SHARE \<Rightarrow> bool" where
  "honor_global_locks s \<longleftrightarrow> table_category s = TABLE_CATEGORY_USER \<or> table_category s = TABLE_CATEGORY_SYSTEM"

definition require_write_privileges :: "TABLE_SHARE \<Rightarrow> bool" where
  "require_write_privileges s \<longleftrightarrow> table_category s = TABLE_CATEGORY_LOG"

definition get_table_ref_type :: "TABLE_SHARE \<Rightarrow> enum_table_ref_type" where
  "get_table_ref_type s =
     (if share_is_view s then TABLE_REF_VIEW
      else case share_tmp_table s of NO_TMP_TABLE \<Rightarrow> TABLE_REF_BASE_TABLE | SYSTEM_TMP_TABLE \<Rightarrow> TABLE_REF_I_S_TABLE | _ \<Rightarrow> TABLE_REF_TMP_TABLE)"

definition get_table_ref_version :: "TABLE_SHARE \<Rightarrow> ulong" where
  "get_table_ref_version s = (if share_tmp_table s = SYSTEM_TMP_TABLE then 0 else table_map_id s)"

section \<open>Open tables\<close>

text \<open>The NULL flags of the row: \<open>bfill\<close> fills bytes.\<close>

record table_row =
  tr_table :: TABLE
  tr_status :: uint32
  null_flags :: ptr
  null_bytes :: nat

definition STATUS_NULL_ROW :: uint32 where "STATUS_NULL_ROW = 32"

definition mark_as_null_row :: "mem \<times> table_row \<Rightarrow> mem \<times> table_row" where
  "mark_as_null_row = (\<lambda>(m, t).
     (put_bytes m (null_flags t) (replicate (null_bytes t) 255),
      t\<lparr>tr_table := (tr_table t)\<lparr>null_row := True\<rparr>, tr_status := tr_status t OR STATUS_NULL_ROW\<rparr>))"

text \<open>Column maps by address: what counts is the buffer each map points to.\<close>

type_synonym map_buffers = "ptr \<Rightarrow> ptr"

definition tmp_use_all_columns :: "ptr \<Rightarrow> ptr \<Rightarrow> map_buffers \<Rightarrow> ptr \<times> map_buffers" where
  "tmp_use_all_columns all_set bitmap b = (b bitmap, b(bitmap := b all_set))"

definition tmp_restore_column_map :: "ptr \<Rightarrow> ptr \<Rightarrow> map_buffers \<Rightarrow> map_buffers" where
  "tmp_restore_column_map bitmap old b = b(bitmap := old)"

definition dbug_tmp_use_all_columns :: "ptr \<Rightarrow> ptr \<Rightarrow> ptr \<Rightarrow> map_buffers \<Rightarrow> (ptr \<times> ptr) \<times> map_buffers" where
  "dbug_tmp_use_all_columns all_set read_set write_set b =
     (let save = (b read_set, b write_set);
          (_, b1) = tmp_use_all_columns all_set read_set b;
          (_, b2) = tmp_use_all_columns all_set write_set b1
      in (save, b2))"

definition dbug_tmp_restore_column_maps :: "ptr \<Rightarrow> ptr \<Rightarrow> ptr \<times> ptr \<Rightarrow> map_buffers \<Rightarrow> map_buffers" where
  "dbug_tmp_restore_column_maps read_set write_set old b =
     tmp_restore_column_map write_set (snd old) (tmp_restore_column_map read_set (fst old) b)"

record table_maps =
  read_set :: ptr
  write_set :: ptr
  vcol_set :: ptr
  rpl_write_set :: ptr
  has_file :: bool

text \<open>The Boolean result says whether the engine is told.\<close>

definition column_bitmaps_set_read :: "ptr \<Rightarrow> table_maps \<Rightarrow> bool \<times> table_maps" where
  "column_bitmaps_set_read r t = (has_file t, t\<lparr>read_set := r\<rparr>)"

definition column_bitmaps_set :: "ptr \<Rightarrow> ptr \<Rightarrow> table_maps \<Rightarrow> bool \<times> table_maps" where
  "column_bitmaps_set r w t = (has_file t, t\<lparr>read_set := r, write_set := w\<rparr>)"

definition column_bitmaps_set_vcol :: "ptr \<Rightarrow> ptr \<Rightarrow> ptr \<Rightarrow> table_maps \<Rightarrow> bool \<times> table_maps" where
  "column_bitmaps_set_vcol r w v t = (has_file t, t\<lparr>read_set := r, write_set := w, vcol_set := v\<rparr>)"

definition column_bitmaps_set_no_signal :: "ptr \<Rightarrow> ptr \<Rightarrow> table_maps \<Rightarrow> table_maps" where
  "column_bitmaps_set_no_signal r w t = t\<lparr>read_set := r, write_set := w\<rparr>"

definition column_bitmaps_set_no_signal_vcol :: "ptr \<Rightarrow> ptr \<Rightarrow> ptr \<Rightarrow> table_maps \<Rightarrow> table_maps" where
  "column_bitmaps_set_no_signal_vcol r w v t = t\<lparr>read_set := r, write_set := w, vcol_set := v\<rparr>"

definition use_all_columns :: "ptr \<Rightarrow> table_maps \<Rightarrow> bool \<times> table_maps" where
  "use_all_columns all_set t = column_bitmaps_set all_set all_set t"

definition default_column_bitmaps :: "ptr \<Rightarrow> ptr \<Rightarrow> ptr \<Rightarrow> table_maps \<Rightarrow> table_maps" where
  "default_column_bitmaps def_read_set def_write_set def_vcol_set t =
     t\<lparr>read_set := def_read_set, write_set := def_write_set, vcol_set := def_vcol_set, rpl_write_set := 0\<rparr>"

definition needs_reopen :: "uint32 \<Rightarrow> bool \<Rightarrow> bool" where
  "needs_reopen db_stat m_needs_reopen \<longleftrightarrow> db_stat = 0 \<or> m_needs_reopen"

text \<open>Creation of the table: the engine is told once of an index-only read that was enabled before.\<close>

definition set_created :: "bool \<Rightarrow> bool \<times> nat \<Rightarrow> bool \<times> nat" where
  "set_created keyread_enabled s =
     (if fst s then s else (True, snd s + (if keyread_enabled then 1 else 0)))"

section \<open>System versioning\<close>

definition table_versioned :: "TABLE_SHARE option \<Rightarrow> bool option" where
  "table_versioned s = do { sh \<leftarrow> s; Some (share_versioned sh \<noteq> VERS_UNDEFINED) }"

definition table_versioned_type :: "vers_sys_type_t \<Rightarrow> TABLE_SHARE option \<Rightarrow> bool option" where
  "table_versioned_type type s = do { sh \<leftarrow> s; DBUG_ASSERT (type \<noteq> VERS_UNDEFINED); Some (share_versioned sh = type) }"

definition versioned_write :: "vers_sys_type_t \<Rightarrow> bool \<Rightarrow> TABLE_SHARE option \<Rightarrow> bool option" where
  "versioned_write type vers_write s =
     do { v \<leftarrow> table_versioned s;
          DBUG_ASSERT (v \<or> \<not> vers_write);
          vt \<leftarrow> table_versioned_type type s;
          Some (if vt then vers_write else False) }"

definition field_at :: "ptr list \<Rightarrow> nat \<Rightarrow> ptr option" where
  "field_at field_arr i = (if i < length field_arr then Some (field_arr ! i) else None)"

definition vers_start_field :: "ptr list \<Rightarrow> TABLE_SHARE option \<Rightarrow> ptr option" where
  "vers_start_field field_arr s =
     do { sh \<leftarrow> s; DBUG_ASSERT (share_versioned sh \<noteq> VERS_UNDEFINED); field_at field_arr (unat (row_start_field sh)) }"

definition vers_end_field :: "ptr list \<Rightarrow> TABLE_SHARE option \<Rightarrow> ptr option" where
  "vers_end_field field_arr s =
     do { sh \<leftarrow> s; DBUG_ASSERT (share_versioned sh \<noteq> VERS_UNDEFINED); field_at field_arr (unat (row_end_field sh)) }"

datatype vers_system_time_t = SYSTEM_TIME_UNSPECIFIED | SYSTEM_TIME_AS_OF | SYSTEM_TIME_FROM_TO | SYSTEM_TIME_BETWEEN | SYSTEM_TIME_BEFORE | SYSTEM_TIME_ALL

record Vers_history_point =
  hp_unit :: vers_sys_type_t
  hp_item :: ptr

definition history_point_empty :: Vers_history_point where
  "history_point_empty = \<lparr>hp_unit = VERS_UNDEFINED, hp_item = 0\<rparr>"

definition resolve_unit_trx_id :: "Vers_history_point \<Rightarrow> bool \<times> Vers_history_point" where
  "resolve_unit_trx_id p = (False, if hp_unit p = VERS_UNDEFINED then p\<lparr>hp_unit := VERS_TRX_ID\<rparr> else p)"

definition resolve_unit_timestamp :: "Vers_history_point \<Rightarrow> bool \<times> Vers_history_point" where
  "resolve_unit_timestamp p = (False, if hp_unit p = VERS_UNDEFINED then p\<lparr>hp_unit := VERS_TIMESTAMP\<rparr> else p)"

record vers_select_conds_t =
  vc_type :: vers_system_time_t
  vc_used :: bool
  vc_start :: Vers_history_point
  vc_end :: Vers_history_point

definition vers_conds_empty :: vers_select_conds_t where
  "vers_conds_empty = \<lparr>vc_type = SYSTEM_TIME_UNSPECIFIED, vc_used = False, vc_start = history_point_empty, vc_end = history_point_empty\<rparr>"

definition vers_conds_init :: "vers_system_time_t \<Rightarrow> Vers_history_point \<Rightarrow> Vers_history_point \<Rightarrow> vers_select_conds_t" where
  "vers_conds_init type s e = \<lparr>vc_type = type, vc_used = False, vc_start = s, vc_end = e\<rparr>"

definition vers_conds_is_set :: "vers_select_conds_t \<Rightarrow> bool" where
  "vers_conds_is_set c \<longleftrightarrow> vc_type c \<noteq> SYSTEM_TIME_UNSPECIFIED"

section \<open>References to tables\<close>

definition DTYPE_VIEW :: uint32 where "DTYPE_VIEW = 1"
definition DTYPE_TABLE :: uint32 where "DTYPE_TABLE = 2"
definition DTYPE_MERGE :: uint32 where "DTYPE_MERGE = 4"
definition DTYPE_MATERIALIZE :: uint32 where "DTYPE_MATERIALIZE = 8"
definition DTYPE_MULTITABLE :: uint32 where "DTYPE_MULTITABLE = 16"
definition DTYPE_MASK :: uint32 where "DTYPE_MASK = (DTYPE_VIEW OR DTYPE_TABLE OR DTYPE_MULTITABLE)"

lemmas dtype_defs = DTYPE_VIEW_def DTYPE_TABLE_def DTYPE_MERGE_def DTYPE_MATERIALIZE_def DTYPE_MULTITABLE_def DTYPE_MASK_def

definition is_non_derived :: "uint32 \<Rightarrow> bool" where "is_non_derived d \<longleftrightarrow> d = 0"
definition is_view_or_derived :: "uint32 \<Rightarrow> bool" where "is_view_or_derived d \<longleftrightarrow> d \<noteq> 0"
definition is_view :: "uint32 \<Rightarrow> bool" where "is_view d \<longleftrightarrow> d AND DTYPE_VIEW \<noteq> 0"
definition is_derived :: "uint32 \<Rightarrow> bool" where "is_derived d \<longleftrightarrow> d AND DTYPE_TABLE \<noteq> 0"
definition is_merged_derived :: "uint32 \<Rightarrow> bool" where "is_merged_derived d \<longleftrightarrow> d AND DTYPE_MERGE \<noteq> 0"
definition is_materialized_derived :: "uint32 \<Rightarrow> bool" where "is_materialized_derived d \<longleftrightarrow> d AND DTYPE_MATERIALIZE \<noteq> 0"
definition is_multitable :: "uint32 \<Rightarrow> bool" where "is_multitable d \<longleftrightarrow> d AND DTYPE_MULTITABLE \<noteq> 0"

definition set_view :: "uint32 \<Rightarrow> uint32" where "set_view d = DTYPE_VIEW"
definition set_derived :: "uint32 \<Rightarrow> uint32" where "set_derived d = DTYPE_TABLE"
definition set_multitable :: "uint32 \<Rightarrow> uint32" where "set_multitable d = d OR DTYPE_MULTITABLE"

definition set_merged_derived :: "uint32 \<Rightarrow> uint32" where
  "set_merged_derived d = (d AND DTYPE_MASK) OR DTYPE_TABLE OR DTYPE_MERGE"

text \<open>\<open>get_unit\<close> is compiled; the first argument is its result.\<close>

definition set_materialized_derived :: "ptr \<Rightarrow> uint32 \<Rightarrow> uint32" where
  "set_materialized_derived derived d = (d AND (if derived \<noteq> 0 then DTYPE_MASK else DTYPE_VIEW)) OR DTYPE_TABLE OR DTYPE_MATERIALIZE"

text \<open>The number and the bit of a table; a shift by 64 or more has no result.\<close>

record open_table =
  tablenr :: uint32
  table_bit :: uint64

record table_number =
  jtbm_subselect :: ptr
  jtbm_table_no :: uint32
  tn_table :: "open_table option"

definition table_map_of :: "uint32 \<Rightarrow> uint64 option" where
  "table_map_of n = (if unat n < 64 then Some (push_bit (unat n) 1) else None)"

definition get_map :: "table_number \<Rightarrow> uint64 option" where
  "get_map t = (if jtbm_subselect t \<noteq> 0 then table_map_of (jtbm_table_no t) else do { o1 \<leftarrow> tn_table t; Some (table_bit o1) })"

definition get_tablenr :: "table_number \<Rightarrow> uint32 option" where
  "get_tablenr t = (if jtbm_subselect t \<noteq> 0 then Some (jtbm_table_no t) else do { o1 \<leftarrow> tn_table t; Some (tablenr o1) })"

definition set_tablenr :: "uint32 \<Rightarrow> table_number \<Rightarrow> table_number option" where
  "set_tablenr new_tablenr t =
     (let t1 = (if jtbm_subselect t \<noteq> 0 then t\<lparr>jtbm_table_no := new_tablenr\<rparr> else t)
      in case tn_table t1 of
           Some o1 \<Rightarrow> do { b \<leftarrow> table_map_of new_tablenr; Some (t1\<lparr>tn_table := Some (o1\<lparr>tablenr := new_tablenr, table_bit := b\<rparr>)\<rparr>) }
         | None \<Rightarrow> Some t1)"

text \<open>The version a prepared statement remembers.\<close>

record table_ref_id =
  m_table_ref_type :: enum_table_ref_type
  m_table_ref_version :: ulong

definition set_table_ref_id :: "TABLE_SHARE \<Rightarrow> table_ref_id \<Rightarrow> table_ref_id" where
  "set_table_ref_id s r = r\<lparr>m_table_ref_type := get_table_ref_type s, m_table_ref_version := get_table_ref_version s\<rparr>"

definition is_table_ref_id_equal :: "TABLE_SHARE \<Rightarrow> table_ref_id \<Rightarrow> bool" where
  "is_table_ref_id_equal s r \<longleftrightarrow> m_table_ref_type r = get_table_ref_type s \<and> m_table_ref_version r = get_table_ref_version s"

text \<open>Nests and views.\<close>

record ref_node =
  embedding :: ptr
  outer_join :: uint32
  merge_underlying_list :: ptr
  derived_type :: uint32
  belong_to_view :: ptr

partial_function (option) inner_table_loop :: "ref_node node_heap \<Rightarrow> ptr \<Rightarrow> bool option" where
  "inner_table_loop h tbl =
     (if tbl \<noteq> 0 then do { n \<leftarrow> read_node h tbl; if outer_join n \<noteq> 0 then Some True else inner_table_loop h (embedding n) } else Some False)"

definition is_inner_table_of_outer_join :: "ref_node node_heap \<Rightarrow> ptr \<Rightarrow> bool option" where
  "is_inner_table_of_outer_join h this = inner_table_loop h this"

partial_function (option) find_table_for_update :: "(ptr \<Rightarrow> bool) \<Rightarrow> ref_node node_heap \<Rightarrow> ptr \<Rightarrow> ptr option" where
  "find_table_for_update single_table_updatable h tbl =
     do { n \<leftarrow> read_node h tbl;
          if \<not> is_multitable (derived_type n) \<and> single_table_updatable tbl \<and> merge_underlying_list n \<noteq> 0
          then find_table_for_update single_table_updatable h (merge_underlying_list n) else Some tbl }"

definition top_table :: "ref_node node_heap \<Rightarrow> ptr \<Rightarrow> ptr option" where
  "top_table h this = do { n \<leftarrow> read_node h this; Some (if belong_to_view n \<noteq> 0 then belong_to_view n else this) }"

text \<open>The lock types of tables, in the order of the enumeration.\<close>

datatype thr_lock_type = TL_IGNORE | TL_UNLOCK | TL_READ_DEFAULT | TL_READ | TL_READ_WITH_SHARED_LOCKS | TL_READ_HIGH_PRIORITY | TL_READ_NO_INSERT
  | TL_WRITE_ALLOW_WRITE | TL_WRITE_CONCURRENT_INSERT | TL_WRITE_DELAYED | TL_WRITE_DEFAULT | TL_WRITE_LOW_PRIORITY | TL_WRITE | TL_WRITE_ONLY

primrec thr_lock_num :: "thr_lock_type \<Rightarrow> int" where
  "thr_lock_num TL_IGNORE = - 1" | "thr_lock_num TL_UNLOCK = 0" | "thr_lock_num TL_READ_DEFAULT = 1" | "thr_lock_num TL_READ = 2"
| "thr_lock_num TL_READ_WITH_SHARED_LOCKS = 3" | "thr_lock_num TL_READ_HIGH_PRIORITY = 4" | "thr_lock_num TL_READ_NO_INSERT = 5"
| "thr_lock_num TL_WRITE_ALLOW_WRITE = 6" | "thr_lock_num TL_WRITE_CONCURRENT_INSERT = 7" | "thr_lock_num TL_WRITE_DELAYED = 8"
| "thr_lock_num TL_WRITE_DEFAULT = 9" | "thr_lock_num TL_WRITE_LOW_PRIORITY = 10" | "thr_lock_num TL_WRITE = 11" | "thr_lock_num TL_WRITE_ONLY = 12"

definition mdl_type_for_lock :: "thr_lock_type \<Rightarrow> enum_mdl_type" where
  "mdl_type_for_lock lock_type_arg =
     (if thr_lock_num lock_type_arg \<ge> thr_lock_num TL_WRITE_ALLOW_WRITE then MDL_SHARED_WRITE
      else if lock_type_arg = TL_READ_NO_INSERT then MDL_SHARED_NO_WRITE
      else MDL_SHARED_READ)"

text \<open>
  The part of \<open>init_one_table_for_prelocking\<close> that links the new reference: \<open>init_one_table\<close> has cleared it, and the pointer to the last link is that of the
  list of all tables.
\<close>

definition prelocking_link :: "ptr \<Rightarrow> table_heap \<times> Query_tables_list \<Rightarrow> (table_heap \<times> Query_tables_list) option" where
  "prelocking_link this s =
     do { h0 \<leftarrow> write_node (fst s) this (\<lambda>_. \<lparr>next_global = 0, prev_global = Query_tables\<rparr>);
          (h1, q1) \<leftarrow> link_write (h0, snd s) (query_tables_last (snd s)) this;
          h2 \<leftarrow> write_node h1 this (\<lambda>n. n\<lparr>prev_global := query_tables_last (snd s)\<rparr>);
          Some (h2, q1\<lparr>query_tables_last := Next_global this\<rparr>) }"

definition set_zone :: "int \<Rightarrow> int \<Rightarrow> int \<Rightarrow> int" where
  "set_zone nr min_zone max_zone = (if nr \<le> min_zone then min_zone else if nr \<ge> max_zone then max_zone else nr)"

definition is_fully_covered :: "uint32 \<Rightarrow> uint32 \<Rightarrow> bool" where
  "is_fully_covered n_tables counter \<longleftrightarrow> n_tables = counter"

section \<open>Iterating over fields\<close>

text \<open>The fields of a table are an array that ends with a null pointer; those of a merged view an array with a given end.\<close>

definition table_it_set :: "ptr list \<Rightarrow> ptr list" where
  "table_it_set field_array = field_array"

definition table_it_next :: "ptr list \<Rightarrow> ptr list option" where
  "table_it_next p = (case p of [] \<Rightarrow> None | _ # ps \<Rightarrow> Some ps)"

definition table_it_end :: "ptr list \<Rightarrow> bool option" where
  "table_it_end p = (case p of [] \<Rightarrow> None | f # _ \<Rightarrow> Some (f = 0))"

definition table_it_field :: "ptr list \<Rightarrow> ptr option" where
  "table_it_field p = (case p of [] \<Rightarrow> None | f # _ \<Rightarrow> Some f)"

record view_it =
  vi_ptr :: nat
  vi_end :: nat

definition view_it_next :: "view_it \<Rightarrow> view_it option" where
  "view_it_next v = Some (v\<lparr>vi_ptr := vi_ptr v + 1\<rparr>)"

definition view_it_end :: "view_it \<Rightarrow> bool option" where
  "view_it_end v = Some (vi_ptr v = vi_end v)"

definition view_it_item :: "ptr list \<Rightarrow> view_it \<Rightarrow> ptr option" where
  "view_it_item items v = (if vi_ptr v < length items then Some (items ! vi_ptr v) else None)"

text \<open>The contract of an iterator and the loop of its clients.\<close>

partial_function (option) all_fields :: "('s \<Rightarrow> bool option) \<Rightarrow> ('s \<Rightarrow> 's option) \<Rightarrow> ('s \<Rightarrow> 'f option) \<Rightarrow> 's \<Rightarrow> 'f list option" where
  "all_fields end_of step cur s =
     do { e \<leftarrow> end_of s;
          if e then Some [] else do { f \<leftarrow> cur s; s1 \<leftarrow> step s; fs \<leftarrow> all_fields end_of step cur s1; Some (f # fs) } }"

locale field_iterator =
  fixes end_of :: "'s \<Rightarrow> bool option" and step :: "'s \<Rightarrow> 's option" and cur :: "'s \<Rightarrow> 'f option" and at_fields :: "'s \<Rightarrow> 'f list \<Rightarrow> bool"
  assumes at_end: "at_fields s [] \<Longrightarrow> end_of s = Some True"
    and at_field: "at_fields s (x # xs) \<Longrightarrow> end_of s = Some False \<and> cur s = Some x \<and> (\<exists>s'. step s = Some s' \<and> at_fields s' xs)"
begin

lemma visits: "at_fields s xs \<Longrightarrow> all_fields end_of step cur s = Some xs"
proof (induction xs arbitrary: s)
  case Nil
  then show ?case by (subst all_fields.simps) (simp add: at_end)
next
  case (Cons x xs)
  from at_field [OF Cons.prems] obtain s' where "end_of s = Some False" "cur s = Some x" "step s = Some s'" "at_fields s' xs" by blast
  then show ?case using Cons.IH by (subst all_fields.simps) simp
qed

end

interpretation table_fields: field_iterator table_it_end table_it_next table_it_field "\<lambda>p xs. 0 \<notin> set xs \<and> (\<exists>rest. p = xs @ 0 # rest)"
  by unfold_locales (auto simp: table_it_end_def table_it_next_def table_it_field_def)

interpretation view_fields: field_iterator view_it_end view_it_next "view_it_item items"
  "\<lambda>v xs. vi_end v \<le> length items \<and> vi_ptr v \<le> vi_end v \<and> xs = take (vi_end v - vi_ptr v) (drop (vi_ptr v) items)" for items
proof
  fix v :: view_it and x xs
  assume "vi_end v \<le> length items \<and> vi_ptr v \<le> vi_end v \<and> x # xs = take (vi_end v - vi_ptr v) (drop (vi_ptr v) items)"
  then have v: "vi_end v \<le> length items" "vi_ptr v \<le> vi_end v" "take (vi_end v - vi_ptr v) (drop (vi_ptr v) items) = x # xs" by auto
  then have lt: "vi_ptr v < vi_end v" by (cases "vi_end v - vi_ptr v") auto
  then obtain k where k: "vi_end v - vi_ptr v = Suc k" "vi_end v - (vi_ptr v + 1) = k" by (metis Suc_diff_Suc add.commute plus_1_eq_Suc)
  have "drop (vi_ptr v) items = items ! vi_ptr v # drop (vi_ptr v + 1) items" using v(1) lt by (simp add: Cons_nth_drop_Suc)
  then have "x = items ! vi_ptr v" "xs = take (vi_end v - (vi_ptr v + 1)) (drop (vi_ptr v + 1) items)"
    using v(3) unfolding k by simp_all
  then show "view_it_end v = Some False \<and> view_it_item items v = Some x \<and>
      (\<exists>s'. view_it_next v = Some s' \<and> vi_end s' \<le> length items \<and> vi_ptr s' \<le> vi_end s' \<and> xs = take (vi_end s' - vi_ptr s') (drop (vi_ptr s') items))"
    using v lt by (simp add: view_it_end_def view_it_item_def view_it_next_def)
qed (auto simp: view_it_end_def)

text \<open>Both iterators visit exactly the fields of the table or view, in order, and end.\<close>

theorem field_iterators_visit_all:
  assumes "0 \<notin> set fs" "n \<le> length items"
  shows "all_fields table_it_end table_it_next table_it_field (table_it_set (fs @ 0 # rest)) = Some fs \<and>
    all_fields view_it_end view_it_next (view_it_item items) \<lparr>vi_ptr = 0, vi_end = n\<rparr> = Some (take n items)"
  using table_fields.visits [of fs "fs @ 0 # rest"] view_fields.visits [of "\<lparr>vi_ptr = 0, vi_end = n\<rparr>" items "take n items"] assms
  by (simp add: table_it_set_def)

section \<open>Names in a cache key\<close>

lemma c_strlen_bytes:
  "bytes_at m p (length s + 1) = s @ [0] \<Longrightarrow> 0 \<notin> set s \<Longrightarrow> c_strlen m p = Some (length s)"
proof (induction s arbitrary: p)
  case Nil
  then show ?case by (subst c_strlen.simps) (simp add: bytes_at_Suc)
next
  case (Cons b s)
  have "c_strlen m (Suc p) = Some (length s)" using Cons.prems by (intro Cons.IH) (simp_all add: bytes_at_Suc)
  moreover have "m p = b" "b \<noteq> 0" using Cons.prems by (auto simp: bytes_at_Suc)
  ultimately show ?case by (subst c_strlen.simps) simp
qed

lemma key_bytes_split:
  "bytes_at m p (length xs + k) = xs @ ys \<Longrightarrow> bytes_at m p (length xs) = xs \<and> bytes_at m (p + length xs) k = ys"
  by (simp add: bytes_at_append)

lemma cache_key_bytes:
  assumes "bytes_at m p (unat len) = db @ [0] @ nm @ [0] @ rest" "0 \<notin> set db" "0 \<notin> set nm"
  shows "\<exists>s'. set_table_cache_key m p len s = Some s' \<and> sh_db_length s' = length db \<and> bytes_at m (sh_db_str s') (sh_db_length s') = db \<and>
    sh_name_length s' = length nm \<and> bytes_at m (sh_name_str s') (sh_name_length s') = nm"
proof -
  have "length (bytes_at m p (unat len)) = length (db @ [0] @ nm @ [0] @ rest)" using assms(1) by (simp only:)
  then have len: "unat len = length (db @ [0]) + (length (nm @ [0]) + length rest)" by simp
  have b: "bytes_at m p (length (db @ [0])) = db @ [0]" "bytes_at m (p + length (db @ [0])) (length (nm @ [0])) = nm @ [0]"
    using key_bytes_split [of m p "db @ [0]" "length (nm @ [0]) + length rest" "nm @ [0] @ rest"]
      key_bytes_split [of m "p + length (db @ [0])" "nm @ [0]" "length rest" rest] assms(1) len by simp_all
  then have n: "bytes_at m p (length db) = db" "bytes_at m (p + length (db @ [0])) (length nm) = nm"
    using key_bytes_split [of m p db 1 "[0]"] key_bytes_split [of m "p + length (db @ [0])" nm 1 "[0]"] by simp_all
  have "c_strlen m p = Some (length db)" "c_strlen m (p + length (db @ [0])) = Some (length nm)"
    using c_strlen_bytes [of m p db] c_strlen_bytes [of m "p + length (db @ [0])" nm] b assms(2,3) by simp_all
  then show ?thesis using n by (simp add: set_table_cache_key_def Let_def)
qed

text \<open>
  The cache key of a share consists of the name of the database, a zero, the name of the table, a zero and an optional rest: both ways of setting it
  find the two names in it.
\<close>

theorem cache_key_names:
  assumes "bytes_at m key (unat len) = db @ [0] @ nm @ [0] @ rest" "0 \<notin> set db" "0 \<notin> set nm"
  shows "(\<exists>s'. set_table_cache_key m key len s = Some s' \<and> bytes_at m (sh_db_str s') (sh_db_length s') = db \<and>
      bytes_at m (sh_name_str s') (sh_name_length s') = nm) \<and>
    (\<exists>m' s'. set_table_cache_key_copy m key_buff key len s = Some (m', s') \<and> bytes_at m' (sh_db_str s') (sh_db_length s') = db \<and>
      bytes_at m' (sh_name_str s') (sh_name_length s') = nm \<and> (\<forall>a. a < key_buff \<or> key_buff + unat len \<le> a \<longrightarrow> m' a = m a))"
proof -
  let ?m = "put_bytes m key_buff (bytes_at m key (unat len))"
  have "bytes_at ?m key_buff (unat len) = db @ [0] @ nm @ [0] @ rest" 
    by (subst bytes_at_put_same) (simp, rule assms(1))
  from cache_key_bytes [OF this assms(2,3), of s] cache_key_bytes [OF assms, of s] show ?thesis
    by (fastforce simp: set_table_cache_key_copy_def Let_def put_bytes_apply)
qed

section \<open>Null-complemented rows\<close>

text \<open>
  A row that is complemented with NULL: every field of the table is then NULL, those that have a NULL bit through it, the others through the mark of the
  row.
\<close>

theorem null_row_has_only_nulls:
  assumes "mark_as_null_row (m, t) = (m', t')"
    and "\<forall>f\<in>set fs. null_ptr f = 0 \<or> (null_bit f \<noteq> 0 \<and> null_flags t \<le> null_ptr f \<and> null_ptr f < null_flags t + null_bytes t)"
  shows "\<forall>f\<in>set fs. is_null m' (tr_table t') f 0"
proof
  fix f
  assume "f \<in> set fs"
  then consider "null_ptr f = 0" | "null_bit f \<noteq> 0" "null_flags t \<le> null_ptr f" "null_ptr f < null_flags t + null_bytes t" using assms(2) by auto
  then show "is_null m' (tr_table t') f 0"
  proof cases
    case 2
    then have "m' (null_ptr f) = 255" using assms(1) by (auto simp: mark_as_null_row_def put_bytes_apply)
    moreover have "(255 :: uchar) AND b = b" for b
    proof -
      have "(255 :: uchar) = - 1" by simp
      then show ?thesis by (simp only: and_minus_numerals and.left_neutral)
    qed
    ultimately show ?thesis using 2(1) assms(1) by (auto simp: is_null_def ADD_TO_PTR_def mark_as_null_row_def)
  qed (use assms(1) in \<open>auto simp: is_null_def mark_as_null_row_def\<close>)
qed

section \<open>Column maps\<close>

text \<open>
  Using all columns for a while: between the two calls both maps have all columns, and afterwards every map is as before, also if the two maps are
  the same one.
\<close>

theorem column_maps_restored:
  "let (old, b1) = dbug_tmp_use_all_columns all_set rs ws b
   in b1 rs = b all_set \<and> b1 ws = b all_set \<and> dbug_tmp_restore_column_maps rs ws old b1 = b"
  by (auto simp: dbug_tmp_use_all_columns_def dbug_tmp_restore_column_maps_def tmp_use_all_columns_def tmp_restore_column_map_def Let_def)

section \<open>Kinds of references\<close>

datatype kind_op = Set_view | Set_derived | Set_merged | Set_materialized ptr | Set_multitable

primrec kind_exec :: "kind_op \<Rightarrow> uint32 \<Rightarrow> uint32" where
  "kind_exec Set_view = set_view" | "kind_exec Set_derived = set_derived" | "kind_exec Set_merged = set_merged_derived"
| "kind_exec (Set_materialized u) = set_materialized_derived u" | "kind_exec Set_multitable = set_multitable"

text \<open>The abstract kind: view, derived table, how it is processed, several tables.\<close>

datatype processing = Undecided | Merged | Materialized

type_synonym kind = "bool \<times> bool \<times> processing \<times> bool"

primrec kind_spec :: "kind_op \<Rightarrow> kind \<Rightarrow> kind" where
  "kind_spec Set_view k = (True, False, Undecided, False)"
| "kind_spec Set_derived k = (False, True, Undecided, False)"
| "kind_spec Set_merged k = (fst k, True, Merged, snd (snd (snd k)))"
| "kind_spec (Set_materialized u) k = (fst k, True, Materialized, u \<noteq> 0 \<and> snd (snd (snd k)))"
| "kind_spec Set_multitable k = (fst k, fst (snd k), fst (snd (snd k)), True)"

definition kind_rel :: "uint32 \<Rightarrow> kind \<Rightarrow> bool" where
  "kind_rel d k \<longleftrightarrow> (case k of (v, t, p, mt) \<Rightarrow>
     d = (if v then 1 else 0) OR (if t then 2 else 0) OR (case p of Undecided \<Rightarrow> 0 | Merged \<Rightarrow> 4 | Materialized \<Rightarrow> 8) OR (if mt then 16 else 0))"

interpretation kinds: simulation kind_exec kind_spec "\<lambda>_ _. True" kind_rel
proof
  fix d :: uint32 and k :: kind and op :: kind_op
  assume r: "kind_rel d k"
  obtain v t p mt where k: "k = (v, t, p, mt)" by (metis prod_cases4)
  show "kind_rel (kind_exec op d) (kind_spec op k)"
    using r unfolding k
    by (cases op; cases v; cases t; cases p; cases mt)
       (simp_all add: kind_rel_def set_view_def set_derived_def set_merged_derived_def set_materialized_derived_def set_multitable_def dtype_defs)
qed

lemma kind_tests:
  "kind_rel d (v, t, p, mt) \<Longrightarrow> is_view d = v \<and> is_derived d = t \<and> is_merged_derived d = (p = Merged) \<and>
     is_materialized_derived d = (p = Materialized) \<and> is_multitable d = mt \<and> is_view_or_derived d = (v \<or> t \<or> p \<noteq> Undecided \<or> mt)"
  by (cases v; cases t; cases p; cases mt)
     (simp_all add: kind_rel_def is_view_def is_derived_def is_merged_derived_def is_materialized_derived_def is_multitable_def is_view_or_derived_def dtype_defs)

text \<open>
  The kind of a reference: after any sequence of decisions the tests report the latest ones; a reference is never both merged and materialised, and a
  decision how to process it keeps that it is a view.
\<close>

theorem reference_kinds:
  assumes "fold kind_spec ops (False, False, Undecided, False) = (v, t, p, mt)"
  shows "let d = fold kind_exec ops 0 in is_view d = v \<and> is_derived d = t \<and> is_merged_derived d = (p = Merged) \<and>
    is_materialized_derived d = (p = Materialized) \<and> is_multitable d = mt \<and> \<not> (is_merged_derived d \<and> is_materialized_derived d)"
proof -
  have "kind_rel 0 (False, False, Undecided, False)" by (simp add: kind_rel_def)
  from kinds.run [OF this, of ops] assms have "kind_rel (fold kind_exec ops 0) (v, t, p, mt)" by (simp add: allowed_all)
  from kind_tests [OF this] show ?thesis by (auto simp: Let_def)
qed

section \<open>Numbers and versions\<close>

text \<open>
  A number below 64 that is given to a reference, be it an open table or a materialised subquery, is read back, and its bit is the only one of the
  map; with a number of 64 or more an open table has no bit.
\<close>

theorem table_numbers:
  assumes "jtbm_subselect t \<noteq> 0 \<or> tn_table t \<noteq> None"
  shows "(unat n < 64 \<longrightarrow> (\<exists>t' b. set_tablenr n t = Some t' \<and> get_tablenr t' = Some n \<and> get_map t' = Some b \<and> (\<forall>k. bit b k \<longleftrightarrow> k = unat n))) \<and>
    (\<not> unat n < 64 \<longrightarrow> tn_table t \<noteq> None \<longrightarrow> set_tablenr n t = None)"
proof -
  have "bit (push_bit k (1 :: uint64)) i \<longleftrightarrow> i = k" if "k < 64" for k i
    using that by (auto simp: bit_exp_iff possible_bit_word)
  then show ?thesis using assms
    by (cases "tn_table t") (auto simp: set_tablenr_def get_tablenr_def get_map_def table_map_of_def Let_def)
qed

text \<open>
  A prepared statement notices a change of a table: it accepts the share exactly if the kind is the same and, except for tables of the
  information schema, the version too.
\<close>

theorem changed_tables_noticed:
  assumes "share_is_view s \<longrightarrow> share_tmp_table s \<noteq> SYSTEM_TMP_TABLE" "share_is_view s' \<longrightarrow> share_tmp_table s' \<noteq> SYSTEM_TMP_TABLE"
  shows "is_table_ref_id_equal s' (set_table_ref_id s r) \<longleftrightarrow>
    get_table_ref_type s' = get_table_ref_type s \<and> (get_table_ref_type s = TABLE_REF_I_S_TABLE \<or> table_map_id s' = table_map_id s)"
  using assms by (cases "share_tmp_table s"; cases "share_tmp_table s'")
    (auto simp: is_table_ref_id_equal_def set_table_ref_id_def get_table_ref_type_def get_table_ref_version_def)

text \<open>
  The default argument of \<open>versioned_write\<close> is a type that the function it calls asserts not to get: with it there is no result for any share.
\<close>

theorem versioned_write_default_fails: "versioned_write VERS_UNDEFINED vers_write s = None"
  by (cases s) (simp_all add: versioned_write_def table_versioned_def table_versioned_type_def DBUG_ASSERT_def)

section \<open>Nests and views\<close>

text \<open>
  Walking up the nests ends, and finds an outer join exactly if one of the nests is the inner side of one.
\<close>

theorem inner_tables_found:
  assumes "chain embedding h this ns"
  shows "is_inner_table_of_outer_join h this = Some (\<exists>n\<in>set ns. outer_join (the (h n)) \<noteq> 0)"
proof -
  have "chain embedding h p ns \<Longrightarrow> inner_table_loop h p = Some (\<exists>n\<in>set ns. outer_join (the (h n)) \<noteq> 0)" for p
  proof (induction ns arbitrary: p)
    case Nil
    then show ?case by (subst inner_table_loop.simps) simp
  next
    case (Cons a ns)
    then obtain n where "h a = Some n" "p = a" "a \<noteq> 0" "chain embedding h (embedding n) ns" by auto
    then show ?case using Cons.IH [of "embedding n"] by (subst inner_table_loop.simps) simp
  qed
  then show ?thesis using assms by (simp add: is_inner_table_of_outer_join_def)
qed

definition view_step_ok :: "(ptr \<Rightarrow> bool) \<Rightarrow> ref_node node_heap \<Rightarrow> ptr \<Rightarrow> bool" where
  "view_step_ok upd h p \<longleftrightarrow> \<not> is_multitable (derived_type (the (h p))) \<and> upd p \<and> merge_underlying_list (the (h p)) \<noteq> 0"

text \<open>
  The table a single-table update changes: following the views down ends at the first reference that is not an updatable view on one table.
\<close>

theorem table_for_update_found:
  assumes "chain merge_underlying_list h this ts" "ts \<noteq> []"
  shows "find_table_for_update upd h this = Some (ts ! length (takeWhile (view_step_ok upd h) ts))"
proof -
  have "chain merge_underlying_list h p ts \<Longrightarrow> ts \<noteq> [] \<Longrightarrow>
      find_table_for_update upd h p = Some (ts ! length (takeWhile (view_step_ok upd h) ts))" for p
  proof (induction ts arbitrary: p)
    case (Cons a ts)
    then obtain n where n: "h a = Some n" "p = a" "a \<noteq> 0" "chain merge_underlying_list h (merge_underlying_list n) ts" by auto
    show ?case
    proof (cases "view_step_ok upd h a")
      case True
      then have m: "\<not> is_multitable (derived_type n)" "upd a" "merge_underlying_list n \<noteq> 0" using n(1) by (simp_all add: view_step_ok_def)
      then have "ts \<noteq> []" using n(4) by auto
      then show ?thesis using Cons.IH [OF n(4)] n(1-3) m True by (subst find_table_for_update.simps) simp
    next
      case False
      then show ?thesis using n(1-3) by (subst find_table_for_update.simps) (auto simp: view_step_ok_def)
    qed
  qed simp
  then show ?thesis using assms by simp
qed

section \<open>Tables for prelocking\<close>

text \<open>
  A reference that is made for prelocking is appended to the list of all tables of the statement, exactly as \<open>add_to_query_tables\<close> does.
\<close>

lemma prelocking_step:
  assumes "table_rel U (h, q) (ts, own, used)" "t \<noteq> 0" "t \<in> U" "t \<notin> used"
  shows "\<exists>s'. prelocking_link t (h, q) = Some s' \<and> table_rel U s' (ts @ [t], own, insert t used)"
proof -
  note R = table_relD [OF assms(1)]
  obtain nt where nt: "h t = Some nt" "next_global nt = 0" using R(7) [OF assms(3,4)] by blast
  have t: "t \<notin> set ts" using R(2) assms(4) by blast
  let ?h0 = "h(t \<mapsto> \<lparr>next_global = 0, prev_global = Query_tables\<rparr>)"
  have "table_rel U (?h0, q) (ts, own, used)"
    using assms(1) t chain_upd [OF t, of next_global h] by (auto simp: table_rel_def simp del: fun_upd_apply) (auto)
  from add_step [OF this assms(2-4)] obtain s' where s': "add_to_query_tables t (?h0, q) = Some s'" "table_rel U s' (ts @ [t], own, insert t used)"
    by blast
  have last: "query_tables_last q = Query_tables \<or> (\<exists>u. query_tables_last q = Next_global u \<and> u \<noteq> t)"
    using R(4) t by (auto simp: link_of_def)
  have "prelocking_link t (h, q) = add_to_query_tables t (?h0, q)"
    using last nt(1) assms(2)
    by (auto simp: prelocking_link_def add_to_query_tables_def write_node_def fun_upd_twist split: option.splits)
  then show ?thesis using s' by simp
qed

text \<open>Appending a whole list of references simulates appending to the list of tables.\<close>

definition seq_append :: "ptr \<Rightarrow> table_seq \<Rightarrow> table_seq" where
  "seq_append t a = (let (ts, own, used) = a in (ts @ [t], own, insert t used))"

lemma fold_seq_append: "fold seq_append us (ts, own, used) = (ts @ us, own, set us \<union> used)"
  by (induction us arbitrary: ts used) (auto simp: seq_append_def)

lemma allowed_seq_append:
  "distinct us \<Longrightarrow> set us \<subseteq> U - used - {0} \<Longrightarrow> allowed (\<lambda>t. seq_ok U (Add t)) seq_append us (ts, own, used)"
proof (induction us arbitrary: ts used)
  case (Cons u us)
  then have "set us \<subseteq> U - insert u used - {0}" by auto
  with Cons show ?case by (simp add: seq_append_def seq_ok_def)
qed simp

interpretation prelock: progress_simulation prelocking_link seq_append "\<lambda>t. seq_ok U (Add t)" "table_rel U" for U
proof unfold_locales
  fix s a t
  assume "table_rel U s a" "seq_ok U (Add t) a"
  moreover obtain h q ts own used where "s = (h, q)" "a = (ts, own, used)" by (metis prod.exhaust)
  ultimately show "\<exists>s'. prelocking_link t s = Some s' \<and> table_rel U s' (seq_append t a)"
    using prelocking_step [of U h q ts own used t] by (auto simp: seq_ok_def seq_append_def)
qed

lemma prelocking_appends_all:
  assumes "table_rel U (h, q) (ts, own, used)" "distinct us" "set us \<subseteq> U - used - {0}"
  shows "\<exists>s'. run_opt prelocking_link us (h, q) = Some s' \<and> table_rel U s' (ts @ us, own, set us \<union> used)"
  using prelock.run [OF assms(1) allowed_seq_append [OF assms(2,3)]] by (simp add: fold_seq_append)

section \<open>Concrete cases\<close>

theorem field_iterators_visit_all_witness:
  "all_fields table_it_end table_it_next table_it_field (table_it_set [5, 6, 0]) = Some [5, 6]"
  using field_iterators_visit_all [of "[5, 6]" 0 "[]" "[]"] by simp

definition sample_key :: mem where
  "sample_key = put_bytes (\<lambda>_. 0) 10 [100, 0, 116, 49, 0]"

theorem cache_key_names_witness:
  "\<exists>s'. set_table_cache_key sample_key 10 5 \<lparr>cache_key_str = 0, cache_key_length = 0, sh_db_str = 0, sh_db_length = 0, sh_name_str = 0, sh_name_length = 0\<rparr> = Some s' \<and>
     bytes_at sample_key (sh_db_str s') (sh_db_length s') = [100] \<and> bytes_at sample_key (sh_name_str s') (sh_name_length s') = [116, 49]"
proof -
  have "bytes_at sample_key 10 (unat (5 :: uint32)) = [100] @ [0] @ [116, 49] @ [0] @ []"
    unfolding sample_key_def by (subst bytes_at_put_same) simp_all
  from cache_key_names [OF this] show ?thesis by simp
qed

definition sample_row :: table_row where
  "sample_row = \<lparr>tr_table = \<lparr>null_row = False, record0 = 20, table_maybe_null = True\<rparr>, tr_status = 0, null_flags = 20, null_bytes = 1\<rparr>"

theorem null_row_has_only_nulls_witness:
  "is_null (fst (mark_as_null_row (\<lambda>_. 0, sample_row))) (tr_table (snd (mark_as_null_row (\<lambda>_. 0, sample_row)))) \<lparr>field_ptr = 21, null_ptr = 20, null_bit = 2\<rparr> 0"
proof -
  obtain m' t' where r: "mark_as_null_row (\<lambda>_. 0, sample_row) = (m', t')" by force
  have "null_flags sample_row = 20" "null_bytes sample_row = 1" by (simp_all add: sample_row_def)
  with null_row_has_only_nulls [OF r, of "[\<lparr>field_ptr = 21, null_ptr = 20, null_bit = 2\<rparr>]"] show ?thesis by (simp add: r)
qed

theorem reference_kinds_witness:
  "is_view (fold kind_exec [Set_view, Set_multitable, Set_merged] 0) \<and> is_merged_derived (fold kind_exec [Set_view, Set_multitable, Set_merged] 0)"
  using reference_kinds [of "[Set_view, Set_multitable, Set_merged]" True True Merged True] by (simp add: Let_def)

theorem table_numbers_witness:
  "\<exists>t' b. set_tablenr 3 \<lparr>jtbm_subselect = 0, jtbm_table_no = 0, tn_table = Some \<lparr>tablenr = 0, table_bit = 1\<rparr>\<rparr> = Some t' \<and> get_tablenr t' = Some 3 \<and>
     get_map t' = Some b \<and> bit b 3"
  using table_numbers [of "\<lparr>jtbm_subselect = 0, jtbm_table_no = 0, tn_table = Some \<lparr>tablenr = 0, table_bit = 1\<rparr>\<rparr>" 3] by auto

definition sample_share :: TABLE_SHARE where
  "sample_share = \<lparr>share_is_view = False, share_tmp_table = NO_TMP_TABLE, table_map_id = 7, table_category = TABLE_CATEGORY_USER, share_versioned = VERS_TIMESTAMP,
     row_start_field = 1, row_end_field = 2\<rparr>"

theorem changed_tables_noticed_witness:
  "\<not> is_table_ref_id_equal (sample_share\<lparr>table_map_id := 8\<rparr>) (set_table_ref_id sample_share \<lparr>m_table_ref_type = TABLE_REF_NULL, m_table_ref_version = 0\<rparr>)"
  by (subst changed_tables_noticed) (simp_all add: sample_share_def get_table_ref_type_def)

definition sample_refs :: "ref_node node_heap" where
  "sample_refs = [1 \<mapsto> \<lparr>embedding = 2, outer_join = 0, merge_underlying_list = 2, derived_type = 5, belong_to_view = 0\<rparr>,
     2 \<mapsto> \<lparr>embedding = 0, outer_join = 1, merge_underlying_list = 0, derived_type = 0, belong_to_view = 1\<rparr>]"

theorem inner_tables_found_witness: "is_inner_table_of_outer_join sample_refs 1 = Some True"
  using inner_tables_found [of sample_refs 1 "[1, 2]"] by (simp add: sample_refs_def)

theorem table_for_update_found_witness: "find_table_for_update (\<lambda>_. True) sample_refs 1 = Some 2"
  using table_for_update_found [of sample_refs 1 "[1, 2]" "\<lambda>_. True"]
  by (simp add: sample_refs_def view_step_ok_def is_multitable_def DTYPE_MULTITABLE_def)

theorem prelocking_step_example:
  "\<exists>s'. prelocking_link 4 ([4 \<mapsto> \<lparr>next_global = 0, prev_global = Query_tables\<rparr>], \<lparr>query_tables = 0, query_tables_last = Query_tables, query_tables_own_last = None\<rparr>) = Some s' \<and>
     table_rel {4} s' ([4], None, {4})"
proof -
  have "table_rel {4} ([4 \<mapsto> \<lparr>next_global = 0, prev_global = Query_tables\<rparr>], \<lparr>query_tables = 0, query_tables_last = Query_tables, query_tables_own_last = None\<rparr>) ([], None, {})"
    by (simp add: table_rel_def link_of_def)
  from prelocking_step [OF this, of 4] show ?thesis by simp
qed

end
