(* ===== verification/LogEvents.thy ===== *)
theory LogEvents
  imports ByteOrder SessionClock "HOL-Library.Monad_Syntax" "HOL-Library.Sublist"
begin

text \<open>
  Events of the binary log (\<^verbatim>\<open>log_event.h\<close>, \<^verbatim>\<open>rpl_constants.h\<close>): the types of events and their numbers, the members every event has, the
  classes of events with their virtual functions (type code, size, validity, membership in a group), the flags of row events, the
  transaction keywords of query events, and the initialisation vectors of encrypted logs.  An event is the common part together with an
  object of its class.  Functions that the header only declares are arguments: the sizes and validity of annotations and row events, and
  the functions that write to the log.
\<close>

section \<open>Types of events\<close>

datatype Log_event_type =
  UNKNOWN_EVENT | START_EVENT_V3 | QUERY_EVENT | STOP_EVENT | ROTATE_EVENT | INTVAR_EVENT | LOAD_EVENT | SLAVE_EVENT | CREATE_FILE_EVENT |
  APPEND_BLOCK_EVENT | EXEC_LOAD_EVENT | DELETE_FILE_EVENT | NEW_LOAD_EVENT | RAND_EVENT | USER_VAR_EVENT | FORMAT_DESCRIPTION_EVENT |
  XID_EVENT | BEGIN_LOAD_QUERY_EVENT | EXECUTE_LOAD_QUERY_EVENT | TABLE_MAP_EVENT | PRE_GA_WRITE_ROWS_EVENT | PRE_GA_UPDATE_ROWS_EVENT |
  PRE_GA_DELETE_ROWS_EVENT | WRITE_ROWS_EVENT_V1 | UPDATE_ROWS_EVENT_V1 | DELETE_ROWS_EVENT_V1 | INCIDENT_EVENT | HEARTBEAT_LOG_EVENT |
  IGNORABLE_LOG_EVENT | ROWS_QUERY_LOG_EVENT | WRITE_ROWS_EVENT | UPDATE_ROWS_EVENT | DELETE_ROWS_EVENT | GTID_LOG_EVENT |
  ANONYMOUS_GTID_LOG_EVENT | PREVIOUS_GTIDS_LOG_EVENT | TRANSACTION_CONTEXT_EVENT | VIEW_CHANGE_EVENT | XA_PREPARE_LOG_EVENT |
  MYSQL_EVENTS_END | ANNOTATE_ROWS_EVENT | BINLOG_CHECKPOINT_EVENT | GTID_EVENT | GTID_LIST_EVENT | START_ENCRYPTION_EVENT |
  QUERY_COMPRESSED_EVENT | WRITE_ROWS_COMPRESSED_EVENT_V1 | UPDATE_ROWS_COMPRESSED_EVENT_V1 | DELETE_ROWS_COMPRESSED_EVENT_V1 |
  WRITE_ROWS_COMPRESSED_EVENT | UPDATE_ROWS_COMPRESSED_EVENT | DELETE_ROWS_COMPRESSED_EVENT | ENUM_END_EVENT

primrec event_number :: "Log_event_type \<Rightarrow> nat" where
  "event_number UNKNOWN_EVENT = 0" | "event_number START_EVENT_V3 = 1" | "event_number QUERY_EVENT = 2" | "event_number STOP_EVENT = 3" |
  "event_number ROTATE_EVENT = 4" | "event_number INTVAR_EVENT = 5" | "event_number LOAD_EVENT = 6" | "event_number SLAVE_EVENT = 7" |
  "event_number CREATE_FILE_EVENT = 8" | "event_number APPEND_BLOCK_EVENT = 9" | "event_number EXEC_LOAD_EVENT = 10" |
  "event_number DELETE_FILE_EVENT = 11" | "event_number NEW_LOAD_EVENT = 12" | "event_number RAND_EVENT = 13" |
  "event_number USER_VAR_EVENT = 14" | "event_number FORMAT_DESCRIPTION_EVENT = 15" | "event_number XID_EVENT = 16" |
  "event_number BEGIN_LOAD_QUERY_EVENT = 17" | "event_number EXECUTE_LOAD_QUERY_EVENT = 18" | "event_number TABLE_MAP_EVENT = 19" |
  "event_number PRE_GA_WRITE_ROWS_EVENT = 20" | "event_number PRE_GA_UPDATE_ROWS_EVENT = 21" |
  "event_number PRE_GA_DELETE_ROWS_EVENT = 22" | "event_number WRITE_ROWS_EVENT_V1 = 23" | "event_number UPDATE_ROWS_EVENT_V1 = 24" |
  "event_number DELETE_ROWS_EVENT_V1 = 25" | "event_number INCIDENT_EVENT = 26" | "event_number HEARTBEAT_LOG_EVENT = 27" |
  "event_number IGNORABLE_LOG_EVENT = 28" | "event_number ROWS_QUERY_LOG_EVENT = 29" | "event_number WRITE_ROWS_EVENT = 30" |
  "event_number UPDATE_ROWS_EVENT = 31" | "event_number DELETE_ROWS_EVENT = 32" | "event_number GTID_LOG_EVENT = 33" |
  "event_number ANONYMOUS_GTID_LOG_EVENT = 34" | "event_number PREVIOUS_GTIDS_LOG_EVENT = 35" |
  "event_number TRANSACTION_CONTEXT_EVENT = 36" | "event_number VIEW_CHANGE_EVENT = 37" | "event_number XA_PREPARE_LOG_EVENT = 38" |
  "event_number MYSQL_EVENTS_END = 39" | "event_number ANNOTATE_ROWS_EVENT = 160" | "event_number BINLOG_CHECKPOINT_EVENT = 161" |
  "event_number GTID_EVENT = 162" | "event_number GTID_LIST_EVENT = 163" | "event_number START_ENCRYPTION_EVENT = 164" |
  "event_number QUERY_COMPRESSED_EVENT = 165" | "event_number WRITE_ROWS_COMPRESSED_EVENT_V1 = 166" |
  "event_number UPDATE_ROWS_COMPRESSED_EVENT_V1 = 167" | "event_number DELETE_ROWS_COMPRESSED_EVENT_V1 = 168" |
  "event_number WRITE_ROWS_COMPRESSED_EVENT = 169" | "event_number UPDATE_ROWS_COMPRESSED_EVENT = 170" |
  "event_number DELETE_ROWS_COMPRESSED_EVENT = 171" | "event_number ENUM_END_EVENT = 172"

definition event_of_number :: "nat \<Rightarrow> Log_event_type" where
  "event_of_number n = (if n < 40 then [
     UNKNOWN_EVENT, START_EVENT_V3, QUERY_EVENT, STOP_EVENT, ROTATE_EVENT, INTVAR_EVENT, LOAD_EVENT, SLAVE_EVENT, CREATE_FILE_EVENT,
     APPEND_BLOCK_EVENT, EXEC_LOAD_EVENT, DELETE_FILE_EVENT, NEW_LOAD_EVENT, RAND_EVENT, USER_VAR_EVENT, FORMAT_DESCRIPTION_EVENT,
     XID_EVENT, BEGIN_LOAD_QUERY_EVENT, EXECUTE_LOAD_QUERY_EVENT, TABLE_MAP_EVENT, PRE_GA_WRITE_ROWS_EVENT, PRE_GA_UPDATE_ROWS_EVENT,
     PRE_GA_DELETE_ROWS_EVENT, WRITE_ROWS_EVENT_V1, UPDATE_ROWS_EVENT_V1, DELETE_ROWS_EVENT_V1, INCIDENT_EVENT, HEARTBEAT_LOG_EVENT,
     IGNORABLE_LOG_EVENT, ROWS_QUERY_LOG_EVENT, WRITE_ROWS_EVENT, UPDATE_ROWS_EVENT, DELETE_ROWS_EVENT, GTID_LOG_EVENT,
     ANONYMOUS_GTID_LOG_EVENT, PREVIOUS_GTIDS_LOG_EVENT, TRANSACTION_CONTEXT_EVENT, VIEW_CHANGE_EVENT, XA_PREPARE_LOG_EVENT,
     MYSQL_EVENTS_END
     ] ! n else [
     ANNOTATE_ROWS_EVENT, BINLOG_CHECKPOINT_EVENT, GTID_EVENT, GTID_LIST_EVENT, START_ENCRYPTION_EVENT, QUERY_COMPRESSED_EVENT,
     WRITE_ROWS_COMPRESSED_EVENT_V1, UPDATE_ROWS_COMPRESSED_EVENT_V1, DELETE_ROWS_COMPRESSED_EVENT_V1, WRITE_ROWS_COMPRESSED_EVENT,
     UPDATE_ROWS_COMPRESSED_EVENT, DELETE_ROWS_COMPRESSED_EVENT, ENUM_END_EVENT
     ] ! (n - 160))"

lemma event_of_number [simp]: "event_of_number (event_number t) = t"
  by (cases t) (simp_all add: event_of_number_def)

lemma event_number_inj: "event_number a = event_number b \<longleftrightarrow> a = b"
  by (metis event_of_number)

text \<open>The code compares types by their numbers.\<close>

instantiation Log_event_type :: linorder
begin

definition less_eq_Log_event_type :: "Log_event_type \<Rightarrow> Log_event_type \<Rightarrow> bool" where
  "less_eq_Log_event_type a b \<longleftrightarrow> event_number a \<le> event_number b"

definition less_Log_event_type :: "Log_event_type \<Rightarrow> Log_event_type \<Rightarrow> bool" where
  "less_Log_event_type a b \<longleftrightarrow> event_number a < event_number b"

instance
  by standard (auto simp: less_eq_Log_event_type_def less_Log_event_type_def event_number_inj)

end

definition LOG_EVENT_TYPES :: nat where
  "LOG_EVENT_TYPES = event_number ENUM_END_EVENT - 1"

definition LOG_EVENT_IS_QUERY :: "Log_event_type \<Rightarrow> bool" where
  "LOG_EVENT_IS_QUERY type \<longleftrightarrow> type = QUERY_EVENT \<or> type = QUERY_COMPRESSED_EVENT"

definition LOG_EVENT_IS_WRITE_ROW :: "Log_event_type \<Rightarrow> bool" where
  "LOG_EVENT_IS_WRITE_ROW type \<longleftrightarrow> type = WRITE_ROWS_EVENT \<or> type = WRITE_ROWS_EVENT_V1 \<or> type = WRITE_ROWS_COMPRESSED_EVENT \<or>
     type = WRITE_ROWS_COMPRESSED_EVENT_V1"

definition LOG_EVENT_IS_UPDATE_ROW :: "Log_event_type \<Rightarrow> bool" where
  "LOG_EVENT_IS_UPDATE_ROW type \<longleftrightarrow> type = UPDATE_ROWS_EVENT \<or> type = UPDATE_ROWS_EVENT_V1 \<or> type = UPDATE_ROWS_COMPRESSED_EVENT \<or>
     type = UPDATE_ROWS_COMPRESSED_EVENT_V1"

definition LOG_EVENT_IS_DELETE_ROW :: "Log_event_type \<Rightarrow> bool" where
  "LOG_EVENT_IS_DELETE_ROW type \<longleftrightarrow> type = DELETE_ROWS_EVENT \<or> type = DELETE_ROWS_EVENT_V1 \<or> type = DELETE_ROWS_COMPRESSED_EVENT \<or>
     type = DELETE_ROWS_COMPRESSED_EVENT_V1"

definition LOG_EVENT_IS_ROW_COMPRESSED :: "Log_event_type \<Rightarrow> bool" where
  "LOG_EVENT_IS_ROW_COMPRESSED type \<longleftrightarrow>
     type = WRITE_ROWS_COMPRESSED_EVENT \<or> type = WRITE_ROWS_COMPRESSED_EVENT_V1 \<or>
     type = UPDATE_ROWS_COMPRESSED_EVENT \<or> type = UPDATE_ROWS_COMPRESSED_EVENT_V1 \<or>
     type = DELETE_ROWS_COMPRESSED_EVENT \<or> type = DELETE_ROWS_COMPRESSED_EVENT_V1"

definition LOG_EVENT_IS_ROW_V2 :: "Log_event_type \<Rightarrow> bool" where
  "LOG_EVENT_IS_ROW_V2 type \<longleftrightarrow>
     (WRITE_ROWS_EVENT \<le> type \<and> type \<le> DELETE_ROWS_EVENT) \<or> (WRITE_ROWS_COMPRESSED_EVENT \<le> type \<and> type \<le> DELETE_ROWS_COMPRESSED_EVENT)"

text \<open>The conversion to the type without compression, as the comment in the enumeration prescribes it.\<close>

definition uncompressed_type :: "Log_event_type \<Rightarrow> Log_event_type" where
  "uncompressed_type type =
     (if LOG_EVENT_IS_ROW_V2 type then event_of_number (event_number type - event_number WRITE_ROWS_COMPRESSED_EVENT + event_number WRITE_ROWS_EVENT)
      else event_of_number (event_number type - event_number WRITE_ROWS_COMPRESSED_EVENT_V1 + event_number WRITE_ROWS_EVENT_V1))"

definition type_is_part_of_group :: "Log_event_type \<Rightarrow> bool" where
  "type_is_part_of_group ev_type =
     (case ev_type of GTID_EVENT \<Rightarrow> True | INTVAR_EVENT \<Rightarrow> True | RAND_EVENT \<Rightarrow> True | USER_VAR_EVENT \<Rightarrow> True | TABLE_MAP_EVENT \<Rightarrow> True
      | ANNOTATE_ROWS_EVENT \<Rightarrow> True | DELETE_ROWS_EVENT \<Rightarrow> False | UPDATE_ROWS_EVENT \<Rightarrow> False | WRITE_ROWS_EVENT \<Rightarrow> False | _ \<Rightarrow> False)"

definition is_group_event :: "Log_event_type \<Rightarrow> bool" where
  "is_group_event ev_type =
     (case ev_type of START_EVENT_V3 \<Rightarrow> False | STOP_EVENT \<Rightarrow> False | ROTATE_EVENT \<Rightarrow> False | SLAVE_EVENT \<Rightarrow> False | FORMAT_DESCRIPTION_EVENT \<Rightarrow> False
      | INCIDENT_EVENT \<Rightarrow> False | HEARTBEAT_LOG_EVENT \<Rightarrow> False | BINLOG_CHECKPOINT_EVENT \<Rightarrow> False | GTID_LIST_EVENT \<Rightarrow> False
      | START_ENCRYPTION_EVENT \<Rightarrow> False | _ \<Rightarrow> True)"

datatype enum_logged_status = LOGGED_TABLE_MAP | LOGGED_ROW_EVENT | LOGGED_NO_DATA | LOGGED_CRITICAL

primrec logged_status_flag :: "enum_logged_status \<Rightarrow> uint32" where
  "logged_status_flag LOGGED_TABLE_MAP = 1" | "logged_status_flag LOGGED_ROW_EVENT = 2" | "logged_status_flag LOGGED_NO_DATA = 4" |
  "logged_status_flag LOGGED_CRITICAL = 8"

text \<open>Lengths of headers.\<close>

definition LOG_EVENT_HEADER_LEN :: nat where "LOG_EVENT_HEADER_LEN = 19"
definition OLD_HEADER_LEN :: nat where "OLD_HEADER_LEN = 13"
definition LOG_EVENT_MINIMAL_HEADER_LEN :: nat where "LOG_EVENT_MINIMAL_HEADER_LEN = 19"
definition ST_SERVER_VER_LEN :: nat where "ST_SERVER_VER_LEN = 50"
definition QUERY_HEADER_MINIMAL_LEN :: nat where "QUERY_HEADER_MINIMAL_LEN = 4 + 4 + 1 + 2"
definition QUERY_HEADER_LEN :: nat where "QUERY_HEADER_LEN = QUERY_HEADER_MINIMAL_LEN + 2"
definition LOAD_HEADER_LEN :: nat where "LOAD_HEADER_LEN = 4 + 4 + 4 + 1 + 1 + 4"
definition START_V3_HEADER_LEN :: nat where "START_V3_HEADER_LEN = 2 + ST_SERVER_VER_LEN + 4"
definition ROTATE_HEADER_LEN :: nat where "ROTATE_HEADER_LEN = 8"
definition APPEND_BLOCK_HEADER_LEN :: nat where "APPEND_BLOCK_HEADER_LEN = 4"
definition EXEC_LOAD_HEADER_LEN :: nat where "EXEC_LOAD_HEADER_LEN = 4"
definition DELETE_FILE_HEADER_LEN :: nat where "DELETE_FILE_HEADER_LEN = 4"
definition FORMAT_DESCRIPTION_HEADER_LEN :: nat where "FORMAT_DESCRIPTION_HEADER_LEN = START_V3_HEADER_LEN + 1 + LOG_EVENT_TYPES"
definition INCIDENT_HEADER_LEN :: nat where "INCIDENT_HEADER_LEN = 2"
definition IGNORABLE_HEADER_LEN :: nat where "IGNORABLE_HEADER_LEN = 0"
definition BINLOG_CHECKPOINT_HEADER_LEN :: nat where "BINLOG_CHECKPOINT_HEADER_LEN = 4"
definition GTID_HEADER_LEN :: nat where "GTID_HEADER_LEN = 19"
definition GTID_LIST_HEADER_LEN :: nat where "GTID_LIST_HEADER_LEN = 4"

definition EXECUTE_LOAD_QUERY_EXTRA_HEADER_LEN :: nat where "EXECUTE_LOAD_QUERY_EXTRA_HEADER_LEN = 4 + 4 + 4 + 1"

definition MAX_SIZE_LOG_EVENT_STATUS :: nat where
  "MAX_SIZE_LOG_EVENT_STATUS = 1 + 4 + (1 + 8) + (1 + 1 + 255) + (1 + 4) + (1 + 6) + (1 + 1 + 255) + (1 + 2) + (1 + 2) + (1 + 8) + (1 + 4) + (1 + 3) +
     (1 + 16 + 1 + 60)"

lemmas header_lengths = LOG_EVENT_HEADER_LEN_def OLD_HEADER_LEN_def LOG_EVENT_MINIMAL_HEADER_LEN_def ST_SERVER_VER_LEN_def
  QUERY_HEADER_MINIMAL_LEN_def QUERY_HEADER_LEN_def LOAD_HEADER_LEN_def START_V3_HEADER_LEN_def ROTATE_HEADER_LEN_def APPEND_BLOCK_HEADER_LEN_def
  EXEC_LOAD_HEADER_LEN_def DELETE_FILE_HEADER_LEN_def FORMAT_DESCRIPTION_HEADER_LEN_def INCIDENT_HEADER_LEN_def IGNORABLE_HEADER_LEN_def
  BINLOG_CHECKPOINT_HEADER_LEN_def GTID_HEADER_LEN_def GTID_LIST_HEADER_LEN_def EXECUTE_LOAD_QUERY_EXTRA_HEADER_LEN_def LOG_EVENT_TYPES_def

section \<open>The part common to all events\<close>

text \<open>\<open>enum_event_cache_type\<close> and the flags of an event.\<close>

definition EVENT_INVALID_CACHE :: uint16 where "EVENT_INVALID_CACHE = 0"
definition EVENT_STMT_CACHE :: uint16 where "EVENT_STMT_CACHE = 1"
definition EVENT_TRANSACTIONAL_CACHE :: uint16 where "EVENT_TRANSACTIONAL_CACHE = 2"
definition EVENT_NO_CACHE :: uint16 where "EVENT_NO_CACHE = 3"

definition LOG_EVENT_ARTIFICIAL_F :: uint16 where "LOG_EVENT_ARTIFICIAL_F = 0x20"
definition LOG_EVENT_RELAY_LOG_F :: uint16 where "LOG_EVENT_RELAY_LOG_F = 0x40"
definition LOG_EVENT_IGNORABLE_F :: uint16 where "LOG_EVENT_IGNORABLE_F = 0x80"
definition LOG_EVENT_SKIP_REPLICATION_F :: uint16 where "LOG_EVENT_SKIP_REPLICATION_F = 0x8000"

lemmas event_flags = LOG_EVENT_ARTIFICIAL_F_def LOG_EVENT_RELAY_LOG_F_def LOG_EVENT_IGNORABLE_F_def LOG_EVENT_SKIP_REPLICATION_F_def

datatype enum_skip_reason = EVENT_SKIP_NOT | EVENT_SKIP_IGNORE | EVENT_SKIP_COUNT

record Log_event =
  ev_log_pos :: uint64
  ev_temp_buf :: ptr
  event_owns_temp_buf :: bool
  ev_when :: my_time_t
  ev_when_sec_part :: ulong
  ev_server_id :: uint32
  ev_flags :: uint16
  ev_cache_type :: uint16

definition set_artificial_event :: "Log_event \<Rightarrow> Log_event" where
  "set_artificial_event e = e\<lparr>ev_flags := ev_flags e OR LOG_EVENT_ARTIFICIAL_F\<rparr>"

definition set_relay_log_event :: "Log_event \<Rightarrow> Log_event" where
  "set_relay_log_event e = e\<lparr>ev_flags := ev_flags e OR LOG_EVENT_RELAY_LOG_F\<rparr>"

definition is_artificial_event :: "Log_event \<Rightarrow> bool" where
  "is_artificial_event e \<longleftrightarrow> ev_flags e AND LOG_EVENT_ARTIFICIAL_F \<noteq> 0"

definition is_relay_log_event :: "Log_event \<Rightarrow> bool" where
  "is_relay_log_event e \<longleftrightarrow> ev_flags e AND LOG_EVENT_RELAY_LOG_F \<noteq> 0"

definition use_trans_cache :: "Log_event \<Rightarrow> bool" where
  "use_trans_cache e \<longleftrightarrow> ev_cache_type e = EVENT_TRANSACTIONAL_CACHE"

definition set_direct_logging :: "Log_event \<Rightarrow> Log_event" where
  "set_direct_logging e = e\<lparr>ev_cache_type := EVENT_NO_CACHE\<rparr>"

definition use_direct_logging :: "Log_event \<Rightarrow> bool" where
  "use_direct_logging e \<longleftrightarrow> ev_cache_type e = EVENT_NO_CACHE"

text \<open>
  \<open>get_time\<close>: the session of the event and that of the running thread are given by the start time of their statement, if there is one; the
  time of day comes last.
\<close>

definition get_time :: "(my_time_t \<times> ulong) option \<Rightarrow> (my_time_t \<times> ulong) option \<Rightarrow> uint64 \<Rightarrow> Log_event \<Rightarrow> my_time_t \<times> Log_event" where
  "get_time thd current_thd hrtime e =
     (if ev_when e \<noteq> 0 then (ev_when e, e)
      else case thd of
        Some (t, part) \<Rightarrow> (t, e\<lparr>ev_when := t, ev_when_sec_part := part\<rparr>)
      | None \<Rightarrow>
          (case current_thd of
             Some (t, part) \<Rightarrow> (t, e\<lparr>ev_when := t, ev_when_sec_part := part\<rparr>)
           | None \<Rightarrow> (hrtime_to_my_time hrtime, e\<lparr>ev_when := hrtime_to_my_time hrtime, ev_when_sec_part := hrtime_sec_part hrtime\<rparr>)))"

text \<open>The buffer an event was read from; the state has the list of the addresses freed so far.\<close>

definition register_temp_buf :: "ptr \<Rightarrow> bool \<Rightarrow> Log_event \<times> ptr list \<Rightarrow> Log_event \<times> ptr list" where
  "register_temp_buf buf must_free s = ((fst s)\<lparr>ev_temp_buf := buf, event_owns_temp_buf := must_free\<rparr>, snd s)"

definition free_temp_buf :: "Log_event \<times> ptr list \<Rightarrow> Log_event \<times> ptr list" where
  "free_temp_buf s = (let (e, freed) = s in
     if ev_temp_buf e \<noteq> 0 then (e\<lparr>ev_temp_buf := 0\<rparr>, if event_owns_temp_buf e then freed @ [ev_temp_buf e] else freed) else (e, freed))"

text \<open>\<open>Log_event::write\<close>: the four steps, each of which may fail, and the writer that records the status of every event it was given.\<close>

definition or_else :: "('s \<Rightarrow> bool \<times> 's) \<Rightarrow> ('s \<Rightarrow> bool \<times> 's) \<Rightarrow> 's \<Rightarrow> bool \<times> 's" where
  "or_else f g s = (let (err, s') = f s in if err then (True, s') else g s')"

definition log_event_write :: "('s \<Rightarrow> bool \<times> 's) \<Rightarrow> ('s \<Rightarrow> bool \<times> 's) \<Rightarrow> ('s \<Rightarrow> bool \<times> 's) \<Rightarrow> ('s \<Rightarrow> bool \<times> 's) \<Rightarrow> 's \<Rightarrow> bool \<times> 's" where
  "log_event_write header data_header data_body footer = or_else header (or_else data_header (or_else data_body footer))"

definition log_event_writer_write :: "(enum_logged_status \<Rightarrow> 's \<Rightarrow> 's) \<Rightarrow> ('s \<Rightarrow> bool \<times> 's) \<Rightarrow> enum_logged_status \<Rightarrow> 's \<Rightarrow> bool \<times> 's" where
  "log_event_writer_write add_status ev_write status s = (let (res, s') = ev_write s in (res, add_status status s'))"

section \<open>Classes of events\<close>

text \<open>
  \<open>strncmp\<close> and \<open>strncasecmp\<close> of a string in memory with a literal, as far as the code uses them: whether the first \<open>n\<close> characters are equal,
  where a comparison ends at the end of the strings.
\<close>

fun strn_eq :: "(uchar \<Rightarrow> uchar) \<Rightarrow> mem \<Rightarrow> ptr \<Rightarrow> uchar list \<Rightarrow> nat \<Rightarrow> bool" where
  "strn_eq f m p cs 0 = True"
| "strn_eq f m p [] (Suc n) = (f (m p) = 0)"
| "strn_eq f m p (c # cs) (Suc n) = (f (m p) = f c \<and> strn_eq f m (p + 1) cs n)"

definition ascii_lower :: "uchar \<Rightarrow> uchar" where
  "ascii_lower c = (if 65 \<le> c \<and> c \<le> 90 then c + 32 else c)"

definition ascii :: "string \<Rightarrow> uchar list" where
  "ascii s = map (\<lambda>c. of_nat (of_char c)) s"

record Query_log_event =
  qe_query :: ptr
  qe_q_len :: uint32

definition is_trans_keyword :: "mem \<Rightarrow> Query_log_event \<Rightarrow> bool" where
  "is_trans_keyword m q \<longleftrightarrow>
     strn_eq id m (qe_query q) (ascii ''BEGIN'') (unat (qe_q_len q)) \<or>
     strn_eq id m (qe_query q) (ascii ''COMMIT'') (unat (qe_q_len q)) \<or>
     strn_eq ascii_lower m (qe_query q) (ascii ''SAVEPOINT'') 9 \<or>
     strn_eq ascii_lower m (qe_query q) (ascii ''ROLLBACK'') 8"

text \<open>\<open>strcmp\<close> compares to the end of the literal.\<close>

definition is_begin :: "mem \<Rightarrow> Query_log_event \<Rightarrow> bool" where
  "is_begin m q \<longleftrightarrow> strn_eq id m (qe_query q) (ascii ''BEGIN'') 6"

definition is_commit :: "mem \<Rightarrow> Query_log_event \<Rightarrow> bool" where
  "is_commit m q \<longleftrightarrow> strn_eq id m (qe_query q) (ascii ''COMMIT'') 7"

definition is_rollback :: "mem \<Rightarrow> Query_log_event \<Rightarrow> bool" where
  "is_rollback m q \<longleftrightarrow> strn_eq id m (qe_query q) (ascii ''ROLLBACK'') 9"

text \<open>The options of \<open>LOAD DATA\<close>; \<open>cached_new_format\<close> is \<open>-1\<close> until the format was computed.\<close>

record sql_ex_info =
  cached_new_format :: int
  field_term_len :: uchar
  enclosed_len :: uchar
  line_term_len :: uchar
  line_start_len :: uchar
  escaped_len :: uchar

definition force_new_format :: "sql_ex_info \<Rightarrow> sql_ex_info" where
  "force_new_format x = x\<lparr>cached_new_format := 1\<rparr>"

definition long_option :: "sql_ex_info \<Rightarrow> bool" where
  "long_option x \<longleftrightarrow> field_term_len x > 1 \<or> enclosed_len x > 1 \<or> line_term_len x > 1 \<or> line_start_len x > 1 \<or> escaped_len x > 1"

definition new_format :: "sql_ex_info \<Rightarrow> bool \<times> sql_ex_info" where
  "new_format x =
     (if cached_new_format x \<noteq> -1 then (cached_new_format x \<noteq> 0, x)
      else (long_option x, x\<lparr>cached_new_format := of_bool (long_option x)\<rparr>))"

definition sql_ex_data_size :: "sql_ex_info \<Rightarrow> uint32 \<times> sql_ex_info" where
  "sql_ex_data_size x =
     (let (f, x') = new_format x in
      (if f then ucast (field_term_len x) + ucast (enclosed_len x) + ucast (line_term_len x) + ucast (line_start_len x) + ucast (escaped_len x) + 6
       else 7, x'))"

record Load_log_event =
  table_name_len :: uint32
  load_db_len :: uint32
  fname_len :: uint32
  num_fields :: uint32
  field_block_len :: uint32
  load_table_name :: ptr
  load_fname :: ptr
  load_sql_ex :: sql_ex_info
  local_fname :: bool

definition set_fname_outside_temp_buf :: "ptr \<Rightarrow> uint64 \<Rightarrow> Load_log_event \<Rightarrow> Load_log_event" where
  "set_fname_outside_temp_buf afname alen e = e\<lparr>load_fname := afname, fname_len := ucast alen, local_fname := True\<rparr>"

definition check_fname_outside_temp_buf :: "Load_log_event \<Rightarrow> bool" where
  "check_fname_outside_temp_buf e = local_fname e"

definition load_get_type_code :: "Load_log_event \<Rightarrow> Log_event_type \<times> Load_log_event" where
  "load_get_type_code e = (let (f, x) = new_format (load_sql_ex e) in (if f then NEW_LOAD_EVENT else LOAD_EVENT, e\<lparr>load_sql_ex := x\<rparr>))"

definition load_get_data_size :: "Load_log_event \<Rightarrow> uint32 \<times> Load_log_event" where
  "load_get_data_size e =
     (let (n, x) = sql_ex_data_size (load_sql_ex e) in
      (table_name_len e + load_db_len e + 2 + fname_len e + of_nat LOAD_HEADER_LEN + n + field_block_len e + num_fields e, e\<lparr>load_sql_ex := x\<rparr>))"

record Create_file_log_event =
  cf_load :: Load_log_event
  fake_base :: bool
  cf_block :: ptr
  cf_block_len :: uint32
  inited_from_old :: bool

definition create_file_get_type_code :: "Create_file_log_event \<Rightarrow> Log_event_type \<times> Create_file_log_event" where
  "create_file_get_type_code e =
     (if fake_base e then let (t, l) = load_get_type_code (cf_load e) in (t, e\<lparr>cf_load := l\<rparr>) else (CREATE_FILE_EVENT, e))"

definition create_file_get_data_size :: "Create_file_log_event \<Rightarrow> uint32 \<times> Create_file_log_event" where
  "create_file_get_data_size e =
     (let (n, l) = load_get_data_size (cf_load e) in (if fake_base e then n else n + 4 + 1 + cf_block_len e, e\<lparr>cf_load := l\<rparr>))"

text \<open>The start of a log and the description of its format.\<close>

record Start_log_event_v3 =
  binlog_version :: uint16
  server_version :: "nat \<Rightarrow> uchar"

record Format_description_log_event =
  fd_start :: Start_log_event_v3
  common_header_len :: uchar
  fd_post_header_len :: ptr
  server_version_split :: "uchar \<times> uchar \<times> uchar"
  fd_crypto_scheme :: uint32

definition header_is_valid :: "Format_description_log_event \<Rightarrow> bool" where
  "header_is_valid e \<longleftrightarrow>
     unat (common_header_len e) \<ge> (if binlog_version (fd_start e) = 1 then OLD_HEADER_LEN else LOG_EVENT_MINIMAL_HEADER_LEN) \<and> fd_post_header_len e \<noteq> 0"

definition version_is_valid :: "Format_description_log_event \<Rightarrow> bool" where
  "version_is_valid e \<longleftrightarrow> \<not> (case server_version_split e of (a, b, c) \<Rightarrow> a = 0 \<and> b = 0 \<and> c = 0)"

definition reset_crypto :: "Format_description_log_event \<Rightarrow> Format_description_log_event" where
  "reset_crypto e = e\<lparr>fd_crypto_scheme := 0\<rparr>"

text \<open>Encryption of the log.\<close>

definition BINLOG_CRYPTO_SCHEME_LENGTH :: nat where "BINLOG_CRYPTO_SCHEME_LENGTH = 1"
definition BINLOG_KEY_VERSION_LENGTH :: nat where "BINLOG_KEY_VERSION_LENGTH = 4"
definition MY_AES_BLOCK_SIZE :: nat where "MY_AES_BLOCK_SIZE = 16"
definition MY_AES_MAX_KEY_LENGTH :: nat where "MY_AES_MAX_KEY_LENGTH = 32"
definition BINLOG_IV_LENGTH :: nat where "BINLOG_IV_LENGTH = MY_AES_BLOCK_SIZE"
definition BINLOG_IV_OFFS_LENGTH :: nat where "BINLOG_IV_OFFS_LENGTH = 4"
definition BINLOG_NONCE_LENGTH :: nat where "BINLOG_NONCE_LENGTH = BINLOG_IV_LENGTH - BINLOG_IV_OFFS_LENGTH"

lemmas crypt_lengths = BINLOG_CRYPTO_SCHEME_LENGTH_def BINLOG_KEY_VERSION_LENGTH_def MY_AES_BLOCK_SIZE_def MY_AES_MAX_KEY_LENGTH_def
  BINLOG_IV_LENGTH_def BINLOG_IV_OFFS_LENGTH_def BINLOG_NONCE_LENGTH_def

record Binlog_crypt_data =
  crypt_scheme :: uint32
  crypt_key_version :: uint32
  crypt_key_length :: uint32
  crypt_ctx_size :: uint32
  crypt_key :: "uchar list"
  crypt_nonce :: "uchar list"

text \<open>\<open>encryption_ctx_size\<close> and \<open>encryption_key_get\<close> are services of the encryption plugin; the second returns an error code, the key and its length.\<close>

definition crypt_init :: "(uint32 \<Rightarrow> uint32) \<Rightarrow> (uint32 \<Rightarrow> uint32 \<Rightarrow> uint32 \<times> uchar list \<times> uint32) \<Rightarrow> uint32 \<Rightarrow> uint32 \<Rightarrow> Binlog_crypt_data \<Rightarrow> uint32 \<times> Binlog_crypt_data" where
  "crypt_init encryption_ctx_size encryption_key_get sch kv c =
     (let c1 = c\<lparr>crypt_scheme := sch, crypt_ctx_size := encryption_ctx_size kv, crypt_key_version := kv, crypt_key_length := of_nat MY_AES_MAX_KEY_LENGTH\<rparr>;
          (err, key, len) = encryption_key_get kv (crypt_key_length c1)
      in (err, c1\<lparr>crypt_key := key, crypt_key_length := len\<rparr>))"

definition set_iv :: "Binlog_crypt_data \<Rightarrow> mem \<Rightarrow> ptr \<Rightarrow> uint32 \<Rightarrow> mem" where
  "set_iv c m iv offs = int4store (put_bytes m iv (take BINLOG_NONCE_LENGTH (crypt_nonce c))) (iv + BINLOG_NONCE_LENGTH) offs"

record Start_encryption_log_event =
  se_crypto_scheme :: uint32
  se_key_version :: uint32
  se_nonce :: "uchar list"

text \<open>The constructor asserts the scheme; the caller's nonce has twelve bytes.\<close>

definition start_encryption_log_event :: "uint32 \<Rightarrow> uint32 \<Rightarrow> uchar list \<Rightarrow> Log_event \<Rightarrow> (Log_event \<times> Start_encryption_log_event) option" where
  "start_encryption_log_event scheme key_version nonce base =
     (if scheme = 1 \<and> BINLOG_NONCE_LENGTH \<le> length nonce
      then Some (base\<lparr>ev_cache_type := EVENT_NO_CACHE\<rparr>,
                 \<lparr>se_crypto_scheme = scheme, se_key_version = key_version, se_nonce = take BINLOG_NONCE_LENGTH nonce\<rparr>)
      else None)"

definition start_encryption_write_data_body :: "(uchar list \<Rightarrow> 's \<Rightarrow> bool \<times> 's) \<Rightarrow> Start_encryption_log_event \<Rightarrow> 's \<Rightarrow> bool \<times> 's" where
  "start_encryption_write_data_body write_data e =
     (let key_version_buf = bytes_at (int4store (\<lambda>_. 0) 0 (se_key_version e)) 0 BINLOG_KEY_VERSION_LENGTH in
      or_else (write_data [ucast (se_crypto_scheme e)]) (or_else (write_data key_version_buf) (write_data (se_nonce e))))"

text \<open>Events of a few members.\<close>

record Rotate_log_event =
  new_log_ident :: ptr
  rot_pos :: uint64
  ident_len :: uint32
  rot_flags :: uint32

definition DUP_NAME :: uint32 where "DUP_NAME = 2"

definition rotate_destructor :: "Rotate_log_event \<Rightarrow> ptr list \<Rightarrow> ptr list" where
  "rotate_destructor e freed = (if rot_flags e AND DUP_NAME \<noteq> 0 then freed @ [new_log_ident e] else freed)"

record Gtid_log_event =
  ge_seq_no :: uint64
  ge_commit_id :: uint64
  ge_domain_id :: uint32
  ge_flags2 :: uchar

definition FL_STANDALONE :: uchar where "FL_STANDALONE = 1"
definition FL_GROUP_COMMIT_ID :: uchar where "FL_GROUP_COMMIT_ID = 2"
definition FL_TRANSACTIONAL :: uchar where "FL_TRANSACTIONAL = 4"
definition FL_ALLOW_PARALLEL :: uchar where "FL_ALLOW_PARALLEL = 8"
definition FL_WAITED :: uchar where "FL_WAITED = 16"
definition FL_DDL :: uchar where "FL_DDL = 32"

definition gtid_get_data_size :: "Gtid_log_event \<Rightarrow> uint32" where
  "gtid_get_data_size e = of_nat GTID_HEADER_LEN + (if ge_flags2 e AND FL_GROUP_COMMIT_ID \<noteq> 0 then 2 else 0)"

definition element_size :: uint32 where "element_size = 4 + 4 + 8"

definition gtid_list_get_data_size :: "uint32 \<Rightarrow> uint32" where
  "gtid_list_get_data_size count = (if count = 0 then of_nat GTID_LIST_HEADER_LEN + 2 else of_nat GTID_LIST_HEADER_LEN + count * element_size)"

record User_var_log_event =
  uv_name :: ptr
  uv_name_len :: uint64
  uv_val :: ptr
  uv_val_len :: uint64
  uv_charset_number :: uint32
  uv_is_null :: bool
  uv_flags :: uchar
  uv_deferred :: bool
  uv_query_id :: uint64

definition set_deferred :: "uint64 \<Rightarrow> User_var_log_event \<Rightarrow> User_var_log_event" where
  "set_deferred qid e = e\<lparr>uv_deferred := True, uv_query_id := qid\<rparr>"

record Table_map_log_event =
  tm_table_id :: uint64
  tm_memory :: ptr
  tm_flags :: uint16
  tm_data_size :: uint64

definition tm_get_flags :: "uint16 \<Rightarrow> Table_map_log_event \<Rightarrow> uint16" where
  "tm_get_flags flag e = tm_flags e AND flag"

text \<open>Incidents: the number of the incident and the message, which the second constructor copies up to its first zero byte (\<open>strmake\<close>).\<close>

definition INCIDENT_NONE :: uint32 where "INCIDENT_NONE = 0"
definition INCIDENT_LOST_EVENTS :: uint32 where "INCIDENT_LOST_EVENTS = 1"
definition INCIDENT_COUNT :: uint32 where "INCIDENT_COUNT = 2"

record Incident_log_event =
  m_incident :: uint32
  m_message_str :: "uchar list option"
  m_message_length :: uint64

definition incident_log_event :: "uint32 \<Rightarrow> Log_event \<Rightarrow> Log_event \<times> Incident_log_event" where
  "incident_log_event incident base =
     (let e = set_direct_logging base in (e\<lparr>ev_flags := ev_flags e AND NOT LOG_EVENT_SKIP_REPLICATION_F\<rparr>, \<lparr>m_incident = incident, m_message_str = None, m_message_length = 0\<rparr>))"

text \<open>\<open>alloc\<close> says whether the memory for the message could be allocated.\<close>

definition incident_log_event_msg :: "bool \<Rightarrow> uint32 \<Rightarrow> uchar list \<Rightarrow> Log_event \<Rightarrow> Log_event \<times> Incident_log_event" where
  "incident_log_event_msg alloc incident msg base =
     (if \<not> alloc then (base, \<lparr>m_incident = INCIDENT_NONE, m_message_str = None, m_message_length = 0\<rparr>)
      else let e = set_direct_logging base
           in (e\<lparr>ev_flags := ev_flags e AND NOT LOG_EVENT_SKIP_REPLICATION_F\<rparr>,
               \<lparr>m_incident = incident, m_message_str = Some (takeWhile (\<lambda>c. c \<noteq> 0) msg), m_message_length = of_nat (length msg)\<rparr>))"

definition incident_get_data_size :: "Incident_log_event \<Rightarrow> uint32" where
  "incident_get_data_size e = of_nat INCIDENT_HEADER_LEN + 1 + ucast (m_message_length e)"

definition incident_is_valid :: "Incident_log_event \<Rightarrow> bool" where
  "incident_is_valid e \<longleftrightarrow> m_incident e > INCIDENT_NONE \<and> m_incident e < INCIDENT_COUNT"

text \<open>Row events; the class gives the general type code.\<close>

datatype rows_class = Write_rows_log_event | Update_rows_log_event | Delete_rows_log_event

primrec get_general_type_code :: "rows_class \<Rightarrow> Log_event_type" where
  "get_general_type_code Write_rows_log_event = WRITE_ROWS_EVENT" |
  "get_general_type_code Update_rows_log_event = UPDATE_ROWS_EVENT" |
  "get_general_type_code Delete_rows_log_event = DELETE_ROWS_EVENT"

record Rows_log_event =
  rows_class :: rows_class
  rows_type :: Log_event_type
  rows_flags :: uint16
  rows_flags_pos :: nat
  m_rows_buf :: ptr
  m_rows_end :: ptr
  m_curr_row :: ptr
  m_width :: ulong
  m_cols :: "nat set option"
  m_cols_ai :: "nat set option"

definition STMT_END_F :: uint16 where "STMT_END_F = 1"
definition NO_FOREIGN_KEY_CHECKS_F :: uint16 where "NO_FOREIGN_KEY_CHECKS_F = 2"
definition RELAXED_UNIQUE_CHECKS_F :: uint16 where "RELAXED_UNIQUE_CHECKS_F = 4"
definition COMPLETE_ROWS_F :: uint16 where "COMPLETE_ROWS_F = 8"
definition NO_CHECK_CONSTRAINT_CHECKS_F :: uint16 where "NO_CHECK_CONSTRAINT_CHECKS_F = 128"

definition rows_set_flags :: "uint16 \<Rightarrow> Rows_log_event \<Rightarrow> Rows_log_event" where
  "rows_set_flags f e = e\<lparr>rows_flags := rows_flags e OR f\<rparr>"

definition rows_clear_flags :: "uint16 \<Rightarrow> Rows_log_event \<Rightarrow> Rows_log_event" where
  "rows_clear_flags f e = e\<lparr>rows_flags := rows_flags e AND NOT f\<rparr>"

definition rows_get_flags :: "uint16 \<Rightarrow> Rows_log_event \<Rightarrow> uint16" where
  "rows_get_flags f e = rows_flags e AND f"

definition rows_update_flags :: "mem \<Rightarrow> Log_event \<Rightarrow> Rows_log_event \<Rightarrow> mem" where
  "rows_update_flags m base e = int2store m (ev_temp_buf base + rows_flags_pos e) (ucast (rows_flags e))"

definition rows_is_valid :: "Rows_log_event \<Rightarrow> bool" where
  "rows_is_valid e \<longleftrightarrow> m_rows_buf e \<noteq> 0 \<and> m_cols e \<noteq> None"

definition update_rows_is_valid :: "Rows_log_event \<Rightarrow> bool" where
  "update_rows_is_valid e \<longleftrightarrow> rows_is_valid e \<and> m_cols_ai e \<noteq> None"

text \<open>\<open>bitmap_cmp\<close> says whether two bitmaps are equal; a bitmap is the set of its columns.\<close>

definition read_write_bitmaps_cmp :: "nat set option \<Rightarrow> nat set option \<Rightarrow> Rows_log_event \<Rightarrow> bool option" where
  "read_write_bitmaps_cmp read_set rpl_write_set e =
     (case get_general_type_code (rows_class e) of
        DELETE_ROWS_EVENT \<Rightarrow> Some (m_cols e = read_set)
      | UPDATE_ROWS_EVENT \<Rightarrow> Some (m_cols e = read_set \<and> m_cols_ai e = rpl_write_set)
      | WRITE_ROWS_EVENT \<Rightarrow> Some (m_cols e = rpl_write_set)
      | _ \<Rightarrow> None)"

text \<open>The error code of \<open>unpack_current_row\<close> is that of \<open>unpack_row\<close>; a position behind the rows is a failed assertion.\<close>

definition unpack_current_row :: "(ptr \<Rightarrow> ptr \<Rightarrow> uint32) \<Rightarrow> Rows_log_event \<Rightarrow> uint32 option" where
  "unpack_current_row unpack_row e = (if m_curr_row e \<le> m_rows_end e then Some (unpack_row (m_curr_row e) (m_rows_end e)) else None)"

definition is_auto_inc_in_extra_columns :: "nat option \<Rightarrow> Rows_log_event \<Rightarrow> bool" where
  "is_auto_inc_in_extra_columns next_number_field_index e = (case next_number_field_index of None \<Rightarrow> False | Some i \<Rightarrow> i \<ge> unat (m_width e))"

section \<open>Virtual functions\<close>

datatype event_object =
    Query_obj Query_log_event
  | Query_compressed_obj Query_log_event
  | Load_obj Load_log_event
  | Start_v3_obj Start_log_event_v3
  | Start_encryption_obj Start_encryption_log_event
  | Format_description_obj Format_description_log_event
  | Intvar_obj uchar uint64
  | Rand_obj uint64 uint64
  | Xid_obj uint64
  | User_var_obj User_var_log_event
  | Stop_obj
  | Rotate_obj Rotate_log_event
  | Binlog_checkpoint_obj ptr uint32
  | Gtid_obj Gtid_log_event
  | Gtid_list_obj ptr uint32
  | Create_file_obj Create_file_log_event
  | Append_block_obj ptr uint32
  | Delete_file_obj uint32
  | Execute_load_obj uint32
  | Begin_load_query_obj ptr uint32
  | Execute_load_query_obj Query_log_event uint32
  | Unknown_obj
  | Annotate_rows_obj
  | Table_map_obj Table_map_log_event
  | Rows_obj Rows_log_event
  | Incident_obj Incident_log_event
  | Ignorable_obj
  | Heartbeat_obj ptr uint32

type_synonym event = "Log_event \<times> event_object"

text \<open>The constructors of the events that accompany a statement; the first argument is the part common to all events.\<close>

definition direct_event :: "bool \<Rightarrow> Log_event \<Rightarrow> Log_event" where
  "direct_event direct base = (if direct then base\<lparr>ev_cache_type := EVENT_NO_CACHE\<rparr> else base)"

definition intvar_log_event :: "Log_event \<Rightarrow> uchar \<Rightarrow> uint64 \<Rightarrow> bool \<Rightarrow> event" where
  "intvar_log_event base type_arg val_arg direct = (direct_event direct base, Intvar_obj type_arg val_arg)"

definition rand_log_event :: "Log_event \<Rightarrow> uint64 \<Rightarrow> uint64 \<Rightarrow> bool \<Rightarrow> event" where
  "rand_log_event base seed1_arg seed2_arg direct = (direct_event direct base, Rand_obj seed1_arg seed2_arg)"

definition xid_log_event :: "Log_event \<Rightarrow> uint64 \<Rightarrow> bool \<Rightarrow> event" where
  "xid_log_event base x direct = (direct_event direct base, Xid_obj x)"

definition user_var_log_event :: "Log_event \<Rightarrow> ptr \<Rightarrow> uint64 \<Rightarrow> ptr \<Rightarrow> uint64 \<Rightarrow> uint32 \<Rightarrow> uchar \<Rightarrow> uint64 \<Rightarrow> bool \<Rightarrow> event" where
  "user_var_log_event base name name_len val val_len charset_number flags query_id direct =
     (direct_event direct base,
      User_var_obj \<lparr>uv_name = name, uv_name_len = name_len, uv_val = val, uv_val_len = val_len, uv_charset_number = charset_number, uv_is_null = (val = 0),
        uv_flags = flags, uv_deferred = False, uv_query_id = query_id\<rparr>)"

text \<open>The type code; computing that of a \<open>LOAD\<close> event settles its format.  The function of annotations is compiled code, so their type is an argument.\<close>

definition get_type_code :: "Log_event_type \<Rightarrow> event_object \<Rightarrow> Log_event_type \<times> event_object" where
  "get_type_code annotation_type ob =
     (case ob of
        Query_obj _ \<Rightarrow> (QUERY_EVENT, ob)
      | Query_compressed_obj _ \<Rightarrow> (QUERY_COMPRESSED_EVENT, ob)
      | Load_obj l \<Rightarrow> (let (t, l') = load_get_type_code l in (t, Load_obj l'))
      | Start_v3_obj _ \<Rightarrow> (START_EVENT_V3, ob)
      | Start_encryption_obj _ \<Rightarrow> (START_ENCRYPTION_EVENT, ob)
      | Format_description_obj _ \<Rightarrow> (FORMAT_DESCRIPTION_EVENT, ob)
      | Intvar_obj _ _ \<Rightarrow> (INTVAR_EVENT, ob)
      | Rand_obj _ _ \<Rightarrow> (RAND_EVENT, ob)
      | Xid_obj _ \<Rightarrow> (XID_EVENT, ob)
      | User_var_obj _ \<Rightarrow> (USER_VAR_EVENT, ob)
      | Stop_obj \<Rightarrow> (STOP_EVENT, ob)
      | Rotate_obj _ \<Rightarrow> (ROTATE_EVENT, ob)
      | Binlog_checkpoint_obj _ _ \<Rightarrow> (BINLOG_CHECKPOINT_EVENT, ob)
      | Gtid_obj _ \<Rightarrow> (GTID_EVENT, ob)
      | Gtid_list_obj _ _ \<Rightarrow> (GTID_LIST_EVENT, ob)
      | Create_file_obj c \<Rightarrow> (let (t, c') = create_file_get_type_code c in (t, Create_file_obj c'))
      | Append_block_obj _ _ \<Rightarrow> (APPEND_BLOCK_EVENT, ob)
      | Delete_file_obj _ \<Rightarrow> (DELETE_FILE_EVENT, ob)
      | Execute_load_obj _ \<Rightarrow> (EXEC_LOAD_EVENT, ob)
      | Begin_load_query_obj _ _ \<Rightarrow> (BEGIN_LOAD_QUERY_EVENT, ob)
      | Execute_load_query_obj _ _ \<Rightarrow> (EXECUTE_LOAD_QUERY_EVENT, ob)
      | Unknown_obj \<Rightarrow> (UNKNOWN_EVENT, ob)
      | Annotate_rows_obj \<Rightarrow> (annotation_type, ob)
      | Table_map_obj _ \<Rightarrow> (TABLE_MAP_EVENT, ob)
      | Rows_obj r \<Rightarrow> (rows_type r, ob)
      | Incident_obj _ \<Rightarrow> (INCIDENT_EVENT, ob)
      | Ignorable_obj \<Rightarrow> (IGNORABLE_LOG_EVENT, ob)
      | Heartbeat_obj _ _ \<Rightarrow> (HEARTBEAT_LOG_EVENT, ob))"

text \<open>
  The size of the data after the common header, for the events whose \<open>write\<close> relies on it; \<open>declared_size\<close> gives it for the two
  classes whose function is compiled code.
\<close>

definition get_data_size :: "(event_object \<Rightarrow> uint32) \<Rightarrow> event_object \<Rightarrow> uint32 \<times> event_object" where
  "get_data_size declared_size ob =
     (case ob of
        Load_obj l \<Rightarrow> (let (n, l') = load_get_data_size l in (n, Load_obj l'))
      | Start_v3_obj _ \<Rightarrow> (of_nat START_V3_HEADER_LEN, ob)
      | Start_encryption_obj _ \<Rightarrow> (of_nat (BINLOG_CRYPTO_SCHEME_LENGTH + BINLOG_KEY_VERSION_LENGTH + BINLOG_NONCE_LENGTH), ob)
      | Format_description_obj _ \<Rightarrow> (of_nat FORMAT_DESCRIPTION_HEADER_LEN, ob)
      | Intvar_obj _ _ \<Rightarrow> (9, ob)
      | Rand_obj _ _ \<Rightarrow> (16, ob)
      | Xid_obj _ \<Rightarrow> (8, ob)
      | Rotate_obj r \<Rightarrow> (ident_len r + of_nat ROTATE_HEADER_LEN, ob)
      | Binlog_checkpoint_obj _ len \<Rightarrow> (len + of_nat BINLOG_CHECKPOINT_HEADER_LEN, ob)
      | Gtid_obj g \<Rightarrow> (gtid_get_data_size g, ob)
      | Gtid_list_obj _ count \<Rightarrow> (gtid_list_get_data_size count, ob)
      | Create_file_obj c \<Rightarrow> (let (n, c') = create_file_get_data_size c in (n, Create_file_obj c'))
      | Append_block_obj _ len \<Rightarrow> (len + of_nat APPEND_BLOCK_HEADER_LEN, ob)
      | Begin_load_query_obj _ len \<Rightarrow> (len + of_nat APPEND_BLOCK_HEADER_LEN, ob)
      | Delete_file_obj _ \<Rightarrow> (of_nat DELETE_FILE_HEADER_LEN, ob)
      | Execute_load_obj _ \<Rightarrow> (of_nat EXEC_LOAD_HEADER_LEN, ob)
      | Table_map_obj t \<Rightarrow> (ucast (tm_data_size t), ob)
      | Annotate_rows_obj \<Rightarrow> (declared_size ob, ob)
      | Rows_obj _ \<Rightarrow> (declared_size ob, ob)
      | Incident_obj i \<Rightarrow> (incident_get_data_size i, ob)
      | Ignorable_obj \<Rightarrow> (of_nat IGNORABLE_HEADER_LEN, ob)
      | _ \<Rightarrow> (0, ob))"

definition event_is_valid :: "bool \<Rightarrow> event \<Rightarrow> bool" where
  "event_is_valid annotation_is_valid ev =
     (case snd ev of
        Query_obj q \<Rightarrow> qe_query q \<noteq> 0
      | Query_compressed_obj q \<Rightarrow> qe_query q \<noteq> 0
      | Load_obj l \<Rightarrow> load_table_name l \<noteq> 0
      | Start_v3_obj s \<Rightarrow> server_version s 0 \<noteq> 0
      | Start_encryption_obj s \<Rightarrow> se_crypto_scheme s = 1
      | Format_description_obj f \<Rightarrow> header_is_valid f \<and> version_is_valid f
      | User_var_obj u \<Rightarrow> uv_name u \<noteq> 0
      | Rotate_obj r \<Rightarrow> new_log_ident r \<noteq> 0
      | Binlog_checkpoint_obj name _ \<Rightarrow> name \<noteq> 0
      | Gtid_obj g \<Rightarrow> ge_seq_no g \<noteq> 0
      | Gtid_list_obj gtids _ \<Rightarrow> gtids \<noteq> 0
      | Create_file_obj c \<Rightarrow> inited_from_old c \<or> cf_block c \<noteq> 0
      | Append_block_obj block _ \<Rightarrow> block \<noteq> 0
      | Begin_load_query_obj block _ \<Rightarrow> block \<noteq> 0
      | Delete_file_obj file_id \<Rightarrow> file_id \<noteq> 0
      | Execute_load_obj file_id \<Rightarrow> file_id \<noteq> 0
      | Execute_load_query_obj q file_id \<Rightarrow> qe_query q \<noteq> 0 \<and> file_id \<noteq> 0
      | Annotate_rows_obj \<Rightarrow> annotation_is_valid
      | Table_map_obj t \<Rightarrow> tm_memory t \<noteq> 0
      | Rows_obj r \<Rightarrow> (if rows_class r = Update_rows_log_event then update_rows_is_valid r else rows_is_valid r)
      | Incident_obj i \<Rightarrow> incident_is_valid i
      | Heartbeat_obj log_ident _ \<Rightarrow> log_ident \<noteq> 0 \<and> ev_log_pos (fst ev) \<ge> 4
      | _ \<Rightarrow> True)"

definition logged_status :: "event_object \<Rightarrow> enum_logged_status" where
  "logged_status ob =
     (case ob of Gtid_obj _ \<Rightarrow> LOGGED_NO_DATA | Annotate_rows_obj \<Rightarrow> LOGGED_NO_DATA | Table_map_obj _ \<Rightarrow> LOGGED_TABLE_MAP | Rows_obj _ \<Rightarrow> LOGGED_ROW_EVENT
      | _ \<Rightarrow> LOGGED_CRITICAL)"

definition is_part_of_group :: "event_object \<Rightarrow> bool" where
  "is_part_of_group ob =
     (case ob of Intvar_obj _ _ \<Rightarrow> True | Rand_obj _ _ \<Rightarrow> True | User_var_obj _ \<Rightarrow> True | Annotate_rows_obj \<Rightarrow> True | Table_map_obj _ \<Rightarrow> True
      | Rows_obj r \<Rightarrow> rows_get_flags STMT_END_F r \<noteq> 0 | _ \<Rightarrow> False)"

definition get_header_len :: "nat \<Rightarrow> event_object \<Rightarrow> nat" where
  "get_header_len len ob =
     (case ob of Start_v3_obj _ \<Rightarrow> LOG_EVENT_MINIMAL_HEADER_LEN | Format_description_obj _ \<Rightarrow> LOG_EVENT_MINIMAL_HEADER_LEN
      | Rotate_obj _ \<Rightarrow> LOG_EVENT_MINIMAL_HEADER_LEN | _ \<Rightarrow> len)"

text \<open>Whether an event of the start or the end of a log is skipped; the start of encryption never is.\<close>

definition start_do_shall_skip :: "uint32 \<Rightarrow> Log_event \<Rightarrow> enum_skip_reason" where
  "start_do_shall_skip server_id e = (if ev_server_id e = server_id then EVENT_SKIP_IGNORE else EVENT_SKIP_NOT)"

definition stop_do_shall_skip :: "uint32 \<Rightarrow> Log_event \<Rightarrow> enum_skip_reason" where
  "stop_do_shall_skip server_id e = (if ev_server_id e = server_id then EVENT_SKIP_IGNORE else EVENT_SKIP_NOT)"

definition is_query_begin :: "mem \<Rightarrow> event_object \<Rightarrow> bool" where
  "is_query_begin m ob = (case ob of Query_obj q \<Rightarrow> is_begin m q | Execute_load_query_obj q _ \<Rightarrow> is_begin m q | _ \<Rightarrow> False)"

definition is_query_commit :: "mem \<Rightarrow> event_object \<Rightarrow> bool" where
  "is_query_commit m ob = (case ob of Query_obj q \<Rightarrow> is_commit m q | Execute_load_query_obj q _ \<Rightarrow> is_commit m q | _ \<Rightarrow> False)"

definition is_query_rollback :: "mem \<Rightarrow> event_object \<Rightarrow> bool" where
  "is_query_rollback m ob = (case ob of Query_obj q \<Rightarrow> is_rollback m q | Execute_load_query_obj q _ \<Rightarrow> is_rollback m q | _ \<Rightarrow> False)"

section \<open>Types of row events\<close>

lemmas row_types = LOG_EVENT_IS_WRITE_ROW_def LOG_EVENT_IS_UPDATE_ROW_def LOG_EVENT_IS_DELETE_ROW_def LOG_EVENT_IS_ROW_COMPRESSED_def LOG_EVENT_IS_ROW_V2_def

lemma uncompressed_types:
  "uncompressed_type WRITE_ROWS_COMPRESSED_EVENT = WRITE_ROWS_EVENT"
  "uncompressed_type UPDATE_ROWS_COMPRESSED_EVENT = UPDATE_ROWS_EVENT"
  "uncompressed_type DELETE_ROWS_COMPRESSED_EVENT = DELETE_ROWS_EVENT"
  "uncompressed_type WRITE_ROWS_COMPRESSED_EVENT_V1 = WRITE_ROWS_EVENT_V1"
  "uncompressed_type UPDATE_ROWS_COMPRESSED_EVENT_V1 = UPDATE_ROWS_EVENT_V1"
  "uncompressed_type DELETE_ROWS_COMPRESSED_EVENT_V1 = DELETE_ROWS_EVENT_V1"
  by (simp_all add: uncompressed_type_def LOG_EVENT_IS_ROW_V2_def less_eq_Log_event_type_def event_of_number_def)

text \<open>
  The conversion from a compressed row event to the event without compression, by the difference of the type numbers, keeps the kind of
  the change and the version of the format, and its result is not compressed.  No type is of two kinds of row events.
\<close>

theorem row_types_uncompressed:
  assumes "LOG_EVENT_IS_ROW_COMPRESSED t"
  shows "\<not> LOG_EVENT_IS_ROW_COMPRESSED (uncompressed_type t)"
    "LOG_EVENT_IS_WRITE_ROW (uncompressed_type t) = LOG_EVENT_IS_WRITE_ROW t"
    "LOG_EVENT_IS_UPDATE_ROW (uncompressed_type t) = LOG_EVENT_IS_UPDATE_ROW t"
    "LOG_EVENT_IS_DELETE_ROW (uncompressed_type t) = LOG_EVENT_IS_DELETE_ROW t"
    "LOG_EVENT_IS_ROW_V2 (uncompressed_type t) = LOG_EVENT_IS_ROW_V2 t"
    "length (filter id [LOG_EVENT_IS_WRITE_ROW t, LOG_EVENT_IS_UPDATE_ROW t, LOG_EVENT_IS_DELETE_ROW t]) = 1"
  using assms unfolding LOG_EVENT_IS_ROW_COMPRESSED_def
  by (elim disjE; simp add: uncompressed_types row_types less_eq_Log_event_type_def)+

section \<open>Events and groups\<close>

lemma part_of_group_types: "type_is_part_of_group t \<longleftrightarrow> t \<in> {GTID_EVENT, INTVAR_EVENT, RAND_EVENT, USER_VAR_EVENT, TABLE_MAP_EVENT, ANNOTATE_ROWS_EVENT}"
  by (cases t) (simp_all add: type_is_part_of_group_def)

lemma load_type_code [simp]: "fst (load_get_type_code l) = (if fst (new_format (load_sql_ex l)) then NEW_LOAD_EVENT else LOAD_EVENT)"
  by (simp add: load_get_type_code_def split_beta)

lemma create_file_type_code [simp]:
  "fst (create_file_get_type_code c) = (if fake_base c then fst (load_get_type_code (cf_load c)) else CREATE_FILE_EVENT)"
  by (simp add: create_file_get_type_code_def split_beta)

text \<open>
  What an object says of its membership in a group and what its type says agree for all events but two: a GTID event says that it
  is not part of a group where its type says that it is, and of the events of a statement's rows it is the last one that says it is
  part of a group, where the others say that they are not.
\<close>

theorem part_of_group_by_object:
  assumes "annotation_type = ANNOTATE_ROWS_EVENT"
  shows "is_part_of_group ob =
    (case ob of Gtid_obj _ \<Rightarrow> False | Rows_obj r \<Rightarrow> rows_get_flags STMT_END_F r \<noteq> 0 | _ \<Rightarrow> type_is_part_of_group (fst (get_type_code annotation_type ob)))"
  using assms by (cases ob) (simp_all add: is_part_of_group_def get_type_code_def part_of_group_types split_beta)

theorem part_of_group_is_group_event: "type_is_part_of_group t \<Longrightarrow> is_group_event t"
  by (cases t) (simp_all add: type_is_part_of_group_def is_group_event_def)

text \<open>Events of the start, the end and the state of a log are not group events, whatever their contents.\<close>

theorem log_events_outside_groups:
  assumes "ob = Stop_obj \<or> (\<exists>s. ob = Start_v3_obj s) \<or> (\<exists>s. ob = Start_encryption_obj s) \<or> (\<exists>f. ob = Format_description_obj f) \<or>
    (\<exists>r. ob = Rotate_obj r) \<or> (\<exists>n len. ob = Binlog_checkpoint_obj n len) \<or> (\<exists>g c. ob = Gtid_list_obj g c) \<or> (\<exists>n len. ob = Heartbeat_obj n len)"
  shows "\<not> is_group_event (fst (get_type_code annotation_type ob)) \<and> \<not> is_part_of_group ob \<and> logged_status ob = LOGGED_CRITICAL"
  using assms by (auto simp: is_part_of_group_def get_type_code_def is_group_event_def logged_status_def)

section \<open>The common part\<close>

theorem event_flags_independent:
  "is_artificial_event (set_artificial_event e)" "is_relay_log_event (set_relay_log_event e)"
  "is_relay_log_event (set_artificial_event e) = is_relay_log_event e" "is_artificial_event (set_relay_log_event e) = is_artificial_event e"
  "use_direct_logging (set_direct_logging e)" "\<not> use_trans_cache (set_direct_logging e)"
  by (simp_all add: set_artificial_event_def set_relay_log_event_def is_artificial_event_def is_relay_log_event_def event_flags
      bit.conj_disj_distrib2 use_direct_logging_def set_direct_logging_def use_trans_cache_def EVENT_NO_CACHE_def EVENT_TRANSACTIONAL_CACHE_def)

text \<open>
  The time of an event does not change once it was asked for, whatever sessions and clock later calls see, unless it was the
  first second of the epoch.
\<close>

theorem event_time_fixed:
  assumes "get_time thd current hr e = (t, e')" "t \<noteq> 0"
  shows "get_time thd' current' hr' e' = (t, e')" "ev_when e' = t"
  using assms by (auto simp: get_time_def split: if_splits option.splits prod.splits)

text \<open>The buffer of an event is freed exactly when the event owns it, and at most once.\<close>

datatype buf_op = Register ptr bool | Free

definition buf_exec :: "buf_op \<Rightarrow> Log_event \<times> ptr list \<Rightarrow> Log_event \<times> ptr list" where
  "buf_exec op = (case op of Register b own \<Rightarrow> register_temp_buf b own | Free \<Rightarrow> free_temp_buf)"

primrec owned_bufs :: "buf_op list \<Rightarrow> ptr list" where
  "owned_bufs [] = []"
| "owned_bufs (op # ops) = (case op of Register b own \<Rightarrow> if own then b # owned_bufs ops else owned_bufs ops | Free \<Rightarrow> owned_bufs ops)"

definition pending_bufs :: "Log_event \<Rightarrow> ptr list" where
  "pending_bufs e = (if event_owns_temp_buf e \<and> ev_temp_buf e \<noteq> 0 then [ev_temp_buf e] else [])"

lemma buf_step:
  assumes "buf_exec op (e, freed) = (e', freed')" "distinct (freed @ pending_bufs e @ owned_bufs (op # ops))"
  shows "distinct (freed' @ pending_bufs e' @ owned_bufs ops)"
    "set (freed' @ pending_bufs e' @ owned_bufs ops) \<subseteq> set (freed @ pending_bufs e @ owned_bufs (op # ops))"
proof -
  have "distinct (freed' @ pending_bufs e' @ owned_bufs ops) \<and>
    set (freed' @ pending_bufs e' @ owned_bufs ops) \<subseteq> set (freed @ pending_bufs e @ owned_bufs (op # ops))"
  proof (cases op)
    case (Register b own)
    then have "freed' = freed" "pending_bufs e' = (if own \<and> b \<noteq> 0 then [b] else [])"
      using assms(1) by (auto simp: buf_exec_def register_temp_buf_def pending_bufs_def)
    then show ?thesis using assms(2) Register by (cases own; cases "b = 0") auto
  next
    case Free
    then have "freed' = freed @ pending_bufs e" "pending_bufs e' = []"
      using assms(1) by (auto simp: buf_exec_def free_temp_buf_def pending_bufs_def split: if_splits)
    then show ?thesis using assms(2) Free by auto
  qed
  then show "distinct (freed' @ pending_bufs e' @ owned_bufs ops)"
    "set (freed' @ pending_bufs e' @ owned_bufs ops) \<subseteq> set (freed @ pending_bufs e @ owned_bufs (op # ops))" by blast+
qed

lemma bufs_freed:
  assumes "fold buf_exec ops (e, freed) = (e', freed')" "distinct (freed @ pending_bufs e @ owned_bufs ops)"
  shows "distinct freed' \<and> set freed' \<subseteq> set (freed @ pending_bufs e @ owned_bufs ops)"
  using assms
proof (induction ops arbitrary: e freed)
  case (Cons op ops)
  obtain e1 f1 where s: "buf_exec op (e, freed) = (e1, f1)" by force
  note step = buf_step [OF s Cons.prems(2)]
  have "distinct freed' \<and> set freed' \<subseteq> set (f1 @ pending_bufs e1 @ owned_bufs ops)"
    by (rule Cons.IH [OF _ step(1)]) (use Cons.prems(1) s in simp)
  then show ?case using step(2) by blast
qed auto

theorem temp_buf_freed_once:
  assumes "fold buf_exec ops (e, []) = (e', freed)" "ev_temp_buf e = 0" "distinct (owned_bufs ops)"
  shows "distinct freed" "set freed \<subseteq> set (owned_bufs ops)"
    "b \<noteq> 0 \<Longrightarrow> snd (free_temp_buf (register_temp_buf b own (e', freed))) = (if own then freed @ [b] else freed)"
    "free_temp_buf (free_temp_buf (e', freed)) = free_temp_buf (e', freed)"
  using bufs_freed [OF assms(1)] assms(2,3) by (auto simp: pending_bufs_def free_temp_buf_def register_temp_buf_def)

section \<open>Writing an event\<close>

text \<open>The steps of a write are done in order up to the first that fails; the status of the event is recorded exactly once, even then.\<close>

primrec write_steps :: "('s \<Rightarrow> bool \<times> 's) list \<Rightarrow> 's \<Rightarrow> bool \<times> 's" where
  "write_steps [] s = (False, s)"
| "write_steps (f # fs) s = (if fst (f s) then (True, snd (f s)) else write_steps fs (snd (f s)))"

theorem event_written_in_order:
  "log_event_writer_write add_status (log_event_write header data_header data_body footer) status s =
     (let (res, s') = write_steps [header, data_header, data_body, footer] s in (res, add_status status s'))"
proof -
  have "f s = (fst (f s), snd (f s))" for f :: "'a \<Rightarrow> bool \<times> 'a" and s by simp
  then show ?thesis
    by (auto simp: log_event_writer_write_def log_event_write_def or_else_def split_beta Let_def prod_eq_iff)
qed

section \<open>Encryption\<close>

lemma set_iv_bytes:
  assumes "length (crypt_nonce c) = BINLOG_NONCE_LENGTH"
  shows "set_iv c m iv offs = put_bytes m iv (crypt_nonce c @ le_bytes 4 (unat offs))"
  using assms by (simp add: set_iv_def int4store_bytes put_bytes_append)

text \<open>
  C21: The initialisation vector is the nonce of the log followed by the position, and no other memory changes.  So two blocks of a log at
  different positions never use the same vector.
\<close>

theorem iv_unique:
  assumes "length (crypt_nonce c) = BINLOG_NONCE_LENGTH"
  shows "bytes_at (set_iv c m iv offs) iv BINLOG_IV_LENGTH = crypt_nonce c @ le_bytes 4 (unat offs) \<and>
    (\<forall>a. a < iv \<or> iv + BINLOG_IV_LENGTH \<le> a \<longrightarrow> set_iv c m iv offs a = m a) \<and>
    (\<forall>offs'. bytes_at (set_iv c m iv offs) iv BINLOG_IV_LENGTH = bytes_at (set_iv c m iv offs') iv BINLOG_IV_LENGTH \<longleftrightarrow> offs = offs')"
proof -
  have len: "BINLOG_IV_LENGTH = length (crypt_nonce c @ le_bytes 4 (unat w))" for w :: uint32 using assms by (simp add: crypt_lengths)
  have b: "bytes_at (set_iv c m iv w) iv BINLOG_IV_LENGTH = crypt_nonce c @ le_bytes 4 (unat w)" for w
    using set_iv_bytes [OF assms] bytes_at_put_same [OF len] by simp
  have "set_iv c m iv offs a = m a" if "a < iv \<or> iv + BINLOG_IV_LENGTH \<le> a" for a
    using that set_iv_bytes [OF assms] put_bytes_outside [of a iv "crypt_nonce c @ le_bytes 4 (unat offs)" m] len [of offs] by simp
  moreover have "offs = w" if "le_bytes 4 (unat offs) = le_bytes 4 (unat w)" for w :: uint32
    using arg_cong [OF that, of le_nat] uint32_lt [of offs] uint32_lt [of w] by (simp add: le_nat_le_bytes word_eq_unatI)
  ultimately show ?thesis by (auto simp: b)
qed

text \<open>
  What the code relies on from the function that writes data: when it succeeds, the bytes were appended to the log.
\<close>

definition appends_data :: "(uchar list \<Rightarrow> 's \<Rightarrow> bool \<times> 's) \<Rightarrow> ('s \<Rightarrow> uchar list) \<Rightarrow> bool" where
  "appends_data write_data log \<longleftrightarrow> (\<forall>bs s s'. write_data bs s = (False, s') \<longrightarrow> log s' = log s @ bs)"

text \<open>
  A start-of-encryption event that was constructed and written without error put exactly as many bytes into the log as its size says:
  the scheme, the version of the key and the nonce.
\<close>

theorem start_encryption_body:
  assumes "appends_data write_data log" "start_encryption_log_event scheme kv nonce base = Some (base', e)"
    and "start_encryption_write_data_body write_data e s = (False, s')"
  shows "log s' = log s @ [1] @ le_bytes 4 (unat kv) @ take 12 nonce"
    "length (log s') = length (log s) + unat (fst (get_data_size declared_size (Start_encryption_obj e)))"
    "event_is_valid v (base', Start_encryption_obj e)" "use_direct_logging base'"
proof -
  have e: "scheme = 1" "12 \<le> length nonce" "e = \<lparr>se_crypto_scheme = 1, se_key_version = kv, se_nonce = take 12 nonce\<rparr>"
    "base' = base\<lparr>ev_cache_type := EVENT_NO_CACHE\<rparr>"
    using assms(2) by (auto simp: start_encryption_log_event_def crypt_lengths split: if_splits)
  have kv: "bytes_at (int4store (\<lambda>_. 0) 0 kv) 0 BINLOG_KEY_VERSION_LENGTH = le_bytes 4 (unat kv)"
    by (simp add: int4store_bytes crypt_lengths bytes_at_put_same)
  obtain s1 s2 where w: "write_data [1] s = (False, s1)" "write_data (le_bytes 4 (unat kv)) s1 = (False, s2)" "write_data (take 12 nonce) s2 = (False, s')"
    using assms(3) by (auto simp: start_encryption_write_data_body_def e or_else_def kv Let_def split: prod.splits if_splits)
  have step: "write_data bs t = (False, t') \<Longrightarrow> log t' = log t @ bs" for bs t t' using assms(1) by (auto simp: appends_data_def)
  show l: "log s' = log s @ [1] @ le_bytes 4 (unat kv) @ take 12 nonce" using w [THEN step] by simp
  show "length (log s') = length (log s) + unat (fst (get_data_size declared_size (Start_encryption_obj e)))"
    using e(2) by (simp add: l get_data_size_def crypt_lengths)
  show "event_is_valid v (base', Start_encryption_obj e)" "use_direct_logging base'"
    by (simp_all add: e event_is_valid_def use_direct_logging_def)
qed

section \<open>Transaction keywords\<close>

lemma strn_eq_take:
  assumes "\<And>c. f c = 0 \<longleftrightarrow> c = 0" "bytes_at m p (Suc (length qs)) = qs @ [0]" "0 \<notin> set qs" "0 \<notin> set cs"
  shows "strn_eq f m p cs n \<longleftrightarrow> take n (map f qs @ [0]) = take n (map f cs @ [0])"
  using assms(2-4)
proof (induction n arbitrary: p qs cs)
  case (Suc n)
  note b = Suc.prems(1) [unfolded bytes_at_Suc]
  show ?case
  proof (cases cs)
    case Nil
    then show ?thesis using b Suc.prems(2) assms(1) by (cases qs) auto
  next
    case (Cons c ds)
    show ?thesis
    proof (cases qs)
      case Nil
      then show ?thesis using b Cons Suc.prems(3) assms(1) [of c] assms(1) [of 0] by auto
    next
      case (Cons q rs)
      then show ?thesis using b \<open>cs = c # ds\<close> Suc.prems(2,3) Suc.IH [of "Suc p" rs ds] by auto
    qed
  qed
qed simp

lemma take_append_prefix:
  assumes "x \<notin> set as"
  shows "take (length as) (bs @ [x]) = as \<longleftrightarrow> prefix as bs"
proof
  assume "take (length as) (bs @ [x]) = as"
  then have "prefix as (bs @ [x])" by (metis take_is_prefix)
  then show "prefix as bs" using assms by (auto simp: prefix_snoc)
qed (auto simp: prefix_def)

lemma ascii_lower_zero [simp]: "ascii_lower c = 0 \<longleftrightarrow> c = 0"
proof -
  have "c + 32 \<noteq> 0" if "65 \<le> c" "c \<le> 90"
    using that by (simp add: word_le_nat_alt word_unat_eq_iff unat_word_ariths)
  then show ?thesis by (auto simp: ascii_lower_def)
qed

lemma keyword_bytes:
  "ascii ''BEGIN'' = [66, 69, 71, 73, 78]" "ascii ''COMMIT'' = [67, 79, 77, 77, 73, 84]"
  "ascii ''SAVEPOINT'' = [83, 65, 86, 69, 80, 79, 73, 78, 84]" "ascii ''ROLLBACK'' = [82, 79, 76, 76, 66, 65, 67, 75]"
  by (simp_all add: ascii_def)

text \<open>
  For a query stored with its terminating zero and its length: the three tests for the ends of a transaction are exact, and
  the test for a keyword holds for every prefix of \<open>BEGIN\<close> and \<open>COMMIT\<close>, the empty one included, and for every text that starts with
  \<open>SAVEPOINT\<close> or \<open>ROLLBACK\<close> in any case.  So it covers all three ends.
\<close>

theorem transaction_keywords:
  assumes "bytes_at m (qe_query q) (Suc (length qs)) = qs @ [0]" "0 \<notin> set qs" "unat (qe_q_len q) = length qs"
  shows "is_begin m q \<longleftrightarrow> qs = ascii ''BEGIN''" "is_commit m q \<longleftrightarrow> qs = ascii ''COMMIT''" "is_rollback m q \<longleftrightarrow> qs = ascii ''ROLLBACK''"
    "is_trans_keyword m q \<longleftrightarrow> prefix qs (ascii ''BEGIN'') \<or> prefix qs (ascii ''COMMIT'') \<or>
       prefix (map ascii_lower (ascii ''SAVEPOINT'')) (map ascii_lower qs) \<or> prefix (map ascii_lower (ascii ''ROLLBACK'')) (map ascii_lower qs)"
    "is_begin m q \<or> is_commit m q \<or> is_rollback m q \<Longrightarrow> is_trans_keyword m q"
proof -
  note take = strn_eq_take [OF _ assms(1,2)]
  have exact: "strn_eq id m (qe_query q) cs n \<longleftrightarrow> qs = cs" if "0 \<notin> set cs" "n = Suc (length cs)" for cs n
  proof -
    have "take (length (cs @ [0])) (qs @ [0]) = cs @ [0] \<longleftrightarrow> qs = cs"
    proof
      assume eq: "take (length (cs @ [0])) (qs @ [0]) = cs @ [0]"
      then have "prefix (cs @ [0]) (qs @ [0])" by (metis take_is_prefix)
      then show "qs = cs" using assms(2) by (auto simp: prefix_snoc dest: set_mono_prefix)
    qed simp
    then show ?thesis using take [of id cs n] that by (simp add: take_all)
  qed
  show b: "is_begin m q \<longleftrightarrow> qs = ascii ''BEGIN''" unfolding is_begin_def by (rule exact) (simp_all add: keyword_bytes)
  show c: "is_commit m q \<longleftrightarrow> qs = ascii ''COMMIT''" unfolding is_commit_def by (rule exact) (simp_all add: keyword_bytes)
  show r: "is_rollback m q \<longleftrightarrow> qs = ascii ''ROLLBACK''" unfolding is_rollback_def by (rule exact) (simp_all add: keyword_bytes)
  have whole: "strn_eq id m (qe_query q) cs (length qs) \<longleftrightarrow> prefix qs cs" if "0 \<notin> set cs" for cs
    using take [of id cs "length qs"] take_append_prefix [of 0 qs cs] that assms(2) by (simp add: eq_commute)
  have start: "strn_eq ascii_lower m (qe_query q) cs n \<longleftrightarrow> prefix (map ascii_lower cs) (map ascii_lower qs)" if "0 \<notin> set cs" "n = length cs" for cs n
    using take [of ascii_lower cs n] take_append_prefix [of 0 "map ascii_lower cs" "map ascii_lower qs"] that by (auto simp: image_iff)
  show k: "is_trans_keyword m q \<longleftrightarrow> prefix qs (ascii ''BEGIN'') \<or> prefix qs (ascii ''COMMIT'') \<or>
       prefix (map ascii_lower (ascii ''SAVEPOINT'')) (map ascii_lower qs) \<or> prefix (map ascii_lower (ascii ''ROLLBACK'')) (map ascii_lower qs)"
    unfolding is_trans_keyword_def assms(3)
    by (intro arg_cong2 [where f = "(\<or>)"] whole start) (simp_all add: keyword_bytes)
  show "is_begin m q \<or> is_commit m q \<or> is_rollback m q \<Longrightarrow> is_trans_keyword m q" unfolding k b c r by auto
qed

section \<open>Formats and sizes\<close>

text \<open>
  Once the format of a \<open>LOAD\<close> event was asked for it stays the same: type and size then always agree on it.
\<close>

definition sql_ex_ok :: "sql_ex_info \<Rightarrow> bool" where
  "sql_ex_ok x \<longleftrightarrow> cached_new_format x \<in> {-1, 0, 1} \<and> (cached_new_format x = 0 \<longrightarrow> \<not> long_option x)"

lemma long_option_cached [simp]: "long_option (x\<lparr>cached_new_format := c\<rparr>) = long_option x"
  by (simp add: long_option_def)

lemma new_format_ok: "sql_ex_ok x \<Longrightarrow> sql_ex_ok (snd (new_format x))"
  by (auto simp: sql_ex_ok_def new_format_def)

lemma new_format_again: "new_format x = (f, x') \<Longrightarrow> new_format x' = (f, x')"
  by (auto simp: new_format_def split: if_splits)

definition option_lengths :: "sql_ex_info \<Rightarrow> nat list" where
  "option_lengths x = map unat [field_term_len x, enclosed_len x, line_term_len x, line_start_len x, escaped_len x]"

lemma sql_ex_size:
  assumes "sql_ex_ok x" "new_format x = (f, x')"
  shows "snd (sql_ex_data_size x) = x'" "unat (fst (sql_ex_data_size x)) = (if f then sum_list (option_lengths x) + 6 else 7)"
    "\<not> f \<Longrightarrow> \<forall>n\<in>set (option_lengths x). n \<le> 1"
proof -
  show "snd (sql_ex_data_size x) = x'" using assms(2) by (simp add: sql_ex_data_size_def)
  have "unat (ucast b :: uint32) = unat b" for b :: uchar by (rule unat_ucast_up) simp
  then show "unat (fst (sql_ex_data_size x)) = (if f then sum_list (option_lengths x) + 6 else 7)"
    using assms(2) uchar_lt [of "field_term_len x"] uchar_lt [of "enclosed_len x"] uchar_lt [of "line_term_len x"] uchar_lt [of "line_start_len x"]
      uchar_lt [of "escaped_len x"]
    by (simp add: sql_ex_data_size_def option_lengths_def unat_word_ariths)
  show "\<not> f \<Longrightarrow> \<forall>n\<in>set (option_lengths x). n \<le> 1"
    using assms by (auto simp: new_format_def sql_ex_ok_def option_lengths_def long_option_def not_less word_le_nat_alt split: if_splits)
qed

theorem load_event_format:
  assumes "sql_ex_ok (load_sql_ex l)" "load_get_type_code l = (t, l')"
  shows "load_get_type_code l' = (t, l')" "sql_ex_ok (load_sql_ex l')" "load_get_data_size l' = (fst (load_get_data_size l), l')"
    "unat (table_name_len l) + unat (load_db_len l) + unat (fname_len l) + unat (field_block_len l) + unat (num_fields l) < 2 ^ 31 - 2000 \<Longrightarrow>
     sint (fst (load_get_data_size l)) =
       int (unat (table_name_len l) + unat (load_db_len l) + unat (fname_len l) + unat (field_block_len l) + unat (num_fields l)
         + (if t = NEW_LOAD_EVENT then sum_list (option_lengths (load_sql_ex l)) + 26 else 27))"
    "t \<noteq> NEW_LOAD_EVENT \<Longrightarrow> \<forall>n\<in>set (option_lengths (load_sql_ex l)). n \<le> 1"
proof -
  obtain f x where fx: "new_format (load_sql_ex l) = (f, x)" by force
  note size = sql_ex_size [OF assms(1) fx]
  have l': "l' = l\<lparr>load_sql_ex := x\<rparr>" and t: "t = NEW_LOAD_EVENT \<longleftrightarrow> f" "t = (if f then NEW_LOAD_EVENT else LOAD_EVENT)"
    using assms(2) fx by (auto simp: load_get_type_code_def split: if_splits)
  note again = new_format_again [OF fx]
  have lens: "field_term_len x = field_term_len (load_sql_ex l)" "enclosed_len x = enclosed_len (load_sql_ex l)"
    "line_term_len x = line_term_len (load_sql_ex l)" "line_start_len x = line_start_len (load_sql_ex l)" "escaped_len x = escaped_len (load_sql_ex l)"
    using fx by (auto simp: new_format_def split: if_splits)
  show "load_get_type_code l' = (t, l')" using again t(2) by (simp add: load_get_type_code_def l')
  show "sql_ex_ok (load_sql_ex l')" using new_format_ok [OF assms(1)] fx by (simp add: l')
  show "load_get_data_size l' = (fst (load_get_data_size l), l')"
    using again fx by (simp add: load_get_data_size_def sql_ex_data_size_def l' lens)
  show "t \<noteq> NEW_LOAD_EVENT \<Longrightarrow> \<forall>n\<in>set (option_lengths (load_sql_ex l)). n \<le> 1" using size(3) t by blast
  let ?n = "unat (table_name_len l) + unat (load_db_len l) + unat (fname_len l) + unat (field_block_len l) + unat (num_fields l)"
  let ?k = "if f then sum_list (option_lengths (load_sql_ex l)) + 26 else 27"
  assume small: "?n < 2 ^ 31 - 2000"
  have k: "?k < 1400"
    using uchar_lt [of "field_term_len (load_sql_ex l)"] uchar_lt [of "enclosed_len (load_sql_ex l)"] uchar_lt [of "line_term_len (load_sql_ex l)"]
      uchar_lt [of "line_start_len (load_sql_ex l)"] uchar_lt [of "escaped_len (load_sql_ex l)"] by (simp add: option_lengths_def)
  have "fst (sql_ex_data_size (load_sql_ex l)) = of_nat (if f then sum_list (option_lengths (load_sql_ex l)) + 6 else 7)"
    by (simp only: size(2) [symmetric] of_nat_unat ucast_id)
  then have "fst (load_get_data_size l) = of_nat (?n + ?k)"
    by (simp add: load_get_data_size_def split_beta header_lengths algebra_simps)
  moreover have "?n + ?k < 2 ^ 31" using small k by linarith
  then have "unat (of_nat (?n + ?k) :: uint32) = ?n + ?k" by (simp only: unat_of_nat) simp
  ultimately show "sint (fst (load_get_data_size l)) = int (?n + (if t = NEW_LOAD_EVENT then sum_list (option_lengths (load_sql_ex l)) + 26 else 27))"
    using \<open>?n + ?k < 2 ^ 31\<close> t(1) by (subst sint_nonneg) simp_all
qed

text \<open>
  A list of GTIDs has 16 bytes for each, and never less than the six bytes a replacement event needs.  A GTID event is as long as
  a query event with the text \<open>BEGIN\<close>, which may replace it; with a commit id it is two bytes longer.
\<close>

theorem gtid_event_sizes:
  "unat count < 2 ^ 27 - 1 \<Longrightarrow> sint (gtid_list_get_data_size count) = (if count = 0 then 6 else 4 + 16 * int (unat count))"
  "unat count < 2 ^ 27 - 1 \<Longrightarrow> sint (gtid_list_get_data_size count) \<ge> 6"
  "ge_flags2 g AND FL_GROUP_COMMIT_ID = 0 \<Longrightarrow> unat (gtid_get_data_size g) = QUERY_HEADER_LEN + 1 + length (ascii ''BEGIN'')"
  "unat (gtid_get_data_size g) \<in> {19, 21}"
proof -
  show size: "sint (gtid_list_get_data_size count) = (if count = 0 then 6 else 4 + 16 * int (unat count))" if "unat count < 2 ^ 27 - 1"
  proof (cases "count = 0")
    case False
    have "unat (gtid_list_get_data_size count) = 4 + 16 * unat count"
      using False that by (simp add: gtid_list_get_data_size_def header_lengths element_size_def unat_word_ariths)
    then show ?thesis using False that by (subst sint_nonneg) simp_all
  qed (simp add: gtid_list_get_data_size_def header_lengths)
  show "sint (gtid_list_get_data_size count) \<ge> 6" if "unat count < 2 ^ 27 - 1"
    using size [OF that] by (cases "unat count") (auto simp: unat_eq_0)
qed (simp_all add: gtid_get_data_size_def header_lengths ascii_def)

section \<open>Flags of row events\<close>

text \<open>
  Setting and clearing flags act on exactly the given flags, and after \<open>update_flags\<close> the two bytes in the buffer of the event are the flags and
  all other bytes are as before.
\<close>

theorem row_event_flags:
  "rows_get_flags f (rows_set_flags f e) = f" "rows_get_flags f (rows_clear_flags f e) = 0"
  "f AND g = 0 \<Longrightarrow> rows_get_flags g (rows_set_flags f e) = rows_get_flags g e"
  "f AND g = 0 \<Longrightarrow> rows_get_flags g (rows_clear_flags f e) = rows_get_flags g e"
  "uint2korr (rows_update_flags m base e) (ev_temp_buf base + rows_flags_pos e) = rows_flags e"
  "a < ev_temp_buf base + rows_flags_pos e \<or> ev_temp_buf base + rows_flags_pos e + 2 \<le> a \<Longrightarrow> rows_update_flags m base e a = m a"
proof -
  show "rows_get_flags f (rows_set_flags f e) = f" by (auto simp: rows_get_flags_def rows_set_flags_def bit_eq_iff bit_simps)
  show "rows_get_flags f (rows_clear_flags f e) = 0" by (auto simp: rows_get_flags_def rows_clear_flags_def bit_eq_iff bit_simps)
  show "rows_get_flags g (rows_set_flags f e) = rows_get_flags g e" "rows_get_flags g (rows_clear_flags f e) = rows_get_flags g e" if "f AND g = 0"
    using that by (auto simp: rows_get_flags_def rows_set_flags_def rows_clear_flags_def bit_eq_iff bit_simps)
  have "unat (ucast (rows_flags e) :: uint32) = unat (rows_flags e)" by (rule unat_ucast_up) simp
  then show "uint2korr (rows_update_flags m base e) (ev_temp_buf base + rows_flags_pos e) = rows_flags e"
    using uint16_lt [of "rows_flags e"]
    by (intro word_eq_unatI) (simp add: rows_update_flags_def unat_uint2korr int2store_bytes bytes_at_put_same le_nat_le_bytes)
  show "rows_update_flags m base e a = m a"
    if "a < ev_temp_buf base + rows_flags_pos e \<or> ev_temp_buf base + rows_flags_pos e + 2 \<le> a"
    using that by (auto simp: rows_update_flags_def int2store_def)
qed

section \<open>Incidents\<close>

text \<open>
  An incident is logged directly and replicated whatever the session says, if there was memory for its message; without it the event is
  invalid and says nothing of its cache.
\<close>

theorem incident_events:
  "incident_log_event incident base = (e, i) \<Longrightarrow>
     use_direct_logging e \<and> ev_flags e AND LOG_EVENT_SKIP_REPLICATION_F = 0 \<and> (incident_is_valid i \<longleftrightarrow> incident = INCIDENT_LOST_EVENTS) \<and> incident_get_data_size i = 3"
  "incident_log_event_msg True incident msg base = (e, i) \<Longrightarrow>
     use_direct_logging e \<and> ev_flags e AND LOG_EVENT_SKIP_REPLICATION_F = 0 \<and> (incident_is_valid i \<longleftrightarrow> incident = INCIDENT_LOST_EVENTS) \<and>
     incident_get_data_size i = 3 + of_nat (length msg)"
  "incident_log_event_msg False incident msg base = (e, i) \<Longrightarrow> \<not> incident_is_valid i \<and> e = base"
proof -
  have valid: "0 < incident \<and> incident < 2 \<longleftrightarrow> incident = (1 :: uint32)"
    by (auto simp: word_less_nat_alt word_unat_eq_iff)
  have clear: "(w AND NOT LOG_EVENT_SKIP_REPLICATION_F) AND LOG_EVENT_SKIP_REPLICATION_F = 0" for w
    by (auto simp: bit_eq_iff bit_simps)
  have len: "ucast (of_nat n :: uint64) = (of_nat n :: uint32)" for n
    by (rule word_eq_unatI) (simp add: unat_ucast_eq_mod unat_of_nat mod_mod_cancel)
  show "incident_log_event incident base = (e, i) \<Longrightarrow>
     use_direct_logging e \<and> ev_flags e AND LOG_EVENT_SKIP_REPLICATION_F = 0 \<and> (incident_is_valid i \<longleftrightarrow> incident = INCIDENT_LOST_EVENTS) \<and> incident_get_data_size i = 3"
    using valid by (auto simp: incident_log_event_def Let_def clear use_direct_logging_def set_direct_logging_def incident_is_valid_def INCIDENT_NONE_def
        INCIDENT_COUNT_def INCIDENT_LOST_EVENTS_def incident_get_data_size_def header_lengths)
  show "incident_log_event_msg True incident msg base = (e, i) \<Longrightarrow>
     use_direct_logging e \<and> ev_flags e AND LOG_EVENT_SKIP_REPLICATION_F = 0 \<and> (incident_is_valid i \<longleftrightarrow> incident = INCIDENT_LOST_EVENTS) \<and>
     incident_get_data_size i = 3 + of_nat (length msg)"
    using valid by (auto simp: incident_log_event_msg_def Let_def clear use_direct_logging_def set_direct_logging_def incident_is_valid_def INCIDENT_NONE_def
        INCIDENT_COUNT_def INCIDENT_LOST_EVENTS_def incident_get_data_size_def header_lengths len)
qed (auto simp: incident_log_event_msg_def incident_is_valid_def)

section \<open>Concrete cases\<close>

definition sample_event :: Log_event where
  "sample_event = \<lparr>ev_log_pos = 4, ev_temp_buf = 0, event_owns_temp_buf = False, ev_when = 0, ev_when_sec_part = 0, ev_server_id = 1, ev_flags = 0,
     ev_cache_type = EVENT_STMT_CACHE\<rparr>"

theorem row_types_uncompressed_witness:
  "\<not> LOG_EVENT_IS_ROW_COMPRESSED (uncompressed_type UPDATE_ROWS_COMPRESSED_EVENT_V1)"
  using row_types_uncompressed(1) [of UPDATE_ROWS_COMPRESSED_EVENT_V1] by (simp add: LOG_EVENT_IS_ROW_COMPRESSED_def)

theorem part_of_group_by_object_witness: "is_part_of_group (Intvar_obj 1 7) = type_is_part_of_group INTVAR_EVENT"
  using part_of_group_by_object [of ANNOTATE_ROWS_EVENT "Intvar_obj 1 7"] by (simp add: get_type_code_def)

theorem event_time_fixed_witness:
  "get_time None None 0 (snd (get_time (Some (5, 1)) None 0 sample_event)) = (5, snd (get_time (Some (5, 1)) None 0 sample_event))"
  using event_time_fixed(1) [of "Some (5, 1)" None 0 sample_event 5] by (simp add: get_time_def sample_event_def)

theorem temp_buf_freed_once_witness: "snd (fold buf_exec [Register 8 True, Free, Free, Register 9 False, Free] (sample_event, [])) = [8]"
  using temp_buf_freed_once(1) [of "[Register 8 True, Free, Free, Register 9 False, Free]" sample_event]
  by (simp add: buf_exec_def free_temp_buf_def register_temp_buf_def sample_event_def)

definition sample_crypt :: Binlog_crypt_data where
  "sample_crypt = \<lparr>crypt_scheme = 1, crypt_key_version = 1, crypt_key_length = 16, crypt_ctx_size = 8, crypt_key = [], crypt_nonce = replicate 12 7\<rparr>"

theorem iv_unique_witness:
  "bytes_at (set_iv sample_crypt (\<lambda>_. 0) 20 4) 20 BINLOG_IV_LENGTH \<noteq> bytes_at (set_iv sample_crypt (\<lambda>_. 0) 20 260) 20 BINLOG_IV_LENGTH"
proof -
  have "length (crypt_nonce sample_crypt) = BINLOG_NONCE_LENGTH" by (simp add: sample_crypt_def crypt_lengths)
  from iv_unique [OF this, of "\<lambda>_. 0" 20 4] have "bytes_at (set_iv sample_crypt (\<lambda>_. 0) 20 4) 20 BINLOG_IV_LENGTH = bytes_at (set_iv sample_crypt (\<lambda>_. 0) 20 260) 20 BINLOG_IV_LENGTH \<longleftrightarrow> (4 :: uint32) = 260" by blast
  then show ?thesis by simp
qed

theorem start_encryption_body_witness:
  "\<exists>e base'. start_encryption_log_event 1 3 (replicate 12 7) sample_event = Some (base', e) \<and>
     snd (start_encryption_write_data_body (\<lambda>bs s. (False, s @ bs)) e []) = [1, 3, 0, 0, 0] @ replicate 12 7"
proof -
  obtain base' e where e: "start_encryption_log_event 1 3 (replicate 12 7) sample_event = Some (base', e)"
    by (auto simp: start_encryption_log_event_def crypt_lengths)
  obtain s' where s': "start_encryption_write_data_body (\<lambda>bs s. (False, s @ bs)) e [] = (False, s')"
    by (simp add: start_encryption_write_data_body_def or_else_def Let_def)
  have "s' = [] @ [1] @ le_bytes 4 (unat (3 :: uint32)) @ take 12 (replicate 12 7)"
    using start_encryption_body(1) [OF _ e s', of "\<lambda>s. s"] by (simp add: appends_data_def)
  then show ?thesis using e s' by (simp add: le_bytes_rec)
qed

theorem transaction_keywords_witness:
  "is_trans_keyword (put_bytes (\<lambda>_. 0) 30 [67, 79]) \<lparr>qe_query = 30, qe_q_len = 2\<rparr>"
proof -
  have "bytes_at (put_bytes (\<lambda>_. 0) 30 [67, 79]) 30 (Suc (length [67, 79 :: uchar])) = [67, 79] @ [0]"
    by (simp add: bytes_at_Suc)
  from transaction_keywords(4) [of "put_bytes (\<lambda>_. 0) 30 [67, 79]" "\<lparr>qe_query = 30, qe_q_len = 2\<rparr>" "[67, 79]"] this
  show ?thesis by (simp add: keyword_bytes)
qed

definition sample_load :: Load_log_event where
  "sample_load = \<lparr>table_name_len = 3, load_db_len = 4, fname_len = 10, num_fields = 2, field_block_len = 8, load_table_name = 50, load_fname = 60,
     load_sql_ex = \<lparr>cached_new_format = -1, field_term_len = 1, enclosed_len = 0, line_term_len = 2, line_start_len = 0, escaped_len = 1\<rparr>, local_fname = False\<rparr>"

theorem load_event_format_witness: "sint (fst (load_get_data_size sample_load)) = 57"
proof -
  obtain t l where tl: "load_get_type_code sample_load = (t, l)" by force
  then have "t = NEW_LOAD_EVENT" by (auto simp: load_get_type_code_def sample_load_def new_format_def long_option_def)
  then show ?thesis using load_event_format(4) [OF _ tl] by (simp add: sample_load_def sql_ex_ok_def option_lengths_def)
qed

theorem gtid_event_sizes_witness: "sint (gtid_list_get_data_size 3) = 52"
  using gtid_event_sizes(1) [of 3] by simp

theorem incident_events_witness:
  "\<not> incident_is_valid (snd (incident_log_event_msg False INCIDENT_LOST_EVENTS [65] sample_event))"
  using incident_events(3) [of INCIDENT_LOST_EVENTS "[65]" sample_event] by (metis prod.collapse)

end
