(* ===== verification/Replication.thy ===== *)
theory Replication
  imports IntrusiveLists QueryTables LogEvents
begin

text \<open>
  Replication: the state of the applier of a relay log (\<^verbatim>\<open>rpl_rli.h\<close>), GTIDs and the positions of a domain (\<^verbatim>\<open>rpl_gtid.h\<close>), the definition of a table on
  the master (\<^verbatim>\<open>rpl_utility.h\<close>), the queue of a worker thread (\<^verbatim>\<open>rpl_parallel.h\<close>), transactions of an injector (\<^verbatim>\<open>rpl_injector.h\<close>), errors of a slave
  (\<^verbatim>\<open>rpl_reporting.h\<close>) and the listeners for acknowledgements of semi-synchronous slaves (\<^verbatim>\<open>semisync_master_ack_receiver.h\<close>), whose slaves are a list of
  \<open>IntrusiveLists\<close>.  The locale \<open>socket_listener\<close> is the contract the receiver relies on; both listeners of the code satisfy it.
\<close>

section \<open>State of the applier\<close>

definition IN_STMT :: uint32 where "IN_STMT = 1"
definition IN_TRANSACTION :: uint32 where "IN_TRANSACTION = 2"

datatype until_condition_t = UNTIL_NONE | UNTIL_MASTER_POS | UNTIL_RELAY_POS | UNTIL_GTID

datatype until_cmp_t = UNTIL_LOG_NAMES_CMP_UNKNOWN | UNTIL_LOG_NAMES_CMP_LESS | UNTIL_LOG_NAMES_CMP_EQUAL | UNTIL_LOG_NAMES_CMP_GREATER

record Relay_log_info =
  rli_flags :: uint32
  until_condition :: until_condition_t
  until_log_names_cmp_result :: until_cmp_t
  group_master_log_pos :: uint64
  group_relay_log_pos :: uint64
  rli_event_relay_log_pos :: uint64
  sql_delay :: uint32
  sql_delay_end :: int
  driver_is_slave_thread :: "bool option"

definition belongs_to_client :: "Relay_log_info \<Rightarrow> bool option" where
  "belongs_to_client r = map_option Not (driver_is_slave_thread r)"

definition clear_sql_delay :: "Relay_log_info \<Rightarrow> Relay_log_info" where
  "clear_sql_delay r = r\<lparr>sql_delay := 0\<rparr>"

definition start_sql_delay :: "int \<Rightarrow> Relay_log_info \<Rightarrow> Relay_log_info" where
  "start_sql_delay delay_end r = r\<lparr>sql_delay_end := delay_end\<rparr>"

definition set_sql_delay :: "uint32 \<Rightarrow> Relay_log_info \<Rightarrow> Relay_log_info" where
  "set_sql_delay d r = r\<lparr>sql_delay := d\<rparr>"

definition notify_group_relay_log_name_update :: "Relay_log_info \<Rightarrow> Relay_log_info" where
  "notify_group_relay_log_name_update r =
     (if until_condition r = UNTIL_RELAY_POS then r\<lparr>until_log_names_cmp_result := UNTIL_LOG_NAMES_CMP_UNKNOWN\<rparr> else r)"

definition notify_group_master_log_name_update :: "Relay_log_info \<Rightarrow> Relay_log_info" where
  "notify_group_master_log_name_update r =
     (if until_condition r = UNTIL_MASTER_POS then r\<lparr>until_log_names_cmp_result := UNTIL_LOG_NAMES_CMP_UNKNOWN\<rparr> else r)"

definition until_pos :: "Relay_log_info \<Rightarrow> uint64 option" where
  "until_pos r =
     (if until_condition r = UNTIL_MASTER_POS \<or> until_condition r = UNTIL_RELAY_POS
      then Some (if until_condition r = UNTIL_MASTER_POS then group_master_log_pos r else group_relay_log_pos r) else None)"

definition is_in_group :: "Relay_log_info \<Rightarrow> bool" where
  "is_in_group r \<longleftrightarrow> rli_flags r AND (IN_STMT OR IN_TRANSACTION) \<noteq> 0"

definition set_flag :: "uint32 \<Rightarrow> Relay_log_info \<Rightarrow> Relay_log_info" where
  "set_flag flag r = r\<lparr>rli_flags := rli_flags r OR flag\<rparr>"

definition get_flag :: "uint32 \<Rightarrow> Relay_log_info \<Rightarrow> bool" where
  "get_flag flag r \<longleftrightarrow> rli_flags r AND flag \<noteq> 0"

definition clear_flag :: "uint32 \<Rightarrow> Relay_log_info \<Rightarrow> Relay_log_info" where
  "clear_flag flag r = r\<lparr>rli_flags := rli_flags r AND NOT flag\<rparr>"

section \<open>An event group\<close>

text \<open>
  The members of \<open>rpl_group_info\<close> that its inline functions use.  \<open>deferred_events\<close> is the container of deferred events with the event added
  last, \<open>binlog_annotate_row_events\<close> the variable of the session, \<open>rgi_deleted\<close> the objects deleted so far.
\<close>

record Deferred_log_events =
  last_added :: ptr
  deferred_array :: "ptr list"

definition is_last :: "ptr \<Rightarrow> Deferred_log_events \<Rightarrow> bool" where
  "is_last ev d \<longleftrightarrow> ev = last_added d"

record rpl_group_info =
  deferred_events :: "Deferred_log_events option"
  deferred_events_collecting :: bool
  m_annotate_event :: ptr
  binlog_annotate_row_events :: bool
  rgi_deleted :: "ptr list"
  tables_to_lock :: ptr
  row_stmt_start_timestamp :: uint64
  long_find_row_note_printed :: bool
  future_event_relay_log_pos :: uint64
  is_parallel_exec :: bool

definition is_deferred_event :: "ptr \<Rightarrow> rpl_group_info \<Rightarrow> bool option" where
  "is_deferred_event ev g = (if deferred_events_collecting g then map_option (is_last ev) (deferred_events g) else Some False)"

text \<open>\<open>rewind\<close> is compiled code.\<close>

definition cleanup_after_query :: "(Deferred_log_events \<Rightarrow> Deferred_log_events) \<Rightarrow> rpl_group_info \<Rightarrow> rpl_group_info" where
  "cleanup_after_query rewind g = g\<lparr>deferred_events := map_option rewind (deferred_events g)\<rparr>"

definition cleanup_after_session :: "rpl_group_info \<Rightarrow> rpl_group_info" where
  "cleanup_after_session g = g\<lparr>deferred_events := None\<rparr>"

definition set_annotate_event :: "ptr \<Rightarrow> rpl_group_info \<Rightarrow> rpl_group_info option" where
  "set_annotate_event event g =
     (if m_annotate_event g = 0 then Some (g\<lparr>m_annotate_event := event, binlog_annotate_row_events := True\<rparr>) else None)"

definition free_annotate_event :: "rpl_group_info \<Rightarrow> rpl_group_info" where
  "free_annotate_event g =
     (if m_annotate_event g \<noteq> 0
      then g\<lparr>binlog_annotate_row_events := False, rgi_deleted := rgi_deleted g @ [m_annotate_event g], m_annotate_event := 0\<rparr> else g)"

record rpl_table_ref =
  rt_next_global :: ptr
  rt_table :: ptr
  rt_tabledef :: ptr
  rt_conv_table :: ptr

partial_function (option) get_table_data_loop :: "rpl_table_ref node_heap \<Rightarrow> ptr \<Rightarrow> ptr \<Rightarrow> (ptr \<times> ptr) option option" where
  "get_table_data_loop h table_arg p =
     (if p = 0 then Some None
      else do { n \<leftarrow> read_node h p;
                if rt_table n = table_arg then Some (Some (rt_tabledef n, rt_conv_table n)) else get_table_data_loop h table_arg (rt_next_global n) })"

text \<open>The definition and the conversion table, if the table is among those to lock.\<close>

definition get_table_data :: "rpl_table_ref node_heap \<Rightarrow> ptr \<Rightarrow> rpl_group_info \<Rightarrow> (ptr \<times> ptr) option option" where
  "get_table_data h table_arg g = get_table_data_loop h table_arg (tables_to_lock g)"

definition set_row_stmt_start_timestamp :: "uint64 \<Rightarrow> rpl_group_info \<Rightarrow> rpl_group_info" where
  "set_row_stmt_start_timestamp now g = (if row_stmt_start_timestamp g = 0 then g\<lparr>row_stmt_start_timestamp := now\<rparr> else g)"

definition reset_row_stmt_start_timestamp :: "rpl_group_info \<Rightarrow> rpl_group_info" where
  "reset_row_stmt_start_timestamp g = g\<lparr>row_stmt_start_timestamp := 0\<rparr>"

definition set_long_find_row_note_printed :: "rpl_group_info \<Rightarrow> rpl_group_info" where
  "set_long_find_row_note_printed g = g\<lparr>long_find_row_note_printed := True\<rparr>"

definition unset_long_find_row_note_printed :: "rpl_group_info \<Rightarrow> rpl_group_info" where
  "unset_long_find_row_note_printed g = g\<lparr>long_find_row_note_printed := False\<rparr>"

definition inc_event_relay_log_pos :: "rpl_group_info \<Rightarrow> Relay_log_info \<Rightarrow> Relay_log_info" where
  "inc_event_relay_log_pos g r = (if \<not> is_parallel_exec g then r\<lparr>rli_event_relay_log_pos := future_event_relay_log_pos g\<rparr> else r)"

section \<open>GTIDs\<close>

record rpl_gtid =
  domain_id :: uint32
  gtid_server_id :: uint32
  gtid_seq_no :: uint64

definition gtid_eq :: "rpl_gtid \<Rightarrow> rpl_gtid \<Rightarrow> bool" where
  "gtid_eq lhs rhs \<longleftrightarrow> domain_id lhs = domain_id rhs \<and> gtid_server_id lhs = gtid_server_id rhs \<and> gtid_seq_no lhs = gtid_seq_no rhs"

record gtid_list_element =
  gle_next :: ptr
  gle_sub_id :: uint64
  gle_seq_no :: uint64
  gle_server_id :: uint32

text \<open>The list of a domain; \<open>grab_list\<close> hands it over.\<close>

definition grab_list :: "ptr \<Rightarrow> ptr \<times> ptr" where
  "grab_list gtids = (gtids, 0)"

definition gtid_list_add :: "ptr \<Rightarrow> gtid_list_element node_heap \<times> ptr \<Rightarrow> (gtid_list_element node_heap \<times> ptr) option" where
  "gtid_list_add l s = do { h \<leftarrow> write_node (fst s) l (\<lambda>n. n\<lparr>gle_next := snd s\<rparr>); Some (h, l) }"

section \<open>The definition of a table on the master\<close>

definition MYSQL_TYPE_DATE :: uchar where "MYSQL_TYPE_DATE = 10"
definition MYSQL_TYPE_NEWDATE :: uchar where "MYSQL_TYPE_NEWDATE = 14"
definition MYSQL_TYPE_ENUM :: uchar where "MYSQL_TYPE_ENUM = 247"
definition MYSQL_TYPE_SET :: uchar where "MYSQL_TYPE_SET = 248"
definition MYSQL_TYPE_STRING :: uchar where "MYSQL_TYPE_STRING = 254"

lemmas field_type_codes = MYSQL_TYPE_DATE_def MYSQL_TYPE_NEWDATE_def MYSQL_TYPE_ENUM_def MYSQL_TYPE_SET_def MYSQL_TYPE_STRING_def

text \<open>The arrays have at least as many elements as there are fields; an index outside of them has no value.\<close>

record table_def =
  td_size :: nat
  td_type :: "uchar list"
  td_metadata_size :: nat
  td_metadata :: "uint16 list"
  td_null_bits :: "uchar list"

definition array_read :: "'a list \<Rightarrow> nat \<Rightarrow> 'a option" where
  "array_read xs i = (if i < length xs then Some (xs ! i) else None)"

definition binlog_type :: "table_def \<Rightarrow> nat \<Rightarrow> uchar option" where
  "binlog_type d i = array_read (td_type d) i"

definition table_def_type :: "table_def \<Rightarrow> nat \<Rightarrow> uchar option" where
  "table_def_type d i =
     (if i < td_size d
      then do { source_type \<leftarrow> binlog_type d i;
                source_metadata \<leftarrow> array_read (td_metadata d) i;
                Some (if source_type = MYSQL_TYPE_STRING
                      then let real_type = unat (drop_bit 8 source_metadata)
                           in if real_type = unat MYSQL_TYPE_ENUM \<or> real_type = unat MYSQL_TYPE_SET then of_nat real_type else source_type
                      else if source_type = MYSQL_TYPE_DATE then MYSQL_TYPE_NEWDATE else source_type) }
      else None)"

definition field_metadata :: "table_def \<Rightarrow> nat \<Rightarrow> uint16 option" where
  "field_metadata d i = (if i < td_size d then if td_metadata_size d \<noteq> 0 then array_read (td_metadata d) i else Some 0 else None)"

definition table_def_maybe_null :: "table_def \<Rightarrow> nat \<Rightarrow> bool option" where
  "table_def_maybe_null d i =
     (if i < td_size d
      then map_option (\<lambda>b. (ucast b :: uint32) AND push_bit (i mod 8) 1 = push_bit (i mod 8) 1) (array_read (td_null_bits d) (i div 8))
      else None)"

text \<open>A pointer that frees its object when it goes out of scope.\<close>

definition auto_afree_assign :: "ptr \<Rightarrow> ptr \<Rightarrow> ptr option" where
  "auto_afree_assign p q = (if q = 0 then Some p else None)"

definition auto_afree_destructor :: "ptr \<Rightarrow> ptr list \<Rightarrow> ptr list" where
  "auto_afree_destructor q freed = (if q \<noteq> 0 then freed @ [q] else freed)"

section \<open>The queue of a worker\<close>

record queued_event =
  qe_next :: ptr
  qe_event_size :: uint64

record rpl_parallel_thread =
  event_queue :: ptr
  last_in_queue :: ptr
  queued_size :: uint64

type_synonym worker = "queued_event node_heap \<times> rpl_parallel_thread"

definition enqueue :: "ptr \<Rightarrow> worker \<Rightarrow> worker option" where
  "enqueue qev s =
     (let (h, t) = s in
      do { (h1, t1) \<leftarrow> (if last_in_queue t \<noteq> 0
                        then map_option (\<lambda>h'. (h', t)) (write_node h (last_in_queue t) (\<lambda>n. n\<lparr>qe_next := qev\<rparr>))
                        else Some (h, t\<lparr>event_queue := qev\<rparr>));
           n \<leftarrow> read_node h1 qev;
           Some (h1, t1\<lparr>last_in_queue := qev, queued_size := queued_size t1 + qe_event_size n\<rparr>) })"

definition dequeue1 :: "ptr \<Rightarrow> worker \<Rightarrow> worker option" where
  "dequeue1 l s = (if l = event_queue (snd s) then Some (fst s, (snd s)\<lparr>event_queue := 0, last_in_queue := 0\<rparr>) else None)"

definition dequeue2 :: "uint64 \<Rightarrow> worker \<Rightarrow> worker" where
  "dequeue2 dequeue_size s = (fst s, (snd s)\<lparr>queued_size := queued_size (snd s) - dequeue_size\<rparr>)"

section \<open>Transactions of an injector\<close>

datatype injector_state = START_STATE | TABLE_STATE | ROW_STATE | STATE_COUNT

primrec injector_state_number :: "injector_state \<Rightarrow> nat" where
  "injector_state_number START_STATE = 0" | "injector_state_number TABLE_STATE = 1" | "injector_state_number ROW_STATE = 2" |
  "injector_state_number STATE_COUNT = 3"

record injector_transaction =
  m_start_pos :: "ptr \<times> uint64"
  m_thd :: ptr
  m_state :: injector_state

definition injector_clear :: "injector_transaction \<Rightarrow> injector_transaction" where
  "injector_clear t = t\<lparr>m_thd := 0\<rparr>"

definition injector_good :: "injector_transaction \<Rightarrow> bool" where
  "injector_good t \<longleftrightarrow> m_thd t \<noteq> 0"

definition injector_swap :: "injector_transaction \<Rightarrow> injector_transaction \<Rightarrow> injector_transaction \<times> injector_transaction" where
  "injector_swap a b =
     (let (a1, b1) = (a\<lparr>m_start_pos := m_start_pos b\<rparr>, b\<lparr>m_start_pos := m_start_pos a\<rparr>);
          (a2, b2) = (a1\<lparr>m_thd := m_thd b1\<rparr>, b1\<lparr>m_thd := m_thd a1\<rparr>)
      in (a2\<lparr>m_state := m_state b2\<rparr>, b2\<lparr>m_state := m_state a2\<rparr>))"

text \<open>The assignment operator takes its argument by value and returns the object.\<close>

definition injector_assign :: "injector_transaction \<Rightarrow> injector_transaction \<Rightarrow> injector_transaction" where
  "injector_assign self t = fst (injector_swap self t)"

definition check_state :: "injector_state \<Rightarrow> injector_transaction \<Rightarrow> nat \<times> injector_transaction" where
  "check_state target t =
     (let s = m_state t;
          s' = (if injector_state_number s \<le> injector_state_number target \<and> injector_state_number target \<le> injector_state_number s + 1 \<and>
                   injector_state_number s < injector_state_number STATE_COUNT
                then target else STATE_COUNT)
      in (if s' = STATE_COUNT then 1 else 0, t\<lparr>m_state := s'\<rparr>))"

section \<open>Errors of a slave\<close>

record slave_error =
  se_number :: uint32
  se_message :: "nat \<Rightarrow> uchar"

definition slave_error_clear :: "slave_error \<Rightarrow> slave_error" where
  "slave_error_clear e = e\<lparr>se_number := 0, se_message := (se_message e)(0 := 0)\<rparr>"

datatype enum_slave_parallel_mode = SLAVE_PARALLEL_NONE | SLAVE_PARALLEL_MINIMAL | SLAVE_PARALLEL_CONSERVATIVE | SLAVE_PARALLEL_OPTIMISTIC | SLAVE_PARALLEL_AGGRESSIVE

text \<open>The first mode is the smallest, so being greater is being different.\<close>

definition using_parallel :: "ulong \<Rightarrow> enum_slave_parallel_mode \<Rightarrow> bool" where
  "using_parallel opt_slave_parallel_threads parallel_mode \<longleftrightarrow> opt_slave_parallel_threads > 0 \<and> parallel_mode \<noteq> SLAVE_PARALLEL_NONE"

section \<open>Listening for acknowledgements\<close>










text \<open>
  Where there is no \<open>poll\<close>: sets of sockets.  A socket outside the bounds of an \<open>fd_set\<close> must not be used with it, so these accesses have no
  result.
\<close>

definition FD_SETSIZE :: int where "FD_SETSIZE = 1024"

definition fd_ok :: "int \<Rightarrow> bool" where "fd_ok fd \<longleftrightarrow> 0 \<le> fd \<and> fd < FD_SETSIZE"

record Select_socket_listener =
  m_max_fd :: int
  m_init_fds :: "int set"
  sel_fds :: "int set"

definition select_listener :: "int set \<Rightarrow> int set \<Rightarrow> Select_socket_listener" where
  "select_listener junk1 junk2 = \<lparr>m_max_fd = -1, m_init_fds = junk1, sel_fds = junk2\<rparr>"

definition select_listen_on_sockets :: "int set option \<Rightarrow> Select_socket_listener \<Rightarrow> bool \<times> Select_socket_listener" where
  "select_listen_on_sockets os p =
     (let p1 = p\<lparr>sel_fds := m_init_fds p\<rparr> in
      case os of
        None \<Rightarrow> (True, p1)
      | Some ready \<Rightarrow> (let fds = {fd \<in> sel_fds p1. fd < m_max_fd p1 + 1 \<and> fd \<in> ready} in (fds \<noteq> {}, p1\<lparr>sel_fds := fds\<rparr>)))"

definition select_is_socket_active :: "(ptr \<Rightarrow> int) \<Rightarrow> ptr \<Rightarrow> Select_socket_listener \<Rightarrow> bool option" where
  "select_is_socket_active sock slave p = (if fd_ok (sock slave) then Some (sock slave \<in> sel_fds p) else None)"

definition select_clear_socket_info :: "(ptr \<Rightarrow> int) \<Rightarrow> ptr \<Rightarrow> Select_socket_listener \<Rightarrow> Select_socket_listener option" where
  "select_clear_socket_info sock slave p = (if fd_ok (sock slave) then Some (p\<lparr>m_init_fds := m_init_fds p - {sock slave}\<rparr>) else None)"

partial_function (option) select_init_loop ::
  "ilist_heap \<Rightarrow> (ptr \<Rightarrow> int) \<Rightarrow> base_ilist_iterator \<Rightarrow> uint32 \<Rightarrow> Select_socket_listener \<Rightarrow> (uint32 \<times> Select_socket_listener) option" where
  "select_init_loop h sock it fds_index p =
     (case ilist_iter_next h it of
        (Null, _) \<Rightarrow> Some (fds_index, p)
      | (Last _, _) \<Rightarrow> None
      | (Elem slave, it') \<Rightarrow>
          (let socket_id = sock slave; p1 = p\<lparr>m_max_fd := (if socket_id > m_max_fd p then socket_id else m_max_fd p)\<rparr> in
           if socket_id > FD_SETSIZE then Some (0, p1)
           else if fd_ok socket_id then select_init_loop h sock it' (fds_index + 1) (p1\<lparr>m_init_fds := insert socket_id (m_init_fds p1)\<rparr>)
           else None))"

definition select_init_slave_sockets :: "ilist_heap \<Rightarrow> (ptr \<Rightarrow> int) \<Rightarrow> ptr \<Rightarrow> Select_socket_listener \<Rightarrow> (uint32 \<times> Select_socket_listener) option" where
  "select_init_slave_sockets h sock m_slaves p = select_init_loop h sock (ilist_iter_init m_slaves) 0 (p\<lparr>m_init_fds := {}\<rparr>)"

text \<open>
  The contract of a listener: while it watches the slaves \<open>W\<close>, a call reports exactly those of them that have data, and clearing
  a slave removes it.
\<close>

primrec listen_rounds :: "(int set \<Rightarrow> 's \<Rightarrow> 's) \<Rightarrow> (ptr \<Rightarrow> 's \<Rightarrow> 's option) \<Rightarrow> (int set \<times> ptr list) list \<Rightarrow> 's \<Rightarrow> 's option" where
  "listen_rounds listen clr [] s = Some s"
| "listen_rounds listen clr (r # rs) s = do { s' \<leftarrow> run_opt clr (snd r) (listen (fst r) s); listen_rounds listen clr rs s' }"

locale socket_listener =
  fixes sock :: "ptr \<Rightarrow> int"
    and listen :: "int set \<Rightarrow> 's \<Rightarrow> 's"
    and active :: "ptr \<Rightarrow> 's \<Rightarrow> bool option"
    and clr :: "ptr \<Rightarrow> 's \<Rightarrow> 's option"
    and watches :: "ptr list \<Rightarrow> ptr set \<Rightarrow> 's \<Rightarrow> bool"
  assumes keeps: "watches ss W s \<Longrightarrow> watches ss W (listen R s)"
    and reports: "watches ss W s \<Longrightarrow> x \<in> set ss \<Longrightarrow> active x (listen R s) = Some (x \<in> W \<and> sock x \<in> R)"
    and clears: "watches ss W s \<Longrightarrow> x \<in> set ss \<Longrightarrow> \<exists>s'. clr x s = Some s' \<and> watches ss (W - {x}) s'"
begin

lemma clears_all: "watches ss W s \<Longrightarrow> set xs \<subseteq> set ss \<Longrightarrow> \<exists>s'. run_opt clr xs s = Some s' \<and> watches ss (W - set xs) s'"
proof (induction xs arbitrary: s W)
  case (Cons x xs)
  obtain s1 where s1: "clr x s = Some s1" "watches ss (W - {x}) s1" using clears [OF Cons.prems(1), of x] Cons.prems(2) by auto
  from Cons.IH [OF s1(2)] Cons.prems(2) obtain s' where "run_opt clr xs s1 = Some s'" "watches ss (W - {x} - set xs) s'" by auto
  moreover have "W - {x} - set xs = W - set (x # xs)" by auto
  ultimately show ?case using s1(1) by auto
qed simp

lemma rounds:
  assumes "watches ss W s" "\<forall>r\<in>set rs. set (snd r) \<subseteq> set ss"
  shows "\<exists>s'. listen_rounds listen clr rs s = Some s' \<and> watches ss (W - \<Union> (set (map (set \<circ> snd) rs))) s' \<and>
    (\<forall>x\<in>set ss. active x (listen R s') = Some (x \<in> W \<and> x \<notin> \<Union> (set (map (set \<circ> snd) rs)) \<and> sock x \<in> R))"
  using assms
proof (induction rs arbitrary: s W)
  case Nil
  then show ?case using reports [OF Nil(1)] by simp
next
  case (Cons r rs)
  from clears_all [OF keeps [OF Cons.prems(1), of "fst r"], of "snd r"] Cons.prems(2) obtain s1 where
    s1: "run_opt clr (snd r) (listen (fst r) s) = Some s1" "watches ss (W - set (snd r)) s1" by auto
  from Cons.IH [OF s1(2)] Cons.prems(2) obtain s' where s': "listen_rounds listen clr rs s1 = Some s'"
    "watches ss (W - set (snd r) - \<Union> (set (map (set \<circ> snd) rs))) s'"
    "\<forall>x\<in>set ss. active x (listen R s') = Some (x \<in> W - set (snd r) \<and> x \<notin> \<Union> (set (map (set \<circ> snd) rs)) \<and> sock x \<in> R)" by auto
  moreover have "W - set (snd r) - \<Union> (set (map (set \<circ> snd) rs)) = W - \<Union> (set (map (set \<circ> snd) (r # rs)))" by auto
  ultimately show ?case using s1(1) by auto
qed

end




text \<open>The loop over the slaves, for any list it visits.\<close>

lemma ilist_iter_step:
  "dseg h (ii_el it) [] (ii_list it) \<Longrightarrow> ilist_iter_next h it = (Null, it\<lparr>ii_current := Last (ii_list it)\<rparr>)"
  "dseg h (ii_el it) (x # xs) (ii_list it) \<Longrightarrow> ilist_iter_next h it = (Elem x, it\<lparr>ii_current := Elem x, ii_el := INext (Elem x)\<rparr>)"
  by (simp_all add: ilist_iter_next_def Let_def)







text \<open>The listener with \<open>select\<close>.\<close>

definition select_watches :: "(ptr \<Rightarrow> int) \<Rightarrow> ptr list \<Rightarrow> ptr set \<Rightarrow> Select_socket_listener \<Rightarrow> bool" where
  "select_watches sock ss W p \<longleftrightarrow> inj_on sock (set ss) \<and> W \<subseteq> set ss \<and> (\<forall>x\<in>set ss. fd_ok (sock x) \<and> sock x \<le> m_max_fd p) \<and> m_init_fds p = sock ` W"

interpretation select_listener: socket_listener sock "\<lambda>R p. snd (select_listen_on_sockets (Some R) p)" "select_is_socket_active sock"
  "select_clear_socket_info sock" "select_watches sock" for sock
proof unfold_locales
  fix ss W p R
  assume w: "select_watches sock ss W p"
  then show "select_watches sock ss W (snd (select_listen_on_sockets (Some R) p))"
    by (simp add: select_watches_def select_listen_on_sockets_def Let_def)
  fix x
  assume x: "x \<in> set ss"
  have "sock x \<in> sock ` W \<longleftrightarrow> x \<in> W" using w x by (auto simp: select_watches_def inj_on_def)
  moreover have "sock x < m_max_fd p + 1" "fd_ok (sock x)" "m_init_fds p = sock ` W" using w x by (auto simp: select_watches_def)
  ultimately show "select_is_socket_active sock x (snd (select_listen_on_sockets (Some R) p)) = Some (x \<in> W \<and> sock x \<in> R)"
    by (simp add: select_is_socket_active_def select_listen_on_sockets_def Let_def)
next
  fix ss W p x
  assume w: "select_watches sock ss W p" and x: "x \<in> set ss"
  have "sock ` W - {sock x} = sock ` (W - {x})" using w x by (auto simp: select_watches_def inj_on_def)
  then show "\<exists>s'. select_clear_socket_info sock x p = Some s' \<and> select_watches sock ss (W - {x}) s'"
    using w x by (auto simp: select_clear_socket_info_def select_watches_def)
qed

lemma select_init_loop_all:
  "dseg h (ii_el it) xs (ii_list it) \<Longrightarrow> \<forall>x\<in>set xs. fd_ok (sock x) \<Longrightarrow>
   select_init_loop h sock it n p =
     Some (n + of_nat (length xs), p\<lparr>m_max_fd := fold max (map sock xs) (m_max_fd p), m_init_fds := m_init_fds p \<union> sock ` set xs\<rparr>)"
proof (induction xs arbitrary: it n p)
  case Nil
  then show ?case by (subst select_init_loop.simps) (simp add: ilist_iter_step)
next
  case (Cons x xs)
  let ?it = "it\<lparr>ii_current := Elem x, ii_el := INext (Elem x)\<rparr>"
  let ?p = "p\<lparr>m_max_fd := max (sock x) (m_max_fd p), m_init_fds := insert (sock x) (m_init_fds p)\<rparr>"
  have "dseg h (ii_el ?it) xs (ii_list ?it)" using Cons.prems by simp
  moreover have "(if sock x > m_max_fd p then sock x else m_max_fd p) = max (sock x) (m_max_fd p)" "\<not> sock x > FD_SETSIZE" "fd_ok (sock x)"
    using Cons.prems(2) by (auto simp: fd_ok_def)
  ultimately show ?case
    using ilist_iter_step(2) [OF Cons.prems(1)] Cons.prems(2) Cons.IH [of ?it "n + 1" ?p]
    by (subst select_init_loop.simps) (simp add: Let_def add.assoc)
qed

lemma fold_max_ge: "fold max xs (m :: int) \<ge> m" "x \<in> set xs \<Longrightarrow> fold max xs m \<ge> x"
proof -
  have ge: "fold max xs m \<ge> m" for xs and m :: int
  proof (induction xs arbitrary: m)
    case (Cons y ys)
    from Cons.IH [of "max y m"] show ?case by simp
  qed simp
  show "fold max xs m \<ge> m" by (rule ge)
  show "x \<in> set xs \<Longrightarrow> fold max xs m \<ge> x"
  proof (induction xs arbitrary: m)
    case (Cons y ys)
    then show ?case using ge [where m = "max y m" and xs = ys] by auto
  qed simp
qed

theorem select_listener_reports:
  assumes "is_ilist h l ss" "\<forall>x\<in>set ss. fd_ok (sock x)" "inj_on sock (set ss)" "\<forall>r\<in>set rs. set (snd r) \<subseteq> set ss"
  shows "\<exists>p1 p2. select_init_slave_sockets h sock l p = Some (of_nat (length ss), p1) \<and>
    listen_rounds (\<lambda>R p. snd (select_listen_on_sockets (Some R) p)) (select_clear_socket_info sock) rs p1 = Some p2 \<and>
    (\<forall>x\<in>set ss. select_is_socket_active sock x (snd (select_listen_on_sockets (Some R) p2)) =
       Some (x \<notin> \<Union> (set (map (set \<circ> snd) rs)) \<and> sock x \<in> R))"
proof -
  have d: "dseg h (ii_el (ilist_iter_init l)) ss (ii_list (ilist_iter_init l))" using assms(1) by (simp add: is_ilist_def ilist_iter_init_def)
  from select_init_loop_all [OF d assms(2), of 0 "p\<lparr>m_init_fds := {}\<rparr>"] obtain p1 where
    p1: "select_init_slave_sockets h sock l p = Some (of_nat (length ss), p1)"
      "p1 = p\<lparr>m_max_fd := fold max (map sock ss) (m_max_fd p), m_init_fds := sock ` set ss\<rparr>" by (simp add: select_init_slave_sockets_def)
  have "select_watches sock ss (set ss) p1" using assms(2,3) fold_max_ge(2) [of _ "map sock ss"] by (simp add: p1(2) select_watches_def)
  from select_listener.rounds [OF this assms(4), of R] show ?thesis using p1(1) by auto
qed

text \<open>
  The test before a socket is put into the set lets the first number through that has no room there: with a slave on that
  socket the initialisation writes outside of the set.  A greater number is refused as intended.
\<close>

theorem select_listener_bound:
  assumes "is_ilist h l (xs @ y # ys)" "\<forall>x\<in>set xs. fd_ok (sock x)"
  shows "sock y = FD_SETSIZE \<Longrightarrow> select_init_slave_sockets h sock l p = None"
    "sock y > FD_SETSIZE \<Longrightarrow> \<exists>p'. select_init_slave_sockets h sock l p = Some (0, p')"
proof -
  have loop: "dseg h (ii_el it) (xs @ y # ys) (ii_list it) \<Longrightarrow> \<forall>x\<in>set xs. fd_ok (sock x) \<Longrightarrow>
    (sock y = FD_SETSIZE \<longrightarrow> select_init_loop h sock it n p = None) \<and> (sock y > FD_SETSIZE \<longrightarrow> (\<exists>p'. select_init_loop h sock it n p = Some (0, p')))"
    for it n p
  proof (induction xs arbitrary: it n p)
    case Nil
    then have "ilist_iter_next h it = (Elem y, it\<lparr>ii_current := Elem y, ii_el := INext (Elem y)\<rparr>)" using ilist_iter_step(2) [of h it y ys] by simp
    then show ?case by (subst (1 2) select_init_loop.simps) (simp add: Let_def fd_ok_def)
  next
    case (Cons x xs)
    then have "ilist_iter_next h it = (Elem x, it\<lparr>ii_current := Elem x, ii_el := INext (Elem x)\<rparr>)" using ilist_iter_step(2) [of h it x "xs @ y # ys"] by simp
    moreover have "dseg h (ii_el (it\<lparr>ii_current := Elem x, ii_el := INext (Elem x)\<rparr>)) (xs @ y # ys) (ii_list (it\<lparr>ii_current := Elem x, ii_el := INext (Elem x)\<rparr>))"
      using Cons.prems by simp
    ultimately show ?case using Cons.IH Cons.prems(2) by (subst (1 2) select_init_loop.simps) (simp add: Let_def fd_ok_def)
  qed
  have "dseg h (ii_el (ilist_iter_init l)) (xs @ y # ys) (ii_list (ilist_iter_init l))" using assms(1) by (simp add: is_ilist_def ilist_iter_init_def)
  from loop [OF this assms(2)] show "sock y = FD_SETSIZE \<Longrightarrow> select_init_slave_sockets h sock l p = None"
    "sock y > FD_SETSIZE \<Longrightarrow> \<exists>p'. select_init_slave_sockets h sock l p = Some (0, p')" by (simp_all add: select_init_slave_sockets_def)
qed

section \<open>Groups of events\<close>

text \<open>
  The applier is inside a group exactly when the last change of one of the two flags set it, whatever sequence of changes there was.
\<close>

datatype group_flag = Stmt | Trans

primrec group_flag_value :: "group_flag \<Rightarrow> uint32" where
  "group_flag_value Stmt = IN_STMT" | "group_flag_value Trans = IN_TRANSACTION"

definition flag_exec :: "group_flag \<times> bool \<Rightarrow> Relay_log_info \<Rightarrow> Relay_log_info" where
  "flag_exec op r = (if snd op then set_flag (group_flag_value (fst op)) r else clear_flag (group_flag_value (fst op)) r)"

definition flag_aexec :: "group_flag \<times> bool \<Rightarrow> (group_flag \<Rightarrow> bool) \<Rightarrow> group_flag \<Rightarrow> bool" where
  "flag_aexec op a = a(fst op := snd op)"

definition flag_rel :: "Relay_log_info \<Rightarrow> (group_flag \<Rightarrow> bool) \<Rightarrow> bool" where
  "flag_rel r a \<longleftrightarrow> bit (rli_flags r) 0 = a Stmt \<and> bit (rli_flags r) 1 = a Trans"

lemma flag_bits: "bit IN_STMT n \<longleftrightarrow> n = 0" "bit IN_TRANSACTION n \<longleftrightarrow> n = 1"
  by (auto simp: IN_STMT_def IN_TRANSACTION_def bit_1_iff bit_2_iff)

lemma and_flag_bit:
  "(w :: uint32) AND IN_STMT \<noteq> 0 \<longleftrightarrow> bit w 0" "w AND IN_TRANSACTION \<noteq> 0 \<longleftrightarrow> bit w 1"
  "w AND (IN_STMT OR IN_TRANSACTION) \<noteq> 0 \<longleftrightarrow> bit w 0 \<or> bit w 1"
  by (auto simp: bit_eq_iff [of _ "0 :: uint32"] bit_and_iff bit_or_iff flag_bits intro: exI [of _ "0 :: nat"] exI [of _ "1 :: nat"])

interpretation applier: simulation flag_exec flag_aexec "\<lambda>_ _. True" flag_rel
proof unfold_locales
  fix s a op
  assume "flag_rel s a"
  then show "flag_rel (flag_exec op s) (flag_aexec op a)"
    by (cases op; cases "fst op")
      (auto simp: flag_rel_def flag_exec_def flag_aexec_def set_flag_def clear_flag_def bit_or_iff bit_and_iff bit_not_iff flag_bits)
qed

theorem applier_inside_group:
  assumes "rli_flags r = 0"
  shows "get_flag IN_STMT (fold flag_exec ops r) \<longleftrightarrow> (Stmt, True) \<in> set (take 1 (filter (\<lambda>op. fst op = Stmt) (rev ops)))"
    "get_flag IN_TRANSACTION (fold flag_exec ops r) \<longleftrightarrow> (Trans, True) \<in> set (take 1 (filter (\<lambda>op. fst op = Trans) (rev ops)))"
    "is_in_group (fold flag_exec ops r) \<longleftrightarrow> get_flag IN_STMT (fold flag_exec ops r) \<or> get_flag IN_TRANSACTION (fold flag_exec ops r)"
proof -
  have last: "fold flag_aexec ops a f \<longleftrightarrow> (if \<exists>op\<in>set ops. fst op = f then (f, True) \<in> set (take 1 (filter (\<lambda>op. fst op = f) (rev ops))) else a f)" for f a
  proof (induction ops arbitrary: a rule: rev_induct)
    case (snoc op ops)
    then show ?case by (cases op) (auto simp: flag_aexec_def)
  qed simp
  have rel: "flag_rel (fold flag_exec ops r) (fold flag_aexec ops (\<lambda>_. False))"
    by (rule applier.run) (use assms in \<open>simp_all add: flag_rel_def allowed_all\<close>)
  have none: "(f, True) \<notin> set (take 1 (filter (\<lambda>op. fst op = f) (rev ops)))" if "\<not> (\<exists>op\<in>set ops. fst op = f)" for f
    using that by (auto dest: in_set_takeD)
  from rel show "get_flag IN_STMT (fold flag_exec ops r) \<longleftrightarrow> (Stmt, True) \<in> set (take 1 (filter (\<lambda>op. fst op = Stmt) (rev ops)))"
    "get_flag IN_TRANSACTION (fold flag_exec ops r) \<longleftrightarrow> (Trans, True) \<in> set (take 1 (filter (\<lambda>op. fst op = Trans) (rev ops)))"
    using none by (auto simp: flag_rel_def get_flag_def and_flag_bit last split: if_splits)
  show "is_in_group (fold flag_exec ops r) \<longleftrightarrow> get_flag IN_STMT (fold flag_exec ops r) \<or> get_flag IN_TRANSACTION (fold flag_exec ops r)"
    by (simp add: is_in_group_def get_flag_def and_flag_bit)
qed

text \<open>
  The cached comparison with the position to stop at is forgotten exactly when the name changes that the condition compares; the position
  itself is defined exactly for the two conditions on positions.
\<close>

theorem until_cache_invalidated:
  "until_log_names_cmp_result (notify_group_relay_log_name_update r) =
     (if until_condition r = UNTIL_RELAY_POS then UNTIL_LOG_NAMES_CMP_UNKNOWN else until_log_names_cmp_result r)"
  "until_log_names_cmp_result (notify_group_master_log_name_update r) =
     (if until_condition r = UNTIL_MASTER_POS then UNTIL_LOG_NAMES_CMP_UNKNOWN else until_log_names_cmp_result r)"
  "until_pos r = None \<longleftrightarrow> until_condition r \<in> {UNTIL_NONE, UNTIL_GTID}"
  "until_pos (notify_group_relay_log_name_update r) = until_pos r"
  by (cases "until_condition r"; simp add: notify_group_relay_log_name_update_def notify_group_master_log_name_update_def until_pos_def)+

text \<open>
  Annotations: as long as one is set only when none is held, every sequence of setting and freeing succeeds, the session variable says
  whether one is held, and every annotation that was freed was freed once, in order.
\<close>

datatype annotate_op = Set_annotate ptr | Free_annotate

definition annotate_exec :: "annotate_op \<Rightarrow> rpl_group_info \<Rightarrow> rpl_group_info option" where
  "annotate_exec op g = (case op of Set_annotate e \<Rightarrow> set_annotate_event e g | Free_annotate \<Rightarrow> Some (free_annotate_event g))"

definition annotate_aexec :: "annotate_op \<Rightarrow> ptr option \<times> ptr list \<Rightarrow> ptr option \<times> ptr list" where
  "annotate_aexec op a = (case op of Set_annotate e \<Rightarrow> (Some e, snd a) | Free_annotate \<Rightarrow> (None, snd a @ (case fst a of None \<Rightarrow> [] | Some e \<Rightarrow> [e])))"

definition annotate_ok :: "annotate_op \<Rightarrow> ptr option \<times> ptr list \<Rightarrow> bool" where
  "annotate_ok op a = (case op of Set_annotate e \<Rightarrow> e \<noteq> 0 \<and> fst a = None | Free_annotate \<Rightarrow> True)"

definition annotate_rel :: "rpl_group_info \<Rightarrow> ptr option \<times> ptr list \<Rightarrow> bool" where
  "annotate_rel g a \<longleftrightarrow> m_annotate_event g = (case fst a of None \<Rightarrow> 0 | Some e \<Rightarrow> e) \<and> fst a \<noteq> Some 0 \<and>
     (binlog_annotate_row_events g \<longleftrightarrow> fst a \<noteq> None) \<and> rgi_deleted g = snd a"

interpretation annotate: progress_simulation annotate_exec annotate_aexec annotate_ok annotate_rel
proof unfold_locales
  fix s a op
  assume "annotate_rel s a" "annotate_ok op a"
  then show "\<exists>s'. annotate_exec op s = Some s' \<and> annotate_rel s' (annotate_aexec op a)"
    by (cases op; cases "fst a")
      (auto simp: annotate_rel_def annotate_ok_def annotate_exec_def annotate_aexec_def set_annotate_event_def free_annotate_event_def)
qed

theorem annotations_freed_once:
  assumes "m_annotate_event g = 0" "\<not> binlog_annotate_row_events g" "rgi_deleted g = []"
    and "allowed annotate_ok annotate_aexec ops (None, [])" "fold annotate_aexec ops (None, []) = (held, freed)"
  shows "\<exists>g'. run_opt annotate_exec ops g = Some g' \<and> rgi_deleted g' = freed \<and> (binlog_annotate_row_events g' \<longleftrightarrow> held \<noteq> None) \<and>
    m_annotate_event g' = (case held of None \<Rightarrow> 0 | Some e \<Rightarrow> e)"
proof -
  have "annotate_rel g (None, [])" using assms(1-3) by (simp add: annotate_rel_def)
  from annotate.run [OF this assms(4)] show ?thesis using assms(5) by (auto simp: annotate_rel_def)
qed

text \<open>The data of a table is found if and only if the table is among those to lock, and is that of its first reference.\<close>

theorem table_data_found:
  assumes "chain rt_next_global h (tables_to_lock g) ps"
  shows "get_table_data h t g = Some (map_option (\<lambda>p. (rt_tabledef (the (h p)), rt_conv_table (the (h p)))) (find (\<lambda>p. rt_table (the (h p)) = t) ps))"
proof -
  have "chain rt_next_global h q ps \<Longrightarrow> get_table_data_loop h t q =
    Some (map_option (\<lambda>p. (rt_tabledef (the (h p)), rt_conv_table (the (h p)))) (find (\<lambda>p. rt_table (the (h p)) = t) ps))" for q
  proof (induction ps arbitrary: q)
    case Nil
    then show ?case by (subst get_table_data_loop.simps) simp
  next
    case (Cons p ps)
    then show ?case by (subst get_table_data_loop.simps) auto
  qed
  from this [OF assms] show ?thesis by (simp add: get_table_data_def)
qed

section \<open>GTIDs of a domain\<close>

theorem gtid_equality: "gtid_eq a b \<longleftrightarrow> a = (b :: rpl_gtid)"
  by (cases a; cases b) (auto simp: gtid_eq_def)

text \<open>Elements added to the list of a domain are grabbed all at once, newest first, and the list is then empty.\<close>

theorem gtid_list_grabbed:
  assumes "chain gle_next h gtids qs" "distinct (ps @ qs)" "0 \<notin> set ps" "set ps \<subseteq> dom h"
  shows "\<exists>h' l. run_opt gtid_list_add ps (h, gtids) = Some (h', l) \<and> chain gle_next h' (fst (grab_list l)) (rev ps @ qs) \<and> snd (grab_list l) = 0"
  using assms
proof (induction ps arbitrary: h gtids qs)
  case (Cons p ps)
  obtain n where n: "h p = Some n" "p \<noteq> 0" using Cons.prems(3,4) by auto
  let ?h = "h(p \<mapsto> n\<lparr>gle_next := gtids\<rparr>)"
  have "chain gle_next ?h p (p # qs)" using n(2) Cons.prems(1,2) chain_upd [of p qs gle_next h] by simp
  then have "\<exists>h' l. run_opt gtid_list_add ps (?h, p) = Some (h', l) \<and> chain gle_next h' (fst (grab_list l)) (rev ps @ p # qs) \<and> snd (grab_list l) = 0"
    by (rule Cons.IH) (use Cons.prems in auto)
  moreover have "gtid_list_add p (h, gtids) = Some (?h, p)" using n by (simp add: gtid_list_add_def)
  ultimately show ?case by simp
qed (simp add: grab_list_def)

section \<open>Columns of the master\<close>

text \<open>
  For a definition whose arrays cover its fields: whether a column may be null is its bit, and the type of a column is never the old
  date type; a string is an enumeration or a set exactly when the high byte of its metadata says so.
\<close>

theorem master_columns:
  assumes "i < td_size d" "td_size d \<le> length (td_type d)" "td_size d \<le> length (td_metadata d)" "td_size d \<le> 8 * length (td_null_bits d)"
  shows "table_def_maybe_null d i = Some (bit (td_null_bits d ! (i div 8)) (i mod 8))"
    "\<exists>t. table_def_type d i = Some t \<and> t \<noteq> MYSQL_TYPE_DATE \<and>
       (td_type d ! i \<notin> {MYSQL_TYPE_STRING, MYSQL_TYPE_DATE} \<longrightarrow> t = td_type d ! i) \<and>
       (td_type d ! i = MYSQL_TYPE_STRING \<longrightarrow> t = MYSQL_TYPE_ENUM \<longleftrightarrow> unat (td_metadata d ! i) div 256 = 247) \<and>
       (td_type d ! i = MYSQL_TYPE_STRING \<longrightarrow> t = MYSQL_TYPE_SET \<longleftrightarrow> unat (td_metadata d ! i) div 256 = 248)"
proof -
  have "(ucast b :: uint32) AND push_bit k 1 = push_bit k 1 \<longleftrightarrow> bit b k" if "k < 8" for b :: uchar and k
    using that by (auto simp: bit_eq_iff [where 'a = "32 word"] bit_and_iff bit_exp_iff bit_ucast_iff dest: spec [of _ k])
  moreover have "i div 8 < length (td_null_bits d)" using assms(1,4) by linarith
  ultimately show "table_def_maybe_null d i = Some (bit (td_null_bits d ! (i div 8)) (i mod 8))"
    using assms(1) by (simp add: table_def_maybe_null_def array_read_def)
  show "\<exists>t. table_def_type d i = Some t \<and> t \<noteq> MYSQL_TYPE_DATE \<and>
       (td_type d ! i \<notin> {MYSQL_TYPE_STRING, MYSQL_TYPE_DATE} \<longrightarrow> t = td_type d ! i) \<and>
       (td_type d ! i = MYSQL_TYPE_STRING \<longrightarrow> t = MYSQL_TYPE_ENUM \<longleftrightarrow> unat (td_metadata d ! i) div 256 = 247) \<and>
       (td_type d ! i = MYSQL_TYPE_STRING \<longrightarrow> t = MYSQL_TYPE_SET \<longleftrightarrow> unat (td_metadata d ! i) div 256 = 248)"
    using assms(1-3)
    by (auto simp: table_def_type_def binlog_type_def array_read_def field_type_codes unat_drop_bit_div Let_def)
qed

section \<open>The queue of a worker is a queue\<close>

text \<open>
  Events from a pool \<open>U\<close> with the sizes \<open>sz\<close>, each queued at most once and with a null link, as the function that makes them leaves it.  The
  abstract queue is the list of the events, the events ever queued and the number of bytes that were queued and not yet taken off.
\<close>

datatype queue_op = Enq ptr | Deq_all | Deq_size uint64

definition queue_exec :: "queue_op \<Rightarrow> worker \<Rightarrow> worker option" where
  "queue_exec op s = (case op of Enq p \<Rightarrow> enqueue p s | Deq_all \<Rightarrow> dequeue1 (event_queue (snd s)) s | Deq_size n \<Rightarrow> Some (dequeue2 n s))"

type_synonym abs_queue = "ptr list \<times> ptr set \<times> uint64"

definition queue_aexec :: "(ptr \<Rightarrow> uint64) \<Rightarrow> queue_op \<Rightarrow> abs_queue \<Rightarrow> abs_queue" where
  "queue_aexec sz op a = (let (xs, seen, tot) = a in
     case op of Enq p \<Rightarrow> (xs @ [p], insert p seen, tot + sz p) | Deq_all \<Rightarrow> ([], seen, tot) | Deq_size n \<Rightarrow> (xs, seen, tot - n))"

definition queue_ok :: "ptr set \<Rightarrow> queue_op \<Rightarrow> abs_queue \<Rightarrow> bool" where
  "queue_ok U op a = (case op of Enq p \<Rightarrow> p \<in> U \<and> p \<noteq> 0 \<and> p \<notin> fst (snd a) | _ \<Rightarrow> True)"

definition queue_rel :: "ptr set \<Rightarrow> (ptr \<Rightarrow> uint64) \<Rightarrow> worker \<Rightarrow> abs_queue \<Rightarrow> bool" where
  "queue_rel U sz s a = (let (h, t) = s; (xs, seen, tot) = a in
     chain qe_next h (event_queue t) xs \<and> distinct xs \<and> set xs \<subseteq> seen \<and> last_in_queue t = (if xs = [] then 0 else last xs) \<and> queued_size t = tot \<and>
     (\<forall>p\<in>U. \<exists>n. h p = Some n \<and> qe_event_size n = sz p \<and> (p \<notin> seen \<longrightarrow> qe_next n = 0)))"

lemma enqueue_step:
  assumes "queue_rel U sz (h, t) (xs, seen, tot)" "p \<in> U" "p \<noteq> 0" "p \<notin> seen"
  shows "\<exists>s'. enqueue p (h, t) = Some s' \<and> queue_rel U sz s' (xs @ [p], insert p seen, tot + sz p)"
proof -
  have R: "chain qe_next h (event_queue t) xs" "distinct xs" "set xs \<subseteq> seen" "last_in_queue t = (if xs = [] then 0 else last xs)" "queued_size t = tot"
    "\<forall>p\<in>U. \<exists>n. h p = Some n \<and> qe_event_size n = sz p \<and> (p \<notin> seen \<longrightarrow> qe_next n = 0)"
    using assms(1) by (simp_all add: queue_rel_def)
  obtain n where n: "h p = Some n" "qe_event_size n = sz p" "qe_next n = 0" using R(6) assms(2,4) by blast
  show ?thesis
  proof (cases xs rule: rev_cases)
    case Nil
    then show ?thesis using R n assms(2,3) by (auto simp: enqueue_def queue_rel_def)
  next
    case (snoc ys y)
    obtain m where m: "h y = Some m" "y \<noteq> 0" using R(1) snoc chain_last_next [of qe_next h "event_queue t" ys y] chain_live [OF R(1)] by auto
    have y: "y \<noteq> p" "distinct (ys @ [y, p])" using R(2,3) assms(4) snoc by auto
    let ?h = "h(y \<mapsto> m\<lparr>qe_next := p\<rparr>)"
    have "chain qe_next ?h (event_queue t) (ys @ [y, p])"
      by (rule chain_extend [where na = m and nb = n]) (use R(1) snoc n m(1) y(2) assms(3) in simp_all)
    moreover have "enqueue p (h, t) = Some (?h, t\<lparr>last_in_queue := p, queued_size := tot + sz p\<rparr>)"
      using R(4,5) snoc m n y(1) assms(3) by (simp add: enqueue_def)
    moreover have "\<forall>q\<in>U. \<exists>k. ?h q = Some k \<and> qe_event_size k = sz q \<and> (q \<notin> insert p seen \<longrightarrow> qe_next k = 0)"
      using R(3,6) snoc m(1) by fastforce
    ultimately show ?thesis using snoc y(2) R(3) by (auto simp: queue_rel_def simp del: fun_upd_apply)
  qed
qed

interpretation worker_queue: progress_simulation queue_exec "queue_aexec sz" "queue_ok U" "queue_rel U sz" for U sz
proof unfold_locales
  fix s a op
  assume r: "queue_rel U sz s a" and ok: "queue_ok U op a"
  obtain h t xs seen tot where e: "s = (h, t)" "a = (xs, seen, tot)" by (metis prod.exhaust)
  show "\<exists>s'. queue_exec op s = Some s' \<and> queue_rel U sz s' (queue_aexec sz op a)"
  proof (cases op)
    case (Enq p)
    then show ?thesis using enqueue_step [of U sz h t xs seen tot p] r ok by (simp add: e queue_exec_def queue_aexec_def queue_ok_def)
  next
    case Deq_all
    then show ?thesis using r by (simp add: e queue_exec_def queue_aexec_def dequeue1_def queue_rel_def)
  next
    case (Deq_size n)
    then show ?thesis using r by (simp add: e queue_exec_def queue_aexec_def dequeue2_def queue_rel_def)
  qed
qed

lemma fold_enqueue: "fold (queue_aexec sz) (map Enq ps) (xs, seen, tot) = (xs @ ps, set ps \<union> seen, tot + sum_list (map sz ps))"
  by (induction ps arbitrary: xs seen tot) (auto simp: queue_aexec_def add.assoc)

lemma allowed_enqueue: "distinct ps \<Longrightarrow> set ps \<subseteq> U - seen - {0} \<Longrightarrow> allowed (queue_ok U) (queue_aexec sz) (map Enq ps) (xs, seen, tot)"
proof (induction ps arbitrary: xs seen tot)
  case (Cons p ps)
  then have "set ps \<subseteq> U - insert p seen - {0}" by auto
  with Cons show ?case by (simp add: queue_ok_def queue_aexec_def)
qed simp

text \<open>
  C40: The worker takes the events in the order in which they were queued: events queued onto an empty queue form a list in that order,
  \<open>dequeue1\<close> hands this list over and leaves an empty queue, and after \<open>dequeue2\<close> with the sizes of the events the size of the queue is what
  it was, even if the counter wrapped around meanwhile.
\<close>

theorem worker_takes_events_in_order:
  assumes "queue_rel U sz (h, t) ([], seen, tot)" "distinct ps" "set ps \<subseteq> U - seen - {0}"
  shows "\<exists>h1 t1 t2. run_opt queue_exec (map Enq ps) (h, t) = Some (h1, t1) \<and> chain qe_next h1 (event_queue t1) ps \<and>
    dequeue1 (event_queue t1) (h1, t1) = Some (h1, t2) \<and> event_queue t2 = 0 \<and> last_in_queue t2 = 0 \<and>
    queued_size (snd (dequeue2 (sum_list (map sz ps)) (h1, t2))) = queued_size t"
proof -
  from worker_queue.run [OF assms(1) allowed_enqueue [OF assms(2,3)]] obtain h1 t1 where
    r: "run_opt queue_exec (map Enq ps) (h, t) = Some (h1, t1)" "queue_rel U sz (h1, t1) (ps, set ps \<union> seen, tot + sum_list (map sz ps))"
    by (auto simp: fold_enqueue)
  moreover have "queued_size t = tot" using assms(1) by (simp add: queue_rel_def)
  ultimately show ?thesis by (auto simp: queue_rel_def dequeue1_def dequeue2_def)
qed

section \<open>The protocol of an injector\<close>

primrec check_states :: "injector_state list \<Rightarrow> injector_transaction \<Rightarrow> nat list \<times> injector_transaction" where
  "check_states [] t = ([], t)"
| "check_states (x # xs) t = (let (r, t1) = check_state x t; (rs, t2) = check_states xs t1 in (r # rs, t2))"

text \<open>The sequences of calls that are accepted: rows only after a table, and no table after a row.\<close>

definition accepted :: "injector_state \<Rightarrow> injector_state list \<Rightarrow> bool" where
  "accepted s xs \<longleftrightarrow> (\<exists>a b c. xs = replicate a START_STATE @ replicate b TABLE_STATE @ replicate c ROW_STATE \<and>
     (s = START_STATE \<and> (c > 0 \<longrightarrow> b > 0) \<or> s = TABLE_STATE \<and> a = 0 \<or> s = ROW_STATE \<and> a = 0 \<and> b = 0))"

lemma check_state_sink: "m_state t = STATE_COUNT \<Longrightarrow> check_state x t = (1, t)"
  by (simp add: check_state_def Let_def)

lemma check_states_sink: "m_state t = STATE_COUNT \<Longrightarrow> check_states xs t = (replicate (length xs) 1, t)"
  by (induction xs) (simp_all add: check_state_sink)

lemma accepted_Nil [simp]: "accepted s [] \<longleftrightarrow> s \<noteq> STATE_COUNT"
  by (cases s) (auto simp: accepted_def)

lemma acceptedI:
  "s = START_STATE \<and> (c > 0 \<longrightarrow> b > 0) \<or> s = TABLE_STATE \<and> a = 0 \<or> s = ROW_STATE \<and> a = 0 \<and> b = 0 \<Longrightarrow>
   accepted s (replicate a START_STATE @ replicate b TABLE_STATE @ replicate c ROW_STATE)"
  by (auto simp: accepted_def)

definition legal_moves :: "(injector_state \<times> injector_state) set" where
  "legal_moves = {(START_STATE, START_STATE), (START_STATE, TABLE_STATE), (TABLE_STATE, TABLE_STATE), (TABLE_STATE, ROW_STATE), (ROW_STATE, ROW_STATE)}"

lemma accepted_Cons: "accepted s (x # xs) \<longleftrightarrow> (s, x) \<in> legal_moves \<and> accepted x xs"
proof
  assume "accepted s (x # xs)"
  then obtain a b c where E: "x # xs = replicate a START_STATE @ replicate b TABLE_STATE @ replicate c ROW_STATE"
    and C: "s = START_STATE \<and> (c > 0 \<longrightarrow> b > 0) \<or> s = TABLE_STATE \<and> a = 0 \<or> s = ROW_STATE \<and> a = 0 \<and> b = 0" by (auto simp: accepted_def)
  consider (a) a' where "a = Suc a'" | (b) b' where "a = 0" "b = Suc b'" | (c) c' where "a = 0" "b = 0" "c = Suc c'"
    using E by (cases a; cases b; cases c) auto
  then show "(s, x) \<in> legal_moves \<and> accepted x xs"
  proof cases
    case a
    then show ?thesis using E C acceptedI [of START_STATE c b a'] by (auto simp: legal_moves_def)
  next
    case b
    then show ?thesis using E C acceptedI [of TABLE_STATE c b' 0] by (auto simp: legal_moves_def)
  next
    case c
    then show ?thesis using E C acceptedI [of ROW_STATE c' 0 0] by (auto simp: legal_moves_def)
  qed
next
  assume "(s, x) \<in> legal_moves \<and> accepted x xs"
  then obtain a b c where m: "(s, x) \<in> legal_moves" and E: "xs = replicate a START_STATE @ replicate b TABLE_STATE @ replicate c ROW_STATE"
    and C: "x = START_STATE \<and> (c > 0 \<longrightarrow> b > 0) \<or> x = TABLE_STATE \<and> a = 0 \<or> x = ROW_STATE \<and> a = 0 \<and> b = 0" by (auto simp: accepted_def)
  show "accepted s (x # xs)"
    using m C E acceptedI [of s c b "Suc a"] acceptedI [of s c "Suc b" 0] acceptedI [of s "Suc c" 0 0] by (auto simp: legal_moves_def)
qed

lemma check_state_moves:
  "check_state x t = (if (m_state t, x) \<in> legal_moves then (0, t\<lparr>m_state := x\<rparr>) else (1, t\<lparr>m_state := STATE_COUNT\<rparr>))"
  by (cases "m_state t"; cases x) (simp_all add: check_state_def legal_moves_def Let_def)

text \<open>
  C27: An injector accepts exactly the sequences of calls with tables before rows and at least one table before the first row, and once a call
  was refused every later one is refused.  Writing a further row after a row is accepted, although the list of legal moves in the comment does
  not have it, and a refusal is reported as 1, not as the documented -1.
\<close>

theorem injector_protocol:
  "(set (fst (check_states xs t)) \<subseteq> {0} \<longleftrightarrow> accepted (m_state t) xs \<or> (xs = [] \<and> m_state t = STATE_COUNT)) \<and>
   set (fst (check_states xs t)) \<subseteq> {0, 1} \<and>
   (1 \<in> set (fst (check_states xs t)) \<longrightarrow> fst (check_states ys (snd (check_states xs t))) = replicate (length ys) 1)"
proof -
  have "(\<forall>r\<in>set (fst (check_states xs t)). r = 0) \<longleftrightarrow> accepted (m_state t) xs \<or> (xs = [] \<and> m_state t = STATE_COUNT)"
  proof (induction xs arbitrary: t)
    case (Cons x xs)
    then show ?case
    proof (cases "(m_state t, x) \<in> legal_moves")
      case True
      then have "x \<noteq> STATE_COUNT" by (auto simp: legal_moves_def)
      then show ?thesis using True Cons.IH [of "t\<lparr>m_state := x\<rparr>"] by (cases xs) (auto simp: check_state_moves accepted_Cons split_beta)
    qed (simp add: check_state_moves accepted_Cons split_beta)
  qed auto
  moreover have "set (fst (check_states xs t)) \<subseteq> {0, 1}" by (induction xs arbitrary: t) (auto simp: check_state_moves split_beta)
  moreover have "1 \<in> set (fst (check_states xs t)) \<Longrightarrow> m_state (snd (check_states xs t)) = STATE_COUNT"
  proof (induction xs arbitrary: t)
    case (Cons x xs)
    then show ?case by (auto simp: check_state_moves split_beta check_states_sink split: if_splits)
  qed simp
  ultimately show ?thesis by (auto simp: check_states_sink)
qed

text \<open>Assigning a transaction gives the object all members of the other one.\<close>

theorem injector_assignment: "injector_assign self t = (t :: injector_transaction)" "snd (injector_swap a b) = (a :: injector_transaction)"
  by (cases self; cases t; cases a; cases b; simp add: injector_assign_def injector_swap_def)+

section \<open>Concrete cases\<close>

definition sample_rli :: Relay_log_info where
  "sample_rli = \<lparr>rli_flags = 0, until_condition = UNTIL_NONE, until_log_names_cmp_result = UNTIL_LOG_NAMES_CMP_UNKNOWN, group_master_log_pos = 4, group_relay_log_pos = 4,
     rli_event_relay_log_pos = 4, sql_delay = 0, sql_delay_end = 0, driver_is_slave_thread = Some True\<rparr>"

theorem applier_inside_group_witness: "get_flag IN_STMT (fold flag_exec [(Stmt, True), (Trans, True), (Trans, False)] sample_rli)"
  using applier_inside_group(1) [of sample_rli "[(Stmt, True), (Trans, True), (Trans, False)]"] by (simp add: sample_rli_def)

definition sample_group :: rpl_group_info where
  "sample_group = \<lparr>deferred_events = None, deferred_events_collecting = False, m_annotate_event = 0, binlog_annotate_row_events = False, rgi_deleted = [],
     tables_to_lock = 3, row_stmt_start_timestamp = 0, long_find_row_note_printed = False, future_event_relay_log_pos = 4, is_parallel_exec = False\<rparr>"

theorem annotations_freed_once_witness:
  "\<exists>g'. run_opt annotate_exec [Set_annotate 7, Free_annotate, Free_annotate, Set_annotate 8] sample_group = Some g' \<and> rgi_deleted g' = [7] \<and> binlog_annotate_row_events g'"
  using annotations_freed_once [of sample_group "[Set_annotate 7, Free_annotate, Free_annotate, Set_annotate 8]" "Some 8" "[7]"]
  by (auto simp: sample_group_def annotate_ok_def annotate_aexec_def)

theorem table_data_found_witness:
  "get_table_data [3 \<mapsto> \<lparr>rt_next_global = 0, rt_table = 9, rt_tabledef = 5, rt_conv_table = 6\<rparr>] 9 sample_group = Some (Some (5, 6))"
  using table_data_found [of "[3 \<mapsto> \<lparr>rt_next_global = 0, rt_table = 9, rt_tabledef = 5, rt_conv_table = 6\<rparr>]" sample_group "[3]" 9]
  by (simp add: sample_group_def)

theorem worker_takes_events_in_order_witness:
  "\<exists>h1 t1. run_opt queue_exec [Enq 5, Enq 3] ([5 \<mapsto> \<lparr>qe_next = 0, qe_event_size = 10\<rparr>, 3 \<mapsto> \<lparr>qe_next = 0, qe_event_size = 20\<rparr>],
       \<lparr>event_queue = 0, last_in_queue = 0, queued_size = 0\<rparr>) = Some (h1, t1) \<and> chain qe_next h1 (event_queue t1) [5, 3]"
proof -
  have "queue_rel {5, 3} (\<lambda>p. if p = 5 then 10 else 20) ([5 \<mapsto> \<lparr>qe_next = 0, qe_event_size = 10\<rparr>, 3 \<mapsto> \<lparr>qe_next = 0, qe_event_size = 20\<rparr>],
       \<lparr>event_queue = 0, last_in_queue = 0, queued_size = 0\<rparr>) ([], {}, 0)" by (simp add: queue_rel_def)
  from worker_takes_events_in_order [OF this, of "[5, 3]"] show ?thesis by auto
qed

theorem injector_protocol_witness:
  "fst (check_states [ROW_STATE] (snd (check_states [TABLE_STATE, ROW_STATE, TABLE_STATE] \<lparr>m_start_pos = (0, 4), m_thd = 1, m_state = START_STATE\<rparr>))) = [1]"
  using injector_protocol [of "[TABLE_STATE, ROW_STATE, TABLE_STATE]" "\<lparr>m_start_pos = (0, 4), m_thd = 1, m_state = START_STATE\<rparr>" "[ROW_STATE]"]
  by (simp add: check_state_moves legal_moves_def)


theorem select_listener_reports_witness:
  "\<exists>p1 p2. select_init_slave_sockets sample_ilist (\<lambda>_. 40) 0 (select_listener {} {}) = Some (1, p1) \<and>
     listen_rounds (\<lambda>R p. snd (select_listen_on_sockets (Some R) p)) (select_clear_socket_info (\<lambda>_. 40)) [({40}, [5])] p1 = Some p2 \<and>
     select_is_socket_active (\<lambda>_. 40) 5 (snd (select_listen_on_sockets (Some {40}) p2)) = Some False"
  using select_listener_reports [of sample_ilist 0 "[5]" "\<lambda>_. 40" "[({40}, [5])]" "select_listener {} {}" "{40}"] sample_ilist_ok(1) by (simp add: fd_ok_def FD_SETSIZE_def)

theorem select_listener_bound_witness: "select_init_slave_sockets sample_ilist (\<lambda>_. 1024) 0 (select_listener {} {}) = None"
  by (rule select_listener_bound(1) [where xs = "[]" and y = 5 and ys = "[]"]) (simp_all add: sample_ilist_ok FD_SETSIZE_def)

end
