(* ===== verification/CommonTables.thy ===== *)
theory CommonTables
  imports NodeHeap Runs
begin

text \<open>
  Common table expressions (\<^verbatim>\<open>sql_cte.h\<close>): the elements of a WITH clause with their dependency maps, the clause with the maps of its recursive elements,
  the list of the clauses of a statement, and the walk around the elements that are mutually recursive.  Elements, clauses, units, materialisation objects,
  tables and join tables are objects of node heaps, since elements of one clause share the maps of their owner and different elements may share a join table.
  The functions that find the dependencies, parse clones and materialise tables are compiled code.
\<close>

section \<open>Elements and clauses\<close>

type_synonym table_map = uint64

text \<open>
  The two lists of subqueries and derived tables with recursive references, which no inline function uses, are left out; a name is the pointer the code keeps.
\<close>

record With_element =
  we_owner :: ptr
  we_next :: ptr
  we_number :: uint32
  we_elem_map :: table_map
  base_dep_map :: table_map
  derived_dep_map :: table_map
  sq_dep_map :: table_map
  work_dep_map :: table_map
  mutually_recursive :: table_map
  top_level_dep_map :: table_map
  sq_rec_ref :: ptr
  next_mutually_recursive :: ptr
  we_references :: uint32
  unparsed_spec :: "ptr \<times> uint64"
  unparsed_spec_offset :: uint64
  stmt_prepare_mode :: bool
  query_name :: ptr
  column_list :: "ptr list"
  we_spec :: ptr
  is_recursive :: bool
  rec_outer_references :: uint32
  with_anchor :: bool
  first_recursive :: ptr
  we_level :: uint32
  rec_result :: ptr

record With_clause =
  wc_owner :: ptr
  embedding_with_clause :: ptr
  next_with_clause :: ptr
  dependencies_are_checked :: bool
  unrestricted :: table_map
  with_prepared_anchor :: table_map
  wc_cleaned :: table_map
  stabilized :: table_map
  with_recursive :: bool

text \<open>The part of a unit, \<open>st_select_lex_unit\<close>, that belongs to common table expressions.\<close>

record cte_unit =
  unit_with_clause :: ptr
  unit_with_element :: ptr
  columns_are_renamed :: bool

text \<open>
  The location a pointer to a pointer to a clause names: the head of the list of the statement or the link of a clause.
\<close>

datatype clause_loc = Clauses_list | Link_of ptr

record cte_heap =
  elems :: "With_element node_heap"
  clauses :: "With_clause node_heap"
  units :: "cte_unit node_heap"
  select_master :: "ptr node_heap"
  first_rec_table_to_update :: "ptr node_heap"
  reginfo_join_tab :: "ptr node_heap"
  preread_init_done :: "bool node_heap"
  with_clauses_list :: ptr
  clauses_last_next :: clause_loc

text \<open>
  The constructors.  They leave the members they do not name as they find them in the new object, which is an argument; the element also registers itself in
  its unit.
\<close>

definition With_element_new :: "cte_heap \<Rightarrow> ptr \<Rightarrow> ptr \<Rightarrow> ptr list \<Rightarrow> ptr \<Rightarrow> cte_heap option" where
  "With_element_new h this name list unit =
     do { es \<leftarrow> write_node (elems h) this (\<lambda>x. x\<lparr>we_next := 0, base_dep_map := 0, derived_dep_map := 0, sq_dep_map := 0, work_dep_map := 0,
            mutually_recursive := 0, top_level_dep_map := 0, sq_rec_ref := 0, next_mutually_recursive := 0, we_references := 0, query_name := name,
            column_list := list, we_spec := unit, is_recursive := False, rec_outer_references := 0, with_anchor := False, we_level := 0, rec_result := 0\<rparr>);
          us \<leftarrow> write_node (units h) unit (\<lambda>u. u\<lparr>unit_with_element := this\<rparr>);
          Some (h\<lparr>elems := es, units := us\<rparr>) }"

definition With_clause_new :: "bool \<Rightarrow> ptr \<Rightarrow> With_clause" where
  "With_clause_new recursive_fl emb_with_clause =
     \<lparr>wc_owner = 0, embedding_with_clause = emb_with_clause, next_with_clause = 0, dependencies_are_checked = False, unrestricted = 0,
      with_prepared_anchor = 0, wc_cleaned = 0, stabilized = 0, with_recursive = recursive_fl\<rparr>"

definition max_number_of_elements_in_with_clause :: nat where "max_number_of_elements_in_with_clause = 8 * 8"

text \<open>The shift is defined for the numbers of a clause, which are below \<^const>\<open>max_number_of_elements_in_with_clause\<close>.\<close>

definition get_elem_map :: "With_element \<Rightarrow> table_map" where
  "get_elem_map x = push_bit (unat (we_number x)) 1"

definition set_dependency_on :: "cte_heap \<Rightarrow> ptr \<Rightarrow> ptr \<Rightarrow> cte_heap option" where
  "set_dependency_on h this with_elem =
     do { y \<leftarrow> read_node (elems h) with_elem;
          es \<leftarrow> write_node (elems h) this (\<lambda>x. x\<lparr>base_dep_map := base_dep_map x OR get_elem_map y\<rparr>);
          Some (h\<lparr>elems := es\<rparr>) }"

definition check_dependency_on :: "cte_heap \<Rightarrow> ptr \<Rightarrow> ptr \<Rightarrow> bool option" where
  "check_dependency_on h this with_elem =
     do { x \<leftarrow> read_node (elems h) this; y \<leftarrow> read_node (elems h) with_elem; Some (base_dep_map x AND get_elem_map y \<noteq> 0) }"

definition is_referenced :: "With_element \<Rightarrow> bool" where "is_referenced x \<longleftrightarrow> we_references x \<noteq> 0"

definition inc_references :: "With_element \<Rightarrow> With_element" where "inc_references x = x\<lparr>we_references := we_references x + 1\<rparr>"

definition contains_sq_with_recursive_reference :: "With_element \<Rightarrow> bool" where
  "contains_sq_with_recursive_reference x \<longleftrightarrow> sq_dep_map x AND mutually_recursive x \<noteq> 0"

definition no_rec_ref_on_top_level :: "With_element \<Rightarrow> bool" where
  "no_rec_ref_on_top_level x \<longleftrightarrow> \<not> (top_level_dep_map x AND mutually_recursive x \<noteq> 0)"

section \<open>The maps of the owner\<close>

text \<open>Every one of these functions of an element reads or changes a map of the clause that owns it.\<close>

definition ask_owner :: "(With_element \<Rightarrow> With_clause \<Rightarrow> bool) \<Rightarrow> cte_heap \<Rightarrow> ptr \<Rightarrow> bool option" where
  "ask_owner P h this = do { x \<leftarrow> read_node (elems h) this; c \<leftarrow> read_node (clauses h) (we_owner x); Some (P x c) }"

definition tell_owner :: "(With_element \<Rightarrow> With_clause \<Rightarrow> With_clause) \<Rightarrow> cte_heap \<Rightarrow> ptr \<Rightarrow> cte_heap option" where
  "tell_owner f h this =
     do { x \<leftarrow> read_node (elems h) this; cs \<leftarrow> write_node (clauses h) (we_owner x) (f x); Some (h\<lparr>clauses := cs\<rparr>) }"

definition add_unrestricted :: "With_clause \<Rightarrow> table_map \<Rightarrow> With_clause" where
  "add_unrestricted c m = c\<lparr>unrestricted := unrestricted c OR m\<rparr>"

definition is_unrestricted :: "cte_heap \<Rightarrow> ptr \<Rightarrow> bool option" where
  "is_unrestricted = ask_owner (\<lambda>x c. unrestricted c AND get_elem_map x \<noteq> 0)"

definition is_with_prepared_anchor :: "cte_heap \<Rightarrow> ptr \<Rightarrow> bool option" where
  "is_with_prepared_anchor = ask_owner (\<lambda>x c. with_prepared_anchor c AND get_elem_map x \<noteq> 0)"

definition mark_as_with_prepared_anchor :: "cte_heap \<Rightarrow> ptr \<Rightarrow> cte_heap option" where
  "mark_as_with_prepared_anchor = tell_owner (\<lambda>x c. c\<lparr>with_prepared_anchor := with_prepared_anchor c OR mutually_recursive x\<rparr>)"

definition is_cleaned :: "cte_heap \<Rightarrow> ptr \<Rightarrow> bool option" where
  "is_cleaned = ask_owner (\<lambda>x c. wc_cleaned c AND get_elem_map x \<noteq> 0)"

definition mark_as_cleaned :: "cte_heap \<Rightarrow> ptr \<Rightarrow> cte_heap option" where
  "mark_as_cleaned = tell_owner (\<lambda>x c. c\<lparr>wc_cleaned := wc_cleaned c OR get_elem_map x\<rparr>)"

definition cleanup_stabilized :: "cte_heap \<Rightarrow> ptr \<Rightarrow> cte_heap option" where
  "cleanup_stabilized = tell_owner (\<lambda>x c. c\<lparr>stabilized := stabilized c AND NOT (mutually_recursive x)\<rparr>)"

definition set_as_stabilized :: "cte_heap \<Rightarrow> ptr \<Rightarrow> cte_heap option" where
  "set_as_stabilized = tell_owner (\<lambda>x c. c\<lparr>stabilized := stabilized c OR get_elem_map x\<rparr>)"

definition is_stabilized :: "cte_heap \<Rightarrow> ptr \<Rightarrow> bool option" where
  "is_stabilized = ask_owner (\<lambda>x c. stabilized c AND get_elem_map x \<noteq> 0)"

definition all_are_stabilized :: "cte_heap \<Rightarrow> ptr \<Rightarrow> bool option" where
  "all_are_stabilized = ask_owner (\<lambda>x c. stabilized c AND mutually_recursive x = mutually_recursive x)"

definition reset_recursive_for_exec :: "cte_heap \<Rightarrow> ptr \<Rightarrow> cte_heap option" where
  "reset_recursive_for_exec h this =
     do { x \<leftarrow> read_node (elems h) this;
          DBUG_ASSERT (is_recursive x);
          es \<leftarrow> write_node (elems h) this (\<lambda>x. x\<lparr>we_level := 0\<rparr>);
          h1 \<leftarrow> tell_owner (\<lambda>x c. c\<lparr>with_prepared_anchor := with_prepared_anchor c AND NOT (mutually_recursive x)\<rparr>) (h\<lparr>elems := es\<rparr>) this;
          h2 \<leftarrow> tell_owner (\<lambda>x c. c\<lparr>wc_cleaned := wc_cleaned c AND NOT (get_elem_map x)\<rparr>) h1 this;
          h3 \<leftarrow> cleanup_stabilized h2 this;
          us \<leftarrow> write_node (units h3) (we_spec x) (\<lambda>u. u\<lparr>columns_are_renamed := False\<rparr>);
          Some (h3\<lparr>units := us\<rparr>) }"

section \<open>The walk around mutually recursive elements\<close>

definition forget_preread :: "cte_heap \<Rightarrow> ptr \<Rightarrow> cte_heap option" where
  "forget_preread h with_elem =
     do { y \<leftarrow> read_node (elems h) with_elem;
          rec_table \<leftarrow> read_node (first_rec_table_to_update h) (rec_result y);
          if rec_table \<noteq> 0
          then do { j \<leftarrow> read_node (reginfo_join_tab h) rec_table;
                    js \<leftarrow> write_node (preread_init_done h) j (\<lambda>_. False);
                    Some (h\<lparr>preread_init_done := js\<rparr>) }
          else Some h }"

partial_function (option) next_iteration_loop :: "cte_heap \<Rightarrow> ptr \<Rightarrow> ptr \<Rightarrow> cte_heap option" where
  "next_iteration_loop h this with_elem =
     do { x \<leftarrow> read_node (elems h) with_elem;
          if next_mutually_recursive x \<noteq> this
          then do { h1 \<leftarrow> forget_preread h (next_mutually_recursive x); next_iteration_loop h1 this (next_mutually_recursive x) }
          else Some h }"

declare next_iteration_loop.simps [code]

definition prepare_for_next_iteration :: "cte_heap \<Rightarrow> ptr \<Rightarrow> cte_heap option" where
  "prepare_for_next_iteration h this = next_iteration_loop h this this"

section \<open>Clauses of a statement and of a unit\<close>

fun clause_write :: "cte_heap \<Rightarrow> clause_loc \<Rightarrow> ptr \<Rightarrow> cte_heap option" where
  "clause_write h Clauses_list c = Some (h\<lparr>with_clauses_list := c\<rparr>)"
| "clause_write h (Link_of p) c = do { cs \<leftarrow> write_node (clauses h) p (\<lambda>k. k\<lparr>next_with_clause := c\<rparr>); Some (h\<lparr>clauses := cs\<rparr>) }"

definition add_to_list :: "ptr \<Rightarrow> cte_heap \<Rightarrow> cte_heap option" where
  "add_to_list this h = do { h1 \<leftarrow> clause_write h (clauses_last_next h) this; Some (h1\<lparr>clauses_last_next := Link_of this\<rparr>) }"

definition clause_pop :: "cte_heap \<Rightarrow> ptr \<Rightarrow> ptr option" where
  "clause_pop h this = map_option embedding_with_clause (read_node (clauses h) this)"

definition set_owner :: "cte_heap \<Rightarrow> ptr \<Rightarrow> ptr \<Rightarrow> cte_heap option" where
  "set_owner h this unit = do { cs \<leftarrow> write_node (clauses h) this (\<lambda>c. c\<lparr>wc_owner := unit\<rparr>); Some (h\<lparr>clauses := cs\<rparr>) }"

definition unit_set_with_clause :: "cte_heap \<Rightarrow> ptr \<Rightarrow> ptr \<Rightarrow> cte_heap option" where
  "unit_set_with_clause h this with_cl =
     do { us \<leftarrow> write_node (units h) this (\<lambda>u. u\<lparr>unit_with_clause := with_cl\<rparr>);
          if with_cl \<noteq> 0 then set_owner (h\<lparr>units := us\<rparr>) with_cl this else Some (h\<lparr>units := us\<rparr>) }"

definition select_set_with_clause :: "cte_heap \<Rightarrow> ptr \<Rightarrow> ptr \<Rightarrow> cte_heap option" where
  "select_set_with_clause h this with_cl =
     do { m \<leftarrow> read_node (select_master h) this;
          us \<leftarrow> write_node (units h) m (\<lambda>u. u\<lparr>unit_with_clause := with_cl\<rparr>);
          if with_cl \<noteq> 0 then set_owner (h\<lparr>units := us\<rparr>) with_cl m else Some (h\<lparr>units := us\<rparr>) }"

definition get_with_clause :: "cte_heap \<Rightarrow> ptr \<Rightarrow> ptr option" where
  "get_with_clause h this = do { m \<leftarrow> read_node (select_master h) this; u \<leftarrow> read_node (units h) m; Some (unit_with_clause u) }"

definition get_with_element :: "cte_heap \<Rightarrow> ptr \<Rightarrow> ptr option" where
  "get_with_element h this = do { m \<leftarrow> read_node (select_master h) this; u \<leftarrow> read_node (units h) m; Some (unit_with_element u) }"

section \<open>Maps as sets of elements\<close>

lemma bit_get_elem_map: "unat (we_number x) < 64 \<Longrightarrow> bit (get_elem_map x) i \<longleftrightarrow> i = unat (we_number x)"
  by (auto simp: get_elem_map_def push_bit_eq_mult bit_exp_iff possible_bit_def)

lemma and_get_elem_map: "unat (we_number x) < 64 \<Longrightarrow> m AND get_elem_map x \<noteq> 0 \<longleftrightarrow> bit m (unat (we_number x))"
proof -
  assume "unat (we_number x) < 64"
  then have "bit (m AND get_elem_map x) i \<longleftrightarrow> bit m i \<and> i = unat (we_number x)" for i by (simp add: bit_and_iff bit_get_elem_map)
  then show ?thesis by (metis bit_0_eq bit_eq_iff bot_apply bot_bool_def)
qed

lemma and_eq_self: "m AND r = r \<longleftrightarrow> (\<forall>i. bit r i \<longrightarrow> bit (m :: table_map) i)"
proof
  assume "m AND r = r"
  then show "\<forall>i. bit r i \<longrightarrow> bit m i" by (metis bit_and_iff)
next
  assume "\<forall>i. bit r i \<longrightarrow> bit m i"
  then show "m AND r = r" by (intro bit_eqI) (auto simp: bit_and_iff)
qed

text \<open>Dependencies: an element depends on the elements that were set, and on no other.\<close>

lemma dependency_set_and_checked:
  assumes "elems h e = Some x" "elems h a = Some y" "elems h b = Some z" "e \<noteq> 0" "a \<noteq> 0" "b \<noteq> 0"
    and "unat (we_number y) < 64" "unat (we_number z) < 64"
  shows "(set_dependency_on h e a \<bind> (\<lambda>h1. check_dependency_on h1 e b)) =
    Some (we_number z = we_number y \<or> the (check_dependency_on h e b))"
proof -
  have n: "unat (we_number z) = unat (we_number y) \<longleftrightarrow> we_number z = we_number y" by (simp add: word_unat_eq_iff)
  have g: "get_elem_map (z\<lparr>base_dep_map := m\<rparr>) = get_elem_map z" for m by (simp add: get_elem_map_def)
  from assms show ?thesis
    by (cases "b = e") (auto simp: set_dependency_on_def check_dependency_on_def and_get_elem_map bit_or_iff bit_get_elem_map n g simp flip: n)
qed

section \<open>Recursive elements through their life\<close>

text \<open>
  The elements \<open>es\<close> of the clause \<open>c\<close>, with the number \<open>N e\<close> and the mutually recursive elements \<open>G e\<close> of each.  The abstract state has the
  stabilised elements, those with a prepared anchor and the cleaned ones.
\<close>

record cte_sets =
  stable_elems :: "ptr set"
  anchored_elems :: "ptr set"
  cleaned_elems :: "ptr set"

datatype cte_op = Stabilise ptr | Unstabilise ptr | Anchor ptr | Clean ptr | Reset ptr

primrec cte_exec :: "cte_op \<Rightarrow> cte_heap \<Rightarrow> cte_heap option" where
  "cte_exec (Stabilise e) h = set_as_stabilized h e"
| "cte_exec (Unstabilise e) h = cleanup_stabilized h e"
| "cte_exec (Anchor e) h = mark_as_with_prepared_anchor h e"
| "cte_exec (Clean e) h = mark_as_cleaned h e"
| "cte_exec (Reset e) h = reset_recursive_for_exec h e"

primrec cte_aexec :: "(ptr \<Rightarrow> ptr set) \<Rightarrow> cte_op \<Rightarrow> cte_sets \<Rightarrow> cte_sets" where
  "cte_aexec G (Stabilise e) A = A\<lparr>stable_elems := insert e (stable_elems A)\<rparr>"
| "cte_aexec G (Unstabilise e) A = A\<lparr>stable_elems := stable_elems A - G e\<rparr>"
| "cte_aexec G (Anchor e) A = A\<lparr>anchored_elems := anchored_elems A \<union> G e\<rparr>"
| "cte_aexec G (Clean e) A = A\<lparr>cleaned_elems := insert e (cleaned_elems A)\<rparr>"
| "cte_aexec G (Reset e) A =
     A\<lparr>anchored_elems := anchored_elems A - G e, cleaned_elems := cleaned_elems A - {e}, stable_elems := stable_elems A - G e\<rparr>"

primrec cte_elem :: "cte_op \<Rightarrow> ptr" where
  "cte_elem (Stabilise e) = e"
| "cte_elem (Unstabilise e) = e"
| "cte_elem (Anchor e) = e"
| "cte_elem (Clean e) = e"
| "cte_elem (Reset e) = e"

definition elem_ok :: "ptr \<Rightarrow> (ptr \<Rightarrow> nat) \<Rightarrow> (ptr \<Rightarrow> ptr set) \<Rightarrow> cte_heap \<Rightarrow> ptr \<Rightarrow> With_element \<Rightarrow> bool" where
  "elem_ok c N G h e x \<longleftrightarrow> we_owner x = c \<and> unat (we_number x) = N e \<and> is_recursive x \<and> we_spec x \<noteq> 0 \<and> we_spec x \<in> dom (units h) \<and>
     (\<forall>i. bit (mutually_recursive x) i \<longleftrightarrow> i \<in> N ` G e)"

definition numbered :: "ptr list \<Rightarrow> (ptr \<Rightarrow> nat) \<Rightarrow> (ptr \<Rightarrow> ptr set) \<Rightarrow> bool" where
  "numbered es N G \<longleftrightarrow> inj_on N (set es) \<and> (\<forall>e\<in>set es. e \<noteq> 0 \<and> N e < max_number_of_elements_in_with_clause \<and> G e \<subseteq> set es)"

definition elems_ok :: "ptr \<Rightarrow> ptr list \<Rightarrow> (ptr \<Rightarrow> nat) \<Rightarrow> (ptr \<Rightarrow> ptr set) \<Rightarrow> cte_heap \<Rightarrow> bool" where
  "elems_ok c es N G h \<longleftrightarrow> (\<forall>e\<in>set es. \<exists>x. elems h e = Some x \<and> elem_ok c N G h e x)"

definition map_is :: "ptr list \<Rightarrow> (ptr \<Rightarrow> nat) \<Rightarrow> table_map \<Rightarrow> ptr set \<Rightarrow> bool" where
  "map_is es N m S \<longleftrightarrow> (\<forall>e\<in>set es. bit m (N e) \<longleftrightarrow> e \<in> S)"

definition clause_is :: "ptr list \<Rightarrow> (ptr \<Rightarrow> nat) \<Rightarrow> With_clause \<Rightarrow> cte_sets \<Rightarrow> bool" where
  "clause_is es N k A \<longleftrightarrow> map_is es N (stabilized k) (stable_elems A) \<and> map_is es N (with_prepared_anchor k) (anchored_elems A) \<and>
     map_is es N (wc_cleaned k) (cleaned_elems A)"

definition cte_rel :: "ptr \<Rightarrow> ptr list \<Rightarrow> (ptr \<Rightarrow> nat) \<Rightarrow> (ptr \<Rightarrow> ptr set) \<Rightarrow> cte_heap \<Rightarrow> cte_sets \<Rightarrow> bool" where
  "cte_rel c es N G h A \<longleftrightarrow> c \<noteq> 0 \<and> numbered es N G \<and> elems_ok c es N G h \<and> (\<exists>k. clauses h c = Some k \<and> clause_is es N k A)"

text \<open>Changes of a map and of a set of elements.\<close>

lemma map_is_insert:
  "numbered es N G \<Longrightarrow> e \<in> set es \<Longrightarrow> unat (we_number x) = N e \<Longrightarrow> map_is es N m S \<Longrightarrow> map_is es N (m OR get_elem_map x) (insert e S)"
  by (auto simp: map_is_def numbered_def bit_or_iff bit_get_elem_map max_number_of_elements_in_with_clause_def dest: inj_onD)

lemma map_is_remove:
  "numbered es N G \<Longrightarrow> e \<in> set es \<Longrightarrow> unat (we_number x) = N e \<Longrightarrow> map_is es N m S \<Longrightarrow> map_is es N (m AND NOT (get_elem_map x)) (S - {e})"
  by (auto simp: map_is_def numbered_def bit_and_iff bit_not_iff bit_get_elem_map max_number_of_elements_in_with_clause_def dest: inj_onD)

lemma number_in_group: "numbered es N G \<Longrightarrow> e \<in> set es \<Longrightarrow> a \<in> set es \<Longrightarrow> N a \<in> N ` G e \<longleftrightarrow> a \<in> G e"
  by (auto simp: numbered_def dest: inj_onD)

lemma map_is_group:
  assumes "numbered es N G" "e \<in> set es" "elem_ok c N G h e x" "map_is es N m S"
  shows "map_is es N (m OR mutually_recursive x) (S \<union> G e)" "map_is es N (m AND NOT (mutually_recursive x)) (S - G e)"
  using assms number_in_group [OF assms(1,2)]
  by (auto simp: map_is_def elem_ok_def bit_or_iff bit_and_iff bit_not_iff numbered_def max_number_of_elements_in_with_clause_def)

text \<open>What an element of the clause reads, and what it writes.\<close>

lemma cte_rel_elem:
  assumes "cte_rel c es N G h A" "e \<in> set es"
  obtains x k where "e \<noteq> 0" "elems h e = Some x" "elem_ok c N G h e x" "clauses h c = Some k" "clause_is es N k A" "c \<noteq> 0" "numbered es N G"
  using assms by (fastforce simp: cte_rel_def elems_ok_def numbered_def)

lemma elems_ok_level:
  "elems_ok c es N G h \<Longrightarrow> elems h e = Some x \<Longrightarrow> elems_ok c es N G (h\<lparr>elems := (elems h)(e \<mapsto> x\<lparr>we_level := l\<rparr>)\<rparr>)"
  by (fastforce simp: elems_ok_def elem_ok_def)

lemma cte_rel_level:
  "cte_rel c es N G h A \<Longrightarrow> elems h e = Some x \<Longrightarrow> cte_rel c es N G (h\<lparr>elems := (elems h)(e \<mapsto> x\<lparr>we_level := l\<rparr>)\<rparr>) A"
  by (auto simp: cte_rel_def elems_ok_level)

lemma cte_rel_units:
  "cte_rel c es N G h A \<Longrightarrow> cte_rel c es N G (h\<lparr>units := (units h)(u \<mapsto> v)\<rparr>) A"
  by (fastforce simp: cte_rel_def elems_ok_def elem_ok_def)

lemma cte_rel_tell:
  assumes "cte_rel c es N G h A" "e \<in> set es"
    and "\<And>x k. numbered es N G \<Longrightarrow> elem_ok c N G h e x \<Longrightarrow> clause_is es N k A \<Longrightarrow> clause_is es N (f x k) A'"
  shows "\<exists>h'. tell_owner f h e = Some h' \<and> cte_rel c es N G h' A' \<and> elems h' = elems h \<and> units h' = units h"
proof -
  from cte_rel_elem [OF assms(1,2)] obtain x k
    where e: "e \<noteq> 0" "elems h e = Some x" "elem_ok c N G h e x" "clauses h c = Some k" "clause_is es N k A" "c \<noteq> 0" "numbered es N G" .
  let ?h = "h\<lparr>clauses := (clauses h)(c \<mapsto> f x k)\<rparr>"
  have "we_owner x = c" using e(3) by (simp add: elem_ok_def)
  then have "tell_owner f h e = Some ?h" using e by (simp add: tell_owner_def)
  moreover have "elems_ok c es N G ?h" using assms(1) by (simp add: cte_rel_def elems_ok_def elem_ok_def)
  then have "cte_rel c es N G ?h A'" using e assms(3) by (simp add: cte_rel_def)
  ultimately show ?thesis by simp
qed

lemma clause_is_updates:
  assumes "numbered es N G" "e \<in> set es" "elem_ok c N G h e x" "clause_is es N k A"
  shows "clause_is es N (k\<lparr>stabilized := stabilized k OR get_elem_map x\<rparr>) (cte_aexec G (Stabilise e) A)"
    and "clause_is es N (k\<lparr>stabilized := stabilized k AND NOT (mutually_recursive x)\<rparr>) (cte_aexec G (Unstabilise e) A)"
    and "clause_is es N (k\<lparr>with_prepared_anchor := with_prepared_anchor k OR mutually_recursive x\<rparr>) (cte_aexec G (Anchor e) A)"
    and "clause_is es N (k\<lparr>wc_cleaned := wc_cleaned k OR get_elem_map x\<rparr>) (cte_aexec G (Clean e) A)"
    and "clause_is es N (k\<lparr>with_prepared_anchor := with_prepared_anchor k AND NOT (mutually_recursive x)\<rparr>) (A\<lparr>anchored_elems := anchored_elems A - G e\<rparr>)"
    and "clause_is es N (k\<lparr>wc_cleaned := wc_cleaned k AND NOT (get_elem_map x)\<rparr>) (A\<lparr>cleaned_elems := cleaned_elems A - {e}\<rparr>)"
proof -
  have "unat (we_number x) = N e" using assms(3) by (simp add: elem_ok_def)
  note upd = map_is_insert [OF assms(1,2) this] map_is_remove [OF assms(1,2) this] map_is_group [OF assms(1-3)]
  show "clause_is es N (k\<lparr>stabilized := stabilized k OR get_elem_map x\<rparr>) (cte_aexec G (Stabilise e) A)"
    "clause_is es N (k\<lparr>stabilized := stabilized k AND NOT (mutually_recursive x)\<rparr>) (cte_aexec G (Unstabilise e) A)"
    "clause_is es N (k\<lparr>with_prepared_anchor := with_prepared_anchor k OR mutually_recursive x\<rparr>) (cte_aexec G (Anchor e) A)"
    "clause_is es N (k\<lparr>wc_cleaned := wc_cleaned k OR get_elem_map x\<rparr>) (cte_aexec G (Clean e) A)"
    "clause_is es N (k\<lparr>with_prepared_anchor := with_prepared_anchor k AND NOT (mutually_recursive x)\<rparr>) (A\<lparr>anchored_elems := anchored_elems A - G e\<rparr>)"
    "clause_is es N (k\<lparr>wc_cleaned := wc_cleaned k AND NOT (get_elem_map x)\<rparr>) (A\<lparr>cleaned_elems := cleaned_elems A - {e}\<rparr>)"
    using assms(4) upd by (simp_all add: clause_is_def)
qed

lemma cte_rel_tells:
  assumes "cte_rel c es N G h A" "e \<in> set es"
  shows "\<exists>h'. set_as_stabilized h e = Some h' \<and> cte_rel c es N G h' (cte_aexec G (Stabilise e) A) \<and> elems h' = elems h \<and> units h' = units h"
    and "\<exists>h'. cleanup_stabilized h e = Some h' \<and> cte_rel c es N G h' (cte_aexec G (Unstabilise e) A) \<and> elems h' = elems h \<and> units h' = units h"
    and "\<exists>h'. mark_as_with_prepared_anchor h e = Some h' \<and> cte_rel c es N G h' (cte_aexec G (Anchor e) A) \<and> elems h' = elems h \<and> units h' = units h"
    and "\<exists>h'. mark_as_cleaned h e = Some h' \<and> cte_rel c es N G h' (cte_aexec G (Clean e) A) \<and> elems h' = elems h \<and> units h' = units h"
    and "\<exists>h'. tell_owner (\<lambda>x c. c\<lparr>with_prepared_anchor := with_prepared_anchor c AND NOT (mutually_recursive x)\<rparr>) h e = Some h' \<and>
      cte_rel c es N G h' (A\<lparr>anchored_elems := anchored_elems A - G e\<rparr>) \<and> elems h' = elems h \<and> units h' = units h"
    and "\<exists>h'. tell_owner (\<lambda>x c. c\<lparr>wc_cleaned := wc_cleaned c AND NOT (get_elem_map x)\<rparr>) h e = Some h' \<and>
      cte_rel c es N G h' (A\<lparr>cleaned_elems := cleaned_elems A - {e}\<rparr>) \<and> elems h' = elems h \<and> units h' = units h"
  unfolding set_as_stabilized_def cleanup_stabilized_def mark_as_with_prepared_anchor_def mark_as_cleaned_def
  by (rule cte_rel_tell [OF assms], rule clause_is_updates [OF _ assms(2)], assumption+)+

lemma cte_rel_reset:
  assumes "cte_rel c es N G h A" "e \<in> set es"
  shows "\<exists>h'. reset_recursive_for_exec h e = Some h' \<and> cte_rel c es N G h' (cte_aexec G (Reset e) A)"
proof -
  from cte_rel_elem [OF assms] obtain x where e: "e \<noteq> 0" "elems h e = Some x" "elem_ok c N G h e x" by metis
  then obtain u where u: "is_recursive x" "we_spec x \<noteq> 0" "units h (we_spec x) = Some u" by (auto simp: elem_ok_def)
  let ?h0 = "h\<lparr>elems := (elems h)(e \<mapsto> x\<lparr>we_level := 0\<rparr>)\<rparr>"
  from cte_rel_tells(5) [OF cte_rel_level [OF assms(1) e(2)] assms(2), of 0] obtain h1 where
    h1: "tell_owner (\<lambda>x c. c\<lparr>with_prepared_anchor := with_prepared_anchor c AND NOT (mutually_recursive x)\<rparr>) ?h0 e = Some h1"
    "cte_rel c es N G h1 (A\<lparr>anchored_elems := anchored_elems A - G e\<rparr>)" "units h1 = units h" by auto
  from cte_rel_tells(6) [OF h1(2) assms(2)] h1(3) obtain h2 where
    h2: "tell_owner (\<lambda>x c. c\<lparr>wc_cleaned := wc_cleaned c AND NOT (get_elem_map x)\<rparr>) h1 e = Some h2"
    "cte_rel c es N G h2 (A\<lparr>anchored_elems := anchored_elems A - G e, cleaned_elems := cleaned_elems A - {e}\<rparr>)" "units h2 = units h" by auto
  from cte_rel_tells(2) [OF h2(2) assms(2)] h2(3) obtain h3 where
    h3: "cleanup_stabilized h2 e = Some h3" "cte_rel c es N G h3 (cte_aexec G (Reset e) A)" "units h3 = units h" by auto
  show ?thesis using e u h1(1) h2(1) h3 cte_rel_units [OF h3(2)] by (simp add: reset_recursive_for_exec_def)
qed

lemma cte_step:
  assumes "cte_rel c es N G h A" "cte_elem op \<in> set es"
  shows "\<exists>h'. cte_exec op h = Some h' \<and> cte_rel c es N G h' (cte_aexec G op A)"
  using assms cte_rel_tells(1-4) [OF assms] cte_rel_reset [OF assms] by (cases op) auto

interpretation cte: progress_simulation cte_exec "cte_aexec G" "\<lambda>op A. cte_elem op \<in> set es" "cte_rel c es N G" for c es N G
  by unfold_locales (rule cte_step)

text \<open>The questions of an element, answered on the sets.\<close>

lemma cte_answers:
  assumes "cte_rel c es N G h A" "e \<in> set es"
  shows "is_stabilized h e = Some (e \<in> stable_elems A)" "is_with_prepared_anchor h e = Some (e \<in> anchored_elems A)"
    "is_cleaned h e = Some (e \<in> cleaned_elems A)" "all_are_stabilized h e = Some (G e \<subseteq> stable_elems A)"
proof -
  from cte_rel_elem [OF assms] obtain x k
    where e: "e \<noteq> 0" "elems h e = Some x" "elem_ok c N G h e x" "clauses h c = Some k" "clause_is es N k A" "c \<noteq> 0" "numbered es N G" .
  have x: "we_owner x = c" "unat (we_number x) = N e" "N e < 64" "G e \<subseteq> set es" "\<And>i. bit (mutually_recursive x) i \<longleftrightarrow> i \<in> N ` G e"
    using e(3,7) assms(2) by (auto simp: elem_ok_def numbered_def max_number_of_elements_in_with_clause_def)
  have k: "bit (stabilized k) (N a) \<longleftrightarrow> a \<in> stable_elems A" "bit (with_prepared_anchor k) (N a) \<longleftrightarrow> a \<in> anchored_elems A"
    "bit (wc_cleaned k) (N a) \<longleftrightarrow> a \<in> cleaned_elems A" if "a \<in> set es" for a
    using e(5) that by (auto simp: clause_is_def map_is_def)
  show "is_stabilized h e = Some (e \<in> stable_elems A)" "is_with_prepared_anchor h e = Some (e \<in> anchored_elems A)" "is_cleaned h e = Some (e \<in> cleaned_elems A)"
    using e x k [OF assms(2)]
    by (simp_all add: is_stabilized_def is_with_prepared_anchor_def is_cleaned_def ask_owner_def and_get_elem_map)
  have "stabilized k AND mutually_recursive x = mutually_recursive x \<longleftrightarrow> (\<forall>i. i \<in> N ` G e \<longrightarrow> bit (stabilized k) i)"
    by (simp add: and_eq_self x(5))
  also have "\<dots> \<longleftrightarrow> (\<forall>a\<in>G e. bit (stabilized k) (N a))" by blast
  also have "\<dots> \<longleftrightarrow> G e \<subseteq> stable_elems A" using k(1) x(4) by blast
  finally show "all_are_stabilized h e = Some (G e \<subseteq> stable_elems A)" using e x(1) by (simp add: all_are_stabilized_def ask_owner_def)
qed

text \<open>
  C11: The maps of a WITH clause follow sets of elements.  Run any calls of set_as_stabilized, cleanup_stabilized, mark_as_with_prepared_anchor,
  mark_as_cleaned and reset_recursive_for_exec on the elements of the clause: all of them return, and afterwards every element answers is_stabilized,
  is_with_prepared_anchor and is_cleaned by its membership in the sets those calls build, and all_are_stabilized exactly when every element that is
  mutually recursive with it is stabilised.
\<close>

theorem recursive_elements_refine_sets:
  assumes "cte_rel c es N G h A" "\<forall>op\<in>set ops. cte_elem op \<in> set es" "e \<in> set es"
  shows "\<exists>h'. run_opt cte_exec ops h = Some h' \<and> is_stabilized h' e = Some (e \<in> stable_elems (fold (cte_aexec G) ops A)) \<and>
    is_with_prepared_anchor h' e = Some (e \<in> anchored_elems (fold (cte_aexec G) ops A)) \<and> is_cleaned h' e = Some (e \<in> cleaned_elems (fold (cte_aexec G) ops A)) \<and>
    all_are_stabilized h' e = Some (G e \<subseteq> stable_elems (fold (cte_aexec G) ops A))"
proof -
  have "allowed (\<lambda>op A. cte_elem op \<in> set es) (cte_aexec G) ops A" using assms(2) by (simp add: allowed_all)
  from cte.run [OF assms(1) this] obtain h' where h': "run_opt cte_exec ops h = Some h'" "cte_rel c es N G h' (fold (cte_aexec G) ops A)" by blast
  from cte_answers [OF h'(2) assms(3)] h'(1) show ?thesis by simp
qed

section \<open>Restarting the tables of the other elements\<close>

text \<open>From \<open>a\<close> the links lead through \<open>ps\<close> to \<open>b\<close>.\<close>

fun linked :: "With_element node_heap \<Rightarrow> ptr \<Rightarrow> ptr list \<Rightarrow> ptr \<Rightarrow> bool" where
  "linked es a [] b \<longleftrightarrow> (case read_node es a of None \<Rightarrow> False | Some x \<Rightarrow> next_mutually_recursive x = b)"
| "linked es a (p # ps) b \<longleftrightarrow> (case read_node es a of None \<Rightarrow> False | Some x \<Rightarrow> next_mutually_recursive x = p \<and> linked es p ps b)"

text \<open>The join table an element updates first, if it has one, and whether it can be reached.\<close>

definition join_tab_of :: "cte_heap \<Rightarrow> ptr \<Rightarrow> ptr option option" where
  "join_tab_of h e =
     do { y \<leftarrow> read_node (elems h) e; t \<leftarrow> read_node (first_rec_table_to_update h) (rec_result y);
          if t \<noteq> 0 then map_option Some (read_node (reginfo_join_tab h) t) else Some None }"

definition join_tab_live :: "cte_heap \<Rightarrow> ptr \<Rightarrow> bool" where
  "join_tab_live h e \<longleftrightarrow> (case join_tab_of h e of None \<Rightarrow> False | Some None \<Rightarrow> True | Some (Some j) \<Rightarrow> j \<noteq> 0 \<and> preread_init_done h j \<noteq> None)"

definition restarted :: "cte_heap \<Rightarrow> ptr list \<Rightarrow> cte_heap" where
  "restarted h ps = h\<lparr>preread_init_done := (\<lambda>j. if Some (Some j) \<in> join_tab_of h ` set ps then Some False else preread_init_done h j)\<rparr>"

lemma forget_preread_eq:
  assumes "join_tab_live h e"
  shows "forget_preread h e = Some (restarted h [e])"
proof -
  obtain y t where y: "read_node (elems h) e = Some y" "read_node (first_rec_table_to_update h) (rec_result y) = Some t"
    using assms by (auto simp: join_tab_live_def join_tab_of_def bind_eq_Some_conv split: option.splits)
  show ?thesis
  proof (cases "t = 0")
    case True
    then show ?thesis using y by (simp add: forget_preread_def restarted_def join_tab_of_def)
  next
    case False
    then obtain j d where "read_node (reginfo_join_tab h) t = Some j" "j \<noteq> 0" "preread_init_done h j = Some d"
      using assms y by (auto simp: join_tab_live_def join_tab_of_def split: option.splits)
    then show ?thesis using y False
      by (simp add: forget_preread_def restarted_def join_tab_of_def) (rule arg_cong [where f = "\<lambda>d. h\<lparr>preread_init_done := d\<rparr>"], auto simp: fun_eq_iff)
  qed
qed

lemma join_tab_of_preread: "join_tab_of (h\<lparr>preread_init_done := d\<rparr>) = join_tab_of h"
  by (simp add: join_tab_of_def fun_eq_iff cong: if_cong)

lemma restarted_reads [simp]: "elems (restarted h ps) = elems h" "join_tab_of (restarted h ps) = join_tab_of h"
  by (simp_all add: restarted_def join_tab_of_preread)

lemma restarted_live: "join_tab_live h e \<Longrightarrow> join_tab_live (restarted h ps) e"
  by (auto simp: join_tab_live_def split: option.splits) (auto simp: restarted_def split: if_splits)

lemma restarted_twice: "restarted (restarted h [p]) ps = restarted h (p # ps)"
  by (simp add: restarted_def join_tab_of_preread) (auto simp: fun_eq_iff)

lemma next_iteration_loop_linked:
  "linked (elems h) a ps this \<Longrightarrow> this \<notin> set ps \<Longrightarrow> \<forall>p\<in>set ps. join_tab_live h p \<Longrightarrow> next_iteration_loop h this a = Some (restarted h ps)"
proof (induction ps arbitrary: h a)
  case Nil
  then show ?case by (auto simp: next_iteration_loop.simps [of h this a] restarted_def split: option.splits)
next
  case (Cons p ps)
  then show ?case
    by (auto simp: next_iteration_loop.simps [of h this a] forget_preread_eq restarted_live restarted_twice split: option.splits)
qed

text \<open>The walk returns on a circle only: a chain that ends, or that runs into a circle without the element, has no result.\<close>

lemma forget_preread_elems: "forget_preread h e = Some h1 \<Longrightarrow> elems h1 = elems h"
  by (auto simp: forget_preread_def bind_eq_Some_conv split: if_splits)

lemma next_iteration_returns_on_circle:
  assumes "next_iteration_loop h this a = Some h'"
  shows "\<exists>ps. linked (elems h) a ps this \<and> this \<notin> set ps"
proof (rule next_iteration_loop.raw_induct [OF _ assms, where P = "\<lambda>h this a h'. \<exists>ps. linked (elems h) a ps this \<and> this \<notin> set ps"])
  fix loop h this a h'
  assume IH: "\<And>h this a h'. loop h this a = Some h' \<Longrightarrow> \<exists>ps. linked (elems h) a ps this \<and> this \<notin> set ps"
    and "(read_node (elems h) a \<bind> (\<lambda>x. if next_mutually_recursive x \<noteq> this
      then forget_preread h (next_mutually_recursive x) \<bind> (\<lambda>h1. loop h1 this (next_mutually_recursive x)) else Some h)) = Some h'"
  then obtain x where x: "read_node (elems h) a = Some x"
    "next_mutually_recursive x = this \<or> (\<exists>h1. forget_preread h (next_mutually_recursive x) = Some h1 \<and> loop h1 this (next_mutually_recursive x) = Some h')"
    "next_mutually_recursive x \<noteq> this \<or> h' = h"
    by (auto simp: bind_eq_Some_conv split: if_splits)
  show "\<exists>ps. linked (elems h) a ps this \<and> this \<notin> set ps"
  proof (cases "next_mutually_recursive x = this")
    case True
    then show ?thesis using x(1) by (intro exI [of _ "[]"]) simp
  next
    case False
    with x(2) obtain h1 where h1: "forget_preread h (next_mutually_recursive x) = Some h1" "loop h1 this (next_mutually_recursive x) = Some h'" by blast
    from IH [OF h1(2)] forget_preread_elems [OF h1(1)] obtain ps where "linked (elems h) (next_mutually_recursive x) ps this" "this \<notin> set ps" by auto
    then show ?thesis using x(1) False by (intro exI [of _ "next_mutually_recursive x # ps"]) auto
  qed
qed

text \<open>
  C20: On the circle of mutually recursive elements through an element, prepare_for_next_iteration returns, and marks as not yet read exactly the join tables
  that the other elements of the circle update first, with nothing else changed.
\<close>

theorem next_iteration_restarts_others:
  assumes "linked (elems h) e ps e" "e \<notin> set ps" "\<forall>p\<in>set ps. join_tab_live h p"
  shows "prepare_for_next_iteration h e = Some (restarted h ps)"
  unfolding prepare_for_next_iteration_def using assms by (rule next_iteration_loop_linked)

section \<open>Order of the clauses of a statement\<close>

definition clauses_are :: "ptr set \<Rightarrow> cte_heap \<Rightarrow> ptr list \<Rightarrow> bool" where
  "clauses_are C h ds \<longleftrightarrow> distinct ds \<and> set ds \<subseteq> C \<and> chain next_with_clause (clauses h) (with_clauses_list h) ds \<and>
     clauses_last_next h = (if ds = [] then Clauses_list else Link_of (last ds)) \<and>
     (\<forall>c\<in>C - set ds. c \<noteq> 0 \<and> (\<exists>k. clauses h c = Some k \<and> next_with_clause k = 0))"

lemma add_to_list_step:
  assumes "clauses_are C h ds" "c \<in> C \<and> c \<notin> set ds"
  shows "\<exists>h'. add_to_list c h = Some h' \<and> clauses_are C h' (ds @ [c])"
proof -
  from assms obtain k where k: "c \<noteq> 0" "clauses h c = Some k" "next_with_clause k = 0" by (auto simp: clauses_are_def)
  show ?thesis
  proof (cases ds rule: rev_cases)
    case Nil
    then show ?thesis using assms k by (auto simp: clauses_are_def add_to_list_def)
  next
    case (snoc as a)
    then have ch: "chain next_with_clause (clauses h) (with_clauses_list h) (as @ [a])" "distinct (as @ [a, c])" "clauses_last_next h = Link_of a"
      using assms by (auto simp: clauses_are_def)
    from chain_last_next [OF ch(1)] chain_live [OF ch(1)] obtain n where n: "clauses h a = Some n" "a \<noteq> 0" by auto
    let ?n = "n\<lparr>next_with_clause := c\<rparr>"
    have "chain next_with_clause ((clauses h)(a \<mapsto> ?n, c \<mapsto> k)) (with_clauses_list h) (as @ [a, c])"
      using ch(2,1) n(1) _ k(1,3) by (rule chain_snoc) simp
    moreover have "(clauses h)(a \<mapsto> ?n, c \<mapsto> k) = (clauses h)(a \<mapsto> ?n)" using k(2) ch(2) by (auto simp: fun_eq_iff)
    ultimately show ?thesis using assms k n ch snoc by (auto simp: clauses_are_def add_to_list_def)
  qed
qed

interpretation clause_list: progress_simulation add_to_list "\<lambda>c ds. ds @ [c]" "\<lambda>c ds. c \<in> C \<and> c \<notin> set ds" "clauses_are C" for C
  by unfold_locales (rule add_to_list_step)

lemma appended_in_order: "distinct (ds @ cs) \<Longrightarrow> set cs \<subseteq> C \<Longrightarrow> allowed (\<lambda>c ds. c \<in> C \<and> c \<notin> set ds) (\<lambda>c ds. ds @ [c]) cs ds \<and> fold (\<lambda>c ds. ds @ [c]) cs ds = ds @ cs"
  by (induction cs arbitrary: ds) auto

text \<open>The clauses of a statement form the list in the order they were added, and the place for the next one is the link of the last.\<close>

lemma clauses_of_statement:
  assumes "distinct cs" "with_clauses_list h = 0" "clauses_last_next h = Clauses_list"
    and "\<forall>c\<in>set cs. c \<noteq> 0 \<and> (\<exists>k. clauses h c = Some k \<and> next_with_clause k = 0)"
  shows "\<exists>h'. run_opt add_to_list cs h = Some h' \<and> clauses_are (set cs) h' cs"
proof -
  have "clauses_are (set cs) h []" using assms by (simp add: clauses_are_def)
  from clause_list.run [OF this, of cs] appended_in_order [of "[]" cs "set cs"] assms(1) show ?thesis by simp
qed

section \<open>Clauses of units\<close>

text \<open>A unit and its clause name each other after either setter; a null clause detaches the unit and changes no clause.\<close>

lemma set_with_clause_links:
  assumes "select_master h s = Some u" "s \<noteq> 0" "u \<noteq> 0" "units h u = Some v" "c = 0 \<or> clauses h c = Some k"
  shows "select_set_with_clause h s c = unit_set_with_clause h u c"
    and "\<exists>h'. select_set_with_clause h s c = Some h' \<and> get_with_clause h' s = Some c \<and> get_with_element h' s = get_with_element h s \<and>
      (if c = 0 then clauses h' = clauses h else clauses h' c = Some (k\<lparr>wc_owner := u\<rparr>))"
  using assms
  by (auto simp: select_set_with_clause_def unit_set_with_clause_def set_owner_def get_with_clause_def get_with_element_def)

text \<open>A new element is registered in its unit and has no dependency and no reference.\<close>

lemma new_element:
  assumes "e \<noteq> 0" "elems h e = Some x" "u \<noteq> 0" "units h u = Some v"
  shows "\<exists>h' y. With_element_new h e name cols u = Some h' \<and> elems h' e = Some y \<and> map_option unit_with_element (units h' u) = Some e \<and> we_spec y = u \<and>
    \<not> is_referenced y \<and> is_referenced (inc_references y) \<and> \<not> contains_sq_with_recursive_reference y \<and> no_rec_ref_on_top_level y \<and>
    check_dependency_on h' e e = Some False"
  using assms
  by (auto simp: With_element_new_def is_referenced_def inc_references_def contains_sq_with_recursive_reference_def no_rec_ref_on_top_level_def
      check_dependency_on_def)

text \<open>The counter of references wraps around: an element that was referenced \<open>2 ^ 32\<close> times counts as unreferenced.\<close>

lemma references_wrap: "we_references ((inc_references ^^ n) x) = we_references x + of_nat n"
  by (induction n) (simp_all add: inc_references_def add.assoc)

section \<open>Instances\<close>

text \<open>
  Two elements that recurse through each other, with numbers 0 and 1, and a third one that recurses alone with number 2; all specified by units of their own.
\<close>

definition sample_element :: "uint32 \<Rightarrow> ptr \<Rightarrow> table_map \<Rightarrow> ptr \<Rightarrow> ptr \<Rightarrow> With_element" where
  "sample_element n unit mutual nxt res =
     \<lparr>we_owner = 20, we_next = 0, we_number = n, we_elem_map = 0, base_dep_map = 0, derived_dep_map = 0, sq_dep_map = 0, work_dep_map = 0,
      mutually_recursive = mutual, top_level_dep_map = 0, sq_rec_ref = 0, next_mutually_recursive = nxt, we_references = 0, unparsed_spec = (0, 0),
      unparsed_spec_offset = 0, stmt_prepare_mode = False, query_name = 0, column_list = [], we_spec = unit, is_recursive = True,
      rec_outer_references = 0, with_anchor = True, first_recursive = 0, we_level = 0, rec_result = res\<rparr>"

definition sample_cte :: cte_heap where
  "sample_cte =
     \<lparr>elems = [1 \<mapsto> sample_element 0 31 3 2 41, 2 \<mapsto> sample_element 1 32 3 1 42, 3 \<mapsto> sample_element 2 33 4 3 43],
      clauses = [20 \<mapsto> With_clause_new True 0],
      units = [31 \<mapsto> \<lparr>unit_with_clause = 0, unit_with_element = 1, columns_are_renamed = True\<rparr>,
               32 \<mapsto> \<lparr>unit_with_clause = 0, unit_with_element = 2, columns_are_renamed = True\<rparr>,
               33 \<mapsto> \<lparr>unit_with_clause = 0, unit_with_element = 3, columns_are_renamed = True\<rparr>],
      select_master = Map.empty, first_rec_table_to_update = [41 \<mapsto> 51, 42 \<mapsto> 52, 43 \<mapsto> 0],
      reginfo_join_tab = [51 \<mapsto> 61, 52 \<mapsto> 62], preread_init_done = [61 \<mapsto> True, 62 \<mapsto> True], with_clauses_list = 0, clauses_last_next = Clauses_list\<rparr>"

lemma bits_of_3_4: "bit (3 :: int) i \<longleftrightarrow> i = 0 \<or> i = Suc 0" "bit (4 :: int) i \<longleftrightarrow> i = 2"
proof -
  show "bit (3 :: int) i \<longleftrightarrow> i = 0 \<or> i = Suc 0" by (cases i; cases "i - 1") (simp_all add: bit_Suc bit_0)
  show "bit (4 :: int) i \<longleftrightarrow> i = 2" using bit_exp_iff [of 2 i, where 'a = int] by auto
qed

lemma sample_cte_rel:
  "cte_rel 20 [1, 2, 3] (\<lambda>e. e - 1) (\<lambda>e. if e = 3 then {3} else {1, 2}) sample_cte \<lparr>stable_elems = {}, anchored_elems = {}, cleaned_elems = {}\<rparr>"
  by (simp add: cte_rel_def numbered_def max_number_of_elements_in_with_clause_def elems_ok_def elem_ok_def sample_cte_def sample_element_def
      clause_is_def map_is_def With_clause_new_def inj_on_def bits_of_3_4 insert_commute) auto

theorem recursive_elements_refine_sets_witness:
  "\<exists>h'. run_opt cte_exec [Stabilise 1, Stabilise 3, Stabilise 2, Clean 2] sample_cte = Some h' \<and> all_are_stabilized h' 1 = Some True \<and>
    is_cleaned h' 1 = Some False"
  using recursive_elements_refine_sets [OF sample_cte_rel, of "[Stabilise 1, Stabilise 3, Stabilise 2, Clean 2]" 1] by auto

theorem next_iteration_restarts_others_witness:
  "\<exists>h'. prepare_for_next_iteration sample_cte 1 = Some h' \<and> preread_init_done h' 62 = Some False \<and> preread_init_done h' 61 = Some True"
proof -
  have "prepare_for_next_iteration sample_cte 1 = Some (restarted sample_cte [2])"
    by (rule next_iteration_restarts_others)
      (simp_all add: sample_cte_def sample_element_def join_tab_live_def join_tab_of_def read_node_def)
  moreover have "preread_init_done (restarted sample_cte [2]) 62 = Some False" "preread_init_done (restarted sample_cte [2]) 61 = Some True"
    by (simp_all add: restarted_def sample_cte_def sample_element_def join_tab_of_def read_node_def)
  ultimately show ?thesis by blast
qed

end
