(* ===== verification/JoinCache.thy ===== *)
theory JoinCache
  imports ByteOrder NodeHeap
begin

text \<open>
  Join buffers (\<^verbatim>\<open>sql_join_cache.h\<close>): the offsets that link records, fields and keys inside the buffer, the hash table of keys at its end, the space left
  and the auxiliary buffer, the four algorithms as extensions of one record, and the links between caches.  The buffer is byte-addressed memory and the numbers
  in it are written with the functions of \<open>ByteOrder\<close>.  Writing and reading whole records, and the search for keys, are compiled code.
\<close>

section \<open>Caches\<close>

definition JOIN_CACHE_INCREMENTAL_BIT :: uint32 where "JOIN_CACHE_INCREMENTAL_BIT = 1"
definition JOIN_CACHE_HASHED_BIT :: uint32 where "JOIN_CACHE_HASHED_BIT = 2"
definition JOIN_CACHE_BKA_BIT :: uint32 where "JOIN_CACHE_BKA_BIT = 4"

datatype Join_algorithm = BNL_JOIN_ALG | BNLH_JOIN_ALG | BKA_JOIN_ALG | BKAH_JOIN_ALG

datatype Match_flag = MATCH_NOT_FOUND | MATCH_FOUND | MATCH_IMPOSSIBLE

record JOIN_CACHE =
  size_of_rec_ofs :: uint32
  size_of_rec_len :: uint32
  size_of_fld_ofs :: uint32
  for_explain_only :: bool
  jc_length :: uint32
  jc_join :: ptr
  start_tab :: ptr
  jc_fields :: uint32
  flag_fields :: uint32
  jc_blobs :: uint32
  referenced_fields :: uint32
  data_field_count :: uint32
  data_field_ptr_count :: uint32
  field_descr :: ptr
  blob_ptr :: ptr
  with_match_flag :: bool
  jc_with_length :: bool
  jc_pack_length :: uint32
  pack_length_with_blob_ptrs :: uint32
  base_prefix_length :: uint32
  avg_record_length :: uint64
  avg_aux_buffer_incr :: uint64
  space_per_record :: uint64
  jc_buff :: ptr
  jc_buff_size :: uint64
  min_buff_size :: uint64
  max_buff_size :: uint64
  aux_buff_size :: uint64
  jc_records :: uint64
  min_records :: uint64
  max_records :: uint64
  jc_pos :: ptr
  jc_end_pos :: ptr
  curr_rec_pos :: ptr
  last_rec_pos :: ptr
  last_rec_blob_data_is_in_rec_buff :: bool
  curr_rec_link :: ptr
  last_written_is_null_compl :: bool
  local_key_arg_fields :: uint32
  external_key_arg_fields :: uint32
  use_emb_key :: bool
  emb_key_length :: uint32
  join_tab_scan :: ptr
  jc_join_tab :: ptr
  prev_cache :: ptr
  next_cache :: ptr

record JOIN_CACHE_HASHED = JOIN_CACHE +
  size_of_key_ofs :: uint32
  key_entry_length :: uint32
  hash_table :: ptr
  hash_entries :: uint32
  curr_key_entry :: ptr
  data_fields_offset :: uint32
  jc_key_length :: uint32
  key_buff :: ptr
  key_entries :: uint32
  last_key_entry :: ptr
  rec_fields_offset :: uint32

record JOIN_CACHE_BKA = JOIN_CACHE +
  bka_mrr_mode :: uint32
  bka_rem_records :: uint32
  curr_association :: ptr

record HANDLER_BUFFER =
  hb_buffer :: ptr
  hb_buffer_end :: ptr
  hb_end_of_used_area :: ptr

section \<open>Offsets in the buffer\<close>

definition offset_size :: "uint64 \<Rightarrow> uint32" where
  "offset_size len = (if len < 256 then 1 else if len < 256 * 256 then 2 else 4)"

definition get_offset :: "mem \<Rightarrow> uint32 \<Rightarrow> ptr \<Rightarrow> ulong" where
  "get_offset m ofs_sz p =
     (if ofs_sz = 1 then ucast (m p) else if ofs_sz = 2 then ucast (uint2korr m p) else if ofs_sz = 4 then uint4korr m p else 0)"

definition store_offset :: "mem \<Rightarrow> uint32 \<Rightarrow> ptr \<Rightarrow> ulong \<Rightarrow> mem" where
  "store_offset m ofs_sz p ofs =
     (if ofs_sz = 1 then m(p := ucast ofs)
      else if ofs_sz = 2 then int2store m p (ucast (ucast ofs :: uint16))
      else if ofs_sz = 4 then int4store m p ofs
      else m)"

text \<open>The difference of two pointers as a \<open>size_t\<close> and converted to \<open>ulong\<close>.\<close>

definition ptr_diff :: "ptr \<Rightarrow> ptr \<Rightarrow> uint64" where
  "ptr_diff p q = of_int (int p - int q)"

definition ulong_diff :: "ptr \<Rightarrow> ptr \<Rightarrow> ulong" where
  "ulong_diff p q = ucast (ptr_diff p q)"

definition get_rec_ref :: "'a JOIN_CACHE_scheme \<Rightarrow> mem \<Rightarrow> ptr \<Rightarrow> ptr" where
  "get_rec_ref c m p = jc_buff c + unat (get_offset m (size_of_rec_ofs c) (p - unat (size_of_rec_ofs c)))"

definition get_rec_length :: "'a JOIN_CACHE_scheme \<Rightarrow> mem \<Rightarrow> ptr \<Rightarrow> ulong" where
  "get_rec_length c m p = get_offset m (size_of_rec_len c) p"

definition get_fld_offset :: "'a JOIN_CACHE_scheme \<Rightarrow> mem \<Rightarrow> ptr \<Rightarrow> ulong" where
  "get_fld_offset c m p = get_offset m (size_of_fld_ofs c) p"

definition store_rec_ref :: "'a JOIN_CACHE_scheme \<Rightarrow> mem \<Rightarrow> ptr \<Rightarrow> ptr \<Rightarrow> mem" where
  "store_rec_ref c m p ref = store_offset m (size_of_rec_ofs c) (p - unat (size_of_rec_ofs c)) (ulong_diff ref (jc_buff c))"

definition store_rec_length :: "'a JOIN_CACHE_scheme \<Rightarrow> mem \<Rightarrow> ptr \<Rightarrow> ulong \<Rightarrow> mem" where
  "store_rec_length c m p len = store_offset m (size_of_rec_len c) p len"

definition store_fld_offset :: "'a JOIN_CACHE_scheme \<Rightarrow> mem \<Rightarrow> ptr \<Rightarrow> ulong \<Rightarrow> mem" where
  "store_fld_offset c m p ofs = store_offset m (size_of_fld_ofs c) p ofs"

text \<open>The hashed caches: key entries are named by their distance before the hash table, records by their distance from the start of the buffer.\<close>

definition get_next_key_ref :: "'a JOIN_CACHE_HASHED_scheme \<Rightarrow> mem \<Rightarrow> ptr \<Rightarrow> ptr" where
  "get_next_key_ref c m key_ref_ptr = hash_table c - unat (get_offset m (size_of_key_ofs c) key_ref_ptr)"

definition store_next_key_ref :: "'a JOIN_CACHE_HASHED_scheme \<Rightarrow> mem \<Rightarrow> ptr \<Rightarrow> ptr \<Rightarrow> mem" where
  "store_next_key_ref c m key_ref_ptr ref = store_offset m (size_of_key_ofs c) key_ref_ptr (ulong_diff (hash_table c) ref)"

definition is_null_key_ref :: "'a JOIN_CACHE_HASHED_scheme \<Rightarrow> mem \<Rightarrow> ptr \<Rightarrow> bool" where
  "is_null_key_ref c m key_ref_ptr \<longleftrightarrow> bytes_at m key_ref_ptr (unat (size_of_key_ofs c)) = le_bytes (unat (size_of_key_ofs c)) 0"

definition store_null_key_ref :: "'a JOIN_CACHE_HASHED_scheme \<Rightarrow> mem \<Rightarrow> ptr \<Rightarrow> mem" where
  "store_null_key_ref c m key_ref_ptr = store_offset m (size_of_key_ofs c) key_ref_ptr 0"

definition get_next_rec_ref :: "'a JOIN_CACHE_HASHED_scheme \<Rightarrow> mem \<Rightarrow> ptr \<Rightarrow> ptr" where
  "get_next_rec_ref c m ref_ptr = jc_buff c + unat (get_offset m (size_of_rec_ofs c) ref_ptr)"

definition store_next_rec_ref :: "'a JOIN_CACHE_HASHED_scheme \<Rightarrow> mem \<Rightarrow> ptr \<Rightarrow> ptr \<Rightarrow> mem" where
  "store_next_rec_ref c m ref_ptr ref = store_offset m (size_of_rec_ofs c) ref_ptr (ulong_diff ref (jc_buff c))"

definition get_curr_rec :: "'a JOIN_CACHE_scheme \<Rightarrow> ptr" where "get_curr_rec c = curr_rec_pos c"

definition get_curr_emb_key :: "'a JOIN_CACHE_HASHED_scheme \<Rightarrow> ptr" where
  "get_curr_emb_key c = get_curr_rec c + unat (data_fields_offset c)"

definition get_emb_key :: "'a JOIN_CACHE_HASHED_scheme \<Rightarrow> mem \<Rightarrow> ptr \<Rightarrow> ptr" where
  "get_emb_key c m ref_ptr = jc_buff c + unat (get_offset m (size_of_rec_ofs c) ref_ptr)"

definition store_emb_key_ref :: "'a JOIN_CACHE_HASHED_scheme \<Rightarrow> mem \<Rightarrow> ptr \<Rightarrow> ptr \<Rightarrow> mem" where
  "store_emb_key_ref c m ref_ptr ref = store_offset m (size_of_rec_ofs c) ref_ptr (ulong_diff ref (jc_buff c))"

definition get_curr_key_chain :: "'a JOIN_CACHE_HASHED_scheme \<Rightarrow> mem \<Rightarrow> ptr" where
  "get_curr_key_chain c m = get_next_rec_ref c m (curr_key_entry c + unat (key_entry_length c) - unat (size_of_rec_ofs c))"

section \<open>Space, prefixes and the auxiliary buffer\<close>

definition get_prefix_length :: "'a JOIN_CACHE_scheme \<Rightarrow> uint32" where "get_prefix_length c = base_prefix_length c"

definition hashed_get_prefix_length :: "'a JOIN_CACHE_HASHED_scheme \<Rightarrow> uint32" where
  "hashed_get_prefix_length c = base_prefix_length c + size_of_rec_ofs c"

definition extra_key_length :: "'a JOIN_CACHE_scheme \<Rightarrow> uint32" where "extra_key_length c = 0"

definition hashed_extra_key_length :: "'a JOIN_CACHE_HASHED_scheme \<Rightarrow> uint32" where "hashed_extra_key_length c = key_entry_length c"

text \<open>The operands of \<open>MY_MAX\<close> are unsigned, since one of them is a \<open>size_t\<close>.\<close>

definition rem_space :: "'a JOIN_CACHE_scheme \<Rightarrow> uint64" where
  "rem_space c = max (jc_buff_size c - ptr_diff (jc_end_pos c) (jc_buff c) - aux_buff_size c) 0"

definition hashed_rem_space :: "'a JOIN_CACHE_HASHED_scheme \<Rightarrow> uint64" where
  "hashed_rem_space c = max (ptr_diff (last_key_entry c) (jc_end_pos c) - aux_buff_size c) 0"

definition bka_setup_aux_buffer :: "'a JOIN_CACHE_scheme \<Rightarrow> HANDLER_BUFFER \<Rightarrow> HANDLER_BUFFER" where
  "bka_setup_aux_buffer c aux_buff = aux_buff\<lparr>hb_buffer := jc_end_pos c, hb_buffer_end := jc_buff c + unat (jc_buff_size c)\<rparr>"

definition bkah_setup_aux_buffer :: "'a JOIN_CACHE_HASHED_scheme \<Rightarrow> HANDLER_BUFFER \<Rightarrow> HANDLER_BUFFER" where
  "bkah_setup_aux_buffer c aux_buff = aux_buff\<lparr>hb_buffer := jc_end_pos c, hb_buffer_end := last_key_entry c\<rparr>"

text \<open>The virtual functions of the four algorithms.\<close>

definition get_number_of_ranges_for_mrr :: "Join_algorithm \<Rightarrow> 'a JOIN_CACHE_HASHED_scheme \<Rightarrow> uint32" where
  "get_number_of_ranges_for_mrr alg c =
     (case alg of BKA_JOIN_ALG \<Rightarrow> ucast (jc_records c) | BKAH_JOIN_ALG \<Rightarrow> key_entries c | _ \<Rightarrow> 0)"

definition is_key_access :: "Join_algorithm \<Rightarrow> bool" where
  "is_key_access alg = (case alg of BNL_JOIN_ALG \<Rightarrow> False | _ \<Rightarrow> True)"

definition jc_setup_aux_buffer :: "Join_algorithm \<Rightarrow> 'a JOIN_CACHE_HASHED_scheme \<Rightarrow> HANDLER_BUFFER \<Rightarrow> HANDLER_BUFFER option" where
  "jc_setup_aux_buffer alg c aux_buff =
     (case alg of BKA_JOIN_ALG \<Rightarrow> Some (bka_setup_aux_buffer c aux_buff)
      | BKAH_JOIN_ALG \<Rightarrow> Some (bkah_setup_aux_buffer c aux_buff)
      | _ \<Rightarrow> do { DBUG_ASSERT False; Some aux_buff })"

section \<open>The current record and the life of a cache\<close>

definition blob_data_is_in_rec_buff :: "'a JOIN_CACHE_scheme \<Rightarrow> ptr \<Rightarrow> bool" where
  "blob_data_is_in_rec_buff c rec_ptr \<longleftrightarrow> rec_ptr = last_rec_pos c \<and> last_rec_blob_data_is_in_rec_buff c"

definition set_curr_rec_link :: "'a JOIN_CACHE_scheme \<Rightarrow> ptr \<Rightarrow> 'a JOIN_CACHE_scheme" where
  "set_curr_rec_link c link = c\<lparr>curr_rec_link := link\<rparr>"

definition get_curr_rec_link :: "'a JOIN_CACHE_scheme \<Rightarrow> ptr" where
  "get_curr_rec_link c = (if curr_rec_link c \<noteq> 0 then curr_rec_link c else get_curr_rec c)"

definition set_join_buffer_size :: "'a JOIN_CACHE_scheme \<Rightarrow> uint64 \<Rightarrow> 'a JOIN_CACHE_scheme" where
  "set_join_buffer_size c sz = c\<lparr>jc_buff_size := sz\<rparr>"

definition reset_join :: "'a JOIN_CACHE_scheme \<Rightarrow> ptr \<Rightarrow> 'a JOIN_CACHE_scheme" where "reset_join c j = c\<lparr>jc_join := j\<rparr>"

definition jc_free :: "('h \<Rightarrow> ptr \<Rightarrow> 'h) \<Rightarrow> 'h \<Rightarrow> 'a JOIN_CACHE_scheme \<Rightarrow> 'h \<times> 'a JOIN_CACHE_scheme" where
  "jc_free my_free h c = (my_free h (jc_buff c), c\<lparr>jc_buff := 0\<rparr>)"

text \<open>The constructors, in a heap of caches since the linked one changes the previous cache; the copy of a BKA cache links itself in place of the original.\<close>

definition join_cache_new :: "JOIN_CACHE_BKA node_heap \<Rightarrow> ptr \<Rightarrow> ptr \<Rightarrow> ptr \<Rightarrow> JOIN_CACHE_BKA node_heap option" where
  "join_cache_new h this j tab =
     write_node h this (\<lambda>c. c\<lparr>jc_join := j, jc_join_tab := tab, prev_cache := 0, next_cache := 0, jc_buff := 0\<rparr>)"

definition join_cache_new_linked :: "JOIN_CACHE_BKA node_heap \<Rightarrow> ptr \<Rightarrow> ptr \<Rightarrow> ptr \<Rightarrow> ptr \<Rightarrow> JOIN_CACHE_BKA node_heap option" where
  "join_cache_new_linked h this j tab prev =
     do { h1 \<leftarrow> write_node h this (\<lambda>c. c\<lparr>jc_join := j, jc_join_tab := tab, next_cache := 0, prev_cache := prev, jc_buff := 0\<rparr>);
          if prev \<noteq> 0 then write_node h1 prev (\<lambda>c. c\<lparr>next_cache := this\<rparr>) else Some h1 }"

definition bka_copy :: "JOIN_CACHE_BKA node_heap \<Rightarrow> ptr \<Rightarrow> ptr \<Rightarrow> JOIN_CACHE_BKA node_heap option" where
  "bka_copy h this bka =
     do { b \<leftarrow> read_node h bka; h1 \<leftarrow> join_cache_new_linked h this (jc_join b) (jc_join_tab b) (prev_cache b);
          write_node h1 this (\<lambda>c. c\<lparr>bka_mrr_mode := bka_mrr_mode b\<rparr>) }"

section \<open>Cells that hold numbers\<close>

text \<open>
  What the code relies on when it keeps numbers in the buffer: a value that fits is read back, and writing a cell leaves the cells apart from it alone.  Proved
  once: writing any separate cells, and reading all of them.  When the values are the places of cells, the cells can be linked into a circle.
\<close>

definition apart :: "nat \<Rightarrow> ptr \<Rightarrow> ptr \<Rightarrow> bool" where
  "apart sz p q \<longleftrightarrow> p + sz \<le> q \<or> q + sz \<le> p"

lemma apart_sym: "apart sz p q \<longleftrightarrow> apart sz q p"
  by (auto simp: apart_def)

definition put_all :: "(mem \<Rightarrow> ptr \<Rightarrow> 'v \<Rightarrow> mem) \<Rightarrow> mem \<Rightarrow> (ptr \<times> 'v) list \<Rightarrow> mem" where
  "put_all put m pvs = fold (\<lambda>(p, v) m. put m p v) pvs m"

lemma put_all_simps [simp]: "put_all put m [] = m" "put_all put m ((p, v) # pvs) = put_all put (put m p v) pvs"
  by (simp_all add: put_all_def)

locale cells =
  fixes put :: "mem \<Rightarrow> ptr \<Rightarrow> 'v \<Rightarrow> mem"
    and get :: "mem \<Rightarrow> ptr \<Rightarrow> 'v"
    and sz :: nat
    and place :: "ptr \<Rightarrow> bool"
    and fits :: "'v \<Rightarrow> bool"
  assumes get_put: "place p \<Longrightarrow> fits v \<Longrightarrow> get (put m p v) p = v"
    and get_put_apart: "place p \<Longrightarrow> place q \<Longrightarrow> apart sz p q \<Longrightarrow> get (put m p v) q = get m q"
begin

lemma get_put_all_apart:
  "place q \<Longrightarrow> \<forall>p\<in>fst ` set pvs. place p \<and> apart sz p q \<Longrightarrow> get (put_all put m pvs) q = get m q"
  by (induction pvs arbitrary: m) (auto simp: get_put_apart)

lemma get_put_all:
  "sorted_wrt (apart sz) (map fst pvs) \<Longrightarrow> \<forall>(p, v)\<in>set pvs. place p \<and> fits v \<Longrightarrow> map (\<lambda>p. get (put_all put m pvs) p) (map fst pvs) = map snd pvs"
proof (induction pvs arbitrary: m)
  case (Cons pv pvs)
  obtain p v where pv: "pv = (p, v)" by fastforce
  have "get (put_all put (put m p v) pvs) p = get (put m p v) p"
    using Cons.prems by (intro get_put_all_apart) (auto simp: pv apart_sym)
  moreover have "get (put m p v) p = v" using Cons.prems(2) by (simp add: pv get_put)
  ultimately show ?case using Cons by (simp add: pv)
qed simp

end

locale ref_cells = cells put get sz place fits
  for put :: "mem \<Rightarrow> ptr \<Rightarrow> ptr \<Rightarrow> mem" and get :: "mem \<Rightarrow> ptr \<Rightarrow> ptr" and sz :: nat and place :: "ptr \<Rightarrow> bool" and fits :: "ptr \<Rightarrow> bool"
begin

lemma circle:
  assumes "sorted_wrt (apart sz) rs" "\<forall>r\<in>set rs. place r \<and> fits r"
  shows "map (get (put_all put m (zip rs (rotate1 rs)))) rs = rotate1 rs"
proof -
  have "\<forall>(p, v)\<in>set (zip rs (rotate1 rs)). place p \<and> fits v" using assms(2) by (auto dest: set_zip_leftD set_zip_rightD)
  from get_put_all [OF _ this] assms(1) show ?thesis by simp
qed

lemma path:
  assumes "sorted_wrt (apart sz) (r # rs)" "\<forall>r\<in>set (r # rs). place r \<and> fits r"
  shows "map (get (put_all put m (zip (r # rs) rs))) (butlast (r # rs)) = rs"
proof -
  let ?z = "zip (r # rs) rs"
  have z: "map fst ?z = butlast (r # rs)" "map snd ?z = rs"
    by (simp_all add: map_fst_zip_take map_snd_zip_take butlast_conv_take)
  have "sorted_wrt (apart sz) (butlast (r # rs))" using assms(1) by (simp only: butlast_conv_take sorted_wrt_take)
  moreover have "place p \<and> fits v" if "(p, v) \<in> set ?z" for p v
    using assms(2) set_zip_leftD [OF that] set_zip_rightD [OF that] by auto
  then have "\<forall>(p, v)\<in>set ?z. place p \<and> fits v" by blast
  ultimately show ?thesis using get_put_all [of ?z m] by (simp only: z)
qed

end

section \<open>The cells of a join buffer\<close>

definition size_ok :: "uint32 \<Rightarrow> bool" where "size_ok sz \<longleftrightarrow> sz = 1 \<or> sz = 2 \<or> sz = 4"

lemma store_offset_bytes: "size_ok sz \<Longrightarrow> store_offset m sz p ofs = put_bytes m p (le_bytes (unat sz) (unat ofs))"
proof -
  assume "size_ok sz"
  then consider "sz = 1" | "sz = 2" | "sz = 4" by (auto simp: size_ok_def)
  then show ?thesis
  proof cases
    case 1
    then show ?thesis using ucast_byte0 [of ofs] by (simp add: store_offset_def)
  next
    case 2
    have "le_bytes 2 (unat ofs mod 65536) = le_bytes 2 (unat ofs)" by (rule le_bytes_mod) simp
    then show ?thesis using 2 by (simp add: store_offset_def int2store_bytes unat_ucast_eq_mod)
  next
    case 3
    then show ?thesis by (simp add: store_offset_def int4store_bytes)
  qed
qed

lemma unat_get_offset: "size_ok sz \<Longrightarrow> unat (get_offset m sz p) = le_nat (bytes_at m p (unat sz))"
  by (auto simp: size_ok_def get_offset_def unat_ucast_up unat_uint2korr unat_uint4korr bytes_at_Suc)

lemma size_not_ok: "\<not> size_ok sz \<Longrightarrow> store_offset m sz p ofs = m \<and> get_offset m sz p = 0"
  by (auto simp: size_ok_def store_offset_def get_offset_def)

text \<open>An offset that has room is read back, and the offsets apart from it are kept.\<close>

lemma get_store_offset: "size_ok sz \<Longrightarrow> unat ofs < 256 ^ unat sz \<Longrightarrow> get_offset (store_offset m sz p ofs) sz p = ofs"
  by (rule word_eq_unatI) (simp add: unat_get_offset store_offset_bytes mem_simps le_nat_le_bytes)

lemma get_store_offset_apart: "apart (unat sz) p q \<Longrightarrow> get_offset (store_offset m sz p ofs) sz q = get_offset m sz q"
  by (cases "size_ok sz") (auto intro!: word_eq_unatI simp: unat_get_offset store_offset_bytes size_not_ok apart_def mem_simps)

lemma unat_ulong_diff: "q \<le> p \<Longrightarrow> p - q < 2 ^ 32 \<Longrightarrow> unat (ulong_diff p q) = p - q"
  by (simp add: ulong_diff_def ptr_diff_def unat_of_nat unat_ucast_eq_mod flip: of_nat_diff)

lemma unat_ptr_diff: "q \<le> p \<Longrightarrow> p - q < 2 ^ 64 \<Longrightarrow> unat (ptr_diff p q) = p - q"
  by (simp add: ptr_diff_def unat_of_nat flip: of_nat_diff)

text \<open>The size chosen for a buffer has room for the offsets of the buffer, as long as the buffer is shorter than four gigabytes.\<close>

lemma offset_size_has_room: "unat len < 2 ^ 32 \<Longrightarrow> unat ofs \<le> unat len \<Longrightarrow> size_ok (offset_size len) \<and> unat ofs < 256 ^ unat (offset_size len)"
  by (auto simp: offset_size_def size_ok_def word_less_nat_alt)

lemma offset_of_long_buffer_lost:
  "get_offset (store_offset m (offset_size (2 ^ 33)) p (ulong_diff (b + 2 ^ 32) b)) (offset_size (2 ^ 33)) p = 0"
  by (rule word_eq_unatI)
    (simp add: ulong_diff_def ptr_diff_def offset_size_def unat_get_offset store_offset_bytes size_ok_def mem_simps le_nat_le_bytes)

text \<open>References forward from the buffer and backward from the hash table.\<close>

definition number_fits :: "uint32 \<Rightarrow> ulong \<Rightarrow> bool" where
  "number_fits sz v \<longleftrightarrow> size_ok sz \<and> unat v < 256 ^ unat sz"

definition forward_fits :: "'a JOIN_CACHE_scheme \<Rightarrow> ptr \<Rightarrow> bool" where
  "forward_fits c r \<longleftrightarrow> size_ok (size_of_rec_ofs c) \<and> jc_buff c \<le> r \<and> r - jc_buff c < 256 ^ unat (size_of_rec_ofs c)"

definition backward_fits :: "'a JOIN_CACHE_HASHED_scheme \<Rightarrow> ptr \<Rightarrow> bool" where
  "backward_fits c r \<longleftrightarrow> size_ok (size_of_key_ofs c) \<and> r \<le> hash_table c \<and> hash_table c - r < 256 ^ unat (size_of_key_ofs c)"

lemma size_ok_room: "size_ok sz \<Longrightarrow> (256 :: nat) ^ unat sz \<le> 2 ^ 32"
  by (auto simp: size_ok_def)

lemma read_back_diff:
  assumes "size_ok sz" "q \<le> r" "r - q < 256 ^ unat sz"
  shows "unat (get_offset (store_offset m sz p (ulong_diff r q)) sz p) = r - q"
proof -
  have "r - q < 2 ^ 32" using assms(3) size_ok_room [OF assms(1)] by simp
  then have "unat (ulong_diff r q) = r - q" using assms(2) by (simp add: unat_ulong_diff)
  then show ?thesis using assms by (simp add: get_store_offset)
qed

lemmas offset_defs = get_rec_length_def store_rec_length_def get_fld_offset_def store_fld_offset_def get_rec_ref_def store_rec_ref_def
  get_next_rec_ref_def store_next_rec_ref_def get_emb_key_def store_emb_key_ref_def get_next_key_ref_def store_next_key_ref_def

interpretation rec_len: cells "store_rec_length c" "get_rec_length c" "unat (size_of_rec_len c)" "\<lambda>_. True" "number_fits (size_of_rec_len c)" for c
  by unfold_locales (simp_all add: offset_defs number_fits_def get_store_offset get_store_offset_apart)

interpretation fld_ofs: cells "store_fld_offset c" "get_fld_offset c" "unat (size_of_fld_ofs c)" "\<lambda>_. True" "number_fits (size_of_fld_ofs c)" for c
  by unfold_locales (simp_all add: offset_defs number_fits_def get_store_offset get_store_offset_apart)

interpretation rec_ref: ref_cells "store_rec_ref c" "get_rec_ref c" "unat (size_of_rec_ofs c)" "\<lambda>p. unat (size_of_rec_ofs c) \<le> p" "forward_fits c" for c
proof unfold_locales
  show "get_rec_ref c (store_rec_ref c m p v) p = v" if "forward_fits c v" for p v m
    using that by (simp add: offset_defs forward_fits_def read_back_diff)
  show "get_rec_ref c (store_rec_ref c m p v) q = get_rec_ref c m q"
    if "unat (size_of_rec_ofs c) \<le> p" "unat (size_of_rec_ofs c) \<le> q" "apart (unat (size_of_rec_ofs c)) p q" for p q m v
  proof -
    have "apart (unat (size_of_rec_ofs c)) (p - unat (size_of_rec_ofs c)) (q - unat (size_of_rec_ofs c))"
      using that by (auto simp: apart_def)
    then show ?thesis by (simp add: offset_defs get_store_offset_apart)
  qed
qed

interpretation next_rec: ref_cells "store_next_rec_ref c" "get_next_rec_ref c" "unat (size_of_rec_ofs c)" "\<lambda>_. True" "forward_fits c" for c
  by unfold_locales (simp_all add: offset_defs forward_fits_def read_back_diff get_store_offset_apart)

interpretation emb_key: ref_cells "store_emb_key_ref c" "get_emb_key c" "unat (size_of_rec_ofs c)" "\<lambda>_. True" "forward_fits c" for c
  by unfold_locales (simp_all add: offset_defs forward_fits_def read_back_diff get_store_offset_apart)

interpretation key_ref: ref_cells "store_next_key_ref c" "get_next_key_ref c" "unat (size_of_key_ofs c)" "\<lambda>_. True" "backward_fits c" for c
  by unfold_locales (simp_all add: offset_defs backward_fits_def read_back_diff get_store_offset_apart)

section \<open>Chains of the hash table\<close>

text \<open>The nil reference is the offset 0, that is the place of the hash table itself, which is no key entry.\<close>

lemma le_nat_0_iff: "le_nat bs = 0 \<longleftrightarrow> bs = le_bytes (length bs) 0"
  by (metis le_bytes_le_nat le_nat_le_bytes mod_0)

lemma is_null_key_ref_iff: "size_ok (size_of_key_ofs c) \<Longrightarrow> is_null_key_ref c m p \<longleftrightarrow> unat (get_offset m (size_of_key_ofs c) p) = 0"
  using le_nat_0_iff [of "bytes_at m p (unat (size_of_key_ofs c))"] by (simp add: is_null_key_ref_def unat_get_offset)

lemma null_after_store: "size_ok (size_of_key_ofs c) \<Longrightarrow> is_null_key_ref c (store_null_key_ref c m p) p"
  by (simp add: is_null_key_ref_iff store_null_key_ref_def get_store_offset)

lemma not_null_below: "size_ok (size_of_key_ofs c) \<Longrightarrow> get_next_key_ref c m p < hash_table c \<Longrightarrow> \<not> is_null_key_ref c m p"
  by (auto simp: is_null_key_ref_iff get_next_key_ref_def)

lemma store_null_as_next: "store_null_key_ref c m p = store_next_key_ref c m p (hash_table c)"
  by (simp add: store_null_key_ref_def store_next_key_ref_def ulong_diff_def ptr_diff_def)

lemma keys_after_nil:
  assumes "sorted_wrt (apart (unat (size_of_key_ofs c))) (ks @ [l])"
  shows "map (get_next_key_ref c (store_null_key_ref c m l)) ks = map (get_next_key_ref c m) ks"
  using assms by (auto simp: sorted_wrt_append store_null_as_next apart_sym intro!: key_ref.get_put_apart)

text \<open>
  C8: The chains of a hashed join buffer are read as they were written.  Records with the same key, each given the reference to the next one and the last the
  reference to the first, form a circle: the successors read back are the records rotated by one.  Key entries, each given the reference to the next one and
  the last the nil reference, form a list: the successors read back are the following entries, exactly the last one has a nil reference, and no entry is mistaken
  for nil.  The references are stored in 1, 2 or 4 bytes, and this holds as long as the distances fit them: every record lies in the buffer less than \<open>256 ^ size\<close> bytes
  behind its start, every key entry lies before the hash table, by less than \<open>256 ^ size\<close> bytes, and the places of the references do not overlap.  A larger distance is stored
  modulo \<open>256 ^ size\<close> (\<open>offset_of_long_buffer_lost\<close>).
\<close>

theorem hash_table_chains:
  assumes "sorted_wrt (apart (unat (size_of_rec_ofs c))) rs" "\<forall>r\<in>set rs. forward_fits c r"
    and "sorted_wrt (apart (unat (size_of_key_ofs c))) (k # ks)" "\<forall>k\<in>set (k # ks). backward_fits c k \<and> k < hash_table c"
  shows "map (get_next_rec_ref c (put_all (store_next_rec_ref c) m (zip rs (rotate1 rs)))) rs = rotate1 rs \<and>
    (let m' = store_null_key_ref c (put_all (store_next_key_ref c) m (zip (k # ks) ks)) (last (k # ks))
     in map (get_next_key_ref c m') (butlast (k # ks)) = ks \<and> (\<forall>p\<in>set (butlast (k # ks)). \<not> is_null_key_ref c m' p) \<and>
        is_null_key_ref c m' (last (k # ks)))"
proof
  show "map (get_next_rec_ref c (put_all (store_next_rec_ref c) m (zip rs (rotate1 rs)))) rs = rotate1 rs"
    using assms(1,2) by (intro next_rec.circle) auto
  define m1 where "m1 = put_all (store_next_key_ref c) m (zip (k # ks) ks)"
  define m2 where "m2 = store_null_key_ref c m1 (last (k # ks))"
  have sz: "size_ok (size_of_key_ofs c)" using assms(4) by (simp add: backward_fits_def)
  have "map (get_next_key_ref c m1) (butlast (k # ks)) = ks"
    unfolding m1_def using assms(3,4) by (intro key_ref.path) auto
  moreover have "map (get_next_key_ref c m2) (butlast (k # ks)) = map (get_next_key_ref c m1) (butlast (k # ks))"
    unfolding m2_def using assms(3) by (intro keys_after_nil) simp
  ultimately have next_ks: "map (get_next_key_ref c m2) (butlast (k # ks)) = ks" by simp
  have "\<not> is_null_key_ref c m2 p" if "p \<in> set (butlast (k # ks))" for p
  proof -
    have "get_next_key_ref c m2 p \<in> set ks" using that next_ks by (metis image_eqI set_map)
    then show ?thesis using assms(4) sz by (intro not_null_below) auto
  qed
  moreover have "is_null_key_ref c m2 (last (k # ks))" unfolding m2_def using sz by (rule null_after_store)
  ultimately show "let m' = store_null_key_ref c (put_all (store_next_key_ref c) m (zip (k # ks) ks)) (last (k # ks))
     in map (get_next_key_ref c m') (butlast (k # ks)) = ks \<and> (\<forall>p\<in>set (butlast (k # ks)). \<not> is_null_key_ref c m' p) \<and>
        is_null_key_ref c m' (last (k # ks))"
    using next_ks unfolding m1_def [symmetric] m2_def [symmetric] Let_def by blast
qed

section \<open>Space left in the buffer\<close>

text \<open>
  While records and the auxiliary buffer fit, the space is what lies between the last record and the auxiliary buffer; the auxiliary buffer then gets the space
  left and its own size.  When they do not fit, the difference wraps around: the maximum with 0 is of unsigned numbers and changes nothing.
\<close>

lemma rem_space_fits:
  assumes "jc_buff c \<le> jc_end_pos c" "jc_end_pos c - jc_buff c + unat (aux_buff_size c) \<le> unat (jc_buff_size c)"
  shows "unat (rem_space c) = unat (jc_buff_size c) - (jc_end_pos c - jc_buff c) - unat (aux_buff_size c)"
    and "hb_buffer_end (bka_setup_aux_buffer c b) - hb_buffer (bka_setup_aux_buffer c b) = unat (rem_space c) + unat (aux_buff_size c)"
proof -
  have "jc_end_pos c - jc_buff c < 2 ^ 64" using assms(2) uint64_lt [of "jc_buff_size c"] by simp
  then have d: "unat (ptr_diff (jc_end_pos c) (jc_buff c)) = jc_end_pos c - jc_buff c" using assms(1) by (simp add: unat_ptr_diff)
  then have "unat (jc_buff_size c - ptr_diff (jc_end_pos c) (jc_buff c)) = unat (jc_buff_size c) - (jc_end_pos c - jc_buff c)"
    using assms(2) by (simp add: unat_sub word_le_nat_alt)
  then show r: "unat (rem_space c) = unat (jc_buff_size c) - (jc_end_pos c - jc_buff c) - unat (aux_buff_size c)"
    using assms(2) by (simp add: rem_space_def unat_sub word_le_nat_alt)
  show "hb_buffer_end (bka_setup_aux_buffer c b) - hb_buffer (bka_setup_aux_buffer c b) = unat (rem_space c) + unat (aux_buff_size c)"
    using assms by (simp add: r bka_setup_aux_buffer_def)
qed

lemma hashed_rem_space_fits:
  assumes "jc_end_pos c + unat (aux_buff_size c) \<le> last_key_entry c" "last_key_entry c - jc_end_pos c < 2 ^ 64"
  shows "unat (hashed_rem_space c) = last_key_entry c - jc_end_pos c - unat (aux_buff_size c)"
    and "hb_buffer_end (bkah_setup_aux_buffer c b) - hb_buffer (bkah_setup_aux_buffer c b) = unat (hashed_rem_space c) + unat (aux_buff_size c)"
  using assms by (simp_all add: hashed_rem_space_def bkah_setup_aux_buffer_def unat_sub word_le_nat_alt unat_ptr_diff)

lemma rem_space_wraps: "rem_space c = jc_buff_size c - ptr_diff (jc_end_pos c) (jc_buff c) - aux_buff_size c"
  by (simp add: rem_space_def)

section \<open>Links between caches\<close>

text \<open>A linked cache and its predecessor name each other; a copy of a cache takes its place after the predecessor, without its buffer.\<close>

lemma linked_caches:
  assumes "this \<noteq> 0" "h this = Some c" "prev \<noteq> 0" "h prev = Some d" "prev \<noteq> this"
  shows "\<exists>h' c' d'. join_cache_new_linked h this j tab prev = Some h' \<and> h' this = Some c' \<and> h' prev = Some d' \<and>
    prev_cache c' = prev \<and> next_cache c' = 0 \<and> jc_buff c' = 0 \<and> next_cache d' = this \<and> prev_cache d' = prev_cache d \<and> jc_buff d' = jc_buff d"
  using assms by (auto simp: join_cache_new_linked_def)

lemma copied_cache:
  assumes "this \<noteq> 0" "h this = Some c" "bka \<noteq> 0" "h bka = Some b" "prev_cache b \<noteq> 0" "h (prev_cache b) = Some d" "distinct [this, bka, prev_cache b]"
  shows "\<exists>h' c' d'. bka_copy h this bka = Some h' \<and> h' this = Some c' \<and> h' (prev_cache b) = Some d' \<and> h' bka = Some b \<and>
    prev_cache c' = prev_cache b \<and> bka_mrr_mode c' = bka_mrr_mode b \<and> jc_buff c' = 0 \<and> next_cache d' = this"
  using assms by (auto simp: bka_copy_def join_cache_new_linked_def)

text \<open>Freeing twice frees once, since freeing the null pointer does nothing.\<close>

lemma free_twice:
  assumes "\<And>h. my_free h 0 = h"
  shows "(case jc_free my_free h c of (h1, c1) \<Rightarrow> jc_free my_free h1 c1) = jc_free my_free h c"
  using assms by (simp add: jc_free_def)

lemma rec_link_default: "get_curr_rec_link (set_curr_rec_link c 0) = get_curr_rec c" "l \<noteq> 0 \<Longrightarrow> get_curr_rec_link (set_curr_rec_link c l) = l"
  by (simp_all add: get_curr_rec_link_def set_curr_rec_link_def get_curr_rec_def)

section \<open>Instances\<close>

definition sample_cache :: JOIN_CACHE_HASHED where
  "sample_cache =
     \<lparr>size_of_rec_ofs = 2, size_of_rec_len = 2, size_of_fld_ofs = 1, for_explain_only = False, jc_length = 0, jc_join = 0, start_tab = 0, jc_fields = 0,
      flag_fields = 0, jc_blobs = 0, referenced_fields = 0, data_field_count = 0, data_field_ptr_count = 0, field_descr = 0, blob_ptr = 0,
      with_match_flag = False, jc_with_length = False, jc_pack_length = 0, pack_length_with_blob_ptrs = 0, base_prefix_length = 0, avg_record_length = 0,
      avg_aux_buffer_incr = 0, space_per_record = 0, jc_buff = 1000, jc_buff_size = 100, min_buff_size = 0, max_buff_size = 0, aux_buff_size = 60,
      jc_records = 0, min_records = 0, max_records = 0, jc_pos = 1050, jc_end_pos = 1050, curr_rec_pos = 1000, last_rec_pos = 1040,
      last_rec_blob_data_is_in_rec_buff = False, curr_rec_link = 0, last_written_is_null_compl = False, local_key_arg_fields = 0,
      external_key_arg_fields = 0, use_emb_key = False, emb_key_length = 0, join_tab_scan = 0, jc_join_tab = 0, prev_cache = 0, next_cache = 0,
      size_of_key_ofs = 1, key_entry_length = 8, hash_table = 1090, hash_entries = 10, curr_key_entry = 1080, data_fields_offset = 0, jc_key_length = 4,
      key_buff = 0, key_entries = 2, last_key_entry = 1070, rec_fields_offset = 4\<rparr>"

text \<open>Fifty bytes are used and sixty are reserved in a buffer of a hundred: the space left comes out as almost the whole address space.\<close>

lemma rem_space_overcommitted: "rem_space sample_cache = 2 ^ 64 - 10"
  by (simp add: rem_space_def sample_cache_def ptr_diff_def)

theorem hash_table_chains_witness:
  "map (get_next_rec_ref sample_cache (put_all (store_next_rec_ref sample_cache) (\<lambda>_. 0) (zip [1002, 1020, 1040] [1020, 1040, 1002]))) [1002, 1020, 1040] =
    [1020, 1040, 1002] \<and>
   (let m' = store_null_key_ref sample_cache (put_all (store_next_key_ref sample_cache) (\<lambda>_. 0) [(1080, 1070)]) 1070
    in get_next_key_ref sample_cache m' 1080 = 1070 \<and> \<not> is_null_key_ref sample_cache m' 1080 \<and> is_null_key_ref sample_cache m' 1070)"
proof -
  have "sorted_wrt (apart (unat (size_of_rec_ofs sample_cache))) [1002, 1020, 1040]" "\<forall>r\<in>set [1002, 1020, 1040]. forward_fits sample_cache r"
    "sorted_wrt (apart (unat (size_of_key_ofs sample_cache))) [1080, 1070]" "\<forall>k\<in>set [1080, 1070]. backward_fits sample_cache k \<and> k < hash_table sample_cache"
    by (simp_all add: sample_cache_def apart_def forward_fits_def backward_fits_def size_ok_def)
  from hash_table_chains [OF this, of "\<lambda>_. 0"] show ?thesis by (simp add: Let_def)
qed

end
