(* ===== verification/JoinExec.thy ===== *)
theory JoinExec
  imports TableRefs Arrays SessionState JoinCache HandlerScan
begin

text \<open>
  Execution of joins (\<^verbatim>\<open>sql_select.h\<close>): the place of a table in outer joins and semi-joins, copying values into the key of an index look-up, the slices of the
  references to the select list, the decisions of a join, temporary tables that live in memory only, and the state of the semi-join strategies.  Items and fields
  are arguments: what matters here is the order in which they are called, what is saved and restored around the calls, and what is made of their results.
\<close>

section \<open>Place of a table in the join\<close>

text \<open>The pointers of a \<open>JOIN_TAB\<close> to the tables of its nests; \<open>this\<close> is its own address.\<close>

record JOIN_TAB =
  first_inner :: ptr
  last_inner :: ptr
  first_upper :: ptr
  first_sj_inner_tab :: ptr
  last_sj_inner_tab :: ptr
  emb_sj_nest :: ptr
  bush_children :: ptr
  not_exists_optimize :: bool
  select_cond :: ptr
  jt_select :: ptr
  jt_used_fieldlength :: ulong
  jt_max_used_fieldlength :: ulong

type_synonym join_tabs = "JOIN_TAB node_heap"

definition is_inner_table_of_semi_join_with_first_match :: "JOIN_TAB \<Rightarrow> bool" where
  "is_inner_table_of_semi_join_with_first_match t \<longleftrightarrow> first_sj_inner_tab t \<noteq> 0"

definition is_inner_table_of_semijoin :: "JOIN_TAB \<Rightarrow> bool" where "is_inner_table_of_semijoin t \<longleftrightarrow> emb_sj_nest t \<noteq> 0"

definition is_inner_tab_of_outer_join :: "JOIN_TAB \<Rightarrow> bool" where "is_inner_tab_of_outer_join t \<longleftrightarrow> first_inner t \<noteq> 0"

definition is_single_inner_of_semi_join_with_first_match :: "ptr \<Rightarrow> JOIN_TAB \<Rightarrow> bool" where
  "is_single_inner_of_semi_join_with_first_match this t \<longleftrightarrow> first_sj_inner_tab t = this \<and> last_sj_inner_tab t = this"

definition is_single_inner_of_outer_join :: "join_tabs \<Rightarrow> ptr \<Rightarrow> JOIN_TAB \<Rightarrow> bool option" where
  "is_single_inner_of_outer_join h this t =
     (if first_inner t = this then do { f \<leftarrow> read_node h (first_inner t); Some (last_inner f = this) } else Some False)"

definition is_first_inner_for_outer_join :: "ptr \<Rightarrow> JOIN_TAB \<Rightarrow> bool" where
  "is_first_inner_for_outer_join this t \<longleftrightarrow> first_inner t \<noteq> 0 \<and> first_inner t = this"

definition use_match_flag :: "ptr \<Rightarrow> JOIN_TAB \<Rightarrow> bool" where
  "use_match_flag this t \<longleftrightarrow> is_first_inner_for_outer_join this t \<or> first_sj_inner_tab t = this"

definition check_only_first_match :: "JOIN_TAB \<Rightarrow> bool" where
  "check_only_first_match t \<longleftrightarrow> is_inner_table_of_semi_join_with_first_match t \<or> (is_inner_tab_of_outer_join t \<and> not_exists_optimize t)"

definition is_last_inner_table :: "join_tabs \<Rightarrow> ptr \<Rightarrow> JOIN_TAB \<Rightarrow> bool option" where
  "is_last_inner_table h this t =
     do { outer \<leftarrow> (if first_inner t \<noteq> 0 then do { f \<leftarrow> read_node h (first_inner t); Some (last_inner f = this) } else Some False);
          Some (outer \<or> last_sj_inner_tab t = this) }"

definition is_nested_inner :: "join_tabs \<Rightarrow> JOIN_TAB \<Rightarrow> bool option" where
  "is_nested_inner h t =
     do { outer \<leftarrow> (if first_inner t \<noteq> 0 then do { f \<leftarrow> read_node h (first_inner t); Some (first_inner t \<noteq> last_inner f \<or> first_upper f \<noteq> 0) } else Some False);
          if outer then Some True
          else if first_sj_inner_tab t \<noteq> 0 \<and> first_sj_inner_tab t \<noteq> last_sj_inner_tab t then Some True else Some False }"

definition get_first_inner_table :: "JOIN_TAB \<Rightarrow> ptr" where
  "get_first_inner_table t = (if first_inner t \<noteq> 0 then first_inner t else first_sj_inner_tab t)"

definition is_sjm_nest :: "JOIN_TAB \<Rightarrow> bool" where "is_sjm_nest t \<longleftrightarrow> bush_children t \<noteq> 0"

text \<open>The condition is kept in the table and, if there is one, in its \<open>SQL_SELECT\<close>; \<open>sel_cond\<close> maps such an object to its condition.\<close>

definition set_select_cond :: "JOIN_TAB \<Rightarrow> ptr \<Rightarrow> JOIN_TAB" where "set_select_cond t cond = t\<lparr>select_cond := cond\<rparr>"

definition set_cond :: "(ptr \<Rightarrow> ptr) \<Rightarrow> JOIN_TAB \<Rightarrow> ptr \<Rightarrow> ptr \<times> JOIN_TAB \<times> (ptr \<Rightarrow> ptr)" where
  "set_cond sel_cond t new_cond =
     (select_cond t, set_select_cond t new_cond, if jt_select t \<noteq> 0 then sel_cond(jt_select t := new_cond) else sel_cond)"

text \<open>Lengths that are computed when they are asked for and still 0.\<close>

definition get_used_fieldlength :: "(bool \<Rightarrow> JOIN_TAB \<Rightarrow> JOIN_TAB) \<Rightarrow> JOIN_TAB \<Rightarrow> ulong \<times> JOIN_TAB" where
  "get_used_fieldlength calc_used_field_length t =
     (let t1 = (if jt_used_fieldlength t = 0 then calc_used_field_length False t else t) in (jt_used_fieldlength t1, t1))"

definition get_max_used_fieldlength :: "(bool \<Rightarrow> JOIN_TAB \<Rightarrow> JOIN_TAB) \<Rightarrow> JOIN_TAB \<Rightarrow> ulong \<times> JOIN_TAB" where
  "get_max_used_fieldlength calc_used_field_length t =
     (let t1 = (if jt_max_used_fieldlength t = 0 then calc_used_field_length True t else t) in (jt_max_used_fieldlength t1, t1))"

text \<open>\<open>sj_inner\<close> gives the inner tables of a semi-join nest.\<close>

definition access_from_tables_is_allowed :: "(ptr \<Rightarrow> uint64) \<Rightarrow> JOIN_TAB \<Rightarrow> uint64 \<Rightarrow> uint64 \<Rightarrow> bool" where
  "access_from_tables_is_allowed sj_inner t used_tables sjm_lookup_tables \<longleftrightarrow>
     (let used_sjm_lookup_tables = used_tables AND sjm_lookup_tables
      in used_sjm_lookup_tables = 0 \<or> (emb_sj_nest t \<noteq> 0 \<and> used_sjm_lookup_tables AND NOT (sj_inner (emb_sj_nest t)) = 0))"

definition is_hash_join_key_no :: "uint32 \<Rightarrow> bool" where "is_hash_join_key_no key \<longleftrightarrow> key = MAX_KEY"

section \<open>Copying values into keys\<close>

datatype store_key_result = STORE_KEY_OK | STORE_KEY_FATAL | STORE_KEY_CONV

text \<open>
  What a copy sees and changes: the modes of the session and whether it has an error, the key field with its contents and its NULL bit, the error byte of the
  copier (which serves as the NULL byte of the field when the key has none), the NULL flag of the item, the flag of the copier that says whether a constant was
  copied already, and the buffers of the column maps.
\<close>

record 'f key_env =
  ke_sql_mode :: uint64
  ke_count_cuted :: enum_check_fields
  ke_is_error :: bool
  ke_field :: 'f
  ke_field_null :: bool
  ke_err :: uchar
  ke_item_null :: bool
  ke_null_key :: bool
  ke_inited :: bool
  ke_maps :: map_buffers

definition store_key_copy :: "('f key_env \<Rightarrow> store_key_result \<times> 'f key_env) \<Rightarrow> 'f key_env \<Rightarrow> store_key_result \<times> 'f key_env" where
  "store_key_copy copy_inner e =
     (let saved_count_cuted_fields = ke_count_cuted e;
          orig_sql_mode = ke_sql_mode e;
          e1 = e\<lparr>ke_sql_mode := ke_sql_mode e AND NOT (MODE_NO_ZERO_IN_DATE OR MODE_NO_ZERO_DATE)\<rparr>;
          e2 = e1\<lparr>ke_sql_mode := ke_sql_mode e1 OR MODE_INVALID_DATES, ke_count_cuted := CHECK_FIELD_IGNORE\<rparr>;
          (result, e3) = copy_inner e2
      in (result, e3\<lparr>ke_count_cuted := saved_count_cuted_fields, ke_sql_mode := orig_sql_mode\<rparr>))"

text \<open>
  Debugging builds allow writing all columns meanwhile; \<open>all\<close> and \<open>ws\<close> are the maps of all columns and of the columns to write.  The arguments of the three copiers
  are \<open>bzero\<close> and \<open>do_copy\<close>, \<open>reset\<close>, \<open>save_val\<close> and \<open>save_in_field\<close>.
\<close>

definition with_all_columns :: "ptr \<Rightarrow> ptr \<Rightarrow> ('f key_env \<Rightarrow> 'r \<times> 'f key_env) \<Rightarrow> 'f key_env \<Rightarrow> 'r \<times> 'f key_env" where
  "with_all_columns all ws body e =
     (let (old_map, maps) = tmp_use_all_columns all ws (ke_maps e);
          (r, e1) = body (e\<lparr>ke_maps := maps\<rparr>)
      in (r, e1\<lparr>ke_maps := tmp_restore_column_map ws old_map (ke_maps e1)\<rparr>))"

definition copy_inner_field :: "ptr \<Rightarrow> ptr \<Rightarrow> ('f \<Rightarrow> 'f) \<Rightarrow> ('f key_env \<Rightarrow> 'f key_env) \<Rightarrow> 'f key_env \<Rightarrow> store_key_result \<times> 'f key_env" where
  "copy_inner_field all ws bzero do_copy e =
     (let (_, e1) = with_all_columns all ws (\<lambda>e. ((), do_copy (e\<lparr>ke_field := bzero (ke_field e)\<rparr>))) e;
          e2 = e1\<lparr>ke_null_key := ke_field_null e1\<rparr>
      in (if ke_err e2 \<noteq> 0 then STORE_KEY_FATAL else STORE_KEY_OK, e2))"

fun result_of_number :: "int \<Rightarrow> store_key_result" where
  "result_of_number n = (if n = 0 then STORE_KEY_OK else if n = 1 then STORE_KEY_FATAL else STORE_KEY_CONV)"

definition copy_inner_item ::
  "ptr \<Rightarrow> ptr \<Rightarrow> bool \<Rightarrow> ('f key_env \<Rightarrow> 'f key_env) \<Rightarrow> ('f key_env \<Rightarrow> 'f key_env) \<Rightarrow> ('f key_env \<Rightarrow> int \<times> 'f key_env) \<Rightarrow>
     'f key_env \<Rightarrow> store_key_result \<times> 'f key_env" where
  "copy_inner_item all ws use_value reset save_val save_in_field e =
     (let (res, e1) = with_all_columns all ws (\<lambda>e.
            let e1 = reset e; (res, e2) = (if use_value then (0, save_val e1) else save_in_field e1)
            in (if res = 0 \<and> ke_is_error e2 then 1 else res, e2)) e;
          e2 = e1\<lparr>ke_null_key := ke_field_null e1 \<or> ke_item_null e1\<rparr>
      in (if ke_err e2 \<noteq> 0 \<or> res < 0 \<or> 2 < res then STORE_KEY_FATAL else result_of_number res, e2))"

definition copy_inner_const_item :: "ptr \<Rightarrow> ptr \<Rightarrow> ('f key_env \<Rightarrow> int \<times> 'f key_env) \<Rightarrow> 'f key_env \<Rightarrow> store_key_result \<times> 'f key_env" where
  "copy_inner_const_item all ws save_in_field e =
     (let e1 = (if \<not> ke_inited e
                then snd (with_all_columns all ws (\<lambda>e.
                       let (res, e2) = save_in_field e;
                           e3 = (if res \<noteq> 0 \<and> ke_err e2 = 0 then e2\<lparr>ke_err := if res < 0 then 1 else of_int res\<rparr> else e2)
                       in ((), if ke_err e3 = 0 \<and> ke_is_error e3 then e3\<lparr>ke_err := 1\<rparr> else e3)) (e\<lparr>ke_inited := True\<rparr>))
                else e);
          e2 = e1\<lparr>ke_null_key := ke_field_null e1 \<or> ke_item_null e1\<rparr>
      in (if 2 < ke_err e2 then STORE_KEY_FATAL else result_of_number (uint (ke_err e2)), e2))"

text \<open>The NULL byte a copier uses: that of the key, else its own error byte when the source may be NULL, else none.\<close>

datatype null_byte = Key_null ptr | Own_err | No_null

definition store_key_null_ptr :: "ptr \<Rightarrow> bool \<Rightarrow> null_byte" where
  "store_key_null_ptr null_ptr_arg nullable = (if null_ptr_arg \<noteq> 0 then Key_null null_ptr_arg else if nullable then Own_err else No_null)"

section \<open>References to the select list\<close>

text \<open>
  The array of references has five slices of the same length: the references in use and copies of them.  \<open>refs\<close> is the memory of the array.
\<close>

record 'a join_refs =
  refs :: "ptr \<Rightarrow> 'a"
  ref_pointer_array :: Bounds_checked_array
  ref_ptrs :: Bounds_checked_array
  items0 :: Bounds_checked_array
  current_ref_ptrs :: Bounds_checked_array

definition ref_ptr_array_slice :: "'a join_refs \<Rightarrow> nat \<Rightarrow> Bounds_checked_array option" where
  "ref_ptr_array_slice j slice_num =
     (let slice_sz = bca_size (ref_pointer_array j) div 5
      in do { DBUG_ASSERT (bca_size (ref_pointer_array j) mod 5 = 0);
              DBUG_ASSERT (slice_num < 5);
              bca_index (refs j) (ref_pointer_array j) (slice_num * slice_sz);
              Some (bca_reset (bca_array (ref_pointer_array j) + slice_num * slice_sz) slice_sz) })"

definition copy_ref_ptr_array :: "'a join_refs \<Rightarrow> Bounds_checked_array \<Rightarrow> Bounds_checked_array \<Rightarrow> 'a join_refs option" where
  "copy_ref_ptr_array j dst src =
     do { DBUG_ASSERT (bca_size src \<le> bca_size dst);
          Some (j\<lparr>refs := (\<lambda>p. if bca_array dst \<le> p \<and> p < bca_array dst + bca_size src then refs j (bca_array src + (p - bca_array dst)) else refs j p)\<rparr>) }"

definition set_items_ref_array :: "'a join_refs \<Rightarrow> Bounds_checked_array \<Rightarrow> 'a join_refs option" where
  "set_items_ref_array j src = do { j1 \<leftarrow> copy_ref_ptr_array j (ref_ptrs j) src; Some (j1\<lparr>current_ref_ptrs := src\<rparr>) }"

definition init_items_ref_array :: "'a join_refs \<Rightarrow> 'a join_refs option" where
  "init_items_ref_array j =
     do { s \<leftarrow> ref_ptr_array_slice j 1;
          j1 \<leftarrow> copy_ref_ptr_array (j\<lparr>items0 := s\<rparr>) s (ref_ptrs j);
          Some (j1\<lparr>current_ref_ptrs := s\<rparr>) }"

section \<open>Decisions of a join\<close>

definition SELECT_DISTINCT :: uint64 where "SELECT_DISTINCT = 1"
definition OPTION_BUFFER_RESULT :: uint64 where "OPTION_BUFFER_RESULT = push_bit 17 1"
definition MAX_TABLES :: uint32 where "MAX_TABLES = 61"

record JOIN =
  join_tab :: ptr
  table_count :: uint32
  top_join_tab_count :: uint32
  const_tables :: uint32
  aggr_tables :: uint32
  join_tables_list :: ptr
  select_distinct :: bool
  simple_order :: bool
  simple_group :: bool
  join_group_list :: ptr
  join_order :: ptr
  join_group :: bool
  sum_func_count :: uint32
  select_options :: uint64
  rollup_none :: bool
  need_tmp :: bool
  sort_by_table :: ptr
  skip_sort_order :: bool
  do_send_rows :: bool
  implicit_grouping :: bool
  group_optimized_away :: bool
  having_false :: bool
  zero_result_cause :: ptr
  allowed_join_cache_types :: uint32
  max_allowed_join_cache_level :: uint32

definition only_const_tables :: "JOIN \<Rightarrow> bool" where "only_const_tables j \<longleftrightarrow> const_tables j = table_count j"

definition exec_join_tab_cnt :: "JOIN \<Rightarrow> uint32" where "exec_join_tab_cnt j = (if join_tables_list j \<noteq> 0 then top_join_tab_count j else 0)"

definition total_join_tab_cnt :: "JOIN \<Rightarrow> uint32" where "total_join_tab_cnt j = exec_join_tab_cnt j + aggr_tables j - 1"

definition send_row_on_empty_set :: "JOIN \<Rightarrow> bool" where
  "send_row_on_empty_set j \<longleftrightarrow> do_send_rows j \<and> implicit_grouping j \<and> \<not> group_optimized_away j \<and> \<not> having_false j"

definition empty_result :: "JOIN \<Rightarrow> bool" where "empty_result j \<longleftrightarrow> zero_result_cause j \<noteq> 0 \<and> \<not> implicit_grouping j"

text \<open>Defined for fewer than 64 tables; a join has at most \<^const>\<open>MAX_TABLES\<close>.\<close>

definition all_tables_map :: "JOIN \<Rightarrow> uint64" where "all_tables_map j = push_bit (unat (table_count j)) 1 - 1"

text \<open>The table is named by its distance from the array of tables, or none.\<close>

definition get_sort_by_join_tab :: "JOIN \<Rightarrow> uint32 option" where
  "get_sort_by_join_tab j =
     (if need_tmp j \<or> sort_by_table j = 0 \<or> skip_sort_order j \<or> ((join_group j \<or> sum_func_count j \<noteq> 0) \<and> join_group_list j = 0) then None else Some (const_tables j))"

definition is_allowed_hash_join_access :: "JOIN \<Rightarrow> bool" where
  "is_allowed_hash_join_access j \<longleftrightarrow> allowed_join_cache_types j AND JOIN_CACHE_HASHED_BIT \<noteq> 0 \<and> JOIN_CACHE_HASHED_BIT < max_allowed_join_cache_level j"

definition test_if_need_tmp_table :: "JOIN \<Rightarrow> bool" where
  "test_if_need_tmp_table j \<longleftrightarrow>
     (const_tables j \<noteq> table_count j \<and>
       ((select_distinct j \<or> \<not> simple_order j \<or> \<not> simple_group j) \<or> (join_group_list j \<noteq> 0 \<and> join_order j \<noteq> 0) \<or> select_options j AND OPTION_BUFFER_RESULT \<noteq> 0)) \<or>
     (\<not> rollup_none j \<and> select_distinct j)"

section \<open>Virtual temporary tables\<close>

definition NOT_NULL_FLAG :: uint32 where "NOT_NULL_FLAG = 1"
definition BLOB_FLAG :: uint32 where "BLOB_FLAG = 16"

record vt_field =
  vt_flags :: uint32
  vt_pack_length :: uint32
  vt_field_index :: uint32

text \<open>\<open>vt_share\<close> says whether the table has a share, \<open>vt_array\<close> is the part of the array of fields that is filled; \<open>vt_freed\<close> records what was freed and deleted.\<close>

record Virtual_tmp_table =
  vt_share :: bool
  vt_alloced :: nat
  vt_array :: "vt_field list"
  vt_reclength :: ulong
  vt_null_fields :: uint32
  vt_blob_fields :: nat
  vt_blob_field :: "nat \<Rightarrow> nat"
  vt_freed :: "vt_field list"

text \<open>Registering the new field with the table, \<open>Field::init\<close>, changes the field only and is left out.\<close>

definition vt_add :: "vt_field \<Rightarrow> Virtual_tmp_table \<Rightarrow> Virtual_tmp_table option" where
  "vt_add new_field t =
     do { DBUG_ASSERT (length (vt_array t) < vt_alloced t);
          t1 \<leftarrow> Some (t\<lparr>vt_reclength := vt_reclength t + ucast (vt_pack_length new_field)\<rparr>);
          t2 \<leftarrow> Some (if vt_flags new_field AND NOT_NULL_FLAG = 0 then t1\<lparr>vt_null_fields := vt_null_fields t1 + 1\<rparr> else t1);
          t3 \<leftarrow> (if vt_flags new_field AND BLOB_FLAG \<noteq> 0
                  then do { DBUG_ASSERT (vt_blob_fields t2 \<noteq> 0); DBUG_ASSERT (vt_blob_fields t2 \<le> vt_alloced t2);
                            Some (t2\<lparr>vt_blob_field := (vt_blob_field t2)(vt_blob_fields t2 - 1 := length (vt_array t2))\<rparr>) }
                  else Some t2);
          Some (t3\<lparr>vt_array := vt_array t3 @ [new_field\<lparr>vt_field_index := of_nat (length (vt_array t3))\<rparr>]\<rparr>) }"

definition destruct_fields :: "Virtual_tmp_table \<Rightarrow> Virtual_tmp_table" where
  "destruct_fields t = t\<lparr>vt_freed := vt_freed t @ vt_array t, vt_array := []\<rparr>"

text \<open>The destructor looks at the fields only if the table has a share.\<close>

definition vt_destroy :: "Virtual_tmp_table \<Rightarrow> Virtual_tmp_table" where
  "vt_destroy t = (if vt_share t then destruct_fields t else t)"

text \<open>
  A table for one field; \<open>fresh\<close> is the new table, or none when no memory is left, and \<open>init\<close> and \<open>opn\<close> report whether they failed.  The result says whether the table
  can be used.
\<close>

definition create_virtual_tmp_table ::
  "Virtual_tmp_table option \<Rightarrow> (Virtual_tmp_table \<Rightarrow> bool \<times> Virtual_tmp_table) \<Rightarrow> (Virtual_tmp_table \<Rightarrow> bool \<times> Virtual_tmp_table) \<Rightarrow>
     vt_field \<Rightarrow> (bool \<times> Virtual_tmp_table option) option" where
  "create_virtual_tmp_table fresh init opn field =
     (case fresh of
        None \<Rightarrow> Some (False, None)
      | Some t \<Rightarrow> (let (failed, t1) = init t in
          if failed then Some (False, Some (vt_destroy t1))
          else do { t2 \<leftarrow> vt_add field t1;
                    let (failed2, t3) = opn t2 in
                    Some (if failed2 then (False, Some (vt_destroy t3)) else (True, Some t3)) }))"

section \<open>Semi-join strategies\<close>

record sj_pickers =
  first_dupsweedout_table :: uint32
  dupsweedout_tables :: uint64
  dupsweedout_used :: bool
  first_firstmatch_table :: uint32
  firstmatch_used :: bool
  first_loosescan_table :: uint32
  loosescan_used :: bool
  sjm_scan_need_tables :: uint64
  sjmat_used :: bool

definition dups_set_empty :: "sj_pickers \<Rightarrow> sj_pickers" where
  "dups_set_empty p = p\<lparr>dupsweedout_tables := 0, first_dupsweedout_table := MAX_TABLES, dupsweedout_used := False\<rparr>"

definition in_firstmatch_prefix :: "sj_pickers \<Rightarrow> bool" where "in_firstmatch_prefix p \<longleftrightarrow> first_firstmatch_table p \<noteq> MAX_TABLES"

definition invalidate_firstmatch_prefix :: "sj_pickers \<Rightarrow> sj_pickers" where
  "invalidate_firstmatch_prefix p = p\<lparr>first_firstmatch_table := MAX_TABLES\<rparr>"

definition firstmatch_set_empty :: "sj_pickers \<Rightarrow> sj_pickers" where
  "firstmatch_set_empty p = (invalidate_firstmatch_prefix p)\<lparr>firstmatch_used := False\<rparr>"

definition loosescan_set_empty :: "sj_pickers \<Rightarrow> sj_pickers" where
  "loosescan_set_empty p = p\<lparr>first_loosescan_table := MAX_TABLES, loosescan_used := False\<rparr>"

definition sjmat_set_empty :: "sj_pickers \<Rightarrow> sj_pickers" where
  "sjmat_set_empty p = p\<lparr>sjm_scan_need_tables := 0, sjmat_used := False\<rparr>"

text \<open>Conditions are joined with AND and OR; the first operand may be missing.\<close>

datatype cond_item = Cond_leaf ptr | Item_cond_and cond_item cond_item | Item_cond_or cond_item cond_item

definition and_items :: "cond_item option \<Rightarrow> cond_item \<Rightarrow> cond_item" where
  "and_items cond item = (case cond of Some c \<Rightarrow> Item_cond_and c item | None \<Rightarrow> item)"

definition or_items :: "cond_item option \<Rightarrow> cond_item \<Rightarrow> cond_item" where
  "or_items cond item = (case cond of Some c \<Rightarrow> Item_cond_or c item | None \<Rightarrow> item)"

definition optimizer_flag :: "uint64 \<Rightarrow> uint32 \<Rightarrow> bool" where "optimizer_flag optimizer_switch flag \<longleftrightarrow> optimizer_switch AND ucast flag \<noteq> 0"

section \<open>Copies leave the session as it was\<close>

text \<open>
  Whatever the copier does, the session has its modes back afterwards; inside, truncations are ignored and zero and invalid dates are allowed.
\<close>

lemma store_key_copy_restores:
  "ke_sql_mode (snd (store_key_copy f e)) = ke_sql_mode e" "ke_count_cuted (snd (store_key_copy f e)) = ke_count_cuted e"
  by (simp_all add: store_key_copy_def Let_def split: prod.splits)

lemma store_key_copy_inside:
  "\<exists>e'. fst (store_key_copy f e) = fst (f e') \<and> ke_count_cuted e' = CHECK_FIELD_IGNORE \<and> ke_field e' = ke_field e \<and> ke_err e' = ke_err e \<and>
    bit (ke_sql_mode e') 25 \<and> \<not> bit (ke_sql_mode e') 24 \<and> \<not> bit (ke_sql_mode e') 23 \<and>
    (\<forall>i. i \<notin> {23, 24, 25} \<longrightarrow> bit (ke_sql_mode e') i = bit (ke_sql_mode e) i)"
proof -
  let ?m = "ke_sql_mode e AND NOT (MODE_NO_ZERO_IN_DATE OR MODE_NO_ZERO_DATE) OR MODE_INVALID_DATES"
  let ?e = "e\<lparr>ke_sql_mode := ?m, ke_count_cuted := CHECK_FIELD_IGNORE\<rparr>"
  have flag: "k < 64 \<Longrightarrow> bit (push_bit k 1 :: uint64) i \<longleftrightarrow> i = k" for k i by (auto simp: push_bit_eq_mult bit_exp_iff possible_bit_def)
  have flags: "bit MODE_NO_ZERO_IN_DATE i \<longleftrightarrow> i = 23" "bit MODE_NO_ZERO_DATE i \<longleftrightarrow> i = 24" "bit MODE_INVALID_DATES i \<longleftrightarrow> i = 25" for i
    unfolding MODE_NO_ZERO_IN_DATE_def MODE_NO_ZERO_DATE_def MODE_INVALID_DATES_def by (rule flag, simp)+
  have m: "bit ?m i \<longleftrightarrow> i = 25 \<or> (bit (ke_sql_mode e) i \<and> i \<noteq> 23 \<and> i \<noteq> 24)" for i
    using bit_word_ge [of i "ke_sql_mode e"] by (cases "i < 64") (auto simp: bit_or_iff bit_and_iff bit_not_iff flags possible_bit_def)
  have "fst (store_key_copy f e) = fst (f ?e)" by (simp add: store_key_copy_def Let_def split: prod.splits)
  then show ?thesis using m by (intro exI [of _ ?e]) auto
qed

text \<open>The column map is restored as well, as long as the item itself leaves it alone.\<close>

lemma with_all_columns_restores:
  assumes "\<And>e. ke_maps (snd (body e)) = ke_maps e"
  shows "ke_maps (snd (with_all_columns all ws body e)) = ke_maps e"
proof -
  let ?e = "e\<lparr>ke_maps := (ke_maps e)(ws := ke_maps e all)\<rparr>"
  obtain r e1 where "body ?e = (r, e1)" by fastforce
  then show ?thesis using assms [of ?e] by (simp add: with_all_columns_def tmp_use_all_columns_def tmp_restore_column_map_def)
qed

text \<open>What is left of a copy of a constant that was saved before: the NULL flag and the result, both read from what was saved.\<close>

definition const_result :: "'f key_env \<Rightarrow> store_key_result" where
  "const_result e = (if 2 < ke_err e then STORE_KEY_FATAL else result_of_number (uint (ke_err e)))"

definition note_null :: "'f key_env \<Rightarrow> 'f key_env" where
  "note_null e = e\<lparr>ke_null_key := ke_field_null e \<or> ke_item_null e\<rparr>"

lemma copy_inited: "ke_inited e \<Longrightarrow> copy_inner_const_item all ws save e = (const_result e, note_null e)"
  by (simp add: copy_inner_const_item_def const_result_def note_null_def)

text \<open>
  What the first copy of a constant hands to the item, and what it makes of the answer: the session with its modes relaxed and all columns writable, and the error byte,
  which keeps what was written into it while saving, else takes the low byte of the code of a failure (1 for a negative code), else 1 for an error of the session.
\<close>

definition saving_env :: "ptr \<Rightarrow> ptr \<Rightarrow> 'f key_env \<Rightarrow> 'f key_env" where
  "saving_env all ws e = e\<lparr>ke_sql_mode := ke_sql_mode e AND NOT (MODE_NO_ZERO_IN_DATE OR MODE_NO_ZERO_DATE) OR MODE_INVALID_DATES,
     ke_count_cuted := CHECK_FIELD_IGNORE, ke_inited := True, ke_maps := (ke_maps e)(ws := ke_maps e all)\<rparr>"

definition saved_err :: "int \<Rightarrow> 'f key_env \<Rightarrow> uchar" where
  "saved_err res y = (if ke_err y \<noteq> 0 then ke_err y else if res < 0 then 1 else if (of_int res :: uchar) \<noteq> 0 then of_int res else of_bool (ke_is_error y))"

definition saved_key :: "ptr \<Rightarrow> 'f key_env \<Rightarrow> int \<Rightarrow> 'f key_env \<Rightarrow> 'f key_env" where
  "saved_key ws e res y = y\<lparr>ke_sql_mode := ke_sql_mode e, ke_count_cuted := ke_count_cuted e, ke_err := saved_err res y,
     ke_null_key := ke_field_null y \<or> ke_item_null y, ke_maps := (ke_maps y)(ws := ke_maps e ws)\<rparr>"

lemma uchar_of_int_zero: "(of_int res :: uchar) = 0 \<longleftrightarrow> res mod 256 = 0"
  by (simp add: word_of_int_eq_0_iff dvd_eq_mod_eq_0)

lemma save_step:
  "(let e3 = (if res \<noteq> 0 \<and> ke_err y = 0 then y\<lparr>ke_err := if res < 0 then 1 else of_int res\<rparr> else y)
    in if ke_err e3 = 0 \<and> ke_is_error e3 then e3\<lparr>ke_err := 1\<rparr> else e3) = y\<lparr>ke_err := saved_err res y\<rparr>"
  by (cases y) (auto simp: saved_err_def Let_def)

lemma first_copy:
  assumes "\<not> ke_inited e" "save (saving_env all ws e) = (res, y)"
  shows "store_key_copy (copy_inner_const_item all ws save) e = (const_result (saved_key ws e res y), saved_key ws e res y)"
proof -
  let ?e = "e\<lparr>ke_sql_mode := ke_sql_mode e AND NOT (MODE_NO_ZERO_IN_DATE OR MODE_NO_ZERO_DATE) OR MODE_INVALID_DATES, ke_count_cuted := CHECK_FIELD_IGNORE\<rparr>"
  let ?w = "y\<lparr>ke_err := saved_err res y, ke_maps := (ke_maps y)(ws := ke_maps e ws)\<rparr>"
  have "copy_inner_const_item all ws save ?e = (const_result ?w, note_null ?w)"
    using assms save_step [of res y] by (simp add: copy_inner_const_item_def with_all_columns_def tmp_use_all_columns_def tmp_restore_column_map_def
        saving_env_def const_result_def note_null_def Let_def del: result_of_number.simps)
  then show ?thesis by (simp add: store_key_copy_def saved_key_def note_null_def const_result_def)
qed

lemma later_copy:
  assumes "ke_inited e" "ke_null_key e \<longleftrightarrow> ke_field_null e \<or> ke_item_null e"
  shows "store_key_copy (copy_inner_const_item all ws save) e = (const_result e, e)"
  using assms by (simp add: store_key_copy_def copy_inited note_null_def const_result_def)

lemma const_result_ok: "const_result e = STORE_KEY_OK \<longleftrightarrow> ke_err e = 0"
proof -
  have "uint (ke_err e) = 0 \<longleftrightarrow> ke_err e = 0" by (simp add: uint_0_iff)
  then show ?thesis by (auto simp: const_result_def)
qed

lemma const_result_note_null [simp]: "const_result (note_null e) = const_result e"
  by (simp add: const_result_def note_null_def)

lemma const_result_conv: "const_result e = STORE_KEY_CONV \<longleftrightarrow> ke_err e = 2"
proof -
  have "ke_err e = 2 \<longleftrightarrow> uint (ke_err e) = 2" "2 < ke_err e \<longleftrightarrow> 2 < uint (ke_err e)" by (simp_all add: word_uint_eq_iff word_less_def)
  moreover have "uint (ke_err e) = 0 \<or> uint (ke_err e) = 1 \<or> uint (ke_err e) = 2 \<or> 2 < uint (ke_err e)"
    using uint_nonnegative [of "ke_err e"] by linarith
  ultimately show ?thesis unfolding const_result_def result_of_number.simps by auto
qed

lemma saved_err_zero: "saved_err res y = 0 \<longleftrightarrow> ke_err y = 0 \<and> \<not> ke_is_error y \<and> 0 \<le> res \<and> res mod 256 = 0"
  by (auto simp: saved_err_def uchar_of_int_zero)

lemma saved_err_two: "saved_err res y = 2 \<longleftrightarrow> ke_err y = 2 \<or> ke_err y = 0 \<and> 0 \<le> res \<and> res mod 256 = 2"
proof -
  have "(of_int res :: uchar) = 2 \<longleftrightarrow> res mod 256 = 2" by (simp add: word_uint_eq_iff uint_word_of_int)
  then show ?thesis by (auto simp: saved_err_def)
qed

text \<open>
  C39: A constant is copied into its key once.  The first copy of store_key_const_item calls save_in_field, with zero and invalid dates allowed, truncations ignored and
  all columns writable; the key field, the NULL flags and all else are then what save_in_field left, except that the modes and the column map of the session are those
  from before, the NULL flag of the copier says whether the field or the item is NULL, and the error byte is set as follows.  The copy is OK exactly when the error byte
  (where a NULL for a key without a NULL byte is noted) is still clear, the session has no error, and the code save_in_field returned is 0 or a positive multiple of
  256, whose low byte is 0; it reports a conversion exactly when the error byte is 2 or, with the error byte clear, the code is positive with low byte 2; and every
  other copy is fatal.  Every later copy calls nothing, changes nothing and gives the same result.  Saving is assumed to leave the copier's own flag inited alone.
\<close>

theorem constants_are_copied_once:
  assumes "\<not> ke_inited e" "save1 (saving_env all ws e) = (res, y)" "ke_inited y"
    and "store_key_copy (copy_inner_const_item all ws save1) e = (r1, e1)"
  shows "e1 = y\<lparr>ke_sql_mode := ke_sql_mode e, ke_count_cuted := ke_count_cuted e, ke_err := saved_err res y,
      ke_null_key := ke_field_null y \<or> ke_item_null y, ke_maps := (ke_maps y)(ws := ke_maps e ws)\<rparr> \<and>
    (r1 = STORE_KEY_OK \<longleftrightarrow> ke_err y = 0 \<and> \<not> ke_is_error y \<and> 0 \<le> res \<and> res mod 256 = 0) \<and>
    (r1 = STORE_KEY_CONV \<longleftrightarrow> ke_err y = 2 \<or> ke_err y = 0 \<and> 0 \<le> res \<and> res mod 256 = 2) \<and>
    (\<forall>save2. store_key_copy (copy_inner_const_item all ws save2) e1 = (r1, e1))"
proof -
  have e1: "r1 = const_result e1" "e1 = saved_key ws e res y" using first_copy [of e save1 all ws res y] assms(1,2,4) by simp_all
  have f: "ke_inited e1" "ke_null_key e1 \<longleftrightarrow> ke_field_null e1 \<or> ke_item_null e1" "ke_err e1 = saved_err res y"
    using assms(3) by (simp_all add: e1(2) saved_key_def)
  show ?thesis
  proof (intro conjI)
    show "e1 = y\<lparr>ke_sql_mode := ke_sql_mode e, ke_count_cuted := ke_count_cuted e, ke_err := saved_err res y,
      ke_null_key := ke_field_null y \<or> ke_item_null y, ke_maps := (ke_maps y)(ws := ke_maps e ws)\<rparr>"
      by (simp add: e1(2) saved_key_def)
    show "r1 = STORE_KEY_OK \<longleftrightarrow> ke_err y = 0 \<and> \<not> ke_is_error y \<and> 0 \<le> res \<and> res mod 256 = 0"
      unfolding e1(1) const_result_ok f(3) by (rule saved_err_zero)
    show "r1 = STORE_KEY_CONV \<longleftrightarrow> ke_err y = 2 \<or> ke_err y = 0 \<and> 0 \<le> res \<and> res mod 256 = 2"
      unfolding e1(1) const_result_conv f(3) by (rule saved_err_two)
    show "\<forall>save2. store_key_copy (copy_inner_const_item all ws save2) e1 = (r1, e1)"
      using later_copy [OF f(1,2)] e1(1) by blast
  qed
qed

text \<open>A failure whose code is a multiple of 256 is lost in the error byte, and the copy reports OK.\<close>

theorem failure_code_truncated:
  assumes "\<not> ke_inited e" "save (saving_env all ws e) = (256, y)" "ke_err y = 0" "\<not> ke_is_error y"
  shows "fst (store_key_copy (copy_inner_const_item all ws save) e) = STORE_KEY_OK"
  using first_copy [of e save all ws 256 y] assms by (simp add: const_result_ok saved_key_def saved_err_zero)

text \<open>A copier with an item returns fatal for every code outside the enumeration and for an error of the session, and reports NULL values.\<close>

lemma item_copy_result:
  assumes "copy_inner_item all ws use_value reset save_val save_in_field e = (r, e')"
  shows "(ke_err e' \<noteq> 0 \<longrightarrow> r = STORE_KEY_FATAL) \<and> (ke_is_error e' \<longrightarrow> r \<noteq> STORE_KEY_OK) \<and> (ke_null_key e' \<longleftrightarrow> ke_field_null e' \<or> ke_item_null e')"
  using assms by (auto simp: copy_inner_item_def with_all_columns_def tmp_use_all_columns_def Let_def split: prod.splits if_splits)

lemma field_copy_result:
  "copy_inner_field all ws bz do_copy e = (r, e') \<Longrightarrow> (r = STORE_KEY_OK \<longleftrightarrow> ke_err e' = 0) \<and> r \<noteq> STORE_KEY_CONV \<and> ke_null_key e' = ke_field_null e'"
  by (auto simp: copy_inner_field_def with_all_columns_def Let_def split: prod.splits if_splits)

section \<open>Slices\<close>

text \<open>The five slices of an array lie one after the other inside it.\<close>

lemma slice_bounds:
  "ref_ptr_array_slice j k = Some s \<Longrightarrow> bca_array s = bca_array (ref_pointer_array j) + k * (bca_size (ref_pointer_array j) div 5) \<and>
    bca_size s = bca_size (ref_pointer_array j) div 5 \<and> k < 5 \<and> bca_array s + bca_size s \<le> bca_array (ref_pointer_array j) + bca_size (ref_pointer_array j)"
proof -
  assume "ref_ptr_array_slice j k = Some s"
  then have k: "k < 5" "bca_size (ref_pointer_array j) mod 5 = 0" "s = bca_reset (bca_array (ref_pointer_array j) + k * (bca_size (ref_pointer_array j) div 5)) (bca_size (ref_pointer_array j) div 5)"
    by (auto simp: ref_ptr_array_slice_def Let_def DBUG_ASSERT_def bind_eq_Some_conv split: if_splits)
  then have "k * (bca_size (ref_pointer_array j) div 5) + bca_size (ref_pointer_array j) div 5 \<le> 5 * (bca_size (ref_pointer_array j) div 5)"
    by (metis Suc_leI add.commute mult_Suc mult_le_mono1)
  moreover have "5 * (bca_size (ref_pointer_array j) div 5) = bca_size (ref_pointer_array j)" using k(2) by auto
  ultimately show ?thesis using k by (simp add: bca_reset_def)
qed

definition slice_contents :: "(ptr \<Rightarrow> 'a) \<Rightarrow> Bounds_checked_array \<Rightarrow> 'a list" where
  "slice_contents m s = map m [bca_array s ..< bca_array s + bca_size s]"

definition slices_apart :: "Bounds_checked_array \<Rightarrow> Bounds_checked_array \<Rightarrow> bool" where
  "slices_apart s t \<longleftrightarrow> bca_array s + bca_size s \<le> bca_array t \<or> bca_array t + bca_size t \<le> bca_array s"

lemma copy_ref_same:
  assumes "bca_size src = bca_size dst"
  shows "\<exists>j'. copy_ref_ptr_array j dst src = Some j' \<and> slice_contents (refs j') dst = slice_contents (refs j) src \<and>
    (\<forall>t. slices_apart t dst \<longrightarrow> slice_contents (refs j') t = slice_contents (refs j) t) \<and> ref_ptrs j' = ref_ptrs j \<and> items0 j' = items0 j \<and>
    ref_pointer_array j' = ref_pointer_array j"
  using assms by (auto simp: copy_ref_ptr_array_def slice_contents_def slices_apart_def intro!: nth_equalityI)

text \<open>
  References that were replaced by another slice come back: remember the references, put those of any other slice of the same length in their place, and restore
  the remembered ones.
\<close>

lemma references_come_back:
  assumes "ref_ptr_array_slice j 1 = Some s1" "bca_size (ref_ptrs j) = bca_size s1" "slices_apart (ref_ptrs j) s1" "bca_size other = bca_size s1"
  shows "\<exists>j1 j2 j3. init_items_ref_array j = Some j1 \<and> set_items_ref_array j1 other = Some j2 \<and> set_items_ref_array j2 (items0 j2) = Some j3 \<and>
    slice_contents (refs j2) (ref_ptrs j) = slice_contents (refs j1) other \<and> slice_contents (refs j3) (ref_ptrs j) = slice_contents (refs j) (ref_ptrs j) \<and>
    current_ref_ptrs j3 = items0 j3"
proof -
  have apart: "slices_apart s1 (ref_ptrs j)" using assms(3) by (auto simp: slices_apart_def)
  let ?j = "j\<lparr>items0 := s1\<rparr>"
  from copy_ref_same [OF assms(2), of ?j] obtain j1 where j1: "copy_ref_ptr_array ?j s1 (ref_ptrs j) = Some j1"
    "slice_contents (refs j1) s1 = slice_contents (refs j) (ref_ptrs j)" "ref_ptrs j1 = ref_ptrs j" "items0 j1 = s1" by auto
  let ?j1 = "j1\<lparr>current_ref_ptrs := s1\<rparr>"
  from copy_ref_same [of other "ref_ptrs j" ?j1] assms(2,4) apart obtain j2 where j2: "copy_ref_ptr_array ?j1 (ref_ptrs j) other = Some j2"
    "slice_contents (refs j2) (ref_ptrs j) = slice_contents (refs j1) other" "slice_contents (refs j2) s1 = slice_contents (refs j1) s1"
    "ref_ptrs j2 = ref_ptrs j" "items0 j2 = s1" using j1 by auto
  let ?j2 = "j2\<lparr>current_ref_ptrs := other\<rparr>"
  from copy_ref_same [of s1 "ref_ptrs j" ?j2] assms(2) obtain j3 where j3: "copy_ref_ptr_array ?j2 (ref_ptrs j) s1 = Some j3"
    "slice_contents (refs j3) (ref_ptrs j) = slice_contents (refs j2) s1" "items0 j3 = s1" using j2 by auto
  show ?thesis
  proof (intro exI conjI)
    show "init_items_ref_array j = Some ?j1" using j1(1) assms(1) by (simp add: init_items_ref_array_def)
    show "set_items_ref_array ?j1 other = Some ?j2" using j2(1) j1(3) by (simp add: set_items_ref_array_def)
    show "set_items_ref_array ?j2 (items0 ?j2) = Some (j3\<lparr>current_ref_ptrs := s1\<rparr>)" using j3(1) j2(4,5) by (simp add: set_items_ref_array_def)
  qed (use j1 j2 j3 in simp_all)
qed

section \<open>Places and decisions\<close>

text \<open>
  A table that is the whole inner side of an outer join is its first and last table, and needs a match flag; a table below another nest, or one of several inner
  tables, is nested.
\<close>

lemma single_inner_table:
  assumes "this \<noteq> 0" "h this = Some t" "is_single_inner_of_outer_join h this t = Some True"
  shows "is_first_inner_for_outer_join this t" "is_last_inner_table h this t = Some True" "use_match_flag this t" "is_inner_tab_of_outer_join t"
    "get_first_inner_table t = this" "first_sj_inner_tab t = last_sj_inner_tab t \<Longrightarrow> is_nested_inner h t = Some (first_upper t \<noteq> 0)"
  using assms by (auto simp: is_single_inner_of_outer_join_def is_first_inner_for_outer_join_def is_last_inner_table_def use_match_flag_def
      is_inner_tab_of_outer_join_def get_first_inner_table_def is_nested_inner_def split: if_splits)

lemma access_allowed_outside: "used AND lookup = 0 \<Longrightarrow> access_from_tables_is_allowed sj t used lookup"
  by (simp add: access_from_tables_is_allowed_def)

lemma all_tables_map_bits: "table_count j \<le> MAX_TABLES \<Longrightarrow> bit (all_tables_map j) i \<longleftrightarrow> i < unat (table_count j)"
proof -
  assume "table_count j \<le> MAX_TABLES"
  then have "unat (table_count j) \<le> 61" by (simp add: MAX_TABLES_def word_le_nat_alt)
  moreover have "all_tables_map j = mask (unat (table_count j))" by (simp add: all_tables_map_def mask_eq_decr_exp push_bit_eq_mult)
  ultimately show ?thesis by (auto simp: bit_mask_iff possible_bit_def)
qed

lemma cached_lengths:
  assumes "\<And>b t. jt_used_fieldlength (calc b t) \<noteq> 0"
  shows "(case get_used_fieldlength calc t of (l, t1) \<Rightarrow> get_used_fieldlength calc t1 = (l, t1))"
  using assms by (auto simp: get_used_fieldlength_def Let_def)

lemma set_cond_both:
  "jt_select t \<noteq> 0 \<Longrightarrow> set_cond sc t c = (old, t', sc') \<Longrightarrow> select_cond t' = c \<and> sc' (jt_select t') = c \<and> old = select_cond t"
  by (auto simp: set_cond_def set_select_cond_def)

text \<open>A query without tables has one table less than none: the count wraps around.\<close>

lemma no_tables_wraps: "join_tables_list j = 0 \<Longrightarrow> aggr_tables j = 0 \<Longrightarrow> total_join_tab_cnt j = - 1"
  by (simp add: total_join_tab_cnt_def exec_join_tab_cnt_def)

text \<open>Constant tables never need a temporary table, except for DISTINCT with ROLLUP.\<close>

lemma const_tables_need_no_tmp: "only_const_tables j \<Longrightarrow> test_if_need_tmp_table j \<longleftrightarrow> \<not> rollup_none j \<and> select_distinct j"
  by (simp add: test_if_need_tmp_table_def only_const_tables_def)

section \<open>Fields of a virtual table\<close>

text \<open>Adding fields, as many as were planned, gives each its position, and counts lengths and nullable fields.\<close>

definition vt_blob_ok :: "Virtual_tmp_table \<Rightarrow> bool" where
  "vt_blob_ok t \<longleftrightarrow> 0 < vt_blob_fields t \<and> vt_blob_fields t \<le> vt_alloced t"

lemma vt_add_step:
  assumes "length (vt_array t) < vt_alloced t" "vt_flags f AND BLOB_FLAG = 0 \<or> vt_blob_ok t"
  shows "\<exists>t'. vt_add f t = Some t' \<and> vt_array t' = vt_array t @ [f\<lparr>vt_field_index := of_nat (length (vt_array t))\<rparr>] \<and>
    vt_reclength t' = vt_reclength t + ucast (vt_pack_length f) \<and> vt_null_fields t' = vt_null_fields t + of_bool (vt_flags f AND NOT_NULL_FLAG = 0) \<and>
    vt_alloced t' = vt_alloced t \<and> vt_blob_fields t' = vt_blob_fields t \<and> vt_freed t' = vt_freed t"
  using assms by (auto simp: vt_add_def vt_blob_ok_def)

lemma vt_add_full: "length (vt_array t) = vt_alloced t \<Longrightarrow> vt_add f t = None"
  by (simp add: vt_add_def)

text \<open>Destroying a table frees every field once, also when it is repeated.\<close>

lemma destruct_once: "vt_freed (destruct_fields (destruct_fields t)) = vt_freed t @ vt_array t"
  by (simp add: destruct_fields_def)

text \<open>A table that could not be opened keeps no field, unless it has no share.\<close>

lemma failed_table_is_empty: "create_virtual_tmp_table fresh init opn f = Some (False, Some t) \<Longrightarrow> vt_share t \<Longrightarrow> vt_array t = []"
  by (auto simp: create_virtual_tmp_table_def vt_destroy_def destruct_fields_def Let_def case_prod_beta bind_eq_Some_conv split: option.splits if_splits)

lemma pickers_empty:
  "\<not> in_firstmatch_prefix (firstmatch_set_empty p)" "first_loosescan_table (loosescan_set_empty p) = MAX_TABLES"
  "dupsweedout_tables (dups_set_empty p) = 0" "sjm_scan_need_tables (sjmat_set_empty p) = 0"
  by (simp_all add: in_firstmatch_prefix_def firstmatch_set_empty_def invalidate_firstmatch_prefix_def loosescan_set_empty_def dups_set_empty_def sjmat_set_empty_def)

section \<open>Instances\<close>

definition sample_key_env :: "nat key_env" where
  "sample_key_env = \<lparr>ke_sql_mode = 0, ke_count_cuted = CHECK_FIELD_WARN, ke_is_error = False, ke_field = 0, ke_field_null = False, ke_err = 0,
     ke_item_null = False, ke_null_key = False, ke_inited = False, ke_maps = id\<rparr>"

definition sample_save :: "nat key_env \<Rightarrow> int \<times> nat key_env" where
  "sample_save e = (2, e\<lparr>ke_field := 7\<rparr>)"

theorem constants_are_copied_once_witness:
  "\<exists>e1. store_key_copy (copy_inner_const_item 1 2 sample_save) sample_key_env = (STORE_KEY_CONV, e1) \<and>
    store_key_copy (copy_inner_const_item 1 2 (\<lambda>e. (0, e\<lparr>ke_field := 9\<rparr>))) e1 = (STORE_KEY_CONV, e1) \<and>
    ke_field e1 = 7 \<and> ke_err e1 = 2 \<and> ke_sql_mode e1 = 0 \<and> ke_maps e1 = id"
proof -
  obtain r1 e1 where c: "store_key_copy (copy_inner_const_item 1 2 sample_save) sample_key_env = (r1, e1)" by fastforce
  define y where "y = snd (sample_save (saving_env 1 2 sample_key_env))"
  have y: "ke_field y = 7" "ke_err y = 0" "ke_maps y = id(2 := 1)" "ke_inited y" "\<not> ke_is_error y"
    by (simp_all add: y_def sample_save_def saving_env_def sample_key_env_def)
  have "\<not> ke_inited sample_key_env" "sample_save (saving_env 1 2 sample_key_env) = (2, y)"
    by (simp_all add: sample_key_env_def sample_save_def y_def)
  from constants_are_copied_once [OF this y(4) c] y c show ?thesis
    by (auto simp: sample_key_env_def saved_err_def fun_eq_iff)
qed

end
