(* ===== verification/Partitions.thy ===== *)
theory Partitions
  imports NodeHeap
begin

text \<open>
  Partitioned tables (\<^verbatim>\<open>partition_element.h\<close>, \<^verbatim>\<open>partition_info.h\<close>, \<^verbatim>\<open>sql_partition.h\<close>): the tree of partitions and subpartitions, the flags of their engines, the
  kinds of partitions of system-versioned tables, the checks of their interval and limit, the partitioning of a table and the iterators over partition numbers.
  Subpartitions are a list inside their partition, since a partition owns them; the functions that compute partition numbers are compiled code.
\<close>

section \<open>Partitions\<close>

datatype partition_type = NOT_A_PARTITION | RANGE_PARTITION | HASH_PARTITION | LIST_PARTITION | VERSIONING_PARTITION

datatype partition_state = PART_NORMAL | PART_IS_DROPPED | PART_TO_BE_DROPPED | PART_TO_BE_ADDED | PART_TO_BE_REORGED | PART_REORGED_DROPPED
  | PART_CHANGED | PART_IS_CHANGED | PART_IS_ADDED | PART_ADMIN

datatype elem_type = CONVENTIONAL | CURRENT | HISTORY

record part_column_list_val =
  column_value :: ptr
  item_expression :: ptr
  pcl_partition_id :: uint32
  pcl_max_value :: bool
  pcl_null_value :: bool
  pcl_fixed :: uchar

record part_elem_value =
  pev_value :: uint64
  added_items :: uint32
  pev_null_value :: bool
  pev_unsigned_flag :: bool
  col_val_array :: "part_column_list_val list option"

record part_data =
  list_val_list :: "part_elem_value list"
  part_max_rows :: uint64
  part_min_rows :: uint64
  range_value :: uint64
  partition_name :: ptr
  tablespace_name :: ptr
  log_entry :: ptr
  part_comment :: ptr
  data_file_name :: ptr
  index_file_name :: ptr
  part_engine_type :: ptr
  connect_string :: "ptr \<times> uint64"
  part_state :: partition_state
  nodegroup_id :: uint16
  part_has_null_value :: bool
  signed_flag :: bool
  part_max_value :: bool
  part_id :: uint32
  part_empty :: bool

datatype partition_element = Partition_element (subpartitions: "partition_element list") (part: part_data)

definition NOT_A_PARTITION_ID :: uint32 where "NOT_A_PARTITION_ID = - 1"
definition UNDEF_NODEGROUP :: uint16 where "UNDEF_NODEGROUP = 65535"

text \<open>A partition without number has the same number, \<open>UINT_MAX32\<close>.  The kind of a partition shares its bits with the flags of a range; both bits set are no value of the enumeration.\<close>

definition elem_type_of :: "part_data \<Rightarrow> elem_type option" where
  "elem_type_of e =
     (let n = of_bool (signed_flag e) * 2 OR of_bool (part_max_value e) :: int
      in if n = 0 then Some CONVENTIONAL else if n = 1 then Some CURRENT else if n = 2 then Some HISTORY else None)"

definition elem_type_number :: "elem_type \<Rightarrow> int" where
  "elem_type_number v = (case v of CONVENTIONAL \<Rightarrow> 0 | CURRENT \<Rightarrow> 1 | HISTORY \<Rightarrow> 2)"

definition set_elem_type :: "part_data \<Rightarrow> elem_type \<Rightarrow> part_data" where
  "set_elem_type e v = e\<lparr>part_max_value := elem_type_number v AND 1 \<noteq> 0, signed_flag := elem_type_number v AND 2 \<noteq> 0\<rparr>"

definition part_data_new :: part_data where
  "part_data_new = \<lparr>list_val_list = [], part_max_rows = 0, part_min_rows = 0, range_value = 0, partition_name = 0, tablespace_name = 0, log_entry = 0,
     part_comment = 0, data_file_name = 0, index_file_name = 0, part_engine_type = 0, connect_string = (0, 0), part_state = PART_NORMAL,
     nodegroup_id = UNDEF_NODEGROUP, part_has_null_value = False, signed_flag = False, part_max_value = False, part_id = NOT_A_PARTITION_ID, part_empty = True\<rparr>"

text \<open>
  The copy is built in memory with unknown contents, \<open>raw\<close>: the constructor sets neither \<open>log_entry\<close> nor the two flags that hold the kind.
\<close>

definition part_data_copy :: "part_data \<Rightarrow> part_data \<Rightarrow> part_data" where
  "part_data_copy raw e = raw\<lparr>list_val_list := [], part_max_rows := part_max_rows e, part_min_rows := part_min_rows e, range_value := 0, partition_name := 0,
     tablespace_name := tablespace_name e, part_comment := part_comment e, data_file_name := data_file_name e, index_file_name := index_file_name e,
     part_engine_type := part_engine_type e, connect_string := (0, 0), part_state := part_state e, nodegroup_id := nodegroup_id e,
     part_has_null_value := False, part_id := part_id e, part_empty := part_empty e\<rparr>"

definition get_col_val :: "part_data \<Rightarrow> nat \<Rightarrow> part_column_list_val option" where
  "get_col_val e idx =
     do { DBUG_ASSERT (elem_type_of e = Some CONVENTIONAL \<or> length (list_val_list e) = 1);
          ev \<leftarrow> (case list_val_list e of [] \<Rightarrow> None | v # _ \<Rightarrow> Some v);
          vs \<leftarrow> col_val_array ev;
          if idx < length vs then Some (vs ! idx) else None }"

text \<open>Engines are named by pointers; \<open>ht\<close> gives the flags of an engine.\<close>

definition ha_check_storage_engine_flag :: "(ptr \<Rightarrow> uint32) \<Rightarrow> ptr \<Rightarrow> uint32 \<Rightarrow> bool" where
  "ha_check_storage_engine_flag ht db_type flag = (if db_type = 0 then False else ht db_type AND flag \<noteq> 0)"

fun find_engine_flag :: "(ptr \<Rightarrow> uint32) \<Rightarrow> uint32 \<Rightarrow> partition_element \<Rightarrow> bool"
  and find_engine_flag_loop :: "(ptr \<Rightarrow> uint32) \<Rightarrow> uint32 \<Rightarrow> partition_element list \<Rightarrow> bool" where
  "find_engine_flag ht flag (Partition_element subs d) =
     (if ha_check_storage_engine_flag ht (part_engine_type d) flag then True else find_engine_flag_loop ht flag subs)"
| "find_engine_flag_loop ht flag [] = False"
| "find_engine_flag_loop ht flag (e # es) = (if find_engine_flag ht flag e then True else find_engine_flag_loop ht flag es)"

section \<open>System-versioned tables\<close>

datatype interval_type = INTERVAL_YEAR | INTERVAL_QUARTER | INTERVAL_MONTH | INTERVAL_WEEK | INTERVAL_DAY | INTERVAL_HOUR | INTERVAL_MINUTE
  | INTERVAL_SECOND | INTERVAL_MICROSECOND | INTERVAL_YEAR_MONTH | INTERVAL_DAY_HOUR | INTERVAL_DAY_MINUTE | INTERVAL_DAY_SECOND
  | INTERVAL_HOUR_MINUTE | INTERVAL_HOUR_SECOND | INTERVAL_MINUTE_SECOND | INTERVAL_DAY_MICROSECOND | INTERVAL_HOUR_MICROSECOND
  | INTERVAL_MINUTE_MICROSECOND | INTERVAL_SECOND_MICROSECOND | INTERVAL_LAST

record INTERVAL =
  iv_year :: ulong
  iv_month :: ulong
  iv_day :: ulong
  iv_hour :: ulong
  iv_minute :: uint64
  iv_second :: uint64
  iv_second_part :: uint64
  iv_neg :: bool

record Vers_part_info =
  interval_start :: ulong
  interval_step :: INTERVAL
  interval_kind :: interval_type
  vers_limit :: uint64
  now_part :: "part_data option"
  hist_part :: "part_data option"

definition interval_is_set :: "Vers_part_info \<Rightarrow> bool" where
  "interval_is_set v \<longleftrightarrow> interval_kind v \<noteq> INTERVAL_LAST"

definition Vers_part_info_new :: "Vers_part_info \<Rightarrow> Vers_part_info" where
  "Vers_part_info_new raw = raw\<lparr>vers_limit := 0, now_part := None, hist_part := None, interval_kind := INTERVAL_LAST\<rparr>"

definition Vers_part_info_copy :: "Vers_part_info \<Rightarrow> Vers_part_info" where
  "Vers_part_info_copy src = src\<lparr>now_part := None, hist_part := None\<rparr>"

definition vers_initialized :: "Vers_part_info \<Rightarrow> bool option" where
  "vers_initialized v =
     (case now_part v of
        Some n \<Rightarrow> do { DBUG_ASSERT (part_id n \<noteq> NOT_A_PARTITION_ID);
                      DBUG_ASSERT (elem_type_of n = Some CURRENT);
                      (case hist_part v of Some p \<Rightarrow> do { DBUG_ASSERT (part_id p \<noteq> NOT_A_PARTITION_ID); DBUG_ASSERT (elem_type_of p = Some HISTORY) } | None \<Rightarrow> Some ());
                      Some True }
      | None \<Rightarrow> Some False)"

section \<open>Partitioning of a table\<close>

record partition_info =
  partitions :: "part_data list"
  part_type :: partition_type
  subpart_type :: partition_type
  num_parts :: uint32
  num_subparts :: uint32
  defined_max_value :: bool
  vers_info :: Vers_part_info

definition has_default_partititon :: "partition_info \<Rightarrow> bool" where
  "has_default_partititon p \<longleftrightarrow> part_type p = LIST_PARTITION \<and> defined_max_value p"

definition is_sub_partitioned :: "partition_info \<Rightarrow> bool" where
  "is_sub_partitioned p \<longleftrightarrow> (if subpart_type p = NOT_A_PARTITION then False else True)"

definition get_tot_partitions :: "partition_info \<Rightarrow> uint32" where
  "get_tot_partitions p = num_parts p * (if is_sub_partitioned p then num_subparts p else 1)"

text \<open>\<open>get_interval_value\<close> evaluates an item to an interval, and fails or gives its value.\<close>

definition vers_set_interval ::
  "(ptr \<Rightarrow> interval_type \<Rightarrow> INTERVAL \<Rightarrow> bool \<times> INTERVAL) \<Rightarrow> partition_info \<Rightarrow> ptr \<Rightarrow> interval_type \<Rightarrow> ulong \<Rightarrow> (bool \<times> partition_info) option" where
  "vers_set_interval get_interval_value p item int_type start =
     do { DBUG_ASSERT (part_type p = VERSIONING_PARTITION);
          let (err, step) = get_interval_value item int_type (interval_step (vers_info p)) in
          Some (err \<or> iv_neg step \<or> iv_second_part step \<noteq> 0 \<or>
                 \<not> (iv_year step \<noteq> 0 \<or> iv_month step \<noteq> 0 \<or> iv_day step \<noteq> 0 \<or> iv_hour step \<noteq> 0 \<or> iv_minute step \<noteq> 0 \<or> iv_second step \<noteq> 0),
                p\<lparr>vers_info := (vers_info p)\<lparr>interval_kind := int_type, interval_start := start, interval_step := step\<rparr>\<rparr>) }"

definition vers_set_limit :: "partition_info \<Rightarrow> uint64 \<Rightarrow> (bool \<times> partition_info) option" where
  "vers_set_limit p limit =
     do { DBUG_ASSERT (part_type p = VERSIONING_PARTITION); Some (limit = 0, p\<lparr>vers_info := (vers_info p)\<lparr>vers_limit := limit\<rparr>\<rparr>) }"

fun get_partition_loop :: "uint32 \<Rightarrow> part_data list \<Rightarrow> part_data option" where
  "get_partition_loop pid [] = None"
| "get_partition_loop pid (el # els) = (if part_id el = pid then Some el else get_partition_loop pid els)"

definition get_partition :: "partition_info \<Rightarrow> uint32 \<Rightarrow> part_data option" where
  "get_partition p pid = get_partition_loop pid (partitions p)"

section \<open>Iterators over partition numbers\<close>

text \<open>\<open>PARTITION_ITERATOR\<close> over numbers; the function that gives the next number is compiled code and the iterator only keeps its address.\<close>

record PARTITION_ITERATOR =
  pi_get_next :: ptr
  ret_null_part :: bool
  ret_null_part_orig :: bool
  ret_default_part :: bool
  ret_default_part_orig :: bool
  part_nums_start :: uint32
  part_nums_cur :: uint32
  part_nums_end :: uint32

definition init_single_partition_iterator :: "ptr \<Rightarrow> uint32 \<Rightarrow> PARTITION_ITERATOR \<Rightarrow> PARTITION_ITERATOR" where
  "init_single_partition_iterator get_next_partition_id_range pid it =
     it\<lparr>part_nums_cur := pid, part_nums_start := pid, part_nums_end := pid + 1, ret_null_part_orig := False, ret_null_part := False,
        ret_default_part_orig := False, ret_default_part := False, pi_get_next := get_next_partition_id_range\<rparr>"

definition init_all_partitions_iterator :: "ptr \<Rightarrow> partition_info \<Rightarrow> PARTITION_ITERATOR \<Rightarrow> PARTITION_ITERATOR" where
  "init_all_partitions_iterator get_next_partition_id_range p it =
     it\<lparr>part_nums_cur := 0, part_nums_start := 0, part_nums_end := num_parts p, ret_null_part_orig := False, ret_null_part := False,
        ret_default_part_orig := False, ret_default_part := False, pi_get_next := get_next_partition_id_range\<rparr>"

section \<open>Flags of engines\<close>

text \<open>The partition and everything below it.\<close>

fun part_elements :: "partition_element \<Rightarrow> part_data list" where
  "part_elements (Partition_element subs d) = d # concat (map part_elements subs)"

text \<open>The search stops at the first engine with the flag, and finds one exactly when a partition of the tree has such an engine.\<close>

lemma find_engine_flag_iff:
  "find_engine_flag ht flag e \<longleftrightarrow> (\<exists>d\<in>set (part_elements e). ha_check_storage_engine_flag ht (part_engine_type d) flag)"
  "find_engine_flag_loop ht flag es \<longleftrightarrow> (\<exists>e\<in>set es. \<exists>d\<in>set (part_elements e). ha_check_storage_engine_flag ht (part_engine_type d) flag)"
  by (induction ht flag e and ht flag es rule: find_engine_flag_find_engine_flag_loop.induct) auto

section \<open>Kinds of partitions\<close>

text \<open>The three kinds are encoded without loss; a partition of a range that is both signed and without upper bound has none of them.\<close>

lemma elem_type_cases:
  "elem_type_of e = (if signed_flag e then if part_max_value e then None else Some HISTORY else if part_max_value e then Some CURRENT else Some CONVENTIONAL)"
  by (simp add: elem_type_of_def Let_def)

lemma elem_type_round_trip: "elem_type_of (set_elem_type e v) = Some v"
  by (cases v) (simp_all add: elem_type_cases set_elem_type_def elem_type_number_def)

lemma elem_type_kept: "elem_type_of e = Some v \<Longrightarrow> set_elem_type e v = e"
  by (cases v) (auto simp: elem_type_cases set_elem_type_def elem_type_number_def split: if_splits)

text \<open>A copied partition has the kind its memory happened to hold, not the kind of the original.\<close>

lemma copy_loses_kind: "elem_type_of (part_data_copy raw e) = elem_type_of raw"
  by (simp add: elem_type_cases part_data_copy_def)

lemma new_partition: "elem_type_of part_data_new = Some CONVENTIONAL" "get_col_val part_data_new i = None"
  by (simp_all add: elem_type_cases part_data_new_def get_col_val_def)

section \<open>History\<close>

text \<open>A copy of the history of a table keeps interval and limit and is not initialised; a new one has no interval.\<close>

lemma vers_copies:
  "vers_initialized (Vers_part_info_copy v) = Some False" "vers_limit (Vers_part_info_copy v) = vers_limit v"
  "interval_is_set (Vers_part_info_copy v) = interval_is_set v" "vers_initialized (Vers_part_info_new v) = Some False" "\<not> interval_is_set (Vers_part_info_new v)"
  by (simp_all add: Vers_part_info_copy_def Vers_part_info_new_def vers_initialized_def interval_is_set_def)

lemma vers_initialized_iff:
  "vers_initialized v = Some True \<longleftrightarrow> (\<exists>n. now_part v = Some n \<and> part_id n \<noteq> NOT_A_PARTITION_ID \<and> elem_type_of n = Some CURRENT) \<and>
    (\<forall>p. hist_part v = Some p \<longrightarrow> part_id p \<noteq> NOT_A_PARTITION_ID \<and> elem_type_of p = Some HISTORY)"
  by (auto simp: vers_initialized_def DBUG_ASSERT_bind split: option.splits)

text \<open>
  Intervals: what is accepted is a whole and positive number of seconds, days, months or years; a refused interval is stored all the same.  A limit is accepted when it
  is not zero.
\<close>

lemma vers_interval_accepted:
  assumes "part_type p = VERSIONING_PARTITION" "get_interval_value item k (interval_step (vers_info p)) = (err, step)"
  shows "\<exists>q. vers_set_interval get_interval_value p item k start =
      Some (\<not> (\<not> err \<and> \<not> iv_neg step \<and> iv_second_part step = 0 \<and> ((\<exists>x\<in>{iv_year step, iv_month step, iv_day step, iv_hour step}. 0 < x) \<or> (\<exists>x\<in>{iv_minute step, iv_second step}. 0 < x))), q) \<and>
    interval_step (vers_info q) = step \<and> interval_kind (vers_info q) = k \<and> interval_start (vers_info q) = start \<and> vers_limit (vers_info q) = vers_limit (vers_info p)"
  using assms by (auto simp: vers_set_interval_def word_neq_0_conv)

lemma vers_limit_accepted:
  "part_type p = VERSIONING_PARTITION \<Longrightarrow> \<exists>q. vers_set_limit p l = Some (l = 0, q) \<and> vers_limit (vers_info q) = l \<and> interval_is_set (vers_info q) = interval_is_set (vers_info p)"
  by (simp add: vers_set_limit_def interval_is_set_def)

section \<open>Numbers of partitions\<close>

text \<open>The first partition with the number, if there is one.\<close>

lemma get_partition_find: "get_partition p pid = List.find (\<lambda>el. part_id el = pid) (partitions p)"
proof -
  have "get_partition_loop pid els = List.find (\<lambda>el. part_id el = pid) els" for els by (induction els) auto
  then show ?thesis by (simp add: get_partition_def)
qed

text \<open>The number of leaves, while it fits into 32 bits.\<close>

lemma tot_partitions:
  "unat (num_parts p) * unat (num_subparts p) < 2 ^ 32 \<Longrightarrow>
    unat (get_tot_partitions p) = unat (num_parts p) * (if subpart_type p = NOT_A_PARTITION then 1 else unat (num_subparts p))"
  using uint32_lt [of "num_parts p"] by (simp add: get_tot_partitions_def is_sub_partitioned_def unat_word_ariths)

text \<open>
  The numbers an iterator runs through.  The iterator of a single partition runs through that partition only; for the number that stands for no partition the end
  wraps around to 0 and the range is empty.
\<close>

definition iterated :: "PARTITION_ITERATOR \<Rightarrow> nat set" where
  "iterated it = {unat (part_nums_cur it) ..< unat (part_nums_end it)}"

lemma single_partition_iterated:
  "iterated (init_single_partition_iterator g pid it) = (if pid = NOT_A_PARTITION_ID then {} else {unat pid})"
proof (cases "pid = - 1")
  case False
  then have "unat pid \<noteq> 4294967295" by (auto simp: word_unat_eq_iff unsigned_minus_1_eq_mask mask_eq_exp_minus_1)
  then have "unat (pid + 1) = Suc (unat pid)" using uint32_lt [of pid] by (simp add: unat_word_ariths)
  then show ?thesis using False by (auto simp: iterated_def init_single_partition_iterator_def NOT_A_PARTITION_ID_def)
qed (simp add: iterated_def init_single_partition_iterator_def NOT_A_PARTITION_ID_def)

lemma all_partitions_iterated: "iterated (init_all_partitions_iterator g p it) = {..< unat (num_parts p)}"
  by (auto simp: iterated_def init_all_partitions_iterator_def)

end
