(* ===== verification/SessionTrackers.thy ===== *)
theory SessionTrackers
  imports NodeHeap Runs
begin

text \<open>
  Trackers of changes of the session state (\<^verbatim>\<open>session_tracker.h\<close>): the trackers a session owns, marking a change, the flags of the transaction tracker and the
  guard in front of it.  The trackers are objects of a heap that the session frees; what a tracker does when it is marked, and how it is sent to the client, are
  functions of compiled code.
\<close>

section \<open>Trackers\<close>

datatype enum_session_tracker = SESSION_SYSVARS_TRACKER | CURRENT_SCHEMA_TRACKER | SESSION_STATE_CHANGE_TRACKER | SESSION_GTIDS_TRACKER | TRANSACTION_INFO_TRACKER

definition session_tracker_number :: "enum_session_tracker \<Rightarrow> nat" where
  "session_tracker_number t = (case t of SESSION_SYSVARS_TRACKER \<Rightarrow> 0 | CURRENT_SCHEMA_TRACKER \<Rightarrow> 1 | SESSION_STATE_CHANGE_TRACKER \<Rightarrow> 2
     | SESSION_GTIDS_TRACKER \<Rightarrow> 3 | TRANSACTION_INFO_TRACKER \<Rightarrow> 4)"

definition SESSION_TRACKER_END :: nat where "SESSION_TRACKER_END = 5"

record State_tracker =
  m_enabled :: bool
  m_changed :: bool

definition State_tracker_new :: State_tracker where "State_tracker_new = \<lparr>m_enabled = False, m_changed = False\<rparr>"

text \<open>The array of a session has a pointer for every tracker; the pointer is null where there is none.\<close>

record session_trackers =
  tracker_heap :: "State_tracker node_heap"
  m_trackers :: "ptr list"

function deinit_loop :: "nat \<Rightarrow> session_trackers \<Rightarrow> session_trackers option" where
  "deinit_loop i s =
     (if i < SESSION_TRACKER_END
      then do { h \<leftarrow> (if m_trackers s ! i \<noteq> 0 then free_node (tracker_heap s) (m_trackers s ! i) else Some (tracker_heap s));
                deinit_loop (i + 1) (s\<lparr>tracker_heap := h, m_trackers := (m_trackers s)[i := 0]\<rparr>) }
      else Some s)"
  by pat_completeness auto
termination by (relation "measure (\<lambda>(i, s). SESSION_TRACKER_END - i)") auto

declare deinit_loop.simps [simp del]

definition tracker_deinit :: "session_trackers \<Rightarrow> session_trackers option" where
  "tracker_deinit s = deinit_loop 0 s"

text \<open>The destructor does the same as \<open>deinit\<close>.\<close>

definition session_tracker_destroy :: "session_trackers \<Rightarrow> session_trackers option" where
  "session_tracker_destroy s = tracker_deinit s"

definition get_tracker :: "session_trackers \<Rightarrow> enum_session_tracker \<Rightarrow> ptr" where
  "get_tracker s t = m_trackers s ! session_tracker_number t"

text \<open>\<open>mark\<close> is the virtual function of the tracker.\<close>

definition session_mark_as_changed ::
  "(ptr \<Rightarrow> 'd \<Rightarrow> session_trackers \<Rightarrow> session_trackers option) \<Rightarrow> session_trackers \<Rightarrow> enum_session_tracker \<Rightarrow> 'd \<Rightarrow> session_trackers option" where
  "session_mark_as_changed mark s t data =
     do { x \<leftarrow> read_node (tracker_heap s) (m_trackers s ! session_tracker_number t);
          if m_enabled x then mark (m_trackers s ! session_tracker_number t) data s else Some s }"

section \<open>The transaction tracker\<close>

definition TX_EMPTY :: uint32 where "TX_EMPTY = 0"
definition TX_EXPLICIT :: uint32 where "TX_EXPLICIT = 1"
definition TX_IMPLICIT :: uint32 where "TX_IMPLICIT = 2"
definition TX_READ_TRX :: uint32 where "TX_READ_TRX = 4"
definition TX_READ_UNSAFE :: uint32 where "TX_READ_UNSAFE = 8"
definition TX_WRITE_TRX :: uint32 where "TX_WRITE_TRX = 16"
definition TX_WRITE_UNSAFE :: uint32 where "TX_WRITE_UNSAFE = 32"
definition TX_STMT_UNSAFE :: uint32 where "TX_STMT_UNSAFE = 64"
definition TX_RESULT_SET :: uint32 where "TX_RESULT_SET = 128"
definition TX_WITH_SNAPSHOT :: uint32 where "TX_WITH_SNAPSHOT = 256"
definition TX_LOCKED_TABLES :: uint32 where "TX_LOCKED_TABLES = 512"

datatype enum_tx_read_flags = TX_READ_INHERIT | TX_READ_ONLY | TX_READ_WRITE

datatype enum_tx_isol_level = TX_ISOL_INHERIT | TX_ISOL_UNCOMMITTED | TX_ISOL_COMMITTED | TX_ISOL_REPEATABLE | TX_ISOL_SERIALIZABLE

datatype enum_session_track_transaction_info = TX_TRACK_NONE | TX_TRACK_STATE | TX_TRACK_CHISTICS

definition TX_CHG_NONE :: uint32 where "TX_CHG_NONE = 0"
definition TX_CHG_STATE :: uint32 where "TX_CHG_STATE = 1"
definition TX_CHG_CHISTICS :: uint32 where "TX_CHG_CHISTICS = 2"

record Transaction_state_tracker = State_tracker +
  tx_changed :: uint32
  tx_curr_state :: uint32
  tx_reported_state :: uint32
  tx_read_flags :: enum_tx_read_flags
  tx_isol_level :: enum_tx_isol_level

definition update_change_flags :: "(Transaction_state_tracker \<Rightarrow> Transaction_state_tracker) \<Rightarrow> Transaction_state_tracker \<Rightarrow> Transaction_state_tracker" where
  "update_change_flags mark_as_changed t =
     (let t1 = t\<lparr>tx_changed := tx_changed t AND NOT TX_CHG_STATE\<rparr>;
          t2 = t1\<lparr>tx_changed := tx_changed t1 OR (if tx_curr_state t1 \<noteq> tx_reported_state t1 then TX_CHG_STATE else 0)\<rparr>
      in if tx_changed t2 \<noteq> TX_CHG_NONE then mark_as_changed t2 else t2)"

text \<open>\<open>enable\<close> is \<open>update\<close> without a variable; the lock of a table is added as the state it stands for.\<close>

definition transaction_tracker_enable :: "('s \<Rightarrow> 'v option \<Rightarrow> bool \<times> 's) \<Rightarrow> 's \<Rightarrow> bool \<times> 's" where
  "transaction_tracker_enable update s = update s None"

definition add_trx_state_of_lock :: "('s \<Rightarrow> uint32 \<Rightarrow> 's) \<Rightarrow> ('s \<Rightarrow> 'l \<Rightarrow> bool \<Rightarrow> uint32) \<Rightarrow> 's \<Rightarrow> 'l \<Rightarrow> bool \<Rightarrow> 's" where
  "add_trx_state_of_lock add_trx_state calc_trx_state s l has_trx = add_trx_state s (calc_trx_state s l has_trx)"

definition track_number :: "enum_session_track_transaction_info \<Rightarrow> nat" where
  "track_number i = (case i of TX_TRACK_NONE \<Rightarrow> 0 | TX_TRACK_STATE \<Rightarrow> 1 | TX_TRACK_CHISTICS \<Rightarrow> 2)"

definition TRANSACT_TRACKER ::
  "(ptr \<Rightarrow> session_trackers \<Rightarrow> session_trackers option) \<Rightarrow> enum_session_track_transaction_info \<Rightarrow> session_trackers \<Rightarrow> session_trackers option" where
  "TRANSACT_TRACKER X session_track_transaction_info s =
     (if track_number TX_TRACK_NONE < track_number session_track_transaction_info then X (get_tracker s TRANSACTION_INFO_TRACKER) s else Some s)"

section \<open>Every tracker is freed once\<close>

text \<open>The array has all its entries; the trackers in it are different live objects.\<close>

definition trackers_ok :: "session_trackers \<Rightarrow> bool" where
  "trackers_ok s \<longleftrightarrow> length (m_trackers s) = SESSION_TRACKER_END \<and> distinct (filter (\<lambda>p. p \<noteq> 0) (m_trackers s)) \<and>
     (\<forall>p\<in>set (m_trackers s). p \<noteq> 0 \<longrightarrow> tracker_heap s p \<noteq> None)"

definition trackers_freed :: "session_trackers \<Rightarrow> session_trackers" where
  "trackers_freed s = s\<lparr>tracker_heap := (\<lambda>p. if p \<noteq> 0 \<and> p \<in> set (m_trackers s) then None else tracker_heap s p),
     m_trackers := replicate SESSION_TRACKER_END 0\<rparr>"

lemma deinit_loop_frees:
  assumes "length (zs @ ps) = SESSION_TRACKER_END" "m_trackers s = zs @ ps" "distinct (filter (\<lambda>p. p \<noteq> 0) ps)" "\<forall>p\<in>set ps. p \<noteq> 0 \<longrightarrow> tracker_heap s p \<noteq> None"
  shows "deinit_loop (length zs) s =
    Some (s\<lparr>tracker_heap := (\<lambda>p. if p \<noteq> 0 \<and> p \<in> set ps then None else tracker_heap s p), m_trackers := zs @ replicate (length ps) 0\<rparr>)"
  using assms
proof (induction ps arbitrary: zs s)
  case Nil
  then show ?case by (auto simp: deinit_loop.simps [of SESSION_TRACKER_END s])
next
  case (Cons p ps)
  define h where "h = (if p \<noteq> 0 then (tracker_heap s)(p := None) else tracker_heap s)"
  define s1 where "s1 = s\<lparr>tracker_heap := h, m_trackers := (zs @ [0]) @ ps\<rparr>"
  have "(if p \<noteq> 0 then free_node (tracker_heap s) p else Some (tracker_heap s)) = Some h"
    using Cons.prems(4) by (auto simp: h_def)
  then have "deinit_loop (length zs) s = deinit_loop (length (zs @ [0])) s1"
    using Cons.prems(1,2)
    by (cases s) (auto simp: deinit_loop.simps [of "length zs"] s1_def list_update_append split: if_splits)
  also have "\<dots> = Some (s1\<lparr>tracker_heap := (\<lambda>q. if q \<noteq> 0 \<and> q \<in> set ps then None else tracker_heap s1 q), m_trackers := (zs @ [0]) @ replicate (length ps) 0\<rparr>)"
    using Cons.prems by (intro Cons.IH) (auto simp: s1_def h_def split: if_splits)
  also have "\<dots> = Some (s\<lparr>tracker_heap := (\<lambda>q. if q \<noteq> 0 \<and> q \<in> set (p # ps) then None else tracker_heap s q), m_trackers := zs @ replicate (length (p # ps)) 0\<rparr>)"
    by (auto simp: s1_def h_def fun_eq_iff)
  finally show ?case .
qed

lemma tracker_deinit_frees: "trackers_ok s \<Longrightarrow> tracker_deinit s = Some (trackers_freed s)"
  using deinit_loop_frees [of "[]" "m_trackers s" s] by (simp add: tracker_deinit_def trackers_ok_def trackers_freed_def)

lemma trackers_freed_ok: "trackers_ok s \<Longrightarrow> trackers_ok (trackers_freed s)"
  by (simp add: trackers_ok_def trackers_freed_def SESSION_TRACKER_END_def)

lemma trackers_freed_again: "length (m_trackers s) = SESSION_TRACKER_END \<Longrightarrow> trackers_freed (trackers_freed s) = trackers_freed s"
  by (simp add: trackers_freed_def fun_eq_iff)

text \<open>
  Calling deinit and then destroying the session frees every tracker exactly once: both calls return, and the second changes nothing.
\<close>

lemma deinit_then_destroy:
  assumes "trackers_ok s"
  shows "\<exists>s1. tracker_deinit s = Some s1 \<and> session_tracker_destroy s1 = Some s1 \<and> (\<forall>p\<in>set (m_trackers s). p \<noteq> 0 \<longrightarrow> tracker_heap s1 p = None) \<and>
    (\<forall>t. get_tracker s1 t = 0)"
proof -
  have "session_tracker_destroy (trackers_freed s) = Some (trackers_freed s)"
    using tracker_deinit_frees [OF trackers_freed_ok [OF assms]] trackers_freed_again assms
    by (simp add: session_tracker_destroy_def trackers_ok_def)
  moreover have "get_tracker (trackers_freed s) t = 0" for t
    by (cases t) (simp_all add: get_tracker_def trackers_freed_def session_tracker_number_def SESSION_TRACKER_END_def)
  ultimately show ?thesis using tracker_deinit_frees [OF assms] by (simp add: trackers_freed_def)
qed

text \<open>A change reaches the enabled trackers only; after deinit marking a change is a read through a null pointer.\<close>

lemma marking_is_guarded:
  assumes "p \<noteq> 0" "get_tracker s t = p" "tracker_heap s p = Some x"
  shows "session_mark_as_changed mark s t data = (if m_enabled x then mark p data s else Some s)"
  using assms by (simp add: session_mark_as_changed_def get_tracker_def)

lemma marking_after_deinit: "trackers_ok s \<Longrightarrow> session_mark_as_changed mark (trackers_freed s) t data = None"
  by (cases t) (simp_all add: session_mark_as_changed_def trackers_freed_def session_tracker_number_def SESSION_TRACKER_END_def)

section \<open>Change flags\<close>

text \<open>
  Afterwards the state flag says whether the state differs from the reported one, the other flags are kept, and the tracker is marked exactly when a flag is set.
\<close>

lemma change_flags:
  assumes "\<And>t. tx_changed (mark t) = tx_changed t"
  shows "bit (tx_changed (update_change_flags mark t)) 0 \<longleftrightarrow> tx_curr_state t \<noteq> tx_reported_state t"
    and "0 < i \<Longrightarrow> bit (tx_changed (update_change_flags mark t)) i \<longleftrightarrow> bit (tx_changed t) i"
proof -
  have new: "tx_changed (update_change_flags mark t) = tx_changed t AND NOT 1 OR of_bool (tx_curr_state t \<noteq> tx_reported_state t)"
    by (simp add: update_change_flags_def Let_def assms TX_CHG_STATE_def)
  show "bit (tx_changed (update_change_flags mark t)) 0 \<longleftrightarrow> tx_curr_state t \<noteq> tx_reported_state t"
    unfolding new by (simp add: bit_or_iff bit_and_iff bit_not_iff bit_of_bool_iff)
  show "bit (tx_changed (update_change_flags mark t)) i \<longleftrightarrow> bit (tx_changed t) i" if "0 < i"
    unfolding new using that by (auto simp: bit_or_iff bit_and_iff bit_not_iff bit_1_iff bit_of_bool_iff possible_bit_def dest: bit_imp_le_length)
qed

lemma unchanged_not_marked:
  "tx_changed t AND NOT TX_CHG_STATE = 0 \<Longrightarrow> tx_curr_state t = tx_reported_state t \<Longrightarrow> update_change_flags mark t = t\<lparr>tx_changed := TX_CHG_NONE\<rparr>"
  by (simp add: update_change_flags_def TX_CHG_NONE_def)

lemma untracked_transactions_cost_nothing: "TRANSACT_TRACKER X TX_TRACK_NONE s = Some s"
  by (simp add: TRANSACT_TRACKER_def)

end
