(* ===== verification/Spec2Isabelle.thy ===== *)
theory Spec2Isabelle
  imports ByteOrder IsamPack Bitmaps ListIterator IntrusiveLists PList LifoBuffer HashFilo Arrays
    TranxAllocator Spatial RangeArg SqlString WindowFuncs MdlKey SqlNumbers Histograms
    HandlerScan HandlerData ProfQueue AutoInc RecordFields Diagnostics Trackers
    WsrepAddress Transactions SessionClock SessionState CommitOrder Identifiers
    LexStream QueryTables BoundedQueue SqlTime InPredicate LooseScan TypeAttributes
    Items StoredPrograms Gcalc AuditEvents TableRefs LogEvents Replication
    CommonTables JoinCache JoinExec Partitions SessionTrackers
begin

text \<open>
  A verification library for the C and C++ code of the MariaDB 10.3 server that this repository carries.  That code is the
  set of server headers under \<^verbatim>\<open>src/MariaDB/include/mysql/server\<close> and its \<^verbatim>\<open>private\<close> directory; the library models the
  functions whose bodies are in these headers (macros, inline functions, templates and member functions) and proves what
  makes them correct.  The remaining sources of the server are not in the repository: a function that a header only declares is an
  argument of the definitions that call it, and a theorem that relies on it states as a hypothesis what its documentation promises.

  \<^bold>\<open>How the parts of the program work together.\<close>  A client connection is a session (\<open>THD\<close>).  Its lexer reads the text of
  a statement, its lists of items and tables are the linked lists of the server, its results and messages are strings and
  diagnostics.  To execute a statement the optimiser compares ranges and histograms, the executor opens scans on the handlers of
  storage engines, joins records through buffers, and fields move values between records, which are bytes in the machine-independent
  formats.  Engines register in the transaction of the session; commits are ordered, replicated and addressed to the nodes of a
  cluster.  Metadata locks, profiles and execution counters accompany every statement.

  \<^bold>\<open>Theories.\<close>
  Foundations:
  \<^item> \<open>Prelude\<close>: C integers as words, byte-addressed memory, the number a byte sequence denotes; the named collections.
  \<^item> \<open>Containers\<close>: the locales \<open>taking\<close>, \<open>fifo\<close>, \<open>lifo\<close> and \<open>deque\<close>, contracts of containers that hold a sequence, with clients that fill
    and drain them; they are interpreted on the lists, buffers, queues and interval lists below.
  \<^item> \<open>Runs\<close>: the locales \<open>simulation\<close> and \<open>progress_simulation\<close> for components whose clients call operations in any allowed order.
  \<^item> \<open>NodeHeap\<close>: linked nodes that are allocated and freed; an access to a dead node and a failing assertion have no result.

  Bytes, bits and numbers:
  \<^item> \<open>MyBit\<close> (\<^verbatim>\<open>my_bit.h\<close>): the loops and table lookups equal logarithm, population count, rounding and bit reversal.
  \<^item> \<open>ByteOrder\<close> (\<^verbatim>\<open>my_byteorder.h\<close> and its per-architecture headers): the portable and the x86 readers and writers agree, and reading
    gives back what was stored.
  \<^item> \<open>IsamPack\<close> (\<^verbatim>\<open>myisampack.h\<close>, \<^verbatim>\<open>my_compare.h\<close>): high-byte-first numbers, packed key lengths and record bits with their round trips.
  \<^item> \<open>Bitmaps\<close> (\<^verbatim>\<open>my_bitmap.h\<close>, \<^verbatim>\<open>sql_bitmap.h\<close>): bit operations as set operations; the locale of bit sets.
  \<^item> \<open>SqlNumbers\<close> (\<^verbatim>\<open>sql_type_int.h\<close>, \<^verbatim>\<open>sql_sequence.h\<close>): mixed signed and unsigned numbers, steps of a sequence.
  \<^item> \<open>SqlTime\<close> (\<^verbatim>\<open>my_time.h\<close>, \<^verbatim>\<open>sql_time.h\<close>, \<^verbatim>\<open>sql_type.h\<close>): times, dates and their conversions stay valid; fractions of a second.
  \<^item> \<open>TypeAttributes\<close> (\<^verbatim>\<open>sql_type.h\<close>, \<^verbatim>\<open>my_decimal.h\<close>, \<^verbatim>\<open>item_func.h\<close>): lengths of types in bytes, characters and digits, overflow checks.

  Containers:
  \<^item> \<open>BaseList\<close>, \<open>ListIterator\<close>, \<open>IntrusiveLists\<close> (\<^verbatim>\<open>sql_list.h\<close>) and \<open>PList\<close> (\<^verbatim>\<open>sql_plist.h\<close>): pointer lists over explicit heaps implement
    sequences; iterators edit them; the bubble sort ends and sorts.
  \<^item> \<open>HashFilo\<close> (\<^verbatim>\<open>hash_filo.h\<close>, \<^verbatim>\<open>sql_hset.h\<close>): the cache is a least-recently-used map.
  \<^item> \<open>LifoBuffer\<close> (\<^verbatim>\<open>sql_lifo_buffer.h\<close>), \<open>Arrays\<close> (\<^verbatim>\<open>mem_root_array.h\<close>, \<^verbatim>\<open>sql_array.h\<close>), \<open>ProfQueue\<close> (\<^verbatim>\<open>sql_profile.h\<close>),
    \<open>TranxAllocator\<close> (\<^verbatim>\<open>semisync_master.h\<close>), \<open>AutoInc\<close> (\<^verbatim>\<open>structs.h\<close>): buffers that stay in their space, queues and allocators that never
    hand out a node twice, intervals of reserved numbers.
  \<^item> \<open>BoundedQueue\<close> (\<^verbatim>\<open>bounded_queue.h\<close>, \<^verbatim>\<open>queues.h\<close>): the queue of a sort with a limit keeps the best keys.
  \<^item> \<open>SqlString\<close> (\<^verbatim>\<open>sql_string.h\<close>): appending and reserving write only into accessible memory and give the expected contents.

  Optimiser and executor:
  \<^item> \<open>RangeArg\<close> (\<^verbatim>\<open>opt_range.h\<close>), \<open>Histograms\<close> (\<^verbatim>\<open>sql_statistics.h\<close>), \<open>Spatial\<close> (\<^verbatim>\<open>spatial.h\<close>): intervals, selectivities and rectangles as sets
    of values.
  \<^item> \<open>Gcalc\<close> (\<^verbatim>\<open>gcalc_slicescan.h\<close>, \<^verbatim>\<open>gcalc_tools.h\<close>): the item pool, the protocol of shapes and the even-odd rule of spatial calculations.
  \<^item> \<open>HandlerScan\<close>, \<open>HandlerData\<close> (\<^verbatim>\<open>handler.h\<close>): the wrappers call an engine only in the order of its protocol; transaction identifiers and costs.
  \<^item> \<open>RecordFields\<close> (\<^verbatim>\<open>field.h\<close>), \<open>WindowFuncs\<close> (\<^verbatim>\<open>item_windowfunc.h\<close>), \<open>Trackers\<close> (\<^verbatim>\<open>sql_analyze_stmt.h\<close>): values in records, window functions,
    counters.
  \<^item> \<open>InPredicate\<close> (\<^verbatim>\<open>item_cmpfunc.h\<close>): the search behind \<open>IN\<close> and \<open>CASE\<close> with shared comparison objects and unknown results.
  \<^item> \<open>Items\<close> (\<^verbatim>\<open>item.h\<close>, \<^verbatim>\<open>item_subselect.h\<close>): arguments and the tables they use, strategies of \<open>IN\<close> subqueries, null rows of ordered keys.
  \<^item> \<open>LooseScan\<close> (\<^verbatim>\<open>opt_subselect.h\<close>): a loose index scan is offered only where it applies, and the cheapest one is recorded.
  \<^item> \<open>JoinCache\<close> (\<^verbatim>\<open>sql_join_cache.h\<close>): the numbers in a join buffer, written with \<open>ByteOrder\<close>, as interpretations of the locales \<open>cells\<close> and
    \<open>ref_cells\<close>; the circles of records and the lists of keys of the hash table; the space left and the auxiliary buffer.
  \<^item> \<open>JoinExec\<close> (\<^verbatim>\<open>sql_select.h\<close>): places of tables in nests, copies of values into keys with the session restored, slices of references (with
    \<open>Arrays\<close>), decisions of a join, virtual temporary tables, semi-join strategies.
  \<^item> \<open>CommonTables\<close> (\<^verbatim>\<open>sql_cte.h\<close>): common table expressions; the maps of a WITH clause refine sets of elements, the walk around mutually
    recursive elements returns on every circle, the clauses of a statement form a list.
  \<^item> \<open>Partitions\<close> (\<^verbatim>\<open>partition_element.h\<close>, \<^verbatim>\<open>partition_info.h\<close>, \<^verbatim>\<open>sql_partition.h\<close>): the tree of partitions, kinds of partitions of versioned tables,
    intervals and limits, iterators over partition numbers.

  Parser:
  \<^item> \<open>LexStream\<close> (\<^verbatim>\<open>sql_lex.h\<close>): the character stream of the lexer with its pre-processed text.
  \<^item> \<open>QueryTables\<close> (\<^verbatim>\<open>sql_lex.h\<close>): the tables of a statement as a sequence, and the flags that make it unsafe for replication.
  \<^item> \<open>TableRefs\<close> (\<^verbatim>\<open>table.h\<close>): table references with their kinds, numbers, versions and nests; rows of NULLs (with \<open>RecordFields\<close>), tables
    appended for prelocking (with \<open>QueryTables\<close>), the locale of field iterators.
  \<^item> \<open>StoredPrograms\<close> (\<^verbatim>\<open>sp_head.h\<close>, \<^verbatim>\<open>sp_pcontext.h\<close>): jump destinations, labels of nested blocks, ownership of parsed statements and items, packages;
    a routine makes the statement that calls it unsafe (with \<open>QueryTables\<close>), and its lists are those of \<open>BaseList\<close>.

  Sessions:
  \<^item> \<open>SessionClock\<close>, \<open>SessionState\<close>, \<open>CommitOrder\<close>, \<open>Identifiers\<close> (\<^verbatim>\<open>sql_class.h\<close>): statement times that increase as long as the seconds fit their 32 bits, kill levels, binary log
    formats, generated identifiers, waiting transactions, prepared statements, quoted names.
  \<^item> \<open>Transactions\<close> (\<^verbatim>\<open>handler.h\<close>, \<^verbatim>\<open>sql_class.h\<close>): the engines of a transaction and the flags that forbid a rollback.
  \<^item> \<open>Diagnostics\<close> (\<^verbatim>\<open>sql_error.h\<close>), \<open>MdlKey\<close> (\<^verbatim>\<open>mdl.h\<close>), \<open>WsrepAddress\<close> (\<^verbatim>\<open>wsrep_utils.h\<close>): conditions, lists of warnings and their stack, lock keys and their order,
    node addresses.
  \<^item> \<open>SessionTrackers\<close> (\<^verbatim>\<open>session_tracker.h\<close>): the trackers of a session are freed once, changes reach enabled trackers only, change flags.
  \<^item> \<open>AuditEvents\<close> (\<^verbatim>\<open>sql_audit.h\<close>, \<^verbatim>\<open>plugin_audit.h\<close>): the events delivered to audit plugins tell exactly which tables exist and who changed them.

  Binary log and replication:
  \<^item> \<open>LogEvents\<close> (\<^verbatim>\<open>log_event.h\<close>, \<^verbatim>\<open>rpl_constants.h\<close>): types and classes of events with their virtual functions, ownership of their buffers, sizes
    and formats, flags of row events, transaction keywords, unique initialisation vectors of encrypted logs.
  \<^item> \<open>Replication\<close> (\<^verbatim>\<open>rpl_rli.h\<close>, \<^verbatim>\<open>rpl_gtid.h\<close>, \<^verbatim>\<open>rpl_utility.h\<close>, \<^verbatim>\<open>rpl_parallel.h\<close>, \<^verbatim>\<open>rpl_injector.h\<close>, \<^verbatim>\<open>semisync_master_ack_receiver.h\<close>): groups of events, the
    queue of a worker as a refinement of a list, the protocol of injectors, and the two listeners for acknowledgements as
    interpretations of one locale, over the lists of \<open>IntrusiveLists\<close>.

  \<^bold>\<open>Conventions.\<close>  A class or structure is a record, an enumeration a datatype, or a set of word constants where the code computes with its
  values.  Member functions take and return the record; where the code follows pointers the objects live in a heap and the
  functions take addresses.  Unsigned types are words of their width, so overflow wraps as in C; signed types are words read with
  \<^const>\<open>sint\<close>, or integers where the code keeps them far from their bounds, as the theory then says.  Widths and structure layouts
  are those of the configuration the headers come with (\<^verbatim>\<open>my_config.h\<close>: \<open>long\<close> has 32 bits, pointers and \<open>size_t\<close> have 64)
  on a little-endian machine.  Numbers of type \<open>double\<close> are exact reals.  An access the language leaves undefined and a failing
  assertion give no result (\<^const>\<open>None\<close>), so a theorem that an operation returns also says that its accesses are allowed.
  Names of the code are kept; where two classes share a member name, or a name is taken in the logic, the definition carries a prefix.

  \<^bold>\<open>Loops.\<close>  A loop with an evident measure is a recursive function with a termination proof.  A loop over a linked structure may run forever on
  a damaged structure: it is a partial function into the option type, and the theorems prove that it returns on every well-formed structure.

  \<^bold>\<open>Not modelled.\<close>  Functions that the headers only declare, and the classes that consist of such declarations (most of the item and field type
  classes, and the parsing, writing and applying of log events); locking and thread scheduling, since the headers contain only the calls; performance
  instrumentation and debugging output; rounding of floating point numbers; the web front end, the trading back end and the scripts of
  the repository, which are programs in other languages.
\<close>

section \<open>Prelocking of a statement\<close>

text \<open>
  The list of tables of a statement (\<open>QueryTables\<close>), extended for prelocking by the references that \<open>TableRefs\<close> makes and cut back
  when the locks are released.
\<close>

text \<open>
  C37: A statement that needs prelocking, from its own tables back to its own tables: the end of the statement's own tables is marked, a
  reference is appended for every further table, and the list is then exactly the own tables followed by the new references, with
  the first of these as the first table that is not the statement's own; chopping off succeeds and leaves exactly the own tables,
  with no prelocking required.
\<close>

theorem prelocking_round_trip:
  assumes "table_rel U (h, q) (ts, None, seen)" "distinct us" "set us \<subseteq> U - seen - {0}"
  shows "\<exists>h1 q1 h2 q2. run_opt prelocking_link us (h, mark_as_requiring_prelocking (query_tables_last q) q) = Some (h1, q1) \<and>
    chain next_global h1 (query_tables q1) (ts @ us) \<and> requires_prelocking q1 \<and> first_not_own_table (h1, q1) = Some (hd (us @ [0])) \<and>
    chop_off_not_own_tables (h1, q1) = Some (h2, q2) \<and> chain next_global h2 (query_tables q2) ts \<and>
    query_tables_last q2 = query_tables_last q \<and> \<not> requires_prelocking q2"
proof -
  let ?q = "mark_as_requiring_prelocking (query_tables_last q) q"
  have "table_rel U (h, ?q) (ts, Some (length ts), seen)"
    using table_exec_step [OF assms(1), of Mark] by (simp add: table_exec_def seq_exec_def seq_ok_def)
  from prelocking_appends_all [OF this assms(2,3)] obtain h1 q1 where 1: "run_opt prelocking_link us (h, ?q) = Some (h1, q1)"
    "table_rel U (h1, q1) (ts @ us, Some (length ts), set us \<union> seen)" by auto
  note R1 = table_relD [OF 1(2)]
  from chop_step [OF 1(2)] obtain h2 q2 where 2: "chop_off_not_own_tables (h1, q1) = Some (h2, q2)"
    "table_rel U (h2, q2) (ts, None, set us \<union> seen)" by auto
  note R2 = table_relD [OF 2(2)]
  have "link_read (h1, q1) (link_of ts (length ts)) = Some (hd (us @ [0]))"
    using chain_link [OF R1(3), of "length ts"] by (cases us) (simp_all add: nth_append)
  then have "first_not_own_table (h1, q1) = Some (hd (us @ [0]))" using R1(5) by (simp add: first_not_own_table_def)
  moreover have "query_tables_last q2 = query_tables_last q" using R2(4) table_relD(4) [OF assms(1)] by simp
  ultimately show ?thesis using 1(1) 2(1) R1(3,5) R2(3,5) by (auto simp: requires_prelocking_def)
qed

theorem prelocking_round_trip_witness:
  "\<exists>h1 q1 h2 q2. run_opt prelocking_link [4, 6] ([4 \<mapsto> \<lparr>next_global = 0, prev_global = Query_tables\<rparr>, 6 \<mapsto> \<lparr>next_global = 0, prev_global = Query_tables\<rparr>],
       mark_as_requiring_prelocking Query_tables \<lparr>query_tables = 0, query_tables_last = Query_tables, query_tables_own_last = None\<rparr>) = Some (h1, q1) \<and>
     chain next_global h1 (query_tables q1) [4, 6] \<and> first_not_own_table (h1, q1) = Some 4 \<and>
     chop_off_not_own_tables (h1, q1) = Some (h2, q2) \<and> query_tables q2 = 0"
proof -
  let ?h = "[4 \<mapsto> \<lparr>next_global = 0, prev_global = Query_tables\<rparr>, 6 \<mapsto> \<lparr>next_global = 0, prev_global = Query_tables\<rparr>] :: table_heap"
  let ?q = "\<lparr>query_tables = 0, query_tables_last = Query_tables, query_tables_own_last = None\<rparr>"
  have "table_rel {4, 6} (?h, ?q) ([], None, {})" by (simp add: table_rel_def link_of_def)
  from prelocking_round_trip [OF this, of "[4, 6]"] show ?thesis by force
qed

end
